(* ===== verification/Prelude.thy ===== *)
theory Prelude
  imports Main "HOL-Library.Word"
begin

text \<open>
  Shared vocabulary of the development: the machine integers of the driver, the kernel's error
  numbers, the collections of hints the component proofs use, and generic lemmas on lists and
  words that more than one component needs.
\<close>

unbundle bit_operations_syntax

type_synonym u8 = "8 word"
type_synonym u16 = "16 word"
type_synonym u32 = "32 word"
type_synonym u64 = "64 word"

text \<open>The types of a network interface, as cfg80211 numbers them.\<close>

datatype nl80211_iftype = NL80211_IFTYPE_UNSPECIFIED | NL80211_IFTYPE_ADHOC | NL80211_IFTYPE_STATION | NL80211_IFTYPE_AP
  | NL80211_IFTYPE_AP_VLAN | NL80211_IFTYPE_WDS | NL80211_IFTYPE_MONITOR | NL80211_IFTYPE_MESH_POINT
  | NL80211_IFTYPE_P2P_CLIENT | NL80211_IFTYPE_P2P_GO | NL80211_IFTYPE_P2P_DEVICE

named_theorems step_defs \<open>unfolding equations of the operations of a component\<close>
named_theorems inv_intros \<open>preservation of component invariants by single operations\<close>
named_theorems frame_simps \<open>fields an operation leaves alone\<close>

subsection \<open>Lists\<close>

text \<open>\<open>memcpy(&dst[at], src, n)\<close> on an array held as a list.\<close>

definition memcpy_at :: "'a list \<Rightarrow> nat \<Rightarrow> 'a list \<Rightarrow> 'a list" where
  "memcpy_at dst at src = take at dst @ src @ drop (at + length src) dst"

lemma length_memcpy_at [simp]:
  "at + length src \<le> length dst \<Longrightarrow> length (memcpy_at dst at src) = length dst"
  by (simp add: memcpy_at_def)

lemma take_memcpy_at:
  "at + length src \<le> length dst \<Longrightarrow>
     take (at + length src) (memcpy_at dst at src) = take at dst @ src"
  by (simp add: memcpy_at_def)

lemma memcpy_at_full:
  "at + length src = length dst \<Longrightarrow> memcpy_at dst at src = take at dst @ src"
  by (simp add: memcpy_at_def)

subsection \<open>Words\<close>

lemma unat_add_no_overflow:
  "unat (a :: 'a::len word) + unat b < 2 ^ LENGTH('a) \<Longrightarrow> unat (a + b) = unat a + unat b"
  by (rule unat_add_lem [THEN iffD1])

text \<open>Masks of the form \<open>2 ^ n - 1\<close>, and reading them as \<open>nat\<close> values.\<close>

lemma word_and_masks:
  "x AND 0x1 = take_bit 1 x" "x AND 0x3 = take_bit 2 x" "x AND 0x7 = take_bit 3 x"
  "x AND 0xF = take_bit 4 x" "x AND 0x3F = take_bit 6 x" "x AND 0xFF = take_bit 8 x"
  "x AND 0xFFF = take_bit 12 x"
  for x :: "'a::len word"
  by (simp_all add: take_bit_eq_mask mask_eq_exp_minus_1)

lemma unat_take_bit: "unat (take_bit n x) = unat x mod 2 ^ n" for x :: "'a::len word"
  by (subst unsigned_take_bit_eq) (rule take_bit_eq_mod)

lemma unat_drop_bit: "unat (drop_bit n x) = unat x div 2 ^ n" for x :: "'a::len word"
  by (subst unat_drop_bit_eq) (rule drop_bit_eq_div)

lemma unat_push_bit: "unat (push_bit n x) = unat x * 2 ^ n mod 2 ^ LENGTH('a)" for x :: "'a::len word"
  by (subst unsigned_push_bit_eq, subst take_bit_eq_mod, subst push_bit_eq_mult) (rule refl)

lemmas unat_bit_ops = unat_take_bit unat_drop_bit unat_push_bit

lemma unat_u32_less [simp]: "unat (x :: u32) < 4294967296"
  using unsigned_less [of x, where 'a = nat] by simp

lemma unat_of_nat_small: "n < 2 ^ LENGTH('a) \<Longrightarrow> unat (of_nat n :: 'a::len word) = n"
  by (simp add: unat_of_nat take_bit_eq_mod)

lemma uint_pos_iff: "0 < uint x \<longleftrightarrow> x \<noteq> 0"
  using uint_nonnegative [of x] uint_0_iff [of x] by linarith

lemma unat_inc:
  "a < b \<Longrightarrow> unat (a + 1 :: 'a::len word) = Suc (unat a)"
  by unat_arith

text \<open>Zero extension keeps the value.\<close>

lemma unat_ucast_up: "LENGTH('a) \<le> LENGTH('b) \<Longrightarrow> unat (ucast (x :: 'a::len word) :: 'b::len word) = unat x"
  by (metis is_up unat_eq_nat_uint uint_up_ucast source_size target_size word_size)

lemma unat_ucast_u16_u32 [simp]: "unat (ucast (x :: u16) :: u32) = unat x"
  by (rule unat_ucast_up) simp

text \<open>Flags are single bits of a word.\<close>

lemma bit_or_pow: "k < LENGTH('a) \<Longrightarrow> bit (x OR 2 ^ k) n = (n = k \<or> bit x n)" for x :: "'a::len word"
  by (auto simp: bit_or_iff bit_exp_iff)

lemma bit_clear_pow: "bit (x AND NOT (2 ^ k)) n = (n \<noteq> k \<and> bit x n)" for x :: "'a::len word"
  by (auto simp: bit_and_iff bit_not_iff bit_exp_iff dest: bit_imp_le_length)

lemma and_or_zero: "x AND (a OR b) = 0 \<longleftrightarrow> x AND a = 0 \<and> x AND b = 0" for x :: "'a::len word"
  by (auto simp: bit_eq_iff bit_or_iff bit_and_iff)

end
