(* ===== verification/Md5.thy ===== *)
theory Md5
  imports Prelude
begin

text \<open>
  The MD5 digest the driver prints for firmware images: \<^verbatim>\<open>aic8800_fdrv/md5.c\<close>, \<^verbatim>\<open>md5.h\<close>
  (\<^verbatim>\<open>aic8800_bsp/md5.c\<close> is the same file).  The context is a record with the bit counter as two
  32-bit halves; arrays are lists.
\<close>

unbundle bit_operations_syntax

subsection \<open>State and round functions\<close>

record MD5_CTX =
  md5_count :: "u32 \<times> u32"
  md5_state :: "u32 list"
  md5_buffer :: "u8 list"

definition PADDING :: "u8 list" where
  "PADDING = 0x80 # replicate 63 0"

definition F :: "u32 \<Rightarrow> u32 \<Rightarrow> u32 \<Rightarrow> u32" where
  "F x y z = ((x AND y) OR (NOT x AND z))"

definition G :: "u32 \<Rightarrow> u32 \<Rightarrow> u32 \<Rightarrow> u32" where
  "G x y z = ((x AND z) OR (y AND NOT z))"

definition H :: "u32 \<Rightarrow> u32 \<Rightarrow> u32 \<Rightarrow> u32" where
  "H x y z = (x XOR y XOR z)"

definition I :: "u32 \<Rightarrow> u32 \<Rightarrow> u32 \<Rightarrow> u32" where
  "I x y z = (y XOR (x OR NOT z))"

definition ROTATE_LEFT :: "u32 \<Rightarrow> nat \<Rightarrow> u32" where
  "ROTATE_LEFT x n = (push_bit n x OR drop_bit (32 - n) x)"

text \<open>The macros \<open>FF\<close>, \<open>GG\<close>, \<open>HH\<close>, \<open>II\<close> assign to their first argument; the value is returned.\<close>

definition FF :: "u32 \<Rightarrow> u32 \<Rightarrow> u32 \<Rightarrow> u32 \<Rightarrow> u32 \<Rightarrow> nat \<Rightarrow> u32 \<Rightarrow> u32" where
  "FF a b c d x s ac = ROTATE_LEFT (a + (F b c d + x + ac)) s + b"

definition GG :: "u32 \<Rightarrow> u32 \<Rightarrow> u32 \<Rightarrow> u32 \<Rightarrow> u32 \<Rightarrow> nat \<Rightarrow> u32 \<Rightarrow> u32" where
  "GG a b c d x s ac = ROTATE_LEFT (a + (G b c d + x + ac)) s + b"

definition HH :: "u32 \<Rightarrow> u32 \<Rightarrow> u32 \<Rightarrow> u32 \<Rightarrow> u32 \<Rightarrow> nat \<Rightarrow> u32 \<Rightarrow> u32" where
  "HH a b c d x s ac = ROTATE_LEFT (a + (H b c d + x + ac)) s + b"

definition II :: "u32 \<Rightarrow> u32 \<Rightarrow> u32 \<Rightarrow> u32 \<Rightarrow> u32 \<Rightarrow> nat \<Rightarrow> u32 \<Rightarrow> u32" where
  "II a b c d x s ac = ROTATE_LEFT (a + (I b c d + x + ac)) s + b"

subsection \<open>Byte order\<close>

text \<open>\<open>MD5Encode(output, input, len)\<close>: the bytes written; \<open>len\<close> is the number of bytes.\<close>

fun MD5Encode :: "u32 list \<Rightarrow> nat \<Rightarrow> u8 list" where
  "MD5Encode [] len = []"
| "MD5Encode (w # ws) len =
     (if 0 < len
      then ucast (w AND 0xFF) # ucast (drop_bit 8 w AND 0xFF) #
           ucast (drop_bit 16 w AND 0xFF) # ucast (drop_bit 24 w AND 0xFF) #
           MD5Encode ws (len - 4)
      else [])"

fun MD5Decode :: "u8 list \<Rightarrow> nat \<Rightarrow> u32 list" where
  "MD5Decode (b0 # b1 # b2 # b3 # bs) len =
     (if 0 < len
      then (ucast b0 OR push_bit 8 (ucast b1) OR push_bit 16 (ucast b2) OR push_bit 24 (ucast b3)) #
           MD5Decode bs (len - 4)
      else [])"
| "MD5Decode _ len = []"

subsection \<open>The compression function\<close>

text \<open>
  The 64 unrolled macro calls come in groups of four with the argument order \<open>abcd\<close>, \<open>dabc\<close>,
  \<open>cdab\<close>, \<open>bcda\<close>; \<open>md5_calls\<close> runs such a sequence of calls of one macro, given its
  \<open>(x, s, ac)\<close> arguments in source order.
\<close>

type_synonym regs = "u32 \<times> u32 \<times> u32 \<times> u32"

fun md5_calls ::
  "(u32 \<Rightarrow> u32 \<Rightarrow> u32 \<Rightarrow> u32 \<Rightarrow> u32 \<Rightarrow> nat \<Rightarrow> u32 \<Rightarrow> u32) \<Rightarrow> (u32 \<times> nat \<times> u32) list \<Rightarrow> regs \<Rightarrow> regs" where
  "md5_calls m ((x0, s0, k0) # (x1, s1, k1) # (x2, s2, k2) # (x3, s3, k3) # rest) (a, b, c, d) =
     (let a = m a b c d x0 s0 k0;
          d = m d a b c x1 s1 k1;
          c = m c d a b x2 s2 k2;
          b = m b c d a x3 s3 k3
      in md5_calls m rest (a, b, c, d))"
| "md5_calls m _ r = r"

definition round1_args :: "u32 list \<Rightarrow> (u32 \<times> nat \<times> u32) list" where
  "round1_args x =
    [(x ! 0, 7, 0xd76aa478), (x ! 1, 12, 0xe8c7b756), (x ! 2, 17, 0x242070db), (x ! 3, 22, 0xc1bdceee),
     (x ! 4, 7, 0xf57c0faf), (x ! 5, 12, 0x4787c62a), (x ! 6, 17, 0xa8304613), (x ! 7, 22, 0xfd469501),
     (x ! 8, 7, 0x698098d8), (x ! 9, 12, 0x8b44f7af), (x ! 10, 17, 0xffff5bb1), (x ! 11, 22, 0x895cd7be),
     (x ! 12, 7, 0x6b901122), (x ! 13, 12, 0xfd987193), (x ! 14, 17, 0xa679438e), (x ! 15, 22, 0x49b40821)]"

definition round2_args :: "u32 list \<Rightarrow> (u32 \<times> nat \<times> u32) list" where
  "round2_args x =
    [(x ! 1, 5, 0xf61e2562), (x ! 6, 9, 0xc040b340), (x ! 11, 14, 0x265e5a51), (x ! 0, 20, 0xe9b6c7aa),
     (x ! 5, 5, 0xd62f105d), (x ! 10, 9, 0x2441453), (x ! 15, 14, 0xd8a1e681), (x ! 4, 20, 0xe7d3fbc8),
     (x ! 9, 5, 0x21e1cde6), (x ! 14, 9, 0xc33707d6), (x ! 3, 14, 0xf4d50d87), (x ! 8, 20, 0x455a14ed),
     (x ! 13, 5, 0xa9e3e905), (x ! 2, 9, 0xfcefa3f8), (x ! 7, 14, 0x676f02d9), (x ! 12, 20, 0x8d2a4c8a)]"

definition round3_args :: "u32 list \<Rightarrow> (u32 \<times> nat \<times> u32) list" where
  "round3_args x =
    [(x ! 5, 4, 0xfffa3942), (x ! 8, 11, 0x8771f681), (x ! 11, 16, 0x6d9d6122), (x ! 14, 23, 0xfde5380c),
     (x ! 1, 4, 0xa4beea44), (x ! 4, 11, 0x4bdecfa9), (x ! 7, 16, 0xf6bb4b60), (x ! 10, 23, 0xbebfbc70),
     (x ! 13, 4, 0x289b7ec6), (x ! 0, 11, 0xeaa127fa), (x ! 3, 16, 0xd4ef3085), (x ! 6, 23, 0x4881d05),
     (x ! 9, 4, 0xd9d4d039), (x ! 12, 11, 0xe6db99e5), (x ! 15, 16, 0x1fa27cf8), (x ! 2, 23, 0xc4ac5665)]"

definition round4_args :: "u32 list \<Rightarrow> (u32 \<times> nat \<times> u32) list" where
  "round4_args x =
    [(x ! 0, 6, 0xf4292244), (x ! 7, 10, 0x432aff97), (x ! 14, 15, 0xab9423a7), (x ! 5, 21, 0xfc93a039),
     (x ! 12, 6, 0x655b59c3), (x ! 3, 10, 0x8f0ccc92), (x ! 10, 15, 0xffeff47d), (x ! 1, 21, 0x85845dd1),
     (x ! 8, 6, 0x6fa87e4f), (x ! 15, 10, 0xfe2ce6e0), (x ! 6, 15, 0xa3014314), (x ! 13, 21, 0x4e0811a1),
     (x ! 4, 6, 0xf7537e82), (x ! 11, 10, 0xbd3af235), (x ! 2, 15, 0x2ad7d2bb), (x ! 9, 21, 0xeb86d391)]"

definition MD5Transform :: "u32 list \<Rightarrow> u8 list \<Rightarrow> u32 list" where
  "MD5Transform st block =
     (let x = MD5Decode block 64;
          r = (st ! 0, st ! 1, st ! 2, st ! 3);
          r = md5_calls FF (round1_args x) r;
          r = md5_calls GG (round2_args x) r;
          r = md5_calls HH (round3_args x) r;
          (a, b, c, d) = md5_calls II (round4_args x) r
      in [st ! 0 + a, st ! 1 + b, st ! 2 + c, st ! 3 + d])"

subsection \<open>Init, update, final\<close>

text \<open>\<open>MD5Init\<close> leaves the buffer as it finds it.\<close>

definition MD5Init :: "MD5_CTX \<Rightarrow> MD5_CTX" where
  "MD5Init ctx = ctx\<lparr>md5_count := (0, 0),
     md5_state := [0x67452301, 0xEFCDAB89, 0x98BADCFE, 0x10325476]\<rparr>"

text \<open>
  The loop \<open>for (i = partlen; i + 64 <= inputlen; i += 64)\<close> on 32-bit counters.  With an
  \<open>inputlen\<close> within 64 of \<open>2 ^ 32\<close> the guard wraps and the loop need not end: \<open>None\<close>.
\<close>

partial_function (option) md5_blocks ::
  "u32 list \<Rightarrow> u8 list \<Rightarrow> u32 \<Rightarrow> u32 \<Rightarrow> (u32 list \<times> u32) option" where
  "md5_blocks st input i inputlen =
     (if i + 64 \<le> inputlen
      then md5_blocks (MD5Transform st (take 64 (drop (unat i) input))) input (i + 64) inputlen
      else Some (st, i))"

definition buf_index :: "MD5_CTX \<Rightarrow> u32" where
  "buf_index ctx = (drop_bit 3 (fst (md5_count ctx)) AND 0x3F)"

definition add_count :: "u32 \<times> u32 \<Rightarrow> u32 \<Rightarrow> u32 \<times> u32" where
  "add_count ct inputlen =
     (let c0 = fst ct + push_bit 3 inputlen;
          c1 = (if c0 < push_bit 3 inputlen then snd ct + 1 else snd ct)
      in (c0, c1 + drop_bit 29 inputlen))"

definition MD5Update :: "MD5_CTX \<Rightarrow> u8 list \<Rightarrow> u32 \<Rightarrow> MD5_CTX option" where
  "MD5Update ctx input inputlen =
     (let index = buf_index ctx;
          partlen = 64 - index;
          ctx = ctx\<lparr>md5_count := add_count (md5_count ctx) inputlen\<rparr>
      in if partlen \<le> inputlen
         then (let buf = memcpy_at (md5_buffer ctx) (unat index) (take (unat partlen) input);
                   st = MD5Transform (md5_state ctx) buf
               in case md5_blocks st input partlen inputlen of
                    None \<Rightarrow> None
                  | Some (st', i) \<Rightarrow>
                      Some (ctx\<lparr>md5_state := st', md5_buffer :=
                        memcpy_at buf 0 (take (unat (inputlen - i)) (drop (unat i) input))\<rparr>))
         else Some (ctx\<lparr>md5_buffer :=
                memcpy_at (md5_buffer ctx) (unat index) (take (unat inputlen) input)\<rparr>))"

definition MD5Final :: "MD5_CTX \<Rightarrow> (MD5_CTX \<times> u8 list) option" where
  "MD5Final ctx =
     (let index = buf_index ctx;
          padlen = (if index < 56 then 56 - index else 120 - index);
          bits = MD5Encode [fst (md5_count ctx), snd (md5_count ctx)] 8
      in case MD5Update ctx PADDING padlen of
           None \<Rightarrow> None
         | Some ctx1 \<Rightarrow>
             (case MD5Update ctx1 bits 8 of
                None \<Rightarrow> None
              | Some ctx2 \<Rightarrow> Some (ctx2, MD5Encode (md5_state ctx2) 16)))"

declare md5_blocks.simps [code]

subsection \<open>What a context stands for\<close>

text \<open>
  \<open>absorb\<close> compresses the complete 64-byte blocks of a byte string, \<open>pending\<close> is what is left;
  a context represents a message when its state, buffer prefix and bit counter say so.
\<close>

function absorb :: "u32 list \<Rightarrow> u8 list \<Rightarrow> u32 list" where
  "absorb st bs = (if length bs < 64 then st else absorb (MD5Transform st (take 64 bs)) (drop 64 bs))"
  by pat_completeness auto
termination by (relation "measure (\<lambda>(st, bs). length bs)") auto
declare absorb.simps [simp del]

definition pending :: "u8 list \<Rightarrow> u8 list" where
  "pending m = drop (64 * (length m div 64)) m"

lemma length_pending [simp]: "length (pending m) = length m mod 64"
  by (simp add: pending_def minus_mult_div_eq_mod)

lemma pending_small: "length m < 64 \<Longrightarrow> pending m = m"
  by (simp add: pending_def)

lemma pending_drop64: "64 \<le> length m \<Longrightarrow> pending (drop 64 m) = pending m"
  by (auto simp: pending_def le_div_geq algebra_simps)

lemma absorb_append: "absorb st (xs @ ys) = absorb (absorb st xs) (pending xs @ ys)"
proof (induction st xs rule: absorb.induct)
  case (1 st bs)
  show ?case
  proof (cases "length bs < 64")
    case True
    then show ?thesis by (simp add: absorb.simps [of st bs] pending_small)
  next
    case False
    with 1 show ?thesis
      by (simp add: absorb.simps [of st bs] absorb.simps [of st "bs @ ys"] pending_drop64)
  qed
qed

lemma absorb_step:
  "64 \<le> length bs \<Longrightarrow> absorb st bs = absorb (MD5Transform st (take 64 bs)) (drop 64 bs)"
  by (subst absorb.simps) simp

lemma absorb_small: "length bs < 64 \<Longrightarrow> absorb st bs = st"
  by (simp add: absorb.simps)

lemma absorb_step':
  "64 \<le> length (drop k bs) \<Longrightarrow>
   absorb st (drop k bs) = absorb (MD5Transform st (take 64 (drop k bs))) (drop (k + 64) bs)"
  by (subst absorb_step) (simp_all add: add.commute)

lemma pending_append: "pending (xs @ ys) = pending (pending xs @ ys)"
proof (induction xs rule: measure_induct_rule [of length])
  case (less xs)
  show ?case
  proof (cases "length xs < 64")
    case False
    then have "pending (drop 64 xs @ ys) = pending (pending (drop 64 xs) @ ys)" by (intro less) simp
    with False show ?thesis using pending_drop64 [of "xs @ ys"] pending_drop64 [of xs] by simp
  qed (simp add: pending_small)
qed

lemma md5_blocks_absorb:
  "unat inputlen + 64 < 2 ^ 32 \<Longrightarrow> length input = unat inputlen \<Longrightarrow> i \<le> inputlen \<Longrightarrow>
   \<exists>j. md5_blocks st input i inputlen = Some (absorb st (drop (unat i) input), j) \<and> j \<le> inputlen \<and>
       drop (unat j) input = pending (drop (unat i) input)"
proof (induction "unat (inputlen - i)" arbitrary: st i rule: less_induct)
  case less
  have ii: "unat (i + 64) = unat i + 64" using less.prems
    by (subst unat_add_no_overflow) (auto simp: word_le_nat_alt)
  show ?case
  proof (cases "i + 64 \<le> inputlen")
    case True
    then have le: "unat i + 64 \<le> unat inputlen" using ii by (simp add: word_le_nat_alt)
    have "unat (inputlen - (i + 64)) < unat (inputlen - i)"
      using True le less.prems ii by (simp add: unat_sub)
    from less.hyps [OF this less.prems(1,2) True, of "MD5Transform st (take 64 (drop (unat i) input))"]
    moreover have "pending (drop (unat i + 64) input) = pending (drop (unat i) input)"
      using pending_drop64 [of "drop (unat i) input"] le less.prems(2) by (simp add: add.commute)
    moreover have "absorb st (drop (unat i) input) =
        absorb (MD5Transform st (take 64 (drop (unat i) input))) (drop (unat i + 64) input)"
      by (rule absorb_step') (use le less.prems(2) in simp)
    ultimately show ?thesis using True ii
      by (simp add: md5_blocks.simps [of st] add.commute)
  next
    case False
    then have "unat inputlen < unat i + 64" using ii by (simp add: word_le_nat_alt)
    then show ?thesis using False less.prems
      by (simp add: md5_blocks.simps [of st] absorb_small pending_small)
  qed
qed

definition count_nat :: "u32 \<times> u32 \<Rightarrow> nat" where
  "count_nat ct = unat (fst ct) + 2 ^ 32 * unat (snd ct)"

lemma add_count_nat:
  "count_nat (add_count ct n) = (count_nat ct + 8 * unat n) mod 2 ^ 64"
proof -
  obtain c0 c1 where ct: "ct = (c0, c1)" by force
  define a where "a = unat c0"
  define m where "m = (8 * unat n) mod 2 ^ 32"
  define q where "q = unat n div 2 ^ 29"
  have a: "a < 2 ^ 32" and m: "m < 2 ^ 32" by (simp_all add: a_def m_def)
  have "8 * (unat n mod 536870912) = m"
    using mult_mod_right [of 8 "unat n" "2 ^ 29"] by (simp add: m_def)
  moreover have "536870912 * q + unat n mod 536870912 = unat n" by (simp add: q_def)
  ultimately have n8: "8 * unat n = m + 2 ^ 32 * q" by simp
  have um: "unat (push_bit 3 n :: u32) = m"
    by (simp add: m_def unat_bit_ops mult.commute)
  have uq: "unat (drop_bit 29 n :: u32) = q"
    by (simp add: q_def unat_bit_ops) 
  have s: "unat (c0 + push_bit 3 n) = (a + m) mod 2 ^ 32"
    by (simp add: unat_word_ariths um a_def)
  have lt: "c0 + push_bit 3 n < push_bit 3 n \<longleftrightarrow> 2 ^ 32 \<le> a + m"
    using a m by (cases "2 ^ 32 \<le> a + m") (auto simp: word_less_nat_alt s um mod_if)
  have hi: "(a + 2 ^ 32 * (x mod 2 ^ 32)) = (a + 2 ^ 32 * x) mod 2 ^ 64" if "a < 2 ^ 32" for a x :: nat
    using that mod_mult2_eq [of "a + 2 ^ 32 * x" "2 ^ 32" "2 ^ 32"] by simp
  let ?b = "unat c1"
  have f: "unat (fst (add_count ct n)) = (a + m) mod 2 ^ 32"
    by (simp add: ct add_count_def Let_def s del: unat_push_bit)
  have g: "unat (snd (add_count ct n)) = (?b + of_bool (2 ^ 32 \<le> a + m) + q) mod 2 ^ 32"
    by (simp add: ct add_count_def Let_def lt uq unat_word_ariths mod_simps)
  show ?thesis
  proof (cases "2 ^ 32 \<le> a + m")
    case True
    then have "(a + m) mod 2 ^ 32 = a + m - 2 ^ 32" using a m by (simp add: mod_if)
    then have "count_nat (add_count ct n) = (a + m - 2 ^ 32) + 2 ^ 32 * ((?b + 1 + q) mod 2 ^ 32)"
      using True by (simp add: count_nat_def f g)
    also have "\<dots> = (a + m - 2 ^ 32 + 2 ^ 32 * (?b + 1 + q)) mod 2 ^ 64" using a m by (intro hi) simp
    also have "a + m - 2 ^ 32 + 2 ^ 32 * (?b + 1 + q) = count_nat ct + 8 * unat n"
      using True n8 by (simp add: ct count_nat_def a_def algebra_simps)
    finally show ?thesis .
  next
    case False
    then have "count_nat (add_count ct n) = (a + m) + 2 ^ 32 * ((?b + q) mod 2 ^ 32)"
      by (simp add: count_nat_def f g)
    also have "\<dots> = (a + m + 2 ^ 32 * (?b + q)) mod 2 ^ 64" using False by (intro hi) simp
    also have "a + m + 2 ^ 32 * (?b + q) = count_nat ct + 8 * unat n"
      using n8 by (simp add: ct count_nat_def a_def algebra_simps)
    finally show ?thesis .
  qed
qed

definition represents :: "MD5_CTX \<Rightarrow> u8 list \<Rightarrow> bool" where
  "represents ctx msg \<longleftrightarrow>
     length (md5_buffer ctx) = 64 \<and>
     md5_state ctx = absorb [0x67452301, 0xEFCDAB89, 0x98BADCFE, 0x10325476] msg \<and>
     take (length msg mod 64) (md5_buffer ctx) = pending msg \<and>
     count_nat (md5_count ctx) = 8 * length msg mod 2 ^ 64"

lemma represents_index:
  assumes "represents ctx msg"
  shows "unat (buf_index ctx) = length msg mod 64"
proof -
  obtain c0 c1 where ct: "md5_count ctx = (c0, c1)" by force
  have "unat c0 = count_nat (md5_count ctx) mod 2 ^ 32" by (simp add: ct count_nat_def)
  also have "\<dots> = 8 * length msg mod 2 ^ 32"
    using assms by (simp add: represents_def mod_mod_cancel)
  finally have c0: "unat c0 = 8 * (length msg mod 2 ^ 29)"
    using mult_mod_right [of 8 "length msg" "2 ^ 29"] by simp
  have "unat (buf_index ctx) = (unat c0 div 8) mod 64"
    by (simp add: buf_index_def ct word_and_masks unat_bit_ops)
  also have "\<dots> = length msg mod 64" by (simp add: c0 mod_mod_cancel)
  finally show ?thesis .
qed


lemma represents_MD5Init:
  "length (md5_buffer ctx) = 64 \<Longrightarrow> represents (MD5Init ctx) []"
  by (simp add: represents_def MD5Init_def absorb_small pending_small count_nat_def)

lemma represents_MD5Update:
  assumes rep: "represents ctx msg" and len: "unat n = length input" and small: "length input + 64 < 2 ^ 32"
  shows "\<exists>ctx'. MD5Update ctx input n = Some ctx' \<and> represents ctx' (msg @ input)"
proof -
  let ?iv = "[0x67452301, 0xEFCDAB89, 0x98BADCFE, 0x10325476] :: u32 list"
  define k where "k = length msg mod 64"
  have k: "k < 64" by (simp add: k_def)
  have small': "unat n + 64 < 2 ^ 32" using small len by simp
  have idx: "unat (buf_index ctx) = k" using represents_index [OF rep] by (simp add: k_def)
  have part: "unat (64 - buf_index ctx) = 64 - k"
    using k idx by (simp add: unat_sub word_le_nat_alt)
  have buf: "length (md5_buffer ctx) = 64" and pend: "take k (md5_buffer ctx) = pending msg"
    and st: "md5_state ctx = absorb ?iv msg"
    using rep by (simp_all add: represents_def k_def)
  have cnt: "count_nat (add_count (md5_count ctx) n) = 8 * length (msg @ input) mod 2 ^ 64"
    using rep by (simp add: add_count_nat represents_def len mod_simps algebra_simps)
  show ?thesis
  proof (cases "64 - buf_index ctx \<le> n")
    case True
    then have fits: "64 - k \<le> length input" using part len by (simp add: word_le_nat_alt)
    define block where "block = memcpy_at (md5_buffer ctx) k (take (64 - k) input)"
    have block: "block = pending msg @ take (64 - k) input"
      using fits k buf by (simp add: block_def memcpy_at_full pend)
    have blen: "length block = 64" using fits k by (simp add: block k_def)
    obtain j where j: "md5_blocks (MD5Transform (md5_state ctx) block) input (64 - buf_index ctx) n =
          Some (absorb (MD5Transform (md5_state ctx) block) (drop (64 - k) input), j)"
        "j \<le> n" "drop (unat j) input = pending (drop (64 - k) input)"
      using md5_blocks_absorb [OF small' len [symmetric] True] unfolding part by blast
    have split: "pending msg @ input = block @ drop (64 - k) input" by (simp add: block)
    have ab: "absorb ?iv (msg @ input) = absorb (MD5Transform (md5_state ctx) block) (drop (64 - k) input)"
      using blen st by (subst absorb_append) (simp add: split absorb_step)
    have pe: "pending (msg @ input) = pending (drop (64 - k) input)"
      using blen pending_drop64 [of "block @ drop (64 - k) input"]
      by (subst pending_append) (simp add: split)
    have rest: "take (unat (n - j)) (drop (unat j) input) = pending (msg @ input)"
    proof -
      have "take (unat (n - j)) (drop (unat j) input) = drop (unat j) input"
        using j(2) len by (simp add: unat_sub)
      then show ?thesis by (simp only: j(3) pe)
    qed
    let ?c = "ctx\<lparr>md5_count := add_count (md5_count ctx) n, md5_state := absorb ?iv (msg @ input),
        md5_buffer := memcpy_at block 0 (pending (msg @ input))\<rparr>"
    have "MD5Update ctx input n = Some ?c"
      using True j(1) by (simp add: MD5Update_def Let_def idx part rest ab flip: block_def)
    moreover have "represents ?c (msg @ input)"
      using take_memcpy_at [of 0 "pending (msg @ input)" block] blen
      by (simp add: represents_def cnt)
    ultimately show ?thesis by blast
  next
    case False
    then have fits: "k + length input < 64" using part len k by (simp add: word_le_nat_alt)
    let ?c = "ctx\<lparr>md5_count := add_count (md5_count ctx) n,
        md5_buffer := memcpy_at (md5_buffer ctx) k input\<rparr>"
    have lm: "length (msg @ input) mod 64 = k + length input"
      using fits mod_add_left_eq [of "length msg" 64 "length input"] by (simp add: k_def)
    have ab: "absorb ?iv (msg @ input) = absorb ?iv msg"
      using fits by (subst absorb_append) (simp add: absorb_small flip: k_def)
    have pe: "pending (msg @ input) = pending msg @ input"
      using fits by (subst pending_append) (simp add: pending_small flip: k_def)
    have "MD5Update ctx input n = Some ?c"
      using False len by (simp add: MD5Update_def Let_def idx)
    moreover have "represents ?c (msg @ input)"
      using fits buf take_memcpy_at [of k input "md5_buffer ctx"] ab pe
      by (simp add: represents_def cnt lm [simplified] pend st)
    ultimately show ?thesis by blast
  qed
qed


definition md5_padding :: "u8 list \<Rightarrow> u8 list" where
  "md5_padding msg =
     take (if length msg mod 64 < 56 then 56 - length msg mod 64 else 120 - length msg mod 64) PADDING @
     MD5Encode [word_of_nat (8 * length msg), word_of_nat (8 * length msg div 2 ^ 32)] 8"

definition md5_digest :: "u8 list \<Rightarrow> u8 list" where
  "md5_digest msg =
     MD5Encode (absorb [0x67452301, 0xEFCDAB89, 0x98BADCFE, 0x10325476] (msg @ md5_padding msg)) 16"

lemma length_PADDING [simp]: "length PADDING = 64"
  by (simp add: PADDING_def)

text \<open>The padding call reads \<open>padlen\<close> bytes of the longer array \<open>PADDING\<close>.\<close>

lemma md5_blocks_none: "unat n < unat i + 64 \<Longrightarrow> unat i + 64 < 2 ^ 32 \<Longrightarrow> md5_blocks st input i n = Some (st, i)"
  by (subst md5_blocks.simps) (simp add: word_le_nat_alt unat_add_no_overflow)

lemma MD5Update_uses_prefix:
  assumes len: "length input = unat n" and small: "unat n \<le> 64" and idx: "unat (buf_index ctx) < 64"
  shows "MD5Update ctx (input @ rest) n = MD5Update ctx input n"
proof -
  have part: "unat (64 - buf_index ctx) = 64 - unat (buf_index ctx)"
    using idx by (simp add: unat_sub word_le_nat_alt)
  have "md5_blocks st xs (64 - buf_index ctx) n = Some (st, 64 - buf_index ctx)" for st xs
    using small idx by (intro md5_blocks_none) (simp_all add: part)
  then show ?thesis using len
    by (auto simp: MD5Update_def Let_def word_le_nat_alt unat_sub part)
qed

lemma represents_count:
  assumes "represents ctx msg"
  shows "[fst (md5_count ctx), snd (md5_count ctx)] =
    [word_of_nat (8 * length msg), word_of_nat (8 * length msg div 2 ^ 32)]"
proof -
  obtain c0 c1 where ct: "md5_count ctx = (c0, c1)" by force
  have n: "unat c0 + 2 ^ 32 * unat c1 = 8 * length msg mod 2 ^ 64"
    using assms by (simp add: represents_def ct count_nat_def)
  have "unat c0 = (unat c0 + 2 ^ 32 * unat c1) mod 2 ^ 32" by simp
  then have "unat c0 = (8 * length msg mod 2 ^ 64) mod 2 ^ 32" by (simp only: n)
  then have "unat c0 = unat (word_of_nat (8 * length msg) :: u32)"
    by (simp only: unat_of_nat) (simp add: mod_mod_cancel)
  then have a: "c0 = word_of_nat (8 * length msg)"
    by (simp only: word_unat_eq_iff)
  have "unat c1 = (unat c0 + 2 ^ 32 * unat c1) div 2 ^ 32" by simp
  then have "unat c1 = (8 * length msg mod 2 ^ 64) div 2 ^ 32" by (simp only: n)
  also have "\<dots> = (8 * length msg div 2 ^ 32) mod 2 ^ 32"
    using mod_mult2_eq [of "8 * length msg" "2 ^ 32" "2 ^ 32"] by simp
  finally have "c1 = word_of_nat (8 * length msg div 2 ^ 32)"
    by (simp add: word_unat_eq_iff unat_of_nat)
  with a show ?thesis by (simp add: ct)
qed

lemma represents_MD5Final:
  assumes rep: "represents ctx msg"
  shows "\<exists>ctx'. MD5Final ctx = Some (ctx', md5_digest msg)"
proof -
  let ?k = "length msg mod 64"
  let ?p = "if ?k < 56 then 56 - ?k else 120 - ?k"
  define padlen where "padlen = (if buf_index ctx < 56 then 56 - buf_index ctx else 120 - buf_index ctx)"
  have idx: "unat (buf_index ctx) = ?k" by (rule represents_index [OF rep])
  have pl: "unat padlen = ?p" 
    using idx by (auto simp: padlen_def word_less_nat_alt word_le_nat_alt unat_sub)
  have p64: "?p \<le> 64" using mod_less_divisor [of 64 "length msg"] by (simp del: mod_less_divisor) linarith
  have "MD5Update ctx PADDING padlen = MD5Update ctx (take ?p PADDING) padlen"
    using MD5Update_uses_prefix [of "take ?p PADDING" padlen ctx "drop ?p PADDING"] p64 idx
    by (simp add: pl del: append_take_drop_id) (simp add: pl)
  moreover obtain c1 where c1: "MD5Update ctx (take ?p PADDING) padlen = Some c1"
      "represents c1 (msg @ take ?p PADDING)"
    using represents_MD5Update [OF rep, of padlen "take ?p PADDING"] p64 by (auto simp: pl)
  moreover have len8: "length (MD5Encode [a, b] 8) = 8" for a b by simp
  moreover obtain c2 where c2: "MD5Update c1 (MD5Encode [fst (md5_count ctx), snd (md5_count ctx)] 8) 8 = Some c2"
      "represents c2 ((msg @ take ?p PADDING) @ MD5Encode [fst (md5_count ctx), snd (md5_count ctx)] 8)"
    using represents_MD5Update [OF c1(2), of 8 "MD5Encode [fst (md5_count ctx), snd (md5_count ctx)] 8"] by auto
  ultimately show ?thesis
    using represents_count [OF rep]
    by (simp add: MD5Final_def Let_def represents_def md5_digest_def md5_padding_def flip: padlen_def)
qed

subsection \<open>RFC 1321 as a loop\<close>

text \<open>
  The reference: 64 steps over a rotating register file, the message word, shift and round
  function of step \<open>i\<close> computed from \<open>i\<close>, the additive constants from RFC 1321's table \<open>T\<close>.
\<close>

definition rfc_T :: "u32 list" where
  "rfc_T =
    [0xd76aa478, 0xe8c7b756, 0x242070db, 0xc1bdceee, 0xf57c0faf, 0x4787c62a, 0xa8304613, 0xfd469501,
     0x698098d8, 0x8b44f7af, 0xffff5bb1, 0x895cd7be, 0x6b901122, 0xfd987193, 0xa679438e, 0x49b40821,
     0xf61e2562, 0xc040b340, 0x265e5a51, 0xe9b6c7aa, 0xd62f105d, 0x02441453, 0xd8a1e681, 0xe7d3fbc8,
     0x21e1cde6, 0xc33707d6, 0xf4d50d87, 0x455a14ed, 0xa9e3e905, 0xfcefa3f8, 0x676f02d9, 0x8d2a4c8a,
     0xfffa3942, 0x8771f681, 0x6d9d6122, 0xfde5380c, 0xa4beea44, 0x4bdecfa9, 0xf6bb4b60, 0xbebfbc70,
     0x289b7ec6, 0xeaa127fa, 0xd4ef3085, 0x04881d05, 0xd9d4d039, 0xe6db99e5, 0x1fa27cf8, 0xc4ac5665,
     0xf4292244, 0x432aff97, 0xab9423a7, 0xfc93a039, 0x655b59c3, 0x8f0ccc92, 0xffeff47d, 0x85845dd1,
     0x6fa87e4f, 0xfe2ce6e0, 0xa3014314, 0x4e0811a1, 0xf7537e82, 0xbd3af235, 0x2ad7d2bb, 0xeb86d391]"

definition rfc_f :: "nat \<Rightarrow> u32 \<Rightarrow> u32 \<Rightarrow> u32 \<Rightarrow> u32" where
  "rfc_f i = (if i < 16 then F else if i < 32 then G else if i < 48 then H else I)"

definition rfc_g :: "nat \<Rightarrow> nat" where
  "rfc_g i = (if i < 16 then i else if i < 32 then (5 * i + 1) mod 16
     else if i < 48 then (3 * i + 5) mod 16 else (7 * i) mod 16)"

definition rfc_s :: "nat \<Rightarrow> nat" where
  "rfc_s i = [7, 12, 17, 22, 5, 9, 14, 20, 4, 11, 16, 23, 6, 10, 15, 21] ! (4 * (i div 16) + i mod 4)"

definition rfc_step :: "u32 list \<Rightarrow> nat \<Rightarrow> regs \<Rightarrow> regs" where
  "rfc_step x i = (\<lambda>(a, b, c, d).
     (d, b + ROTATE_LEFT (a + rfc_f i b c d + x ! rfc_g i + rfc_T ! i) (rfc_s i), b, c))"

definition rfc_transform :: "u32 list \<Rightarrow> u8 list \<Rightarrow> u32 list" where
  "rfc_transform st block =
     (let (a, b, c, d) = fold (rfc_step (MD5Decode block 64)) [0..<64] (st ! 0, st ! 1, st ! 2, st ! 3)
      in [st ! 0 + a, st ! 1 + b, st ! 2 + c, st ! 3 + d])"

fun call_step ::
  "(u32 \<Rightarrow> u32 \<Rightarrow> u32 \<Rightarrow> u32 \<Rightarrow> u32 \<Rightarrow> nat \<Rightarrow> u32 \<Rightarrow> u32) \<Rightarrow> u32 \<times> nat \<times> u32 \<Rightarrow> regs \<Rightarrow> regs" where
  "call_step m (x, s, k) (a, b, c, d) = (d, m a b c d x s k, b, c)"

text \<open>A sequence of macro calls is a fold of single steps with rotating registers.\<close>

lemma md5_calls_fold: "length args mod 4 = 0 \<Longrightarrow> md5_calls m args r = fold (call_step m) args r"
proof (induction m args r rule: md5_calls.induct)
  case (1 m x0 s0 k0 x1 s1 k1 x2 s2 k2 x3 s3 k3 rest a b c d)
  then show ?case by (simp add: Let_def mod_Suc split: if_splits)
qed simp_all

text \<open>The arguments of each round's calls, computed from the step number.\<close>

lemma rfc_table1:
  "map (\<lambda>i. (rfc_g i, rfc_s i, rfc_T ! i)) [0..<16] =
    [(0, 7, 0xd76aa478), (1, 12, 0xe8c7b756), (2, 17, 0x242070db), (3, 22, 0xc1bdceee),
     (4, 7, 0xf57c0faf), (5, 12, 0x4787c62a), (6, 17, 0xa8304613), (7, 22, 0xfd469501),
     (8, 7, 0x698098d8), (9, 12, 0x8b44f7af), (10, 17, 0xffff5bb1), (11, 22, 0x895cd7be),
     (12, 7, 0x6b901122), (13, 12, 0xfd987193), (14, 17, 0xa679438e), (15, 22, 0x49b40821)]"
  by code_simp

lemma rfc_table2:
  "map (\<lambda>i. (rfc_g i, rfc_s i, rfc_T ! i)) [16..<32] =
    [(1, 5, 0xf61e2562), (6, 9, 0xc040b340), (11, 14, 0x265e5a51), (0, 20, 0xe9b6c7aa),
     (5, 5, 0xd62f105d), (10, 9, 0x2441453), (15, 14, 0xd8a1e681), (4, 20, 0xe7d3fbc8),
     (9, 5, 0x21e1cde6), (14, 9, 0xc33707d6), (3, 14, 0xf4d50d87), (8, 20, 0x455a14ed),
     (13, 5, 0xa9e3e905), (2, 9, 0xfcefa3f8), (7, 14, 0x676f02d9), (12, 20, 0x8d2a4c8a)]"
  by code_simp

lemma rfc_table3:
  "map (\<lambda>i. (rfc_g i, rfc_s i, rfc_T ! i)) [32..<48] =
    [(5, 4, 0xfffa3942), (8, 11, 0x8771f681), (11, 16, 0x6d9d6122), (14, 23, 0xfde5380c),
     (1, 4, 0xa4beea44), (4, 11, 0x4bdecfa9), (7, 16, 0xf6bb4b60), (10, 23, 0xbebfbc70),
     (13, 4, 0x289b7ec6), (0, 11, 0xeaa127fa), (3, 16, 0xd4ef3085), (6, 23, 0x4881d05),
     (9, 4, 0xd9d4d039), (12, 11, 0xe6db99e5), (15, 16, 0x1fa27cf8), (2, 23, 0xc4ac5665)]"
  by code_simp

lemma rfc_table4:
  "map (\<lambda>i. (rfc_g i, rfc_s i, rfc_T ! i)) [48..<64] =
    [(0, 6, 0xf4292244), (7, 10, 0x432aff97), (14, 15, 0xab9423a7), (5, 21, 0xfc93a039),
     (12, 6, 0x655b59c3), (3, 10, 0x8f0ccc92), (10, 15, 0xffeff47d), (1, 21, 0x85845dd1),
     (8, 6, 0x6fa87e4f), (15, 10, 0xfe2ce6e0), (6, 15, 0xa3014314), (13, 21, 0x4e0811a1),
     (4, 6, 0xf7537e82), (11, 10, 0xbd3af235), (2, 15, 0x2ad7d2bb), (9, 21, 0xeb86d391)]"
  by code_simp

lemma rfc_round:
  assumes m: "\<And>i. i \<in> {lo..<hi} \<Longrightarrow> rfc_step x i = call_step m (x ! rfc_g i, rfc_s i, rfc_T ! i)"
    and args: "args = map (\<lambda>(g, s, k). (x ! g, s, k)) (map (\<lambda>i. (rfc_g i, rfc_s i, rfc_T ! i)) [lo..<hi])"
    and len: "length args mod 4 = 0"
  shows "fold (rfc_step x) [lo..<hi] r = md5_calls m args r"
proof -
  have "fold (rfc_step x) [lo..<hi] r =
      fold (\<lambda>i. call_step m (x ! rfc_g i, rfc_s i, rfc_T ! i)) [lo..<hi] r"
    by (rule fold_cong) (simp_all add: m)
  also have "\<dots> = md5_calls m args r"
    using len by (subst md5_calls_fold) (simp_all add: args fold_map comp_def)
  finally show ?thesis .
qed

lemma rfc_rounds:
  "fold (rfc_step x) [0..<16] r = md5_calls FF (round1_args x) r"
  "fold (rfc_step x) [16..<32] r = md5_calls GG (round2_args x) r"
  "fold (rfc_step x) [32..<48] r = md5_calls HH (round3_args x) r"
  "fold (rfc_step x) [48..<64] r = md5_calls II (round4_args x) r"
  by (rule rfc_round, fastforce simp: fun_eq_iff rfc_step_def rfc_f_def FF_def GG_def HH_def II_def add_ac,
      simp only: rfc_table1 rfc_table2 rfc_table3 rfc_table4, simp add: round1_args_def
        round2_args_def round3_args_def round4_args_def, simp add: round1_args_def round2_args_def
        round3_args_def round4_args_def)+

text \<open>C29. The unrolled compression function is RFC 1321's 64-step loop, for every state and block.\<close>

theorem MD5Transform_is_rfc: "MD5Transform st block = rfc_transform st block"
proof -
  have "[0..<64] = [0..<16] @ [16..<32] @ [32..<48] @ [48..<(64::nat)]"
    by code_simp
  then have "fold (rfc_step x) [0..<64] r = md5_calls II (round4_args x) (md5_calls HH (round3_args x)
      (md5_calls GG (round2_args x) (md5_calls FF (round1_args x) r)))" for x r
    by (simp only: fold_append comp_apply rfc_rounds)
  then show ?thesis by (simp only: MD5Transform_def rfc_transform_def Let_def)
qed

subsection \<open>Hashing a stream in pieces\<close>

primrec feed :: "('c \<Rightarrow> 'b list \<Rightarrow> 'c option) \<Rightarrow> 'c \<Rightarrow> 'b list list \<Rightarrow> 'c option" where
  "feed upd c [] = Some c"
| "feed upd c (x # xs) = (case upd c x of None \<Rightarrow> None | Some c' \<Rightarrow> feed upd c' xs)"

locale incremental_hash =
  fixes upd :: "'c \<Rightarrow> 'b list \<Rightarrow> 'c option"
    and fin :: "'c \<Rightarrow> ('c \<times> 'd) option"
    and rep :: "'c \<Rightarrow> 'b list \<Rightarrow> bool"
    and piece :: "'b list \<Rightarrow> bool"
    and digest :: "'b list \<Rightarrow> 'd"
  assumes upd_rep: "rep c m \<Longrightarrow> piece xs \<Longrightarrow> \<exists>c'. upd c xs = Some c' \<and> rep c' (m @ xs)"
    and fin_rep: "rep c m \<Longrightarrow> \<exists>c'. fin c = Some (c', digest m)"
begin

lemma feed_rep:
  "rep c m \<Longrightarrow> \<forall>x \<in> set xs. piece x \<Longrightarrow> \<exists>c'. feed upd c xs = Some c' \<and> rep c' (m @ concat xs)"
proof (induction xs arbitrary: c m)
  case (Cons x xs)
  then obtain c1 where "upd c x = Some c1" "rep c1 (m @ x)" using upd_rep [of c m x] by auto
  with Cons.IH [of c1 "m @ x"] Cons.prems show ?case by simp
qed simp

lemma stream_digest:
  assumes "rep c []" and "\<forall>x \<in> set xs. piece x"
  shows "map_option snd (Option.bind (feed upd c xs) fin) = Some (digest (concat xs))"
  using feed_rep [OF assms] fin_rep by fastforce

end

text \<open>
  The contract of an incremental hash: an update extends the represented message, the final call
  gives the digest of what is represented.  Clients may then cut the message anywhere.
\<close>

definition short_piece :: "u8 list \<Rightarrow> bool" where
  "short_piece xs \<longleftrightarrow> length xs + 64 < 2 ^ 32"

definition update_piece :: "MD5_CTX \<Rightarrow> u8 list \<Rightarrow> MD5_CTX option" where
  "update_piece ctx xs = MD5Update ctx xs (word_of_nat (length xs))"

interpretation md5: incremental_hash update_piece MD5Final represents short_piece md5_digest
proof unfold_locales
  fix c m xs
  assume "represents c m" "short_piece xs"
  then show "\<exists>c'. update_piece c xs = Some c' \<and> represents c' (m @ xs)"
    unfolding update_piece_def short_piece_def
    by (intro represents_MD5Update) (simp_all add: unat_of_nat)
qed (rule represents_MD5Final)

text \<open>C20. Hashing a message in pieces of any sizes below \<open>2 ^ 32 - 64\<close> returns (no loop runs away) and gives the digest of the whole message: padding, bit count and block boundaries do not depend on how it was cut.\<close>

theorem md5_stream:
  assumes "length (md5_buffer ctx) = 64" and "\<forall>x \<in> set xs. length x + 64 < 2 ^ 32"
  shows "map_option snd (Option.bind (feed update_piece (MD5Init ctx) xs) MD5Final) =
    Some (md5_digest (concat xs))"
  using assms by (intro md5.stream_digest represents_MD5Init) (simp_all add: short_piece_def)

definition ctx0 :: MD5_CTX where
  "ctx0 = \<lparr>md5_count = (0, 0), md5_state = [], md5_buffer = replicate 64 0\<rparr>"

text \<open>The two shortest RFC 1321 test vectors, \<open>MD5("")\<close> and \<open>MD5("abc")\<close>, evaluated.\<close>

theorem md5_test_vectors:
  "map_option snd (MD5Final (MD5Init ctx0)) =
     Some [0xd4, 0x1d, 0x8c, 0xd9, 0x8f, 0x00, 0xb2, 0x04, 0xe9, 0x80, 0x09, 0x98, 0xec, 0xf8, 0x42, 0x7e] \<and>
   map_option snd (Option.bind (update_piece (MD5Init ctx0) [0x61, 0x62, 0x63]) MD5Final) =
     Some [0x90, 0x01, 0x50, 0x98, 0x3c, 0xd2, 0x4f, 0xb0, 0xd6, 0x96, 0x3f, 0x7d, 0x28, 0xe1, 0x7f, 0x72]"
  by code_simp

theorem md5_stream_witness:
  "length (md5_buffer ctx0) = 64 \<and>
   map_option snd (Option.bind (feed update_piece (MD5Init ctx0) [[0x61], [], [0x62, 0x63]]) MD5Final) =
     Some (md5_digest [0x61, 0x62, 0x63])"
  using md5_stream [of ctx0 "[[0x61], [], [0x62, 0x63]]"] by (simp add: ctx0_def)

end
