(* ===== verification/Radar_Pri.thy ===== *)
theory Radar_Pri
  imports Prelude "HOL-Library.Sublist"
begin

unbundle bit_operations_syntax

text \<open>
  PRI (pulse repetition interval) detection, the first half of \<^verbatim>\<open>aic8800_fdrv/rwnx_radar.c\<close>:
  the object pools, the pulse queue of a detector, the short-waveform sequence search and the
  long-waveform burst counter.  A kernel list is a list with its head element first, so
  \<open>list_add\<close> is a cons and the tail is the last element.
\<close>

subsection \<open>Detector specifications\<close>

datatype radar_waveform_type =
    RADAR_WAVEFORM_SHORT
  | RADAR_WAVEFORM_WEATHER
  | RADAR_WAVEFORM_INTERLEAVED
  | RADAR_WAVEFORM_LONG

record radar_detector_specs =
  type_id :: u8
  width_min :: u8
  width_max :: u8
  pri_min :: u16
  pri_max :: u16
  num_pri :: u8
  ppb :: u8
  ppb_thresh :: u8
  max_pri_tolerance :: u8
  waveform :: radar_waveform_type

definition PRI_TOLERANCE :: int where "PRI_TOLERANCE = 16"

definition PPB_THRESH :: "int \<Rightarrow> int" where
  "PPB_THRESH PPB = (PPB * 50 + 50) div 100"

definition PRF2PRI :: "int \<Rightarrow> int" where
  "PRF2PRI PRF = (1000000 + PRF div 2) div PRF"

definition ETSI_PATTERN_SHORT ::
  "int \<Rightarrow> int \<Rightarrow> int \<Rightarrow> int \<Rightarrow> int \<Rightarrow> int \<Rightarrow> radar_detector_specs" where
  "ETSI_PATTERN_SHORT ID WMIN WMAX PMIN PMAX PPB =
    \<lparr>type_id = of_int ID, width_min = of_int WMIN, width_max = of_int WMAX,
     pri_min = of_int (PRF2PRI PMAX - PRI_TOLERANCE),
     pri_max = of_int (PRF2PRI PMIN + PRI_TOLERANCE), num_pri = 1, ppb = of_int PPB,
     ppb_thresh = of_int (PPB_THRESH PPB), max_pri_tolerance = of_int PRI_TOLERANCE,
     waveform = RADAR_WAVEFORM_SHORT\<rparr>"

definition ETSI_PATTERN_INTERLEAVED ::
  "int \<Rightarrow> int \<Rightarrow> int \<Rightarrow> int \<Rightarrow> int \<Rightarrow> int \<Rightarrow> int \<Rightarrow> int \<Rightarrow> radar_detector_specs" where
  "ETSI_PATTERN_INTERLEAVED ID WMIN WMAX PMIN PMAX PRFMIN PRFMAX PPB =
    \<lparr>type_id = of_int ID, width_min = of_int WMIN, width_max = of_int WMAX,
     pri_min = of_int (PRF2PRI PMAX * PRFMIN - PRI_TOLERANCE),
     pri_max = of_int (PRF2PRI PMIN * PRFMAX + PRI_TOLERANCE),
     num_pri = of_int PRFMAX, ppb = of_int (PPB * PRFMAX),
     ppb_thresh = of_int (PPB_THRESH PPB), max_pri_tolerance = of_int PRI_TOLERANCE,
     waveform = RADAR_WAVEFORM_INTERLEAVED\<rparr>"

definition FCC_PATTERN ::
  "int \<Rightarrow> int \<Rightarrow> int \<Rightarrow> int \<Rightarrow> int \<Rightarrow> int \<Rightarrow> int \<Rightarrow> radar_waveform_type \<Rightarrow> radar_detector_specs" where
  "FCC_PATTERN ID WMIN WMAX PMIN PMAX PRF PPB WTYPE =
    \<lparr>type_id = of_int ID, width_min = of_int WMIN, width_max = of_int WMAX,
     pri_min = of_int (PMIN - PRI_TOLERANCE), pri_max = of_int (PMAX * PRF + PRI_TOLERANCE),
     num_pri = of_int PRF, ppb = of_int (PPB * PRF),
     ppb_thresh = of_int (PPB_THRESH PPB), max_pri_tolerance = of_int PRI_TOLERANCE,
     waveform = WTYPE\<rparr>"

subsection \<open>Sequences, detectors, pools\<close>

record pri_sequence =
  seq_pri :: u32
  seq_dur :: u32
  seq_count :: u32
  count_falses :: u32
  first_ts :: u64
  last_ts :: u64
  deadline_ts :: u64
  seq_ppb_thresh :: u8

datatype pri_detector_ops = pri_detector_short | pri_detector_long

record pri_detector =
  pde_rs :: radar_detector_specs
  pde_last_ts :: u64
  sequences :: "pri_sequence list"
  pulses :: "u64 list"
  pde_count :: u32
  max_count :: u32
  window_size :: u32
  pde_ops :: pri_detector_ops
  pde_freq :: u16

text \<open>
  The singleton pools and the allocator behind them.  \<open>kmalloc_ok\<close> lists the outcomes of the
  coming allocations (none left: the allocation fails); \<open>junk\<close> is what fresh memory of a sequence
  object holds.  A pooled pulse element keeps its old time stamp, a pooled sequence its old fields.
\<close>

record pools =
  pulse_pool :: "u64 list"
  pseq_pool :: "pri_sequence list"
  singleton_pool_references :: u32
  kmalloc_ok :: "bool list"
  junk :: pri_sequence

definition kmalloc :: "pools \<Rightarrow> bool \<times> pools" where
  "kmalloc pl = (case kmalloc_ok pl of [] \<Rightarrow> (False, pl) | b # bs \<Rightarrow> (b, pl\<lparr>kmalloc_ok := bs\<rparr>))"

definition pool_register_ref :: "pools \<Rightarrow> pools" where
  "pool_register_ref pl = pl\<lparr>singleton_pool_references := singleton_pool_references pl + 1\<rparr>"

definition pool_deregister_ref :: "pools \<Rightarrow> pools" where
  "pool_deregister_ref pl =
     (let pl = pl\<lparr>singleton_pool_references := singleton_pool_references pl - 1\<rparr>
      in if singleton_pool_references pl = 0
         then pl\<lparr>pulse_pool := [], pseq_pool := []\<rparr> else pl)"

definition pool_put_pulse_elem :: "u64 \<Rightarrow> pools \<Rightarrow> pools" where
  "pool_put_pulse_elem pe pl = pl\<lparr>pulse_pool := pe # pulse_pool pl\<rparr>"

definition pool_put_pseq_elem :: "pri_sequence \<Rightarrow> pools \<Rightarrow> pools" where
  "pool_put_pseq_elem pse pl = pl\<lparr>pseq_pool := pse # pseq_pool pl\<rparr>"

definition pool_get_pseq_elem :: "pools \<Rightarrow> pri_sequence option \<times> pools" where
  "pool_get_pseq_elem pl =
     (case pseq_pool pl of
        pse # rest \<Rightarrow> (Some pse, pl\<lparr>pseq_pool := rest\<rparr>)
      | [] \<Rightarrow> (case kmalloc pl of (ok, pl') \<Rightarrow> (if ok then Some (junk pl') else None, pl')))"

definition pool_get_pulse_elem :: "pools \<Rightarrow> u64 option \<times> pools" where
  "pool_get_pulse_elem pl =
     (case pulse_pool pl of
        pe # rest \<Rightarrow> (Some pe, pl\<lparr>pulse_pool := rest\<rparr>)
      | [] \<Rightarrow> (None, pl))"

subsection \<open>The pulse queue\<close>

definition pulse_queue_get_tail :: "pri_detector \<Rightarrow> u64 option" where
  "pulse_queue_get_tail pde = (if pulses pde = [] then None else Some (last (pulses pde)))"

definition pulse_queue_dequeue :: "pri_detector \<Rightarrow> pools \<Rightarrow> (pri_detector \<times> pools) \<times> bool" where
  "pulse_queue_dequeue pde pl =
     (case pulse_queue_get_tail pde of
        None \<Rightarrow> ((pde, pl), 0 < pde_count pde)
      | Some p \<Rightarrow>
          (let pde = pde\<lparr>pulses := butlast (pulses pde), pde_count := pde_count pde - 1\<rparr>
           in ((pde, pool_put_pulse_elem p pl), 0 < pde_count pde)))"

text \<open>The loop of \<open>pulse_queue_check_window\<close>: drop tail pulses older than \<open>min_valid_ts\<close>.\<close>

function drop_old_pulses :: "u64 \<Rightarrow> pri_detector \<times> pools \<Rightarrow> pri_detector \<times> pools" where
  "drop_old_pulses min_valid_ts (pde, pl) =
     (case pulse_queue_get_tail pde of
        None \<Rightarrow> (pde, pl)
      | Some p \<Rightarrow>
          if min_valid_ts \<le> p then (pde, pl)
          else drop_old_pulses min_valid_ts (fst (pulse_queue_dequeue pde pl)))"
  by pat_completeness auto
termination
  by (relation "measure (\<lambda>(m, pde, pl). length (pulses pde))")
    (auto simp: pulse_queue_get_tail_def pulse_queue_dequeue_def Let_def split: if_splits)

declare drop_old_pulses.simps [simp del]

definition pulse_queue_check_window :: "pri_detector \<Rightarrow> pools \<Rightarrow> pri_detector \<times> pools" where
  "pulse_queue_check_window pde pl =
     (if pde_count pde < 2 then (pde, pl)
      else if pde_last_ts pde \<le> ucast (window_size pde) then (pde, pl)
      else drop_old_pulses (pde_last_ts pde - ucast (window_size pde)) (pde, pl))"

definition pulse_queue_enqueue :: "pri_detector \<Rightarrow> u64 \<Rightarrow> pools \<Rightarrow> (pri_detector \<times> pools) \<times> bool" where
  "pulse_queue_enqueue pde ts pl =
     (case (case pool_get_pulse_elem pl of
              (Some p, pl1) \<Rightarrow> (True, pl1)
            | (None, pl1) \<Rightarrow> kmalloc pl1) of
        (False, pl2) \<Rightarrow> ((pde, pl2), False)
      | (True, pl2) \<Rightarrow>
          (let pde = pde\<lparr>pulses := ts # pulses pde, pde_count := pde_count pde + 1, pde_last_ts := ts\<rparr>;
               (pde, pl) = pulse_queue_check_window pde pl2
           in (if max_count pde \<le> pde_count pde then fst (pulse_queue_dequeue pde pl) else (pde, pl),
               True)))"

subsection \<open>Short waveforms\<close>

definition pde_get_multiple :: "u32 \<Rightarrow> u32 \<Rightarrow> u32 \<Rightarrow> u32" where
  "pde_get_multiple val fraction tolerance =
     (if fraction = 0 then 0
      else let delta = (if val < fraction then fraction - val else val - fraction) in
        if delta \<le> tolerance then 1
        else let factor = val div fraction; remainder = val mod fraction in
          if tolerance < remainder
          then (if fraction - remainder \<le> tolerance then factor + 1 else 0)
          else factor)"

text \<open>
  The inner loop of \<open>pde_short_create_sequences\<close>: the older pulses of the queue against the
  sequence under construction; \<open>tmp\<close> is \<open>tmp_false_count\<close>.
\<close>

fun match_past_pulses ::
  "radar_detector_specs \<Rightarrow> u64 \<Rightarrow> u64 list \<Rightarrow> pri_sequence \<Rightarrow> u32 \<Rightarrow> pri_sequence" where
  "match_past_pulses r min_valid_ts [] ps tmp = ps"
| "match_past_pulses r min_valid_ts (p2 # past) ps tmp =
     (if p2 < min_valid_ts then ps
      else if 0 < pde_get_multiple (ucast (last_ts ps - p2)) (seq_pri ps) (ucast (max_pri_tolerance r))
      then match_past_pulses r min_valid_ts past
             (ps\<lparr>seq_count := seq_count ps + 1, first_ts := p2,
                 count_falses := count_falses ps + tmp\<rparr>) 0
      else match_past_pulses r min_valid_ts past ps (tmp + 1))"

definition weather_ppb_thresh :: "u32 \<Rightarrow> u8" where
  "weather_ppb_thresh interval = of_int (PPB_THRESH (uint (ucast (19000000 div (360 * interval)) :: u8)))"

text \<open>The sequence built for the queued pulse \<open>p\<close>, \<open>idx\<close> being \<open>pulse_idx\<close> after its increment.\<close>

definition build_sequence ::
  "radar_detector_specs \<Rightarrow> u64 \<Rightarrow> u16 \<Rightarrow> u64 \<Rightarrow> u64 list \<Rightarrow> pri_sequence" where
  "build_sequence r ts idx p past =
     (let ps_pri = ucast (ts - p) :: u32;
          ps_dur = ps_pri * (ucast (ppb r) - 1) + 2 * ucast (max_pri_tolerance r);
          ps = \<lparr>seq_pri = ps_pri, seq_dur = ps_dur, seq_count = 2, count_falses = ucast idx - 1,
                first_ts = p, last_ts = ts, deadline_ts = 0, seq_ppb_thresh = 0\<rparr>;
          min_valid_ts = (if ts < ucast ps_dur then 0 else ts - ucast ps_dur)
      in match_past_pulses r min_valid_ts past ps 0)"

definition finish_sequence :: "radar_detector_specs \<Rightarrow> pri_sequence \<Rightarrow> pri_sequence" where
  "finish_sequence r ps =
     ps\<lparr>deadline_ts := first_ts ps + ucast (seq_dur ps),
        seq_ppb_thresh := (if waveform r = RADAR_WAVEFORM_WEATHER then weather_ppb_thresh (seq_pri ps)
                           else ppb_thresh r)\<rparr>"

fun create_sequences_loop ::
  "u64 \<Rightarrow> u32 \<Rightarrow> u16 \<Rightarrow> u64 list \<Rightarrow> pri_detector \<times> pools \<Rightarrow> (pri_detector \<times> pools) \<times> bool" where
  "create_sequences_loop ts min_count idx [] (pde, pl) = ((pde, pl), True)"
| "create_sequences_loop ts min_count idx (p # past) (pde, pl) =
     (let delta_ts = ucast (ts - p) :: u32; idx = idx + 1; r = pde_rs pde in
      if delta_ts < ucast (pri_min r) then create_sequences_loop ts min_count idx past (pde, pl)
      else if ucast (pri_max r) < delta_ts then ((pde, pl), True)
      else let ps = build_sequence r ts idx p past in
        if seq_count ps \<le> min_count then create_sequences_loop ts min_count idx past (pde, pl)
        else case pool_get_pseq_elem pl of
               (None, pl) \<Rightarrow> ((pde, pl), False)
             | (Some _, pl) \<Rightarrow>
                 create_sequences_loop ts min_count idx past
                   (pde\<lparr>sequences := finish_sequence r ps # sequences pde\<rparr>, pl))"

definition pde_short_create_sequences ::
  "pri_detector \<Rightarrow> u64 \<Rightarrow> u32 \<Rightarrow> pools \<Rightarrow> (pri_detector \<times> pools) \<times> bool" where
  "pde_short_create_sequences pde ts min_count pl =
     create_sequences_loop ts min_count 0 (pulses pde) (pde, pl)"

text \<open>One pass over the sequences: the survivors, the pools and the longest updated count.\<close>

fun add_to_seqs ::
  "radar_detector_specs \<Rightarrow> u64 \<Rightarrow> pri_sequence list \<Rightarrow> pools \<Rightarrow> u32 \<Rightarrow>
     pri_sequence list \<times> pools \<times> u32" where
  "add_to_seqs r ts [] pl mx = ([], pl, mx)"
| "add_to_seqs r ts (ps # pss) pl mx =
     (if deadline_ts ps < ts then add_to_seqs r ts pss (pool_put_pseq_elem ps pl) mx
      else
        let delta_ts = ucast (ts - last_ts ps);
            factor = pde_get_multiple delta_ts (seq_pri ps) (ucast (max_pri_tolerance r));
            ps' = (if 0 < factor then ps\<lparr>last_ts := ts, seq_count := seq_count ps + 1\<rparr>
                   else ps\<lparr>count_falses := count_falses ps + 1\<rparr>);
            mx' = (if 0 < factor \<and> mx < seq_count ps' then seq_count ps' else mx);
            (rest, pl', mx'') = add_to_seqs r ts pss pl mx'
        in (ps' # rest, pl', mx''))"

definition pde_short_add_to_existing_seqs ::
  "pri_detector \<Rightarrow> u64 \<Rightarrow> pools \<Rightarrow> (pri_detector \<times> pools) \<times> u32" where
  "pde_short_add_to_existing_seqs pde ts pl =
     (let (pss, pl', mx) = add_to_seqs (pde_rs pde) ts (sequences pde) pl 0
      in ((pde\<lparr>sequences := pss\<rparr>, pl'), mx))"

definition seq_complete :: "radar_detector_specs \<Rightarrow> pri_sequence \<Rightarrow> bool" where
  "seq_complete r ps \<longleftrightarrow>
     ucast (seq_ppb_thresh ps) \<le> seq_count ps \<and>
     count_falses ps < seq_count ps * ucast (num_pri r)"

definition pde_short_check_detection :: "pri_detector \<Rightarrow> pri_sequence option" where
  "pde_short_check_detection pde = find (seq_complete (pde_rs pde)) (sequences pde)"

definition pde_short_init :: "pri_detector \<Rightarrow> pri_detector" where
  "pde_short_init pde =
     pde\<lparr>window_size := ucast (pri_max (pde_rs pde)) * ucast (ppb (pde_rs pde)) * ucast (num_pri (pde_rs pde)),
         max_count := ucast (ppb (pde_rs pde)) * 2\<rparr>"

definition pri_detector_reset :: "pri_detector \<Rightarrow> u64 \<Rightarrow> pools \<Rightarrow> pri_detector \<times> pools" where
  "pri_detector_reset pde ts pl =
     (pde\<lparr>sequences := [], pulses := [], pde_count := 0, pde_last_ts := ts\<rparr>,
      fold pool_put_pulse_elem (pulses pde) (fold pool_put_pseq_elem (sequences pde) pl))"

definition pde_short_add_pulse ::
  "pri_detector \<Rightarrow> u16 \<Rightarrow> u64 \<Rightarrow> u16 \<Rightarrow> pools \<Rightarrow> (pri_detector \<times> pools) \<times> pri_sequence option" where
  "pde_short_add_pulse pde len ts p pl =
     (if pde_count pde = 0 then (fst (pulse_queue_enqueue pde ts pl), None)
      else if ts - pde_last_ts pde < ucast (max_pri_tolerance (pde_rs pde)) then ((pde, pl), None)
      else
        let ((pde1, pl1), max_updated_seq) = pde_short_add_to_existing_seqs pde ts pl;
            ((pde2, pl2), ok) = pde_short_create_sequences pde1 ts max_updated_seq pl1
        in if \<not> ok then (pri_detector_reset pde2 ts pl2, None)
           else case pde_short_check_detection pde2 of
                  None \<Rightarrow> (fst (pulse_queue_enqueue pde2 ts pl2), None)
                | Some ps \<Rightarrow> ((pde2, pl2), Some ps))"

subsection \<open>Long waveforms\<close>

definition LONG_RADAR_DURATION :: u32 where "LONG_RADAR_DURATION = 12000000"
definition LONG_RADAR_BURST_MIN_DURATION :: u32 where "LONG_RADAR_BURST_MIN_DURATION = 12000000 div 20"
definition LONG_RADAR_MAX_BURST :: u32 where "LONG_RADAR_MAX_BURST = 20"

definition pde_long_init :: "pri_detector \<Rightarrow> pri_detector" where
  "pde_long_init pde = pde\<lparr>window_size := LONG_RADAR_DURATION, max_count := LONG_RADAR_MAX_BURST\<rparr>"

text \<open>The loop that moves the start of the sequence to the oldest pulse inside the window.\<close>

function long_restart :: "u64 \<Rightarrow> pri_sequence \<Rightarrow> pri_detector \<times> pools \<Rightarrow> pri_sequence \<times> pri_detector \<times> pools" where
  "long_restart min_valid_ts ps (pde, pl) =
     (case pulse_queue_get_tail pde of
        None \<Rightarrow> (ps, pde, pl)
      | Some p \<Rightarrow>
          if min_valid_ts \<le> p
          then (ps\<lparr>first_ts := p, deadline_ts := p + ucast (window_size pde)\<rparr>, pde, pl)
          else long_restart min_valid_ts (ps\<lparr>seq_count := seq_count ps - 1\<rparr>)
                 (fst (pulse_queue_dequeue pde pl)))"
  by pat_completeness auto
termination
  by (relation "measure (\<lambda>(m, ps, pde, pl). length (pulses pde))")
    (auto simp: pulse_queue_get_tail_def pulse_queue_dequeue_def Let_def split: if_splits)

declare long_restart.simps [simp del]

text \<open>\<open>ps\<close> points into the list, so every change of it is a change of the head of \<open>sequences\<close>.\<close>

definition set_head_seq :: "pri_sequence \<Rightarrow> pri_detector \<Rightarrow> pri_detector" where
  "set_head_seq ps pde = pde\<lparr>sequences := ps # tl (sequences pde)\<rparr>"

definition pde_long_add_pulse ::
  "pri_detector \<Rightarrow> u16 \<Rightarrow> u64 \<Rightarrow> u16 \<Rightarrow> pools \<Rightarrow> (pri_detector \<times> pools) \<times> pri_sequence option" where
  "pde_long_add_pulse pde len ts p pl =
     (case sequences pde of
        [] \<Rightarrow>
          (case pool_get_pseq_elem pl of
             (None, pl) \<Rightarrow> ((pde, pl), None)
           | (Some ps, pl) \<Rightarrow>
               let ps = ps\<lparr>seq_count := 1, count_falses := 1, first_ts := ts, last_ts := ts,
                           deadline_ts := ts + ucast (window_size pde), seq_pri := 0\<rparr>
               in (fst (pulse_queue_enqueue (pde\<lparr>sequences := [ps]\<rparr>) ts pl), None))
      | ps # _ \<Rightarrow>
          let r = pde_rs pde; delta_ts = ucast (ts - last_ts ps) :: u32; ps = ps\<lparr>last_ts := ts\<rparr> in
          if delta_ts < ucast (pri_max r) then ((set_head_seq ps pde, pl), None)
          else if ucast (pri_min r) \<le> delta_ts \<and> delta_ts \<le> ucast (pri_max r)
          then ((set_head_seq (ps\<lparr>count_falses := count_falses ps + 1\<rparr>) pde, pl), None)
          else if 2 < seq_count ps \<and> seq_dur ps + delta_ts < LONG_RADAR_BURST_MIN_DURATION
          then ((set_head_seq ps pde, pl), None)
          else
            let ps = ps\<lparr>seq_count := seq_count ps + 1, count_falses := 1\<rparr>;
                (ps, pde, pl) =
                  (if deadline_ts ps < ts then long_restart (ts - ucast (window_size pde)) ps (pde, pl)
                   else (ps, pde, pl))
            in if ucast (ppb_thresh r) < seq_count ps \<and> ucast (window_size pde div 2) < ts - first_ts ps
               then ((set_head_seq ps pde, pl), Some ps)
               else let (pde, pl) = fst (pulse_queue_enqueue (set_head_seq ps pde) ts pl)
                    in ((set_head_seq (ps\<lparr>seq_dur := delta_ts\<rparr>) pde, pl), None))"

subsection \<open>Multiples of an interval\<close>

lemma mod_le_cases:
  fixes v f t k :: int
  assumes "0 < f" "0 \<le> v" "0 < k" "\<bar>v - k * f\<bar> \<le> t"
  shows "\<bar>v - f\<bar> \<le> t \<or> (0 < v div f \<and> v mod f \<le> t) \<or> (t < v mod f \<and> f - v mod f \<le> t)"
proof -
  let ?q = "v div f" and ?r = "v mod f"
  have v: "v = ?q * f + ?r" by simp
  have r: "0 \<le> ?r" "?r < f" using assms by simp_all
  have q: "0 \<le> ?q" using assms by (simp add: pos_imp_zdiv_nonneg_iff)
  consider "k \<le> ?q" | "?q < k" by linarith
  then show ?thesis
  proof cases
    case 1
    then have "k * f \<le> ?q * f" using assms by (intro mult_right_mono) simp_all
    then have "?r \<le> v - k * f" using v by linarith
    then show ?thesis using 1 assms by linarith
  next
    case 2
    then have "(?q + 1) * f \<le> k * f" using assms by (intro mult_right_mono) simp_all
    moreover have "(?q + 1) * f = ?q * f + f" by (simp add: algebra_simps)
    ultimately have "f - ?r \<le> k * f - v" using v by linarith
    then have "f - ?r \<le> t" using assms by linarith
    moreover have "v = ?r" if "\<not> 0 < ?q" using that q v by simp
    ultimately show ?thesis using r by (cases "0 < ?q") linarith+
  qed
qed

lemma uint_sub_le: "y \<le> x \<Longrightarrow> uint (x - y) = uint x - uint y" for x y :: "'a::len word"
  by (simp add: word_le_def uint_sub_lem)

lemma uint_get_multiple:
  fixes v f t :: u32
  defines "V \<equiv> uint v" and "F \<equiv> uint f" and "T \<equiv> uint t"
  shows "uint (pde_get_multiple v f t) =
    (if F = 0 then 0 else if \<bar>V - F\<bar> \<le> T then 1
     else if T < V mod F then (if F - V mod F \<le> T then V div F + 1 else 0) else V div F)"
proof (cases "f = 0")
  case True
  then show ?thesis by (simp add: pde_get_multiple_def F_def)
next
  case False
  then have F: "0 < F" by (simp add: F_def uint_pos_iff)
  define d where "d = (if v < f then f - v else v - f)"
  have d: "uint d = \<bar>V - F\<bar>" 
    unfolding d_def V_def F_def by (auto simp: uint_sub_le word_le_def word_less_def)
  have m: "uint (v mod f) = V mod F" and q: "uint (v div f) = V div F"
    by (simp_all add: V_def F_def uint_mod uint_div)
  have mf: "v mod f < f" using F by (simp add: word_less_def m flip: F_def)
  have r: "uint (f - v mod f) = F - V mod F"
    using mf by (simp add: uint_sub_le order_less_imp_le m F_def)
  have s: "uint (v div f + 1) = V div F + 1" if "0 < V mod F"
  proof -
    have "2 \<le> F" using that F by (cases "F = 1") simp_all
    then have "V div F \<le> V div 2" by (intro zdiv_mono2) (simp_all add: V_def)
    moreover have "V < 2 ^ 32" using uint_lt2p [of v] by (simp add: V_def)
    ultimately have "V div F + 1 < 2 ^ 32" by simp
    then show ?thesis using q by (simp add: uint_plus_if')
  qed
  have e: "pde_get_multiple v f t = (if d \<le> t then 1
      else if t < v mod f then (if f - v mod f \<le> t then v div f + 1 else 0) else v div f)"
    using False by (simp only: pde_get_multiple_def Let_def d_def if_False)
  have T: "0 \<le> T" by (simp add: T_def)
  show ?thesis using F s T unfolding e
    by (simp add: word_le_def word_less_def q r d m if_distrib [of uint] flip: T_def)
qed

text \<open>\<open>pde_get_multiple\<close> is a sound and complete test: it is positive exactly when the interval is
  non-zero and some positive multiple of it lies within the tolerance of the value, and then the
  number it returns is such a multiple; no intermediate value wraps around.\<close>

theorem pde_get_multiple_correct:
  fixes val fraction tolerance :: u32
  shows "(0 < pde_get_multiple val fraction tolerance \<longrightarrow>
            \<bar>uint val - uint (pde_get_multiple val fraction tolerance) * uint fraction\<bar> \<le> uint tolerance) \<and>
         (0 < pde_get_multiple val fraction tolerance \<longleftrightarrow>
            fraction \<noteq> 0 \<and> (\<exists>k>0. \<bar>uint val - k * uint fraction\<bar> \<le> uint tolerance))"
proof -
  let ?V = "uint val" and ?F = "uint fraction" and ?T = "uint tolerance"
    and ?R = "uint (pde_get_multiple val fraction tolerance)"
  have pos: "0 < pde_get_multiple val fraction tolerance \<longleftrightarrow> 0 < ?R" by (simp add: word_less_def)
  have q0: "0 \<le> ?V div ?F" by (simp flip: uint_div)
  have sound: "0 < ?R \<Longrightarrow> \<bar>?V - ?R * ?F\<bar> \<le> ?T \<and> ?F \<noteq> 0"
  proof -
    define q r where "q = ?V div ?F" and "r = ?V mod ?F"
    have eq: "q * ?F + r = ?V" by (simp only: q_def r_def div_mult_mod_eq)
    have r: "0 \<le> r" using uint_nonnegative [of "val mod fraction"] by (simp only: r_def uint_mod)
    have rF: "r < ?F" if "?F \<noteq> 0"
      unfolding r_def by (rule pos_mod_bound) (use uint_nonnegative [of fraction] that in linarith)
    have "(q + 1) * ?F = q * ?F + ?F" by (simp add: distrib_right)
    then show "0 < ?R \<Longrightarrow> \<bar>?V - ?R * ?F\<bar> \<le> ?T \<and> ?F \<noteq> 0"
      unfolding uint_get_multiple q_def [symmetric] r_def [symmetric]
      using eq r rF by (simp split: if_splits)
  qed
  have "0 < ?R" if F: "?F \<noteq> 0" and k: "0 < k" "\<bar>?V - k * ?F\<bar> \<le> ?T" for k
  proof -
    have "0 < ?F" using F uint_nonnegative [of fraction] by linarith
    from mod_le_cases [OF this _ k] show ?thesis using F q0 unfolding uint_get_multiple by auto
  qed
  then show ?thesis using sound unfolding pos by (metis uint_0_iff)
qed

theorem pde_get_multiple_correct_witness:
  "pde_get_multiple 1010 333 16 = 3 \<and> (\<exists>k>0. \<bar>uint (1010 :: u32) - k * uint (333 :: u32)\<bar> \<le> uint (16 :: u32))"
proof -
  have "pde_get_multiple 1010 333 16 = 3" by code_simp
  then show ?thesis using pde_get_multiple_correct [of 1010 333 16] by simp
qed

subsection \<open>The queue of pulses\<close>

text \<open>
  What every detector keeps: the counter is the length of the queue, and the queue stays
  below \<open>max_count\<close>.  \<open>bounded_queue\<close> is the contract both detector kinds share.
\<close>

definition bounded_queue :: "pri_detector \<Rightarrow> bool" where
  "bounded_queue pde \<longleftrightarrow>
     unat (pde_count pde) = length (pulses pde) \<and> length (pulses pde) < unat (max_count pde)"

definition counted_queue :: "pri_detector \<Rightarrow> bool" where
  "counted_queue pde \<longleftrightarrow> unat (pde_count pde) = length (pulses pde)"

lemma count_pos_iff: "counted_queue pde \<Longrightarrow> (0 < pde_count pde) = (pulses pde \<noteq> [])"
  by (auto simp: counted_queue_def word_less_nat_alt)

text \<open>
  \<open>same_but_queue\<close>: operations on the pulse queue leave everything else of the detector alone.
\<close>

definition same_but_queue :: "pri_detector \<Rightarrow> pri_detector \<Rightarrow> bool" where
  "same_but_queue pde pde' \<longleftrightarrow>
     pde_rs pde' = pde_rs pde \<and> sequences pde' = sequences pde \<and> max_count pde' = max_count pde \<and>
     window_size pde' = window_size pde \<and> pde_ops pde' = pde_ops pde \<and> pde_freq pde' = pde_freq pde"

lemma same_but_queue_refl [simp]: "same_but_queue pde pde"
  by (simp add: same_but_queue_def)

lemma same_but_queue_trans [trans]: "same_but_queue a b \<Longrightarrow> same_but_queue b c \<Longrightarrow> same_but_queue a c"
  by (simp add: same_but_queue_def)

lemma dequeue_fst:
  "fst (pulse_queue_dequeue pde pl) =
    (if pulses pde = [] then (pde, pl)
     else (pde\<lparr>pulses := butlast (pulses pde), pde_count := pde_count pde - 1\<rparr>,
           pool_put_pulse_elem (last (pulses pde)) pl))"
  by (simp add: pulse_queue_dequeue_def pulse_queue_get_tail_def Let_def)

lemma dequeue_spec:
  assumes "fst (pulse_queue_dequeue pde pl) = (pde', pl')"
  shows "pulses pde' = butlast (pulses pde)" "same_but_queue pde pde'" "pde_last_ts pde' = pde_last_ts pde"
    "counted_queue pde \<Longrightarrow> counted_queue pde'" "pseq_pool pl' = pseq_pool pl"
  using assms
  by (auto simp: dequeue_fst same_but_queue_def counted_queue_def pool_put_pulse_elem_def
      word_less_nat_alt unat_sub word_le_nat_alt Suc_le_eq split: if_splits)

lemma drop_old_spec:
  assumes "drop_old_pulses m (pde, pl) = (pde', pl')" and "counted_queue pde"
  shows "\<exists>old. pulses pde = pulses pde' @ old \<and> (\<forall>p \<in> set old. p < m) \<and>
      (pulses pde' = [] \<or> m \<le> last (pulses pde')) \<and> same_but_queue pde pde' \<and>
      pde_last_ts pde' = pde_last_ts pde \<and> counted_queue pde'"
  using assms
proof (induction m "(pde, pl)" arbitrary: pde pl rule: drop_old_pulses.induct)
  case (1 m pde pl)
  show ?case
  proof (cases "pulses pde = [] \<or> m \<le> last (pulses pde)")
    case True
    then show ?thesis using 1
      by (intro exI [of _ "[]"])
        (auto simp: drop_old_pulses.simps [of m pde] pulse_queue_get_tail_def split: if_splits)
  next
    case False
    obtain pde1 pl1 where d: "fst (pulse_queue_dequeue pde pl) = (pde1, pl1)" by force
    have "drop_old_pulses m (pde1, pl1) = (pde', pl')"
      using 1(2) False d by (simp add: drop_old_pulses.simps [of m pde] pulse_queue_get_tail_def)
    then obtain old where "pulses pde1 = pulses pde' @ old" "\<forall>p \<in> set old. p < m"
        "pulses pde' = [] \<or> m \<le> last (pulses pde')" "same_but_queue pde1 pde'"
        "pde_last_ts pde' = pde_last_ts pde1" "counted_queue pde'"
      using 1(1) [of "last (pulses pde)" pde1 pl1] False d dequeue_spec(4) [OF d 1(3)]
      by (auto simp: pulse_queue_get_tail_def)
    moreover have "pulses pde = butlast (pulses pde) @ [last (pulses pde)]" using False by simp
    ultimately show ?thesis using False dequeue_spec(1-3) [OF d]
      by (intro exI [of _ "old @ [last (pulses pde)]"])
        (auto intro: same_but_queue_trans simp: not_le)
  qed
qed

lemma check_window_spec:
  assumes "pulse_queue_check_window pde pl = (pde', pl')" and "counted_queue pde"
  shows "\<exists>old. pulses pde = pulses pde' @ old \<and>
      (\<forall>p \<in> set old. ucast (window_size pde) < pde_last_ts pde \<and> p < pde_last_ts pde - ucast (window_size pde)) \<and>
      same_but_queue pde pde' \<and> pde_last_ts pde' = pde_last_ts pde \<and> counted_queue pde'"
proof (cases "pde_count pde < 2 \<or> pde_last_ts pde \<le> ucast (window_size pde)")
  case True
  then have "pde' = pde" using assms(1) by (auto simp: pulse_queue_check_window_def split: if_splits)
  then show ?thesis using assms(2) by (intro exI [of _ "[]"]) simp
next
  case False
  then have d: "drop_old_pulses (pde_last_ts pde - ucast (window_size pde)) (pde, pl) = (pde', pl')"
    and w: "ucast (window_size pde) < pde_last_ts pde"
    using assms(1) by (auto simp: pulse_queue_check_window_def)
  show ?thesis using drop_old_spec [OF d assms(2)] w by blast
qed

lemma enqueue_fails:
  "\<not> snd (pulse_queue_enqueue pde ts pl) \<Longrightarrow> fst (fst (pulse_queue_enqueue pde ts pl)) = pde"
  by (auto simp: pulse_queue_enqueue_def Let_def split: prod.splits bool.splits)

lemma enqueue_spec:
  assumes e: "pulse_queue_enqueue pde ts pl = ((pde', pl'), True)" and c: "counted_queue pde"
    and b: "length (pulses pde) + 1 < 2 ^ 32"
  shows "\<exists>old. ts # pulses pde = pulses pde' @ old \<and> same_but_queue pde pde' \<and> pde_last_ts pde' = ts \<and>
      counted_queue pde' \<and>
      (length (pulses pde) < unat (max_count pde) \<longrightarrow> length (pulses pde') < unat (max_count pde))"
proof -
  let ?p1 = "pde\<lparr>pulses := ts # pulses pde, pde_count := pde_count pde + 1, pde_last_ts := ts\<rparr>"
  obtain pl1 pde2 pl2 where w: "pulse_queue_check_window ?p1 pl1 = (pde2, pl2)"
    and f: "(pde', pl') = (if max_count pde2 \<le> pde_count pde2 then fst (pulse_queue_dequeue pde2 pl2) else (pde2, pl2))"
    using e by (auto simp: pulse_queue_enqueue_def Let_def split: prod.splits bool.splits)
  have c1: "counted_queue ?p1" using c b
    by (simp add: counted_queue_def) (subst unat_add_no_overflow, simp_all)
  obtain old where old: "ts # pulses pde = pulses pde2 @ old" "same_but_queue ?p1 pde2"
      "pde_last_ts pde2 = ts" "counted_queue pde2"
    using check_window_spec [OF w c1] by auto
  have sb: "same_but_queue pde ?p1" by (simp add: same_but_queue_def)
  have len: "length (pulses pde2) \<le> length (pulses pde) + 1"
    using arg_cong [OF old(1), of length] by simp
  show ?thesis
  proof (cases "max_count pde2 \<le> pde_count pde2")
    case True
    then have d: "fst (pulse_queue_dequeue pde2 pl2) = (pde', pl')" using f by simp
    note ds = dequeue_spec [OF d]
    show ?thesis
    proof (cases "pulses pde2 = []")
      case True
      then show ?thesis using ds old sb
        by (intro exI [of _ old]) (auto intro: same_but_queue_trans)
    next
      case False
      then have "pulses pde2 = pulses pde' @ [last (pulses pde2)]" using ds(1) by simp
      then show ?thesis using ds old sb len
        by (intro exI [of _ "last (pulses pde2) # old"]) (auto intro: same_but_queue_trans)
    qed
  next
    case False
    moreover have "max_count pde2 = max_count pde" using old(2) by (simp add: same_but_queue_def)
    ultimately show ?thesis using f old sb
      by (intro exI [of _ old]) (auto intro: same_but_queue_trans simp: counted_queue_def word_le_nat_alt)
  qed
qed

subsection \<open>Every sequence is made of received pulses\<close>

text \<open>
  \<open>near r n a b\<close>: time stamp \<open>b\<close> lies a multiple of \<open>n\<close> before \<open>a\<close>, up to the tolerance.
  A sequence is justified by a history \<open>H\<close> (newest pulse first) when \<open>seq_count\<close> pulses of \<open>H\<close>
  make it up: the newest is \<open>last_ts\<close>, the oldest \<open>first_ts\<close>; the pulses present at its creation
  (\<open>base\<close>) are multiples of the interval before the pulse that created it, and each pulse added
  later (\<open>ext\<close>) is one after its predecessor.
\<close>

definition near :: "radar_detector_specs \<Rightarrow> u32 \<Rightarrow> u64 \<Rightarrow> u64 \<Rightarrow> bool" where
  "near r n a b \<longleftrightarrow> 0 < pde_get_multiple (ucast (a - b)) n (ucast (max_pri_tolerance r))"

definition made_of :: "radar_detector_specs \<Rightarrow> u64 list \<Rightarrow> u64 list \<Rightarrow> pri_sequence \<Rightarrow> bool" where
  "made_of r ext base ps \<longleftrightarrow>
     base \<noteq> [] \<and> length (ext @ base) = unat (seq_count ps) \<and>
     hd (ext @ base) = last_ts ps \<and> last base = first_ts ps \<and>
     (\<forall>b \<in> set (tl base). near r (seq_pri ps) (hd base) b) \<and>
     successively (near r (seq_pri ps)) (ext @ [hd base])"

definition justified :: "radar_detector_specs \<Rightarrow> u64 list \<Rightarrow> pri_sequence \<Rightarrow> bool" where
  "justified r hist ps \<longleftrightarrow> (\<exists>ext base. subseq (ext @ base) hist \<and> made_of r ext base ps)"

lemma justified_mono: "justified r hist ps \<Longrightarrow> subseq hist hist' \<Longrightarrow> justified r hist' ps"
  unfolding justified_def by (meson subseq_order.order_trans)

lemma justified_falses: "justified r hist (ps\<lparr>count_falses := n\<rparr>) = justified r hist ps"
  by (simp add: justified_def made_of_def)

lemma justified_finish: "justified r hist (finish_sequence r' ps) = justified r hist ps"
  by (simp add: justified_def made_of_def finish_sequence_def)

lemma justified_extend:
  assumes j: "justified r hist ps" and n: "near r (seq_pri ps) ts (last_ts ps)"
    and small: "length hist + 1 < 2 ^ 32"
  shows "justified r (ts # hist) (ps\<lparr>last_ts := ts, seq_count := seq_count ps + 1\<rparr>)"
proof -
  obtain ext base where eb: "subseq (ext @ base) hist" "made_of r ext base ps"
    using j by (auto simp: justified_def)
  have "unat (seq_count ps) \<le> length hist"
    using list_emb_length [OF eb(1)] eb(2) by (simp add: made_of_def)
  then have c: "unat (seq_count ps + 1) = unat (seq_count ps) + 1"
    using small by (subst unat_add_no_overflow) simp_all
  have "hd (ext @ [hd base]) = last_ts ps"
    using eb(2) by (cases ext) (auto simp: made_of_def)
  then have "successively (near r (seq_pri ps)) ((ts # ext) @ [hd base])"
    using eb(2) n by (cases "ext @ [hd base]") (auto simp: made_of_def)
  then have "made_of r (ts # ext) base (ps\<lparr>last_ts := ts, seq_count := seq_count ps + 1\<rparr>)"
    using eb(2) c by (simp add: made_of_def)
  moreover have "subseq ((ts # ext) @ base) (ts # hist)" using eb(1) by simp
  ultimately show ?thesis unfolding justified_def by blast
qed

lemma match_past_spec:
  "\<exists>ms. subseq ms past \<and> (\<forall>b \<in> set ms. near r (seq_pri ps) (last_ts ps) b) \<and>
     seq_count (match_past_pulses r m past ps tmp) = seq_count ps + of_nat (length ms) \<and>
     first_ts (match_past_pulses r m past ps tmp) = last (first_ts ps # ms) \<and>
     last_ts (match_past_pulses r m past ps tmp) = last_ts ps \<and>
     seq_pri (match_past_pulses r m past ps tmp) = seq_pri ps"
proof (induction r m past ps tmp rule: match_past_pulses.induct)
  case (1 r m ps tmp)
  show ?case by (intro exI [of _ "[]"]) simp
next
  case (2 r m p2 past ps tmp)
  show ?case
  proof (cases "p2 < m")
    case True
    then show ?thesis by (intro exI [of _ "[]"]) simp
  next
    case False
    show ?thesis
    proof (cases "near r (seq_pri ps) (last_ts ps) p2")
      case True
      then obtain ms where "subseq ms past" "\<forall>b \<in> set ms. near r (seq_pri ps) (last_ts ps) b"
          "seq_count (match_past_pulses r m (p2 # past) ps tmp) = seq_count ps + 1 + of_nat (length ms)"
          "first_ts (match_past_pulses r m (p2 # past) ps tmp) = last (p2 # ms)"
          "last_ts (match_past_pulses r m (p2 # past) ps tmp) = last_ts ps"
          "seq_pri (match_past_pulses r m (p2 # past) ps tmp) = seq_pri ps"
        using 2(1) False by (fastforce simp: near_def)
      with True show ?thesis by (intro exI [of _ "p2 # ms"])
          (simp add: algebra_simps del: match_past_pulses.simps)
    next
      case neg: False
      then obtain ms where "subseq ms past" "\<forall>b \<in> set ms. near r (seq_pri ps) (last_ts ps) b"
          "seq_count (match_past_pulses r m (p2 # past) ps tmp) = seq_count ps + of_nat (length ms)"
          "first_ts (match_past_pulses r m (p2 # past) ps tmp) = last (first_ts ps # ms)"
          "last_ts (match_past_pulses r m (p2 # past) ps tmp) = last_ts ps"
          "seq_pri (match_past_pulses r m (p2 # past) ps tmp) = seq_pri ps"
        using 2(2) False by (fastforce simp: near_def)
      then show ?thesis by (intro exI [of _ ms]) (simp add: list_emb_Cons del: match_past_pulses.simps)
    qed
  qed
qed

lemma near_own_interval: "ucast (ts - p) \<noteq> (0 :: u32) \<Longrightarrow> near r (ucast (ts - p)) ts p"
  by (simp add: near_def pde_get_multiple_def)

lemma justified_build:
  assumes sub: "subseq (p # past) hist" and pos: "ucast (ts - p) \<noteq> (0 :: u32)"
    and small: "length hist + 1 < 2 ^ 32"
  shows "justified r (ts # hist) (build_sequence r ts idx p past)"
proof -
  let ?start = "\<lparr>seq_pri = ucast (ts - p),
      seq_dur = ucast (ts - p) * (ucast (ppb r) - 1) + 2 * ucast (max_pri_tolerance r),
      seq_count = 2, count_falses = ucast idx - 1, first_ts = p, last_ts = ts, deadline_ts = 0,
      seq_ppb_thresh = 0\<rparr>"
  let ?built = "build_sequence r ts idx p past"
  obtain m where b: "?built = match_past_pulses r m past ?start 0"
    unfolding build_sequence_def Let_def by blast
  obtain ms where ms: "subseq ms past" "\<forall>b \<in> set ms. near r (ucast (ts - p)) ts b"
      "seq_count ?built = 2 + of_nat (length ms)" "first_ts ?built = last (p # ms)"
      "last_ts ?built = ts" "seq_pri ?built = ucast (ts - p)"
    using match_past_spec [of past r ?start m 0] by (auto simp: b)
  have "length ms + 1 \<le> length hist"
    using list_emb_length [OF ms(1)] list_emb_length [OF sub] by simp
  then have "unat (2 + of_nat (length ms) :: u32) = 2 + length ms"
    using small by (subst unat_add_no_overflow) (simp_all add: unat_of_nat)
  then have "made_of r [] (ts # p # ms) ?built"
    using ms near_own_interval [OF pos] by (auto simp: made_of_def)
  moreover have "subseq (ts # p # ms) (ts # hist)"
    using ms(1) sub by (auto intro: subseq_order.order_trans)
  ultimately show ?thesis unfolding justified_def by (metis append_Nil)
qed


subsection \<open>The short detector keeps its invariant\<close>

text \<open>
  \<open>short_inv r hist pde\<close>: the queue is counted and bounded, its pulses come from the history, and
  every sequence is sound.
\<close>

definition required_pulses :: "radar_detector_specs \<Rightarrow> u32 \<Rightarrow> u8" where
  "required_pulses r p = (if waveform r = RADAR_WAVEFORM_WEATHER then weather_ppb_thresh p else ppb_thresh r)"

definition sound_seq :: "radar_detector_specs \<Rightarrow> u64 list \<Rightarrow> pri_sequence \<Rightarrow> bool" where
  "sound_seq r hist ps \<longleftrightarrow> justified r hist ps \<and> seq_ppb_thresh ps = required_pulses r (seq_pri ps)"

lemma sound_seq_extend:
  "sound_seq r hist ps \<Longrightarrow> near r (seq_pri ps) ts (last_ts ps) \<Longrightarrow> length hist + 1 < 2 ^ 32 \<Longrightarrow>
     sound_seq r (ts # hist) (ps\<lparr>last_ts := ts, seq_count := seq_count ps + 1\<rparr>)"
  by (simp add: sound_seq_def justified_extend)

lemma sound_seq_falses: "sound_seq r hist (ps\<lparr>count_falses := n\<rparr>) = sound_seq r hist ps"
  by (simp add: sound_seq_def justified_falses)

lemma sound_seq_finish: "sound_seq r hist (finish_sequence r ps) = justified r hist ps"
  by (simp add: sound_seq_def justified_finish) (simp add: finish_sequence_def required_pulses_def)

lemma sound_seq_mono: "sound_seq r hist ps \<Longrightarrow> subseq hist hist' \<Longrightarrow> sound_seq r hist' ps"
  by (auto simp: sound_seq_def intro: justified_mono)

definition short_inv :: "radar_detector_specs \<Rightarrow> u64 list \<Rightarrow> pri_detector \<Rightarrow> bool" where
  "short_inv r hist pde \<longleftrightarrow>
     pde_rs pde = r \<and> bounded_queue pde \<and> subseq (pulses pde) hist \<and>
     (\<forall>ps \<in> set (sequences pde). sound_seq r hist ps)"

lemma add_to_seqs_spec:
  assumes "add_to_seqs r ts pss pl mx = (pss', pl', mx')" and "\<forall>ps \<in> set pss. sound_seq r hist ps"
    and "length hist + 1 < 2 ^ 32"
  shows "(\<forall>ps \<in> set pss'. sound_seq r (ts # hist) ps) \<and> length pss' \<le> length pss"
  using assms
proof (induction r ts pss pl mx arbitrary: pss' pl' mx' rule: add_to_seqs.induct)
  case (2 r ts ps pss pl mx)
  show ?case
  proof (cases "deadline_ts ps < ts")
    case True
    with 2 show ?thesis by fastforce
  next
    case False
    let ?hit = "0 < pde_get_multiple (ucast (ts - last_ts ps)) (seq_pri ps) (ucast (max_pri_tolerance r))"
    let ?new = "if ?hit then ps\<lparr>last_ts := ts, seq_count := seq_count ps + 1\<rparr>
        else ps\<lparr>count_falses := count_falses ps + 1\<rparr>"
    obtain rest mx1 pl1 mx2 where "add_to_seqs r ts pss pl mx1 = (rest, pl1, mx2)" "pss' = ?new # rest"
        "(\<forall>ps \<in> set rest. sound_seq r (ts # hist) ps) \<and> length rest \<le> length pss"
      using 2(2) [OF False refl refl refl refl] 2(3-5) False by (auto simp: Let_def split: prod.splits)
    moreover have "sound_seq r (ts # hist) ?new"
      using sound_seq_extend [of r hist ps ts] 2(4,5) sound_seq_mono [of r hist ps "ts # hist"]
      by (auto simp: near_def sound_seq_falses list_emb_Cons)
    ultimately show ?thesis by simp
  qed
qed simp

lemma create_loop_spec:
  assumes "create_sequences_loop ts mc idx past (pde, pl) = ((pde', pl'), ok)"
    and "subseq past hist" and "\<forall>ps \<in> set (sequences pde). sound_seq (pde_rs pde) (ts # hist) ps"
    and "0 < pri_min (pde_rs pde)" and "length hist + 1 < 2 ^ 32"
  shows "(\<forall>ps \<in> set (sequences pde'). sound_seq (pde_rs pde) (ts # hist) ps) \<and>
     pde' = pde\<lparr>sequences := sequences pde'\<rparr>"
  using assms
proof (induction ts mc idx past "(pde, pl)" arbitrary: pde pl rule: create_sequences_loop.induct)
  case (2 ts mc idx p past pde pl)
  let ?d = "ucast (ts - p) :: u32" and ?r = "pde_rs pde"
  let ?new = "build_sequence ?r ts (idx + 1) p past"
  have sub: "subseq past hist" using "2.prems"(2) by (rule subseq_Cons')
  consider "?d < ucast (pri_min ?r)" | "\<not> ?d < ucast (pri_min ?r)" "ucast (pri_max ?r) < ?d"
    | "\<not> ?d < ucast (pri_min ?r)" "\<not> ucast (pri_max ?r) < ?d" by blast
  then show ?case
  proof cases
    case 1
    with "2.hyps"(1) "2.prems" sub show ?thesis by (simp add: Let_def)
  next
    case 2
    with "2.prems" show ?thesis by (simp add: Let_def)
  next
    case 3
    let ?loop = "create_sequences_loop ts mc (idx + 1) past"
    show ?thesis
    proof (cases "seq_count ?new \<le> mc")
      case True
      then have "?loop (pde, pl) = ((pde', pl'), ok)" using 3 "2.prems"(1) by (simp add: Let_def)
      with 3 True "2.hyps"(2) sub "2.prems"(3-5) show ?thesis by simp
    next
      case False
      show ?thesis
      proof (cases "pool_get_pseq_elem pl")
        case (Pair got pl1)
        show ?thesis
        proof (cases got)
          case None
          with False 3 Pair "2.prems" show ?thesis by (auto simp: Let_def)
        next
          case (Some blk)
          let ?pde1 = "pde\<lparr>sequences := finish_sequence ?r ?new # sequences pde\<rparr>"
          have "ucast (pri_min ?r) \<noteq> (0 :: u32)" using "2.prems"(4)
            by (simp add: word_less_nat_alt flip: unat_0_iff)
          then have "?d \<noteq> 0" using 3(1) by (metis word_gt_0)
          then have "sound_seq ?r (ts # hist) (finish_sequence ?r ?new)"
            using justified_build "2.prems"(2,5) by (simp add: sound_seq_finish)
          moreover have "?loop (?pde1, pl1) = ((pde', pl'), ok)"
            using 3 False Pair Some "2.prems"(1) by (simp add: Let_def)
          ultimately show ?thesis
            using "2.hyps"(3) [OF refl refl refl 3(1) 3(2) refl False Pair [symmetric] Some] sub "2.prems"(3-5)
            by simp
        qed
      qed
    qed
  qed
qed simp


lemma subseq_append_left: "subseq (xs @ ys) zs \<Longrightarrow> subseq xs zs"
  by (metis subseq_order.order_trans subseq_rev_drop_many subseq_order.order_refl)

lemma sound_seq_keep: "sound_seq r hist ps \<Longrightarrow> sound_seq r (ts # hist) ps"
  by (erule sound_seq_mono) (simp add: list_emb_Cons)

lemma subseq_keep: "subseq xs hist \<Longrightarrow> subseq xs (ts # hist)"
  by (simp add: list_emb_Cons)

lemma short_inv_enqueue:
  assumes i: "short_inv r hist pde" and s: "length hist + 1 < 2 ^ 32"
    and j: "\<forall>ps \<in> set pss. sound_seq r (ts # hist) ps"
  shows "short_inv r (ts # hist) (fst (fst (pulse_queue_enqueue (pde\<lparr>sequences := pss\<rparr>) ts pl)))"
proof -
  let ?pde = "pde\<lparr>sequences := pss\<rparr>"
  obtain pde' pl' ok where e: "pulse_queue_enqueue ?pde ts pl = ((pde', pl'), ok)"
    by (metis prod.exhaust)
  have sub: "subseq (pulses pde) hist" and b: "bounded_queue pde" and r: "pde_rs pde = r"
    using i by (simp_all add: short_inv_def)
  show ?thesis
  proof (cases ok)
    case True
    have len: "length (pulses ?pde) + 1 < 2 ^ 32" using list_emb_length [OF sub] s by simp
    have c: "counted_queue ?pde" using b by (simp add: bounded_queue_def counted_queue_def)
    obtain old where old: "ts # pulses pde = pulses pde' @ old" "same_but_queue ?pde pde'"
        "counted_queue pde'" "length (pulses pde') < unat (max_count pde)"
      using enqueue_spec [OF _ c len, of ts pl pde' pl'] e True b by (auto simp: bounded_queue_def)
    have "subseq (pulses pde' @ old) (ts # hist)" using sub old(1) by (metis subseq_Cons2)
    then have "subseq (pulses pde') (ts # hist)" by (rule subseq_append_left)
    then show ?thesis using old j e r
      by (simp add: short_inv_def bounded_queue_def counted_queue_def same_but_queue_def)
  next
    case False
    then show ?thesis using enqueue_fails [of ?pde ts pl] e i j
      by (simp add: short_inv_def bounded_queue_def subseq_keep)
  qed
qed

text \<open>One step of the detector: it keeps the invariant, and a reported sequence is in its list.\<close>

lemma find_SomeD: "find P xs = Some x \<Longrightarrow> x \<in> set xs \<and> P x"
  by (auto simp: find_Some_iff)

lemma short_inv_reset: "short_inv r hist pde \<Longrightarrow> short_inv r hist' (fst (pri_detector_reset pde ts pl))"
  by (auto simp: short_inv_def bounded_queue_def pri_detector_reset_def)

lemma short_add_pulse_step:
  assumes i: "short_inv r hist pde" and m: "0 < pri_min r"
    and s: "length hist + 1 < 2 ^ 32"
    and e: "pde_short_add_pulse pde len ts w pl = ((pde', pl'), res)"
  shows "short_inv r (ts # hist) pde' \<and>
     (\<forall>ps. res = Some ps \<longrightarrow> ps \<in> set (sequences pde') \<and> seq_complete r ps)"
proof -
  have r: "pde_rs pde = r" and q: "subseq (pulses pde) hist" "bounded_queue pde"
    and old: "\<forall>ps \<in> set (sequences pde). sound_seq r hist ps"
    using i by (simp_all add: short_inv_def)
  obtain pss pl1 mx where a: "add_to_seqs r ts (sequences pde) pl 0 = (pss, pl1, mx)"
    by (metis prod.exhaust)
  let ?pde1 = "pde\<lparr>sequences := pss\<rparr>"
  obtain pde2 pl2 ok where c: "create_sequences_loop ts mx 0 (pulses pde) (?pde1, pl1) = ((pde2, pl2), ok)"
    by (metis prod.exhaust)
  have j1: "\<forall>ps \<in> set pss. sound_seq r (ts # hist) ps" using add_to_seqs_spec [OF a old s] by blast
  have j2: "\<forall>ps \<in> set (sequences pde2). sound_seq r (ts # hist) ps"
      and d2: "pde2 = pde\<lparr>sequences := sequences pde2\<rparr>"
    using create_loop_spec [OF c q(1)] j1 m s r by auto
  have i2: "short_inv r (ts # hist) pde2"
    using j2 q r by (subst d2) (simp add: short_inv_def bounded_queue_def subseq_keep)
  consider "pde_count pde = 0" | "pde_count pde \<noteq> 0" "ts - pde_last_ts pde < ucast (max_pri_tolerance r)"
    | "pde_count pde \<noteq> 0" "\<not> ts - pde_last_ts pde < ucast (max_pri_tolerance r)" by blast
  then show ?thesis
  proof cases
    case 1
    have "\<forall>ps \<in> set (sequences pde). sound_seq r (ts # hist) ps" using old by (blast intro: sound_seq_keep)
    from short_inv_enqueue [OF i s this, of pl] show ?thesis
      using e 1 by (auto simp: pde_short_add_pulse_def)
  next
    case 2
    have "short_inv r (ts # hist) pde" using i by (auto simp: short_inv_def intro: sound_seq_keep subseq_keep)
    with 2 e r show ?thesis by (auto simp: pde_short_add_pulse_def)
  next
    case 3
    have e3: "((pde', pl'), res) =
      (if \<not> ok then (pri_detector_reset pde2 ts pl2, None)
       else case pde_short_check_detection pde2 of
          None \<Rightarrow> (fst (pulse_queue_enqueue pde2 ts pl2), None) | Some ps \<Rightarrow> ((pde2, pl2), Some ps))"
      using e 3 a c by (simp add: pde_short_add_pulse_def pde_short_add_to_existing_seqs_def
          pde_short_create_sequences_def r Let_def)
    show ?thesis
    proof (cases ok)
      case False
      with e3 short_inv_reset [OF i2, of "ts # hist" ts pl2] show ?thesis
        by (cases "pri_detector_reset pde2 ts pl2") auto
    next
      case True
      show ?thesis
      proof (cases "pde_short_check_detection pde2")
        case None
        have "short_inv r (ts # hist) (fst (fst (pulse_queue_enqueue pde2 ts pl2)))"
          using short_inv_enqueue [OF i s j2, of pl2] d2 by simp
        with None True e3 show ?thesis by (cases "fst (pulse_queue_enqueue pde2 ts pl2)") auto
      next
        case (Some ps)
        have "ps \<in> set (sequences pde2) \<and> seq_complete r ps"
          using find_SomeD [OF Some [unfolded pde_short_check_detection_def]] i2 by (simp add: short_inv_def)
        with Some True e3 i2 show ?thesis by simp
      qed
    qed
  qed
qed

end
