(* ===== verification/Radar_Ops.thy ===== *)
theory Radar_Ops
  imports Radar_Pri
begin

text \<open>
  The two detector kinds of \<^verbatim>\<open>rwnx_radar.c\<close> behind the \<open>pri_detector_ops\<close> table: what the pattern
  detector relies on when it calls \<open>ops->init\<close> and \<open>ops->add_pulse\<close> is the locale
  \<open>detector_kind\<close>, interpreted on the short and on the long detector.  The second half shows what
  a report of each kind is worth.
\<close>

unbundle bit_operations_syntax

subsection \<open>The operations table\<close>

definition ops_init :: "pri_detector \<Rightarrow> pri_detector" where
  "ops_init pde = (case pde_ops pde of
     pri_detector_short \<Rightarrow> pde_short_init pde | pri_detector_long \<Rightarrow> pde_long_init pde)"

definition ops_add_pulse ::
  "pri_detector \<Rightarrow> u16 \<Rightarrow> u64 \<Rightarrow> u16 \<Rightarrow> pools \<Rightarrow> (pri_detector \<times> pools) \<times> pri_sequence option" where
  "ops_add_pulse pde = (case pde_ops pde of
     pri_detector_short \<Rightarrow> pde_short_add_pulse pde | pri_detector_long \<Rightarrow> pde_long_add_pulse pde)"

definition reset_on_pri_overflow :: "pri_detector_ops \<Rightarrow> bool" where
  "reset_on_pri_overflow ops = (case ops of pri_detector_short \<Rightarrow> True | pri_detector_long \<Rightarrow> False)"

text \<open>What a fresh detector is, apart from \<open>list_add\<close> and the allocation.\<close>

definition pri_detector_new :: "radar_detector_specs \<Rightarrow> u16 \<Rightarrow> pri_detector" where
  "pri_detector_new r freq = ops_init
     \<lparr>pde_rs = r, pde_last_ts = 0, sequences = [], pulses = [], pde_count = 0, max_count = 0,
      window_size = 0,
      pde_ops = (if waveform r = RADAR_WAVEFORM_LONG then pri_detector_long else pri_detector_short),
      pde_freq = freq\<rparr>"

text \<open>A sequence of pulses fed into one detector; the reports are collected.\<close>

fun feed_pulses ::
  "(pri_detector \<Rightarrow> u16 \<Rightarrow> u64 \<Rightarrow> u16 \<Rightarrow> pools \<Rightarrow> (pri_detector \<times> pools) \<times> pri_sequence option) \<Rightarrow>
     (u16 \<times> u64 \<times> u16) list \<Rightarrow> pri_detector \<times> pools \<Rightarrow> pri_detector \<times> pools" where
  "feed_pulses add [] (pde, pl) = (pde, pl)"
| "feed_pulses add ((len, ts, w) # ps) (pde, pl) = feed_pulses add ps (fst (add pde len ts w pl))"

subsection \<open>The contract\<close>

text \<open>The fields no operation on a pulse changes.\<close>

definition same_detector :: "pri_detector \<Rightarrow> pri_detector \<Rightarrow> bool" where
  "same_detector pde pde' \<longleftrightarrow>
     pde_rs pde' = pde_rs pde \<and> pde_ops pde' = pde_ops pde \<and> pde_freq pde' = pde_freq pde \<and>
     max_count pde' = max_count pde \<and> window_size pde' = window_size pde"

lemma same_detector_refl [simp]: "same_detector pde pde"
  by (simp add: same_detector_def)

lemma same_detector_trans [trans]: "same_detector a b \<Longrightarrow> same_detector b c \<Longrightarrow> same_detector a c"
  by (simp add: same_detector_def)

lemma same_but_queue_detector: "same_but_queue a b \<Longrightarrow> same_detector a b"
  by (simp add: same_detector_def same_but_queue_def)

locale detector_kind =
  fixes kind_init :: "pri_detector \<Rightarrow> pri_detector"
    and kind_add :: "pri_detector \<Rightarrow> u16 \<Rightarrow> u64 \<Rightarrow> u16 \<Rightarrow> pools \<Rightarrow> (pri_detector \<times> pools) \<times> pri_sequence option"
  assumes init_queue: "pulses pde = [] \<Longrightarrow> pde_count pde = 0 \<Longrightarrow> 0 < ppb (pde_rs pde) \<Longrightarrow> bounded_queue (kind_init pde)"
    and add_queue: "bounded_queue pde \<Longrightarrow> bounded_queue (fst (fst (kind_add pde len ts w pl)))"
    and add_same: "bounded_queue pde \<Longrightarrow> same_detector pde (fst (fst (kind_add pde len ts w pl)))"
begin

lemma feed_keeps:
  "bounded_queue pde \<Longrightarrow> feed_pulses kind_add ps (pde, pl) = (pde', pl') \<Longrightarrow>
     bounded_queue pde' \<and> same_detector pde pde'"
proof (induction ps arbitrary: pde pl)
  case (Cons p ps)
  obtain len ts w where p: "p = (len, ts, w)" by (metis prod.exhaust)
  obtain pde1 pl1 where s: "fst (kind_add pde len ts w pl) = (pde1, pl1)" by force
  have "bounded_queue pde1" "same_detector pde pde1"
    using add_queue [OF Cons.prems(1), of len ts w pl] add_same [OF Cons.prems(1), of len ts w pl] s by simp_all
  with Cons s p show ?case by (auto intro: same_detector_trans)
qed simp

lemma queue_always_bounded:
  "pulses pde = [] \<Longrightarrow> pde_count pde = 0 \<Longrightarrow> 0 < ppb (pde_rs pde) \<Longrightarrow>
     feed_pulses kind_add ps (kind_init pde, pl) = (pde', pl') \<Longrightarrow>
     unat (pde_count pde') = length (pulses pde') \<and> length (pulses pde') < unat (max_count (kind_init pde))"
  using feed_keeps [OF init_queue, of pde ps pl pde' pl'] by (auto simp: bounded_queue_def same_detector_def)

end

subsection \<open>The short detector meets it\<close>

lemma enqueue_keeps:
  assumes "bounded_queue pde" and e: "fst (pulse_queue_enqueue pde ts pl) = (pde', pl')"
  shows "bounded_queue pde' \<and> same_but_queue pde pde' \<and> length (pulses pde') \<le> length (pulses pde) + 1"
proof (cases "snd (pulse_queue_enqueue pde ts pl)")
  case True
  then have q: "pulse_queue_enqueue pde ts pl = ((pde', pl'), True)" using e by (metis prod.collapse)
  have "unat (max_count pde) \<le> 4294967295" using unat_u32_less [of "max_count pde"] by linarith
  then have "length (pulses pde) + 1 < 2 ^ 32" and c: "counted_queue pde"
    using assms(1) by (simp_all add: bounded_queue_def counted_queue_def)
  then obtain old where old: "ts # pulses pde = pulses pde' @ old" and q': "same_but_queue pde pde'"
      "counted_queue pde'" "length (pulses pde') < unat (max_count pde)"
    using enqueue_spec [OF q] assms(1) by (auto simp: bounded_queue_def)
  have "length (pulses pde') \<le> length (pulses pde) + 1" using arg_cong [OF old, of length] by simp
  with q' show ?thesis by (simp add: bounded_queue_def counted_queue_def same_but_queue_def)
next
  case False
  then show ?thesis using enqueue_fails [OF False] assms by simp
qed

lemma create_loop_queue:
  assumes "create_sequences_loop ts mc idx past (pde, pl) = ((pde', pl'), ok)"
  shows "pde' = pde\<lparr>sequences := sequences pde'\<rparr>"
  using assms
  by (induction ts mc idx past "(pde, pl)" arbitrary: pde pl rule: create_sequences_loop.induct)
    (fastforce simp: Let_def split: if_splits prod.splits option.splits)+

lemma reset_queue:
  "0 < unat (max_count pde) \<Longrightarrow> bounded_queue (fst (pri_detector_reset pde ts pl))"
  "same_detector pde (fst (pri_detector_reset pde ts pl))"
  by (simp_all add: pri_detector_reset_def bounded_queue_def same_detector_def)

lemma short_add_keeps:
  assumes b: "bounded_queue pde" and e: "fst (pde_short_add_pulse pde len ts w pl) = (pde', pl')"
  shows "bounded_queue pde' \<and> same_detector pde pde'"
proof -
  obtain pss pl1 mx where a: "add_to_seqs (pde_rs pde) ts (sequences pde) pl 0 = (pss, pl1, mx)"
    by (metis prod.exhaust)
  obtain pde2 pl2 ok where c: "create_sequences_loop ts mx 0 (pulses pde) (pde\<lparr>sequences := pss\<rparr>, pl1) = ((pde2, pl2), ok)"
    by (metis prod.exhaust)
  obtain pss2 where d2: "pde2 = pde\<lparr>sequences := pss2\<rparr>" using create_loop_queue [OF c] by auto
  have b2: "bounded_queue pde2" "same_detector pde pde2" "0 < unat (max_count pde2)"
    using b by (simp_all add: d2 bounded_queue_def same_detector_def)
  have enq: "bounded_queue pde1 \<Longrightarrow> same_detector pde pde1 \<Longrightarrow> fst (pulse_queue_enqueue pde1 ts pl0) = (pde', pl') \<Longrightarrow>
      bounded_queue pde' \<and> same_detector pde pde'" for pde1 pl0
    by (meson enqueue_keeps same_but_queue_detector same_detector_trans)
  have res: "pri_detector_reset pde2 ts pl2 = (pde', pl') \<Longrightarrow> bounded_queue pde' \<and> same_detector pde pde'"
    using reset_queue [of pde2 ts pl2] b2 by (auto intro: same_detector_trans)
  show ?thesis
  proof (cases "pde_count pde = 0 \<or> ts - pde_last_ts pde < ucast (max_pri_tolerance (pde_rs pde))")
    case True
    then show ?thesis using e enq [OF b same_detector_refl] b
      by (auto simp: pde_short_add_pulse_def split: if_splits)
  next
    case False
    then have "(pde', pl') = (if \<not> ok then pri_detector_reset pde2 ts pl2
       else case pde_short_check_detection pde2 of None \<Rightarrow> fst (pulse_queue_enqueue pde2 ts pl2)
         | Some ps \<Rightarrow> (pde2, pl2))"
      using e a c by (cases ok) (auto simp: pde_short_add_pulse_def pde_short_add_to_existing_seqs_def
          pde_short_create_sequences_def Let_def split: option.splits)
    then show ?thesis using enq [OF b2(1,2)] res b2 by (auto split: if_splits option.splits)
  qed
qed

text \<open>The bound \<open>max_count = 2 * ppb\<close> cannot wrap: \<open>ppb\<close> is an octet.\<close>

lemma short_init_queue:
  assumes "pulses pde = []" "pde_count pde = 0" "0 < ppb (pde_rs pde)"
  shows "bounded_queue (pde_short_init pde)"
proof -
  have "unat (ppb (pde_rs pde)) < 256" using unsigned_less [of "ppb (pde_rs pde)", where 'a = nat] by simp
  moreover have "unat (ucast (ppb (pde_rs pde)) :: u32) = unat (ppb (pde_rs pde))"
    by (rule unat_ucast_up) simp
  ultimately have "unat (ucast (ppb (pde_rs pde)) * 2 :: u32) = unat (ppb (pde_rs pde)) * 2"
    by (subst unat_mult_lem [THEN iffD1]) simp_all
  then show ?thesis using assms by (simp add: pde_short_init_def bounded_queue_def word_less_nat_alt)
qed

interpretation short: detector_kind pde_short_init pde_short_add_pulse
proof unfold_locales
  fix pde :: pri_detector and len w :: u16 and ts :: u64 and pl :: pools
  show "pulses pde = [] \<Longrightarrow> pde_count pde = 0 \<Longrightarrow> 0 < ppb (pde_rs pde) \<Longrightarrow> bounded_queue (pde_short_init pde)"
    by (rule short_init_queue)
  assume b: "bounded_queue pde"
  show "bounded_queue (fst (fst (pde_short_add_pulse pde len ts w pl)))"
    and "same_detector pde (fst (fst (pde_short_add_pulse pde len ts w pl)))"
    using short_add_keeps [OF b prod.collapse [symmetric]] by blast+
qed

subsection \<open>The long detector meets it\<close>

lemma long_restart_step:
  "long_restart m ps (pde, pl) =
    (if pulses pde = [] then (ps, pde, pl)
     else if m \<le> last (pulses pde)
     then (ps\<lparr>first_ts := last (pulses pde), deadline_ts := last (pulses pde) + ucast (window_size pde)\<rparr>, pde, pl)
     else long_restart m (ps\<lparr>seq_count := seq_count ps - 1\<rparr>) (fst (pulse_queue_dequeue pde pl)))"
  by (simp add: long_restart.simps [of m ps pde] pulse_queue_get_tail_def)

lemma long_restart_spec:
  assumes "long_restart m ps (pde, pl) = (ps', pde', pl')" and "counted_queue pde"
  shows "same_but_queue pde pde' \<and> counted_queue pde' \<and> length (pulses pde') \<le> length (pulses pde) \<and>
    (pulses pde' \<noteq> [] \<longrightarrow> first_ts ps' = last (pulses pde') \<and> m \<le> last (pulses pde'))"
  using assms
proof (induction "length (pulses pde)" arbitrary: ps pde pl)
  case (Suc n)
  obtain pde1 pl1 where d: "fst (pulse_queue_dequeue pde pl) = (pde1, pl1)" by force
  have "length (pulses pde1) = n" using dequeue_spec(1) [OF d] Suc(2) by simp
  moreover from this have le: "length (pulses pde1) \<le> length (pulses pde)" using Suc(2) by simp
  ultimately show ?case using Suc(1) [of pde1] Suc(2-4) d dequeue_spec(2,4) [OF d]
    by (auto simp: long_restart_step [of m ps pde] same_but_queue_def intro: order_trans [OF _ le] split: if_splits)
qed (simp add: long_restart_step)

lemma long_restart_keeps:
  assumes "long_restart m ps (pde, pl) = (ps', pde', pl')" and "bounded_queue pde"
  shows "bounded_queue pde' \<and> same_but_queue pde pde' \<and> length (pulses pde') \<le> length (pulses pde)"
proof -
  have c: "counted_queue pde" using assms(2) by (simp add: bounded_queue_def counted_queue_def)
  from long_restart_spec [OF assms(1) c] have "same_but_queue pde pde'" "counted_queue pde'"
      "length (pulses pde') \<le> length (pulses pde)" by blast+
  with assms(2) show ?thesis by (simp add: bounded_queue_def counted_queue_def same_but_queue_def)
qed

lemma long_restart_count:
  assumes "long_restart m ps (pde, pl) = (ps', pde', pl')" and "length (pulses pde) \<le> unat (seq_count ps)"
  shows "unat (seq_count ps') + length (pulses pde) = unat (seq_count ps) + length (pulses pde')"
  using assms
proof (induction "length (pulses pde)" arbitrary: ps pde pl)
  case (Suc n)
  let ?ps = "ps\<lparr>seq_count := seq_count ps - 1\<rparr>"
  obtain pde1 pl1 where d: "fst (pulse_queue_dequeue pde pl) = (pde1, pl1)" by force
  have l: "length (pulses pde1) = n" using dequeue_spec(1) [OF d] Suc(2) by simp
  have "seq_count ps \<noteq> 0" using Suc(2,4) by auto
  then have c: "unat (seq_count ps - 1) = unat (seq_count ps) - 1" by (simp add: unat_minus_one)
  show ?case
  proof (cases "m \<le> last (pulses pde)")
    case True
    with Suc(2,3) show ?thesis by (auto simp: long_restart_step [of m ps pde] split: if_splits)
  next
    case False
    then have "long_restart m ?ps (pde1, pl1) = (ps', pde', pl')"
      using Suc(2,3) d by (auto simp: long_restart_step [of m ps pde] split: if_splits)
    moreover have "length (pulses pde1) \<le> unat (seq_count ps - 1)" using Suc(2,4) l c by linarith
    ultimately have "unat (seq_count ps') + length (pulses pde1) = unat (seq_count ps - 1) + length (pulses pde')"
      using Suc(1) [OF sym [OF l]] by simp
    then show ?thesis using Suc(2,4) l c by linarith
  qed
qed (simp add: long_restart_step)

text \<open>
  \<open>long_inv n pde\<close>: at most one sequence; its burst counter is at least the number of queued
  bursts, so taking expired bursts off it never wraps, and at most \<open>n\<close>.
\<close>

definition long_inv :: "nat \<Rightarrow> pri_detector \<Rightarrow> bool" where
  "long_inv n pde \<longleftrightarrow> bounded_queue pde \<and>
     (sequences pde = [] \<and> pulses pde = [] \<or>
      (\<exists>ps. sequences pde = [ps] \<and> length (pulses pde) \<le> unat (seq_count ps) \<and> unat (seq_count ps) \<le> n))"

lemma set_head_seq_simps [simp]:
  "pulses (set_head_seq ps pde) = pulses pde" "pde_count (set_head_seq ps pde) = pde_count pde"
  "max_count (set_head_seq ps pde) = max_count pde" "pde_rs (set_head_seq ps pde) = pde_rs pde"
  "window_size (set_head_seq ps pde) = window_size pde" "pde_ops (set_head_seq ps pde) = pde_ops pde"
  "pde_freq (set_head_seq ps pde) = pde_freq pde" "pde_last_ts (set_head_seq ps pde) = pde_last_ts pde"
  "bounded_queue (set_head_seq ps pde) = bounded_queue pde"
  "sequences (set_head_seq ps pde) = ps # tl (sequences pde)"
  "same_detector pde (set_head_seq ps pde') = same_detector pde pde'"
  by (simp_all add: set_head_seq_def bounded_queue_def same_detector_def)

text \<open>The last part of \<open>pde_long_add_pulse\<close>: what happens once the pulse starts a new burst.\<close>

lemma long_add_cases [consumes 2]:
  assumes e: "pde_long_add_pulse pde len ts w pl = ((pde', pl'), res)"
    and b: "bounded_queue pde"
  obtains (none) "pde' = pde" "res = None"
  | (first) ps pl1 where "sequences pde = []" "seq_count ps = 1" "res = None"
      "fst (pulse_queue_enqueue (pde\<lparr>sequences := [ps]\<rparr>) ts pl1) = (pde', pl')"
  | (quiet) ps ps' where "sequences pde \<noteq> []" "ps = hd (sequences pde)" "pde' = set_head_seq ps' pde"
      "seq_count ps' = seq_count ps" "res = None"
  | (burst) ps ps1 pde1 pl1 where "sequences pde \<noteq> []" "ps = hd (sequences pde)"
      "pde1 = pde \<and> ps1 = ps\<lparr>last_ts := ts, seq_count := seq_count ps + 1, count_falses := 1\<rparr> \<or>
       long_restart (ts - ucast (window_size pde))
         (ps\<lparr>last_ts := ts, seq_count := seq_count ps + 1, count_falses := 1\<rparr>) (pde, pl) = (ps1, pde1, pl1)"
      "res = Some ps1 \<and> pde' = set_head_seq ps1 pde1 \<and> ucast (ppb_thresh (pde_rs pde)) < seq_count ps1 \<and>
         ucast (window_size pde div 2) < ts - first_ts ps1 \<or>
       (\<exists>pde2 pl2 d. res = None \<and> fst (pulse_queue_enqueue (set_head_seq ps1 pde1) ts pl1) = (pde2, pl2) \<and>
          pde' = set_head_seq (ps1\<lparr>seq_dur := d\<rparr>) pde2)"
proof (cases "sequences pde")
  case Nil
  show thesis
  proof (cases "pool_get_pseq_elem pl")
    case (Pair got pl1)
    show thesis
    proof (cases got)
      case None
      with Nil e Pair show thesis by (intro none) (auto simp: pde_long_add_pulse_def)
    next
      case (Some a)
      with Nil e Pair show thesis
        by (intro first [of "a\<lparr>seq_count := 1, count_falses := 1, first_ts := ts, last_ts := ts,
              deadline_ts := ts + ucast (window_size pde), seq_pri := 0\<rparr>" pl1])
          (auto simp: pde_long_add_pulse_def Let_def)
    qed
  qed
next
  case (Cons ps rest)
  let ?r = "pde_rs pde" and ?d = "ucast (ts - last_ts ps) :: u32"
  let ?quiet = "?d < ucast (pri_max ?r) \<or> ucast (pri_min ?r) \<le> ?d \<and> ?d \<le> ucast (pri_max ?r) \<or>
     2 < seq_count ps \<and> seq_dur ps + ?d < LONG_RADAR_BURST_MIN_DURATION"
  show thesis
  proof (cases ?quiet)
    case True
    with Cons e show thesis
      by (intro quiet [of ps "if pde' = set_head_seq (ps\<lparr>last_ts := ts\<rparr>) pde then ps\<lparr>last_ts := ts\<rparr>
            else ps\<lparr>last_ts := ts, count_falses := count_falses ps + 1\<rparr>"])
        (auto simp: pde_long_add_pulse_def Let_def split: if_splits)
  next
    case False
    let ?ps = "ps\<lparr>last_ts := ts, seq_count := seq_count ps + 1, count_falses := 1\<rparr>"
    obtain ps1 pde1 pl1 where r: "(if deadline_ts ps < ts
        then long_restart (ts - ucast (window_size pde)) ?ps (pde, pl) else (?ps, pde, pl)) = (ps1, pde1, pl1)"
      by (metis prod.exhaust)
    obtain pde2 pl2 where q: "fst (pulse_queue_enqueue (set_head_seq ps1 pde1) ts pl1) = (pde2, pl2)" by force
    have rs: "pde_rs pde1 = pde_rs pde" "window_size pde1 = window_size pde"
      using r b long_restart_spec [of _ ?ps pde pl ps1 pde1 pl1]
      by (auto simp: bounded_queue_def counted_queue_def same_but_queue_def split: if_splits)
    have "((pde', pl'), res) =
       (if ucast (ppb_thresh ?r) < seq_count ps1 \<and> ucast (window_size pde1 div 2) < ts - first_ts ps1
        then ((set_head_seq ps1 pde1, pl1), Some ps1)
        else ((set_head_seq (ps1\<lparr>seq_dur := ?d\<rparr>) pde2, pl2), None))"
      using e Cons False r q by (auto simp: pde_long_add_pulse_def Let_def)
    moreover have "pde1 = pde \<and> ps1 = ?ps \<or> long_restart (ts - ucast (window_size pde)) ?ps (pde, pl) = (ps1, pde1, pl1)"
      using r by (auto split: if_splits)
    ultimately show thesis using Cons q rs
      by (intro burst [of ps pde1 ps1 pl1]) (auto split: if_splits)
  qed
qed

lemma long_add_keeps:
  assumes b: "bounded_queue pde" and e: "fst (pde_long_add_pulse pde len ts w pl) = (pde', pl')"
  shows "bounded_queue pde' \<and> same_detector pde pde'"
proof -
  obtain res where e': "pde_long_add_pulse pde len ts w pl = ((pde', pl'), res)" using e by (metis prod.collapse)
  have enq: "bounded_queue pde' \<and> same_detector pde pde'"
    if "fst (pulse_queue_enqueue pde1 ts pl0) = (pde', pl')" "bounded_queue pde1" "same_detector pde pde1" for pde1 pl0 pde' pl'
    using that by (meson enqueue_keeps same_but_queue_detector same_detector_trans)
  show ?thesis
  using e' b
  proof (cases rule: long_add_cases)
    case none
    then show ?thesis using b by simp
  next
    case (first ps pl1)
    show ?thesis by (rule enq [OF first(4)]) (use b in \<open>simp_all add: bounded_queue_def same_detector_def\<close>)
  next
    case (quiet ps ps')
    then show ?thesis using b by simp
  next
    case (burst ps ps1 pde1 pl1)
    have b1: "bounded_queue pde1 \<and> same_detector pde pde1"
      using burst(3) b long_restart_keeps [of _ _ pde pl ps1 pde1 pl1] by (auto dest: same_but_queue_detector)
    then show ?thesis using burst(4) enq [of "set_head_seq ps1 pde1" pl1] by auto
  qed
qed

interpretation long: detector_kind pde_long_init pde_long_add_pulse
proof unfold_locales
  fix pde :: pri_detector and len w :: u16 and ts :: u64 and pl :: pools
  show "pulses pde = [] \<Longrightarrow> pde_count pde = 0 \<Longrightarrow> 0 < ppb (pde_rs pde) \<Longrightarrow> bounded_queue (pde_long_init pde)"
    by (simp add: pde_long_init_def bounded_queue_def LONG_RADAR_MAX_BURST_def)
  assume b: "bounded_queue pde"
  show "bounded_queue (fst (fst (pde_long_add_pulse pde len ts w pl)))"
    and "same_detector pde (fst (fst (pde_long_add_pulse pde len ts w pl)))"
    using long_add_keeps [OF b prod.collapse [symmetric]] by blast+
qed

lemma long_add_step:
  assumes i: "long_inv n pde" and s: "n + 1 < 2 ^ 32"
    and e: "pde_long_add_pulse pde len ts w pl = ((pde', pl'), res)"
  shows "long_inv (n + 1) pde' \<and>
    (\<forall>ps. res = Some ps \<longrightarrow> sequences pde' = [ps] \<and>
       unat (ppb_thresh (pde_rs pde)) < unat (seq_count ps) \<and> ucast (window_size pde div 2) < ts - first_ts ps)"
proof -
  have b: "bounded_queue pde" using i by (simp add: long_inv_def)
  have b': "bounded_queue pde'" using long_add_keeps [OF b] e by (metis fst_conv)
  show ?thesis
  using e b
  proof (cases rule: long_add_cases)
    case none
    then show ?thesis using i by (auto simp: long_inv_def)
  next
    case (first ps pl1)
    have "bounded_queue (pde\<lparr>sequences := [ps]\<rparr>)" using b by (simp add: bounded_queue_def)
    from enqueue_keeps [OF this first(4)] show ?thesis using first i b'
      by (auto simp: long_inv_def same_but_queue_def)
  next
    case (quiet ps ps')
    then show ?thesis using i b' by (auto simp: long_inv_def)
  next
    case (burst ps ps1 pde1 pl1)
    let ?ps = "ps\<lparr>last_ts := ts, seq_count := seq_count ps + 1, count_falses := 1\<rparr>"
    have q: "sequences pde = [ps]" "length (pulses pde) \<le> unat (seq_count ps)" "unat (seq_count ps) \<le> n"
      using i burst(1,2) by (auto simp: long_inv_def)
    have c: "unat (seq_count ps + 1) = unat (seq_count ps) + 1"
      using q(3) s by (subst unat_add_no_overflow) simp_all
    have k: "bounded_queue pde1 \<and> same_but_queue pde pde1 \<and> length (pulses pde1) \<le> length (pulses pde)"
      using burst(3) b long_restart_keeps [of _ ?ps pde pl ps1 pde1 pl1] by auto
    have "unat (seq_count ps1) + length (pulses pde) = unat (seq_count ps) + 1 + length (pulses pde1)"
      using burst(3) c q(2) long_restart_count [of _ ?ps pde pl ps1 pde1 pl1] by auto
    then have n1: "length (pulses pde1) + 1 \<le> unat (seq_count ps1)" "unat (seq_count ps1) \<le> n + 1"
      using q(2,3) k by linarith+
    have b1: "sequences pde1 = [ps]" "bounded_queue pde1" using k q(1) by (simp_all add: same_but_queue_def)
    show ?thesis
    proof (cases res)
      case None
      then obtain pde2 pl2 d where "fst (pulse_queue_enqueue (set_head_seq ps1 pde1) ts pl1) = (pde2, pl2)"
          "pde' = set_head_seq (ps1\<lparr>seq_dur := d\<rparr>) pde2" using burst(4) by auto
      with enqueue_keeps [of "set_head_seq ps1 pde1" ts pl1 pde2 pl2] None b1 n1 b' show ?thesis
        by (auto simp: long_inv_def same_but_queue_def)
    next
      case (Some x)
      with burst(4) b1 n1 b' show ?thesis
        by (auto simp: long_inv_def word_less_nat_alt unat_ucast_up)
    qed
  qed
qed

text \<open>Behind the table, the two kinds are again one detector.\<close>

interpretation either: detector_kind ops_init ops_add_pulse
proof unfold_locales
  fix pde :: pri_detector and len w :: u16 and ts :: u64 and pl :: pools
  show "pulses pde = [] \<Longrightarrow> pde_count pde = 0 \<Longrightarrow> 0 < ppb (pde_rs pde) \<Longrightarrow> bounded_queue (ops_init pde)"
    by (cases "pde_ops pde") (simp_all add: ops_init_def short.init_queue long.init_queue)
  assume "bounded_queue pde"
  then show "bounded_queue (fst (fst (ops_add_pulse pde len ts w pl)))"
    and "same_detector pde (fst (fst (ops_add_pulse pde len ts w pl)))"
    by (cases "pde_ops pde"; simp add: ops_add_pulse_def short.add_queue long.add_queue short.add_same long.add_same)+
qed

subsection \<open>What a report is worth\<close>

lemma short_new_inv:
  assumes "waveform r \<noteq> RADAR_WAVEFORM_LONG" "0 < ppb r"
  shows "short_inv r [] (pri_detector_new r freq)"
proof -
  define pde where "pde = \<lparr>pde_rs = r, pde_last_ts = 0, sequences = [], pulses = [], pde_count = 0,
      max_count = 0, window_size = 0, pde_ops = pri_detector_short, pde_freq = freq\<rparr>"
  have "pri_detector_new r freq = pde_short_init pde"
    using assms by (simp add: pri_detector_new_def ops_init_def pde_def)
  moreover have "bounded_queue (pde_short_init pde)"
    by (rule short_init_queue) (use assms in \<open>simp_all add: pde_def\<close>)
  ultimately show ?thesis by (simp add: short_inv_def) (simp add: pde_short_init_def pde_def)
qed

text \<open>The time stamps fed so far, newest first.\<close>

definition stamps :: "(u16 \<times> u64 \<times> u16) list \<Rightarrow> u64 list" where
  "stamps fed = rev (map (fst \<circ> snd) fed)"

lemma length_stamps [simp]: "length (stamps fed) = length fed"
  by (simp add: stamps_def)

lemma feed_nil [simp]: "feed_pulses add [] d = d"
  by (cases d) simp

lemma feed_append:
  "feed_pulses add (ps @ qs) d = feed_pulses add qs (feed_pulses add ps d)"
  by (induction add ps d rule: feed_pulses.induct) (simp_all del: split_paired_All)

lemma feed_short_inv:
  assumes "waveform r \<noteq> RADAR_WAVEFORM_LONG" "0 < ppb r" "0 < pri_min r"
  shows "length fed < 2 ^ 32 \<Longrightarrow> feed_pulses pde_short_add_pulse fed (pri_detector_new r freq, pl) = (pde, pl') \<Longrightarrow>
    short_inv r (stamps fed) pde"
proof (induction fed arbitrary: pde pl' rule: rev_induct)
  case Nil
  then show ?case using short_new_inv [OF assms(1,2)] by (auto simp: stamps_def)
next
  case (snoc p fed)
  obtain len ts w where p: "p = (len, ts, w)" by (metis prod.exhaust)
  obtain pde1 pl1 where f: "feed_pulses pde_short_add_pulse fed (pri_detector_new r freq, pl) = (pde1, pl1)" by force
  obtain res where e: "pde_short_add_pulse pde1 len ts w pl1 = ((pde, pl'), res)"
    using snoc.prems(2) f p by (metis feed_append feed_pulses.simps prod.collapse)
  have "short_inv r (stamps fed) pde1" using snoc.IH [OF _ f] snoc.prems(1) by simp
  from short_add_pulse_step [OF this assms(3) _ e] snoc.prems(1) show ?case
    by (simp add: stamps_def p)
qed

text \<open>C2. A short-waveform report is backed by real pulses: for a detector fed any pulses since its creation,
  the reported sequence consists of \<open>seq_count\<close> distinct received pulses in order, each a multiple
  of the reported interval (within the tolerance) away from its neighbour or from the pulse that
  created the sequence, there are at least as many as the specification requires, and the misses
  stay below \<open>num_pri\<close> times the hits.\<close>

theorem short_detection_sound:
  assumes "waveform r \<noteq> RADAR_WAVEFORM_LONG" "0 < ppb r" "0 < pri_min r" "length fed + 1 < 2 ^ 32"
    and "feed_pulses pde_short_add_pulse fed (pri_detector_new r freq, pl) = (pde, pl1)"
    and "pde_short_add_pulse pde len ts w pl1 = (dp, Some ps)"
  shows "\<exists>ext base. subseq (ext @ base) (ts # stamps fed) \<and> made_of r ext base ps \<and>
      unat (required_pulses r (seq_pri ps)) \<le> length (ext @ base) \<and>
      count_falses ps < seq_count ps * ucast (num_pri r)"
proof -
  obtain pde' pl' where d: "dp = (pde', pl')" by (metis prod.exhaust)
  have "short_inv r (stamps fed) pde" using feed_short_inv [OF assms(1-3) _ assms(5)] assms(4) by simp
  from short_add_pulse_step [OF this assms(3) _ assms(6) [unfolded d]] assms(4)
  have "short_inv r (ts # stamps fed) pde'" "ps \<in> set (sequences pde')" "seq_complete r ps" by simp_all
  then have "sound_seq r (ts # stamps fed) ps" "seq_complete r ps" by (simp_all add: short_inv_def)
  then obtain ext base where eb: "subseq (ext @ base) (ts # stamps fed)" "made_of r ext base ps"
      "seq_ppb_thresh ps = required_pulses r (seq_pri ps)" and c: "seq_complete r ps"
    by (auto simp: sound_seq_def justified_def)
  moreover have "unat (required_pulses r (seq_pri ps)) \<le> length (ext @ base)"
    using c eb(2,3) by (simp add: made_of_def seq_complete_def word_le_nat_alt unat_ucast_up)
  ultimately show ?thesis unfolding seq_complete_def by blast
qed

text \<open>The witness: the FCC pattern 6 (one pulse every 333 us, five needed), a steady train.\<close>

definition steady_train :: "nat \<Rightarrow> (u16 \<times> u64 \<times> u16) list" where
  "steady_train n = map (\<lambda>k. (4, of_nat k * 333 + 1000, 333)) [0..<n]"

definition roomy_pools :: pools where
  "roomy_pools = \<lparr>pulse_pool = [], pseq_pool = [], singleton_pool_references = 1,
     kmalloc_ok = replicate 24 True,
     junk = \<lparr>seq_pri = 7, seq_dur = 7, seq_count = 7, count_falses = 7, first_ts = 7, last_ts = 7,
             deadline_ts = 7, seq_ppb_thresh = 7\<rparr>\<rparr>"

lemma steady_train_report:
  "let r = FCC_PATTERN 6 0 8 333 333 1 9 RADAR_WAVEFORM_SHORT;
       (pde, pl) = feed_pulses pde_short_add_pulse (steady_train 4) (pri_detector_new r 5600, roomy_pools);
       (d, res) = pde_short_add_pulse pde 4 2332 333 pl
   in res \<noteq> None \<and> seq_count (the res) = 5 \<and> seq_pri (the res) = 333"
  by code_simp

theorem short_detection_sound_witness:
  "\<exists>ps ext base. seq_pri ps = 333 \<and> seq_count ps = 5 \<and>
     subseq (ext @ base) (2332 # stamps (steady_train 4)) \<and>
     made_of (FCC_PATTERN 6 0 8 333 333 1 9 RADAR_WAVEFORM_SHORT) ext base ps"
proof -
  let ?r = "FCC_PATTERN 6 0 8 333 333 1 9 RADAR_WAVEFORM_SHORT"
  obtain pde pl where f: "feed_pulses pde_short_add_pulse (steady_train 4) (pri_detector_new ?r 5600, roomy_pools) = (pde, pl)"
    by (metis prod.exhaust)
  obtain d res where e: "pde_short_add_pulse pde 4 2332 333 pl = (d, res)" by (metis prod.exhaust)
  have "res \<noteq> None \<and> seq_count (the res) = 5 \<and> seq_pri (the res) = 333"
    using steady_train_report unfolding Let_def f prod.case e .
  then obtain ps where ps: "res = Some ps" "seq_count ps = 5" "seq_pri ps = 333" by auto
  have r: "waveform ?r \<noteq> RADAR_WAVEFORM_LONG" "0 < ppb ?r" "0 < pri_min ?r" by code_simp+
  have "length (steady_train 4) + 1 < 2 ^ 32" by (simp add: steady_train_def)
  from short_detection_sound [OF r this f e [unfolded ps(1)]] ps show ?thesis by blast
qed

lemma long_new:
  "waveform r = RADAR_WAVEFORM_LONG \<Longrightarrow> pri_detector_new r freq =
     \<lparr>pde_rs = r, pde_last_ts = 0, sequences = [], pulses = [], pde_count = 0, max_count = 20,
      window_size = 12000000, pde_ops = pri_detector_long, pde_freq = freq\<rparr>"
  by (simp add: pri_detector_new_def ops_init_def pde_long_init_def LONG_RADAR_MAX_BURST_def LONG_RADAR_DURATION_def)

lemma feed_long_inv:
  assumes "waveform r = RADAR_WAVEFORM_LONG"
  shows "length fed < 2 ^ 32 \<Longrightarrow> feed_pulses pde_long_add_pulse fed (pri_detector_new r freq, pl) = (pde, pl') \<Longrightarrow>
    long_inv (length fed) pde \<and> same_detector (pri_detector_new r freq) pde"
proof (induction fed arbitrary: pde pl' rule: rev_induct)
  case Nil
  then show ?case by (auto simp: long_inv_def long_new [OF assms] bounded_queue_def)
next
  case (snoc p fed)
  obtain len ts w where p: "p = (len, ts, w)" by (metis prod.exhaust)
  obtain pde1 pl1 where f: "feed_pulses pde_long_add_pulse fed (pri_detector_new r freq, pl) = (pde1, pl1)" by force
  have e1: "fst (pde_long_add_pulse pde1 len ts w pl1) = (pde, pl')"
    using snoc.prems(2) f p by (simp add: feed_append)
  then obtain res where e: "pde_long_add_pulse pde1 len ts w pl1 = ((pde, pl'), res)" by (metis prod.collapse)
  have i: "long_inv (length fed) pde1" "same_detector (pri_detector_new r freq) pde1"
    using snoc.IH [OF _ f] snoc.prems(1) by simp_all
  have "bounded_queue pde1" using i(1) by (simp add: long_inv_def)
  from long_add_keeps [OF this e1] have "same_detector (pri_detector_new r freq) pde"
    using i(2) by (auto intro: same_detector_trans)
  with long_add_step [OF i(1) _ e] snoc.prems(1) show ?case by simp
qed

text \<open>The burst counter of the long-waveform detector is sound: fed any pulses since its creation, the
  detector has at most one sequence, its counter never wraps below the number of queued bursts
  (expired bursts are taken off it) nor above the number of pulses seen, fewer than 20 bursts are queued,
  and a report needs more bursts than the threshold spread over more than half the window.\<close>

theorem long_detector_counts:
  assumes "waveform r = RADAR_WAVEFORM_LONG" "length fed + 1 < 2 ^ 32"
    and "feed_pulses pde_long_add_pulse fed (pri_detector_new r freq, pl) = (pde, pl1)"
    and "pde_long_add_pulse pde len ts w pl1 = ((pde', pl2), res)"
  shows "length (sequences pde') \<le> 1 \<and> length (pulses pde') < 20 \<and>
    (\<forall>ps \<in> set (sequences pde'). length (pulses pde') \<le> unat (seq_count ps) \<and> unat (seq_count ps) \<le> length fed + 1) \<and>
    (\<forall>ps. res = Some ps \<longrightarrow> sequences pde' = [ps] \<and> unat (ppb_thresh r) < unat (seq_count ps) \<and>
       6000000 < ts - first_ts ps)"
proof -
  have i: "long_inv (length fed) pde" "same_detector (pri_detector_new r freq) pde"
    using feed_long_inv [OF assms(1) _ assms(3)] assms(2) by simp_all
  from i(2) have r: "pde_rs pde = r" "window_size pde = 12000000" "max_count pde = 20"
    by (simp_all add: same_detector_def long_new [OF assms(1)])
  have b: "bounded_queue pde" using i(1) by (simp add: long_inv_def)
  have "max_count pde' = 20" using long_add_keeps [OF b, of len ts w pl1 pde' pl2] assms(4) r
    by (simp add: same_detector_def)
  with long_add_step [OF i(1) assms(2,4)] r show ?thesis
    by (auto simp: long_inv_def bounded_queue_def)
qed

text \<open>The witness: six bursts more than a second apart.\<close>

definition six_bursts :: "(u16 \<times> u64 \<times> u16) list" where
  "six_bursts = map (\<lambda>k. (60, of_nat k * 2000000 + 1000, 0)) [0..<5]"

lemma six_bursts_report:
  "let r = FCC_PATTERN 5 50 104 1000 2000 1 8 RADAR_WAVEFORM_LONG;
       (pde, pl) = feed_pulses pde_long_add_pulse six_bursts (pri_detector_new r 5600, roomy_pools);
       (d, res) = pde_long_add_pulse pde 60 10001000 0 pl
   in res \<noteq> None \<and> seq_count (the res) = 6"
  by code_simp

theorem long_detector_counts_witness:
  "\<exists>(pde' :: pri_detector) ps. sequences pde' = [ps] \<and> seq_count ps = 6 \<and> length (pulses pde') < 20"
proof -
  let ?r = "FCC_PATTERN 5 50 104 1000 2000 1 8 RADAR_WAVEFORM_LONG"
  obtain pde pl where f: "feed_pulses pde_long_add_pulse six_bursts (pri_detector_new ?r 5600, roomy_pools) = (pde, pl)"
    by (metis prod.exhaust)
  obtain pde' pl' res where e: "pde_long_add_pulse pde 60 10001000 0 pl = ((pde', pl'), res)" by (metis prod.exhaust)
  have "res \<noteq> None \<and> seq_count (the res) = 6"
    using six_bursts_report unfolding Let_def f prod.case e .
  then obtain ps where ps: "res = Some ps" "seq_count ps = 6" by auto
  have "waveform ?r = RADAR_WAVEFORM_LONG" "length six_bursts + 1 < 2 ^ 32"
    by (simp_all add: FCC_PATTERN_def six_bursts_def)
  from long_detector_counts [OF this f e] ps show ?thesis by blast
qed

text \<open>
  The comment of the second branch says that a pulse one interval after the last belongs to the
  current burst and is counted in \<open>count_falses\<close>, but the first branch compares with \<open>pri_max\<close>, so
  it takes every such pulse.  A train shifts only \<open>last_ts\<close>.
\<close>

fun gaps_below :: "u32 \<Rightarrow> u64 \<Rightarrow> (u16 \<times> u64 \<times> u16) list \<Rightarrow> bool" where
  "gaps_below g t [] = True"
| "gaps_below g t ((len, ts, w) # ps) = (ucast (ts - t) < g \<and> gaps_below g ts ps)"

text \<open>A train of pulses with every gap below \<open>pri_max\<close>, legal or not, is never counted by the long
  detector: after any such train only the last time stamp of the sequence has moved, and neither
  \<open>count_falses\<close> nor the burst counter has changed.\<close>

theorem long_train_never_counted:
  assumes "sequences pde = [ps]" "gaps_below (ucast (pri_max (pde_rs pde))) (last_ts ps) train"
  shows "feed_pulses pde_long_add_pulse train (pde, pl) =
    (pde\<lparr>sequences := [ps\<lparr>last_ts := (if train = [] then last_ts ps else fst (snd (last train)))\<rparr>]\<rparr>, pl)"
  using assms
proof (induction train arbitrary: pde ps)
  case Nil
  then show ?case by (cases pde) simp
next
  case (Cons p train)
  obtain len ts w where p: "p = (len, ts, w)" by (metis prod.exhaust)
  let ?pde = "pde\<lparr>sequences := [ps\<lparr>last_ts := ts\<rparr>]\<rparr>"
  have "pde_long_add_pulse pde len ts w pl = ((?pde, pl), None)"
    using Cons.prems p by (simp add: pde_long_add_pulse_def set_head_seq_def)
  moreover have "feed_pulses pde_long_add_pulse train (?pde, pl) =
    (?pde\<lparr>sequences := [ps\<lparr>last_ts := (if train = [] then ts else fst (snd (last train)))\<rparr>]\<rparr>, pl)"
    using Cons.IH [of ?pde "ps\<lparr>last_ts := ts\<rparr>"] Cons.prems p by simp
  ultimately show ?case using p by simp
qed

theorem long_train_never_counted_witness:
  "let r = FCC_PATTERN 5 50 104 1000 2000 1 8 RADAR_WAVEFORM_LONG;
       ps = junk roomy_pools; pde = (pri_detector_new r 5600)\<lparr>sequences := [ps]\<rparr>
   in feed_pulses pde_long_add_pulse [(60, 1507, 0), (60, 3007, 0)] (pde, roomy_pools) =
        (pde\<lparr>sequences := [ps\<lparr>last_ts := 3007\<rparr>]\<rparr>, roomy_pools)"
proof -
  let ?r = "FCC_PATTERN 5 50 104 1000 2000 1 8 RADAR_WAVEFORM_LONG"
  let ?ps = "junk roomy_pools" and ?t = "[(60, 1507, 0), (60, 3007, 0)] :: (u16 \<times> u64 \<times> u16) list"
  let ?pde = "(pri_detector_new ?r 5600)\<lparr>sequences := [?ps]\<rparr>"
  have "sequences ?pde = [?ps]" by simp
  moreover have "gaps_below (ucast (pri_max (pde_rs ?pde))) (last_ts ?ps) ?t" by code_simp
  ultimately show ?thesis using long_train_never_counted [of ?pde ?ps ?t roomy_pools] by (simp add: Let_def)
qed

text \<open>Both detector kinds keep their pulse queue within bounds for ever: the counter is the length of the
  queue and the queue stays below \<open>max_count\<close>, for any pulses and whatever the allocator does.\<close>

theorem detector_queue_bounded:
  assumes "0 < ppb r"
  shows "bounded_queue (fst (feed_pulses ops_add_pulse fed (pri_detector_new r freq, pl)))"
proof -
  define pde where "pde = \<lparr>pde_rs = r, pde_last_ts = 0, sequences = [], pulses = [], pde_count = 0,
      max_count = 0, window_size = 0, pde_ops = (if waveform r = RADAR_WAVEFORM_LONG then pri_detector_long else pri_detector_short),
      pde_freq = freq\<rparr>"
  have "bounded_queue (ops_init pde)" using assms by (intro either.init_queue) (simp_all add: pde_def)
  then show ?thesis
    using either.feed_keeps [OF _ prod.collapse [symmetric]] by (simp add: pri_detector_new_def pde_def)
qed

theorem detector_queue_bounded_witness:
  "bounded_queue (fst (feed_pulses ops_add_pulse (steady_train 30)
     (pri_detector_new (FCC_PATTERN 6 0 8 333 333 1 9 RADAR_WAVEFORM_SHORT) 5600, roomy_pools)))"
  by (rule detector_queue_bounded) code_simp

end
