(* ===== verification/Radar_Dfs.thy ===== *)
theory Radar_Dfs
  imports Radar_Ops
begin

text \<open>
  The DFS pattern detector, the second half of \<^verbatim>\<open>aic8800_fdrv/rwnx_radar.c\<close>: the tables of radar
  patterns per regulatory domain, the matrix of detectors (a row per pattern, a detector per
  frequency), and the operations on it.  A null pointer that the code would follow is \<open>None\<close>.
\<close>

unbundle bit_operations_syntax

subsection \<open>Domains and their patterns\<close>

datatype nl80211_dfs_regions = NL80211_DFS_UNSET | NL80211_DFS_FCC | NL80211_DFS_ETSI | NL80211_DFS_JP

definition etsi_radar_ref_types_v17_riu :: "radar_detector_specs list" where
  "etsi_radar_ref_types_v17_riu =
    [ETSI_PATTERN_SHORT 0 0 8 700 700 18, ETSI_PATTERN_SHORT 1 0 10 200 1000 10,
     ETSI_PATTERN_SHORT 2 0 22 200 1600 15, ETSI_PATTERN_SHORT 3 0 22 2300 4000 25,
     ETSI_PATTERN_SHORT 4 20 38 2000 4000 20, ETSI_PATTERN_INTERLEAVED 5 0 8 300 400 2 3 10,
     ETSI_PATTERN_INTERLEAVED 6 0 8 400 1200 2 3 15]"

definition etsi_radar_ref_types_v17_fcu :: "radar_detector_specs list" where
  "etsi_radar_ref_types_v17_fcu =
    [ETSI_PATTERN_SHORT 0 0 8 700 700 18, ETSI_PATTERN_SHORT 1 0 8 200 1000 10,
     ETSI_PATTERN_SHORT 2 0 16 200 1600 15, ETSI_PATTERN_SHORT 3 0 16 2300 4000 25,
     ETSI_PATTERN_SHORT 4 20 34 2000 4000 20, ETSI_PATTERN_INTERLEAVED 5 0 8 300 400 2 3 10,
     ETSI_PATTERN_INTERLEAVED 6 0 8 400 1200 2 3 15]"

definition fcc_radar_ref_types_riu :: "radar_detector_specs list" where
  "fcc_radar_ref_types_riu =
    [FCC_PATTERN 0 0 8 1428 1428 1 18 RADAR_WAVEFORM_SHORT,
     FCC_PATTERN 1 0 8 518 3066 1 102 RADAR_WAVEFORM_WEATHER,
     FCC_PATTERN 2 0 8 150 230 1 23 RADAR_WAVEFORM_SHORT,
     FCC_PATTERN 3 6 20 200 500 1 16 RADAR_WAVEFORM_SHORT,
     FCC_PATTERN 4 10 28 200 500 1 12 RADAR_WAVEFORM_SHORT,
     FCC_PATTERN 5 50 110 1000 2000 1 8 RADAR_WAVEFORM_LONG,
     FCC_PATTERN 6 0 8 333 333 1 9 RADAR_WAVEFORM_SHORT]"

definition fcc_radar_ref_types_fcu :: "radar_detector_specs list" where
  "fcc_radar_ref_types_fcu =
    [FCC_PATTERN 0 0 8 1428 1428 1 18 RADAR_WAVEFORM_SHORT,
     FCC_PATTERN 1 0 8 518 3066 1 102 RADAR_WAVEFORM_WEATHER,
     FCC_PATTERN 2 0 8 150 230 1 23 RADAR_WAVEFORM_SHORT,
     FCC_PATTERN 3 6 12 200 500 1 16 RADAR_WAVEFORM_SHORT,
     FCC_PATTERN 4 10 22 200 500 1 12 RADAR_WAVEFORM_SHORT,
     FCC_PATTERN 5 50 104 1000 2000 1 8 RADAR_WAVEFORM_LONG,
     FCC_PATTERN 6 0 8 333 333 1 9 RADAR_WAVEFORM_SHORT]"

definition jp_radar_ref_types_riu :: "radar_detector_specs list" where
  "jp_radar_ref_types_riu =
    [FCC_PATTERN 0 0 8 1428 1428 1 18 RADAR_WAVEFORM_SHORT,
     FCC_PATTERN 1 2 8 3846 3846 1 18 RADAR_WAVEFORM_SHORT,
     FCC_PATTERN 2 0 8 1388 1388 1 18 RADAR_WAVEFORM_SHORT,
     FCC_PATTERN 3 0 8 4000 4000 1 18 RADAR_WAVEFORM_SHORT,
     FCC_PATTERN 4 0 8 150 230 1 23 RADAR_WAVEFORM_SHORT,
     FCC_PATTERN 5 6 20 200 500 1 16 RADAR_WAVEFORM_SHORT,
     FCC_PATTERN 6 10 28 200 500 1 12 RADAR_WAVEFORM_SHORT,
     FCC_PATTERN 7 50 110 1000 2000 1 8 RADAR_WAVEFORM_LONG,
     FCC_PATTERN 8 0 8 333 333 1 9 RADAR_WAVEFORM_SHORT]"

definition jp_radar_ref_types_fcu :: "radar_detector_specs list" where
  "jp_radar_ref_types_fcu =
    [FCC_PATTERN 0 0 8 1428 1428 1 18 RADAR_WAVEFORM_SHORT,
     FCC_PATTERN 1 2 6 3846 3846 1 18 RADAR_WAVEFORM_SHORT,
     FCC_PATTERN 2 0 8 1388 1388 1 18 RADAR_WAVEFORM_SHORT,
     FCC_PATTERN 3 2 2 4000 4000 1 18 RADAR_WAVEFORM_SHORT,
     FCC_PATTERN 4 0 8 150 230 1 23 RADAR_WAVEFORM_SHORT,
     FCC_PATTERN 5 6 12 200 500 1 16 RADAR_WAVEFORM_SHORT,
     FCC_PATTERN 6 10 22 200 500 1 12 RADAR_WAVEFORM_SHORT,
     FCC_PATTERN 7 50 104 1000 2000 1 8 RADAR_WAVEFORM_LONG,
     FCC_PATTERN 8 0 8 333 333 1 9 RADAR_WAVEFORM_SHORT]"

record radar_types =
  rt_region :: nl80211_dfs_regions
  rt_num :: u32
  spec_riu :: "radar_detector_specs list"
  spec_fcu :: "radar_detector_specs list"

definition etsi_radar_types_v17 :: radar_types where
  "etsi_radar_types_v17 = \<lparr>rt_region = NL80211_DFS_ETSI, rt_num = of_nat (length etsi_radar_ref_types_v17_riu),
     spec_riu = etsi_radar_ref_types_v17_riu, spec_fcu = etsi_radar_ref_types_v17_fcu\<rparr>"

definition fcc_radar_types :: radar_types where
  "fcc_radar_types = \<lparr>rt_region = NL80211_DFS_FCC, rt_num = of_nat (length fcc_radar_ref_types_riu),
     spec_riu = fcc_radar_ref_types_riu, spec_fcu = fcc_radar_ref_types_fcu\<rparr>"

definition jp_radar_types :: radar_types where
  "jp_radar_types = \<lparr>rt_region = NL80211_DFS_JP, rt_num = of_nat (length jp_radar_ref_types_riu),
     spec_riu = jp_radar_ref_types_riu, spec_fcu = jp_radar_ref_types_fcu\<rparr>"

definition dfs_domains :: "radar_types list" where
  "dfs_domains = [etsi_radar_types_v17, fcc_radar_types, jp_radar_types]"

definition get_dfs_domain_radar_types :: "nl80211_dfs_regions \<Rightarrow> radar_types option" where
  "get_dfs_domain_radar_types r = find (\<lambda>rt. rt_region rt = r) dfs_domains"

definition get_dfs_max_radar_types :: u16 where
  "get_dfs_max_radar_types =
     fold (\<lambda>rt mx. if ucast mx < rt_num rt then ucast (rt_num rt) else mx) dfs_domains 0"

subsection \<open>The matrix of detectors\<close>

record dfs_pattern_detector =
  dpd_enabled :: u8
  dpd_region :: nl80211_dfs_regions
  num_radar_types :: u8
  last_pulse_ts :: u64
  prev_jiffies :: u32
  radar_spec :: "radar_detector_specs list"
  detectors :: "pri_detector list list"

text \<open>The three loops over all detectors: resetting (all, or those a predicate selects) and deleting.\<close>

fun reset_row :: "(pri_detector \<Rightarrow> bool) \<Rightarrow> u64 \<Rightarrow> pri_detector list \<Rightarrow> pools \<Rightarrow> pri_detector list \<times> pools" where
  "reset_row sel ts [] pl = ([], pl)"
| "reset_row sel ts (pde # row) pl =
     (let (pde, pl) = (if sel pde then pri_detector_reset pde ts pl else (pde, pl));
          (row, pl) = reset_row sel ts row pl
      in (pde # row, pl))"

fun reset_rows ::
  "(pri_detector \<Rightarrow> bool) \<Rightarrow> u64 \<Rightarrow> nat \<Rightarrow> pri_detector list list \<Rightarrow> pools \<Rightarrow> pri_detector list list \<times> pools" where
  "reset_rows sel ts (Suc n) (row # rows) pl =
     (let (row, pl) = reset_row sel ts row pl; (rows, pl) = reset_rows sel ts n rows pl in (row # rows, pl))"
| "reset_rows sel ts n rows pl = (rows, pl)"

definition pri_detector_exit :: "pri_detector \<Rightarrow> pools \<Rightarrow> pools" where
  "pri_detector_exit pde pl = pool_deregister_ref (snd (pri_detector_reset pde 0 pl))"

fun exit_rows :: "nat \<Rightarrow> pri_detector list list \<Rightarrow> pools \<Rightarrow> pri_detector list list \<times> pools" where
  "exit_rows (Suc n) (row # rows) pl =
     (let (rows, pl) = exit_rows n rows (fold pri_detector_exit row pl) in ([] # rows, pl))"
| "exit_rows n rows pl = (rows, pl)"

definition dfs_pattern_detector_reset ::
  "u32 \<Rightarrow> dfs_pattern_detector \<Rightarrow> pools \<Rightarrow> dfs_pattern_detector \<times> pools" where
  "dfs_pattern_detector_reset jiffies dpd pl =
     (let (rows, pl) = reset_rows (\<lambda>_. True) (last_pulse_ts dpd) (unat (num_radar_types dpd)) (detectors dpd) pl
      in (dpd\<lparr>detectors := rows, last_pulse_ts := 0, prev_jiffies := jiffies\<rparr>, pl))"

definition dfs_pattern_detector_exit :: "dfs_pattern_detector \<Rightarrow> pools \<Rightarrow> pools" where
  "dfs_pattern_detector_exit dpd pl = snd (exit_rows (unat (num_radar_types dpd)) (detectors dpd) pl)"

definition dfs_pattern_detector_pri_overflow ::
  "dfs_pattern_detector \<Rightarrow> pools \<Rightarrow> dfs_pattern_detector \<times> pools" where
  "dfs_pattern_detector_pri_overflow dpd pl =
     (let (rows, pl) = reset_rows (\<lambda>pde. reset_on_pri_overflow (pde_ops pde)) (last_pulse_ts dpd)
                         (unat (num_radar_types dpd)) (detectors dpd) pl
      in (dpd\<lparr>detectors := rows\<rparr>, pl))"

definition pri_detector_init ::
  "dfs_pattern_detector \<Rightarrow> nat \<Rightarrow> u16 \<Rightarrow> pools \<Rightarrow> nat option \<times> dfs_pattern_detector \<times> pools" where
  "pri_detector_init dpd radar_type freq pl =
     (case kmalloc pl of
        (False, pl) \<Rightarrow> (None, dpd, pl)
      | (True, pl) \<Rightarrow>
          (Some 0,
           dpd\<lparr>detectors := (detectors dpd)[radar_type :=
                 pri_detector_new (radar_spec dpd ! radar_type) freq # detectors dpd ! radar_type]\<rparr>,
           pool_register_ref pl))"

text \<open>The search of \<open>pri_detector_get\<close>; a pointer into the row is a position in it.\<close>

fun find_detector :: "u16 \<Rightarrow> nat \<Rightarrow> nat option \<Rightarrow> pri_detector list \<Rightarrow> nat option" where
  "find_detector freq i cur [] = cur"
| "find_detector freq i cur (pde # row) =
     (if pde_freq pde = freq
      then if pde_count pde \<noteq> 0 then Some i else find_detector freq (i + 1) (Some i) row
      else if uint (pde_freq pde) - 2 = uint freq \<and> pde_count pde \<noteq> 0 then Some i
      else if uint (pde_freq pde) + 2 = uint freq \<and> pde_count pde \<noteq> 0 then Some i
      else find_detector freq (i + 1) cur row)"

definition pri_detector_get ::
  "dfs_pattern_detector \<Rightarrow> u16 \<Rightarrow> nat \<Rightarrow> pools \<Rightarrow> nat option \<times> dfs_pattern_detector \<times> pools" where
  "pri_detector_get dpd freq radar_type pl =
     (case find_detector freq 0 None (detectors dpd ! radar_type) of
        Some k \<Rightarrow> (Some k, dpd, pl)
      | None \<Rightarrow> pri_detector_init dpd radar_type freq pl)"

text \<open>The loop of \<open>dfs_pattern_detector_add_pulse\<close> over the patterns.\<close>

fun add_to_types ::
  "u32 \<Rightarrow> u16 \<Rightarrow> u16 \<Rightarrow> u16 \<Rightarrow> nat list \<Rightarrow> dfs_pattern_detector \<times> pools \<Rightarrow>
     ((dfs_pattern_detector \<times> pools) \<times> bool) option" where
  "add_to_types jiffies freq w len [] (dpd, pl) = Some ((dpd, pl), False)"
| "add_to_types jiffies freq w len (i # is) (dpd, pl) =
     (let r = radar_spec dpd ! i in
      if len < ucast (width_min r) \<or> ucast (width_max r) < len
      then add_to_types jiffies freq w len is (dpd, pl)
      else case pri_detector_get dpd freq i pl of
        (None, dpd, pl) \<Rightarrow> None
      | (Some k, dpd, pl) \<Rightarrow>
          let ((pde, pl), res) = ops_add_pulse (detectors dpd ! i ! k) len (last_pulse_ts dpd) w pl;
              dpd = dpd\<lparr>detectors := (detectors dpd)[i := (detectors dpd ! i)[k := pde]]\<rparr>
          in if res \<noteq> None then Some (dfs_pattern_detector_reset jiffies dpd pl, True)
             else add_to_types jiffies freq w len is (dpd, pl))"

definition delta_jiffie :: "u32 \<Rightarrow> u32 \<Rightarrow> u32" where
  "delta_jiffie prev now = (if now < prev then 0xffffffff - prev + now else now - prev)"

text \<open>\<open>jiffies_to_usecs\<close> depends on the kernel's tick rate: a parameter.\<close>

definition dfs_pattern_detector_add_pulse ::
  "(u32 \<Rightarrow> u32) \<Rightarrow> u32 \<Rightarrow> dfs_pattern_detector \<Rightarrow> u16 \<Rightarrow> u16 \<Rightarrow> u16 \<Rightarrow> u32 \<Rightarrow> pools \<Rightarrow>
     ((dfs_pattern_detector \<times> pools) \<times> bool) option" where
  "dfs_pattern_detector_add_pulse jiffies_to_usecs jiffies dpd freq w len now pl =
     (if dpd_region dpd = NL80211_DFS_UNSET then Some ((dpd, pl), True)
      else
        let (dpd, pl) =
          (if w = 0
           then dfs_pattern_detector_pri_overflow
                  (dpd\<lparr>last_pulse_ts := last_pulse_ts dpd + ucast (jiffies_to_usecs (delta_jiffie (prev_jiffies dpd) now)),
                       prev_jiffies := now\<rparr>) pl
           else (dpd\<lparr>last_pulse_ts := last_pulse_ts dpd + ucast w\<rparr>, pl))
        in add_to_types jiffies freq w len [0..<unat (num_radar_types dpd)] (dpd, pl))"

definition RWNX_RADAR_RIU :: u8 where "RWNX_RADAR_RIU = 0"
definition RWNX_RADAR_FCU :: u8 where "RWNX_RADAR_FCU = 1"

definition dfs_pattern_detector_set_domain ::
  "dfs_pattern_detector \<Rightarrow> nl80211_dfs_regions \<Rightarrow> u8 \<Rightarrow> pools \<Rightarrow> (dfs_pattern_detector \<times> pools) \<times> bool" where
  "dfs_pattern_detector_set_domain dpd r chain pl =
     (if dpd_region dpd = r then ((dpd, pl), True)
      else let dpd = dpd\<lparr>dpd_region := NL80211_DFS_UNSET\<rparr> in
        case get_dfs_domain_radar_types r of
          None \<Rightarrow> ((dpd, pl), False)
        | Some rt \<Rightarrow>
            let (rows, pl) = exit_rows (unat (num_radar_types dpd)) (detectors dpd) pl
            in ((dpd\<lparr>detectors := rows,
                      radar_spec := (if chain = RWNX_RADAR_RIU then spec_riu rt else spec_fcu rt),
                      num_radar_types := ucast (rt_num rt), dpd_region := r\<rparr>, pl), True))"

text \<open>\<open>radar_spec\<close> is not written by the initialisation; no code reads it while the region is unset.\<close>

definition dfs_pattern_detector_init ::
  "u32 \<Rightarrow> nl80211_dfs_regions \<Rightarrow> u8 \<Rightarrow> pools \<Rightarrow> dfs_pattern_detector option \<times> pools" where
  "dfs_pattern_detector_init jiffies r chain pl =
     (case kmalloc pl of
        (False, pl) \<Rightarrow> (None, pl)
      | (True, pl) \<Rightarrow>
          (case dfs_pattern_detector_set_domain
                  \<lparr>dpd_enabled = 0, dpd_region = NL80211_DFS_UNSET, num_radar_types = 0, last_pulse_ts = 0,
                   prev_jiffies = jiffies, radar_spec = [],
                   detectors = replicate (unat get_dfs_max_radar_types) []\<rparr> r chain pl of
             ((dpd, pl), ok) \<Rightarrow> (if ok then Some dpd else None, pl)))"

subsection \<open>Pool references\<close>

text \<open>No operation on pulses touches the reference count of the pools; only detectors come and go.\<close>

abbreviation refs :: "pools \<Rightarrow> u32" where "refs \<equiv> singleton_pool_references"

lemma refs_kmalloc [frame_simps]: "kmalloc pl = (b, pl') \<Longrightarrow> refs pl' = refs pl"
  by (auto simp: kmalloc_def split: list.splits)

lemma refs_put [simp]: "refs (pool_put_pulse_elem p pl) = refs pl" "refs (pool_put_pseq_elem q pl) = refs pl"
  by (simp_all add: pool_put_pulse_elem_def pool_put_pseq_elem_def)

lemma refs_get_pseq: "pool_get_pseq_elem pl = (got, pl') \<Longrightarrow> refs pl' = refs pl"
  by (auto simp: pool_get_pseq_elem_def dest: refs_kmalloc split: list.splits prod.splits)

lemma refs_get_pulse: "pool_get_pulse_elem pl = (got, pl') \<Longrightarrow> refs pl' = refs pl"
  by (auto simp: pool_get_pulse_elem_def split: list.splits)

lemma refs_dequeue: "fst (pulse_queue_dequeue pde pl) = (pde', pl') \<Longrightarrow> refs pl' = refs pl"
  by (auto simp: dequeue_fst split: if_splits)

lemma refs_drop_old: "drop_old_pulses m (pde, pl) = (pde', pl') \<Longrightarrow> refs pl' = refs pl"
proof (induction m "(pde, pl)" arbitrary: pde pl rule: drop_old_pulses.induct)
  case (1 m pde pl)
  obtain pde1 pl1 where d: "fst (pulse_queue_dequeue pde pl) = (pde1, pl1)" by force
  show ?case
  proof (cases "pulses pde = [] \<or> m \<le> last (pulses pde)")
    case True
    then show ?thesis using 1(2)
      by (auto simp: drop_old_pulses.simps [of m pde] pulse_queue_get_tail_def split: if_splits)
  next
    case False
    then show ?thesis using 1(2) 1(1) [of "last (pulses pde)" pde1 pl1] refs_dequeue [OF d] d
      by (simp add: drop_old_pulses.simps [of m pde] pulse_queue_get_tail_def)
  qed
qed

lemma refs_check_window: "pulse_queue_check_window pde pl = (pde', pl') \<Longrightarrow> refs pl' = refs pl"
  by (auto simp: pulse_queue_check_window_def dest: refs_drop_old split: if_splits)

lemma refs_enqueue: "fst (pulse_queue_enqueue pde ts pl) = (pde', pl') \<Longrightarrow> refs pl' = refs pl"
  by (auto simp: pulse_queue_enqueue_def Let_def
      dest!: refs_get_pulse refs_check_window refs_kmalloc refs_dequeue [of _ _ pde' pl']
      split: prod.splits option.splits bool.splits if_splits)

lemma refs_add_to_seqs: "add_to_seqs r ts pss pl mx = (pss', pl', mx') \<Longrightarrow> refs pl' = refs pl"
  by (induction r ts pss pl mx arbitrary: pss' pl' mx' rule: add_to_seqs.induct)
    (fastforce simp: Let_def split: if_splits prod.splits)+

lemma refs_create_loop: "create_sequences_loop ts mc idx past (pde, pl) = ((pde', pl'), ok) \<Longrightarrow> refs pl' = refs pl"
  by (induction ts mc idx past "(pde, pl)" arbitrary: pde pl rule: create_sequences_loop.induct)
    (fastforce simp: Let_def dest: refs_get_pseq split: if_splits prod.splits option.splits)+

lemma refs_fold_put [simp]:
  "refs (fold pool_put_pulse_elem ps pl) = refs pl" "refs (fold pool_put_pseq_elem qs pl) = refs pl"
  by (induction ps arbitrary: pl) (simp_all, induction qs arbitrary: pl, simp_all)

lemma refs_reset [simp]: "refs (snd (pri_detector_reset pde ts pl)) = refs pl"
  by (simp add: pri_detector_reset_def)

lemma refs_long_restart: "long_restart m ps (pde, pl) = (ps', pde', pl') \<Longrightarrow> refs pl' = refs pl"
proof (induction "length (pulses pde)" arbitrary: ps pde pl)
  case (Suc n)
  obtain pde1 pl1 where d: "fst (pulse_queue_dequeue pde pl) = (pde1, pl1)" by force
  have "n = length (pulses pde1)" using dequeue_spec(1) [OF d] Suc(2) by simp
  with Suc(1) [of pde1] Suc(2,3) d refs_dequeue [OF d] show ?case
    by (auto simp: long_restart_step [of m ps pde] split: if_splits)
qed (simp add: long_restart_step)

lemma refs_short_add: 
  assumes "fst (pde_short_add_pulse pde len ts w pl) = (pde', pl')"
  shows "refs pl' = refs pl"
proof -
  have res: "refs (snd (pri_detector_reset pde2 ts pl2)) = refs pl2" for pde2 pl2 by simp
  show ?thesis using assms
    by (auto simp: pde_short_add_pulse_def pde_short_add_to_existing_seqs_def pde_short_create_sequences_def
          pri_detector_reset_def Let_def
        dest!: refs_add_to_seqs refs_create_loop refs_enqueue split: if_splits prod.splits option.splits)
qed

lemma refs_long_add:
  assumes "fst (pde_long_add_pulse pde len ts w pl) = (pde', pl')"
  shows "refs pl' = refs pl"
  using assms
  by (auto simp: pde_long_add_pulse_def Let_def
        dest!: refs_get_pseq refs_long_restart refs_enqueue split: if_splits prod.splits option.splits list.splits)

lemma refs_ops_add: "ops_add_pulse pde len ts w pl = ((pde', pl'), res) \<Longrightarrow> refs pl' = refs pl"
  by (cases "pde_ops pde")
    (simp_all add: ops_add_pulse_def refs_short_add [of pde len ts w pl pde' pl'] refs_long_add [of pde len ts w pl pde' pl'])

subsection \<open>The invariant of the pattern detector\<close>

text \<open>
  \<open>row_ok\<close>: the detectors of one pattern have that pattern's specification and operations, bounded
  queues, and no two of them the same frequency.  \<open>dfs_inv\<close>: every row in use is such a row for
  its entry of \<open>radar_spec\<close>, the rows beyond are empty.
\<close>

definition ops_for :: "radar_detector_specs \<Rightarrow> pri_detector_ops" where
  "ops_for r = (if waveform r = RADAR_WAVEFORM_LONG then pri_detector_long else pri_detector_short)"

definition row_ok :: "radar_detector_specs \<Rightarrow> pri_detector list \<Rightarrow> bool" where
  "row_ok r row \<longleftrightarrow> distinct (map pde_freq row) \<and>
     (\<forall>pde \<in> set row. pde_rs pde = r \<and> pde_ops pde = ops_for r \<and> bounded_queue pde)"

definition dfs_inv :: "dfs_pattern_detector \<Rightarrow> bool" where
  "dfs_inv dpd \<longleftrightarrow> (\<forall>r \<in> set (radar_spec dpd). 0 < ppb r) \<and>
     length (radar_spec dpd) = unat (num_radar_types dpd) \<and> length (detectors dpd) = 9 \<and>
     unat (num_radar_types dpd) \<le> 9 \<and>
     (\<forall>i < unat (num_radar_types dpd). row_ok (radar_spec dpd ! i) (detectors dpd ! i)) \<and>
     (\<forall>i < 9. unat (num_radar_types dpd) \<le> i \<longrightarrow> detectors dpd ! i = [])"

definition n_detectors :: "dfs_pattern_detector \<Rightarrow> nat" where
  "n_detectors dpd = sum_list (map length (detectors dpd))"

text \<open>The references to the pools that other pattern detectors hold.\<close>

definition other_refs :: "dfs_pattern_detector \<Rightarrow> pools \<Rightarrow> u32" where
  "other_refs dpd pl = refs pl - of_nat (n_detectors dpd)"

text \<open>A pulse queue emptied, as \<open>pri_detector_reset\<close> leaves it.\<close>

definition emptied :: "u64 \<Rightarrow> pri_detector \<Rightarrow> pri_detector" where
  "emptied ts pde = pde\<lparr>sequences := [], pulses := [], pde_count := 0, pde_last_ts := ts\<rparr>"

lemma emptied_simps [simp]:
  "pde_freq (emptied ts pde) = pde_freq pde" "pde_rs (emptied ts pde) = pde_rs pde"
  "pde_ops (emptied ts pde) = pde_ops pde" "pulses (emptied ts pde) = []" "sequences (emptied ts pde) = []"
  "bounded_queue pde \<Longrightarrow> bounded_queue (emptied ts pde)"
  by (auto simp: emptied_def bounded_queue_def)

lemma reset_row_spec:
  "reset_row sel ts row pl = (row', pl') \<Longrightarrow>
    row' = map (\<lambda>pde. if sel pde then emptied ts pde else pde) row \<and> refs pl' = refs pl"
proof (induction row arbitrary: pl row' pl')
  case (Cons pde row)
  have r: "fst (pri_detector_reset pde ts pl) = emptied ts pde" by (simp add: pri_detector_reset_def emptied_def)
  show ?case using Cons.prems r refs_reset [of pde ts pl]
    by (cases "pri_detector_reset pde ts pl") (auto simp: Let_def dest!: Cons.IH split: prod.splits if_splits)
qed simp

lemma reset_rows_spec:
  "reset_rows sel ts n rows pl = (rows', pl') \<Longrightarrow>
    rows' = map (map (\<lambda>pde. if sel pde then emptied ts pde else pde)) (take n rows) @ drop n rows \<and> refs pl' = refs pl"
  by (induction sel ts n rows pl arbitrary: rows' pl' rule: reset_rows.induct)
    (auto simp: Let_def dest!: reset_row_spec split: prod.splits)

lemma row_ok_map:
  assumes "row_ok r row"
    and "\<And>pde. pde_freq (f pde) = pde_freq pde \<and> pde_rs (f pde) = pde_rs pde \<and> pde_ops (f pde) = pde_ops pde \<and>
      (bounded_queue pde \<longrightarrow> bounded_queue (f pde))"
  shows "row_ok r (map f row)"
proof -
  have "pde_freq \<circ> f = pde_freq" using assms(2) by (simp add: fun_eq_iff)
  then show ?thesis using assms by (auto simp: row_ok_def)
qed

lemma dfs_inv_rows:
  assumes "dfs_inv dpd" and "reset_rows sel ts (unat (num_radar_types dpd)) (detectors dpd) pl = (rows, pl')"
  shows "dfs_inv (dpd\<lparr>detectors := rows\<rparr>) \<and> n_detectors (dpd\<lparr>detectors := rows\<rparr>) = n_detectors dpd \<and> refs pl' = refs pl"
proof -
  let ?f = "\<lambda>pde. if sel pde then emptied ts pde else pde"
  let ?n = "unat (num_radar_types dpd)"
  have rows: "rows = map (map ?f) (take ?n (detectors dpd)) @ drop ?n (detectors dpd)" "refs pl' = refs pl"
    using reset_rows_spec [OF assms(2)] by blast+
  have len: "map length rows = map length (detectors dpd)"
    by (simp add: rows(1) comp_def flip: map_append [of length] take_map drop_map)
  have f: "pde_freq (?f pde) = pde_freq pde \<and> pde_rs (?f pde) = pde_rs pde \<and> pde_ops (?f pde) = pde_ops pde \<and>
      (bounded_queue pde \<longrightarrow> bounded_queue (?f pde))" for pde by simp
  have l: "length (detectors dpd) = 9" "?n \<le> 9" using assms(1) by (simp_all add: dfs_inv_def)
  have "row_ok (radar_spec dpd ! i) (rows ! i)" if "i < ?n" for i
  proof -
    have "rows ! i = map ?f (detectors dpd ! i)" using that l by (simp add: rows(1) nth_append)
    then show ?thesis using assms(1) that row_ok_map [OF _ f] by (simp add: dfs_inv_def)
  qed
  moreover have "rows ! i = detectors dpd ! i" if "?n \<le> i" "i < 9" for i
    using that l by (simp add: rows(1) nth_append)
  ultimately show ?thesis using assms(1) rows len map_eq_imp_length_eq [OF len]
    by (simp add: dfs_inv_def n_detectors_def)
qed

lemma dfs_reset_spec:
  assumes "dfs_inv dpd" and "dfs_pattern_detector_reset j dpd pl = (dpd', pl')"
  shows "dfs_inv dpd' \<and> n_detectors dpd' = n_detectors dpd \<and> refs pl' = refs pl \<and>
    (\<forall>row \<in> set (detectors dpd'). \<forall>pde \<in> set row. pulses pde = [] \<and> sequences pde = [])"
proof -
  obtain rows pl1 where r: "reset_rows (\<lambda>_. True) (last_pulse_ts dpd) (unat (num_radar_types dpd)) (detectors dpd) pl = (rows, pl1)"
    by force
  have d: "dpd' = (dpd\<lparr>detectors := rows\<rparr>)\<lparr>last_pulse_ts := 0, prev_jiffies := j\<rparr>" "pl' = pl1"
    using assms(2) r by (simp_all add: dfs_pattern_detector_reset_def)
  have "\<forall>row \<in> set (drop (unat (num_radar_types dpd)) (detectors dpd)). row = []"
    using assms(1) by (auto simp: dfs_inv_def in_set_conv_nth)
  then have "\<forall>row \<in> set rows. \<forall>pde \<in> set row. pulses pde = [] \<and> sequences pde = []"
    using reset_rows_spec [OF r] by fastforce
  with dfs_inv_rows [OF assms(1) r] show ?thesis by (simp add: d dfs_inv_def n_detectors_def)
qed

lemma find_detector_spec:
  "find_detector freq i cur row = res \<Longrightarrow>
    (res = None \<longrightarrow> cur = None \<and> freq \<notin> pde_freq ` set row) \<and>
    (\<forall>k. res = Some k \<longrightarrow> res = cur \<or> i \<le> k \<and> k < i + length row)"
proof (induction freq i cur row arbitrary: res rule: find_detector.induct)
  case (2 freq i cur pde row)
  consider "pde_freq pde = freq" "pde_count pde \<noteq> 0" | "pde_freq pde = freq" "pde_count pde = 0"
    | "pde_freq pde \<noteq> freq" "res = Some i" | "pde_freq pde \<noteq> freq" "find_detector freq (i + 1) cur row = res"
    using 2(3) by (auto split: if_splits)
  then show ?case
  proof cases
    case 2
    with "2.IH"(1) [OF 2(1) _ refl] "2.prems" show ?thesis by fastforce
  next
    case 4
    then show ?thesis using "2.IH"(2) "2.prems" by (auto split: if_splits) 
  qed (use "2.prems" in auto)
qed simp

lemma row_ok_new:
  assumes "row_ok r row" "freq \<notin> pde_freq ` set row" "0 < ppb r"
  shows "row_ok r (pri_detector_new r freq # row)"
proof -
  define pde where "pde = \<lparr>pde_rs = r, pde_last_ts = 0, sequences = [], pulses = [], pde_count = 0,
      max_count = 0, window_size = 0, pde_ops = ops_for r, pde_freq = freq\<rparr>"
  have n: "pri_detector_new r freq = ops_init pde" by (simp add: pri_detector_new_def pde_def ops_for_def)
  have "bounded_queue (ops_init pde)" using assms(3) by (intro either.init_queue) (simp_all add: pde_def)
  moreover have "pde_freq (ops_init pde) = freq" "pde_rs (ops_init pde) = r" "pde_ops (ops_init pde) = ops_for r"
    by (simp_all add: ops_init_def pde_short_init_def pde_long_init_def pde_def split: pri_detector_ops.splits)
  ultimately show ?thesis using assms(1,2) by (simp add: row_ok_def n)
qed

text \<open>Replacing one row keeps the invariant.\<close>

lemma dfs_inv_update:
  assumes "dfs_inv dpd" "i < unat (num_radar_types dpd)" "row_ok (radar_spec dpd ! i) row"
  shows "dfs_inv (dpd\<lparr>detectors := (detectors dpd)[i := row]\<rparr>)"
  using assms by (auto simp: dfs_inv_def nth_list_update)

lemma sum_list_update_nat:
  "i < length xs \<Longrightarrow> sum_list (xs[i := x]) + xs ! i = sum_list xs + (x :: nat)"
  by (induction xs arbitrary: i) (auto split: nat.split simp: less_Suc_eq_0_disj)

lemma n_detectors_update:
  assumes "i < length (detectors dpd)"
  shows "n_detectors (dpd\<lparr>detectors := (detectors dpd)[i := row]\<rparr>) + length (detectors dpd ! i) =
    n_detectors dpd + length row"
  using sum_list_update_nat [of i "map length (detectors dpd)" "length row"] assms
  by (simp add: n_detectors_def map_update)

lemma get_spec:
  assumes "dfs_inv dpd" "i < unat (num_radar_types dpd)"
    and "pri_detector_get dpd freq i pl = (Some k, dpd', pl')"
  shows "dfs_inv dpd' \<and> num_radar_types dpd' = num_radar_types dpd \<and> k < length (detectors dpd' ! i) \<and>
    other_refs dpd' pl' = other_refs dpd pl"
proof (cases "find_detector freq 0 None (detectors dpd ! i)")
  case (Some a)
  then show ?thesis using assms find_detector_spec [OF Some] by (auto simp: pri_detector_get_def)
next
  case None
  let ?row = "pri_detector_new (radar_spec dpd ! i) freq # detectors dpd ! i"
  let ?dpd = "dpd\<lparr>detectors := (detectors dpd)[i := ?row]\<rparr>"
  obtain pl1 where a: "kmalloc pl = (True, pl1)" "dpd' = ?dpd" "pl' = pool_register_ref pl1" "k = 0"
    using assms(3) None by (auto simp: pri_detector_get_def pri_detector_init_def split: prod.splits bool.splits)
  have l: "i < length (detectors dpd)" using assms(1,2) by (simp add: dfs_inv_def)
  have "freq \<notin> pde_freq ` set (detectors dpd ! i)" using find_detector_spec [OF None] by simp
  moreover have "0 < ppb (radar_spec dpd ! i)" using assms(1,2) by (simp add: dfs_inv_def)
  ultimately have "row_ok (radar_spec dpd ! i) ?row" using assms(1,2) by (intro row_ok_new) (simp_all add: dfs_inv_def)
  from dfs_inv_update [OF assms(1,2) this] n_detectors_update [OF l, of ?row] a l refs_kmalloc [OF a(1)]
  show ?thesis by (simp add: pool_register_ref_def other_refs_def)
qed

lemma dfs_inv_step:
  assumes "dfs_inv dpd" "i < unat (num_radar_types dpd)" "k < length (detectors dpd ! i)"
    and "ops_add_pulse (detectors dpd ! i ! k) len ts w pl = ((pde, pl'), res)"
  shows "dfs_inv (dpd\<lparr>detectors := (detectors dpd)[i := (detectors dpd ! i)[k := pde]]\<rparr>) \<and>
    n_detectors (dpd\<lparr>detectors := (detectors dpd)[i := (detectors dpd ! i)[k := pde]]\<rparr>) = n_detectors dpd \<and>
    refs pl' = refs pl"
proof -
  let ?row = "detectors dpd ! i" and ?r = "radar_spec dpd ! i"
  have row: "row_ok ?r ?row" and l: "i < length (detectors dpd)" using assms(1,2) by (simp_all add: dfs_inv_def)
  have old: "bounded_queue (?row ! k)" "pde_rs (?row ! k) = ?r" "pde_ops (?row ! k) = ops_for ?r"
    using row assms(3) by (simp_all add: row_ok_def)
  have new: "bounded_queue pde" "same_detector (?row ! k) pde"
    using either.add_queue [OF old(1), of len ts w pl] either.add_same [OF old(1), of len ts w pl] assms(4) by simp_all
  have "(map pde_freq ?row)[k := pde_freq pde] = map pde_freq ?row"
    using new(2) assms(3) by (simp add: same_detector_def flip: map_update)
  then have "row_ok ?r (?row[k := pde])" using row new old assms(3)
    by (auto simp: row_ok_def map_update same_detector_def dest!: set_update_subset_insert [THEN subsetD])
  from dfs_inv_update [OF assms(1,2) this] n_detectors_update [OF l, of "?row[k := pde]"] refs_ops_add [OF assms(4)]
  show ?thesis by simp
qed

lemma add_to_types_spec:
  assumes "dfs_inv dpd" "\<forall>i \<in> set is. i < unat (num_radar_types dpd)"
    and "add_to_types j freq w len is (dpd, pl) = Some ((dpd', pl'), res)"
  shows "dfs_inv dpd' \<and> other_refs dpd' pl' = other_refs dpd pl \<and>
    (res \<longrightarrow> (\<forall>row \<in> set (detectors dpd'). \<forall>pde \<in> set row. pulses pde = [] \<and> sequences pde = []))"
  using assms
proof (induction "is" arbitrary: dpd pl)
  case (Cons i "is")
  let ?r = "radar_spec dpd ! i"
  show ?case
  proof (cases "len < ucast (width_min ?r) \<or> ucast (width_max ?r) < len")
    case True
    with Cons show ?thesis by (auto simp: Let_def)
  next
    case False
    obtain k dpd1 pl1 where g: "pri_detector_get dpd freq i pl = (Some k, dpd1, pl1)"
      using Cons.prems(3) False by (auto simp: Let_def split: prod.splits option.splits)
    obtain pde pl2 rep where a: "ops_add_pulse (detectors dpd1 ! i ! k) len (last_pulse_ts dpd1) w pl1 = ((pde, pl2), rep)"
      by (metis prod.exhaust)
    let ?dpd = "dpd1\<lparr>detectors := (detectors dpd1)[i := (detectors dpd1 ! i)[k := pde]]\<rparr>"
    have g1: "dfs_inv dpd1" "num_radar_types dpd1 = num_radar_types dpd" "k < length (detectors dpd1 ! i)"
        "other_refs dpd1 pl1 = other_refs dpd pl"
      using get_spec [OF Cons.prems(1) _ g] Cons.prems(2) by simp_all
    have s: "dfs_inv ?dpd" "n_detectors ?dpd = n_detectors dpd1" "refs pl2 = refs pl1"
      using dfs_inv_step [OF g1(1) _ g1(3) a] Cons.prems(2) g1(2) by simp_all
    have e: "(if rep \<noteq> None then Some (dfs_pattern_detector_reset j ?dpd pl2, True)
       else add_to_types j freq w len is (?dpd, pl2)) = Some ((dpd', pl'), res)"
      using Cons.prems(3) False g a by (simp add: Let_def split: if_splits)
    show ?thesis
    proof (cases rep)
      case None
      then have "add_to_types j freq w len is (?dpd, pl2) = Some ((dpd', pl'), res)" using e by simp
      from Cons.IH [OF s(1) _ this] show ?thesis using Cons.prems(2) g1 s by (simp add: other_refs_def)
    next
      case (Some x)
      then have "dfs_pattern_detector_reset j ?dpd pl2 = (dpd', pl')" "res" using e by simp_all
      from dfs_reset_spec [OF s(1) this(1)] this show ?thesis using g1 s by (simp add: other_refs_def)
    qed
  qed
qed simp

lemma pri_overflow_spec:
  assumes "dfs_inv dpd" "dfs_pattern_detector_pri_overflow dpd pl = (dpd', pl')"
  shows "dfs_inv dpd' \<and> num_radar_types dpd' = num_radar_types dpd \<and> other_refs dpd' pl' = other_refs dpd pl"
proof -
  obtain rows where "reset_rows (\<lambda>pde. reset_on_pri_overflow (pde_ops pde)) (last_pulse_ts dpd)
      (unat (num_radar_types dpd)) (detectors dpd) pl = (rows, pl')" "dpd' = dpd\<lparr>detectors := rows\<rparr>"
    using assms(2) by (auto simp: dfs_pattern_detector_pri_overflow_def split: prod.splits)
  with dfs_inv_rows [OF assms(1) this(1)] show ?thesis by (simp add: other_refs_def)
qed

text \<open>C30. Whatever pulse arrives, the pattern detector keeps its matrix in order: every detector of a row has
  the row's specification, the operations of its waveform and a bounded queue, no row holds two
  detectors for one frequency, the pools hold exactly one reference per detector, and a detected
  radar leaves every queue and sequence list empty (unless no region is set, when every pulse
  counts as a radar and nothing is touched).\<close>

theorem dfs_add_pulse_keeps_matrix:
  assumes "dfs_inv dpd"
    and "dfs_pattern_detector_add_pulse j2u j dpd freq w len now pl = Some ((dpd', pl'), res)"
  shows "dfs_inv dpd' \<and> other_refs dpd' pl' = other_refs dpd pl \<and>
    (if dpd_region dpd = NL80211_DFS_UNSET then res \<and> dpd' = dpd \<and> pl' = pl
     else res \<longrightarrow> (\<forall>row \<in> set (detectors dpd'). \<forall>pde \<in> set row. pulses pde = [] \<and> sequences pde = []))"
proof (cases "dpd_region dpd = NL80211_DFS_UNSET")
  case True
  then show ?thesis using assms by (simp add: dfs_pattern_detector_add_pulse_def)
next
  case False
  let ?late = "dpd\<lparr>last_pulse_ts := last_pulse_ts dpd + ucast (j2u (delta_jiffie (prev_jiffies dpd) now)), prev_jiffies := now\<rparr>"
    and ?soon = "dpd\<lparr>last_pulse_ts := last_pulse_ts dpd + ucast w\<rparr>"
  obtain dpd1 pl1 where d: "(if w = 0 then dfs_pattern_detector_pri_overflow ?late pl else (?soon, pl)) = (dpd1, pl1)"
    by force
  have ti: "dfs_inv ?late" "dfs_inv ?soon" using assms(1) by (simp_all add: dfs_inv_def)
  have o: "other_refs ?late pl = other_refs dpd pl" "other_refs ?soon pl = other_refs dpd pl"
    by (simp_all add: other_refs_def n_detectors_def)
  have i1: "dfs_inv dpd1" "num_radar_types dpd1 = num_radar_types dpd" "other_refs dpd1 pl1 = other_refs dpd pl"
    using d ti o pri_overflow_spec [OF ti(1)] by (auto split: if_splits)
  have "add_to_types j freq w len [0..<unat (num_radar_types dpd1)] (dpd1, pl1) = Some ((dpd', pl'), res)"
    using assms(2) False d by (simp add: dfs_pattern_detector_add_pulse_def Let_def split: prod.splits)
  from add_to_types_spec [OF i1(1) _ this] show ?thesis using i1 False by auto
qed

subsection \<open>Changing the region\<close>

text \<open>What a pattern table entry must be for the detectors to work with it.\<close>

definition pattern_ok :: "radar_detector_specs \<Rightarrow> bool" where
  "pattern_ok r \<longleftrightarrow> 0 < ppb r \<and> 0 < ppb_thresh r \<and> ppb_thresh r \<le> ppb r \<and> 0 < num_pri r \<and>
     0 < pri_min r \<and> pri_min r < pri_max r \<and> width_min r \<le> width_max r \<and>
     ucast (max_pri_tolerance r) < pri_min r"

definition table_ok :: "radar_types \<Rightarrow> bool" where
  "table_ok rt \<longleftrightarrow> list_all pattern_ok (spec_riu rt) \<and> list_all pattern_ok (spec_fcu rt) \<and>
     length (spec_riu rt) = unat (rt_num rt) \<and> length (spec_fcu rt) = unat (rt_num rt) \<and>
     map type_id (spec_riu rt) = map of_nat [0..<unat (rt_num rt)] \<and>
     map type_id (spec_fcu rt) = map of_nat [0..<unat (rt_num rt)] \<and>
     rt_num rt \<le> ucast get_dfs_max_radar_types"

lemma dfs_max: "unat get_dfs_max_radar_types = 9"
  by code_simp

lemma domains_ok: "list_all table_ok dfs_domains"
  by code_simp

lemma pattern_tables:
  "(\<exists>rt. get_dfs_domain_radar_types g = Some rt \<and> rt_region rt = g \<and> table_ok rt) = (g \<noteq> NL80211_DFS_UNSET)"
proof -
  have "table_ok etsi_radar_types_v17" "table_ok fcc_radar_types" "table_ok jp_radar_types"
    using domains_ok by (simp_all add: dfs_domains_def)
  then show ?thesis
    by (cases g) (simp_all add: get_dfs_domain_radar_types_def dfs_domains_def etsi_radar_types_v17_def
        fcc_radar_types_def jp_radar_types_def)
qed

text \<open>The pattern tables of the three domains are sound: each set region has a table, both chains have as
  many patterns as the table says (at most the number of rows allocated), numbered by position, and
  every pattern has a positive pulse count and threshold not above it, positive intervals in order
  and wider than the tolerance, and widths in order (so no field was truncated by its type).\<close>

theorem pattern_tables_ok:
  "(\<exists>rt. get_dfs_domain_radar_types g = Some rt \<and> rt_region rt = g \<and> table_ok rt) = (g \<noteq> NL80211_DFS_UNSET)"
  by (rule pattern_tables)

lemma no_table: "get_dfs_domain_radar_types NL80211_DFS_UNSET = None"
  by code_simp

lemma domain_lookup:
  assumes "get_dfs_domain_radar_types g = Some rt"
  shows "table_ok rt" "unat (rt_num rt) \<le> 9" "unat (ucast (rt_num rt) :: u8) = unat (rt_num rt)"
proof -
  have "rt \<in> set dfs_domains" using assms find_SomeD by (fastforce simp: get_dfs_domain_radar_types_def)
  then show t: "table_ok rt" using domains_ok by (simp add: list_all_iff)
  have "unat (ucast get_dfs_max_radar_types :: u32) = 9" by (simp add: dfs_max)
  then show n: "unat (rt_num rt) \<le> 9" using t by (simp add: table_ok_def word_le_nat_alt)
  then show "unat (ucast (rt_num rt) :: u8) = unat (rt_num rt)" by (simp add: unsigned_ucast_eq take_bit_nat_eq_self)
qed

lemma exit_row_refs: "refs (fold pri_detector_exit row pl) = refs pl - of_nat (length row)"
  by (induction row arbitrary: pl)
    (simp_all add: pri_detector_exit_def pool_deregister_ref_def Let_def algebra_simps)

lemma exit_rows_spec:
  "exit_rows n rows pl = (rows', pl') \<Longrightarrow>
    rows' = map (\<lambda>_. []) (take n rows) @ drop n rows \<and>
    refs pl' = refs pl - of_nat (sum_list (map length (take n rows)))"
  by (induction n rows pl arbitrary: rows' pl' rule: exit_rows.induct)
    (auto simp: Let_def exit_row_refs split: prod.splits)

lemma exit_all:
  assumes "dfs_inv dpd" "exit_rows (unat (num_radar_types dpd)) (detectors dpd) pl = (rows, pl')"
  shows "rows = replicate 9 [] \<and> refs pl' = other_refs dpd pl"
proof -
  let ?n = "unat (num_radar_types dpd)"
  have l: "length (detectors dpd) = 9" "?n \<le> 9" and z: "\<forall>i<9. ?n \<le> i \<longrightarrow> detectors dpd ! i = []"
    using assms(1) by (simp_all add: dfs_inv_def)
  have e: "drop ?n (detectors dpd) = replicate (9 - ?n) []"
    by (rule nth_equalityI) (use l z in simp_all)
  have "rows = replicate ?n [] @ replicate (9 - ?n) []"
    using exit_rows_spec [OF assms(2)] e l by (simp add: map_replicate_const)
  moreover have "n_detectors dpd = sum_list (map length (take ?n (detectors dpd) @ drop ?n (detectors dpd)))"
    by (simp add: n_detectors_def del: map_append)
  then have "n_detectors dpd = sum_list (map length (take ?n (detectors dpd)))"
    by (simp add: e sum_list_replicate)
  ultimately show ?thesis using exit_rows_spec [OF assms(2)] l
    by (simp add: other_refs_def flip: replicate_add)
qed

text \<open>Changing the region: the new region's table for the chain is installed, all detectors of the old one are
  deleted and give their pool references back; asking for the current region changes nothing; a region
  without a table fails and leaves the detector in the fail-safe state (region unset).\<close>

theorem set_domain_correct:
  assumes "dfs_inv dpd" "dfs_pattern_detector_set_domain dpd g chain pl = ((dpd', pl'), ok)"
  shows "dfs_inv dpd' \<and> other_refs dpd' pl' = other_refs dpd pl \<and>
    (if g = dpd_region dpd then ok \<and> dpd' = dpd \<and> pl' = pl
     else if g = NL80211_DFS_UNSET then \<not> ok \<and> dpd' = dpd\<lparr>dpd_region := NL80211_DFS_UNSET\<rparr> \<and> pl' = pl
     else ok \<and> dpd_region dpd' = g \<and> n_detectors dpd' = 0 \<and>
       (\<exists>rt. get_dfs_domain_radar_types g = Some rt \<and>
         radar_spec dpd' = (if chain = RWNX_RADAR_RIU then spec_riu rt else spec_fcu rt)))"
proof -
  consider "g = dpd_region dpd" | "g \<noteq> dpd_region dpd" "g = NL80211_DFS_UNSET" | "g \<noteq> dpd_region dpd" "g \<noteq> NL80211_DFS_UNSET"
    by blast
  then show ?thesis
  proof cases
    case 2
    then have "get_dfs_domain_radar_types g = None" by (simp add: no_table)
    with 2 assms show ?thesis
      by (auto simp: dfs_pattern_detector_set_domain_def dfs_inv_def other_refs_def n_detectors_def)
  next
    case 3
    obtain rt where rt: "get_dfs_domain_radar_types g = Some rt" using pattern_tables 3(2) by blast
    obtain rows pl1 where x: "exit_rows (unat (num_radar_types dpd)) (detectors dpd) pl = (rows, pl1)" by force
    have d: "dpd' = dpd\<lparr>dpd_region := g, detectors := rows,
        radar_spec := (if chain = RWNX_RADAR_RIU then spec_riu rt else spec_fcu rt),
        num_radar_types := ucast (rt_num rt)\<rparr>" "pl' = pl1" "ok"
      using assms(2) 3 rt x by (auto simp: dfs_pattern_detector_set_domain_def Let_def)
    note t = domain_lookup [OF rt]
    have "n_detectors dpd' = 0" using exit_all [OF assms(1) x] by (simp add: d n_detectors_def sum_list_replicate)
    moreover have "dfs_inv dpd'"
      using t exit_all [OF assms(1) x] by (auto simp: d dfs_inv_def table_ok_def list_all_iff pattern_ok_def row_ok_def)
    ultimately show ?thesis using 3 d rt exit_all [OF assms(1) x] by (simp add: other_refs_def)
  qed (use assms in \<open>simp add: dfs_pattern_detector_set_domain_def\<close>)
qed

subsection \<open>Creation, and a run\<close>

text \<open>A detector as \<open>dfs_pattern_detector_init\<close> creates it, and the same with the FCC region.\<close>

definition fresh_dfs :: dfs_pattern_detector where
  "fresh_dfs = the (fst (dfs_pattern_detector_init 0 NL80211_DFS_UNSET RWNX_RADAR_RIU roomy_pools))"

definition fcc_dfs :: dfs_pattern_detector where
  "fcc_dfs = fst (fst (dfs_pattern_detector_set_domain fresh_dfs NL80211_DFS_FCC RWNX_RADAR_RIU roomy_pools))"

lemma fresh_dfs_inv: "dfs_inv fresh_dfs"
  by code_simp

lemma fcc_dfs_inv: "dfs_inv fcc_dfs \<and> dpd_region fcc_dfs = NL80211_DFS_FCC"
  by code_simp

text \<open>One pulse 4 us wide opens a detector for each of the four FCC patterns of that width.\<close>

lemma fcc_one_pulse:
  "let d = dfs_pattern_detector_add_pulse id 0 fcc_dfs 5600 333 4 0 roomy_pools
   in d \<noteq> None \<and> \<not> snd (the d) \<and> n_detectors (fst (fst (the d))) = 4"
  by code_simp

theorem dfs_add_pulse_keeps_matrix_witness:
  "\<exists>dpd' pl'. dfs_pattern_detector_add_pulse id 0 fcc_dfs 5600 333 4 0 roomy_pools = Some ((dpd', pl'), False) \<and>
     dfs_inv dpd' \<and> n_detectors dpd' = 4 \<and> other_refs dpd' pl' = other_refs fcc_dfs roomy_pools"
proof -
  obtain dpd' pl' where e: "dfs_pattern_detector_add_pulse id 0 fcc_dfs 5600 333 4 0 roomy_pools = Some ((dpd', pl'), False)"
      and n: "n_detectors dpd' = 4"
    using fcc_one_pulse by (cases "dfs_pattern_detector_add_pulse id 0 fcc_dfs 5600 333 4 0 roomy_pools") auto
  from dfs_add_pulse_keeps_matrix [OF conjunct1 [OF fcc_dfs_inv] e] e n show ?thesis by blast
qed

theorem set_domain_correct_witness:
  "let ((dpd', pl'), ok) = dfs_pattern_detector_set_domain fcc_dfs NL80211_DFS_ETSI RWNX_RADAR_FCU roomy_pools
   in dfs_inv dpd' \<and> ok \<and> dpd_region dpd' = NL80211_DFS_ETSI \<and> n_detectors dpd' = 0"
proof -
  obtain dpd' pl' ok where e: "dfs_pattern_detector_set_domain fcc_dfs NL80211_DFS_ETSI RWNX_RADAR_FCU roomy_pools = ((dpd', pl'), ok)"
    by (metis prod.exhaust)
  from set_domain_correct [OF conjunct1 [OF fcc_dfs_inv] e] show ?thesis using fcc_dfs_inv by (simp add: e)
qed

end
