(* ===== verification/Radar_Chan.thy ===== *)
theory Radar_Chan
  imports Radar_Dfs
begin

text \<open>
  The driver side of radar detection (end of \<^verbatim>\<open>aic8800_fdrv/rwnx_radar.c\<close>) and the channel contexts
  it depends on (\<^verbatim>\<open>rwnx_chanctx_*\<close> of \<^verbatim>\<open>rwnx_main.c\<close>): the rings of pulses of the two chains, the
  worker that drains them, the channel availability check (CAC) and its delayed work, and the
  reference-counted contexts.  What the driver tells the firmware and cfg80211 is a list of outputs.
\<close>

unbundle bit_operations_syntax

subsection \<open>State\<close>

definition RWNX_RADAR_PULSE_MAX :: int where "RWNX_RADAR_PULSE_MAX = 32"
definition NX_NB_RADAR_DETECTED :: nat where "NX_NB_RADAR_DETECTED = 4"
definition NX_CHAN_CTXT_CNT :: nat where "NX_CHAN_CTXT_CNT = 3"
definition RWNX_CH_NOT_SET :: u8 where "RWNX_CH_NOT_SET = 0xFF"
definition RWNX_RADAR_LAST :: u8 where "RWNX_RADAR_LAST = 2"
definition RWNX_RADAR_DETECT_DISABLE :: u8 where "RWNX_RADAR_DETECT_DISABLE = 0"
definition RWNX_RADAR_DETECT_REPORT :: u8 where "RWNX_RADAR_DETECT_REPORT = 2"

record rwnx_radar_pulses =
  rp_index :: int
  rp_count :: int
  rp_buffer :: "u32 list"

record radar_detected_info =
  rd_index :: u16
  rd_count :: u16
  rd_time :: "int list"
  rd_freq :: "u16 list"

text \<open>Of a channel definition the code reads the channel pointer, its radar flag and the centre frequency.\<close>

record cfg80211_chan_def =
  cd_radar_chan :: "bool option"
  center_freq1 :: u32

record rwnx_chanctx =
  chan_def :: cfg80211_chan_def
  ctx_users :: u8

datatype radar_output =
    Apm_stop_cac_req nat
  | Cac_finished nat
  | Cac_aborted nat
  | Radar_event cfg80211_chan_def

text \<open>
  \<open>cac_vif\<close> is the interface (its number) on which the CAC runs; \<open>cac_work_pending\<close> says that the
  delayed work is queued; \<open>vif_ch_index\<close> gives each interface its context.
\<close>

record radar_hw =
  radar_pulses :: "rwnx_radar_pulses list"
  radar_dpd :: "dfs_pattern_detector option list"
  radar_detected :: "radar_detected_info list"
  cac_vif :: "nat option"
  cac_work_pending :: bool
  chanctx_table :: "rwnx_chanctx list"
  cur_chanctx :: u8
  sec_chan_freq1 :: u32
  vif_ch_index :: "u8 list"
  radar_pools :: pools
  radar_out :: "radar_output list"

subsection \<open>Channel contexts\<close>

definition rwnx_chanctx_valid :: "radar_hw \<Rightarrow> u8 \<Rightarrow> bool" where
  "rwnx_chanctx_valid hw ch_idx =
     (if NX_CHAN_CTXT_CNT \<le> unat ch_idx \<or> cd_radar_chan (chan_def (chanctx_table hw ! unat ch_idx)) = None
      then False else True)"

definition rwnx_chanctx_link :: "nat \<Rightarrow> u8 \<Rightarrow> cfg80211_chan_def option \<Rightarrow> radar_hw \<Rightarrow> radar_hw" where
  "rwnx_chanctx_link vif ch_idx chandef hw =
     (if NX_CHAN_CTXT_CNT \<le> unat ch_idx then hw
      else
        let hw = hw\<lparr>vif_ch_index := (vif_ch_index hw)[vif := ch_idx]\<rparr>;
            ctxt = chanctx_table hw ! unat ch_idx;
            ctxt = ctxt\<lparr>ctx_users := ctx_users ctxt + 1\<rparr>;
            ctxt = (case chandef of
                      Some d \<Rightarrow> if cd_radar_chan (chan_def ctxt) = None then ctxt\<lparr>chan_def := d\<rparr> else ctxt
                    | None \<Rightarrow> ctxt)
        in hw\<lparr>chanctx_table := (chanctx_table hw)[unat ch_idx := ctxt]\<rparr>)"

definition rwnx_radar_detection_enable :: "u8 \<Rightarrow> u8 \<Rightarrow> radar_hw \<Rightarrow> radar_hw" where
  "rwnx_radar_detection_enable enable chain hw =
     (if chain < RWNX_RADAR_LAST
      then hw\<lparr>radar_dpd := (radar_dpd hw)[unat chain :=
             map_option (\<lambda>dpd. dpd\<lparr>dpd_enabled := enable\<rparr>) (radar_dpd hw ! unat chain)]\<rparr>
      else hw)"

definition rwnx_chanctx_unlink :: "nat \<Rightarrow> radar_hw \<Rightarrow> radar_hw" where
  "rwnx_chanctx_unlink vif hw =
     (let ch = vif_ch_index hw ! vif in
      if ch = RWNX_CH_NOT_SET then hw
      else
        let ctxt = chanctx_table hw ! unat ch;
            ctxt = (if ctx_users ctxt = 0 then ctxt else ctxt\<lparr>ctx_users := ctx_users ctxt - 1\<rparr>);
            hw = hw\<lparr>chanctx_table := (chanctx_table hw)[unat ch := ctxt]\<rparr>;
            hw = (if ctx_users ctxt = 0
                  then let hw = (if ch = cur_chanctx hw
                                 then rwnx_radar_detection_enable RWNX_RADAR_DETECT_DISABLE RWNX_RADAR_RIU hw else hw)
                       in hw\<lparr>chanctx_table := (chanctx_table hw)[unat ch :=
                              ctxt\<lparr>chan_def := (chan_def ctxt)\<lparr>cd_radar_chan := None\<rparr>\<rparr>]\<rparr>
                  else hw)
        in hw\<lparr>vif_ch_index := (vif_ch_index hw)[vif := RWNX_CH_NOT_SET]\<rparr>)"

subsection \<open>Channel availability check\<close>

definition emit :: "radar_output list \<Rightarrow> radar_hw \<Rightarrow> radar_hw" where
  "emit outs hw = hw\<lparr>radar_out := radar_out hw @ outs\<rparr>"

definition rwnx_radar_start_cac :: "nat \<Rightarrow> radar_hw \<Rightarrow> radar_hw" where
  "rwnx_radar_start_cac vif hw = hw\<lparr>cac_vif := Some vif, cac_work_pending := True\<rparr>"

text \<open>
  The delayed work, in the pieces between which other threads can run: it is no longer pending when its function starts, and
  its reports and requests sleep.  Each piece reads \<open>cac_vif\<close> again; \<open>None\<close> is the null pointer that
  another thread has put there.
\<close>

datatype cac_work_pc = WorkIdle | WorkReport | WorkStop | WorkUnlink | WorkClear

definition rwnx_radar_cac_work :: "cac_work_pc \<Rightarrow> radar_hw \<Rightarrow> (cac_work_pc \<times> radar_hw) option" where
  "rwnx_radar_cac_work pc hw =
     (case pc of
        WorkIdle \<Rightarrow> Some (if cac_vif hw = None then WorkIdle else WorkReport, hw\<lparr>cac_work_pending := False\<rparr>)
      | WorkReport \<Rightarrow> map_option (\<lambda>vif. (WorkStop, emit [Cac_finished vif] hw)) (cac_vif hw)
      | WorkStop \<Rightarrow> map_option (\<lambda>vif. (WorkUnlink, emit [Apm_stop_cac_req vif] hw)) (cac_vif hw)
      | WorkUnlink \<Rightarrow> map_option (\<lambda>vif. (WorkClear, rwnx_chanctx_unlink vif hw)) (cac_vif hw)
      | WorkClear \<Rightarrow> Some (WorkIdle, hw\<lparr>cac_vif := None\<rparr>))"

text \<open>Cancelling, in its pieces, and as a whole when nobody comes between.\<close>

datatype cancel_pc = CancelIdle | CancelWork | CancelStop | CancelReport | CancelUnlink | CancelClear

definition cancel_cac_step :: "cancel_pc \<Rightarrow> radar_hw \<Rightarrow> (cancel_pc \<times> radar_hw) option" where
  "cancel_cac_step pc hw =
     (case pc of
        CancelIdle \<Rightarrow> Some (if cac_vif hw = None then CancelIdle else CancelWork, hw)
      | CancelWork \<Rightarrow> Some (if cac_work_pending hw then (CancelStop, hw\<lparr>cac_work_pending := False\<rparr>) else (CancelClear, hw))
      | CancelStop \<Rightarrow> map_option (\<lambda>vif. (CancelReport, emit [Apm_stop_cac_req vif] hw)) (cac_vif hw)
      | CancelReport \<Rightarrow> map_option (\<lambda>vif. (CancelUnlink, emit [Cac_aborted vif] hw)) (cac_vif hw)
      | CancelUnlink \<Rightarrow> map_option (\<lambda>vif. (CancelClear, rwnx_chanctx_unlink vif hw)) (cac_vif hw)
      | CancelClear \<Rightarrow> Some (CancelIdle, hw\<lparr>cac_vif := None\<rparr>))"

definition rwnx_radar_cancel_cac :: "radar_hw \<Rightarrow> radar_hw" where
  "rwnx_radar_cancel_cac hw =
     (case cac_vif hw of
        None \<Rightarrow> hw
      | Some vif \<Rightarrow>
          let hw = (if cac_work_pending hw
                    then rwnx_chanctx_unlink vif
                           (emit [Apm_stop_cac_req vif, Cac_aborted vif] (hw\<lparr>cac_work_pending := False\<rparr>))
                    else hw)
          in hw\<lparr>cac_vif := None\<rparr>)"

definition rwnx_radar_detection_enable_on_cur_channel :: "radar_hw \<Rightarrow> radar_hw" where
  "rwnx_radar_detection_enable_on_cur_channel hw =
     (if \<not> rwnx_chanctx_valid hw (cur_chanctx hw) then hw
      else if cd_radar_chan (chan_def (chanctx_table hw ! unat (cur_chanctx hw))) = Some True
      then rwnx_radar_detection_enable RWNX_RADAR_DETECT_REPORT RWNX_RADAR_RIU hw
      else rwnx_radar_detection_enable RWNX_RADAR_DETECT_DISABLE RWNX_RADAR_RIU hw)"

definition rwnx_radar_detection_is_enable :: "radar_hw \<Rightarrow> u8 \<Rightarrow> bool" where
  "rwnx_radar_detection_is_enable hw chain =
     (dpd_enabled (the (radar_dpd hw ! unat chain)) \<noteq> RWNX_RADAR_DETECT_DISABLE)"

definition rwnx_radar_get_center_freq :: "radar_hw \<Rightarrow> u8 \<Rightarrow> u16" where
  "rwnx_radar_get_center_freq hw chain =
     (if chain = RWNX_RADAR_FCU then ucast (sec_chan_freq1 hw)
      else if chain = RWNX_RADAR_RIU \<and> rwnx_chanctx_valid hw (cur_chanctx hw)
      then ucast (center_freq1 (chan_def (chanctx_table hw ! unat (cur_chanctx hw))))
      else 0)"

definition rwnx_radar_detected :: "radar_hw \<Rightarrow> radar_hw" where
  "rwnx_radar_detected hw =
     (if \<not> rwnx_chanctx_valid hw (cur_chanctx hw) then hw
      else let d = chan_def (chanctx_table hw ! unat (cur_chanctx hw))
           in emit [Radar_event d] (rwnx_radar_cancel_cac hw))"

subsection \<open>The worker\<close>

text \<open>Copying one ring: the pulses, oldest first, and the ring emptied.\<close>

definition copy_ring :: "rwnx_radar_pulses \<Rightarrow> u32 list" where
  "copy_ring rp =
     (let n = rp_count rp; start = rp_index rp - n;
          start = (if start < 0 then start + RWNX_RADAR_PULSE_MAX else start)
      in if n = 0 then []
         else if RWNX_RADAR_PULSE_MAX < start + n
         then let count1 = RWNX_RADAR_PULSE_MAX - start
              in take (nat count1) (drop (nat start) (rp_buffer rp)) @ take (nat (n - count1)) (rp_buffer rp)
         else take (nat n) (drop (nat start) (rp_buffer rp)))"

text \<open>The bit fields of \<open>struct radar_pulse\<close>, lowest first, as a little-endian compiler lays them out.\<close>

definition pulse_freq :: "u32 \<Rightarrow> int" where "pulse_freq p = signed_take_bit 5 (uint p)"
definition pulse_len :: "u32 \<Rightarrow> u16" where "pulse_len p = ucast (take_bit 6 (drop_bit 10 p))"
definition pulse_rep :: "u32 \<Rightarrow> u16" where "pulse_rep p = ucast (drop_bit 16 p)"

definition record_detected :: "u16 \<Rightarrow> int \<Rightarrow> radar_detected_info \<Rightarrow> radar_detected_info" where
  "record_detected f now_s d =
     d\<lparr>rd_freq := (rd_freq d)[unat (rd_index d) := f], rd_time := (rd_time d)[unat (rd_index d) := now_s],
       rd_index := of_nat ((unat (rd_index d) + 1) mod NX_NB_RADAR_DETECTED), rd_count := rd_count d + 1\<rparr>"

text \<open>The pulses of one chain, up to the first that completes a pattern.\<close>

fun process_chain ::
  "(u32 \<Rightarrow> u32) \<Rightarrow> u32 \<Rightarrow> u32 \<Rightarrow> int \<Rightarrow> nat \<Rightarrow> u16 \<Rightarrow> u32 list \<Rightarrow> radar_hw \<Rightarrow> radar_hw option" where
  "process_chain j2u jiffies now now_s c freq [] hw = Some hw"
| "process_chain j2u jiffies now now_s c freq (p # ps) hw =
     (case radar_dpd hw ! c of
        None \<Rightarrow> None
      | Some dpd \<Rightarrow>
          let f = freq + of_int (2 * pulse_freq p) in
          case dfs_pattern_detector_add_pulse j2u jiffies dpd f (pulse_rep p) (pulse_len p * 2) now (radar_pools hw) of
            None \<Rightarrow> None
          | Some ((dpd, pl), hit) \<Rightarrow>
              let hw = hw\<lparr>radar_dpd := (radar_dpd hw)[c := Some dpd], radar_pools := pl\<rparr> in
              if \<not> hit then process_chain j2u jiffies now now_s c freq ps hw
              else
                let hw = (if of_nat c = RWNX_RADAR_RIU \<and> dpd_enabled dpd = RWNX_RADAR_DETECT_REPORT
                          then let hw = rwnx_radar_detection_enable RWNX_RADAR_DETECT_DISABLE (of_nat c) (rwnx_radar_detected hw)
                               in hw\<lparr>radar_pulses := (radar_pulses hw)[c := (radar_pulses hw ! c)\<lparr>rp_count := 0\<rparr>]\<rparr>
                          else hw)
                in Some (hw\<lparr>radar_detected := (radar_detected hw)[c := record_detected f now_s (radar_detected hw ! c)]\<rparr>))"

text \<open>Both chains: \<open>now\<close> is \<open>jiffies\<close> at the start of the worker, \<open>jiffies\<close> its value when a radar is detected.\<close>

fun process_chains ::
  "(u32 \<Rightarrow> u32) \<Rightarrow> u32 \<Rightarrow> u32 \<Rightarrow> int \<Rightarrow> (nat \<times> u32 list) list \<Rightarrow> radar_hw \<Rightarrow> radar_hw option" where
  "process_chains j2u jiffies now now_s [] hw = Some hw"
| "process_chains j2u jiffies now now_s ((c, ps) # cs) hw =
     (if ps = [] then process_chains j2u jiffies now now_s cs hw
      else case process_chain j2u jiffies now now_s c (rwnx_radar_get_center_freq hw (of_nat c)) ps hw of
             None \<Rightarrow> None | Some hw \<Rightarrow> process_chains j2u jiffies now now_s cs hw)"

definition rwnx_radar_process_pulse :: "(u32 \<Rightarrow> u32) \<Rightarrow> u32 \<Rightarrow> u32 \<Rightarrow> int \<Rightarrow> radar_hw \<Rightarrow> radar_hw option" where
  "rwnx_radar_process_pulse j2u jiffies now now_s hw =
     (let work = map (\<lambda>c. (c, copy_ring (radar_pulses hw ! c))) [0, 1];
          hw = hw\<lparr>radar_pulses := map (\<lambda>rp. rp\<lparr>rp_count := 0\<rparr>) (radar_pulses hw)\<rparr>
      in process_chains j2u jiffies now now_s work hw)"

subsection \<open>Creation, deletion, region\<close>

definition rwnx_radar_detection_deinit :: "radar_hw \<Rightarrow> radar_hw" where
  "rwnx_radar_detection_deinit hw =
     hw\<lparr>radar_pools := fold (\<lambda>d pl. case d of None \<Rightarrow> pl | Some dpd \<Rightarrow> dfs_pattern_detector_exit dpd pl)
                         (radar_dpd hw) (radar_pools hw),
        radar_dpd := [None, None]\<rparr>"

definition rwnx_radar_detection_init :: "u32 \<Rightarrow> radar_hw \<Rightarrow> radar_hw \<times> bool" where
  "rwnx_radar_detection_init jiffies hw =
     (case dfs_pattern_detector_init jiffies NL80211_DFS_UNSET RWNX_RADAR_RIU (radar_pools hw) of
        (None, pl) \<Rightarrow> (hw\<lparr>radar_dpd := (radar_dpd hw)[0 := None], radar_pools := pl\<rparr>, False)
      | (Some riu, pl) \<Rightarrow>
          (case dfs_pattern_detector_init jiffies NL80211_DFS_UNSET RWNX_RADAR_FCU pl of
             (None, pl) \<Rightarrow> (rwnx_radar_detection_deinit (hw\<lparr>radar_dpd := [Some riu, None], radar_pools := pl\<rparr>), False)
           | (Some fcu, pl) \<Rightarrow> (hw\<lparr>radar_dpd := [Some riu, Some fcu], radar_pools := pl, cac_vif := None\<rparr>, True)))"

definition rwnx_radar_set_domain :: "nl80211_dfs_regions \<Rightarrow> radar_hw \<Rightarrow> radar_hw \<times> bool" where
  "rwnx_radar_set_domain g hw =
     (case radar_dpd hw of
        [Some riu, Some fcu] \<Rightarrow>
          (case dfs_pattern_detector_set_domain riu g RWNX_RADAR_RIU (radar_pools hw) of
             ((riu, pl), False) \<Rightarrow> (hw\<lparr>radar_dpd := [Some riu, Some fcu], radar_pools := pl\<rparr>, False)
           | ((riu, pl), True) \<Rightarrow>
               (case dfs_pattern_detector_set_domain fcu g RWNX_RADAR_FCU pl of
                  ((fcu, pl), ok) \<Rightarrow> (hw\<lparr>radar_dpd := [Some riu, Some fcu], radar_pools := pl\<rparr>, ok)))
      | _ \<Rightarrow> (hw, False))"

subsection \<open>The rings\<close>

lemma mod_ring: "- 32 \<le> x \<Longrightarrow> x < 64 \<Longrightarrow> x mod 32 = (if x < 0 then x + 32 else if x < 32 then x else x - 32)"
  for x :: int
  using mod_add_self2 [of x 32] mod_pos_pos_trivial [of "x + 32" 32] minus_mod_self2 [of x 32]
    mod_pos_pos_trivial [of "x - 32" 32] mod_pos_pos_trivial [of x 32]
  by (cases "x < 0"; cases "x < 32"; simp)

text \<open>The worker reads a ring of pulses in arrival order: whatever the write index and the number of pulses
  waiting, the two copies yield exactly the last \<open>count\<close> slots before the index, oldest first.\<close>

theorem copy_ring_correct:
  assumes "length (rp_buffer rp) = 32" "0 \<le> rp_index rp" "rp_index rp < 32" "0 \<le> rp_count rp" "rp_count rp \<le> 32"
  shows "copy_ring rp = map (\<lambda>k. rp_buffer rp ! nat ((rp_index rp - rp_count rp + int k) mod 32)) [0..<nat (rp_count rp)]"
proof -
  obtain idx n buf where rp: "rp_index rp = idx" "rp_count rp = n" "rp_buffer rp = buf" by blast
  have b: "length buf = 32" "0 \<le> idx" "idx < 32" "0 \<le> n" "n \<le> 32" using assms by (simp_all add: rp)
  define start where "start = (if idx - n < 0 then idx - n + 32 else idx - n)"
  have st: "0 \<le> start" "start < 32" using b by (auto simp: start_def)
  have m: "(idx - n + int k) mod 32 = (if start + int k < 32 then start + int k else start + int k - 32)"
    if "int k < n" for k
    using that b by (subst mod_ring) (auto simp: start_def)
  have e: "copy_ring rp = (if n = 0 then [] else if 32 < start + n
      then take (nat (32 - start)) (drop (nat start) buf) @ take (nat (n - (32 - start))) buf
      else take (nat n) (drop (nat start) buf))"
    by (simp add: rp copy_ring_def RWNX_RADAR_PULSE_MAX_def start_def Let_def)
  show ?thesis
  proof (rule nth_equalityI)
    show "length (copy_ring rp) = length (map (\<lambda>k. rp_buffer rp ! nat ((rp_index rp - rp_count rp + int k) mod 32)) [0..<nat (rp_count rp)])"
      using b st by (auto simp: e rp min_def nat_diff_distrib)
    fix i assume "i < length (copy_ring rp)"
    then have i: "int i < n" using b st by (auto simp: e split: if_splits)
    show "copy_ring rp ! i = map (\<lambda>k. rp_buffer rp ! nat ((rp_index rp - rp_count rp + int k) mod 32)) [0..<nat (rp_count rp)] ! i"
    proof -
      have "map (\<lambda>k. rp_buffer rp ! nat ((rp_index rp - rp_count rp + int k) mod 32)) [0..<nat (rp_count rp)] ! i =
          buf ! nat ((idx - n + int i) mod 32)" using i by (simp add: rp zless_nat_eq_int_zless)
      also have "\<dots> = copy_ring rp ! i"
        unfolding m [OF i] e using i b st
        by (auto simp: nth_append nat_less_iff nat_add_distrib nat_diff_distrib intro!: arg_cong [of _ _ "(!) buf"])
      finally show ?thesis by simp
    qed
  qed
qed

subsection \<open>Channel contexts are counted\<close>

definition users :: "radar_hw \<Rightarrow> nat \<Rightarrow> nat" where
  "users hw i = length (filter (\<lambda>ch. unat ch = i) (vif_ch_index hw))"

definition chan_inv :: "radar_hw \<Rightarrow> bool" where
  "chan_inv hw \<longleftrightarrow> length (chanctx_table hw) = 3 \<and> length (radar_dpd hw) = 2 \<and> length (vif_ch_index hw) < 256 \<and>
     (\<forall>ch \<in> set (vif_ch_index hw). unat ch < 3 \<or> ch = RWNX_CH_NOT_SET) \<and>
     (\<forall>i<3. unat (ctx_users (chanctx_table hw ! i)) = users hw i \<and>
       (users hw i = 0 \<longrightarrow> cd_radar_chan (chan_def (chanctx_table hw ! i)) = None))"

lemma length_filter_update:
  "j < length xs \<Longrightarrow> length (filter P (xs[j := y])) + (if P (xs ! j) then 1 else 0) =
     length (filter P xs) + (if P y then 1 else 0)"
proof (induction xs arbitrary: j)
  case (Cons x xs)
  then show ?case using Cons.IH [of "j - 1"] by (cases j) auto
qed simp

lemma users_update:
  assumes "j < length (vif_ch_index hw)"
  shows "users (hw\<lparr>vif_ch_index := (vif_ch_index hw)[j := y]\<rparr>) i + (if unat (vif_ch_index hw ! j) = i then 1 else 0) =
    users hw i + (if unat y = i then 1 else 0)"
  using length_filter_update [OF assms, of "\<lambda>ch. unat ch = i" y] by (simp add: users_def)

lemma unset_no_user [simp]: "unat RWNX_CH_NOT_SET = i \<Longrightarrow> i < 3 \<Longrightarrow> False"
  by (auto simp: RWNX_CH_NOT_SET_def)

lemma users_bound: "chan_inv hw \<Longrightarrow> users hw i < 256"
  by (auto simp: chan_inv_def users_def intro: le_less_trans [OF length_filter_le])

text \<open>
  Both operations change one interface's context and that context's entry: enough to check the
  entry that loses or gains the user.
\<close>

lemma chan_inv_move:
  assumes "chan_inv hw" "j < length (vif_ch_index hw)" "i < 3" "unat y < 3 \<or> y = RWNX_CH_NOT_SET"
    and hw': "chanctx_table hw' = (chanctx_table hw)[i := c]" "vif_ch_index hw' = (vif_ch_index hw)[j := y]"
      "length (radar_dpd hw') = 2"
    and others: "\<And>k. k < 3 \<Longrightarrow> k \<noteq> i \<Longrightarrow> unat (vif_ch_index hw ! j) \<noteq> k \<and> unat y \<noteq> k"
    and c: "unat (ctx_users c) + (if unat (vif_ch_index hw ! j) = i then 1 else 0) = users hw i + (if unat y = i then 1 else 0)"
      "ctx_users c = 0 \<longrightarrow> cd_radar_chan (chan_def c) = None"
  shows "chan_inv hw'"
proof -
  have u: "users hw' k + (if unat (vif_ch_index hw ! j) = k then 1 else 0) = users hw k + (if unat y = k then 1 else 0)" for k
    using users_update [OF assms(2), of y k] by (simp add: users_def hw'(2))
  have "unat (ctx_users (chanctx_table hw' ! k)) = users hw' k \<and>
      (users hw' k = 0 \<longrightarrow> cd_radar_chan (chan_def (chanctx_table hw' ! k)) = None)" if k: "k < 3" for k
  proof (cases "k = i")
    case True
    have "unat (ctx_users c) = users hw' i" using u [of i] c(1) by (auto split: if_splits)
    moreover from this have "users hw' i = 0 \<Longrightarrow> ctx_users c = 0" by (metis unat_eq_zero)
    ultimately show ?thesis using True c(2) assms(1,3) by (simp add: hw'(1) chan_inv_def)
  next
    case False
    then show ?thesis using u [of k] others [OF k False] assms(1) k by (simp add: hw'(1) chan_inv_def)
  qed
  moreover have "\<forall>ch \<in> set (vif_ch_index hw'). unat ch < 3 \<or> ch = RWNX_CH_NOT_SET"
    using assms(1,4) by (auto simp: hw'(2) chan_inv_def dest!: set_update_subset_insert [THEN subsetD])
  ultimately show ?thesis using assms(1) hw' by (simp add: chan_inv_def)
qed

lemma link_keeps:
  assumes "chan_inv hw" "vif < length (vif_ch_index hw)" "vif_ch_index hw ! vif = RWNX_CH_NOT_SET"
  shows "chan_inv (rwnx_chanctx_link vif ch d hw)"
proof (cases "unat ch < 3")
  case True
  let ?c = "chanctx_table hw ! unat ch"
  have t: "unat (ctx_users ?c) = users hw (unat ch)" "length (radar_dpd hw) = 2" using assms(1) True by (simp_all add: chan_inv_def)
  have "length (vif_ch_index hw) < 256" using assms(1) by (simp add: chan_inv_def)
  moreover have "users hw (unat ch) < length (vif_ch_index hw)"
  proof -
    have "vif_ch_index hw ! vif \<in> set (vif_ch_index hw)" using assms(2) by simp
    moreover have "unat (vif_ch_index hw ! vif) \<noteq> unat ch" using assms(3) True by (auto simp: RWNX_CH_NOT_SET_def)
    ultimately show ?thesis unfolding users_def by (rule length_filter_less)
  qed
  ultimately have c: "unat (ctx_users ?c + 1) = users hw (unat ch) + 1"
    using t(1) by (subst unat_add_no_overflow) simp_all
  then have nz: "ctx_users ?c + 1 \<noteq> 0" by (metis add_is_0 one_neq_zero unat_0)
  show ?thesis
    by (rule chan_inv_move [OF assms(1,2) True, of ch])
      (use True assms(3) c nz t in \<open>auto simp: rwnx_chanctx_link_def NX_CHAN_CTXT_CNT_def Let_def RWNX_CH_NOT_SET_def
         split: option.splits\<close>)
qed (use assms in \<open>simp add: rwnx_chanctx_link_def NX_CHAN_CTXT_CNT_def\<close>)

lemma unlink_keeps:
  assumes "chan_inv hw" "vif < length (vif_ch_index hw)"
  shows "chan_inv (rwnx_chanctx_unlink vif hw)"
proof (cases "vif_ch_index hw ! vif = RWNX_CH_NOT_SET")
  case False
  let ?ch = "vif_ch_index hw ! vif" let ?c = "chanctx_table hw ! unat ?ch"
  have ch: "unat ?ch < 3" using assms False by (auto simp: chan_inv_def)
  then have t: "unat (ctx_users ?c) = users hw (unat ?ch)" "length (radar_dpd hw) = 2"
    using assms(1) by (simp_all add: chan_inv_def)
  have "0 < users hw (unat ?ch)" using assms(2) by (auto simp: users_def filter_empty_conv)
  then have nz: "ctx_users ?c \<noteq> 0" using t by auto
  then have c: "unat (ctx_users ?c - 1) = users hw (unat ?ch) - 1" using t by (simp add: unat_minus_one)
  define c' where "c' = ?c\<lparr>ctx_users := ctx_users ?c - 1\<rparr>"
  define c'' where "c'' = (if ctx_users ?c - 1 = 0 then c'\<lparr>chan_def := (chan_def c')\<lparr>cd_radar_chan := None\<rparr>\<rparr> else c')"
  have c'': "ctx_users c'' = ctx_users ?c - 1" "ctx_users c'' = 0 \<longrightarrow> cd_radar_chan (chan_def c'') = None"
    by (simp_all add: c'_def c''_def)
  have "chanctx_table (rwnx_chanctx_unlink vif hw) = (chanctx_table hw)[unat ?ch := c'']"
      "vif_ch_index (rwnx_chanctx_unlink vif hw) = (vif_ch_index hw)[vif := RWNX_CH_NOT_SET]"
      "length (radar_dpd (rwnx_chanctx_unlink vif hw)) = 2"
    using False nz t by (simp_all add: rwnx_chanctx_unlink_def Let_def c''_def c'_def rwnx_radar_detection_enable_def)
  then show ?thesis
    by (rule chan_inv_move [OF assms ch disjI2 [OF refl]])
      (use ch False c t c'' nz \<open>0 < users hw (unat ?ch)\<close> in \<open>auto simp: RWNX_CH_NOT_SET_def\<close>)
qed (use assms in \<open>simp add: rwnx_chanctx_unlink_def\<close>)

subsection \<open>Every availability check ends exactly once\<close>

definition is_cac_end :: "radar_output \<Rightarrow> bool" where
  "is_cac_end out = (case out of Cac_finished v \<Rightarrow> True | Cac_aborted v \<Rightarrow> True | _ \<Rightarrow> False)"

definition is_cac_stop :: "radar_output \<Rightarrow> bool" where
  "is_cac_stop out = (case out of Apm_stop_cac_req v \<Rightarrow> True | _ \<Rightarrow> False)"

text \<open>
  The threads: the delayed work, a holder of the kernel's RTNL lock that cancels, and the worker that has found a radar and
  cancels before it reports the channel it has saved.
\<close>

record cac_threads =
  rhw :: radar_hw
  work_at :: cac_work_pc
  cancel_at :: cancel_pc
  detect_at :: cancel_pc
  detect_ev :: "cfg80211_chan_def option"

definition alone :: "cac_threads \<Rightarrow> bool" where
  "alone s \<longleftrightarrow> work_at s = WorkIdle \<and> cancel_at s = CancelIdle \<and> detect_at s = CancelIdle"

text \<open>
  The states reached after \<open>n\<close> checks were started, every interleaving of the pieces included.  A check can be started and
  cancelled while the work function runs: nothing in the code excludes it.  Starting and cancelling by RTNL holders exclude each
  other.  The flag says whether calls have overlapped so far: one began between the pieces of another, or a check was
  started before \<open>cac_vif\<close> had been cleared.
\<close>

inductive cac_run :: "nat \<Rightarrow> bool \<Rightarrow> cac_threads \<Rightarrow> bool" where
  boot: "chan_inv hw \<Longrightarrow> cac_vif hw = None \<Longrightarrow> \<not> cac_work_pending hw \<Longrightarrow> radar_out hw = [] \<Longrightarrow>
    cac_run 0 False \<lparr>rhw = hw, work_at = WorkIdle, cancel_at = CancelIdle, detect_at = CancelIdle, detect_ev = None\<rparr>"
| link: "cac_run n ov s \<Longrightarrow> vif < length (vif_ch_index (rhw s)) \<Longrightarrow> vif_ch_index (rhw s) ! vif = RWNX_CH_NOT_SET \<Longrightarrow>
    cac_run n ov (s\<lparr>rhw := rwnx_chanctx_link vif ch d (rhw s)\<rparr>)"
| unlink: "cac_run n ov s \<Longrightarrow> vif < length (vif_ch_index (rhw s)) \<Longrightarrow> cac_run n ov (s\<lparr>rhw := rwnx_chanctx_unlink vif (rhw s)\<rparr>)"
| enable: "cac_run n ov s \<Longrightarrow> cac_run n ov (s\<lparr>rhw := rwnx_radar_detection_enable_on_cur_channel (rhw s)\<rparr>)"
| start: "cac_run n ov s \<Longrightarrow> vif < length (vif_ch_index (rhw s)) \<Longrightarrow> cancel_at s = CancelIdle \<Longrightarrow>
    cac_run (Suc n) (ov \<or> \<not> alone s \<or> cac_vif (rhw s) \<noteq> None) (s\<lparr>rhw := rwnx_radar_start_cac vif (rhw s)\<rparr>)"
| cancel: "cac_run n ov s \<Longrightarrow> cancel_cac_step (cancel_at s) (rhw s) = Some (pc, h) \<Longrightarrow>
    cac_run n (ov \<or> cancel_at s = CancelIdle \<and> \<not> alone s) (s\<lparr>rhw := h, cancel_at := pc\<rparr>)"
| radar: "cac_run n ov s \<Longrightarrow> detect_ev s = None \<Longrightarrow> rwnx_chanctx_valid (rhw s) (cur_chanctx (rhw s)) \<Longrightarrow>
    cancel_cac_step CancelIdle (rhw s) = Some (pc, h) \<Longrightarrow>
    cac_run n (ov \<or> \<not> alone s) (s\<lparr>rhw := h, detect_at := pc, detect_ev := Some (chan_def (chanctx_table (rhw s) ! unat (cur_chanctx (rhw s))))\<rparr>)"
| radar_cancels: "cac_run n ov s \<Longrightarrow> detect_at s \<noteq> CancelIdle \<Longrightarrow> cancel_cac_step (detect_at s) (rhw s) = Some (pc, h) \<Longrightarrow>
    cac_run n ov (s\<lparr>rhw := h, detect_at := pc\<rparr>)"
| radar_reports: "cac_run n ov s \<Longrightarrow> detect_at s = CancelIdle \<Longrightarrow> detect_ev s = Some d \<Longrightarrow>
    cac_run n ov (s\<lparr>rhw := emit [Radar_event d] (rhw s), detect_ev := None\<rparr>)"
| work: "cac_run n ov s \<Longrightarrow> work_at s = WorkIdle \<Longrightarrow> cac_work_pending (rhw s) \<Longrightarrow> rwnx_radar_cac_work WorkIdle (rhw s) = Some (pc, h) \<Longrightarrow>
    cac_run n (ov \<or> \<not> alone s) (s\<lparr>rhw := h, work_at := pc\<rparr>)"
| work_goes: "cac_run n ov s \<Longrightarrow> work_at s \<noteq> WorkIdle \<Longrightarrow> rwnx_radar_cac_work (work_at s) (rhw s) = Some (pc, h) \<Longrightarrow>
    cac_run n ov (s\<lparr>rhw := h, work_at := pc\<rparr>)"

text \<open>The ends reported and the stop requests sent so far, and those a thread is committed to.\<close>

definition ends :: "radar_hw \<Rightarrow> nat" where "ends hw = length (filter is_cac_end (radar_out hw))"
definition stops :: "radar_hw \<Rightarrow> nat" where "stops hw = length (filter is_cac_stop (radar_out hw))"

definition cancel_owes :: "cancel_pc \<Rightarrow> nat" where "cancel_owes pc = (if pc = CancelStop \<or> pc = CancelReport then 1 else 0)"
definition work_owes :: "cac_work_pc \<Rightarrow> nat" where "work_owes pc = (if pc = WorkReport then 1 else 0)"

definition cac_bound :: "nat \<Rightarrow> cac_threads \<Rightarrow> bool" where
  "cac_bound n s \<longleftrightarrow> chan_inv (rhw s) \<and> (\<forall>v. cac_vif (rhw s) = Some v \<longrightarrow> v < length (vif_ch_index (rhw s))) \<and>
     ends (rhw s) + of_bool (cac_work_pending (rhw s)) + work_owes (work_at s) + cancel_owes (cancel_at s) + cancel_owes (detect_at s) \<le> n"

text \<open>Without overlaps one thread is at most active, and each position of it fixes the counts.\<close>

definition work_counts :: "nat \<Rightarrow> cac_work_pc \<Rightarrow> radar_hw \<Rightarrow> bool" where
  "work_counts n pc hw \<longleftrightarrow> (case pc of
       WorkIdle \<Rightarrow> cac_work_pending hw = (cac_vif hw \<noteq> None) \<and> ends hw + of_bool (cac_vif hw \<noteq> None) = n \<and> stops hw = ends hw
     | WorkReport \<Rightarrow> \<not> cac_work_pending hw \<and> cac_vif hw \<noteq> None \<and> ends hw + 1 = n \<and> stops hw = ends hw
     | WorkStop \<Rightarrow> \<not> cac_work_pending hw \<and> cac_vif hw \<noteq> None \<and> ends hw = n \<and> stops hw + 1 = ends hw
     | _ \<Rightarrow> \<not> cac_work_pending hw \<and> cac_vif hw \<noteq> None \<and> ends hw = n \<and> stops hw = ends hw)"

definition cancel_counts :: "nat \<Rightarrow> cancel_pc \<Rightarrow> radar_hw \<Rightarrow> bool" where
  "cancel_counts n pc hw \<longleftrightarrow> (case pc of
       CancelIdle \<Rightarrow> work_counts n WorkIdle hw
     | CancelWork \<Rightarrow> cac_work_pending hw \<and> cac_vif hw \<noteq> None \<and> ends hw + 1 = n \<and> stops hw = ends hw
     | CancelStop \<Rightarrow> \<not> cac_work_pending hw \<and> cac_vif hw \<noteq> None \<and> ends hw + 1 = n \<and> stops hw = ends hw
     | CancelReport \<Rightarrow> \<not> cac_work_pending hw \<and> cac_vif hw \<noteq> None \<and> ends hw + 1 = n \<and> stops hw = ends hw + 1
     | _ \<Rightarrow> \<not> cac_work_pending hw \<and> cac_vif hw \<noteq> None \<and> ends hw = n \<and> stops hw = ends hw)"

definition cac_exact :: "nat \<Rightarrow> cac_threads \<Rightarrow> bool" where
  "cac_exact n s \<longleftrightarrow>
     cancel_at s = CancelIdle \<and> detect_at s = CancelIdle \<and> work_counts n (work_at s) (rhw s) \<or>
     work_at s = WorkIdle \<and> detect_at s = CancelIdle \<and> cancel_counts n (cancel_at s) (rhw s) \<or>
     work_at s = WorkIdle \<and> cancel_at s = CancelIdle \<and> cancel_counts n (detect_at s) (rhw s)"

text \<open>What the context operations leave alone.\<close>

lemma enable_frame [frame_simps]:
  "cac_vif (rwnx_radar_detection_enable e c hw) = cac_vif hw"
  "cac_work_pending (rwnx_radar_detection_enable e c hw) = cac_work_pending hw"
  "radar_out (rwnx_radar_detection_enable e c hw) = radar_out hw"
  "vif_ch_index (rwnx_radar_detection_enable e c hw) = vif_ch_index hw"
  "chan_inv (rwnx_radar_detection_enable e c hw) = chan_inv hw"
  by (simp_all add: rwnx_radar_detection_enable_def chan_inv_def users_def)

lemma ctx_frame [frame_simps]:
  "cac_vif (rwnx_chanctx_unlink v hw) = cac_vif hw" "cac_work_pending (rwnx_chanctx_unlink v hw) = cac_work_pending hw"
  "radar_out (rwnx_chanctx_unlink v hw) = radar_out hw"
  "length (vif_ch_index (rwnx_chanctx_unlink v hw)) = length (vif_ch_index hw)"
  "cac_vif (rwnx_chanctx_link v ch d hw) = cac_vif hw" "cac_work_pending (rwnx_chanctx_link v ch d hw) = cac_work_pending hw"
  "radar_out (rwnx_chanctx_link v ch d hw) = radar_out hw"
  "length (vif_ch_index (rwnx_chanctx_link v ch d hw)) = length (vif_ch_index hw)"
  by (simp_all add: rwnx_chanctx_unlink_def rwnx_chanctx_link_def Let_def frame_simps)

lemma emit_frame [frame_simps]:
  "chan_inv (emit os hw) = chan_inv hw" "vif_ch_index (emit os hw) = vif_ch_index hw"
  "cac_vif (emit os hw) = cac_vif hw" "cac_work_pending (emit os hw) = cac_work_pending hw"
  "radar_out (emit os hw) = radar_out hw @ os"
  by (simp_all add: emit_def chan_inv_def users_def)

lemma cac_fields_frame [frame_simps]:
  "chan_inv (hw\<lparr>cac_vif := v\<rparr>) = chan_inv hw" "chan_inv (hw\<lparr>cac_work_pending := b\<rparr>) = chan_inv hw"
  by (simp_all add: chan_inv_def users_def)

lemma counts_frame [frame_simps]:
  "ends (emit os hw) = ends hw + length (filter is_cac_end os)" "stops (emit os hw) = stops hw + length (filter is_cac_stop os)"
  "ends (rwnx_chanctx_unlink v hw) = ends hw" "stops (rwnx_chanctx_unlink v hw) = stops hw"
  "ends (rwnx_chanctx_link v ch d hw) = ends hw" "stops (rwnx_chanctx_link v ch d hw) = stops hw"
  "ends (rwnx_radar_detection_enable e c hw) = ends hw" "stops (rwnx_radar_detection_enable e c hw) = stops hw"
  "ends (hw\<lparr>cac_vif := w\<rparr>) = ends hw" "stops (hw\<lparr>cac_vif := w\<rparr>) = stops hw"
  "ends (hw\<lparr>cac_work_pending := b\<rparr>) = ends hw" "stops (hw\<lparr>cac_work_pending := b\<rparr>) = stops hw"
  by (simp_all add: ends_def stops_def frame_simps)

lemmas out_simps = is_cac_end_def is_cac_stop_def

text \<open>What a piece does to the bound and to the counts.\<close>

definition vif_known :: "radar_hw \<Rightarrow> bool" where "vif_known hw \<longleftrightarrow> chan_inv hw \<and> (\<forall>v. cac_vif hw = Some v \<longrightarrow> v < length (vif_ch_index hw))"

lemma cancel_step_bound:
  assumes "cancel_cac_step pc hw = Some (pc', h)"
  shows "vif_known hw \<Longrightarrow> vif_known h"
    "ends h + of_bool (cac_work_pending h) + cancel_owes pc' \<le> ends hw + of_bool (cac_work_pending hw) + cancel_owes pc"
  using assms unlink_keeps
  by (auto simp: cancel_cac_step_def vif_known_def cancel_owes_def frame_simps out_simps split: cancel_pc.splits if_splits)

lemma work_step_bound:
  assumes "rwnx_radar_cac_work pc hw = Some (pc', h)" "pc = WorkIdle \<Longrightarrow> cac_work_pending hw"
  shows "vif_known hw \<Longrightarrow> vif_known h"
    "ends h + of_bool (cac_work_pending h) + work_owes pc' \<le> ends hw + of_bool (cac_work_pending hw) + work_owes pc"
  using assms unlink_keeps
  by (auto simp: rwnx_radar_cac_work_def vif_known_def work_owes_def frame_simps out_simps split: cac_work_pc.splits if_splits)

lemma cancel_step_counts:
  assumes "cancel_counts n pc hw" "cancel_cac_step pc hw = Some (pc', h)"
  shows "cancel_counts n pc' h"
  using assms
  by (auto simp: cancel_cac_step_def cancel_counts_def work_counts_def frame_simps out_simps split: cancel_pc.splits if_splits)

lemma work_step_counts:
  assumes "work_counts n pc hw" "rwnx_radar_cac_work pc hw = Some (pc', h)" "pc = WorkIdle \<Longrightarrow> cac_work_pending hw"
  shows "work_counts n pc' h"
  using assms
  by (auto simp: rwnx_radar_cac_work_def work_counts_def frame_simps out_simps split: cac_work_pc.splits if_splits)

lemma other_counts:
  assumes "ends h = ends hw" "stops h = stops hw" "cac_vif h = cac_vif hw" "cac_work_pending h = cac_work_pending hw"
  shows "work_counts n wpc h = work_counts n wpc hw" "cancel_counts n cpc h = cancel_counts n cpc hw"
proof -
  show w: "work_counts n wpc h = work_counts n wpc hw" for wpc by (cases wpc) (use assms in \<open>simp_all add: work_counts_def\<close>)
  show "cancel_counts n cpc h = cancel_counts n cpc hw" by (cases cpc) (use assms w in \<open>simp_all add: cancel_counts_def\<close>)
qed

text \<open>Steps that do not belong to the check.\<close>

lemma aside_keeps:
  assumes "cac_bound n s" "\<not> ov \<longrightarrow> cac_exact n s" "ends h = ends (rhw s)" "stops h = stops (rhw s)" "cac_vif h = cac_vif (rhw s)"
    "cac_work_pending h = cac_work_pending (rhw s)" "length (vif_ch_index h) = length (vif_ch_index (rhw s))" "chan_inv h"
  shows "cac_bound n (s\<lparr>rhw := h\<rparr>) \<and> (\<not> ov \<longrightarrow> cac_exact n (s\<lparr>rhw := h\<rparr>))"
  using assms other_counts [OF assms(3-6)] by (simp add: cac_bound_def cac_exact_def)

lemma cac_alone: "cac_exact n s \<Longrightarrow> alone s \<Longrightarrow> work_counts n WorkIdle (rhw s)"
  by (auto simp: cac_exact_def alone_def cancel_counts_def)

lemma counts_start:
  assumes "work_counts n WorkIdle hw" "cac_vif hw = None"
  shows "work_counts (Suc n) WorkIdle (rwnx_radar_start_cac vif hw)"
  using assms by (auto simp: work_counts_def rwnx_radar_start_cac_def ends_def stops_def)

lemma cac_run_inv: "cac_run n ov s \<Longrightarrow> cac_bound n s \<and> (\<not> ov \<longrightarrow> cac_exact n s)"
proof (induction rule: cac_run.induct)
  case (boot hw)
  then show ?case by (simp add: cac_bound_def cac_exact_def work_counts_def ends_def stops_def work_owes_def cancel_owes_def)
next
  case (link n ov s vif ch d)
  then show ?case by (intro aside_keeps) (auto simp: frame_simps cac_bound_def intro: link_keeps)
next
  case (unlink n ov s vif)
  then show ?case by (intro aside_keeps) (auto simp: frame_simps cac_bound_def intro: unlink_keeps)
next
  case (enable n ov s)
  then show ?case by (intro aside_keeps) (auto simp: frame_simps cac_bound_def rwnx_radar_detection_enable_on_cur_channel_def)
next
  case (start n ov s vif)
  have "cac_bound (Suc n) (s\<lparr>rhw := rwnx_radar_start_cac vif (rhw s)\<rparr>)"
    using start by (auto simp: cac_bound_def rwnx_radar_start_cac_def frame_simps)
  moreover have "cac_exact (Suc n) (s\<lparr>rhw := rwnx_radar_start_cac vif (rhw s)\<rparr>)" if "\<not> ov" "alone s" "cac_vif (rhw s) = None"
    using counts_start [OF cac_alone that(3)] that start by (simp add: cac_exact_def alone_def)
  ultimately show ?case by blast
next
  case (cancel n ov s pc h)
  note b = cancel_step_bound [OF cancel(2)]
  have "cac_exact n (s\<lparr>rhw := h, cancel_at := pc\<rparr>)" if "\<not> ov" "cancel_at s \<noteq> CancelIdle \<or> alone s"
  proof -
    have "work_at s = WorkIdle \<and> detect_at s = CancelIdle \<and> cancel_counts n (cancel_at s) (rhw s)"
      using cancel that cac_alone [of n s] by (auto simp: cac_exact_def alone_def cancel_counts_def)
    then show ?thesis using cancel_step_counts [OF _ cancel(2)] by (simp add: cac_exact_def)
  qed
  then show ?case using b cancel by (auto simp: cac_bound_def vif_known_def)
next
  case (radar n ov s pc h)
  note b = cancel_step_bound [OF radar(4)]
  have hs: "h = rhw s" using radar(4) by (simp add: cancel_cac_step_def)
  have "cac_exact n (s\<lparr>rhw := h, detect_at := pc, detect_ev := d\<rparr>)" if "\<not> ov" "alone s" for d
  proof -
    have "cancel_counts n CancelIdle (rhw s)" using radar that cac_alone [of n s] by (simp add: cancel_counts_def)
    from cancel_step_counts [OF this radar(4)] show ?thesis using that(2) by (simp add: cac_exact_def alone_def)
  qed
  moreover have "cancel_owes pc = 0" using radar(4) by (auto simp: cancel_cac_step_def cancel_owes_def split: if_splits)
  ultimately show ?case using radar hs by (auto simp: cac_bound_def)
next
  case (radar_cancels n ov s pc h)
  note b = cancel_step_bound [OF radar_cancels(3)]
  have "cac_exact n (s\<lparr>rhw := h, detect_at := pc\<rparr>)" if "\<not> ov"
  proof -
    have "work_at s = WorkIdle \<and> cancel_at s = CancelIdle \<and> cancel_counts n (detect_at s) (rhw s)" using radar_cancels that by (auto simp: cac_exact_def)
    then show ?thesis using cancel_step_counts [OF _ radar_cancels(3)] by (simp add: cac_exact_def)
  qed
  then show ?case using b radar_cancels by (auto simp: cac_bound_def vif_known_def)
next
  case (radar_reports n ov s d)
  then have "cac_bound n (s\<lparr>rhw := emit [Radar_event d] (rhw s)\<rparr>) \<and> (\<not> ov \<longrightarrow> cac_exact n (s\<lparr>rhw := emit [Radar_event d] (rhw s)\<rparr>))"
    by (intro aside_keeps) (auto simp: frame_simps cac_bound_def out_simps)
  then show ?case by (simp add: cac_bound_def cac_exact_def)
next
  case (work n ov s pc h)
  note b = work_step_bound [OF work(4) work(3)]
  have "cac_exact n (s\<lparr>rhw := h, work_at := pc\<rparr>)" if "\<not> ov" "alone s"
  proof -
    have "work_counts n WorkIdle (rhw s)" using work that cac_alone [of n s] by simp
    from work_step_counts [OF this work(4) work(3)] show ?thesis using that(2) by (simp add: cac_exact_def alone_def)
  qed
  then show ?case using b work by (auto simp: cac_bound_def vif_known_def)
next
  case (work_goes n ov s pc h)
  have i: "work_at s = WorkIdle \<Longrightarrow> cac_work_pending (rhw s)" using work_goes(2) by simp
  note b = work_step_bound [OF work_goes(3) i]
  have "cac_exact n (s\<lparr>rhw := h, work_at := pc\<rparr>)" if "\<not> ov"
  proof -
    have "cancel_at s = CancelIdle \<and> detect_at s = CancelIdle \<and> work_counts n (work_at s) (rhw s)" using work_goes that by (auto simp: cac_exact_def)
    then show ?thesis using work_step_counts [OF _ work_goes(3) i] by (simp add: cac_exact_def)
  qed
  then show ?case using b work_goes by (auto simp: cac_bound_def vif_known_def)
qed

text \<open>C31. A channel availability check never ends twice, and ends exactly once as long as calls do not overlap.  In every
  interleaving of the pieces of the delayed work, of cancellations and of the detection of a radar, the checks reported to
  cfg80211 as finished or aborted and the one whose work is pending are at most the \<open>n\<close> that were started.  As long
  as no call has begun between the pieces of another and no check was started over another, no thread meets a null pointer,
  and between the calls the checks that have ended and the one in progress number \<open>n\<close>, the firmware has got one
  stop request for each that has ended, and the work is pending exactly while a check is in progress.\<close>

theorem cac_ends_once:
  assumes "cac_run n ov s"
  shows "length (filter is_cac_end (radar_out (rhw s))) + of_bool (cac_work_pending (rhw s)) \<le> n \<and>
    (\<not> ov \<longrightarrow> rwnx_radar_cac_work (work_at s) (rhw s) \<noteq> None \<and> cancel_cac_step (cancel_at s) (rhw s) \<noteq> None \<and>
      cancel_cac_step (detect_at s) (rhw s) \<noteq> None \<and>
      (alone s \<longrightarrow> length (filter is_cac_end (radar_out (rhw s))) + (if cac_vif (rhw s) = None then 0 else 1) = n \<and>
        length (filter is_cac_stop (radar_out (rhw s))) = length (filter is_cac_end (radar_out (rhw s))) \<and>
        cac_work_pending (rhw s) = (cac_vif (rhw s) \<noteq> None)))"
proof -
  have i: "cac_bound n s" "\<not> ov \<Longrightarrow> cac_exact n s" using cac_run_inv [OF assms] by auto
  have "rwnx_radar_cac_work (work_at s) (rhw s) \<noteq> None \<and> cancel_cac_step (cancel_at s) (rhw s) \<noteq> None \<and>
      cancel_cac_step (detect_at s) (rhw s) \<noteq> None" if "cac_exact n s"
    using that
    by (auto simp: cac_exact_def work_counts_def cancel_counts_def rwnx_radar_cac_work_def cancel_cac_step_def split: cac_work_pc.splits cancel_pc.splits)
  moreover have "work_counts n WorkIdle (rhw s)" if "\<not> ov" "alone s" using cac_alone [OF i(2)] that by blast
  ultimately show ?thesis using i by (auto simp: cac_bound_def work_counts_def ends_def stops_def)
qed

text \<open>A piece after another is the whole, when nobody comes between.\<close>

lemma cancel_cac_whole:
  "cac_vif hw = Some v \<Longrightarrow> cac_work_pending hw \<Longrightarrow>
   Option.bind (cancel_cac_step CancelIdle hw) (\<lambda>(pc, h). Option.bind (cancel_cac_step pc h) (\<lambda>(pc, h). Option.bind (cancel_cac_step pc h) (\<lambda>(pc, h).
     Option.bind (cancel_cac_step pc h) (\<lambda>(pc, h). Option.bind (cancel_cac_step pc h) (\<lambda>(pc, h). cancel_cac_step pc h))))) =
   Some (CancelIdle, rwnx_radar_cancel_cac hw)"
  by (simp add: cancel_cac_step_def rwnx_radar_cancel_cac_def Let_def frame_simps emit_def)

text \<open>When the work has reported the end of a check and waits for the firmware, a cancellation finds nothing pending and only
  clears \<open>cac_vif\<close>: the work goes on with a null pointer, and the interface is never unlinked.\<close>

theorem cancel_during_work_faults:
  assumes "cac_run n ov s" "work_at s = WorkStop" "\<not> cac_work_pending (rhw s)" "cancel_at s = CancelIdle" "cac_vif (rhw s) = Some v"
  shows "\<exists>t ov'. cac_run n ov' t \<and> work_at t = WorkStop \<and> cancel_at t = CancelIdle \<and> rwnx_radar_cac_work WorkStop (rhw t) = None \<and>
    vif_ch_index (rhw t) = vif_ch_index (rhw s) \<and> radar_out (rhw t) = radar_out (rhw s)"
proof -
  let ?s1 = "s\<lparr>rhw := rhw s, cancel_at := CancelWork\<rparr>"
  let ?s2 = "?s1\<lparr>rhw := rhw s, cancel_at := CancelClear\<rparr>"
  let ?s3 = "?s2\<lparr>rhw := (rhw s)\<lparr>cac_vif := None\<rparr>, cancel_at := CancelIdle\<rparr>"
  have 1: "cac_run n True ?s1" using cancel [OF assms(1), of CancelWork "rhw s"] assms by (simp add: cancel_cac_step_def alone_def)
  have 2: "cac_run n True ?s2" using cancel [OF 1, of CancelClear "rhw s"] assms by (simp add: cancel_cac_step_def)
  have "cac_run n True ?s3" using cancel [OF 2, of CancelIdle "(rhw s)\<lparr>cac_vif := None\<rparr>"] by (simp add: cancel_cac_step_def)
  then show ?thesis using assms(2) by (intro exI [of _ ?s3] exI [of _ True]) (simp add: rwnx_radar_cac_work_def)
qed

text \<open>Channel contexts are counted: in every state reached, the counter of a context is the number of
  interfaces linked to it, an interface is linked to a real context or to none, and a context without
  users has no channel, so a stale channel is never read through it.\<close>

theorem chanctx_counted:
  assumes "cac_run n ov s" "i < NX_CHAN_CTXT_CNT"
  defines "hw \<equiv> rhw s"
  shows "unat (ctx_users (chanctx_table hw ! i)) = length (filter (\<lambda>ch. unat ch = i) (vif_ch_index hw)) \<and>
    (i \<notin> unat ` set (vif_ch_index hw) \<longrightarrow> \<not> rwnx_chanctx_valid hw (of_nat i)) \<and>
    (\<forall>ch \<in> set (vif_ch_index hw). unat ch < NX_CHAN_CTXT_CNT \<or> ch = RWNX_CH_NOT_SET)"
proof -
  have c: "chan_inv hw" using cac_run_inv [OF assms(1)] by (simp add: cac_bound_def hw_def)
  have "i \<notin> unat ` set (vif_ch_index hw) \<Longrightarrow> users hw i = 0" by (auto simp: users_def filter_empty_conv)
  moreover have "unat (of_nat i :: u8) = i" using assms(2) by (simp add: NX_CHAN_CTXT_CNT_def unat_of_nat)
  ultimately show ?thesis using c assms(2)
    by (auto simp: chan_inv_def users_def NX_CHAN_CTXT_CNT_def rwnx_chanctx_valid_def)
qed

text \<open>The witnesses: two interfaces; one is linked, checked, and a radar is detected.\<close>

definition idle_hw :: radar_hw where
  "idle_hw =
    (let ctx = \<lparr>chan_def = \<lparr>cd_radar_chan = None, center_freq1 = 0\<rparr>, ctx_users = 0\<rparr>;
         rp = \<lparr>rp_index = 0, rp_count = 0, rp_buffer = replicate 32 0\<rparr>;
         rd = \<lparr>rd_index = 0, rd_count = 0, rd_time = [0, 0, 0, 0], rd_freq = [0, 0, 0, 0]\<rparr>
     in \<lparr>radar_pulses = [rp, rp], radar_dpd = [None, None], radar_detected = [rd, rd], cac_vif = None,
         cac_work_pending = False, chanctx_table = [ctx, ctx, ctx], cur_chanctx = 1, sec_chan_freq1 = 0,
         vif_ch_index = [RWNX_CH_NOT_SET, RWNX_CH_NOT_SET], radar_pools = roomy_pools, radar_out = []\<rparr>)"

definition linked_hw :: radar_hw where
  "linked_hw = rwnx_chanctx_link 0 1 (Some \<lparr>cd_radar_chan = Some True, center_freq1 = 5290\<rparr>) (fst (rwnx_radar_detection_init 0 idle_hw))"

abbreviation calm :: "radar_hw \<Rightarrow> cac_threads" where
  "calm hw \<equiv> \<lparr>rhw = hw, work_at = WorkIdle, cancel_at = CancelIdle, detect_at = CancelIdle, detect_ev = None\<rparr>"

lemma linked_hw_run: "cac_run 0 False (calm linked_hw)"
proof -
  let ?h0 = "fst (rwnx_radar_detection_init 0 idle_hw)"
  have "chan_inv ?h0 \<and> cac_vif ?h0 = None \<and> \<not> cac_work_pending ?h0 \<and> radar_out ?h0 = []" by code_simp
  then have "cac_run 0 False (calm ?h0)" by (intro boot) simp_all
  moreover have "0 < length (vif_ch_index ?h0)" "vif_ch_index ?h0 ! 0 = RWNX_CH_NOT_SET" by code_simp+
  ultimately show ?thesis using link [of 0 False "calm ?h0" 0 1 "Some \<lparr>cd_radar_chan = Some True, center_freq1 = 5290\<rparr>"] by (simp add: linked_hw_def)
qed

text \<open>A check is started, its work runs, and a cancellation that follows finds nothing to do.\<close>

definition checked_hw :: radar_hw where
  "checked_hw = (rwnx_chanctx_unlink 0 (emit [Apm_stop_cac_req 0] (emit [Cac_finished 0]
     ((rwnx_radar_start_cac 0 linked_hw)\<lparr>cac_work_pending := False\<rparr>))))\<lparr>cac_vif := None\<rparr>"

lemma started_run: "cac_run 1 False (calm (rwnx_radar_start_cac 0 linked_hw))"
proof -
  have "0 < length (vif_ch_index linked_hw)" "cac_vif linked_hw = None" by code_simp+
  then show ?thesis using start [OF linked_hw_run, of 0] by (simp add: alone_def)
qed

lemma reported_run: "cac_run 1 False ((calm (emit [Cac_finished 0] ((rwnx_radar_start_cac 0 linked_hw)\<lparr>cac_work_pending := False\<rparr>)))\<lparr>work_at := WorkStop\<rparr>)"
proof -
  let ?h0 = "rwnx_radar_start_cac 0 linked_hw"
  have p: "cac_vif ?h0 = Some 0" "cac_work_pending ?h0" by (simp_all add: rwnx_radar_start_cac_def)
  have 1: "cac_run 1 False ((calm (?h0\<lparr>cac_work_pending := False\<rparr>))\<lparr>work_at := WorkReport\<rparr>)"
    using work [OF started_run, of WorkReport "?h0\<lparr>cac_work_pending := False\<rparr>"] p by (simp add: rwnx_radar_cac_work_def alone_def)
  show ?thesis using work_goes [OF 1, of WorkStop] p by (simp add: rwnx_radar_cac_work_def)
qed

lemma checked_hw_run: "cac_run 1 False (calm checked_hw)"
proof -
  define h1 where "h1 = emit [Cac_finished 0] ((rwnx_radar_start_cac 0 linked_hw)\<lparr>cac_work_pending := False\<rparr>)"
  have p: "cac_vif h1 = Some 0" by (simp add: h1_def rwnx_radar_start_cac_def emit_def)
  have 1: "cac_run 1 False ((calm (emit [Apm_stop_cac_req 0] h1))\<lparr>work_at := WorkUnlink\<rparr>)"
    using work_goes [OF reported_run [folded h1_def], of WorkUnlink] p by (simp add: rwnx_radar_cac_work_def)
  have 2: "cac_run 1 False ((calm (rwnx_chanctx_unlink 0 (emit [Apm_stop_cac_req 0] h1)))\<lparr>work_at := WorkClear\<rparr>)"
    using work_goes [OF 1, of WorkClear] p by (simp add: rwnx_radar_cac_work_def frame_simps)
  show ?thesis using work_goes [OF 2, of WorkIdle] by (simp add: rwnx_radar_cac_work_def checked_hw_def h1_def)
qed

theorem cac_ends_once_witness:
  "cac_vif checked_hw = None \<and> length (filter is_cac_end (radar_out checked_hw)) = 1 \<and> \<not> cac_work_pending checked_hw"
proof -
  have "cac_vif checked_hw = None" by code_simp
  with cac_ends_once [OF checked_hw_run] show ?thesis by (simp add: alone_def)
qed

theorem cancel_during_work_faults_witness:
  "\<exists>t ov. cac_run 1 ov t \<and> rwnx_radar_cac_work (work_at t) (rhw t) = None \<and> radar_out (rhw t) = [Cac_finished 0]"
proof -
  define h1 where "h1 = emit [Cac_finished 0] ((rwnx_radar_start_cac 0 linked_hw)\<lparr>cac_work_pending := False\<rparr>)"
  have p: "\<not> cac_work_pending h1" "cac_vif h1 = Some 0" "radar_out h1 = [Cac_finished 0]"
    by (simp_all add: h1_def rwnx_radar_start_cac_def emit_def) code_simp
  show ?thesis using cancel_during_work_faults [OF reported_run [folded h1_def]] p by auto
qed

theorem chanctx_counted_witness:
  "unat (ctx_users (chanctx_table checked_hw ! 1)) = 0 \<and> \<not> rwnx_chanctx_valid checked_hw 1"
proof -
  have v: "vif_ch_index checked_hw = [RWNX_CH_NOT_SET, RWNX_CH_NOT_SET]" by code_simp
  have "1 < NX_CHAN_CTXT_CNT" by code_simp
  from chanctx_counted [OF checked_hw_run this] show ?thesis by (simp add: v RWNX_CH_NOT_SET_def)
qed

theorem copy_ring_correct_witness:
  "copy_ring \<lparr>rp_index = 2, rp_count = 5, rp_buffer = map of_nat [0..<32]\<rparr> = [29, 30, 31, 0, 1]"
proof -
  let ?rp = "\<lparr>rp_index = 2, rp_count = 5, rp_buffer = map of_nat [0..<32]\<rparr> :: rwnx_radar_pulses"
  have "copy_ring ?rp = map (\<lambda>k. rp_buffer ?rp ! nat ((rp_index ?rp - rp_count ?rp + int k) mod 32)) [0..<nat (rp_count ?rp)]"
    by (rule copy_ring_correct) simp_all
  also have "\<dots> = [29, 30, 31, 0, 1]" by code_simp
  finally show ?thesis .
qed

end
