(* ===== verification/Cmd_Mgr.thy ===== *)
theory Cmd_Mgr
  imports Prelude
begin

text \<open>
  The command manager (\<^verbatim>\<open>aic8800_fdrv/rwnx_cmds.c\<close>) and the static array of commands it is fed from
  (\<^verbatim>\<open>rwnx_msg_tx.c\<close>).  A command is an index into the array.  The points where the code sleeps split
  its functions: \<open>waiters\<close> are the commands on which a caller of \<open>cmd_mgr_queue\<close> sleeps, \<open>worker_on\<close>
  the one on which the work function sleeps, \<open>cmd_work\<close> says that the work is queued.  Messages that
  went to the bus are a list.
\<close>

unbundle bit_operations_syntax

subsection \<open>Commands\<close>

definition RWNX_CMD_FLAG_NONBLOCK :: u16 where "RWNX_CMD_FLAG_NONBLOCK = 1"
definition RWNX_CMD_FLAG_REQ_CFM :: u16 where "RWNX_CMD_FLAG_REQ_CFM = 2"
definition RWNX_CMD_FLAG_WAIT_PUSH :: u16 where "RWNX_CMD_FLAG_WAIT_PUSH = 4"
definition RWNX_CMD_FLAG_WAIT_ACK :: u16 where "RWNX_CMD_FLAG_WAIT_ACK = 8"
definition RWNX_CMD_FLAG_WAIT_CFM :: u16 where "RWNX_CMD_FLAG_WAIT_CFM = 16"
definition RWNX_CMD_FLAG_DONE :: u16 where "RWNX_CMD_FLAG_DONE = 32"
definition RWNX_CMD_MAX_QUEUED :: u32 where "RWNX_CMD_MAX_QUEUED = 16"
definition RWNX_CMD_ARRAY_SIZE :: nat where "RWNX_CMD_ARRAY_SIZE = 20"

definition RWNX_CMD_WAIT_COMPLETE :: "u16 \<Rightarrow> bool" where
  "RWNX_CMD_WAIT_COMPLETE flags \<longleftrightarrow> flags AND (RWNX_CMD_FLAG_WAIT_ACK OR RWNX_CMD_FLAG_WAIT_CFM) = 0"

record lmac_msg =
  msg_id :: u16
  dest_id :: u16
  src_id :: u16
  msg_param :: "u8 list"

text \<open>
  \<open>a2e_msg\<close> is the message until it is freed; \<open>e2a_msg\<close> the buffer for the answer, if the caller gave
  one; \<open>completed\<close> counts the completions signalled and not yet consumed.
\<close>

record rwnx_cmd =
  cmd_id :: u16
  reqid :: u16
  a2e_msg :: "lmac_msg option"
  e2a_msg :: "u8 list option"
  cmd_tkn :: u32
  cmd_flags :: u16
  completed :: nat
  cmd_result :: int
  cmd_used :: bool

datatype rwnx_cmd_mgr_state =
    RWNX_CMD_MGR_STATE_DEINIT
  | RWNX_CMD_MGR_STATE_INITED
  | RWNX_CMD_MGR_STATE_CRASHED

record cmd_mgr =
  mgr_state :: rwnx_cmd_mgr_state
  next_tkn :: u32
  queue_sz :: u32
  max_queue_sz :: u32
  cmds :: "nat list"
  cmd_array :: "rwnx_cmd list"
  cmd_work :: bool
  waiters :: "nat list"
  worker_on :: "nat option"
  bus_msgs :: "lmac_msg list"

definition EPIPE :: int where "EPIPE = 32"
definition ENOMEM :: int where "ENOMEM = 12"
definition EINTR :: int where "EINTR = 4"
definition ETIMEDOUT :: int where "ETIMEDOUT = 110"

abbreviation cmd_at :: "cmd_mgr \<Rightarrow> nat \<Rightarrow> rwnx_cmd" where "cmd_at m c \<equiv> cmd_array m ! c"

definition upd_cmd :: "nat \<Rightarrow> (rwnx_cmd \<Rightarrow> rwnx_cmd) \<Rightarrow> cmd_mgr \<Rightarrow> cmd_mgr" where
  "upd_cmd c f m = m\<lparr>cmd_array := (cmd_array m)[c := f (cmd_at m c)]\<rparr>"

text \<open>Testing, setting and clearing flags.\<close>

definition has_flag :: "u16 \<Rightarrow> rwnx_cmd \<Rightarrow> bool" where "has_flag f cmd \<longleftrightarrow> cmd_flags cmd AND f \<noteq> 0"
definition set_flag :: "u16 \<Rightarrow> rwnx_cmd \<Rightarrow> rwnx_cmd" where "set_flag f cmd = cmd\<lparr>cmd_flags := cmd_flags cmd OR f\<rparr>"
definition clear_flag :: "u16 \<Rightarrow> rwnx_cmd \<Rightarrow> rwnx_cmd" where "clear_flag f cmd = cmd\<lparr>cmd_flags := cmd_flags cmd AND NOT f\<rparr>"

subsection \<open>The array\<close>

definition rwnx_cmd_malloc :: "cmd_mgr \<Rightarrow> nat option \<times> cmd_mgr" where
  "rwnx_cmd_malloc m =
     (case find (\<lambda>c. \<not> cmd_used (cmd_at m c)) [0..<RWNX_CMD_ARRAY_SIZE] of
        None \<Rightarrow> (None, m)
      | Some c \<Rightarrow> (Some c, upd_cmd c (\<lambda>cmd. cmd\<lparr>cmd_used := True\<rparr>) m))"

definition rwnx_cmd_free :: "nat \<Rightarrow> cmd_mgr \<Rightarrow> cmd_mgr" where
  "rwnx_cmd_free c = upd_cmd c (\<lambda>cmd. cmd\<lparr>cmd_used := False\<rparr>)"

definition rwnx_init_cmd_array :: "cmd_mgr \<Rightarrow> cmd_mgr" where
  "rwnx_init_cmd_array m = m\<lparr>cmd_array := map (\<lambda>cmd. cmd\<lparr>cmd_used := False\<rparr>) (cmd_array m)\<rparr>"

subsection \<open>The queue\<close>

definition complete :: "nat \<Rightarrow> cmd_mgr \<Rightarrow> cmd_mgr" where
  "complete c = upd_cmd c (\<lambda>cmd. cmd\<lparr>completed := completed cmd + 1\<rparr>)"

definition cmd_complete :: "nat \<Rightarrow> cmd_mgr \<Rightarrow> cmd_mgr" where
  "cmd_complete c m =
     (let m = m\<lparr>cmds := remove1 c (cmds m), queue_sz := queue_sz m - 1\<rparr>;
          m = upd_cmd c (set_flag RWNX_CMD_FLAG_DONE) m
      in if has_flag RWNX_CMD_FLAG_NONBLOCK (cmd_at m c) then rwnx_cmd_free c m
         else if RWNX_CMD_WAIT_COMPLETE (cmd_flags (cmd_at m c))
         then complete c (upd_cmd c (\<lambda>cmd. cmd\<lparr>cmd_result := 0\<rparr>) m)
         else m)"

text \<open>Handing the message to the bus and freeing it.\<close>

definition push_msg :: "nat \<Rightarrow> cmd_mgr \<Rightarrow> cmd_mgr" where
  "push_msg c m =
     upd_cmd c (\<lambda>cmd. cmd\<lparr>a2e_msg := None\<rparr>) (m\<lparr>bus_msgs := bus_msgs m @ [the (a2e_msg (cmd_at m c))]\<rparr>)"

text \<open>The part both queueing functions share: token, result, completion, tail of the list.\<close>

definition enlist :: "nat \<Rightarrow> cmd_mgr \<Rightarrow> cmd_mgr" where
  "enlist c m =
     (let m = (if has_flag RWNX_CMD_FLAG_REQ_CFM (cmd_at m c) then upd_cmd c (set_flag RWNX_CMD_FLAG_WAIT_CFM) m else m);
          m = upd_cmd c (\<lambda>cmd. cmd\<lparr>cmd_tkn := next_tkn m, cmd_result := - EINTR\<rparr>) m;
          m = m\<lparr>next_tkn := next_tkn m + 1\<rparr>;
          m = (if has_flag RWNX_CMD_FLAG_NONBLOCK (cmd_at m c) then m else upd_cmd c (\<lambda>cmd. cmd\<lparr>completed := 0\<rparr>) m)
      in m\<lparr>cmds := cmds m @ [c], queue_sz := queue_sz m + 1\<rparr>)"

definition set_result :: "nat \<Rightarrow> int \<Rightarrow> cmd_mgr \<Rightarrow> cmd_mgr" where
  "set_result c r = upd_cmd c (\<lambda>cmd. cmd\<lparr>cmd_result := r\<rparr>)"

definition cmd_mgr_queue_force_defer :: "nat \<Rightarrow> cmd_mgr \<Rightarrow> cmd_mgr \<times> int" where
  "cmd_mgr_queue_force_defer c m =
     (if mgr_state m = RWNX_CMD_MGR_STATE_CRASHED then (set_result c (- EPIPE) m, - EPIPE)
      else if cmds m \<noteq> [] \<and> queue_sz m = max_queue_sz m then (set_result c (- ENOMEM) m, - ENOMEM)
      else ((enlist c (upd_cmd c (set_flag RWNX_CMD_FLAG_WAIT_PUSH) m))\<lparr>cmd_work := True\<rparr>, 0))"

text \<open>The ids that are always deferred; the second one exists with ARP offload only.\<close>

definition waiting_flags :: u16 where
  "waiting_flags = RWNX_CMD_FLAG_WAIT_ACK OR RWNX_CMD_FLAG_WAIT_PUSH OR RWNX_CMD_FLAG_WAIT_CFM"

text \<open>
  \<open>cmd_mgr_queue\<close> up to the wait.  \<open>deferred_ids\<close> are \<open>ME_TRAFFIC_IND_REQ\<close> and, with ARP offload,
  \<open>MM_SET_ARPOFFLOAD_REQ\<close>.  A caller that has to sleep is entered in \<open>waiters\<close>.
\<close>

definition cmd_mgr_queue :: "u16 set \<Rightarrow> nat \<Rightarrow> cmd_mgr \<Rightarrow> cmd_mgr \<times> int" where
  "cmd_mgr_queue deferred_ids c m =
     (if mgr_state m = RWNX_CMD_MGR_STATE_CRASHED then (set_result c (- EPIPE) m, - EPIPE)
      else if cmds m \<noteq> [] \<and> queue_sz m = max_queue_sz m then (set_result c (- ENOMEM) m, - ENOMEM)
      else
        let busy = (cmds m \<noteq> [] \<and> cmd_flags (cmd_at m (last (cmds m))) AND waiting_flags \<noteq> 0);
            m = (if busy then upd_cmd c (set_flag RWNX_CMD_FLAG_WAIT_PUSH) m else m);
            m = enlist c m;
            special = (msg_id (the (a2e_msg (cmd_at m c))) \<in> deferred_ids);
            m = (if special then upd_cmd c (set_flag RWNX_CMD_FLAG_WAIT_PUSH) m else m)
        in if \<not> (busy \<or> special)
           then let m = push_msg c m
                in if has_flag RWNX_CMD_FLAG_NONBLOCK (cmd_at m c) then (set_result c 0 m, 0)
                   else (m\<lparr>waiters := c # waiters m\<rparr>, 0)
           else (if queue_sz m \<le> 1 then m\<lparr>cmd_work := True\<rparr> else m, 0))"

text \<open>The caller wakes up: its command was completed, or its time is over.\<close>

definition take_completion :: "nat \<Rightarrow> cmd_mgr \<Rightarrow> cmd_mgr" where
  "take_completion c = upd_cmd c (\<lambda>cmd. cmd\<lparr>completed := completed cmd - 1\<rparr>)"

definition queue_completed :: "nat \<Rightarrow> cmd_mgr \<Rightarrow> cmd_mgr" where
  "queue_completed c m =
     (let m = rwnx_cmd_free c (take_completion c (m\<lparr>waiters := remove1 c (waiters m)\<rparr>))
      in if cmds m \<noteq> [] then m\<lparr>cmd_work := True\<rparr> else m)"

text \<open>Both timeouts run the same code.\<close>

definition time_out :: "nat \<Rightarrow> cmd_mgr \<Rightarrow> cmd_mgr" where
  "time_out c m =
     (let m = m\<lparr>mgr_state := RWNX_CMD_MGR_STATE_CRASHED\<rparr>
      in if \<not> has_flag RWNX_CMD_FLAG_DONE (cmd_at m c) then cmd_complete c (set_result c (- ETIMEDOUT) m) else m)"

definition queue_timed_out :: "nat \<Rightarrow> cmd_mgr \<Rightarrow> cmd_mgr" where
  "queue_timed_out c m = time_out c (m\<lparr>waiters := remove1 c (waiters m)\<rparr>)"

text \<open>
  \<open>cmd_mgr_task_process\<close>: one turn of its loop up to the wait (only the first command is judged),
  and what follows the wait.
\<close>

definition task_turn :: "cmd_mgr \<Rightarrow> cmd_mgr" where
  "task_turn m =
     (case cmds m of
        [] \<Rightarrow> m\<lparr>worker_on := None\<rparr>
      | c # _ \<Rightarrow>
          if has_flag RWNX_CMD_FLAG_WAIT_PUSH (cmd_at m c)
          then (push_msg c (upd_cmd c (clear_flag RWNX_CMD_FLAG_WAIT_PUSH) m))\<lparr>worker_on := Some c\<rparr>
          else m\<lparr>worker_on := None\<rparr>)"

definition task_start :: "cmd_mgr \<Rightarrow> cmd_mgr" where
  "task_start m = task_turn (m\<lparr>cmd_work := False\<rparr>)"

definition task_completed :: "nat \<Rightarrow> cmd_mgr \<Rightarrow> cmd_mgr" where
  "task_completed c m = task_turn (rwnx_cmd_free c (take_completion c (m\<lparr>worker_on := None\<rparr>)))"

definition task_timed_out :: "nat \<Rightarrow> cmd_mgr \<Rightarrow> cmd_mgr" where
  "task_timed_out c m = task_turn (time_out c (m\<lparr>worker_on := None\<rparr>))"

definition cmd_mgr_llind :: "nat \<Rightarrow> cmd_mgr \<Rightarrow> cmd_mgr" where
  "cmd_mgr_llind c m =
     (if \<exists>cur \<in> set (cmds m). cmd_tkn (cmd_at m cur) = cmd_tkn (cmd_at m c)
      then let m = upd_cmd c (clear_flag RWNX_CMD_FLAG_WAIT_ACK) m
           in if RWNX_CMD_WAIT_COMPLETE (cmd_flags (cmd_at m c)) then cmd_complete c m else m
      else m)"

text \<open>
  \<open>cmd_mgr_msgind\<close>.  \<open>cb\<close> is the message's callback (\<open>Some 0\<close>: it takes the message for that command;
  no callback: 0).  The callback also runs with no command when none was found; the model keeps
  which command was found.
\<close>

definition cmd_mgr_run_callback :: "(nat option \<Rightarrow> int) option \<Rightarrow> nat option \<Rightarrow> int" where
  "cmd_mgr_run_callback cb c = (case cb of None \<Rightarrow> 0 | Some f \<Rightarrow> f c)"

definition RWNX_CMD_E2AMSG_LEN_MAX :: nat where "RWNX_CMD_E2AMSG_LEN_MAX = 256 * 4"

definition cmd_mgr_msgind :: "u16 \<Rightarrow> u8 list \<Rightarrow> (nat option \<Rightarrow> int) option \<Rightarrow> cmd_mgr \<Rightarrow> cmd_mgr \<times> nat option" where
  "cmd_mgr_msgind mid mparam cb m =
     (case find (\<lambda>c. reqid (cmd_at m c) = mid \<and> has_flag RWNX_CMD_FLAG_WAIT_CFM (cmd_at m c) \<and>
                      cmd_mgr_run_callback cb (Some c) = 0) (cmds m) of
        None \<Rightarrow> (m, None)
      | Some c \<Rightarrow>
          let m = upd_cmd c (clear_flag RWNX_CMD_FLAG_WAIT_CFM) m;
              mparam = take RWNX_CMD_E2AMSG_LEN_MAX mparam;
              m = (case e2a_msg (cmd_at m c) of
                     None \<Rightarrow> m
                   | Some buf \<Rightarrow> upd_cmd c (\<lambda>cmd. cmd\<lparr>e2a_msg := Some (memcpy_at buf 0 mparam)\<rparr>) m)
          in (if RWNX_CMD_WAIT_COMPLETE (cmd_flags (cmd_at m c)) then cmd_complete c m else m, Some c))"

fun drain_list :: "nat list \<Rightarrow> cmd_mgr \<Rightarrow> cmd_mgr" where
  "drain_list [] m = m"
| "drain_list (c # cs) m =
     (let m = m\<lparr>cmds := remove1 c (cmds m), queue_sz := queue_sz m - 1\<rparr>
      in drain_list cs (if has_flag RWNX_CMD_FLAG_NONBLOCK (cmd_at m c) then m else complete c m))"

definition cmd_mgr_drain :: "cmd_mgr \<Rightarrow> cmd_mgr" where
  "cmd_mgr_drain m = drain_list (cmds m) m"

text \<open>\<open>next_tkn\<close> and \<open>queue_sz\<close> are not written: the structure is allocated zeroed.\<close>

definition rwnx_cmd_mgr_init :: "cmd_mgr \<Rightarrow> cmd_mgr" where
  "rwnx_cmd_mgr_init m =
     m\<lparr>cmds := [], mgr_state := RWNX_CMD_MGR_STATE_INITED, max_queue_sz := RWNX_CMD_MAX_QUEUED\<rparr>"

subsection \<open>Sending a message\<close>

text \<open>
  \<open>rwnx_send_msg\<close> with the bus up; when the caller wants the answer (\<open>cfm\<close>) it first waits until the
  queue is empty or crashed.  No free command: a null pointer is used.
\<close>

definition may_send :: "u8 list option \<Rightarrow> cmd_mgr \<Rightarrow> bool" where
  "may_send cfm m \<longleftrightarrow> cfm = None \<or> mgr_state m = RWNX_CMD_MGR_STATE_CRASHED \<or> cmds m = []"

definition prepare_cmd :: "lmac_msg \<Rightarrow> bool \<Rightarrow> u16 \<Rightarrow> u8 list option \<Rightarrow> rwnx_cmd \<Rightarrow> rwnx_cmd" where
  "prepare_cmd msg reqcfm rq cfm cmd =
     (let cmd = cmd\<lparr>cmd_result := - EINTR, cmd_id := msg_id msg, reqid := rq, a2e_msg := Some msg, e2a_msg := cfm\<rparr>
      in if reqcfm then clear_flag RWNX_CMD_FLAG_WAIT_ACK (set_flag RWNX_CMD_FLAG_REQ_CFM cmd) else cmd)"

text \<open>\<open>rwnx_send_msg1\<close>: no wait for an empty queue, a deferring variant, and no message without \<open>reqcfm\<close>.\<close>

definition queue_new :: "bool \<Rightarrow> u16 set \<Rightarrow> nat \<Rightarrow> cmd_mgr \<Rightarrow> cmd_mgr" where
  "queue_new defer deferred_ids c m =
     (let (m, ret) = (if defer then cmd_mgr_queue_force_defer c m else cmd_mgr_queue deferred_ids c m)
      in if ret \<noteq> 0 then rwnx_cmd_free c m else m)"

definition rwnx_send_msg ::
  "bool \<Rightarrow> u16 set \<Rightarrow> lmac_msg \<Rightarrow> bool \<Rightarrow> u16 \<Rightarrow> u8 list option \<Rightarrow> cmd_mgr \<Rightarrow> cmd_mgr option" where
  "rwnx_send_msg bus_down deferred_ids msg reqcfm rq cfm m =
     (if bus_down then Some m
      else case rwnx_cmd_malloc m of
        (None, m) \<Rightarrow> None
      | (Some c, m) \<Rightarrow>
          let m = upd_cmd c (prepare_cmd msg reqcfm rq cfm) m in
          if reqcfm then Some (queue_new False deferred_ids c m)
          else Some (rwnx_cmd_free c (m\<lparr>bus_msgs := bus_msgs m @ [msg]\<rparr>)))"

definition rwnx_send_msg1 ::
  "u16 set \<Rightarrow> lmac_msg \<Rightarrow> bool \<Rightarrow> u16 \<Rightarrow> u8 list option \<Rightarrow> bool \<Rightarrow> cmd_mgr \<Rightarrow> cmd_mgr option" where
  "rwnx_send_msg1 deferred_ids msg reqcfm rq cfm defer m =
     (case rwnx_cmd_malloc m of
        (None, m) \<Rightarrow> None
      | (Some c, m) \<Rightarrow>
          let m = upd_cmd c (prepare_cmd msg reqcfm rq cfm) m in
          if reqcfm then Some (queue_new defer deferred_ids c m) else Some (rwnx_cmd_free c m))"

subsection \<open>Flags are bits\<close>

lemmas flag_defs = RWNX_CMD_FLAG_NONBLOCK_def RWNX_CMD_FLAG_REQ_CFM_def RWNX_CMD_FLAG_WAIT_PUSH_def
  RWNX_CMD_FLAG_WAIT_ACK_def RWNX_CMD_FLAG_WAIT_CFM_def RWNX_CMD_FLAG_DONE_def

lemma flag_pow:
  "RWNX_CMD_FLAG_NONBLOCK = 2 ^ 0" "RWNX_CMD_FLAG_REQ_CFM = 2 ^ 1" "RWNX_CMD_FLAG_WAIT_PUSH = 2 ^ 2"
  "RWNX_CMD_FLAG_WAIT_ACK = 2 ^ 3" "RWNX_CMD_FLAG_WAIT_CFM = 2 ^ 4" "RWNX_CMD_FLAG_DONE = 2 ^ 5"
  by (simp_all add: flag_defs)

abbreviation "nonblock cmd \<equiv> bit (cmd_flags cmd) 0"
abbreviation "req_cfm cmd \<equiv> bit (cmd_flags cmd) 1"
abbreviation "wait_push cmd \<equiv> bit (cmd_flags cmd) 2"
abbreviation "wait_ack cmd \<equiv> bit (cmd_flags cmd) 3"
abbreviation "wait_cfm cmd \<equiv> bit (cmd_flags cmd) 4"
abbreviation "is_done cmd \<equiv> bit (cmd_flags cmd) 5"

lemma has_flag_bit [simp]:
  "has_flag RWNX_CMD_FLAG_NONBLOCK cmd = nonblock cmd" "has_flag RWNX_CMD_FLAG_REQ_CFM cmd = req_cfm cmd"
  "has_flag RWNX_CMD_FLAG_WAIT_PUSH cmd = wait_push cmd" "has_flag RWNX_CMD_FLAG_WAIT_ACK cmd = wait_ack cmd"
  "has_flag RWNX_CMD_FLAG_WAIT_CFM cmd = wait_cfm cmd" "has_flag RWNX_CMD_FLAG_DONE cmd = is_done cmd"
  unfolding has_flag_def flag_pow by (simp_all only: and_exp_eq_0_iff_not_bit not_not)

lemma flags_set:
  "cmd_flags (set_flag f cmd) = cmd_flags cmd OR f" "cmd_flags (clear_flag f cmd) = cmd_flags cmd AND NOT f"
  by (simp_all add: set_flag_def clear_flag_def)

lemma set_flag_bit [simp]:
  "bit (cmd_flags (set_flag RWNX_CMD_FLAG_REQ_CFM cmd)) n = (n = 1 \<or> bit (cmd_flags cmd) n)"
  "bit (cmd_flags (set_flag RWNX_CMD_FLAG_WAIT_PUSH cmd)) n = (n = 2 \<or> bit (cmd_flags cmd) n)"
  "bit (cmd_flags (set_flag RWNX_CMD_FLAG_WAIT_CFM cmd)) n = (n = 4 \<or> bit (cmd_flags cmd) n)"
  "bit (cmd_flags (set_flag RWNX_CMD_FLAG_DONE cmd)) n = (n = 5 \<or> bit (cmd_flags cmd) n)"
  unfolding flags_set flag_pow by - (rule bit_or_pow, simp)+

lemma clear_flag_bit [simp]:
  "bit (cmd_flags (clear_flag RWNX_CMD_FLAG_WAIT_PUSH cmd)) n = (n \<noteq> 2 \<and> bit (cmd_flags cmd) n)"
  "bit (cmd_flags (clear_flag RWNX_CMD_FLAG_WAIT_ACK cmd)) n = (n \<noteq> 3 \<and> bit (cmd_flags cmd) n)"
  "bit (cmd_flags (clear_flag RWNX_CMD_FLAG_WAIT_CFM cmd)) n = (n \<noteq> 4 \<and> bit (cmd_flags cmd) n)"
  unfolding flags_set flag_pow by - (rule bit_clear_pow)+

lemma wait_complete_bit [simp]: "RWNX_CMD_WAIT_COMPLETE f \<longleftrightarrow> \<not> bit f 3 \<and> \<not> bit f 4"
  unfolding RWNX_CMD_WAIT_COMPLETE_def flag_pow and_or_zero by (simp only: and_exp_eq_0_iff_not_bit)

lemma waiting_flags_bit [simp]: "f AND waiting_flags = 0 \<longleftrightarrow> \<not> bit f 3 \<and> \<not> bit f 2 \<and> \<not> bit f 4"
  unfolding waiting_flags_def flag_pow and_or_zero by (simp only: and_exp_eq_0_iff_not_bit conj_assoc)


lemma set_clear_frame [simp]:
  "reqid (set_flag f cmd) = reqid cmd" "a2e_msg (set_flag f cmd) = a2e_msg cmd" "e2a_msg (set_flag f cmd) = e2a_msg cmd"
  "completed (set_flag f cmd) = completed cmd" "cmd_used (set_flag f cmd) = cmd_used cmd" "cmd_tkn (set_flag f cmd) = cmd_tkn cmd"
  "reqid (clear_flag f cmd) = reqid cmd" "a2e_msg (clear_flag f cmd) = a2e_msg cmd" "e2a_msg (clear_flag f cmd) = e2a_msg cmd"
  "completed (clear_flag f cmd) = completed cmd" "cmd_used (clear_flag f cmd) = cmd_used cmd" "cmd_tkn (clear_flag f cmd) = cmd_tkn cmd"
  by (simp_all add: set_flag_def clear_flag_def)

lemma upd_cmd_frame [simp]:
  "mgr_state (upd_cmd c f m) = mgr_state m" "next_tkn (upd_cmd c f m) = next_tkn m" "queue_sz (upd_cmd c f m) = queue_sz m"
  "max_queue_sz (upd_cmd c f m) = max_queue_sz m" "cmds (upd_cmd c f m) = cmds m" "cmd_work (upd_cmd c f m) = cmd_work m"
  "waiters (upd_cmd c f m) = waiters m" "worker_on (upd_cmd c f m) = worker_on m" "bus_msgs (upd_cmd c f m) = bus_msgs m"
  "length (cmd_array (upd_cmd c f m)) = length (cmd_array m)"
  by (simp_all add: upd_cmd_def)

lemma cmd_at_upd [simp]:
  "c < length (cmd_array m) \<Longrightarrow> cmd_at (upd_cmd c f m) d = (if d = c then f (cmd_at m c) else cmd_at m d)"
  by (simp add: upd_cmd_def)


text \<open>Operations that touch one command of the array.\<close>

definition only_at :: "nat \<Rightarrow> cmd_mgr \<Rightarrow> cmd_mgr \<Rightarrow> bool" where
  "only_at c m m' \<longleftrightarrow> length (cmd_array m') = length (cmd_array m) \<and> (\<forall>k. k \<noteq> c \<longrightarrow> cmd_at m' k = cmd_at m k)"

lemma only_at_refl [simp]: "only_at c m m"
  by (simp add: only_at_def)

lemma only_at_upd [simp]: "only_at c m (upd_cmd c f m') = only_at c m m'"
  by (auto simp: only_at_def upd_cmd_def)

lemma only_at_fields [simp]:
  "only_at c m (m'\<lparr>cmds := a\<rparr>) = only_at c m m'" "only_at c m (m'\<lparr>queue_sz := b\<rparr>) = only_at c m m'"
  "only_at c m (m'\<lparr>next_tkn := b\<rparr>) = only_at c m m'" "only_at c m (m'\<lparr>waiters := a\<rparr>) = only_at c m m'"
  "only_at c m (m'\<lparr>worker_on := w\<rparr>) = only_at c m m'" "only_at c m (m'\<lparr>cmd_work := q\<rparr>) = only_at c m m'"
  "only_at c m (m'\<lparr>bus_msgs := bs\<rparr>) = only_at c m m'" "only_at c m (m'\<lparr>mgr_state := st\<rparr>) = only_at c m m'"
  by (simp_all add: only_at_def)

lemma only_at_ops [simp]:
  "only_at c m (enlist c m') = only_at c m m'" "only_at c m (push_msg c m') = only_at c m m'"
  "only_at c m (set_result c r m') = only_at c m m'" "only_at c m (complete c m') = only_at c m m'"
  "only_at c m (rwnx_cmd_free c m') = only_at c m m'" "only_at c m (take_completion c m') = only_at c m m'"
  "only_at c m (cmd_complete c m') = only_at c m m'"
  by (simp_all add: enlist_def push_msg_def set_result_def complete_def rwnx_cmd_free_def take_completion_def
      cmd_complete_def Let_def)

lemma array_length [simp]:
  "length (cmd_array (enlist c m)) = length (cmd_array m)" "length (cmd_array (push_msg c m)) = length (cmd_array m)"
  "length (cmd_array (rwnx_cmd_free c m)) = length (cmd_array m)" "length (cmd_array (cmd_complete c m)) = length (cmd_array m)"
  "length (cmd_array (take_completion c m)) = length (cmd_array m)" "length (cmd_array (set_result c r m)) = length (cmd_array m)"
  by (simp_all add: enlist_def push_msg_def set_result_def complete_def rwnx_cmd_free_def take_completion_def
      cmd_complete_def Let_def)

lemma only_at_array:
  assumes "only_at c m m'"
  shows "cmd_array m' = (cmd_array m)[c := cmd_at m' c]"
proof (rule nth_equalityI)
  show "length (cmd_array m') = length ((cmd_array m)[c := cmd_at m' c])" using assms by (simp add: only_at_def)
  fix k assume "k < length (cmd_array m')"
  then show "cmd_array m' ! k = (cmd_array m)[c := cmd_at m' c] ! k"
    using assms by (cases "k = c") (auto simp: only_at_def)
qed

subsection \<open>The invariant\<close>

text \<open>
  \<open>owners\<close>: the commands on which somebody sleeps.  \<open>cmd_basic\<close> holds always: the queue is counted
  and bounded; every queued command awaits its confirmation and has its message exactly while it
  waits to be pushed; all but the first wait to be pushed; an owner's command is either in flight
  (queued, pushed, not completed) or completed.  \<open>cmd_live\<close> holds until the manager crashes: what is
  in flight has an owner, and a first command that waits to be pushed has somebody who will push it.
\<close>

definition owners :: "cmd_mgr \<Rightarrow> nat set" where
  "owners m = set (waiters m) \<union> set_option (worker_on m)"

definition cmd_ok :: "cmd_mgr \<Rightarrow> nat \<Rightarrow> bool" where
  "cmd_ok m c \<longleftrightarrow> \<not> nonblock (cmd_at m c) \<and> \<not> wait_ack (cmd_at m c) \<and>
     (\<not> cmd_used (cmd_at m c) \<longrightarrow> \<not> wait_push (cmd_at m c) \<and> c \<notin> set (cmds m) \<and> c \<notin> owners m) \<and>
     (c \<in> set (cmds m) \<longrightarrow> wait_cfm (cmd_at m c) \<and> completed (cmd_at m c) = 0 \<and>
        (a2e_msg (cmd_at m c) \<noteq> None \<longleftrightarrow> wait_push (cmd_at m c))) \<and>
     (c \<in> set (tl (cmds m)) \<longrightarrow> wait_push (cmd_at m c)) \<and>
     (c \<in> owners m \<longrightarrow> \<not> wait_push (cmd_at m c) \<and> (c \<notin> set (cmds m) \<longrightarrow> 0 < completed (cmd_at m c)))"

definition cmd_basic :: "cmd_mgr \<Rightarrow> bool" where
  "cmd_basic m \<longleftrightarrow> length (cmd_array m) = 20 \<and> distinct (cmds m) \<and> set (cmds m) \<subseteq> {..<20} \<and>
     unat (queue_sz m) = length (cmds m) \<and> length (cmds m) \<le> 16 \<and> max_queue_sz m = 16 \<and>
     distinct (waiters m) \<and> owners m \<subseteq> {..<20} \<and> (\<forall>c. worker_on m = Some c \<longrightarrow> c \<notin> set (waiters m)) \<and>
     (\<forall>c<20. cmd_ok m c)"

definition cmd_live :: "cmd_mgr \<Rightarrow> bool" where
  "cmd_live m \<longleftrightarrow> (\<forall>c \<in> set (cmds m). \<not> wait_push (cmd_at m c) \<longrightarrow> c \<in> owners m) \<and>
     (cmds m \<noteq> [] \<and> wait_push (cmd_at m (hd (cmds m))) \<longrightarrow> cmd_work m \<or> owners m \<noteq> {})"

definition cmd_inv :: "cmd_mgr \<Rightarrow> bool" where
  "cmd_inv m \<longleftrightarrow> cmd_basic m \<and> (mgr_state m \<noteq> RWNX_CMD_MGR_STATE_CRASHED \<longrightarrow> cmd_live m)"

lemma basic_fields [simp]:
  "cmd_basic (m\<lparr>cmd_work := q\<rparr>) = cmd_basic m" "cmd_basic (m\<lparr>mgr_state := st\<rparr>) = cmd_basic m"
  "cmd_basic (m\<lparr>bus_msgs := bs\<rparr>) = cmd_basic m"
  "owners (m\<lparr>cmd_work := q\<rparr>) = owners m" "owners (m\<lparr>mgr_state := st\<rparr>) = owners m"
  "owners (m\<lparr>bus_msgs := bs\<rparr>) = owners m"
  by (simp_all add: cmd_basic_def cmd_ok_def owners_def)

lemma find_SomeD_set: "find P xs = Some x \<Longrightarrow> x \<in> set xs \<and> P x"
  by (auto simp: find_Some_iff)

lemma set_tl: "set (tl xs) \<subseteq> set xs"
  by (cases xs) auto

lemma tl_remove1: "set (tl (remove1 c xs)) \<subseteq> set (tl xs)"
proof (cases xs)
  case (Cons x ys)
  then show ?thesis using set_remove1_subset [of c ys] by (auto intro: list.set_sel(2) [of ys] dest: list.set_sel(2) [rotated])
qed simp

text \<open>Taking a command off the queue.\<close>

lemma basic_remove:
  assumes b: "cmd_basic m" and c: "c \<in> set (cmds m)"
    and m': "cmds m' = remove1 c (cmds m)" "queue_sz m' = queue_sz m - 1" "cmd_array m' = (cmd_array m)[c := x]"
      "waiters m' = waiters m" "worker_on m' = worker_on m" "max_queue_sz m' = max_queue_sz m"
    and x: "cmd_used x" "\<not> nonblock x" "\<not> wait_ack x" "c \<in> owners m \<longrightarrow> \<not> wait_push x \<and> 0 < completed x"
  shows "cmd_basic m'"
proof -
  have d: "distinct (cmds m)" "c < 20" "length (cmd_array m) = 20" using b c by (auto simp: cmd_basic_def)
  have s: "set (cmds m') = set (cmds m) - {c}" using d by (simp add: m'(1))
  have o: "owners m' = owners m" by (simp add: owners_def m')
  have q: "unat (queue_sz m') = length (cmds m')"
  proof -
    have "unat (queue_sz m) = length (cmds m)" "0 < length (cmds m)" using b c by (auto simp: cmd_basic_def)
    moreover from this have "queue_sz m \<noteq> 0" by auto
    ultimately show ?thesis using c by (simp add: m'(1,2) unat_minus_one length_remove1)
  qed
  have "cmd_ok m' k" if "k < 20" for k
  proof (cases "k = c")
    case True
    then show ?thesis using x d tl_remove1 [of c "cmds m"] s set_tl [of "cmds m'"]
      by (auto simp: cmd_ok_def m'(3) o)
  next
    case False
    have "cmd_ok m k" using b that by (simp add: cmd_basic_def)
    then show ?thesis using False s o tl_remove1 [of c "cmds m"] by (auto simp: cmd_ok_def m'(1,3))
  qed
  then show ?thesis using b q d s o by (auto simp: cmd_basic_def m' length_remove1)
qed

lemma live_remove:
  assumes l: "cmd_live m" and c: "c \<in> set (cmds m)" and d: "distinct (cmds m)" "c < length (cmd_array m)"
    and m': "cmds m' = remove1 c (cmds m)" "cmd_array m' = (cmd_array m)[c := x]"
      "waiters m' = waiters m" "worker_on m' = worker_on m" "cmd_work m' = cmd_work m"
  shows "cmd_live m'"
proof -
  have s: "set (cmds m') = set (cmds m) - {c}" using d by (simp add: m'(1))
  have o: "owners m' = owners m" by (simp add: owners_def m')
  have "cmd_work m \<or> owners m \<noteq> {}" if "cmds m' \<noteq> []" "wait_push (cmd_at m' (hd (cmds m')))"
  proof (cases "hd (cmds m) = c")
    case True
    then show ?thesis using l c by (cases "wait_push (cmd_at m c)") (auto simp: cmd_live_def)
  next
    case False
    then have "hd (cmds m') = hd (cmds m)" using c by (cases "cmds m") (auto simp: m'(1))
    then show ?thesis using that False l c by (auto simp: cmd_live_def m'(2))
  qed
  then show ?thesis using l s o by (auto simp: cmd_live_def m'(2,5))
qed


text \<open>Queueing a command that is in nobody's hands.\<close>

definition fresh_cmd :: "cmd_mgr \<Rightarrow> nat \<Rightarrow> bool" where
  "fresh_cmd m c \<longleftrightarrow> c < 20 \<and> c \<notin> set (cmds m) \<and> c \<notin> owners m \<and> cmd_used (cmd_at m c) \<and>
     req_cfm (cmd_at m c) \<and> a2e_msg (cmd_at m c) \<noteq> None \<and> \<not> wait_push (cmd_at m c)"

text \<open>
  The effect of both queueing functions on success: \<open>c\<close> is appended, awaiting its confirmation; it
  waits to be pushed (the queue was not empty, or deferral was asked for) or its caller sleeps on it.
\<close>

lemma basic_append:
  assumes b: "cmd_basic m" and f: "fresh_cmd m c" and q: "length (cmds m) < 16"
    and m': "cmds m' = cmds m @ [c]" "queue_sz m' = queue_sz m + 1" "cmd_array m' = (cmd_array m)[c := x]"
      "waiters m' = (if wait_push x then waiters m else c # waiters m)" "worker_on m' = worker_on m"
      "max_queue_sz m' = max_queue_sz m"
    and x: "cmd_used x" "\<not> nonblock x" "\<not> wait_ack x" "wait_cfm x" "completed x = 0"
      "a2e_msg x \<noteq> None \<longleftrightarrow> wait_push x" "cmds m \<noteq> [] \<longrightarrow> wait_push x"
  shows "cmd_basic m'"
proof -
  have c: "c < 20" "c \<notin> set (cmds m)" "c \<notin> owners m" using f by (simp_all add: fresh_cmd_def)
  have l: "length (cmd_array m) = 20" "unat (queue_sz m) = length (cmds m)" using b by (simp_all add: cmd_basic_def)
  have o: "owners m' = (if wait_push x then owners m else insert c (owners m))" by (simp add: owners_def m')
  have t: "set (tl (cmds m')) = (if cmds m = [] then {} else insert c (set (tl (cmds m))))"
    by (cases "cmds m") (auto simp: m'(1))
  have qs: "unat (queue_sz m') = length (cmds m')"
    using l q by (simp add: m'(1,2)) (subst unat_add_no_overflow, simp_all)
  have "cmd_ok m' k" if "k < 20" for k
  proof (cases "k = c")
    case True
    then show ?thesis using x c l t by (auto simp: cmd_ok_def m'(1,3) o)
  next
    case False
    have "cmd_ok m k" using b that by (simp add: cmd_basic_def)
    moreover have "k \<in> set (tl (cmds m')) \<longleftrightarrow> k \<in> set (tl (cmds m))" using False t by (cases "cmds m") auto
    ultimately show ?thesis using False by (auto simp: cmd_ok_def m'(1,3) o)
  qed
  moreover have "distinct (waiters m') \<and> (\<forall>k. worker_on m' = Some k \<longrightarrow> k \<notin> set (waiters m'))"
    using b c by (auto simp: cmd_basic_def m' owners_def)
  ultimately show ?thesis using b q qs c l o by (auto simp: cmd_basic_def m'(1,3,6))
qed

lemma live_append:
  assumes b: "cmd_basic m" and l: "cmd_live m" and f: "fresh_cmd m c"
    and m': "cmds m' = cmds m @ [c]" "cmd_array m' = (cmd_array m)[c := x]"
      "waiters m' = (if wait_push x then waiters m else c # waiters m)" "worker_on m' = worker_on m"
    and w: "cmd_work m \<longrightarrow> cmd_work m'" "cmds m = [] \<and> wait_push x \<longrightarrow> cmd_work m'"
  shows "cmd_live m'"
proof -
  have c: "c < length (cmd_array m)" "c \<notin> set (cmds m)" using f b by (auto simp: fresh_cmd_def cmd_basic_def)
  have o: "owners m' = (if wait_push x then owners m else insert c (owners m))" by (simp add: owners_def m')
  have at: "k \<in> set (cmds m) \<Longrightarrow> cmd_at m' k = cmd_at m k" for k using c by (auto simp: m'(2) nth_list_update)
  have "cmd_at m' (hd (cmds m')) = (if cmds m = [] then x else cmd_at m (hd (cmds m)))"
    using c at by (cases "cmds m") (auto simp: m'(1,2))
  then show ?thesis using l w c at o by (cases "cmds m") (auto simp: cmd_live_def m'(1,2))
qed


lemma enlist_frame:
  "cmds (enlist c m) = cmds m @ [c]" "queue_sz (enlist c m) = queue_sz m + 1"
  "waiters (enlist c m) = waiters m" "worker_on (enlist c m) = worker_on m" "max_queue_sz (enlist c m) = max_queue_sz m"
  "cmd_work (enlist c m) = cmd_work m" "mgr_state (enlist c m) = mgr_state m"
  by (simp_all add: enlist_def Let_def)

lemma enlist_cmd:
  assumes "c < length (cmd_array m)" "req_cfm (cmd_at m c)" "\<not> nonblock (cmd_at m c)"
  shows "cmd_used (cmd_at (enlist c m) c) = cmd_used (cmd_at m c)" "wait_cfm (cmd_at (enlist c m) c)"
    "n \<noteq> 4 \<Longrightarrow> bit (cmd_flags (cmd_at (enlist c m) c)) n = bit (cmd_flags (cmd_at m c)) n"
    "completed (cmd_at (enlist c m) c) = 0" "a2e_msg (cmd_at (enlist c m) c) = a2e_msg (cmd_at m c)"
  using assms by (simp_all add: enlist_def Let_def)

lemma room_left:
  assumes "cmd_basic m" "cmds m = [] \<or> queue_sz m \<noteq> max_queue_sz m"
  shows "length (cmds m) < 16"
proof -
  have "unat (queue_sz m) = length (cmds m)" "length (cmds m) \<le> 16" "unat (max_queue_sz m) = 16"
    using assms(1) by (simp_all add: cmd_basic_def)
  with assms(2) show ?thesis by (metis le_neq_implies_less list.size(3) word_unat_eq_iff zero_neq_numeral)
qed

lemma force_defer_keeps:
  assumes i: "cmd_inv m" and f: "fresh_cmd m c" and r: "cmd_mgr_queue_force_defer c m = (m', 0)"
  shows "cmd_inv m'"
proof -
  have st: "mgr_state m \<noteq> RWNX_CMD_MGR_STATE_CRASHED" "cmds m = [] \<or> queue_sz m \<noteq> max_queue_sz m"
    using r by (auto simp: cmd_mgr_queue_force_defer_def EPIPE_def ENOMEM_def split: if_splits)
  have b: "cmd_basic m" and l: "cmd_live m" using i st by (simp_all add: cmd_inv_def)
  let ?m = "upd_cmd c (set_flag RWNX_CMD_FLAG_WAIT_PUSH) m"
  have m': "m' = (enlist c ?m)\<lparr>cmd_work := True\<rparr>"
    using r st by (auto simp: cmd_mgr_queue_force_defer_def)
  have c: "c < length (cmd_array m)" "cmd_ok m c" using f b by (simp_all add: fresh_cmd_def cmd_basic_def)
  note q = room_left [OF b st(2)]
  have x: "cmd_used (cmd_at m' c)" "wait_push (cmd_at m' c)" "\<not> nonblock (cmd_at m' c)" "\<not> wait_ack (cmd_at m' c)"
      "wait_cfm (cmd_at m' c)" "completed (cmd_at m' c) = 0" "a2e_msg (cmd_at m' c) \<noteq> None"
    using c f enlist_cmd [of c ?m] by (auto simp: m' fresh_cmd_def cmd_ok_def)
  have fr: "cmds m' = cmds m @ [c]" "queue_sz m' = queue_sz m + 1" "cmd_array m' = (cmd_array m)[c := cmd_at m' c]"
      "waiters m' = waiters m" "worker_on m' = worker_on m" "max_queue_sz m' = max_queue_sz m" "cmd_work m'"
    using only_at_array [of c m m'] enlist_frame [of c ?m] by (simp_all add: m')
  have "cmd_basic m'" by (rule basic_append [OF b f q fr(1,2,3)]) (use fr x in simp_all)
  moreover have "cmd_live m'" by (rule live_append [OF b l f fr(1,3)]) (use fr x in simp_all)
  ultimately show ?thesis by (simp add: cmd_inv_def)
qed


lemma push_msg_frame [simp]:
  "cmds (push_msg c m) = cmds m" "queue_sz (push_msg c m) = queue_sz m" "waiters (push_msg c m) = waiters m"
  "worker_on (push_msg c m) = worker_on m" "max_queue_sz (push_msg c m) = max_queue_sz m"
  "cmd_work (push_msg c m) = cmd_work m" "mgr_state (push_msg c m) = mgr_state m"
  by (simp_all add: push_msg_def)

lemma push_msg_cmd:
  "c < length (cmd_array m) \<Longrightarrow> cmd_at (push_msg c m) c = (cmd_at m c)\<lparr>a2e_msg := None\<rparr>"
  by (simp add: push_msg_def upd_cmd_def)

lemma queue_keeps:
  assumes i: "cmd_inv m" and f: "fresh_cmd m c" and r: "cmd_mgr_queue D c m = (m', 0)"
  shows "cmd_inv m'"
proof -
  have st: "mgr_state m \<noteq> RWNX_CMD_MGR_STATE_CRASHED" "cmds m = [] \<or> queue_sz m \<noteq> max_queue_sz m"
    using r by (auto simp: cmd_mgr_queue_def EPIPE_def ENOMEM_def split: if_splits)
  have b: "cmd_basic m" and l: "cmd_live m" using i st by (simp_all add: cmd_inv_def)
  have c: "c < length (cmd_array m)" "cmd_ok m c" "req_cfm (cmd_at m c)" "cmd_used (cmd_at m c)"
      "\<not> wait_push (cmd_at m c)" "a2e_msg (cmd_at m c) \<noteq> None"
    using f b by (simp_all add: fresh_cmd_def cmd_basic_def)
  note q = room_left [OF b st(2)]
  define busy where "busy = (cmds m \<noteq> [] \<and> cmd_flags (cmd_at m (last (cmds m))) AND waiting_flags \<noteq> 0)"
  have busy: "busy = (cmds m \<noteq> [])"
  proof (cases "cmds m = []")
    case False
    then have "last (cmds m) < 20" "last (cmds m) \<in> set (cmds m)" using b last_in_set by (auto simp: cmd_basic_def)
    then have "wait_cfm (cmd_at m (last (cmds m)))" using b by (simp add: cmd_basic_def cmd_ok_def)
    then show ?thesis using False by (simp add: busy_def)
  qed (simp add: busy_def)
  define m1 where "m1 = (if busy then upd_cmd c (set_flag RWNX_CMD_FLAG_WAIT_PUSH) m else m)"
  define special where "special = (msg_id (the (a2e_msg (cmd_at (enlist c m1) c))) \<in> D)"
  define m2 where "m2 = (if special then upd_cmd c (set_flag RWNX_CMD_FLAG_WAIT_PUSH) (enlist c m1) else enlist c m1)"
  have c1: "c < length (cmd_array m1)" "req_cfm (cmd_at m1 c)" "\<not> nonblock (cmd_at m1 c)" "\<not> wait_ack (cmd_at m1 c)"
      "wait_push (cmd_at m1 c) = busy" "cmd_used (cmd_at m1 c)" "a2e_msg (cmd_at m1 c) \<noteq> None" "only_at c m m1"
    using c by (auto simp: cmd_ok_def m1_def)
  have x2: "cmd_used (cmd_at m2 c)" "wait_push (cmd_at m2 c) = (busy \<or> special)" "\<not> nonblock (cmd_at m2 c)"
      "\<not> wait_ack (cmd_at m2 c)" "wait_cfm (cmd_at m2 c)" "completed (cmd_at m2 c) = 0" "a2e_msg (cmd_at m2 c) \<noteq> None"
    using enlist_cmd [OF c1(1-3)] c1 by (simp_all add: m2_def)
  have f2: "c < length (cmd_array m2)" "only_at c m m2" "cmds m2 = cmds m @ [c]" "queue_sz m2 = queue_sz m + 1"
      "waiters m2 = waiters m" "worker_on m2 = worker_on m" "max_queue_sz m2 = max_queue_sz m" "cmd_work m2 = cmd_work m"
      "mgr_state m2 = mgr_state m"
    using c1 enlist_frame [of c m1] by (simp_all add: m2_def) (simp_all add: m1_def)
  have m': "m' = (if \<not> (busy \<or> special) then (push_msg c m2)\<lparr>waiters := c # waiters m\<rparr>
      else if queue_sz m2 \<le> 1 then m2\<lparr>cmd_work := True\<rparr> else m2)"
  proof -
    have st': "(mgr_state m = RWNX_CMD_MGR_STATE_CRASHED) = False" "(cmds m \<noteq> [] \<and> queue_sz m = max_queue_sz m) = False"
      using st by auto
    have "cmd_mgr_queue D c m =
      (if \<not> (busy \<or> special)
       then if has_flag RWNX_CMD_FLAG_NONBLOCK (cmd_at (push_msg c m2) c) then (set_result c 0 (push_msg c m2), 0)
            else ((push_msg c m2)\<lparr>waiters := c # waiters (push_msg c m2)\<rparr>, 0)
       else (if queue_sz m2 \<le> 1 then m2\<lparr>cmd_work := True\<rparr> else m2, 0))"
      unfolding cmd_mgr_queue_def Let_def st' if_False busy_def [symmetric] m1_def [symmetric]
        special_def [symmetric] m2_def [symmetric] by (rule refl)
    then show ?thesis using r x2(3) push_msg_cmd [OF f2(1)] f2(5) by (auto split: if_splits)
  qed
  have fr: "cmds m' = cmds m @ [c]" "queue_sz m' = queue_sz m + 1" "cmd_array m' = (cmd_array m)[c := cmd_at m' c]"
      "wait_push (cmd_at m' c) = (busy \<or> special)"
      "waiters m' = (if wait_push (cmd_at m' c) then waiters m else c # waiters m)" "worker_on m' = worker_on m"
      "max_queue_sz m' = max_queue_sz m" "cmd_work m \<longrightarrow> cmd_work m'"
    using only_at_array [of c m m'] f2 x2(2) push_msg_cmd [OF f2(1)] by (auto simp: m')
  have x: "cmd_used (cmd_at m' c)" "\<not> nonblock (cmd_at m' c)" "\<not> wait_ack (cmd_at m' c)" "wait_cfm (cmd_at m' c)"
      "completed (cmd_at m' c) = 0" "a2e_msg (cmd_at m' c) \<noteq> None \<longleftrightarrow> busy \<or> special"
    using x2 push_msg_cmd [OF f2(1)] by (auto simp: m')
  have "queue_sz m + 1 \<le> 1" if "cmds m = []"
  proof -
    have "unat (queue_sz m) = 0" using b that by (simp add: cmd_basic_def)
    then show ?thesis by (metis add.left_neutral order_refl unat_eq_zero)
  qed
  then have w: "cmds m = [] \<and> wait_push (cmd_at m' c) \<longrightarrow> cmd_work m'"
    using f2 fr(4) by (auto simp: m')
  have "cmd_basic m'" by (rule basic_append [OF b f q fr(1-3,5-7)]) (use x fr busy in auto)
  moreover have "cmd_live m'" by (rule live_append [OF b l f fr(1,3,5,6,8) w])
  ultimately show ?thesis by (simp add: cmd_inv_def)
qed


text \<open>
  Changing one command without moving it, and handing it over: whoever owned it may let go of it, and
  it may become owned.
\<close>

lemma basic_change:
  assumes b: "cmd_basic m" and c: "c < 20"
    and m': "cmds m' = cmds m" "queue_sz m' = queue_sz m" "cmd_array m' = (cmd_array m)[c := x]" "max_queue_sz m' = max_queue_sz m"
      "distinct (waiters m')" "\<forall>k. worker_on m' = Some k \<longrightarrow> k \<notin> set (waiters m')"
      "owners m' - {c} = owners m - {c}" 
    and ok: "cmd_ok m' c"
  shows "cmd_basic m'"
proof -
  have "cmd_ok m' k" if "k < 20" for k
  proof (cases "k = c")
    case False
    then have "k \<in> owners m' \<longleftrightarrow> k \<in> owners m" using m'(7) by blast
    moreover have "cmd_ok m k" using b that by (simp add: cmd_basic_def)
    ultimately show ?thesis using False by (simp add: cmd_ok_def m'(1,3))
  qed (use ok in simp)
  moreover have "owners m' \<subseteq> {..<20}" using m'(7) b c by (auto simp: cmd_basic_def)
  ultimately show ?thesis using b m' by (simp add: cmd_basic_def)
qed

lemma rwnx_free_take_frame [simp]:
  "cmds (rwnx_cmd_free c m) = cmds m" "queue_sz (rwnx_cmd_free c m) = queue_sz m" "waiters (rwnx_cmd_free c m) = waiters m"
  "worker_on (rwnx_cmd_free c m) = worker_on m" "max_queue_sz (rwnx_cmd_free c m) = max_queue_sz m"
  "cmd_work (rwnx_cmd_free c m) = cmd_work m" "mgr_state (rwnx_cmd_free c m) = mgr_state m"
  "cmds (take_completion c m) = cmds m" "queue_sz (take_completion c m) = queue_sz m" "waiters (take_completion c m) = waiters m"
  "worker_on (take_completion c m) = worker_on m" "max_queue_sz (take_completion c m) = max_queue_sz m"
  "cmd_work (take_completion c m) = cmd_work m" "mgr_state (take_completion c m) = mgr_state m"
  by (simp_all add: rwnx_cmd_free_def take_completion_def)

text \<open>An owner lets go of its completed command and frees it.\<close>

lemma release:
  assumes b: "cmd_basic m" and c: "c \<in> owners m" "0 < completed (cmd_at m c)"
    and m': "m' = rwnx_cmd_free c (take_completion c (m\<lparr>waiters := ws, worker_on := w\<rparr>))"
    and o: "distinct ws" "\<forall>k. w = Some k \<longrightarrow> k \<notin> set ws" "set ws \<union> set_option w = owners m - {c}"
  shows "cmd_basic m' \<and> owners m' = owners m - {c} \<and> c \<notin> set (cmds m) \<and> (\<forall>k \<in> set (cmds m). cmd_at m' k = cmd_at m k)"
proof -
  have k: "c < 20" "cmd_ok m c" "length (cmd_array m) = 20" using b c by (auto simp: cmd_basic_def)
  have n: "c \<notin> set (cmds m)" using k(2) c by (auto simp: cmd_ok_def)
  have np: "\<not> wait_push (cmd_at m c)" "\<not> nonblock (cmd_at m c)" "\<not> wait_ack (cmd_at m c)"
    using k(2) c by (auto simp: cmd_ok_def)
  have o': "owners m' = owners m - {c}" using o(3) by (simp add: m' owners_def)
  have "cmd_ok m' c" using k n np o' set_tl [of "cmds m"]
    by (auto simp: cmd_ok_def m' rwnx_cmd_free_def take_completion_def)
  then have "cmd_basic m'"
    by (rule basic_change [OF b k(1), rotated 7])
      (use o o' only_at_array [of c m m'] in \<open>auto simp: m'\<close>)
  with o' n show ?thesis using k by (auto simp: m' rwnx_cmd_free_def take_completion_def)
qed


lemma queue_completed_keeps:
  assumes i: "cmd_inv m" and c: "c \<in> set (waiters m)" "0 < completed (cmd_at m c)"
  shows "cmd_inv (queue_completed c m)"
proof -
  have b: "cmd_basic m" using i by (simp add: cmd_inv_def)
  let ?m = "rwnx_cmd_free c (take_completion c (m\<lparr>waiters := remove1 c (waiters m), worker_on := worker_on m\<rparr>))"
  have q: "queue_completed c m = (if cmds ?m \<noteq> [] then ?m\<lparr>cmd_work := True\<rparr> else ?m)"
    by (simp add: queue_completed_def Let_def)
  have "c \<in> owners m" "worker_on m \<noteq> Some c" "distinct (waiters m)" using b c(1) by (auto simp: owners_def cmd_basic_def)
  then have r: "cmd_basic ?m" "owners ?m = owners m - {c}" "c \<notin> set (cmds m)" "\<forall>k \<in> set (cmds m). cmd_at ?m k = cmd_at m k"
    using release [OF b _ c(2) refl, of "remove1 c (waiters m)" "worker_on m"] b
    by (auto simp: cmd_basic_def owners_def)
  have "cmd_basic (queue_completed c m)" using r(1) by (simp add: q)
  moreover have "cmd_live (queue_completed c m)" if "cmd_live m"
    using that r by (auto simp: q cmd_live_def owners_def)
  moreover have "mgr_state (queue_completed c m) = mgr_state m" by (simp add: q)
  ultimately show ?thesis using i by (simp add: cmd_inv_def)
qed

lemma complete_frame [simp]:
  "cmds (complete c m) = cmds m" "queue_sz (complete c m) = queue_sz m" "waiters (complete c m) = waiters m"
  "worker_on (complete c m) = worker_on m" "max_queue_sz (complete c m) = max_queue_sz m"
  "cmd_work (complete c m) = cmd_work m" "mgr_state (complete c m) = mgr_state m"
  by (simp_all add: complete_def)

lemma cmd_complete_frame [simp]:
  "cmds (cmd_complete c m) = remove1 c (cmds m)" "queue_sz (cmd_complete c m) = queue_sz m - 1"
  "waiters (cmd_complete c m) = waiters m" "worker_on (cmd_complete c m) = worker_on m"
  "max_queue_sz (cmd_complete c m) = max_queue_sz m" "cmd_work (cmd_complete c m) = cmd_work m"
  "mgr_state (cmd_complete c m) = mgr_state m"
  by (simp_all add: cmd_complete_def Let_def)

lemma cmd_complete_cmd:
  assumes "c < length (cmd_array m)" "\<not> nonblock (cmd_at m c)"
  shows "cmd_used (cmd_at (cmd_complete c m) c) = cmd_used (cmd_at m c)"
    "n \<noteq> 5 \<Longrightarrow> bit (cmd_flags (cmd_at (cmd_complete c m) c)) n = bit (cmd_flags (cmd_at m c)) n"
    "completed (cmd_at (cmd_complete c m) c) = completed (cmd_at m c) +
       (if wait_ack (cmd_at m c) \<or> wait_cfm (cmd_at m c) then 0 else 1)"
  using assms by (simp_all add: cmd_complete_def complete_def Let_def)

text \<open>A timeout: the sleeper is gone and the manager crashes.\<close>

lemma time_out_keeps:
  assumes b: "cmd_basic m" and c: "c < 20" "c \<notin> owners m" "cmd_used (cmd_at m c)"
    and q: "is_done (cmd_at m c) \<or> c \<in> set (cmds m)"
  shows "cmd_basic (time_out c m) \<and> mgr_state (time_out c m) = RWNX_CMD_MGR_STATE_CRASHED \<and>
    owners (time_out c m) = owners m"
proof (cases "is_done (cmd_at m c)")
  case True
  then show ?thesis using b by (simp add: time_out_def)
next
  case False
  let ?m = "set_result c (- ETIMEDOUT) (m\<lparr>mgr_state := RWNX_CMD_MGR_STATE_CRASHED\<rparr>)"
  have t: "time_out c m = cmd_complete c ?m" using False by (simp add: time_out_def)
  have k: "cmd_ok m c" "length (cmd_array m) = 20" using b c by (simp_all add: cmd_basic_def)
  have s: "cmds ?m = cmds m" "queue_sz ?m = queue_sz m" "waiters ?m = waiters m" "worker_on ?m = worker_on m"
      "max_queue_sz ?m = max_queue_sz m" "cmd_at ?m c = (cmd_at m c)\<lparr>cmd_result := - ETIMEDOUT\<rparr>"
    using c k by (simp_all add: set_result_def)
  have "cmd_basic (time_out c m)"
    by (rule basic_remove [OF b, of c _ "cmd_at (time_out c m) c"])
      (use q False c k s cmd_complete_cmd [of c ?m] only_at_array [of c m "time_out c m"] in \<open>auto simp: t cmd_ok_def\<close>)
  then show ?thesis by (simp add: t owners_def set_result_def)
qed


text \<open>The sleeper goes away first; what is left is not owned, but nothing else has changed.\<close>

definition released :: "nat \<Rightarrow> cmd_mgr \<Rightarrow> cmd_mgr \<Rightarrow> bool" where
  "released c m m' \<longleftrightarrow> (\<exists>ws w. m' = m\<lparr>waiters := ws, worker_on := w\<rparr> \<and> distinct ws \<and>
     (\<forall>k. w = Some k \<longrightarrow> k \<notin> set ws) \<and> set ws \<union> set_option w = owners m - {c})"

lemma released_basic:
  assumes b: "cmd_basic m" and r: "released c m m'"
  shows "cmd_basic m' \<and> owners m' = owners m - {c}"
proof -
  obtain ws w where m': "m' = m\<lparr>waiters := ws, worker_on := w\<rparr>" and o: "distinct ws"
      "\<forall>k. w = Some k \<longrightarrow> k \<notin> set ws" "set ws \<union> set_option w = owners m - {c}"
    using r unfolding released_def by blast
  have o': "owners m' = owners m - {c}" using o(3) by (simp add: m' owners_def)
  have f: "cmds m' = cmds m" "cmd_array m' = cmd_array m" "queue_sz m' = queue_sz m" "max_queue_sz m' = max_queue_sz m"
      "waiters m' = ws" "worker_on m' = w" by (simp_all add: m')
  have "\<forall>k<20. cmd_ok m' k" using b by (simp add: cmd_basic_def cmd_ok_def o' f)
  then show ?thesis using b o o' by (auto simp: cmd_basic_def f)
qed

lemma released_waiter:
  assumes "cmd_basic m" "c \<in> set (waiters m)"
  shows "released c m (m\<lparr>waiters := remove1 c (waiters m)\<rparr>)"
proof -
  have "m\<lparr>waiters := remove1 c (waiters m)\<rparr> = m\<lparr>waiters := remove1 c (waiters m), worker_on := worker_on m\<rparr>" by simp
  then show ?thesis using assms unfolding released_def
    by (intro exI [of _ "remove1 c (waiters m)"] exI [of _ "worker_on m"]) (auto simp: cmd_basic_def owners_def)
qed

lemma released_worker:
  assumes "cmd_basic m" "worker_on m = Some c"
  shows "released c m (m\<lparr>worker_on := None\<rparr>)"
proof -
  have "m\<lparr>worker_on := None\<rparr> = m\<lparr>waiters := waiters m, worker_on := None\<rparr>" by simp
  then show ?thesis using assms unfolding released_def
    by (intro exI [of _ "waiters m"] exI [of _ None]) (auto simp: cmd_basic_def owners_def)
qed

lemma released_time_out:
  assumes b: "cmd_basic m" and c: "c \<in> owners m" "completed (cmd_at m c) = 0" and r: "released c m m'"
  shows "cmd_basic (time_out c m') \<and> mgr_state (time_out c m') = RWNX_CMD_MGR_STATE_CRASHED \<and>
    owners (time_out c m') = owners m - {c}"
proof -
  have k: "c < 20" "cmd_ok m c" using b c(1) by (auto simp: cmd_basic_def)
  then have "c \<in> set (cmds m)" "cmd_used (cmd_at m c)" using c by (auto simp: cmd_ok_def)
  moreover have "cmd_at m' c = cmd_at m c" "cmds m' = cmds m" using r by (auto simp: released_def)
  ultimately show ?thesis using time_out_keeps [of m' c] released_basic [OF b r] k(1) by simp
qed

lemma queue_timed_out_keeps:
  assumes "cmd_inv m" "c \<in> set (waiters m)" "completed (cmd_at m c) = 0"
  shows "cmd_inv (queue_timed_out c m)"
proof -
  have "cmd_basic m" "c \<in> owners m" using assms by (simp_all add: cmd_inv_def owners_def)
  from released_time_out [OF this assms(3) released_waiter] this assms(2) show ?thesis
    by (simp add: cmd_inv_def queue_timed_out_def)
qed

text \<open>A turn of the worker, with no command in its hands.\<close>

lemma task_turn_keeps:
  assumes b: "cmd_basic m" and w: "worker_on m = None"
    and l: "mgr_state m \<noteq> RWNX_CMD_MGR_STATE_CRASHED \<Longrightarrow> \<forall>c \<in> set (cmds m). \<not> wait_push (cmd_at m c) \<longrightarrow> c \<in> owners m"
  shows "cmd_inv (task_turn m)"
proof (cases "cmds m \<noteq> [] \<and> wait_push (cmd_at m (hd (cmds m)))")
  case False
  then have "task_turn m = m" using w by (cases "cmds m") (auto simp: task_turn_def)
  then show ?thesis using b l False by (auto simp: cmd_inv_def cmd_live_def)
next
  case True
  then obtain c cs where cs: "cmds m = c # cs" and p: "wait_push (cmd_at m c)" by (cases "cmds m") auto
  have c: "c < 20" "cmd_ok m c" "length (cmd_array m) = 20" using b cs by (auto simp: cmd_basic_def)
  have co: "c \<notin> owners m" "cmd_used (cmd_at m c)" using c(2) cs p by (auto simp: cmd_ok_def)
  let ?m = "task_turn m"
  have t: "?m = (push_msg c (upd_cmd c (clear_flag RWNX_CMD_FLAG_WAIT_PUSH) m))\<lparr>worker_on := Some c\<rparr>"
    using cs p by (simp add: task_turn_def)
  have o: "owners ?m = insert c (owners m)" using w by (auto simp: t owners_def)
  have fr: "cmds ?m = cmds m" "cmd_at ?m c = (clear_flag RWNX_CMD_FLAG_WAIT_PUSH (cmd_at m c))\<lparr>a2e_msg := None\<rparr>"
    using c by (simp_all add: t push_msg_cmd)
  have ar: "cmd_array ?m = (cmd_array m)[c := cmd_at ?m c]" using only_at_array [of c m ?m] by (simp add: t)
  have d: "distinct (cmds m)" using b by (simp add: cmd_basic_def)
  have "cmd_ok ?m c" using c co cs d by (auto simp: cmd_ok_def fr o)
  then have "cmd_basic ?m"
    by (intro basic_change [OF b c(1)]) (use b o co w fr ar in \<open>auto simp: t cmd_basic_def owners_def\<close>)
  moreover have "cmd_live ?m" if "mgr_state ?m \<noteq> RWNX_CMD_MGR_STATE_CRASHED"
  proof -
    have "mgr_state m \<noteq> RWNX_CMD_MGR_STATE_CRASHED" using that by (simp add: t)
    from l [OF this] show ?thesis unfolding cmd_live_def o
      using fr ar c by (auto simp: nth_list_update)
  qed
  ultimately show ?thesis by (simp add: cmd_inv_def)
qed


lemma task_start_keeps: "cmd_inv m \<Longrightarrow> worker_on m = None \<Longrightarrow> cmd_inv (task_start m)"
  unfolding task_start_def by (rule task_turn_keeps) (auto simp: cmd_inv_def cmd_live_def)

lemma task_completed_keeps:
  assumes i: "cmd_inv m" and w: "worker_on m = Some c" "0 < completed (cmd_at m c)"
  shows "cmd_inv (task_completed c m)"
proof -
  have b: "cmd_basic m" and c: "c \<in> owners m" using i w by (simp_all add: cmd_inv_def owners_def)
  let ?m = "rwnx_cmd_free c (take_completion c (m\<lparr>waiters := waiters m, worker_on := None\<rparr>))"
  have r: "cmd_basic ?m" "owners ?m = owners m - {c}" "c \<notin> set (cmds m)" "\<forall>k \<in> set (cmds m). cmd_at ?m k = cmd_at m k"
    using release [OF b c w(2) refl, of "waiters m" None] b w(1) by (auto simp: cmd_basic_def owners_def)
  have "cmd_inv (task_turn ?m)"
    by (rule task_turn_keeps) (use r i in \<open>auto simp: cmd_inv_def cmd_live_def\<close>)
  then show ?thesis by (simp add: task_completed_def)
qed

lemma task_timed_out_keeps:
  assumes "cmd_inv m" "worker_on m = Some c" "completed (cmd_at m c) = 0"
  shows "cmd_inv (task_timed_out c m)"
proof -
  have b: "cmd_basic m" and c: "c \<in> owners m" using assms by (simp_all add: cmd_inv_def owners_def)
  note t = released_time_out [OF b c assms(3) released_worker [OF b assms(2)]]
  have "worker_on (time_out c (m\<lparr>worker_on := None\<rparr>)) = None"
    by (simp add: time_out_def set_result_def Let_def)
  with t show ?thesis unfolding task_timed_out_def by (intro task_turn_keeps) auto
qed

lemma msgind_keeps:
  assumes i: "cmd_inv m" and r: "cmd_mgr_msgind mid mp cb m = (m', found)"
  shows "cmd_inv m'"
proof (cases found)
  case None
  then show ?thesis using i r by (auto simp: cmd_mgr_msgind_def Let_def split: option.splits)
next
  case (Some c)
  define m1 where "m1 = upd_cmd c (clear_flag RWNX_CMD_FLAG_WAIT_CFM) m"
  define m2 where "m2 = (case e2a_msg (cmd_at m1 c) of None \<Rightarrow> m1
      | Some buf \<Rightarrow> upd_cmd c (\<lambda>cmd. cmd\<lparr>e2a_msg := Some (memcpy_at buf 0 (take RWNX_CMD_E2AMSG_LEN_MAX mp))\<rparr>) m1)"
  have cin: "c \<in> set (cmds m)"
    using r Some by (auto simp: cmd_mgr_msgind_def Let_def split: option.splits dest!: find_SomeD_set)
  have b: "cmd_basic m" using i by (simp add: cmd_inv_def)
  have c: "c < 20" "cmd_ok m c" "length (cmd_array m) = 20" using b cin by (auto simp: cmd_basic_def)
  have used: "cmd_used (cmd_at m c)" using c cin by (auto simp: cmd_ok_def)
  have m2: "length (cmd_array m2) = 20" "only_at c m m2" "cmds m2 = cmds m" "queue_sz m2 = queue_sz m" "waiters m2 = waiters m"
      "worker_on m2 = worker_on m" "max_queue_sz m2 = max_queue_sz m" "cmd_work m2 = cmd_work m" "mgr_state m2 = mgr_state m"
      "cmd_used (cmd_at m2 c)" "completed (cmd_at m2 c) = completed (cmd_at m c)"
      "\<And>n. bit (cmd_flags (cmd_at m2 c)) n = (n \<noteq> 4 \<and> bit (cmd_flags (cmd_at m c)) n)"
    using c used by (auto simp: m2_def m1_def split: option.splits)
  have "m' = (if RWNX_CMD_WAIT_COMPLETE (cmd_flags (cmd_at m2 c)) then cmd_complete c m2 else m2)"
    using r Some by (auto simp: cmd_mgr_msgind_def Let_def m2_def m1_def split: option.splits)
  then have m': "m' = cmd_complete c m2" using c m2(12) by (simp add: cmd_ok_def)
  have x: "cmd_used (cmd_at m' c)" "\<not> nonblock (cmd_at m' c)" "\<not> wait_ack (cmd_at m' c)" "0 < completed (cmd_at m' c)"
      "wait_push (cmd_at m' c) = wait_push (cmd_at m c)"
    using cmd_complete_cmd [of c m2] m2 c by (auto simp: m' cmd_ok_def)
  have ar: "cmd_array m' = (cmd_array m)[c := cmd_at m' c]" using m2(2) by (intro only_at_array) (simp add: m')
  have "cmd_basic m'"
    by (rule basic_remove [OF b cin _ _ ar]) (use x m2 c in \<open>auto simp: m' cmd_ok_def\<close>)
  moreover have "cmd_live m'" if "cmd_live m"
    by (rule live_remove [OF that cin _ _ _ ar]) (use b m2 c in \<open>auto simp: m' cmd_basic_def\<close>)
  moreover have "mgr_state m' = mgr_state m" by (simp add: m' m2)
  ultimately show ?thesis using i by (simp add: cmd_inv_def)
qed

text \<open>A command that is neither queued nor owned may change freely.\<close>

lemma off_queue_keeps:
  assumes i: "cmd_inv m" and c: "c < 20" "c \<notin> set (cmds m)" "c \<notin> owners m"
    and m': "only_at c m m'" "cmds m' = cmds m" "queue_sz m' = queue_sz m" "waiters m' = waiters m"
      "worker_on m' = worker_on m" "max_queue_sz m' = max_queue_sz m" "cmd_work m' = cmd_work m" "mgr_state m' = mgr_state m"
    and x: "\<not> nonblock (cmd_at m' c)" "\<not> wait_ack (cmd_at m' c)" "\<not> wait_push (cmd_at m' c)"
  shows "cmd_inv m'"
proof -
  have b: "cmd_basic m" using i by (simp add: cmd_inv_def)
  have o: "owners m' = owners m" by (simp add: owners_def m')
  note ar = only_at_array [OF m'(1)]
  have "cmd_ok m' c" using c x set_tl [of "cmds m"] by (auto simp: cmd_ok_def m'(2) o)
  then have "cmd_basic m'"
    by (intro basic_change [OF b c(1) m'(2,3) ar m'(6)]) (use b o in \<open>auto simp: m' cmd_basic_def\<close>)
  moreover have "cmd_live m'" if "cmd_live m"
  proof -
    have at: "k \<in> set (cmds m) \<Longrightarrow> cmd_at m' k = cmd_at m k" for k using c(2) m'(1) by (auto simp: only_at_def)
    then show ?thesis using that o by (cases "cmds m") (auto simp: cmd_live_def m'(2,7))
  qed
  ultimately show ?thesis using i m'(8) by (simp add: cmd_inv_def)
qed


lemma llind_keeps:
  assumes i: "cmd_inv m" and c: "c \<in> set (cmds m)"
  shows "cmd_inv (cmd_mgr_llind c m)"
proof -
  have b: "cmd_basic m" using i by (simp add: cmd_inv_def)
  have k: "c < 20" "cmd_ok m c" "length (cmd_array m) = 20" using b c by (auto simp: cmd_basic_def)
  let ?m = "upd_cmd c (clear_flag RWNX_CMD_FLAG_WAIT_ACK) m"
  have ack: "\<And>n. n = 3 \<Longrightarrow> \<not> bit (cmd_flags (cmd_at m c)) n" "wait_cfm (cmd_at m c)" using k c by (auto simp: cmd_ok_def)
  then have "cmd_flags (clear_flag RWNX_CMD_FLAG_WAIT_ACK (cmd_at m c)) = cmd_flags (cmd_at m c)"
    by (auto intro: bit_word_eqI)
  then have "clear_flag RWNX_CMD_FLAG_WAIT_ACK (cmd_at m c) = cmd_at m c" by (simp add: clear_flag_def)
  then have "?m = m" by (simp add: upd_cmd_def)
  then show ?thesis using i ack(2) c by (auto simp: cmd_mgr_llind_def Let_def)
qed

lemma malloc_keeps:
  assumes i: "cmd_inv m" and a: "rwnx_cmd_malloc m = (Some c, m1)"
    and m2_def: "m2 = upd_cmd c (prepare_cmd msg reqcfm rq cfm) m1"
  shows "cmd_inv m2 \<and> c < 20 \<and> c \<notin> set (cmds m2) \<and> c \<notin> owners m2 \<and> \<not> wait_push (cmd_at m2 c) \<and>
    (reqcfm \<longrightarrow> fresh_cmd m2 c)"
proof -
  have b: "cmd_basic m" using i by (simp add: cmd_inv_def)
  have c: "c < 20" "\<not> cmd_used (cmd_at m c)" "m1 = upd_cmd c (\<lambda>cmd. cmd\<lparr>cmd_used := True\<rparr>) m"
    using a by (auto simp: rwnx_cmd_malloc_def RWNX_CMD_ARRAY_SIZE_def split: option.splits dest!: find_SomeD_set)
  have k: "cmd_ok m c" "length (cmd_array m) = 20" using b c(1) by (simp_all add: cmd_basic_def)
  then have n: "c \<notin> set (cmds m)" "c \<notin> owners m" "\<not> wait_push (cmd_at m c)" "\<not> nonblock (cmd_at m c)" "\<not> wait_ack (cmd_at m c)"
    using c(2) by (auto simp: cmd_ok_def)
  have o: "owners m2 = owners m" by (simp add: m2_def c(3) owners_def)
  have at: "cmd_at m2 c = prepare_cmd msg reqcfm rq cfm ((cmd_at m c)\<lparr>cmd_used := True\<rparr>)"
    using c k by (simp add: m2_def)
  have x: "\<not> nonblock (cmd_at m2 c)" "\<not> wait_ack (cmd_at m2 c)" "\<not> wait_push (cmd_at m2 c)" "cmd_used (cmd_at m2 c)"
      "a2e_msg (cmd_at m2 c) = Some msg" "reqcfm \<longrightarrow> req_cfm (cmd_at m2 c)"
    using n unfolding at by (auto simp: prepare_cmd_def Let_def)
  have "cmd_inv m2" by (rule off_queue_keeps [OF i c(1) n(1,2)]) (use x in \<open>simp_all add: m2_def c(3)\<close>)
  then show ?thesis using c(1) n o x by (simp add: fresh_cmd_def) (simp add: m2_def c(3))
qed

lemma free_keeps:
  assumes "cmd_inv m" "c < 20" "c \<notin> set (cmds m)" "c \<notin> owners m" "\<not> wait_push (cmd_at m c)"
  shows "cmd_inv (rwnx_cmd_free c m)"
proof -
  have "length (cmd_array m) = 20" "cmd_ok m c" using assms(1,2) by (simp_all add: cmd_inv_def cmd_basic_def)
  then show ?thesis
    by (intro off_queue_keeps [OF assms(1-4)]) (use assms in \<open>auto simp: rwnx_cmd_free_def cmd_ok_def\<close>)
qed

lemma set_result_keeps:
  assumes "cmd_inv m" "c < 20" "c \<notin> set (cmds m)" "c \<notin> owners m" "\<not> wait_push (cmd_at m c)"
  shows "cmd_inv (set_result c r m)"
proof -
  have "length (cmd_array m) = 20" "cmd_ok m c" using assms(1,2) by (simp_all add: cmd_inv_def cmd_basic_def)
  then show ?thesis
    by (intro off_queue_keeps [OF assms(1-4)]) (use assms in \<open>auto simp: set_result_def cmd_ok_def\<close>)
qed

lemma queue_new_keeps:
  assumes i: "cmd_inv m" and f: "fresh_cmd m c"
  shows "cmd_inv (queue_new defer D c m)"
proof -
  obtain m' ret where r: "(if defer then cmd_mgr_queue_force_defer c m else cmd_mgr_queue D c m) = (m', ret)"
    by (metis prod.exhaust)
  have c: "c < 20" "c \<notin> set (cmds m)" "c \<notin> owners m" "\<not> wait_push (cmd_at m c)" using f by (simp_all add: fresh_cmd_def)
  show ?thesis
  proof (cases "ret = 0")
    case True
    then show ?thesis using r queue_keeps [OF i f] force_defer_keeps [OF i f] by (auto simp: queue_new_def split: if_splits)
  next
    case False
    then have "m' = set_result c ret m" using r
      by (auto simp: cmd_mgr_queue_def cmd_mgr_queue_force_defer_def Let_def split: if_splits)
    moreover have "cmd_inv (set_result c ret m)" by (rule set_result_keeps [OF i c])
    moreover have "\<not> wait_push (cmd_at (set_result c ret m) c)" "owners (set_result c ret m) = owners m"
      using c i by (simp_all add: set_result_def owners_def cmd_inv_def cmd_basic_def)
    ultimately have "cmd_inv (rwnx_cmd_free c m')" using c by (intro free_keeps) (simp_all add: set_result_def)
    then show ?thesis using r False by (simp add: queue_new_def)
  qed
qed


subsection \<open>Runs of the command manager\<close>

text \<open>
  The states reached from the zeroed structure by \<open>rwnx_cmd_mgr_init\<close>: callers send messages, sleepers
  wake up or time out, the worker runs, confirmations of any kind arrive.
\<close>

definition zeroed :: "cmd_mgr \<Rightarrow> bool" where
  "zeroed m \<longleftrightarrow> length (cmd_array m) = RWNX_CMD_ARRAY_SIZE \<and>
     (\<forall>cmd \<in> set (cmd_array m). cmd_flags cmd = 0 \<and> \<not> cmd_used cmd) \<and>
     queue_sz m = 0 \<and> waiters m = [] \<and> worker_on m = None \<and> \<not> cmd_work m"

inductive cmd_run :: "u16 set \<Rightarrow> cmd_mgr \<Rightarrow> bool" for D where
  init: "zeroed m \<Longrightarrow> cmd_run D (rwnx_cmd_mgr_init m)"
| send: "cmd_run D m \<Longrightarrow> may_send cfm m \<Longrightarrow> rwnx_send_msg down D msg reqcfm rq cfm m = Some m' \<Longrightarrow> cmd_run D m'"
| send1: "cmd_run D m \<Longrightarrow> rwnx_send_msg1 D msg reqcfm rq cfm defer m = Some m' \<Longrightarrow> cmd_run D m'"
| woken: "cmd_run D m \<Longrightarrow> c \<in> set (waiters m) \<Longrightarrow> 0 < completed (cmd_at m c) \<Longrightarrow> cmd_run D (queue_completed c m)"
| timeout: "cmd_run D m \<Longrightarrow> c \<in> set (waiters m) \<Longrightarrow> completed (cmd_at m c) = 0 \<Longrightarrow> cmd_run D (queue_timed_out c m)"
| work: "cmd_run D m \<Longrightarrow> cmd_work m \<Longrightarrow> worker_on m = None \<Longrightarrow> cmd_run D (task_start m)"
| work_done: "cmd_run D m \<Longrightarrow> worker_on m = Some c \<Longrightarrow> 0 < completed (cmd_at m c) \<Longrightarrow> cmd_run D (task_completed c m)"
| work_timeout: "cmd_run D m \<Longrightarrow> worker_on m = Some c \<Longrightarrow> completed (cmd_at m c) = 0 \<Longrightarrow> cmd_run D (task_timed_out c m)"
| confirm: "cmd_run D m \<Longrightarrow> cmd_mgr_msgind mid mparam cb m = (m', found) \<Longrightarrow> cmd_run D m'"
| ack: "cmd_run D m \<Longrightarrow> c \<in> set (cmds m) \<Longrightarrow> cmd_run D (cmd_mgr_llind c m)"

lemma init_inv:
  assumes z: "zeroed m"
  shows "cmd_inv (rwnx_cmd_mgr_init m)"
proof -
  have a: "k < 20 \<Longrightarrow> cmd_flags (cmd_at m k) = 0 \<and> \<not> cmd_used (cmd_at m k)" for k
    using z by (simp add: zeroed_def RWNX_CMD_ARRAY_SIZE_def)
  then show ?thesis using z
    by (auto simp: cmd_inv_def cmd_basic_def cmd_live_def cmd_ok_def owners_def rwnx_cmd_mgr_init_def zeroed_def
        RWNX_CMD_ARRAY_SIZE_def RWNX_CMD_MAX_QUEUED_def)
qed

lemma bus_msgs_inv [simp]: "cmd_inv (m\<lparr>bus_msgs := bs\<rparr>) = cmd_inv m"
  by (simp add: cmd_inv_def cmd_live_def)

lemma send_keeps:
  assumes "cmd_inv m" "rwnx_send_msg down D msg reqcfm rq cfm m = Some m'"
  shows "cmd_inv m'"
proof (cases down)
  case False
  obtain c m1 where a: "rwnx_cmd_malloc m = (Some c, m1)"
    using assms(2) False by (auto simp: rwnx_send_msg_def split: prod.splits option.splits)
  let ?m2 = "upd_cmd c (prepare_cmd msg reqcfm rq cfm) m1"
  note k = malloc_keeps [OF assms(1) a refl, of msg reqcfm rq cfm]
  have "m' = (if reqcfm then queue_new False D c ?m2 else rwnx_cmd_free c (?m2\<lparr>bus_msgs := bus_msgs ?m2 @ [msg]\<rparr>))"
    using assms(2) False a by (cases reqcfm) (auto simp: rwnx_send_msg_def Let_def)
  then show ?thesis using k queue_new_keeps [of ?m2 c False D] free_keeps [of "?m2\<lparr>bus_msgs := bus_msgs ?m2 @ [msg]\<rparr>" c]
    by (auto split: if_splits)
qed (use assms in \<open>simp add: rwnx_send_msg_def\<close>)

lemma send1_keeps:
  assumes "cmd_inv m" "rwnx_send_msg1 D msg reqcfm rq cfm defer m = Some m'"
  shows "cmd_inv m'"
proof -
  obtain c m1 where a: "rwnx_cmd_malloc m = (Some c, m1)"
    using assms(2) by (auto simp: rwnx_send_msg1_def split: prod.splits option.splits)
  let ?m2 = "upd_cmd c (prepare_cmd msg reqcfm rq cfm) m1"
  note k = malloc_keeps [OF assms(1) a refl, of msg reqcfm rq cfm]
  have "m' = (if reqcfm then queue_new defer D c ?m2 else rwnx_cmd_free c ?m2)"
    using assms(2) a by (cases reqcfm) (auto simp: rwnx_send_msg1_def Let_def)
  then show ?thesis using k queue_new_keeps [of ?m2 c] free_keeps [of ?m2 c] by (auto split: if_splits)
qed

lemma cmd_run_inv: "cmd_run D m \<Longrightarrow> cmd_inv m"
  by (induction rule: cmd_run.induct)
    (blast intro: init_inv send_keeps send1_keeps queue_completed_keeps queue_timed_out_keeps task_start_keeps
      task_completed_keeps task_timed_out_keeps msgind_keeps llind_keeps)+


subsection \<open>What the manager guarantees\<close>

text \<open>C3. The firmware is given one command at a time: in every reachable state, whatever is sent, confirmed,
  acknowledged or timed out, only the first queued command can have been pushed; every other one still
  waits to be pushed and still has its message, so no message is pushed twice or after it was freed;
  the queue is counted, without duplicates, and never longer than 16.\<close>

theorem commands_serialised:
  assumes "cmd_run D m"
  shows "(\<forall>c \<in> set (cmds m). \<not> has_flag RWNX_CMD_FLAG_WAIT_PUSH (cmd_at m c) \<longrightarrow> c = hd (cmds m)) \<and>
    (\<forall>c \<in> set (cmds m). has_flag RWNX_CMD_FLAG_WAIT_PUSH (cmd_at m c) = (a2e_msg (cmd_at m c) \<noteq> None)) \<and>
    distinct (cmds m) \<and> unat (queue_sz m) = length (cmds m) \<and> length (cmds m) \<le> 16"
proof -
  have b: "cmd_basic m" using cmd_run_inv [OF assms] by (simp add: cmd_inv_def)
  have ok: "\<forall>c \<in> set (cmds m). cmd_ok m c" using b by (auto simp: cmd_basic_def)
  have "c = hd (cmds m)" if "c \<in> set (cmds m)" "\<not> wait_push (cmd_at m c)" for c
    using that ok by (cases "cmds m") (auto simp: cmd_ok_def)
  with b ok show ?thesis by (auto simp: cmd_basic_def cmd_ok_def)
qed


text \<open>A refused command leaves no trace: queueing fails exactly when the manager has crashed or the queue is
  full; then the queue, the bus and the sleepers are untouched and the command is back in the array.
  Otherwise it is the last of the queue, whether it was pushed or deferred.\<close>

theorem refused_command_returned:
  assumes "fresh_cmd m c" "length (cmd_array m) = 20"
    and "(if dfr then cmd_mgr_queue_force_defer c m else cmd_mgr_queue D c m) = (m1, ret)"
  defines "m' \<equiv> queue_new dfr D c m"
  shows "(ret \<noteq> 0 \<longleftrightarrow> mgr_state m = RWNX_CMD_MGR_STATE_CRASHED \<or> (cmds m \<noteq> [] \<and> queue_sz m = max_queue_sz m)) \<and>
    (if ret \<noteq> 0 then cmds m' = cmds m \<and> bus_msgs m' = bus_msgs m \<and> waiters m' = waiters m \<and> \<not> cmd_used (cmd_at m' c)
     else cmds m' = cmds m @ [c])"
proof -
  have c: "c < length (cmd_array m)" using assms(1,2) by (simp add: fresh_cmd_def)
  have ret: "ret \<noteq> 0 \<longleftrightarrow> mgr_state m = RWNX_CMD_MGR_STATE_CRASHED \<or> (cmds m \<noteq> [] \<and> queue_sz m = max_queue_sz m)"
    using assms(3) by (auto simp: cmd_mgr_queue_def cmd_mgr_queue_force_defer_def EPIPE_def ENOMEM_def Let_def split: if_splits)
  show ?thesis
  proof (cases "ret = 0")
    case True
    then have "cmds m1 = cmds m @ [c]" using assms(3) ret
      by (auto simp: cmd_mgr_queue_def cmd_mgr_queue_force_defer_def Let_def enlist_frame set_result_def split: if_splits)
    then show ?thesis using ret True assms(3) by (simp add: m'_def queue_new_def)
  next
    case False
    then have "m1 = set_result c ret m" using assms(3) ret
      by (auto simp: cmd_mgr_queue_def cmd_mgr_queue_force_defer_def Let_def split: if_splits)
    then show ?thesis using ret False assms(3) c
      by (simp add: m'_def queue_new_def) (simp add: set_result_def rwnx_cmd_free_def)
  qed
qed

text \<open>
  \<open>rwnx_send_msg\<close> never clears the flags of the command it takes from the array, so a command used
  before starts with \<open>DONE\<close> set and the timeout path skips its completion.
\<close>

text \<open>A timed-out command whose slot was used before stays in the queue for ever: the stale \<open>DONE\<close> flag makes the
  timeout leave the queue as it is, although nobody sleeps on the command any more and the manager is
  in the crashed state.\<close>

theorem stale_done_survives_timeout:
  assumes "cmd_run D m" "c \<in> set (waiters m)" "completed (cmd_at m c) = 0"
    and "has_flag RWNX_CMD_FLAG_DONE (cmd_at m c)"
  shows "cmds (queue_timed_out c m) = cmds m \<and> c \<in> set (cmds (queue_timed_out c m)) \<and>
    c \<notin> set (waiters (queue_timed_out c m)) \<and> worker_on (queue_timed_out c m) \<noteq> Some c \<and>
    mgr_state (queue_timed_out c m) = RWNX_CMD_MGR_STATE_CRASHED"
proof -
  have b: "cmd_basic m" using cmd_run_inv [OF assms(1)] by (simp add: cmd_inv_def)
  have "c \<in> owners m" using assms(2) by (simp add: owners_def)
  then have "cmd_ok m c" using b by (auto simp: cmd_basic_def)
  then have "c \<in> set (cmds m)" using assms(3) \<open>c \<in> owners m\<close> by (auto simp: cmd_ok_def)
  then show ?thesis using assms b by (auto simp: queue_timed_out_def time_out_def Let_def cmd_basic_def)
qed


subsection \<open>Runs for the witnesses\<close>

definition boot_mgr :: cmd_mgr where
  "boot_mgr = rwnx_cmd_mgr_init
    \<lparr>mgr_state = RWNX_CMD_MGR_STATE_DEINIT, next_tkn = 0, queue_sz = 0, max_queue_sz = 0, cmds = [],
     cmd_array = replicate 20 \<lparr>cmd_id = 0, reqid = 0, a2e_msg = None, e2a_msg = None, cmd_tkn = 0, cmd_flags = 0,
       completed = 0, cmd_result = 0, cmd_used = False\<rparr>,
     cmd_work = False, waiters = [], worker_on = None, bus_msgs = []\<rparr>"

definition reset_msg :: lmac_msg where
  "reset_msg = \<lparr>msg_id = 0, dest_id = 0, src_id = 100, msg_param = []\<rparr>"

text \<open>Send and sleep; confirmation; the sleeper wakes up; the same slot is used again.\<close>

definition sent_once :: cmd_mgr where
  "sent_once = the (rwnx_send_msg False {} reset_msg True 1 None boot_mgr)"

definition sent_twice :: cmd_mgr where
  "sent_twice = the (rwnx_send_msg1 {} reset_msg True 1 None False sent_once)"

definition sent_again :: cmd_mgr where
  "sent_again = the (rwnx_send_msg False {} reset_msg True 1 None
     (queue_completed 0 (fst (cmd_mgr_msgind 1 [] None sent_once))))"

lemma boot_run: "cmd_run {} boot_mgr"
  unfolding boot_mgr_def by (rule cmd_run.init) (code_simp)

lemma sent_once_run: "cmd_run {} sent_once"
proof (rule cmd_run.send [OF boot_run])
  show "may_send None boot_mgr" by code_simp
  show "rwnx_send_msg False {} reset_msg True 1 None boot_mgr = Some sent_once"
  proof -
    have "rwnx_send_msg False {} reset_msg True 1 None boot_mgr \<noteq> None" by code_simp
    then show ?thesis unfolding sent_once_def by (rule option.collapse [symmetric])
  qed
qed

lemma sent_twice_run: "cmd_run {} sent_twice"
proof (rule cmd_run.send1 [OF sent_once_run])
  have "rwnx_send_msg1 {} reset_msg True 1 None False sent_once \<noteq> None" by code_simp
  then show "rwnx_send_msg1 {} reset_msg True 1 None False sent_once = Some sent_twice"
    unfolding sent_twice_def by (rule option.collapse [symmetric])
qed

lemma sent_again_run: "cmd_run {} sent_again"
proof -
  let ?m = "fst (cmd_mgr_msgind 1 [] None sent_once)"
  have "cmd_run {} ?m" by (rule cmd_run.confirm [OF sent_once_run prod.collapse [symmetric]])
  moreover have "0 \<in> set (waiters ?m)" "0 < completed (cmd_at ?m 0)" by code_simp+
  ultimately have "cmd_run {} (queue_completed 0 ?m)" by (rule cmd_run.woken)
  moreover have "may_send None (queue_completed 0 ?m)" by code_simp
  moreover have "rwnx_send_msg False {} reset_msg True 1 None (queue_completed 0 ?m) \<noteq> None" by code_simp
  then have "rwnx_send_msg False {} reset_msg True 1 None (queue_completed 0 ?m) = Some sent_again"
    unfolding sent_again_def by (rule option.collapse [symmetric])
  ultimately show ?thesis by (rule cmd_run.send)
qed

theorem commands_serialised_witness:
  "cmds sent_twice = [0, 1] \<and> length (bus_msgs sent_twice) = 1 \<and>
   has_flag RWNX_CMD_FLAG_WAIT_PUSH (cmd_at sent_twice 1) \<and> a2e_msg (cmd_at sent_twice 1) \<noteq> None"
proof -
  have s: "cmds sent_twice = [0, 1]" "length (bus_msgs sent_twice) = 1" by code_simp+
  then show ?thesis using commands_serialised [OF sent_twice_run] by force
qed


theorem refused_command_returned_witness:
  "let m = (upd_cmd 0 (prepare_cmd reset_msg True 1 None) (snd (rwnx_cmd_malloc boot_mgr)))
             \<lparr>mgr_state := RWNX_CMD_MGR_STATE_CRASHED\<rparr>
   in cmds (queue_new False {} 0 m) = [] \<and> \<not> cmd_used (cmd_at (queue_new False {} 0 m) 0)"
proof -
  let ?m = "(upd_cmd 0 (prepare_cmd reset_msg True 1 None) (snd (rwnx_cmd_malloc boot_mgr)))
             \<lparr>mgr_state := RWNX_CMD_MGR_STATE_CRASHED\<rparr>"
  have f: "fresh_cmd ?m 0" "length (cmd_array ?m) = 20" "cmds ?m = []" by code_simp+
  obtain m1 ret where r: "cmd_mgr_queue {} 0 ?m = (m1, ret)" by (metis prod.exhaust)
  have "(if False then cmd_mgr_queue_force_defer 0 ?m else cmd_mgr_queue {} 0 ?m) = (m1, ret)"
    unfolding if_False by (rule r)
  from refused_command_returned [OF f(1,2) this] f(3) show ?thesis by (simp add: Let_def split: if_splits)
qed

theorem stale_done_survives_timeout_witness:
  "cmds (queue_timed_out 0 sent_again) = [0] \<and> waiters (queue_timed_out 0 sent_again) = []"
proof -
  have s: "0 \<in> set (waiters sent_again)" "completed (cmd_at sent_again 0) = 0"
      "has_flag RWNX_CMD_FLAG_DONE (cmd_at sent_again 0)" "cmds sent_again = [0]"
      "waiters (queue_timed_out 0 sent_again) = []" by code_simp+
  from stale_done_survives_timeout [OF sent_again_run s(1-3)] s(4,5) show ?thesis by simp
qed

end
