(* ===== verification/Tx_Queue.thy ===== *)
theory Tx_Queue
  imports Prelude
begin

text \<open>
  The transmit queues (\<^verbatim>\<open>aic8800_fdrv/rwnx_txq.c\<close>, \<^verbatim>\<open>rwnx_txq.h\<close>) and the push path of \<^verbatim>\<open>rwnx_tx.c\<close>: a
  software queue per station and TID, scheduled on the list of its hardware queue.  A queue is its
  position in the driver's array, a packet a number; a list of queues is a list of positions in list
  order.  The configuration is that of the build: full MAC, one user, no A-MSDU, no MU-MIMO.
\<close>

unbundle bit_operations_syntax

subsection \<open>Data\<close>

definition TXQ_INACTIVE :: u16 where "TXQ_INACTIVE = 0xffff"
definition NDEV_NO_TXQ :: u16 where "NDEV_NO_TXQ = 0xffff"
definition NX_TXQ_INITIAL_CREDITS :: "8 word" where "NX_TXQ_INITIAL_CREDITS = 64"
definition RWNX_NDEV_FLOW_CTRL_STOP :: nat where "RWNX_NDEV_FLOW_CTRL_STOP = 64"
definition RWNX_NDEV_FLOW_CTRL_RESTART :: nat where "RWNX_NDEV_FLOW_CTRL_RESTART = 64"
definition LEGACY_PS_ID :: nat where "LEGACY_PS_ID = 0"
definition UAPSD_ID :: nat where "UAPSD_ID = 1"
definition PS_SP_INTERRUPTED :: u16 where "PS_SP_INTERRUPTED = 255"
definition RWNX_HWQ_BK :: nat where "RWNX_HWQ_BK = 0"
definition RWNX_HWQ_BE :: nat where "RWNX_HWQ_BE = 1"
definition RWNX_HWQ_VI :: nat where "RWNX_HWQ_VI = 2"
definition RWNX_HWQ_VO :: nat where "RWNX_HWQ_VO = 3"
definition TID_MGT :: nat where "TID_MGT = 8"
definition rwnx_tid2hwq :: "nat list" where
  "rwnx_tid2hwq = [RWNX_HWQ_BE, RWNX_HWQ_BK, RWNX_HWQ_BK, RWNX_HWQ_BE, RWNX_HWQ_VI, RWNX_HWQ_VI, RWNX_HWQ_VO,
     RWNX_HWQ_VO, RWNX_HWQ_VO] @ replicate 7 RWNX_HWQ_BE"
definition nx_tid_prio :: "nat list" where "nx_tid_prio = [7, 6, 5, 4, 3, 0, 2, 1]"

definition RWNX_TXQ_IN_HWQ_LIST :: u8 where "RWNX_TXQ_IN_HWQ_LIST = 1"
definition RWNX_TXQ_STOP_FULL :: u8 where "RWNX_TXQ_STOP_FULL = 2"
definition RWNX_TXQ_STOP_CSA :: u8 where "RWNX_TXQ_STOP_CSA = 4"
definition RWNX_TXQ_STOP_STA_PS :: u8 where "RWNX_TXQ_STOP_STA_PS = 8"
definition RWNX_TXQ_STOP_VIF_PS :: u8 where "RWNX_TXQ_STOP_VIF_PS = 16"
definition RWNX_TXQ_STOP_CHAN :: u8 where "RWNX_TXQ_STOP_CHAN = 32"
definition RWNX_TXQ_STOP :: u8 where
  "RWNX_TXQ_STOP = RWNX_TXQ_STOP_FULL OR RWNX_TXQ_STOP_CSA OR RWNX_TXQ_STOP_STA_PS OR
     RWNX_TXQ_STOP_VIF_PS OR RWNX_TXQ_STOP_CHAN"
definition RWNX_TXQ_NDEV_FLOW_CTRL :: u8 where "RWNX_TXQ_NDEV_FLOW_CTRL = 128"

text \<open>
  \<open>credits\<close> is a signed octet.  Of a station the model keeps the power-save state, its interface and
  the TIDs that use U-APSD.
\<close>

record rwnx_txq =
  txq_idx :: u16
  status :: u8
  credits :: "8 word"
  pkt_sent :: u8
  pkt_pushed :: u8
  sk_list :: "nat list"
  last_retry_skb :: "nat option"
  nb_retry :: int
  txq_hwq :: nat
  push_limit :: u8
  txq_tid :: nat
  txq_sta :: "nat option"
  ps_id :: nat
  ndev_idx :: u16

record rwnx_hwq =
  hwq_list :: "nat list"
  hwq_size :: u8
  need_processing :: bool

record tx_sta =
  ps_active :: bool
  pkt_ready :: "u16 list"
  sp_cnt :: "u16 list"
  sta_vif_idx :: nat
  uapsd_tids :: u16

text \<open>
  \<open>remote_sta_max\<close> is \<open>NX_REMOTE_STA_MAX\<close> of the chip (32, or 10 for the older ones), \<open>stas\<close> the station table
  with the broadcast station of each interface after the remote ones,
  \<open>ndev_stopped\<close> are the netdev subqueues stopped, \<open>tx_out\<close> the packets given to the bus with their
  queue, \<open>cfm_balance\<close> the packets given to each hardware queue and not confirmed.
\<close>

record tx_env =
  txqs :: "rwnx_txq list"
  hwqs :: "rwnx_hwq list"
  stas :: "tx_sta list"
  remote_sta_max :: nat
  ndev_stopped :: "u16 list"
  tx_out :: "(nat \<times> nat) list"
  cfm_balance :: "int list"

abbreviation txq_at :: "tx_env \<Rightarrow> nat \<Rightarrow> rwnx_txq" where "txq_at e t \<equiv> txqs e ! t"
abbreviation sta_at :: "tx_env \<Rightarrow> nat \<Rightarrow> tx_sta" where "sta_at e s \<equiv> stas e ! s"
abbreviation hwq_at :: "tx_env \<Rightarrow> nat \<Rightarrow> rwnx_hwq" where "hwq_at e h \<equiv> hwqs e ! h"

definition upd_txq :: "nat \<Rightarrow> (rwnx_txq \<Rightarrow> rwnx_txq) \<Rightarrow> tx_env \<Rightarrow> tx_env" where
  "upd_txq t f e = e\<lparr>txqs := (txqs e)[t := f (txq_at e t)]\<rparr>"

definition upd_hwq :: "nat \<Rightarrow> (rwnx_hwq \<Rightarrow> rwnx_hwq) \<Rightarrow> tx_env \<Rightarrow> tx_env" where
  "upd_hwq h f e = e\<lparr>hwqs := (hwqs e)[h := f (hwq_at e h)]\<rparr>"

definition rwnx_txq_is_stopped :: "rwnx_txq \<Rightarrow> bool" where
  "rwnx_txq_is_stopped q \<longleftrightarrow> status q AND RWNX_TXQ_STOP \<noteq> 0"

definition rwnx_txq_is_full :: "rwnx_txq \<Rightarrow> bool" where
  "rwnx_txq_is_full q \<longleftrightarrow> status q AND RWNX_TXQ_STOP_FULL \<noteq> 0"

definition rwnx_txq_is_scheduled :: "rwnx_txq \<Rightarrow> bool" where
  "rwnx_txq_is_scheduled q \<longleftrightarrow> status q AND RWNX_TXQ_IN_HWQ_LIST \<noteq> 0"

definition rwnx_txq_skb_ready :: "rwnx_txq \<Rightarrow> bool" where
  "rwnx_txq_skb_ready q \<longleftrightarrow> sk_list q \<noteq> []"

subsection \<open>Numbering\<close>

text \<open>\<open>n\<close> is \<open>NX_REMOTE_STA_MAX\<close>: 32, or 10 for the older chips.\<close>

definition NX_NB_TID_PER_STA :: nat where "NX_NB_TID_PER_STA = 8"
definition NX_NB_TXQ_PER_STA :: nat where "NX_NB_TXQ_PER_STA = NX_NB_TID_PER_STA + 1"
definition NX_NB_TXQ_PER_VIF :: nat where "NX_NB_TXQ_PER_VIF = 2"
definition NX_VIRT_DEV_MAX :: nat where "NX_VIRT_DEV_MAX = 4"
definition NX_BCMC_TXQ_TYPE :: nat where "NX_BCMC_TXQ_TYPE = 0"
definition NX_UNK_TXQ_TYPE :: nat where "NX_UNK_TXQ_TYPE = 1"

definition NX_FIRST_VIF_TXQ_IDX :: "nat \<Rightarrow> nat" where "NX_FIRST_VIF_TXQ_IDX n = n * NX_NB_TXQ_PER_STA"
definition NX_FIRST_UNK_TXQ_IDX :: "nat \<Rightarrow> nat" where
  "NX_FIRST_UNK_TXQ_IDX n = NX_FIRST_VIF_TXQ_IDX n + NX_VIRT_DEV_MAX"
definition NX_OFF_CHAN_TXQ_IDX :: "nat \<Rightarrow> nat" where
  "NX_OFF_CHAN_TXQ_IDX n = NX_FIRST_VIF_TXQ_IDX n + NX_VIRT_DEV_MAX * NX_NB_TXQ_PER_VIF"
definition NX_NB_TXQ :: "nat \<Rightarrow> nat" where
  "NX_NB_TXQ n = NX_NB_TXQ_PER_STA * n + NX_NB_TXQ_PER_VIF * NX_VIRT_DEV_MAX + 1"
definition NX_BCMC_TXQ_NDEV_IDX :: "nat \<Rightarrow> nat" where "NX_BCMC_TXQ_NDEV_IDX n = NX_NB_TID_PER_STA * n"
definition NX_STA_NDEV_IDX :: "nat \<Rightarrow> nat \<Rightarrow> nat" where "NX_STA_NDEV_IDX tid sta_idx = tid + sta_idx * NX_NB_TID_PER_STA"

definition is_multicast_sta :: "nat \<Rightarrow> nat \<Rightarrow> bool" where
  "is_multicast_sta n sta_idx \<longleftrightarrow> n \<le> sta_idx"

definition rwnx_txq_sta_idx :: "nat \<Rightarrow> nat \<Rightarrow> nat \<Rightarrow> nat \<Rightarrow> nat" where
  "rwnx_txq_sta_idx n sta_idx vif_idx tid =
     (if is_multicast_sta n sta_idx then NX_FIRST_VIF_TXQ_IDX n + vif_idx else sta_idx * NX_NB_TXQ_PER_STA + tid)"

definition rwnx_txq_vif_idx :: "nat \<Rightarrow> nat \<Rightarrow> nat \<Rightarrow> nat" where
  "rwnx_txq_vif_idx n vif_index type = NX_FIRST_VIF_TXQ_IDX n + vif_index + type * NX_VIRT_DEV_MAX"

definition rwnx_txq_sta_get :: "nat \<Rightarrow> nat \<Rightarrow> nat \<Rightarrow> nat \<Rightarrow> nat" where
  "rwnx_txq_sta_get n sta_idx vif_idx tid =
     rwnx_txq_sta_idx n sta_idx vif_idx (if NX_NB_TXQ_PER_STA \<le> tid then 0 else tid)"

definition rwnx_txq_vif_get :: "nat \<Rightarrow> nat \<Rightarrow> nat \<Rightarrow> nat" where
  "rwnx_txq_vif_get n vif_index type =
     rwnx_txq_vif_idx n vif_index (if NX_UNK_TXQ_TYPE < type then NX_BCMC_TXQ_TYPE else type)"

subsection \<open>Creation and deletion\<close>

definition rwnx_txq_init :: "nat \<Rightarrow> nat \<Rightarrow> u8 \<Rightarrow> nat \<Rightarrow> nat \<Rightarrow> nat option \<Rightarrow> rwnx_txq" where
  "rwnx_txq_init n idx st hwq tid sta =
     \<lparr>txq_idx = of_nat idx, status = st, credits = NX_TXQ_INITIAL_CREDITS, pkt_sent = 0, pkt_pushed = 0,
      sk_list = [], last_retry_skb = None, nb_retry = 0, txq_hwq = hwq, push_limit = 0, txq_tid = tid,
      txq_sta = sta, ps_id = LEGACY_PS_ID,
      ndev_idx = (if idx < NX_FIRST_VIF_TXQ_IDX n
                  then let tid = idx - the sta * NX_NB_TXQ_PER_STA
                       in if tid < NX_NB_TID_PER_STA then of_nat (NX_STA_NDEV_IDX tid (the sta)) else NDEV_NO_TXQ
                  else if idx < NX_FIRST_UNK_TXQ_IDX n then of_nat (NX_BCMC_TXQ_NDEV_IDX n)
                  else NDEV_NO_TXQ)\<rparr>"

definition rwnx_txq_add_to_hw_list :: "nat \<Rightarrow> tx_env \<Rightarrow> tx_env" where
  "rwnx_txq_add_to_hw_list t e =
     (if status (txq_at e t) AND RWNX_TXQ_IN_HWQ_LIST = 0
      then upd_hwq (txq_hwq (txq_at e t)) (\<lambda>h. h\<lparr>hwq_list := hwq_list h @ [t], need_processing := True\<rparr>)
             (upd_txq t (\<lambda>q. q\<lparr>status := status q OR RWNX_TXQ_IN_HWQ_LIST\<rparr>) e)
      else e)"

definition rwnx_txq_del_from_hw_list :: "nat \<Rightarrow> tx_env \<Rightarrow> tx_env" where
  "rwnx_txq_del_from_hw_list t e =
     (if status (txq_at e t) AND RWNX_TXQ_IN_HWQ_LIST \<noteq> 0
      then upd_hwq (txq_hwq (txq_at e t)) (\<lambda>h. h\<lparr>hwq_list := remove1 t (hwq_list h)\<rparr>)
             (upd_txq t (\<lambda>q. q\<lparr>status := status q AND NOT RWNX_TXQ_IN_HWQ_LIST\<rparr>) e)
      else e)"

definition rwnx_txq_flush :: "nat \<Rightarrow> tx_env \<Rightarrow> tx_env" where
  "rwnx_txq_flush t = upd_txq t (\<lambda>q. q\<lparr>sk_list := []\<rparr>)"

definition rwnx_txq_deinit :: "nat \<Rightarrow> tx_env \<Rightarrow> tx_env" where
  "rwnx_txq_deinit t e =
     (if txq_idx (txq_at e t) = TXQ_INACTIVE then e
      else rwnx_txq_flush t (upd_txq t (\<lambda>q. q\<lparr>txq_idx := TXQ_INACTIVE\<rparr>) (rwnx_txq_del_from_hw_list t e)))"

subsection \<open>Starting, stopping, queueing\<close>

definition rwnx_txq_start :: "nat \<Rightarrow> u8 \<Rightarrow> tx_env \<Rightarrow> tx_env" where
  "rwnx_txq_start t reason e =
     (if txq_idx (txq_at e t) \<noteq> TXQ_INACTIVE \<and> status (txq_at e t) AND reason \<noteq> 0
      then let e = upd_txq t (\<lambda>q. q\<lparr>status := status q AND NOT reason\<rparr>) e
           in if \<not> rwnx_txq_is_stopped (txq_at e t) \<and> rwnx_txq_skb_ready (txq_at e t)
              then rwnx_txq_add_to_hw_list t e else e
      else e)"

definition rwnx_txq_stop :: "nat \<Rightarrow> u8 \<Rightarrow> tx_env \<Rightarrow> tx_env" where
  "rwnx_txq_stop t reason e =
     (if txq_idx (txq_at e t) \<noteq> TXQ_INACTIVE
      then rwnx_txq_del_from_hw_list t (upd_txq t (\<lambda>q. q\<lparr>status := status q OR reason\<rparr>) e)
      else e)"

text \<open>\<open>foreach_sta_txq\<close>: one queue for a multicast station, nine otherwise.\<close>

definition sta_txqs :: "tx_env \<Rightarrow> nat \<Rightarrow> nat list" where
  "sta_txqs e s =
     (let t = rwnx_txq_sta_get (remote_sta_max e) s (sta_vif_idx (sta_at e s)) 0
      in [t..<t + (if is_multicast_sta (remote_sta_max e) s then 1 else NX_NB_TXQ_PER_STA)])"

definition rwnx_txq_sta_start :: "nat \<Rightarrow> u8 \<Rightarrow> tx_env \<Rightarrow> tx_env" where
  "rwnx_txq_sta_start s reason e = fold (\<lambda>t. rwnx_txq_start t reason) (sta_txqs e s) e"

definition rwnx_txq_sta_stop :: "nat \<Rightarrow> u8 \<Rightarrow> tx_env \<Rightarrow> tx_env" where
  "rwnx_txq_sta_stop s reason e = fold (\<lambda>t. rwnx_txq_stop t reason) (sta_txqs e s) e"

definition insert_after :: "nat \<Rightarrow> nat \<Rightarrow> nat list \<Rightarrow> nat list" where
  "insert_after old skb xs = takeWhile (\<lambda>x. x \<noteq> old) xs @ old # skb # tl (dropWhile (\<lambda>x. x \<noteq> old) xs)"

text \<open>
  \<open>rwnx_txq_queue_skb\<close>.  A retried packet goes before the new ones, after the retried packets that
  are there.  The traffic indication to the firmware for a sleeping station is an output of the
  driver and not kept.
\<close>

definition bump :: "nat \<Rightarrow> u16 list \<Rightarrow> u16 list" where "bump i xs = xs[i := xs ! i + 1]"
definition drop_one :: "nat \<Rightarrow> u16 list \<Rightarrow> u16 list" where "drop_one i xs = xs[i := xs ! i - 1]"

definition ps_of :: "tx_env \<Rightarrow> nat \<Rightarrow> tx_sta option" where
  "ps_of e t = (case txq_sta (txq_at e t) of None \<Rightarrow> None
     | Some s \<Rightarrow> if ps_active (sta_at e s) then Some (sta_at e s) else None)"

definition upd_sta :: "nat \<Rightarrow> (tx_sta \<Rightarrow> tx_sta) \<Rightarrow> tx_env \<Rightarrow> tx_env" where
  "upd_sta s f e = e\<lparr>stas := (stas e)[s := f (sta_at e s)]\<rparr>"

definition upd_ps :: "nat \<Rightarrow> (tx_sta \<Rightarrow> tx_sta) \<Rightarrow> tx_env \<Rightarrow> tx_env" where
  "upd_ps t f e = (case txq_sta (txq_at e t) of None \<Rightarrow> e | Some s \<Rightarrow> upd_sta s f e)"

definition enqueue_skb :: "nat \<Rightarrow> bool \<Rightarrow> rwnx_txq \<Rightarrow> rwnx_txq" where
  "enqueue_skb skb retry q =
     (if \<not> retry then q\<lparr>sk_list := sk_list q @ [skb]\<rparr>
      else (q\<lparr>sk_list := (case last_retry_skb q of Some old \<Rightarrow> insert_after old skb (sk_list q) | None \<Rightarrow> skb # sk_list q)\<rparr>)
             \<lparr>last_retry_skb := Some skb, nb_retry := nb_retry q + 1\<rparr>)"

definition note_ps_packet :: "nat \<Rightarrow> tx_env \<Rightarrow> tx_env" where
  "note_ps_packet t e =
     (if ps_of e t \<noteq> None
      then upd_ps t (\<lambda>ps. ps\<lparr>pkt_ready := bump (ps_id (txq_at e t)) (pkt_ready ps)\<rparr>) e else e)"

definition stop_netdev :: "nat \<Rightarrow> tx_env \<Rightarrow> tx_env" where
  "stop_netdev t e =
     (let q = txq_at e t in
      if ndev_idx q \<noteq> NDEV_NO_TXQ \<and> RWNX_NDEV_FLOW_CTRL_STOP < length (sk_list q)
      then (upd_txq t (\<lambda>q. q\<lparr>status := status q OR RWNX_TXQ_NDEV_FLOW_CTRL\<rparr>) e)
             \<lparr>ndev_stopped := List.insert (ndev_idx q) (ndev_stopped e)\<rparr>
      else e)"

definition rwnx_txq_queue_skb :: "nat \<Rightarrow> nat \<Rightarrow> bool \<Rightarrow> tx_env \<Rightarrow> tx_env \<times> bool" where
  "rwnx_txq_queue_skb skb t retry e =
     (let e = stop_netdev t (upd_txq t (enqueue_skb skb retry) (note_ps_packet t e))
      in if \<not> rwnx_txq_is_stopped (txq_at e t) then (rwnx_txq_add_to_hw_list t e, True) else (e, False))"

definition rwnx_txq_confirm_any :: "nat \<Rightarrow> nat \<Rightarrow> tx_env \<Rightarrow> tx_env" where
  "rwnx_txq_confirm_any t hwq e =
     (let e = (if pkt_pushed (txq_at e t) \<noteq> 0 then upd_txq t (\<lambda>q. q\<lparr>pkt_pushed := pkt_pushed q - 1\<rparr>) e else e);
          e = upd_hwq hwq (\<lambda>h. h\<lparr>need_processing := True\<rparr>) e
      in e\<lparr>cfm_balance := (cfm_balance e)[hwq := cfm_balance e ! hwq - 1]\<rparr>)"

subsection \<open>Pushing\<close>

text \<open>\<open>rwnx_set_more_data_flag\<close> on the counters (the descriptor flags go with the packet).\<close>

definition rwnx_set_more_data_flag :: "nat \<Rightarrow> tx_env \<Rightarrow> tx_env" where
  "rwnx_set_more_data_flag t e =
     (if ps_of e t \<noteq> None
      then upd_ps t (\<lambda>ps. ps\<lparr>pkt_ready := drop_one (ps_id (txq_at e t)) (pkt_ready ps),
                            sp_cnt := drop_one (ps_id (txq_at e t)) (sp_cnt ps)\<rparr>) e
      else e)"

definition rwnx_tx_push :: "nat \<Rightarrow> nat \<Rightarrow> tx_env \<Rightarrow> tx_env" where
  "rwnx_tx_push t skb e =
     (let q = txq_at e t;
          e = (if nb_retry q \<noteq> 0
               then upd_txq t (\<lambda>q. q\<lparr>nb_retry := nb_retry q - 1,
                                     last_retry_skb := (if nb_retry q - 1 = 0 then None else last_retry_skb q)\<rparr>) e
               else upd_txq t (\<lambda>q. q\<lparr>pkt_sent := pkt_sent q + 1\<rparr>) e);
          e = rwnx_set_more_data_flag t e;
          e = upd_txq t (\<lambda>q. q\<lparr>pkt_pushed := pkt_pushed q + 1,
                               push_limit := (if push_limit q \<noteq> 0 then push_limit q - 1 else push_limit q)\<rparr>) e
      in e\<lparr>tx_out := tx_out e @ [(t, skb)],
           cfm_balance := (cfm_balance e)[txq_hwq q := cfm_balance e ! txq_hwq q + 1]\<rparr>)"

definition rwnx_txq_get_credits :: "rwnx_txq \<Rightarrow> int" where
  "rwnx_txq_get_credits q =
     (if push_limit q \<noteq> 0 \<and> uint (push_limit q) < sint (credits q)
      then sint (ucast (push_limit q) :: 8 word) else sint (credits q))"

text \<open>What is taken off the queue, what stays, and whether the queue is done for now.\<close>

definition rwnx_txq_get_skb_to_push :: "rwnx_txq \<Rightarrow> nat list \<times> nat list \<times> bool" where
  "rwnx_txq_get_skb_to_push q =
     (let nb_ready = int (length (sk_list q)); cred = rwnx_txq_get_credits q in
      if nb_ready \<le> cred then (sk_list q, [], True)
      else (take (nat cred) (sk_list q), drop (nat cred) (sk_list q),
            push_limit q \<noteq> 0 \<and> cred = uint (push_limit q)))"

text \<open>
  A visit of a queue in \<open>rwnx_hwq_process\<close>: push, leave the list or give way to the next queue, abort a
  legacy service period that could not be completed, and wake the netdev queue.
\<close>

definition leave_or_rotate :: "nat \<Rightarrow> nat \<Rightarrow> bool \<Rightarrow> tx_env \<Rightarrow> tx_env" where
  "leave_or_rotate h t txq_empty e =
     (if txq_empty then upd_txq t (\<lambda>q. q\<lparr>pkt_sent := 0\<rparr>) (rwnx_txq_del_from_hw_list t e)
      else if rwnx_txq_is_scheduled (txq_at e t) \<and> hwq_size (hwq_at e h) < pkt_sent (txq_at e t)
      then upd_hwq h (\<lambda>hw. hw\<lparr>hwq_list := rotate1 (hwq_list hw)\<rparr>) (upd_txq t (\<lambda>q. q\<lparr>pkt_sent := 0\<rparr>) e)
      else e)"

definition abort_service :: "nat \<Rightarrow> tx_env \<Rightarrow> tx_env" where
  "abort_service t e =
     (let q = txq_at e t in
      if push_limit q \<noteq> 0 \<and> txq_sta q \<noteq> None \<and> ps_id q = LEGACY_PS_ID
      then upd_txq t (\<lambda>q. q\<lparr>push_limit := 0\<rparr>)
             (upd_ps t (\<lambda>ps. ps\<lparr>sp_cnt := (sp_cnt ps)[ps_id q := sp_cnt ps ! ps_id q - ucast (push_limit q)]\<rparr>) e)
      else e)"

definition restart_netdev :: "nat \<Rightarrow> tx_env \<Rightarrow> tx_env" where
  "restart_netdev t e =
     (let q = txq_at e t in
      if status q AND RWNX_TXQ_NDEV_FLOW_CTRL \<noteq> 0 \<and> length (sk_list q) < RWNX_NDEV_FLOW_CTRL_RESTART
      then (upd_txq t (\<lambda>q. q\<lparr>status := status q AND NOT RWNX_TXQ_NDEV_FLOW_CTRL\<rparr>) e)
             \<lparr>ndev_stopped := removeAll (ndev_idx q) (ndev_stopped e)\<rparr>
      else e)"

definition process_txq :: "nat \<Rightarrow> nat \<Rightarrow> tx_env \<Rightarrow> tx_env" where
  "process_txq h t e =
     (let (out, rest, txq_empty) = rwnx_txq_get_skb_to_push (txq_at e t)
      in restart_netdev t (abort_service t (leave_or_rotate h t txq_empty
           (fold (rwnx_tx_push t) out (upd_txq t (\<lambda>q. q\<lparr>sk_list := rest\<rparr>) e)))))"

fun next_in :: "nat list \<Rightarrow> nat \<Rightarrow> nat option" where
  "next_in [] t = None"
| "next_in (x # xs) t = (if x = t then (case xs of [] \<Rightarrow> None | y # _ \<Rightarrow> Some y) else next_in xs t)"

datatype tx_outcome = Tx_done tx_env | Tx_bug | Tx_running

text \<open>
  The loop of \<open>rwnx_hwq_process\<close>: \<open>cur\<close> is the queue visited, its successor is read before it is
  processed (\<open>list_for_each_entry_safe\<close>), so a rotation can bring it back.  \<open>Tx_bug\<close> is a failed
  \<open>BUG_ON\<close>, \<open>Tx_running\<close> means that the fuel was not enough.
\<close>

fun hwq_loop :: "nat \<Rightarrow> nat \<Rightarrow> nat option \<Rightarrow> tx_env \<Rightarrow> tx_outcome" where
  "hwq_loop fuel h None e = Tx_done e"
| "hwq_loop 0 h (Some t) e = Tx_running"
| "hwq_loop (Suc fuel) h (Some t) e =
     (let q = txq_at e t; nxt = next_in (hwq_list (hwq_at e h)) t in
      if status q AND RWNX_TXQ_IN_HWQ_LIST = 0 then Tx_bug
      else if txq_idx q = TXQ_INACTIVE then hwq_loop fuel h nxt e
      else if sint (credits q) \<le> 0 \<or> \<not> rwnx_txq_skb_ready q then Tx_bug
      else hwq_loop fuel h nxt (process_txq h t e))"

definition queued :: "tx_env \<Rightarrow> nat" where
  "queued e = sum_list (map (\<lambda>q. length (sk_list q)) (txqs e))"

text \<open>Every visit pushes a packet, so the packets queued, and one, are enough fuel.\<close>

definition rwnx_hwq_process :: "nat \<Rightarrow> tx_env \<Rightarrow> tx_outcome" where
  "rwnx_hwq_process h e =
     hwq_loop (Suc (queued e)) h (case hwq_list (hwq_at e h) of [] \<Rightarrow> None | t # _ \<Rightarrow> Some t)
       (upd_hwq h (\<lambda>hw. hw\<lparr>need_processing := False\<rparr>) e)"

text \<open>All hardware queues that need it, the last first.\<close>

fun process_all :: "nat \<Rightarrow> tx_env \<Rightarrow> tx_outcome" where
  "process_all 0 e = Tx_done e"
| "process_all (Suc h) e =
     (if need_processing (hwq_at e h)
      then case rwnx_hwq_process h e of Tx_done e \<Rightarrow> process_all h e | r \<Rightarrow> r
      else process_all h e)"

definition rwnx_hwq_process_all :: "tx_env \<Rightarrow> tx_outcome" where
  "rwnx_hwq_process_all e = process_all (length (hwqs e)) e"

definition rwnx_tx_retry :: "nat \<Rightarrow> nat \<Rightarrow> tx_env \<Rightarrow> tx_env" where
  "rwnx_tx_retry skb t e =
     (let e = upd_txq t (\<lambda>q. q\<lparr>credits := credits q + 1\<rparr>) e;
          e = (if 0 < sint (credits (txq_at e t)) then rwnx_txq_start t RWNX_TXQ_STOP_FULL e else e)
      in fst (rwnx_txq_queue_skb skb t True e))"

definition rwnx_txq_credit_update :: "nat \<Rightarrow> tx_env \<Rightarrow> tx_env" where
  "rwnx_txq_credit_update t e =
     (if txq_idx (txq_at e t) \<noteq> TXQ_INACTIVE
      then if sint (credits (txq_at e t)) \<le> 0 then rwnx_txq_stop t RWNX_TXQ_STOP_FULL e
           else rwnx_txq_start t RWNX_TXQ_STOP_FULL e
      else e)"

subsection \<open>Status bits\<close>

lemma txq_flag_pow:
  "RWNX_TXQ_IN_HWQ_LIST = 2 ^ 0" "RWNX_TXQ_STOP_FULL = 2 ^ 1" "RWNX_TXQ_STOP_CSA = 2 ^ 2"
  "RWNX_TXQ_STOP_STA_PS = 2 ^ 3" "RWNX_TXQ_STOP_VIF_PS = 2 ^ 4" "RWNX_TXQ_STOP_CHAN = 2 ^ 5"
  "RWNX_TXQ_NDEV_FLOW_CTRL = 2 ^ 7"
  by (simp_all add: RWNX_TXQ_IN_HWQ_LIST_def RWNX_TXQ_STOP_FULL_def RWNX_TXQ_STOP_CSA_def RWNX_TXQ_STOP_STA_PS_def
      RWNX_TXQ_STOP_VIF_PS_def RWNX_TXQ_STOP_CHAN_def RWNX_TXQ_NDEV_FLOW_CTRL_def)

lemma status_tests:
  "x AND RWNX_TXQ_IN_HWQ_LIST = 0 \<longleftrightarrow> \<not> bit x 0"
  "x AND RWNX_TXQ_STOP_FULL = 0 \<longleftrightarrow> \<not> bit x 1"
  "x AND RWNX_TXQ_STOP_STA_PS = 0 \<longleftrightarrow> \<not> bit x 3"
  "x AND RWNX_TXQ_NDEV_FLOW_CTRL = 0 \<longleftrightarrow> \<not> bit x 7"
  "x AND RWNX_TXQ_STOP = 0 \<longleftrightarrow> \<not> (bit x 1 \<or> bit x 2 \<or> bit x 3 \<or> bit x 4 \<or> bit x 5)"
  unfolding RWNX_TXQ_STOP_def and_or_zero txq_flag_pow and_exp_eq_0_iff_not_bit by auto

lemma status_bits:
  "bit (x OR RWNX_TXQ_IN_HWQ_LIST) n \<longleftrightarrow> n = 0 \<or> bit x n"
  "bit (x AND NOT RWNX_TXQ_IN_HWQ_LIST) n \<longleftrightarrow> n \<noteq> 0 \<and> bit x n"
  "bit (x OR RWNX_TXQ_NDEV_FLOW_CTRL) n \<longleftrightarrow> n = 7 \<or> bit x n"
  "bit (x AND NOT RWNX_TXQ_NDEV_FLOW_CTRL) n \<longleftrightarrow> n \<noteq> 7 \<and> bit x n"
  unfolding txq_flag_pow by - (rule bit_clear_pow | (rule bit_or_pow, simp))+

lemma txq_tests:
  "rwnx_txq_is_stopped q \<longleftrightarrow> bit (status q) 1 \<or> bit (status q) 2 \<or> bit (status q) 3 \<or> bit (status q) 4 \<or> bit (status q) 5"
  "rwnx_txq_is_full q \<longleftrightarrow> bit (status q) 1"
  "rwnx_txq_is_scheduled q \<longleftrightarrow> bit (status q) 0"
  unfolding rwnx_txq_is_stopped_def rwnx_txq_is_full_def rwnx_txq_is_scheduled_def by (auto simp: status_tests)

subsection \<open>What an operation does to the queues and to the schedule lists\<close>

text \<open>
  Every operation on queue \<open>t\<close> changes the array of queues at \<open>t\<close> only, by a function of the queue; the
  lists of the hardware queues follow the bit \<open>RWNX_TXQ_IN_HWQ_LIST\<close>.
\<close>

abbreviation "sched q \<equiv> bit (status q) 0"
abbreviation "sta_ps_stop q \<equiv> bit (status q) 3"
abbreviation "ndev_fc q \<equiv> bit (status q) 7"
abbreviation "inactive q \<equiv> txq_idx q = TXQ_INACTIVE"

definition q_add :: "rwnx_txq \<Rightarrow> rwnx_txq" where "q_add q = q\<lparr>status := status q OR RWNX_TXQ_IN_HWQ_LIST\<rparr>"
definition q_del :: "rwnx_txq \<Rightarrow> rwnx_txq" where "q_del q = q\<lparr>status := status q AND NOT RWNX_TXQ_IN_HWQ_LIST\<rparr>"

lemma q_add_same: "sched q \<Longrightarrow> q_add q = q"
proof -
  assume "sched q"
  then have "status q OR RWNX_TXQ_IN_HWQ_LIST = status q" by - (rule bit_eqI, auto simp: status_bits)
  then show ?thesis by (simp add: q_add_def)
qed

lemma q_del_same: "\<not> sched q \<Longrightarrow> q_del q = q"
proof -
  assume "\<not> sched q"
  then have "status q AND NOT RWNX_TXQ_IN_HWQ_LIST = status q" by - (rule bit_eqI, auto simp: status_bits intro!: gr0I)
  then show ?thesis by (simp add: q_del_def)
qed

lemma q_sched_frame [simp]:
  "txq_idx (q_add q) = txq_idx q" "credits (q_add q) = credits q" "pkt_sent (q_add q) = pkt_sent q"
  "pkt_pushed (q_add q) = pkt_pushed q" "sk_list (q_add q) = sk_list q" "last_retry_skb (q_add q) = last_retry_skb q"
  "nb_retry (q_add q) = nb_retry q" "txq_hwq (q_add q) = txq_hwq q" "push_limit (q_add q) = push_limit q"
  "txq_sta (q_add q) = txq_sta q" "ps_id (q_add q) = ps_id q" "ndev_idx (q_add q) = ndev_idx q"
  "txq_idx (q_del q) = txq_idx q" "credits (q_del q) = credits q" "pkt_sent (q_del q) = pkt_sent q"
  "pkt_pushed (q_del q) = pkt_pushed q" "sk_list (q_del q) = sk_list q" "last_retry_skb (q_del q) = last_retry_skb q"
  "nb_retry (q_del q) = nb_retry q" "txq_hwq (q_del q) = txq_hwq q" "push_limit (q_del q) = push_limit q"
  "txq_sta (q_del q) = txq_sta q" "ps_id (q_del q) = ps_id q" "ndev_idx (q_del q) = ndev_idx q"
  by (simp_all add: q_add_def q_del_def)

lemma q_sched_bits [simp]:
  "bit (status (q_add q)) n \<longleftrightarrow> n = 0 \<or> bit (status q) n"
  "bit (status (q_del q)) n \<longleftrightarrow> n \<noteq> 0 \<and> bit (status q) n"
  by (simp_all add: q_add_def q_del_def status_bits)

lemma upd_txq_simps [simp]:
  "txqs (upd_txq t f e) = (txqs e)[t := f (txq_at e t)]" "hwqs (upd_txq t f e) = hwqs e"
  "stas (upd_txq t f e) = stas e" "ndev_stopped (upd_txq t f e) = ndev_stopped e" "tx_out (upd_txq t f e) = tx_out e"
  "cfm_balance (upd_txq t f e) = cfm_balance e" "remote_sta_max (upd_txq t f e) = remote_sta_max e"
  by (simp_all add: upd_txq_def)

lemma upd_hwq_simps [simp]:
  "hwqs (upd_hwq h f e) = (hwqs e)[h := f (hwq_at e h)]" "txqs (upd_hwq h f e) = txqs e"
  "stas (upd_hwq h f e) = stas e" "ndev_stopped (upd_hwq h f e) = ndev_stopped e" "tx_out (upd_hwq h f e) = tx_out e"
  "cfm_balance (upd_hwq h f e) = cfm_balance e" "remote_sta_max (upd_hwq h f e) = remote_sta_max e"
  by (simp_all add: upd_hwq_def)

lemma upd_sta_simps [simp]:
  "stas (upd_sta s f e) = (stas e)[s := f (sta_at e s)]" "txqs (upd_sta s f e) = txqs e"
  "hwqs (upd_sta s f e) = hwqs e" "ndev_stopped (upd_sta s f e) = ndev_stopped e" "tx_out (upd_sta s f e) = tx_out e"
  "cfm_balance (upd_sta s f e) = cfm_balance e" "remote_sta_max (upd_sta s f e) = remote_sta_max e"
  by (simp_all add: upd_sta_def)

lemma upd_ps_frame [simp]:
  "txqs (upd_ps t f e) = txqs e" "hwqs (upd_ps t f e) = hwqs e" "ndev_stopped (upd_ps t f e) = ndev_stopped e"
  "tx_out (upd_ps t f e) = tx_out e" "cfm_balance (upd_ps t f e) = cfm_balance e"
  "remote_sta_max (upd_ps t f e) = remote_sta_max e" "length (stas (upd_ps t f e)) = length (stas e)"
  by (simp_all add: upd_ps_def split: option.split)

lemma add_to_hw_frame [simp]:
  "stas (rwnx_txq_add_to_hw_list t e) = stas e" "ndev_stopped (rwnx_txq_add_to_hw_list t e) = ndev_stopped e"
  "tx_out (rwnx_txq_add_to_hw_list t e) = tx_out e" "cfm_balance (rwnx_txq_add_to_hw_list t e) = cfm_balance e"
  "remote_sta_max (rwnx_txq_add_to_hw_list t e) = remote_sta_max e"
  "length (hwqs (rwnx_txq_add_to_hw_list t e)) = length (hwqs e)"
  by (simp_all add: rwnx_txq_add_to_hw_list_def)

lemma del_from_hw_frame [simp]:
  "stas (rwnx_txq_del_from_hw_list t e) = stas e" "ndev_stopped (rwnx_txq_del_from_hw_list t e) = ndev_stopped e"
  "tx_out (rwnx_txq_del_from_hw_list t e) = tx_out e" "cfm_balance (rwnx_txq_del_from_hw_list t e) = cfm_balance e"
  "remote_sta_max (rwnx_txq_del_from_hw_list t e) = remote_sta_max e"
  "length (hwqs (rwnx_txq_del_from_hw_list t e)) = length (hwqs e)"
  by (simp_all add: rwnx_txq_del_from_hw_list_def)

lemma add_to_hw_txqs [simp]: "txqs (rwnx_txq_add_to_hw_list t e) = (txqs e)[t := q_add (txq_at e t)]"
  by (auto simp: rwnx_txq_add_to_hw_list_def status_tests q_add_same simp flip: q_add_def)

lemma del_from_hw_txqs [simp]: "txqs (rwnx_txq_del_from_hw_list t e) = (txqs e)[t := q_del (txq_at e t)]"
  by (auto simp: rwnx_txq_del_from_hw_list_def status_tests q_del_same simp flip: q_del_def)

definition lists_ok :: "tx_env \<Rightarrow> bool" where
  "lists_ok e \<longleftrightarrow> (\<forall>h < length (hwqs e). distinct (hwq_list (hwq_at e h)) \<and>
     (\<forall>t. t \<in> set (hwq_list (hwq_at e h)) \<longleftrightarrow> t < length (txqs e) \<and> sched (txq_at e t) \<and> txq_hwq (txq_at e t) = h))"

lemma lists_ok_upd_txq:
  assumes "lists_ok e" "t < length (txqs e) \<Longrightarrow> sched (f (txq_at e t)) = sched (txq_at e t) \<and> (sched (txq_at e t) \<longrightarrow> txq_hwq (f (txq_at e t)) = txq_hwq (txq_at e t))"
  shows "lists_ok (upd_txq t f e)"
  using assms by (cases "t < length (txqs e)") (auto simp: lists_ok_def nth_list_update)

lemma lists_ok_cong:
  "txqs e' = txqs e \<Longrightarrow> hwqs e' = hwqs e \<Longrightarrow> lists_ok e' = lists_ok e"
  by (simp add: lists_ok_def)

lemma lists_ok_upd_hwq:
  "lists_ok e \<Longrightarrow> (h < length (hwqs e) \<Longrightarrow> distinct (hwq_list (f (hwq_at e h))) = distinct (hwq_list (hwq_at e h)) \<and>
     set (hwq_list (f (hwq_at e h))) = set (hwq_list (hwq_at e h))) \<Longrightarrow> lists_ok (upd_hwq h f e)"
  by (cases "h < length (hwqs e)") (auto simp: lists_ok_def nth_list_update)

lemma lists_ok_add:
  assumes "lists_ok e" "t < length (txqs e)" "txq_hwq (txq_at e t) < length (hwqs e)"
  shows "lists_ok (rwnx_txq_add_to_hw_list t e)"
  using assms by (auto simp: lists_ok_def rwnx_txq_add_to_hw_list_def nth_list_update status_tests status_bits)

lemma lists_ok_del:
  assumes "lists_ok e" "t < length (txqs e)" "txq_hwq (txq_at e t) < length (hwqs e)"
  shows "lists_ok (rwnx_txq_del_from_hw_list t e)"
  using assms by (auto simp: lists_ok_def rwnx_txq_del_from_hw_list_def nth_list_update status_tests status_bits)

subsection \<open>A queue on its own\<close>

text \<open>
  \<open>txq_ok\<close> is the invariant of one queue, \<open>nh\<close> the number of hardware queues: it has credits; an inactive
  queue is empty, not scheduled, and owes no credits; a scheduled queue has packets; a queue with packets that is not
  stopped is scheduled; the retried packets come first and \<open>last_retry_skb\<close> is the last of them; a
  push limit is for a sleeping station and within the packets and the credits.
\<close>

definition retry_ok :: "rwnx_txq \<Rightarrow> bool" where
  "retry_ok q \<longleftrightarrow> 0 \<le> nb_retry q \<and> nb_retry q \<le> int (length (sk_list q)) \<and>
     last_retry_skb q = (if nb_retry q = 0 then None else Some (sk_list q ! (nat (nb_retry q) - 1)))"

definition limit_ok :: "rwnx_txq \<Rightarrow> bool" where
  "limit_ok q \<longleftrightarrow> push_limit q \<noteq> 0 \<longrightarrow> sta_ps_stop q \<and> unat (push_limit q) \<le> length (sk_list q) \<and> uint (push_limit q) \<le> sint (credits q)"

definition txq_ok :: "nat \<Rightarrow> rwnx_txq \<Rightarrow> bool" where
  "txq_ok nh q \<longleftrightarrow> txq_hwq q < nh \<and> distinct (sk_list q) \<and>
     (inactive q \<longrightarrow> \<not> sched q \<and> sk_list q = [] \<and> 0 \<le> sint (credits q)) \<and>
     (\<not> inactive q \<longrightarrow> 0 < sint (credits q) \<and> (sched q \<longrightarrow> sk_list q \<noteq> []) \<and>
        (\<not> rwnx_txq_is_stopped q \<longrightarrow> sk_list q \<noteq> [] \<longrightarrow> sched q) \<and> retry_ok q \<and> limit_ok q)"

lemma txq_okI [intro?]:
  assumes "txq_hwq q < nh" "distinct (sk_list q)" "inactive q \<Longrightarrow> \<not> sched q \<and> sk_list q = [] \<and> 0 \<le> sint (credits q)"
    "\<not> inactive q \<Longrightarrow> 0 < sint (credits q)" "\<not> inactive q \<Longrightarrow> sched q \<Longrightarrow> sk_list q \<noteq> []"
    "\<not> inactive q \<Longrightarrow> \<not> rwnx_txq_is_stopped q \<Longrightarrow> sk_list q \<noteq> [] \<Longrightarrow> sched q"
    "\<not> inactive q \<Longrightarrow> retry_ok q" "\<not> inactive q \<Longrightarrow> limit_ok q"
  shows "txq_ok nh q"
  using assms by (simp add: txq_ok_def)

lemma txq_okD:
  assumes "txq_ok nh q"
  shows "txq_hwq q < nh" "distinct (sk_list q)" "inactive q \<Longrightarrow> \<not> sched q" "inactive q \<Longrightarrow> sk_list q = []"
    "\<not> inactive q \<Longrightarrow> 0 < sint (credits q)" "sched q \<Longrightarrow> \<not> inactive q" "sched q \<Longrightarrow> sk_list q \<noteq> []"
    "\<not> inactive q \<Longrightarrow> \<not> rwnx_txq_is_stopped q \<Longrightarrow> sk_list q \<noteq> [] \<Longrightarrow> sched q"
    "\<not> inactive q \<Longrightarrow> retry_ok q" "\<not> inactive q \<Longrightarrow> limit_ok q" "0 \<le> sint (credits q)"
  using assms by (auto simp: txq_ok_def)

text \<open>Pushing: what \<open>rwnx_tx_push\<close> does to the queue, once and \<open>n\<close> times.\<close>

definition q_push :: "rwnx_txq \<Rightarrow> rwnx_txq" where
  "q_push q =
     (let q = (if nb_retry q \<noteq> 0
               then q\<lparr>nb_retry := nb_retry q - 1, last_retry_skb := (if nb_retry q - 1 = 0 then None else last_retry_skb q)\<rparr>
               else q\<lparr>pkt_sent := pkt_sent q + 1\<rparr>)
      in q\<lparr>pkt_pushed := pkt_pushed q + 1, push_limit := (if push_limit q \<noteq> 0 then push_limit q - 1 else push_limit q)\<rparr>)"

lemma q_push_frame [simp]:
  "txq_idx (q_push q) = txq_idx q" "status (q_push q) = status q" "credits (q_push q) = credits q"
  "sk_list (q_push q) = sk_list q" "txq_hwq (q_push q) = txq_hwq q" "txq_sta (q_push q) = txq_sta q"
  "ps_id (q_push q) = ps_id q" "ndev_idx (q_push q) = ndev_idx q"
  by (simp_all add: q_push_def Let_def)

lemma q_pushes_frame [simp]:
  "txq_idx ((q_push ^^ n) q) = txq_idx q" "status ((q_push ^^ n) q) = status q" "credits ((q_push ^^ n) q) = credits q"
  "sk_list ((q_push ^^ n) q) = sk_list q" "txq_hwq ((q_push ^^ n) q) = txq_hwq q" "txq_sta ((q_push ^^ n) q) = txq_sta q"
  "ps_id ((q_push ^^ n) q) = ps_id q" "ndev_idx ((q_push ^^ n) q) = ndev_idx q"
  by (induction n) auto

lemma q_pushes_retry:
  assumes "0 \<le> nb_retry q" "nb_retry q = 0 \<longrightarrow> last_retry_skb q = None"
  shows "nb_retry ((q_push ^^ n) q) = (if nb_retry q \<le> int n then 0 else nb_retry q - int n)"
    "last_retry_skb ((q_push ^^ n) q) = (if nb_retry q \<le> int n then None else last_retry_skb q)"
  using assms by (induction n) (auto simp: q_push_def Let_def)

lemma unat_dec: "x \<noteq> 0 \<Longrightarrow> unat (x - 1 :: 'a::len word) = unat x - 1"
  by (simp add: unat_minus_one)

lemma q_pushes_limit: "unat (push_limit ((q_push ^^ n) q)) = unat (push_limit q) - n"
  by (induction n) (auto simp: q_push_def Let_def unat_dec unat_eq_0)

end
