(* ===== verification/Tx_Sched.thy ===== *)
theory Tx_Sched
  imports Tx_Queue
begin

text \<open>
  The scheduling of the transmit queues (\<^verbatim>\<open>rwnx_txq.c\<close>, \<^verbatim>\<open>rwnx_tx.c\<close>): the loop over a hardware queue never
  meets a failed assertion, ends, and takes the packets of each queue from its front.
\<close>

unbundle bit_operations_syntax

subsection \<open>Pushing the packets of a queue\<close>

lemma push_txqs [simp]: "txqs (rwnx_tx_push t skb e) = (txqs e)[t := q_push (txq_at e t)]"
proof (cases "t < length (txqs e)")
  case True
  then show ?thesis
    by (simp add: rwnx_tx_push_def q_push_def rwnx_set_more_data_flag_def Let_def)
next
  case False
  then show ?thesis
    by (simp add: rwnx_tx_push_def rwnx_set_more_data_flag_def Let_def list_update_beyond not_less)
qed

lemma push_frame [simp]:
  "hwqs (rwnx_tx_push t skb e) = hwqs e" "ndev_stopped (rwnx_tx_push t skb e) = ndev_stopped e"
  "remote_sta_max (rwnx_tx_push t skb e) = remote_sta_max e" "tx_out (rwnx_tx_push t skb e) = tx_out e @ [(t, skb)]"
  by (simp_all add: rwnx_tx_push_def rwnx_set_more_data_flag_def Let_def)

lemma pushes_effect:
  "txqs (fold (rwnx_tx_push t) out e) = (txqs e)[t := (q_push ^^ length out) (txq_at e t)]"
  "hwqs (fold (rwnx_tx_push t) out e) = hwqs e" "ndev_stopped (fold (rwnx_tx_push t) out e) = ndev_stopped e"
  "remote_sta_max (fold (rwnx_tx_push t) out e) = remote_sta_max e"
  "tx_out (fold (rwnx_tx_push t) out e) = tx_out e @ map (Pair t) out"
proof (induction out arbitrary: e)
  case (Cons skb out)
  case 1 show ?case
    by (cases "t < length (txqs e)") (simp_all add: Cons funpow_Suc_right list_update_beyond not_less del: funpow.simps(2))
qed (simp_all)

text \<open>\<open>process_q\<close> is the visit of a queue in \<open>rwnx_hwq_process\<close>, on the queue alone.\<close>

definition q_leave :: "u8 \<Rightarrow> bool \<Rightarrow> rwnx_txq \<Rightarrow> rwnx_txq" where
  "q_leave sz b q = (if b then (q_del q)\<lparr>pkt_sent := 0\<rparr> else if sched q \<and> sz < pkt_sent q then q\<lparr>pkt_sent := 0\<rparr> else q)"

definition q_abort :: "rwnx_txq \<Rightarrow> rwnx_txq" where
  "q_abort q = (if push_limit q \<noteq> 0 \<and> txq_sta q \<noteq> None \<and> ps_id q = LEGACY_PS_ID then q\<lparr>push_limit := 0\<rparr> else q)"

definition q_restart :: "rwnx_txq \<Rightarrow> rwnx_txq" where
  "q_restart q = (if ndev_fc q \<and> length (sk_list q) < RWNX_NDEV_FLOW_CTRL_RESTART
     then q\<lparr>status := status q AND NOT RWNX_TXQ_NDEV_FLOW_CTRL\<rparr> else q)"

definition process_q :: "u8 \<Rightarrow> rwnx_txq \<Rightarrow> rwnx_txq" where
  "process_q sz q =
     (let (out, rest, b) = rwnx_txq_get_skb_to_push q
      in q_restart (q_abort (q_leave sz b ((q_push ^^ length out) (q\<lparr>sk_list := rest\<rparr>)))))"

lemmas q_visit_defs = q_leave_def q_abort_def q_restart_def

lemma leave_txqs:
  "t < length (txqs e) \<Longrightarrow> txqs (leave_or_rotate h t b e) = (txqs e)[t := q_leave (hwq_size (hwq_at e h)) b (txq_at e t)]"
  by (simp add: leave_or_rotate_def q_leave_def txq_tests)

lemma abort_txqs: "txqs (abort_service t e) = (txqs e)[t := q_abort (txq_at e t)]"
  by (simp add: abort_service_def q_abort_def Let_def)

lemma restart_txqs: "txqs (restart_netdev t e) = (txqs e)[t := q_restart (txq_at e t)]"
  by (simp add: restart_netdev_def q_restart_def Let_def status_tests)

lemma visit_frame [simp]:
  "length (hwqs (leave_or_rotate h t b e)) = length (hwqs e)" "remote_sta_max (leave_or_rotate h t b e) = remote_sta_max e"
  "tx_out (leave_or_rotate h t b e) = tx_out e" "stas (leave_or_rotate h t b e) = stas e"
  "ndev_stopped (leave_or_rotate h t b e) = ndev_stopped e" "cfm_balance (leave_or_rotate h t b e) = cfm_balance e"
  "hwqs (abort_service t e) = hwqs e" "remote_sta_max (abort_service t e) = remote_sta_max e"
  "tx_out (abort_service t e) = tx_out e" "ndev_stopped (abort_service t e) = ndev_stopped e"
  "hwqs (restart_netdev t e) = hwqs e" "remote_sta_max (restart_netdev t e) = remote_sta_max e"
  "tx_out (restart_netdev t e) = tx_out e" "stas (restart_netdev t e) = stas e"
  by (simp_all add: leave_or_rotate_def abort_service_def restart_netdev_def Let_def)

lemma process_txqs:
  "t < length (txqs e) \<Longrightarrow> txqs (process_txq h t e) = (txqs e)[t := process_q (hwq_size (hwq_at e h)) (txq_at e t)]"
  by (simp add: process_txq_def process_q_def restart_txqs abort_txqs leave_txqs pushes_effect split: prod.split)

lemma process_frame [simp]:
  "length (hwqs (process_txq h t e)) = length (hwqs e)" "remote_sta_max (process_txq h t e) = remote_sta_max e"
  by (simp_all add: process_txq_def pushes_effect split: prod.split)

lemma process_out:
  "tx_out (process_txq h t e) = tx_out e @ map (Pair t) (fst (rwnx_txq_get_skb_to_push (txq_at e t)))"
  by (simp add: process_txq_def pushes_effect split: prod.split)

text \<open>The lists stay consistent through a visit.\<close>

lemma lists_ok_visit:
  assumes l: "lists_ok e" and t: "t < length (txqs e)" and h: "txq_hwq (txq_at e t) < length (hwqs e)"
  shows "lists_ok (leave_or_rotate h' t b e)" "lists_ok (abort_service t e)" "lists_ok (restart_netdev t e)"
    "lists_ok (fold (rwnx_tx_push t) out e)"
proof -
  show "lists_ok (leave_or_rotate h' t b e)"
    using lists_ok_del [OF l t h] l t
    by (auto simp: leave_or_rotate_def intro!: lists_ok_upd_txq lists_ok_upd_hwq)
  have *: "lists_ok e'" if "hwqs e' = hwqs e" "txqs e' = txqs (upd_txq t f e)"
    "sched (f (txq_at e t)) = sched (txq_at e t)" "txq_hwq (f (txq_at e t)) = txq_hwq (txq_at e t)" for e' f
    using lists_ok_upd_txq [OF l, of t f] that lists_ok_cong [of e' "upd_txq t f e"] by simp
  show "lists_ok (abort_service t e)"
    by (rule * [where f = q_abort]) (simp_all add: abort_txqs, simp_all add: q_abort_def)
  show "lists_ok (restart_netdev t e)"
    by (rule * [where f = q_restart]) (simp_all add: restart_txqs, simp_all add: q_restart_def status_bits)
  show "lists_ok (fold (rwnx_tx_push t) out e)"
    by (rule * [where f = "q_push ^^ length out"]) (simp_all add: pushes_effect)
qed

lemma q_visit_hwq [simp]:
  "txq_hwq (q_leave sz b q) = txq_hwq q" "txq_hwq (q_abort q) = txq_hwq q" "txq_hwq (q_restart q) = txq_hwq q"
  by (simp_all add: q_visit_defs)

lemma lists_ok_process:
  assumes l: "lists_ok e" and t: "t < length (txqs e)" and h: "txq_hwq (txq_at e t) < length (hwqs e)"
  shows "lists_ok (process_txq h' t e)"
proof -
  have *: "lists_ok (upd_txq t (\<lambda>q. q\<lparr>sk_list := rest\<rparr>) e)" for rest by (rule lists_ok_upd_txq [OF l]) simp
  show ?thesis
    unfolding process_txq_def
    by (auto simp: pushes_effect leave_txqs abort_txqs t h split: prod.split intro!: lists_ok_visit *)
qed

lemma sint_small: "uint (x :: u8) < 128 \<Longrightarrow> sint x = uint x"
  unfolding sint_uint by (rule signed_take_bit_int_eq_self) (simp_all add: order_trans [OF _ uint_nonnegative])

lemma get_credits:
  assumes "txq_ok nh q" "\<not> inactive q"
  shows "rwnx_txq_get_credits q =
      (if push_limit q \<noteq> 0 \<and> uint (push_limit q) < sint (credits q) then uint (push_limit q) else sint (credits q))"
    "0 < rwnx_txq_get_credits q"
proof -
  have c: "sint (credits q) < 128" using sint_range_size [of "credits q"] by (simp add: word_size)
  show "rwnx_txq_get_credits q =
      (if push_limit q \<noteq> 0 \<and> uint (push_limit q) < sint (credits q) then uint (push_limit q) else sint (credits q))"
    using c by (auto simp: rwnx_txq_get_credits_def sint_small)
  then show "0 < rwnx_txq_get_credits q"
    using txq_okD(5) [OF assms] by (auto simp: uint_pos_iff)
qed

text \<open>What is taken off a queue that is visited: a prefix of its packets, at least one.\<close>

lemma get_skb:
  assumes ok: "txq_ok nh q" and s: "sched q"
  obtains k b where "rwnx_txq_get_skb_to_push q = (take k (sk_list q), drop k (sk_list q), b)"
    "0 < k" "k \<le> length (sk_list q)" "\<not> b \<Longrightarrow> k < length (sk_list q)"
    "b \<Longrightarrow> k = length (sk_list q) \<or> push_limit q \<noteq> 0 \<and> k = unat (push_limit q)"
proof -
  have act: "\<not> inactive q" and ne: "sk_list q \<noteq> []" using txq_okD(6,7) [OF ok] s by auto
  note c = get_credits [OF ok act]
  show thesis
  proof (cases "int (length (sk_list q)) \<le> rwnx_txq_get_credits q")
    case True
    then show thesis using that [of "length (sk_list q)" True] ne by (simp add: rwnx_txq_get_skb_to_push_def Let_def)
  next
    case False
    define k where "k = nat (rwnx_txq_get_credits q)"
    then have "0 < k" "k < length (sk_list q)" "int k = rwnx_txq_get_credits q" using c(2) False by auto
    then show thesis
      using that [of k "push_limit q \<noteq> 0 \<and> rwnx_txq_get_credits q = uint (push_limit q)"] False
      by (auto simp: rwnx_txq_get_skb_to_push_def Let_def k_def nat_uint_eq)
  qed
qed

lemma process_q_fields:
  assumes g: "rwnx_txq_get_skb_to_push q = (take k (sk_list q), drop k (sk_list q), b)" and k: "k \<le> length (sk_list q)"
    and r: "retry_ok q"
  shows "txq_idx (process_q sz q) = txq_idx q" "credits (process_q sz q) = credits q" "txq_hwq (process_q sz q) = txq_hwq q"
    "txq_sta (process_q sz q) = txq_sta q" "ps_id (process_q sz q) = ps_id q" "ndev_idx (process_q sz q) = ndev_idx q"
    "sk_list (process_q sz q) = drop k (sk_list q)"
    "nb_retry (process_q sz q) = (if nb_retry q \<le> int k then 0 else nb_retry q - int k)"
    "last_retry_skb (process_q sz q) = (if nb_retry q \<le> int k then None else last_retry_skb q)"
    "push_limit (process_q sz q) = 0 \<or> unat (push_limit (process_q sz q)) = unat (push_limit q) - k"
    "bit (status (process_q sz q)) n =
       (if n = 0 then sched q \<and> \<not> b
        else if n = 7 then ndev_fc q \<and> RWNX_NDEV_FLOW_CTRL_RESTART \<le> length (sk_list q) - k
        else bit (status q) n)"
proof -
  have r': "0 \<le> nb_retry q" "nb_retry q = 0 \<longrightarrow> last_retry_skb q = None" using r by (simp_all add: retry_ok_def)
  note p = q_pushes_retry [of "q\<lparr>sk_list := drop k (sk_list q)\<rparr>", simplified, OF r'] q_pushes_limit
  have out: "length (take k (sk_list q)) = k" using k by simp
  show "txq_idx (process_q sz q) = txq_idx q" "credits (process_q sz q) = credits q" "txq_hwq (process_q sz q) = txq_hwq q"
    "txq_sta (process_q sz q) = txq_sta q" "ps_id (process_q sz q) = ps_id q" "ndev_idx (process_q sz q) = ndev_idx q"
    "sk_list (process_q sz q) = drop k (sk_list q)"
    "nb_retry (process_q sz q) = (if nb_retry q \<le> int k then 0 else nb_retry q - int k)"
    "last_retry_skb (process_q sz q) = (if nb_retry q \<le> int k then None else last_retry_skb q)"
    "push_limit (process_q sz q) = 0 \<or> unat (push_limit (process_q sz q)) = unat (push_limit q) - k"
    unfolding process_q_def Let_def g prod.case out q_visit_defs by (auto simp: p)
  show "bit (status (process_q sz q)) n =
       (if n = 0 then sched q \<and> \<not> b
        else if n = 7 then ndev_fc q \<and> RWNX_NDEV_FLOW_CTRL_RESTART \<le> length (sk_list q) - k
        else bit (status q) n)"
    unfolding process_q_def Let_def g prod.case out q_visit_defs by (auto simp: status_bits)
qed

lemma txq_ok_process:
  assumes ok: "txq_ok nh q" and s: "sched q"
  shows "txq_ok nh (process_q sz q)"
proof -
  obtain k b where g: "rwnx_txq_get_skb_to_push q = (take k (sk_list q), drop k (sk_list q), b)"
    "0 < k" "k \<le> length (sk_list q)" "\<not> b \<Longrightarrow> k < length (sk_list q)"
    "b \<Longrightarrow> k = length (sk_list q) \<or> push_limit q \<noteq> 0 \<and> k = unat (push_limit q)"
    using get_skb [OF assms] by blast
  have act: "\<not> inactive q" using txq_okD(6) [OF ok] s by auto
  note r = txq_okD(9) [OF ok act]
  note f = process_q_fields [OF g(1,3) r, of sz]
  show ?thesis
  proof
    show "txq_hwq (process_q sz q) < nh" "distinct (sk_list (process_q sz q))"
      using txq_okD(1,2) [OF ok] by (simp_all add: f)
    show "0 < sint (credits (process_q sz q))" using txq_okD(5) [OF ok act] by (simp add: f)
    show "inactive (process_q sz q) \<Longrightarrow>
        \<not> sched (process_q sz q) \<and> sk_list (process_q sz q) = [] \<and> 0 \<le> sint (credits (process_q sz q))" using act by (simp add: f)
    show "sched (process_q sz q) \<Longrightarrow> sk_list (process_q sz q) \<noteq> []" using g(4) by (simp add: f)
    show "sched (process_q sz q)" if "\<not> rwnx_txq_is_stopped (process_q sz q)" "sk_list (process_q sz q) \<noteq> []"
      using that g(5) s txq_okD(10) [OF ok act] by (auto simp: f txq_tests limit_ok_def)
    show "retry_ok (process_q sz q)"
      using r g(3) by (auto simp: retry_ok_def f of_nat_diff nat_diff_distrib)
    show "limit_ok (process_q sz q)"
      unfolding limit_ok_def
    proof (rule impI)
      assume nz: "push_limit (process_q sz q) \<noteq> 0"
      then have l: "unat (push_limit (process_q sz q)) = unat (push_limit q) - k" using f(10) by blast
      moreover have "0 < unat (push_limit (process_q sz q))" using nz by (simp add: unat_gt_0)
      ultimately have "k < unat (push_limit q)" by simp
      then have "push_limit q \<noteq> 0" by auto
      then have "sta_ps_stop q" "unat (push_limit q) \<le> length (sk_list q)" "uint (push_limit q) \<le> sint (credits q)"
        using txq_okD(10) [OF ok act] by (simp_all add: limit_ok_def)
      moreover have "push_limit (process_q sz q) \<le> push_limit q" by (simp add: word_le_nat_alt l)
      then have "uint (push_limit (process_q sz q)) \<le> uint (push_limit q)" by (simp add: word_le_def)
      ultimately show "sta_ps_stop (process_q sz q) \<and> unat (push_limit (process_q sz q)) \<le> length (sk_list (process_q sz q)) \<and>
          uint (push_limit (process_q sz q)) \<le> sint (credits (process_q sz q))"
        by (simp add: f l diff_le_mono)
    qed
  qed
qed

subsection \<open>Processing a hardware queue\<close>

definition tx_inv :: "tx_env \<Rightarrow> bool" where
  "tx_inv e \<longleftrightarrow> lists_ok e \<and> (\<forall>t < length (txqs e). txq_ok (length (hwqs e)) (txq_at e t))"

text \<open>The packets of queue \<open>t\<close> in the order they are sent: those sent, then those that wait.\<close>

definition tx_stream :: "tx_env \<Rightarrow> nat \<Rightarrow> nat list" where
  "tx_stream e t = map snd (filter (\<lambda>p. fst p = t) (tx_out e)) @ sk_list (txq_at e t)"

text \<open>What processing leaves alone: everything but what was pushed and what follows from it.\<close>

definition q_same :: "rwnx_txq \<Rightarrow> rwnx_txq \<Rightarrow> bool" where
  "q_same q q' \<longleftrightarrow> txq_idx q' = txq_idx q \<and> credits q' = credits q \<and> txq_hwq q' = txq_hwq q \<and> txq_sta q' = txq_sta q \<and>
     ps_id q' = ps_id q \<and> ndev_idx q' = ndev_idx q \<and> (\<forall>n. n \<noteq> 0 \<longrightarrow> n \<noteq> 7 \<longrightarrow> bit (status q') n = bit (status q) n)"

definition tx_same :: "tx_env \<Rightarrow> tx_env \<Rightarrow> bool" where
  "tx_same e e' \<longleftrightarrow> length (txqs e') = length (txqs e) \<and> length (hwqs e') = length (hwqs e) \<and>
     remote_sta_max e' = remote_sta_max e \<and>
     (\<forall>t < length (txqs e). q_same (txq_at e t) (txq_at e' t) \<and> tx_stream e' t = tx_stream e t)"

lemma tx_same_refl [simp]: "tx_same e e"
  by (simp add: tx_same_def q_same_def)

lemma tx_same_trans: "tx_same a b \<Longrightarrow> tx_same b c \<Longrightarrow> tx_same a c"
  by (auto simp: tx_same_def q_same_def)

lemma tx_invD:
  assumes "tx_inv e"
  shows "lists_ok e" "t < length (txqs e) \<Longrightarrow> txq_ok (length (hwqs e)) (txq_at e t)"
  using assms by (auto simp: tx_inv_def)

lemma in_hwq_list:
  assumes "lists_ok e" "h < length (hwqs e)"
  shows "t \<in> set (hwq_list (hwq_at e h)) \<longleftrightarrow> t < length (txqs e) \<and> sched (txq_at e t) \<and> txq_hwq (txq_at e t) = h"
    "distinct (hwq_list (hwq_at e h))"
  using assms by (auto simp: lists_ok_def)

lemma queued_update:
  assumes "t < length (txqs e)" "txqs e' = (txqs e)[t := q]"
  shows "queued e' + length (sk_list (txq_at e t)) = queued e + length (sk_list q)"
proof -
  have "map (\<lambda>q. length (sk_list q)) (txqs e') = (map (\<lambda>q. length (sk_list q)) (txqs e))[t := length (sk_list q)]"
    by (simp add: assms(2) map_update)
  then have "queued e' = queued e + length (sk_list q) - length (sk_list (txq_at e t))"
    unfolding queued_def using assms(1) by (simp add: sum_list_update)
  moreover have "length (sk_list (txq_at e t)) \<le> queued e"
    unfolding queued_def using assms(1) by (intro member_le_sum_list) auto
  ultimately show ?thesis by simp
qed

lemma process_txq_correct:
  assumes inv: "tx_inv e" and h: "h < length (hwqs e)" and t: "t \<in> set (hwq_list (hwq_at e h))"
  shows "tx_inv (process_txq h t e)" "queued (process_txq h t e) < queued e" "tx_same e (process_txq h t e)"
    "t' \<noteq> t \<Longrightarrow> t' \<in> set (hwq_list (hwq_at e h)) \<Longrightarrow> t' \<in> set (hwq_list (hwq_at (process_txq h t e) h))"
proof -
  let ?e = "process_txq h t e" and ?q = "txq_at e t"
  define q' where "q' = process_q (hwq_size (hwq_at e h)) ?q"
  have t1: "t < length (txqs e)" "sched ?q" "txq_hwq ?q = h" using t in_hwq_list(1) [OF tx_invD(1) [OF inv] h] by auto
  note ok = tx_invD(2) [OF inv t1(1)]
  have q: "txqs ?e = (txqs e)[t := q']" by (simp add: process_txqs t1 q'_def)
  have ok': "txq_ok (length (hwqs e)) q'" unfolding q'_def by (rule txq_ok_process [OF ok t1(2)])
  have l: "lists_ok ?e" by (rule lists_ok_process) (use tx_invD(1) [OF inv] t1 h in auto)
  show inv': "tx_inv ?e"
    using l ok' tx_invD(2) [OF inv] by (auto simp: tx_inv_def q nth_list_update t1)
  obtain k b where g: "rwnx_txq_get_skb_to_push ?q = (take k (sk_list ?q), drop k (sk_list ?q), b)"
    "0 < k" "k \<le> length (sk_list ?q)" using get_skb [OF ok t1(2)] by metis
  have r: "retry_ok ?q" using txq_okD(6,9) [OF ok] t1(2) by auto
  note f = process_q_fields [OF g(1,3) r, of "hwq_size (hwq_at e h)", folded q'_def]
  show "queued ?e < queued e" using queued_update [OF t1(1) q] g(2,3) by (simp add: f)
  have str: "tx_stream ?e t' = tx_stream e t'" for t'
    by (cases "t' = t") (auto simp: tx_stream_def process_out g(1) q f t1 filter_map comp_def)
  have "q_same (txq_at e t') (txq_at ?e t')" for t'
    by (cases "t' = t") (auto simp: q f t1 q_same_def)
  then show "tx_same e ?e" by (simp add: tx_same_def q str)
  show "t' \<in> set (hwq_list (hwq_at ?e h))" if "t' \<noteq> t" "t' \<in> set (hwq_list (hwq_at e h))"
    using that in_hwq_list(1) [OF tx_invD(1) [OF inv] h] in_hwq_list(1) [OF l, of h] h by (simp add: q)
qed

lemma next_in_SomeD: "distinct xs \<Longrightarrow> next_in xs t = Some y \<Longrightarrow> y \<in> set xs \<and> y \<noteq> t"
  by (induction xs t rule: next_in.induct) (auto split: if_splits list.splits)

text \<open>The loop: no assertion fails, it ends, and the packets keep their order.\<close>

lemma hwq_loop_correct:
  assumes "tx_inv e" "h < length (hwqs e)" "\<And>t. cur = Some t \<Longrightarrow> t \<in> set (hwq_list (hwq_at e h))" "queued e < fuel"
  shows "\<exists>e'. hwq_loop fuel h cur e = Tx_done e' \<and> tx_inv e' \<and> tx_same e e'"
  using assms
proof (induction fuel h cur e rule: hwq_loop.induct)
  case (3 fuel h t e)
  note inv = "3.prems"(1) and h = "3.prems"(2) and t = "3.prems"(3) [OF refl]
  let ?q = "txq_at e t" and ?n = "next_in (hwq_list (hwq_at e h)) t"
  have t1: "t < length (txqs e)" "sched ?q" using t in_hwq_list(1) [OF tx_invD(1) [OF inv] h] by auto
  note ok = tx_invD(2) [OF inv t1(1)]
  have act: "\<not> inactive ?q" "sk_list ?q \<noteq> []" "0 < sint (credits ?q)" using txq_okD(5,6,7) [OF ok] t1(2) by auto
  note p = process_txq_correct [OF inv h t]
  have "\<exists>e'. hwq_loop fuel h ?n (process_txq h t e) = Tx_done e' \<and> tx_inv e' \<and> tx_same (process_txq h t e) e'"
  proof (rule "3.IH"(2) [OF refl refl _ act(1)])
    show "tx_inv (process_txq h t e)" by (rule p(1))
    show "h < length (hwqs (process_txq h t e))" using h by simp
    show "u \<in> set (hwq_list (hwq_at (process_txq h t e) h))" if "?n = Some u" for u
      using next_in_SomeD [OF in_hwq_list(2) [OF tx_invD(1) [OF inv] h] that] p(4) by blast
    show "queued (process_txq h t e) < fuel" using p(2) "3.prems"(4) by simp
  qed (use t1 act in \<open>auto simp: status_tests rwnx_txq_skb_ready_def\<close>)
  then show ?case
    using t1 act p(3) by (auto simp: status_tests rwnx_txq_skb_ready_def Let_def intro: tx_same_trans)
qed auto

text \<open>Fairness: a visit changes the list by a removal of the queue or a rotation, so no queue behind it is skipped.\<close>

lemma process_hwq_list:
  assumes "t < length (txqs e)" "sched (txq_at e t)" "txq_hwq (txq_at e t) = h" "h < length (hwqs e)"
  shows "hwq_list (hwq_at (process_txq h t e) h) \<in>
    {hwq_list (hwq_at e h), remove1 t (hwq_list (hwq_at e h)), rotate1 (hwq_list (hwq_at e h))}"
  using assms
  by (auto simp: process_txq_def leave_or_rotate_def rwnx_txq_del_from_hw_list_def pushes_effect status_tests split: prod.split)

definition from_here :: "nat \<Rightarrow> nat list \<Rightarrow> nat list" where "from_here t xs = dropWhile (\<lambda>x. x \<noteq> t) xs"

lemma from_here_split: "t \<notin> set as \<Longrightarrow> from_here t (as @ t # bs) = t # bs"
  by (simp add: from_here_def dropWhile_append)

lemma next_in_split: "t \<notin> set as \<Longrightarrow> next_in (as @ t # bs) t = (case bs of [] \<Rightarrow> None | y # _ \<Rightarrow> Some y)"
  by (induction as) auto

lemma from_next:
  assumes "distinct xs" "t \<in> set xs" "xs' \<in> {xs, remove1 t xs, rotate1 xs}" "u \<in> set (from_here t xs)" "u \<noteq> t"
  shows "\<exists>y. next_in xs t = Some y \<and> u \<in> set (from_here y xs')"
proof -
  obtain as bs where xs: "xs = as @ t # bs" using split_list [OF assms(2)] by blast
  have t: "t \<notin> set as" "t \<notin> set bs" using assms(1) by (auto simp: xs)
  have u: "u \<in> set bs" using assms(4,5) by (simp add: xs from_here_split t)
  then obtain y bs' where bs: "bs = y # bs'" by (cases bs) auto
  have y: "y \<notin> set as" "y \<noteq> t" using assms(1) by (auto simp: xs bs)
  have "u \<in> set (from_here y (as @ t # bs))" "u \<in> set (from_here y (as @ bs))"
    "u \<in> set (from_here y (rotate1 (as @ t # bs)))"
    using u y from_here_split [of y "as @ [t]" bs'] from_here_split [of y as bs']
      from_here_split [of y "tl as @ [t]" "bs' @ [hd as]"]
    by (cases as; auto simp: bs from_here_def)+
  moreover have "remove1 t xs = as @ bs" using t by (simp add: xs remove1_append)
  ultimately have "u \<in> set (from_here y xs')" using assms(3) by (auto simp: xs)
  then show ?thesis using t by (simp add: xs next_in_split bs)
qed

definition sent_of :: "tx_env \<Rightarrow> nat \<Rightarrow> nat list" where
  "sent_of e t = map snd (filter (\<lambda>p. fst p = t) (tx_out e))"

lemma sent_of_process:
  "sent_of (process_txq h t e) u = sent_of e u @ (if u = t then fst (rwnx_txq_get_skb_to_push (txq_at e t)) else [])"
  by (simp add: sent_of_def process_out filter_map comp_def)

lemma hwq_loop_mono: "hwq_loop fuel h cur e = Tx_done e' \<Longrightarrow> \<exists>more_sent. tx_out e' = tx_out e @ more_sent"
proof (induction fuel h cur e rule: hwq_loop.induct)
  case (3 fuel h t e)
  have "\<exists>m. tx_out (process_txq h t e) = tx_out e @ m" by (simp add: process_out)
  then show ?case using 3 by (fastforce simp: Let_def split: if_splits)
qed auto

lemma sent_of_mono: "tx_out e' = tx_out e @ xs \<Longrightarrow> length (sent_of e u) \<le> length (sent_of e' u)"
  by (simp add: sent_of_def)

lemma hwq_loop_fair:
  assumes "tx_inv e" "h < length (hwqs e)" "\<And>t. cur = Some t \<Longrightarrow> t \<in> set (hwq_list (hwq_at e h))" "queued e < fuel"
    "hwq_loop fuel h cur e = Tx_done e'" "cur = Some t" "u \<in> set (from_here t (hwq_list (hwq_at e h)))"
  shows "length (sent_of e u) < length (sent_of e' u)"
  using assms
proof (induction fuel h cur e arbitrary: t rule: hwq_loop.induct)
  case (3 fuel h t e t')
  note inv = "3.prems"(1) and h = "3.prems"(2) and t = "3.prems"(3) [OF refl]
  have [simp]: "t' = t" using "3.prems"(6) by simp
  let ?q = "txq_at e t" and ?n = "next_in (hwq_list (hwq_at e h)) t"
  have t1: "t < length (txqs e)" "sched ?q" "txq_hwq ?q = h" using t in_hwq_list(1) [OF tx_invD(1) [OF inv] h] by auto
  note ok = tx_invD(2) [OF inv t1(1)]
  have act: "\<not> inactive ?q" "sk_list ?q \<noteq> []" "0 < sint (credits ?q)" using txq_okD(5,6,7) [OF ok] t1(2) by auto
  note p = process_txq_correct [OF inv h t]
  have loop: "hwq_loop fuel h ?n (process_txq h t e) = Tx_done e'"
    using "3.prems"(5) t1 act by (simp add: status_tests rwnx_txq_skb_ready_def Let_def)
  obtain xs where xs: "tx_out e' = tx_out (process_txq h t e) @ xs" using hwq_loop_mono [OF loop] by blast
  show ?case
  proof (cases "u = t")
    case True
    obtain k b where "rwnx_txq_get_skb_to_push ?q = (take k (sk_list ?q), drop k (sk_list ?q), b)" "0 < k"
      using get_skb [OF ok t1(2)] by metis
    then have "length (sent_of e u) < length (sent_of (process_txq h t e) u)"
      using True act(2) by (simp add: sent_of_process)
    then show ?thesis using sent_of_mono [OF xs, of u] by simp
  next
    case False
    note d = in_hwq_list(2) [OF tx_invD(1) [OF inv] h]
    obtain y where y: "?n = Some y" "u \<in> set (from_here y (hwq_list (hwq_at (process_txq h t e) h)))"
      using from_next [OF d t process_hwq_list [OF t1 h] _ False] "3.prems"(7) by auto
    have "length (sent_of (process_txq h t e) u) < length (sent_of e' u)"
    proof (rule "3.IH"(2) [OF refl refl _ act(1) _ p(1) _ _ _ loop y(1) y(2)])
      show "v \<in> set (hwq_list (hwq_at (process_txq h t e) h))" if "?n = Some v" for v
        using next_in_SomeD [OF d that] p(4) by blast
      show "queued (process_txq h t e) < fuel" using p(2) "3.prems"(4) by simp
    qed (use t1 act h in \<open>auto simp: status_tests rwnx_txq_skb_ready_def\<close>)
    then show ?thesis using False by (simp add: sent_of_process)
  qed
qed auto

subsection \<open>Starting, stopping and queueing keep the invariant\<close>

lemma tx_inv_single:
  assumes inv: "tx_inv e" and l: "lists_ok e'" and q: "txqs e' = (txqs e)[t := q']" and h: "length (hwqs e') = length (hwqs e)"
    and ok: "t < length (txqs e) \<Longrightarrow> txq_ok (length (hwqs e)) q'"
  shows "tx_inv e'"
  unfolding tx_inv_def
proof (intro conjI allI impI)
  fix u assume "u < length (txqs e')"
  then show "txq_ok (length (hwqs e')) (txq_at e' u)"
    using tx_invD(2) [OF inv, of u] ok by (cases "u = t") (auto simp: q h)
qed (rule l)

text \<open>The reasons for which a queue is stopped.\<close>

definition stop_reasons :: "u8 set" where
  "stop_reasons = {RWNX_TXQ_STOP_FULL, RWNX_TXQ_STOP_CSA, RWNX_TXQ_STOP_STA_PS, RWNX_TXQ_STOP_VIF_PS, RWNX_TXQ_STOP_CHAN}"

lemma stop_reason_bit:
  assumes "r \<in> stop_reasons"
  obtains k where "r = 2 ^ k" "k < LENGTH(8)" "k = 1 \<or> k = 2 \<or> k = 3 \<or> k = 4 \<or> k = 5" "r \<noteq> RWNX_TXQ_STOP_STA_PS \<Longrightarrow> k \<noteq> 3"
proof -
  consider "r = RWNX_TXQ_STOP_FULL" | "r = RWNX_TXQ_STOP_CSA" | "r = RWNX_TXQ_STOP_STA_PS" | "r = RWNX_TXQ_STOP_VIF_PS"
    | "r = RWNX_TXQ_STOP_CHAN" using assms by (auto simp: stop_reasons_def)
  then show thesis
  proof cases
    case 1 show thesis by (rule that [of 1]) (simp_all add: 1 txq_flag_pow(2))
  next
    case 2 show thesis by (rule that [of 2]) (simp_all add: 2 txq_flag_pow(3))
  next
    case 3 show thesis by (rule that [of 3]) (simp_all add: 3 txq_flag_pow(4))
  next
    case 4 show thesis by (rule that [of 4]) (simp_all add: 4 txq_flag_pow(5))
  next
    case 5 show thesis by (rule that [of 5]) (simp_all add: 5 txq_flag_pow(6))
  qed
qed

lemma sta_ps_bit: "bit (x OR RWNX_TXQ_STOP_STA_PS) 3"
  unfolding txq_flag_pow by (subst bit_or_pow) simp_all

lemma stop_reason_bits:
  assumes "r \<in> stop_reasons"
  shows "bit (x OR r) 0 = bit x 0" "bit (x AND NOT r) 0 = bit x 0"
    "bit (x OR r) 7 = bit x 7" "bit (x AND NOT r) 7 = bit x 7"
    "bit x 3 \<Longrightarrow> bit (x OR r) 3" "r \<noteq> RWNX_TXQ_STOP_STA_PS \<Longrightarrow> bit (x AND NOT r) 3 = bit x 3"
    "bit (x OR r) 1 \<or> bit (x OR r) 2 \<or> bit (x OR r) 3 \<or> bit (x OR r) 4 \<or> bit (x OR r) 5"
proof -
  obtain k where k: "r = 2 ^ k" "k < LENGTH(8)" "k = 1 \<or> k = 2 \<or> k = 3 \<or> k = 4 \<or> k = 5" "r \<noteq> RWNX_TXQ_STOP_STA_PS \<Longrightarrow> k \<noteq> 3"
    by (rule stop_reason_bit [OF assms]) blast
  note b = bit_or_pow [OF k(2)] bit_clear_pow
  show "bit (x OR r) 0 = bit x 0" "bit (x AND NOT r) 0 = bit x 0" "bit (x OR r) 7 = bit x 7" "bit (x AND NOT r) 7 = bit x 7"
    "bit x 3 \<Longrightarrow> bit (x OR r) 3" "r \<noteq> RWNX_TXQ_STOP_STA_PS \<Longrightarrow> bit (x AND NOT r) 3 = bit x 3"
    "bit (x OR r) 1 \<or> bit (x OR r) 2 \<or> bit (x OR r) 3 \<or> bit (x OR r) 4 \<or> bit (x OR r) 5"
    using k(3,4) by (auto simp only: k(1) b)
qed

definition q_start :: "u8 \<Rightarrow> rwnx_txq \<Rightarrow> rwnx_txq" where
  "q_start r q =
     (if \<not> inactive q \<and> status q AND r \<noteq> 0
      then let q = q\<lparr>status := status q AND NOT r\<rparr>
           in if \<not> rwnx_txq_is_stopped q \<and> rwnx_txq_skb_ready q then q_add q else q
      else q)"

definition q_stop :: "u8 \<Rightarrow> rwnx_txq \<Rightarrow> rwnx_txq" where
  "q_stop r q = (if inactive q then q else q_del (q\<lparr>status := status q OR r\<rparr>))"

lemma start_txqs [simp]: "t < length (txqs e) \<Longrightarrow> txqs (rwnx_txq_start t r e) = (txqs e)[t := q_start r (txq_at e t)]"
  by (simp add: rwnx_txq_start_def q_start_def Let_def)

lemma stop_txqs [simp]: "t < length (txqs e) \<Longrightarrow> txqs (rwnx_txq_stop t r e) = (txqs e)[t := q_stop r (txq_at e t)]"
  by (simp add: rwnx_txq_stop_def q_stop_def)

lemma start_stop_frame [simp]:
  "length (hwqs (rwnx_txq_start t r e)) = length (hwqs e)" "stas (rwnx_txq_start t r e) = stas e"
  "remote_sta_max (rwnx_txq_start t r e) = remote_sta_max e" "tx_out (rwnx_txq_start t r e) = tx_out e"
  "ndev_stopped (rwnx_txq_start t r e) = ndev_stopped e" "cfm_balance (rwnx_txq_start t r e) = cfm_balance e"
  "length (hwqs (rwnx_txq_stop t r e)) = length (hwqs e)" "stas (rwnx_txq_stop t r e) = stas e"
  "remote_sta_max (rwnx_txq_stop t r e) = remote_sta_max e" "tx_out (rwnx_txq_stop t r e) = tx_out e"
  "ndev_stopped (rwnx_txq_stop t r e) = ndev_stopped e" "cfm_balance (rwnx_txq_stop t r e) = cfm_balance e"
  by (simp_all add: rwnx_txq_start_def rwnx_txq_stop_def Let_def)

lemma q_start_stop_frame [simp]:
  "txq_idx (q_start r q) = txq_idx q" "credits (q_start r q) = credits q" "sk_list (q_start r q) = sk_list q"
  "last_retry_skb (q_start r q) = last_retry_skb q" "nb_retry (q_start r q) = nb_retry q" "txq_hwq (q_start r q) = txq_hwq q"
  "push_limit (q_start r q) = push_limit q" "txq_sta (q_start r q) = txq_sta q" "ps_id (q_start r q) = ps_id q"
  "ndev_idx (q_start r q) = ndev_idx q"
  "txq_idx (q_stop r q) = txq_idx q" "credits (q_stop r q) = credits q" "sk_list (q_stop r q) = sk_list q"
  "last_retry_skb (q_stop r q) = last_retry_skb q" "nb_retry (q_stop r q) = nb_retry q" "txq_hwq (q_stop r q) = txq_hwq q"
  "push_limit (q_stop r q) = push_limit q" "txq_sta (q_stop r q) = txq_sta q" "ps_id (q_stop r q) = ps_id q"
  "ndev_idx (q_stop r q) = ndev_idx q"
  by (simp_all add: q_start_def q_stop_def Let_def)

lemma q_start_stop_ps:
  "r \<in> stop_reasons \<Longrightarrow> r \<noteq> RWNX_TXQ_STOP_STA_PS \<Longrightarrow> sta_ps_stop (q_start r q) = sta_ps_stop q"
  "r \<in> stop_reasons \<Longrightarrow> sta_ps_stop q \<Longrightarrow> sta_ps_stop (q_stop r q)"
  "\<not> inactive q \<Longrightarrow> sta_ps_stop (q_stop RWNX_TXQ_STOP_STA_PS q)"
  by (simp_all add: q_start_def q_stop_def Let_def stop_reason_bits sta_ps_bit)

lemma lists_ok_start:
  assumes inv: "tx_inv e" and t: "t < length (txqs e)" and r: "r \<in> stop_reasons"
  shows "lists_ok (rwnx_txq_start t r e)"
proof -
  have "lists_ok (upd_txq t (\<lambda>q. q\<lparr>status := status q AND NOT r\<rparr>) e)"
    by (rule lists_ok_upd_txq [OF tx_invD(1) [OF inv]]) (simp add: stop_reason_bits r)
  then show ?thesis
    using tx_invD [OF inv] txq_okD(1) [OF tx_invD(2) [OF inv t]] t
    by (auto simp: rwnx_txq_start_def Let_def intro!: lists_ok_add)
qed

lemma lists_ok_stop:
  assumes inv: "tx_inv e" and t: "t < length (txqs e)" and r: "r \<in> stop_reasons"
  shows "lists_ok (rwnx_txq_stop t r e)"
proof -
  have "lists_ok (upd_txq t (\<lambda>q. q\<lparr>status := status q OR r\<rparr>) e)"
    by (rule lists_ok_upd_txq [OF tx_invD(1) [OF inv]]) (simp add: stop_reason_bits r)
  then show ?thesis
    using tx_invD [OF inv] txq_okD(1) [OF tx_invD(2) [OF inv t]] t
    by (auto simp: rwnx_txq_stop_def intro!: lists_ok_del)
qed

lemma txq_ok_start:
  assumes ok: "txq_ok nh q" and r: "r \<in> stop_reasons" "r = RWNX_TXQ_STOP_STA_PS \<longrightarrow> push_limit q = 0"
  shows "txq_ok nh (q_start r q)"
proof
  show "limit_ok (q_start r q)" if "\<not> inactive (q_start r q)"
    using txq_okD(10) [OF ok] that r q_start_stop_ps(1) [of r q] by (auto simp: limit_ok_def)
  show "retry_ok (q_start r q)" if "\<not> inactive (q_start r q)"
    using txq_okD(9) [OF ok] that by (simp add: retry_ok_def)
  show "txq_hwq (q_start r q) < nh" "distinct (sk_list (q_start r q))"
    "\<not> inactive (q_start r q) \<Longrightarrow> 0 < sint (credits (q_start r q))"
    using txq_okD(1,2,5) [OF ok] by simp_all
  show "\<not> sched (q_start r q) \<and> sk_list (q_start r q) = [] \<and> 0 \<le> sint (credits (q_start r q))" if "inactive (q_start r q)"
  proof -
    have "inactive q" using that by simp
    then show ?thesis using txq_okD(3,4,11) [OF ok] by (simp add: q_start_def)
  qed
  have s: "sched (q_start r q) \<longleftrightarrow> sched q \<or> \<not> inactive q \<and> status q AND r \<noteq> 0 \<and> \<not> rwnx_txq_is_stopped (q_start r q) \<and> sk_list q \<noteq> []"
    by (auto simp: q_start_def Let_def stop_reason_bits(2) r(1) rwnx_txq_skb_ready_def rwnx_txq_is_stopped_def status_tests)
  show "sk_list (q_start r q) \<noteq> []" if "sched (q_start r q)"
    using that txq_okD(7) [OF ok] unfolding s by auto
  show "sched (q_start r q)" if "\<not> inactive (q_start r q)" "\<not> rwnx_txq_is_stopped (q_start r q)" "sk_list (q_start r q) \<noteq> []"
  proof (cases "status q AND r = 0")
    case True
    then have "q_start r q = q" by (simp add: q_start_def)
    then show ?thesis using that txq_okD(8) [OF ok] by simp
  qed (use that s in simp)
qed

lemma txq_ok_stop:
  assumes ok: "txq_ok nh q" and r: "r \<in> stop_reasons"
  shows "txq_ok nh (q_stop r q)"
proof
  show "limit_ok (q_stop r q)" if "\<not> inactive (q_stop r q)"
    using txq_okD(10) [OF ok] that q_start_stop_ps(2) [OF r, of q] by (auto simp: limit_ok_def)
  show "retry_ok (q_stop r q)" if "\<not> inactive (q_stop r q)"
    using txq_okD(9) [OF ok] that by (simp add: retry_ok_def)
  show "sched (q_stop r q)" if "\<not> inactive (q_stop r q)" "\<not> rwnx_txq_is_stopped (q_stop r q)" "sk_list (q_stop r q) \<noteq> []"
    using that stop_reason_bits(7) [OF r, of "status q"] by (auto simp: q_stop_def txq_tests split: if_splits)
qed (use txq_okD(1-7,11) [OF ok] in \<open>auto simp: q_stop_def stop_reason_bits r\<close>)

lemma tx_inv_start:
  assumes "tx_inv e" "r \<in> stop_reasons" "t < length (txqs e)" "r = RWNX_TXQ_STOP_STA_PS \<longrightarrow> push_limit (txq_at e t) = 0"
  shows "tx_inv (rwnx_txq_start t r e)"
  by (rule tx_inv_single [OF assms(1)]) (use assms in \<open>auto intro: lists_ok_start txq_ok_start tx_invD(2)\<close>)

lemma tx_inv_stop:
  assumes "tx_inv e" "r \<in> stop_reasons" "t < length (txqs e)"
  shows "tx_inv (rwnx_txq_stop t r e)"
  by (rule tx_inv_single [OF assms(1)]) (use assms in \<open>auto intro: lists_ok_stop txq_ok_stop tx_invD(2)\<close>)

text \<open>Queueing: a retried packet goes behind the retried packets and before the others.\<close>

lemma insert_after_nth:
  assumes "distinct xs" "i < length xs"
  shows "insert_after (xs ! i) y xs = take (Suc i) xs @ y # drop (Suc i) xs"
proof -
  have xs: "xs = take i xs @ xs ! i # drop (Suc i) xs" by (rule id_take_nth_drop [OF assms(2)])
  have "xs ! i \<notin> set (take i xs)" using assms by (auto simp: in_set_conv_nth nth_eq_iff_index_eq)
  then have "takeWhile (\<lambda>x. x \<noteq> xs ! i) xs = take i xs" "dropWhile (\<lambda>x. x \<noteq> xs ! i) xs = xs ! i # drop (Suc i) xs"
    by (subst xs, subst takeWhile_append2 dropWhile_append2, auto)+
  then show ?thesis by (simp add: insert_after_def take_Suc_conv_app_nth assms(2))
qed

lemma enqueue_list:
  assumes "retry_ok q" "distinct (sk_list q)"
  shows "sk_list (enqueue_skb skb retry q) =
    (if retry then take (nat (nb_retry q)) (sk_list q) @ skb # drop (nat (nb_retry q)) (sk_list q) else sk_list q @ [skb])"
proof (cases "retry \<and> nb_retry q \<noteq> 0")
  case True
  then have "0 < nb_retry q" "nat (nb_retry q) - 1 < length (sk_list q)" using assms(1) by (auto simp: retry_ok_def)
  moreover from this have "Suc (nat (nb_retry q) - 1) = nat (nb_retry q)" by simp
  ultimately show ?thesis
    using True assms insert_after_nth [OF assms(2), of "nat (nb_retry q) - 1"] by (simp add: enqueue_skb_def retry_ok_def)
qed (use assms(1) in \<open>auto simp: enqueue_skb_def retry_ok_def\<close>)

lemma enqueue_frame [simp]:
  "txq_idx (enqueue_skb skb retry q) = txq_idx q" "credits (enqueue_skb skb retry q) = credits q"
  "txq_hwq (enqueue_skb skb retry q) = txq_hwq q" "push_limit (enqueue_skb skb retry q) = push_limit q"
  "txq_sta (enqueue_skb skb retry q) = txq_sta q" "ps_id (enqueue_skb skb retry q) = ps_id q"
  "ndev_idx (enqueue_skb skb retry q) = ndev_idx q" "status (enqueue_skb skb retry q) = status q"
  by (simp_all add: enqueue_skb_def)

definition q_flow :: "rwnx_txq \<Rightarrow> rwnx_txq" where
  "q_flow q = (if ndev_idx q \<noteq> NDEV_NO_TXQ \<and> RWNX_NDEV_FLOW_CTRL_STOP < length (sk_list q)
     then q\<lparr>status := status q OR RWNX_TXQ_NDEV_FLOW_CTRL\<rparr> else q)"

lemma q_flow_frame [simp]:
  "txq_idx (q_flow q) = txq_idx q" "credits (q_flow q) = credits q" "txq_hwq (q_flow q) = txq_hwq q"
  "push_limit (q_flow q) = push_limit q" "txq_sta (q_flow q) = txq_sta q" "ps_id (q_flow q) = ps_id q"
  "ndev_idx (q_flow q) = ndev_idx q" "sk_list (q_flow q) = sk_list q" "nb_retry (q_flow q) = nb_retry q"
  "last_retry_skb (q_flow q) = last_retry_skb q"
  by (simp_all add: q_flow_def)

lemma q_flow_bits:
  "bit (status (q_flow q)) n \<longleftrightarrow> bit (status q) n \<or> n = 7 \<and> ndev_idx q \<noteq> NDEV_NO_TXQ \<and> RWNX_NDEV_FLOW_CTRL_STOP < length (sk_list q)"
  by (auto simp: q_flow_def status_bits)

definition q_queue :: "nat \<Rightarrow> bool \<Rightarrow> rwnx_txq \<Rightarrow> rwnx_txq" where
  "q_queue skb retry q =
     (let q = q_flow (enqueue_skb skb retry q) in if \<not> rwnx_txq_is_stopped q then q_add q else q)"

lemma q_queue_frame [simp]:
  "txq_idx (q_queue skb retry q) = txq_idx q" "credits (q_queue skb retry q) = credits q"
  "txq_hwq (q_queue skb retry q) = txq_hwq q" "push_limit (q_queue skb retry q) = push_limit q"
  "txq_sta (q_queue skb retry q) = txq_sta q" "ps_id (q_queue skb retry q) = ps_id q"
  "ndev_idx (q_queue skb retry q) = ndev_idx q" "sk_list (q_queue skb retry q) = sk_list (enqueue_skb skb retry q)"
  "nb_retry (q_queue skb retry q) = nb_retry (enqueue_skb skb retry q)"
  "last_retry_skb (q_queue skb retry q) = last_retry_skb (enqueue_skb skb retry q)"
  by (simp_all add: q_queue_def Let_def)

lemma q_queue_bits:
  "bit (status (q_queue skb retry q)) n \<longleftrightarrow>
     (if n = 0 then sched q \<or> \<not> rwnx_txq_is_stopped q
      else if n = 7 then ndev_fc q \<or> ndev_idx q \<noteq> NDEV_NO_TXQ \<and> RWNX_NDEV_FLOW_CTRL_STOP < length (sk_list (q_queue skb retry q))
      else bit (status q) n)"
  by (auto simp: q_queue_def Let_def txq_tests q_flow_bits)

lemma note_ps_frame [simp]:
  "txqs (note_ps_packet t e) = txqs e" "hwqs (note_ps_packet t e) = hwqs e" "tx_out (note_ps_packet t e) = tx_out e"
  "remote_sta_max (note_ps_packet t e) = remote_sta_max e" "ndev_stopped (note_ps_packet t e) = ndev_stopped e"
  "length (stas (note_ps_packet t e)) = length (stas e)"
  by (simp_all add: note_ps_packet_def)

lemma stop_netdev_frame [simp]:
  "txqs (stop_netdev t e) = (txqs e)[t := q_flow (txq_at e t)]" "hwqs (stop_netdev t e) = hwqs e"
  "tx_out (stop_netdev t e) = tx_out e" "remote_sta_max (stop_netdev t e) = remote_sta_max e"
  "stas (stop_netdev t e) = stas e"
  by (simp_all add: stop_netdev_def q_flow_def Let_def)

lemma queue_skb_effect:
  assumes t: "t < length (txqs e)"
  shows "txqs (fst (rwnx_txq_queue_skb skb t retry e)) = (txqs e)[t := q_queue skb retry (txq_at e t)]"
    "snd (rwnx_txq_queue_skb skb t retry e) \<longleftrightarrow> \<not> rwnx_txq_is_stopped (txq_at e t)"
    "length (hwqs (fst (rwnx_txq_queue_skb skb t retry e))) = length (hwqs e)"
    "remote_sta_max (fst (rwnx_txq_queue_skb skb t retry e)) = remote_sta_max e"
    "tx_out (fst (rwnx_txq_queue_skb skb t retry e)) = tx_out e"
    "stas (fst (rwnx_txq_queue_skb skb t retry e)) = stas (note_ps_packet t e)"
  using t by (simp_all add: rwnx_txq_queue_skb_def q_queue_def Let_def txq_tests q_flow_bits)

lemma lists_ok_queue_skb:
  assumes l: "lists_ok e" and t: "t < length (txqs e)" and h: "txq_hwq (txq_at e t) < length (hwqs e)"
  shows "lists_ok (fst (rwnx_txq_queue_skb skb t retry e))"
proof -
  define f where "f = (\<lambda>q. q_flow (enqueue_skb skb retry q))"
  define e1 where "e1 = stop_netdev t (upd_txq t (enqueue_skb skb retry) (note_ps_packet t e))"
  have "lists_ok (upd_txq t f e)" by (rule lists_ok_upd_txq [OF l]) (simp add: f_def q_flow_bits)
  moreover have "txqs e1 = txqs (upd_txq t f e)" "hwqs e1 = hwqs e" using t by (simp_all add: e1_def f_def)
  ultimately have "lists_ok e1" using lists_ok_cong [of e1 "upd_txq t f e"] by simp
  moreover have "txq_at e1 t = f (txq_at e t)" using t by (simp add: e1_def f_def)
  ultimately show ?thesis
    using t h lists_ok_add [of e1 t] by (simp add: rwnx_txq_queue_skb_def Let_def f_def \<open>txqs e1 = _\<close> \<open>hwqs e1 = _\<close> flip: e1_def)
qed

lemma txq_ok_queue:
  assumes ok: "txq_ok nh q" and act: "\<not> inactive q" and new: "skb \<notin> set (sk_list q)"
  shows "txq_ok nh (q_queue skb retry q)"
proof -
  let ?q = "q_queue skb retry q" and ?n = "nat (nb_retry q)"
  note r = txq_okD(9) [OF ok act]
  note l = enqueue_list [OF r txq_okD(2) [OF ok]]
  have r': "0 \<le> nb_retry q" "?n \<le> length (sk_list q)" using r by (auto simp: retry_ok_def)
  show ?thesis
  proof
    show "txq_hwq ?q < nh" "0 < sint (credits ?q)" using txq_okD(1,5) [OF ok] act by simp_all
    show "distinct (sk_list ?q)"
      using txq_okD(2) [OF ok] new set_take_disj_set_drop_if_distinct [of "sk_list q" ?n ?n]
      by (auto simp: l dest: in_set_takeD in_set_dropD)
    show "sk_list ?q \<noteq> []" by (simp add: l)
    show "sched ?q" if "\<not> rwnx_txq_is_stopped ?q" using that by (simp add: txq_tests q_queue_bits)
    have "nb_retry ?q = (if retry then nb_retry q + 1 else nb_retry q)"
      "last_retry_skb ?q = (if retry then Some skb else last_retry_skb q)" by (simp_all add: enqueue_skb_def)
    moreover have "nat (nb_retry q + 1) - 1 = ?n" using r' by simp
    ultimately show "retry_ok ?q"
      using r r' by (auto simp: retry_ok_def l nth_append)
    have "length (sk_list q) \<le> length (sk_list ?q)" by (auto simp: l min_def)
    then show "limit_ok ?q"
      using txq_okD(10) [OF ok act] q_queue_bits [of skb retry q 3] unfolding limit_ok_def by (auto elim: order_trans)
  qed (use act in simp_all)
qed

lemma tx_inv_queue_skb:
  assumes "tx_inv e" "t < length (txqs e)" "\<not> inactive (txq_at e t)" "skb \<notin> set (sk_list (txq_at e t))"
  shows "tx_inv (fst (rwnx_txq_queue_skb skb t retry e))"
  by (rule tx_inv_single [OF assms(1)])
     (use assms in \<open>auto simp: queue_skb_effect intro: lists_ok_queue_skb txq_ok_queue tx_invD txq_okD(1)\<close>)

subsection \<open>The other operations on one queue\<close>

definition q_deinit :: "rwnx_txq \<Rightarrow> rwnx_txq" where
  "q_deinit q = (if inactive q then q else (q_del q)\<lparr>txq_idx := TXQ_INACTIVE, sk_list := []\<rparr>)"

lemma deinit_effect:
  "t < length (txqs e) \<Longrightarrow> txqs (rwnx_txq_deinit t e) = (txqs e)[t := q_deinit (txq_at e t)]"
  "length (hwqs (rwnx_txq_deinit t e)) = length (hwqs e)" "stas (rwnx_txq_deinit t e) = stas e"
  "remote_sta_max (rwnx_txq_deinit t e) = remote_sta_max e" "tx_out (rwnx_txq_deinit t e) = tx_out e"
  "ndev_stopped (rwnx_txq_deinit t e) = ndev_stopped e"
  by (simp_all add: rwnx_txq_deinit_def rwnx_txq_flush_def q_deinit_def)

lemma tx_inv_deinit:
  assumes inv: "tx_inv e" and t: "t < length (txqs e)"
  shows "tx_inv (rwnx_txq_deinit t e)"
proof (rule tx_inv_single [OF inv _ deinit_effect(1) [OF t] deinit_effect(2)])
  note ok = tx_invD(2) [OF inv t]
  have "lists_ok (rwnx_txq_del_from_hw_list t e)" by (rule lists_ok_del [OF tx_invD(1) [OF inv] t txq_okD(1) [OF ok]])
  then show "lists_ok (rwnx_txq_deinit t e)"
    using tx_invD(1) [OF inv] by (auto simp: rwnx_txq_deinit_def rwnx_txq_flush_def intro!: lists_ok_upd_txq)
  show "txq_ok (length (hwqs e)) (q_deinit (txq_at e t))"
    using ok txq_okD(1) [OF ok] by (auto simp: q_deinit_def txq_ok_def)
qed

lemma txq_ok_init:
  assumes "hwq < nh" "\<not> bit st 0" "idx < 65535"
  shows "txq_ok nh (rwnx_txq_init n idx st hwq tid sta)" "\<not> inactive (rwnx_txq_init n idx st hwq tid sta)"
proof -
  have "unat (of_nat idx :: u16) = idx" using assms(3) by (simp add: unat_of_nat)
  then have "(of_nat idx :: u16) \<noteq> TXQ_INACTIVE" using assms(3) by (auto simp: TXQ_INACTIVE_def)
  then show "txq_ok nh (rwnx_txq_init n idx st hwq tid sta)" "\<not> inactive (rwnx_txq_init n idx st hwq tid sta)"
    using assms(1,2) by (auto simp: txq_ok_def rwnx_txq_init_def retry_ok_def limit_ok_def NX_TXQ_INITIAL_CREDITS_def)
qed

text \<open>A queue is initialised when it is not scheduled: its list node is not written.\<close>

lemma tx_inv_init:
  assumes inv: "tx_inv e" and t: "t < length (txqs e)" and n: "\<not> sched (txq_at e t)" "\<not> sched q" and ok: "txq_ok (length (hwqs e)) q"
  shows "tx_inv (upd_txq t (\<lambda>_. q) e)"
proof (rule tx_inv_single [OF inv, where q' = q and t = t])
  show "lists_ok (upd_txq t (\<lambda>_. q) e)" by (rule lists_ok_upd_txq [OF tx_invD(1) [OF inv]]) (simp add: n)
qed (simp_all add: ok)

lemma tx_inv_upd_stas: "txqs e' = txqs e \<Longrightarrow> hwqs e' = hwqs e \<Longrightarrow> tx_inv e' = tx_inv e"
  using lists_ok_cong [of e' e] by (simp add: tx_inv_def)

lemma tx_inv_upd_hwq:
  "tx_inv e \<Longrightarrow> (\<And>x. hwq_list (f x) = hwq_list x) \<Longrightarrow> tx_inv (upd_hwq h f e)"
  unfolding tx_inv_def by (auto intro: lists_ok_upd_hwq)

lemma pkt_pushed_same: "pkt_pushed q = 0 \<Longrightarrow> q\<lparr>pkt_pushed := 0\<rparr> = q"
  by (cases q) simp

lemma sint_inc: "sint (x :: 8 word) < 127 \<Longrightarrow> sint (x + 1) = sint x + 1"
  using sint_range_size [of x] by (subst sint_word_ariths, subst signed_take_bit_int_eq_self) (auto simp: word_size)

lemma confirm_frame [simp]:
  "length (hwqs (rwnx_txq_confirm_any t h e)) = length (hwqs e)" "stas (rwnx_txq_confirm_any t h e) = stas e"
  "remote_sta_max (rwnx_txq_confirm_any t h e) = remote_sta_max e" "tx_out (rwnx_txq_confirm_any t h e) = tx_out e"
  "ndev_stopped (rwnx_txq_confirm_any t h e) = ndev_stopped e"
  "txqs (rwnx_txq_confirm_any t h e) = (txqs e)[t := (txq_at e t)\<lparr>pkt_pushed :=
     (if pkt_pushed (txq_at e t) \<noteq> 0 then pkt_pushed (txq_at e t) - 1 else pkt_pushed (txq_at e t))\<rparr>]"
  by (auto simp: rwnx_txq_confirm_any_def Let_def pkt_pushed_same)

lemma tx_inv_confirm:
  assumes inv: "tx_inv e" and t: "t < length (txqs e)"
  shows "tx_inv (rwnx_txq_confirm_any t h e)"
proof -
  define e1 where "e1 = upd_txq t (\<lambda>q. q\<lparr>pkt_pushed := (if pkt_pushed q \<noteq> 0 then pkt_pushed q - 1 else pkt_pushed q)\<rparr>) e"
  have "lists_ok e1" unfolding e1_def by (rule lists_ok_upd_txq [OF tx_invD(1) [OF inv]]) simp
  then have e1: "tx_inv e1"
    using tx_invD(2) [OF inv t] by (auto simp: e1_def txq_ok_def retry_ok_def limit_ok_def rwnx_txq_is_stopped_def intro!: tx_inv_single [OF inv])
  have "txqs (rwnx_txq_confirm_any t h e) = txqs e1"
    "hwqs (rwnx_txq_confirm_any t h e) = hwqs (upd_hwq h (\<lambda>h. h\<lparr>need_processing := True\<rparr>) e1)"
    by (auto simp: rwnx_txq_confirm_any_def Let_def e1_def pkt_pushed_same)
  then show ?thesis
    using tx_inv_upd_stas [of "rwnx_txq_confirm_any t h e" "upd_hwq h (\<lambda>h. h\<lparr>need_processing := True\<rparr>) e1"]
      tx_inv_upd_hwq [OF e1, of "\<lambda>h. h\<lparr>need_processing := True\<rparr>" h] by simp
qed

text \<open>A confirmation lets a service period go on: the queue has the packets of its limit.\<close>

lemma tx_inv_add_limited:
  assumes inv: "tx_inv e" and t: "t < length (txqs e)" and q: "\<not> inactive (txq_at e t)" "sk_list (txq_at e t) \<noteq> []"
  shows "tx_inv (rwnx_txq_add_to_hw_list t e)"
proof (rule tx_inv_single [OF inv _ add_to_hw_txqs])
  note ok = tx_invD(2) [OF inv t]
  show "lists_ok (rwnx_txq_add_to_hw_list t e)" by (rule lists_ok_add [OF tx_invD(1) [OF inv] t txq_okD(1) [OF ok]])
  show "txq_ok (length (hwqs e)) (q_add (txq_at e t))"
    using ok q by (auto simp: txq_ok_def retry_ok_def limit_ok_def)
qed simp

lemma tx_inv_retry:
  assumes inv: "tx_inv e" and t: "t < length (txqs e)" and q: "\<not> inactive (txq_at e t)" "skb \<notin> set (sk_list (txq_at e t))"
    and c: "sint (credits (txq_at e t)) < 127"
  shows "tx_inv (rwnx_tx_retry skb t e)"
proof -
  let ?q = "txq_at e t"
  note ok = tx_invD(2) [OF inv t]
  define e1 where "e1 = upd_txq t (\<lambda>q. q\<lparr>credits := credits q + 1\<rparr>) e"
  have pos: "0 < sint (credits ?q)" using txq_okD(5) [OF ok q(1)] .
  have "sint (credits ?q + 1) = sint (credits ?q) + 1"
    using c by (rule sint_inc)
  moreover have "lists_ok e1" unfolding e1_def by (rule lists_ok_upd_txq [OF tx_invD(1) [OF inv]]) simp
  ultimately have 1: "tx_inv e1"
    using ok by (auto simp: e1_def txq_ok_def retry_ok_def limit_ok_def rwnx_txq_is_stopped_def intro!: tx_inv_single [OF inv])
  define e2 where "e2 = (if 0 < sint (credits (txq_at e1 t)) then rwnx_txq_start t RWNX_TXQ_STOP_FULL e1 else e1)"
  have r: "RWNX_TXQ_STOP_FULL \<in> stop_reasons" "RWNX_TXQ_STOP_FULL \<noteq> RWNX_TXQ_STOP_STA_PS"
    by (simp_all add: stop_reasons_def RWNX_TXQ_STOP_FULL_def RWNX_TXQ_STOP_STA_PS_def)
  have t1: "t < length (txqs e1)" using t by (simp add: e1_def)
  have 2: "tx_inv e2" using tx_inv_start [OF 1 r(1) t1] 1 r(2) by (simp add: e2_def)
  have "rwnx_tx_retry skb t e = fst (rwnx_txq_queue_skb skb t True e2)"
    by (simp add: rwnx_tx_retry_def Let_def e1_def e2_def)
  then show ?thesis
    using tx_inv_queue_skb [OF 2, of t skb True] t1 q t by (simp add: e2_def e1_def)
qed

lemma tx_inv_credit_update:
  assumes "tx_inv e" "t < length (txqs e)"
  shows "tx_inv (rwnx_txq_credit_update t e)"
  using assms
  by (auto simp: rwnx_txq_credit_update_def intro!: tx_inv_start tx_inv_stop)
     (simp_all add: stop_reasons_def RWNX_TXQ_STOP_FULL_def RWNX_TXQ_STOP_STA_PS_def)

lemma hwq_process_correct:
  assumes inv: "tx_inv e" and h: "h < length (hwqs e)"
  obtains e' where "rwnx_hwq_process h e = Tx_done e'" "tx_inv e'" "tx_same e e'"
    "\<And>t. t \<in> set (hwq_list (hwq_at e h)) \<Longrightarrow> length (sent_of e t) < length (sent_of e' t)"
proof -
  define e1 where "e1 = upd_hwq h (\<lambda>hw. hw\<lparr>need_processing := False\<rparr>) e"
  define cur where "cur = (case hwq_list (hwq_at e h) of [] \<Rightarrow> None | t # _ \<Rightarrow> Some t)"
  have 1: "tx_inv e1" "h < length (hwqs e1)" "queued e1 = queued e" "tx_same e e1" "sent_of e1 = sent_of e"
    "hwq_list (hwq_at e1 h) = hwq_list (hwq_at e h)"
    using h by (auto simp: e1_def tx_inv_upd_hwq inv queued_def tx_same_def q_same_def tx_stream_def sent_of_def)
  have cur: "t \<in> set (hwq_list (hwq_at e1 h))" if "cur = Some t" for t
    using that by (auto simp: cur_def 1 split: list.splits)
  obtain e' where e': "hwq_loop (Suc (queued e)) h cur e1 = Tx_done e'" "tx_inv e'" "tx_same e1 e'"
    using hwq_loop_correct [OF 1(1,2) cur, where fuel = "Suc (queued e)"] 1(3) by auto
  show thesis
  proof (rule that)
    show "rwnx_hwq_process h e = Tx_done e'" using e'(1) by (simp add: rwnx_hwq_process_def e1_def cur_def)
    show "tx_inv e'" by (rule e'(2))
    show "tx_same e e'" by (rule tx_same_trans [OF 1(4) e'(3)])
    fix t assume t: "t \<in> set (hwq_list (hwq_at e h))"
    then obtain u us where us: "hwq_list (hwq_at e h) = u # us" by (cases "hwq_list (hwq_at e h)") auto
    have "length (sent_of e1 t) < length (sent_of e' t)"
      by (rule hwq_loop_fair [OF 1(1,2) cur _ e'(1), of u]) (use t us in \<open>auto simp: 1 cur_def from_here_def\<close>)
    then show "length (sent_of e t) < length (sent_of e' t)" by (simp add: 1)
  qed
qed

end
