(* ===== verification/Tx_Ps.thy ===== *)
theory Tx_Ps
  imports Tx_Sched
begin

text \<open>
  Stations and interfaces over the transmit queues (\<^verbatim>\<open>rwnx_txq.c\<close>) and the power-save mode of a station
  (\<^verbatim>\<open>rwnx_tx.c\<close>): a sleeping station is sent what it asked for.
\<close>

unbundle bit_operations_syntax

subsection \<open>Queues of a station and of an interface\<close>

definition rwnx_txq_sta_init :: "nat \<Rightarrow> u8 \<Rightarrow> tx_env \<Rightarrow> tx_env" where
  "rwnx_txq_sta_init s st e =
     (let first = rwnx_txq_sta_idx (remote_sta_max e) s (sta_vif_idx (sta_at e s)) 0
      in fold (\<lambda>tid. upd_txq (first + tid) (\<lambda>_.
           (rwnx_txq_init (remote_sta_max e) (first + tid) st (rwnx_tid2hwq ! tid) tid (Some s))
             \<lparr>ps_id := (if bit (uapsd_tids (sta_at e s)) tid then UAPSD_ID else LEGACY_PS_ID)\<rparr>))
           [0..<length (sta_txqs e s)] e)"

definition rwnx_txq_sta_deinit :: "nat \<Rightarrow> tx_env \<Rightarrow> tx_env" where
  "rwnx_txq_sta_deinit s e = fold rwnx_txq_deinit (sta_txqs e s) e"

datatype tx_iftype = If_station | If_p2p_client | If_ap | If_ap_vlan | If_mesh_point | If_p2p_go | If_monitor | If_other

text \<open>
  What the queue operations read of an interface: \<open>vif_master\<close> is \<open>master_vif_idx\<close>, \<open>vif_sta_list\<close> the stations of
  the access point (of the master for a VLAN).
\<close>

record tx_vif =
  vif_iftype :: tx_iftype
  vif_master :: nat
  vif_ap :: "nat option"
  vif_tdls_sta :: "nat option"
  vif_tdls_active :: bool
  vif_roc_tdls :: bool
  vif_chsw_en :: bool
  vif_sta_list :: "nat list"
  vif_bcmc :: nat

definition rwnx_txq_vif_init :: "tx_vif \<Rightarrow> u8 \<Rightarrow> tx_env \<Rightarrow> tx_env" where
  "rwnx_txq_vif_init v st e =
     (let n = remote_sta_max e; b = rwnx_txq_vif_get n (vif_master v) NX_BCMC_TXQ_TYPE;
          u = rwnx_txq_vif_get n (vif_master v) NX_UNK_TXQ_TYPE;
          e = upd_txq b (\<lambda>_. rwnx_txq_init n b st RWNX_HWQ_BE 0 (Some (vif_bcmc v))) e
      in upd_txq u (\<lambda>_. rwnx_txq_init n u st RWNX_HWQ_VO TID_MGT None) e)"

definition rwnx_txq_vif_deinit :: "tx_vif \<Rightarrow> tx_env \<Rightarrow> tx_env" where
  "rwnx_txq_vif_deinit v e =
     (let n = remote_sta_max e
      in rwnx_txq_deinit (rwnx_txq_vif_get n (vif_master v) NX_UNK_TXQ_TYPE)
           (rwnx_txq_deinit (rwnx_txq_vif_get n (vif_master v) NX_BCMC_TXQ_TYPE) e))"

definition rwnx_txq_unk_vif_init :: "tx_vif \<Rightarrow> tx_env \<Rightarrow> tx_env" where
  "rwnx_txq_unk_vif_init v e =
     (let n = remote_sta_max e; u = rwnx_txq_vif_get n (vif_master v) NX_UNK_TXQ_TYPE
      in upd_txq u (\<lambda>_. rwnx_txq_init n u 0 RWNX_HWQ_VO TID_MGT None) e)"

definition rwnx_txq_unk_vif_deinit :: "tx_vif \<Rightarrow> tx_env \<Rightarrow> tx_env" where
  "rwnx_txq_unk_vif_deinit v e =
     rwnx_txq_deinit (rwnx_txq_vif_get (remote_sta_max e) (vif_master v) NX_UNK_TXQ_TYPE) e"

definition rwnx_txq_offchan_init :: "tx_env \<Rightarrow> tx_env" where
  "rwnx_txq_offchan_init e =
     (let n = remote_sta_max e; t = NX_OFF_CHAN_TXQ_IDX n
      in upd_txq t (\<lambda>_. rwnx_txq_init n t RWNX_TXQ_STOP_CHAN RWNX_HWQ_VO TID_MGT None) e)"

definition rwnx_txq_offchan_deinit :: "tx_env \<Rightarrow> tx_env" where
  "rwnx_txq_offchan_deinit e = rwnx_txq_deinit (NX_OFF_CHAN_TXQ_IDX (remote_sta_max e)) e"

definition rwnx_txq_offchan_start :: "tx_env \<Rightarrow> tx_env" where
  "rwnx_txq_offchan_start e = rwnx_txq_start (NX_OFF_CHAN_TXQ_IDX (remote_sta_max e)) RWNX_TXQ_STOP_CHAN e"

definition rwnx_txq_tdls_sta_start :: "tx_vif \<Rightarrow> u8 \<Rightarrow> tx_env \<Rightarrow> tx_env" where
  "rwnx_txq_tdls_sta_start v reason e = (case vif_tdls_sta v of None \<Rightarrow> e | Some s \<Rightarrow> rwnx_txq_sta_start s reason e)"

definition rwnx_txq_tdls_sta_stop :: "tx_vif \<Rightarrow> u8 \<Rightarrow> tx_env \<Rightarrow> tx_env" where
  "rwnx_txq_tdls_sta_stop v reason e = (case vif_tdls_sta v of None \<Rightarrow> e | Some s \<Rightarrow> rwnx_txq_sta_stop s reason e)"

text \<open>The stations of an interface; \<open>None\<close> is the \<open>BUG()\<close> of an interface type that has none.\<close>

definition vif_stas :: "tx_vif \<Rightarrow> nat list option" where
  "vif_stas v =
     (case vif_iftype v of
        If_station \<Rightarrow> Some ((if vif_tdls_active v then [the (vif_tdls_sta v)] else []) @ (case vif_ap v of None \<Rightarrow> [] | Some s \<Rightarrow> [s]))
      | If_p2p_client \<Rightarrow> Some ((if vif_tdls_active v then [the (vif_tdls_sta v)] else []) @ (case vif_ap v of None \<Rightarrow> [] | Some s \<Rightarrow> [s]))
      | If_ap_vlan \<Rightarrow> Some (vif_sta_list v) | If_ap \<Rightarrow> Some (vif_sta_list v)
      | If_mesh_point \<Rightarrow> Some (vif_sta_list v) | If_p2p_go \<Rightarrow> Some (vif_sta_list v)
      | _ \<Rightarrow> None)"

definition rwnx_txq_vif_for_each_sta :: "tx_vif \<Rightarrow> (nat \<Rightarrow> tx_env \<Rightarrow> tx_env) \<Rightarrow> tx_env \<Rightarrow> tx_env option" where
  "rwnx_txq_vif_for_each_sta v f e = map_option (\<lambda>ss. fold f ss e) (vif_stas v)"

definition rwnx_txq_vif_start :: "tx_vif \<Rightarrow> u8 \<Rightarrow> tx_env \<Rightarrow> tx_env option" where
  "rwnx_txq_vif_start v reason e =
     (if vif_iftype v = If_monitor then Some e
      else let n = remote_sta_max e;
               e = (if vif_roc_tdls v \<and> vif_tdls_sta v \<noteq> None \<and> vif_chsw_en v
                    then rwnx_txq_sta_start (the (vif_tdls_sta v)) reason e else e);
               r = (if vif_roc_tdls v then Some e
                    else rwnx_txq_vif_for_each_sta v (\<lambda>s. rwnx_txq_sta_start s reason) e)
           in map_option (\<lambda>e. rwnx_txq_start (rwnx_txq_vif_get n (vif_master v) NX_UNK_TXQ_TYPE) reason
                (rwnx_txq_start (rwnx_txq_vif_get n (vif_master v) NX_BCMC_TXQ_TYPE) reason e)) r)"

definition rwnx_txq_vif_stop :: "tx_vif \<Rightarrow> u8 \<Rightarrow> tx_env \<Rightarrow> tx_env option" where
  "rwnx_txq_vif_stop v reason e =
     (if vif_iftype v = If_monitor then Some e
      else let n = remote_sta_max e
           in map_option (\<lambda>e. rwnx_txq_stop (rwnx_txq_vif_get n (vif_master v) NX_UNK_TXQ_TYPE) reason
                (rwnx_txq_stop (rwnx_txq_vif_get n (vif_master v) NX_BCMC_TXQ_TYPE) reason e))
                (rwnx_txq_vif_for_each_sta v (\<lambda>s. rwnx_txq_sta_stop s reason) e))"

text \<open>\<open>rwnx_txq_sta_switch_vif\<close>, on the netdev subqueues it wakes.\<close>

definition rwnx_txq_sta_switch_vif :: "nat \<Rightarrow> tx_env \<Rightarrow> tx_env" where
  "rwnx_txq_sta_switch_vif s e =
     (let t = rwnx_txq_sta_get (remote_sta_max e) s (sta_vif_idx (sta_at e s)) 0
      in fold (\<lambda>i e. e\<lparr>ndev_stopped := removeAll (ndev_idx (txq_at e (t + i))) (ndev_stopped e)\<rparr>)
           [0..<NX_NB_TID_PER_STA] e)"

subsection \<open>Power save\<close>

definition clear_limits :: "nat list \<Rightarrow> tx_env \<Rightarrow> tx_env" where
  "clear_limits ts = fold (\<lambda>t. upd_txq t (\<lambda>q. q\<lparr>push_limit := 0\<rparr>)) ts"

definition count_ready :: "nat \<Rightarrow> nat list \<Rightarrow> tx_env \<Rightarrow> tx_env" where
  "count_ready s ts = fold (\<lambda>t e. upd_sta s (\<lambda>st. st\<lparr>pkt_ready := (pkt_ready st)
     [ps_id (txq_at e t) := pkt_ready st ! ps_id (txq_at e t) + of_nat (length (sk_list (txq_at e t)))]\<rparr>) e) ts"

definition rwnx_ps_bh_enable :: "nat \<Rightarrow> bool \<Rightarrow> tx_env \<Rightarrow> tx_env" where
  "rwnx_ps_bh_enable s enable e =
     (let mc = is_multicast_sta (remote_sta_max e) s;
          t = rwnx_txq_sta_get (remote_sta_max e) s (sta_vif_idx (sta_at e s)) 0 in
      if enable then
        let e = upd_sta s (\<lambda>st. st\<lparr>ps_active := True, sp_cnt := [0, 0]\<rparr>) e;
            e = rwnx_txq_sta_stop s RWNX_TXQ_STOP_STA_PS e
        in if mc then upd_sta s (\<lambda>st. st\<lparr>pkt_ready := [of_nat (length (sk_list (txq_at e t))), 0]\<rparr>) e
           else count_ready s (sta_txqs e s) (upd_sta s (\<lambda>st. st\<lparr>pkt_ready := [0, 0]\<rparr>) e)
      else
        let e = upd_sta s (\<lambda>st. st\<lparr>ps_active := False\<rparr>) e;
            e = (if mc then upd_txq t (\<lambda>q. q\<lparr>txq_hwq := RWNX_HWQ_BE, push_limit := 0\<rparr>) e
                 else clear_limits (sta_txqs e s) e)
        in rwnx_txq_sta_start s RWNX_TXQ_STOP_STA_PS e)"

text \<open>An unsigned length capped by the signed credits, in 16 bits.\<close>

definition cap_credits :: "u16 \<Rightarrow> 8 word \<Rightarrow> u16" where
  "cap_credits len cred = (if sint cred < uint len then scast cred else len)"

definition grant :: "nat \<Rightarrow> nat \<Rightarrow> nat \<Rightarrow> u16 \<Rightarrow> tx_env \<Rightarrow> tx_env" where
  "grant s pid t n e =
     rwnx_txq_add_to_hw_list t (upd_sta s (\<lambda>st. st\<lparr>sp_cnt := (sp_cnt st)[pid := sp_cnt st ! pid + n]\<rparr>)
       (upd_txq t (\<lambda>q. q\<lparr>push_limit := ucast n\<rparr>) e))"

fun dispatch_req :: "nat \<Rightarrow> nat \<Rightarrow> u16 \<Rightarrow> nat list \<Rightarrow> tx_env \<Rightarrow> tx_env" where
  "dispatch_req s pid pkt_req [] e = e"
| "dispatch_req s pid pkt_req (t # ts) e =
     (let q = txq_at e t; txq_len = cap_credits (of_nat (length (sk_list q))) (credits q) in
      if ps_id q \<noteq> pid \<or> txq_len = 0 then dispatch_req s pid pkt_req ts e
      else if txq_len < pkt_req then dispatch_req s pid (pkt_req - txq_len) ts (grant s pid t txq_len e)
      else grant s pid t pkt_req e)"

definition rwnx_ps_bh_traffic_req :: "nat \<Rightarrow> u16 \<Rightarrow> nat \<Rightarrow> tx_env \<Rightarrow> tx_env" where
  "rwnx_ps_bh_traffic_req s pkt_req pid e =
     (let st = sta_at e s; n = remote_sta_max e; get = rwnx_txq_sta_get n s (sta_vif_idx st);
          pkt_ready_all = uint (pkt_ready st ! pid) - uint (sp_cnt st ! pid) in
      if \<not> ps_active st then e
      else if pkt_req = PS_SP_INTERRUPTED \<and> pid = UAPSD_ID
      then clear_limits (sta_txqs e s) (upd_sta s (\<lambda>st. st\<lparr>sp_cnt := (sp_cnt st)[pid := 0]\<rparr>) e)
      else if sp_cnt st ! pid \<noteq> 0 \<or> pkt_ready_all \<le> 0 then e
      else let pkt_req = (if pkt_req = 0 \<or> pkt_ready_all < uint pkt_req then of_int pkt_ready_all else pkt_req);
               e = upd_sta s (\<lambda>st. st\<lparr>sp_cnt := (sp_cnt st)[pid := 0]\<rparr>) e
           in if is_multicast_sta n s then grant s pid (get 0) (cap_credits pkt_req (credits (txq_at e (get 0)))) e
              else dispatch_req s pid pkt_req (map get nx_tid_prio) e)"

text \<open>\<open>rwnx_txdatacfm\<close>, on the queues: the packet is confirmed, and retried or the service period goes on.\<close>

definition rwnx_txdatacfm :: "nat \<Rightarrow> nat \<Rightarrow> nat \<Rightarrow> bool \<Rightarrow> bool \<Rightarrow> tx_env \<Rightarrow> tx_env" where
  "rwnx_txdatacfm skb t hwq mgmt retry e =
     (let e = rwnx_txq_confirm_any t hwq e in
      if \<not> mgmt \<and> txq_idx (txq_at e t) \<noteq> TXQ_INACTIVE \<and> retry then rwnx_tx_retry skb t e
      else if txq_idx (txq_at e t) \<noteq> TXQ_INACTIVE \<and> push_limit (txq_at e t) \<noteq> 0 \<and> \<not> rwnx_txq_is_full (txq_at e t)
      then rwnx_txq_add_to_hw_list t e else e)"

text \<open>The tail of \<open>rwnx_start_xmit\<close> and of the management transmission.\<close>

definition xmit_tail :: "nat \<Rightarrow> nat \<Rightarrow> tx_env \<Rightarrow> tx_outcome" where
  "xmit_tail skb t e =
     (let (e, scheduled) = rwnx_txq_queue_skb skb t False e
      in if scheduled then rwnx_hwq_process (txq_hwq (txq_at e t)) e else Tx_done e)"

subsection \<open>The queues of different stations are different\<close>

definition stations_ok :: "tx_env \<Rightarrow> bool" where
  "stations_ok e \<longleftrightarrow> remote_sta_max e \<le> 7000 \<and> length (txqs e) = NX_NB_TXQ (remote_sta_max e) \<and>
     RWNX_HWQ_VO < length (hwqs e) \<and>
     (\<forall>s < length (stas e). remote_sta_max e \<le> s \<longrightarrow> sta_vif_idx (sta_at e s) < NX_VIRT_DEV_MAX) \<and>
     (\<forall>s < length (stas e). \<forall>s' < length (stas e). remote_sta_max e \<le> s \<longrightarrow> remote_sta_max e \<le> s' \<longrightarrow>
        sta_vif_idx (sta_at e s) = sta_vif_idx (sta_at e s') \<longrightarrow> s = s')"

lemmas nx_defs = NX_NB_TXQ_def NX_NB_TXQ_PER_STA_def NX_NB_TID_PER_STA_def NX_NB_TXQ_PER_VIF_def NX_VIRT_DEV_MAX_def
  NX_FIRST_VIF_TXQ_IDX_def NX_FIRST_UNK_TXQ_IDX_def NX_OFF_CHAN_TXQ_IDX_def NX_BCMC_TXQ_TYPE_def NX_UNK_TXQ_TYPE_def

lemma sta_txqs_eq:
  "sta_txqs e s = (if s < remote_sta_max e then [s * 9..<s * 9 + 9]
     else [remote_sta_max e * 9 + sta_vif_idx (sta_at e s)])"
  by (simp add: sta_txqs_def rwnx_txq_sta_get_def rwnx_txq_sta_idx_def is_multicast_sta_def nx_defs Let_def)

lemma sta_txqs_range:
  assumes "stations_ok e" "s < length (stas e)" "t \<in> set (sta_txqs e s)"
  shows "t < length (txqs e)"
  using assms by (auto simp: stations_ok_def sta_txqs_eq nx_defs split: if_splits)

lemma sta_txqs_disjoint:
  assumes "stations_ok e" "s < length (stas e)" "s' < length (stas e)" "t \<in> set (sta_txqs e s)" "t \<in> set (sta_txqs e s')"
  shows "s = s'"
proof -
  consider "s < remote_sta_max e" "s' < remote_sta_max e" | "s < remote_sta_max e" "remote_sta_max e \<le> s'"
    | "remote_sta_max e \<le> s" "s' < remote_sta_max e" | "remote_sta_max e \<le> s" "remote_sta_max e \<le> s'" by linarith
  then show ?thesis
  proof cases
    case 1
    then have "t div 9 = s" "t div 9 = s'" using assms(4,5) by (auto simp: sta_txqs_eq)
    then show ?thesis by simp
  next
    case 4
    then show ?thesis using assms unfolding stations_ok_def by (auto simp: sta_txqs_eq)
  qed (use assms(4,5) in \<open>auto simp: sta_txqs_eq\<close>)
qed

text \<open>What does not change while the driver runs.\<close>

definition same_cfg :: "tx_env \<Rightarrow> tx_env \<Rightarrow> bool" where
  "same_cfg e e' \<longleftrightarrow> remote_sta_max e' = remote_sta_max e \<and> length (txqs e') = length (txqs e) \<and>
     length (hwqs e') = length (hwqs e) \<and> length (stas e') = length (stas e) \<and>
     (\<forall>s < length (stas e). sta_vif_idx (sta_at e' s) = sta_vif_idx (sta_at e s))"

lemma same_cfg_refl [simp]: "same_cfg e e"
  by (simp add: same_cfg_def)

lemma stations_ok_cfg: "same_cfg e e' \<Longrightarrow> stations_ok e \<Longrightarrow> stations_ok e'"
  by (auto simp: same_cfg_def stations_ok_def)

lemma sta_txqs_cfg: "same_cfg e e' \<Longrightarrow> s < length (stas e) \<Longrightarrow> sta_txqs e' s = sta_txqs e s"
  by (auto simp: same_cfg_def sta_txqs_eq)

subsection \<open>The invariant of the power-save mode\<close>

text \<open>
  An active queue of a station is owned by it; while the station sleeps the queue is stopped, and the
  counter of a broadcast station is the number of its packets.  The stations of \<open>X\<close> are exempt: the
  operations that put a station to sleep first set its mode.
\<close>

definition ps_ok :: "tx_env \<Rightarrow> nat \<Rightarrow> rwnx_txq \<Rightarrow> bool" where
  "ps_ok e s q \<longleftrightarrow> ps_active (sta_at e s) \<longrightarrow> sta_ps_stop q \<and>
     (remote_sta_max e \<le> s \<longrightarrow> pkt_ready (sta_at e s) = [of_nat (length (sk_list q)), 0])"

definition queue_ps :: "nat set \<Rightarrow> tx_env \<Rightarrow> nat \<Rightarrow> bool" where
  "queue_ps X e t \<longleftrightarrow> \<not> inactive (txq_at e t) \<longrightarrow>
     (\<forall>s. txq_sta (txq_at e t) = Some s \<longleftrightarrow> s < length (stas e) \<and> t \<in> set (sta_txqs e s)) \<and>
     (\<forall>s. txq_sta (txq_at e t) = Some s \<longrightarrow> (remote_sta_max e \<le> s \<longrightarrow> ps_id (txq_at e t) = LEGACY_PS_ID \<and> txq_hwq (txq_at e t) = RWNX_HWQ_BE) \<and>
        (s \<notin> X \<longrightarrow> ps_ok e s (txq_at e t)))"

definition run_inv :: "nat set \<Rightarrow> tx_env \<Rightarrow> bool" where
  "run_inv X e \<longleftrightarrow> tx_inv e \<and> stations_ok e \<and> (\<forall>t < length (txqs e). queue_ps X e t)"

lemma run_invD:
  assumes "run_inv X e"
  shows "tx_inv e" "stations_ok e" "t < length (txqs e) \<Longrightarrow> queue_ps X e t"
  using assms by (auto simp: run_inv_def)

text \<open>Operations that leave the packets and the stations alone.\<close>

definition q_calm :: "rwnx_txq \<Rightarrow> rwnx_txq \<Rightarrow> bool" where
  "q_calm q q' \<longleftrightarrow> txq_idx q' = txq_idx q \<and> sk_list q' = sk_list q \<and> ps_id q' = ps_id q \<and> txq_sta q' = txq_sta q \<and>
     txq_hwq q' = txq_hwq q"

lemma owner_cfg:
  assumes "same_cfg e e'"
  shows "s < length (stas e') \<and> t \<in> set (sta_txqs e' s) \<longleftrightarrow> s < length (stas e) \<and> t \<in> set (sta_txqs e s)"
  using assms sta_txqs_cfg [OF assms] by (auto simp: same_cfg_def)

text \<open>
  An operation on queue \<open>t\<close> may count packets of its station.  A broadcast station has one queue, so no
  other queue has its counter.
\<close>

lemma queue_ps_owner:
  "queue_ps X e t \<Longrightarrow> \<not> inactive (txq_at e t) \<Longrightarrow>
     txq_sta (txq_at e t) = Some s \<longleftrightarrow> s < length (stas e) \<and> t \<in> set (sta_txqs e s)"
  unfolding queue_ps_def by blast

lemma run_inv_one:
  assumes inv: "run_inv X e" and tx: "tx_inv e'" and cfg: "same_cfg e e'" and q: "txqs e' = (txqs e)[t := q']" and t: "t < length (txqs e)"
    and st: "\<And>s. s < length (stas e) \<Longrightarrow> ps_active (sta_at e' s) = ps_active (sta_at e s) \<and>
      (pkt_ready (sta_at e' s) = pkt_ready (sta_at e s) \<or> \<not> inactive (txq_at e t) \<and> txq_sta (txq_at e t) = Some s)"
    and one: "inactive q' \<or> txq_idx q' = txq_idx (txq_at e t) \<and> ps_id q' = ps_id (txq_at e t) \<and> txq_sta q' = txq_sta (txq_at e t) \<and>
      txq_hwq q' = txq_hwq (txq_at e t) \<and>
      (\<forall>s. txq_sta q' = Some s \<longrightarrow> s \<notin> X \<longrightarrow> ps_ok e s (txq_at e t) \<longrightarrow> ps_ok e' s q')"
  shows "run_inv X e'"
  unfolding run_inv_def
proof (intro conjI allI impI)
  show "stations_ok e'" by (rule stations_ok_cfg [OF cfg run_invD(2) [OF inv]])
  have r: "remote_sta_max e' = remote_sta_max e" using cfg by (simp add: same_cfg_def)
  fix u assume u: "u < length (txqs e')"
  then have u': "u < length (txqs e)" by (simp add: q)
  have old: "queue_ps X e u" and oldt: "queue_ps X e t" using run_invD(3) [OF inv] u' t by auto
  show "queue_ps X e' u"
  proof (cases "u = t")
    case True
    then show ?thesis
      unfolding queue_ps_def owner_cfg [OF cfg] using old one u' by (auto simp: queue_ps_def q r)
  next
    case False
    have "ps_ok e' s (txq_at e u)" if s: "\<not> inactive (txq_at e u)" "txq_sta (txq_at e u) = Some s" "ps_ok e s (txq_at e u)" for s
    proof -
      have su: "s < length (stas e)" "u \<in> set (sta_txqs e s)" using queue_ps_owner [OF old s(1)] s(2) by blast+
      have "pkt_ready (sta_at e' s) = pkt_ready (sta_at e s)" if mc: "remote_sta_max e \<le> s"
      proof (rule ccontr)
        assume "pkt_ready (sta_at e' s) \<noteq> pkt_ready (sta_at e s)"
        then have "\<not> inactive (txq_at e t)" "txq_sta (txq_at e t) = Some s" using st [OF su(1)] by auto
        then have "t \<in> set (sta_txqs e s)" using queue_ps_owner [OF oldt] by blast
        then show False using su(2) mc False by (simp add: sta_txqs_eq)
      qed
      then show ?thesis using s(3) st [OF su(1)] by (simp add: ps_ok_def r)
    qed
    then show ?thesis
      unfolding queue_ps_def owner_cfg [OF cfg] using old False by (simp add: queue_ps_def q r)
  qed
qed (rule tx)

lemma run_inv_calm:
  assumes "run_inv X e" "tx_inv e'" "same_cfg e e'" "stas e' = stas e" "txqs e' = (txqs e)[t := q']" "t < length (txqs e)"
    and "inactive q' \<or> q_calm (txq_at e t) q' \<and>
      (\<forall>s. txq_sta q' = Some s \<longrightarrow> s \<notin> X \<longrightarrow> ps_active (sta_at e s) \<longrightarrow> sta_ps_stop (txq_at e t) \<longrightarrow> sta_ps_stop q')"
  shows "run_inv X e'"
proof (rule run_inv_one [OF assms(1,2,3,5,6)])
  have "remote_sta_max e' = remote_sta_max e" using assms(3) by (simp add: same_cfg_def)
  then show "inactive q' \<or> txq_idx q' = txq_idx (txq_at e t) \<and> ps_id q' = ps_id (txq_at e t) \<and> txq_sta q' = txq_sta (txq_at e t) \<and>
      txq_hwq q' = txq_hwq (txq_at e t) \<and>
      (\<forall>s. txq_sta q' = Some s \<longrightarrow> s \<notin> X \<longrightarrow> ps_ok e s (txq_at e t) \<longrightarrow> ps_ok e' s q')"
    using assms(7) by (auto simp: q_calm_def ps_ok_def assms(4))
qed (simp add: assms(4))

lemma same_cfg_trans: "same_cfg a b \<Longrightarrow> same_cfg b c \<Longrightarrow> same_cfg a c"
  by (auto simp: same_cfg_def)

subsection \<open>Operations on one queue keep the invariant\<close>

lemma run_inv_start:
  assumes inv: "run_inv X e" and r: "r \<in> stop_reasons" and t: "t < length (txqs e)"
    and ps: "r = RWNX_TXQ_STOP_STA_PS \<Longrightarrow> \<not> inactive (txq_at e t) \<Longrightarrow> push_limit (txq_at e t) = 0 \<and>
      (\<forall>s. txq_sta (txq_at e t) = Some s \<longrightarrow> s \<in> X \<or> \<not> ps_active (sta_at e s))"
  shows "run_inv X (rwnx_txq_start t r e)" "same_cfg e (rwnx_txq_start t r e)"
proof -
  show cfg: "same_cfg e (rwnx_txq_start t r e)" using t by (simp add: same_cfg_def)
  show "run_inv X (rwnx_txq_start t r e)"
  proof (cases "inactive (txq_at e t)")
    case True
    then show ?thesis using inv by (simp add: rwnx_txq_start_def)
  next
    case False
    show ?thesis
    proof (rule run_inv_calm [OF inv _ cfg _ start_txqs [OF t] t])
      show "tx_inv (rwnx_txq_start t r e)" using tx_inv_start [OF run_invD(1) [OF inv] r t] ps False by blast
    qed (use ps False q_start_stop_ps(1) [OF r] in \<open>auto simp: q_calm_def\<close>)
  qed
qed

lemma run_inv_stop:
  assumes inv: "run_inv X e" and r: "r \<in> stop_reasons" and t: "t < length (txqs e)"
  shows "run_inv X (rwnx_txq_stop t r e)" "same_cfg e (rwnx_txq_stop t r e)"
proof -
  show cfg: "same_cfg e (rwnx_txq_stop t r e)" using t by (simp add: same_cfg_def)
  show "run_inv X (rwnx_txq_stop t r e)"
    by (rule run_inv_calm [OF inv tx_inv_stop [OF run_invD(1) [OF inv] r t] cfg _ stop_txqs [OF t] t])
       (use q_start_stop_ps(2) [OF r] in \<open>auto simp: q_calm_def\<close>)
qed

lemma run_inv_deinit:
  assumes inv: "run_inv X e" and t: "t < length (txqs e)"
  shows "run_inv X (rwnx_txq_deinit t e)" "same_cfg e (rwnx_txq_deinit t e)"
proof -
  show cfg: "same_cfg e (rwnx_txq_deinit t e)" using t by (simp add: same_cfg_def deinit_effect)
  show "run_inv X (rwnx_txq_deinit t e)"
    by (rule run_inv_calm [OF inv tx_inv_deinit [OF run_invD(1) [OF inv] t] cfg _ deinit_effect(1) [OF t] t])
       (auto simp: deinit_effect q_deinit_def)
qed

lemma run_inv_init:
  assumes inv: "run_inv X e" and t: "t < length (txqs e)" and n: "\<not> sched (txq_at e t)" "\<not> sched q" and ok: "txq_ok (length (hwqs e)) q"
    and own: "\<And>s. txq_sta q = Some s \<longleftrightarrow> s < length (stas e) \<and> t \<in> set (sta_txqs e s)"
    and ps: "\<And>s. txq_sta q = Some s \<Longrightarrow> (remote_sta_max e \<le> s \<longrightarrow> ps_id q = LEGACY_PS_ID \<and> txq_hwq q = RWNX_HWQ_BE) \<and> \<not> ps_active (sta_at e s)"
  shows "run_inv X (upd_txq t (\<lambda>_. q) e)" "same_cfg e (upd_txq t (\<lambda>_. q) e)"
proof -
  show cfg: "same_cfg e (upd_txq t (\<lambda>_. q) e)" by (simp add: same_cfg_def)
  have "queue_ps X (upd_txq t (\<lambda>_. q) e) u" if "u < length (txqs e)" for u
    unfolding queue_ps_def owner_cfg [OF cfg]
    using run_invD(3) [OF inv that] own ps that by (cases "u = t") (auto simp: queue_ps_def ps_ok_def)
  then show "run_inv X (upd_txq t (\<lambda>_. q) e)"
    using tx_inv_init [OF run_invD(1) [OF inv] t n ok] stations_ok_cfg [OF cfg run_invD(2) [OF inv]] by (simp add: run_inv_def)
qed

text \<open>The counter of the station: one more when a packet is queued, one less when it is pushed.\<close>

lemma upd_ps_sta:
  "sta_at (upd_ps t f e) s = (if txq_sta (txq_at e t) = Some s \<and> s < length (stas e) then f (sta_at e s) else sta_at e s)"
  by (cases "txq_sta (txq_at e t)"; cases "txq_sta (txq_at e t) = Some s")
     (auto simp: upd_ps_def nth_list_update list_update_beyond)

lemma ps_of_None: "ps_of e t = None \<longleftrightarrow> \<not> (\<exists>s. txq_sta (txq_at e t) = Some s \<and> ps_active (sta_at e s))"
  by (auto simp: ps_of_def split: option.splits)

lemma note_ps_sta:
  "ps_active (sta_at (note_ps_packet t e) s) = ps_active (sta_at e s)"
  "sta_vif_idx (sta_at (note_ps_packet t e) s) = sta_vif_idx (sta_at e s)"
  "pkt_ready (sta_at (note_ps_packet t e) s) =
     (if txq_sta (txq_at e t) = Some s \<and> s < length (stas e) \<and> ps_active (sta_at e s)
      then bump (ps_id (txq_at e t)) (pkt_ready (sta_at e s)) else pkt_ready (sta_at e s))"
  by (auto simp: note_ps_packet_def upd_ps_sta ps_of_None)

lemma more_data_sta:
  "ps_active (sta_at (rwnx_set_more_data_flag t e) s) = ps_active (sta_at e s)"
  "sta_vif_idx (sta_at (rwnx_set_more_data_flag t e) s) = sta_vif_idx (sta_at e s)"
  "pkt_ready (sta_at (rwnx_set_more_data_flag t e) s) =
     (if txq_sta (txq_at e t) = Some s \<and> s < length (stas e) \<and> ps_active (sta_at e s)
      then drop_one (ps_id (txq_at e t)) (pkt_ready (sta_at e s)) else pkt_ready (sta_at e s))"
  by (auto simp: rwnx_set_more_data_flag_def upd_ps_sta ps_of_None)

lemma more_data_len [simp]: "length (stas (rwnx_set_more_data_flag t e)) = length (stas e)"
  by (simp add: rwnx_set_more_data_flag_def)

lemma push_sta:
  assumes "t < length (txqs e)"
  shows "length (stas (rwnx_tx_push t skb e)) = length (stas e)"
    "ps_active (sta_at (rwnx_tx_push t skb e) s) = ps_active (sta_at e s)"
    "sta_vif_idx (sta_at (rwnx_tx_push t skb e) s) = sta_vif_idx (sta_at e s)"
    "pkt_ready (sta_at (rwnx_tx_push t skb e) s) =
       (if txq_sta (txq_at e t) = Some s \<and> s < length (stas e) \<and> ps_active (sta_at e s)
        then drop_one (ps_id (txq_at e t)) (pkt_ready (sta_at e s)) else pkt_ready (sta_at e s))"
  using assms by (auto simp: rwnx_tx_push_def Let_def more_data_sta)

lemma pushes_sta:
  assumes "t < length (txqs e)"
  shows "length (stas (fold (rwnx_tx_push t) out e)) = length (stas e)"
    "ps_active (sta_at (fold (rwnx_tx_push t) out e) s) = ps_active (sta_at e s)"
    "sta_vif_idx (sta_at (fold (rwnx_tx_push t) out e) s) = sta_vif_idx (sta_at e s)"
    "pkt_ready (sta_at (fold (rwnx_tx_push t) out e) s) =
       (if txq_sta (txq_at e t) = Some s \<and> s < length (stas e) \<and> ps_active (sta_at e s)
        then (drop_one (ps_id (txq_at e t)) ^^ length out) (pkt_ready (sta_at e s)) else pkt_ready (sta_at e s))"
  using assms by (induction out arbitrary: e) (simp_all add: push_sta funpow_Suc_right del: funpow.simps(2))

lemma drops: "(drop_one LEGACY_PS_ID ^^ n) [a, 0] = [a - of_nat n, 0]"
  by (induction n) (simp_all add: drop_one_def LEGACY_PS_ID_def algebra_simps)

lemma abort_sta:
  "ps_active (sta_at (abort_service t e) s) = ps_active (sta_at e s)"
  "sta_vif_idx (sta_at (abort_service t e) s) = sta_vif_idx (sta_at e s)"
  "pkt_ready (sta_at (abort_service t e) s) = pkt_ready (sta_at e s)"
  "length (stas (abort_service t e)) = length (stas e)"
  by (auto simp: abort_service_def Let_def upd_ps_sta)

lemma process_sta:
  assumes "t < length (txqs e)"
  shows "length (stas (process_txq h t e)) = length (stas e)"
    "ps_active (sta_at (process_txq h t e) s) = ps_active (sta_at e s)"
    "sta_vif_idx (sta_at (process_txq h t e) s) = sta_vif_idx (sta_at e s)"
    "pkt_ready (sta_at (process_txq h t e) s) =
       (if txq_sta (txq_at e t) = Some s \<and> s < length (stas e) \<and> ps_active (sta_at e s)
        then (drop_one (ps_id (txq_at e t)) ^^ length (fst (rwnx_txq_get_skb_to_push (txq_at e t)))) (pkt_ready (sta_at e s))
        else pkt_ready (sta_at e s))"
  using assms by (simp_all add: process_txq_def abort_sta pushes_sta split: prod.split)

lemma run_inv_queue_skb:
  assumes inv: "run_inv X e" and t: "t < length (txqs e)" and act: "\<not> inactive (txq_at e t)" and new: "skb \<notin> set (sk_list (txq_at e t))"
  shows "run_inv X (fst (rwnx_txq_queue_skb skb t retry e))" "same_cfg e (fst (rwnx_txq_queue_skb skb t retry e))"
proof -
  let ?e = "fst (rwnx_txq_queue_skb skb t retry e)" and ?q = "txq_at e t"
  show cfg: "same_cfg e ?e" using t by (simp add: same_cfg_def queue_skb_effect note_ps_sta)
  note ok = tx_invD(2) [OF run_invD(1) [OF inv] t]
  note own = queue_ps_owner [OF run_invD(3) [OF inv t] act]
  have len: "length (sk_list (enqueue_skb skb retry ?q)) = Suc (length (sk_list ?q))"
    using enqueue_list [OF txq_okD(9) [OF ok act] txq_okD(2) [OF ok], of skb retry] by (auto simp: min_def)
  have r: "remote_sta_max ?e = remote_sta_max e" using t by (simp add: queue_skb_effect)
  show "run_inv X ?e"
  proof (rule run_inv_one [OF inv tx_inv_queue_skb [OF run_invD(1) [OF inv] t act new] cfg queue_skb_effect(1) [OF t] t])
    show "ps_active (sta_at ?e s) = ps_active (sta_at e s) \<and>
      (pkt_ready (sta_at ?e s) = pkt_ready (sta_at e s) \<or> \<not> inactive ?q \<and> txq_sta ?q = Some s)" for s
      using act t by (auto simp: queue_skb_effect note_ps_sta)
    have "ps_ok ?e s (q_queue skb retry ?q)" if s: "txq_sta ?q = Some s" "ps_ok e s ?q" for s
    proof -
      have s': "s < length (stas e)" using own s(1) by blast
      have "remote_sta_max e \<le> s \<longrightarrow> ps_id ?q = LEGACY_PS_ID"
        using run_invD(3) [OF inv t] act s(1) unfolding queue_ps_def by blast
      then show ?thesis
        using s t s' by (auto simp: ps_ok_def r queue_skb_effect note_ps_sta q_queue_bits len bump_def LEGACY_PS_ID_def)
    qed
    then show "inactive (q_queue skb retry ?q) \<or> txq_idx (q_queue skb retry ?q) = txq_idx ?q \<and>
      ps_id (q_queue skb retry ?q) = ps_id ?q \<and> txq_sta (q_queue skb retry ?q) = txq_sta ?q \<and> txq_hwq (q_queue skb retry ?q) = txq_hwq ?q \<and>
      (\<forall>s. txq_sta (q_queue skb retry ?q) = Some s \<longrightarrow> s \<notin> X \<longrightarrow> ps_ok e s ?q \<longrightarrow> ps_ok ?e s (q_queue skb retry ?q))"
      by simp
  qed
qed

lemma run_inv_process:
  assumes inv: "run_inv X e" and h: "h < length (hwqs e)" and t: "t \<in> set (hwq_list (hwq_at e h))"
  shows "run_inv X (process_txq h t e)" "same_cfg e (process_txq h t e)"
proof -
  let ?e = "process_txq h t e" and ?q = "txq_at e t"
  note i = run_invD(1) [OF inv]
  have t1: "t < length (txqs e)" "sched ?q" using t in_hwq_list(1) [OF tx_invD(1) [OF i] h] by auto
  note ok = tx_invD(2) [OF i t1(1)]
  have act: "\<not> inactive ?q" using txq_okD(6) [OF ok] t1(2) by auto
  show cfg: "same_cfg e ?e" using t1 by (simp add: same_cfg_def process_txqs process_sta)
  obtain k b where g: "rwnx_txq_get_skb_to_push ?q = (take k (sk_list ?q), drop k (sk_list ?q), b)"
    "0 < k" "k \<le> length (sk_list ?q)" using get_skb [OF ok t1(2)] by metis
  define q' where "q' = process_q (hwq_size (hwq_at e h)) ?q"
  note f = process_q_fields [OF g(1,3) txq_okD(9) [OF ok act], of "hwq_size (hwq_at e h)", folded q'_def]
  have q: "txqs ?e = (txqs e)[t := q']" by (simp add: process_txqs t1 q'_def)
  show "run_inv X ?e"
  proof (rule run_inv_one [OF inv process_txq_correct(1) [OF i h t] cfg q t1(1)])
    show "ps_active (sta_at ?e s) = ps_active (sta_at e s) \<and>
      (pkt_ready (sta_at ?e s) = pkt_ready (sta_at e s) \<or> \<not> inactive ?q \<and> txq_sta ?q = Some s)" for s
      using act t1 by (auto simp: process_sta)
    have "ps_ok ?e s q'" if s: "txq_sta ?q = Some s" "ps_ok e s ?q" for s
    proof -
      have "s < length (stas e)" using queue_ps_owner [OF run_invD(3) [OF inv t1(1)] act] s(1) by blast
      moreover have "remote_sta_max e \<le> s \<longrightarrow> ps_id ?q = LEGACY_PS_ID"
        using run_invD(3) [OF inv t1(1)] act s(1) unfolding queue_ps_def by blast
      moreover have "min (length (sk_list ?q)) k = k" using g(3) by simp
      ultimately show ?thesis
        using s t1 g(3) by (auto simp: ps_ok_def process_sta g(1) f drops of_nat_diff)
    qed
    then show "inactive q' \<or> txq_idx q' = txq_idx ?q \<and> ps_id q' = ps_id ?q \<and> txq_sta q' = txq_sta ?q \<and> txq_hwq q' = txq_hwq ?q \<and>
      (\<forall>s. txq_sta q' = Some s \<longrightarrow> s \<notin> X \<longrightarrow> ps_ok e s ?q \<longrightarrow> ps_ok ?e s q')"
      by (simp add: f)
  qed
qed

lemma run_inv_hwq_loop:
  assumes "run_inv X e" "h < length (hwqs e)" "\<And>t. cur = Some t \<Longrightarrow> t \<in> set (hwq_list (hwq_at e h))"
    "hwq_loop fuel h cur e = Tx_done e'"
  shows "run_inv X e' \<and> same_cfg e e'"
  using assms
proof (induction fuel h cur e rule: hwq_loop.induct)
  case (3 fuel h t e)
  note inv = "3.prems"(1) and h = "3.prems"(2) and t = "3.prems"(3) [OF refl]
  let ?n = "next_in (hwq_list (hwq_at e h)) t"
  note i = run_invD(1) [OF inv]
  have t1: "t < length (txqs e)" "sched (txq_at e t)" using t in_hwq_list(1) [OF tx_invD(1) [OF i] h] by auto
  have act: "\<not> inactive (txq_at e t)" using txq_okD(6) [OF tx_invD(2) [OF i t1(1)]] t1(2) by auto
  note p = run_inv_process [OF inv h t]
  have loop: "hwq_loop fuel h ?n (process_txq h t e) = Tx_done e'" and c: "\<not> (sint (credits (txq_at e t)) \<le> 0 \<or> \<not> rwnx_txq_skb_ready (txq_at e t))"
    using "3.prems"(4) t1 act by (auto simp: status_tests Let_def split: if_splits)
  have "run_inv X e' \<and> same_cfg (process_txq h t e) e'"
  proof (rule "3.IH"(2) [OF refl refl _ act c p(1) _ _ loop])
    show "u \<in> set (hwq_list (hwq_at (process_txq h t e) h))" if "?n = Some u" for u
      using next_in_SomeD [OF in_hwq_list(2) [OF tx_invD(1) [OF i] h] that] process_txq_correct(4) [OF i h t] by blast
  qed (use t1 h in \<open>simp_all add: status_tests\<close>)
  then show ?case using p(2) same_cfg_trans by blast
qed auto

lemma run_inv_upd_hwq:
  assumes "run_inv X e" "\<And>x. hwq_list (f x) = hwq_list x"
  shows "run_inv X (upd_hwq h f e)" "same_cfg e (upd_hwq h f e)"
proof -
  show cfg: "same_cfg e (upd_hwq h f e)" by (simp add: same_cfg_def)
  show "run_inv X (upd_hwq h f e)"
    unfolding run_inv_def queue_ps_def owner_cfg [OF cfg]
    using run_invD [OF assms(1)] tx_inv_upd_hwq [of e f h] assms(2) stations_ok_cfg [OF cfg]
    by (simp add: queue_ps_def ps_ok_def)
qed

lemma run_inv_hwq_process:
  assumes inv: "run_inv X e" and h: "h < length (hwqs e)"
  obtains e' where "rwnx_hwq_process h e = Tx_done e'" "run_inv X e'" "same_cfg e e'" "tx_same e e'"
    "\<And>t. t \<in> set (hwq_list (hwq_at e h)) \<Longrightarrow> length (sent_of e t) < length (sent_of e' t)"
proof -
  obtain e' where e': "rwnx_hwq_process h e = Tx_done e'" "tx_inv e'" "tx_same e e'"
    "\<And>t. t \<in> set (hwq_list (hwq_at e h)) \<Longrightarrow> length (sent_of e t) < length (sent_of e' t)"
    by (rule hwq_process_correct [OF run_invD(1) [OF inv] h]) (rule that)
  define e1 where "e1 = upd_hwq h (\<lambda>hw. hw\<lparr>need_processing := False\<rparr>) e"
  have 1: "run_inv X e1" "same_cfg e e1" unfolding e1_def by (rule run_inv_upd_hwq [OF inv]; simp)+
  have l: "hwq_list (hwq_at e1 h) = hwq_list (hwq_at e h)" using h by (simp add: e1_def)
  have "run_inv X e' \<and> same_cfg e1 e'"
    by (rule run_inv_hwq_loop [OF 1(1) _ _ e'(1) [unfolded rwnx_hwq_process_def e1_def [symmetric]]])
       (use h in \<open>auto simp: l split: list.splits\<close>, simp add: e1_def)
  then show thesis using that e' 1(2) same_cfg_trans by blast
qed

lemma run_inv_confirm:
  assumes inv: "run_inv X e" and t: "t < length (txqs e)"
  shows "run_inv X (rwnx_txq_confirm_any t h e)" "same_cfg e (rwnx_txq_confirm_any t h e)"
proof -
  show cfg: "same_cfg e (rwnx_txq_confirm_any t h e)" by (simp add: same_cfg_def)
  show "run_inv X (rwnx_txq_confirm_any t h e)"
    by (rule run_inv_calm [OF inv tx_inv_confirm [OF run_invD(1) [OF inv] t] cfg _ confirm_frame(6) t])
       (auto simp: q_calm_def)
qed

lemma full_reason: "RWNX_TXQ_STOP_FULL \<in> stop_reasons" "RWNX_TXQ_STOP_FULL \<noteq> RWNX_TXQ_STOP_STA_PS"
  by (simp_all add: stop_reasons_def RWNX_TXQ_STOP_FULL_def RWNX_TXQ_STOP_STA_PS_def)

lemma run_inv_credit_update:
  assumes inv: "run_inv X e" and t: "t < length (txqs e)"
  shows "run_inv X (rwnx_txq_credit_update t e)" "same_cfg e (rwnx_txq_credit_update t e)"
  using run_inv_start [OF inv full_reason(1) t] run_inv_stop [OF inv full_reason(1) t] inv full_reason(2)
  by (simp_all add: rwnx_txq_credit_update_def)

lemma run_inv_retry:
  assumes inv: "run_inv X e" and t: "t < length (txqs e)" and q: "\<not> inactive (txq_at e t)" "skb \<notin> set (sk_list (txq_at e t))"
    and c: "sint (credits (txq_at e t)) < 127"
  shows "run_inv X (rwnx_tx_retry skb t e)" "same_cfg e (rwnx_tx_retry skb t e)"
proof -
  let ?q = "txq_at e t"
  note ok = tx_invD(2) [OF run_invD(1) [OF inv] t]
  define e1 where "e1 = upd_txq t (\<lambda>q. q\<lparr>credits := credits q + 1\<rparr>) e"
  have cr: "sint (credits ?q + 1) = sint (credits ?q) + 1" using c by (rule sint_inc)
  have "lists_ok e1" unfolding e1_def by (rule lists_ok_upd_txq [OF tx_invD(1) [OF run_invD(1) [OF inv]]]) simp
  then have "tx_inv e1"
    using ok txq_okD(5) [OF ok q(1)] cr by (auto simp: e1_def txq_ok_def retry_ok_def limit_ok_def rwnx_txq_is_stopped_def
        intro!: tx_inv_single [OF run_invD(1) [OF inv]])
  then have 1: "run_inv X e1" "same_cfg e e1"
    by (auto simp: e1_def q_calm_def same_cfg_def intro!: run_inv_calm [OF inv _ _ _ _ t])
  define e2 where "e2 = (if 0 < sint (credits (txq_at e1 t)) then rwnx_txq_start t RWNX_TXQ_STOP_FULL e1 else e1)"
  have t1: "t < length (txqs e1)" using t by (simp add: e1_def)
  have 2: "run_inv X e2" "same_cfg e1 e2"
    using run_inv_start [OF 1(1) full_reason(1) t1] 1 full_reason(2) by (simp_all add: e2_def)
  have e: "rwnx_tx_retry skb t e = fst (rwnx_txq_queue_skb skb t True e2)"
    by (simp add: rwnx_tx_retry_def Let_def e1_def e2_def)
  have t2: "t < length (txqs e2)" "\<not> inactive (txq_at e2 t)" "skb \<notin> set (sk_list (txq_at e2 t))"
    using t q t1 by (simp_all add: e2_def e1_def)
  show "run_inv X (rwnx_tx_retry skb t e)" "same_cfg e (rwnx_tx_retry skb t e)"
    using run_inv_queue_skb [OF 2(1) t2] 1(2) 2(2) same_cfg_trans unfolding e by blast+
qed

subsection \<open>Stations: going to sleep, waking, asking for packets\<close>

text \<open>\<open>held X e0 e\<close>: the invariant holds in \<open>e\<close>, and the fixed part of the state is that of \<open>e0\<close>.\<close>

definition held :: "nat set \<Rightarrow> tx_env \<Rightarrow> tx_env \<Rightarrow> bool" where
  "held X e0 e \<longleftrightarrow> run_inv X e \<and> same_cfg e0 e"

lemma heldI: "held X e0 e \<Longrightarrow> (run_inv X e \<Longrightarrow> run_inv X e' \<and> same_cfg e e') \<Longrightarrow> held X e0 e'"
  using same_cfg_trans by (auto simp: held_def)

lemma held_lengths:
  "held X e0 e \<Longrightarrow> length (txqs e) = length (txqs e0) \<and> length (hwqs e) = length (hwqs e0) \<and> length (stas e) = length (stas e0) \<and>
     remote_sta_max e = remote_sta_max e0"
  by (simp add: held_def same_cfg_def)

lemma fold_held:
  assumes "held X e0 e" "\<And>t e. t \<in> set ts \<Longrightarrow> held X e0 e \<Longrightarrow> P e \<Longrightarrow> held X e0 (f t e) \<and> P (f t e)" "P e"
  shows "held X e0 (fold f ts e) \<and> P (fold f ts e)"
  using assms by (induction ts arbitrary: e) auto

lemma run_inv_mono: "run_inv X e \<Longrightarrow> X \<subseteq> Y \<Longrightarrow> run_inv Y e"
  by (auto simp: run_inv_def queue_ps_def)

text \<open>A station that is exempt may be changed at will.\<close>

lemma run_inv_upd_sta:
  assumes inv: "run_inv X e" and f: "\<And>x. sta_vif_idx (f x) = sta_vif_idx x"
    and X: "s \<in> X \<or> (\<forall>x. (ps_active (f x) \<longrightarrow> ps_active x) \<and> (pkt_ready (f x) = pkt_ready x \<or> \<not> ps_active (f x)))"
  shows "run_inv X (upd_sta s f e)" "same_cfg e (upd_sta s f e)"
proof -
  have v: "sta_vif_idx (sta_at (upd_sta s f e) u) = sta_vif_idx (sta_at e u)" for u
    by (cases "s < length (stas e)"; cases "u = s") (auto simp: f nth_list_update list_update_beyond)
  then show cfg: "same_cfg e (upd_sta s f e)" by (simp add: same_cfg_def)
  have ps: "ps_ok (upd_sta s f e) u q" if "ps_ok e u q" "u \<notin> X" for u q
    using that X by (cases "s < length (stas e)"; cases "u = s") (auto simp: ps_ok_def nth_list_update list_update_beyond)
  have "queue_ps X (upd_sta s f e) t" if "t < length (txqs e)" for t
    unfolding queue_ps_def owner_cfg [OF cfg] using run_invD(3) [OF inv that] ps by (simp add: queue_ps_def)
  then show "run_inv X (upd_sta s f e)"
    using tx_inv_upd_stas [of "upd_sta s f e" e] run_invD(1) [OF inv] stations_ok_cfg [OF cfg run_invD(2) [OF inv]]
    by (simp add: run_inv_def)
qed

lemma run_inv_clear_limit:
  assumes inv: "run_inv X e" and t: "t < length (txqs e)"
  shows "run_inv X (upd_txq t (\<lambda>q. q\<lparr>push_limit := 0\<rparr>) e)" "same_cfg e (upd_txq t (\<lambda>q. q\<lparr>push_limit := 0\<rparr>) e)"
proof -
  let ?e = "upd_txq t (\<lambda>q. q\<lparr>push_limit := 0\<rparr>) e"
  note ok = tx_invD(2) [OF run_invD(1) [OF inv] t]
  show cfg: "same_cfg e ?e" by (simp add: same_cfg_def)
  have "lists_ok ?e" by (rule lists_ok_upd_txq [OF tx_invD(1) [OF run_invD(1) [OF inv]]]) simp
  then have "tx_inv ?e"
    using ok by (auto simp: txq_ok_def retry_ok_def limit_ok_def rwnx_txq_is_stopped_def intro!: tx_inv_single [OF run_invD(1) [OF inv]])
  then show "run_inv X ?e" by (rule run_inv_calm [OF inv _ cfg _ upd_txq_simps(1) t]) (simp_all add: q_calm_def)
qed

lemma clear_limits_held:
  assumes "held X e0 e" "\<And>t. t \<in> set ts \<Longrightarrow> t < length (txqs e0)"
  shows "held X e0 (clear_limits ts e)" "stas (clear_limits ts e) = stas e"
    "\<And>t. t < length (txqs e) \<Longrightarrow> push_limit (txq_at (clear_limits ts e) t) = (if t \<in> set ts then 0 else push_limit (txq_at e t))"
    "\<And>t. t < length (txqs e) \<Longrightarrow> txq_sta (txq_at (clear_limits ts e) t) = txq_sta (txq_at e t) \<and>
      txq_idx (txq_at (clear_limits ts e) t) = txq_idx (txq_at e t)"
proof -
  show "held X e0 (clear_limits ts e)"
    unfolding clear_limits_def
  proof (rule fold_held [OF assms(1), where P = "\<lambda>_. True", THEN conjunct1])
    fix t e' assume "t \<in> set ts" and h: "held X e0 e'"
    then have "t < length (txqs e')" using assms(2) held_lengths [OF h] by auto
    then show "held X e0 (upd_txq t (\<lambda>q. q\<lparr>push_limit := 0\<rparr>) e') \<and> True" using heldI [OF h] run_inv_clear_limit by blast
  qed simp
  show "stas (clear_limits ts e) = stas e" unfolding clear_limits_def by (induction ts arbitrary: e) auto
  show "push_limit (txq_at (clear_limits ts e) t) = (if t \<in> set ts then 0 else push_limit (txq_at e t))" if "t < length (txqs e)" for t
    using that unfolding clear_limits_def by (induction ts arbitrary: e) (auto simp: nth_list_update)
  show "txq_sta (txq_at (clear_limits ts e) t) = txq_sta (txq_at e t) \<and>
      txq_idx (txq_at (clear_limits ts e) t) = txq_idx (txq_at e t)" if "t < length (txqs e)" for t
    using that unfolding clear_limits_def
  proof (induction ts arbitrary: e)
    case (Cons a ts)
    then show ?case by (cases "a = t") simp_all
  qed simp
qed

lemma starts_held:
  assumes "held X e0 e" "r \<in> stop_reasons" "\<And>t. t \<in> set ts \<Longrightarrow> t < length (txqs e0)"
    and ps: "r = RWNX_TXQ_STOP_STA_PS \<Longrightarrow> \<forall>t \<in> set ts. \<not> inactive (txq_at e t) \<longrightarrow> push_limit (txq_at e t) = 0 \<and>
      (\<forall>s. txq_sta (txq_at e t) = Some s \<longrightarrow> s \<in> X \<or> \<not> ps_active (sta_at e s))"
  shows "held X e0 (fold (\<lambda>t. rwnx_txq_start t r) ts e)"
proof -
  define P where "P e' \<longleftrightarrow> stas e' = stas e \<and> (\<forall>t < length (txqs e0). push_limit (txq_at e' t) = push_limit (txq_at e t) \<and>
      txq_sta (txq_at e' t) = txq_sta (txq_at e t) \<and> txq_idx (txq_at e' t) = txq_idx (txq_at e t))" for e'
  have "held X e0 (fold (\<lambda>t. rwnx_txq_start t r) ts e) \<and> P (fold (\<lambda>t. rwnx_txq_start t r) ts e)"
  proof (rule fold_held [OF assms(1)])
    fix t e' assume t: "t \<in> set ts" and h: "held X e0 e'" and p: "P e'"
    then have t': "t < length (txqs e')" "t < length (txqs e0)" using assms(3) held_lengths [OF h] by auto
    have "run_inv X (rwnx_txq_start t r e') \<and> same_cfg e' (rwnx_txq_start t r e')" if "run_inv X e'"
      using run_inv_start [OF that assms(2) t'(1)] ps t p t'(2) by (auto simp: P_def)
    then show "held X e0 (rwnx_txq_start t r e') \<and> P (rwnx_txq_start t r e')"
      using p t' heldI [OF h] held_lengths [OF h] by (auto simp: P_def nth_list_update)
  qed (simp add: P_def)
  then show ?thesis by simp
qed

lemma stops_held:
  assumes "held X e0 e" "r \<in> stop_reasons" "\<And>t. t \<in> set ts \<Longrightarrow> t < length (txqs e0)"
  shows "held X e0 (fold (\<lambda>t. rwnx_txq_stop t r) ts e)" "stas (fold (\<lambda>t. rwnx_txq_stop t r) ts e) = stas e"
    "\<And>t. t < length (txqs e) \<Longrightarrow> sk_list (txq_at (fold (\<lambda>t. rwnx_txq_stop t r) ts e) t) = sk_list (txq_at e t)"
proof -
  show "held X e0 (fold (\<lambda>t. rwnx_txq_stop t r) ts e)"
  proof (rule fold_held [OF assms(1), where P = "\<lambda>_. True", THEN conjunct1])
    fix t e' assume "t \<in> set ts" and h: "held X e0 e'"
    then have "t < length (txqs e')" using assms(3) held_lengths [OF h] by auto
    then show "held X e0 (rwnx_txq_stop t r e') \<and> True" using heldI [OF h] run_inv_stop assms(2) by blast
  qed simp
  show "stas (fold (\<lambda>t. rwnx_txq_stop t r) ts e) = stas e" by (induction ts arbitrary: e) auto
  show "sk_list (txq_at (fold (\<lambda>t. rwnx_txq_stop t r) ts e) t) = sk_list (txq_at e t)" if t: "t < length (txqs e)" for t
    using t assms(3)
  proof (induction ts arbitrary: e)
    case (Cons a ts)
    show ?case
      by (cases "a < length (txqs e)") (use Cons in \<open>auto simp: nth_list_update rwnx_txq_stop_def list_update_beyond not_less\<close>)
  qed simp
qed

lemma drop_exempt:
  assumes inv: "run_inv {s} e" and ok: "\<And>t. t < length (txqs e) \<Longrightarrow> \<not> inactive (txq_at e t) \<Longrightarrow> txq_sta (txq_at e t) = Some s \<Longrightarrow> ps_ok e s (txq_at e t)"
  shows "run_inv {} e"
  unfolding run_inv_def
proof (intro conjI allI impI)
  fix t assume t: "t < length (txqs e)"
  show "queue_ps {} e t"
    using run_invD(3) [OF inv t] ok [OF t] unfolding queue_ps_def by (metis empty_iff singletonD)
qed (use run_invD [OF inv] in auto)

lemma stops_ps:
  assumes "\<And>t. t \<in> set ts \<Longrightarrow> t < length (txqs e)" "t \<in> set ts \<or> inactive (txq_at e t) \<or> sta_ps_stop (txq_at e t)" "t < length (txqs e)"
  shows "inactive (txq_at (fold (\<lambda>t. rwnx_txq_stop t RWNX_TXQ_STOP_STA_PS) ts e) t) \<or>
    sta_ps_stop (txq_at (fold (\<lambda>t. rwnx_txq_stop t RWNX_TXQ_STOP_STA_PS) ts e) t)"
  using assms
proof (induction ts arbitrary: e)
  case (Cons a ts)
  have a: "a < length (txqs e)" using Cons.prems(1) by simp
  have r: "RWNX_TXQ_STOP_STA_PS \<in> stop_reasons" by (simp add: stop_reasons_def)
  have "t \<in> set ts \<or> inactive (txq_at (rwnx_txq_stop a RWNX_TXQ_STOP_STA_PS e) t) \<or> sta_ps_stop (txq_at (rwnx_txq_stop a RWNX_TXQ_STOP_STA_PS e) t)"
    using Cons.prems(2,3) a q_start_stop_ps(2,3) r by (cases "t = a") (auto simp: nth_list_update)
  then show ?case using Cons.IH [of "rwnx_txq_stop a RWNX_TXQ_STOP_STA_PS e"] Cons.prems a by simp
qed simp

lemma count_ready_frame:
  "txqs (count_ready s ts e) = txqs e" "hwqs (count_ready s ts e) = hwqs e" "remote_sta_max (count_ready s ts e) = remote_sta_max e"
  "length (stas (count_ready s ts e)) = length (stas e)"
  unfolding count_ready_def by (induction ts arbitrary: e) auto

lemma count_ready_held: "held {s} e0 e \<Longrightarrow> held {s} e0 (count_ready s ts e)"
proof -
  assume h: "held {s} e0 e"
  show ?thesis
    unfolding count_ready_def
  proof (rule fold_held [OF h, where P = "\<lambda>_. True", THEN conjunct1])
    fix t e assume h: "held {s} e0 e"
    show "held {s} e0 (upd_sta s (\<lambda>st. st\<lparr>pkt_ready := (pkt_ready st)
      [ps_id (txq_at e t) := pkt_ready st ! ps_id (txq_at e t) + of_nat (length (sk_list (txq_at e t)))]\<rparr>) e) \<and> True"
      using heldI [OF h] run_inv_upd_sta [of "{s}" e _ s] by simp
  qed simp
qed

lemma sta_ps_reason: "RWNX_TXQ_STOP_STA_PS \<in> stop_reasons"
  by (simp add: stop_reasons_def)

lemma sta_get_txqs:
  "sta_txqs e s \<noteq> [] \<and> rwnx_txq_sta_get (remote_sta_max e) s (sta_vif_idx (sta_at e s)) 0 = hd (sta_txqs e s)"
  "remote_sta_max e \<le> s \<Longrightarrow> sta_txqs e s = [rwnx_txq_sta_get (remote_sta_max e) s (sta_vif_idx (sta_at e s)) 0]"
  by (simp_all add: sta_txqs_eq upt_conv_Cons rwnx_txq_sta_get_def rwnx_txq_sta_idx_def is_multicast_sta_def nx_defs)

lemma run_inv_ps_on:
  assumes inv: "run_inv {} e" and s: "s < length (stas e)"
  shows "run_inv {} (rwnx_ps_bh_enable s True e)" "same_cfg e (rwnx_ps_bh_enable s True e)"
proof -
  define t0 where "t0 = rwnx_txq_sta_get (remote_sta_max e) s (sta_vif_idx (sta_at e s)) 0"
  define e1 where "e1 = upd_sta s (\<lambda>st. st\<lparr>ps_active := True, sp_cnt := [0, 0]\<rparr>) e"
  define ts where "ts = sta_txqs e s"
  define e2 where "e2 = fold (\<lambda>t. rwnx_txq_stop t RWNX_TXQ_STOP_STA_PS) ts e1"
  define e3 where "e3 = (if is_multicast_sta (remote_sta_max e) s then upd_sta s (\<lambda>st. st\<lparr>pkt_ready := [of_nat (length (sk_list (txq_at e2 t0))), 0]\<rparr>) e2
           else count_ready s ts (upd_sta s (\<lambda>st. st\<lparr>pkt_ready := [0, 0]\<rparr>) e2))"
  have rng: "t < length (txqs e)" if "t \<in> set ts" for t using that sta_txqs_range [OF run_invD(2) [OF inv] s] by (simp add: ts_def)
  have 1: "held {s} e e1" unfolding e1_def held_def by (intro conjI run_inv_upd_sta [where X = "{s}"]) (simp_all add: run_inv_mono [OF inv])
  have st: "held {s} e e2" "\<And>t. t < length (txqs e1) \<Longrightarrow> sk_list (txq_at e2 t) = sk_list (txq_at e1 t)"
    unfolding e2_def by (rule stops_held(1) [OF 1 sta_ps_reason rng], assumption) (rule stops_held(3) [OF 1 sta_ps_reason rng], assumption+)
  have cfg2: "same_cfg e e2" using st(1) by (simp add: held_def)
  have ts1: "sta_txqs e1 s = ts" "sta_txqs e2 s = ts"
    using 1 cfg2 s by (simp_all add: ts_def held_def sta_txqs_cfg)
  have e3: "rwnx_ps_bh_enable s True e = e3"
    unfolding rwnx_ps_bh_enable_def Let_def e3_def t0_def [symmetric] e2_def rwnx_txq_sta_stop_def e1_def [symmetric] ts1(1)
    by (simp add: ts1(2) [unfolded e2_def] sta_txqs_cfg)
  have h3: "held {s} e e3"
    unfolding e3_def using heldI [OF st(1)] run_inv_upd_sta [of "{s}" e2 _ s] count_ready_held by simp
  have q3: "txqs e3 = txqs e2" by (simp add: e3_def count_ready_frame)
  have "run_inv {} e3"
  proof (rule drop_exempt)
    show "run_inv {s} e3" using h3 by (simp add: held_def)
    fix t assume t: "t < length (txqs e3)" "\<not> inactive (txq_at e3 t)" "txq_sta (txq_at e3 t) = Some s"
    have cfg3: "same_cfg e e3" using h3 by (simp add: held_def)
    have "t \<in> set (sta_txqs e3 s)" using queue_ps_owner [OF run_invD(3) t(2), of "{s}"] h3 t by (auto simp: held_def)
    then have tts: "t \<in> set ts" using sta_txqs_cfg [OF cfg3 s] by (simp add: ts_def)
    have "sta_ps_stop (txq_at e3 t)"
      using stops_ps [of ts e1 t, folded e2_def] tts t rng held_lengths [OF 1] held_lengths [OF st(1)] by (auto simp: q3)
    moreover have "pkt_ready (sta_at e3 s) = [of_nat (length (sk_list (txq_at e3 t))), 0]" if mc: "remote_sta_max e \<le> s"
    proof -
      have "t = t0" using tts sta_get_txqs(2) [OF mc] by (simp add: ts_def t0_def)
      then show ?thesis using mc s held_lengths [OF st(1)] by (simp add: e3_def is_multicast_sta_def)
    qed
    ultimately show "ps_ok e3 s (txq_at e3 t)" using held_lengths [OF h3] by (simp add: ps_ok_def)
  qed
  then show "run_inv {} (rwnx_ps_bh_enable s True e)" "same_cfg e (rwnx_ps_bh_enable s True e)"
    using h3 by (simp_all add: e3 held_def)
qed

lemma run_inv_ps_off:
  assumes inv: "run_inv {} e" and s: "s < length (stas e)"
  shows "run_inv {} (rwnx_ps_bh_enable s False e)" "same_cfg e (rwnx_ps_bh_enable s False e)"
proof -
  define t0 where "t0 = rwnx_txq_sta_get (remote_sta_max e) s (sta_vif_idx (sta_at e s)) 0"
  define e1 where "e1 = upd_sta s (\<lambda>st. st\<lparr>ps_active := False\<rparr>) e"
  define ts where "ts = sta_txqs e s"
  have rng: "t < length (txqs e)" if "t \<in> set ts" for t using that sta_txqs_range [OF run_invD(2) [OF inv] s] by (simp add: ts_def)
  have 1: "held {} e e1" unfolding e1_def held_def by (intro conjI run_inv_upd_sta [where X = "{}"]) (simp_all add: inv)
  have i1: "run_inv {} e1" using 1 by (simp add: held_def)
  have ts1: "sta_txqs e1 s = ts" using 1 s by (simp add: ts_def held_def sta_txqs_cfg)
  define e2 where "e2 = (if is_multicast_sta (remote_sta_max e) s then upd_txq t0 (\<lambda>q. q\<lparr>txq_hwq := RWNX_HWQ_BE, push_limit := 0\<rparr>) e1
                 else clear_limits ts e1)"
  have "held {} e e2 \<and> (\<forall>t \<in> set ts. push_limit (txq_at e2 t) = 0 \<and> txq_sta (txq_at e2 t) = txq_sta (txq_at e1 t) \<and>
      txq_idx (txq_at e2 t) = txq_idx (txq_at e1 t)) \<and> stas e2 = stas e1"
  proof (cases "is_multicast_sta (remote_sta_max e) s")
    case True
    then have t0: "ts = [t0]" using sta_get_txqs(2) by (simp add: is_multicast_sta_def ts_def t0_def)
    then have t: "t0 < length (txqs e1)" using rng held_lengths [OF 1] by simp
    have e2: "e2 = upd_txq t0 (\<lambda>q. q\<lparr>txq_hwq := RWNX_HWQ_BE, push_limit := 0\<rparr>) e1" using True by (simp add: e2_def)
    note ok = tx_invD(2) [OF run_invD(1) [OF i1] t]
    have be: "txq_hwq (txq_at e1 t0) = RWNX_HWQ_BE" if "\<not> inactive (txq_at e1 t0)"
      using that queue_ps_owner [OF run_invD(3) [OF i1 t] that, of s] run_invD(3) [OF i1 t] True s held_lengths [OF 1] ts1 t0
      by (auto simp: queue_ps_def is_multicast_sta_def)
    have "lists_ok e2"
      unfolding e2 by (rule lists_ok_upd_txq [OF tx_invD(1) [OF run_invD(1) [OF i1]]]) (use be txq_okD(6) [OF ok] in auto)
    moreover have "RWNX_HWQ_BE < length (hwqs e1)" using run_invD(2) [OF i1] by (simp add: stations_ok_def RWNX_HWQ_BE_def RWNX_HWQ_VO_def)
    ultimately have "tx_inv e2"
      using ok by (auto simp: e2 txq_ok_def retry_ok_def limit_ok_def rwnx_txq_is_stopped_def intro!: tx_inv_single [OF run_invD(1) [OF i1]])
    moreover have "same_cfg e1 e2" by (simp add: e2 same_cfg_def)
    moreover have "\<exists>q'. txqs e2 = (txqs e1)[t0 := q'] \<and> (inactive q' \<or> q_calm (txq_at e1 t0) q' \<and> status q' = status (txq_at e1 t0))"
      using be by (auto simp: e2 q_calm_def)
    ultimately have "run_inv {} e2" using run_inv_calm [OF i1 _ _ _ _ t] by (auto simp: e2)
    then show ?thesis using \<open>same_cfg e1 e2\<close> 1 same_cfg_trans t by (auto simp: held_def t0 e2)
  next
    case False
    then have e2: "e2 = clear_limits ts e1" by (simp add: e2_def)
    show ?thesis unfolding e2 using clear_limits_held [OF 1 rng] rng held_lengths [OF 1] by simp
  qed
  note 2 = this [THEN conjunct1] this [THEN conjunct2, THEN conjunct1] this [THEN conjunct2, THEN conjunct2]
  have cfg2: "same_cfg e e2" using 2(1) by (simp add: held_def)
  have off: "\<not> ps_active (sta_at e2 u)" if "t \<in> set ts" "txq_sta (txq_at e2 t) = Some u" "\<not> inactive (txq_at e2 t)" for t u
  proof -
    have t: "t < length (txqs e1)" using rng [OF that(1)] held_lengths [OF 1] by simp
    have "\<not> inactive (txq_at e1 t)" using that(1,3) 2(2) by simp
    then have "u < length (stas e1) \<and> t \<in> set (sta_txqs e1 u)" using queue_ps_owner [OF run_invD(3) [OF i1 t]] that 2(2) by auto
    then have "u = s" using sta_txqs_disjoint [OF run_invD(2) [OF i1], of u s t] that(1) s held_lengths [OF 1] ts1 by simp
    then show ?thesis using s by (simp add: 2(3) e1_def)
  qed
  have ts2: "sta_txqs e2 s = ts" using sta_txqs_cfg [OF cfg2 s] by (simp add: ts_def)
  have "rwnx_ps_bh_enable s False e = rwnx_txq_sta_start s RWNX_TXQ_STOP_STA_PS e2"
    unfolding rwnx_ps_bh_enable_def Let_def t0_def [symmetric] e1_def [symmetric] ts1 e2_def by simp
  then have e3: "rwnx_ps_bh_enable s False e = fold (\<lambda>t. rwnx_txq_start t RWNX_TXQ_STOP_STA_PS) ts e2"
    by (simp add: rwnx_txq_sta_start_def ts2)
  have "held {} e (rwnx_ps_bh_enable s False e)"
    unfolding e3 by (rule starts_held [OF 2(1) sta_ps_reason rng]) (use 2(2) off in auto)
  then show "run_inv {} (rwnx_ps_bh_enable s False e)" "same_cfg e (rwnx_ps_bh_enable s False e)" by (simp_all add: held_def)
qed

text \<open>A request for packets: what is granted to a queue is within its packets and its credits.\<close>

lemma sint_u8: "0 \<le> sint (x :: 8 word) \<Longrightarrow> uint (scast x :: u16) = sint x"
  using sint_range_size [of x] by (subst scast_eq, subst uint_word_of_int_eq, subst take_bit_int_eq_self) (auto simp: word_size)

lemma cap_credits:
  assumes "0 < sint c"
  shows "uint (cap_credits n c) \<le> uint n" "uint (cap_credits n c) \<le> sint c" "cap_credits n c = 0 \<longleftrightarrow> n = 0"
proof -
  have u: "uint (scast c :: u16) = sint c" using assms by (intro sint_u8) simp
  show "uint (cap_credits n c) \<le> uint n" "uint (cap_credits n c) \<le> sint c" using assms by (auto simp: cap_credits_def u)
  have "(scast c :: u16) \<noteq> 0" using u assms by auto
  then show "cap_credits n c = 0 \<longleftrightarrow> n = 0" using assms by (auto simp: cap_credits_def)
qed

lemma uint_ucast_u8: "uint (n :: u16) < 256 \<Longrightarrow> uint (ucast n :: u8) = uint n"
  by (simp add: unsigned_ucast_eq take_bit_int_eq_self)

lemma run_inv_grant:
  assumes inv: "run_inv {} e" and s: "s < length (stas e)" and t: "t < length (txqs e)"
    and q: "\<not> inactive (txq_at e t)" "sta_ps_stop (txq_at e t)"
    and n: "n \<noteq> 0" "uint n \<le> int (length (sk_list (txq_at e t)))" "uint n \<le> sint (credits (txq_at e t))"
  shows "run_inv {} (grant s pid t n e)" "same_cfg e (grant s pid t n e)"
proof -
  let ?q = "txq_at e t"
  note ok = tx_invD(2) [OF run_invD(1) [OF inv] t]
  have "sint (credits ?q) < 128" using sint_range_size [of "credits ?q"] by (simp add: word_size)
  then have u: "uint (ucast n :: u8) = uint n" using n(3) by (intro uint_ucast_u8) simp
  have l: "unat (ucast n :: u8) \<le> length (sk_list ?q)"
    unfolding unat_eq_nat_uint u using n(2) by (rule nat_le_iff [THEN iffD2])
  have pos: "0 < uint n" using n(1) by (simp add: uint_pos_iff)
  then have ne: "sk_list ?q \<noteq> []" using n(2) by auto
  define e1 where "e1 = upd_txq t (\<lambda>q. q\<lparr>push_limit := ucast n\<rparr>) e"
  have "lists_ok e1" unfolding e1_def by (rule lists_ok_upd_txq [OF tx_invD(1) [OF run_invD(1) [OF inv]]]) simp
  then have "tx_inv e1"
    using ok q n u l by (auto simp: e1_def txq_ok_def retry_ok_def limit_ok_def rwnx_txq_is_stopped_def intro!: tx_inv_single [OF run_invD(1) [OF inv]])
  then have 1: "run_inv {} e1" "same_cfg e e1"
    by (auto simp: e1_def q_calm_def same_cfg_def intro!: run_inv_calm [OF inv _ _ _ _ t])
  define e2 where "e2 = upd_sta s (\<lambda>st. st\<lparr>sp_cnt := (sp_cnt st)[pid := sp_cnt st ! pid + n]\<rparr>) e1"
  have 2: "run_inv {} e2" "same_cfg e1 e2" unfolding e2_def by (rule run_inv_upd_sta [OF 1(1)]; simp)+
  have t2: "t < length (txqs e2)" and q2: "\<not> inactive (txq_at e2 t)" "sk_list (txq_at e2 t) \<noteq> []"
    using t q ne by (simp_all add: e2_def e1_def)
  have e: "grant s pid t n e = rwnx_txq_add_to_hw_list t e2" by (simp add: grant_def e2_def e1_def)
  have cfg: "same_cfg e2 (rwnx_txq_add_to_hw_list t e2)" by (simp add: same_cfg_def)
  have "run_inv {} (rwnx_txq_add_to_hw_list t e2)"
    by (rule run_inv_calm [OF 2(1) tx_inv_add_limited [OF run_invD(1) [OF 2(1)] t2 q2] cfg _ add_to_hw_txqs t2]) (auto simp: q_calm_def)
  then show "run_inv {} (grant s pid t n e)" "same_cfg e (grant s pid t n e)"
    using 1(2) 2(2) cfg same_cfg_trans unfolding e by blast+
qed

lemma grant_frame:
  "length (txqs (grant s pid t n e)) = length (txqs e)" "sk_list (txq_at (grant s pid t n e) u) = sk_list (txq_at e u)"
  "ps_active (sta_at (grant s pid t n e) v) = ps_active (sta_at e v)"
proof -
  show "length (txqs (grant s pid t n e)) = length (txqs e)" by (simp add: grant_def)
  show "sk_list (txq_at (grant s pid t n e) u) = sk_list (txq_at e u)"
    by (cases "t < length (txqs e)"; cases "u = t") (simp_all add: grant_def list_update_beyond not_less)
  show "ps_active (sta_at (grant s pid t n e) v) = ps_active (sta_at e v)"
    by (cases "s < length (stas e)"; cases "v = s") (simp_all add: grant_def list_update_beyond not_less)
qed

lemma sleeping_queue:
  assumes inv: "run_inv {} e" and s: "s < length (stas e)" "ps_active (sta_at e s)" and t: "t \<in> set (sta_txqs e s)" "\<not> inactive (txq_at e t)"
  shows "t < length (txqs e)" "sta_ps_stop (txq_at e t)" "0 < sint (credits (txq_at e t))"
    "remote_sta_max e \<le> s \<Longrightarrow> pkt_ready (sta_at e s) = [of_nat (length (sk_list (txq_at e t))), 0]"
proof -
  show t1: "t < length (txqs e)" by (rule sta_txqs_range [OF run_invD(2) [OF inv] s(1) t(1)])
  have "txq_sta (txq_at e t) = Some s" using queue_ps_owner [OF run_invD(3) [OF inv t1] t(2)] s t by blast
  then have "ps_ok e s (txq_at e t)" using run_invD(3) [OF inv t1] t(2) unfolding queue_ps_def by blast
  then show "sta_ps_stop (txq_at e t)" "remote_sta_max e \<le> s \<Longrightarrow> pkt_ready (sta_at e s) = [of_nat (length (sk_list (txq_at e t))), 0]"
    using s by (auto simp: ps_ok_def)
  show "0 < sint (credits (txq_at e t))" using txq_okD(5) [OF tx_invD(2) [OF run_invD(1) [OF inv] t1] t(2)] .
qed

lemma nonempty_active:
  assumes "run_inv X e" "t < length (txqs e)" "sk_list (txq_at e t) \<noteq> []"
  shows "\<not> inactive (txq_at e t)"
  using txq_okD(4) [OF tx_invD(2) [OF run_invD(1) [OF assms(1)] assms(2)]] assms(3) by blast

lemma uint_of_nat_le: "uint (of_nat n :: u16) \<le> int n"
  by (simp add: unsigned_of_nat take_bit_eq_mod)

lemma run_inv_dispatch:
  assumes "run_inv {} e" "s < length (stas e)" "ps_active (sta_at e s)" "set ts \<subseteq> set (sta_txqs e s)" "pkt_req \<noteq> 0"
  shows "run_inv {} (dispatch_req s pid pkt_req ts e) \<and> same_cfg e (dispatch_req s pid pkt_req ts e)"
  using assms
proof (induction s pid pkt_req ts e rule: dispatch_req.induct)
  case (2 s pid pkt_req t ts e)
  define q where "q = txq_at e t"
  define len where "len = cap_credits (of_nat (length (sk_list q))) (credits q)"
  show ?case
  proof (cases "ps_id q \<noteq> pid \<or> len = 0")
    case True
    then have "dispatch_req s pid pkt_req (t # ts) e = dispatch_req s pid pkt_req ts e"
      by (simp only: dispatch_req.simps(2) Let_def q_def [symmetric] len_def [symmetric] if_True simp_thms)
    moreover have "run_inv {} (dispatch_req s pid pkt_req ts e) \<and> same_cfg e (dispatch_req s pid pkt_req ts e)"
      by (rule "2.IH"(1) [OF q_def len_def True]) (use "2.prems" in auto)
    ultimately show ?thesis by simp
  next
    case False
    have t: "t \<in> set (sta_txqs e s)" using "2.prems"(4) by simp
    have t1: "t < length (txqs e)" by (rule sta_txqs_range [OF run_invD(2) [OF "2.prems"(1)] "2.prems"(2) t])
    have "0 \<le> sint (credits q)" using txq_okD(11) [OF tx_invD(2) [OF run_invD(1) [OF "2.prems"(1)] t1]] by (simp add: q_def)
    then have "sk_list q \<noteq> []" using False by (auto simp: len_def cap_credits_def)
    then have act: "\<not> inactive q" using nonempty_active [OF "2.prems"(1) t1] by (simp add: q_def)
    note sl = sleeping_queue [OF "2.prems"(1,2,3) t, folded q_def, OF act]
    note c = cap_credits [OF sl(3), of "of_nat (length (sk_list q))", folded len_def]
    have len: "uint len \<le> int (length (sk_list q))" using c(1) uint_of_nat_le [of "length (sk_list q)"] by linarith
    show ?thesis
    proof (cases "len < pkt_req")
      case True
      have g: "run_inv {} (grant s pid t len e)" "same_cfg e (grant s pid t len e)"
        by (rule run_inv_grant [OF "2.prems"(1,2) t1]; use False sl act len c in \<open>simp add: q_def [symmetric]\<close>)+
      have "run_inv {} (dispatch_req s pid (pkt_req - len) ts (grant s pid t len e)) \<and>
          same_cfg (grant s pid t len e) (dispatch_req s pid (pkt_req - len) ts (grant s pid t len e))"
        by (rule "2.IH"(2) [OF q_def len_def False True g(1)])
           (use "2.prems" g(2) True sta_txqs_cfg [OF g(2)] in \<open>auto simp: grant_frame same_cfg_def\<close>)
      then show ?thesis
        using False True g(2) same_cfg_trans by (auto simp: Let_def q_def [symmetric] len_def [symmetric])
    next
      case ge: False
      then have "uint pkt_req \<le> uint len" by (simp add: word_le_def not_less)
      then have "run_inv {} (grant s pid t pkt_req e)" "same_cfg e (grant s pid t pkt_req e)"
        by (intro run_inv_grant [OF "2.prems"(1,2) t1]; use "2.prems"(5) sl act len c in \<open>simp add: q_def [symmetric]\<close>)+
      then show ?thesis using False ge by (simp add: Let_def q_def [symmetric] len_def [symmetric])
    qed
  qed
qed simp

lemma prio_txqs:
  "s < remote_sta_max e \<Longrightarrow> set (map (rwnx_txq_sta_get (remote_sta_max e) s v) nx_tid_prio) \<subseteq> set (sta_txqs e s)"
  by (auto simp: nx_tid_prio_def sta_txqs_eq rwnx_txq_sta_get_def rwnx_txq_sta_idx_def is_multicast_sta_def nx_defs)

lemma run_inv_traffic_req:
  assumes inv: "run_inv {} e" and s: "s < length (stas e)" and pid: "pid < 2"
    and mc: "\<And>t. remote_sta_max e \<le> s \<Longrightarrow> t \<in> set (sta_txqs e s) \<Longrightarrow> \<not> inactive (txq_at e t)"
  shows "run_inv {} (rwnx_ps_bh_traffic_req s pkt_req pid e) \<and> same_cfg e (rwnx_ps_bh_traffic_req s pkt_req pid e)"
proof -
  define st where "st = sta_at e s"
  define get where "get = rwnx_txq_sta_get (remote_sta_max e) s (sta_vif_idx st)"
  define rdy where "rdy = uint (pkt_ready st ! pid) - uint (sp_cnt st ! pid)"
  define req where "req = (if pkt_req = 0 \<or> rdy < uint pkt_req then of_int rdy else pkt_req)"
  define e1 where "e1 = upd_sta s (\<lambda>st. st\<lparr>sp_cnt := (sp_cnt st)[pid := 0]\<rparr>) e"
  have 1: "run_inv {} e1" "same_cfg e e1" unfolding e1_def by (rule run_inv_upd_sta [OF inv]; simp)+
  have s1: "s < length (stas e1)" "ps_active (sta_at e1 s) = ps_active st" "sta_txqs e1 s = sta_txqs e s" "txqs e1 = txqs e"
    using s sta_txqs_cfg [OF 1(2) s] by (simp_all add: e1_def st_def)
  have rng: "t < length (txqs e)" if "t \<in> set (sta_txqs e s)" for t by (rule sta_txqs_range [OF run_invD(2) [OF inv] s that])
  note d = rwnx_ps_bh_traffic_req_def [of s pkt_req pid e, unfolded Let_def, folded st_def, folded rdy_def, folded req_def e1_def, folded get_def]
  have "uint (pkt_ready st ! pid) < 65536" using uint_lt2p [of "pkt_ready st ! pid"] by simp
  then have rdy: "rdy < 65536" using uint_nonnegative [of "sp_cnt st ! pid"] unfolding rdy_def by linarith
  have req: "uint req \<le> rdy" "req \<noteq> 0" if "0 < rdy"
  proof -
    have o: "uint (of_int rdy :: u16) = rdy" using rdy that by (subst uint_word_of_int_eq, subst take_bit_int_eq_self) auto
    then show "uint req \<le> rdy" using that by (auto simp: req_def)
    have "(of_int rdy :: u16) \<noteq> 0" using o that by auto
    then show "req \<noteq> 0" using that by (auto simp: req_def)
  qed
  consider (awake) "\<not> ps_active st" | (intr) "ps_active st" "pkt_req = PS_SP_INTERRUPTED \<and> pid = UAPSD_ID"
    | (none) "ps_active st" "\<not> (pkt_req = PS_SP_INTERRUPTED \<and> pid = UAPSD_ID)" "sp_cnt st ! pid \<noteq> 0 \<or> rdy \<le> 0"
    | (mc) "ps_active st" "\<not> (pkt_req = PS_SP_INTERRUPTED \<and> pid = UAPSD_ID)" "\<not> (sp_cnt st ! pid \<noteq> 0 \<or> rdy \<le> 0)" "remote_sta_max e \<le> s"
    | (uc) "ps_active st" "\<not> (pkt_req = PS_SP_INTERRUPTED \<and> pid = UAPSD_ID)" "\<not> (sp_cnt st ! pid \<noteq> 0 \<or> rdy \<le> 0)" "s < remote_sta_max e"
    by linarith
  then show ?thesis
  proof cases
    case awake
    then show ?thesis using inv d by simp
  next
    case intr
    have h: "held {} e e1" using 1 by (simp add: held_def)
    have "held {} e (clear_limits (sta_txqs e s) e1)" by (rule clear_limits_held(1) [OF h rng])
    then show ?thesis using d intr by (simp add: held_def)
  next
    case none
    then have "rwnx_ps_bh_traffic_req s pkt_req pid e = e" unfolding d by (simp only: if_False if_True simp_thms)
    then show ?thesis using inv by simp
  next
    case mc
    have ts: "sta_txqs e s = [get 0]" unfolding get_def st_def by (rule sta_get_txqs(2) [OF mc(4)])
    have act: "\<not> inactive (txq_at e1 (get 0))" using assms(4) mc(4) ts s1(4) by simp
    note sl = sleeping_queue [OF 1(1) s1(1), of "get 0", unfolded s1(2,3) ts, OF mc(1) _ act, simplified]
    have r1: "remote_sta_max e1 = remote_sta_max e" by (simp add: e1_def)
    define q where "q = txq_at e (get 0)"
    have ready: "pkt_ready st = [of_nat (length (sk_list q)), 0]"
      using sl(4) mc(4) s by (simp add: r1 s1(4) q_def) (simp add: e1_def st_def)
    have "pid = 0" using mc(3) pid ready by (cases pid) (auto simp: rdy_def less_Suc_eq)
    then have "rdy \<le> uint (of_nat (length (sk_list q)) :: u16)" by (simp add: rdy_def ready)
    then have len: "rdy \<le> int (length (sk_list q))" using uint_of_nat_le [of "length (sk_list q)"] by linarith
    define n where "n = cap_credits req (credits (txq_at e1 (get 0)))"
    have c: "uint n \<le> uint req" "uint n \<le> sint (credits (txq_at e1 (get 0)))" "n = 0 \<longleftrightarrow> req = 0"
      unfolding n_def by (rule cap_credits [OF sl(3)])+
    have n: "n \<noteq> 0" "uint n \<le> int (length (sk_list q))" using c req mc(3) len by auto
    have g: "run_inv {} (grant s pid (get 0) n e1)" "same_cfg e1 (grant s pid (get 0) n e1)"
      by (rule run_inv_grant [OF 1(1) s1(1)]; use sl n c act in \<open>simp add: s1(4) q_def\<close>)+
    have "rwnx_ps_bh_traffic_req s pkt_req pid e = grant s pid (get 0) n e1"
      using d mc by (simp add: is_multicast_sta_def n_def)
    then show ?thesis using g 1(2) same_cfg_trans by auto
  next
    case uc
    have "run_inv {} (dispatch_req s pid req (map get nx_tid_prio) e1) \<and> same_cfg e1 (dispatch_req s pid req (map get nx_tid_prio) e1)"
      by (rule run_inv_dispatch [OF 1(1) s1(1)]) (use uc prio_txqs [OF uc(4)] req in \<open>auto simp: s1 get_def\<close>)
    moreover have "rwnx_ps_bh_traffic_req s pkt_req pid e = dispatch_req s pid req (map get nx_tid_prio) e1"
      using d uc by (simp add: is_multicast_sta_def)
    ultimately show ?thesis using 1(2) same_cfg_trans by auto
  qed
qed

end
