(* ===== verification/Tx_Run.thy ===== *)
theory Tx_Run
  imports Tx_Ps
begin

text \<open>
  The runs of the transmit queues: any interleaving of the entry points that work on them under
  \<open>tx_lock\<close>, from the state after probe; and the properties of \<^verbatim>\<open>rwnx_txq.c\<close> over these runs.
\<close>

unbundle bit_operations_syntax

subsection \<open>Runs\<close>

text \<open>After probe no queue is active.  \<open>n\<close> is \<open>NX_REMOTE_STA_MAX\<close>, \<open>vif_of\<close> the interfaces of the stations.\<close>

definition tx_probe :: "nat \<Rightarrow> nat list \<Rightarrow> u8 list \<Rightarrow> tx_env" where
  "tx_probe n vif_of sizes =
     \<lparr>txqs = replicate (NX_NB_TXQ n)
        \<lparr>txq_idx = TXQ_INACTIVE, status = 0, credits = 0, pkt_sent = 0, pkt_pushed = 0, sk_list = [], last_retry_skb = None,
         nb_retry = 0, txq_hwq = 0, push_limit = 0, txq_tid = 0, txq_sta = None, ps_id = 0, ndev_idx = 0\<rparr>,
      hwqs = map (\<lambda>sz. \<lparr>hwq_list = [], hwq_size = sz, need_processing = False\<rparr>) sizes,
      stas = map (\<lambda>v. \<lparr>ps_active = False, pkt_ready = [0, 0], sp_cnt = [0, 0], sta_vif_idx = v, uapsd_tids = 0\<rparr>) vif_of,
      remote_sta_max = n, ndev_stopped = [], tx_out = [], cfm_balance = replicate (length sizes) 0\<rparr>"

text \<open>
  The steps.  A queue is initialised while it is unused and its station awake; a packet is queued on an
  active queue, and only once; a broadcast queue is polled while it is active; a packet is retried
  while the credits, which only grow, fit their octet.
\<close>

inductive tx_run :: "nat \<Rightarrow> nat list \<Rightarrow> u8 list \<Rightarrow> tx_env \<Rightarrow> bool" for n vif_of sizes where
  probe: "tx_run n vif_of sizes (tx_probe n vif_of sizes)"
| init: "tx_run n vif_of sizes e \<Longrightarrow> t < length (txqs e) \<Longrightarrow> inactive (txq_at e t) \<Longrightarrow> \<not> bit st 0 \<Longrightarrow> hwq < length (hwqs e) \<Longrightarrow>
     (\<And>s. sta = Some s \<longleftrightarrow> s < length (stas e) \<and> t \<in> set (sta_txqs e s)) \<Longrightarrow>
     (\<And>s. sta = Some s \<Longrightarrow> \<not> ps_active (sta_at e s) \<and> (n \<le> s \<longrightarrow> hwq = RWNX_HWQ_BE \<and> pid = LEGACY_PS_ID)) \<Longrightarrow>
     tx_run n vif_of sizes (upd_txq t (\<lambda>_. (rwnx_txq_init n t st hwq tid sta)\<lparr>ps_id := pid\<rparr>) e)"
| deinit: "tx_run n vif_of sizes e \<Longrightarrow> t < length (txqs e) \<Longrightarrow> tx_run n vif_of sizes (rwnx_txq_deinit t e)"
| start: "tx_run n vif_of sizes e \<Longrightarrow> t < length (txqs e) \<Longrightarrow> r \<in> stop_reasons \<Longrightarrow> r \<noteq> RWNX_TXQ_STOP_STA_PS \<Longrightarrow>
     tx_run n vif_of sizes (rwnx_txq_start t r e)"
| stop: "tx_run n vif_of sizes e \<Longrightarrow> t < length (txqs e) \<Longrightarrow> r \<in> stop_reasons \<Longrightarrow> tx_run n vif_of sizes (rwnx_txq_stop t r e)"
| queue: "tx_run n vif_of sizes e \<Longrightarrow> t < length (txqs e) \<Longrightarrow> \<not> inactive (txq_at e t) \<Longrightarrow> skb \<notin> set (sk_list (txq_at e t)) \<Longrightarrow>
     tx_run n vif_of sizes (fst (rwnx_txq_queue_skb skb t False e))"
| process: "tx_run n vif_of sizes e \<Longrightarrow> h < length (hwqs e) \<Longrightarrow> rwnx_hwq_process h e = Tx_done e' \<Longrightarrow> tx_run n vif_of sizes e'"
| confirm: "tx_run n vif_of sizes e \<Longrightarrow> t < length (txqs e) \<Longrightarrow> \<not> retry \<or> mgmt \<or> sint (credits (txq_at e t)) < 127 \<Longrightarrow>
     skb \<notin> set (sk_list (txq_at e t)) \<Longrightarrow> tx_run n vif_of sizes (rwnx_txdatacfm skb t h mgmt retry e)"
| credit: "tx_run n vif_of sizes e \<Longrightarrow> t < length (txqs e) \<Longrightarrow> tx_run n vif_of sizes (rwnx_txq_credit_update t e)"
| ps: "tx_run n vif_of sizes e \<Longrightarrow> s < length (stas e) \<Longrightarrow> tx_run n vif_of sizes (rwnx_ps_bh_enable s enable e)"
| traffic: "tx_run n vif_of sizes e \<Longrightarrow> s < length (stas e) \<Longrightarrow> pid < 2 \<Longrightarrow>
     (\<And>t. n \<le> s \<Longrightarrow> t \<in> set (sta_txqs e s) \<Longrightarrow> \<not> inactive (txq_at e t)) \<Longrightarrow>
     tx_run n vif_of sizes (rwnx_ps_bh_traffic_req s pkt_req pid e)"

text \<open>The configuration: at most 7000 remote stations, one broadcast station for an interface, four hardware queues.\<close>

definition tx_config :: "nat \<Rightarrow> nat list \<Rightarrow> u8 list \<Rightarrow> bool" where
  "tx_config n vif_of sizes \<longleftrightarrow> n \<le> 7000 \<and> RWNX_HWQ_VO < length sizes \<and> distinct (drop n vif_of) \<and> (\<forall>v \<in> set (drop n vif_of). v < NX_VIRT_DEV_MAX)"

lemma run_inv_probe:
  assumes "tx_config n vif_of sizes"
  shows "run_inv {} (tx_probe n vif_of sizes)"
proof -
  have hw: "0 < length sizes" "RWNX_HWQ_VO < length sizes" using assms by (auto simp: tx_config_def)
  have "tx_inv (tx_probe n vif_of sizes)"
    using hw by (auto simp: tx_inv_def lists_ok_def tx_probe_def txq_ok_def)
  moreover have "stations_ok (tx_probe n vif_of sizes)"
  proof -
    have v: "s - n < length (drop n vif_of)" "vif_of ! s = drop n vif_of ! (s - n)" if "s < length vif_of" "n \<le> s" for s
      using that by auto
    have "vif_of ! s < NX_VIRT_DEV_MAX" if "s < length vif_of" "n \<le> s" for s
      using v [OF that] assms nth_mem unfolding tx_config_def by metis
    moreover have "s = s'" if "s < length vif_of" "n \<le> s" "s' < length vif_of" "n \<le> s'" "vif_of ! s = vif_of ! s'" for s s'
    proof -
      have "s - n = s' - n" using v [OF that(1,2)] v [OF that(3,4)] that(5) assms nth_eq_iff_index_eq unfolding tx_config_def by metis
      then show ?thesis using that by simp
    qed
    ultimately show ?thesis using assms hw by (simp add: stations_ok_def tx_probe_def tx_config_def)
  qed
  ultimately show ?thesis by (simp add: run_inv_def queue_ps_def tx_probe_def)
qed

lemma run_inv_txdatacfm:
  assumes inv: "run_inv {} e" and t: "t < length (txqs e)" and c: "\<not> retry \<or> mgmt \<or> sint (credits (txq_at e t)) < 127"
    and new: "skb \<notin> set (sk_list (txq_at e t))"
  shows "run_inv {} (rwnx_txdatacfm skb t h mgmt retry e) \<and> same_cfg e (rwnx_txdatacfm skb t h mgmt retry e)"
proof -
  define e1 where "e1 = rwnx_txq_confirm_any t h e"
  have 1: "run_inv {} e1" "same_cfg e e1" unfolding e1_def by (rule run_inv_confirm [OF inv t])+
  have q: "t < length (txqs e1)" "txq_idx (txq_at e1 t) = txq_idx (txq_at e t)" "credits (txq_at e1 t) = credits (txq_at e t)"
    "sk_list (txq_at e1 t) = sk_list (txq_at e t)" "push_limit (txq_at e1 t) = push_limit (txq_at e t)" using t by (simp_all add: e1_def)
  note ok = tx_invD(2) [OF run_invD(1) [OF 1(1)] q(1)]
  consider (retry) "\<not> mgmt \<and> \<not> inactive (txq_at e1 t) \<and> retry"
    | (go) "\<not> (\<not> mgmt \<and> \<not> inactive (txq_at e1 t) \<and> retry)" "\<not> inactive (txq_at e1 t) \<and> push_limit (txq_at e1 t) \<noteq> 0 \<and> \<not> rwnx_txq_is_full (txq_at e1 t)"
    | (none) "\<not> (\<not> mgmt \<and> \<not> inactive (txq_at e1 t) \<and> retry)" "\<not> (\<not> inactive (txq_at e1 t) \<and> push_limit (txq_at e1 t) \<noteq> 0 \<and> \<not> rwnx_txq_is_full (txq_at e1 t))"
    by blast
  then show ?thesis
  proof cases
    case retry
    have "run_inv {} (rwnx_tx_retry skb t e1)" "same_cfg e1 (rwnx_tx_retry skb t e1)"
      by (rule run_inv_retry [OF 1(1) q(1)]; use retry c new in \<open>simp add: q\<close>)+
    then show ?thesis using 1(2) same_cfg_trans retry by (auto simp: rwnx_txdatacfm_def e1_def)
  next
    case go
    have "unat (push_limit (txq_at e1 t)) \<le> length (sk_list (txq_at e1 t))" "push_limit (txq_at e1 t) \<noteq> 0"
      using txq_okD(10) [OF ok] go(2) by (auto simp: limit_ok_def)
    then have ne: "sk_list (txq_at e1 t) \<noteq> []" by (auto simp: unat_eq_0)
    have cfg: "same_cfg e1 (rwnx_txq_add_to_hw_list t e1)" by (simp add: same_cfg_def)
    have "run_inv {} (rwnx_txq_add_to_hw_list t e1)"
      by (rule run_inv_calm [OF 1(1) tx_inv_add_limited [OF run_invD(1) [OF 1(1)] q(1) _ ne] cfg _ add_to_hw_txqs q(1)])
         (use go in \<open>auto simp: q_calm_def\<close>)
    then show ?thesis using go cfg 1(2) same_cfg_trans by (auto simp: rwnx_txdatacfm_def e1_def)
  next
    case none
    then show ?thesis using 1 by (auto simp: rwnx_txdatacfm_def e1_def)
  qed
qed

lemma tx_run_inv:
  assumes "tx_run n vif_of sizes e" "tx_config n vif_of sizes"
  shows "run_inv {} e \<and> remote_sta_max e = n"
  using assms(1)
proof induction
  case probe
  show ?case using run_inv_probe [OF assms(2)] by (simp add: tx_probe_def)
next
  case (init e t st hwq sta pid tid)
  then have inv: "run_inv {} e" and n: "remote_sta_max e = n" by auto
  note ok = tx_invD(2) [OF run_invD(1) [OF inv] init.hyps(2)]
  have "t < 65535" using run_invD(2) [OF inv] init.hyps(2) by (auto simp: stations_ok_def nx_defs)
  then have ok': "txq_ok (length (hwqs e)) (rwnx_txq_init n t st hwq tid sta)" by (intro txq_ok_init) (use init.hyps in auto)
  have i: "txq_sta (rwnx_txq_init n t st hwq tid sta) = sta" "txq_hwq (rwnx_txq_init n t st hwq tid sta) = hwq"
    "status (rwnx_txq_init n t st hwq tid sta) = st" by (simp_all add: rwnx_txq_init_def)
  have "run_inv {} (upd_txq t (\<lambda>_. (rwnx_txq_init n t st hwq tid sta)\<lparr>ps_id := pid\<rparr>) e)"
  proof (rule run_inv_init [OF inv init.hyps(2)])
    show "\<not> sched (txq_at e t)" using txq_okD(3) [OF ok] init.hyps(3) by simp
    show "txq_ok (length (hwqs e)) ((rwnx_txq_init n t st hwq tid sta)\<lparr>ps_id := pid\<rparr>)"
      using ok' by (simp add: txq_ok_def retry_ok_def limit_ok_def rwnx_txq_is_stopped_def)
  qed (use init.hyps n in \<open>auto simp: i rwnx_txq_init_def\<close>)
  then show ?case using n by simp
next
  case (deinit e t) then show ?case using run_inv_deinit by (auto simp: same_cfg_def deinit_effect)
next
  case (start e t r) then show ?case using run_inv_start by (auto simp: same_cfg_def)
next
  case (stop e t r) then show ?case using run_inv_stop by (auto simp: same_cfg_def)
next
  case (queue e t skb) then show ?case using run_inv_queue_skb by (auto simp: same_cfg_def queue_skb_effect)
next
  case (process e h e')
  then obtain e'' where "rwnx_hwq_process h e = Tx_done e''" "run_inv {} e''" "same_cfg e e''"
    using run_inv_hwq_process [of "{}" e h] by metis
  then show ?case using process by (auto simp: same_cfg_def)
next
  case (confirm e t retry mgmt skb h) then show ?case using run_inv_txdatacfm by (auto simp: same_cfg_def)
next
  case (credit e t) then show ?case using run_inv_credit_update by (auto simp: same_cfg_def)
next
  case (ps e s enable)
  then show ?case using run_inv_ps_on [of e s] run_inv_ps_off [of e s] by (cases enable) (auto simp: same_cfg_def)
next
  case (traffic e s pid pkt_req)
  then have "run_inv {} (rwnx_ps_bh_traffic_req s pkt_req pid e) \<and> same_cfg e (rwnx_ps_bh_traffic_req s pkt_req pid e)"
    by (intro run_inv_traffic_req) auto
  then show ?case using traffic by (simp add: same_cfg_def)
qed

subsection \<open>The entry points on stations and interfaces are sequences of steps\<close>

lemma tx_run_fold:
  assumes "tx_run n v z e" "\<And>t. t \<in> set ts \<Longrightarrow> t < length (txqs e)"
    and "\<And>t e. tx_run n v z e \<Longrightarrow> t < length (txqs e) \<Longrightarrow> tx_run n v z (f t e) \<and> same_cfg e (f t e)"
  shows "tx_run n v z (fold f ts e)"
  using assms(1,2)
proof (induction ts arbitrary: e)
  case (Cons t ts)
  have "tx_run n v z (f t e)" "same_cfg e (f t e)" using assms(3) [of e t] Cons.prems by auto
  then show ?case using Cons.IH [of "f t e"] Cons.prems(2) by (simp add: same_cfg_def)
qed simp

lemma tx_run_sta_ops:
  assumes run: "tx_run n v z e" and cfg: "tx_config n v z" and s: "s < length (stas e)" and r: "r \<in> stop_reasons"
  shows "tx_run n v z (rwnx_txq_sta_stop s r e)" "r \<noteq> RWNX_TXQ_STOP_STA_PS \<Longrightarrow> tx_run n v z (rwnx_txq_sta_start s r e)"
    "tx_run n v z (rwnx_txq_sta_deinit s e)"
proof -
  note rng = sta_txqs_range [OF run_invD(2) [OF tx_run_inv [OF run cfg, THEN conjunct1]] s]
  show "tx_run n v z (rwnx_txq_sta_stop s r e)" unfolding rwnx_txq_sta_stop_def
    by (rule tx_run_fold [OF run rng]) (auto intro: tx_run.stop r simp: same_cfg_def)
  show "tx_run n v z (rwnx_txq_sta_start s r e)" if "r \<noteq> RWNX_TXQ_STOP_STA_PS" unfolding rwnx_txq_sta_start_def
    by (rule tx_run_fold [OF run rng]) (use tx_run.start r that in \<open>auto simp: same_cfg_def\<close>)
  show "tx_run n v z (rwnx_txq_sta_deinit s e)" unfolding rwnx_txq_sta_deinit_def
    by (rule tx_run_fold [OF run rng]) (auto intro: tx_run.deinit simp: same_cfg_def deinit_effect)
qed

subsection \<open>A small run, for the examples\<close>

definition demo_cfg :: "nat list \<Rightarrow> tx_env" where "demo_cfg skbs = fold (\<lambda>skb e. fst (rwnx_txq_queue_skb skb 0 False e)) skbs
  (upd_txq 0 (\<lambda>_. (rwnx_txq_init 1 0 0 1 0 (Some 0))\<lparr>ps_id := UAPSD_ID\<rparr>) (tx_probe 1 [0, 0] [8, 8, 8, 8]))"

lemma demo_config: "tx_config 1 [0, 0] [8, 8, 8, 8]"
  by (simp add: tx_config_def RWNX_HWQ_VO_def NX_VIRT_DEV_MAX_def)

lemma demo_init: "tx_run 1 [0, 0] [8, 8, 8, 8] (demo_cfg [])"
  unfolding demo_cfg_def fold_simps(1)
proof (rule tx_run.init [OF tx_run.probe])
  fix s
  show "(Some 0 = Some s) = (s < length (stas (tx_probe 1 [0, 0] [8, 8, 8, 8])) \<and> 0 \<in> set (sta_txqs (tx_probe 1 [0, 0] [8, 8, 8, 8]) s))"
    by (auto simp: sta_txqs_eq tx_probe_def less_Suc_eq)
qed (auto simp: tx_probe_def nx_defs)

lemma demo_queue:
  assumes "distinct skbs"
  shows "tx_run 1 [0, 0] [8, 8, 8, 8] (demo_cfg skbs) \<and> length (txqs (demo_cfg skbs)) = 18 \<and>
    \<not> inactive (txq_at (demo_cfg skbs) 0) \<and> sk_list (txq_at (demo_cfg skbs) 0) = skbs"
  using assms
proof (induction skbs rule: rev_induct)
  case Nil
  have "\<not> inactive (txq_at (demo_cfg []) 0)" "length (txqs (demo_cfg [])) = 18" "sk_list (txq_at (demo_cfg []) 0) = []"
    by (simp_all add: demo_cfg_def tx_probe_def nx_defs rwnx_txq_init_def TXQ_INACTIVE_def)
  then show ?case using demo_init by blast
next
  case (snoc skb skbs)
  let ?e = "demo_cfg skbs"
  have ih: "tx_run 1 [0, 0] [8, 8, 8, 8] ?e" "length (txqs ?e) = 18" "\<not> inactive (txq_at ?e 0)" "sk_list (txq_at ?e 0) = skbs"
    using snoc by auto
  have e: "demo_cfg (skbs @ [skb]) = fst (rwnx_txq_queue_skb skb 0 False ?e)" by (simp add: demo_cfg_def)
  have t: "0 < length (txqs ?e)" using ih(2) by simp
  have "tx_run 1 [0, 0] [8, 8, 8, 8] (fst (rwnx_txq_queue_skb skb 0 False ?e))"
    by (rule tx_run.queue [OF ih(1) t ih(3)]) (use ih(4) snoc.prems in simp)
  then show ?case using ih t by (simp add: e queue_skb_effect enqueue_skb_def)
qed

lemma demo_run: "tx_run 1 [0, 0] [8, 8, 8, 8] (demo_cfg [7, 9])"
  using demo_queue [of "[7, 9]"] by (rule conjunct1) simp

subsection \<open>Properties of the runs\<close>

text \<open>C4. The schedule of the transmit queues (\<open>rwnx_txq_add_to_hw_list\<close>, \<open>del_from_hw_list\<close>, start, stop and their callers):
  in every run each hardware queue lists, once each, exactly the queues whose status says so, on
  their own hardware queue; a listed queue is active, has packets and credits; and no active queue
  with packets waits outside the list unless it is stopped.\<close>

theorem tx_schedule_sound:
  assumes "tx_run n vif_of sizes e" "tx_config n vif_of sizes"
  shows "(\<forall>h < length (hwqs e). distinct (hwq_list (hwq_at e h)) \<and>
      (\<forall>t. t \<in> set (hwq_list (hwq_at e h)) \<longleftrightarrow>
         t < length (txqs e) \<and> rwnx_txq_is_scheduled (txq_at e t) \<and> txq_hwq (txq_at e t) = h)) \<and>
    (\<forall>t < length (txqs e). let q = txq_at e t in txq_hwq q < length (hwqs e) \<and>
      (rwnx_txq_is_scheduled q \<longrightarrow> txq_idx q \<noteq> TXQ_INACTIVE \<and> rwnx_txq_skb_ready q \<and> 0 < sint (credits q)) \<and>
      (txq_idx q \<noteq> TXQ_INACTIVE \<and> rwnx_txq_skb_ready q \<and> \<not> rwnx_txq_is_stopped q \<longrightarrow> rwnx_txq_is_scheduled q))"
proof -
  have inv: "tx_inv e" using tx_run_inv [OF assms] run_invD(1) by blast
  have l: "rwnx_txq_is_scheduled q \<longleftrightarrow> sched q" for q by (simp add: txq_tests)
  note ok = tx_invD(2) [OF inv]
  show ?thesis
    using tx_invD(1) [OF inv] txq_okD(1,5-8) [OF ok] unfolding lists_ok_def l rwnx_txq_skb_ready_def Let_def by blast
qed

lemma tx_schedule_sound_witness: "rwnx_txq_is_scheduled (txq_at (demo_cfg [7, 9]) 0)"
proof -
  have d: "0 < length (txqs (demo_cfg [7, 9]))" "txq_idx (txq_at (demo_cfg [7, 9]) 0) \<noteq> TXQ_INACTIVE"
    "rwnx_txq_skb_ready (txq_at (demo_cfg [7, 9]) 0)" "\<not> rwnx_txq_is_stopped (txq_at (demo_cfg [7, 9]) 0)" by code_simp+
  show ?thesis using tx_schedule_sound [OF demo_run demo_config] d unfolding Let_def by blast
qed

text \<open>C5. \<open>rwnx_hwq_process\<close> ends, with no failed \<open>BUG_ON\<close>, in every state of a run.  The packets of a queue leave
  it from the front, in order (those sent followed by those that wait are the same before and after),
  and every queue that was scheduled sends at least one: none starves behind another.\<close>

theorem hwq_process_total_fifo_fair:
  assumes "tx_run n vif_of sizes e" "tx_config n vif_of sizes" "h < length (hwqs e)"
  shows "\<exists>e'. rwnx_hwq_process h e = Tx_done e' \<and> tx_run n vif_of sizes e' \<and>
    (\<forall>t < length (txqs e). map snd (filter (\<lambda>p. fst p = t) (tx_out e')) @ sk_list (txq_at e' t) =
        map snd (filter (\<lambda>p. fst p = t) (tx_out e)) @ sk_list (txq_at e t)) \<and>
    (\<forall>t \<in> set (hwq_list (hwq_at e h)). length (sk_list (txq_at e' t)) < length (sk_list (txq_at e t)))"
proof -
  obtain e' where e': "rwnx_hwq_process h e = Tx_done e'" "run_inv {} e'" "same_cfg e e'" "tx_same e e'"
    "\<And>t. t \<in> set (hwq_list (hwq_at e h)) \<Longrightarrow> length (sent_of e t) < length (sent_of e' t)"
    using run_inv_hwq_process [OF tx_run_inv [OF assms(1,2), THEN conjunct1] assms(3)] by metis
  have str: "sent_of e' t @ sk_list (txq_at e' t) = sent_of e t @ sk_list (txq_at e t)" if "t < length (txqs e)" for t
    using e'(4) that by (simp add: tx_same_def tx_stream_def sent_of_def)
  have "length (sk_list (txq_at e' t)) < length (sk_list (txq_at e t))" if t: "t \<in> set (hwq_list (hwq_at e h))" for t
  proof -
    have "t < length (txqs e)"
      using t in_hwq_list(1) [OF tx_invD(1) [OF run_invD(1) [OF tx_run_inv [OF assms(1,2), THEN conjunct1]]] assms(3)] by blast
    then show ?thesis using e'(5) [OF t] arg_cong [OF str, of t length] by simp
  qed
  then show ?thesis using e'(1) tx_run.process [OF assms(1,3) e'(1)] str by (auto simp: sent_of_def)
qed

lemma hwq_process_total_fifo_fair_witness:
  "\<exists>e'. rwnx_hwq_process 1 (demo_cfg [7, 9]) = Tx_done e' \<and> map snd (filter (\<lambda>p. fst p = 0) (tx_out e')) @ sk_list (txq_at e' 0) = [7, 9]"
proof -
  have d: "tx_run 1 [0, 0] [8, 8, 8, 8] (demo_cfg [7, 9])" "0 < length (txqs (demo_cfg [7, 9]))" "sk_list (txq_at (demo_cfg [7, 9]) 0) = [7, 9]"
    using demo_queue [of "[7, 9]"] by auto
  have h: "(1 :: nat) < length (hwqs (demo_cfg [7, 9]))" "tx_out (demo_cfg [7, 9]) = []"
    by (simp_all add: demo_cfg_def tx_probe_def queue_skb_effect nx_defs)
  show ?thesis using hwq_process_total_fifo_fair [OF d(1) demo_config h(1)] d(2,3) h(2) by auto
qed

text \<open>A packet that is to be retried is queued after the retried packets that wait and before every packet not
  yet sent (\<open>rwnx_txq_queue_skb\<close>, \<open>rwnx_skb_append\<close>), a new one at the end; \<open>nb_retry\<close> and \<open>last_retry_skb\<close> stay the number and
  the last of the retried packets, so the \<open>WARN\<close> of \<open>rwnx_tx_push\<close> never fires.\<close>

theorem retry_before_new:
  assumes "tx_run n vif_of sizes e" "tx_config n vif_of sizes" "t < length (txqs e)"
    "txq_idx (txq_at e t) \<noteq> TXQ_INACTIVE" "skb \<notin> set (sk_list (txq_at e t))"
  shows "let q = txq_at e t; k = nat (nb_retry q); q' = txq_at (fst (rwnx_txq_queue_skb skb t retry e)) t in
    sk_list q' = (if retry then take k (sk_list q) @ [skb] @ drop k (sk_list q) else sk_list q @ [skb]) \<and>
    nb_retry q' = (if retry then nb_retry q + 1 else nb_retry q) \<and> 0 \<le> nb_retry q' \<and> nb_retry q' \<le> int (length (sk_list q')) \<and>
    last_retry_skb q' = (if nb_retry q' = 0 then None else Some (sk_list q' ! (nat (nb_retry q') - 1)))"
proof -
  note inv = tx_run_inv [OF assms(1,2), THEN conjunct1]
  note ok = tx_invD(2) [OF run_invD(1) [OF inv] assms(3)]
  have ok': "txq_ok (length (hwqs e)) (q_queue skb retry (txq_at e t))" by (rule txq_ok_queue [OF ok assms(4,5)])
  have "retry_ok (q_queue skb retry (txq_at e t))" using txq_okD(9) [OF ok'] assms(4) by simp
  then show ?thesis
    using enqueue_list [OF txq_okD(9) [OF ok assms(4)] txq_okD(2) [OF ok], of skb retry] assms(3)
    by (simp add: queue_skb_effect Let_def retry_ok_def) (simp add: enqueue_skb_def)
qed

lemma retry_before_new_witness:
  "sk_list (txq_at (fst (rwnx_txq_queue_skb 5 0 True (demo_cfg [7, 9]))) 0) = [5, 7, 9]"
proof -
  have d: "tx_run 1 [0, 0] [8, 8, 8, 8] (demo_cfg [7, 9])" "0 < length (txqs (demo_cfg [7, 9]))" "\<not> inactive (txq_at (demo_cfg [7, 9]) 0)"
    "sk_list (txq_at (demo_cfg [7, 9]) 0) = [7, 9]" using demo_queue [of "[7, 9]"] by auto
  have "nb_retry (txq_at (demo_cfg [7, 9]) 0) = 0"
    by (simp add: demo_cfg_def queue_skb_effect tx_probe_def nx_defs enqueue_skb_def) (simp add: rwnx_txq_init_def)
  then show ?thesis using retry_before_new [OF d(1) demo_config d(2,3), of 5 True] d(4) by (simp add: Let_def)
qed

text \<open>C21. A service period (\<open>rwnx_ps_bh_traffic_req\<close>, \<open>rwnx_txq_get_skb_to_push\<close>): a queue scheduled with a push limit sends
  exactly that many packets when it is visited, the first ones, and leaves the list with its limit
  used up, still stopped for its sleeping station.\<close>

theorem service_period_exact:
  assumes "tx_run n vif_of sizes e" "tx_config n vif_of sizes" "h < length (hwqs e)" "t \<in> set (hwq_list (hwq_at e h))"
    "push_limit (txq_at e t) \<noteq> 0"
  shows "let q = txq_at e t; k = unat (push_limit q); e' = process_txq h t e in
    tx_out e' = tx_out e @ map (Pair t) (take k (sk_list q)) \<and> k \<le> length (sk_list q) \<and> sk_list (txq_at e' t) = drop k (sk_list q) \<and>
    push_limit (txq_at e' t) = 0 \<and> \<not> rwnx_txq_is_scheduled (txq_at e' t) \<and> rwnx_txq_is_stopped (txq_at e' t)"
proof -
  note inv = run_invD(1) [OF tx_run_inv [OF assms(1,2), THEN conjunct1]]
  let ?q = "txq_at e t"
  have t: "t < length (txqs e)" "sched ?q" using assms(4) in_hwq_list(1) [OF tx_invD(1) [OF inv] assms(3)] by auto
  note ok = tx_invD(2) [OF inv t(1)]
  have act: "\<not> inactive ?q" using txq_okD(6) [OF ok] t(2) by auto
  have lim: "sta_ps_stop ?q" "unat (push_limit ?q) \<le> length (sk_list ?q)" "uint (push_limit ?q) \<le> sint (credits ?q)"
    using txq_okD(10) [OF ok act] assms(5) by (auto simp: limit_ok_def)
  define k where "k = unat (push_limit ?q)"
  have k: "int k = uint (push_limit ?q)" by (simp add: k_def)
  have c: "rwnx_txq_get_credits ?q = int k"
    using get_credits(1) [OF ok act] lim(3) assms(5) unfolding k by (auto split: if_splits)
  have "k \<le> length (sk_list ?q)" using lim(2) by (simp add: k_def)
  then have g: "rwnx_txq_get_skb_to_push ?q = (take k (sk_list ?q), drop k (sk_list ?q), True)"
    unfolding rwnx_txq_get_skb_to_push_def Let_def c nat_int of_nat_le_iff k [symmetric] using assms(5) by auto
  note f = process_q_fields [OF g lim(2) [folded k_def] txq_okD(9) [OF ok act], of "hwq_size (hwq_at e h)"]
  have "push_limit (process_q (hwq_size (hwq_at e h)) ?q) = 0" using f(10) by (auto simp: k_def unat_eq_0)
  then show ?thesis
    using t lim by (simp add: Let_def process_txqs process_out g f txq_tests flip: k_def)
qed

definition demo_ps :: tx_env where
  "demo_ps = rwnx_ps_bh_traffic_req 0 1 UAPSD_ID (rwnx_ps_bh_enable 0 True (demo_cfg [7, 9]))"

lemma demo_ps_run: "tx_run 1 [0, 0] [8, 8, 8, 8] demo_ps"
proof -
  have s: "stas (demo_cfg [7, 9]) = stas (tx_probe 1 [0, 0] [8, 8, 8, 8])" by code_simp
  have "tx_run 1 [0, 0] [8, 8, 8, 8] (rwnx_ps_bh_enable 0 True (demo_cfg [7, 9]))"
    by (rule tx_run.ps [OF demo_run]) (simp add: s tx_probe_def)
  moreover have "length (stas (rwnx_ps_bh_enable 0 True (demo_cfg [7, 9]))) = 2" by code_simp
  ultimately show ?thesis unfolding demo_ps_def by (intro tx_run.traffic) (simp_all add: UAPSD_ID_def)
qed

lemma demo_ps_queue:
  "length (hwqs demo_ps) = 4" "hwq_list (hwq_at demo_ps 1) = [0]" "push_limit (txq_at demo_ps 0) = 1" "sk_list (txq_at demo_ps 0) = [7, 9]"
  by code_simp+

lemma service_period_exact_witness:
  "sk_list (txq_at (process_txq 1 0 demo_ps) 0) = [9]"
  using service_period_exact [OF demo_ps_run demo_config, of 1 0] demo_ps_queue by (simp add: Let_def)

text \<open>A U-APSD service period that the firmware interrupts (\<open>PS_SP_INTERRUPTED\<close>) has its push limit cleared, but the
  queue stays scheduled: its next visit sends every packet the credits allow to the sleeping station,
  and not the packets of the request.\<close>

theorem interrupted_service_releases_queue:
  assumes "tx_run n vif_of sizes e" "tx_config n vif_of sizes" "s < length (stas e)" "ps_active (sta_at e s)"
    "t \<in> set (sta_txqs e s)" "rwnx_txq_is_scheduled (txq_at e t)"
  shows "let e' = rwnx_ps_bh_traffic_req s PS_SP_INTERRUPTED UAPSD_ID e; q = txq_at e t in
    ps_active (sta_at e' s) \<and> rwnx_txq_is_stopped (txq_at e' t) \<and> rwnx_txq_is_scheduled (txq_at e' t) \<and>
    fst (rwnx_txq_get_skb_to_push (txq_at e' t)) = take (nat (sint (credits q))) (sk_list q)"
proof -
  note inv = tx_run_inv [OF assms(1,2), THEN conjunct1]
  have sc: "sched (txq_at e t)" using assms(6) by (simp add: txq_tests)
  define e1 where "e1 = upd_sta s (\<lambda>st. st\<lparr>sp_cnt := (sp_cnt st)[UAPSD_ID := 0]\<rparr>) e"
  define ts where "ts = sta_txqs e s"
  have rng: "u < length (txqs e)" if "u \<in> set ts" for u using sta_txqs_range [OF run_invD(2) [OF inv] assms(3)] that by (simp add: ts_def)
  note t = rng [OF assms(5) [folded ts_def]]
  have act: "\<not> inactive (txq_at e t)" using txq_okD(6) [OF tx_invD(2) [OF run_invD(1) [OF inv] t]] sc by auto
  note sl = sleeping_queue [OF inv assms(3,4,5) act]
  have h: "held {} e e1" unfolding e1_def held_def by (intro conjI run_inv_upd_sta [OF inv]) simp_all
  have e': "rwnx_ps_bh_traffic_req s PS_SP_INTERRUPTED UAPSD_ID e = clear_limits ts e1"
    using assms(4) by (simp add: rwnx_ps_bh_traffic_req_def Let_def ts_def e1_def)
  have q: "txq_at (clear_limits ts e1) t = (txq_at e t)\<lparr>push_limit := 0\<rparr>"
  proof -
    have "txq_at (clear_limits ts e) t = (if t \<in> set ts then (txq_at e t)\<lparr>push_limit := 0\<rparr> else txq_at e t)"
      if "t < length (txqs e)" for ts and e :: tx_env
      using that unfolding clear_limits_def
    proof (induction ts arbitrary: e)
      case (Cons a ts) then show ?case by (cases "a = t") auto
    qed simp
    then show ?thesis using t assms(5) by (simp add: e1_def ts_def)
  qed
  have "ps_active (sta_at (clear_limits ts e1) s)" using clear_limits_held(2) [OF h rng] assms(3,4) by (simp add: e1_def)
  then show ?thesis
    using sl(2) assms(6) by (auto simp: Let_def e' q txq_tests rwnx_txq_get_skb_to_push_def rwnx_txq_get_credits_def nat_le_iff)
qed

lemma interrupted_service_releases_queue_witness:
  "fst (rwnx_txq_get_skb_to_push (txq_at (rwnx_ps_bh_traffic_req 0 PS_SP_INTERRUPTED UAPSD_ID demo_ps) 0)) = [7, 9] \<and>
   fst (rwnx_txq_get_skb_to_push (txq_at demo_ps 0)) = [7]"
proof -
  have d: "0 < length (stas demo_ps)" "ps_active (sta_at demo_ps 0)" "0 \<in> set (sta_txqs demo_ps 0)"
    "rwnx_txq_is_scheduled (txq_at demo_ps 0)" "credits (txq_at demo_ps 0) = 64"
    "fst (rwnx_txq_get_skb_to_push (txq_at demo_ps 0)) = [7]" by code_simp+
  show ?thesis
    using interrupted_service_releases_queue [OF demo_ps_run demo_config d(1-4)] d(5,6) demo_ps_queue by (simp add: Let_def)
qed

text \<open>The credits of a queue are only ever incremented (\<open>rwnx_tx_retry\<close>; the decrement of \<open>rwnx_tx_push\<close> is compiled out):
  when a packet is retried on a queue with 127 credits the signed octet becomes -128 and the next
  \<open>rwnx_hwq_process\<close> of the queue stops in \<open>BUG_ON(txq->credits <= 0)\<close>.\<close>

theorem retry_credit_overflow:
  assumes "t < length (txqs e)" "txq_idx (txq_at e t) \<noteq> TXQ_INACTIVE" "\<not> rwnx_txq_is_stopped (txq_at e t)"
    "credits (txq_at e t) = 127" "txq_hwq (txq_at e t) < length (hwqs e)"
    "hwq_list (hwq_at e (txq_hwq (txq_at e t))) = (if rwnx_txq_is_scheduled (txq_at e t) then [t] else [])"
  shows "rwnx_hwq_process (txq_hwq (txq_at e t)) (rwnx_tx_retry skb t e) = Tx_bug"
proof -
  let ?h = "txq_hwq (txq_at e t)"
  define e1 where "e1 = upd_txq t (\<lambda>q. q\<lparr>credits := credits q + 1\<rparr>) e"
  have q1: "txq_at e1 t = (txq_at e t)\<lparr>credits := 128\<rparr>" "t < length (txqs e1)" using assms(1,4) by (simp_all add: e1_def)
  have neg: "sint (128 :: 8 word) \<le> 0" by simp
  have e: "rwnx_tx_retry skb t e = fst (rwnx_txq_queue_skb skb t True e1)"
    using neg by (simp add: rwnx_tx_retry_def Let_def flip: e1_def) (simp add: q1)
  define e2 where "e2 = rwnx_tx_retry skb t e"
  have q2: "txq_at e2 t = q_queue skb True (txq_at e1 t)" using q1(2) by (simp add: e2_def e queue_skb_effect)
  have b: "sched (txq_at e2 t)" "\<not> inactive (txq_at e2 t)" "credits (txq_at e2 t) = 128"
    using assms(2,3) by (simp_all add: q2 q1 q_queue_bits txq_tests)
  have "hwq_list (hwq_at e2 ?h) = [t]"
    using assms(3,5,6) q1
    by (auto simp: e2_def e rwnx_txq_queue_skb_def Let_def rwnx_txq_add_to_hw_list_def status_tests txq_tests q_flow_bits e1_def)
  then show ?thesis
    using b neg assms(5) by (simp add: rwnx_hwq_process_def Let_def status_tests flip: e2_def)
qed

definition demo_full_credits :: tx_env where "demo_full_credits = upd_txq 0 (\<lambda>q. q\<lparr>credits := 127\<rparr>) (demo_cfg [7])"

lemma retry_credit_overflow_witness: "rwnx_hwq_process 1 (rwnx_tx_retry 5 0 demo_full_credits) = Tx_bug"
proof -
  have d: "0 < length (txqs demo_full_credits)" "txq_idx (txq_at demo_full_credits 0) \<noteq> TXQ_INACTIVE"
    "\<not> rwnx_txq_is_stopped (txq_at demo_full_credits 0)" "credits (txq_at demo_full_credits 0) = 127"
    "txq_hwq (txq_at demo_full_credits 0) = 1" "length (hwqs demo_full_credits) = 4"
    "hwq_list (hwq_at demo_full_credits 1) = [0]" "rwnx_txq_is_scheduled (txq_at demo_full_credits 0)" by code_simp+
  show ?thesis using retry_credit_overflow [OF d(1-4), of 5] d(5-8) by simp
qed

subsection \<open>Numbering and flow control\<close>

text \<open>Who a queue is for: a remote station and TID (8 for management), an interface and queue type, or off-channel frames.\<close>

datatype txq_owner = Own_sta nat nat | Own_vif nat nat | Own_offchan

fun owner_txq :: "nat \<Rightarrow> nat \<Rightarrow> txq_owner \<Rightarrow> nat" where
  "owner_txq n vif_idx (Own_sta s tid) = rwnx_txq_sta_get n s vif_idx tid"
| "owner_txq n vif_idx (Own_vif v type) = rwnx_txq_vif_get n v type"
| "owner_txq n vif_idx Own_offchan = NX_OFF_CHAN_TXQ_IDX n"

definition txq_owners :: "nat \<Rightarrow> txq_owner set" where
  "txq_owners n = {Own_sta s tid | s tid. s < n \<and> tid < NX_NB_TXQ_PER_STA} \<union>
     {Own_vif v type | v type. v < NX_VIRT_DEV_MAX \<and> type \<le> NX_UNK_TXQ_TYPE} \<union> {Own_offchan}"

lemma owner_txq_eq:
  "s < n \<Longrightarrow> tid < 9 \<Longrightarrow> owner_txq n v (Own_sta s tid) = s * 9 + tid"
  "type \<le> 1 \<Longrightarrow> owner_txq n v (Own_vif w type) = n * 9 + w + type * 4"
  "owner_txq n v Own_offchan = n * 9 + 8"
  by (auto simp: rwnx_txq_sta_get_def rwnx_txq_sta_idx_def is_multicast_sta_def rwnx_txq_vif_get_def rwnx_txq_vif_idx_def nx_defs)

text \<open>The numbering of the queues (\<open>rwnx_txq_sta_idx\<close>, \<open>rwnx_txq_vif_idx\<close>, the \<open>NX_\<close> macros): every queue of the array belongs to
  exactly one owner, no two share one and none is out of bounds; the broadcast station of an
  interface uses the broadcast queue of that interface.\<close>

theorem txq_numbering:
  "bij_betw (owner_txq n vif_idx) (txq_owners n) {..<NX_NB_TXQ n} \<and>
    rwnx_txq_sta_get n (n + k) v tid = rwnx_txq_vif_get n v NX_BCMC_TXQ_TYPE"
proof (rule conjI)
  have range: "owner_txq n vif_idx ` txq_owners n = {..<NX_NB_TXQ n}"
  proof (rule set_eqI)
    fix x
    have "x < NX_NB_TXQ n" if "x \<in> owner_txq n vif_idx ` txq_owners n"
      using that by (auto simp: txq_owners_def owner_txq_eq nx_defs simp del: owner_txq.simps)
    moreover have "x \<in> owner_txq n vif_idx ` txq_owners n" if x: "x < NX_NB_TXQ n"
    proof -
      consider "x < 9 * n" | "9 * n \<le> x" "x < 9 * n + 4" | "9 * n + 4 \<le> x" "x < 9 * n + 8" | "x = 9 * n + 8"
        using x by (force simp: nx_defs)
      then show ?thesis
      proof cases
        case 1
        then have "Own_sta (x div 9) (x mod 9) \<in> txq_owners n" "owner_txq n vif_idx (Own_sta (x div 9) (x mod 9)) = x"
          by (auto simp: txq_owners_def nx_defs owner_txq_eq simp del: owner_txq.simps)
        then show ?thesis by (metis imageI)
      next
        case 2
        then have "Own_vif (x - 9 * n) 0 \<in> txq_owners n" "owner_txq n vif_idx (Own_vif (x - 9 * n) 0) = x"
          by (auto simp: txq_owners_def nx_defs owner_txq_eq simp del: owner_txq.simps)
        then show ?thesis by (metis imageI)
      next
        case 3
        then have "Own_vif (x - 9 * n - 4) 1 \<in> txq_owners n" "owner_txq n vif_idx (Own_vif (x - 9 * n - 4) 1) = x"
          by (auto simp: txq_owners_def nx_defs owner_txq_eq simp del: owner_txq.simps)
        then show ?thesis by (metis imageI)
      next
        case 4
        then show ?thesis by (auto simp: txq_owners_def owner_txq_eq simp del: owner_txq.simps intro!: image_eqI [where x = Own_offchan])
      qed
    qed
    ultimately show "x \<in> owner_txq n vif_idx ` txq_owners n \<longleftrightarrow> x \<in> {..<NX_NB_TXQ n}" by auto
  qed
  have "a = b" if "a \<in> txq_owners n" "b \<in> txq_owners n" "owner_txq n vif_idx a = owner_txq n vif_idx b" for a b
  proof -
    have sta: "s = s' \<and> tid = tid'" if "s * 9 + tid = s' * 9 + tid'" "tid < 9" "tid' < 9" for s s' tid tid' :: nat
      using that by presburger
    have vif: "w = w' \<and> type = type'" if "w + type * 4 = w' + type' * 4" "w < 4" "w' < 4" for w w' type type' :: nat
      using that by presburger
    show ?thesis
      using that by (auto simp: txq_owners_def nx_defs owner_txq_eq simp del: owner_txq.simps dest: sta vif)
  qed
  then show "bij_betw (owner_txq n vif_idx) (txq_owners n) {..<NX_NB_TXQ n}"
    using range by (auto simp: bij_betw_def inj_on_def)
  show "rwnx_txq_sta_get n (n + k) v tid = rwnx_txq_vif_get n v NX_BCMC_TXQ_TYPE"
    by (simp add: rwnx_txq_sta_get_def rwnx_txq_sta_idx_def is_multicast_sta_def rwnx_txq_vif_get_def rwnx_txq_vif_idx_def nx_defs)
qed

text \<open>A station that leaves while its netdev queue is flow controlled takes the only record of it along: when the
  queue is initialised again for the next station of that index the netdev queue is still stopped,
  the flag is clear, and no visit of the queue will wake it.\<close>

theorem deinit_leaves_netdev_stopped:
  assumes "t < length (txqs e)" "ndev_idx (txq_at e t) \<in> set (ndev_stopped e)"
    "ndev_idx (rwnx_txq_init n t st hwq tid sta) = ndev_idx (txq_at e t)" "st AND RWNX_TXQ_NDEV_FLOW_CTRL = 0"
  shows "let e' = upd_txq t (\<lambda>_. rwnx_txq_init n t st hwq tid sta) (rwnx_txq_deinit t e) in
    sk_list (txq_at e' t) = [] \<and> ndev_idx (txq_at e' t) \<in> set (ndev_stopped e') \<and> status (txq_at e' t) AND RWNX_TXQ_NDEV_FLOW_CTRL = 0 \<and>
    (\<forall>h. ndev_stopped (process_txq h t e') = ndev_stopped e')"
proof -
  define e' where "e' = upd_txq t (\<lambda>_. rwnx_txq_init n t st hwq tid sta) (rwnx_txq_deinit t e)"
  have q: "txq_at e' t = rwnx_txq_init n t st hwq tid sta" "t < length (txqs e')" "ndev_stopped e' = ndev_stopped e"
    using assms(1) by (simp_all add: e'_def deinit_effect)
  have f: "\<not> ndev_fc (txq_at e' t)" using assms(4) by (simp add: q status_tests rwnx_txq_init_def)
  have "ndev_stopped (process_txq h t e') = ndev_stopped e'" for h
  proof -
    obtain out rest b where g: "rwnx_txq_get_skb_to_push (txq_at e' t) = (out, rest, b)" by (cases "rwnx_txq_get_skb_to_push (txq_at e' t)")
    define x where "x = abort_service t (leave_or_rotate h t b (fold (rwnx_tx_push t) out (upd_txq t (\<lambda>q. q\<lparr>sk_list := rest\<rparr>) e')))"
    have "txq_at x t = q_abort (q_leave (hwq_size (hwq_at e' h)) b ((q_push ^^ length out) ((txq_at e' t)\<lparr>sk_list := rest\<rparr>)))"
      using q(2) by (simp add: x_def abort_txqs leave_txqs pushes_effect)
    then have "\<not> ndev_fc (txq_at x t)" using f by (auto simp: q_leave_def q_abort_def)
    then have "ndev_stopped (restart_netdev t x) = ndev_stopped x" by (simp add: restart_netdev_def Let_def status_tests)
    then show ?thesis by (simp add: process_txq_def g x_def pushes_effect)
  qed
  then show ?thesis
    unfolding e'_def [symmetric] Let_def using assms(2-4) q by (simp add: rwnx_txq_init_def)
qed

definition demo_flow :: tx_env where "demo_flow = demo_cfg [0..<65]"

lemma deinit_leaves_netdev_stopped_witness:
  "0 \<in> set (ndev_stopped (upd_txq 0 (\<lambda>_. rwnx_txq_init 1 0 0 1 0 (Some 0)) (rwnx_txq_deinit 0 demo_flow)))"
proof -
  have e: "demo_flow = fst (rwnx_txq_queue_skb 64 0 False (demo_cfg [0..<64]))"
  proof -
    have "[0..<65] = [0..<64] @ [64 :: nat]" using upt_Suc_append [of 0 64] by simp
    then show ?thesis unfolding demo_flow_def demo_cfg_def by (simp only: fold_append comp_apply fold_simps)
  qed
  have c: "length (txqs (demo_cfg [0..<64])) = 18" "sk_list (txq_at (demo_cfg [0..<64]) 0) = [0..<64]" using demo_queue [of "[0..<64]"] by auto
  have n: "ndev_idx (txq_at (demo_cfg xs) 0) = 0 \<and> length (txqs (demo_cfg xs)) = 18" for xs
  proof (induction xs rule: rev_induct)
    case (snoc x xs)
    have "demo_cfg (xs @ [x]) = fst (rwnx_txq_queue_skb x 0 False (demo_cfg xs))" by (simp add: demo_cfg_def)
    then show ?case using snoc by (simp add: queue_skb_effect)
  qed (simp add: demo_cfg_def tx_probe_def nx_defs rwnx_txq_init_def NX_STA_NDEV_IDX_def)
  have d: "0 < length (txqs demo_flow)" "ndev_idx (txq_at demo_flow 0) = 0" using n by (simp_all add: demo_flow_def)
  have "0 \<in> set (ndev_stopped demo_flow)"
    using c n [of "[0..<64]"] by (simp add: e rwnx_txq_queue_skb_def Let_def stop_netdev_def enqueue_skb_def RWNX_NDEV_FLOW_CTRL_STOP_def NDEV_NO_TXQ_def)
  then show ?thesis
    using deinit_leaves_netdev_stopped [OF d(1), of 1 0 1 0 "Some 0"] d(2)
    by (simp add: Let_def rwnx_txq_init_def nx_defs NX_STA_NDEV_IDX_def d(1) deinit_effect)
qed

end
