(* ===== verification/Rx_Reorder.thy ===== *)
theory Rx_Reorder
  imports Prelude "HOL-Library.Multiset"
begin

text \<open>
  The receive reordering of \<^verbatim>\<open>aic8800_fdrv/rwnx_rx.c\<close> (block-ack window per station and TID) and the pool
  of receive frames of \<^verbatim>\<open>aicwf_txrxif.c\<close>.  A frame structure is its position in the array \<open>recv_frames\<close>,
  a list of frames is a list of positions in list order, a pointer to a \<open>reord_ctrl\<close> is the position
  of its station in \<open>stas_reord_list\<close> with the TID.  What leaves the component is logged: the buffers
  given to the network stack, with the interface they are attributed to, and the buffers freed.
\<close>

unbundle bit_operations_syntax

subsection \<open>Data\<close>

definition MAX_REORD_RXFRAME :: nat where "MAX_REORD_RXFRAME = 250"
definition AICWF_REORDER_WINSIZE :: u8 where "AICWF_REORDER_WINSIZE = 64"
definition SN_LESS :: "u16 \<Rightarrow> u16 \<Rightarrow> bool" where "SN_LESS a b \<longleftrightarrow> (uint a - uint b) AND 0x800 \<noteq> (0 :: int)"
definition SN_EQUAL :: "u16 \<Rightarrow> u16 \<Rightarrow> bool" where "SN_EQUAL a b \<longleftrightarrow> a = b"
definition ETH_P_PAE :: u16 where "ETH_P_PAE = 0x888E"

text \<open>A buffer: its identity, the memory from \<open>skb->data\<close> on (also past its end) and \<open>skb->len\<close>.\<close>

record sk_buff =
  skb_id :: nat
  skb_mem :: "nat \<Rightarrow> u8"
  skb_len :: u32

record recv_msdu =
  pkt :: "sk_buff option"
  msdu_tid :: u8
  seq_num :: u16
  forward :: u8
  msdu_len :: u32
  rx_data :: "nat \<Rightarrow> u8"

record reord_ctrl =
  enable :: bool
  ind_sn :: u16
  wsize_b :: u8
  reord_list :: "nat list"
  reord_timer :: bool
  reord_timer_work :: bool

record reord_ctrl_info =
  mac_addr :: "u8 list"
  preorder_ctrl :: "reord_ctrl list"

record rx_vif =
  iftype :: nl80211_iftype
  rx_packets :: u32
  rx_bytes :: u32

record rx_priv =
  rwnx_vifs :: "rx_vif list"
  rwnx_vif :: "nat option"
  bus_down :: bool
  recv_frames :: "recv_msdu list"
  rxframes_freequeue :: "nat list"
  stas_reord_list :: "reord_ctrl_info list"
  netif_log :: "(sk_buff \<times> nat) list"
  kfree_log :: "sk_buff list"

text \<open>The accesses outside an array that a frame can cause.\<close>

datatype rx_fault = Tid_out_of_range

definition h_dest :: "sk_buff \<Rightarrow> u8 list" where "h_dest skb = map (skb_mem skb) [0..<6]"
definition h_source :: "sk_buff \<Rightarrow> u8 list" where "h_source skb = map (skb_mem skb) [6..<12]"
definition h_proto :: "sk_buff \<Rightarrow> u16" where
  "h_proto skb = push_bit 8 (ucast (skb_mem skb 12)) OR ucast (skb_mem skb 13)"
definition is_mcast :: "sk_buff \<Rightarrow> bool" where "is_mcast skb \<longleftrightarrow> skb_mem skb 0 AND 0x01 \<noteq> 0"

abbreviation sn :: "rx_priv \<Rightarrow> nat \<Rightarrow> u16" where "sn r f \<equiv> seq_num (recv_frames r ! f)"

definition upd_frame :: "nat \<Rightarrow> (recv_msdu \<Rightarrow> recv_msdu) \<Rightarrow> rx_priv \<Rightarrow> rx_priv" where
  "upd_frame f g r = r\<lparr>recv_frames := (recv_frames r)[f := g (recv_frames r ! f)]\<rparr>"

definition dev_kfree_skb :: "sk_buff \<Rightarrow> rx_priv \<Rightarrow> rx_priv" where
  "dev_kfree_skb skb r = r\<lparr>kfree_log := kfree_log r @ [skb]\<rparr>"

definition get_ctrl :: "rx_priv \<Rightarrow> nat \<Rightarrow> nat \<Rightarrow> reord_ctrl" where
  "get_ctrl r i t = preorder_ctrl (stas_reord_list r ! i) ! t"

definition put_ctrl :: "nat \<Rightarrow> nat \<Rightarrow> reord_ctrl \<Rightarrow> rx_priv \<Rightarrow> rx_priv" where
  "put_ctrl i t c r = r\<lparr>stas_reord_list := (stas_reord_list r)
     [i := (stas_reord_list r ! i)\<lparr>preorder_ctrl := (preorder_ctrl (stas_reord_list r ! i))[t := c]\<rparr>]\<rparr>"

subsection \<open>The pool of frames\<close>

definition aicwf_rxframe_queue_init :: "nat \<Rightarrow> nat list" where
  "aicwf_rxframe_queue_init qsize = fold (\<lambda>i q. i # q) [0..<qsize] []"

definition aicwf_rx_init :: "rx_vif list \<Rightarrow> bool \<Rightarrow> (nat \<Rightarrow> recv_msdu) \<Rightarrow> bool \<Rightarrow> bool \<Rightarrow> rx_priv option" where
  "aicwf_rx_init vifs down garbage kzalloc vmalloc =
     (if \<not> kzalloc \<or> \<not> vmalloc then None
      else Some \<lparr>rwnx_vifs = vifs, rwnx_vif = None, bus_down = down,
        recv_frames = map (\<lambda>i. (garbage i)\<lparr>msdu_len := 0\<rparr>) [0..<MAX_REORD_RXFRAME],
        rxframes_freequeue = aicwf_rxframe_queue_init MAX_REORD_RXFRAME,
        stas_reord_list = [], netif_log = [], kfree_log = []\<rparr>)"

definition reord_rxframe_free :: "nat \<Rightarrow> rx_priv \<Rightarrow> rx_priv" where
  "reord_rxframe_free f r = r\<lparr>rxframes_freequeue := f # rxframes_freequeue r\<rparr>"

definition reord_rxframe_alloc :: "rx_priv \<Rightarrow> (nat \<times> rx_priv) option" where
  "reord_rxframe_alloc r = (case rxframes_freequeue r of [] \<Rightarrow> None | f # q \<Rightarrow> Some (f, r\<lparr>rxframes_freequeue := q\<rparr>))"

text \<open>The pool as its users see it: a multiset of free structures.\<close>

locale frame_pool =
  fixes alloc :: "'s \<Rightarrow> ('f \<times> 's) option" and release :: "'f \<Rightarrow> 's \<Rightarrow> 's" and free :: "'s \<Rightarrow> 'f multiset"
  assumes alloc_none: "alloc s = None \<longleftrightarrow> free s = {#}"
    and alloc_some: "alloc s = Some (f, s') \<Longrightarrow> free s = add_mset f (free s')"
    and free_release: "free (release f s) = add_mset f (free s)"
begin

lemma alloc_release: "alloc s = Some (f, s') \<Longrightarrow> free (release f s') = free s"
  by (simp add: alloc_some free_release)

lemma alloc_size: "alloc s = Some (f, s') \<Longrightarrow> size (free s) = Suc (size (free s'))"
  by (simp add: alloc_some)

text \<open>A user that takes a structure per step and never returns it drains the pool.\<close>

lemma drained:
  assumes "\<And>x s f s'. x \<in> set xs \<Longrightarrow> P s \<Longrightarrow> alloc s = Some (f, s') \<Longrightarrow> free (step x s) = free s'"
    "\<And>x s. x \<in> set xs \<Longrightarrow> P s \<Longrightarrow> alloc s = None \<Longrightarrow> free (step x s) = free s"
    "\<And>x s. x \<in> set xs \<Longrightarrow> P s \<Longrightarrow> P (step x s)" "P s"
  shows "size (free (fold step xs s)) = size (free s) - length xs"
  using assms
proof (induction xs arbitrary: s)
  case (Cons x xs)
  have "size (free (step x s)) = size (free s) - 1"
  proof (cases "alloc s")
    case None
    then show ?thesis using Cons.prems(2,4) by (simp add: alloc_none)
  next
    case (Some fs)
    then obtain f s' where fs: "alloc s = Some (f, s')" by (cases fs) auto
    have "free (step x s) = free s'" using Cons.prems(1,4) fs by simp
    then show ?thesis using alloc_size [OF fs] by simp
  qed
  moreover have "size (free (fold step xs (step x s))) = size (free (step x s)) - length xs"
    using Cons.prems by (intro Cons.IH) auto
  ultimately show ?case by simp
qed simp

end

interpretation rxframes: frame_pool reord_rxframe_alloc reord_rxframe_free "\<lambda>r. mset (rxframes_freequeue r)"
  by unfold_locales (auto simp: reord_rxframe_alloc_def reord_rxframe_free_def split: list.splits)

subsection \<open>Stations\<close>

definition reord_ctrl_init :: reord_ctrl where
  "reord_ctrl_init = \<lparr>enable = True, ind_sn = 0xffff, wsize_b = AICWF_REORDER_WINSIZE, reord_list = [],
     reord_timer = False, reord_timer_work = False\<rparr>"

definition reord_init_sta :: "bool \<Rightarrow> rx_priv \<Rightarrow> u8 list \<Rightarrow> reord_ctrl_info option" where
  "reord_init_sta kmalloc r mac =
     (if bus_down r \<or> \<not> kmalloc then None
      else Some \<lparr>mac_addr = mac, preorder_ctrl = replicate 8 reord_ctrl_init\<rparr>)"

fun reord_sta_index :: "u8 list \<Rightarrow> reord_ctrl_info list \<Rightarrow> nat option" where
  "reord_sta_index mac [] = None"
| "reord_sta_index mac (s # ss) = (if mac_addr s = mac then Some 0 else map_option Suc (reord_sta_index mac ss))"

text \<open>The address that identifies the station in a frame, by the type of the interface.\<close>

definition reord_mac :: "nl80211_iftype \<Rightarrow> sk_buff \<Rightarrow> u8 list option" where
  "reord_mac ty skb =
     (if ty = NL80211_IFTYPE_STATION \<or> ty = NL80211_IFTYPE_P2P_CLIENT then Some (h_dest skb)
      else if ty = NL80211_IFTYPE_AP \<or> ty = NL80211_IFTYPE_P2P_GO then Some (h_source skb)
      else None)"

definition cur_iftype :: "rx_priv \<Rightarrow> nl80211_iftype" where
  "cur_iftype r = iftype (rwnx_vifs r ! the (rwnx_vif r))"

subsection \<open>Delivery\<close>

definition netif_receive :: "sk_buff \<Rightarrow> recv_msdu \<Rightarrow> rx_priv \<Rightarrow> rx_priv" where
  "netif_receive skb m r = (let v = the (rwnx_vif r) in
     r\<lparr>rwnx_vifs := (rwnx_vifs r)[v := (rwnx_vifs r ! v)\<lparr>rx_packets := rx_packets (rwnx_vifs r ! v) + 1,
          rx_bytes := rx_bytes (rwnx_vifs r ! v) + msdu_len m\<rparr>],
       netif_log := netif_log r @ [(skb\<lparr>skb_mem := rx_data m, skb_len := msdu_len m\<rparr>, v)]\<rparr>)"

definition reord_single_frame_ind :: "nat \<Rightarrow> rx_priv \<Rightarrow> rx_priv \<times> int" where
  "reord_single_frame_ind f r = (case pkt (recv_frames r ! f) of
     None \<Rightarrow> (r, -1)
   | Some skb \<Rightarrow>
       if forward (recv_frames r ! f) = 0
       then (reord_rxframe_free f (upd_frame f (\<lambda>m. m\<lparr>pkt := None\<rparr>) (dev_kfree_skb skb r)), 0)
       else (reord_rxframe_free f (upd_frame f (\<lambda>m. m\<lparr>pkt := None\<rparr>) (netif_receive skb (recv_frames r ! f) r)), 0))"

text \<open>A frame whose buffer is dropped.\<close>

definition reord_drop_frame :: "nat \<Rightarrow> rx_priv \<Rightarrow> rx_priv" where
  "reord_drop_frame f r = (case pkt (recv_frames r ! f) of
     None \<Rightarrow> reord_rxframe_free f r
   | Some skb \<Rightarrow> reord_rxframe_free f (upd_frame f (\<lambda>m. m\<lparr>pkt := None\<rparr>) (dev_kfree_skb skb r)))"

text \<open>The window moves over the frames of the list that are in order.\<close>

fun reord_process_loop :: "rx_priv \<Rightarrow> u16 \<Rightarrow> nat list \<Rightarrow> u16 \<times> bool" where
  "reord_process_loop r ind [] = (ind, False)"
| "reord_process_loop r ind (f # fs) =
     (if \<not> SN_LESS ind (sn r f)
      then reord_process_loop r (if SN_EQUAL ind (sn r f) then (ind + 1) AND 0xFFF else ind) fs
      else (ind, True))"

definition reord_rxframes_process :: "rx_priv \<Rightarrow> reord_ctrl \<Rightarrow> bool \<Rightarrow> reord_ctrl \<times> bool" where
  "reord_rxframes_process r c bforced =
     (if reord_list c = [] then (c, False)
      else let ind = (if bforced then sn r (hd (reord_list c)) else ind_sn c);
               (ind', in_buf) = reord_process_loop r ind (reord_list c)
           in (c\<lparr>ind_sn := ind'\<rparr>, in_buf))"

fun reord_ind_loop :: "u16 \<Rightarrow> nat list \<Rightarrow> rx_priv \<Rightarrow> nat list \<times> rx_priv" where
  "reord_ind_loop ind [] r = ([], r)"
| "reord_ind_loop ind (f # fs) r =
     (if \<not> SN_LESS ind (sn r f) then reord_ind_loop ind fs (fst (reord_single_frame_ind f r)) else (f # fs, r))"

definition reord_rxframes_ind :: "reord_ctrl \<Rightarrow> rx_priv \<Rightarrow> reord_ctrl \<times> rx_priv" where
  "reord_rxframes_ind c r = (let (fs, r') = reord_ind_loop (ind_sn c) (reord_list c) r in (c\<lparr>reord_list := fs\<rparr>, r'))"

subsection \<open>The reception of a frame\<close>

definition reord_need_check :: "reord_ctrl \<Rightarrow> u16 \<Rightarrow> reord_ctrl \<times> int" where
  "reord_need_check c seq =
     (let wsize = uint (wsize_b c);
          wend = word_of_int ((uint (ind_sn c) + wsize - 1) AND 0xFFF) :: u16;
          c = (if ind_sn c = 0xFFFF then c\<lparr>ind_sn := seq\<rparr> else c)
      in if SN_LESS seq (ind_sn c) then (c, -1)
         else if SN_EQUAL seq (ind_sn c) then (c\<lparr>ind_sn := (ind_sn c + 1) AND 0xFFF\<rparr>, 0)
         else if SN_LESS wend seq
           then if wsize - 1 \<le> uint seq then (c\<lparr>ind_sn := word_of_int (uint seq - (wsize - 1))\<rparr>, 0)
                else (c\<lparr>ind_sn := word_of_int (0xFFF - (wsize - (uint seq + 1)) + 1)\<rparr>, 0)
         else (c, 0))"

fun reord_insert :: "rx_priv \<Rightarrow> nat \<Rightarrow> nat list \<Rightarrow> nat list option" where
  "reord_insert r f [] = Some [f]"
| "reord_insert r f (g # gs) =
     (if SN_LESS (sn r g) (sn r f) then map_option ((#) g) (reord_insert r f gs)
      else if SN_EQUAL (sn r g) (sn r f) then None
      else Some (f # g # gs))"

definition reord_rxframe_enqueue :: "rx_priv \<Rightarrow> reord_ctrl \<Rightarrow> nat \<Rightarrow> reord_ctrl option" where
  "reord_rxframe_enqueue r c f = map_option (\<lambda>fs. c\<lparr>reord_list := fs\<rparr>) (reord_insert r f (reord_list c))"

text \<open>A frame that is older than the window: RTP packets are dropped, others delivered at once.\<close>

definition reord_late_frame :: "nat \<Rightarrow> u16 \<Rightarrow> rx_priv \<Rightarrow> rx_priv" where
  "reord_late_frame f ind r =
     (if rx_data (recv_frames r ! f) 42 = 0x80
      then if sn r f = ind then fst (reord_single_frame_ind f r) else reord_drop_frame f r
      else fst (reord_single_frame_ind f r))"

definition reord_set_timer :: "bool \<Rightarrow> reord_ctrl \<Rightarrow> reord_ctrl" where
  "reord_set_timer in_buf c = c\<lparr>reord_timer := in_buf\<rparr>"

text \<open>The part of \<open>reord_process_unit\<close> after the station is found.\<close>

definition reord_ctrl_unit :: "nat \<Rightarrow> nat \<Rightarrow> nat \<Rightarrow> rx_priv \<Rightarrow> rx_priv" where
  "reord_ctrl_unit f i t r = (let c = get_ctrl r i t in
     if \<not> enable c
     then put_ctrl i t (c\<lparr>ind_sn := word_of_int ((uint (sn r f) + 1) mod 4096)\<rparr>) (fst (reord_single_frame_ind f r))
     else let (c, late) = reord_need_check c (sn r f) in
       if late \<noteq> 0 then reord_late_frame f (ind_sn c) (put_ctrl i t c r)
       else case reord_rxframe_enqueue r c f of
         None \<Rightarrow> reord_drop_frame f (put_ctrl i t c r)
       | Some c \<Rightarrow>
           let (c, in_buf) = reord_rxframes_process r c False;
               (c, r) = reord_rxframes_ind (reord_set_timer in_buf c) r
           in put_ctrl i t c r)"

text \<open>The station of a frame, created when it is new, and its window, enabled again when it had been flushed.\<close>

definition reord_get_sta :: "bool \<Rightarrow> u8 list \<Rightarrow> rx_priv \<Rightarrow> (nat \<times> rx_priv) option" where
  "reord_get_sta kmalloc mac r = (case reord_sta_index mac (stas_reord_list r) of
     Some i \<Rightarrow> Some (i, r)
   | None \<Rightarrow> map_option (\<lambda>s. (length (stas_reord_list r), r\<lparr>stas_reord_list := stas_reord_list r @ [s]\<rparr>))
       (reord_init_sta kmalloc r mac))"

definition reord_reenable :: "nat \<Rightarrow> nat \<Rightarrow> rx_priv \<Rightarrow> rx_priv" where
  "reord_reenable i t r = (let c = get_ctrl r i t in
     if enable c then r
     else put_ctrl i t (c\<lparr>enable := True, ind_sn := 0xffff, wsize_b := AICWF_REORDER_WINSIZE\<rparr>) r)"

definition fill_frame :: "sk_buff \<Rightarrow> u16 \<Rightarrow> u8 \<Rightarrow> u8 \<Rightarrow> recv_msdu" where
  "fill_frame skb seq tid fwd = \<lparr>pkt = Some skb, msdu_tid = tid, seq_num = seq, forward = fwd, msdu_len = skb_len skb,
     rx_data = skb_mem skb\<rparr>"

text \<open>\<open>reord_process_unit\<close>, from the frame structure on and as a whole.\<close>

definition reord_process_frame :: "bool \<Rightarrow> sk_buff \<Rightarrow> u8 \<Rightarrow> nat \<Rightarrow> rx_priv \<Rightarrow> rx_fault + (rx_priv \<times> int)" where
  "reord_process_frame kmalloc skb tid f r =
     (if h_proto skb = ETH_P_PAE \<or> is_mcast skb then Inr (reord_single_frame_ind f r)
      else case reord_mac (cur_iftype r) skb of
        None \<Rightarrow> Inr (dev_kfree_skb skb r, -1)
      | Some mac \<Rightarrow> (case reord_get_sta kmalloc mac r of
            None \<Rightarrow> Inr (dev_kfree_skb skb r, -1)
          | Some (i, r) \<Rightarrow>
              if 8 \<le> unat tid then Inl Tid_out_of_range
              else Inr (reord_ctrl_unit f i (unat tid) (reord_reenable i (unat tid) r), 0)))"

definition reord_process_unit :: "bool \<Rightarrow> sk_buff \<Rightarrow> u16 \<Rightarrow> u8 \<Rightarrow> u8 \<Rightarrow> rx_priv \<Rightarrow> rx_fault + (rx_priv \<times> int)" where
  "reord_process_unit kmalloc skb seq tid fwd r =
     (if rwnx_vif r = None \<or> skb_len skb \<le> 14 then Inr (dev_kfree_skb skb r, -1)
      else case reord_rxframe_alloc r of
        None \<Rightarrow> Inr (dev_kfree_skb skb r, -1)
      | Some (f, r) \<Rightarrow> reord_process_frame kmalloc skb tid f (upd_frame f (\<lambda>_. fill_frame skb seq tid fwd) r))"

subsection \<open>Timer, flush and removal\<close>

definition upd_ctrl :: "nat \<Rightarrow> nat \<Rightarrow> (reord_ctrl \<Rightarrow> reord_ctrl) \<Rightarrow> rx_priv \<Rightarrow> rx_priv" where
  "upd_ctrl i t g r = put_ctrl i t (g (get_ctrl r i t)) r"

text \<open>The timer expires and leaves the rest to the work item.\<close>

definition reord_timeout_handler :: "nat \<Rightarrow> nat \<Rightarrow> rx_priv \<Rightarrow> rx_priv" where
  "reord_timeout_handler i t = upd_ctrl i t (\<lambda>c. c\<lparr>reord_timer := False, reord_timer_work := True\<rparr>)"

definition reord_timeout_worker :: "nat \<Rightarrow> nat \<Rightarrow> rx_priv \<Rightarrow> rx_priv" where
  "reord_timeout_worker i t r =
     (let c = (get_ctrl r i t)\<lparr>reord_timer_work := False\<rparr>;
          (c, in_buf) = reord_rxframes_process r c True;
          (c, r) = reord_rxframes_ind (if in_buf then c\<lparr>reord_timer := True\<rparr> else c) r
      in put_ctrl i t c r)"

definition reord_cancel :: "reord_ctrl \<Rightarrow> reord_ctrl" where
  "reord_cancel c = c\<lparr>reord_list := [], reord_timer := False, reord_timer_work := False\<rparr>"

definition reord_flush_tid :: "sk_buff \<Rightarrow> u8 \<Rightarrow> rx_priv \<Rightarrow> rx_fault + (rx_priv \<times> int)" where
  "reord_flush_tid skb tid r = (case reord_mac (cur_iftype r) skb of
     None \<Rightarrow> Inr (dev_kfree_skb skb r, -1)
   | Some mac \<Rightarrow> (case reord_sta_index mac (stas_reord_list r) of
       None \<Rightarrow> Inr (r, 0)
     | Some i \<Rightarrow>
         if 8 \<le> unat tid then Inl Tid_out_of_range
         else let t = unat tid; c = get_ctrl r i t in
           if \<not> enable c then Inr (r, 0)
           else Inr (put_ctrl i t (reord_cancel c\<lparr>enable := False\<rparr>)
             (fold (\<lambda>f r. fst (reord_single_frame_ind f r)) (reord_list c) r), 0)))"

definition reord_deinit_sta :: "nat \<Rightarrow> rx_priv \<Rightarrow> rx_priv" where
  "reord_deinit_sta i r = (let s = stas_reord_list r ! i;
       r = fold (\<lambda>c r. fold reord_drop_frame (reord_list c) r) (preorder_ctrl s) r
     in r\<lparr>stas_reord_list := take i (stas_reord_list r) @ drop (Suc i) (stas_reord_list r)\<rparr>)"

text \<open>A station leaves (\<open>rwnx_cfg80211_del_station\<close>, \<open>rwnx_rx_sm_disconnect_ind\<close>): its entry is found by its address.\<close>

definition reord_del_sta :: "u8 list \<Rightarrow> rx_priv \<Rightarrow> rx_priv" where
  "reord_del_sta mac r = (case reord_sta_index mac (stas_reord_list r) of None \<Rightarrow> r | Some i \<Rightarrow> reord_deinit_sta i r)"

definition reord_deinit_all :: "rx_priv \<Rightarrow> rx_priv" where
  "reord_deinit_all r = (reord_deinit_sta 0 ^^ length (stas_reord_list r)) r"

end
