(* ===== verification/Rx_Window.thy ===== *)
theory Rx_Window
  imports Rx_Reorder
begin

text \<open>
  What the reordering promises: a window over unbounded sequence numbers that delivers in order.
  The abstract window is a start and a finite map from numbers to frames; the driver keeps the start
  modulo 4096 in \<open>ind_sn\<close> and the frames in a list sorted by the circular comparison \<open>SN_LESS\<close>.
  The lemmas carry the loops of the code over to the numbers and end in a simulation of
  \<open>reord_ctrl_unit\<close> and \<open>reord_timeout_worker\<close>.
\<close>

subsection \<open>The abstract window\<close>

definition first_missing :: "nat \<Rightarrow> (nat \<rightharpoonup> nat) \<Rightarrow> nat" where
  "first_missing n H = (LEAST m. n \<le> m \<and> H m = None)"

definition window_release :: "nat \<Rightarrow> (nat \<rightharpoonup> nat) \<Rightarrow> nat \<times> (nat \<rightharpoonup> nat) \<times> nat list" where
  "window_release n H = (let n' = first_missing n H in
     (n', H |` {n'..}, map (the \<circ> H) (sorted_list_of_set {k \<in> dom H. k < n'})))"

datatype verdict = Late | Duplicate | Accepted nat "nat \<rightharpoonup> nat" "nat list"

definition window_recv :: "nat \<Rightarrow> nat \<Rightarrow> nat \<Rightarrow> nat \<Rightarrow> (nat \<rightharpoonup> nat) \<Rightarrow> verdict" where
  "window_recv wsize s f n H =
     (if s < n then Late
      else if s \<in> dom H then Duplicate
      else case window_release (max n (s + 1 - wsize)) (H(s \<mapsto> f)) of (n', H', fs) \<Rightarrow> Accepted n' H' fs)"

text \<open>The driver's sequence number of a position, and its window as a view of the abstract one.\<close>

definition seq16 :: "nat \<Rightarrow> u16" where "seq16 k = word_of_nat (k mod 4096)"

definition window_ok :: "nat \<Rightarrow> (nat \<rightharpoonup> nat) \<Rightarrow> reord_ctrl \<Rightarrow> rx_priv \<Rightarrow> bool" where
  "window_ok n H c r \<longleftrightarrow> enable c \<and> wsize_b c = AICWF_REORDER_WINSIZE \<and> ind_sn c = seq16 n \<and>
     finite (dom H) \<and> dom H \<subseteq> {n<..<n + 64} \<and>
     reord_list c = map (the \<circ> H) (sorted_list_of_set (dom H)) \<and>
     (\<forall>k \<in> dom H. sn r (the (H k)) = seq16 k)"

definition deliver :: "nat list \<Rightarrow> rx_priv \<Rightarrow> rx_priv" where
  "deliver fs r = fold (\<lambda>f r. fst (reord_single_frame_ind f r)) fs r"

subsection \<open>Comparisons\<close>

lemma circ_diff: "(x mod 4096 - y mod 4096) mod 4096 = (if x < y then x - y + 4096 else x - y)"
  if "x < y + 4096" "y \<le> x + 4096" for x y :: int
proof -
  have "(x - y) mod 4096 = (if x < y then x - y + 4096 else x - y)"
  proof (cases "x < y")
    case True
    then have "(x - y + 4096) mod 4096 = x - y + 4096" using that by (intro mod_pos_pos_trivial) auto
    then show ?thesis using True by (simp only: mod_add_self2 if_True)
  next
    case False
    then have "(x - y) mod 4096 = x - y" using that by (intro mod_pos_pos_trivial) auto
    then show ?thesis using False by simp
  qed
  then show ?thesis by (simp only: mod_diff_eq)
qed

lemma SN_LESS_iff: "SN_LESS a b \<longleftrightarrow> 2048 \<le> (uint a - uint b) mod 4096"
proof -
  have "x AND 0x800 \<noteq> (0 :: int) \<longleftrightarrow> 2048 \<le> x mod 4096" for x :: int
  proof -
    have "x AND 0x800 \<noteq> 0 \<longleftrightarrow> bit x 11" using and_exp_eq_0_iff_not_bit [of x 11] by simp
    also have "\<dots> \<longleftrightarrow> x div 2048 mod 2 = 1" by (simp add: bit_iff_odd odd_iff_mod_2_eq_one)
    also have "\<dots> \<longleftrightarrow> 2048 \<le> x mod 4096"
    proof -
      have "x mod 4096 = 2048 * (x div 2048 mod 2) + x mod 2048" using zmod_zmult2_eq [of 2 x 2048] by simp
      moreover have "0 \<le> x mod 2048" "x mod 2048 < 2048" "x div 2048 mod 2 = 0 \<or> x div 2048 mod 2 = 1" by auto
      ultimately show ?thesis by auto
    qed
    finally show ?thesis .
  qed
  then show ?thesis by (simp add: SN_LESS_def)
qed

lemma uint_seq16 [simp]: "uint (seq16 k) = int k mod 4096"
proof -
  have "k mod 4096 mod 65536 = k mod 4096" using mod_less_divisor [of 4096 k] by (intro mod_less) linarith
  then show ?thesis unfolding seq16_def by (simp add: unsigned_of_nat take_bit_eq_mod of_nat_mod flip: of_nat_mod [of _ 65536])
qed

lemma seq16_less: "a < b + 2048 \<Longrightarrow> b < a + 2048 \<Longrightarrow> SN_LESS (seq16 a) (seq16 b) \<longleftrightarrow> a < b"
  by (subst SN_LESS_iff, subst uint_seq16, subst uint_seq16, subst circ_diff) auto

lemma seq16_late: "s < n \<Longrightarrow> n \<le> s + 2048 \<Longrightarrow> SN_LESS (seq16 s) (seq16 n)"
  by (subst SN_LESS_iff, subst uint_seq16, subst uint_seq16, subst circ_diff) auto

lemma seq16_eq: "a < b + 4096 \<Longrightarrow> b < a + 4096 \<Longrightarrow> SN_EQUAL (seq16 a) (seq16 b) \<longleftrightarrow> a = b"
proof -
  assume *: "a < b + 4096" "b < a + 4096"
  have "SN_EQUAL (seq16 a) (seq16 b) \<longleftrightarrow> int a mod 4096 = int b mod 4096" by (metis uint_seq16 word_uint_eq_iff SN_EQUAL_def)
  also have "\<dots> \<longleftrightarrow> (int a mod 4096 - int b mod 4096) mod 4096 = 0" by (simp add: mod_diff_eq mod_eq_dvd_iff mod_0_imp_dvd dvd_eq_mod_eq_0)
  also have "\<dots> \<longleftrightarrow> a = b" using * by (subst circ_diff) auto
  finally show ?thesis .
qed

lemma seq16_Suc: "(seq16 k + 1) AND 0xFFF = seq16 (Suc k)"
proof -
  have "0 \<le> int k mod 4096" "int k mod 4096 < 4096" by auto
  then have "uint (seq16 k + 1) = int k mod 4096 + 1" by (simp add: uint_word_ariths)
  then have "uint ((seq16 k + 1) AND 0xFFF) = uint (seq16 (Suc k))"
    by (simp only: word_and_masks unsigned_take_bit_eq) (simp add: take_bit_eq_mod mod_simps add.commute)
  then show ?thesis by (simp only: word_uint_eq_iff)
qed

lemma seq16_neq_ffff [simp]: "seq16 k \<noteq> 0xFFFF"
proof
  assume "seq16 k = 0xFFFF"
  then have "uint (seq16 k) = uint (0xFFFF :: u16)" by (rule arg_cong)
  moreover have "int k mod 4096 < 4096" by simp
  ultimately show False by simp
qed

subsection \<open>The loops of the code\<close>

text \<open>The window start after the loop of \<open>reord_rxframes_process\<close>, on the numbers of the list.\<close>

fun advance :: "nat \<Rightarrow> nat list \<Rightarrow> nat" where
  "advance m [] = m"
| "advance m (k # ks) = (if k \<le> m then advance (if k = m then Suc m else m) ks else m)"

lemma advance_ge: "m \<le> advance m ks"
proof (induction m ks rule: advance.induct)
  case (2 m k ks)
  then show ?case by (cases "k = m") auto
qed simp

lemma advance_filled: "m \<le> j \<Longrightarrow> j < advance m ks \<Longrightarrow> j \<in> set ks"
proof (induction m ks rule: advance.induct)
  case (2 m k ks)
  then show ?case by (cases "k \<le> m"; cases "k = m"; cases "j = m") auto
qed simp

lemma advance_gap: "sorted_wrt (<) ks \<Longrightarrow> advance m ks \<notin> set ks"
proof (induction m ks rule: advance.induct)
  case (2 m k ks)
  have "m \<le> advance m ks" "Suc m \<le> advance (Suc m) ks" by (rule advance_ge)+
  then show ?case using 2 by (cases "k \<le> m"; cases "k = m") auto
qed simp

lemma advance_first_missing:
  "finite (dom H) \<Longrightarrow> advance m (sorted_list_of_set (dom H)) = first_missing m H"
  unfolding first_missing_def
  by (intro Least_equality [symmetric] conjI)
    (use advance_gap [of "sorted_list_of_set (dom H)" m] advance_filled [of m _ "sorted_list_of_set (dom H)"] advance_ge in
      \<open>auto simp: not_less [symmetric]\<close>)

text \<open>Circular comparison is comparison as long as the numbers span less than half the circle.\<close>

lemma process_loop_advance:
  assumes "\<forall>k \<in> set ks. sn r (g k) = seq16 k" "set ks \<subseteq> {lo..<lo + 2047}" "m \<in> {lo..lo + 2047}"
  shows "reord_process_loop r (seq16 m) (map g ks) = (seq16 (advance m ks), \<exists>k \<in> set ks. advance m ks < k)"
  using assms
proof (induction ks arbitrary: m)
  case (Cons k ks)
  then have less: "SN_LESS (seq16 m) (sn r (g k)) \<longleftrightarrow> m < k" and eq: "SN_EQUAL (seq16 m) (sn r (g k)) \<longleftrightarrow> m = k"
    by (auto simp: seq16_less seq16_eq)
  show ?case
  proof (cases "m < k")
    case True
    then show ?thesis by (auto simp: less)
  next
    case False
    define m' where "m' = (if k = m then Suc m else m)"
    have "k < m'" "m' \<le> advance m' ks" "m' \<in> {lo..lo + 2047}" using False advance_ge [of m' ks] Cons.prems(2,3) by (auto simp: m'_def)
    moreover have "(if SN_EQUAL (seq16 m) (sn r (g k)) then (seq16 m + 1) AND 0xFFF else seq16 m) = seq16 m'"
      by (simp add: eq seq16_Suc m'_def)
    moreover have "reord_process_loop r (seq16 m') (map g ks) = (seq16 (advance m' ks), \<exists>k \<in> set ks. advance m' ks < k)"
      using Cons.prems(1,2) \<open>m' \<in> _\<close> by (intro Cons.IH) auto
    moreover have "advance m (k # ks) = advance m' ks" using False by (simp add: m'_def)
    ultimately show ?thesis using False by (simp add: less del: advance.simps)
  qed
qed simp

lemma deliver_simps [simp]: "deliver [] r = r" "deliver (f # fs) r = deliver fs (fst (reord_single_frame_ind f r))"
  by (simp_all add: deliver_def)

lemma frames_upd_seq: "seq_num ((fs[f := (fs ! f)\<lparr>pkt := p\<rparr>]) ! g) = seq_num (fs ! g)"
  by (cases "f < length fs") (auto simp: nth_list_update list_update_beyond)

lemma single_frame_sn [simp]: "sn (fst (reord_single_frame_ind f r)) g = sn r g"
  by (auto simp: reord_single_frame_ind_def reord_rxframe_free_def upd_frame_def dev_kfree_skb_def
    netif_receive_def Let_def frames_upd_seq split: option.splits)

lemma deliver_sn [simp]: "sn (deliver fs r) g = sn r g"
  by (induction fs arbitrary: r) simp_all

lemma ind_loop_release:
  assumes "\<forall>k \<in> set ks. sn r (g k) = seq16 k" "set ks \<subseteq> {lo..<lo + 2047}" "m \<in> {lo..lo + 2047}"
  shows "reord_ind_loop (seq16 m) (map g ks) r =
    (map g (dropWhile (\<lambda>k. k \<le> m) ks), deliver (map g (takeWhile (\<lambda>k. k \<le> m) ks)) r)"
  using assms
proof (induction ks arbitrary: r)
  case (Cons k ks)
  then have "SN_LESS (seq16 m) (sn r (g k)) \<longleftrightarrow> m < k" by (auto simp: seq16_less)
  then show ?case using Cons by (auto simp: not_less)
qed simp

lemma insert_sorted:
  assumes "\<forall>k \<in> set ks. sn r (g k) = seq16 k" "sn r f = seq16 s" "set ks \<union> {s} \<subseteq> {lo..lo + 2047}" "sorted_wrt (<) ks"
  shows "reord_insert r f (map g ks) = (if s \<in> set ks then None else Some (map (g(s := f)) (insort s ks)))"
  using assms(1,3,4)
proof (induction ks)
  case (Cons k ks)
  then have "SN_LESS (sn r (g k)) (sn r f) \<longleftrightarrow> k < s" "SN_EQUAL (sn r (g k)) (sn r f) \<longleftrightarrow> k = s"
    by (auto simp: seq16_less seq16_eq assms(2))
  then show ?case using Cons by auto
qed simp

subsection \<open>Release\<close>

lemma takeWhile_sorted: "sorted_wrt (<) ks \<Longrightarrow> takeWhile (\<lambda>k. k \<le> m) ks = filter (\<lambda>k. k \<le> m) ks" for m :: nat
  by (induction ks) (auto intro!: filter_False [symmetric])

lemma dropWhile_sorted: "sorted_wrt (<) ks \<Longrightarrow> dropWhile (\<lambda>k. k \<le> m) ks = filter (\<lambda>k. m < k) ks" for m :: nat
  by (induction ks) (auto simp: not_le intro!: filter_True [symmetric])

lemma filter_sorted_list_of_set: "finite A \<Longrightarrow> filter P (sorted_list_of_set A) = sorted_list_of_set {k \<in> A. P k}"
  for A :: "nat set"
  by (rule sorted_distinct_set_unique) (auto simp: sorted_wrt_filter)

lemma first_missing_props:
  assumes "finite (dom H)"
  shows "n \<le> first_missing n H" "H (first_missing n H) = None" "n \<le> k \<Longrightarrow> k < first_missing n H \<Longrightarrow> k \<in> dom H"
proof -
  note eq = advance_first_missing [OF assms, of n, symmetric]
  have "first_missing n H \<notin> dom H" using advance_gap [of "sorted_list_of_set (dom H)" n] assms by (simp add: eq)
  then show "H (first_missing n H) = None" by auto
  show "n \<le> first_missing n H" by (simp add: eq advance_ge)
  show "n \<le> k \<Longrightarrow> k < first_missing n H \<Longrightarrow> k \<in> dom H"
    using advance_filled [of n k "sorted_list_of_set (dom H)"] assms by (simp add: eq)
qed

lemma process_release:
  assumes "reord_list c = map (the \<circ> H) (sorted_list_of_set (dom H))" "finite (dom H)" "dom H \<subseteq> {lo..<lo + 2047}"
    "\<forall>k \<in> dom H. sn r (the (H k)) = seq16 k" "ind_sn c = seq16 n" "n \<in> {lo..lo + 2047}"
    "enable c" "wsize_b c = AICWF_REORDER_WINSIZE" "dom H \<subseteq> {..<n + 64}" "window_release n H = (n', H', fs)"
  obtains c' where "reord_rxframes_process r c False = (c\<lparr>ind_sn := seq16 n'\<rparr>, dom H' \<noteq> {})"
    "\<And>t w. reord_rxframes_ind (c\<lparr>ind_sn := seq16 n', reord_timer := t, reord_timer_work := w\<rparr>) r
      = (c'\<lparr>reord_timer := t, reord_timer_work := w\<rparr>, deliver fs r)"
    "window_ok n' H' c' r" "reord_list c' = [] \<longleftrightarrow> dom H' = {}"
proof -
  define ks where "ks = sorted_list_of_set (dom H)"
  have ks: "sorted_wrt (<) ks" "set ks = dom H" using assms(2) by (simp_all add: ks_def)
  have n': "n' = first_missing n H" and H': "H' = H |` {n'..}" and fs: "fs = map (the \<circ> H) (sorted_list_of_set {k \<in> dom H. k < n'})"
    using assms(10) by (auto simp: window_release_def Let_def)
  have adv: "advance n ks = n'" by (simp add: ks_def n' advance_first_missing assms(2))
  have "H n' = None" "n \<le> n'" by (simp_all add: n' first_missing_props assms(2))
  have split: "k \<le> n' \<longleftrightarrow> k < n'" "n' < k \<longleftrightarrow> \<not> k < n'" if "k \<in> dom H" for k
    using that \<open>H n' = None\<close> by (cases "k = n'"; force)+
  have dom': "dom H' = {k \<in> dom H. n' < k}" using \<open>H n' = None\<close> by (auto simp: H' order_le_less)
  have take: "takeWhile (\<lambda>k. k \<le> n') ks = sorted_list_of_set {k \<in> dom H. k < n'}"
    using split(1) by (simp add: takeWhile_sorted ks(1), simp add: ks_def filter_sorted_list_of_set assms(2) cong: conj_cong)
  have drop: "dropWhile (\<lambda>k. k \<le> n') ks = sorted_list_of_set (dom H')"
    by (simp add: dropWhile_sorted ks(1) dom', simp add: ks_def filter_sorted_list_of_set assms(2))
  have g: "\<forall>k \<in> set ks. sn r ((the \<circ> H) k) = seq16 k" "set ks \<subseteq> {lo..<lo + 2047}" using assms(3,4) by (auto simp: ks)
  have n'_lo: "n' \<in> {lo..lo + 2047}"
  proof -
    have "n' = n \<or> n' - 1 \<in> dom H"
    proof (cases "n' = n")
      case False
      then have "n \<le> n' - 1" "n' - 1 < n'" using \<open>n \<le> n'\<close> by auto
      then show ?thesis using first_missing_props(3) [of H n "n' - 1"] assms(2) by (simp add: n')
    qed simp
    then show ?thesis using assms(3,6) \<open>n \<le> n'\<close> by fastforce
  qed
  define c' where "c' = c\<lparr>ind_sn := seq16 n', reord_list := map (the \<circ> H) (sorted_list_of_set (dom H'))\<rparr>"
  show thesis
  proof (rule that [of c'])
    have loop: "reord_process_loop r (seq16 n) (reord_list c) = (seq16 n', \<exists>k \<in> set ks. n' < k)"
      using process_loop_advance [OF g assms(6)] unfolding assms(1) ks_def [symmetric] adv .
    then show "reord_rxframes_process r c False = (c\<lparr>ind_sn := seq16 n'\<rparr>, dom H' \<noteq> {})"
      by (cases "reord_list c = []") (auto simp: reord_rxframes_process_def assms(5) dom' ks)
    show "reord_rxframes_ind (c\<lparr>ind_sn := seq16 n', reord_timer := t, reord_timer_work := w\<rparr>) r
      = (c'\<lparr>reord_timer := t, reord_timer_work := w\<rparr>, deliver fs r)" for t w
      using ind_loop_release [OF g n'_lo] unfolding take drop fs [symmetric]
      by (simp add: reord_rxframes_ind_def assms(1) ks_def [symmetric] c'_def comp_def)
    show "window_ok n' H' c' r"
      unfolding window_ok_def
    proof (intro conjI)
      show "dom H' \<subseteq> {n'<..<n' + 64}" using assms(9) \<open>n \<le> n'\<close> by (auto simp: dom')
      show "reord_list c' = map (the \<circ> H') (sorted_list_of_set (dom H'))"
        using assms(2) dom' by (simp add: c'_def H' restrict_map_def)
      show "\<forall>k \<in> dom H'. sn r (the (H' k)) = seq16 k" using assms(4) by (auto simp: H' restrict_map_def)
    qed (simp_all add: c'_def assms dom')
    show "reord_list c' = [] \<longleftrightarrow> dom H' = {}" using assms(2) by (auto simp: c'_def dom')
  qed
qed

subsection \<open>The simulation\<close>

lemma wsize_int: "uint AICWF_REORDER_WINSIZE = 64"
  by (simp add: AICWF_REORDER_WINSIZE_def)

lemma seq16_int: "int k mod 4096 = x \<Longrightarrow> word_of_int x = seq16 k"
  by (metis uint_seq16 word_of_int_uint)

lemma seq16_end: "word_of_int ((uint (seq16 n) + 64 - 1) AND 0xFFF) = seq16 (n + 63)"
proof (rule seq16_int)
  have "x AND 0xFFF = x mod 4096" for x :: int
    using take_bit_eq_mask [of 12 x] by (simp add: mask_eq_exp_minus_1 take_bit_eq_mod)
  then show "int (n + 63) mod 4096 = (uint (seq16 n) + 64 - 1) AND 0xFFF" by (simp add: mod_simps add.commute)
qed

lemma seq16_start:
  assumes "63 \<le> s"
  shows "63 \<le> uint (seq16 s) \<Longrightarrow> word_of_int (uint (seq16 s) - 63) = seq16 (s - 63)"
    and "uint (seq16 s) < 63 \<Longrightarrow> word_of_int (0xFFF - (64 - (uint (seq16 s) + 1)) + 1) = seq16 (s - 63)"
proof -
  have s: "int (s - 63) = int s - 63" using assms by simp
  have e: "(int s - 63) mod 4096 = (int s mod 4096 - 63) mod 4096" by (simp add: mod_simps)
  have b: "0 \<le> int s mod 4096" "int s mod 4096 < 4096" by auto
  show "63 \<le> uint (seq16 s) \<Longrightarrow> word_of_int (uint (seq16 s) - 63) = seq16 (s - 63)"
    using b by (intro seq16_int) (simp only: s e uint_seq16, intro mod_pos_pos_trivial, auto)
  show "uint (seq16 s) < 63 \<Longrightarrow> word_of_int (0xFFF - (64 - (uint (seq16 s) + 1)) + 1) = seq16 (s - 63)"
  proof (rule seq16_int)
    assume a: "uint (seq16 s) < 63"
    have "(int s mod 4096 - 63) mod 4096 = (int s mod 4096 - 63 + 4096) mod 4096" by (rule mod_add_self2 [symmetric])
    also have "\<dots> = int s mod 4096 - 63 + 4096" using a b by (intro mod_pos_pos_trivial) auto
    finally show "int (s - 63) mod 4096 = 0xFFF - (64 - (uint (seq16 s) + 1)) + 1" by (simp only: s e uint_seq16)
  qed
qed

text \<open>The check of an arriving number, by its distance from the start of the window.\<close>

lemma need_check_window:
  assumes "ind_sn c = seq16 n" "wsize_b c = AICWF_REORDER_WINSIZE" "n \<le> s + 2048" "s < n + 2048"
  shows "reord_need_check c (seq16 s) =
    (if s < n then (c, -1) else (c\<lparr>ind_sn := seq16 (if s = n then Suc n else max n (s - 63))\<rparr>, 0))"
proof -
  have less: "SN_LESS (seq16 s) (seq16 n) \<longleftrightarrow> s < n" using assms seq16_late [of s n] seq16_less [of s n] by (cases "s < n") auto
  have eq: "SN_EQUAL (seq16 s) (seq16 n) \<longleftrightarrow> s = n" using assms by (intro seq16_eq) auto
  have past: "SN_LESS (seq16 (n + 63)) (seq16 s) \<longleftrightarrow> n + 63 < s" if "n \<le> s" using assms that by (intro seq16_less) auto
  have same: "c\<lparr>ind_sn := seq16 n\<rparr> = c" by (simp add: assms(1) [symmetric])
  have shift: "(if 64 - 1 \<le> uint (seq16 s) then (c\<lparr>ind_sn := word_of_int (uint (seq16 s) - (64 - 1))\<rparr>, 0 :: int)
      else (c\<lparr>ind_sn := word_of_int (0xFFF - (64 - (uint (seq16 s) + 1)) + 1)\<rparr>, 0)) = (c\<lparr>ind_sn := seq16 (s - 63)\<rparr>, 0)" if "63 \<le> s"
  proof -
    have one: "(64 :: int) - 1 = 63" by simp
    show ?thesis unfolding one using seq16_start [OF that] by (simp only: not_le split: if_split) (intro conjI impI; simp only:)
  qed
  show ?thesis
    unfolding reord_need_check_def Let_def wsize_int assms(1,2) seq16_end
  proof (simp only: seq16_neq_ffff if_False assms(1) less eq seq16_Suc, goal_cases)
    case 1
    show ?case
    proof (cases "n + 63 < s")
      case True
      then have s: "\<not> s < n" "s \<noteq> n" "n \<le> s" "63 \<le> s" "max n (s - 63) = s - 63" by auto
      then show ?thesis using True by (simp only: past [OF s(3)] shift [OF s(4)] if_False if_True)
    next
      case False
      then have "max n (s - 63) = n" by auto
      then show ?thesis using False by (auto simp: past same)
    qed
  qed
qed

lemma need_check_fresh:
  assumes "ind_sn c = 0xFFFF"
  shows "reord_need_check c (seq16 s) = (c\<lparr>ind_sn := seq16 (Suc s)\<rparr>, 0)"
  using assms by (simp add: reord_need_check_def Let_def SN_LESS_iff SN_EQUAL_def seq16_Suc)

subsubsection \<open>Access to a window\<close>

definition ctrl_at :: "rx_priv \<Rightarrow> nat \<Rightarrow> nat \<Rightarrow> bool" where
  "ctrl_at r i t \<longleftrightarrow> i < length (stas_reord_list r) \<and> t < length (preorder_ctrl (stas_reord_list r ! i))"

lemma get_put_ctrl [simp]: "ctrl_at r i t \<Longrightarrow> get_ctrl (put_ctrl i t c r) i t = c"
  by (simp add: ctrl_at_def get_ctrl_def put_ctrl_def)

lemma put_put_ctrl [simp]: "put_ctrl i t c (put_ctrl i t d r) = put_ctrl i t c r"
  by (cases "i < length (stas_reord_list r)") (simp_all add: put_ctrl_def list_update_beyond not_less)

lemma put_get_ctrl [simp]: "put_ctrl i t (get_ctrl r i t) r = r"
  by (simp add: put_ctrl_def get_ctrl_def)

lemma ctrl_at_put [simp]: "ctrl_at (put_ctrl i t c r) = ctrl_at r"
  by (intro ext, cases "i < length (stas_reord_list r)")
    (auto simp: ctrl_at_def put_ctrl_def nth_list_update list_update_beyond not_less)

lemma put_ctrl_fields [simp]:
  "recv_frames (put_ctrl i t c r) = recv_frames r" "rxframes_freequeue (put_ctrl i t c r) = rxframes_freequeue r"
  "netif_log (put_ctrl i t c r) = netif_log r" "kfree_log (put_ctrl i t c r) = kfree_log r"
  "rwnx_vif (put_ctrl i t c r) = rwnx_vif r" "rwnx_vifs (put_ctrl i t c r) = rwnx_vifs r"
  by (simp_all add: put_ctrl_def)

lemma single_frame_stas [simp]: "stas_reord_list (fst (reord_single_frame_ind f r)) = stas_reord_list r"
  by (simp add: reord_single_frame_ind_def reord_rxframe_free_def upd_frame_def dev_kfree_skb_def netif_receive_def Let_def
    split: option.splits)

lemma deliver_stas [simp]: "stas_reord_list (deliver fs r) = stas_reord_list r"
  by (induction fs arbitrary: r) simp_all

lemma deliver_ctrl [simp]: "get_ctrl (deliver fs r) = get_ctrl r" "ctrl_at (deliver fs r) = ctrl_at r"
  by (intro ext; simp add: get_ctrl_def ctrl_at_def)+

lemma window_ok_cong: "(\<And>f. sn r f = sn r' f) \<Longrightarrow> window_ok n H (c\<lparr>reord_timer := a, reord_timer_work := b\<rparr>) r = window_ok n H c r'"
  by (simp add: window_ok_def)

lemma release_from_filled:
  assumes "finite (dom H)" "n \<in> dom H"
  shows "window_release (Suc n) H = window_release n H"
proof -
  have "n \<le> m \<and> H m = None \<longleftrightarrow> Suc n \<le> m \<and> H m = None" for m using assms(2) by (auto simp: Suc_le_eq order_le_less)
  then show ?thesis by (simp add: window_release_def first_missing_def)
qed

text \<open>A window that has no start yet takes it from the first frame.\<close>

definition window_view :: "nat \<Rightarrow> nat \<Rightarrow> (nat \<rightharpoonup> nat) \<Rightarrow> reord_ctrl \<Rightarrow> rx_priv \<Rightarrow> bool" where
  "window_view s n H c r \<longleftrightarrow> window_ok n H c r \<or>
     enable c \<and> wsize_b c = AICWF_REORDER_WINSIZE \<and> ind_sn c = 0xFFFF \<and> reord_list c = [] \<and> n = s \<and> H = Map.empty"

lemma need_check_view:
  assumes "window_view s n H c r" "n \<le> s + 2048" "s < n + 2048"
  shows "reord_need_check c (seq16 s) =
    (if s < n then (c, -1) else (c\<lparr>ind_sn := seq16 (if s = n then Suc n else max n (s - 63))\<rparr>, 0))"
  using assms(1) unfolding window_view_def
proof
  assume "window_ok n H c r"
  then show ?thesis using assms by (intro need_check_window) (auto simp: window_ok_def)
qed (simp add: need_check_fresh)

lemma window_view_facts:
  assumes "window_view s n H c r"
  shows "enable c" "wsize_b c = AICWF_REORDER_WINSIZE" "finite (dom H)" "dom H \<subseteq> {n<..<n + 64}"
    "reord_list c = map (the \<circ> H) (sorted_list_of_set (dom H))" "\<forall>k \<in> dom H. sn r (the (H k)) = seq16 k"
  using assms by (auto simp: window_view_def window_ok_def)

lemma enqueue_window:
  assumes "window_view s n H c r" "sn r f = seq16 s" "n \<le> s" "s < n + 2048"
  shows "reord_rxframe_enqueue r (c\<lparr>ind_sn := x\<rparr>) f = (if s \<in> dom H then None
    else Some (c\<lparr>ind_sn := x, reord_list := map (the \<circ> (H(s \<mapsto> f))) (sorted_list_of_set (dom (H(s \<mapsto> f))))\<rparr>))"
proof -
  note w = window_view_facts [OF assms(1)]
  define ks where "ks = sorted_list_of_set (dom H)"
  have ks: "set ks = dom H" "sorted_wrt (<) ks" using w(3) by (simp_all add: ks_def)
  have "reord_insert r f (map (the \<circ> H) ks) = (if s \<in> set ks then None else Some (map ((the \<circ> H)(s := f)) (insort s ks)))"
    using w(4,6) assms(2,3,4) by (intro insert_sorted [where lo = n]) (auto simp: ks)
  moreover have "insort s ks = sorted_list_of_set (dom (H(s \<mapsto> f)))" if "s \<notin> dom H" using w(3) that by (simp add: ks_def)
  moreover have "(the \<circ> H)(s := f) = the \<circ> (H(s \<mapsto> f))" by auto
  ultimately show ?thesis using w(5) by (simp add: reord_rxframe_enqueue_def ks_def [symmetric] ks(1))
qed

lemma ctrl_unit_refines:
  assumes view: "window_view s n H (get_ctrl r i t) r" and at: "ctrl_at r i t"
    and near: "n \<le> s + 2048" "s < n + 2048" and f: "sn r f = seq16 s"
  shows "s < n \<Longrightarrow> reord_ctrl_unit f i t r = reord_late_frame f (ind_sn (get_ctrl r i t)) r" (is "_ \<Longrightarrow> ?late")
    and "n \<le> s \<Longrightarrow> s \<in> dom H \<Longrightarrow> reord_ctrl_unit f i t r = reord_drop_frame f r" (is "_ \<Longrightarrow> _ \<Longrightarrow> ?dup")
    and "n \<le> s \<Longrightarrow> s \<notin> dom H \<Longrightarrow> window_release (max n (s + 1 - 64)) (H(s \<mapsto> f)) = (n', H', fs) \<Longrightarrow>
      \<exists>c. reord_ctrl_unit f i t r = put_ctrl i t c (deliver fs r) \<and> window_ok n' H' c r \<and> (reord_timer c \<longleftrightarrow> reord_list c \<noteq> [])"
proof -
  define c where "c = get_ctrl r i t"
  define x where "x = seq16 (if s = n then Suc n else max n (s - 63))"
  note w = window_view_facts [OF view, folded c_def]
  have chk: "reord_need_check c (sn r f) = (if s < n then (c, -1) else (c\<lparr>ind_sn := x\<rparr>, 0))"
    unfolding f x_def using need_check_view [OF view near] by (simp add: c_def)
  show "s < n \<Longrightarrow> ?late" by (simp add: reord_ctrl_unit_def Let_def c_def [symmetric] w(1) chk) (simp add: c_def)
  show ?dup if "n \<le> s" "s \<in> dom H"
  proof -
    have "n < s" using that w(4) by auto
    moreover have "s < n + 64" using that w(4) by auto
    ultimately have "c\<lparr>ind_sn := x\<rparr> = c"
      using view that by (auto simp: x_def window_view_def window_ok_def c_def)
    then show ?thesis using enqueue_window [OF view f that(1) near(2), of x] that w(1)
      by (simp add: reord_ctrl_unit_def Let_def c_def [symmetric] chk) (simp add: c_def)
  qed
  show "\<exists>c. reord_ctrl_unit f i t r = put_ctrl i t c (deliver fs r) \<and> window_ok n' H' c r \<and> (reord_timer c \<longleftrightarrow> reord_list c \<noteq> [])"
    if "n \<le> s" "s \<notin> dom H" "window_release (max n (s + 1 - 64)) (H(s \<mapsto> f)) = (n', H', fs)"
  proof -
    note arr = that
    define H1 where "H1 = H(s \<mapsto> f)"
    define m where "m = (if s = n then Suc n else max n (s - 63))"
    define c1 where "c1 = c\<lparr>ind_sn := seq16 m, reord_list := map (the \<circ> H1) (sorted_list_of_set (dom H1))\<rparr>"
    have rel: "window_release m H1 = (n', H', fs)"
      using that(3) release_from_filled [of H1 n] w(3) by (auto simp: m_def H1_def)
    have enq: "reord_rxframe_enqueue r (c\<lparr>ind_sn := x\<rparr>) f = Some c1"
      using enqueue_window [OF view f that(1) near(2), of x] that(2) by (simp add: c_def c1_def H1_def x_def m_def)
    define lo where "lo = (if s < n + 64 then n else Suc n)"
    obtain c' where c': "reord_rxframes_process r c1 False = (c1\<lparr>ind_sn := seq16 n'\<rparr>, dom H' \<noteq> {})"
      "\<And>t w. reord_rxframes_ind (c1\<lparr>ind_sn := seq16 n', reord_timer := t, reord_timer_work := w\<rparr>) r
        = (c'\<lparr>reord_timer := t, reord_timer_work := w\<rparr>, deliver fs r)"
      "window_ok n' H' c' r" "reord_list c' = [] \<longleftrightarrow> dom H' = {}"
    proof (rule process_release [of c1 H1 lo r m n' H' fs])
      have "n < k \<and> k < n + 64" if "H k = Some y" for k y using w(4) that by auto
      moreover have "n \<le> m" "s < m + 64" by (auto simp: m_def)
      ultimately show "dom H1 \<subseteq> {lo..<lo + 2047}" "dom H1 \<subseteq> {..<m + 64}"
        using arr(1) near by (fastforce simp: H1_def lo_def)+
      show "m \<in> {lo..lo + 2047}" using arr(1) near by (auto simp: m_def lo_def)
      show "\<forall>k \<in> dom H1. sn r (the (H1 k)) = seq16 k" using w(6) f by (auto simp: H1_def)
    qed (use w(1-3) rel in \<open>simp_all add: c1_def H1_def\<close>)
    define c2 where "c2 = c'\<lparr>reord_timer := dom H' \<noteq> {}, reord_timer_work := reord_timer_work c\<rparr>"
    have "reord_set_timer (dom H' \<noteq> {}) (c1\<lparr>ind_sn := seq16 n'\<rparr>)
        = c1\<lparr>ind_sn := seq16 n', reord_timer := dom H' \<noteq> {}, reord_timer_work := reord_timer_work c\<rparr>"
      by (simp add: reord_set_timer_def c1_def)
    then have "reord_ctrl_unit f i t r = put_ctrl i t c2 (deliver fs r)"
      using that(1) w(1) enq c'(1) c'(2) by (simp add: reord_ctrl_unit_def Let_def c_def [symmetric] chk c2_def)
    moreover have "window_ok n' H' c2 r" using c'(3) by (simp add: c2_def window_ok_cong)
    ultimately show ?thesis using c'(4) by (auto simp: c2_def)
  qed
qed

text \<open>The numbers a release hands over are in order and were missing before the new start; nothing is lost.\<close>

lemma release_order:
  assumes "finite (dom H)" "window_release n H = (n', H', fs)" "\<forall>k \<in> dom H. sn r (the (H k)) = seq16 k"
  shows "\<exists>ks. sorted_wrt (<) ks \<and> set ks = {k \<in> dom H. k < n'} \<and> map (sn r) fs = map seq16 ks"
proof (intro exI conjI)
  have fs: "fs = map (the \<circ> H) (sorted_list_of_set {k \<in> dom H. k < n'})" using assms(2) by (auto simp: window_release_def Let_def)
  show "map (sn r) fs = map seq16 (sorted_list_of_set {k \<in> dom H. k < n'})" using assms(1,3) by (auto simp: fs)
qed (use assms(1) in simp_all)

lemma release_mset:
  assumes "finite (dom H)" "window_release n H = (n', H', fs)"
  shows "mset (map (the \<circ> H) (sorted_list_of_set (dom H))) = mset fs + mset (map (the \<circ> H') (sorted_list_of_set (dom H')))"
proof -
  have r: "H' = H |` {n'..}" "fs = map (the \<circ> H) (sorted_list_of_set {k \<in> dom H. k < n'})"
    using assms(2) by (auto simp: window_release_def Let_def)
  have d: "dom H = {k \<in> dom H. k < n'} \<union> dom H'" "{k \<in> dom H. k < n'} \<inter> dom H' = {}" by (auto simp: r(1))
  have f: "finite (dom H')" "finite {k \<in> dom H. k < n'}" using assms(1) by (auto simp: r(1))
  have "mset_set (dom H) = mset_set {k \<in> dom H. k < n'} + mset_set (dom H')" using d(2) f by (subst d(1)) (rule mset_set_Union)
  moreover have "image_mset (the \<circ> H) (mset_set (dom H')) = image_mset (the \<circ> H') (mset_set (dom H'))"
    using f by (intro image_mset_cong) (auto simp: r(1))
  moreover have "mset (sorted_list_of_set A) = mset_set A" for A :: "nat set" by (simp flip: sorted_list_of_mset_set)
  ultimately show ?thesis by (simp add: r(2))
qed

lemma worker_refines:
  assumes ok: "window_ok n H (get_ctrl r i t) r" and rel: "window_release (Min (dom H)) H = (n', H', fs)" and ne: "dom H \<noteq> {}"
  shows "\<exists>c. reord_timeout_worker i t r = put_ctrl i t c (deliver fs r) \<and> window_ok n' H' c r \<and> (reord_list c \<noteq> [] \<longrightarrow> reord_timer c)"
proof -
  define m where "m = Min (dom H)"
  define c where "c = get_ctrl r i t"
  define c1 where "c1 = c\<lparr>ind_sn := seq16 m, reord_timer_work := False\<rparr>"
  have fin: "finite (dom H)" and dom: "dom H \<subseteq> {n<..<n + 64}" and sn: "\<forall>k \<in> dom H. sn r (the (H k)) = seq16 k"
    and l: "reord_list c = map (the \<circ> H) (sorted_list_of_set (dom H))" and e: "enable c" "wsize_b c = AICWF_REORDER_WINSIZE"
    using ok by (auto simp: window_ok_def c_def)
  have m: "m \<in> dom H" "\<And>k. k \<in> dom H \<Longrightarrow> m \<le> k" using fin ne by (auto simp: m_def)
  have "sorted_list_of_set (dom H) = m # sorted_list_of_set (dom H - {m})" using fin ne by (simp add: m_def sorted_list_of_set_nonempty)
  then have hd: "reord_list c \<noteq> []" "sn r (hd (reord_list c)) = seq16 m" using sn m by (auto simp: l)
  obtain c' where c': "reord_rxframes_process r c1 False = (c1\<lparr>ind_sn := seq16 n'\<rparr>, dom H' \<noteq> {})"
    "\<And>t w. reord_rxframes_ind (c1\<lparr>ind_sn := seq16 n', reord_timer := t, reord_timer_work := w\<rparr>) r
      = (c'\<lparr>reord_timer := t, reord_timer_work := w\<rparr>, deliver fs r)"
    "window_ok n' H' c' r" "reord_list c' = [] \<longleftrightarrow> dom H' = {}"
  proof (rule process_release [of c1 H n r m n' H' fs])
    have b: "k < m + 64 \<and> n \<le> k \<and> k < n + 2047" if "k \<in> dom H" for k
    proof -
      have "k \<in> {n<..<n + 64}" "m \<in> {n<..<n + 64}" using dom m(1) that by blast+
      then show ?thesis using m(2) [OF that] by auto
    qed
    show "m \<in> {n..n + 2047}" using b [OF m(1)] by simp
    show "dom H \<subseteq> {..<m + 64}" "dom H \<subseteq> {n..<n + 2047}" by (meson b atLeastLessThan_iff lessThan_iff subsetI)+
  qed (use fin sn l e rel in \<open>simp_all add: c1_def m_def\<close>)
  have forced: "reord_rxframes_process r (c\<lparr>reord_timer_work := False\<rparr>) True = (c1\<lparr>ind_sn := seq16 n'\<rparr>, dom H' \<noteq> {})"
    using c'(1) hd by (simp add: reord_rxframes_process_def c1_def split: prod.splits)
  define c2 where "c2 = c'\<lparr>reord_timer := (if dom H' \<noteq> {} then True else reord_timer c), reord_timer_work := False\<rparr>"
  have "(if dom H' \<noteq> {} then c1\<lparr>ind_sn := seq16 n', reord_timer := True\<rparr> else c1\<lparr>ind_sn := seq16 n'\<rparr>)
      = c1\<lparr>ind_sn := seq16 n', reord_timer := (if dom H' \<noteq> {} then True else reord_timer c), reord_timer_work := False\<rparr>"
    by (simp add: c1_def)
  then have "reord_timeout_worker i t r = put_ctrl i t c2 (deliver fs r)"
    using c'(2) forced by (simp add: reord_timeout_worker_def Let_def c_def [symmetric] c2_def del: if_not_P if_P)
  moreover have "window_ok n' H' c2 r" using c'(3) by (simp add: c2_def window_ok_cong)
  ultimately show ?thesis using c'(4) by (auto simp: c2_def)
qed

lemma worker_idle:
  assumes "reord_list (get_ctrl r i t) = []"
  shows "reord_timeout_worker i t r = put_ctrl i t ((get_ctrl r i t)\<lparr>reord_timer_work := False\<rparr>) r"
  using assms by (cases "get_ctrl r i t") (simp add: reord_timeout_worker_def reord_rxframes_process_def reord_rxframes_ind_def Let_def)

end
