(* ===== verification/Rx_Run.thy ===== *)
theory Rx_Run
  imports Rx_Window
begin

text \<open>
  The receive reordering as it runs: frames arrive for any station and TID, timers expire, work items
  run, windows are flushed and stations leave.  The invariant ties the pool of frame structures, the
  windows and their timers together and accounts for every buffer that came in.
\<close>

subsection \<open>Accounting\<close>

definition rx_pending :: "rx_priv \<Rightarrow> nat list" where
  "rx_pending r = concat (map (\<lambda>s. concat (map reord_list (preorder_ctrl s))) (stas_reord_list r))"

definition frame_id :: "rx_priv \<Rightarrow> nat \<Rightarrow> nat" where "frame_id r f = skb_id (the (pkt (recv_frames r ! f)))"

definition rx_logged :: "rx_priv \<Rightarrow> nat multiset" where
  "rx_logged r = image_mset (skb_id \<circ> fst) (mset (netif_log r)) + image_mset skb_id (mset (kfree_log r))"

definition rx_accounted :: "rx_priv \<Rightarrow> nat multiset" where
  "rx_accounted r = rx_logged r + image_mset (frame_id r) (mset (rx_pending r))"

text \<open>The frames of a list have been used: their buffers are gone and they are free again.\<close>

definition frames_gone :: "nat list \<Rightarrow> rx_priv \<Rightarrow> rx_priv \<Rightarrow> bool" where
  "frames_gone fs r r' \<longleftrightarrow> mset (rxframes_freequeue r') = mset fs + mset (rxframes_freequeue r) \<and>
     length (recv_frames r') = length (recv_frames r) \<and> (\<forall>f. f \<notin> set fs \<longrightarrow> recv_frames r' ! f = recv_frames r ! f) \<and>
     (\<forall>f. sn r' f = sn r f) \<and>
     rx_logged r' = rx_logged r + image_mset (frame_id r) (mset fs) \<and> stas_reord_list r' = stas_reord_list r \<and>
     rwnx_vif r' = rwnx_vif r \<and> length (rwnx_vifs r') = length (rwnx_vifs r) \<and> bus_down r' = bus_down r"

lemma gone_nil [simp]: "frames_gone [] r r"
  by (simp add: frames_gone_def)

lemma gone_Cons:
  assumes "frames_gone [f] r r1" "frames_gone fs r1 r2" "f \<notin> set fs"
  shows "frames_gone (f # fs) r r2"
proof -
  have "image_mset (frame_id r1) (mset fs) = image_mset (frame_id r) (mset fs)"
    using assms by (intro image_mset_cong) (auto simp: frames_gone_def frame_id_def)
  then show ?thesis using assms by (auto simp: frames_gone_def)
qed

lemma gone_step:
  assumes "pkt (recv_frames r ! f) = Some skb"
  shows "frames_gone [f] r (fst (reord_single_frame_ind f r))" "frames_gone [f] r (reord_drop_frame f r)"
proof -
  have n: "(recv_frames r)[f := m] ! g = recv_frames r ! g" if "g \<noteq> f" for g m using that by simp
  have s: "seq_num ((recv_frames r)[f := (recv_frames r ! f)\<lparr>pkt := p\<rparr>] ! g) = seq_num (recv_frames r ! g)" for p g
    by (rule frames_upd_seq)
  show "frames_gone [f] r (fst (reord_single_frame_ind f r))" "frames_gone [f] r (reord_drop_frame f r)"
    using assms by (auto simp: frames_gone_def reord_single_frame_ind_def reord_drop_frame_def reord_rxframe_free_def
      upd_frame_def dev_kfree_skb_def netif_receive_def Let_def rx_logged_def frame_id_def n s)
qed

lemma gone_fold:
  assumes "\<And>f r skb. pkt (recv_frames r ! f) = Some skb \<Longrightarrow> frames_gone [f] r (op f r)"
    "distinct fs" "\<forall>f \<in> set fs. pkt (recv_frames r ! f) \<noteq> None"
  shows "frames_gone fs r (fold op fs r)"
  using assms(2,3)
proof (induction fs arbitrary: r)
  case (Cons f fs)
  obtain skb where "pkt (recv_frames r ! f) = Some skb" using Cons.prems by auto
  then have g: "frames_gone [f] r (op f r)" by (rule assms(1))
  have "recv_frames (op f r) ! h = recv_frames r ! h" if "h \<in> set fs" for h
    using g Cons.prems(1) that by (auto simp: frames_gone_def)
  then have "frames_gone fs (op f r) (fold op fs (op f r))" using Cons by simp
  then show ?case using gone_Cons [OF g] Cons.prems(1) by simp
qed simp

lemma gone_deliver:
  "distinct fs \<Longrightarrow> \<forall>f \<in> set fs. pkt (recv_frames r ! f) \<noteq> None \<Longrightarrow> frames_gone fs r (deliver fs r)"
  unfolding deliver_def by (rule gone_fold [OF gone_step(1)])

lemma gone_drop:
  "distinct fs \<Longrightarrow> \<forall>f \<in> set fs. pkt (recv_frames r ! f) \<noteq> None \<Longrightarrow> frames_gone fs r (fold reord_drop_frame fs r)"
  by (rule gone_fold [OF gone_step(2)])

subsection \<open>The invariant\<close>

definition ctrl_ok :: "reord_ctrl \<Rightarrow> rx_priv \<Rightarrow> bool" where
  "ctrl_ok c r \<longleftrightarrow> wsize_b c = AICWF_REORDER_WINSIZE \<and>
     ((\<exists>n H. 4096 \<le> n \<and> window_ok n H c r) \<or> reord_list c = [] \<and> (enable c \<longrightarrow> ind_sn c = 0xFFFF)) \<and>
     (reord_list c \<noteq> [] \<longrightarrow> reord_timer c \<or> reord_timer_work c)"

definition rx_inv :: "rx_priv \<Rightarrow> bool" where
  "rx_inv r \<longleftrightarrow> length (recv_frames r) = MAX_REORD_RXFRAME \<and>
     distinct (rxframes_freequeue r @ rx_pending r) \<and> set (rxframes_freequeue r @ rx_pending r) \<subseteq> {..<MAX_REORD_RXFRAME} \<and>
     (\<forall>f \<in> set (rx_pending r). pkt (recv_frames r ! f) \<noteq> None) \<and>
     (\<forall>s \<in> set (stas_reord_list r). length (preorder_ctrl s) = 8 \<and> (\<forall>c \<in> set (preorder_ctrl s). ctrl_ok c r))"

lemma ctrl_ok_cong: "(\<And>f. sn r f = sn r' f) \<Longrightarrow> ctrl_ok c r = ctrl_ok c r'"
  by (simp add: ctrl_ok_def window_ok_def)

lemma inv_ctrl: "rx_inv r \<Longrightarrow> ctrl_at r i t \<Longrightarrow> ctrl_ok (get_ctrl r i t) r"
  unfolding rx_inv_def ctrl_at_def get_ctrl_def by (metis nth_mem)

lemma mset_concat_update:
  "i < length xs \<Longrightarrow> mset (concat (xs[i := y])) + mset (xs ! i) = mset (concat xs) + mset y"
proof (induction xs arbitrary: i)
  case (Cons x xs)
  then show ?case by (cases i) auto
qed simp

lemma pending_put:
  assumes "ctrl_at r i t"
  shows "mset (rx_pending (put_ctrl i t c r)) + mset (reord_list (get_ctrl r i t)) = mset (rx_pending r) + mset (reord_list c)"
proof -
  define s where "s = stas_reord_list r ! i"
  define L where "L = (\<lambda>s :: reord_ctrl_info. concat (map reord_list (preorder_ctrl s)))"
  have at: "i < length (stas_reord_list r)" "t < length (preorder_ctrl s)" using assms by (simp_all add: ctrl_at_def s_def)
  have inner: "mset (L (s\<lparr>preorder_ctrl := (preorder_ctrl s)[t := c]\<rparr>)) + mset (reord_list (preorder_ctrl s ! t)) = mset (L s) + mset (reord_list c)"
    using mset_concat_update [of t "map reord_list (preorder_ctrl s)" "reord_list c"] at(2) by (simp add: L_def map_update)
  define s' where "s' = s\<lparr>preorder_ctrl := (preorder_ctrl s)[t := c]\<rparr>"
  have outer: "mset (rx_pending (put_ctrl i t c r)) + mset (L s) = mset (rx_pending r) + mset (L s')"
    using mset_concat_update [of i "map L (stas_reord_list r)" "L s'"] at(1)
    by (simp add: rx_pending_def put_ctrl_def L_def [symmetric] map_update s_def s'_def)
  have cancel: "X + R = P + C" if "X + A = P + B" "B + R = A + C" for X R P C A B :: "nat multiset"
  proof -
    have "X + R + A = (X + A) + R" by (simp only: ac_simps)
    also have "\<dots> = P + (B + R)" unfolding that(1) by (simp only: ac_simps)
    also have "\<dots> = P + C + A" unfolding that(2) by (simp only: ac_simps)
    finally show ?thesis by simp
  qed
  show ?thesis using cancel [OF outer] inner by (simp add: get_ctrl_def s_def s'_def)
qed

lemma pending_member: "ctrl_at r i t \<Longrightarrow> set (reord_list (get_ctrl r i t)) \<subseteq> set (rx_pending r)"
proof -
  assume "ctrl_at r i t"
  then have "stas_reord_list r ! i \<in> set (stas_reord_list r)" "get_ctrl r i t \<in> set (preorder_ctrl (stas_reord_list r ! i))"
    by (simp_all add: ctrl_at_def get_ctrl_def)
  then show ?thesis by (auto simp: rx_pending_def)
qed

lemma pending_stas: "stas_reord_list r = stas_reord_list r' \<Longrightarrow> rx_pending r = rx_pending r'"
  by (simp add: rx_pending_def)

text \<open>
  The effect of an operation on the pool: of the frames \<open>L\<close> that are not yet in it, and those the
  windows held, \<open>fs\<close> are used and the rest are kept.
\<close>

lemma exchange_stas:
  assumes inv: "rx_inv r" and gone: "frames_gone fs r r1" and r': "r' = r1\<lparr>stas_reord_list := ss\<rparr>"
    and ctrls: "\<And>s. s \<in> set ss \<Longrightarrow> length (preorder_ctrl s) = 8 \<and> (\<forall>c \<in> set (preorder_ctrl s). ctrl_ok c r)"
    and pend: "mset fs + mset (rx_pending r') = mset (rx_pending r) + mset L"
    and new: "distinct L" "set L \<inter> set (rxframes_freequeue r @ rx_pending r) = {}" "set L \<subseteq> {..<MAX_REORD_RXFRAME}"
      "\<forall>f \<in> set L. pkt (recv_frames r ! f) \<noteq> None"
  shows "rx_inv r'" "rx_accounted r' = rx_accounted r + image_mset (frame_id r) (mset L)"
proof -
  have pool: "mset (rxframes_freequeue r' @ rx_pending r') = mset (rxframes_freequeue r @ rx_pending r @ L)"
    using gone pend by (simp add: r' frames_gone_def ac_simps)
  have d: "distinct (rxframes_freequeue r @ rx_pending r @ L)" using inv new by (auto simp: rx_inv_def)
  then have d': "distinct (rxframes_freequeue r' @ rx_pending r')" using pool by (metis mset_eq_imp_distinct_iff)
  have "distinct (fs @ rx_pending r')"
  proof -
    have "distinct (rx_pending r @ L)" using d by auto
    moreover have "mset (fs @ rx_pending r') = mset (rx_pending r @ L)" using pend by simp
    ultimately show ?thesis by (metis mset_eq_imp_distinct_iff)
  qed
  then have old: "recv_frames r' ! f = recv_frames r ! f" if "f \<in> set (rx_pending r')" for f
    using gone that by (auto simp: r' frames_gone_def)
  have set': "set (rx_pending r') \<subseteq> set (rx_pending r) \<union> set L" using pend by (metis Un_iff set_mset_mset set_mset_union subsetI)
  have snr: "sn r' f = sn r f" for f using gone by (simp add: r' frames_gone_def)
  show "rx_inv r'"
    unfolding rx_inv_def
  proof (intro conjI ballI)
    show "length (recv_frames r') = MAX_REORD_RXFRAME" using gone inv by (simp add: r' frames_gone_def rx_inv_def)
    show "set (rxframes_freequeue r' @ rx_pending r') \<subseteq> {..<MAX_REORD_RXFRAME}"
      using mset_eq_setD [OF pool] inv new(3) by (auto simp: rx_inv_def)
    show "pkt (recv_frames r' ! f) \<noteq> None" if "f \<in> set (rx_pending r')" for f
      using old [OF that] that set' inv new(4) by (auto simp: rx_inv_def)
  qed (use d' ctrls ctrl_ok_cong [OF snr] in \<open>auto simp: r'\<close>)
  have "rx_logged r' = rx_logged r + image_mset (frame_id r) (mset fs)" using gone by (simp add: r' frames_gone_def rx_logged_def)
  moreover have "image_mset (frame_id r') (mset (rx_pending r')) = image_mset (frame_id r) (mset (rx_pending r'))"
    using old by (intro image_mset_cong) (simp add: frame_id_def)
  ultimately have "rx_accounted r' = rx_logged r + image_mset (frame_id r) (mset fs + mset (rx_pending r'))"
    by (simp add: rx_accounted_def)
  then show "rx_accounted r' = rx_accounted r + image_mset (frame_id r) (mset L)" by (simp add: pend rx_accounted_def)
qed

lemma exchange:
  assumes inv: "rx_inv r" and at: "ctrl_at r i t" and gone: "frames_gone fs r r1" and ok: "ctrl_ok c r"
    and bal: "mset fs + mset (reord_list c) = mset L + mset (reord_list (get_ctrl r i t))"
    and new: "distinct L" "set L \<inter> set (rxframes_freequeue r @ rx_pending r) = {}" "set L \<subseteq> {..<MAX_REORD_RXFRAME}"
      "\<forall>f \<in> set L. pkt (recv_frames r ! f) \<noteq> None"
  shows "rx_inv (put_ctrl i t c r1)" "rx_accounted (put_ctrl i t c r1) = rx_accounted r + image_mset (frame_id r) (mset L)"
proof -
  define r' where "r' = put_ctrl i t c r1"
  have stas: "stas_reord_list r1 = stas_reord_list r" using gone by (simp add: frames_gone_def)
  then have same: "ctrl_at r1 i t" "get_ctrl r1 i t = get_ctrl r i t" "rx_pending r1 = rx_pending r"
    using at by (simp_all add: ctrl_at_def get_ctrl_def rx_pending_def)
  have pend: "mset fs + mset (rx_pending r') = mset (rx_pending r) + mset L"
  proof -
    have "mset (rx_pending r') + mset (reord_list (get_ctrl r i t)) = mset (rx_pending r) + mset (reord_list c)"
      using pending_put [OF same(1), of c] by (simp only: r'_def same)
    then have "mset fs + mset (rx_pending r') + mset (reord_list (get_ctrl r i t)) = mset (rx_pending r) + (mset fs + mset (reord_list c))"
      by (simp add: ac_simps)
    also have "\<dots> = mset (rx_pending r) + mset L + mset (reord_list (get_ctrl r i t))" by (simp only: bal ac_simps)
    finally show ?thesis by simp
  qed
  have ctrls: "length (preorder_ctrl s) = 8 \<and> (\<forall>c \<in> set (preorder_ctrl s). ctrl_ok c r)" if "s \<in> set (stas_reord_list r')" for s
  proof -
    have "s \<in> set (stas_reord_list r) \<or> s = (stas_reord_list r ! i)\<lparr>preorder_ctrl := (preorder_ctrl (stas_reord_list r ! i))[t := c]\<rparr>"
      using that set_update_subset_insert by (fastforce simp: r'_def put_ctrl_def stas)
    moreover have "stas_reord_list r ! i \<in> set (stas_reord_list r)" using at by (simp add: ctrl_at_def)
    moreover have "length (preorder_ctrl s) = 8 \<and> (\<forall>c \<in> set (preorder_ctrl s). ctrl_ok c r)" if "s \<in> set (stas_reord_list r)" for s
      using inv that by (auto simp: rx_inv_def)
    ultimately show ?thesis using ok by (auto dest!: set_update_subset_insert [THEN subsetD])
  qed
  have r': "put_ctrl i t c r1 = r1\<lparr>stas_reord_list := stas_reord_list r'\<rparr>" by (simp add: r'_def put_ctrl_def)
  show "rx_inv (put_ctrl i t c r1)" "rx_accounted (put_ctrl i t c r1) = rx_accounted r + image_mset (frame_id r) (mset L)"
    by (rule exchange_stas [OF inv gone r' ctrls pend [unfolded r'_def] new]; assumption)+
qed

subsection \<open>Steps\<close>

lemma drop_fields [simp]:
  "stas_reord_list (reord_drop_frame f r) = stas_reord_list r" "sn (reord_drop_frame f r) g = sn r g"
  by (auto simp: reord_drop_frame_def reord_rxframe_free_def upd_frame_def dev_kfree_skb_def frames_upd_seq split: option.splits)

lemma put_same:
  assumes "stas_reord_list r' = stas_reord_list r"
  shows "put_ctrl i t (get_ctrl r i t) r' = r'"
  using assms by (simp add: put_ctrl_def get_ctrl_def flip: assms)

definition near :: "nat \<Rightarrow> u16 \<Rightarrow> nat" where
  "near n q = n - 2048 + (unat q + (4096 - (n - 2048) mod 4096)) mod 4096"

lemma near:
  assumes "unat q < 4096" "2048 \<le> n"
  shows "seq16 (near n q) = q" "n \<le> near n q + 2048" "near n q < n + 2048"
proof -
  define b where "b = n - 2048"
  have "near n q mod 4096 = unat q mod 4096"
  proof -
    have "b = 4096 * (b div 4096) + b mod 4096" "b mod 4096 < 4096" by auto
    moreover have "x + (u + (4096 - m)) = u + 4096 * (d + 1)" if "x = 4096 * d + m" "m < 4096" for x u d m :: nat using that by simp
    ultimately have "b + (unat q + (4096 - b mod 4096)) = unat q + 4096 * (b div 4096 + 1)" by blast
    then have "(b + (unat q + (4096 - b mod 4096))) mod 4096 = unat q mod 4096" by (simp only: mod_mult_self2)
    then have "(b + (unat q + (4096 - b mod 4096)) mod 4096) mod 4096 = unat q mod 4096" by (simp only: mod_add_right_eq)
    then show ?thesis by (simp add: near_def b_def)
  qed
  then show "seq16 (near n q) = q" using assms(1) by (simp add: seq16_def)
  have "(unat q + (4096 - b mod 4096)) mod 4096 < 4096" by simp
  then show "n \<le> near n q + 2048" "near n q < n + 2048" using assms(2) by (simp_all add: near_def b_def [symmetric]) (simp_all add: b_def)
qed

lemma late_gone:
  "pkt (recv_frames r ! f) = Some skb \<Longrightarrow> frames_gone [f] r (reord_late_frame f x r)"
  by (auto simp: reord_late_frame_def gone_step)

lemma window_frames:
  assumes "rx_inv r" "ctrl_at r i t"
  shows "distinct (reord_list (get_ctrl r i t))" "\<forall>f \<in> set (reord_list (get_ctrl r i t)). pkt (recv_frames r ! f) \<noteq> None"
proof -
  define ps where "ps = rx_pending (put_ctrl i t ((get_ctrl r i t)\<lparr>reord_list := []\<rparr>) r)"
  have "mset (rx_pending r) = mset (reord_list (get_ctrl r i t) @ ps)"
    using pending_put [OF assms(2), of "(get_ctrl r i t)\<lparr>reord_list := []\<rparr>"] by (simp add: ps_def add.commute)
  moreover have "distinct (rx_pending r)" using assms(1) by (simp add: rx_inv_def)
  ultimately show "distinct (reord_list (get_ctrl r i t))" by (metis distinct_append mset_eq_imp_distinct_iff)
  show "\<forall>f \<in> set (reord_list (get_ctrl r i t)). pkt (recv_frames r ! f) \<noteq> None"
    using assms(1) pending_member [OF assms(2)] by (auto simp: rx_inv_def)
qed

lemma ctrl_unit_step:
  assumes inv: "rx_inv r" and at: "ctrl_at r i t" and en: "enable (get_ctrl r i t)"
    and f: "pkt (recv_frames r ! f) = Some skb" "unat (sn r f) < 4096" "f \<notin> set (rxframes_freequeue r @ rx_pending r)" "f < MAX_REORD_RXFRAME"
  shows "rx_inv (reord_ctrl_unit f i t r)" "rx_accounted (reord_ctrl_unit f i t r) = add_mset (skb_id skb) (rx_accounted r)"
proof -
  define c where "c = get_ctrl r i t"
  have ok: "ctrl_ok c r" using inv_ctrl [OF inv at] by (simp add: c_def)
  obtain s n H where v: "window_view s n H c r" and s: "sn r f = seq16 s" "n \<le> s + 2048" "s < n + 2048" "4096 \<le> n"
  proof (cases "\<exists>n H. 4096 \<le> n \<and> window_ok n H c r")
    case True
    then obtain n H where "4096 \<le> n" "window_ok n H c r" by blast
    then show thesis using near [OF f(2), of n] by (intro that [of "near n (sn r f)" n H]) (auto simp: window_view_def)
  next
    case False
    then have "window_view (unat (sn r f) + 4096) (unat (sn r f) + 4096) Map.empty c r"
      using ok en by (auto simp: ctrl_ok_def window_view_def c_def)
    moreover have "sn r f = seq16 (unat (sn r f) + 4096)" using f(2) by (simp add: seq16_def)
    ultimately show thesis by (intro that) auto
  qed
  note w = window_view_facts [OF v]
  have "\<exists>fs c' r1. reord_ctrl_unit f i t r = put_ctrl i t c' r1 \<and> frames_gone fs r r1 \<and> ctrl_ok c' r \<and>
      mset fs + mset (reord_list c') = mset [f] + mset (reord_list c)"
  proof -
    note ref = ctrl_unit_refines [OF v [unfolded c_def] at s(2,3,1), folded c_def]
    consider "s < n" | "n \<le> s" "s \<in> dom H" | n' H' fs where "n \<le> s" "s \<notin> dom H" "window_release (max n (s + 1 - 64)) (H(s \<mapsto> f)) = (n', H', fs)"
      by (metis not_le prod_cases3)
    then show ?thesis
    proof cases
      case 1
      have g: "frames_gone [f] r (reord_late_frame f (ind_sn c) r)" using f(1) by (rule late_gone)
      have "put_ctrl i t c (reord_late_frame f (ind_sn c) r) = reord_late_frame f (ind_sn c) r"
        using g unfolding c_def by (intro put_same) (simp add: frames_gone_def)
      then show ?thesis using ref(1) [OF 1] ok g
        by (intro exI [of _ "[f]"] exI [of _ c] exI [of _ "reord_late_frame f (ind_sn c) r"]) auto
    next
      case 2
      have "put_ctrl i t c (reord_drop_frame f r) = reord_drop_frame f r" unfolding c_def by (intro put_same) simp
      then show ?thesis using ref(2) [OF 2] ok gone_step(2) [OF f(1)]
        by (intro exI [of _ "[f]"] exI [of _ c] exI [of _ "reord_drop_frame f r"]) auto
    next
      case 3
      obtain c' where c': "reord_ctrl_unit f i t r = put_ctrl i t c' (deliver fs r)" "window_ok n' H' c' r" "reord_timer c' \<longleftrightarrow> reord_list c' \<noteq> []"
        using ref(3) [OF 3] by blast
      have fin: "finite (dom (H(s \<mapsto> f)))" using w(3) by simp
      have bal: "mset fs + mset (reord_list c') = mset [f] + mset (reord_list c)"
      proof -
        have "mset (map (the \<circ> H(s \<mapsto> f)) (sorted_list_of_set (dom (H(s \<mapsto> f))))) = mset fs + mset (reord_list c')"
          using release_mset [OF fin 3(3)] c'(2) by (simp add: window_ok_def)
        moreover have "mset (map (the \<circ> H(s \<mapsto> f)) (sorted_list_of_set (dom (H(s \<mapsto> f))))) = mset [f] + mset (reord_list c)"
        proof -
          have sl: "mset (sorted_list_of_set A) = mset_set A" for A :: "nat set" by (simp flip: sorted_list_of_mset_set)
          have "image_mset (the \<circ> H(s \<mapsto> f)) (mset_set (dom H)) = image_mset (the \<circ> H) (mset_set (dom H))"
            using 3(2) w(3) by (intro image_mset_cong) (auto simp: fun_upd_def)
          then show ?thesis using 3(2) w(3) by (simp add: w(5) sl del: dom_fun_upd) (simp add: sl)
        qed
        ultimately show ?thesis by simp
      qed
      have "n' \<ge> n" using first_missing_props(1) [OF fin, of "max n (s + 1 - 64)"] 3(3) by (auto simp: window_release_def Let_def)
      then have ok': "ctrl_ok c' r" using c'(2,3) s(4) by (auto simp: ctrl_ok_def window_ok_def intro!: exI [of _ n'] exI [of _ H'])
      have "distinct fs" "\<forall>g \<in> set fs. pkt (recv_frames r ! g) \<noteq> None"
      proof -
        have d: "distinct (reord_list c @ [f])" "\<forall>g \<in> set (reord_list c @ [f]). pkt (recv_frames r ! g) \<noteq> None"
          using window_frames [OF inv at] f(1,3) pending_member [OF at] by (auto simp: c_def)
        have m: "mset (fs @ reord_list c') = mset (reord_list c @ [f])" using bal by simp
        show "distinct fs" using d(1) m by (metis distinct_append mset_eq_imp_distinct_iff)
        show "\<forall>g \<in> set fs. pkt (recv_frames r ! g) \<noteq> None" using d(2) mset_eq_setD [OF m] by auto
      qed
      then have "frames_gone fs r (deliver fs r)" by (rule gone_deliver)
      then show ?thesis using c'(1) ok' bal by blast
    qed
  qed
  then obtain fs c' r1 where x: "reord_ctrl_unit f i t r = put_ctrl i t c' r1" "frames_gone fs r r1" "ctrl_ok c' r"
    "mset fs + mset (reord_list c') = mset [f] + mset (reord_list c)" by blast
  show "rx_inv (reord_ctrl_unit f i t r)" "rx_accounted (reord_ctrl_unit f i t r) = add_mset (skb_id skb) (rx_accounted r)"
    using exchange [OF inv at x(2,3), of "[f]"] x(4) f by (auto simp: x(1) c_def frame_id_def)
qed

lemma fresh_gone:
  assumes "rx_inv r" "frames_gone [f] r r'" "pkt (recv_frames r ! f) = Some skb" "f \<notin> set (rxframes_freequeue r @ rx_pending r)"
    "f < MAX_REORD_RXFRAME"
  shows "rx_inv r'" "rx_accounted r' = add_mset (skb_id skb) (rx_accounted r)"
proof -
  have s: "stas_reord_list r' = stas_reord_list r" using assms(2) by (simp add: frames_gone_def)
  then have r': "r' = r'\<lparr>stas_reord_list := stas_reord_list r\<rparr>" and p: "mset [f] + mset (rx_pending r') = mset (rx_pending r) + mset [f]"
    by (simp_all add: rx_pending_def)
  have "length (preorder_ctrl s) = 8 \<and> (\<forall>c \<in> set (preorder_ctrl s). ctrl_ok c r)" if "s \<in> set (stas_reord_list r)" for s
    using assms(1) that by (auto simp: rx_inv_def)
  note e = exchange_stas [OF assms(1,2) r' this p]
  show "rx_inv r'" by (rule e) (use assms in auto)
  have "rx_accounted r' = rx_accounted r + image_mset (frame_id r) (mset [f])" by (rule e) (use assms in auto)
  then show "rx_accounted r' = add_mset (skb_id skb) (rx_accounted r)" using assms(3) by (simp add: frame_id_def)
qed

text \<open>Taking a frame out of the pool and filling it.\<close>

lemma window_ok_frames:
  assumes "\<forall>f \<in> set (reord_list c). sn r f = sn r' f" "window_ok n H c r"
  shows "window_ok n H c r'"
proof -
  have "the (H k) \<in> set (reord_list c)" if "k \<in> dom H" for k
    using assms(2) that by (simp add: window_ok_def)
  then have "sn r' (the (H k)) = seq16 k" if "k \<in> dom H" for k
    using assms that by (metis window_ok_def)
  then show ?thesis using assms(2) by (simp add: window_ok_def)
qed

lemma ctrl_ok_frames: "\<forall>f \<in> set (reord_list c). sn r f = sn r' f \<Longrightarrow> ctrl_ok c r \<Longrightarrow> ctrl_ok c r'"
  unfolding ctrl_ok_def using window_ok_frames [of c r r'] by blast

lemma alloc_fill:
  assumes inv: "rx_inv r" and f: "reord_rxframe_alloc r = Some (f, r0)"
    and r1: "r1 = upd_frame f (\<lambda>_. fill_frame skb seq tid fwd) r0"
  shows "rx_inv r1" "f < MAX_REORD_RXFRAME" "f \<notin> set (rxframes_freequeue r1 @ rx_pending r1)" "pkt (recv_frames r1 ! f) = Some skb"
    "sn r1 f = seq" "rx_accounted r1 = rx_accounted r"
    "stas_reord_list r1 = stas_reord_list r" "bus_down r1 = bus_down r" "rwnx_vif r1 = rwnx_vif r" "rwnx_vifs r1 = rwnx_vifs r"
    "rxframes_freequeue r = f # rxframes_freequeue r1" "kfree_log r1 = kfree_log r" "netif_log r1 = netif_log r"
proof -
  have q: "rxframes_freequeue r = f # rxframes_freequeue r0" and r0: "r0 = r\<lparr>rxframes_freequeue := rxframes_freequeue r0\<rparr>"
    using f by (auto simp: reord_rxframe_alloc_def split: list.splits)
  have p: "rx_pending r1 = rx_pending r" by (subst r1, subst r0) (simp add: rx_pending_def upd_frame_def)
  have n: "f \<notin> set (rx_pending r)" "f < MAX_REORD_RXFRAME" "f \<notin> set (rxframes_freequeue r0)" using inv q by (auto simp: rx_inv_def)
  have other: "recv_frames r1 ! g = recv_frames r ! g" if "g \<noteq> f" for g
    using that by (subst r1, subst r0) (simp add: upd_frame_def)
  have fl: "f < length (recv_frames r)" using inv n(2) by (simp add: rx_inv_def)
  then show "pkt (recv_frames r1 ! f) = Some skb" "sn r1 f = seq"
    by (subst r1, subst r0; simp add: upd_frame_def fill_frame_def)+
  show "f < MAX_REORD_RXFRAME" by (rule n(2))
  have fq: "rxframes_freequeue r1 = rxframes_freequeue r0" and st: "stas_reord_list r1 = stas_reord_list r"
    by (subst r1, subst r0, simp add: upd_frame_def)+
  show "f \<notin> set (rxframes_freequeue r1 @ rx_pending r1)" using n p fq by simp
  show "rx_accounted r1 = rx_accounted r"
  proof -
    have "image_mset (frame_id r1) (mset (rx_pending r)) = image_mset (frame_id r) (mset (rx_pending r))"
      using n(1) other by (intro image_mset_cong) (metis frame_id_def set_mset_mset)
    moreover have "rx_logged r1 = rx_logged r" by (subst r1, subst r0) (simp add: rx_logged_def upd_frame_def)
    ultimately show ?thesis by (simp add: rx_accounted_def p)
  qed
  show "rx_inv r1"
    unfolding rx_inv_def
  proof (intro conjI ballI)
    show "length (recv_frames r1) = MAX_REORD_RXFRAME" by (subst r1, subst r0) (use inv in \<open>simp add: upd_frame_def rx_inv_def\<close>)
    show "distinct (rxframes_freequeue r1 @ rx_pending r1)" "set (rxframes_freequeue r1 @ rx_pending r1) \<subseteq> {..<MAX_REORD_RXFRAME}"
      using inv q by (auto simp: rx_inv_def p fq)
    show "pkt (recv_frames r1 ! g) \<noteq> None" if "g \<in> set (rx_pending r1)" for g
    proof -
      have "g \<noteq> f" using that n(1) p by auto
      then show ?thesis using that other inv by (auto simp: p rx_inv_def)
    qed
    show "length (preorder_ctrl s) = 8" if "s \<in> set (stas_reord_list r1)" for s using inv that by (auto simp: rx_inv_def st)
    show "ctrl_ok c r1" if "s \<in> set (stas_reord_list r1)" "c \<in> set (preorder_ctrl s)" for s c
    proof (rule ctrl_ok_frames)
      show "ctrl_ok c r" using inv that by (auto simp: rx_inv_def st)
      have "set (reord_list c) \<subseteq> set (rx_pending r)" using that by (auto simp: rx_pending_def st)
      then show "\<forall>g \<in> set (reord_list c). sn r g = sn r1 g" using n(1) other by (metis subsetD)
    qed
  qed
  show "stas_reord_list r1 = stas_reord_list r" "bus_down r1 = bus_down r" "rwnx_vif r1 = rwnx_vif r" "rwnx_vifs r1 = rwnx_vifs r"
    "rxframes_freequeue r = f # rxframes_freequeue r1" "kfree_log r1 = kfree_log r" "netif_log r1 = netif_log r"
    using q fq st by simp_all (subst r1, subst r0, simp add: upd_frame_def)+
qed

lemma kfree_effect:
  "rx_inv (dev_kfree_skb skb r) = rx_inv r" "rx_accounted (dev_kfree_skb skb r) = add_mset (skb_id skb) (rx_accounted r)"
  by (simp_all add: dev_kfree_skb_def rx_inv_def rx_pending_def rx_accounted_def rx_logged_def frame_id_def [abs_def]
    ctrl_ok_def window_ok_def)

lemma sta_index_less: "reord_sta_index mac ss = Some i \<Longrightarrow> i < length ss \<and> mac_addr (ss ! i) = mac"
  by (induction mac ss arbitrary: i rule: reord_sta_index.induct) (auto split: if_splits)

lemma get_sta_effect:
  assumes "rx_inv r" "reord_get_sta km mac r = Some (i, r')"
  obtains ss where "r' = r\<lparr>stas_reord_list := ss\<rparr>" "rx_inv r'" "rx_accounted r' = rx_accounted r"
    "t < 8 \<Longrightarrow> ctrl_at r' i t" "rx_pending r' = rx_pending r"
proof (cases "reord_sta_index mac (stas_reord_list r)")
  case None
  then obtain s where s: "reord_init_sta km r mac = Some s" and r': "i = length (stas_reord_list r)" "r' = r\<lparr>stas_reord_list := stas_reord_list r @ [s]\<rparr>"
    using assms(2) by (auto simp: reord_get_sta_def)
  have c: "preorder_ctrl s = replicate 8 reord_ctrl_init" using s by (auto simp: reord_init_sta_def split: if_splits)
  have p: "rx_pending r' = rx_pending r" by (simp add: r' rx_pending_def c reord_ctrl_init_def concat_replicate_trivial)
  have "ctrl_ok reord_ctrl_init r" by (simp add: ctrl_ok_def reord_ctrl_init_def)
  moreover have "ctrl_ok c r' = ctrl_ok c r" for c by (rule ctrl_ok_cong) (simp add: r')
  ultimately have "rx_inv r'" using assms(1) unfolding rx_inv_def p by (simp add: r'(2) c ball_Un)
  moreover have "rx_accounted r' = rx_accounted r"
    using p by (simp add: rx_accounted_def rx_logged_def r'(2) frame_id_def [abs_def])
  ultimately show thesis using p r' by (intro that [of "stas_reord_list r @ [s]"]) (auto simp: ctrl_at_def c)
next
  case (Some j)
  then have "i = j" "r' = r" using assms(2) by (auto simp: reord_get_sta_def)
  then show thesis using Some sta_index_less [OF Some] assms(1)
    by (intro that [of "stas_reord_list r"]) (auto simp: ctrl_at_def rx_inv_def)
qed

text \<open>Changing a window without its frames.\<close>

lemma keep_frames:
  assumes "rx_inv r" "ctrl_at r i t" "ctrl_ok c r" "reord_list c = reord_list (get_ctrl r i t)"
  shows "rx_inv (put_ctrl i t c r)" "rx_accounted (put_ctrl i t c r) = rx_accounted r" "mset (rx_pending (put_ctrl i t c r)) = mset (rx_pending r)"
  using exchange [OF assms(1,2) gone_nil assms(3), of "[]"] assms(4) pending_put [OF assms(2), of c] by simp_all

lemma reenable_effect:
  assumes "rx_inv r" "ctrl_at r i t"
  shows "rx_inv (reord_reenable i t r)" "rx_accounted (reord_reenable i t r) = rx_accounted r" "ctrl_at (reord_reenable i t r) i t"
    "enable (get_ctrl (reord_reenable i t r) i t)" "recv_frames (reord_reenable i t r) = recv_frames r"
    "rxframes_freequeue (reord_reenable i t r) = rxframes_freequeue r" "mset (rx_pending (reord_reenable i t r)) = mset (rx_pending r)"
proof -
  define c where "c = (get_ctrl r i t)\<lparr>enable := True, ind_sn := 0xffff, wsize_b := AICWF_REORDER_WINSIZE\<rparr>"
  have "ctrl_ok c r" if "\<not> enable (get_ctrl r i t)"
    using inv_ctrl [OF assms] that by (auto simp: c_def ctrl_ok_def window_ok_def)
  then have k: "rx_inv (put_ctrl i t c r)" "rx_accounted (put_ctrl i t c r) = rx_accounted r" "mset (rx_pending (put_ctrl i t c r)) = mset (rx_pending r)"
    if "\<not> enable (get_ctrl r i t)" using keep_frames [OF assms, of c] that by (simp_all add: c_def)
  show "rx_inv (reord_reenable i t r)" "rx_accounted (reord_reenable i t r) = rx_accounted r" "ctrl_at (reord_reenable i t r) i t"
    "enable (get_ctrl (reord_reenable i t r) i t)" "recv_frames (reord_reenable i t r) = recv_frames r"
    "rxframes_freequeue (reord_reenable i t r) = rxframes_freequeue r" "mset (rx_pending (reord_reenable i t r)) = mset (rx_pending r)"
    using assms k by (simp_all add: reord_reenable_def Let_def c_def)
qed

lemma process_unit_step:
  assumes inv: "rx_inv r" and q: "unat seq < 4096" and ok: "reord_process_unit km skb seq tid fwd r = Inr (r', ret)"
  shows "rx_inv r'" "rx_accounted r' = add_mset (skb_id skb) (rx_accounted r)"
proof -
  have "rx_inv r' \<and> rx_accounted r' = add_mset (skb_id skb) (rx_accounted r)"
  proof (cases "rwnx_vif r = None \<or> skb_len skb \<le> 14 \<or> reord_rxframe_alloc r = None")
    case True
    then have "r' = dev_kfree_skb skb r" using ok by (auto simp: reord_process_unit_def split: if_splits)
    then show ?thesis using inv by (simp add: kfree_effect)
  next
    case False
    then obtain f r0 where f: "reord_rxframe_alloc r = Some (f, r0)" by auto
    define r1 where "r1 = upd_frame f (\<lambda>_. fill_frame skb seq tid fwd) r0"
    note a = alloc_fill [OF inv f r1_def]
    have ok: "reord_process_frame km skb tid f r1 = Inr (r', ret)"
      using ok False f by (auto simp: reord_process_unit_def r1_def)
    show ?thesis
    proof (cases "h_proto skb = ETH_P_PAE \<or> is_mcast skb")
      case True
      then have "r' = fst (reord_single_frame_ind f r1)" using ok by (simp add: reord_process_frame_def)
      then show ?thesis using fresh_gone [OF a(1) gone_step(1) [OF a(4)] a(4,3,2)] a(6) by simp
    next
      case pae: False
      show ?thesis
      proof (cases "reord_mac (cur_iftype r1) skb")
        case None
        then have "r' = dev_kfree_skb skb r1" using ok pae by (simp add: reord_process_frame_def)
        then show ?thesis using a(1,6) by (simp add: kfree_effect)
      next
        case mac: (Some mac)
        show ?thesis
        proof (cases "reord_get_sta km mac r1")
          case None
          then have "r' = dev_kfree_skb skb r1" using ok pae mac by (simp add: reord_process_frame_def)
          then show ?thesis using a(1,6) by (simp add: kfree_effect)
        next
          case (Some ir)
          then obtain i r2 where s: "reord_get_sta km mac r1 = Some (i, r2)" by (cases ir) auto
          have tid: "unat tid < 8" and r': "r' = reord_ctrl_unit f i (unat tid) (reord_reenable i (unat tid) r2)"
            using ok pae mac s by (auto simp: reord_process_frame_def split: if_splits)
          from get_sta_effect [OF a(1) s, of "unat tid"] obtain ss where r2: "r2 = r1\<lparr>stas_reord_list := ss\<rparr>"
            and g: "rx_inv r2" "rx_accounted r2 = rx_accounted r1" "ctrl_at r2 i (unat tid)" "rx_pending r2 = rx_pending r1"
            using tid by metis
          define r3 where "r3 = reord_reenable i (unat tid) r2"
          note e = reenable_effect [OF g(1,3), folded r3_def]
          have "set (rx_pending r3) = set (rx_pending r1)" using mset_eq_setD [OF e(7)] g(4) by simp
          then have fr: "pkt (recv_frames r3 ! f) = Some skb" "unat (sn r3 f) < 4096" "f \<notin> set (rxframes_freequeue r3 @ rx_pending r3)"
            using a(3,4,5) q e(5,6) by (simp_all add: r2)
          show ?thesis using ctrl_unit_step [OF e(1,3,4) fr a(2)] e(2) g(2) a(6) by (simp add: r' r3_def [symmetric])
        qed
      qed
    qed
  qed
  then show "rx_inv r'" "rx_accounted r' = add_mset (skb_id skb) (rx_accounted r)" by auto
qed

lemma worker_step:
  assumes inv: "rx_inv r" and at: "ctrl_at r i t"
  shows "rx_inv (reord_timeout_worker i t r)" "rx_accounted (reord_timeout_worker i t r) = rx_accounted r"
proof -
  define c where "c = get_ctrl r i t"
  have ok: "ctrl_ok c r" using inv_ctrl [OF inv at] by (simp add: c_def)
  have "\<exists>fs c' r1. reord_timeout_worker i t r = put_ctrl i t c' r1 \<and> frames_gone fs r r1 \<and> ctrl_ok c' r \<and>
      mset fs + mset (reord_list c') = mset (reord_list c)"
  proof (cases "reord_list c = []")
    case True
    have "ctrl_ok (c\<lparr>reord_timer_work := False\<rparr>) r" using ok True by (auto simp: ctrl_ok_def window_ok_def)
    then show ?thesis using worker_idle [of r i t] True
      by (intro exI [of _ "[]"] exI [of _ "c\<lparr>reord_timer_work := False\<rparr>"] exI [of _ r]) (simp add: c_def)
  next
    case False
    then obtain n H where n: "4096 \<le> n" "window_ok n H c r" using ok by (auto simp: ctrl_ok_def)
    then have fin: "finite (dom H)" and ne: "dom H \<noteq> {}" and l: "reord_list c = map (the \<circ> H) (sorted_list_of_set (dom H))"
      using False by (auto simp: window_ok_def)
    obtain n' H' fs where rel: "window_release (Min (dom H)) H = (n', H', fs)" by (metis prod_cases3)
    obtain c' where c': "reord_timeout_worker i t r = put_ctrl i t c' (deliver fs r)" "window_ok n' H' c' r" "reord_list c' \<noteq> [] \<longrightarrow> reord_timer c'"
      using worker_refines [OF n(2) [unfolded c_def] rel ne] by blast
    have bal: "mset fs + mset (reord_list c') = mset (reord_list c)"
      using release_mset [OF fin rel] c'(2) l by (simp add: window_ok_def)
    have "n < Min (dom H)" using n(2) fin ne by (auto simp: window_ok_def)
    then have "4096 \<le> n'" using first_missing_props(1) [OF fin, of "Min (dom H)"] n(1) rel by (auto simp: window_release_def Let_def)
    then have ok': "ctrl_ok c' r" using c'(2,3) by (auto simp: ctrl_ok_def window_ok_def intro!: exI [of _ n'] exI [of _ H'])
    have d: "distinct (reord_list c)" "\<forall>f \<in> set (reord_list c). pkt (recv_frames r ! f) \<noteq> None"
      using window_frames [OF inv at] by (simp_all add: c_def)
    have m: "mset (fs @ reord_list c') = mset (reord_list c)" using bal by simp
    have "distinct fs" "\<forall>f \<in> set fs. pkt (recv_frames r ! f) \<noteq> None"
      using d mset_eq_setD [OF m] mset_eq_imp_distinct_iff [OF m] by auto
    then have "frames_gone fs r (deliver fs r)" by (rule gone_deliver)
    then show ?thesis using c'(1) ok' bal by blast
  qed
  then obtain fs c' r1 where x: "reord_timeout_worker i t r = put_ctrl i t c' r1" "frames_gone fs r r1" "ctrl_ok c' r"
    "mset fs + mset (reord_list c') = mset (reord_list c)" by blast
  show "rx_inv (reord_timeout_worker i t r)" "rx_accounted (reord_timeout_worker i t r) = rx_accounted r"
    using exchange [OF inv at x(2,3), of "[]"] x(4) by (simp_all add: x(1) c_def)
qed

lemma handler_step:
  assumes "rx_inv r" "ctrl_at r i t"
  shows "rx_inv (reord_timeout_handler i t r)" "rx_accounted (reord_timeout_handler i t r) = rx_accounted r"
proof -
  have "ctrl_ok ((get_ctrl r i t)\<lparr>reord_timer := False, reord_timer_work := True\<rparr>) r"
    using inv_ctrl [OF assms] unfolding ctrl_ok_def window_ok_cong [OF refl] by auto
  then show "rx_inv (reord_timeout_handler i t r)" "rx_accounted (reord_timeout_handler i t r) = rx_accounted r"
    using keep_frames [OF assms] by (simp_all add: reord_timeout_handler_def upd_ctrl_def)
qed

lemma flush_step:
  assumes inv: "rx_inv r" and ok: "reord_flush_tid skb tid r = Inr (r', ret)"
  shows "rx_inv r'" "rx_accounted r' = rx_accounted r + (if ret = 0 then {#} else {#skb_id skb#})"
proof -
  have "rx_inv r' \<and> rx_accounted r' = rx_accounted r + (if ret = 0 then {#} else {#skb_id skb#})"
  proof (cases "reord_mac (cur_iftype r) skb")
    case None
    then have "r' = dev_kfree_skb skb r" "ret = -1" using ok by (auto simp: reord_flush_tid_def)
    then show ?thesis using inv by (simp add: kfree_effect)
  next
    case mac: (Some mac)
    show ?thesis
    proof (cases "reord_sta_index mac (stas_reord_list r)")
      case None
      then show ?thesis using ok mac inv by (auto simp: reord_flush_tid_def)
    next
      case i: (Some i)
      have tid: "unat tid < 8" using ok mac i by (auto simp: reord_flush_tid_def split: if_splits)
      define t where "t = unat tid"
      define c where "c = get_ctrl r i t"
      have at: "ctrl_at r i t" using sta_index_less [OF i] inv tid by (simp add: ctrl_at_def rx_inv_def t_def)
      show ?thesis
      proof (cases "enable c")
        case False
        then show ?thesis using ok mac i tid inv by (auto simp: reord_flush_tid_def c_def t_def Let_def)
      next
        case True
        have r': "r' = put_ctrl i t (reord_cancel c\<lparr>enable := False\<rparr>) (deliver (reord_list c) r)" "ret = 0"
          using ok mac i tid True by (auto simp: reord_flush_tid_def c_def t_def Let_def deliver_def)
        have "frames_gone (reord_list c) r (deliver (reord_list c) r)"
          using window_frames [OF inv at] by (intro gone_deliver) (simp_all add: c_def)
        moreover have "ctrl_ok (reord_cancel c\<lparr>enable := False\<rparr>) r"
          using inv_ctrl [OF inv at] by (simp add: ctrl_ok_def reord_cancel_def c_def)
        ultimately show ?thesis using exchange [OF inv at, of "reord_list c" _ _ "[]"] by (simp add: r' reord_cancel_def c_def)
      qed
    qed
  qed
  then show "rx_inv r'" "rx_accounted r' = rx_accounted r + (if ret = 0 then {#} else {#skb_id skb#})" by auto
qed

lemma fold_concat: "fold (\<lambda>x. fold f (g x)) xs s = fold f (concat (map g xs)) s"
  by (induction xs arbitrary: s) simp_all

lemma deinit_step:
  assumes inv: "rx_inv r" and i: "i < length (stas_reord_list r)"
  shows "rx_inv (reord_deinit_sta i r)" "rx_accounted (reord_deinit_sta i r) = rx_accounted r"
    "length (stas_reord_list (reord_deinit_sta i r)) = length (stas_reord_list r) - 1"
proof -
  define L where "L = (\<lambda>s :: reord_ctrl_info. concat (map reord_list (preorder_ctrl s)))"
  define ss where "ss = take i (stas_reord_list r) @ drop (Suc i) (stas_reord_list r)"
  define fs where "fs = L (stas_reord_list r ! i)"
  define r1 where "r1 = fold reord_drop_frame fs r"
  have split: "stas_reord_list r = take i (stas_reord_list r) @ stas_reord_list r ! i # drop (Suc i) (stas_reord_list r)"
    using i by (rule id_take_nth_drop)
  have "mset (concat (map L (stas_reord_list r))) = mset fs + mset (concat (map L ss))"
    by (subst split) (simp add: fs_def ss_def)
  then have pend: "mset (rx_pending r) = mset fs + mset (concat (map L ss))" by (simp add: rx_pending_def L_def)
  have "distinct fs" "\<forall>f \<in> set fs. pkt (recv_frames r ! f) \<noteq> None"
  proof -
    have m: "mset (rx_pending r) = mset (fs @ concat (map L ss))" using pend by simp
    have "distinct (rx_pending r)" "\<forall>f \<in> set (rx_pending r). pkt (recv_frames r ! f) \<noteq> None" using inv by (auto simp: rx_inv_def)
    then show "distinct fs" "\<forall>f \<in> set fs. pkt (recv_frames r ! f) \<noteq> None"
      using mset_eq_imp_distinct_iff [OF m] mset_eq_setD [OF m] by auto
  qed
  then have gone: "frames_gone fs r r1" unfolding r1_def by (rule gone_drop)
  have stas: "stas_reord_list r1 = stas_reord_list r" using gone by (simp add: frames_gone_def)
  have r': "reord_deinit_sta i r = r1\<lparr>stas_reord_list := ss\<rparr>"
    by (simp add: reord_deinit_sta_def Let_def fold_concat r1_def fs_def L_def ss_def) (simp add: stas [unfolded r1_def fs_def L_def])
  have "length (preorder_ctrl s) = 8 \<and> (\<forall>c \<in> set (preorder_ctrl s). ctrl_ok c r)" if "s \<in> set ss" for s
    using inv that by (auto simp: rx_inv_def ss_def dest: in_set_takeD in_set_dropD)
  moreover have "mset fs + mset (rx_pending (reord_deinit_sta i r)) = mset (rx_pending r) + mset []"
    by (simp add: pend) (simp add: r' rx_pending_def L_def)
  ultimately show "rx_inv (reord_deinit_sta i r)" "rx_accounted (reord_deinit_sta i r) = rx_accounted r"
    using exchange_stas [OF inv gone r', of "[]"] by simp_all
  show "length (stas_reord_list (reord_deinit_sta i r)) = length (stas_reord_list r) - 1" using i by (simp add: r' ss_def)
qed

lemma del_step:
  assumes "rx_inv r"
  shows "rx_inv (reord_del_sta mac r)" "rx_accounted (reord_del_sta mac r) = rx_accounted r"
  using assms deinit_step [OF assms] sta_index_less by (auto simp: reord_del_sta_def split: option.splits)

lemma deinit_all_step:
  assumes "rx_inv r"
  shows "rx_inv (reord_deinit_all r)" "rx_accounted (reord_deinit_all r) = rx_accounted r" "stas_reord_list (reord_deinit_all r) = []"
proof -
  have "rx_inv r' \<and> rx_accounted r' = rx_accounted r \<and> length (stas_reord_list r') = length (stas_reord_list r) - k"
    if "k \<le> length (stas_reord_list r)" "r' = (reord_deinit_sta 0 ^^ k) r" for k r'
    using that
  proof (induction k arbitrary: r')
    case (Suc k)
    define r1 where "r1 = (reord_deinit_sta 0 ^^ k) r"
    have "rx_inv r1 \<and> rx_accounted r1 = rx_accounted r \<and> length (stas_reord_list r1) = length (stas_reord_list r) - k"
      using Suc by (intro Suc.IH) (simp_all add: r1_def)
    then show ?case using deinit_step [of r1 0] Suc.prems by (auto simp: r1_def)
  qed (use assms in simp)
  from this [OF order.refl refl] show "rx_inv (reord_deinit_all r)" "rx_accounted (reord_deinit_all r) = rx_accounted r" "stas_reord_list (reord_deinit_all r) = []"
    by (auto simp: reord_deinit_all_def)
qed

lemma queue_init_eq: "aicwf_rxframe_queue_init n = rev [0..<n]"
proof -
  have "fold (\<lambda>i q. i # q) xs q = rev xs @ q" for xs q :: "nat list" by (induction xs arbitrary: q) simp_all
  then show ?thesis by (simp add: aicwf_rxframe_queue_init_def)
qed

lemma init_step:
  assumes "aicwf_rx_init vifs down garbage a b = Some r"
  shows "rx_inv r" "rx_accounted r = {#}"
proof -
  have r: "recv_frames r = map (\<lambda>i. (garbage i)\<lparr>msdu_len := 0\<rparr>) [0..<MAX_REORD_RXFRAME]" "stas_reord_list r = []"
    "rxframes_freequeue r = rev [0..<MAX_REORD_RXFRAME]" "netif_log r = []" "kfree_log r = []"
    using assms by (auto simp: aicwf_rx_init_def queue_init_eq split: if_splits)
  then show "rx_inv r" "rx_accounted r = {#}" by (auto simp: rx_inv_def rx_pending_def rx_accounted_def rx_logged_def)
qed

subsection \<open>Runs\<close>

text \<open>A run of the component, with the buffers that came in.  The sequence number of a frame has 12 bits.\<close>

inductive rx_run :: "rx_priv \<Rightarrow> nat multiset \<Rightarrow> bool" where
  init: "aicwf_rx_init vifs down garbage True True = Some r \<Longrightarrow> rx_run r {#}"
| vif: "rx_run r ins \<Longrightarrow> v < length (rwnx_vifs r) \<Longrightarrow> rx_run (r\<lparr>rwnx_vif := Some v\<rparr>) ins"
| conf: "rx_run r ins \<Longrightarrow> length vs = length (rwnx_vifs r) \<Longrightarrow> rx_run (r\<lparr>rwnx_vifs := vs, bus_down := down\<rparr>) ins"
| unit: "rx_run r ins \<Longrightarrow> unat seq < 4096 \<Longrightarrow> reord_process_unit km skb seq tid fwd r = Inr (r', ret) \<Longrightarrow>
    rx_run r' (add_mset (skb_id skb) ins)"
| flush: "rx_run r ins \<Longrightarrow> reord_flush_tid skb tid r = Inr (r', ret) \<Longrightarrow>
    rx_run r' (ins + (if ret = 0 then {#} else {#skb_id skb#}))"
| timer: "rx_run r ins \<Longrightarrow> ctrl_at r i t \<Longrightarrow> reord_timer (get_ctrl r i t) \<Longrightarrow> rx_run (reord_timeout_handler i t r) ins"
| work: "rx_run r ins \<Longrightarrow> ctrl_at r i t \<Longrightarrow> reord_timer_work (get_ctrl r i t) \<Longrightarrow> rx_run (reord_timeout_worker i t r) ins"
| leave: "rx_run r ins \<Longrightarrow> rx_run (reord_del_sta mac r) ins"
| deinit: "rx_run r ins \<Longrightarrow> rx_run (reord_deinit_all r) ins"

lemma inv_conf:
  "rx_inv (r\<lparr>rwnx_vif := v\<rparr>) = rx_inv r" "rx_accounted (r\<lparr>rwnx_vif := v\<rparr>) = rx_accounted r"
  "rx_inv (r\<lparr>rwnx_vifs := vs, bus_down := d\<rparr>) = rx_inv r" "rx_accounted (r\<lparr>rwnx_vifs := vs, bus_down := d\<rparr>) = rx_accounted r"
  by (simp_all add: rx_inv_def rx_pending_def rx_accounted_def rx_logged_def frame_id_def [abs_def] ctrl_ok_def window_ok_def)

lemma run_inv: "rx_run r ins \<Longrightarrow> rx_inv r \<and> rx_accounted r = ins"
proof (induction rule: rx_run.induct)
  case (init vifs down garbage r)
  then show ?case using init_step by blast
next
  case (vif r ins v)
  then show ?case by (simp add: inv_conf)
next
  case (conf r ins vs down)
  then show ?case by (simp add: inv_conf)
next
  case (unit r ins seq km skb tid fwd r' ret)
  then show ?case using process_unit_step by blast
next
  case (flush r ins skb tid r' ret)
  then show ?case using flush_step by blast
next
  case (timer r ins i t)
  then show ?case using handler_step by blast
next
  case (work r ins i t)
  then show ?case using worker_step by blast
next
  case (leave r ins mac)
  then show ?case using del_step by blast
next
  case (deinit r ins)
  then show ?case using deinit_all_step by blast
qed

subsection \<open>Properties\<close>

text \<open>C6. The reordering refines a window over unbounded sequence numbers (\<open>window_recv\<close>): for a frame less
  than half the circle of 4096 numbers away from the start of the window, the code (\<open>reord_need_check\<close>,
  \<open>reord_rxframe_enqueue\<close>, \<open>reord_rxframes_process\<close>, \<open>reord_rxframes_ind\<close>) treats it as late, drops it as
  a duplicate, or accepts it exactly as the abstract window does: the same frames are delivered, in
  the order of their numbers, the window starts at the first missing number, keeps the frames
  behind it, and the timer runs exactly when some are kept.\<close>

theorem reord_window_refines:
  assumes "window_view s n H (get_ctrl r i t) r" "ctrl_at r i t" "n \<le> s + 2048" "s < n + 2048" "sn r f = seq16 s"
  shows "case window_recv 64 s f n H of
      Late \<Rightarrow> reord_ctrl_unit f i t r = reord_late_frame f (ind_sn (get_ctrl r i t)) r
    | Duplicate \<Rightarrow> reord_ctrl_unit f i t r = reord_drop_frame f r
    | Accepted n' H' fs \<Rightarrow> \<exists>c. reord_ctrl_unit f i t r = put_ctrl i t c (deliver fs r) \<and> window_ok n' H' c r \<and>
        (reord_timer c \<longleftrightarrow> reord_list c \<noteq> []) \<and>
        (\<exists>ks. sorted_wrt (<) ks \<and> set ks = {k \<in> insert s (dom H). k < n'} \<and> map (sn r) fs = map seq16 ks)"
proof -
  note ref = ctrl_unit_refines [OF assms]
  note w = window_view_facts [OF assms(1)]
  obtain n' H' fs where rel: "window_release (max n (s + 1 - 64)) (H(s \<mapsto> f)) = (n', H', fs)" by (metis prod_cases3)
  have "finite (dom (H(s \<mapsto> f)))" "\<forall>k \<in> dom (H(s \<mapsto> f)). sn r (the ((H(s \<mapsto> f)) k)) = seq16 k" using w(3,6) assms(5) by auto
  note ord = release_order [OF this(1) rel this(2)]
  have "dom (H(s \<mapsto> f)) = insert s (dom H)" by simp
  note ord = ord [unfolded this]
  consider "s < n" | "n \<le> s" "s \<in> dom H" | "n \<le> s" "s \<notin> dom H" by linarith
  then show ?thesis
  proof cases
    case 1
    then show ?thesis using ref(1) by (simp add: window_recv_def)
  next
    case 2
    then show ?thesis using ref(2) by (simp add: window_recv_def)
  next
    case 3
    obtain c where "reord_ctrl_unit f i t r = put_ctrl i t c (deliver fs r)" "window_ok n' H' c r" "reord_timer c \<longleftrightarrow> reord_list c \<noteq> []"
      using ref(3) [OF 3 rel] by blast
    with ord 3 rel show ?thesis by (simp add: window_recv_def) blast
  qed
qed

definition demo_skb :: "nat \<Rightarrow> sk_buff" where "demo_skb k = \<lparr>skb_id = k, skb_mem = \<lambda>_. 0, skb_len = 100\<rparr>"
definition demo_window :: reord_ctrl where
  "demo_window = \<lparr>enable = True, ind_sn = 10, wsize_b = 64, reord_list = [0], reord_timer = True, reord_timer_work = False\<rparr>"
definition demo_rx :: rx_priv where
  "demo_rx = \<lparr>rwnx_vifs = [\<lparr>iftype = NL80211_IFTYPE_STATION, rx_packets = 0, rx_bytes = 0\<rparr>], rwnx_vif = Some 0, bus_down = False,
     recv_frames = [fill_frame (demo_skb 0) 11 0 1, fill_frame (demo_skb 1) 10 0 1], rxframes_freequeue = [],
     stas_reord_list = [\<lparr>mac_addr = replicate 6 0, preorder_ctrl = [demo_window]\<rparr>], netif_log = [], kfree_log = []\<rparr>"

lemma demo_ok: "window_ok 10 [11 \<mapsto> 0] demo_window demo_rx" "get_ctrl demo_rx 0 0 = demo_window" "ctrl_at demo_rx 0 0"
  by (simp_all add: window_ok_def demo_window_def demo_rx_def AICWF_REORDER_WINSIZE_def seq16_def fill_frame_def get_ctrl_def ctrl_at_def)

lemma reord_window_refines_witness:
  "case window_recv 64 10 1 10 [11 \<mapsto> 0] of
      Late \<Rightarrow> False
    | Duplicate \<Rightarrow> reord_ctrl_unit 1 0 0 demo_rx = reord_drop_frame 1 demo_rx
    | Accepted n' H' fs \<Rightarrow> \<exists>c. reord_ctrl_unit 1 0 0 demo_rx = put_ctrl 0 0 c (deliver fs demo_rx) \<and> window_ok n' H' c demo_rx"
proof -
  have v: "window_view 10 10 [11 \<mapsto> 0] (get_ctrl demo_rx 0 0) demo_rx" using demo_ok by (simp add: window_view_def)
  have q: "sn demo_rx 1 = seq16 10" by (simp add: demo_rx_def fill_frame_def seq16_def)
  show ?thesis
    using reord_window_refines [OF v demo_ok(3) _ _ q] by (auto simp: window_recv_def split: verdict.splits prod.splits)
qed

text \<open>C22. An expired timer gives up on the missing frames before the first one held: the work item delivers
  the first frame and all that follow it without a gap, keeps the rest of the window and arms the
  timer again when something is left.  So a held frame never waits for more expirations than there
  are gaps before it.\<close>

theorem reord_timeout_refines:
  assumes "window_ok n H (get_ctrl r i t) r" "ctrl_at r i t" "H \<noteq> Map.empty" "window_release (Min (dom H)) H = (n', H', fs)"
  shows "\<exists>c. reord_timeout_worker i t r = put_ctrl i t c (deliver fs r) \<and> window_ok n' H' c r \<and> (reord_list c = [] \<or> reord_timer c) \<and>
    hd (reord_list (get_ctrl r i t)) \<in> set fs \<and> card (dom H') < card (dom H)"
proof -
  have fin: "finite (dom H)" and ne: "dom H \<noteq> {}" using assms(1,3) by (auto simp: window_ok_def)
  have rel: "n' = first_missing (Min (dom H)) H" "H' = H |` {n'..}" "fs = map (the \<circ> H) (sorted_list_of_set {k \<in> dom H. k < n'})"
    using assms(4) by (auto simp: window_release_def Let_def)
  have m: "Min (dom H) \<in> dom H" using fin ne by simp
  have "H n' = None" "Min (dom H) \<le> n'" using first_missing_props [OF fin, of "Min (dom H)"] by (simp_all add: rel(1))
  with m have lt: "Min (dom H) < n'" by (metis domIff order_le_less)
  have "hd (reord_list (get_ctrl r i t)) = the (H (Min (dom H)))"
    using assms(1) fin ne by (simp add: window_ok_def sorted_list_of_set_nonempty)
  then have h: "hd (reord_list (get_ctrl r i t)) \<in> set fs" using m lt fin by (auto simp: rel(3))
  have "Min (dom H) \<notin> dom H'" using lt by (auto simp: rel(2) restrict_map_def)
  moreover have "dom H' \<subseteq> dom H" by (auto simp: rel(2))
  ultimately have "card (dom H') < card (dom H)" using m fin by (intro psubset_card_mono) auto
  moreover obtain c where "reord_timeout_worker i t r = put_ctrl i t c (deliver fs r)" "window_ok n' H' c r" "reord_list c \<noteq> [] \<longrightarrow> reord_timer c"
    using worker_refines [OF assms(1,4) ne] by blast
  ultimately show ?thesis using h by blast
qed

lemma reord_timeout_refines_witness:
  "\<exists>n' H' fs c. window_release (Min (dom ([11 \<mapsto> 0] :: nat \<rightharpoonup> nat))) ([11 \<mapsto> 0] :: nat \<rightharpoonup> nat) = (n', H', fs) \<and>
    reord_timeout_worker 0 0 demo_rx = put_ctrl 0 0 c (deliver fs demo_rx) \<and> 0 \<in> set fs"
proof -
  obtain n' H' fs where rel: "window_release (Min (dom ([11 \<mapsto> 0] :: nat \<rightharpoonup> nat))) ([11 \<mapsto> 0] :: nat \<rightharpoonup> nat) = (n', H', fs)" by (metis prod_cases3)
  have ne: "[11 :: nat \<mapsto> 0 :: nat] \<noteq> Map.empty" by simp
  have "\<exists>c. reord_timeout_worker 0 0 demo_rx = put_ctrl 0 0 c (deliver fs demo_rx) \<and> hd (reord_list demo_window) \<in> set fs"
    using reord_timeout_refines [of 10 "[11 \<mapsto> 0]" demo_rx 0 0, unfolded demo_ok(2), OF demo_ok(1,3) ne rel] by blast
  then show ?thesis using rel by (auto simp: demo_window_def)
qed

text \<open>C11. In every run the pool and the windows fit together: a frame structure is free or held by one
  window, never both and never twice; every window is a view of an abstract window or is still to
  start; and a window that holds frames has its timer armed or its work item queued, so that no
  frame is stuck.\<close>

theorem rx_reorder_sound:
  assumes "rx_run r ins" "ctrl_at r i t"
  shows "distinct (rxframes_freequeue r @ rx_pending r) \<and> set (rxframes_freequeue r @ rx_pending r) \<subseteq> {..<MAX_REORD_RXFRAME} \<and>
    ((\<exists>n H. window_ok n H (get_ctrl r i t) r) \<or> reord_list (get_ctrl r i t) = []) \<and>
    (reord_list (get_ctrl r i t) = [] \<or> reord_timer (get_ctrl r i t) \<or> reord_timer_work (get_ctrl r i t))"
proof -
  have inv: "rx_inv r" using run_inv [OF assms(1)] by simp
  then show ?thesis using inv_ctrl [OF inv assms(2)] by (auto simp: rx_inv_def ctrl_ok_def)
qed

text \<open>C12. No buffer is lost and none is freed or delivered twice: in every run the buffers that came in are
  those given to the network stack, those freed and those held by a window.\<close>

theorem reord_skb_conserved:
  assumes "rx_run r ins"
  shows "ins = image_mset (skb_id \<circ> fst) (mset (netif_log r)) + image_mset skb_id (mset (kfree_log r)) +
    image_mset (frame_id r) (mset (rx_pending r))"
  using run_inv [OF assms] by (simp add: rx_accounted_def rx_logged_def)

text \<open>A run: the interface comes up and frames 5, 7 and 6 of a station arrive.\<close>

definition demo_start :: rx_priv where
  "demo_start = (the (aicwf_rx_init [\<lparr>iftype = NL80211_IFTYPE_STATION, rx_packets = 0, rx_bytes = 0\<rparr>] False
     (\<lambda>_. fill_frame (demo_skb 0) 0 0 0) True True))\<lparr>rwnx_vif := Some 0\<rparr>"
definition demo_recv :: "nat \<Rightarrow> u16 \<Rightarrow> rx_priv \<Rightarrow> rx_priv" where
  "demo_recv k q r = (case reord_process_unit True (demo_skb k) q 0 1 r of Inl _ \<Rightarrow> r | Inr (r', _) \<Rightarrow> r')"
definition demo_run2 :: rx_priv where "demo_run2 = demo_recv 2 7 (demo_recv 1 5 demo_start)"

lemma demo_recv_run:
  assumes "rx_run r ins" "unat q < 4096" "\<not> isl (reord_process_unit True (demo_skb k) q 0 1 r)"
  shows "rx_run (demo_recv k q r) (add_mset k ins)"
proof (cases "reord_process_unit True (demo_skb k) q 0 1 r")
  case (Inr x)
  obtain r' ret where x: "x = (r', ret)" by (cases x)
  show ?thesis using rx_run.unit [OF assms(1,2), of True "demo_skb k" 0 1 r' ret] Inr by (simp add: demo_recv_def x demo_skb_def)
qed (use assms(3) in auto)

text \<open>What the witnesses need of the state, evaluated once.\<close>

definition demo_view :: "rx_priv \<Rightarrow> bool" where
  "demo_view r \<longleftrightarrow> ctrl_at r 0 0 \<and> enable (get_ctrl r 0 0) \<and> reord_list (get_ctrl r 0 0) = [249] \<and> wsize_b (get_ctrl r 0 0) = 64 \<and>
     ind_sn (get_ctrl r 0 0) = 6 \<and> sn r 249 = 7 \<and> forward (recv_frames r ! 249) = 1 \<and> map snd (netif_log r) = [0] \<and>
     rwnx_vif r = Some 0 \<and> rxframes_freequeue r \<noteq> [] \<and> iftype (rwnx_vifs r ! 0) = NL80211_IFTYPE_STATION \<and>
     map mac_addr (stas_reord_list r) = [[0, 0, 0, 0, 0, 0]]"

lemma demo_inr:
  "\<not> isl (reord_process_unit True (demo_skb 1) 5 0 1 demo_start)"
  "\<not> isl (reord_process_unit True (demo_skb 2) 7 0 1 (demo_recv 1 5 demo_start))"
  by code_simp+

lemma demo_run2_view: "demo_view demo_run2"
  by code_simp

lemmas demo_facts = demo_run2_view [unfolded demo_view_def]

lemma demo_rx_run: "rx_run demo_run2 {#2, 1#}" "ctrl_at demo_run2 0 0"
proof -
  have s: "rx_run demo_start {#}"
  proof -
    have "rx_run (the (aicwf_rx_init [\<lparr>iftype = NL80211_IFTYPE_STATION, rx_packets = 0, rx_bytes = 0\<rparr>] False
     (\<lambda>_. fill_frame (demo_skb 0) 0 0 0) True True)) {#}"
      by (rule rx_run.init [of _ False "\<lambda>_. fill_frame (demo_skb 0) 0 0 0"]) (simp add: aicwf_rx_init_def)
    then show ?thesis unfolding demo_start_def by (rule rx_run.vif) (simp add: aicwf_rx_init_def)
  qed
  show "rx_run demo_run2 {#2, 1#}" unfolding demo_run2_def
    using demo_recv_run [OF demo_recv_run [OF s _ demo_inr(1)] _ demo_inr(2)] by simp
  show "ctrl_at demo_run2 0 0" using demo_facts by simp
qed

lemma rx_reorder_sound_witness:
  "distinct (rxframes_freequeue demo_run2 @ rx_pending demo_run2) \<and> reord_list (get_ctrl demo_run2 0 0) = [249] \<and>
    (reord_timer (get_ctrl demo_run2 0 0) \<or> reord_timer_work (get_ctrl demo_run2 0 0))"
  using rx_reorder_sound [OF demo_rx_run] demo_facts by simp

lemma reord_skb_conserved_witness:
  "{#2, 1#} = image_mset (skb_id \<circ> fst) (mset (netif_log demo_run2)) + image_mset skb_id (mset (kfree_log demo_run2)) +
    image_mset (frame_id demo_run2) (mset (rx_pending demo_run2))"
  by (rule reord_skb_conserved [OF demo_rx_run(1)])

text \<open>A frame that is older than the window is not held back: it goes to the network stack at once, out of
  order, also when it was delivered before; a frame that looks like RTP (octet 42 is 0x80) is always
  dropped, since the test for the expected number cannot hold where the code makes it.\<close>

theorem reord_late_frames:
  assumes "window_ok n H (get_ctrl r i t) r" "ctrl_at r i t" "s < n" "n \<le> s + 2048" "sn r f = seq16 s"
  shows "reord_ctrl_unit f i t r =
    (if rx_data (recv_frames r ! f) 42 = 0x80 then reord_drop_frame f r else fst (reord_single_frame_ind f r))"
proof -
  have "window_view s n H (get_ctrl r i t) r" using assms(1) by (simp add: window_view_def)
  then have "reord_ctrl_unit f i t r = reord_late_frame f (ind_sn (get_ctrl r i t)) r"
    using ctrl_unit_refines(1) assms by simp
  moreover have "sn r f \<noteq> ind_sn (get_ctrl r i t)"
    using seq16_eq [of s n] assms(1,3,4,5) by (auto simp: window_ok_def SN_EQUAL_def)
  ultimately show ?thesis by (simp add: reord_late_frame_def)
qed

lemma demo_late: "ctrl_at (demo_rx\<lparr>recv_frames := [fill_frame (demo_skb 0) 11 0 1, fill_frame (demo_skb 1) 9 0 1]\<rparr>) 0 0"
  by (simp add: ctrl_at_def demo_rx_def)

lemma reord_late_frames_witness:
  "map (skb_id \<circ> fst) (netif_log (reord_ctrl_unit 1 0 0 (demo_rx\<lparr>recv_frames := [fill_frame (demo_skb 0) 11 0 1, fill_frame (demo_skb 1) 9 0 1]\<rparr>))) = [1]"
proof -
  define r where "r = demo_rx\<lparr>recv_frames := [fill_frame (demo_skb 0) 11 0 1, fill_frame (demo_skb 1) 9 0 1]\<rparr>"
  have "window_ok 10 [11 \<mapsto> 0] (get_ctrl r 0 0) r"
    by (simp add: r_def window_ok_def demo_window_def demo_rx_def AICWF_REORDER_WINSIZE_def seq16_def fill_frame_def get_ctrl_def)
  then have "reord_ctrl_unit 1 0 0 r = (if rx_data (recv_frames r ! 1) 42 = 0x80 then reord_drop_frame 1 r else fst (reord_single_frame_ind 1 r))"
    by (rule reord_late_frames [where s = 9]) (use demo_late in \<open>simp_all add: r_def fill_frame_def seq16_def\<close>)
  then show ?thesis
    unfolding r_def [symmetric]
    by (simp add: r_def fill_frame_def demo_skb_def reord_single_frame_ind_def reord_rxframe_free_def upd_frame_def netif_receive_def demo_rx_def Let_def)
qed

text \<open>The TID of a frame comes from the four TID bits of its QoS header, the station has eight windows:
  a unicast data frame with a TID of 8 or more of a known station makes the code use a window behind
  the end of the array (\<open>reord_process_unit\<close>); all other frames stay inside.\<close>

theorem reord_tid_fault:
  assumes "rx_run r ins" "rwnx_vif r = Some v" "14 < skb_len skb" "rxframes_freequeue r \<noteq> []"
    "reord_mac (cur_iftype r) skb = Some mac" "reord_sta_index mac (stas_reord_list r) = Some i"
  shows "reord_process_unit km skb seq tid fwd r = Inl Tid_out_of_range \<longleftrightarrow>
    \<not> (h_proto skb = ETH_P_PAE) \<and> \<not> is_mcast skb \<and> 8 \<le> unat tid"
proof -
  obtain f q where q: "rxframes_freequeue r = f # q" using assms(4) by (cases "rxframes_freequeue r") auto
  define r0 where "r0 = r\<lparr>rxframes_freequeue := q\<rparr>"
  have f: "reord_rxframe_alloc r = Some (f, r0)" by (simp add: reord_rxframe_alloc_def q r0_def)
  define r1 where "r1 = upd_frame f (\<lambda>_. fill_frame skb seq tid fwd) r0"
  note a = alloc_fill [OF run_inv [OF assms(1), THEN conjunct1] f r1_def]
  have "reord_process_unit km skb seq tid fwd r = reord_process_frame km skb tid f r1"
    using assms(2,3) f by (auto simp: reord_process_unit_def r1_def)
  moreover have "reord_mac (cur_iftype r1) skb = Some mac" "reord_get_sta km mac r1 = Some (i, r1)"
    using assms(5,6) a(7,9,10) by (simp_all add: cur_iftype_def reord_get_sta_def)
  ultimately show ?thesis by (simp add: reord_process_frame_def)
qed

lemma reord_tid_fault_witness:
  "reord_process_unit True (demo_skb 3) 8 9 1 demo_run2 = Inl Tid_out_of_range"
proof -
  have "rwnx_vif demo_run2 = Some 0" "rxframes_freequeue demo_run2 \<noteq> []" "reord_mac (cur_iftype demo_run2) (demo_skb 3) = Some [0, 0, 0, 0, 0, 0]"
    using demo_facts by (simp_all add: cur_iftype_def reord_mac_def h_dest_def demo_skb_def upt_rec)
  moreover have "reord_sta_index [0, 0, 0, 0, 0, 0] (stas_reord_list demo_run2) = Some 0"
    using demo_facts by (cases "stas_reord_list demo_run2") auto
  ultimately show ?thesis
    by (subst reord_tid_fault [OF demo_rx_run(1)]) (simp_all add: demo_skb_def h_proto_def is_mcast_def ETH_P_PAE_def)
qed

definition recv_frame :: "u8 \<Rightarrow> sk_buff \<times> u16 \<Rightarrow> rx_priv \<Rightarrow> rx_priv" where
  "recv_frame tid x r = (case reord_process_unit True (fst x) (snd x) tid 1 r of Inl _ \<Rightarrow> r | Inr (r', _) \<Rightarrow> r')"

text \<open>When the entry of a new station cannot be made (the bus is down or \<open>kmalloc\<close> fails), \<open>reord_process_unit\<close>
  frees the buffer but not the frame structure it took from the pool.  Each such frame costs one of
  the 250 structures for good; after as many of them the pool is empty and every further frame, of
  any station, is dropped.\<close>

theorem reord_frame_leak:
  assumes "rwnx_vif r = Some v" "bus_down r"
    "\<And>x. x \<in> set xs \<Longrightarrow> 14 < skb_len (fst x) \<and> h_proto (fst x) \<noteq> ETH_P_PAE \<and> \<not> is_mcast (fst x) \<and>
      (\<exists>mac. reord_mac (cur_iftype r) (fst x) = Some mac \<and> reord_sta_index mac (stas_reord_list r) = None)"
  shows "length (rxframes_freequeue (fold (recv_frame tid) xs r)) = length (rxframes_freequeue r) - length xs \<and>
    rx_pending (fold (recv_frame tid) xs r) = rx_pending r"
proof -
  define P where "P s \<longleftrightarrow> rwnx_vif s = Some v \<and> bus_down s \<and> rwnx_vifs s = rwnx_vifs r \<and> stas_reord_list s = stas_reord_list r" for s :: rx_priv
  have step: "(reord_rxframe_alloc s = None \<and> recv_frame tid x s = dev_kfree_skb (fst x) s) \<or>
      (\<exists>f s'. reord_rxframe_alloc s = Some (f, s') \<and>
        recv_frame tid x s = dev_kfree_skb (fst x) (upd_frame f (\<lambda>_. fill_frame (fst x) (snd x) tid 1) s'))"
    if "x \<in> set xs" "P s" for x s
  proof (cases "reord_rxframe_alloc s")
    case None
    then show ?thesis using assms(3) [OF that(1)] that(2) by (simp add: recv_frame_def reord_process_unit_def)
  next
    case (Some fs)
    then obtain f s' where fs: "reord_rxframe_alloc s = Some (f, s')" by (cases fs) auto
    have s': "s' = s\<lparr>rxframes_freequeue := rxframes_freequeue s'\<rparr>" using fs by (auto simp: reord_rxframe_alloc_def split: list.splits)
    define s1 where "s1 = upd_frame f (\<lambda>_. fill_frame (fst x) (snd x) tid 1) s'"
    have s1: "cur_iftype s1 = cur_iftype r" "bus_down s1" "stas_reord_list s1 = stas_reord_list r"
      using that(2) assms(1) by (subst s1_def, subst s', simp add: P_def upd_frame_def cur_iftype_def)+
    from assms(3) [OF that(1)] obtain mac where mac: "reord_mac (cur_iftype r) (fst x) = Some mac" "reord_sta_index mac (stas_reord_list r) = None"
      by blast
    have "reord_get_sta True mac s1 = None" by (simp add: reord_get_sta_def reord_init_sta_def s1 mac)
    then have "reord_process_frame True (fst x) tid f s1 = Inr (dev_kfree_skb (fst x) s1, -1)"
      using assms(3) [OF that(1)] mac by (simp add: reord_process_frame_def s1)
    then show ?thesis using fs that(2) assms(3) [OF that(1)] by (auto simp: recv_frame_def reord_process_unit_def P_def s1_def)
  qed
  have P: "P (recv_frame tid x s)" if "x \<in> set xs" "P s" for x s
  proof -
    have "P (dev_kfree_skb (fst x) (upd_frame f g s'))" if "reord_rxframe_alloc s = Some (f, s')" for f g s'
      using \<open>P s\<close> that by (auto simp: P_def dev_kfree_skb_def upd_frame_def reord_rxframe_alloc_def split: list.splits)
    then show ?thesis using step [OF that] that(2) by (auto simp: P_def dev_kfree_skb_def)
  qed
  have r: "P r" using assms(1,2) by (simp add: P_def)
  have "size (mset (rxframes_freequeue (fold (recv_frame tid) xs r))) = size (mset (rxframes_freequeue r)) - length xs"
  proof (rule rxframes.drained [of xs P])
    show "mset (rxframes_freequeue (recv_frame tid x s)) = mset (rxframes_freequeue s')"
      if "x \<in> set xs" "P s" "reord_rxframe_alloc s = Some (f, s')" for x s f s'
      using step [OF that(1,2)] that(3) by (auto simp: dev_kfree_skb_def upd_frame_def)
    show "mset (rxframes_freequeue (recv_frame tid x s)) = mset (rxframes_freequeue s)"
      if "x \<in> set xs" "P s" "reord_rxframe_alloc s = None" for x s
      using step [OF that(1,2)] that(3) by (auto simp: dev_kfree_skb_def)
  qed (use P r in auto)
  moreover have "P s \<longrightarrow> P (fold (recv_frame tid) ys s)" if "set ys \<subseteq> set xs" for ys s
    using that by (induction ys arbitrary: s) (simp_all add: P)
  then have "rx_pending (fold (recv_frame tid) xs r) = rx_pending r" using r by (simp add: P_def rx_pending_def)
  ultimately show ?thesis by simp
qed

definition demo_down :: rx_priv where "demo_down = demo_rx\<lparr>bus_down := True, stas_reord_list := [], rxframes_freequeue := [0, 1]\<rparr>"

lemma reord_frame_leak_witness:
  "rxframes_freequeue (fold (recv_frame 0) [(demo_skb 0, 5), (demo_skb 1, 6)] demo_down) = []"
proof -
  have d: "rwnx_vif demo_down = Some 0" "bus_down demo_down" by (simp_all add: demo_down_def demo_rx_def)
  have h: "14 < skb_len (fst x) \<and> h_proto (fst x) \<noteq> ETH_P_PAE \<and> \<not> is_mcast (fst x) \<and>
      (\<exists>mac. reord_mac (cur_iftype demo_down) (fst x) = Some mac \<and> reord_sta_index mac (stas_reord_list demo_down) = None)"
    if "x \<in> set [(demo_skb 0, 5 :: u16), (demo_skb 1, 6)]" for x
    using that by (auto simp: demo_skb_def h_proto_def ETH_P_PAE_def is_mcast_def reord_mac_def cur_iftype_def demo_down_def demo_rx_def)
  show ?thesis using reord_frame_leak [of demo_down 0 "[(demo_skb 0, 5), (demo_skb 1, 6)]" 0, OF d h] by (simp add: demo_down_def demo_rx_def)
qed

definition msdu_skb :: "recv_msdu \<Rightarrow> sk_buff" where
  "msdu_skb m = (the (pkt m))\<lparr>skb_mem := rx_data m, skb_len := msdu_len m\<rparr>"

lemma deliver_log:
  assumes "\<forall>f \<in> set fs. pkt (recv_frames r ! f) \<noteq> None \<and> forward (recv_frames r ! f) \<noteq> 0" "distinct fs" "rwnx_vif r = Some v"
  shows "netif_log (deliver fs r) = netif_log r @ map (\<lambda>f. (msdu_skb (recv_frames r ! f), v)) fs"
  using assms
proof (induction fs arbitrary: r)
  case (Cons f fs)
  obtain skb where skb: "pkt (recv_frames r ! f) = Some skb" using Cons.prems(1) by auto
  define r1 where "r1 = fst (reord_single_frame_ind f r)"
  have "frames_gone [f] r r1" unfolding r1_def using skb by (rule gone_step)
  then have same: "recv_frames r1 ! g = recv_frames r ! g" if "g \<noteq> f" for g using that by (simp add: frames_gone_def)
  have v: "rwnx_vif r1 = Some v" and log: "netif_log r1 = netif_log r @ [(msdu_skb (recv_frames r ! f), v)]"
    using Cons.prems skb by (simp_all add: r1_def reord_single_frame_ind_def reord_rxframe_free_def upd_frame_def netif_receive_def
      Let_def msdu_skb_def)
  have same': "recv_frames r1 ! g = recv_frames r ! g" if "g \<in> set fs" for g using same Cons.prems(2) that by (metis distinct.simps(2))
  have "netif_log (deliver fs r1) = netif_log r1 @ map (\<lambda>f. (msdu_skb (recv_frames r1 ! f), v)) fs"
    using Cons.prems v by (intro Cons.IH) (auto simp: same')
  moreover have "map (\<lambda>f. (msdu_skb (recv_frames r1 ! f), v)) fs = map (\<lambda>f. (msdu_skb (recv_frames r ! f), v)) fs"
    by (simp add: same')
  ultimately show ?case by (simp add: log flip: r1_def)
qed simp

text \<open>The work item of an expired timer attributes the frames it delivers to the interface the last data
  frame of any station came in on (\<open>rx_priv->rwnx_vif\<close>), whatever interface they were received on.\<close>

theorem reord_timeout_interface:
  assumes "rx_run r ins" "ctrl_at r i t" "window_ok n H (get_ctrl r i t) r" "H \<noteq> Map.empty"
    "window_release (Min (dom H)) H = (n', H', fs)" "\<And>f. f \<in> set fs \<Longrightarrow> forward (recv_frames r ! f) \<noteq> 0"
  shows "netif_log (reord_timeout_worker i t (r\<lparr>rwnx_vif := Some v\<rparr>)) =
    netif_log r @ map (\<lambda>f. (msdu_skb (recv_frames r ! f), v)) fs"
proof -
  define r1 where "r1 = r\<lparr>rwnx_vif := Some v\<rparr>"
  have r1: "get_ctrl r1 i t = get_ctrl r i t" "ctrl_at r1 i t" "recv_frames r1 = recv_frames r" "rx_inv r1"
    using assms(2) run_inv [OF assms(1)] by (simp_all add: r1_def get_ctrl_def ctrl_at_def inv_conf)
  have ok: "window_ok n H (get_ctrl r1 i t) r1" using assms(3) by (simp add: r1 window_ok_def)
  then have fin: "finite (dom H)" by (simp add: window_ok_def)
  obtain c where c: "reord_timeout_worker i t r1 = put_ctrl i t c (deliver fs r1)" "window_ok n' H' c r1"
    using worker_refines [OF ok assms(5)] assms(4) by auto
  have m: "mset (fs @ reord_list c) = mset (reord_list (get_ctrl r1 i t))"
    using release_mset [OF fin assms(5)] c(2) ok by (simp add: window_ok_def)
  note w = window_frames [OF r1(4,2)]
  have "\<forall>f \<in> set fs. pkt (recv_frames r1 ! f) \<noteq> None \<and> forward (recv_frames r1 ! f) \<noteq> 0"
    using w(2) mset_eq_setD [OF m] assms(6) by (auto simp: r1(3))
  moreover have "distinct fs" using w(1) mset_eq_imp_distinct_iff [OF m] by auto
  ultimately have "netif_log (deliver fs r1) = netif_log r1 @ map (\<lambda>f. (msdu_skb (recv_frames r1 ! f), v)) fs"
    by (intro deliver_log) (simp_all add: r1_def)
  then show ?thesis unfolding r1_def [symmetric] c(1) by (simp add: r1_def)
qed

lemma reord_timeout_interface_witness:
  "snd ` set (netif_log (reord_timeout_worker 0 0 (demo_run2\<lparr>rwnx_vif := Some 7\<rparr>))) = {0, 7}"
proof -
  note run = demo_facts
  have ok: "window_ok 6 [7 \<mapsto> 249] (get_ctrl demo_run2 0 0) demo_run2"
    using run by (simp add: window_ok_def AICWF_REORDER_WINSIZE_def seq16_def)
  have ne: "([7 \<mapsto> 249] :: nat \<rightharpoonup> nat) \<noteq> Map.empty" by simp
  have d: "{k. k = 7 \<and> k < first_missing 7 [7 \<mapsto> 249]} = {7}"
    using first_missing_props [of "[7 \<mapsto> 249]" 7] by (auto simp: order_le_less)
  have rel: "window_release (Min (dom ([7 \<mapsto> 249] :: nat \<rightharpoonup> nat))) [7 \<mapsto> 249] = (first_missing 7 [7 \<mapsto> 249], [7 \<mapsto> 249] |` {first_missing 7 [7 \<mapsto> 249]..}, [249])"
    by (simp add: window_release_def Let_def d)
  have "set (netif_log (reord_timeout_worker 0 0 (demo_run2\<lparr>rwnx_vif := Some 7\<rparr>))) = set (netif_log demo_run2) \<union> {(msdu_skb (recv_frames demo_run2 ! 249), 7)}"
    by (subst reord_timeout_interface [OF demo_rx_run ok ne rel]) (use run in auto)
  moreover have "snd ` set (netif_log demo_run2) = {0}" using run by (metis list.set(1,2) list.set_map)
  ultimately show ?thesis by auto
qed

end
