(* ===== verification/Rx_Data.thy ===== *)
theory Rx_Data
  imports Rx_Reorder
begin

text \<open>
  What the driver does with a data frame from the firmware (\<open>rwnx_rxdataind_aicwf\<close> of
  \<^verbatim>\<open>rwnx_rx.c\<close>): the 802.11 header is replaced by an Ethernet header, aggregates (A-MSDU) are split,
  fragments are put together, and the frame is delivered, sent out again, or given to reordering.
  Frames of a monitor interface are not modelled.  Allocations, the tables of interfaces and stations
  and the kernel's own splitting of aggregates are arguments (\<open>rx_cfg\<close>).
\<close>

unbundle bit_operations_syntax

subsection \<open>Data\<close>

definition RWNX_INVALID_STA :: u8 where "RWNX_INVALID_STA = 0xFF"
definition NX_VIRT_DEV_MAX_rx :: nat where "NX_VIRT_DEV_MAX_rx = 4"
definition RWNX_INVALID_VIF :: u8 where "RWNX_INVALID_VIF = 0xFF"
definition MAC_FCTRL_MOREFRAG :: u16 where "MAC_FCTRL_MOREFRAG = 0x0400"
definition RWNX_RX_HD_DECR_WEP :: u8 where "RWNX_RX_HD_DECR_WEP = 1"
definition RWNX_RX_HD_DECR_TKIP :: u8 where "RWNX_RX_HD_DECR_TKIP = 2"
definition RWNX_RX_HD_DECR_CCMP128 :: u8 where "RWNX_RX_HD_DECR_CCMP128 = 3"
definition RWNX_RX_HD_DECR_WAPI :: u8 where "RWNX_RX_HD_DECR_WAPI = 7"
definition msdu_offset :: nat where "msdu_offset = 58"

record hw_rxhdr =
  decr_status :: u8
  ga_frame :: bool
  flags_is_amsdu :: bool
  flags_is_80211_mpdu :: bool
  flags_is_4addr :: bool
  flags_need_reord :: bool
  flags_upload :: bool
  flags_vif_idx :: u8
  flags_sta_idx :: u8
  flags_dst_idx :: u8

text \<open>A station and an interface as the receive path sees them; interfaces are indices into \<open>rwnx_vifs\<close>.\<close>

record sta_entry =
  sta_valid :: bool
  vlan_idx :: nat

record rx_cfg =
  vif_table :: "nat \<Rightarrow> nat option"
  vif_up :: "nat \<Rightarrow> bool"
  vif_index :: "nat \<Rightarrow> nat"
  ap_isolate :: "nat \<Rightarrow> bool"
  use_4addr :: "nat \<Rightarrow> bool"
  sta_table :: "nat \<Rightarrow> sta_entry"
  sub_alloc :: "nat \<Rightarrow> bool"
  info_alloc :: bool
  frag_alloc :: bool
  copy_alloc :: "nat \<Rightarrow> bool"
  reord_alloc :: bool
  tailroom :: nat
  arp_ciphers_ok :: "nat \<Rightarrow> bool"
  dev_addr :: "nat \<Rightarrow> u8 list"
  to_8023s :: "sk_buff \<Rightarrow> sk_buff list"

record defrag_ctrl_info =
  df_sta_idx :: u8
  df_tid :: u8
  df_sn :: u16
  next_fn :: u8
  frm_len :: u16
  df_skb :: sk_buff
  df_timer :: bool

record rx_hw =
  priv :: rx_priv
  defrag_list :: "defrag_ctrl_info list"
  xmit_log :: "(sk_buff \<times> nat) list"
  mgmt_log :: "(sk_buff \<times> nat) list"
  four_addr_log :: "nat list"
  dhcped :: bool
  arp_log :: "(nat \<times> u8 list \<times> bool) list"
  fresh_skb :: nat

text \<open>What stops the driver: a fault of the reordering, a NULL buffer, a write past the end of a buffer
  (\<open>skb_over_panic\<close>), a copy of a negative number of bytes, and an empty list of subframes.\<close>

datatype data_fault = Reord_fault rx_fault | Null_skb | Skb_over_panic | Negative_copy | Empty_list

definition kfree :: "sk_buff \<Rightarrow> rx_hw \<Rightarrow> rx_hw" where "kfree skb h = h\<lparr>priv := dev_kfree_skb skb (priv h)\<rparr>"

definition byte :: "sk_buff \<Rightarrow> nat \<Rightarrow> u8" where "byte skb i = skb_mem skb i"
definition skb_bytes :: "sk_buff \<Rightarrow> u8 list" where "skb_bytes skb = map (skb_mem skb) [0..<unat (skb_len skb)]"

definition pull_skb :: "nat \<Rightarrow> sk_buff \<Rightarrow> sk_buff" where
  "pull_skb n skb = (if unat (skb_len skb) < n then skb
     else skb\<lparr>skb_mem := (\<lambda>i. skb_mem skb (i + n)), skb_len := skb_len skb - of_nat n\<rparr>)"

text \<open>A push whose bytes are then overwritten.\<close>

definition skb_push_bytes :: "u8 list \<Rightarrow> sk_buff \<Rightarrow> sk_buff" where
  "skb_push_bytes bs skb = skb\<lparr>skb_mem := (\<lambda>i. if i < length bs then bs ! i else skb_mem skb (i - length bs)), skb_len := skb_len skb + of_nat (length bs)\<rparr>"

text \<open>A buffer that holds \<open>bs\<close>.\<close>

definition skb_of :: "nat \<Rightarrow> u8 list \<Rightarrow> sk_buff" where
  "skb_of i bs = \<lparr>skb_id = i, skb_mem = (\<lambda>j. if j < length bs then bs ! j else 0), skb_len = of_nat (length bs)\<rparr>"

subsection \<open>The header of a data frame\<close>

definition is_80211_data :: "sk_buff \<Rightarrow> bool" where "is_80211_data skb \<longleftrightarrow> byte skb 0 AND 0x0f = 0x08"
definition is_qos :: "sk_buff \<Rightarrow> bool" where "is_qos skb \<longleftrightarrow> is_80211_data skb \<and> byte skb 0 AND 0x80 = 0x80"
definition qos_tid :: "sk_buff \<Rightarrow> u8" where "qos_tid skb = (if is_qos skb then byte skb 24 AND 0x0F else 0)"
definition is_amsdu :: "sk_buff \<Rightarrow> bool" where "is_amsdu skb \<longleftrightarrow> is_qos skb \<and> byte skb 24 AND 0x80 \<noteq> 0"
definition more_frag :: "sk_buff \<Rightarrow> bool" where
  "more_frag skb \<longleftrightarrow> (push_bit 8 (ucast (byte skb 1)) OR ucast (byte skb 0)) AND MAC_FCTRL_MOREFRAG \<noteq> 0"
definition seq_ctrl :: "sk_buff \<Rightarrow> u16" where
  "seq_ctrl skb = drop_bit 4 (ucast (byte skb 22 AND 0xf0)) OR push_bit 4 (ucast (byte skb 23))"
definition frag_num :: "sk_buff \<Rightarrow> u8" where "frag_num skb = byte skb 22 AND 0x0f"

definition hdr_len :: "sk_buff \<Rightarrow> nat" where
  "hdr_len skb = (if is_qos skb then 26 else 24) + (if byte skb 1 AND 0x80 \<noteq> 0 then 4 else 0)"

definition sec_len :: "hw_rxhdr \<Rightarrow> nat" where
  "sec_len hdr = (if decr_status hdr = RWNX_RX_HD_DECR_CCMP128 \<or> decr_status hdr = RWNX_RX_HD_DECR_TKIP then 8
     else if decr_status hdr = RWNX_RX_HD_DECR_WEP then 4 else if decr_status hdr = RWNX_RX_HD_DECR_WAPI then 18 else 0)"

definition pull_len :: "hw_rxhdr \<Rightarrow> sk_buff \<Rightarrow> nat" where "pull_len hdr skb = hdr_len skb + 8 + sec_len hdr"

definition mac_at :: "sk_buff \<Rightarrow> nat \<Rightarrow> u8 list" where "mac_at skb i = map (byte skb) [i..<i + 6]"
definition no_mac :: "u8 list" where "no_mac = [0, 0, 0, 0, 0, 0]"

definition frame_ra :: "sk_buff \<Rightarrow> u8 list" where
  "frame_ra skb = (if byte skb 1 AND 0x3 = 0x1 then mac_at skb 16 else if byte skb 1 AND 0x3 = 0x2 then mac_at skb 4 else no_mac)"
definition frame_ta :: "sk_buff \<Rightarrow> u8 list" where
  "frame_ta skb = (if byte skb 1 AND 0x3 = 0x1 then mac_at skb 10 else if byte skb 1 AND 0x3 = 0x2 then mac_at skb 16 else no_mac)"
definition ether_type :: "hw_rxhdr \<Rightarrow> sk_buff \<Rightarrow> u8 list" where
  "ether_type hdr skb = (let i = hdr_len skb + 6 + sec_len hdr in [byte skb i, byte skb (i + 1)])"

definition eth_header :: "hw_rxhdr \<Rightarrow> sk_buff \<Rightarrow> u8 list" where "eth_header hdr skb = frame_ra skb @ frame_ta skb @ ether_type hdr skb"

text \<open>The frame with an Ethernet header instead of the 802.11 header.\<close>

definition decap :: "hw_rxhdr \<Rightarrow> sk_buff \<Rightarrow> sk_buff" where
  "decap hdr skb = skb_push_bytes (eth_header hdr skb) (pull_skb (pull_len hdr skb) skb)"

subsection \<open>Delivery\<close>

definition rwnx_rx_get_vif :: "rx_cfg \<Rightarrow> u8 \<Rightarrow> nat option" where
  "rwnx_rx_get_vif c i = (if unat i < NX_VIRT_DEV_MAX_rx
     then case vif_table c (unat i) of None \<Rightarrow> None | Some v \<Rightarrow> if vif_up c v then Some v else None else None)"

definition vif_type :: "nat \<Rightarrow> rx_hw \<Rightarrow> nl80211_iftype" where "vif_type v h = iftype (rwnx_vifs (priv h) ! v)"

text \<open>Statistics and \<open>netif_rx\<close> on interface \<open>v\<close>.\<close>

definition netif_rx_skb :: "nat \<Rightarrow> sk_buff \<Rightarrow> rx_hw \<Rightarrow> rx_hw" where
  "netif_rx_skb v skb h = (let r = priv h; w = rwnx_vifs r ! v in h\<lparr>priv := r\<lparr>
     rwnx_vifs := (rwnx_vifs r)[v := w\<lparr>rx_packets := rx_packets w + 1, rx_bytes := rx_bytes w + skb_len skb\<rparr>],
     netif_log := netif_log r @ [(skb, v)]\<rparr>\<rparr>)"

text \<open>A copy is sent on the interface, when there is memory for it.\<close>

definition rwnx_rx_data_skb_resend :: "rx_cfg \<Rightarrow> nat \<Rightarrow> sk_buff \<Rightarrow> rx_hw \<Rightarrow> rx_hw" where
  "rwnx_rx_data_skb_resend c v skb h =
     (if copy_alloc c (length (xmit_log h)) then h\<lparr>xmit_log := xmit_log h @ [(skb\<lparr>skb_id := fresh_skb h\<rparr>, v)], fresh_skb := Suc (fresh_skb h)\<rparr> else h)"

definition rwnx_rx_data_skb_forward :: "nat \<Rightarrow> sk_buff \<Rightarrow> rx_hw \<Rightarrow> rx_hw" where
  "rwnx_rx_data_skb_forward = netif_rx_skb"

text \<open>The frame is for a station of the same access point.\<close>

definition for_own_station :: "rx_cfg \<Rightarrow> hw_rxhdr \<Rightarrow> nat \<Rightarrow> bool" where
  "for_own_station c hdr v \<longleftrightarrow> flags_dst_idx hdr \<noteq> RWNX_INVALID_STA \<and>
     sta_valid (sta_table c (unat (flags_dst_idx hdr))) \<and> vlan_idx (sta_table c (unat (flags_dst_idx hdr))) = vif_index c v"

definition rx_routes :: "rx_cfg \<Rightarrow> hw_rxhdr \<Rightarrow> nl80211_iftype \<Rightarrow> nat \<Rightarrow> sk_buff \<Rightarrow> bool \<times> bool" where
  "rx_routes c hdr ty v skb =
     (if (ty = NL80211_IFTYPE_AP \<or> ty = NL80211_IFTYPE_AP_VLAN \<or> ty = NL80211_IFTYPE_P2P_GO) \<and> \<not> ap_isolate c v
      then if is_mcast skb then (True, True) else if for_own_station c hdr v then (True, False) else (False, True)
      else if ty = NL80211_IFTYPE_MESH_POINT \<and> \<not> is_mcast skb \<and> flags_dst_idx hdr \<noteq> RWNX_INVALID_STA then (True, False)
      else (False, True))"

text \<open>The result of a step: a new state, a fault, or \<open>None\<close> when it does not return.\<close>

type_synonym 'a res = "(data_fault + 'a) option"

definition rbind :: "'a res \<Rightarrow> ('a \<Rightarrow> 'b res) \<Rightarrow> 'b res" where
  "rbind m f = (case m of None \<Rightarrow> None | Some (Inl e) \<Rightarrow> Some (Inl e) | Some (Inr x) \<Rightarrow> f x)"

abbreviation ok :: "'a \<Rightarrow> 'a res" where "ok x \<equiv> Some (Inr x)"

lemma rbind_simps [simp]: "rbind None f = None" "rbind (Some (Inl e)) f = Some (Inl e)" "rbind (Some (Inr x)) f = f x"
  by (simp_all add: rbind_def)

lemma rbind_ok: "rbind m f = ok y \<longleftrightarrow> (\<exists>x. m = ok x \<and> f x = ok y)"
  by (auto simp: rbind_def split: option.splits sum.splits)

text \<open>The search of a DHCP acknowledgement (\<open>arpoffload_proc\<close>); \<open>base\<close> is where the options start.\<close>

definition DHCP_OPTION_END :: u8 where "DHCP_OPTION_END = 255"
definition DHCP_OPTION_MESSAGE_TYPE :: u8 where "DHCP_OPTION_MESSAGE_TYPE = 53"
definition DHCP_ACK :: u8 where "DHCP_ACK = 5"

partial_function (option) dhcp_options :: "(nat \<Rightarrow> u8) \<Rightarrow> nat \<Rightarrow> u32 \<Rightarrow> u16 \<Rightarrow> nat \<Rightarrow> nat option" where
  "dhcp_options m base len offset acks =
     (if m (base + unat offset) = DHCP_OPTION_END \<or> \<not> unat offset < unat len then Some acks
      else dhcp_options m base len (offset + 2 + ucast (m (base + unat (ucast offset + 1 :: u32))))
        (if m (base + unat offset) = DHCP_OPTION_MESSAGE_TYPE \<and> m (base + unat (ucast offset + 2 :: u32)) = DHCP_ACK then Suc acks else acks))"

definition be16 :: "(nat \<Rightarrow> u8) \<Rightarrow> nat \<Rightarrow> u16" where "be16 m i = push_bit 8 (ucast (m i)) OR ucast (m (i + 1))"

text \<open>The IP header starts at byte 14 of the Ethernet frame.\<close>

definition arpoffload_proc :: "rx_cfg \<Rightarrow> nat \<Rightarrow> sk_buff \<Rightarrow> rx_hw \<Rightarrow> rx_hw res" where
  "arpoffload_proc c v skb h =
     (let m = skb_mem skb; ip = 14; udp = ip + unat (push_bit 2 (m ip AND 0x0F)); dhcp = udp + 8 in
      if h_proto skb = 0x0800 \<and> m (ip + 9) = 17 \<and> be16 m udp = 67 \<and> be16 m (udp + 2) = 68 \<and>
         map m [dhcp + 236..<dhcp + 240] = [0x63, 0x82, 0x53, 0x63] \<and> m dhcp = 2 \<and> map m [dhcp + 28..<dhcp + 34] = dev_addr c v
      then (case dhcp_options m (dhcp + 240) (ucast (be16 m (udp + 4)) - 8 - 240) 0 0 of
          None \<Rightarrow> None
        | Some acks \<Rightarrow> ok (h\<lparr>dhcped := dhcped h \<or> 0 < acks,
            arp_log := arp_log h @ replicate acks (v, map m [dhcp + 16..<dhcp + 20], arp_ciphers_ok c v)\<rparr>))
      else ok h)"

definition is_client :: "nl80211_iftype \<Rightarrow> bool" where "is_client ty \<longleftrightarrow> ty = NL80211_IFTYPE_STATION \<or> ty = NL80211_IFTYPE_P2P_CLIENT"

text \<open>One frame of \<open>rwnx_rx_data_skb\<close>: sent again, handed up, or both.\<close>

definition rx_route_one :: "rx_cfg \<Rightarrow> nat \<Rightarrow> bool \<times> bool \<Rightarrow> sk_buff \<Rightarrow> rx_hw \<Rightarrow> rx_hw res" where
  "rx_route_one c v rf skb h =
     (let h = (if fst rf then rwnx_rx_data_skb_resend c v skb h else h)
      in if \<not> snd rf then ok h
         else if is_client (vif_type v h) then rbind (arpoffload_proc c v skb h) (\<lambda>h. ok (netif_rx_skb v skb h))
         else ok (netif_rx_skb v skb h))"

fun rx_route_all :: "rx_cfg \<Rightarrow> nat \<Rightarrow> bool \<times> bool \<Rightarrow> sk_buff list \<Rightarrow> rx_hw \<Rightarrow> rx_hw res" where
  "rx_route_all c v rf [] h = ok h"
| "rx_route_all c v rf (s # ss) h = rbind (rx_route_one c v rf s h) (rx_route_all c v rf ss)"

definition rwnx_rx_data_skb :: "rx_cfg \<Rightarrow> hw_rxhdr \<Rightarrow> nat \<Rightarrow> sk_buff \<Rightarrow> rx_hw \<Rightarrow> (rx_hw \<times> bool) res" where
  "rwnx_rx_data_skb c hdr v skb h =
     (case (if flags_is_amsdu hdr then to_8023s c skb else [skb]) of
        [] \<Rightarrow> Some (Inl Empty_list)
      | s # ss \<Rightarrow> let rf = rx_routes c hdr (vif_type v h) v s in rbind (rx_route_all c v rf (s # ss) h) (\<lambda>h. ok (h, snd rf)))"

text \<open>The callers free the buffer that was not forwarded.\<close>

definition data_skb_or_free :: "rx_cfg \<Rightarrow> hw_rxhdr \<Rightarrow> nat \<Rightarrow> sk_buff \<Rightarrow> rx_hw \<Rightarrow> rx_hw res" where
  "data_skb_or_free c hdr v skb h = rbind (rwnx_rx_data_skb c hdr v skb h) (\<lambda>(h, fwd). ok (if fwd then h else kfree skb h))"

subsection \<open>Aggregates\<close>

definition sub_len :: "sk_buff \<Rightarrow> nat" where "sub_len skb = unat (byte skb 12) * 256 + unat (byte skb 13)"

text \<open>The Ethernet frame of the first subframe: its addresses, then what follows the first six bytes after
  the subframe header.\<close>

definition sub_frame :: "sk_buff \<Rightarrow> u8 list" where
  "sub_frame skb = map (byte skb) [0..<12] @ map (byte skb) [20..<20 + (sub_len skb - 6)]"

definition sub_aligned :: "sk_buff \<Rightarrow> nat" where
  "sub_aligned skb = (if sub_len skb + 14 < unat (skb_len skb) then (sub_len skb + 17) div 4 * 4 else sub_len skb + 14) mod 65536"

partial_function (option) amsdu_loop :: "rx_cfg \<Rightarrow> hw_rxhdr \<Rightarrow> sk_buff \<Rightarrow> rx_hw \<Rightarrow> rx_hw res" where
  "amsdu_loop c hdr skb h =
     (if unat (skb_len skb) \<le> 16 \<or> unat (skb_len skb) < sub_len skb + 14 then ok h
      else if \<not> sub_alloc c (fresh_skb h) then Some (Inl Null_skb)
      else if sub_len skb < 6 then Some (Inl Negative_copy)
      else case rwnx_rx_get_vif c (flags_vif_idx hdr) of
          None \<Rightarrow> ok (kfree (skb_of (fresh_skb h) (sub_frame skb)) (h\<lparr>fresh_skb := Suc (fresh_skb h)\<rparr>))
        | Some v \<Rightarrow> (case data_skb_or_free c hdr v (skb_of (fresh_skb h) (sub_frame skb)) (h\<lparr>fresh_skb := Suc (fresh_skb h)\<rparr>) of
            None \<Rightarrow> None
          | Some (Inl f) \<Rightarrow> Some (Inl f)
          | Some (Inr h) \<Rightarrow> amsdu_loop c hdr (pull_skb (sub_aligned skb) skb) h))"

definition rx_amsdu :: "rx_cfg \<Rightarrow> hw_rxhdr \<Rightarrow> sk_buff \<Rightarrow> rx_hw \<Rightarrow> rx_hw res" where
  "rx_amsdu c hdr skb h = rbind (amsdu_loop c hdr (pull_skb (pull_len hdr skb - 8) skb) h) (\<lambda>h. ok (kfree skb h))"

subsection \<open>Fragments\<close>

text \<open>The first entry of the list with the key of the frame.\<close>

definition df_matches :: "u16 \<Rightarrow> u8 \<Rightarrow> u8 \<Rightarrow> defrag_ctrl_info \<Rightarrow> bool" where
  "df_matches sq tid sta d \<longleftrightarrow> df_sn d = sq \<and> df_tid d = tid \<and> df_sta_idx d = sta"

fun df_find :: "u16 \<Rightarrow> u8 \<Rightarrow> u8 \<Rightarrow> defrag_ctrl_info list \<Rightarrow> nat option" where
  "df_find sq tid sta [] = None"
| "df_find sq tid sta (d # ds) = (if df_matches sq tid sta d then Some 0 else map_option Suc (df_find sq tid sta ds))"

definition df_remove :: "nat \<Rightarrow> rx_hw \<Rightarrow> rx_hw" where
  "df_remove i h = h\<lparr>defrag_list := take i (defrag_list h) @ drop (Suc i) (defrag_list h)\<rparr>"

text \<open>\<open>skb_put\<close> and the copy of the body of the fragment (without its \<open>p\<close> bytes of headers) to the end.\<close>

definition df_append :: "rx_cfg \<Rightarrow> nat \<Rightarrow> sk_buff \<Rightarrow> defrag_ctrl_info \<Rightarrow> data_fault + defrag_ctrl_info" where
  "df_append c p skb d =
     (if unat (skb_len skb) < p \<or> tailroom c < unat (skb_len (df_skb d)) + (unat (skb_len skb) - p) then Inl Skb_over_panic
      else let n = unat (skb_len skb) - p; at = unat (frm_len d); b = df_skb d in
        Inr (d\<lparr>df_skb := b\<lparr>skb_mem := (\<lambda>i. if at \<le> i \<and> i < at + n then skb_mem skb (p + (i - at)) else skb_mem b i), skb_len := skb_len b + of_nat n\<rparr>,
               frm_len := frm_len d + of_nat n\<rparr>))"

definition key_sta :: "hw_rxhdr \<Rightarrow> u8" where
  "key_sta hdr = (if flags_dst_idx hdr \<noteq> RWNX_INVALID_STA then flags_dst_idx hdr else 0)"

text \<open>A fragment that is not the last.\<close>

definition defrag_next :: "rx_cfg \<Rightarrow> hw_rxhdr \<Rightarrow> sk_buff \<Rightarrow> nat \<Rightarrow> rx_hw \<Rightarrow> rx_hw res" where
  "defrag_next c hdr skb i h = (let d = defrag_list h ! i in
     if next_fn d \<noteq> frag_num skb then ok (kfree skb h)
     else case df_append c (pull_len hdr skb - 8) skb d of
       Inl f \<Rightarrow> Some (Inl f)
     | Inr d \<Rightarrow> ok (kfree skb (h\<lparr>defrag_list := (defrag_list h)[i := d\<lparr>next_fn := next_fn d + 1\<rparr>]\<rparr>)))"

definition defrag_first :: "rx_cfg \<Rightarrow> hw_rxhdr \<Rightarrow> sk_buff \<Rightarrow> rx_hw \<Rightarrow> rx_hw res" where
  "defrag_first c hdr skb h =
     (if \<not> info_alloc c \<or> \<not> frag_alloc c then ok (kfree skb h)
      else let e = decap hdr skb in
        if tailroom c < unat (skb_len e) then Some (Inl Skb_over_panic)
        else ok (kfree skb (h\<lparr>fresh_skb := Suc (fresh_skb h), defrag_list := defrag_list h @
          [\<lparr>df_sta_idx = key_sta hdr, df_tid = qos_tid skb, df_sn = seq_ctrl skb, next_fn = 1, frm_len = ucast (skb_len e),
            df_skb = e\<lparr>skb_id := fresh_skb h\<rparr>, df_timer = True\<rparr>]\<rparr>)))"

definition defrag_last :: "rx_cfg \<Rightarrow> hw_rxhdr \<Rightarrow> sk_buff \<Rightarrow> nat \<Rightarrow> rx_hw \<Rightarrow> rx_hw res" where
  "defrag_last c hdr skb i h = (let d = defrag_list h ! i in
     if next_fn d \<noteq> frag_num skb then ok (kfree skb h)
     else case df_append c (pull_len hdr skb - 8) skb d of
       Inl f \<Rightarrow> Some (Inl f)
     | Inr d \<Rightarrow> let h = h\<lparr>defrag_list := (defrag_list h)[i := d]\<rparr> in
         case rwnx_rx_get_vif c (flags_vif_idx hdr) of
           None \<Rightarrow> ok (kfree skb h)
         | Some v \<Rightarrow> data_skb_or_free c hdr v (df_skb d) (df_remove i (kfree skb h)))"

definition defrag_timeout_cb :: "nat \<Rightarrow> rx_hw \<Rightarrow> rx_hw" where
  "defrag_timeout_cb i h = kfree (df_skb (defrag_list h ! i)) (df_remove i h)"

subsection \<open>Management frames\<close>

definition remove_sec_hdr_mgmt_frame :: "hw_rxhdr \<Rightarrow> sk_buff \<Rightarrow> sk_buff" where
  "remove_sec_hdr_mgmt_frame hdr skb =
     (if \<not> ga_frame hdr \<and> byte skb 0 AND 0x0C = 0 \<and> byte skb 1 AND 0x40 = 0x40 \<and> decr_status hdr = RWNX_RX_HD_DECR_CCMP128
      then let b = pull_skb 8 skb in b\<lparr>skb_mem := (\<lambda>i. if i < 24 then skb_mem skb i else skb_mem b i)\<rparr>
      else skb)"

definition rwnx_rx_mgmt_any :: "rx_cfg \<Rightarrow> hw_rxhdr \<Rightarrow> sk_buff \<Rightarrow> rx_hw \<Rightarrow> rx_hw" where
  "rwnx_rx_mgmt_any c hdr skb h = kfree skb (h\<lparr>mgmt_log := mgmt_log h @
     (if flags_vif_idx hdr = RWNX_INVALID_VIF then map (Pair skb) (filter (vif_up c) [0..<length (rwnx_vifs (priv h))])
      else case rwnx_rx_get_vif c (flags_vif_idx hdr) of None \<Rightarrow> [] | Some v \<Rightarrow> [(skb, v)])\<rparr>)"

subsection \<open>The indication\<close>

text \<open>The calls of the reordering.\<close>

definition reord :: "(rx_fault + (rx_priv \<times> int)) \<Rightarrow> rx_hw \<Rightarrow> rx_hw res" where
  "reord x h = (case x of Inl f \<Rightarrow> Some (Inl (Reord_fault f)) | Inr (r, ret) \<Rightarrow> ok (h\<lparr>priv := r\<rparr>))"

text \<open>What a frame carries from its 802.11 header: QoS, TID and sequence number.\<close>

type_synonym rx_info = "bool \<times> u8 \<times> u16"

definition ind_client :: "rx_cfg \<Rightarrow> hw_rxhdr \<Rightarrow> nat \<Rightarrow> rx_info \<Rightarrow> sk_buff \<Rightarrow> rx_hw \<Rightarrow> rx_hw res" where
  "ind_client c hdr v info skb h = (case info of (qos, tid, seq) \<Rightarrow>
     if qos \<and> flags_need_reord hdr then reord (reord_process_unit (reord_alloc c) skb seq tid 1 (priv h)) h
     else if qos then rbind (reord (reord_flush_tid skb tid (priv h)) h) (data_skb_or_free c hdr v skb)
     else data_skb_or_free c hdr v skb h)"

definition ind_ap :: "rx_cfg \<Rightarrow> hw_rxhdr \<Rightarrow> nat \<Rightarrow> rx_info \<Rightarrow> sk_buff \<Rightarrow> rx_hw \<Rightarrow> rx_hw res" where
  "ind_ap c hdr v info skb h = (case info of (qos, tid, seq) \<Rightarrow>
     let mc = is_mcast skb; own = \<not> mc \<and> for_own_station c hdr v;
         h = (if mc \<or> own then rwnx_rx_data_skb_resend c v skb h else h) in
     if \<not> own
     then if qos \<and> flags_need_reord hdr then reord (reord_process_unit (reord_alloc c) skb seq tid 1 (priv h)) h
       else if qos then rbind (reord (reord_flush_tid skb tid (priv h)) h) (\<lambda>h. ok (rwnx_rx_data_skb_forward v skb h))
       else ok (rwnx_rx_data_skb_forward v skb h)
     else if qos \<and> flags_need_reord hdr then reord (reord_process_unit (reord_alloc c) skb seq tid 0 (priv h)) h
       else if qos then rbind (reord (reord_flush_tid skb tid (priv h)) h) (\<lambda>h. ok (kfree skb h))
       else ok h)"

definition set_rx_vif :: "nat \<Rightarrow> rx_hw \<Rightarrow> rx_hw" where "set_rx_vif v h = h\<lparr>priv := (priv h)\<lparr>rwnx_vif := Some v\<rparr>\<rparr>"

definition ind_vif :: "rx_cfg \<Rightarrow> hw_rxhdr \<Rightarrow> nat \<Rightarrow> rx_info \<Rightarrow> sk_buff \<Rightarrow> rx_hw \<Rightarrow> rx_hw res" where
  "ind_vif c hdr v info skb h = (let h = set_rx_vif v h; ty = vif_type v h in
     if is_client ty then ind_client c hdr v info skb h
     else if ty = NL80211_IFTYPE_AP \<or> ty = NL80211_IFTYPE_P2P_GO then ind_ap c hdr v info skb h
     else ok h)"

text \<open>The interface of the sender: that of its VLAN when the table has one.\<close>

definition ind_sta :: "rx_cfg \<Rightarrow> hw_rxhdr \<Rightarrow> nat \<Rightarrow> nat option" where
  "ind_sta c hdr v =
     (if flags_sta_idx hdr \<noteq> RWNX_INVALID_STA \<and> vlan_idx (sta_table c (unat (flags_sta_idx hdr))) \<noteq> vif_index c v
      then vif_table c (vlan_idx (sta_table c (unat (flags_sta_idx hdr)))) else Some v)"

definition ind_finish :: "rx_cfg \<Rightarrow> hw_rxhdr \<Rightarrow> rx_info \<Rightarrow> sk_buff \<Rightarrow> rx_hw \<Rightarrow> rx_hw res" where
  "ind_finish c hdr info skb h =
     (if flags_is_80211_mpdu hdr then ok (rwnx_rx_mgmt_any c hdr (remove_sec_hdr_mgmt_frame hdr skb) h)
      else case rwnx_rx_get_vif c (flags_vif_idx hdr) of
        None \<Rightarrow> ok (kfree skb h)
      | Some v0 \<Rightarrow> (case ind_sta c hdr v0 of
          None \<Rightarrow> ok (kfree skb h)
        | Some v \<Rightarrow> ind_vif c hdr v info skb
            (if flags_sta_idx hdr \<noteq> RWNX_INVALID_STA \<and> flags_is_4addr hdr \<and> \<not> use_4addr c v
             then h\<lparr>four_addr_log := four_addr_log h @ [v]\<rparr> else h)))"

definition is_fragment :: "hw_rxhdr \<Rightarrow> sk_buff \<Rightarrow> bool" where
  "is_fragment hdr skb \<longleftrightarrow> \<not> flags_need_reord hdr \<and> (more_frag skb \<or> frag_num skb \<noteq> 0)"

definition ind_data :: "rx_cfg \<Rightarrow> hw_rxhdr \<Rightarrow> sk_buff \<Rightarrow> rx_hw \<Rightarrow> rx_hw res" where
  "ind_data c hdr skb h =
     (let info = (is_qos skb, qos_tid skb, seq_ctrl skb) in
      if \<not> is_80211_data skb then ind_finish c hdr info skb h
      else if is_amsdu skb then rx_amsdu c hdr skb h
      else if is_fragment hdr skb then
        (case df_find (seq_ctrl skb) (qos_tid skb) (key_sta hdr) (defrag_list h) of
           None \<Rightarrow> if more_frag skb then defrag_first c hdr skb h else ind_finish c hdr info (decap hdr skb) h
         | Some i \<Rightarrow> if more_frag skb then defrag_next c hdr skb i h else defrag_last c hdr skb i h)
      else ind_finish c hdr info (decap hdr skb) h)"

definition rwnx_rxdataind_aicwf :: "rx_cfg \<Rightarrow> hw_rxhdr \<Rightarrow> sk_buff \<Rightarrow> rx_hw \<Rightarrow> rx_hw res" where
  "rwnx_rxdataind_aicwf c hdr skb h = (if flags_upload hdr then ind_data c hdr (pull_skb (msdu_offset + 2) skb) h else ok h)"

end
