(* ===== verification/Rx_Decap.thy ===== *)
theory Rx_Decap
  imports Rx_Data
begin

text \<open>
  Correctness of the data indication: 802.11 frames built by the specification below become the
  Ethernet frames they carry, aggregates are taken apart, fragments put together; and what malformed
  or hostile frames do.
\<close>

subsection \<open>Buffers as byte lists\<close>

definition skb_has :: "sk_buff \<Rightarrow> u8 list \<Rightarrow> bool" where
  "skb_has skb bs \<longleftrightarrow> unat (skb_len skb) = length bs \<and> (\<forall>i < length bs. skb_mem skb i = bs ! i)"

lemma skb_bytes_has: "skb_bytes skb = bs \<longleftrightarrow> skb_has skb bs"
proof
  show "skb_has skb bs \<Longrightarrow> skb_bytes skb = bs" by (rule nth_equalityI) (simp_all add: skb_bytes_def skb_has_def)
  assume "skb_bytes skb = bs"
  then show "skb_has skb bs" by (auto simp: skb_bytes_def skb_has_def)
qed

lemma has_byte: "skb_has skb bs \<Longrightarrow> i < length bs \<Longrightarrow> byte skb i = bs ! i" by (simp add: skb_has_def byte_def)

lemma has_bytes: "skb_has skb (xs @ ys @ zs) \<Longrightarrow> map (byte skb) [length xs..<length xs + length ys] = ys"
  by (rule nth_equalityI) (auto simp: has_byte nth_append)

lemma has_pull: "skb_has skb (xs @ ys) \<Longrightarrow> skb_has (pull_skb (length xs) skb) ys"
proof -
  assume h: "skb_has skb (xs @ ys)"
  have "length xs \<le> unat (skb_len skb)" using h by (simp add: skb_has_def)
  moreover have "unat (of_nat (length xs) :: u32) = length xs"
    by (rule unat_of_nat_small) (use h unat_u32_less [of "skb_len skb"] in \<open>simp add: skb_has_def\<close>)
  ultimately have "unat (skb_len skb - of_nat (length xs)) = length ys"
    using h by (subst unat_sub) (auto simp: word_le_nat_alt skb_has_def)
  then show ?thesis using h \<open>length xs \<le> unat (skb_len skb)\<close> by (auto simp: skb_has_def pull_skb_def nth_append)
qed

lemma has_push: "skb_has skb ys \<Longrightarrow> length xs + length ys < 2 ^ 32 \<Longrightarrow> skb_has (skb_push_bytes xs skb) (xs @ ys)"
proof -
  assume h: "skb_has skb ys" "length xs + length ys < 2 ^ 32"
  have "unat (of_nat (length xs) :: u32) = length xs" using h(2) by (intro unat_of_nat_small) simp
  then have "unat (skb_len skb + of_nat (length xs)) = length xs + length ys"
    using h by (subst unat_add_no_overflow) (simp_all add: skb_has_def)
  then show ?thesis using h(1) by (auto simp: skb_has_def skb_push_bytes_def nth_append)
qed

lemma skb_of_has: "length bs < 2 ^ 32 \<Longrightarrow> skb_has (skb_of i bs) bs"
  by (simp add: skb_has_def skb_of_def unat_of_nat_small)

subsection \<open>Data frames\<close>

record mac_frame =
  to_ds :: bool
  da :: "u8 list"
  sa :: "u8 list"
  bssid :: "u8 list"
  qos :: "u8 option"
  htc :: "u8 list"
  sec :: "u8 list"
  sq_num :: u16
  fragno :: u8
  morefr :: bool

definition mac_ok :: "hw_rxhdr \<Rightarrow> mac_frame \<Rightarrow> bool" where
  "mac_ok hdr f \<longleftrightarrow> length (da f) = 6 \<and> length (sa f) = 6 \<and> length (bssid f) = 6 \<and> (htc f = [] \<or> length (htc f) = 4) \<and>
     length (sec f) = sec_len hdr \<and> sq_num f < 4096 \<and> fragno f < 16 \<and> (case qos f of None \<Rightarrow> True | Some t \<Rightarrow> t < 16)"

definition mac_fc :: "mac_frame \<Rightarrow> u8 list" where
  "mac_fc f = [if qos f = None then 0x08 else 0x88, (if to_ds f then 1 else 2) OR (if morefr f then 4 else 0) OR (if htc f \<noteq> [] then 0x80 else 0)]"

definition mac_header :: "mac_frame \<Rightarrow> u8 list" where
  "mac_header f = mac_fc f @ [0, 0] @
     (if to_ds f then bssid f @ sa f @ da f else da f @ bssid f @ sa f) @
     [push_bit 4 (ucast (sq_num f)) OR fragno f, ucast (drop_bit 4 (sq_num f))] @
     (case qos f of None \<Rightarrow> [] | Some t \<Rightarrow> [t, 0]) @ htc f @ sec f"

definition snap :: "u8 list" where "snap = [0xAA, 0xAA, 0x03, 0, 0, 0]"

definition tid_of :: "mac_frame \<Rightarrow> u8" where "tid_of f = (case qos f of None \<Rightarrow> 0 | Some t \<Rightarrow> t)"

lemma fc_bits:
  "mac_fc f ! 0 AND 0x0f = 0x08" "mac_fc f ! 0 AND 0x80 = 0x80 \<longleftrightarrow> qos f \<noteq> None"
  "mac_fc f ! 1 AND 0x80 \<noteq> 0 \<longleftrightarrow> htc f \<noteq> []" "mac_fc f ! 1 AND 0x3 = (if to_ds f then 1 else 2)" "bit (mac_fc f ! 1) 2 \<longleftrightarrow> morefr f"
  by (auto simp: mac_fc_def bit_or_iff)

lemma u8_bit_less: "bit (x :: u8) n \<Longrightarrow> n < 8" using bit_imp_le_length [of x n] by simp

lemma more_frag_bit: "more_frag skb \<longleftrightarrow> bit (byte skb 1) 2"
proof -
  have "x AND MAC_FCTRL_MOREFRAG \<noteq> 0 \<longleftrightarrow> bit x 10" for x :: u16
    using and_exp_eq_0_iff_not_bit [of x 10] by (simp add: MAC_FCTRL_MOREFRAG_def)
  then show ?thesis by (auto simp: more_frag_def bit_simps dest: u8_bit_less)
qed

lemma u16_bits_below: "x < 4096 \<Longrightarrow> bit x n \<Longrightarrow> n < 12" for x :: u16
proof (rule ccontr)
  assume a: "x < 4096" "bit x n" "\<not> n < 12"
  have "unat x < 2 ^ 12" using a(1) by (simp add: word_less_nat_alt)
  then have "take_bit 12 (unat x) = unat x" by (rule take_bit_nat_eq_self)
  then have "\<not> bit (unat x) n" using a(3) by (metis bit_take_bit_iff)
  then show False using a(2) by (simp add: bit_unsigned_iff)
qed

lemma u8_bits_below: "x < 16 \<Longrightarrow> bit x n \<Longrightarrow> n < 4" for x :: u8
proof (rule ccontr)
  assume a: "x < 16" "bit x n" "\<not> n < 4"
  have "unat x < 2 ^ 4" using a(1) by (simp add: word_less_nat_alt)
  then have "take_bit 4 (unat x) = unat x" by (rule take_bit_nat_eq_self)
  then have "\<not> bit (unat x) n" using a(3) by (metis bit_take_bit_iff)
  then show False using a(2) by (simp add: bit_unsigned_iff)
qed

lemma bit_f0: "bit (0xf0 :: u8) n \<longleftrightarrow> 4 \<le> n \<and> n < 8"
proof -
  have "(0xf0 :: u8) = mask 8 AND NOT (mask 4)" by (simp add: mask_eq_exp_minus_1)
  then show ?thesis by (simp only: bit_and_iff bit_not_iff bit_mask_iff) auto
qed

lemma bit_0f: "bit (0x0f :: u8) n \<longleftrightarrow> n < 4"
proof -
  have "(0x0f :: u8) = mask 4" by (simp add: mask_eq_exp_minus_1)
  then show ?thesis by (simp only: bit_mask_iff) auto
qed

lemma seq_bits:
  fixes sq :: u16 and fn :: u8
  assumes "sq < 4096" "fn < 16" "lo = push_bit 4 (ucast sq) OR fn" "hi = (ucast (drop_bit 4 sq) :: u8)"
  shows "drop_bit 4 (ucast (lo AND 0xf0)) OR push_bit 4 (ucast hi) = (sq :: u16)" "lo AND 0x0f = fn"
proof -
  show "lo AND 0x0f = fn" using u8_bits_below [OF assms(2)]
    by (intro bit_word_eqI) (simp only: assms(3) bit_and_iff bit_or_iff bit_push_bit_iff bit_0f, auto)
  show "drop_bit 4 (ucast (lo AND 0xf0)) OR push_bit 4 (ucast hi) = sq"
  proof (rule bit_word_eqI)
    fix n :: nat
    assume "n < LENGTH(16)"
    show "bit (drop_bit 4 (ucast (lo AND 0xf0)) OR push_bit 4 (ucast hi) :: u16) n = bit sq n"
      using u16_bits_below [OF assms(1), of n] u8_bits_below [OF assms(2), of "n + 4"]
      by (simp only: assms(3,4) bit_and_iff bit_or_iff bit_push_bit_iff bit_drop_bit_eq comp_apply bit_unsigned_iff bit_f0) (cases "4 \<le> n"; auto simp: add.commute)
  qed
qed

text \<open>What the driver reads from a frame.\<close>

lemma mac_parse:
  assumes "mac_ok hdr f" "skb_has skb (mac_header f @ rest)"
  shows "is_80211_data skb" "is_qos skb \<longleftrightarrow> qos f \<noteq> None" "qos_tid skb = tid_of f" "\<not> is_amsdu skb" "more_frag skb = morefr f"
    "seq_ctrl skb = sq_num f" "frag_num skb = fragno f" "hdr_len skb + sec_len hdr = length (mac_header f)"
    "frame_ra skb = da f" "frame_ta skb = sa f"
proof -
  have l: "length (da f) = 6" "length (sa f) = 6" "length (bssid f) = 6" "htc f = [] \<or> length (htc f) = 4" "length (sec f) = sec_len hdr"
    "sq_num f < 4096" "fragno f < 16" "case qos f of None \<Rightarrow> True | Some t \<Rightarrow> t < 16" using assms(1) by (simp_all add: mac_ok_def)
  define addr where "addr = (if to_ds f then bssid f @ sa f @ da f else da f @ bssid f @ sa f)"
  define lo hi where "lo = push_bit 4 (ucast (sq_num f)) OR fragno f" "hi = (ucast (drop_bit 4 (sq_num f)) :: u8)"
  have la: "length addr = 18" by (simp add: addr_def l)
  have h: "skb_has skb (mac_fc f @ [0, 0] @ addr @ [lo, hi] @ (case qos f of None \<Rightarrow> [] | Some t \<Rightarrow> [t, 0]) @ htc f @ sec f @ rest)"
    using assms(2) by (simp add: mac_header_def addr_def lo_hi_def)
  have fl: "length (mac_fc f) = 2" by (simp add: mac_fc_def)
  have b: "byte skb 0 = mac_fc f ! 0" "byte skb 1 = mac_fc f ! 1" "byte skb 22 = lo" "byte skb 23 = hi"
    "qos f = Some t \<Longrightarrow> byte skb 24 = t" for t
    using has_byte [OF h, of 0] has_byte [OF h, of 1] has_byte [OF h, of 22] has_byte [OF h, of 23] has_byte [OF h, of 24]
    by (simp_all add: nth_append fl la)
  show d: "is_80211_data skb" by (simp add: is_80211_data_def b fc_bits)
  show q: "is_qos skb \<longleftrightarrow> qos f \<noteq> None" by (simp add: is_qos_def d b fc_bits)
  have t: "t AND 0x0F = t \<and> t AND 0x80 = 0" if "qos f = Some t" for t
  proof
    have "t < 16" using l(8) that by simp
    then show "t AND 0x0F = t" using u8_bits_below by (intro bit_word_eqI) (simp only: bit_and_iff bit_0f, blast)
    have "\<not> bit t 7" using u8_bits_below [OF \<open>t < 16\<close>, of 7] by auto
    then show "t AND 0x80 = 0" using and_exp_eq_0_iff_not_bit [of t 7] by simp
  qed
  show "qos_tid skb = tid_of f" using q t b(5) by (cases "qos f") (simp_all add: qos_tid_def tid_of_def)
  show "\<not> is_amsdu skb" using q t b(5) by (cases "qos f") (simp_all add: is_amsdu_def)
  show "more_frag skb = morefr f" by (simp only: more_frag_bit b fc_bits)
  show "seq_ctrl skb = sq_num f" "frag_num skb = fragno f"
    using seq_bits [OF l(6,7) lo_hi_def] by (simp_all only: seq_ctrl_def frag_num_def b)
  have "hdr_len skb = (if qos f \<noteq> None then 26 else 24) + (if htc f \<noteq> [] then 4 else 0)" by (simp only: hdr_len_def q b fc_bits)
  then show "hdr_len skb + sec_len hdr = length (mac_header f)"
    using l(4) by (auto simp: mac_header_def fl la [unfolded addr_def] l(1-3,5) split: option.splits)
  have m: "mac_at skb (4 + k) = take 6 (drop k addr)" if "k \<le> 12" for k
    unfolding mac_at_def
  proof (rule nth_equalityI)
    fix i
    assume "i < length (map (byte skb) [4 + k..<4 + k + 6])"
    then show "map (byte skb) [4 + k..<4 + k + 6] ! i = take 6 (drop k addr) ! i"
      using that by (simp add: la has_byte [OF h] nth_append fl del: upt_Suc)
  qed (use that la in simp)
  have m4: "mac_at skb 4 = take 6 addr" "mac_at skb 10 = take 6 (drop 6 addr)" "mac_at skb 16 = take 6 (drop 12 addr)"
    using m [of 0] m [of 6] m [of 12] by simp_all
  show "frame_ra skb = da f" "frame_ta skb = sa f" by (simp_all only: frame_ra_def frame_ta_def b fc_bits m4) (simp_all add: addr_def l)
qed

lemma decap_bytes:
  assumes "mac_ok hdr f" "skb_has skb (mac_header f @ snap @ et @ body)" "length et = 2" "length body < 65536"
  shows "skb_has (decap hdr skb) (da f @ sa f @ et @ body)"
proof -
  note p = mac_parse [OF assms(1,2)]
  have l: "length snap = 6" by (simp add: snap_def)
  have pl: "pull_len hdr skb = length (mac_header f @ snap @ et)" using p(8) assms(3) by (simp add: pull_len_def l)
  have "ether_type hdr skb = et"
  proof -
    have i: "hdr_len skb + 6 + sec_len hdr = length (mac_header f @ snap)" using p(8) by (simp add: l)
    have "map (byte skb) [length (mac_header f @ snap)..<length (mac_header f @ snap) + length et] = et"
      by (rule has_bytes [where zs = body]) (use assms(2) in simp)
    then show ?thesis unfolding ether_type_def Let_def i by (simp add: assms(3) upt_rec)
  qed
  then have e: "eth_header hdr skb = da f @ sa f @ et" by (simp add: eth_header_def p)
  have "skb_has (pull_skb (length (mac_header f @ snap @ et)) skb) body" by (rule has_pull) (use assms(2) in simp)
  then have "skb_has (decap hdr skb) ((da f @ sa f @ et) @ body)" unfolding decap_def pl e
    by (rule has_push) (use assms(1,3,4) in \<open>simp add: mac_ok_def\<close>)
  then show ?thesis by simp
qed

text \<open>C8. A data frame becomes the Ethernet frame it carries: for every frame of the specification that is neither
  an aggregate nor a fragment, with any security header and either direction, the indication
  continues with a buffer that holds destination, source, type and body, and with the frame's TID
  and sequence number.\<close>

theorem rx_decap_roundtrip:
  assumes "mac_ok hdr f" "skb_bytes skb = mac_header f @ snap @ et @ body" "length et = 2" "length body < 65536"
    "flags_need_reord hdr \<or> (\<not> morefr f \<and> fragno f = 0)"
  shows "\<exists>e. skb_bytes e = da f @ sa f @ et @ body \<and> skb_id e = skb_id skb \<and>
    ind_data c hdr skb h = ind_finish c hdr (qos f \<noteq> None, tid_of f, sq_num f) e h"
proof (intro exI conjI)
  have b: "skb_has skb (mac_header f @ snap @ et @ body)" using assms(2) by (simp add: skb_bytes_has)
  show "skb_bytes (decap hdr skb) = da f @ sa f @ et @ body" using decap_bytes [OF assms(1) b assms(3,4)] by (simp add: skb_bytes_has)
  show "skb_id (decap hdr skb) = skb_id skb" by (simp add: decap_def skb_push_bytes_def pull_skb_def)
  note p = mac_parse [OF assms(1) b]
  have "\<not> is_fragment hdr skb" using assms(5) p by (auto simp: is_fragment_def)
  then show "ind_data c hdr skb h = ind_finish c hdr (qos f \<noteq> None, tid_of f, sq_num f) (decap hdr skb) h"
    by (simp add: ind_data_def p)
qed

text \<open>A configuration with one interface and a frame to try the theorems on.\<close>

definition demo_rx_cfg :: rx_cfg where
  "demo_rx_cfg = \<lparr>vif_table = (\<lambda>i. if i = 0 then Some 0 else None), vif_up = (\<lambda>_. True), vif_index = id, ap_isolate = (\<lambda>_. True), use_4addr = (\<lambda>_. False),
     sta_table = (\<lambda>_. \<lparr>sta_valid = True, vlan_idx = 0\<rparr>), sub_alloc = (\<lambda>_. True), info_alloc = True, frag_alloc = True, copy_alloc = (\<lambda>_. True),
     reord_alloc = True, tailroom = 2000, arp_ciphers_ok = (\<lambda>_. False), dev_addr = (\<lambda>_. [2, 0, 0, 0, 0, 1]), to_8023s = (\<lambda>s. [s])\<rparr>"

definition demo_hdr :: hw_rxhdr where
  "demo_hdr = \<lparr>decr_status = RWNX_RX_HD_DECR_CCMP128, ga_frame = False, flags_is_amsdu = False, flags_is_80211_mpdu = False, flags_is_4addr = False,
     flags_need_reord = False, flags_upload = True, flags_vif_idx = 0, flags_sta_idx = 0, flags_dst_idx = 1\<rparr>"

definition demo_hw :: rx_hw where
  "demo_hw = \<lparr>priv = \<lparr>rwnx_vifs = [\<lparr>iftype = NL80211_IFTYPE_AP, rx_packets = 0, rx_bytes = 0\<rparr>], rwnx_vif = Some 0, bus_down = False, recv_frames = [],
     rxframes_freequeue = [], stas_reord_list = [], netif_log = [], kfree_log = []\<rparr>, defrag_list = [], xmit_log = [], mgmt_log = [],
     four_addr_log = [], dhcped = False, arp_log = [], fresh_skb = 100\<rparr>"

definition demo_mac :: "u8 \<Rightarrow> bool \<Rightarrow> mac_frame" where
  "demo_mac n m = \<lparr>to_ds = True, da = [2, 0, 0, 0, 0, 1], sa = [2, 0, 0, 0, 0, 2], bssid = [2, 0, 0, 0, 0, 3], qos = Some 3, htc = [], sec = replicate 8 0,
     sq_num = 100, fragno = n, morefr = m\<rparr>"

lemma demo_mac_ok: "n < 16 \<Longrightarrow> mac_ok demo_hdr (demo_mac n m)"
  by (simp add: mac_ok_def demo_mac_def demo_hdr_def sec_len_def RWNX_RX_HD_DECR_CCMP128_def)

lemma demo_mac_simps: "da (demo_mac n m) = [2, 0, 0, 0, 0, 1]" "sa (demo_mac n m) = [2, 0, 0, 0, 0, 2]" "qos (demo_mac n m) = Some 3" "tid_of (demo_mac n m) = 3"
  "sq_num (demo_mac n m) = 100" "fragno (demo_mac n m) = n" "morefr (demo_mac n m) = m" "length (mac_header (demo_mac n m)) = 34"
  by (simp_all add: demo_mac_def tid_of_def mac_header_def mac_fc_def)

lemma demo_vif: "rwnx_rx_get_vif demo_rx_cfg (flags_vif_idx demo_hdr) = Some 0"
  by (simp add: rwnx_rx_get_vif_def demo_rx_cfg_def demo_hdr_def NX_VIRT_DEV_MAX_rx_def)

lemma skb_bytes_of: "length bs < 4294967296 \<Longrightarrow> skb_bytes (skb_of i bs) = bs" by (simp add: skb_bytes_has skb_of_has)

theorem rx_decap_roundtrip_witness:
  "\<exists>e. skb_bytes e = [2, 0, 0, 0, 0, 1] @ [2, 0, 0, 0, 0, 2] @ [8, 6] @ [42] \<and> skb_id e = 7 \<and>
    ind_data demo_rx_cfg demo_hdr (skb_of 7 (mac_header (demo_mac 0 False) @ snap @ [8, 6] @ [42])) demo_hw = ind_finish demo_rx_cfg demo_hdr (True, 3, 100) e demo_hw"
  using rx_decap_roundtrip [of demo_hdr "demo_mac 0 False" "skb_of 7 (mac_header (demo_mac 0 False) @ snap @ [8, 6] @ [42])" "[8, 6]" "[42]" demo_rx_cfg demo_hw,
      OF demo_mac_ok skb_bytes_of]
  by (simp add: demo_mac_simps snap_def) (simp add: skb_of_def)

subsection \<open>Aggregates\<close>

record subframe =
  s_da :: "u8 list"
  s_sa :: "u8 list"
  s_body :: "u8 list"

definition sub_ok :: "subframe \<Rightarrow> bool" where
  "sub_ok s \<longleftrightarrow> length (s_da s) = 6 \<and> length (s_sa s) = 6 \<and> 2 \<le> length (s_body s) \<and> length (s_body s) < 60000"

text \<open>A subframe: addresses, length, SNAP header, type and body (\<open>s_body\<close>), padded to a word unless last.\<close>

definition sub_raw :: "subframe \<Rightarrow> u8 list" where
  "sub_raw s = s_da s @ s_sa s @ [of_nat ((6 + length (s_body s)) div 256), of_nat ((6 + length (s_body s)) mod 256)] @ snap @ s_body s"

definition sub_padded :: "subframe \<Rightarrow> u8 list" where
  "sub_padded s = sub_raw s @ replicate ((length (sub_raw s) + 3) div 4 * 4 - length (sub_raw s)) 0"

fun amsdu_bytes :: "subframe list \<Rightarrow> u8 list" where
  "amsdu_bytes [] = []"
| "amsdu_bytes [s] = sub_raw s"
| "amsdu_bytes (s # ss) = sub_padded s @ amsdu_bytes ss"

text \<open>The frames of an aggregate, each delivered on its own.\<close>

fun deliver_subs :: "rx_cfg \<Rightarrow> hw_rxhdr \<Rightarrow> nat \<Rightarrow> subframe list \<Rightarrow> rx_hw \<Rightarrow> rx_hw res" where
  "deliver_subs c hdr v [] h = ok h"
| "deliver_subs c hdr v (s # ss) h =
     rbind (data_skb_or_free c hdr v (skb_of (fresh_skb h) (s_da s @ s_sa s @ s_body s)) (h\<lparr>fresh_skb := Suc (fresh_skb h)\<rparr>))
       (deliver_subs c hdr v ss)"

lemma sub_raw_length: "sub_ok s \<Longrightarrow> length (sub_raw s) = length (s_body s) + 20" by (simp add: sub_raw_def sub_ok_def snap_def)

lemma sub_parse:
  assumes "sub_ok s" "skb_has skb (sub_raw s @ rest)"
  shows "sub_len skb = 6 + length (s_body s)" "sub_frame skb = s_da s @ s_sa s @ s_body s"
proof -
  define n where "n = 6 + length (s_body s)"
  have l: "length (s_da s) = 6" "length (s_sa s) = 6" "length snap = 6" using assms(1) by (simp_all add: sub_ok_def snap_def)
  have h: "skb_has skb (s_da s @ s_sa s @ [of_nat (n div 256), of_nat (n mod 256)] @ snap @ s_body s @ rest)"
    using assms(2) by (simp add: sub_raw_def n_def)
  have "n < 65536" using assms(1) by (simp add: n_def sub_ok_def)
  then have u: "unat (of_nat (n div 256) :: u8) = n div 256" "unat (of_nat (n mod 256) :: u8) = n mod 256"
    by (rule_tac [!] unat_of_nat_small) (simp_all add: less_mult_imp_div_less)
  have "byte skb 12 = of_nat (n div 256)" "byte skb 13 = of_nat (n mod 256)"
    using has_byte [OF h, of 12] has_byte [OF h, of 13] by (simp_all add: nth_append l)
  then have "sub_len skb = n" using div_mult_mod_eq [of n 256] by (simp add: sub_len_def u)
  then show sl: "sub_len skb = 6 + length (s_body s)" by (simp only: n_def)
  have "map (byte skb) [0..<12] = s_da s @ s_sa s"
    using has_bytes [of skb "[]" "s_da s @ s_sa s" "[of_nat (n div 256), of_nat (n mod 256)] @ snap @ s_body s @ rest"] h by (simp add: l)
  moreover have "map (byte skb) [20..<20 + length (s_body s)] = s_body s"
    using has_bytes [of skb "s_da s @ s_sa s @ [of_nat (n div 256), of_nat (n mod 256)] @ snap" "s_body s" rest] h by (simp add: l)
  ultimately show "sub_frame skb = s_da s @ s_sa s @ s_body s" by (simp add: sub_frame_def sl)
qed

lemma amsdu_bytes_Cons: "ss \<noteq> [] \<Longrightarrow> amsdu_bytes (s # ss) = sub_padded s @ amsdu_bytes ss" by (cases ss) simp_all

lemma amsdu_bytes_min: "ss \<noteq> [] \<Longrightarrow> list_all sub_ok ss \<Longrightarrow> 22 \<le> length (amsdu_bytes ss)"
  by (induction ss rule: amsdu_bytes.induct) (auto simp: sub_raw_length sub_ok_def sub_padded_def)

text \<open>C24. An aggregate is taken apart into exactly its subframes: each becomes an Ethernet frame, in order, in a
  buffer of its own, and goes the way of a single frame.\<close>

theorem amsdu_split:
  assumes "list_all sub_ok ss" "skb_bytes skb = amsdu_bytes ss" "length (amsdu_bytes ss) < 65536"
    "rwnx_rx_get_vif c (flags_vif_idx hdr) = Some v" "\<forall>n. sub_alloc c n"
  shows "amsdu_loop c hdr skb h = deliver_subs c hdr v ss h"
proof -
  have "skb_has skb (amsdu_bytes ss)" using assms(2) by (simp add: skb_bytes_has)
  then show ?thesis using assms(1,3)
  proof (induction ss arbitrary: skb h)
    case Nil
    then have "skb_len skb = 0" by (simp add: skb_has_def unat_eq_0)
    then show ?case by (subst amsdu_loop.simps) simp
  next
    case (Cons s ss)
    have s: "sub_ok s" "list_all sub_ok ss" using Cons.prems(2) by simp_all
    obtain rest where r: "amsdu_bytes (s # ss) = sub_raw s @ rest" by (cases ss) (simp_all add: sub_padded_def)
    note p = sub_parse [OF s(1) Cons.prems(1) [unfolded r]]
    have len: "unat (skb_len skb) = length (s_body s) + 20 + length rest" using Cons.prems(1) r sub_raw_length [OF s(1)] by (simp add: skb_has_def)
    have nx: "skb_has (pull_skb (sub_aligned skb) skb) (amsdu_bytes ss)"
    proof (cases "ss = []")
      case True
      then have "sub_aligned skb = length (sub_raw s)" using r len Cons.prems(3) by (simp add: sub_aligned_def p sub_raw_length [OF s(1)])
      then show ?thesis using has_pull [of skb "sub_raw s" "[]"] Cons.prems(1) True by simp
    next
      case False
      have b: "amsdu_bytes (s # ss) = sub_padded s @ amsdu_bytes ss" by (rule amsdu_bytes_Cons [OF False])
      have pl: "length (sub_padded s) = (length (s_body s) + 23) div 4 * 4"
        using sub_raw_length [OF s(1)] div_mult_mod_eq [of "length (s_body s) + 23" 4] mod_less_divisor [of 4 "length (s_body s) + 23"]
        by (simp add: sub_padded_def)
      have "0 < length (amsdu_bytes ss)" using amsdu_bytes_min [OF False s(2)] by linarith
      moreover have "length rest + length (sub_raw s) = length (sub_padded s) + length (amsdu_bytes ss)" using r b by (metis length_append add.commute)
      moreover have "length (sub_raw s) \<le> length (sub_padded s)" by (simp add: sub_padded_def)
      ultimately have "0 < length rest" by linarith
      then have "sub_aligned skb = length (sub_padded s)"
        using len Cons.prems(3) b pl by (simp add: sub_aligned_def p add.commute)
      then show ?thesis using has_pull [of skb "sub_padded s" "amsdu_bytes ss"] Cons.prems(1) b by simp
    qed
    have "length (amsdu_bytes ss) < 65536" using Cons.prems(3) by (cases "ss = []") (simp_all add: amsdu_bytes_Cons)
    from Cons.IH [OF nx s(2) this] show ?case
      using len s(1) assms(4,5) by (subst amsdu_loop.simps) (simp add: p rbind_def sub_ok_def split: option.splits sum.splits)
  qed
qed

definition demo_subs :: "subframe list" where
  "demo_subs = [\<lparr>s_da = [2, 0, 0, 0, 0, 1], s_sa = [2, 0, 0, 0, 0, 2], s_body = [8, 0, 1, 2, 3]\<rparr>,
     \<lparr>s_da = [2, 0, 0, 0, 0, 1], s_sa = [2, 0, 0, 0, 0, 2], s_body = [8, 6, 9]\<rparr>]"

theorem amsdu_split_witness:
  "amsdu_loop demo_rx_cfg demo_hdr (skb_of 7 (amsdu_bytes demo_subs)) demo_hw = deliver_subs demo_rx_cfg demo_hdr 0 demo_subs demo_hw"
proof -
  have "length (amsdu_bytes demo_subs) < 100" by (simp add: demo_subs_def sub_padded_def sub_raw_def snap_def)
  then show ?thesis
    by (intro amsdu_split) (simp_all add: skb_bytes_of demo_vif, simp_all add: demo_subs_def sub_ok_def demo_rx_cfg_def)
qed

end
