(* ===== verification/Rx_Frag.thy ===== *)
theory Rx_Frag
  imports Rx_Decap
begin

text \<open>Fragments: putting together a fragmented frame, and what goes wrong when fragments are missing or mixed.\<close>

subsection \<open>Sequences of indications\<close>

fun ind_all :: "rx_cfg \<Rightarrow> hw_rxhdr \<Rightarrow> sk_buff list \<Rightarrow> rx_hw \<Rightarrow> rx_hw res" where
  "ind_all c hdr [] h = ok h"
| "ind_all c hdr (s # ss) h = rbind (ind_data c hdr s h) (ind_all c hdr ss)"

text \<open>A fragment with a number, whether more follow, and its body.\<close>

definition fragment :: "hw_rxhdr \<Rightarrow> u8 \<Rightarrow> u16 \<Rightarrow> nat \<Rightarrow> bool \<Rightarrow> u8 list \<Rightarrow> sk_buff \<Rightarrow> bool" where
  "fragment hdr tid sq n m body skb \<longleftrightarrow>
     (\<exists>f. mac_ok hdr f \<and> tid_of f = tid \<and> sq_num f = sq \<and> unat (fragno f) = n \<and> morefr f = m \<and> skb_bytes skb = mac_header f @ body)"

fun fragments :: "hw_rxhdr \<Rightarrow> u8 \<Rightarrow> u16 \<Rightarrow> nat \<Rightarrow> u8 list list \<Rightarrow> sk_buff list \<Rightarrow> bool" where
  "fragments hdr tid sq n [] [] \<longleftrightarrow> True"
| "fragments hdr tid sq n (b # bs) (s # ss) \<longleftrightarrow> fragment hdr tid sq n (bs \<noteq> []) b s \<and> fragments hdr tid sq (Suc n) bs ss"
| "fragments hdr tid sq n _ _ \<longleftrightarrow> False"

lemma df_find_append: "df_find sq tid sta ds = None \<Longrightarrow>
  df_find sq tid sta (ds @ [d]) = (if df_matches sq tid sta d then Some (length ds) else None)"
  by (induction ds) (auto split: if_splits)

text \<open>The entry that holds \<open>acc\<close> and waits for fragment \<open>n\<close>.\<close>

definition df_holds :: "u8 \<Rightarrow> u16 \<Rightarrow> u8 \<Rightarrow> nat \<Rightarrow> u8 list \<Rightarrow> nat \<Rightarrow> defrag_ctrl_info \<Rightarrow> bool" where
  "df_holds tid sq sta n acc i d \<longleftrightarrow> df_matches sq tid sta d \<and> next_fn d = of_nat n \<and> skb_has (df_skb d) acc \<and>
     unat (frm_len d) = length acc \<and> skb_id (df_skb d) = i"

lemma df_append_holds:
  assumes "df_holds tid sq sta n acc i d" "skb_has skb (mh @ b)" "length acc + length b \<le> tailroom c" "tailroom c < 65536"
  obtains d' where "df_append c (length mh) skb d = Inr d'" "df_matches sq tid sta d'" "next_fn d' = of_nat n" "skb_has (df_skb d') (acc @ b)"
    "unat (frm_len d') = length (acc @ b)" "skb_id (df_skb d') = i"
proof -
  have d: "df_matches sq tid sta d" "next_fn d = of_nat n" "skb_has (df_skb d) acc" "unat (frm_len d) = length acc" "skb_id (df_skb d) = i"
    using assms(1) by (auto simp: df_holds_def)
  have l: "unat (skb_len skb) = length mh + length b" "unat (skb_len (df_skb d)) = length acc" using assms(2) d(3) by (simp_all add: skb_has_def)
  have b: "length b < 65536" using assms(3,4) by simp
  have u: "unat (of_nat (length b) :: u16) = length b" "unat (of_nat (length b) :: u32) = length b"
    using b by (auto intro!: unat_of_nat_small)
  define d' where "d' = d\<lparr>df_skb := (df_skb d)\<lparr>skb_mem := (\<lambda>i. if length acc \<le> i \<and> i < length acc + length b then skb_mem skb (length mh + (i - length acc))
      else skb_mem (df_skb d) i), skb_len := skb_len (df_skb d) + of_nat (length b)\<rparr>, frm_len := frm_len d + of_nat (length b)\<rparr>"
  have a: "df_append c (length mh) skb d = Inr d'" using assms(3) by (simp add: df_append_def Let_def l d(4) d'_def)
  have f: "unat (frm_len d + of_nat (length b)) = length acc + length b" "unat (skb_len (df_skb d) + of_nat (length b)) = length acc + length b"
    using assms(3,4) by (simp_all add: unat_add_no_overflow u d(4) l(2))
  have "skb_has (df_skb d') (acc @ b)" using d(3) assms(2) by (auto simp: skb_has_def d'_def f nth_append)
  then show thesis using that [OF a] d f by (simp add: d'_def df_matches_def)
qed

lemma fragment_parse:
  assumes "fragment hdr tid sq n m body skb" "\<not> flags_need_reord hdr" "m \<or> n \<noteq> 0"
  obtains mh where "skb_has skb (mh @ body)" "length mh = pull_len hdr skb - 8" "is_80211_data skb" "\<not> is_amsdu skb" "is_fragment hdr skb"
    "qos_tid skb = tid" "seq_ctrl skb = sq" "more_frag skb = m" "frag_num skb = of_nat n"
proof -
  obtain f where f: "mac_ok hdr f" "tid_of f = tid" "sq_num f = sq" "unat (fragno f) = n" "morefr f = m" "skb_bytes skb = mac_header f @ body"
    using assms(1) by (auto simp: fragment_def)
  have h: "skb_has skb (mac_header f @ body)" using f(6) by (simp add: skb_bytes_has)
  note p = mac_parse [OF f(1) h]
  have "length (mac_header f) = pull_len hdr skb - 8" using p(8) by (simp add: pull_len_def)
  moreover have "frag_num skb = of_nat n" using p(7) f(4) by (simp flip: f(4))
  moreover have "is_fragment hdr skb" using assms(2,3) p(5,7) f(4,5) by (auto simp: is_fragment_def)
  ultimately show thesis using that [OF h] p f by simp
qed

lemma kfree_fields [simp]:
  "defrag_list (kfree s h) = defrag_list h" "kfree_log (priv (kfree s h)) = kfree_log (priv h) @ [s]" "netif_log (priv (kfree s h)) = netif_log (priv h)"
  "fresh_skb (kfree s h) = fresh_skb h" "xmit_log (kfree s h) = xmit_log h"
  by (simp_all add: kfree_def dev_kfree_skb_def)

text \<open>The fragments after the first, from an entry that waits for them.\<close>

lemma fragments_complete:
  assumes "fragments hdr tid sq n bs ss" "bs \<noteq> []" "0 < n" "\<not> flags_need_reord hdr" "df_find sq tid (key_sta hdr) ds = None"
    "defrag_list h = ds @ [d]" "df_holds tid sq (key_sta hdr) n acc i d" "length acc + length (concat bs) \<le> tailroom c" "tailroom c < 65536"
    "rwnx_rx_get_vif c (flags_vif_idx hdr) = Some v"
  shows "\<exists>e h1. skb_bytes e = acc @ concat bs \<and> skb_id e = i \<and> ind_all c hdr ss h = data_skb_or_free c hdr v e h1 \<and> defrag_list h1 = ds \<and>
    kfree_log (priv h1) = kfree_log (priv h) @ ss \<and> netif_log (priv h1) = netif_log (priv h)"
  using assms(1-3,6-8)
proof (induction bs arbitrary: n ss h d acc)
  case (Cons b bs)
  obtain s ss' where ss: "ss = s # ss'" "fragment hdr tid sq n (bs \<noteq> []) b s" "fragments hdr tid sq (Suc n) bs ss'"
    using Cons.prems(1) by (cases ss) auto
  obtain mh where p: "skb_has s (mh @ b)" "length mh = pull_len hdr s - 8" "is_80211_data s" "\<not> is_amsdu s" "is_fragment hdr s"
    "qos_tid s = tid" "seq_ctrl s = sq" "more_frag s \<longleftrightarrow> bs \<noteq> []" "frag_num s = of_nat n"
    using fragment_parse [OF ss(2) assms(4)] Cons.prems(3) by auto
  have room: "length acc + length b \<le> tailroom c" using Cons.prems(6) by simp
  obtain d' where d': "df_append c (length mh) s d = Inr d'" "df_matches sq tid (key_sta hdr) d'" "next_fn d' = of_nat n" "skb_has (df_skb d') (acc @ b)"
    "unat (frm_len d') = length (acc @ b)" "skb_id (df_skb d') = i" by (rule df_append_holds [OF Cons.prems(5) p(1) room assms(9)])
  have f: "df_find sq tid (key_sta hdr) (defrag_list h) = Some (length ds)"
    using Cons.prems(5) by (simp add: Cons.prems(4) df_find_append [OF assms(5)] df_holds_def)
  have di: "defrag_list h ! length ds = d" "next_fn d = of_nat n" using Cons.prems(4,5) by (simp_all add: df_holds_def)
  show ?case
  proof (cases "bs = []")
    case True
    then have "ss' = []" using ss(3) by (cases ss') auto
    define h1 where "h1 = df_remove (length ds) (kfree s (h\<lparr>defrag_list := (defrag_list h)[length ds := d']\<rparr>))"
    have "ind_data c hdr s h = data_skb_or_free c hdr v (df_skb d') h1"
      using True by (simp add: ind_data_def p(3-9) f defrag_last_def di d'(1) assms(10) Let_def h1_def flip: p(2))
    then have "ind_all c hdr ss h = data_skb_or_free c hdr v (df_skb d') h1"
      by (simp add: ss(1) \<open>ss' = []\<close> rbind_def split: option.splits sum.splits)
    moreover have "skb_bytes (df_skb d') = acc @ concat (b # bs)" using d'(4) True by (simp add: skb_bytes_has)
    ultimately show ?thesis using d'(6) Cons.prems(4)
      by (intro exI [of _ "df_skb d'"] exI [of _ h1]) (simp add: h1_def df_remove_def ss(1) \<open>ss' = []\<close>)
  next
    case False
    define e where "e = d'\<lparr>next_fn := next_fn d' + 1\<rparr>"
    define h1 where "h1 = kfree s (h\<lparr>defrag_list := (defrag_list h)[length ds := e]\<rparr>)"
    have i1: "ind_data c hdr s h = ok h1"
      using False by (simp add: ind_data_def p(3-9) f defrag_next_def di d'(1) Let_def h1_def e_def flip: p(2))
    have "df_holds tid sq (key_sta hdr) (Suc n) (acc @ b) i e" using d' by (simp add: df_holds_def e_def df_matches_def add.commute)
    moreover have "defrag_list h1 = ds @ [e]" using Cons.prems(4) by (simp add: h1_def list_update_append)
    ultimately obtain x h2 where "skb_bytes x = (acc @ b) @ concat bs" "skb_id x = i" "ind_all c hdr ss' h1 = data_skb_or_free c hdr v x h2"
      "defrag_list h2 = ds" "kfree_log (priv h2) = kfree_log (priv h1) @ ss'" "netif_log (priv h2) = netif_log (priv h1)"
      using Cons.IH [OF ss(3) False, of h1 e "acc @ b"] Cons.prems(6) by auto
    then show ?thesis by (intro exI [of _ x] exI [of _ h2]) (simp add: ss(1) i1 h1_def)
  qed
qed simp

subsection \<open>Properties\<close>

text \<open>C14. Fragments that arrive in order are put together: the first opens an entry, and with the last the frame
  delivered is destination, source and type of the first followed by all the bodies; the entry is
  gone, every fragment's buffer is freed, and nothing was delivered before.\<close>

theorem defrag_reassembles:
  assumes "mac_ok hdr f" "morefr f" "fragno f = 0" "skb_bytes s = mac_header f @ snap @ et @ b0" "length et = 2"
    "fragments hdr (tid_of f) (sq_num f) 1 bs ss" "bs \<noteq> []" "\<not> flags_need_reord hdr"
    "df_find (sq_num f) (tid_of f) (key_sta hdr) (defrag_list h) = None" "info_alloc c" "frag_alloc c"
    "14 + length b0 + length (concat bs) \<le> tailroom c" "tailroom c < 65536" "rwnx_rx_get_vif c (flags_vif_idx hdr) = Some v"
  shows "\<exists>e h1. skb_bytes e = da f @ sa f @ et @ b0 @ concat bs \<and> ind_all c hdr (s # ss) h = data_skb_or_free c hdr v e h1 \<and>
    defrag_list h1 = defrag_list h \<and> kfree_log (priv h1) = kfree_log (priv h) @ s # ss \<and> netif_log (priv h1) = netif_log (priv h)"
proof -
  have hs: "skb_has s (mac_header f @ snap @ et @ b0)" using assms(4) by (simp add: skb_bytes_has)
  note p = mac_parse [OF assms(1) hs]
  define acc where "acc = da f @ sa f @ et @ b0"
  have la: "length acc = 14 + length b0" using assms(1,5) by (simp add: acc_def mac_ok_def)
  have e: "skb_has (decap hdr s) acc" unfolding acc_def by (rule decap_bytes [OF assms(1) hs assms(5)]) (use assms(12,13) in simp)
  then have el: "unat (skb_len (decap hdr s)) = length acc" by (simp add: skb_has_def)
  define d where "d = \<lparr>df_sta_idx = key_sta hdr, df_tid = tid_of f, df_sn = sq_num f, next_fn = 1, frm_len = ucast (skb_len (decap hdr s)),
    df_skb = (decap hdr s)\<lparr>skb_id := fresh_skb h\<rparr>, df_timer = True\<rparr>"
  define h0 where "h0 = kfree s (h\<lparr>fresh_skb := Suc (fresh_skb h), defrag_list := defrag_list h @ [d]\<rparr>)"
  have first: "ind_data c hdr s h = ok h0"
    using assms(2,3,8-12) el la
    by (simp add: ind_data_def p is_fragment_def defrag_first_def Let_def h0_def d_def)
  have "unat (ucast (skb_len (decap hdr s)) :: u16) = length acc"
    using la assms(12,13) by (simp add: unsigned_ucast_eq el take_bit_nat_eq_self)
  then have "df_holds (tid_of f) (sq_num f) (key_sta hdr) 1 acc (fresh_skb h) d"
    using e by (simp add: df_holds_def df_matches_def d_def skb_has_def)
  moreover have "defrag_list h0 = defrag_list h @ [d]" by (simp add: h0_def)
  ultimately obtain x h1 where "skb_bytes x = acc @ concat bs" "ind_all c hdr ss h0 = data_skb_or_free c hdr v x h1" "defrag_list h1 = defrag_list h"
    "kfree_log (priv h1) = kfree_log (priv h0) @ ss" "netif_log (priv h1) = netif_log (priv h0)"
    using fragments_complete [OF assms(6,7) _ assms(8,9), of h0 d acc "fresh_skb h" c v] la assms(12-14) by auto
  then show ?thesis by (intro exI [of _ x] exI [of _ h1]) (simp add: acc_def first h0_def)
qed

definition demo_frag :: "nat \<Rightarrow> u8 \<Rightarrow> bool \<Rightarrow> u8 list \<Rightarrow> sk_buff" where "demo_frag i n m bs = skb_of i (mac_header (demo_mac n m) @ bs)"

lemma demo_fragment: "n < 16 \<Longrightarrow> length bs < 100 \<Longrightarrow> fragment demo_hdr 3 100 (unat n) m bs (demo_frag i n m bs)"
  unfolding fragment_def by (rule exI [of _ "demo_mac n m"]) (simp add: demo_mac_ok demo_mac_simps demo_frag_def skb_bytes_of)

theorem defrag_reassembles_witness:
  "\<exists>e h1. skb_bytes e = [2, 0, 0, 0, 0, 1] @ [2, 0, 0, 0, 0, 2] @ [8, 0] @ [1, 2] @ [3, 4, 5] \<and>
    ind_all demo_rx_cfg demo_hdr [demo_frag 1 0 True (snap @ [8, 0] @ [1, 2]), demo_frag 2 1 True [3, 4], demo_frag 3 2 False [5]] demo_hw =
      data_skb_or_free demo_rx_cfg demo_hdr 0 e h1 \<and> defrag_list h1 = [] \<and> netif_log (priv h1) = []"
proof -
  have "fragments demo_hdr 3 100 1 [[3, 4], [5]] [demo_frag 2 1 True [3, 4], demo_frag 3 2 False [5]]"
  proof -
    have "fragment demo_hdr 3 100 (Suc 0) True [3, 4] (demo_frag 2 1 True [3, 4])" using demo_fragment [of 1 "[3, 4]" True 2] by simp
    moreover have "fragment demo_hdr 3 100 2 False [5] (demo_frag 3 2 False [5])" using demo_fragment [of 2 "[5]" False 3] by simp
    ultimately show ?thesis by (simp flip: numeral_2_eq_2)
  qed
  then have "\<exists>e h1. skb_bytes e = da (demo_mac 0 True) @ sa (demo_mac 0 True) @ [8, 0] @ [1, 2] @ concat [[3, 4], [5]] \<and>
    ind_all demo_rx_cfg demo_hdr (demo_frag 1 0 True (snap @ [8, 0] @ [1, 2]) # [demo_frag 2 1 True [3, 4], demo_frag 3 2 False [5]]) demo_hw =
      data_skb_or_free demo_rx_cfg demo_hdr 0 e h1 \<and> defrag_list h1 = defrag_list demo_hw \<and>
    kfree_log (priv h1) = kfree_log (priv demo_hw) @ [demo_frag 1 0 True (snap @ [8, 0] @ [1, 2]), demo_frag 2 1 True [3, 4], demo_frag 3 2 False [5]] \<and>
    netif_log (priv h1) = netif_log (priv demo_hw)"
    by (intro defrag_reassembles demo_mac_ok)
      (simp_all add: demo_mac_simps demo_vif demo_frag_def skb_bytes_of snap_def, simp_all add: demo_rx_cfg_def demo_hw_def demo_hdr_def)
  then show ?thesis by (simp add: demo_mac_simps demo_hw_def) blast
qed

text \<open>A last fragment without its beginning is not held back or dropped: it is handed on as a whole frame,
  with the seventh and eighth byte of its body as type and the rest as contents.\<close>

theorem lone_fragment_delivered:
  assumes "fragment hdr tid sq n False (xs @ et @ body) skb" "n \<noteq> 0" "\<not> flags_need_reord hdr" "df_find sq tid (key_sta hdr) (defrag_list h) = None"
    "length xs = 6" "length et = 2" "length body < 65536"
  shows "\<exists>e qos. skb_id e = skb_id skb \<and> drop 12 (skb_bytes e) = et @ body \<and> ind_data c hdr skb h = ind_finish c hdr (qos, tid, sq) e h"
proof (intro exI conjI)
  obtain mh where p: "skb_has skb (mh @ xs @ et @ body)" "length mh = pull_len hdr skb - 8" "is_80211_data skb" "\<not> is_amsdu skb" "is_fragment hdr skb"
    "qos_tid skb = tid" "seq_ctrl skb = sq" "more_frag skb = False" using fragment_parse [OF assms(1,3)] assms(2) by auto
  show "skb_id (decap hdr skb) = skb_id skb" by (simp add: decap_def skb_push_bytes_def pull_skb_def)
  show "ind_data c hdr skb h = ind_finish c hdr (is_qos skb, tid, sq) (decap hdr skb) h" using assms(4) by (simp add: ind_data_def p(3-8))
  have pl: "pull_len hdr skb = length (mh @ xs @ et)" using p(2) assms(5,6) by (simp add: pull_len_def)
  have "hdr_len skb + 6 + sec_len hdr = length (mh @ xs)" using p(2) assms(5) by (simp add: pull_len_def)
  moreover have "map (byte skb) [length (mh @ xs)..<length (mh @ xs) + length et] = et" by (rule has_bytes [where zs = body]) (use p(1) in simp)
  ultimately have et: "ether_type hdr skb = et" by (simp add: ether_type_def assms(6) upt_rec)
  have "skb_has (pull_skb (length (mh @ xs @ et)) skb) body" by (rule has_pull) (use p(1) in simp)
  moreover have ml: "length (frame_ra skb @ frame_ta skb) = 12" by (simp add: frame_ra_def frame_ta_def mac_at_def no_mac_def)
  ultimately have "skb_has (decap hdr skb) ((frame_ra skb @ frame_ta skb @ et) @ body)"
    unfolding decap_def pl eth_header_def et using assms(6,7) by (intro has_push) simp_all
  then have "skb_bytes (decap hdr skb) = (frame_ra skb @ frame_ta skb) @ et @ body" by (simp add: skb_bytes_has)
  then show "drop 12 (skb_bytes (decap hdr skb)) = et @ body" by (simp only: ml [symmetric] append_eq_conv_conj) simp
qed

theorem lone_fragment_delivered_witness:
  "\<exists>e qos. skb_id e = 7 \<and> drop 12 (skb_bytes e) = [8, 0] @ [42] \<and>
    ind_data demo_rx_cfg demo_hdr (demo_frag 7 1 False ([9, 9, 9, 9, 9, 9] @ [8, 0] @ [42])) demo_hw = ind_finish demo_rx_cfg demo_hdr (qos, 3, 100) e demo_hw"
proof -
  have f: "fragment demo_hdr 3 100 1 False ([9, 9, 9, 9, 9, 9] @ [8, 0] @ [42]) (demo_frag 7 1 False ([9, 9, 9, 9, 9, 9] @ [8, 0] @ [42]))"
    using demo_fragment [of 1 "[9, 9, 9, 9, 9, 9] @ [8, 0] @ [42]" False 7] by simp
  show ?thesis using lone_fragment_delivered [OF f, of demo_hw demo_rx_cfg] by (simp add: demo_hw_def demo_hdr_def demo_frag_def skb_of_def)
qed

text \<open>The kernel calls of a frame that is not an aggregate for the kernel either return or hang in the search
  for DHCP options; they do not fail.\<close>

lemma data_skb_no_fault: "\<not> flags_is_amsdu hdr \<Longrightarrow> data_skb_or_free c hdr v skb h \<noteq> Some (Inl f)"
proof -
  assume a: "\<not> flags_is_amsdu hdr"
  have one: "rx_route_one c v rf s h \<noteq> Some (Inl f)" for rf s h
    by (auto simp: rx_route_one_def arpoffload_proc_def Let_def rbind_def split: option.splits sum.splits)
  obtain rf where "rwnx_rx_data_skb c hdr v skb h = rbind (rx_route_one c v rf skb h) (\<lambda>h. ok (h, snd rf))"
    using a by (auto intro!: that [of "rx_routes c hdr (vif_type v h) v skb"] simp: rwnx_rx_data_skb_def Let_def rbind_def split: option.split sum.split)
  then have "rwnx_rx_data_skb c hdr v skb h \<noteq> Some (Inl f)"
    using one [of rf skb h] by (auto simp: rbind_def simp del: split_paired_All split: option.splits sum.splits)
  then show ?thesis by (auto simp: data_skb_or_free_def rbind_def split: option.splits sum.splits)
qed

text \<open>C34. Subframe lengths of a hostile aggregate: a length below six makes the driver copy a negative number of
  bytes, and a subframe that ends one to three bytes before the end of the aggregate, not on a
  word, is delivered again and again without end.\<close>

theorem amsdu_bad_length:
  assumes "16 < unat (skb_len skb)" "sub_len skb + 14 \<le> unat (skb_len skb)" "\<forall>n. sub_alloc c n" "rwnx_rx_get_vif c (flags_vif_idx hdr) = Some v"
    "\<not> flags_is_amsdu hdr" "unat (skb_len skb) < 65530"
  shows "if sub_len skb < 6 then amsdu_loop c hdr skb h = Some (Inl Negative_copy)
    else sub_len skb + 14 < unat (skb_len skb) \<and> unat (skb_len skb) < (sub_len skb + 17) div 4 * 4 \<longrightarrow> amsdu_loop c hdr skb h = None"
proof (cases "sub_len skb < 6")
  case True
  then show ?thesis using assms by (subst amsdu_loop.simps) simp
next
  case False
  show ?thesis
  proof (simp only: False if_False, rule impI, rule ccontr)
    assume a: "sub_len skb + 14 < unat (skb_len skb) \<and> unat (skb_len skb) < (sub_len skb + 17) div 4 * 4" "amsdu_loop c hdr skb h \<noteq> None"
    have "(sub_len skb + 17) div 4 * 4 + (sub_len skb + 17) mod 4 = sub_len skb + 17" by (rule div_mult_mod_eq)
    then have "(sub_len skb + 17) div 4 * 4 < 65536" using a(1) assms(6) by linarith
    then have pull: "pull_skb (sub_aligned skb) skb = skb" using a(1) by (simp add: sub_aligned_def pull_skb_def)
    obtain r where r: "amsdu_loop c hdr skb h = Some r" using a(2) by blast
    define bad where "bad = (\<lambda>c' hdr' skb'. c' = c \<and> hdr' = hdr \<and> skb' = skb)"
    have "\<not> bad c hdr skb"
    proof (rule amsdu_loop.raw_induct [OF _ r, where P = "\<lambda>c hdr skb h r. \<not> bad c hdr skb"], rule notI)
      fix loop c' hdr' skb' h' r'
      assume IH: "\<And>c' hdr' skb' h' r'. loop c' hdr' skb' h' = Some r' \<Longrightarrow> \<not> bad c' hdr' skb'" and b: "bad c' hdr' skb'"
        and step: "(if unat (skb_len skb') \<le> 16 \<or> unat (skb_len skb') < sub_len skb' + 14 then ok h'
          else if \<not> sub_alloc c' (fresh_skb h') then Some (Inl Null_skb)
          else if sub_len skb' < 6 then Some (Inl Negative_copy)
          else case rwnx_rx_get_vif c' (flags_vif_idx hdr') of
              None \<Rightarrow> ok (kfree (skb_of (fresh_skb h') (sub_frame skb')) (h'\<lparr>fresh_skb := Suc (fresh_skb h')\<rparr>))
            | Some v \<Rightarrow> (case data_skb_or_free c' hdr' v (skb_of (fresh_skb h') (sub_frame skb')) (h'\<lparr>fresh_skb := Suc (fresh_skb h')\<rparr>) of
                None \<Rightarrow> None
              | Some (Inl f) \<Rightarrow> Some (Inl f)
              | Some (Inr h) \<Rightarrow> loop c' hdr' (pull_skb (sub_aligned skb') skb') h)) = Some r'"
      have eq: "c' = c" "hdr' = hdr" "skb' = skb" using b by (simp_all add: bad_def)
      have "\<exists>h2. loop c hdr skb h2 = Some r'"
        using step assms False data_skb_no_fault [OF assms(5)] by (auto simp: eq pull split: option.splits sum.splits)
      then obtain h2 where "loop c hdr skb h2 = Some r'" ..
      from IH [OF this] show False by (simp add: bad_def)
    qed
    then show False by (simp add: bad_def)
  qed
qed

theorem amsdu_bad_length_witness:
  "amsdu_loop demo_rx_cfg demo_hdr (skb_of 7 (replicate 12 0 @ [0, 5] @ replicate 10 0)) demo_hw = Some (Inl Negative_copy) \<and>
   amsdu_loop demo_rx_cfg demo_hdr (skb_of 7 (replicate 12 0 @ [0, 7] @ replicate 9 0)) demo_hw = None"
  using amsdu_bad_length [of "skb_of 7 (replicate 12 0 @ [0, 5] @ replicate 10 0)" demo_rx_cfg demo_hdr 0 demo_hw]
    amsdu_bad_length [of "skb_of 7 (replicate 12 0 @ [0, 7] @ replicate 9 0)" demo_rx_cfg demo_hdr 0 demo_hw]
  by (simp add: demo_vif sub_len_def byte_def skb_of_def nth_append) (simp add: demo_rx_cfg_def demo_hdr_def)

text \<open>A frame between two stations of the access point, outside an aggregate and without QoS: it is sent to
  the other station even when the access point isolates its stations, and its buffer is neither
  freed nor handed on: it is lost.\<close>

theorem ap_intra_bss:
  assumes "\<not> is_mcast skb" "for_own_station c hdr v" "copy_alloc c (length (xmit_log h))" "ap_isolate c v"
  shows "\<exists>h1. ind_ap c hdr v (False, tid, seq) skb h = ok h1 \<and> map snd (xmit_log h1) = map snd (xmit_log h) @ [v] \<and>
    netif_log (priv h1) = netif_log (priv h) \<and> kfree_log (priv h1) = kfree_log (priv h) \<and> recv_frames (priv h1) = recv_frames (priv h) \<and>
    rx_routes c hdr NL80211_IFTYPE_AP v skb = (False, True)"
  using assms by (simp add: ind_ap_def rwnx_rx_data_skb_resend_def rx_routes_def Let_def)

theorem ap_intra_bss_witness:
  "\<exists>h1. ind_ap demo_rx_cfg demo_hdr 0 (False, 0, 0) (skb_of 7 [2, 0, 0, 0, 0, 1]) demo_hw = ok h1 \<and> map snd (xmit_log h1) = [0] \<and>
    netif_log (priv h1) = [] \<and> kfree_log (priv h1) = [] \<and> recv_frames (priv h1) = []"
proof -
  have p: "\<not> is_mcast (skb_of 7 [2, 0, 0, 0, 0, 1])" "for_own_station demo_rx_cfg demo_hdr 0" "copy_alloc demo_rx_cfg (length (xmit_log demo_hw))" "ap_isolate demo_rx_cfg 0"
    by (simp_all add: is_mcast_def for_own_station_def demo_rx_cfg_def demo_hdr_def demo_hw_def skb_of_def RWNX_INVALID_STA_def)
  show ?thesis using ap_intra_bss [OF p, of 0 0] by (auto simp: demo_hw_def)
qed

end
