(* ===== verification/Frame_Queue.thy ===== *)
theory Frame_Queue
  imports Prelude
begin

text \<open>
  The frame queues of \<^verbatim>\<open>aic8800_fdrv/aicwf_txrxif.c\<close> (\<open>struct frame_queue\<close>): eight lists, one per
  priority, with a common count.  The transmit path queues packets by priority, the receive path uses
  a single list.  The queue is polymorphic in its frames.
\<close>

subsection \<open>The interface: a queue with priorities\<close>

datatype 'x fq_op = Enq nat 'x | Deq

text \<open>A history of operations: the queue, what it accepted (with its priority) and what it gave out.\<close>

fun fq_run :: "('q \<Rightarrow> nat \<Rightarrow> 'x \<Rightarrow> 'q \<times> bool) \<Rightarrow> ('q \<Rightarrow> 'x option \<times> 'q) \<Rightarrow> 'x fq_op list \<Rightarrow> 'q \<Rightarrow>
    'q \<times> (nat \<times> 'x) list \<times> 'x list" where
  "fq_run enq deq [] q = (q, [], [])"
| "fq_run enq deq (Enq p x # ops) q = (let (q, b) = enq q p x; (q, ins, outs) = fq_run enq deq ops q
     in (q, if b then (p, x) # ins else ins, outs))"
| "fq_run enq deq (Deq # ops) q = (let (y, q) = deq q; (q, ins, outs) = fq_run enq deq ops q
     in (q, ins, case y of None \<Rightarrow> outs | Some x \<Rightarrow> x # outs))"

definition prios_below :: "nat \<Rightarrow> 'x fq_op list \<Rightarrow> bool" where
  "prios_below n = list_all (\<lambda>a. case a of Enq p x \<Rightarrow> p < n | Deq \<Rightarrow> True)"

definition at_prio :: "nat \<Rightarrow> (nat \<times> 'x) list \<Rightarrow> 'x list" where
  "at_prio p xs = map snd (filter (\<lambda>y. fst y = p) xs)"

lemma at_prio_simps [simp]: "at_prio p [] = []" "at_prio p ((k, x) # xs) = (if k = p then x # at_prio p xs else at_prio p xs)"
  by (simp_all add: at_prio_def)

locale prio_queue =
  fixes enq :: "'q \<Rightarrow> nat \<Rightarrow> 'x \<Rightarrow> 'q \<times> bool" and deq :: "'q \<Rightarrow> 'x option \<times> 'q"
    and items :: "'q \<Rightarrow> nat \<Rightarrow> 'x list" and ok :: "'q \<Rightarrow> bool" and prios :: "'q \<Rightarrow> nat"
  assumes enq_some: "ok q \<Longrightarrow> p < prios q \<Longrightarrow> enq q p x = (q', True) \<Longrightarrow>
      ok q' \<and> prios q' = prios q \<and> items q' = (items q)(p := items q p @ [x])"
    and enq_full: "enq q p x = (q', False) \<Longrightarrow> q' = q"
    and deq_none: "ok q \<Longrightarrow> deq q = (None, q') \<Longrightarrow> ok q' \<and> prios q' = prios q \<and> items q' = items q \<and> (\<forall>p. items q p = [])"
    and deq_some: "ok q \<Longrightarrow> deq q = (Some x, q') \<Longrightarrow>
      ok q' \<and> prios q' = prios q \<and> (\<exists>p. items q = (items q')(p := x # items q' p) \<and> (\<forall>p' > p. items q p' = []))"
begin

text \<open>Within a priority the queue is first in, first out; nothing is lost and nothing invented.\<close>

lemma fifo:
  assumes "ok q" "prios_below (prios q) ops" "fq_run enq deq ops q = (q', ins, outs)"
  shows "ok q' \<and> (\<exists>ds. map snd ds = outs \<and> (\<forall>p. items q p @ at_prio p ins = at_prio p ds @ items q' p))"
  using assms
proof (induction ops arbitrary: q q' ins outs)
  case Nil
  then show ?case by (auto intro!: exI [of _ "[]"])
next
  case (Cons a ops)
  show ?case
  proof (cases a)
    case (Enq p x)
    obtain q1 b where e: "enq q p x = (q1, b)" by (cases "enq q p x")
    obtain ins1 where r: "fq_run enq deq ops q1 = (q', ins1, outs)" "ins = (if b then (p, x) # ins1 else ins1)"
      using Cons.prems(3) Enq e by (auto split: prod.splits)
    have p: "p < prios q" using Cons.prems(2) Enq by (simp add: prios_below_def)
    show ?thesis
    proof (cases b)
      case True
      have s: "ok q1" "prios q1 = prios q" "items q1 = (items q)(p := items q p @ [x])"
        using enq_some [OF Cons.prems(1) p] e True by auto
      have "ok q' \<and> (\<exists>ds. map snd ds = outs \<and> (\<forall>p. items q1 p @ at_prio p ins1 = at_prio p ds @ items q' p))"
        using Cons.prems(2) by (intro Cons.IH [OF s(1) _ r(1)]) (simp add: s(2) prios_below_def)
      moreover have "items q1 k @ at_prio k ins1 = items q k @ at_prio k ins" for k by (simp add: s(3) r(2) True)
      ultimately show ?thesis by simp
    next
      case False
      then have "q1 = q" using enq_full [of q p x q1] e by simp
      then show ?thesis using Cons.IH [OF Cons.prems(1) _ r(1) [unfolded \<open>q1 = q\<close>]] Cons.prems(2) r(2) False by (simp add: prios_below_def)
    qed
  next
    case Deq
    obtain y q1 where d: "deq q = (y, q1)" by (cases "deq q")
    obtain outs1 where r: "fq_run enq deq ops q1 = (q', ins, outs1)" "outs = (case y of None \<Rightarrow> outs1 | Some x \<Rightarrow> x # outs1)"
      using Cons.prems(3) Deq d by (auto split: prod.splits)
    show ?thesis
    proof (cases y)
      case None
      have s: "ok q1" "prios q1 = prios q" "items q1 = items q" using deq_none [OF Cons.prems(1)] d None by auto
      then show ?thesis using Cons.IH [OF s(1) _ r(1)] Cons.prems(2) r(2) None by (simp add: s prios_below_def)
    next
      case (Some x)
      obtain p where s: "ok q1" "prios q1 = prios q" "items q = (items q1)(p := x # items q1 p)"
        using deq_some [OF Cons.prems(1)] d Some by auto
      have "ok q' \<and> (\<exists>ds. map snd ds = outs1 \<and> (\<forall>p. items q1 p @ at_prio p ins = at_prio p ds @ items q' p))"
        using Cons.prems(2) by (intro Cons.IH [OF s(1) _ r(1)]) (simp add: s(2) prios_below_def)
      then obtain ds where "ok q'" "map snd ds = outs1" "\<forall>p. items q1 p @ at_prio p ins = at_prio p ds @ items q' p" by blast
      then show ?thesis using r(2) Some by (intro conjI exI [of _ "(p, x) # ds"]) (auto simp: s(3))
    qed
  qed
qed

end

subsection \<open>The queue of the driver\<close>

record 'a frame_queue =
  num_prio :: u16
  hi_prio :: u16
  qmax :: u16
  qcnt :: u16
  queuelist :: "'a list list"

definition aicwf_frame_queue_init :: "nat \<Rightarrow> nat \<Rightarrow> 'a frame_queue" where
  "aicwf_frame_queue_init nprio max_len = \<lparr>num_prio = of_nat nprio, hi_prio = 0, qmax = of_nat max_len, qcnt = 0,
     queuelist = replicate 8 []\<rparr>"

definition aicwf_frame_queue_penq :: "'a frame_queue \<Rightarrow> nat \<Rightarrow> 'a \<Rightarrow> 'a frame_queue option" where
  "aicwf_frame_queue_penq q prio p =
     (if unat (qmax q) \<le> length (queuelist q ! prio) then None
      else Some (q\<lparr>queuelist := (queuelist q)[prio := queuelist q ! prio @ [p]], qcnt := qcnt q + 1,
        hi_prio := (if unat (hi_prio q) < prio then of_nat prio else hi_prio q)\<rparr>))"

definition aicwf_frame_enq :: "'a frame_queue \<Rightarrow> nat \<Rightarrow> 'a \<Rightarrow> 'a frame_queue \<times> bool" where
  "aicwf_frame_enq q prio p =
     (if length (queuelist q ! prio) < unat (qmax q) \<and> qcnt q < qmax q
      then (case aicwf_frame_queue_penq q prio p of None \<Rightarrow> q | Some q' \<Rightarrow> q', True)
      else (q, False))"

definition aicwf_rxframe_enqueue :: "'a frame_queue \<Rightarrow> 'a \<Rightarrow> 'a frame_queue \<times> bool" where
  "aicwf_rxframe_enqueue q p = aicwf_frame_enq q 0 p"

text \<open>The highest priority with a frame, from \<open>hi_prio\<close> down.\<close>

fun top_prio :: "'a list list \<Rightarrow> nat \<Rightarrow> nat" where
  "top_prio qs 0 = 0"
| "top_prio qs (Suc p) = (if qs ! Suc p = [] then top_prio qs p else Suc p)"

definition aicwf_frame_dequeue :: "'a frame_queue \<Rightarrow> 'a option \<times> 'a frame_queue" where
  "aicwf_frame_dequeue q =
     (if qcnt q = 0 then (None, q)
      else let prio = top_prio (queuelist q) (unat (hi_prio q)); q = q\<lparr>hi_prio := of_nat prio\<rparr>
        in case queuelist q ! prio of
          [] \<Rightarrow> (None, q)
        | x # xs \<Rightarrow> (Some x, q\<lparr>queuelist := (queuelist q)[prio := xs], qcnt := qcnt q - 1\<rparr>))"

definition aicwf_is_framequeue_empty :: "'a frame_queue \<Rightarrow> bool" where
  "aicwf_is_framequeue_empty q \<longleftrightarrow> \<not> 0 < (\<Sum>prio \<leftarrow> [0..<Suc (unat (hi_prio q))]. length (queuelist q ! prio))"

text \<open>Flushing frees the frames of every list; the result is the queue and the frames freed.\<close>

definition aicwf_frame_queue_flush :: "'a frame_queue \<Rightarrow> 'a frame_queue \<times> 'a list" where
  "aicwf_frame_queue_flush q = fold (\<lambda>prio (q, freed).
     (q\<lparr>queuelist := (queuelist q)[prio := []], qcnt := qcnt q - of_nat (length (queuelist q ! prio))\<rparr>, freed @ queuelist q ! prio))
     [0..<unat (num_prio q)] (q, [])"

fun first_used :: "'a list list \<Rightarrow> nat \<Rightarrow> nat \<Rightarrow> nat" where
  "first_used qs prio 0 = prio"
| "first_used qs prio (Suc n) = (if qs ! prio = [] then first_used qs (Suc prio) n else prio)"

definition aicwf_frame_queue_peek_tail :: "'a frame_queue \<Rightarrow> ('a option \<times> nat) option" where
  "aicwf_frame_queue_peek_tail q =
     (if qcnt q = 0 then None
      else let prio = first_used (queuelist q) 0 (unat (hi_prio q))
        in Some (if queuelist q ! prio = [] then None else Some (last (queuelist q ! prio)), prio))"

subsection \<open>Correctness\<close>

definition fq_items :: "'a frame_queue \<Rightarrow> nat \<Rightarrow> 'a list" where
  "fq_items q p = (if p < length (queuelist q) then queuelist q ! p else [])"

definition fq_ok :: "'a frame_queue \<Rightarrow> bool" where
  "fq_ok q \<longleftrightarrow> length (queuelist q) = 8 \<and> 0 < unat (num_prio q) \<and> unat (num_prio q) \<le> 8 \<and> unat (hi_prio q) < unat (num_prio q) \<and>
     (\<forall>p. unat (hi_prio q) < p \<longrightarrow> p < 8 \<longrightarrow> queuelist q ! p = []) \<and>
     unat (qcnt q) = sum_list (map length (queuelist q)) \<and> qcnt q \<le> qmax q"

lemma sum_lengths_update:
  "i < length xs \<Longrightarrow> sum_list (map length (xs[i := y])) + length (xs ! i) = sum_list (map length xs) + length y"
proof (induction xs arbitrary: i)
  case (Cons x xs)
  then show ?case by (cases i) auto
qed simp

lemma init_ok: "0 < n \<Longrightarrow> n \<le> 8 \<Longrightarrow> fq_ok (aicwf_frame_queue_init n m)"
proof -
  assume n: "0 < n" "n \<le> 8"
  then have "unat (of_nat n :: u16) = n" by (intro unat_of_nat_small) simp
  then show ?thesis using n unfolding fq_ok_def aicwf_frame_queue_init_def
    by (simp del: replicate.simps add: map_replicate sum_list_replicate)
qed

lemma enq_spec:
  assumes "fq_ok q" "p < unat (num_prio q)" "aicwf_frame_enq q p x = (q', True)"
  shows "fq_ok q'" "num_prio q' = num_prio q" "qmax q' = qmax q" "fq_items q' = (fq_items q)(p := fq_items q p @ [x])"
    "unat (qcnt q') = Suc (unat (qcnt q))"
proof -
  have room: "length (queuelist q ! p) < unat (qmax q)" "qcnt q < qmax q" using assms(3) by (auto simp: aicwf_frame_enq_def split: if_splits)
  have q': "q' = q\<lparr>queuelist := (queuelist q)[p := queuelist q ! p @ [x]], qcnt := qcnt q + 1,
      hi_prio := (if unat (hi_prio q) < p then of_nat p else hi_prio q)\<rparr>"
    using assms(3) room by (simp add: aicwf_frame_enq_def aicwf_frame_queue_penq_def)
  have p: "p < 8" "p < length (queuelist q)" using assms(1,2) by (auto simp: fq_ok_def)
  have cnt: "unat (qcnt q + 1) = Suc (unat (qcnt q))" using room(2) by (rule unat_inc)
  then show "unat (qcnt q') = Suc (unat (qcnt q))" by (simp add: q')
  have hi: "unat (of_nat p :: u16) = p" using p by (intro unat_of_nat_small) simp
  have "qcnt q + 1 \<le> qmax q" using room(2) cnt by (simp add: word_le_nat_alt word_less_nat_alt)
  then show "fq_ok q'"
    using assms(1,2) p cnt hi sum_lengths_update [of p "queuelist q" "queuelist q ! p @ [x]"]
    by (auto simp: fq_ok_def q')
  show "num_prio q' = num_prio q" "qmax q' = qmax q" "fq_items q' = (fq_items q)(p := fq_items q p @ [x])"
    using p by (auto simp: q' fq_items_def)
qed

lemma top_prio_spec:
  "\<forall>p. hi < p \<longrightarrow> p < n \<longrightarrow> qs ! p = [] \<Longrightarrow> hi < n \<Longrightarrow>
    top_prio qs hi \<le> hi \<and> (\<forall>p. top_prio qs hi < p \<longrightarrow> p < n \<longrightarrow> qs ! p = []) \<and> (qs ! top_prio qs hi = [] \<longrightarrow> (\<forall>p < n. qs ! p = []))"
proof (induction qs hi rule: top_prio.induct)
  case (1 qs)
  have "qs ! p = []" if "qs ! 0 = []" "p < n" for p using 1 that by (cases p) auto
  then show ?case using 1 by auto
next
  case (2 qs p)
  show ?case
  proof (cases "qs ! Suc p = []")
    case True
    have "qs ! k = []" if "p < k" "k < n" for k using that True 2(2) by (cases "k = Suc p") auto
    then have "\<forall>k. p < k \<longrightarrow> k < n \<longrightarrow> qs ! k = []" by blast
    from 2(1) [OF True this] 2(3) True show ?thesis by auto
  next
    case False
    then have "top_prio qs (Suc p) = Suc p" by simp
    then show ?thesis using 2(2) False by (simp only:) auto
  qed
qed

lemma deq_spec:
  assumes "fq_ok q" "aicwf_frame_dequeue q = (y, q')"
  shows "fq_ok q'" "num_prio q' = num_prio q" "qmax q' = qmax q"
    "y = None \<Longrightarrow> fq_items q' = fq_items q \<and> (\<forall>p. fq_items q p = [])"
    "y = Some x \<Longrightarrow> \<exists>p. fq_items q = (fq_items q')(p := x # fq_items q' p) \<and> (\<forall>p' > p. fq_items q p' = [])"
    "y = Some x \<Longrightarrow> unat (qcnt q) = Suc (unat (qcnt q'))"
proof -
  define t where "t = top_prio (queuelist q) (unat (hi_prio q))"
  have ok: "length (queuelist q) = 8" "unat (num_prio q) \<le> 8" "unat (hi_prio q) < unat (num_prio q)"
    "\<forall>p. unat (hi_prio q) < p \<longrightarrow> p < 8 \<longrightarrow> queuelist q ! p = []" "unat (qcnt q) = sum_list (map length (queuelist q))" "qcnt q \<le> qmax q"
    using assms(1) by (auto simp: fq_ok_def)
  have t: "t \<le> unat (hi_prio q)" "\<forall>p. t < p \<longrightarrow> p < 8 \<longrightarrow> queuelist q ! p = []" "queuelist q ! t = [] \<longrightarrow> (\<forall>p < 8. queuelist q ! p = [])"
    using top_prio_spec [OF ok(4)] ok(2,3) by (auto simp: t_def)
  have tu: "unat (of_nat t :: u16) = t" using t(1) ok by (intro unat_of_nat_small) simp
  have t8: "t < 8" using t(1) ok by linarith
  have empty: "qcnt q = 0 \<Longrightarrow> \<forall>p < 8. queuelist q ! p = []"
  proof -
    assume "qcnt q = 0"
    then have "\<forall>n \<in> set (map length (queuelist q)). n = 0" using ok(5) by (simp only: sum_list_eq_0_iff unat_0) simp
    then show ?thesis using ok(1) by simp
  qed
  have "fq_ok q' \<and> num_prio q' = num_prio q \<and> qmax q' = qmax q \<and> (y = None \<longrightarrow> fq_items q' = fq_items q \<and> (\<forall>p. fq_items q p = [])) \<and>
      (\<forall>x. y = Some x \<longrightarrow> (\<exists>p. fq_items q = (fq_items q')(p := x # fq_items q' p) \<and> (\<forall>p' > p. fq_items q p' = [])) \<and> unat (qcnt q) = Suc (unat (qcnt q')))"
  proof (cases "qcnt q = 0 \<or> queuelist q ! t = []")
    case True
    then have e: "\<forall>p < 8. queuelist q ! p = []" using empty t(3) by auto
    have q': "y = None" "q' = q \<or> q' = q\<lparr>hi_prio := of_nat t\<rparr>"
      using assms(2) e t8 by (auto simp: aicwf_frame_dequeue_def Let_def t_def split: if_splits)
    then show ?thesis using assms(1) e ok t(1) tu by (auto simp: fq_ok_def fq_items_def)
  next
    case False
    then obtain x xs where x: "queuelist q ! t = x # xs" by (cases "queuelist q ! t") auto
    have q': "y = Some x" "q' = q\<lparr>hi_prio := of_nat t, queuelist := (queuelist q)[t := xs], qcnt := qcnt q - 1\<rparr>"
      using assms(2) False x by (auto simp: aicwf_frame_dequeue_def Let_def t_def)
    have "0 < unat (qcnt q)" using False by (simp add: unat_gt_0)
    then have cnt: "unat (qcnt q - 1) = unat (qcnt q) - 1" by (metis False unat_minus_one diff_Suc_1 One_nat_def)
    then have "qcnt q - 1 \<le> qmax q" using ok(6) by (simp add: word_le_nat_alt)
    moreover have "sum_list (map length ((queuelist q)[t := xs])) + Suc (length xs) = sum_list (map length (queuelist q)) + length xs"
      using sum_lengths_update [of t "queuelist q" xs] t8 ok(1) x by simp
    ultimately have "fq_ok q'" using assms(1) t tu t8 cnt ok by (auto simp: fq_ok_def q' nth_list_update)
    moreover have "fq_items q = (fq_items q')(t := x # fq_items q' t) \<and> (\<forall>p' > t. fq_items q p' = [])"
      using x t t8 ok by (auto simp: fq_items_def q')
    ultimately show ?thesis using q' cnt \<open>0 < unat (qcnt q)\<close> by auto
  qed
  then show "fq_ok q'" "num_prio q' = num_prio q" "qmax q' = qmax q"
    "y = None \<Longrightarrow> fq_items q' = fq_items q \<and> (\<forall>p. fq_items q p = [])"
    "y = Some x \<Longrightarrow> \<exists>p. fq_items q = (fq_items q')(p := x # fq_items q' p) \<and> (\<forall>p' > p. fq_items q p' = [])"
    "y = Some x \<Longrightarrow> unat (qcnt q) = Suc (unat (qcnt q'))" by blast+
qed

interpretation fq: prio_queue aicwf_frame_enq aicwf_frame_dequeue fq_items fq_ok "\<lambda>q. unat (num_prio q)"
proof unfold_locales
  show "aicwf_frame_enq q p x = (q', False) \<Longrightarrow> q' = q" for q q' :: "'a frame_queue" and p x
    by (auto simp: aicwf_frame_enq_def split: if_splits)
qed (use enq_spec deq_spec in \<open>metis\<close>)+

lemma empty_iff:
  assumes "fq_ok q"
  shows "aicwf_is_framequeue_empty q \<longleftrightarrow> (\<forall>p. fq_items q p = [])" "qcnt q = 0 \<longleftrightarrow> (\<forall>p. fq_items q p = [])"
proof -
  have ok: "length (queuelist q) = 8" "unat (hi_prio q) < 8" "\<forall>p. unat (hi_prio q) < p \<longrightarrow> p < 8 \<longrightarrow> queuelist q ! p = []"
    "unat (qcnt q) = sum_list (map length (queuelist q))" using assms by (auto simp: fq_ok_def)
  have all: "(\<forall>p. fq_items q p = []) \<longleftrightarrow> (\<forall>p < 8. queuelist q ! p = [])" using ok(1) by (auto simp: fq_items_def)
  have "aicwf_is_framequeue_empty q \<longleftrightarrow> (\<forall>p \<in> set [0..<Suc (unat (hi_prio q))]. queuelist q ! p = [])"
    unfolding aicwf_is_framequeue_empty_def by (simp del: upt_Suc add: sum_list_eq_0_iff)
  also have "\<dots> \<longleftrightarrow> (\<forall>p < 8. queuelist q ! p = [])" proof -
    have "queuelist q ! p = []" if "\<forall>p \<in> set [0..<Suc (unat (hi_prio q))]. queuelist q ! p = []" "p < 8" for p
      using that ok(3) by (cases "p \<le> unat (hi_prio q)") (auto simp del: upt_Suc)
    then show ?thesis using ok(2) by (auto simp del: upt_Suc)
  qed
  finally show "aicwf_is_framequeue_empty q \<longleftrightarrow> (\<forall>p. fq_items q p = [])" by (simp only: all)
  have "qcnt q = 0 \<longleftrightarrow> (\<forall>xs \<in> set (queuelist q). xs = [])"
    using ok(4) by (simp add: unat_eq_0 [symmetric] sum_list_eq_0_iff)
  then show "qcnt q = 0 \<longleftrightarrow> (\<forall>p. fq_items q p = [])" using ok(1) by (simp add: all all_set_conv_all_nth)
qed

lemma deq_total:
  assumes "fq_ok q" "\<not> aicwf_is_framequeue_empty q"
  obtains x q' where "aicwf_frame_dequeue q = (Some x, q')"
proof (cases "aicwf_frame_dequeue q")
  case (Pair y q')
  then show thesis using deq_spec(4) [OF assms(1) Pair] empty_iff(1) [OF assms(1)] assms(2) that by (cases y) auto
qed

lemma flush_loop:
  assumes "k \<le> length (queuelist q)" "unat (qcnt q) = sum_list (map length (queuelist q))"
  defines "r \<equiv> fold (\<lambda>prio (q, freed).
     (q\<lparr>queuelist := (queuelist q)[prio := []], qcnt := qcnt q - of_nat (length (queuelist q ! prio))\<rparr>, freed @ queuelist q ! prio))
     [0..<k] (q, [])"
  shows "queuelist (fst r) = replicate k [] @ drop k (queuelist q) \<and> snd r = concat (take k (queuelist q)) \<and>
    unat (qcnt (fst r)) = sum_list (map length (drop k (queuelist q))) \<and>
    num_prio (fst r) = num_prio q \<and> qmax (fst r) = qmax q \<and> hi_prio (fst r) = hi_prio q"
  using assms(1) unfolding r_def
proof (induction k)
  case 0
  then show ?case using assms(2) by simp
next
  case (Suc k)
  define s where "s = fold (\<lambda>prio (q, freed).
     (q\<lparr>queuelist := (queuelist q)[prio := []], qcnt := qcnt q - of_nat (length (queuelist q ! prio))\<rparr>, freed @ queuelist q ! prio))
     [0..<k] (q, [])"
  obtain q1 freed where s: "s = (q1, freed)" by (cases s)
  have k: "k < length (queuelist q)" using Suc.prems by simp
  have IH: "queuelist q1 = replicate k [] @ drop k (queuelist q)" "freed = concat (take k (queuelist q))"
    "unat (qcnt q1) = sum_list (map length (drop k (queuelist q)))" "num_prio q1 = num_prio q" "qmax q1 = qmax q" "hi_prio q1 = hi_prio q"
    using Suc by (simp_all flip: s_def add: s)
  have d: "drop k (queuelist q) = queuelist q ! k # drop (Suc k) (queuelist q)" using k by (rule Cons_nth_drop_Suc [symmetric])
  have n: "queuelist q1 ! k = queuelist q ! k" using k by (simp add: IH(1) d nth_append)
  have "unat (of_nat (length (queuelist q ! k)) :: u16) = length (queuelist q ! k)"
  proof (rule unat_of_nat_small)
    have "length (queuelist q ! k) \<le> unat (qcnt q1)" by (simp add: IH(3) d)
    also have "\<dots> < 2 ^ LENGTH(16)" by (rule unsigned_less)
    finally show "length (queuelist q ! k) < 2 ^ LENGTH(16)" .
  qed
  then have "unat (qcnt q1 - of_nat (length (queuelist q ! k))) = sum_list (map length (drop (Suc k) (queuelist q)))"
    by (subst unat_sub) (simp_all add: word_le_nat_alt IH(3) d)
  moreover have "(replicate k [] @ drop k (queuelist q))[k := []] = replicate (Suc k) [] @ drop (Suc k) (queuelist q)"
    by (simp add: d list_update_append replicate_append_same [symmetric])
  moreover have "concat (take (Suc k) (queuelist q)) = concat (take k (queuelist q)) @ queuelist q ! k"
    using k by (simp add: take_Suc_conv_app_nth)
  ultimately show ?case using IH n by (simp flip: s_def add: s)
qed

lemma flush_spec:
  assumes "fq_ok q" "aicwf_frame_queue_flush q = (q', freed)"
  shows "fq_ok q'" "freed = concat (queuelist q)" "\<forall>p. fq_items q' p = []" "qcnt q' = 0"
proof -
  define k where "k = unat (num_prio q)"
  have ok: "k \<le> length (queuelist q)" "unat (qcnt q) = sum_list (map length (queuelist q))" "length (queuelist q) = 8"
    using assms(1) by (auto simp: fq_ok_def k_def)
  have "queuelist q ! p = []" if "k \<le> p" "p < 8" for p using assms(1) that by (auto simp: fq_ok_def k_def)
  then have "\<forall>xs \<in> set (drop k (queuelist q)). xs = []" using ok(3) by (auto simp: in_set_conv_nth)
  then have "drop k (queuelist q) = replicate (8 - k) []" using ok(3) by (metis length_drop replicate_eqI)
  then have e: "replicate k [] @ drop k (queuelist q) = replicate 8 []" "concat (take k (queuelist q)) = concat (queuelist q)"
    "sum_list (map length (drop k (queuelist q))) = 0"
  proof -
    assume d: "drop k (queuelist q) = replicate (8 - k) []"
    show "replicate k [] @ drop k (queuelist q) = replicate 8 []" using ok(1,3) by (simp add: d flip: replicate_add)
    have "concat (queuelist q) = concat (take k (queuelist q)) @ concat (drop k (queuelist q))" by (metis append_take_drop_id concat_append)
    then show "concat (take k (queuelist q)) = concat (queuelist q)" by (simp add: d)
    show "sum_list (map length (drop k (queuelist q))) = 0" by (simp add: d sum_list_replicate map_replicate)
  qed
  have q': "queuelist q' = replicate 8 []" "freed = concat (queuelist q)" "unat (qcnt q') = 0" "num_prio q' = num_prio q" "qmax q' = qmax q" "hi_prio q' = hi_prio q"
    using flush_loop [OF ok(1,2)] assms(2) unfolding e by (simp_all add: aicwf_frame_queue_flush_def k_def del: replicate.simps)
  then show "freed = concat (queuelist q)" "qcnt q' = 0" by (simp_all add: unat_eq_0)
  show "\<forall>p. fq_items q' p = []" by (auto simp: fq_items_def q')
  show "fq_ok q'" using assms(1) q' \<open>qcnt q' = 0\<close> by (auto simp: fq_ok_def map_replicate sum_list_replicate simp del: replicate.simps)
qed

text \<open>A frame queue in use: whatever the sequence of insertions (refused ones included) and removals, each
  priority is first in, first out, nothing is lost or invented, the count is that of the lists and
  never exceeds the maximum, and the next frame removed is the oldest of the highest priority that
  has any.\<close>

theorem frame_queue_fifo:
  assumes "0 < n" "n \<le> 8" "prios_below n ops" "m < 65536"
    "fq_run aicwf_frame_enq aicwf_frame_dequeue ops (aicwf_frame_queue_init n m) = (q, ins, outs)"
  shows "(\<exists>ds. map snd ds = outs \<and> (\<forall>p. at_prio p ins = at_prio p ds @ fq_items q p)) \<and>
    unat (qcnt q) = sum_list (map length (queuelist q)) \<and> qcnt q \<le> qmax q \<and>
    (case aicwf_frame_dequeue q of
       (None, q') \<Rightarrow> \<forall>p. fq_items q p = []
     | (Some x, q') \<Rightarrow> \<exists>p. fq_items q p = x # fq_items q' p \<and> (\<forall>p' > p. fq_items q p' = []))"
proof -
  define q0 where "q0 = (aicwf_frame_queue_init n m :: 'a frame_queue)"
  have ok: "fq_ok q0" unfolding q0_def using assms(1,2) by (rule init_ok)
  have n: "unat (num_prio q0) = n" using assms(2) by (simp add: q0_def aicwf_frame_queue_init_def unat_of_nat_small)
  have i: "fq_items q0 p = []" for p by (simp add: q0_def fq_items_def aicwf_frame_queue_init_def)
  have f: "fq_ok q" "\<exists>ds. map snd ds = outs \<and> (\<forall>p. at_prio p ins = at_prio p ds @ fq_items q p)"
    using fq.fifo [OF ok _ assms(5) [folded q0_def]] assms(3) by (simp_all add: n i)
  obtain y q' where d: "aicwf_frame_dequeue q = (y, q')" by (cases "aicwf_frame_dequeue q")
  have "case y of None \<Rightarrow> \<forall>p. fq_items q p = [] | Some x \<Rightarrow> \<exists>p. fq_items q p = x # fq_items q' p \<and> (\<forall>p' > p. fq_items q p' = [])"
  proof (cases y)
    case None
    then show ?thesis using deq_spec(4) [OF f(1) d] by simp
  next
    case (Some x)
    then obtain p where "fq_items q = (fq_items q')(p := x # fq_items q' p)" "\<forall>p' > p. fq_items q p' = []"
      using deq_spec(5) [OF f(1) d] by blast
    then show ?thesis using Some by (simp only: option.case) (metis fun_upd_same)
  qed
  then show ?thesis using f by (simp add: fq_ok_def d split: option.splits)
qed

definition demo_ops :: "nat fq_op list" where "demo_ops = [Enq 1 10, Enq 5 20, Deq, Enq 1 30, Enq 0 40, Deq]"

lemma frame_queue_fifo_witness:
  "\<exists>q ds. fq_run aicwf_frame_enq aicwf_frame_dequeue demo_ops (aicwf_frame_queue_init 8 3) = (q, [(1, 10 :: nat), (5, 20), (1, 30), (0, 40)], [20, 10]) \<and>
     map snd ds = [20, 10 :: nat] \<and> [10, 30] = at_prio 1 ds @ fq_items q 1"
proof -
  define r where "r = fq_run aicwf_frame_enq aicwf_frame_dequeue demo_ops (aicwf_frame_queue_init 8 3)"
  have "snd (fq_run aicwf_frame_enq aicwf_frame_dequeue demo_ops (aicwf_frame_queue_init 8 3)) = ([(1, 10 :: nat), (5, 20), (1, 30), (0, 40)], [20, 10])"
    by code_simp
  then have r: "fq_run aicwf_frame_enq aicwf_frame_dequeue demo_ops (aicwf_frame_queue_init 8 3) = (fst r, [(1, 10 :: nat), (5, 20), (1, 30), (0, 40)], [20, 10])"
    by (simp add: r_def prod_eq_iff)
  have p: "prios_below 8 demo_ops" by code_simp
  have "\<exists>ds. map snd ds = [20, 10 :: nat] \<and> (\<forall>p. at_prio p [(1, 10 :: nat), (5, 20), (1, 30), (0, 40)] = at_prio p ds @ fq_items (fst r) p)"
    by (rule conjunct1 [OF frame_queue_fifo [OF _ _ p _ r]]) simp_all
  then show ?thesis
  proof (elim exE conjE)
    fix ds :: "(nat \<times> nat) list"
    assume ds: "map snd ds = [20, 10]" "\<forall>p. at_prio p [(1, 10 :: nat), (5, 20), (1, 30), (0, 40)] = at_prio p ds @ fq_items (fst r) p"
    have "[10, 30] = at_prio 1 ds @ fq_items (fst r) 1" using ds(2) [THEN spec, of 1] by simp
    with r ds(1) show ?thesis by (intro exI [of _ "fst r"] exI [of _ ds] conjI)
  qed
qed

end
