(* ===== verification/Sdio_Tx.thy ===== *)
theory Sdio_Tx
  imports Frame_Queue
begin

text \<open>
  The transmit side of the SDIO bus (\<^verbatim>\<open>aic8800_fdrv/aicwf_sdio.c\<close>): the flow control with the firmware, the
  aggregation of data packets into one transfer, the command path and the transmit thread's work
  function.  What the card answers to a register read and whether a write succeeds are arguments
  (\<open>sdio_env\<close>); the bytes written to the card are a log.  The code is that of the SDIO build with
  power control.
\<close>

unbundle bit_operations_syntax

subsection \<open>Data\<close>

datatype AICWF_IC = PRODUCT_ID_AIC8801 | PRODUCT_ID_AIC8800DC | PRODUCT_ID_AIC8800DW | PRODUCT_ID_AIC8800D80

definition SDIOWIFI_FUNC_BLOCKSIZE :: nat where "SDIOWIFI_FUNC_BLOCKSIZE = 512"
definition SDIOWIFI_FLOWCTRL_MASK_REG :: u8 where "SDIOWIFI_FLOWCTRL_MASK_REG = 0x7F"
definition FLOW_CTRL_RETRY_COUNT :: nat where "FLOW_CTRL_RETRY_COUNT = 50"
definition BUFFER_SIZE :: int where "BUFFER_SIZE = 1536"
definition TAIL_LEN :: nat where "TAIL_LEN = 4"
definition TXQLEN :: nat where "TXQLEN = 2048 * 4"
definition DATA_FLOW_CTRL_THRESH :: int where "DATA_FLOW_CTRL_THRESH = 2"
definition CMD_BUF_MAX :: nat where "CMD_BUF_MAX = 1536"
definition TXPKT_BLOCKSIZE :: nat where "TXPKT_BLOCKSIZE = 512"
definition MAX_AGGR_TXPKT_LEN :: nat where "MAX_AGGR_TXPKT_LEN = 1536 * 64"
definition TX_ALIGNMENT :: nat where "TX_ALIGNMENT = 4"
definition sizeof_txdesc_api :: nat where "sizeof_txdesc_api = 28"
definition EINVAL :: int where "EINVAL = 22"
definition ENOSR :: int where "ENOSR = 63"

definition roundup :: "nat \<Rightarrow> nat \<Rightarrow> nat" where "roundup x y = (x + (y - 1)) div y * y"

text \<open>A packet of the transmit queue: its descriptor and what follows the driver's headroom.\<close>

record tx_pkt =
  pkt_id :: nat
  txdesc :: "u8 list"
  body :: "u8 list"
  need_cfm :: bool

record sdio_env =
  fc_reads :: "nat \<Rightarrow> u8 option"
  wr_fails :: "nat \<Rightarrow> bool"
  tx_aggr_counter :: int

record sdio_tx =
  chipid :: AICWF_IC
  bus_up :: bool
  sdio_active :: bool
  fw_avail_bufcnt :: int
  cmd_buf :: "nat \<Rightarrow> u8"
  cmd_len :: nat
  cmd_txstate :: bool
  cmd_tx_succ :: bool
  tx_pktcnt :: int
  txq :: "tx_pkt frame_queue"
  aggr_buf :: "nat \<Rightarrow> u8"
  aggr_tail :: nat
  aggr_count :: int
  n_polls :: nat
  wire :: "u8 list list"
  consumed :: "nat list"

definition mem_write :: "nat \<Rightarrow> u8 list \<Rightarrow> (nat \<Rightarrow> u8) \<Rightarrow> nat \<Rightarrow> u8" where
  "mem_write at xs m = (\<lambda>i. if at \<le> i \<and> i < at + length xs then xs ! (i - at) else m i)"

text \<open>The chips whose header has no checksum and whose flow control register is masked.\<close>

definition legacy_chip :: "AICWF_IC \<Rightarrow> bool" where
  "legacy_chip c \<longleftrightarrow> c = PRODUCT_ID_AIC8801 \<or> c = PRODUCT_ID_AIC8800DC \<or> c = PRODUCT_ID_AIC8800DW"

subsection \<open>The checksum of a header\<close>

text \<open>One bit of the data, most significant first.\<close>

definition crc8_bit :: "u8 \<Rightarrow> u8 \<Rightarrow> u8 \<Rightarrow> u8" where
  "crc8_bit b i crc =
     (let crc = (if crc AND 0x80 \<noteq> 0 then (crc * 2) XOR 0x07 else crc * 2)
      in if b AND i \<noteq> 0 then crc XOR 0x07 else crc)"

definition crc8_byte :: "u8 \<Rightarrow> u8 \<Rightarrow> u8" where
  "crc8_byte b crc = fold (crc8_bit b) [0x80, 0x40, 0x20, 0x10, 0x08, 0x04, 0x02, 0x01] crc"

definition crc8_ponl_107 :: "u8 list \<Rightarrow> u8" where
  "crc8_ponl_107 bs = fold crc8_byte bs 0"

subsection \<open>Flow control\<close>

text \<open>The number of free buffers of the firmware, read until it exceeds \<open>th\<close>; the second component counts
  the reads.\<close>

function flow_ctrl_loop :: "sdio_env \<Rightarrow> AICWF_IC \<Rightarrow> u8 \<Rightarrow> nat \<Rightarrow> nat \<Rightarrow> int \<times> nat" where
  "flow_ctrl_loop e c th count n = (case fc_reads e n of
     None \<Rightarrow> (-1, Suc n)
   | Some v \<Rightarrow>
       let fc_reg = (if legacy_chip c then v AND SDIOWIFI_FLOWCTRL_MASK_REG else v) in
       if th < fc_reg then (min (uint fc_reg) (tx_aggr_counter e), Suc n)
       else if FLOW_CTRL_RETRY_COUNT \<le> count then (- uint fc_reg, Suc n)
       else flow_ctrl_loop e c th (Suc count) (Suc n))"
  by pat_completeness auto
termination by (relation "measure (\<lambda>(e, c, th, count, n). Suc FLOW_CTRL_RETRY_COUNT - count)") auto

declare flow_ctrl_loop.simps [simp del]

definition aicwf_sdio_flow_ctrl_msg :: "sdio_env \<Rightarrow> AICWF_IC \<Rightarrow> nat \<Rightarrow> int \<times> nat" where
  "aicwf_sdio_flow_ctrl_msg e c n = flow_ctrl_loop e c 0 0 n"

definition aicwf_sdio_flow_ctrl :: "sdio_env \<Rightarrow> AICWF_IC \<Rightarrow> nat \<Rightarrow> int \<times> nat" where
  "aicwf_sdio_flow_ctrl e c n = flow_ctrl_loop e c 2 0 n"

subsection \<open>Transfers\<close>

definition aicwf_sdio_send_pkt :: "sdio_env \<Rightarrow> (nat \<Rightarrow> u8) \<Rightarrow> nat \<Rightarrow> sdio_tx \<Rightarrow> sdio_tx \<times> bool" where
  "aicwf_sdio_send_pkt e m count s = (s\<lparr>wire := wire s @ [map m [0..<count]]\<rparr>, \<not> wr_fails e (length (wire s)))"

definition aicwf_sdio_txpkt :: "sdio_env \<Rightarrow> nat \<Rightarrow> sdio_tx \<Rightarrow> sdio_tx \<times> bool" where
  "aicwf_sdio_txpkt e pkt_len s =
     (if \<not> bus_up s then (s, False)
      else let len = (pkt_len + SDIOWIFI_FUNC_BLOCKSIZE - 1) div SDIOWIFI_FUNC_BLOCKSIZE * SDIOWIFI_FUNC_BLOCKSIZE
        in aicwf_sdio_send_pkt e (aggr_buf s) len s)"

definition aicwf_sdio_aggrbuf_reset :: "sdio_tx \<Rightarrow> sdio_tx" where
  "aicwf_sdio_aggrbuf_reset s = s\<lparr>aggr_tail := 0, aggr_count := 0\<rparr>"

definition aggr_append :: "u8 list \<Rightarrow> sdio_tx \<Rightarrow> sdio_tx" where
  "aggr_append xs s = s\<lparr>aggr_buf := mem_write (aggr_tail s) xs (aggr_buf s), aggr_tail := aggr_tail s + length xs\<rparr>"

text \<open>The header of a packet of \<open>len\<close> bytes; the length has twelve bits.\<close>

definition sdio_data_header :: "AICWF_IC \<Rightarrow> nat \<Rightarrow> u8 list" where
  "sdio_data_header c len = (let h = [of_nat (len mod 256), of_nat (len div 256 mod 16), 0x01] in
     h @ [if legacy_chip c then 0 else crc8_ponl_107 h])"

definition aicwf_sdio_aggr :: "tx_pkt \<Rightarrow> sdio_tx \<Rightarrow> sdio_tx" where
  "aicwf_sdio_aggr p s =
     (let start = aggr_tail s;
          s = aggr_append (sdio_data_header (chipid s) (length (body p) + sizeof_txdesc_api)) s;
          s = aggr_append (txdesc p) s;
          s = aggr_append (body p) s;
          curr_len = aggr_tail s;
          s = (if curr_len mod TX_ALIGNMENT \<noteq> 0
               then aggr_append (replicate (roundup curr_len TX_ALIGNMENT - curr_len) 0) s else s);
          len = aggr_tail s - start - 4;
          s = (if legacy_chip (chipid s)
               then s\<lparr>aggr_buf := mem_write start [of_nat (len mod 256), of_nat (len div 256 mod 16)] (aggr_buf s)\<rparr> else s);
          s = (if \<not> need_cfm p then s\<lparr>consumed := consumed s @ [pkt_id p]\<rparr> else s)
      in s\<lparr>aggr_count := aggr_count s + 1\<rparr>)"

definition aicwf_sdio_aggr_send :: "sdio_env \<Rightarrow> sdio_tx \<Rightarrow> sdio_tx" where
  "aicwf_sdio_aggr_send e s =
     (let s = (if aggr_tail s mod TXPKT_BLOCKSIZE \<noteq> 0 then aggr_append (replicate TAIL_LEN 0) s else s)
      in aicwf_sdio_aggrbuf_reset (fst (aicwf_sdio_txpkt e (aggr_tail s) s)))"

subsection \<open>The data path\<close>

text \<open>The decision after a packet was put into the aggregate, or when the aggregate is full.\<close>

definition send_aggregate :: "sdio_env \<Rightarrow> sdio_tx \<Rightarrow> sdio_tx" where
  "send_aggregate e s = aicwf_sdio_aggr_send e (s\<lparr>fw_avail_bufcnt := fw_avail_bufcnt s - aggr_count s\<rparr>)"

definition aicwf_sdio_send :: "sdio_env \<Rightarrow> bool \<Rightarrow> sdio_tx \<Rightarrow> sdio_tx" where
  "aicwf_sdio_send e txnow s =
     (if (aggr_count s = 0 \<and> aggr_tail s \<noteq> 0) \<or> (aggr_count s \<noteq> 0 \<and> aggr_tail s = 0)
      then if 0 < aggr_tail s then aicwf_sdio_aggrbuf_reset s else s
      else if aggr_count s = fw_avail_bufcnt s - DATA_FLOW_CTRL_THRESH
      then if 0 < aggr_count s then send_aggregate e s else s
      else case aicwf_frame_dequeue (txq s) of
        (None, q) \<Rightarrow> s\<lparr>txq := q\<rparr>
      | (Some p, q) \<Rightarrow>
          let s = aicwf_sdio_aggr p (s\<lparr>txq := q, tx_pktcnt := tx_pktcnt s - 1\<rparr>)
          in if tx_pktcnt s = 0 \<or> txnow \<or> aggr_count s = fw_avail_bufcnt s - DATA_FLOW_CTRL_THRESH
             then send_aggregate e s else s)"

definition poll_bufcnt :: "sdio_env \<Rightarrow> sdio_tx \<Rightarrow> sdio_tx" where
  "poll_bufcnt e s = (case aicwf_sdio_flow_ctrl e (chipid s) (n_polls s) of (v, n) \<Rightarrow> s\<lparr>fw_avail_bufcnt := v, n_polls := n\<rparr>)"

text \<open>The loop of \<open>aicwf_sdio_tx_process\<close>; it may not end when the card does not answer.\<close>

partial_function (option) tx_data_loop :: "sdio_env \<Rightarrow> sdio_tx \<Rightarrow> sdio_tx option" where
  "tx_data_loop e s =
     (if aicwf_is_framequeue_empty (txq s) then Some s
      else if \<not> bus_up s then Some s
      else if fw_avail_bufcnt s \<le> DATA_FLOW_CTRL_THRESH
      then if cmd_txstate s then Some s else tx_data_loop e (poll_bufcnt e s)
      else if cmd_txstate s then Some (aicwf_sdio_send e True s)
      else tx_data_loop e (aicwf_sdio_send e False s))"

definition tx_data :: "sdio_env \<Rightarrow> sdio_tx \<Rightarrow> sdio_tx option" where
  "tx_data e s =
     (if \<not> sdio_active s then Some s
      else tx_data_loop e (if aicwf_is_framequeue_empty (txq s) then s else poll_bufcnt e s))"

subsection \<open>The command path\<close>

definition u16_of :: "nat \<Rightarrow> nat" where "u16_of n = n mod 65536"

text \<open>The transfer of a command: its length and its bytes, padded to words and blocks.\<close>

definition tx_msg_frame :: "(nat \<Rightarrow> u8) \<Rightarrow> nat \<Rightarrow> nat \<times> (nat \<Rightarrow> u8)" where
  "tx_msg_frame m cmdlen =
     (let len = u16_of cmdlen;
          (pl, m) = (if len mod TX_ALIGNMENT \<noteq> 0
            then (u16_of (roundup len TX_ALIGNMENT), mem_write len (replicate (roundup len TX_ALIGNMENT - len) 0) m) else (len, m))
      in if pl mod SDIOWIFI_FUNC_BLOCKSIZE \<noteq> 0
         then let m = mem_write pl (replicate TAIL_LEN 0) m; pl = u16_of (pl + TAIL_LEN)
           in (u16_of ((pl div SDIOWIFI_FUNC_BLOCKSIZE + 1) * SDIOWIFI_FUNC_BLOCKSIZE), m)
         else (pl, m))"

fun tx_msg_wait :: "sdio_env \<Rightarrow> AICWF_IC \<Rightarrow> nat \<Rightarrow> nat \<Rightarrow> int \<Rightarrow> nat \<Rightarrow> int \<times> nat" where
  "tx_msg_wait e c len 0 buffer_cnt n = (buffer_cnt, n)"
| "tx_msg_wait e c len (Suc retries) buffer_cnt n =
     (if buffer_cnt \<le> 0 \<or> (0 < buffer_cnt \<and> buffer_cnt * BUFFER_SIZE < int len)
      then case aicwf_sdio_flow_ctrl_msg e c n of (b, n) \<Rightarrow> tx_msg_wait e c len retries b n
      else (buffer_cnt, n))"

definition msg_sent :: "sdio_tx \<times> bool \<Rightarrow> sdio_tx \<times> bool" where
  "msg_sent r = (case r of (s, ok) \<Rightarrow> (s\<lparr>cmd_txstate := False, cmd_tx_succ := ok\<rparr>, ok))"

definition aicwf_sdio_tx_msg :: "sdio_env \<Rightarrow> sdio_tx \<Rightarrow> sdio_tx \<times> bool" where
  "aicwf_sdio_tx_msg e s =
     (let (len, m) = tx_msg_frame (cmd_buf s) (cmd_len s); s = s\<lparr>cmd_buf := m\<rparr> in
      if chipid s = PRODUCT_ID_AIC8801 \<or> chipid s = PRODUCT_ID_AIC8800D80
      then let (b, n) = aicwf_sdio_flow_ctrl_msg e (chipid s) (n_polls s);
               (b, n) = tx_msg_wait e (chipid s) len 10 b n;
               s = s\<lparr>n_polls := n\<rparr>
        in if 0 < b \<and> int len < b * BUFFER_SIZE then msg_sent (aicwf_sdio_send_pkt e m len s) else (s, False)
      else if chipid s = PRODUCT_ID_AIC8800DC then msg_sent (aicwf_sdio_send_pkt e m len s)
      else (s, False))"

subsection \<open>The work function of the transmit thread and the bus operations\<close>

definition aicwf_sdio_tx_process :: "sdio_env \<Rightarrow> sdio_tx \<Rightarrow> sdio_tx option" where
  "aicwf_sdio_tx_process e s =
     (if \<not> bus_up s then Some s
      else let s = s\<lparr>sdio_active := True\<rparr> in
        tx_data e (if cmd_txstate s then fst (aicwf_sdio_tx_msg e s) else s))"

definition aicwf_sdio_bus_txdata :: "nat \<Rightarrow> tx_pkt \<Rightarrow> sdio_tx \<Rightarrow> sdio_tx \<times> int" where
  "aicwf_sdio_bus_txdata priority p s =
     (if \<not> bus_up s then (s\<lparr>consumed := consumed s @ [pkt_id p]\<rparr>, -1)
      else case aicwf_frame_enq (txq s) (priority mod 8) p of
        (q, False) \<Rightarrow> (s\<lparr>txq := q, consumed := consumed s @ [pkt_id p]\<rparr>, - ENOSR)
      | (q, True) \<Rightarrow> (s\<lparr>txq := q, tx_pktcnt := tx_pktcnt s + 1\<rparr>, 0))"

definition aicwf_sdio_bus_txmsg :: "(nat \<Rightarrow> u8) \<Rightarrow> nat \<Rightarrow> sdio_tx \<Rightarrow> sdio_tx \<times> int" where
  "aicwf_sdio_bus_txmsg msg msglen s =
     (let s = s\<lparr>cmd_txstate := True, cmd_tx_succ := False, cmd_buf := msg, cmd_len := msglen\<rparr>
      in if \<not> bus_up s then (s, -1) else (s, 0))"

end
