(* ===== verification/Sdio_Frame.thy ===== *)
theory Sdio_Frame
  imports Sdio_Tx
begin

text \<open>
  The bytes the SDIO transmit path puts on the bus: the checksum of the header as the remainder of a
  division of polynomials over GF(2), the bounds of the flow control, and the framing of an aggregate
  with the decoder that takes it apart again.
\<close>

subsection \<open>Polynomials over GF(2)\<close>

text \<open>A list of coefficients, highest power first, as a number, and its product with \<open>g\<close>.\<close>

definition gf2_poly :: "bool list \<Rightarrow> int" where "gf2_poly = (\<lambda>bs. fold (\<lambda>b acc. 2 * acc + of_bool b) bs 0)"
definition gf2_mult :: "bool list \<Rightarrow> int \<Rightarrow> int" where
  "gf2_mult bs g = fold (\<lambda>b acc. (2 * acc) XOR (if b then g else 0)) bs 0"
definition msg_bits :: "u8 list \<Rightarrow> bool list" where "msg_bits bs = concat (map (\<lambda>b. map (bit b) [7, 6, 5, 4, 3, 2, 1, 0]) bs)"

definition crc_step :: "bool \<Rightarrow> u8 \<Rightarrow> u8" where
  "crc_step b c = (c * 2) XOR (if bit c 7 \<noteq> b then 0x07 else 0)"

lemma and_pow_iff: "x AND 2 ^ k \<noteq> 0 \<longleftrightarrow> bit x k" for x :: u8
  by (simp add: and_exp_eq_0_iff_not_bit)

lemma crc8_bit_step: "crc8_bit b (2 ^ k) c = crc_step (bit b k) c"
proof -
  have "c AND 0x80 \<noteq> 0 \<longleftrightarrow> bit c 7" using and_pow_iff [of c 7] by simp
  then show ?thesis by (auto simp: crc8_bit_def crc_step_def and_pow_iff xor.assoc)
qed

lemma crc8_byte_steps: "crc8_byte b c = fold crc_step (map (bit b) [7, 6, 5, 4, 3, 2, 1, 0]) c"
  using crc8_bit_step [of b 7] crc8_bit_step [of b 6] crc8_bit_step [of b 5] crc8_bit_step [of b 4] crc8_bit_step [of b 3]
    crc8_bit_step [of b 2] crc8_bit_step [of b 1] crc8_bit_step [of b 0]
  by (simp add: crc8_byte_def)

lemma crc8_steps: "crc8_ponl_107 bs = fold crc_step (msg_bits bs) 0"
proof -
  have "fold crc8_byte bs c = fold crc_step (msg_bits bs) c" for c
    by (induction bs arbitrary: c) (simp_all add: msg_bits_def crc8_byte_steps)
  then show ?thesis by (simp add: crc8_ponl_107_def)
qed

lemma double_xor: "2 * (a XOR b) = (2 * a) XOR (2 * b)" for a b :: int
  using push_bit_xor [of 1 a b] by (simp add: push_bit_eq_mult mult.commute)

lemma double_u8: "2 * uint c = (if bit c 7 then 256 else 0) XOR uint (c * 2)" for c :: u8
proof (rule bit_eqI)
  fix n
  have "c * 2 = push_bit 1 c" by (simp add: push_bit_eq_mult)
  then have u: "bit (uint (c * 2)) n \<longleftrightarrow> n < 8 \<and> 0 < n \<and> bit c (n - 1)"
    by (simp only: bit_uint_iff bit_push_bit_iff) auto
  have d: "bit (2 * uint c) n \<longleftrightarrow> 0 < n \<and> n - 1 < 8 \<and> bit c (n - 1)"
    by (cases n) (simp_all add: bit_double_iff bit_uint_iff)
  have p: "bit (256 :: int) n \<longleftrightarrow> n = 8" using bit_exp_iff [of 8 n, where 'a = int] by auto
  show "bit (2 * uint c) n \<longleftrightarrow> bit ((if bit c 7 then 256 else 0) XOR uint (c * 2)) n"
  proof (cases "n = 8")
    case True
    show ?thesis unfolding True by (cases "bit c 7") (use u d p True in \<open>simp_all add: bit_xor_iff\<close>)
  next
    case False
    then show ?thesis by (cases "bit c 7") (auto simp: bit_xor_iff u d p)
  qed
qed

lemma xor_swaps:
  "a XOR ((k XOR u) XOR k) = a XOR u" "a XOR (k XOR u) = (a XOR (k XOR g)) XOR (u XOR g)"
  "a XOR (u XOR k) = (a XOR (k XOR g)) XOR (u XOR g)" for a k u g :: int
  by (rule bit_eqI; simp add: bit_xor_iff; blast)+

lemma crc_step_poly:
  assumes "m * 256 = q XOR uint c"
  shows "(2 * m + of_bool b) * 256 = ((2 * q) XOR (if bit c 7 \<noteq> b then 0x107 else 0)) XOR uint (crc_step b c)"
proof -
  have even: "2 * m + of_bool b = (2 * m) XOR (of_bool b)"
    by (cases b) (simp_all add: xor_one_eq)
  have "(2 * m + of_bool b) * 256 = (2 * (m * 256)) XOR (of_bool b * 256)"
    using push_bit_xor [of 8 "2 * m" "of_bool b"] by (simp only: even) (simp add: push_bit_eq_mult mult.assoc)
  also have "\<dots> = (2 * q) XOR (2 * uint c) XOR (of_bool b * 256)" by (simp only: assms double_xor xor.assoc)
  also have "\<dots> = (2 * q) XOR ((if bit c 7 then 256 else 0) XOR uint (c * 2)) XOR (of_bool b * 256)" by (simp only: double_u8)
  also have "\<dots> = ((2 * q) XOR (if bit c 7 \<noteq> b then 0x107 else 0)) XOR uint (crc_step b c)"
  proof -
    have x: "(0x107 :: int) = 256 XOR 7" by code_simp
    have s: "uint ((c * 2) XOR 0x07) = uint (c * 2) XOR 7" by (simp add: uint_xor)
    show ?thesis
      by (cases "bit c 7"; cases b; simp only: crc_step_def s x if_True if_False simp_thms of_bool_eq mult_1 mult_zero_left xor.right_neutral xor.left_neutral)
        ((rule xor_swaps)+)
  qed
  finally show ?thesis .
qed

text \<open>C32. \<open>crc8_ponl_107\<close> is the remainder of the message polynomial, times x^8, modulo x^8 + x^2 + x + 1
  (0x107): message and checksum differ by a multiple of the generator.\<close>

theorem crc8_is_remainder:
  "\<exists>qs. gf2_poly (msg_bits bs) * 256 = gf2_mult qs 0x107 XOR uint (crc8_ponl_107 bs)"
proof -
  have "\<exists>qs. gf2_poly bits * 256 = gf2_mult qs 0x107 XOR uint (fold crc_step bits 0)" for bits
  proof (induction bits rule: rev_induct)
    case Nil
    show ?case by (rule exI [of _ "[]"]) (simp add: gf2_poly_def gf2_mult_def)
  next
    case (snoc b bits)
    then obtain qs where "gf2_poly bits * 256 = gf2_mult qs 0x107 XOR uint (fold crc_step bits 0)" by blast
    from crc_step_poly [OF this, of b] show ?case
      by (intro exI [of _ "qs @ [bit (fold crc_step bits 0) 7 \<noteq> b]"]) (simp add: gf2_poly_def gf2_mult_def)
  qed
  then show ?thesis by (simp add: crc8_steps)
qed

subsection \<open>Frames\<close>

text \<open>The bytes of one packet in an aggregate that starts on a word, and what the header announces.\<close>

definition pad_len :: "nat \<Rightarrow> nat" where "pad_len n = roundup n TX_ALIGNMENT - n"

definition frame_payload :: "AICWF_IC \<Rightarrow> tx_pkt \<Rightarrow> u8 list" where
  "frame_payload c p = txdesc p @ body p @ (if legacy_chip c then replicate (pad_len (length (body p))) 0 else [])"

definition sdio_frame :: "AICWF_IC \<Rightarrow> tx_pkt \<Rightarrow> u8 list" where
  "sdio_frame c p = sdio_data_header c (length (frame_payload c p)) @ txdesc p @ body p @ replicate (pad_len (length (body p))) 0"

definition sdio_frames :: "AICWF_IC \<Rightarrow> tx_pkt list \<Rightarrow> u8 list" where "sdio_frames c ps = concat (map (sdio_frame c) ps)"

text \<open>Packets the length field of the header can hold.\<close>

definition pkt_ok :: "tx_pkt \<Rightarrow> bool" where
  "pkt_ok p \<longleftrightarrow> length (txdesc p) = sizeof_txdesc_api \<and> length (body p) + sizeof_txdesc_api \<le> 4092"

text \<open>The receiver: frames follow each other on word boundaries until a header is not one of a data
  packet or its checksum is wrong.\<close>

definition header_ok :: "AICWF_IC \<Rightarrow> u8 list \<Rightarrow> bool" where
  "header_ok c bs \<longleftrightarrow> 4 \<le> length bs \<and> bs ! 2 = 0x01 \<and> bs ! 3 = (if legacy_chip c then 0 else crc8_ponl_107 (take 3 bs))"

definition header_len :: "u8 list \<Rightarrow> nat" where "header_len bs = unat (bs ! 0) + 256 * unat (bs ! 1)"

function unframe :: "AICWF_IC \<Rightarrow> u8 list \<Rightarrow> u8 list list" where
  "unframe c bs = (if header_ok c bs
     then take (header_len bs) (drop 4 bs) # unframe c (drop (4 + roundup (header_len bs) TX_ALIGNMENT) bs) else [])"
  by pat_completeness auto
termination by (relation "measure (\<lambda>(c, bs). length bs)") (auto simp: header_ok_def)

declare unframe.simps [simp del]

lemma roundup_4: "roundup n TX_ALIGNMENT = (n + 3) div 4 * 4" by (simp add: roundup_def TX_ALIGNMENT_def)

lemma roundup_ge: "n \<le> roundup n TX_ALIGNMENT" "roundup n TX_ALIGNMENT < n + 4" "roundup n TX_ALIGNMENT mod 4 = 0"
  unfolding roundup_4 by presburger+

lemma roundup_add4: "k mod 4 = 0 \<Longrightarrow> roundup (k + n) TX_ALIGNMENT = k + roundup n TX_ALIGNMENT"
  unfolding roundup_4 by presburger

lemma roundup_self: "n mod 4 = 0 \<Longrightarrow> roundup n TX_ALIGNMENT = n" unfolding roundup_4 by presburger

lemma pad_len_add4: "k mod 4 = 0 \<Longrightarrow> pad_len (k + n) = pad_len n" by (simp add: pad_len_def roundup_add4)

lemma pad_len_total: "n + pad_len n = roundup n TX_ALIGNMENT" using roundup_ge(1) [of n] by (simp add: pad_len_def)

lemma length_header [simp]: "length (sdio_data_header c n) = 4" by (simp add: sdio_data_header_def Let_def)

lemma header_bytes:
  "sdio_data_header c n = [of_nat (n mod 256), of_nat (n div 256 mod 16), 1, sdio_data_header c n ! 3]"
  "sdio_data_header c n ! 3 = (if legacy_chip c then 0 else crc8_ponl_107 [of_nat (n mod 256), of_nat (n div 256 mod 16), 1])"
  by (simp_all add: sdio_data_header_def Let_def)

lemma header_decodes:
  "header_ok c (sdio_data_header c n @ xs)" "n < 4096 \<Longrightarrow> header_len (sdio_data_header c n @ xs) = n"
proof -
  show "header_ok c (sdio_data_header c n @ xs)" by (simp add: header_ok_def sdio_data_header_def Let_def numeral_3_eq_3 numeral_2_eq_2)
  assume n: "n < 4096"
  have "unat (of_nat (n mod 256) :: u8) = n mod 256" "unat (of_nat (n div 256 mod 16) :: u8) = n div 256 mod 16"
    by (rule unat_of_nat_small; simp)+
  moreover have "n div 256 mod 16 = n div 256" using n by (simp add: div_less_mono)
  ultimately show "header_len (sdio_data_header c n @ xs) = n" by (simp add: header_len_def sdio_data_header_def Let_def)
qed

lemma payload_bounds:
  assumes "pkt_ok p"
  shows "length (frame_payload c p) < 4096"
    "length (sdio_frame c p) = 4 + roundup (length (frame_payload c p)) TX_ALIGNMENT" "length (sdio_frame c p) mod 4 = 0"
    "4 < length (sdio_frame c p)" "length (sdio_frame c p) \<le> 4096"
proof -
  have d: "length (txdesc p) = 28" "length (body p) + 28 \<le> 4092" using assms by (simp_all add: pkt_ok_def sizeof_txdesc_api_def)
  have r: "roundup (28 + length (body p)) TX_ALIGNMENT \<le> 4092" unfolding roundup_4 using d(2) by presburger
  have t: "28 + length (body p) + pad_len (length (body p)) = roundup (28 + length (body p)) TX_ALIGNMENT"
    using pad_len_total [of "length (body p)"] by (simp add: roundup_add4)
  then show "length (frame_payload c p) < 4096" using r d by (auto simp: frame_payload_def)
  have "roundup (length (frame_payload c p)) TX_ALIGNMENT = roundup (28 + length (body p)) TX_ALIGNMENT"
    using t roundup_ge(3) [of "28 + length (body p)"] by (simp add: frame_payload_def d(1) roundup_self add.assoc)
  then show l: "length (sdio_frame c p) = 4 + roundup (length (frame_payload c p)) TX_ALIGNMENT" using t d(1) by (simp add: sdio_frame_def)
  then show "length (sdio_frame c p) mod 4 = 0" using roundup_ge(3) by (simp add: mod_add_eq [symmetric])
  show "4 < length (sdio_frame c p)" using d(1) by (simp add: sdio_frame_def)
  show "length (sdio_frame c p) \<le> 4096" using t r d(1) by (simp add: sdio_frame_def)
qed

lemma unframe_cons:
  assumes "pkt_ok p"
  shows "unframe c (sdio_frame c p @ rest) = frame_payload c p # unframe c rest"
proof -
  define n where "n = length (frame_payload c p)"
  have n: "n < 4096" using payload_bounds(1) [OF assms] by (simp add: n_def)
  define pad where "pad = replicate (if legacy_chip c then 0 else pad_len (length (body p))) (0 :: u8)"
  have f: "sdio_frame c p = sdio_data_header c n @ frame_payload c p @ pad" by (simp add: sdio_frame_def frame_payload_def n_def pad_def)
  have h: "header_ok c (sdio_frame c p @ rest)" "header_len (sdio_frame c p @ rest) = n" using header_decodes n by (simp_all add: f)
  have "take n (drop 4 (sdio_frame c p @ rest)) = frame_payload c p" by (simp add: f n_def)
  moreover have "drop (4 + roundup n TX_ALIGNMENT) (sdio_frame c p @ rest) = rest" using payload_bounds(2) [OF assms, of c] by (simp flip: n_def)
  ultimately show ?thesis by (subst unframe.simps) (simp add: h)
qed

lemma unframe_frames:
  "list_all pkt_ok ps \<Longrightarrow> unframe c (sdio_frames c ps @ rest) = map (frame_payload c) ps @ unframe c rest"
  by (induction ps) (simp_all add: sdio_frames_def unframe_cons)

lemma frames_length: "list_all pkt_ok ps \<Longrightarrow> length (sdio_frames c ps) mod 4 = 0 \<and> length (sdio_frames c ps) \<le> 4096 * length ps"
  by (induction ps) (use payload_bounds(3,5) in \<open>auto simp: sdio_frames_def mod_add_eq [symmetric] intro: add_mono\<close>)

lemma unframe_end: "unframe c [] = []" "unframe c (replicate 4 0 @ xs) = []"
  by (subst unframe.simps, simp add: header_ok_def nth_append)+

end
