(* ===== verification/Sdio_Run.thy ===== *)
theory Sdio_Run
  imports Sdio_Frame
begin

text \<open>
  The transmit thread's data path as a whole: the aggregate under construction is the frames of the
  packets taken from the queue, the loop of \<open>aicwf_sdio_tx_process\<close> puts every packet on the bus once
  and in order, and it ends when the card answers.
\<close>

subsection \<open>The aggregation buffer\<close>

definition aggr_view :: "sdio_tx \<Rightarrow> u8 list" where "aggr_view s = map (aggr_buf s) [0..<aggr_tail s]"

lemma mem_write_view:
  "map (mem_write n xs m) [0..<n + length xs] = map m [0..<n] @ xs"
  by (rule nth_equalityI) (auto simp: mem_write_def nth_append)

lemma mem_overwrite_view:
  "at + length xs \<le> n \<Longrightarrow> map (mem_write at xs m) [0..<n] = memcpy_at (map m [0..<n]) at xs"
  by (rule nth_equalityI) (auto simp: mem_write_def memcpy_at_def nth_append min_def)

lemma aggr_append_view [simp]: "aggr_view (aggr_append xs s) = aggr_view s @ xs"
  by (simp add: aggr_view_def aggr_append_def mem_write_view)

lemma aggr_tail_view: "aggr_tail s = length (aggr_view s)" by (simp add: aggr_view_def)

lemma aggr_append_fields [simp]:
  "chipid (aggr_append xs s) = chipid s" "aggr_count (aggr_append xs s) = aggr_count s" "txq (aggr_append xs s) = txq s"
  "tx_pktcnt (aggr_append xs s) = tx_pktcnt s" "fw_avail_bufcnt (aggr_append xs s) = fw_avail_bufcnt s" "wire (aggr_append xs s) = wire s"
  "cmd_txstate (aggr_append xs s) = cmd_txstate s" "bus_up (aggr_append xs s) = bus_up s" "n_polls (aggr_append xs s) = n_polls s"
  "consumed (aggr_append xs s) = consumed s" "sdio_active (aggr_append xs s) = sdio_active s"
  by (simp_all add: aggr_append_def)

lemma aggr_view_fields [simp]:
  "aggr_view (s\<lparr>aggr_count := a\<rparr>) = aggr_view s" "aggr_view (s\<lparr>consumed := d\<rparr>) = aggr_view s" "aggr_view (s\<lparr>txq := q\<rparr>) = aggr_view s"
  "aggr_view (s\<lparr>tx_pktcnt := k\<rparr>) = aggr_view s" "aggr_view (s\<lparr>fw_avail_bufcnt := f\<rparr>) = aggr_view s" "aggr_view (s\<lparr>n_polls := n\<rparr>) = aggr_view s"
  by (simp_all add: aggr_view_def)

text \<open>One packet is appended as its frame.\<close>

definition aggr_pad :: "sdio_tx \<Rightarrow> sdio_tx" where
  "aggr_pad s = (if aggr_tail s mod TX_ALIGNMENT \<noteq> 0
     then aggr_append (replicate (roundup (aggr_tail s) TX_ALIGNMENT - aggr_tail s) 0) s else s)"

definition aggr_fix :: "nat \<Rightarrow> sdio_tx \<Rightarrow> sdio_tx" where
  "aggr_fix start s = (if legacy_chip (chipid s) then s\<lparr>aggr_buf := mem_write start
     [of_nat ((aggr_tail s - start - 4) mod 256), of_nat ((aggr_tail s - start - 4) div 256 mod 16)] (aggr_buf s)\<rparr> else s)"

lemma aggr_pad_append: "aggr_pad s = aggr_append (replicate (pad_len (aggr_tail s)) 0) s"
proof -
  have "aggr_tail s mod TX_ALIGNMENT = 0 \<Longrightarrow> pad_len (aggr_tail s) = 0" proof -
    assume "aggr_tail s mod TX_ALIGNMENT = 0"
    then have "roundup (aggr_tail s) TX_ALIGNMENT = aggr_tail s" by (intro roundup_self) (simp add: TX_ALIGNMENT_def)
    then show ?thesis by (simp add: pad_len_def)
  qed
  moreover have "mem_write n [] m = m" for n m by (auto simp: mem_write_def fun_eq_iff)
  then have "aggr_append [] s = s" by (simp add: aggr_append_def)
  ultimately show ?thesis by (simp add: aggr_pad_def pad_len_def)
qed

lemma aggr_steps:
  "aicwf_sdio_aggr p s =
     (let t = aggr_fix (aggr_tail s) (aggr_pad (aggr_append (body p) (aggr_append (txdesc p)
            (aggr_append (sdio_data_header (chipid s) (length (body p) + sizeof_txdesc_api)) s))))
      in t\<lparr>consumed := (if need_cfm p then consumed s else consumed s @ [pkt_id p]), aggr_count := aggr_count s + 1\<rparr>)"
  by (simp add: aicwf_sdio_aggr_def Let_def aggr_pad_def aggr_fix_def)

lemma aggr_effect:
  assumes "pkt_ok p" "length (aggr_view s) mod 4 = 0"
  shows "aggr_view (aicwf_sdio_aggr p s) = aggr_view s @ sdio_frame (chipid s) p"
    "aggr_count (aicwf_sdio_aggr p s) = aggr_count s + 1"
    "consumed (aicwf_sdio_aggr p s) = consumed s @ (if need_cfm p then [] else [pkt_id p])"
proof -
  define n where "n = length (body p) + 28"
  define v where "v = aggr_append (body p) (aggr_append (txdesc p) (aggr_append (sdio_data_header (chipid s) n) s))"
  define u where "u = aggr_pad v"
  define len where "len = length (frame_payload (chipid s) p)"
  have d: "length (txdesc p) = 28" using assms(1) by (simp add: pkt_ok_def sizeof_txdesc_api_def)
  have vv: "aggr_view v = aggr_view s @ sdio_data_header (chipid s) n @ txdesc p @ body p" by (simp add: v_def)
  have "aggr_tail v = (length (aggr_view s) + 32) + length (body p)" by (simp add: aggr_tail_view vv d)
  moreover have "(length (aggr_view s) + 32) mod 4 = 0" using assms(2) by presburger
  ultimately have pv: "pad_len (aggr_tail v) = pad_len (length (body p))" by (simp only: pad_len_add4)
  have uv: "aggr_view u = aggr_view s @ sdio_data_header (chipid s) n @ txdesc p @ body p @ replicate (pad_len (length (body p))) 0"
    by (simp add: u_def aggr_pad_append vv pv)
  have a: "aicwf_sdio_aggr p s = (aggr_fix (aggr_tail s) u)\<lparr>consumed := (if need_cfm p then consumed s else consumed s @ [pkt_id p]), aggr_count := aggr_count s + 1\<rparr>"
    by (simp add: aggr_steps Let_def u_def v_def n_def sizeof_txdesc_api_def)
  have cu: "chipid u = chipid s" by (simp add: u_def aggr_pad_append v_def)
  have fix_view: "aggr_view (aggr_fix (aggr_tail s) u) = aggr_view s @ sdio_frame (chipid s) p"
  proof (cases "legacy_chip (chipid s)")
    case True
    have ul: "aggr_tail u - (aggr_tail s + 4) = len" using True d by (simp add: aggr_tail_view uv len_def frame_payload_def)
    have h: "sdio_data_header (chipid s) len = [of_nat (len mod 256), of_nat (len div 256 mod 16)] @ drop 2 (sdio_data_header (chipid s) n)"
      using True by (simp add: sdio_data_header_def Let_def)
    have "aggr_tail s + 2 \<le> aggr_tail u" by (simp add: aggr_tail_view uv)
    then have "aggr_view (aggr_fix (aggr_tail s) u) = memcpy_at (aggr_view u) (aggr_tail s) [of_nat (len mod 256), of_nat (len div 256 mod 16)]"
      using True by (simp add: aggr_fix_def cu ul [simplified] aggr_view_def mem_overwrite_view)
    also have "\<dots> = aggr_view s @ sdio_data_header (chipid s) len @ txdesc p @ body p @ replicate (pad_len (length (body p))) 0"
      by (simp add: memcpy_at_def uv aggr_tail_view h)
    finally show ?thesis by (simp add: sdio_frame_def len_def)
  next
    case False
    then show ?thesis by (simp add: aggr_fix_def cu uv sdio_frame_def frame_payload_def n_def d add.commute)
  qed
  show "aggr_view (aicwf_sdio_aggr p s) = aggr_view s @ sdio_frame (chipid s) p" unfolding a by (simp add: fix_view)
  show "aggr_count (aicwf_sdio_aggr p s) = aggr_count s + 1" "consumed (aicwf_sdio_aggr p s) = consumed s @ (if need_cfm p then [] else [pkt_id p])"
    unfolding a by simp_all
qed

lemma aggr_frame [frame_simps]:
  "chipid (aicwf_sdio_aggr p s) = chipid s" "txq (aicwf_sdio_aggr p s) = txq s" "tx_pktcnt (aicwf_sdio_aggr p s) = tx_pktcnt s"
  "fw_avail_bufcnt (aicwf_sdio_aggr p s) = fw_avail_bufcnt s" "wire (aicwf_sdio_aggr p s) = wire s" "cmd_txstate (aicwf_sdio_aggr p s) = cmd_txstate s"
  "bus_up (aicwf_sdio_aggr p s) = bus_up s" "n_polls (aicwf_sdio_aggr p s) = n_polls s" "sdio_active (aicwf_sdio_aggr p s) = sdio_active s"
  by (simp_all add: aggr_steps Let_def aggr_pad_append aggr_fix_def)

text \<open>The transfer: the frames, the tail when they do not fill blocks, and what the buffer holds up to the
  end of the last block.\<close>

lemma aggr_send_effect:
  assumes "bus_up s"
  shows "\<exists>stale. wire (aicwf_sdio_aggr_send e s) = wire s @ [aggr_view s @ stale] \<and> (stale = [] \<or> (\<exists>xs. stale = replicate 4 0 @ xs)) \<and>
      length (aggr_view s @ stale) < length (aggr_view s) + 516"
    "aggr_view (aicwf_sdio_aggr_send e s) = []" "aggr_count (aicwf_sdio_aggr_send e s) = 0"
proof -
  define t where "t = (if aggr_tail s mod TXPKT_BLOCKSIZE \<noteq> 0 then aggr_append (replicate TAIL_LEN 0) s else s)"
  define len where "len = (aggr_tail t + SDIOWIFI_FUNC_BLOCKSIZE - 1) div SDIOWIFI_FUNC_BLOCKSIZE * SDIOWIFI_FUNC_BLOCKSIZE"
  have up: "bus_up t" "wire t = wire s" using assms by (simp_all add: t_def)
  have w: "aicwf_sdio_aggr_send e s = aicwf_sdio_aggrbuf_reset (t\<lparr>wire := wire s @ [map (aggr_buf t) [0..<len]]\<rparr>)"
    unfolding aicwf_sdio_aggr_send_def t_def [symmetric] Let_def aicwf_sdio_txpkt_def len_def [symmetric] aicwf_sdio_send_pkt_def
    by (simp add: up)
  then show "aggr_view (aicwf_sdio_aggr_send e s) = []" "aggr_count (aicwf_sdio_aggr_send e s) = 0"
    by (simp_all add: aicwf_sdio_aggrbuf_reset_def aggr_view_def)
  have "len = (aggr_tail t + 511) div 512 * 512" by (simp add: len_def SDIOWIFI_FUNC_BLOCKSIZE_def add.commute)
  then have "len + (aggr_tail t + 511) mod 512 = aggr_tail t + 511" by (simp only: div_mult_mod_eq)
  moreover have "(aggr_tail t + 511) mod 512 < 512" by simp
  ultimately have l: "aggr_tail t \<le> len" "len < aggr_tail t + 512" by linarith+
  obtain ys where b: "map (aggr_buf t) [0..<len] = aggr_view t @ ys"
    using l(1) upt_add_eq_append [of 0 "aggr_tail t" "len - aggr_tail t"] by (simp add: aggr_view_def)
  show "\<exists>stale. wire (aicwf_sdio_aggr_send e s) = wire s @ [aggr_view s @ stale] \<and> (stale = [] \<or> (\<exists>xs. stale = replicate 4 0 @ xs)) \<and>
      length (aggr_view s @ stale) < length (aggr_view s) + 516"
  proof (cases "aggr_tail s mod TXPKT_BLOCKSIZE = 0")
    case True
    then have "t = s" by (simp add: t_def)
    obtain k where "aggr_tail s = 512 * k" using True by (auto simp: TXPKT_BLOCKSIZE_def)
    then have "len = aggr_tail s" by (simp add: len_def \<open>t = s\<close> SDIOWIFI_FUNC_BLOCKSIZE_def div_add1_eq)
    then have "map (aggr_buf t) [0..<len] = aggr_view s" using \<open>t = s\<close> by (simp add: aggr_view_def)
    then show ?thesis by (intro exI [of _ "[]"]) (simp add: w aicwf_sdio_aggrbuf_reset_def)
  next
    case False
    then have tv: "aggr_view t = aggr_view s @ replicate 4 0" by (simp add: t_def TAIL_LEN_def)
    have "length (aggr_view s @ replicate 4 0 @ ys) = len" using arg_cong [OF b, of length] by (simp add: tv)
    then show ?thesis using l(2) by (intro exI [of _ "replicate 4 0 @ ys"]) (auto simp: w aicwf_sdio_aggrbuf_reset_def b tv aggr_tail_view)
  qed
qed

lemma aggr_send_frame [frame_simps]:
  "chipid (aicwf_sdio_aggr_send e s) = chipid s" "txq (aicwf_sdio_aggr_send e s) = txq s" "tx_pktcnt (aicwf_sdio_aggr_send e s) = tx_pktcnt s"
  "fw_avail_bufcnt (aicwf_sdio_aggr_send e s) = fw_avail_bufcnt s" "cmd_txstate (aicwf_sdio_aggr_send e s) = cmd_txstate s"
  "bus_up (aicwf_sdio_aggr_send e s) = bus_up s" "n_polls (aicwf_sdio_aggr_send e s) = n_polls s"
  "consumed (aicwf_sdio_aggr_send e s) = consumed s" "sdio_active (aicwf_sdio_aggr_send e s) = sdio_active s"
  by (simp_all add: aicwf_sdio_aggr_send_def aicwf_sdio_txpkt_def aicwf_sdio_send_pkt_def aicwf_sdio_aggrbuf_reset_def Let_def)

subsection \<open>Flow control\<close>

text \<open>The answer is above the threshold and at most \<open>tx_aggr_counter\<close>, or not positive; at least one
  register read is made and at most \<open>FLOW_CTRL_RETRY_COUNT + 1\<close>.\<close>

lemma flow_ctrl_bounds:
  assumes "flow_ctrl_loop e c th count n = (v, n')" "count \<le> FLOW_CTRL_RETRY_COUNT"
  shows "v \<le> max 0 (tx_aggr_counter e)" "0 < v \<Longrightarrow> min (int (Suc (unat th))) (tx_aggr_counter e) \<le> v" "n < n'" "n' \<le> n + Suc (FLOW_CTRL_RETRY_COUNT - count)"
proof -
  have "v \<le> max 0 (tx_aggr_counter e) \<and> (0 < v \<longrightarrow> min (int (Suc (unat th))) (tx_aggr_counter e) \<le> v) \<and> n < n' \<and> n' \<le> n + Suc (FLOW_CTRL_RETRY_COUNT - count)"
    using assms
  proof (induction e c th count n rule: flow_ctrl_loop.induct)
    case (1 e c th count n)
    show ?case
    proof (cases "fc_reads e n")
      case None
      then show ?thesis using 1(2) by (auto simp: flow_ctrl_loop.simps [of e c th count n])
    next
      case (Some v0)
      define fc where "fc = (if legacy_chip c then v0 AND SDIOWIFI_FLOWCTRL_MASK_REG else v0)"
      consider "th < fc" | "\<not> th < fc" "FLOW_CTRL_RETRY_COUNT \<le> count" | "\<not> th < fc" "count < FLOW_CTRL_RETRY_COUNT" by linarith
      then show ?thesis
      proof cases
        case 1
        have "int (unat th) < uint fc" using \<open>th < fc\<close> by (simp add: word_less_def)
        then show ?thesis using \<open>flow_ctrl_loop e c th count n = (v, n')\<close> 1 Some by (auto simp: flow_ctrl_loop.simps [of e c th count n] fc_def [symmetric])
      next
        case 2
        then have "v = - uint fc" "n' = Suc n" using 1(2) Some by (simp_all add: flow_ctrl_loop.simps [of e c th count n] fc_def [symmetric])
        moreover have "- uint fc \<le> 0" using uint_nonnegative [of fc] by linarith
        ultimately show ?thesis by (auto simp: le_max_iff_disj)
      next
        case 3
        then have "flow_ctrl_loop e c th (Suc count) (Suc n) = (v, n')"
          using 1(2) Some by (simp add: flow_ctrl_loop.simps [of e c th count n] fc_def [symmetric])
        from 1(1) [OF Some fc_def 3(1) _ this] 3(2) show ?thesis by auto
      qed
    qed
  qed
  then show "v \<le> max 0 (tx_aggr_counter e)" "0 < v \<Longrightarrow> min (int (Suc (unat th))) (tx_aggr_counter e) \<le> v" "n < n'"
    "n' \<le> n + Suc (FLOW_CTRL_RETRY_COUNT - count)" by blast+
qed

subsection \<open>The loop\<close>

text \<open>The frames removed from the queue, in order.\<close>

fun taken :: "tx_pkt frame_queue \<Rightarrow> tx_pkt list \<Rightarrow> tx_pkt frame_queue \<Rightarrow> bool" where
  "taken q [] q' \<longleftrightarrow> q' = q"
| "taken q (x # xs) q' \<longleftrightarrow> (case aicwf_frame_dequeue q of (None, q1) \<Rightarrow> False | (Some y, q1) \<Rightarrow> y = x \<and> taken q1 xs q')"

text \<open>A transfer that carries the packets \<open>ps\<close>.\<close>

definition carries :: "AICWF_IC \<Rightarrow> u8 list \<Rightarrow> tx_pkt list \<Rightarrow> bool" where
  "carries c w ps \<longleftrightarrow> ps \<noteq> [] \<and> unframe c w = map (frame_payload c) ps \<and> length w < length (sdio_frames c ps) + 516"

definition unconfirmed :: "tx_pkt list \<Rightarrow> nat list" where "unconfirmed ps = map pkt_id (filter (\<lambda>p. \<not> need_cfm p) ps)"

definition queued_ok :: "tx_pkt frame_queue \<Rightarrow> bool" where "queued_ok q \<longleftrightarrow> fq_ok q \<and> num_prio q = 8 \<and> (\<forall>xs \<in> set (queuelist q). list_all pkt_ok xs)"

text \<open>The state between two steps, with the packets \<open>ps\<close> in the aggregate.\<close>

definition tx_ok :: "sdio_tx \<Rightarrow> tx_pkt list \<Rightarrow> bool" where
  "tx_ok s ps \<longleftrightarrow> queued_ok (txq s) \<and> tx_pktcnt s = int (unat (qcnt (txq s))) \<and> list_all pkt_ok ps \<and>
     aggr_view s = sdio_frames (chipid s) ps \<and> aggr_count s = int (length ps)"

lemma queued_ok_items: "queued_ok q \<longleftrightarrow> fq_ok q \<and> num_prio q = 8 \<and> (\<forall>p. list_all pkt_ok (fq_items q p))"
proof -
  have "(\<forall>xs \<in> set (queuelist q). list_all pkt_ok xs) \<longleftrightarrow> (\<forall>p < length (queuelist q). list_all pkt_ok (queuelist q ! p))"
    by (rule all_set_conv_all_nth)
  then show ?thesis by (simp add: queued_ok_def fq_items_def)
qed

lemma deq_queued:
  assumes "queued_ok q" "aicwf_frame_dequeue q = (Some x, q')"
  shows "queued_ok q'" "pkt_ok x" "int (unat (qcnt q')) = int (unat (qcnt q)) - 1"
proof -
  have ok: "fq_ok q" "num_prio q = 8" "\<forall>p. list_all pkt_ok (fq_items q p)" using assms(1) by (auto simp: queued_ok_items)
  obtain k where k: "fq_items q = (fq_items q')(k := x # fq_items q' k)" using deq_spec(5) [OF ok(1) assms(2)] by blast
  have "list_all pkt_ok (fq_items q' p) \<and> pkt_ok x" for p
    using ok(3) [THEN spec, of k] ok(3) [THEN spec, of p] by (cases "p = k") (auto simp: k)
  then show "queued_ok q'" "pkt_ok x" using deq_spec(1,2) [OF ok(1) assms(2)] ok(2) by (simp_all add: queued_ok_items)
  show "int (unat (qcnt q')) = int (unat (qcnt q)) - 1" using deq_spec(6) [OF ok(1) assms(2) refl] by simp
qed

lemma sdio_frames_snoc [simp]: "sdio_frames c (ps @ [x]) = sdio_frames c ps @ sdio_frame c x" by (simp add: sdio_frames_def)

lemma put_ok:
  assumes "tx_ok s ps" "aicwf_frame_dequeue (txq s) = (Some x, q')"
  defines "t \<equiv> aicwf_sdio_aggr x (s\<lparr>txq := q', tx_pktcnt := tx_pktcnt s - 1\<rparr>)"
  shows "tx_ok t (ps @ [x])" "consumed t = consumed s @ unconfirmed [x]"
proof -
  have d: "queued_ok q'" "pkt_ok x" "int (unat (qcnt q')) = int (unat (qcnt (txq s))) - 1"
    using deq_queued [OF _ assms(2)] assms(1) by (auto simp: tx_ok_def)
  have v: "aggr_view s = sdio_frames (chipid s) ps" "list_all pkt_ok ps" using assms(1) by (simp_all add: tx_ok_def)
  have "length (aggr_view s) mod 4 = 0" unfolding v(1) using frames_length [OF v(2)] by blast
  then show "tx_ok t (ps @ [x])" "consumed t = consumed s @ unconfirmed [x]"
    using d v assms(1) aggr_effect [OF d(2), of "s\<lparr>txq := q', tx_pktcnt := tx_pktcnt s - 1\<rparr>"]
    by (simp_all add: t_def tx_ok_def frame_simps unconfirmed_def)
qed

lemma send_aggregate_ok:
  assumes "tx_ok s ps" "bus_up s" "ps \<noteq> []"
  shows "tx_ok (send_aggregate e s) []" "\<exists>w. wire (send_aggregate e s) = wire s @ [w] \<and> carries (chipid s) w ps"
    "fw_avail_bufcnt (send_aggregate e s) = fw_avail_bufcnt s - int (length ps)"
proof -
  define t where "t = s\<lparr>fw_avail_bufcnt := fw_avail_bufcnt s - aggr_count s\<rparr>"
  have v: "aggr_view t = sdio_frames (chipid s) ps" "list_all pkt_ok ps" "bus_up t" "wire t = wire s" using assms by (simp_all add: tx_ok_def t_def)
  show "tx_ok (send_aggregate e s) []" "fw_avail_bufcnt (send_aggregate e s) = fw_avail_bufcnt s - int (length ps)"
    using assms(1) aggr_send_effect(2,3) [OF v(3), of e] by (simp_all add: send_aggregate_def tx_ok_def frame_simps sdio_frames_def t_def)
  obtain stale where "wire (send_aggregate e s) = wire s @ [sdio_frames (chipid s) ps @ stale]"
    "stale = [] \<or> (\<exists>xs. stale = replicate 4 0 @ xs)" "length (sdio_frames (chipid s) ps @ stale) < length (sdio_frames (chipid s) ps) + 516"
    using aggr_send_effect(1) [OF v(3), of e] unfolding v(1,4) send_aggregate_def t_def [symmetric] by blast
  then show "\<exists>w. wire (send_aggregate e s) = wire s @ [w] \<and> carries (chipid s) w ps"
    using assms(3) unframe_frames [OF v(2), of "chipid s" stale] unframe_end by (intro exI conjI) (auto simp: carries_def)
qed

lemma send_frame [frame_simps]: 
  "chipid (send_aggregate e s) = chipid s" "txq (send_aggregate e s) = txq s" "cmd_txstate (send_aggregate e s) = cmd_txstate s"
  "bus_up (send_aggregate e s) = bus_up s" "n_polls (send_aggregate e s) = n_polls s" "consumed (send_aggregate e s) = consumed s"
  "sdio_active (send_aggregate e s) = sdio_active s"
  by (simp_all add: send_aggregate_def frame_simps)

text \<open>A call of \<open>aicwf_sdio_send\<close> while the aggregate has room: one packet moves from the queue into the
  aggregate; the aggregate is sent when it is full, when it is the last one, or on \<open>txnow\<close>.\<close>

lemma send_step:
  fixes e :: sdio_env and now :: bool
  assumes "tx_ok s ps" "bus_up s" "\<not> aicwf_is_framequeue_empty (txq s)" "int (length ps) < fw_avail_bufcnt s - 2"
  defines "t \<equiv> aicwf_sdio_send e now s"
  obtains x where "aicwf_frame_dequeue (txq s) = (Some x, txq t)" "consumed t = consumed s @ unconfirmed [x]"
    "chipid t = chipid s" "cmd_txstate t = cmd_txstate s" "bus_up t" "n_polls t = n_polls s"
    "(tx_ok t (ps @ [x]) \<and> wire t = wire s \<and> fw_avail_bufcnt t = fw_avail_bufcnt s \<and> \<not> now \<and> \<not> aicwf_is_framequeue_empty (txq t) \<and>
        int (length (ps @ [x])) < fw_avail_bufcnt t - 2) \<or>
     (tx_ok t [] \<and> (\<exists>w. wire t = wire s @ [w] \<and> carries (chipid s) w (ps @ [x])) \<and> fw_avail_bufcnt t < fw_avail_bufcnt s)"
proof -
  have ok: "fq_ok (txq s)" using assms(1) by (simp add: tx_ok_def queued_ok_def)
  obtain x q' where d: "aicwf_frame_dequeue (txq s) = (Some x, q')" using deq_total [OF ok assms(3)] by blast
  define u where "u = aicwf_sdio_aggr x (s\<lparr>txq := q', tx_pktcnt := tx_pktcnt s - 1\<rparr>)"
  have u: "tx_ok u (ps @ [x])" "consumed u = consumed s @ unconfirmed [x]" unfolding u_def using put_ok [OF assms(1) d] .
  have uf: "chipid u = chipid s" "cmd_txstate u = cmd_txstate s" "bus_up u" "n_polls u = n_polls s" "txq u = q'" "wire u = wire s"
    "fw_avail_bufcnt u = fw_avail_bufcnt s" using assms(2) by (simp_all add: u_def frame_simps)
  have n: "aggr_count s = int (length ps)" "aggr_tail s = length (sdio_frames (chipid s) ps)" "list_all pkt_ok ps" "aggr_count u = int (length ps) + 1"
    using assms(1) u(1) by (simp_all add: tx_ok_def aggr_tail_view)
  have z: "sdio_frames (chipid s) ps = [] \<longleftrightarrow> ps = []" proof (cases ps)
    case (Cons p qs)
    then have "sdio_frame (chipid s) p \<noteq> []" using n(3) payload_bounds(4) [of p "chipid s"] by auto
    then show ?thesis by (simp add: sdio_frames_def Cons)
  qed (simp add: sdio_frames_def)
  define go where "go \<longleftrightarrow> tx_pktcnt u = 0 \<or> now \<or> aggr_count u = fw_avail_bufcnt u - 2"
  have t: "t = (if go then send_aggregate e u else u)"
    using assms(4) by (simp add: t_def aicwf_sdio_send_def n(1,2) z DATA_FLOW_CTRL_THRESH_def d Let_def flip: u_def) (simp add: go_def)
  show thesis
  proof (cases go)
    case True
    have s: "tx_ok t []" "\<exists>w. wire t = wire s @ [w] \<and> carries (chipid s) w (ps @ [x])" "fw_avail_bufcnt t = fw_avail_bufcnt s - int (length (ps @ [x]))"
      using send_aggregate_ok [OF u(1) uf(3)] True by (simp_all add: t uf)
    show thesis by (rule that [of x]) (use True s d u(2) uf in \<open>simp_all add: t frame_simps\<close>)
  next
    case False
    have e: "aicwf_is_framequeue_empty q' \<longleftrightarrow> qcnt q' = 0" using u(1) empty_iff [of q'] by (simp add: tx_ok_def queued_ok_def uf)
    have "tx_pktcnt u = int (unat (qcnt q'))" using u(1) by (simp add: tx_ok_def uf)
    then have "\<not> aicwf_is_framequeue_empty q'" using False by (auto simp: go_def e)
    moreover have "int (length (ps @ [x])) < fw_avail_bufcnt t - 2" using False assms(4) by (simp add: go_def t uf n)
    ultimately show thesis by (intro that [of x]) (use False d u uf in \<open>simp_all add: t go_def\<close>)
  qed
qed

text \<open>What the loop has done from \<open>s\<close> to \<open>r\<close>, when \<open>ps\<close> was in the aggregate at \<open>s\<close>: every packet is in one
  transfer, in order of removal, and the aggregate is empty.\<close>

definition transfers :: "sdio_env \<Rightarrow> AICWF_IC \<Rightarrow> u8 list list \<Rightarrow> tx_pkt list list \<Rightarrow> bool" where
  "transfers e c = list_all2 (\<lambda>w ps. carries c w ps \<and> int (length ps) \<le> tx_aggr_counter e - 2)"

definition drained :: "sdio_env \<Rightarrow> sdio_tx \<Rightarrow> sdio_tx \<Rightarrow> tx_pkt list \<Rightarrow> bool" where
  "drained e s r ps \<longleftrightarrow> (\<exists>ws pss xs. wire r = wire s @ ws \<and> transfers e (chipid s) ws pss \<and> concat pss = ps @ xs \<and> taken (txq s) xs (txq r) \<and>
     consumed r = consumed s @ unconfirmed xs \<and> tx_ok r [] \<and> (aicwf_is_framequeue_empty (txq r) \<or> cmd_txstate s) \<and>
     cmd_txstate r = cmd_txstate s \<and> bus_up r = bus_up s \<and> chipid r = chipid s)"

text \<open>The loop's invariant.\<close>

definition loop_inv :: "sdio_env \<Rightarrow> sdio_tx \<Rightarrow> tx_pkt list \<Rightarrow> bool" where
  "loop_inv e s ps \<longleftrightarrow> tx_ok s ps \<and> bus_up s \<and> fw_avail_bufcnt s \<le> max 0 (tx_aggr_counter e) \<and>
     (ps = [] \<or> (\<not> aicwf_is_framequeue_empty (txq s) \<and> int (length ps) < fw_avail_bufcnt s - 2))"

lemma unconfirmed_Cons: "unconfirmed (x # xs) = unconfirmed [x] @ unconfirmed xs" by (simp add: unconfirmed_def)

lemma drained_stop: "tx_ok s [] \<Longrightarrow> aicwf_is_framequeue_empty (txq s) \<or> cmd_txstate s \<Longrightarrow> drained e s s []"
  unfolding drained_def transfers_def by (intro exI [of _ "[]"]) (simp add: unconfirmed_def)

lemma poll_fields:
  "tx_ok (poll_bufcnt e s) ps = tx_ok s ps" "drained e (poll_bufcnt e s) r ps = drained e s r ps" "bus_up (poll_bufcnt e s) = bus_up s"
  "txq (poll_bufcnt e s) = txq s" "cmd_txstate (poll_bufcnt e s) = cmd_txstate s"
  by (simp_all add: poll_bufcnt_def tx_ok_def drained_def split: prod.splits)

lemma poll_bound: "fw_avail_bufcnt (poll_bufcnt e s) \<le> max 0 (tx_aggr_counter e)"
  using flow_ctrl_bounds(1) by (auto simp: poll_bufcnt_def aicwf_sdio_flow_ctrl_def split: prod.splits)

text \<open>One call of \<open>aicwf_sdio_send\<close> keeps the invariant and composes with what follows.\<close>

lemma send_inv:
  fixes e :: sdio_env and now :: bool
  assumes "loop_inv e s ps" "\<not> aicwf_is_framequeue_empty (txq s)" "2 < fw_avail_bufcnt s"
  defines "t \<equiv> aicwf_sdio_send e now s"
  obtains x qs where "aicwf_frame_dequeue (txq s) = (Some x, txq t)" "loop_inv e t qs" "now \<Longrightarrow> qs = []" "\<And>r. drained e t r qs \<Longrightarrow> drained e s r ps"
    "n_polls t = n_polls s" "cmd_txstate t = cmd_txstate s" "chipid t = chipid s"
proof -
  have i: "tx_ok s ps" "bus_up s" "fw_avail_bufcnt s \<le> max 0 (tx_aggr_counter e)" "int (length ps) < fw_avail_bufcnt s - 2"
    using assms(1,3) by (auto simp: loop_inv_def)
  obtain x where x: "aicwf_frame_dequeue (txq s) = (Some x, txq t)" "consumed t = consumed s @ unconfirmed [x]"
    "chipid t = chipid s" "cmd_txstate t = cmd_txstate s" "bus_up t" "n_polls t = n_polls s"
    "(tx_ok t (ps @ [x]) \<and> wire t = wire s \<and> fw_avail_bufcnt t = fw_avail_bufcnt s \<and> \<not> now \<and> \<not> aicwf_is_framequeue_empty (txq t) \<and>
        int (length (ps @ [x])) < fw_avail_bufcnt t - 2) \<or>
     (tx_ok t [] \<and> (\<exists>w. wire t = wire s @ [w] \<and> carries (chipid s) w (ps @ [x])) \<and> fw_avail_bufcnt t < fw_avail_bufcnt s)"
    using send_step [OF i(1,2) assms(2) i(4), where e = e and now = now] unfolding t_def by metis
  from x(7) show thesis
  proof (elim disjE conjE exE)
    assume a: "tx_ok t (ps @ [x])" "wire t = wire s" "fw_avail_bufcnt t = fw_avail_bufcnt s" "\<not> now" "\<not> aicwf_is_framequeue_empty (txq t)"
      "int (length (ps @ [x])) < fw_avail_bufcnt t - 2"
    have "drained e s r ps" if d: "drained e t r (ps @ [x])" for r
    proof -
      obtain ws pss xs where "wire r = wire t @ ws" "transfers e (chipid t) ws pss" "concat pss = (ps @ [x]) @ xs" "taken (txq t) xs (txq r)"
        "consumed r = consumed t @ unconfirmed xs" "tx_ok r []" "aicwf_is_framequeue_empty (txq r) \<or> cmd_txstate t"
        "cmd_txstate r = cmd_txstate t" "bus_up r = bus_up t" "chipid r = chipid t" using d unfolding drained_def by blast
      then show ?thesis unfolding drained_def using x a i(2)
        by (intro exI [of _ ws] exI [of _ pss] exI [of _ "x # xs"]) (simp add: unconfirmed_Cons [of x xs])
    qed
    then show thesis by (intro that [of x "ps @ [x]"]) (use x(1-6) a i in \<open>simp_all add: loop_inv_def\<close>)
  next
    fix w
    assume a: "tx_ok t []" "wire t = wire s @ [w]" "carries (chipid s) w (ps @ [x])" "fw_avail_bufcnt t < fw_avail_bufcnt s"
    have n: "int (length (ps @ [x])) \<le> tx_aggr_counter e - 2" using i(3,4) by auto
    have "drained e s r ps" if d: "drained e t r []" for r
    proof -
      obtain ws pss xs where "wire r = wire t @ ws" "transfers e (chipid t) ws pss" "concat pss = [] @ xs" "taken (txq t) xs (txq r)"
        "consumed r = consumed t @ unconfirmed xs" "tx_ok r []" "aicwf_is_framequeue_empty (txq r) \<or> cmd_txstate t"
        "cmd_txstate r = cmd_txstate t" "bus_up r = bus_up t" "chipid r = chipid t" using d unfolding drained_def by blast
      then show ?thesis unfolding drained_def transfers_def using x a i(2) n
        by (intro exI [of _ "w # ws"] exI [of _ "(ps @ [x]) # pss"] exI [of _ "x # xs"]) (simp add: unconfirmed_Cons [of x xs])
    qed
    then show thesis by (intro that [of x "[]"]) (use x(1-6) a i in \<open>simp_all add: loop_inv_def\<close>)
  qed
qed

lemma tx_data_loop_drains:
  assumes "tx_data_loop e s = Some r" "loop_inv e s ps"
  shows "drained e s r ps"
proof -
  have "\<forall>ps. loop_inv e s ps \<longrightarrow> drained e s r ps"
  proof (rule tx_data_loop.raw_induct [OF _ assms(1), where P = "\<lambda>e s r. \<forall>ps. loop_inv e s ps \<longrightarrow> drained e s r ps"], intro allI impI)
    fix loop e s r ps
    assume IH: "\<And>e s r. loop e s = Some r \<Longrightarrow> \<forall>ps. loop_inv e s ps \<longrightarrow> drained e s r ps"
      and step: "(if aicwf_is_framequeue_empty (txq s) then Some s
        else if \<not> bus_up s then Some s
        else if fw_avail_bufcnt s \<le> DATA_FLOW_CTRL_THRESH then if cmd_txstate s then Some s else loop e (poll_bufcnt e s)
        else if cmd_txstate s then Some (aicwf_sdio_send e True s) else loop e (aicwf_sdio_send e False s)) = Some r"
      and i: "loop_inv e s ps"
    have up: "bus_up s" using i by (simp add: loop_inv_def)
    consider (empty) "aicwf_is_framequeue_empty (txq s)" | (low) "\<not> aicwf_is_framequeue_empty (txq s)" "fw_avail_bufcnt s \<le> 2"
      | (send) "\<not> aicwf_is_framequeue_empty (txq s)" "2 < fw_avail_bufcnt s" by linarith
    then show "drained e s r ps"
    proof cases
      case empty
      then show ?thesis using step i by (auto simp: loop_inv_def intro: drained_stop)
    next
      case low
      have ps: "ps = []" "tx_ok s []" using i low by (auto simp: loop_inv_def)
      show ?thesis
      proof (cases "cmd_txstate s")
        case True
        then show ?thesis using step low up ps by (auto simp: DATA_FLOW_CTRL_THRESH_def intro: drained_stop)
      next
        case False
        then have "loop e (poll_bufcnt e s) = Some r" using step low up by (simp add: DATA_FLOW_CTRL_THRESH_def)
        moreover have "loop_inv e (poll_bufcnt e s) []" using ps up poll_bound by (simp add: loop_inv_def poll_fields)
        ultimately have "drained e (poll_bufcnt e s) r []" using IH by blast
        then show ?thesis by (simp add: poll_fields ps)
      qed
    next
      case send
      show ?thesis
      proof (cases "cmd_txstate s")
        case True
        then have r: "r = aicwf_sdio_send e True s" using step send up by (simp add: DATA_FLOW_CTRL_THRESH_def)
        obtain x qs where x: "loop_inv e r qs" "True \<Longrightarrow> qs = []" "\<And>r'. drained e r r' qs \<Longrightarrow> drained e s r' ps" "cmd_txstate r = cmd_txstate s"
          using send_inv [OF i send, where now = True] unfolding r by metis
        then have "drained e r r qs" using True by (auto simp: loop_inv_def intro!: drained_stop)
        then show ?thesis by (rule x(3))
      next
        case False
        then have l: "loop e (aicwf_sdio_send e False s) = Some r" using step send up by (simp add: DATA_FLOW_CTRL_THRESH_def)
        obtain x qs where x: "loop_inv e (aicwf_sdio_send e False s) qs" "\<And>r'. drained e (aicwf_sdio_send e False s) r' qs \<Longrightarrow> drained e s r' ps"
          using send_inv [OF i send, where now = False] by metis
        then show ?thesis using IH [OF l] by blast
      qed
    qed
  qed
  then show ?thesis using assms(2) by blast
qed

subsection \<open>When the loop ends\<close>

text \<open>The \<open>k\<close>-th answer of the flow control from the \<open>n\<close>-th register read on.\<close>

fun fc_answer :: "sdio_env \<Rightarrow> AICWF_IC \<Rightarrow> u8 \<Rightarrow> nat \<Rightarrow> nat \<Rightarrow> int" where
  "fc_answer e c th n 0 = fst (flow_ctrl_loop e c th 0 n)"
| "fc_answer e c th n (Suc k) = fc_answer e c th (snd (flow_ctrl_loop e c th 0 n)) k"

text \<open>Whenever the flow control is asked often enough, it finds more free buffers than it holds back.\<close>

definition card_answers :: "sdio_env \<Rightarrow> AICWF_IC \<Rightarrow> bool" where
  "card_answers e c \<longleftrightarrow> (\<forall>n. \<exists>k. DATA_FLOW_CTRL_THRESH < fc_answer e c 2 n k)"

lemma poll_answer:
  "fw_avail_bufcnt (poll_bufcnt e s) = fc_answer e (chipid s) 2 (n_polls s) 0" "chipid (poll_bufcnt e s) = chipid s"
  "fc_answer e (chipid s) 2 (n_polls (poll_bufcnt e s)) k = fc_answer e (chipid s) 2 (n_polls s) (Suc k)"
  by (simp_all add: poll_bufcnt_def aicwf_sdio_flow_ctrl_def split: prod.splits)

lemma poll_inv: "loop_inv e s [] \<Longrightarrow> loop_inv e (poll_bufcnt e s) []" using poll_bound by (simp add: loop_inv_def poll_fields)

lemma poll_until:
  assumes "\<And>s. loop_inv e s [] \<Longrightarrow> 2 < fw_avail_bufcnt s \<Longrightarrow> txq s = q \<Longrightarrow> chipid s = c \<Longrightarrow> \<exists>r. tx_data_loop e s = Some r"
    "loop_inv e s []" "txq s = q" "chipid s = c" "2 < fc_answer e c 2 (n_polls s) k"
  shows "\<exists>r. tx_data_loop e (poll_bufcnt e s) = Some r"
  using assms(2-5)
proof (induction k arbitrary: s)
  case 0
  then show ?case by (intro assms(1) poll_inv) (simp_all add: poll_answer poll_fields)
next
  case (Suc k)
  define t where "t = poll_bufcnt e s"
  have t: "loop_inv e t []" "txq t = q" "chipid t = c" using Suc.prems poll_inv by (simp_all add: t_def poll_fields poll_answer)
  have "\<exists>r. tx_data_loop e (poll_bufcnt e t) = Some r"
    using Suc.prems(3,4) by (intro Suc.IH t) (simp add: t_def poll_answer flip: Suc.prems(3))
  then have "\<exists>r. tx_data_loop e t = Some r" if "fw_avail_bufcnt t \<le> 2" using that by (subst tx_data_loop.simps) (simp add: DATA_FLOW_CTRL_THRESH_def)
  then show ?case using assms(1) [OF t(1) _ t(2,3)] by (cases "fw_avail_bufcnt t \<le> 2") (simp_all add: t_def)
qed

lemma tx_data_loop_returns:
  "loop_inv e s ps \<Longrightarrow> card_answers e (chipid s) \<Longrightarrow> \<exists>r. tx_data_loop e s = Some r"
proof (induction "unat (qcnt (txq s))" arbitrary: s ps rule: less_induct)
  case less
  have up: "bus_up s" "queued_ok (txq s)" using less.prems(1) by (simp_all add: loop_inv_def tx_ok_def)
  have sends: "\<exists>r. tx_data_loop e u = Some r"
    if u: "loop_inv e u us" "2 < fw_avail_bufcnt u" "txq u = txq s" "chipid u = chipid s" for u us
  proof (cases "aicwf_is_framequeue_empty (txq u) \<or> cmd_txstate u")
    case True
    then show ?thesis using u(1,2) by (subst tx_data_loop.simps) (auto simp: loop_inv_def DATA_FLOW_CTRL_THRESH_def)
  next
    case False
    then obtain x qs where x: "aicwf_frame_dequeue (txq u) = (Some x, txq (aicwf_sdio_send e False u))" "loop_inv e (aicwf_sdio_send e False u) qs"
      "chipid (aicwf_sdio_send e False u) = chipid u" using send_inv [OF u(1) _ u(2), where now = False] by metis
    have "unat (qcnt (txq (aicwf_sdio_send e False u))) < unat (qcnt (txq s))" using deq_queued(3) [OF up(2) x(1) [unfolded u(3)]] by linarith
    then have "\<exists>r. tx_data_loop e (aicwf_sdio_send e False u) = Some r" using x(2,3) u(4) less.prems(2) by (intro less.hyps) simp_all
    then show ?thesis using False u by (subst tx_data_loop.simps) (auto simp: loop_inv_def DATA_FLOW_CTRL_THRESH_def)
  qed
  show ?case
  proof (cases "2 < fw_avail_bufcnt s")
    case True
    then show ?thesis using sends [OF less.prems(1)] by simp
  next
    case False
    show ?thesis
    proof (cases "aicwf_is_framequeue_empty (txq s) \<or> cmd_txstate s")
      case True
      then show ?thesis using False by (subst tx_data_loop.simps) (auto simp: DATA_FLOW_CTRL_THRESH_def)
    next
      case busy: False
      have i: "loop_inv e s []" using less.prems(1) False by (auto simp: loop_inv_def)
      obtain k where "2 < fc_answer e (chipid s) 2 (n_polls s) k" using less.prems(2) by (auto simp: card_answers_def DATA_FLOW_CTRL_THRESH_def)
      then have "\<exists>r. tx_data_loop e (poll_bufcnt e s) = Some r" using i sends by (intro poll_until) simp_all
      then show ?thesis using busy False up(1) by (subst tx_data_loop.simps) (simp add: DATA_FLOW_CTRL_THRESH_def)
    qed
  qed
qed

text \<open>While the answers stay at or below the threshold, a queue with packets keeps the loop polling.\<close>

lemma tx_data_loop_hangs:
  assumes "\<not> aicwf_is_framequeue_empty (txq s)" "\<not> cmd_txstate s" "bus_up s" "fw_avail_bufcnt s \<le> 2" "\<forall>k. fc_answer e (chipid s) 2 (n_polls s) k \<le> 2"
  shows "tx_data_loop e s = None"
proof (rule ccontr)
  define bad where "bad = (\<lambda>e (s :: sdio_tx). \<not> aicwf_is_framequeue_empty (txq s) \<and> \<not> cmd_txstate s \<and> bus_up s \<and> fw_avail_bufcnt s \<le> 2 \<and>
    (\<forall>k. fc_answer e (chipid s) 2 (n_polls s) k \<le> 2))"
  assume "tx_data_loop e s \<noteq> None"
  then obtain r where r: "tx_data_loop e s = Some r" by blast
  have "\<not> bad e s"
  proof (rule tx_data_loop.raw_induct [OF _ r, where P = "\<lambda>e s r. \<not> bad e s"], rule notI)
    fix loop e s r
    assume IH: "\<And>e s r. loop e s = Some r \<Longrightarrow> \<not> bad e s" and b: "bad e s"
      and step: "(if aicwf_is_framequeue_empty (txq s) then Some s
        else if \<not> bus_up s then Some s
        else if fw_avail_bufcnt s \<le> DATA_FLOW_CTRL_THRESH then if cmd_txstate s then Some s else loop e (poll_bufcnt e s)
        else if cmd_txstate s then Some (aicwf_sdio_send e True s) else loop e (aicwf_sdio_send e False s)) = Some r"
    have "loop e (poll_bufcnt e s) = Some r" using step b by (simp add: bad_def DATA_FLOW_CTRL_THRESH_def)
    moreover have "fc_answer e (chipid s) 2 (n_polls s) 0 \<le> 2" "\<forall>k. fc_answer e (chipid s) 2 (n_polls s) (Suc k) \<le> 2"
      using b unfolding bad_def by blast+
    then have "bad e (poll_bufcnt e s)" using b by (simp add: bad_def poll_fields poll_answer del: fc_answer.simps)
    ultimately show False using IH by blast
  qed
  then show False using assms by (simp add: bad_def)
qed

end
