(* ===== verification/Sdio_Bus.thy ===== *)
theory Sdio_Bus
  imports Sdio_Run
begin

text \<open>
  The SDIO transmit path from its callers to the bus: histories of \<open>aicwf_sdio_bus_txdata\<close>,
  \<open>aicwf_sdio_bus_txmsg\<close> and the transmit thread, what they deliver, when the thread's work function
  returns, and what the command path does with a command the firmware has no room for.
\<close>

subsection \<open>Commands leave the data path alone\<close>

lemma tx_msg_cases:
  obtains m n where "fst (aicwf_sdio_tx_msg e s) = s\<lparr>cmd_buf := m, n_polls := n\<rparr>"
  | m n k ok where "fst (aicwf_sdio_tx_msg e s) = s\<lparr>cmd_buf := m, n_polls := n, wire := wire s @ [map m [0..<k]], cmd_txstate := False, cmd_tx_succ := ok\<rparr>"
proof -
  obtain k m where f: "tx_msg_frame (cmd_buf s) (cmd_len s) = (k, m)" by (cases "tx_msg_frame (cmd_buf s) (cmd_len s)")
  obtain b n b1 n1 where p: "aicwf_sdio_flow_ctrl_msg e (chipid s) (n_polls s) = (b, n)" "tx_msg_wait e (chipid s) k 10 b n = (b1, n1)"
    by (metis prod.exhaust)
  define R where "R = (\<lambda>i. s\<lparr>cmd_buf := m, n_polls := i, wire := wire s @ [map m [0..<k]], cmd_txstate := False, cmd_tx_succ := \<not> wr_fails e (length (wire s))\<rparr>)"
  define Q where "Q = (\<lambda>i. s\<lparr>cmd_buf := m, n_polls := i\<rparr>)"
  have sent: "msg_sent (aicwf_sdio_send_pkt e m k (Q i)) = (R i, \<not> wr_fails e (length (wire s)))" for i
    by (simp add: msg_sent_def aicwf_sdio_send_pkt_def R_def Q_def)
  have q: "s\<lparr>cmd_buf := m\<rparr> = Q (n_polls s)" "(Q (n_polls s))\<lparr>n_polls := n1\<rparr> = Q n1" "chipid (Q i) = chipid s" "n_polls (Q i) = i" for i
    by (simp_all add: Q_def)
  have "fst (aicwf_sdio_tx_msg e s) \<in> {Q n1, Q (n_polls s), R n1, R (n_polls s)}"
    unfolding aicwf_sdio_tx_msg_def f Let_def prod.case q p sent by (simp split: if_split)
  then obtain i where "fst (aicwf_sdio_tx_msg e s) = Q i \<or> fst (aicwf_sdio_tx_msg e s) = R i" by blast
  then show thesis using that unfolding Q_def R_def by blast
qed

lemma tx_msg_keeps:
  fixes e :: sdio_env
  defines "t s \<equiv> fst (aicwf_sdio_tx_msg e s)"
  shows "tx_ok (t s) ps = tx_ok s ps" "txq (t s) = txq s" "chipid (t s) = chipid s" "bus_up (t s) = bus_up s" "consumed (t s) = consumed s"
    "wire (t s) = wire s \<or> (\<exists>w. wire (t s) = wire s @ [w])"
  unfolding t_def by (rule tx_msg_cases [of e s]; simp add: tx_ok_def aggr_view_def; fail)+

subsection \<open>The work function\<close>

lemma tx_process_drained:
  assumes "aicwf_sdio_tx_process e s = Some r" "tx_ok s []" "bus_up s"
  defines "s1 \<equiv> (if cmd_txstate s then fst (aicwf_sdio_tx_msg e (s\<lparr>sdio_active := True\<rparr>)) else s\<lparr>sdio_active := True\<rparr>)"
  shows "drained e s1 r []" "tx_ok s1 []" "txq s1 = txq s" "chipid s1 = chipid s" "bus_up s1" "consumed s1 = consumed s"
    "\<exists>cmd. wire s1 = wire s @ cmd \<and> length cmd \<le> (if cmd_txstate s then 1 else 0)"
proof -
  have act: "sdio_active s1" by (simp add: s1_def) (rule tx_msg_cases [of e "s\<lparr>sdio_active := True\<rparr>"]; simp)
  have t: "tx_ok (s\<lparr>sdio_active := True\<rparr>) [] = tx_ok s []" by (simp add: tx_ok_def aggr_view_def)
  show k: "tx_ok s1 []" "txq s1 = txq s" "chipid s1 = chipid s" "bus_up s1" "consumed s1 = consumed s"
    using assms(2,3) by (simp_all add: s1_def tx_msg_keeps t)
  show "\<exists>cmd. wire s1 = wire s @ cmd \<and> length cmd \<le> (if cmd_txstate s then 1 else 0)"
    using tx_msg_keeps(6) [of e "s\<lparr>sdio_active := True\<rparr>"] by (auto simp: s1_def)
  have r: "tx_data e s1 = Some r" using assms(1,3) by (simp add: aicwf_sdio_tx_process_def s1_def Let_def)
  show "drained e s1 r []"
  proof (cases "aicwf_is_framequeue_empty (txq s1)")
    case True
    then have "r = s1" using r act by (simp add: tx_data_def tx_data_loop.simps)
    then show ?thesis using drained_stop [OF k(1)] True by simp
  next
    case False
    then have "tx_data_loop e (poll_bufcnt e s1) = Some r" using r act by (simp add: tx_data_def)
    moreover have "loop_inv e (poll_bufcnt e s1) []" using k poll_bound by (simp add: loop_inv_def poll_fields)
    ultimately show ?thesis using tx_data_loop_drains by (simp only: poll_fields(2) [of e s1, symmetric])
  qed
qed

lemma tx_process_some:
  assumes "tx_ok s []" "bus_up s" "card_answers e (chipid s)"
  shows "\<exists>r. aicwf_sdio_tx_process e s = Some r"
proof -
  define s1 where "s1 = (if cmd_txstate s then fst (aicwf_sdio_tx_msg e (s\<lparr>sdio_active := True\<rparr>)) else s\<lparr>sdio_active := True\<rparr>)"
  define t where "t = (if aicwf_is_framequeue_empty (txq s1) then s1 else poll_bufcnt e s1)"
  have act: "sdio_active s1" by (simp add: s1_def) (rule tx_msg_cases [of e "s\<lparr>sdio_active := True\<rparr>"]; simp)
  have p: "aicwf_sdio_tx_process e s = tx_data_loop e t" using assms(2) act by (simp add: aicwf_sdio_tx_process_def tx_data_def t_def s1_def Let_def)
  have "tx_ok (s\<lparr>sdio_active := True\<rparr>) []" using assms(1) by (simp add: tx_ok_def aggr_view_def)
  then have k: "tx_ok s1 []" "bus_up s1" "chipid s1 = chipid s" using assms(2) by (simp_all add: s1_def tx_msg_keeps)
  show ?thesis
  proof (cases "aicwf_is_framequeue_empty (txq s1)")
    case True
    then show ?thesis unfolding p t_def by (subst tx_data_loop.simps) simp
  next
    case False
    then have "loop_inv e t []" using k poll_bound by (simp add: loop_inv_def t_def poll_fields)
    then show ?thesis using tx_data_loop_returns assms(3) False k(3) unfolding p by (simp add: t_def poll_answer)
  qed
qed

subsection \<open>Histories\<close>

datatype bus_op = Txdata nat tx_pkt | Txmsg "nat \<Rightarrow> u8" nat | Process

definition sdio_tx_init :: "AICWF_IC \<Rightarrow> sdio_tx" where
  "sdio_tx_init c = \<lparr>chipid = c, bus_up = True, sdio_active = False, fw_avail_bufcnt = 0, cmd_buf = (\<lambda>i. 0), cmd_len = 0,
     cmd_txstate = False, cmd_tx_succ = False, tx_pktcnt = 0, txq = aicwf_frame_queue_init 8 TXQLEN,
     aggr_buf = (\<lambda>i. 0), aggr_tail = 0, aggr_count = 0, n_polls = 0, wire = [], consumed = []\<rparr>"

text \<open>The state and the packets accepted, with their priorities.\<close>

fun bus_run :: "sdio_env \<Rightarrow> bus_op list \<Rightarrow> sdio_tx \<times> (nat \<times> tx_pkt) list \<Rightarrow> (sdio_tx \<times> (nat \<times> tx_pkt) list) option" where
  "bus_run e [] (s, acc) = Some (s, acc)"
| "bus_run e (Txdata pr p # ops) (s, acc) = (case aicwf_sdio_bus_txdata pr p s of (s, r) \<Rightarrow>
     bus_run e ops (s, if r = 0 then acc @ [(pr mod 8, p)] else acc))"
| "bus_run e (Txmsg m n # ops) (s, acc) = bus_run e ops (fst (aicwf_sdio_bus_txmsg m n s), acc)"
| "bus_run e (Process # ops) (s, acc) = (case aicwf_sdio_tx_process e s of None \<Rightarrow> None | Some s \<Rightarrow> bus_run e ops (s, acc))"

definition ops_ok :: "bus_op list \<Rightarrow> bool" where
  "ops_ok = list_all (\<lambda>a. case a of Txdata pr p \<Rightarrow> pkt_ok p | _ \<Rightarrow> True)"

text \<open>The transfers on the bus: \<open>None\<close> a command, \<open>Some ps\<close> an aggregate.\<close>

definition transfer_of :: "sdio_env \<Rightarrow> AICWF_IC \<Rightarrow> u8 list \<Rightarrow> tx_pkt list option \<Rightarrow> bool" where
  "transfer_of e c w g = (case g of None \<Rightarrow> True | Some ps \<Rightarrow> carries c w ps \<and> int (length ps) \<le> tx_aggr_counter e - 2)"

definition bus_packets :: "tx_pkt list option list \<Rightarrow> tx_pkt list" where
  "bus_packets gs = concat (map (\<lambda>g. case g of None \<Rightarrow> [] | Some ps \<Rightarrow> ps) gs)"

definition delivered :: "sdio_env \<Rightarrow> AICWF_IC \<Rightarrow> sdio_tx \<Rightarrow> (nat \<times> tx_pkt) list \<Rightarrow> tx_pkt list option list \<Rightarrow> (nat \<times> tx_pkt) list \<Rightarrow> bool" where
  "delivered e c s acc gs ds \<longleftrightarrow> chipid s = c \<and> bus_up s \<and> tx_ok s [] \<and> list_all2 (transfer_of e c) (wire s) gs \<and>
     bus_packets gs = map snd ds \<and> (\<forall>p. at_prio p acc = at_prio p ds @ fq_items (txq s) p)"

lemma at_prio_append [simp]: "at_prio p (xs @ ys) = at_prio p xs @ at_prio p ys" by (simp add: at_prio_def)

lemma taken_prios:
  "taken q xs q' \<Longrightarrow> fq_ok q \<Longrightarrow> \<exists>ds. map snd ds = xs \<and> (\<forall>p. fq_items q p = at_prio p ds @ fq_items q' p)"
proof (induction xs arbitrary: q)
  case Nil
  then show ?case by (intro exI [of _ "[]"]) simp
next
  case (Cons x xs)
  then obtain q1 where d: "aicwf_frame_dequeue q = (Some x, q1)" "taken q1 xs q'" by (auto split: prod.splits option.splits)
  obtain k where k: "fq_items q = (fq_items q1)(k := x # fq_items q1 k)" using deq_spec(5) [OF Cons.prems(2) d(1)] by blast
  obtain ds where "map snd ds = xs" "\<forall>p. fq_items q1 p = at_prio p ds @ fq_items q' p"
    using Cons.IH [OF d(2) deq_spec(1) [OF Cons.prems(2) d(1)]] by blast
  then show ?case by (intro exI [of _ "(k, x) # ds"]) (simp add: k)
qed

lemma list_all2_prefix: "list_all2 P ws gs \<Longrightarrow> list_all2 P (ws @ us) (gs @ hs) = list_all2 P us hs"
  by (simp add: list_all2_append list_all2_lengthD)

lemma process_delivered:
  assumes "delivered e c s acc gs ds" "aicwf_sdio_tx_process e s = Some r"
  shows "\<exists>gs' ds'. delivered e c r acc gs' ds'"
proof -
  have i: "tx_ok s []" "bus_up s" "chipid s = c" "list_all2 (transfer_of e c) (wire s) gs" "bus_packets gs = map snd ds"
    "\<forall>p. at_prio p acc = at_prio p ds @ fq_items (txq s) p" using assms(1) by (auto simp: delivered_def)
  note d = tx_process_drained [OF assms(2) i(1,2)]
  obtain cmd ws pss xs where w: "wire r = (wire s @ cmd) @ ws" "transfers e c ws pss" "concat pss = xs" "taken (txq s) xs (txq r)"
    "tx_ok r []" "bus_up r" "chipid r = c"
    using d(1,3-5,7) i(3) unfolding drained_def by auto
  have "fq_ok (txq s)" using i(1) by (simp add: tx_ok_def queued_ok_def)
  then obtain es where es: "map snd es = xs" "\<forall>p. fq_items (txq s) p = at_prio p es @ fq_items (txq r) p" using taken_prios w(4) by blast
  have "list_all2 (transfer_of e c) (cmd @ ws) (replicate (length cmd) None @ map Some pss)"
    using w(2) unfolding transfers_def
    by (intro list_all2_appendI) (simp_all add: list_all2_map2 transfer_of_def list_all2_conv_all_nth)
  moreover have "bus_packets (gs @ replicate (length cmd) None @ map Some pss) = map snd (ds @ es)"
    using i(5) w(3) es(1) by (simp add: bus_packets_def concat_replicate_trivial map_replicate comp_def del: map_replicate_const)
  ultimately show ?thesis using i(4,6) w es
    by (intro exI [of _ "gs @ replicate (length cmd) None @ map Some pss"] exI [of _ "ds @ es"]) (simp add: delivered_def list_all2_prefix)
qed

lemma txdata_delivered:
  assumes "delivered e c s acc gs ds" "pkt_ok p" "aicwf_sdio_bus_txdata pr p s = (t, r)"
  shows "delivered e c t (if r = 0 then acc @ [(pr mod 8, p)] else acc) gs ds"
proof -
  have i: "tx_ok s []" "bus_up s" "\<forall>k. at_prio k acc = at_prio k ds @ fq_items (txq s) k" using assms(1) by (auto simp: delivered_def)
  have q: "queued_ok (txq s)" "fq_ok (txq s)" "pr mod 8 < unat (num_prio (txq s))" "\<forall>k. list_all pkt_ok (fq_items (txq s) k)"
    using i(1) by (auto simp: tx_ok_def queued_ok_items)
  obtain q' b where en: "aicwf_frame_enq (txq s) (pr mod 8) p = (q', b)" by (cases "aicwf_frame_enq (txq s) (pr mod 8) p")
  show ?thesis
  proof (cases b)
    case True
    then have en': "aicwf_frame_enq (txq s) (pr mod 8) p = (q', True)" using en by simp
    note e = enq_spec [OF q(2,3) en']
    have t: "t = s\<lparr>txq := q', tx_pktcnt := tx_pktcnt s + 1\<rparr>" "r = 0" using assms(3) i(2) en True by (simp_all add: aicwf_sdio_bus_txdata_def)
    have "queued_ok q'" using q e assms(2) by (auto simp: queued_ok_items)
    then have "tx_ok t []" using i(1) e(5) by (simp add: t tx_ok_def)
    then show ?thesis using assms(1) i(3) e(4) by (simp add: delivered_def t)
  next
    case False
    then have "q' = txq s" using en fq.enq_full by metis
    then have t: "t = s\<lparr>consumed := consumed s @ [pkt_id p]\<rparr>" "r \<noteq> 0"
      using assms(3) i(2) en False by (auto simp: aicwf_sdio_bus_txdata_def ENOSR_def)
    have "tx_ok t [] = tx_ok s []" by (simp add: t tx_ok_def)
    then show ?thesis using assms(1) t(2) by (simp add: delivered_def t)
  qed
qed

lemma txmsg_delivered: "delivered e c s acc gs ds \<Longrightarrow> delivered e c (fst (aicwf_sdio_bus_txmsg m n s)) acc gs ds"
  by (simp add: delivered_def aicwf_sdio_bus_txmsg_def tx_ok_def aggr_view_def Let_def)

lemma bus_run_delivered:
  "bus_run e ops (s, acc) = Some (t, acc') \<Longrightarrow> ops_ok ops \<Longrightarrow> delivered e c s acc gs ds \<Longrightarrow> \<exists>gs ds. delivered e c t acc' gs ds"
proof (induction ops arbitrary: s acc gs ds)
  case (Cons a ops)
  show ?case
  proof (cases a)
    case (Txdata pr p)
    obtain s1 r where d: "aicwf_sdio_bus_txdata pr p s = (s1, r)" by (cases "aicwf_sdio_bus_txdata pr p s")
    show ?thesis using Cons.IH [OF _ _ txdata_delivered [OF Cons.prems(3) _ d]] Cons.prems(1,2) by (simp add: Txdata d ops_ok_def)
  next
    case (Txmsg m n)
    show ?thesis using Cons.IH [OF _ _ txmsg_delivered [OF Cons.prems(3)]] Cons.prems(1,2) by (simp add: Txmsg ops_ok_def)
  next
    case Process
    then obtain s1 where d: "aicwf_sdio_tx_process e s = Some s1" "bus_run e ops (s1, acc) = Some (t, acc')"
      using Cons.prems(1) by (auto split: option.splits)
    obtain gs1 ds1 where "delivered e c s1 acc gs1 ds1" using process_delivered [OF Cons.prems(3) d(1)] by blast
    then show ?thesis using Cons.IH [OF d(2)] Cons.prems(2) by (simp add: Process ops_ok_def)
  qed
qed auto

lemma init_delivered: "delivered e c (sdio_tx_init c) [] [] []"
proof -
  have "fq_ok (aicwf_frame_queue_init 8 TXQLEN :: tx_pkt frame_queue)" by (rule init_ok) simp_all
  then have "queued_ok (aicwf_frame_queue_init 8 TXQLEN :: tx_pkt frame_queue)"
    by (simp add: queued_ok_def del: replicate.simps) (simp add: aicwf_frame_queue_init_def unat_of_nat_small)
  moreover have "fq_items (aicwf_frame_queue_init 8 TXQLEN :: tx_pkt frame_queue) p = []" for p by (simp add: fq_items_def aicwf_frame_queue_init_def)
  moreover have "qcnt (aicwf_frame_queue_init 8 TXQLEN :: tx_pkt frame_queue) = 0" by (simp add: aicwf_frame_queue_init_def)
  ultimately show ?thesis
    by (simp add: delivered_def sdio_tx_init_def tx_ok_def aggr_view_def sdio_frames_def bus_packets_def)
qed

subsection \<open>Properties\<close>


text \<open>C23. One run of the transmit thread with packets queued: it returns, and with no command pending
  leaves the queue empty, whenever the card keeps answering with more free buffers than the
  threshold; when it never does, as when every read of the register fails, the run does not end.\<close>

theorem tx_process_returns:
  assumes "tx_ok s []" "bus_up s" "\<not> aicwf_is_framequeue_empty (txq s)" "\<not> cmd_txstate s"
  shows "if card_answers e (chipid s) then \<exists>r. aicwf_sdio_tx_process e s = Some r \<and> aicwf_is_framequeue_empty (txq r) \<and> aggr_count r = 0
    else (\<forall>k. fc_answer e (chipid s) 2 (n_polls s) k \<le> DATA_FLOW_CTRL_THRESH) \<longrightarrow> aicwf_sdio_tx_process e s = None"
proof (cases "card_answers e (chipid s)")
  case True
  define t where "t = poll_bufcnt e (s\<lparr>sdio_active := True\<rparr>)"
  have p: "aicwf_sdio_tx_process e s = tx_data_loop e t" using assms(2-4) by (simp add: aicwf_sdio_tx_process_def tx_data_def t_def Let_def)
  have "tx_ok (s\<lparr>sdio_active := True\<rparr>) []" using assms(1) by (simp add: tx_ok_def aggr_view_def)
  then have "loop_inv e t []" using poll_bound assms(2) by (simp add: loop_inv_def t_def poll_fields)
  moreover obtain r where r: "tx_data_loop e t = Some r" using tx_process_some [OF assms(1,2) True] p by auto
  ultimately have "drained e t r []" using tx_data_loop_drains by blast
  then have "tx_ok r []" "aicwf_is_framequeue_empty (txq r)" using assms(4) by (auto simp: drained_def t_def poll_fields)
  then show ?thesis using True r p by (simp add: tx_ok_def)
next
  case False
  show ?thesis
  proof (simp only: False if_False, rule impI)
    assume low: "\<forall>k. fc_answer e (chipid s) 2 (n_polls s) k \<le> DATA_FLOW_CTRL_THRESH"
    define u where "u = s\<lparr>sdio_active := True\<rparr>"
    have u: "chipid u = chipid s" "n_polls u = n_polls s" "txq u = txq s" "cmd_txstate u = cmd_txstate s" "bus_up u" using assms(2) by (simp_all add: u_def)
    have "fc_answer e (chipid s) 2 (n_polls s) 0 \<le> 2" "\<forall>k. fc_answer e (chipid s) 2 (n_polls s) (Suc k) \<le> 2"
      using low unfolding DATA_FLOW_CTRL_THRESH_def by blast+
    then have "tx_data_loop e (poll_bufcnt e u) = None"
      using assms(2-4) by (intro tx_data_loop_hangs) (simp_all add: poll_answer poll_fields u del: fc_answer.simps flip: u(1,2))
    then show "aicwf_sdio_tx_process e s = None" using assms(2-4) by (simp add: aicwf_sdio_tx_process_def tx_data_def u_def Let_def)
  qed
qed

subsection \<open>The command path\<close>

definition room :: "int \<Rightarrow> nat \<Rightarrow> bool" where "room b len \<longleftrightarrow> 0 < b \<and> int len \<le> b * BUFFER_SIZE"

lemma tx_msg_wait_spec:
  "tx_msg_wait e c len m (fc_answer e c 0 n 0) (snd (flow_ctrl_loop e c 0 0 n)) = (b, n') \<Longrightarrow>
    \<exists>k \<le> m. b = fc_answer e c 0 n k \<and> (\<forall>j < k. \<not> room (fc_answer e c 0 n j) len) \<and> (k < m \<longrightarrow> room b len)"
proof (induction m arbitrary: n)
  case (Suc m)
  show ?case
  proof (cases "room (fc_answer e c 0 n 0) len")
    case True
    then have "b = fc_answer e c 0 n 0" using Suc.prems by (auto simp: room_def)
    then show ?thesis using True by (intro exI [of _ 0]) simp
  next
    case False
    obtain b1 n1 where p: "flow_ctrl_loop e c 0 0 (snd (flow_ctrl_loop e c 0 0 n)) = (b1, n1)" by fastforce
    have "tx_msg_wait e c len m (fc_answer e c 0 (snd (flow_ctrl_loop e c 0 0 n)) 0) (snd (flow_ctrl_loop e c 0 0 (snd (flow_ctrl_loop e c 0 0 n)))) = (b, n')"
      using Suc.prems False by (auto simp: room_def aicwf_sdio_flow_ctrl_msg_def p split: if_splits)
    from Suc.IH [OF this] obtain k where k: "k \<le> m" "b = fc_answer e c 0 n (Suc k)" "\<forall>j < k. \<not> room (fc_answer e c 0 n (Suc j)) len" "k < m \<longrightarrow> room b len" by auto
    have "\<not> room (fc_answer e c 0 n j) len" if "j < Suc k" for j using that False k(3) by (cases j) auto
    then show ?thesis using k by (intro exI [of _ "Suc k"]) simp
  qed
qed (auto intro!: exI [of _ 0])

text \<open>On the chips with flow control of commands, a command goes out exactly when one of the first
  eleven answers of the flow control has room for it and the first one that has is not an exact fit:
  the wait ends on an exact fit, the transmission then refuses it, and the command stays pending.\<close>

theorem tx_msg_sends_iff:
  assumes "chipid s = PRODUCT_ID_AIC8801 \<or> chipid s = PRODUCT_ID_AIC8800D80" "cmd_txstate s" "tx_msg_frame (cmd_buf s) (cmd_len s) = (len, m)"
  shows "(\<exists>k \<le> 10. (\<forall>j < k. \<not> room (fc_answer e (chipid s) 0 (n_polls s) j) len) \<and> room (fc_answer e (chipid s) 0 (n_polls s) k) len \<and>
       int len \<noteq> fc_answer e (chipid s) 0 (n_polls s) k * BUFFER_SIZE) =
      (wire (fst (aicwf_sdio_tx_msg e s)) = wire s @ [map m [0..<len]] \<and> \<not> cmd_txstate (fst (aicwf_sdio_tx_msg e s)))"
    (is "?sends = ?sent")
proof -
  obtain b n b1 n1 where p: "aicwf_sdio_flow_ctrl_msg e (chipid s) (n_polls s) = (b, n)" "tx_msg_wait e (chipid s) len 10 b n = (b1, n1)"
    by (metis prod.exhaust)
  define ans where "ans = fc_answer e (chipid s) 0 (n_polls s)"
  have "tx_msg_wait e (chipid s) len 10 (fc_answer e (chipid s) 0 (n_polls s) 0) (snd (flow_ctrl_loop e (chipid s) 0 0 (n_polls s))) = (b1, n1)"
    using p by (simp add: aicwf_sdio_flow_ctrl_msg_def)
  then obtain k where k: "k \<le> 10" "b1 = ans k" "\<forall>j < k. \<not> room (ans j) len" "k < 10 \<longrightarrow> room b1 len"
    using tx_msg_wait_spec unfolding ans_def by blast
  have "?sends \<longleftrightarrow> 0 < b1 \<and> int len < b1 * BUFFER_SIZE"
  proof
    assume ?sends
    then obtain i where i: "i \<le> 10" "\<forall>j < i. \<not> room (ans j) len" "room (ans i) len" "int len \<noteq> ans i * BUFFER_SIZE" unfolding ans_def by blast
    have "i = k" using i(1-3) k by (metis linorder_neqE_nat order_less_le_trans)
    then show "0 < b1 \<and> int len < b1 * BUFFER_SIZE" using i(3,4) k(2) by (auto simp: room_def)
  next
    assume "0 < b1 \<and> int len < b1 * BUFFER_SIZE"
    then have "room (ans k) len" "int len \<noteq> ans k * BUFFER_SIZE" using k(2) by (auto simp: room_def)
    then show ?sends using k(1,3) unfolding ans_def by blast
  qed
  moreover have "?sent \<longleftrightarrow> 0 < b1 \<and> int len < b1 * BUFFER_SIZE"
    using assms(1,2) by (simp add: aicwf_sdio_tx_msg_def assms(3) p Let_def msg_sent_def aicwf_sdio_send_pkt_def)
  ultimately show ?thesis by simp
qed

subsection \<open>Witnesses\<close>

definition demo_env :: sdio_env where "demo_env = \<lparr>fc_reads = (\<lambda>n. Some 1), wr_fails = (\<lambda>n. False), tx_aggr_counter = 32\<rparr>"
definition demo_env10 :: sdio_env where "demo_env10 = demo_env\<lparr>fc_reads := (\<lambda>n. Some 10)\<rparr>"
definition demo_pkt :: "nat \<Rightarrow> tx_pkt" where "demo_pkt i = \<lparr>pkt_id = i, txdesc = replicate 28 (of_nat i), body = [1, 2, 3], need_cfm = False\<rparr>"
definition demo_bus_ops :: "bus_op list" where "demo_bus_ops = [Txdata 13 (demo_pkt 7)]"

lemma demo_queued_state:
  obtains s where "bus_run demo_env10 demo_bus_ops (sdio_tx_init PRODUCT_ID_AIC8800D80, []) = Some (s, [(5, demo_pkt 7)])"
    "tx_ok s []" "bus_up s" "chipid s = PRODUCT_ID_AIC8800D80" "\<not> cmd_txstate s" "\<not> aicwf_is_framequeue_empty (txq s)"
proof -
  define q where "q = (aicwf_frame_queue_init 8 TXQLEN :: tx_pkt frame_queue)"
  have m: "unat (qmax q) = 8192" "qcnt q = 0" "queuelist q ! 5 = []"
    by (simp_all add: q_def aicwf_frame_queue_init_def TXQLEN_def unat_of_nat_small)
  then obtain q' where q': "aicwf_frame_enq q 5 (demo_pkt 7) = (q', True)" by (simp add: aicwf_frame_enq_def word_less_nat_alt)
  define s where "s = (sdio_tx_init PRODUCT_ID_AIC8800D80)\<lparr>txq := q', tx_pktcnt := 1\<rparr>"
  have t: "aicwf_sdio_bus_txdata 13 (demo_pkt 7) (sdio_tx_init PRODUCT_ID_AIC8800D80) = (s, 0)"
    using q' by (simp add: aicwf_sdio_bus_txdata_def sdio_tx_init_def s_def flip: q_def)
  then have r: "bus_run demo_env10 demo_bus_ops (sdio_tx_init PRODUCT_ID_AIC8800D80, []) = Some (s, [(5, demo_pkt 7)])"
    by (simp add: demo_bus_ops_def)
  have "pkt_ok (demo_pkt 7)" by (simp add: pkt_ok_def demo_pkt_def sizeof_txdesc_api_def del: replicate.simps)
  from txdata_delivered [OF init_delivered this t, of demo_env10]
  have k: "tx_ok s []" "bus_up s" "chipid s = PRODUCT_ID_AIC8800D80" "fq_items (txq s) 5 = [demo_pkt 7]" by (auto simp: delivered_def dest: spec [of _ 5])
  moreover have "\<not> aicwf_is_framequeue_empty (txq s)" using k(1,4) empty_iff(1) [of "txq s"] by (auto simp: tx_ok_def queued_ok_def)
  moreover have "\<not> cmd_txstate s" by (simp add: s_def sdio_tx_init_def)
  ultimately show thesis using r that by blast
qed

lemma flow_ctrl_steady:
  assumes "\<And>n. fc_reads e n = Some v" "\<not> legacy_chip c" "th < v"
  shows "flow_ctrl_loop e c th 0 n = (min (uint v) (tx_aggr_counter e), Suc n)" "fc_answer e c th n k = min (uint v) (tx_aggr_counter e)"
proof -
  show l: "flow_ctrl_loop e c th 0 n = (min (uint v) (tx_aggr_counter e), Suc n)" for n using assms by (subst flow_ctrl_loop.simps) simp
  show "fc_answer e c th n k = min (uint v) (tx_aggr_counter e)" by (induction k arbitrary: n) (simp_all add: l)
qed

lemma demo_card_answers: "card_answers demo_env10 PRODUCT_ID_AIC8800D80"
proof -
  have "fc_answer demo_env10 PRODUCT_ID_AIC8800D80 2 n k = min (uint (10 :: u8)) (tx_aggr_counter demo_env10)" for n k
    by (rule flow_ctrl_steady(2)) (simp_all add: demo_env10_def legacy_chip_def)
  then show ?thesis by (simp add: card_answers_def DATA_FLOW_CTRL_THRESH_def demo_env10_def demo_env_def)
qed

lemma bus_run_app: "bus_run e (ops @ ops') (s, acc) = Option.bind (bus_run e ops (s, acc)) (bus_run e ops')"
  by (induction e ops "(s, acc)" arbitrary: s acc rule: bus_run.induct) (auto split: prod.splits option.splits)


lemma tx_process_returns_witness:
  "\<exists>s r. bus_run demo_env10 demo_bus_ops (sdio_tx_init PRODUCT_ID_AIC8800D80, []) = Some (s, [(5, demo_pkt 7)]) \<and>
     \<not> aicwf_is_framequeue_empty (txq s) \<and> aicwf_sdio_tx_process demo_env10 s = Some r \<and> aicwf_is_framequeue_empty (txq r)"
proof -
  obtain s where s: "bus_run demo_env10 demo_bus_ops (sdio_tx_init PRODUCT_ID_AIC8800D80, []) = Some (s, [(5, demo_pkt 7)])"
    "tx_ok s []" "bus_up s" "chipid s = PRODUCT_ID_AIC8800D80" "\<not> cmd_txstate s" "\<not> aicwf_is_framequeue_empty (txq s)" by (rule demo_queued_state)
  have "\<exists>r. aicwf_sdio_tx_process demo_env10 s = Some r \<and> aicwf_is_framequeue_empty (txq r) \<and> aggr_count r = 0"
    using tx_process_returns [OF s(2,3,6,5), of demo_env10] demo_card_answers s(4) by (simp only: if_True)
  then show ?thesis using s by blast
qed

text \<open>A command of 1500 bytes and one free buffer: an exact fit; it is not sent.\<close>

definition demo_cmd_state :: sdio_tx where
  "demo_cmd_state = (sdio_tx_init PRODUCT_ID_AIC8800D80)\<lparr>cmd_txstate := True, cmd_len := 1500\<rparr>"

lemma demo_frame_len: "fst (tx_msg_frame m 1500) = 1536" by (simp add: tx_msg_frame_def u16_of_def TX_ALIGNMENT_def SDIOWIFI_FUNC_BLOCKSIZE_def TAIL_LEN_def Let_def)

lemma tx_msg_sends_iff_witness:
  "(wire (fst (aicwf_sdio_tx_msg demo_env demo_cmd_state)) = [map (snd (tx_msg_frame (\<lambda>i. 0) 1500)) [0..<1536]] \<and>
     \<not> cmd_txstate (fst (aicwf_sdio_tx_msg demo_env demo_cmd_state))) = False"
proof -
  have "fc_answer demo_env PRODUCT_ID_AIC8800D80 0 0 k = min (uint (1 :: u8)) (tx_aggr_counter demo_env)" for k
    by (rule flow_ctrl_steady(2)) (simp_all add: demo_env_def legacy_chip_def)
  then have a: "fc_answer demo_env PRODUCT_ID_AIC8800D80 0 0 k = 1" for k by (simp add: demo_env_def)
  have f: "tx_msg_frame (cmd_buf demo_cmd_state) (cmd_len demo_cmd_state) = (1536, snd (tx_msg_frame (\<lambda>i. 0) 1500))"
    using demo_frame_len [of "\<lambda>i. 0"] by (simp add: demo_cmd_state_def sdio_tx_init_def prod_eq_iff)
  have s: "chipid demo_cmd_state = PRODUCT_ID_AIC8800D80" "cmd_txstate demo_cmd_state" "n_polls demo_cmd_state = 0" "wire demo_cmd_state = []"
    by (simp_all add: demo_cmd_state_def sdio_tx_init_def)
  show ?thesis using tx_msg_sends_iff [OF _ s(2) f, of demo_env] by (auto simp: s a BUFFER_SIZE_def)
qed

end
