(* ===== verification/Sdio_Rx.thy ===== *)
theory Sdio_Rx
  imports Frame_Queue
begin

text \<open>
  The receive side of the SDIO bus (\<^verbatim>\<open>aicwf_txrxif.c\<close>, \<^verbatim>\<open>aicwf_sdio.c\<close>): the interrupt handler queues the
  blocks it reads, the receive thread takes them apart into data frames and messages.  A block is a
  buffer, its memory and its length; what follows the length in memory can be read, as in the code.
  Whether an allocation succeeds is an argument.  The code is that of the build with an interrupt
  line of its own switched off (\<open>oob_enable\<close> false) and without preallocated buffers.
\<close>

unbundle bit_operations_syntax

subsection \<open>Taking a block apart\<close>

definition RX_HWHRD_LEN :: nat where "RX_HWHRD_LEN = 60"
definition RX_ALIGNMENT :: nat where "RX_ALIGNMENT = 4"
definition SDIO_TYPE_CFG :: u8 where "SDIO_TYPE_CFG = 0x10"
definition SDIO_TYPE_CFG_CMD_RSP :: u8 where "SDIO_TYPE_CFG_CMD_RSP = 0x11"
definition SDIO_TYPE_CFG_DATA_CFM :: u8 where "SDIO_TYPE_CFG_DATA_CFM = 0x12"
definition SDIO_TYPE_CFG_PRINT :: u8 where "SDIO_TYPE_CFG_PRINT = 0x13"
definition MAX_RXQLEN :: nat where "MAX_RXQLEN = 2000"
definition EBADE :: int where "EBADE = 52"

datatype rx_event = DataInd "u8 list" | HandleMsg "u8 list" | TxCfm "u8 list" | FwPrint "u8 list"

record rx_env =
  skb_alloc :: "nat \<Rightarrow> bool"
  msg_alloc :: "nat \<Rightarrow> bool"
  rx_bus_up :: bool

text \<open>The \<open>n\<close> bytes from \<open>off\<close> on; a length field; lengths are kept in sixteen bits.\<close>

definition peek :: "(nat \<Rightarrow> u8) \<Rightarrow> nat \<Rightarrow> nat \<Rightarrow> u8 list" where "peek m off n = map m [off..<off + n]"
definition le16 :: "(nat \<Rightarrow> u8) \<Rightarrow> nat \<Rightarrow> nat" where "le16 m off = unat (m off) + 256 * unat (m (off + 1))"
definition wrap16 :: "nat \<Rightarrow> nat" where "wrap16 n = n mod 65536"

definition skb_pull :: "nat \<times> nat \<Rightarrow> nat \<Rightarrow> nat \<times> nat" where
  "skb_pull b n = (case b of (off, len) \<Rightarrow> if len < n then (off, len) else (off + n, len - n))"

definition aicwf_another_ptk :: "(nat \<Rightarrow> u8) \<Rightarrow> nat \<times> nat \<Rightarrow> bool" where
  "aicwf_another_ptk m b = (case b of (off, len) \<Rightarrow> len \<noteq> 0 \<and> le16 m off \<noteq> 0)"

definition is_data :: "(nat \<Rightarrow> u8) \<Rightarrow> nat \<Rightarrow> bool" where "is_data m off \<longleftrightarrow> m (off + 2) AND SDIO_TYPE_CFG \<noteq> SDIO_TYPE_CFG"
definition rx_aggr_len :: "(nat \<Rightarrow> u8) \<Rightarrow> nat \<Rightarrow> nat" where
  "rx_aggr_len m off = (if is_data m off then wrap16 (le16 m off + RX_HWHRD_LEN) else le16 m off)"
definition rx_adjust_len :: "(nat \<Rightarrow> u8) \<Rightarrow> nat \<Rightarrow> nat" where
  "rx_adjust_len m off = (let n = rx_aggr_len m off in if n mod RX_ALIGNMENT \<noteq> 0 then wrap16 ((n + 3) div 4 * 4) else n)"

definition msg_events :: "rx_env \<Rightarrow> u8 list \<Rightarrow> rx_event list" where
  "msg_events e msg = (let ty = msg ! 2 AND 0x7f; payload = drop 4 msg in
     (if ty = SDIO_TYPE_CFG_CMD_RSP \<and> rx_bus_up e then [HandleMsg payload] else []) @
     (if ty = SDIO_TYPE_CFG_DATA_CFM then [TxCfm payload] else []) @
     (if ty = SDIO_TYPE_CFG_PRINT then [FwPrint payload] else []))"

text \<open>The inner loop on one block, with the number of allocations made and the events so far; the last
  component tells whether it went through.\<close>

partial_function (option) deframe ::
  "rx_env \<Rightarrow> (nat \<Rightarrow> u8) \<Rightarrow> nat \<times> nat \<Rightarrow> nat \<Rightarrow> rx_event list \<Rightarrow> (rx_event list \<times> nat \<times> bool) option" where
  "deframe e m b k evs =
     (if \<not> aicwf_another_ptk m b then Some (evs, k, True)
      else if is_data m (fst b)
      then deframe e m (skb_pull b (rx_adjust_len m (fst b))) (Suc k)
        (if skb_alloc e k then evs @ [DataInd (peek m (fst b) (rx_aggr_len m (fst b)))] else evs)
      else if \<not> msg_alloc e k then Some (evs, Suc k, False)
      else deframe e m (skb_pull b (rx_adjust_len m (fst b) + 4)) (Suc k)
        (evs @ msg_events e (peek m (fst b) (rx_aggr_len m (fst b) + 4))))"

subsection \<open>What the card sends\<close>

datatype rx_unit = RxData "u8 list" | RxMsg u8 "u8 list"

definition rx_pad :: "nat \<Rightarrow> u8 list" where "rx_pad n = replicate ((4 - n mod 4) mod 4) 0"

text \<open>A data frame starts with its length, less that of the hardware header, and its type; a message has
  a header of four bytes.\<close>

fun rx_unit_ok :: "rx_unit \<Rightarrow> bool" where
  "rx_unit_ok (RxData bs) \<longleftrightarrow> RX_HWHRD_LEN < length bs \<and> length bs < 65533 \<and>
     unat (bs ! 0) + 256 * unat (bs ! 1) + RX_HWHRD_LEN = length bs \<and> bs ! 2 AND SDIO_TYPE_CFG \<noteq> SDIO_TYPE_CFG"
| "rx_unit_ok (RxMsg ty p) \<longleftrightarrow> p \<noteq> [] \<and> length p < 65533 \<and> ty AND SDIO_TYPE_CFG = SDIO_TYPE_CFG"

fun rx_bytes :: "rx_unit \<Rightarrow> u8 list" where
  "rx_bytes (RxData bs) = bs @ rx_pad (length bs)"
| "rx_bytes (RxMsg ty p) = [of_nat (length p mod 256), of_nat (length p div 256), ty, 0] @ p @ rx_pad (length p)"

fun unit_events :: "rx_env \<Rightarrow> rx_unit \<Rightarrow> rx_event list" where
  "unit_events e (RxData bs) = [DataInd bs]"
| "unit_events e (RxMsg ty p) = msg_events e ([0, 0, ty, 0] @ p)"

text \<open>The block in memory from \<open>off\<close> on.\<close>

definition holds_at :: "(nat \<Rightarrow> u8) \<Rightarrow> nat \<Rightarrow> u8 list \<Rightarrow> bool" where "holds_at m off bs \<longleftrightarrow> peek m off (length bs) = bs"

lemma holds_append: "holds_at m off (xs @ ys) \<longleftrightarrow> holds_at m off xs \<and> holds_at m (off + length xs) ys"
  by (simp add: holds_at_def peek_def upt_add_eq_append [of off "off + length xs" "length ys"] add.assoc [symmetric])

lemma holds_nth: "holds_at m off bs \<Longrightarrow> i < length bs \<Longrightarrow> m (off + i) = bs ! i"
proof -
  assume h: "holds_at m off bs" "i < length bs"
  have "map m [off..<off + length bs] ! i = m (off + i)" using h(2) by simp
  then show ?thesis using h(1) by (simp add: holds_at_def peek_def)
qed

lemma pad_total: "(n + length (rx_pad n)) = (n + 3) div 4 * 4"
proof -
  define q r where qr: "q = n div 4" "r = n mod 4"
  have n: "n = 4 * q + r" "r < 4" by (simp_all add: qr)
  then consider "r = 0" | "r = 1" | "r = 2" | "r = 3" by linarith
  then have "4 * q + r + (4 - r) mod 4 = (4 * q + r + 3) div 4 * 4" by cases simp_all
  then show ?thesis by (simp add: rx_pad_def n(1) mod_mult_self4 n(2))
qed

lemma adjust_padded:
  assumes "rx_aggr_len m off = n" "n < 65533"
  shows "rx_adjust_len m off = n + length (rx_pad n)"
proof -
  have "(n + 3) div 4 * 4 < 65536" using assms(2) by presburger
  moreover have "n mod 4 = 0 \<Longrightarrow> (n + 3) div 4 * 4 = n" by presburger
  ultimately show ?thesis unfolding pad_total by (auto simp: rx_adjust_len_def assms(1) RX_ALIGNMENT_def wrap16_def)
qed

lemma msg_events_header: "msg_events e (a # b # ty # d # p) = msg_events e ([0, 0, ty, 0] @ p)"
  by (simp add: msg_events_def numeral_2_eq_2 numeral_eq_Suc)

text \<open>One unit: it is recognised, its events are produced and it is stepped over.\<close>

lemma deframe_unit:
  assumes "rx_unit_ok u" "holds_at m off (rx_bytes u)" "\<forall>n. skb_alloc e n" "\<forall>n. msg_alloc e n" "length (rx_bytes u) \<le> len"
  shows "deframe e m (off, len) k evs = deframe e m (off + length (rx_bytes u), len - length (rx_bytes u)) (Suc k) (evs @ unit_events e u)"
proof (cases u)
  case (RxData bs)
  have ok: "60 < length bs" "length bs < 65533" "unat (bs ! 0) + 256 * unat (bs ! 1) + 60 = length bs" "bs ! 2 AND SDIO_TYPE_CFG \<noteq> SDIO_TYPE_CFG"
    using assms(1) by (simp_all add: RxData RX_HWHRD_LEN_def)
  have h: "holds_at m off bs" using assms(2) by (simp add: RxData holds_append)
  have "bs \<noteq> []" using ok(1) by auto
  then have l: "le16 m off + 60 = length bs" "is_data m off"
    using holds_nth [OF h, of 0] holds_nth [OF h, of 1] holds_nth [OF h, of 2] ok by (simp_all add: le16_def is_data_def)
  then have a: "rx_aggr_len m off = length bs" using ok(2) by (simp add: rx_aggr_len_def RX_HWHRD_LEN_def wrap16_def)
  have d: "rx_adjust_len m off = length (rx_bytes u)" using adjust_padded [OF a ok(2)] by (simp add: RxData)
  have "le16 m off \<noteq> 0" "len \<noteq> 0" using l ok(1) assms(5) by (auto simp: RxData)
  then show ?thesis using l(2) d assms(3,5) h
    by (subst deframe.simps) (simp add: aicwf_another_ptk_def a skb_pull_def RxData holds_at_def)
next
  case (RxMsg ty p)
  have ok: "p \<noteq> []" "length p < 65533" "ty AND SDIO_TYPE_CFG = SDIO_TYPE_CFG" using assms(1) by (simp_all add: RxMsg)
  let ?h = "[of_nat (length p mod 256), of_nat (length p div 256), ty, 0]"
  have h: "holds_at m off (?h @ p)" using assms(2) by (simp add: RxMsg holds_append [of m off "_ # _ # _ # _ # p" "rx_pad (length p)", simplified])
  have v: "m off = of_nat (length p mod 256)" "m (off + 1) = of_nat (length p div 256)" "m (off + 2) = ty"
    using holds_nth [OF h, of 0] holds_nth [OF h, of 1] holds_nth [OF h, of 2] by simp_all
  have "unat (of_nat (length p mod 256) :: u8) = length p mod 256" "unat (of_nat (length p div 256) :: u8) = length p div 256"
    using ok(2) by (intro unat_of_nat_small; simp add: less_mult_imp_div_less)+
  then have l: "le16 m off = length p" "\<not> is_data m off" using v ok(3) by (simp_all add: le16_def is_data_def)
  then have a: "rx_aggr_len m off = length p" by (simp add: rx_aggr_len_def)
  have d: "rx_adjust_len m off + 4 = length (rx_bytes u)" using adjust_padded [OF a ok(2)] by (simp add: RxMsg)
  have pk: "peek m off (length p + 4) = ?h @ p" proof -
    have "length (?h @ p) = length p + 4" by simp
    with h show ?thesis unfolding holds_at_def by (simp only:)
  qed
  have ev: "msg_events e (?h @ p) = unit_events e u" using msg_events_header [of e _ _ ty 0 p] by (simp add: RxMsg)
  have "len \<noteq> 0" using assms(5) by (auto simp: RxMsg)
  then show ?thesis using l d assms(4,5) ok(1) pk
    by (subst deframe.simps) (simp add: aicwf_another_ptk_def a skb_pull_def ev del: append.simps)
qed

lemma deframe_units:
  assumes "list_all rx_unit_ok us" "holds_at m off (concat (map rx_bytes us) @ rest)" "\<forall>n. skb_alloc e n" "\<forall>n. msg_alloc e n"
    "rest = [] \<or> (\<exists>xs. rest = 0 # 0 # xs)"
  shows "deframe e m (off, length (concat (map rx_bytes us) @ rest)) k evs = Some (evs @ concat (map (unit_events e) us), k + length us, True)"
  using assms(1,2)
proof (induction us arbitrary: off k evs)
  case Nil
  have "\<not> aicwf_another_ptk m (off, length rest)"
    using assms(5) holds_nth [of m off rest 0] holds_nth [of m off rest 1] Nil(2) by (auto simp: aicwf_another_ptk_def le16_def)
  then show ?case by (subst deframe.simps) simp
next
  case (Cons u us)
  have "holds_at m off (rx_bytes u)" "holds_at m (off + length (rx_bytes u)) (concat (map rx_bytes us) @ rest)"
    using Cons.prems(2) holds_append [of m off "rx_bytes u" "concat (map rx_bytes us) @ rest"] by simp_all
  then show ?case using deframe_unit [of u m off e "length (concat (map rx_bytes (u # us)) @ rest)" k evs] Cons assms(3,4) by simp
qed

text \<open>A unit that claims to reach past the end of its block hangs the receive thread: \<open>skb_pull\<close> refuses,
  the loop finds the same unit again, and taking the block apart never ends.\<close>

theorem deframe_stuck:
  assumes "aicwf_another_ptk m (off, len)" "len < rx_adjust_len m off + (if is_data m off then 0 else 4)" "\<forall>n. msg_alloc e n"
  shows "deframe e m (off, len) k evs = None"
proof (rule ccontr)
  assume "deframe e m (off, len) k evs \<noteq> None"
  then obtain r where r: "deframe e m (off, len) k evs = Some r" by blast
  define bad where "bad = (\<lambda>e' m' b'. e' = e \<and> m' = m \<and> b' = (off, len))"
  have "\<not> bad e m (off, len)"
  proof (rule deframe.raw_induct [OF _ r, where P = "\<lambda>e' m' b' k' evs' r'. \<not> bad e' m' b'"], rule notI)
    fix loop e' m' b' k' evs' r'
    assume IH: "\<And>e' m' b' k' evs' r'. loop e' m' b' k' evs' = Some r' \<Longrightarrow> \<not> bad e' m' b'" and b: "bad e' m' b'"
      and step: "(if \<not> aicwf_another_ptk m' b' then Some (evs', k', True)
        else if is_data m' (fst b')
        then loop e' m' (skb_pull b' (rx_adjust_len m' (fst b'))) (Suc k')
          (if skb_alloc e' k' then evs' @ [DataInd (peek m' (fst b') (rx_aggr_len m' (fst b')))] else evs')
        else if \<not> msg_alloc e' k' then Some (evs', Suc k', False)
        else loop e' m' (skb_pull b' (rx_adjust_len m' (fst b') + 4)) (Suc k')
          (evs' @ msg_events e' (peek m' (fst b') (rx_aggr_len m' (fst b') + 4)))) = Some r'"
    have eq: "e' = e" "m' = m" "b' = (off, len)" using b by (simp_all add: bad_def)
    show False
    proof (cases "is_data m off")
      case True
      then have "\<exists>k'' evs''. loop e m (off, len) k'' evs'' = Some r'" using step eq assms(1,2) by (auto simp: skb_pull_def)
      then obtain k'' evs'' where l: "loop e m (off, len) k'' evs'' = Some r'" by blast
      show False using IH [OF l] by (simp add: bad_def)
    next
      case False
      then have "\<exists>k'' evs''. loop e m (off, len) k'' evs'' = Some r'" using step eq assms by (auto simp: skb_pull_def)
      then obtain k'' evs'' where l: "loop e m (off, len) k'' evs'' = Some r'" by blast
      show False using IH [OF l] by (simp add: bad_def)
    qed
  qed
  then show False by (simp add: bad_def)
qed

text \<open>A block of eight bytes with a message of 256.\<close>

definition demo_short_block :: "nat \<Rightarrow> u8" where "demo_short_block = (\<lambda>i. if i = 1 then 1 else if i = 2 then 0x11 else 0)"

lemma deframe_stuck_witness:
  "deframe \<lparr>skb_alloc = (\<lambda>n. True), msg_alloc = (\<lambda>n. True), rx_bus_up = True\<rparr> demo_short_block (0, 8) 0 [] = None"
proof -
  have h: "le16 demo_short_block 0 = 256" "\<not> is_data demo_short_block 0" by code_simp+
  then have "rx_adjust_len demo_short_block 0 = 256" by (simp add: rx_adjust_len_def rx_aggr_len_def RX_ALIGNMENT_def)
  then show ?thesis using h by (intro deframe_stuck) (simp_all add: aicwf_another_ptk_def)
qed

subsection \<open>The receive thread's work function\<close>

type_synonym rx_skb = "(nat \<Rightarrow> u8) \<times> nat"

record rx_dev =
  rxq :: "rx_skb frame_queue"
  rx_cnt :: int
  events :: "rx_event list"
  n_allocs :: nat

text \<open>Unpacking a block that has been taken from the queue.\<close>

definition process_block :: "rx_env \<Rightarrow> rx_skb \<Rightarrow> rx_dev \<Rightarrow> (rx_dev \<times> bool) option" where
  "process_block e p s = (case deframe e (fst p) (0, snd p) (n_allocs s) (events s) of None \<Rightarrow> None
     | Some (evs, k, ok) \<Rightarrow> Some (s\<lparr>events := evs, n_allocs := k\<rparr>, ok))"

definition count_down :: "rx_dev \<Rightarrow> rx_dev" where "count_down s = s\<lparr>rx_cnt := rx_cnt s - 1\<rparr>"

lemma process_block_queue: "process_block e p s = Some (t, ok) \<Longrightarrow> rxq t = rxq s \<and> rx_cnt t = rx_cnt s"
  by (auto simp: process_block_def split: option.splits)

lemma deq_count: "aicwf_frame_dequeue q = (Some x, q') \<Longrightarrow> unat (qcnt q') < unat (qcnt q)"
  by (auto simp: aicwf_frame_dequeue_def Let_def unat_gt_0 split: if_splits list.splits) (metis unat_gt_0 unat_minus_one diff_less less_one)

function aicwf_process_rxframes :: "rx_env \<Rightarrow> rx_dev \<Rightarrow> (rx_dev \<times> int) option" where
  "aicwf_process_rxframes e s =
     (if aicwf_is_framequeue_empty (rxq s) then Some (s, 0)
      else case aicwf_frame_dequeue (rxq s) of
        (None, q) \<Rightarrow> Some (s\<lparr>rxq := q\<rparr>, 0)
      | (Some p, q) \<Rightarrow> (case process_block e p (s\<lparr>rxq := q\<rparr>) of
          None \<Rightarrow> None
        | Some (s, False) \<Rightarrow> Some (s, - EBADE)
        | Some (s, True) \<Rightarrow> aicwf_process_rxframes e (count_down s)))"
  by pat_completeness auto
termination
  by (relation "measure (\<lambda>(e, s). unat (qcnt (rxq s)))") (auto simp: count_down_def dest!: process_block_queue deq_count [OF sym])

declare aicwf_process_rxframes.simps [simp del]

definition aicwf_sdio_enq_rxpkt_queue :: "rx_skb \<Rightarrow> rx_dev \<Rightarrow> rx_dev \<times> bool" where
  "aicwf_sdio_enq_rxpkt_queue p s = (case aicwf_rxframe_enqueue (rxq s) p of (q, b) \<Rightarrow> (s\<lparr>rxq := q\<rparr>, b))"

definition rx_count_up :: "rx_dev \<Rightarrow> rx_dev" where "rx_count_up s = s\<lparr>rx_cnt := rx_cnt s + 1\<rparr>"

definition rx_dev_init :: rx_dev where
  "rx_dev_init = \<lparr>rxq = aicwf_frame_queue_init 1 MAX_RXQLEN, rx_cnt = 0, events = [], n_allocs = 0\<rparr>"

end
