(* ===== verification/Sdio_Irq.thy ===== *)
theory Sdio_Irq
  imports Sdio_Rx
begin

text \<open>
  The interrupt handler and the receive thread of the SDIO bus side by side: the handler queues a block,
  counts it and wakes the thread when the count is one; the thread takes blocks until the queue is
  empty and counts each one down when it is through with it.  Each step is what one of them does
  between two accesses to the state they share.
\<close>

subsection \<open>The two threads\<close>

datatype irq_pc = IrqIdle | IrqQueued | IrqCheck
datatype rx_pc = RxWaiting | RxChecking | RxBusy rx_skb

text \<open>\<open>trgg\<close> is the count of the completion; \<open>lost\<close> and \<open>accepted\<close> record the runs of the thread that ended
  in an error and the blocks queued.\<close>

record rx_threads =
  dev :: rx_dev
  irq :: irq_pc
  rxt :: rx_pc
  trgg :: nat
  lost :: nat
  accepted :: "rx_skb list"

inductive rx_step :: "rx_env \<Rightarrow> rx_threads \<Rightarrow> rx_threads \<Rightarrow> bool" for e where
  irq_enq: "irq s = IrqIdle \<Longrightarrow> aicwf_sdio_enq_rxpkt_queue p (dev s) = (d, True) \<Longrightarrow>
    rx_step e s (s\<lparr>dev := d, irq := IrqQueued, accepted := accepted s @ [p]\<rparr>)"
| irq_full: "irq s = IrqIdle \<Longrightarrow> aicwf_sdio_enq_rxpkt_queue p (dev s) = (d, False) \<Longrightarrow> rx_step e s (s\<lparr>irq := IrqCheck\<rparr>)"
| irq_none: "irq s = IrqIdle \<Longrightarrow> rx_step e s (s\<lparr>irq := IrqCheck\<rparr>)"
| irq_count: "irq s = IrqQueued \<Longrightarrow> rx_step e s (s\<lparr>dev := rx_count_up (dev s), irq := IrqCheck\<rparr>)"
| irq_done: "irq s = IrqCheck \<Longrightarrow> rx_step e s (s\<lparr>irq := IrqIdle, trgg := (if rx_cnt (dev s) = 1 then Suc (trgg s) else trgg s)\<rparr>)"
| rx_wake: "rxt s = RxWaiting \<Longrightarrow> trgg s = Suc n \<Longrightarrow> rx_bus_up e \<Longrightarrow> rx_step e s (s\<lparr>rxt := RxChecking, trgg := n\<rparr>)"
| rx_skip: "rxt s = RxWaiting \<Longrightarrow> trgg s = Suc n \<Longrightarrow> \<not> rx_bus_up e \<Longrightarrow> rx_step e s (s\<lparr>trgg := n\<rparr>)"
| rx_sleep: "rxt s = RxChecking \<Longrightarrow> aicwf_is_framequeue_empty (rxq (dev s)) \<Longrightarrow> rx_step e s (s\<lparr>rxt := RxWaiting\<rparr>)"
| rx_take: "rxt s = RxChecking \<Longrightarrow> \<not> aicwf_is_framequeue_empty (rxq (dev s)) \<Longrightarrow> aicwf_frame_dequeue (rxq (dev s)) = (Some p, q) \<Longrightarrow>
    rx_step e s (s\<lparr>dev := (dev s)\<lparr>rxq := q\<rparr>, rxt := RxBusy p\<rparr>)"
| rx_done: "rxt s = RxBusy p \<Longrightarrow> process_block e p (dev s) = Some (d, True) \<Longrightarrow> rx_step e s (s\<lparr>dev := count_down d, rxt := RxChecking\<rparr>)"
| rx_fail: "rxt s = RxBusy p \<Longrightarrow> process_block e p (dev s) = Some (d, False) \<Longrightarrow> rx_step e s (s\<lparr>dev := d, rxt := RxWaiting, lost := Suc (lost s)\<rparr>)"

definition rx_start :: rx_threads where
  "rx_start = \<lparr>dev = rx_dev_init, irq = IrqIdle, rxt = RxWaiting, trgg = 0, lost = 0, accepted = []\<rparr>"

inductive_cases rx_stepE: "rx_step e s t"

text \<open>The work function is a run of the thread without the interrupt.\<close>

lemma process_is_run:
  assumes "aicwf_process_rxframes e (dev s) = Some (d, r)" "rxt s = RxChecking" "fq_ok (rxq (dev s))"
  shows "\<exists>l. (rx_step e)\<^sup>*\<^sup>* s (s\<lparr>dev := d, rxt := RxWaiting, lost := l\<rparr>)"
  using assms
proof (induction e "dev s" arbitrary: s rule: aicwf_process_rxframes.induct)
  case (1 e)
  note process = aicwf_process_rxframes.simps [of e "dev s"]
  show ?case
  proof (cases "aicwf_is_framequeue_empty (rxq (dev s))")
    case True
    then have "s\<lparr>dev := d, rxt := RxWaiting, lost := lost s\<rparr> = s\<lparr>rxt := RxWaiting\<rparr>" using 1(2) process by simp
    then show ?thesis using rx_sleep [OF 1(3) True] by (intro exI [of _ "lost s"]) (simp add: r_into_rtranclp)
  next
    case False
    obtain p q where q: "aicwf_frame_dequeue (rxq (dev s)) = (Some p, q)" using deq_total [OF 1(4) False] by metis
    define s1 where "s1 = s\<lparr>dev := (dev s)\<lparr>rxq := q\<rparr>, rxt := RxBusy p\<rparr>"
    have st1: "rx_step e s s1" unfolding s1_def by (rule rx_take [OF 1(3) False q])
    obtain d1 ok where b: "process_block e p ((dev s)\<lparr>rxq := q\<rparr>) = Some (d1, ok)" using 1(2) process False q by (auto split: option.splits)
    show ?thesis
    proof (cases ok)
      case True
      define s2 where "s2 = s1\<lparr>dev := count_down d1, rxt := RxChecking\<rparr>"
      have st2: "rx_step e s1 s2" unfolding s2_def by (rule rx_done [where p = p]) (simp_all add: s1_def b True)
      have "fq_ok (rxq (dev s2))" using process_block_queue [OF b] deq_spec(1) [OF 1(4) q] by (simp add: s2_def count_down_def)
      moreover have "aicwf_process_rxframes e (dev s2) = Some (d, r)" using 1(2) process False q b True by (simp add: s2_def)
      ultimately obtain l where "(rx_step e)\<^sup>*\<^sup>* s2 (s2\<lparr>dev := d, rxt := RxWaiting, lost := l\<rparr>)"
        using 1(1) [OF False q [symmetric] refl b refl _ _, of s2] True by (auto simp: s2_def)
      moreover have "s2\<lparr>dev := d, rxt := RxWaiting, lost := l\<rparr> = s\<lparr>dev := d, rxt := RxWaiting, lost := l\<rparr>" by (simp add: s2_def s1_def)
      ultimately show ?thesis using st1 st2 by (metis converse_rtranclp_into_rtranclp)
    next
      case False2: False
      then have "d1 = d" using 1(2) process False q b by simp
      have "rx_step e s1 (s1\<lparr>dev := d1, rxt := RxWaiting, lost := Suc (lost s1)\<rparr>)" by (rule rx_fail [where p = p]) (simp_all add: s1_def b False2)
      moreover have "s1\<lparr>dev := d1, rxt := RxWaiting, lost := Suc (lost s1)\<rparr> = s\<lparr>dev := d, rxt := RxWaiting, lost := Suc (lost s)\<rparr>"
        by (simp add: s1_def \<open>d1 = d\<close>)
      ultimately have "(rx_step e)\<^sup>*\<^sup>* s (s\<lparr>dev := d, rxt := RxWaiting, lost := Suc (lost s)\<rparr>)"
        using st1 by (metis converse_rtranclp_into_rtranclp rtranclp.rtrancl_refl)
      then show ?thesis by blast
    qed
  qed
qed

subsection \<open>The count of blocks\<close>

definition busy :: "rx_threads \<Rightarrow> rx_skb list" where "busy s = (case rxt s of RxBusy p \<Rightarrow> [p] | _ \<Rightarrow> [])"

definition rx_counted :: "rx_threads \<Rightarrow> bool" where
  "rx_counted s \<longleftrightarrow> fq_ok (rxq (dev s)) \<and> num_prio (rxq (dev s)) = 1 \<and> 0 < qmax (rxq (dev s)) \<and>
     rx_cnt (dev s) = int (unat (qcnt (rxq (dev s)))) + int (length (busy s)) + int (lost s) - (if irq s = IrqQueued then 1 else 0)"

definition rx_awake :: "rx_threads \<Rightarrow> bool" where
  "rx_awake s \<longleftrightarrow> (rxt s = RxWaiting \<longrightarrow> trgg s = 0 \<longrightarrow> lost s = 0 \<longrightarrow> qcnt (rxq (dev s)) \<noteq> 0 \<longrightarrow> irq s \<noteq> IrqIdle \<and> unat (qcnt (rxq (dev s))) = 1)"

lemma enq_one:
  assumes "fq_ok q" "num_prio q = 1" "aicwf_rxframe_enqueue q p = (q', True)"
  shows "fq_ok q'" "num_prio q' = 1" "qmax q' = qmax q" "unat (qcnt q') = Suc (unat (qcnt q))" "fq_items q' 0 = fq_items q 0 @ [p]"
  using enq_spec [OF assms(1) _ assms(3) [unfolded aicwf_rxframe_enqueue_def]] assms(2) by simp_all

lemma deq_one:
  assumes "fq_ok q" "num_prio q = 1" "aicwf_frame_dequeue q = (Some p, q')"
  shows "fq_ok q'" "num_prio q' = 1" "qmax q' = qmax q" "unat (qcnt q) = Suc (unat (qcnt q'))" "fq_items q 0 = p # fq_items q' 0"
proof -
  show s: "fq_ok q'" "num_prio q' = 1" "qmax q' = qmax q" "unat (qcnt q) = Suc (unat (qcnt q'))"
    using deq_spec(1-3,6) [OF assms(1,3)] assms(2) by simp_all
  obtain k where k: "fq_items q = (fq_items q')(k := p # fq_items q' k)" using deq_spec(5) [OF assms(1,3)] by blast
  have "fq_items q j = []" if "j \<noteq> 0" for j using assms(1,2) that by (auto simp: fq_ok_def fq_items_def)
  then have "k = 0" using k by (metis fun_upd_same list.distinct(1))
  then show "fq_items q 0 = p # fq_items q' 0" by (simp add: k)
qed

lemma rx_step_counted: "rx_step e s t \<Longrightarrow> rx_counted s \<Longrightarrow> rx_counted t"
proof (induction rule: rx_step.induct)
  case (irq_enq s p d)
  obtain q where q: "aicwf_rxframe_enqueue (rxq (dev s)) p = (q, True)" "d = (dev s)\<lparr>rxq := q\<rparr>"
    using irq_enq(2) by (auto simp: aicwf_sdio_enq_rxpkt_queue_def split: prod.splits)
  show ?case using irq_enq(1,3) enq_one [OF _ _ q(1)] by (simp add: rx_counted_def q(2) busy_def)
next
  case (rx_take s p q)
  have ok: "fq_ok (rxq (dev s))" "num_prio (rxq (dev s)) = 1" using rx_take(4) by (simp_all add: rx_counted_def)
  have "int (unat (qcnt (rxq (dev s)))) = int (unat (qcnt q)) + 1" using deq_one(4) [OF ok rx_take(3)] by simp
  then show ?case using rx_take(1,4) deq_one(1-3) [OF ok rx_take(3)] by (simp add: rx_counted_def busy_def)
next
  case (rx_done s p d)
  then show ?case using process_block_queue [OF rx_done(2)] by (simp add: rx_counted_def busy_def count_down_def)
next
  case (rx_fail s p d)
  then show ?case using process_block_queue [OF rx_fail(2)] by (simp add: rx_counted_def busy_def)
qed (simp_all add: rx_counted_def busy_def rx_count_up_def)

lemma rx_step_awake: "rx_step e s t \<Longrightarrow> rx_bus_up e \<Longrightarrow> rx_counted s \<Longrightarrow> rx_awake s \<Longrightarrow> rx_awake t"
proof (induction rule: rx_step.induct)
  case (irq_enq s p d)
  obtain q where q: "aicwf_rxframe_enqueue (rxq (dev s)) p = (q, True)" "d = (dev s)\<lparr>rxq := q\<rparr>"
    using irq_enq(2) by (auto simp: aicwf_sdio_enq_rxpkt_queue_def split: prod.splits)
  show ?case using irq_enq(1,4,5) enq_one [OF _ _ q(1)] by (auto simp: rx_counted_def rx_awake_def q(2) unat_eq_0)
next
  case (irq_full s p d)
  have "qcnt (rxq (dev s)) \<noteq> 0"
  proof
    assume z: "qcnt (rxq (dev s)) = 0"
    have "length (queuelist (rxq (dev s)) ! 0) = 0" using irq_full(4) z empty_iff(2) [of "rxq (dev s)"]
      by (auto simp: rx_counted_def fq_items_def fq_ok_def dest: spec [of _ 0])
    then show False using irq_full(2,4) z
      by (auto simp: aicwf_sdio_enq_rxpkt_queue_def aicwf_rxframe_enqueue_def aicwf_frame_enq_def rx_counted_def unat_gt_0 split: if_splits)
  qed
  then show ?case using irq_full(1,5) by (auto simp: rx_awake_def)
next
  case (irq_none s)
  then show ?case by (auto simp: rx_awake_def)
next
  case (irq_count s)
  then show ?case by (simp add: rx_awake_def rx_count_up_def)
next
  case (irq_done s)
  have "rx_cnt (dev s) = 1" if "rxt s = RxWaiting" "lost s = 0" "unat (qcnt (rxq (dev s))) = 1"
    using irq_done(1,3) that by (simp add: rx_counted_def busy_def)
  then show ?case using irq_done(4) by (auto simp: rx_awake_def)
next
  case (rx_sleep s)
  then show ?case using empty_iff [of "rxq (dev s)"] by (auto simp: rx_awake_def rx_counted_def)
next
  case (rx_fail s p d)
  then show ?case by (simp add: rx_awake_def)
qed (simp_all add: rx_awake_def)

lemma start_inv: "rx_counted rx_start" "rx_awake rx_start"
proof -
  have "fq_ok (aicwf_frame_queue_init 1 MAX_RXQLEN :: rx_skb frame_queue)" by (rule init_ok) simp_all
  moreover have "(of_nat MAX_RXQLEN :: u16) \<noteq> 0" by (simp add: MAX_RXQLEN_def)
  ultimately show "rx_counted rx_start"
    by (simp add: rx_counted_def rx_start_def rx_dev_init_def busy_def) (simp add: aicwf_frame_queue_init_def unat_gt_0 [symmetric] word_less_nat_alt unat_of_nat_small MAX_RXQLEN_def)
  show "rx_awake rx_start" by (simp add: rx_awake_def rx_start_def rx_dev_init_def aicwf_frame_queue_init_def)
qed

lemma rx_reachable_counted: "(rx_step e)\<^sup>*\<^sup>* rx_start s \<Longrightarrow> rx_counted s"
  by (induction rule: rtranclp_induct) (auto intro: start_inv rx_step_counted)

lemma rx_reachable_awake: "(rx_step e)\<^sup>*\<^sup>* rx_start s \<Longrightarrow> rx_bus_up e \<Longrightarrow> rx_awake s"
  by (induction rule: rtranclp_induct) (auto intro: start_inv rx_step_awake rx_reachable_counted)

subsection \<open>What is delivered\<close>

definition block_holds :: "rx_skb \<Rightarrow> rx_unit list \<Rightarrow> bool" where
  "block_holds p us \<longleftrightarrow> list_all rx_unit_ok us \<and> (\<exists>rest. holds_at (fst p) 0 (concat (map rx_bytes us) @ rest) \<and>
     snd p = length (concat (map rx_bytes us) @ rest) \<and> (rest = [] \<or> (\<exists>xs. rest = 0 # 0 # xs)))"

definition block_events :: "rx_env \<Rightarrow> rx_unit list \<Rightarrow> rx_event list" where "block_events e us = concat (map (unit_events e) us)"

lemma process_block_success:
  assumes "block_holds p us" "\<forall>n. skb_alloc e n" "\<forall>n. msg_alloc e n"
  shows "process_block e p s = Some (s\<lparr>events := events s @ block_events e us, n_allocs := n_allocs s + length us\<rparr>, True)"
proof -
  obtain rest where r: "list_all rx_unit_ok us" "holds_at (fst p) 0 (concat (map rx_bytes us) @ rest)"
    "snd p = length (concat (map rx_bytes us) @ rest)" "rest = [] \<or> (\<exists>xs. rest = 0 # 0 # xs)" using assms(1) by (auto simp: block_holds_def)
  have "deframe e (fst p) (0, snd p) (n_allocs s) (events s) = Some (events s @ block_events e us, n_allocs s + length us, True)"
    unfolding r(3) block_events_def by (rule deframe_units [OF r(1,2) assms(2,3) r(4)])
  then show ?thesis by (simp add: process_block_def)
qed

lemma process_block_holds:
  assumes "block_holds p us" "\<forall>n. skb_alloc e n" "\<forall>n. msg_alloc e n" "process_block e p s = Some (t, ok)"
  shows "ok \<and> events t = events s @ block_events e us"
  using assms(4) process_block_success [OF assms(1-3), of s] by auto

definition rx_logged :: "rx_env \<Rightarrow> (rx_skb \<Rightarrow> rx_unit list) \<Rightarrow> rx_threads \<Rightarrow> bool" where
  "rx_logged e f s \<longleftrightarrow> (\<exists>through. accepted s = through @ busy s @ fq_items (rxq (dev s)) 0 \<and>
     events (dev s) = concat (map (\<lambda>p. block_events e (f p)) through))"

lemma rx_step_accepted: "rx_step e s t \<Longrightarrow> set (accepted s) \<subseteq> set (accepted t)"
  by (induction rule: rx_step.induct) auto

lemma rx_step_logged:
  "rx_step e s t \<Longrightarrow> rx_counted s \<Longrightarrow> \<forall>n. skb_alloc e n \<Longrightarrow> \<forall>n. msg_alloc e n \<Longrightarrow> \<forall>p \<in> set (accepted s). block_holds p (f p) \<Longrightarrow>
    rx_logged e f s \<Longrightarrow> rx_logged e f t"
proof (induction rule: rx_step.induct)
  case (irq_enq s p d)
  obtain q where q: "aicwf_rxframe_enqueue (rxq (dev s)) p = (q, True)" "d = (dev s)\<lparr>rxq := q\<rparr>"
    using irq_enq(2) by (auto simp: aicwf_sdio_enq_rxpkt_queue_def split: prod.splits)
  have "fq_items q 0 = fq_items (rxq (dev s)) 0 @ [p]" using enq_one(5) [OF _ _ q(1)] irq_enq(3) by (simp add: rx_counted_def)
  then show ?case using irq_enq(7) by (simp add: rx_logged_def q(2) busy_def)
next
  case (rx_take s p q)
  have "fq_items (rxq (dev s)) 0 = p # fq_items q 0" using deq_one(5) [OF _ _ rx_take(3)] rx_take(4) by (simp add: rx_counted_def)
  then show ?case using rx_take(1,8) by (simp add: rx_logged_def busy_def)
next
  case (rx_done s p d)
  obtain through where l: "accepted s = through @ [p] @ fq_items (rxq (dev s)) 0" "events (dev s) = concat (map (\<lambda>p. block_events e (f p)) through)"
    using rx_done(1,7) by (auto simp: rx_logged_def busy_def)
  have "events d = events (dev s) @ block_events e (f p)" using process_block_holds [OF _ rx_done(4,5,2)] rx_done(6) l(1) by simp
  then show ?case using l process_block_queue [OF rx_done(2)]
    unfolding rx_logged_def by (intro exI [of _ "through @ [p]"]) (simp add: busy_def count_down_def)
next
  case (rx_fail s p d)
  then have "p \<in> set (accepted s)" by (auto simp: rx_logged_def busy_def)
  then show ?case using process_block_holds [OF _ rx_fail(4,5,2)] rx_fail(6) by blast
qed (simp_all add: rx_logged_def busy_def rx_count_up_def)

lemma rx_reachable_logged:
  assumes "(rx_step e)\<^sup>*\<^sup>* rx_start s" "\<forall>n. skb_alloc e n" "\<forall>n. msg_alloc e n" "\<forall>p \<in> set (accepted s). block_holds p (f p)"
  shows "rx_logged e f s"
  using assms(1,4)
proof (induction rule: rtranclp_induct)
  case base
  have "fq_items (aicwf_frame_queue_init 1 MAX_RXQLEN :: rx_skb frame_queue) 0 = []" by (simp add: fq_items_def aicwf_frame_queue_init_def)
  then show ?case by (simp add: rx_logged_def rx_start_def rx_dev_init_def busy_def)
next
  case (step s t)
  then show ?case using rx_step_logged [OF step(2) rx_reachable_counted [OF step(1)] assms(2,3)] rx_step_accepted [OF step(2)] by blast
qed

text \<open>C7. The receive path delivers: while allocations succeed and the blocks hold well-formed units, however
  the interrupt handler and the receive thread interleave, the events handed up are those of the
  units of the blocks accepted, once and in order; what is missing is in the queue or being unpacked,
  and no run of the thread has ended in an error.\<close>

theorem rx_delivers:
  assumes "(rx_step e)\<^sup>*\<^sup>* rx_start s" "\<forall>n. skb_alloc e n" "\<forall>n. msg_alloc e n" "\<forall>p \<in> set (accepted s). block_holds p (f p)"
  shows "\<exists>through. accepted s = through @ busy s @ fq_items (rxq (dev s)) 0 \<and>
    events (dev s) = concat (map (\<lambda>p. concat (map (unit_events e) (f p))) through)"
  using rx_reachable_logged [OF assms] by (simp add: rx_logged_def block_events_def)

text \<open>C13. No wake-up is lost: as long as no run of the thread has ended in an error, a thread that waits
  without a pending completion has an empty queue, or the interrupt handler is still at work on the
  only block and its check of the count will complete.\<close>

theorem rx_wakeup_not_lost:
  assumes "(rx_step e)\<^sup>*\<^sup>* rx_start s" "rx_bus_up e" "lost s = 0" "rxt s = RxWaiting" "trgg s = 0"
  shows "if aicwf_is_framequeue_empty (rxq (dev s)) then rx_cnt (dev s) = (if irq s = IrqQueued then -1 else 0)
    else irq s = IrqQueued \<and> rx_cnt (rx_count_up (dev s)) = 1 \<or> irq s = IrqCheck \<and> rx_cnt (dev s) = 1"
proof -
  have c: "rx_counted s" "rx_awake s" using rx_reachable_counted rx_reachable_awake assms(1,2) by blast+
  define q where "q = rxq (dev s)"
  have q: "fq_ok q" "rx_cnt (dev s) = int (unat (qcnt q)) - (if irq s = IrqQueued then 1 else 0)"
    using c(1) assms(3,4) by (auto simp: rx_counted_def busy_def q_def)
  have e: "aicwf_is_framequeue_empty q \<longleftrightarrow> qcnt q = 0" using empty_iff [OF q(1)] by blast
  show ?thesis
  proof (cases "qcnt q = 0")
    case True
    then show ?thesis using e q(2) by (simp add: q_def)
  next
    case False
    then have "irq s \<noteq> IrqIdle" "unat (qcnt q) = 1" using c(2) assms(3-5) by (simp_all add: rx_awake_def q_def)
    then show ?thesis using False e q(2) by (cases "irq s") (simp_all add: q_def rx_count_up_def)
  qed
qed

text \<open>The stalled thread: it waits, nothing will wake it, and the count is beyond one for good.\<close>

definition stalled :: "rx_threads \<Rightarrow> bool" where
  "stalled s \<longleftrightarrow> rx_counted s \<and> rxt s = RxWaiting \<and> trgg s = 0 \<and> 0 < lost s \<and> qcnt (rxq (dev s)) \<noteq> 0"

lemma rx_step_stalled: "rx_step e s t \<Longrightarrow> stalled s \<Longrightarrow> stalled t \<and> events (dev t) = events (dev s)"
proof (induction rule: rx_step.induct)
  case (irq_enq s p d)
  obtain q where q: "aicwf_rxframe_enqueue (rxq (dev s)) p = (q, True)" "d = (dev s)\<lparr>rxq := q\<rparr>"
    using irq_enq(2) by (auto simp: aicwf_sdio_enq_rxpkt_queue_def split: prod.splits)
  have c: "fq_ok (rxq (dev s))" "num_prio (rxq (dev s)) = 1" using irq_enq(3) by (auto simp: stalled_def rx_counted_def)
  have "qcnt q \<noteq> 0" using enq_one(4) [OF c q(1)] by auto
  then show ?case using irq_enq(3) rx_step_counted [OF rx_step.irq_enq [OF irq_enq(1,2), where e = e]] by (simp add: stalled_def q(2))
next
  case (irq_done s)
  have "0 < uint (qcnt (rxq (dev s)))" using irq_done(2) by (simp add: stalled_def uint_pos_iff)
  then have "rx_cnt (dev s) \<noteq> 1" using irq_done by (simp add: stalled_def rx_counted_def busy_def)
  then show ?case using irq_done(2) rx_step_counted [OF rx_step.irq_done [OF irq_done(1), where e = e]] by (simp add: stalled_def)
next
  case (irq_full s p d)
  then show ?case using rx_step_counted [OF rx_step.irq_full [OF irq_full(1,2), where e = e]] by (simp add: stalled_def)
next
  case (irq_none s)
  then show ?case using rx_step_counted [OF rx_step.irq_none [OF irq_none(1), where e = e]] by (simp add: stalled_def)
next
  case (irq_count s)
  then show ?case using rx_step_counted [OF rx_step.irq_count [OF irq_count(1), where e = e]] by (simp add: stalled_def rx_count_up_def)
qed (simp_all add: stalled_def)

text \<open>C33. One failed message allocation stalls reception for good: the block is gone but still counted, so
  once the thread waits with a block queued and no completion pending, the count never is one
  again, nothing wakes the thread and nothing more is delivered.\<close>

theorem rx_stalls:
  assumes "(rx_step e)\<^sup>*\<^sup>* rx_start s" "0 < lost s" "rxt s = RxWaiting" "trgg s = 0" "\<not> aicwf_is_framequeue_empty (rxq (dev s))" "(rx_step e)\<^sup>*\<^sup>* s t"
  shows "rxt t = RxWaiting \<and> trgg t = 0 \<and> events (dev t) = events (dev s) \<and> \<not> aicwf_is_framequeue_empty (rxq (dev t))"
proof -
  have e: "aicwf_is_framequeue_empty (rxq (dev u)) \<longleftrightarrow> qcnt (rxq (dev u)) = 0" if "rx_counted u" for u
    using empty_iff [of "rxq (dev u)"] that by (auto simp: rx_counted_def)
  have "rx_counted s" using rx_reachable_counted [OF assms(1)] .
  then have "stalled s" using assms(2-5) e by (simp add: stalled_def)
  with assms(6) have "stalled t \<and> events (dev t) = events (dev s)"
    by (induction rule: rtranclp_induct) (auto dest: rx_step_stalled)
  then show ?thesis using e [of t] by (auto simp: stalled_def)
qed

subsection \<open>Witnesses\<close>

lemma rx_arrival:
  assumes "rx_counted s" "irq s = IrqIdle" "unat (qcnt (rxq (dev s))) < unat (qmax (rxq (dev s)))"
  obtains t where "(rx_step e)\<^sup>*\<^sup>* s t" "irq t = IrqIdle" "rxt t = rxt s" "lost t = lost s" "accepted t = accepted s @ [p]" "fq_items (rxq (dev t)) 0 = fq_items (rxq (dev s)) 0 @ [p]"
    "unat (qcnt (rxq (dev t))) = Suc (unat (qcnt (rxq (dev s))))" "qmax (rxq (dev t)) = qmax (rxq (dev s))" "events (dev t) = events (dev s)"
    "n_allocs (dev t) = n_allocs (dev s)" "trgg t = (if rx_cnt (dev s) = 0 then Suc (trgg s) else trgg s)" "rx_cnt (dev t) = rx_cnt (dev s) + 1"
proof -
  have ok: "fq_ok (rxq (dev s))" "num_prio (rxq (dev s)) = 1" using assms(1) by (simp_all add: rx_counted_def)
  have "sum_list (map length (queuelist (rxq (dev s)))) \<le> unat (qcnt (rxq (dev s)))" "length (queuelist (rxq (dev s))) = 8" using ok by (simp_all add: fq_ok_def)
  then have "length (queuelist (rxq (dev s)) ! 0) \<le> unat (qcnt (rxq (dev s)))"
    using member_le_sum_list [of "length (queuelist (rxq (dev s)) ! 0)" "map length (queuelist (rxq (dev s)))"] by force
  then obtain q where q: "aicwf_rxframe_enqueue (rxq (dev s)) p = (q, True)"
    using assms(3) by (auto simp: aicwf_rxframe_enqueue_def aicwf_frame_enq_def word_less_nat_alt)
  define d where "d = (dev s)\<lparr>rxq := q\<rparr>"
  define s1 where "s1 = s\<lparr>dev := d, irq := IrqQueued, accepted := accepted s @ [p]\<rparr>"
  define s2 where "s2 = s1\<lparr>dev := rx_count_up d, irq := IrqCheck\<rparr>"
  define s3 where "s3 = s2\<lparr>irq := IrqIdle, trgg := (if rx_cnt (dev s2) = 1 then Suc (trgg s2) else trgg s2)\<rparr>"
  have "rx_step e s s1" unfolding s1_def by (rule irq_enq [OF assms(2)]) (simp add: aicwf_sdio_enq_rxpkt_queue_def q d_def)
  moreover have "rx_step e s1 s2" unfolding s2_def using irq_count [of s1 e] by (simp add: s1_def)
  moreover have "rx_step e s2 s3" unfolding s3_def using irq_done [of s2 e] by (simp add: s2_def)
  ultimately have "(rx_step e)\<^sup>*\<^sup>* s s3" by (meson converse_rtranclp_into_rtranclp rtranclp.rtrancl_refl)
  then show thesis by (rule that) (simp_all add: s3_def s2_def s1_def d_def rx_count_up_def enq_one [OF ok q])
qed

lemma start_fields: "irq rx_start = IrqIdle" "rxt rx_start = RxWaiting" "lost rx_start = 0" "trgg rx_start = 0" "unat (qcnt (rxq (dev rx_start))) = 0"
  "unat (qmax (rxq (dev rx_start))) = 2000" "rx_cnt (dev rx_start) = 0" "events (dev rx_start) = []" "accepted rx_start = []" "fq_items (rxq (dev rx_start)) 0 = []" "n_allocs (dev rx_start) = 0"
  by (simp_all add: rx_start_def rx_dev_init_def aicwf_frame_queue_init_def MAX_RXQLEN_def unat_of_nat_small fq_items_def)

text \<open>The waking of the thread and its taking of the only block.\<close>

lemma rx_pickup:
  assumes "rx_counted s" "rxt s = RxWaiting" "trgg s = Suc n" "rx_bus_up e" "unat (qcnt (rxq (dev s))) = 1"
  obtains t where "(rx_step e)\<^sup>*\<^sup>* s t" "rxt t = RxBusy (hd (fq_items (rxq (dev s)) 0))" "irq t = irq s" "lost t = lost s" "accepted t = accepted s" "trgg t = n"
    "unat (qcnt (rxq (dev t))) = 0" "qmax (rxq (dev t)) = qmax (rxq (dev s))" "events (dev t) = events (dev s)" "n_allocs (dev t) = n_allocs (dev s)" "rx_cnt (dev t) = rx_cnt (dev s)"
proof -
  have ok: "fq_ok (rxq (dev s))" "num_prio (rxq (dev s)) = 1" using assms(1) by (simp_all add: rx_counted_def)
  have ne: "\<not> aicwf_is_framequeue_empty (rxq (dev s))" using empty_iff [OF ok(1)] assms(5) by auto
  obtain x q where q: "aicwf_frame_dequeue (rxq (dev s)) = (Some x, q)" using deq_total [OF ok(1) ne] by blast
  define s1 where "s1 = s\<lparr>rxt := RxChecking, trgg := n\<rparr>"
  define s2 where "s2 = s1\<lparr>dev := (dev s1)\<lparr>rxq := q\<rparr>, rxt := RxBusy x\<rparr>"
  have "rx_step e s s1" unfolding s1_def by (rule rx_wake [OF assms(2-4)])
  moreover have "rx_step e s1 s2" unfolding s2_def by (rule rx_take) (use ne q in \<open>simp_all add: s1_def\<close>)
  ultimately have "(rx_step e)\<^sup>*\<^sup>* s s2" by (meson converse_rtranclp_into_rtranclp rtranclp.rtrancl_refl)
  then show thesis by (rule that) (use deq_one [OF ok q] assms(5) in \<open>simp_all add: s2_def s1_def\<close>)
qed

text \<open>A block with one message, and environments in which allocations succeed or fail.\<close>

definition demo_unit :: rx_unit where "demo_unit = RxMsg SDIO_TYPE_CFG_CMD_RSP [5]"
definition demo_block :: rx_skb where "demo_block = (\<lambda>i. rx_bytes demo_unit ! i, 8)"
definition demo_rx_env :: "bool \<Rightarrow> rx_env" where "demo_rx_env b = \<lparr>skb_alloc = (\<lambda>n. True), msg_alloc = (\<lambda>n. b), rx_bus_up = True\<rparr>"

lemma demo_unit_facts: "rx_bytes demo_unit = [1, 0, 0x11, 0, 5, 0, 0, 0]" "unit_events (demo_rx_env True) demo_unit = [HandleMsg [5]]" "rx_unit_ok demo_unit"
proof -
  have "replicate 3 (0 :: u8) = [0, 0, 0]" by (simp add: numeral_3_eq_3)
  then show "rx_bytes demo_unit = [1, 0, 0x11, 0, 5, 0, 0, 0]" by (simp add: demo_unit_def rx_pad_def SDIO_TYPE_CFG_CMD_RSP_def)
qed (simp_all add: demo_unit_def msg_events_def SDIO_TYPE_CFG_CMD_RSP_def SDIO_TYPE_CFG_DATA_CFM_def SDIO_TYPE_CFG_PRINT_def SDIO_TYPE_CFG_def demo_rx_env_def)

lemma demo_block_holds: "block_holds demo_block [demo_unit]"
proof -
  have "holds_at (fst demo_block) 0 (rx_bytes demo_unit)"
    unfolding holds_at_def peek_def by (rule nth_equalityI) (simp_all add: demo_block_def)
  then show ?thesis using demo_unit_facts(1,3) by (simp add: block_holds_def demo_block_def exI [of _ "[]"])
qed

lemma demo_picked:
  obtains s where "(rx_step (demo_rx_env b))\<^sup>*\<^sup>* rx_start s" "rxt s = RxBusy demo_block" "irq s = IrqIdle" "lost s = 0" "accepted s = [demo_block]" "trgg s = 0"
    "unat (qcnt (rxq (dev s))) = 0" "unat (qmax (rxq (dev s))) = 2000" "rx_cnt (dev s) = 1" "n_allocs (dev s) = 0"
proof -
  obtain s1 where s1: "(rx_step (demo_rx_env b))\<^sup>*\<^sup>* rx_start s1" "irq s1 = IrqIdle" "rxt s1 = RxWaiting" "lost s1 = 0" "accepted s1 = [demo_block]"
    "fq_items (rxq (dev s1)) 0 = [demo_block]" "unat (qcnt (rxq (dev s1))) = 1" "qmax (rxq (dev s1)) = qmax (rxq (dev rx_start))" "n_allocs (dev s1) = 0" "trgg s1 = 1" "rx_cnt (dev s1) = 1"
    by (rule rx_arrival [OF start_inv(1) start_fields(1), of "demo_rx_env b" demo_block]) (simp_all add: start_fields)
  obtain s2 where s2: "(rx_step (demo_rx_env b))\<^sup>*\<^sup>* s1 s2" "rxt s2 = RxBusy (hd (fq_items (rxq (dev s1)) 0))" "irq s2 = irq s1" "lost s2 = lost s1"
    "accepted s2 = accepted s1" "trgg s2 = 0" "unat (qcnt (rxq (dev s2))) = 0" "qmax (rxq (dev s2)) = qmax (rxq (dev s1))"
    "n_allocs (dev s2) = n_allocs (dev s1)" "rx_cnt (dev s2) = rx_cnt (dev s1)"
    by (rule rx_pickup [OF rx_reachable_counted [OF s1(1)] s1(3), of 0 "demo_rx_env b"]) (simp_all add: s1 demo_rx_env_def)
  show thesis by (rule that [OF rtranclp_trans [OF s1(1) s2(1)]]) (simp_all add: s1 s2 start_fields)
qed

lemma rx_delivers_witness:
  "\<exists>s. (rx_step (demo_rx_env True))\<^sup>*\<^sup>* rx_start s \<and> accepted s = [demo_block] \<and> events (dev s) = [HandleMsg [5]]"
proof -
  obtain s where s: "(rx_step (demo_rx_env True))\<^sup>*\<^sup>* rx_start s" "rxt s = RxBusy demo_block" "accepted s = [demo_block]" "unat (qcnt (rxq (dev s))) = 0"
    by (rule demo_picked)
  have al: "\<forall>n. skb_alloc (demo_rx_env True) n" "\<forall>n. msg_alloc (demo_rx_env True) n" by (simp_all add: demo_rx_env_def)
  obtain d where b: "process_block (demo_rx_env True) demo_block (dev s) = Some (d, True)" using process_block_success [OF demo_block_holds al] by blast
  define t where "t = s\<lparr>dev := count_down d, rxt := RxChecking\<rparr>"
  have r: "(rx_step (demo_rx_env True))\<^sup>*\<^sup>* rx_start t" unfolding t_def using s(1) rx_done [OF s(2) b] by (rule rtranclp.rtrancl_into_rtrancl)
  have "fq_items (rxq (dev t)) 0 = []"
    using empty_iff [of "rxq (dev s)"] rx_reachable_counted [OF s(1)] s(4) process_block_queue [OF b] by (auto simp: rx_counted_def t_def count_down_def unat_eq_0)
  then have a: "accepted t = [demo_block]" "busy t @ fq_items (rxq (dev t)) 0 = []" by (simp_all add: t_def s(3) busy_def)
  have "\<forall>p \<in> set (accepted t). block_holds p [demo_unit]" using demo_block_holds a(1) by simp
  from rx_delivers [OF r al this] obtain through where "accepted t = through @ busy t @ fq_items (rxq (dev t)) 0"
    "events (dev t) = concat (map (\<lambda>p. concat (map (unit_events (demo_rx_env True)) [demo_unit])) through)" by blast
  then have "events (dev t) = [HandleMsg [5]]" using a demo_unit_facts(2) by auto
  then show ?thesis using r a(1) by blast
qed

lemma rx_wakeup_not_lost_witness:
  "\<exists>s. (rx_step (demo_rx_env True))\<^sup>*\<^sup>* rx_start s \<and> \<not> aicwf_is_framequeue_empty (rxq (dev s)) \<and> rx_cnt (rx_count_up (dev s)) = 1"
proof -
  obtain q where q: "aicwf_rxframe_enqueue (rxq (dev rx_start)) demo_block = (q, True)"
    by (simp add: aicwf_rxframe_enqueue_def aicwf_frame_enq_def rx_start_def rx_dev_init_def word_less_nat_alt)
      (simp add: aicwf_frame_queue_init_def MAX_RXQLEN_def unat_of_nat_small)
  define s where "s = rx_start\<lparr>dev := (dev rx_start)\<lparr>rxq := q\<rparr>, irq := IrqQueued, accepted := accepted rx_start @ [demo_block]\<rparr>"
  have "rx_step (demo_rx_env True) rx_start s" unfolding s_def
    by (rule irq_enq [OF start_fields(1)]) (simp add: aicwf_sdio_enq_rxpkt_queue_def q)
  then have r: "(rx_step (demo_rx_env True))\<^sup>*\<^sup>* rx_start s" by (rule r_into_rtranclp)
  have c: "fq_ok (rxq (dev rx_start))" "num_prio (rxq (dev rx_start)) = 1" using start_inv(1) by (simp_all add: rx_counted_def)
  have ne: "\<not> aicwf_is_framequeue_empty (rxq (dev s))" using enq_one(1,5) [OF c q] empty_iff(1) [of q] by (auto simp: s_def)
  have "rx_bus_up (demo_rx_env True)" "lost s = 0" "rxt s = RxWaiting" "trgg s = 0" "irq s = IrqQueued"
    by (simp_all add: s_def demo_rx_env_def start_fields)
  from rx_wakeup_not_lost [OF r this(1-4)] this(5) ne show ?thesis using r by auto
qed

lemma rx_stalls_witness:
  "\<exists>s t. (rx_step (demo_rx_env False))\<^sup>*\<^sup>* rx_start s \<and> (rx_step (demo_rx_env False))\<^sup>*\<^sup>* s t \<and> length (accepted t) = 3 \<and>
     rxt t = RxWaiting \<and> trgg t = 0 \<and> events (dev t) = events (dev s)"
proof -
  let ?e = "demo_rx_env False"
  obtain s where s: "(rx_step ?e)\<^sup>*\<^sup>* rx_start s" "rxt s = RxBusy demo_block" "irq s = IrqIdle" "lost s = 0" "accepted s = [demo_block]" "trgg s = 0"
    "unat (qcnt (rxq (dev s))) = 0" "unat (qmax (rxq (dev s))) = 2000" "rx_cnt (dev s) = 1" by (rule demo_picked)
  have "fst demo_block 0 = 1" "fst demo_block 1 = 0" "fst demo_block (Suc (Suc 0)) = 0x11" "snd demo_block = 8" by (simp_all add: demo_block_def demo_unit_facts(1))
  then have "deframe ?e (fst demo_block) (0, snd demo_block) k evs = Some (evs, Suc k, False)" for k evs
    by (subst deframe.simps) (simp add: aicwf_another_ptk_def le16_def is_data_def SDIO_TYPE_CFG_def demo_rx_env_def numeral_2_eq_2)
  then obtain d where b: "process_block ?e demo_block (dev s) = Some (d, False)" by (simp add: process_block_def)
  define u where "u = s\<lparr>dev := d, rxt := RxWaiting, lost := Suc (lost s)\<rparr>"
  have ru: "(rx_step ?e)\<^sup>*\<^sup>* rx_start u" unfolding u_def using s(1) rx_fail [OF s(2) b] by (rule rtranclp.rtrancl_into_rtrancl)
  have u: "irq u = IrqIdle" "rxt u = RxWaiting" "lost u = 1" "trgg u = 0" "rxq (dev u) = rxq (dev s)" "rx_cnt (dev u) = 1" "accepted u = [demo_block]"
    using s process_block_queue [OF b] by (simp_all add: u_def)
  obtain v where v: "(rx_step ?e)\<^sup>*\<^sup>* u v" "irq v = IrqIdle" "rxt v = rxt u" "lost v = lost u" "accepted v = accepted u @ [demo_block]"
    "unat (qcnt (rxq (dev v))) = Suc (unat (qcnt (rxq (dev u))))" "qmax (rxq (dev v)) = qmax (rxq (dev u))" "trgg v = (if rx_cnt (dev u) = 0 then Suc (trgg u) else trgg u)"
    by (rule rx_arrival [OF rx_reachable_counted [OF ru] u(1), of ?e demo_block]) (simp_all add: u s)
  have rv: "(rx_step ?e)\<^sup>*\<^sup>* rx_start v" using ru v(1) by (rule rtranclp_trans)
  have cv: "rx_counted v" using rv by (rule rx_reachable_counted)
  obtain t where t: "(rx_step ?e)\<^sup>*\<^sup>* v t" "accepted t = accepted v @ [demo_block]"
    by (rule rx_arrival [OF cv v(2), of ?e demo_block]) (simp_all add: u s v)
  have "\<not> aicwf_is_framequeue_empty (rxq (dev v))" using empty_iff [of "rxq (dev v)"] cv v(6) by (auto simp: rx_counted_def)
  with v u have "rxt t = RxWaiting \<and> trgg t = 0 \<and> events (dev t) = events (dev v) \<and> \<not> aicwf_is_framequeue_empty (rxq (dev t))"
    by (intro rx_stalls [OF rv _ _ _ _ t(1)]) simp_all
  then show ?thesis using rv t v(5) u(7) by (intro exI [of _ v] exI [of _ t]) simp
qed

end
