(* ===== verification/Sdio_Card.thy ===== *)
theory Sdio_Card
  imports Sdio_Irq Sdio_Bus
begin

text \<open>
  The registers of the card: their addresses on each chip, the set-up of the SDIO function, and what the
  interrupt handler reads before it queues a block.  Every access to the card is recorded; its result
  and the octet it returns come from the environment, by the number of accesses made before it.
\<close>

subsection \<open>Registers\<close>

datatype card_op =
  SetBlockSize nat | EnableFunc | DisableFunc | SetClock u32 | F0Write u8 u8 | WriteB u8 u8 | ReadB u8 | ReadFifo u8 nat
| ClaimIrq | ReleaseIrq

record card_env =
  op_ret :: "nat \<Rightarrow> int"
  op_val :: "nat \<Rightarrow> u8"
  op_fifo :: "nat \<Rightarrow> nat \<Rightarrow> u8"
  sdio_clock :: u32

record aic_sdio_reg =
  bytemode_len_reg :: u8
  intr_config_reg :: u8
  sleep_reg :: u8
  wakeup_reg :: u8
  flow_ctrl_reg :: u8
  flowctrl_mask_reg :: u8
  register_block :: u8
  bytemode_enable_reg :: u8
  block_cnt_reg :: u8
  misc_int_status_reg :: u8
  rd_fifo_addr :: u8
  wr_fifo_addr :: u8

definition card_do :: "card_env \<Rightarrow> card_op \<Rightarrow> card_op list \<Rightarrow> int \<times> card_op list" where
  "card_do e a log = (op_ret e (length log), log @ [a])"

definition aicwf_sdio_readb :: "card_env \<Rightarrow> u8 \<Rightarrow> card_op list \<Rightarrow> int \<times> u8 \<times> card_op list" where
  "aicwf_sdio_readb e a log = (op_ret e (length log), op_val e (length log), log @ [ReadB a])"

definition aicwf_sdio_writeb :: "card_env \<Rightarrow> u8 \<Rightarrow> u8 \<Rightarrow> card_op list \<Rightarrow> int \<times> card_op list" where
  "aicwf_sdio_writeb e a v log = card_do e (WriteB a v) log"

text \<open>A register that the chip does not have keeps the zero of its allocation.\<close>

definition aicwf_sdio_reg_init :: "AICWF_IC \<Rightarrow> aic_sdio_reg" where
  "aicwf_sdio_reg_init c =
     (if legacy_chip c
      then \<lparr>bytemode_len_reg = 0x02, intr_config_reg = 0x04, sleep_reg = 0x05, wakeup_reg = 0x09, flow_ctrl_reg = 0x0A, flowctrl_mask_reg = 0,
        register_block = 0x0B, bytemode_enable_reg = 0x11, block_cnt_reg = 0x12, misc_int_status_reg = 0,
        rd_fifo_addr = 0x08, wr_fifo_addr = 0x07\<rparr>
      else \<lparr>bytemode_len_reg = 0x05, intr_config_reg = 0x00, sleep_reg = 0x01, wakeup_reg = 0x02, flow_ctrl_reg = 0x03, flowctrl_mask_reg = 0,
        register_block = 0, bytemode_enable_reg = 0x07, block_cnt_reg = 0, misc_int_status_reg = 0x04,
        rd_fifo_addr = 0x0F, wr_fifo_addr = 0x10\<rparr>)"

text \<open>The chip a card is taken for; an unknown card keeps the first one and the result \<open>-1\<close> is not used.\<close>

definition aicwf_sdio_chipmatch :: "u16 \<Rightarrow> u16 \<Rightarrow> AICWF_IC \<times> int" where
  "aicwf_sdio_chipmatch vid did =
     (if vid = 0x5449 \<and> did = 0x0145 then (PRODUCT_ID_AIC8801, 0)
      else if vid = 0xc8a1 \<and> did = 0xc08d then (PRODUCT_ID_AIC8800DC, 0)
      else if vid = 0xc8a1 \<and> did = 0x0082 then (PRODUCT_ID_AIC8800D80, 0)
      else (PRODUCT_ID_AIC8801, -1))"

subsection \<open>Setting up the function\<close>

definition set_clock :: "card_env \<Rightarrow> card_op list \<Rightarrow> card_op list" where
  "set_clock e log = (if 0 < sdio_clock e then snd (card_do e (SetClock (sdio_clock e)) log) else log)"

definition check_awake :: "card_env \<Rightarrow> aic_sdio_reg \<Rightarrow> card_op list \<Rightarrow> int \<times> card_op list" where
  "check_awake e r log = (case aicwf_sdio_readb e (sleep_reg r) log of (ret, v, log) \<Rightarrow> (ret, log))"

definition aicwf_sdio_func_init :: "card_env \<Rightarrow> aic_sdio_reg \<Rightarrow> card_op list \<Rightarrow> int \<times> card_op list" where
  "aicwf_sdio_func_init e r log =
     (let (ret, log) = card_do e (SetBlockSize SDIOWIFI_FUNC_BLOCKSIZE) log in
      if ret < 0 then (ret, log) else
      let (ret, log) = card_do e EnableFunc log in
      if ret < 0 then (ret, log) else
      let (ret, log) = aicwf_sdio_writeb e (register_block r) 1 (set_clock e log) in
      if ret < 0 then (ret, log) else
      let (ret, log) = aicwf_sdio_writeb e (bytemode_enable_reg r) 1 log in
      if ret < 0 then (ret, log) else
      let (ret, log) = aicwf_sdio_writeb e (wakeup_reg r) 1 log in
      if ret < 0 then (ret, log) else check_awake e r log)"

definition aicwf_sdiov3_func_init :: "card_env \<Rightarrow> aic_sdio_reg \<Rightarrow> card_op list \<Rightarrow> int \<times> card_op list" where
  "aicwf_sdiov3_func_init e r log =
     (let (ret, log) = card_do e (SetBlockSize SDIOWIFI_FUNC_BLOCKSIZE) log in
      if ret < 0 then (ret, log) else
      let (ret, log) = card_do e EnableFunc log in
      if ret < 0 then (ret, log) else
      let (ret, log) = card_do e (F0Write 0x7F 0xF2) log in
      if ret \<noteq> 0 then (ret, log) else
      let (ret, log) = aicwf_sdio_writeb e (bytemode_enable_reg r) 1 log in
      if ret < 0 then (ret, log) else
      let (ret, log) = aicwf_sdio_writeb e (wakeup_reg r) 0x11 log in
      if ret < 0 then (ret, log) else check_awake e r log)"

definition func_init :: "card_env \<Rightarrow> AICWF_IC \<Rightarrow> card_op list \<Rightarrow> int \<times> card_op list" where
  "func_init e c log =
     (if c \<noteq> PRODUCT_ID_AIC8800D80 then aicwf_sdio_func_init e (aicwf_sdio_reg_init c) log
      else aicwf_sdiov3_func_init e (aicwf_sdio_reg_init c) log)"

lemmas card_simps = card_do_def aicwf_sdio_readb_def aicwf_sdio_writeb_def

subsection \<open>What the interrupt handler reads\<close>

text \<open>The status register is read until the read succeeds and, on the older chips, its highest bit is clear.
  The loops have no other end.\<close>

partial_function (option) irq_status :: "card_env \<Rightarrow> bool \<Rightarrow> u8 \<Rightarrow> card_op list \<Rightarrow> (u8 \<times> card_op list) option" where
  "irq_status e masked a log =
     (case aicwf_sdio_readb e a log of (ret, v, log) \<Rightarrow>
        if ret \<noteq> 0 \<or> (masked \<and> v AND 0x80 \<noteq> 0) then irq_status e masked a log else Some (v, log))"

definition aicwf_sdio_intr_get_len_bytemode :: "card_env \<Rightarrow> bool \<Rightarrow> aic_sdio_reg \<Rightarrow> nat \<Rightarrow> card_op list \<Rightarrow> nat \<times> card_op list" where
  "aicwf_sdio_intr_get_len_bytemode e up r data_len log =
     (if \<not> up then (data_len, log)
      else case aicwf_sdio_readb e (bytemode_len_reg r) log of (ret, v, log) \<Rightarrow> (unat v * 4, log))"

text \<open>A block of \<open>n\<close> octets, or none when the bus is down, no buffer is left, or the transfer fails.\<close>

definition aicwf_sdio_readframes :: "card_env \<Rightarrow> bool \<Rightarrow> bool \<Rightarrow> aic_sdio_reg \<Rightarrow> nat \<Rightarrow> card_op list \<Rightarrow> rx_skb option \<times> card_op list" where
  "aicwf_sdio_readframes e up alloc r n log =
     (if \<not> up \<or> \<not> alloc \<or> n = 0 then (None, log)
      else let (ret, log') = card_do e (ReadFifo (rd_fifo_addr r) n) log
        in (if ret \<noteq> 0 then None else Some (op_fifo e (length log), n), log'))"

definition irq_legacy :: "card_env \<Rightarrow> bool \<Rightarrow> bool \<Rightarrow> aic_sdio_reg \<Rightarrow> card_op list \<Rightarrow> (rx_skb option \<times> card_op list) option" where
  "irq_legacy e up alloc r log =
     (case irq_status e True (block_cnt_reg r) log of None \<Rightarrow> None | Some (st, log) \<Rightarrow>
        let len = unat st * SDIOWIFI_FUNC_BLOCKSIZE in
        if st = 0 then Some (None, log)
        else if st < 64 then Some (aicwf_sdio_readframes e up alloc r len log)
        else let (len, log) = aicwf_sdio_intr_get_len_bytemode e up r len log in Some (aicwf_sdio_readframes e up alloc r len log))"

definition clear_soft_irq :: "card_env \<Rightarrow> aic_sdio_reg \<Rightarrow> card_op list \<Rightarrow> card_op list" where
  "clear_soft_irq e r log =
     (case aicwf_sdio_readb e (sleep_reg r) log of (ret, v, log) \<Rightarrow> snd (aicwf_sdio_writeb e (sleep_reg r) (v AND NOT 1) log))"

text \<open>The length of the previous block is in use when the byte mode finds the bus down.\<close>

definition irq_v3 :: "card_env \<Rightarrow> bool \<Rightarrow> bool \<Rightarrow> nat \<Rightarrow> aic_sdio_reg \<Rightarrow> card_op list \<Rightarrow> (rx_skb option \<times> card_op list) option" where
  "irq_v3 e up alloc old r log =
     (case irq_status e False (misc_int_status_reg r) log of None \<Rightarrow> None | Some (st, log) \<Rightarrow>
        let log = (if st AND 0x80 \<noteq> 0 then clear_soft_irq e r log else log); f2 = st OR 8 in
        if st = 0 then Some (None, log)
        else let (len, log) =
               (if 120 < f2 then if f2 = 127 then aicwf_sdio_intr_get_len_bytemode e up r old log
                  else (unat (st AND 7) * SDIOWIFI_FUNC_BLOCKSIZE, log)
                else if st = 120 then aicwf_sdio_intr_get_len_bytemode e up r old log
                else (unat (st AND 0x7F) * SDIOWIFI_FUNC_BLOCKSIZE, log))
          in Some (aicwf_sdio_readframes e up alloc r len log))"

definition irq_fetch :: "card_env \<Rightarrow> bool \<Rightarrow> bool \<Rightarrow> nat \<Rightarrow> AICWF_IC \<Rightarrow> card_op list \<Rightarrow> (rx_skb option \<times> card_op list) option" where
  "irq_fetch e up alloc old c log =
     (if legacy_chip c then irq_legacy e up alloc (aicwf_sdio_reg_init c) log else irq_v3 e up alloc old (aicwf_sdio_reg_init c) log)"

text \<open>The whole handler: the block it read is queued and counted, and the thread is woken when one block is counted.\<close>

definition aicwf_sdio_enq_rxpkt :: "rx_skb \<Rightarrow> rx_threads \<Rightarrow> rx_threads" where
  "aicwf_sdio_enq_rxpkt p s =
     (case aicwf_sdio_enq_rxpkt_queue p (dev s) of
        (d, True) \<Rightarrow> s\<lparr>dev := rx_count_up d, accepted := accepted s @ [p]\<rparr>
      | (d, False) \<Rightarrow> s)"

definition irq_signal :: "rx_threads \<Rightarrow> rx_threads" where
  "irq_signal s = (if rx_cnt (dev s) = 1 then s\<lparr>trgg := Suc (trgg s)\<rparr> else s)"

definition aicwf_sdio_hal_irqhandler ::
    "card_env \<Rightarrow> bool \<Rightarrow> bool \<Rightarrow> nat \<Rightarrow> AICWF_IC \<Rightarrow> rx_threads \<Rightarrow> card_op list \<Rightarrow> (rx_threads \<times> card_op list) option" where
  "aicwf_sdio_hal_irqhandler e up alloc old c s log =
     (if \<not> up then Some (s, log)
      else case irq_fetch e up alloc old c log of
        None \<Rightarrow> None
      | Some (None, log) \<Rightarrow> Some (irq_signal s, log)
      | Some (Some p, log) \<Rightarrow> Some (irq_signal (aicwf_sdio_enq_rxpkt p s), log))"

subsection \<open>The handler in the concurrent model\<close>

text \<open>The handler as a whole is a run of its steps between the receive thread's.\<close>

lemma enq_is_steps:
  assumes "irq s = IrqIdle"
  shows "(rx_step e)\<^sup>*\<^sup>* s ((aicwf_sdio_enq_rxpkt p s)\<lparr>irq := IrqCheck\<rparr>)"
proof -
  obtain d b where q: "aicwf_sdio_enq_rxpkt_queue p (dev s) = (d, b)" by fastforce
  show ?thesis
  proof (cases b)
    case True
    define u where "u = s\<lparr>dev := d, irq := IrqQueued, accepted := accepted s @ [p]\<rparr>"
    have "rx_step e s u" unfolding u_def by (rule irq_enq [OF assms]) (simp add: q True)
    moreover have "rx_step e u (u\<lparr>dev := rx_count_up (dev u), irq := IrqCheck\<rparr>)" by (rule irq_count) (simp add: u_def)
    moreover have "aicwf_sdio_enq_rxpkt p s = s\<lparr>dev := rx_count_up d, accepted := accepted s @ [p]\<rparr>" by (simp add: aicwf_sdio_enq_rxpkt_def q True)
    then have "u\<lparr>dev := rx_count_up (dev u), irq := IrqCheck\<rparr> = (aicwf_sdio_enq_rxpkt p s)\<lparr>irq := IrqCheck\<rparr>" by (cases s) (simp add: u_def)
    ultimately show ?thesis by (metis converse_rtranclp_into_rtranclp rtranclp.rtrancl_refl)
  next
    case False
    then show ?thesis using irq_full [OF assms, of p d e] by (auto simp: aicwf_sdio_enq_rxpkt_def q)
  qed
qed

lemma check_is_step: "rx_step e (s\<lparr>irq := IrqCheck\<rparr>) ((irq_signal s)\<lparr>irq := IrqIdle\<rparr>)"
  using irq_done [of "s\<lparr>irq := IrqCheck\<rparr>" e] by (cases s) (auto simp: irq_signal_def)

lemma idle_simps: "irq s = IrqIdle \<Longrightarrow> (irq_signal s)\<lparr>irq := IrqIdle\<rparr> = irq_signal s" "irq (aicwf_sdio_enq_rxpkt p s) = irq s"
  by (cases s; simp add: irq_signal_def aicwf_sdio_enq_rxpkt_def split: prod.splits bool.splits)+

text \<open>The interrupt handler as it is written (status registers, lengths, transfer and wake-up included)
  refines the handler of the receive model: whatever the card answers, what it does to the queue, the
  count and the completion is a run of the steps \<open>irq_*\<close>.\<close>

theorem irq_handler_refines:
  assumes "irq s = IrqIdle" "aicwf_sdio_hal_irqhandler ce up alloc old c s log = Some (t, log')"
  shows "(rx_step e)\<^sup>*\<^sup>* s t \<and> irq t = IrqIdle"
proof -
  have none: "(rx_step e)\<^sup>*\<^sup>* s (irq_signal s)"
    using irq_none [OF assms(1), of e] check_is_step [of e s] idle_simps(1) [OF assms(1)] by (metis converse_rtranclp_into_rtranclp rtranclp.rtrancl_refl)
  have some: "(rx_step e)\<^sup>*\<^sup>* s (irq_signal (aicwf_sdio_enq_rxpkt p s))" for p
    using enq_is_steps [OF assms(1), of e p] check_is_step [of e "aicwf_sdio_enq_rxpkt p s"] idle_simps assms(1)
    by (metis rtranclp.rtrancl_into_rtrancl)
  have "t = s \<or> t = irq_signal s \<or> (\<exists>p. t = irq_signal (aicwf_sdio_enq_rxpkt p s))"
    using assms(2) by (auto simp: aicwf_sdio_hal_irqhandler_def split: option.splits prod.splits if_splits)
  then show ?thesis using none some assms(1) idle_simps(2) by (auto simp: irq_signal_def)
qed

subsection \<open>When the handler returns\<close>

definition status_read :: "card_env \<Rightarrow> bool \<Rightarrow> nat \<Rightarrow> bool" where
  "status_read e masked n \<longleftrightarrow> op_ret e n = 0 \<and> (masked \<longrightarrow> op_val e n AND 0x80 = 0)"

lemma irq_status_step:
  "irq_status e m a log = (if status_read e m (length log) then Some (op_val e (length log), log @ [ReadB a]) else irq_status e m a (log @ [ReadB a]))"
  by (subst irq_status.simps) (auto simp: status_read_def aicwf_sdio_readb_def)

lemma irq_status_returns:
  "status_read e m (length log + k) \<Longrightarrow> (\<And>j. j < k \<Longrightarrow> \<not> status_read e m (length log + j)) \<Longrightarrow>
    irq_status e m a log = Some (op_val e (length log + k), log @ replicate (Suc k) (ReadB a))"
proof (induction k arbitrary: log)
  case 0
  then show ?case by (subst irq_status_step) simp
next
  case (Suc k)
  have n: "\<not> status_read e m (length log)" using Suc.prems(2) [of 0] by simp
  have m: "\<not> status_read e m (length (log @ [ReadB a]) + j)" if "j < k" for j using Suc.prems(2) [of "Suc j"] that by simp
  have "irq_status e m a (log @ [ReadB a]) = Some (op_val e (length (log @ [ReadB a]) + k), (log @ [ReadB a]) @ replicate (Suc k) (ReadB a))"
    by (rule Suc.IH) (use Suc.prems(1) m in simp_all)
  then show ?case by (subst irq_status_step) (simp add: n)
qed

lemma irq_status_found: "irq_status e m a log = Some r \<Longrightarrow> \<exists>k. status_read e m (length log + k)"
proof (rule irq_status.raw_induct [where P = "\<lambda>e m a log r. \<exists>k. status_read e m (length log + k)"])
  fix f e m a log r
  assume IH: "\<And>e m a log r. f e m a log = Some r \<Longrightarrow> \<exists>k. status_read e m (length log + k)"
    and step: "(case aicwf_sdio_readb e a log of (ret, v, log) \<Rightarrow>
        if ret \<noteq> 0 \<or> (m \<and> v AND 0x80 \<noteq> 0) then f e m a log else Some (v, log)) = Some r"
  show "\<exists>k. status_read e m (length log + k)"
  proof (cases "status_read e m (length log)")
    case True
    then show ?thesis by (intro exI [of _ 0]) simp
  next
    case False
    then have "f e m a (log @ [ReadB a]) = Some r" using step by (auto simp: aicwf_sdio_readb_def status_read_def split: if_splits)
    from IH [OF this] obtain k where "status_read e m (length (log @ [ReadB a]) + k)" by blast
    then show ?thesis by (intro exI [of _ "Suc k"]) simp
  qed
qed

lemma irq_status_total_iff: "irq_status e m a log \<noteq> None \<longleftrightarrow> (\<exists>n \<ge> length log. status_read e m n)"
proof
  assume "irq_status e m a log \<noteq> None"
  then obtain r where "irq_status e m a log = Some r" by blast
  from irq_status_found [OF this] obtain k where "status_read e m (length log + k)" by blast
  then show "\<exists>n \<ge> length log. status_read e m n" by (intro exI [of _ "length log + k"]) simp
next
  assume "\<exists>n \<ge> length log. status_read e m n"
  then obtain n where "n \<ge> length log" "status_read e m n" by blast
  then have ex: "\<exists>k. status_read e m (length log + k)" by (intro exI [of _ "n - length log"]) simp
  define k where "k = (LEAST k. status_read e m (length log + k))"
  have "irq_status e m a log = Some (op_val e (length log + k), log @ replicate (Suc k) (ReadB a))"
  proof (rule irq_status_returns)
    show "status_read e m (length log + k)" unfolding k_def using ex by (rule LeastI_ex)
    show "\<not> status_read e m (length log + j)" if "j < k" for j using that unfolding k_def by (rule not_less_Least)
  qed
  then show "irq_status e m a log \<noteq> None" by simp
qed

text \<open>C38. The interrupt handler returns exactly when the bus is down or some later read of the status register
  succeeds, on the older chips with the highest bit clear.  There is no other way out: when the card has been
  pulled, so that every access fails, the handler never returns and keeps the thread that serves the bus.\<close>

theorem irq_handler_returns_iff:
  "aicwf_sdio_hal_irqhandler e up alloc old c s log \<noteq> None \<longleftrightarrow> \<not> up \<or> (\<exists>n \<ge> length log. status_read e (legacy_chip c) n)"
proof -
  have "irq_fetch e up alloc old c log \<noteq> None \<longleftrightarrow> (\<exists>n \<ge> length log. status_read e (legacy_chip c) n)"
  proof (cases "legacy_chip c")
    case True
    then show ?thesis using irq_status_total_iff [of e True "block_cnt_reg (aicwf_sdio_reg_init c)" log]
      by (auto simp: irq_fetch_def irq_legacy_def Let_def split: option.splits prod.splits)
  next
    case False
    then show ?thesis using irq_status_total_iff [of e False "misc_int_status_reg (aicwf_sdio_reg_init c)" log]
      by (auto simp: irq_fetch_def irq_v3_def Let_def split: option.splits prod.splits)
  qed
  moreover have "aicwf_sdio_hal_irqhandler e up alloc old c s log \<noteq> None \<longleftrightarrow> \<not> up \<or> irq_fetch e up alloc old c log \<noteq> None"
    by (auto simp: aicwf_sdio_hal_irqhandler_def split: option.splits)
  ultimately show ?thesis by blast
qed


subsection \<open>How much is read\<close>

lemma readframes_len:
  assumes "aicwf_sdio_readframes e up alloc r n log = (x, log')"
  shows "x = None \<or> (\<exists>m. x = Some (m, n))" "n = 0 \<Longrightarrow> x = None \<and> log' = log" "up \<Longrightarrow> alloc \<Longrightarrow> 0 < n \<Longrightarrow> log' = log @ [ReadFifo (rd_fifo_addr r) n]"
  using assms by (auto simp: aicwf_sdio_readframes_def card_simps split: if_splits)

text \<open>A status octet of the older chips announces \<open>st\<close> blocks; 64 and more stand for a length in a register of its own.\<close>

lemma irq_legacy_len:
  assumes "legacy_chip c" "irq_status e True (block_cnt_reg (aicwf_sdio_reg_init c)) log = Some (st, l1)" "0 < st" "st < 64"
  shows "irq_fetch e True True old c log = Some (aicwf_sdio_readframes e True True (aicwf_sdio_reg_init c) (unat st * 512) l1)"
  using assms by (auto simp: irq_fetch_def irq_legacy_def Let_def SDIOWIFI_FUNC_BLOCKSIZE_def)

lemma octet_below_80: "st < 0x80 \<Longrightarrow> st AND 0x7F = st" for st :: u8
proof -
  assume "st < 0x80"
  then have "unat (take_bit 7 st) = unat st" by (simp add: unat_take_bit word_less_nat_alt)
  then have "take_bit 7 st = st" by (rule word_unat_eq_iff [THEN iffD2])
  then show ?thesis by (simp add: take_bit_eq_mask mask_eq_exp_minus_1)
qed

lemma octet_low: "st < 0x70 \<Longrightarrow> st OR 8 \<le> 120 \<and> st AND 0x7F = st" for st :: u8
proof -
  assume st: "st < 0x70"
  then have "unat st \<in> set [0..<112]" by (simp add: word_less_nat_alt)
  moreover have "\<forall>n \<in> set [0..<112]. (of_nat n :: u8) OR 8 \<le> 120" by (simp add: upt_conv_Cons)
  ultimately have "(of_nat (unat st) :: u8) OR 8 \<le> 120" by blast
  then show ?thesis using octet_below_80 [of st] st by (simp add: word_less_nat_alt)
qed

lemma octet_high: "st AND 0x80 \<noteq> 0 \<Longrightarrow> 0x80 \<le> st OR 8" for st :: u8
proof -
  assume h: "st AND 0x80 \<noteq> 0"
  have "st AND 0x80 = 0" if "st < 0x80"
  proof -
    have "(st AND 0x7F) AND 0x80 = 0" unfolding and.assoc by simp
    then show ?thesis using octet_below_80 [OF that] by simp
  qed
  then have "0x80 \<le> st" using h by (meson not_le)
  then show ?thesis using le_word_or2 order.trans by blast
qed

text \<open>C39. On the newer chip a status octet below 0x70 announces that many blocks and all of them are read.  When the
  card raises its other interrupt at the same time (the highest bit), the octet is taken for one of the second
  function: of \<open>n\<close> announced blocks only \<open>n mod 8\<close> are read, and with 8, 16, \<dots> blocks nothing is read at all.\<close>

theorem irq_v3_blocks:
  assumes "\<not> legacy_chip c" "irq_status e False 4 log = Some (st, l1)" "irq_fetch e True True old c log = Some (x, log')"
  shows "(0 < st \<and> st < 0x70 \<longrightarrow> log' = l1 @ [ReadFifo 0x0F (512 * unat st)]) \<and>
     (st AND 0x80 \<noteq> 0 \<longrightarrow> log' = l1 @ [ReadB 1, WriteB 1 (op_val e (length l1) AND NOT 1)] @
       (if unat (st AND 7) = 0 then [] else [ReadFifo 0x0F (512 * unat (st AND 7))]))"
proof -
  let ?r = "aicwf_sdio_reg_init c"
  have r: "misc_int_status_reg ?r = 4" "rd_fifo_addr ?r = 0x0F" "sleep_reg ?r = 1" using assms(1) by (simp_all add: aicwf_sdio_reg_init_def)
  have low: "log' = l1 @ [ReadFifo 0x0F (512 * unat st)]" if st: "0 < st" "st < 0x70"
  proof -
    have "st AND 0x80 = 0" using octet_high [of st] octet_low [OF st(2)] by (fastforce simp: word_le_nat_alt)
    moreover have "\<not> 120 < st OR 8" "st \<noteq> 120" "st AND 0x7F = st" "st \<noteq> 0" using octet_low [OF st(2)] st by (auto simp: word_le_nat_alt word_less_nat_alt)
    ultimately have f: "aicwf_sdio_readframes e True True ?r (512 * unat st) l1 = (x, log')"
      using assms by (simp add: irq_fetch_def irq_v3_def r SDIOWIFI_FUNC_BLOCKSIZE_def mult.commute Let_def)
    have "0 < 512 * unat st" using st(1) by (simp add: word_less_nat_alt)
    then show ?thesis using readframes_len(3) [OF f] r(2) by simp
  qed
  moreover have "log' = l1 @ [ReadB 1, WriteB 1 (op_val e (length l1) AND NOT 1)] @ (if unat (st AND 7) = 0 then [] else [ReadFifo 0x0F (512 * unat (st AND 7))])"
    if st: "st AND 0x80 \<noteq> 0"
  proof -
    have c: "clear_soft_irq e ?r l1 = l1 @ [ReadB 1, WriteB 1 (op_val e (length l1) AND NOT 1)]" by (simp add: clear_soft_irq_def card_simps r)
    have "120 < st OR 8" "st OR 8 \<noteq> 127" "st \<noteq> 0" using octet_high [OF st] by (auto simp: word_le_nat_alt word_less_nat_alt)
    then have f: "aicwf_sdio_readframes e True True ?r (512 * unat (st AND 7)) (clear_soft_irq e ?r l1) = (x, log')"
      using assms st by (simp add: irq_fetch_def irq_v3_def r SDIOWIFI_FUNC_BLOCKSIZE_def mult.commute Let_def)
    show ?thesis using readframes_len(2,3) [OF f] r(2) c by simp
  qed
  ultimately show ?thesis by blast
qed

subsection \<open>Witnesses\<close>

definition demo_card :: "u8 \<Rightarrow> card_env" where
  "demo_card st = \<lparr>op_ret = (\<lambda>n. 0), op_val = (\<lambda>n. st), op_fifo = (\<lambda>n i. fst demo_block i), sdio_clock = 0\<rparr>"

lemma demo_status: "irq_status (demo_card 0x88) False 4 [] = Some (0x88, [ReadB 4])"
  by (subst irq_status_step) (simp add: status_read_def demo_card_def)

lemma irq_v3_blocks_witness:
  "\<exists>x log'. irq_fetch (demo_card 0x88) True True 0 PRODUCT_ID_AIC8800D80 [] = Some (x, log') \<and> log' = [ReadB 4, ReadB 1, WriteB 1 0x88]"
proof -
  have c: "\<not> legacy_chip PRODUCT_ID_AIC8800D80" by (simp add: legacy_chip_def)
  have "irq_v3 (demo_card 0x88) True True 0 (aicwf_sdio_reg_init PRODUCT_ID_AIC8800D80) [] \<noteq> None"
    using demo_status by (simp add: irq_v3_def aicwf_sdio_reg_init_def c Let_def split: prod.splits)
  then obtain x log' where "irq_v3 (demo_card 0x88) True True 0 (aicwf_sdio_reg_init PRODUCT_ID_AIC8800D80) [] = Some (x, log')" by fast
  then have f: "irq_fetch (demo_card 0x88) True True 0 PRODUCT_ID_AIC8800D80 [] = Some (x, log')" by (simp add: irq_fetch_def c)
  show ?thesis using irq_v3_blocks [OF c demo_status f] f by (simp add: demo_card_def)
qed

text \<open>A card that has been pulled: every access fails.\<close>

definition demo_pulled :: card_env where "demo_pulled = (demo_card 0)\<lparr>op_ret := (\<lambda>n. -5)\<rparr>"

lemma irq_handler_returns_iff_witness:
  "aicwf_sdio_hal_irqhandler demo_pulled True True 0 PRODUCT_ID_AIC8801 rx_start [] = None \<and>
     aicwf_sdio_hal_irqhandler (demo_card 0) True True 0 PRODUCT_ID_AIC8801 rx_start [] \<noteq> None"
proof -
  have "\<not> status_read demo_pulled m n" "status_read (demo_card 0) m n" for m n by (simp_all add: status_read_def demo_pulled_def demo_card_def)
  then show ?thesis
    using irq_handler_returns_iff [of demo_pulled True True 0 PRODUCT_ID_AIC8801 rx_start "[]"]
      irq_handler_returns_iff [of "demo_card 0" True True 0 PRODUCT_ID_AIC8801 rx_start "[]"] by blast
qed

lemma irq_handler_refines_witness:
  "\<exists>t log'. aicwf_sdio_hal_irqhandler (demo_card 1) True True 0 PRODUCT_ID_AIC8801 rx_start [] = Some (t, log') \<and>
     log' = [ReadB 0x12, ReadFifo 8 512] \<and> (rx_step (demo_rx_env True))\<^sup>*\<^sup>* rx_start t"
proof -
  have s: "irq_status (demo_card 1) True 0x12 [] = Some (1, [ReadB 0x12])"
    by (subst irq_status_step) (simp add: status_read_def demo_card_def)
  have f: "irq_fetch (demo_card 1) True True 0 PRODUCT_ID_AIC8801 [] = Some (Some (fst demo_block, 512), [ReadB 0x12, ReadFifo 8 512])"
    using s by (simp add: irq_fetch_def irq_legacy_def aicwf_sdio_reg_init_def legacy_chip_def aicwf_sdio_readframes_def card_simps demo_card_def SDIOWIFI_FUNC_BLOCKSIZE_def)
  then have h: "aicwf_sdio_hal_irqhandler (demo_card 1) True True 0 PRODUCT_ID_AIC8801 rx_start [] =
      Some (irq_signal (aicwf_sdio_enq_rxpkt (fst demo_block, 512) rx_start), [ReadB 0x12, ReadFifo 8 512])"
    by (simp add: aicwf_sdio_hal_irqhandler_def)
  show ?thesis using irq_handler_refines [OF start_fields(1) h, of "demo_rx_env True"] h by blast
qed

end
