(* ===== verification/Sdio_Power.thy ===== *)
theory Sdio_Power
  imports Sdio_Card
begin

text \<open>
  Power states of the card: waking it and letting it sleep, the timer and the power thread that put an
  unused card to sleep, and the transmit thread, receive thread, suspend and resume that need it awake.
  A call of \<open>aicwf_sdio_pwr_stctl\<close> is one step, as its semaphore excludes another one; between the
  power thread's look at the counters and its call any other step can come.
\<close>

subsection \<open>State\<close>

datatype pw_pc = PwWaiting | PwChecking | PwSleeping
datatype tx_pc = TxWaiting | TxStart | TxWoken | TxData

text \<open>\<open>tx\<close> holds the states of the bus and of the card (\<open>bus_up\<close>, \<open>sdio_active\<close>), the queue and its count; \<open>rx_blocks\<close> is
  the count of the receive side; \<open>netifs\<close> the network devices of the interfaces that have one, with whether
  they are attached; \<open>tx_priv_live\<close> is false once the transmit structures are freed.\<close>

record sdio_power =
  tx :: sdio_tx
  active_duration :: u32
  pw_timer :: "u32 option"
  pwrctrl_trgg :: nat
  pwrctl_tsk :: bool
  pwt :: pw_pc
  bustx_trgg :: nat
  txth :: tx_pc
  rx_blocks :: int
  scan_on :: bool
  p2p_alive :: bool
  p2p_connected :: bool
  bus_suspended :: bool
  netifs :: "bool option list"
  tx_priv_live :: bool
  bus_log :: "card_op list"

abbreviation up_st :: "sdio_power \<Rightarrow> bool" where "up_st s \<equiv> bus_up (tx s)"
abbreviation active_st :: "sdio_power \<Rightarrow> bool" where "active_st s \<equiv> sdio_active (tx s)"
abbreviation card_regs :: "sdio_power \<Rightarrow> aic_sdio_reg" where "card_regs s \<equiv> aicwf_sdio_reg_init (chipid (tx s))"

definition set_active :: "bool \<Rightarrow> sdio_power \<Rightarrow> sdio_power" where "set_active b s = s\<lparr>tx := (tx s)\<lparr>sdio_active := b\<rparr>\<rparr>"

definition SDIOWIFI_PWR_CTRL_INTERVAL :: u32 where "SDIOWIFI_PWR_CTRL_INTERVAL = 30"

definition pw_writeb :: "card_env \<Rightarrow> u8 \<Rightarrow> u8 \<Rightarrow> sdio_power \<Rightarrow> int \<times> sdio_power" where
  "pw_writeb e a v s = (case aicwf_sdio_writeb e a v (bus_log s) of (ret, log) \<Rightarrow> (ret, s\<lparr>bus_log := log\<rparr>))"

subsection \<open>Waking and sleeping\<close>

definition aicwf_sdio_pwrctl_timer :: "u32 \<Rightarrow> sdio_power \<Rightarrow> sdio_power" where
  "aicwf_sdio_pwrctl_timer duration s =
     (if \<not> up_st s \<and> duration \<noteq> 0 then s
      else if duration = 0 then s\<lparr>pw_timer := None\<rparr>
      else s\<lparr>active_duration := duration, pw_timer := Some duration\<rparr>)"

text \<open>Reading until the card says that it is awake, at most \<open>n\<close> times; the result of the last read.\<close>

fun wakeup_poll :: "card_env \<Rightarrow> u8 \<Rightarrow> nat \<Rightarrow> int \<Rightarrow> card_op list \<Rightarrow> bool \<times> int \<times> card_op list" where
  "wakeup_poll e a 0 ret log = (False, ret, log)"
| "wakeup_poll e a (Suc n) ret log =
     (case aicwf_sdio_readb e a log of (ret, v, log) \<Rightarrow>
        if \<not> ret < 0 \<and> v AND 0x10 \<noteq> 0 then (True, ret, log) else wakeup_poll e a n ret log)"

fun wakeup_loop :: "card_env \<Rightarrow> aic_sdio_reg \<Rightarrow> u8 \<Rightarrow> nat \<Rightarrow> int \<Rightarrow> card_op list \<Rightarrow> int \<times> card_op list" where
  "wakeup_loop e r v 0 ret log = (ret, log)"
| "wakeup_loop e r v (Suc n) ret log =
     (case aicwf_sdio_writeb e (wakeup_reg r) v log of (ret, log) \<Rightarrow>
        if ret \<noteq> 0 then wakeup_loop e r v n (-1) log
        else case wakeup_poll e (sleep_reg r) 10 ret log of (awake, ret, log) \<Rightarrow>
          if awake then (ret, log) else wakeup_loop e r v n ret log)"

definition wakeup_reg_val :: "AICWF_IC \<Rightarrow> u8" where "wakeup_reg_val c = (if legacy_chip c then 1 else 0x11)"

definition aicwf_sdio_wakeup :: "card_env \<Rightarrow> sdio_power \<Rightarrow> int \<times> sdio_power" where
  "aicwf_sdio_wakeup e s =
     (if \<not> active_st s
      then case wakeup_loop e (card_regs s) (wakeup_reg_val (chipid (tx s))) 20 0 (bus_log s) of (ret, log) \<Rightarrow>
        (ret, aicwf_sdio_pwrctl_timer (active_duration s) (set_active True (s\<lparr>bus_log := log\<rparr>)))
      else (0, s))"

definition aicwf_sdio_sleep_allow :: "card_env \<Rightarrow> sdio_power \<Rightarrow> int \<times> sdio_power" where
  "aicwf_sdio_sleep_allow e s =
     (if \<not> up_st s
      then let (ret, s) = pw_writeb e (sleep_reg (card_regs s)) 0x10 s in (ret, aicwf_sdio_pwrctl_timer 0 s)
      else if active_st s \<and> \<not> scan_on s \<and> \<not> p2p_alive s \<and> \<not> p2p_connected s
      then let (ret, s) = pw_writeb e (sleep_reg (card_regs s)) 0x10 s in (ret, aicwf_sdio_pwrctl_timer 0 (set_active False s))
      else (0, aicwf_sdio_pwrctl_timer (active_duration s) s))"

definition aicwf_sdio_pwr_stctl :: "card_env \<Rightarrow> bool \<Rightarrow> sdio_power \<Rightarrow> int \<times> sdio_power" where
  "aicwf_sdio_pwr_stctl e target s =
     (if \<not> up_st s then (-1, s)
      else if active_st s = target then (0, if target then aicwf_sdio_pwrctl_timer (active_duration s) s else s)
      else (0, snd (if target then aicwf_sdio_wakeup e s else aicwf_sdio_sleep_allow e s)))"

subsection \<open>Timer and power thread\<close>

definition aicwf_sdio_bus_pwrctl :: "sdio_power \<Rightarrow> sdio_power" where
  "aicwf_sdio_bus_pwrctl s = (if \<not> up_st s then s else if pwrctl_tsk s then s\<lparr>pwrctrl_trgg := Suc (pwrctrl_trgg s)\<rparr> else s)"

definition pw_idle :: "sdio_power \<Rightarrow> bool" where "pw_idle s \<longleftrightarrow> tx_pktcnt (tx s) \<le> 0 \<and> \<not> cmd_txstate (tx s) \<and> rx_blocks s = 0"

definition pw_decide :: "sdio_power \<Rightarrow> sdio_power" where
  "pw_decide s = (if pw_idle s then s\<lparr>pwt := PwSleeping\<rparr> else (aicwf_sdio_pwrctl_timer (active_duration s) s)\<lparr>pwt := PwWaiting\<rparr>)"

text \<open>The steps of the timer and of \<open>aicwf_sdio_pwrctl_thread\<close>.  The thread cannot look at the counters once they are freed.\<close>

inductive pw_step :: "card_env \<Rightarrow> sdio_power \<Rightarrow> sdio_power \<Rightarrow> bool" for e where
  timer_fires: "pw_timer s = Some d \<Longrightarrow> pw_step e s (aicwf_sdio_bus_pwrctl (s\<lparr>pw_timer := None\<rparr>))"
| pw_take: "pwrctl_tsk s \<Longrightarrow> pwt s = PwWaiting \<Longrightarrow> pwrctrl_trgg s = Suc n \<Longrightarrow>
    pw_step e s (s\<lparr>pwrctrl_trgg := n, pwt := (if up_st s then PwChecking else PwWaiting)\<rparr>)"
| pw_check: "pwt s = PwChecking \<Longrightarrow> tx_priv_live s \<Longrightarrow> pw_step e s (pw_decide s)"
| pw_sleep: "pwt s = PwSleeping \<Longrightarrow> pw_step e s ((snd (aicwf_sdio_pwr_stctl e False s))\<lparr>pwt := PwWaiting\<rparr>)"

subsection \<open>Transmit thread, stopping, suspend and resume\<close>

definition queue_packet :: "nat \<Rightarrow> tx_pkt \<Rightarrow> sdio_power \<Rightarrow> sdio_power \<times> int" where
  "queue_packet prio p s = (case aicwf_sdio_bus_txdata prio p (tx s) of (x, r) \<Rightarrow>
     (s\<lparr>tx := x, bustx_trgg := (if r = 0 then Suc (bustx_trgg s) else bustx_trgg s)\<rparr>, r))"

definition queue_command :: "(nat \<Rightarrow> u8) \<Rightarrow> nat \<Rightarrow> sdio_power \<Rightarrow> sdio_power \<times> int" where
  "queue_command msg len s = (case aicwf_sdio_bus_txmsg msg len (tx s) of (x, r) \<Rightarrow>
     (s\<lparr>tx := x, bustx_trgg := (if r = 0 then Suc (bustx_trgg s) else bustx_trgg s)\<rparr>, r))"

text \<open>The transmit thread: its wake-up, the beginning of \<open>aicwf_sdio_tx_process\<close>, its command part and its data part.\<close>

definition tx_take :: "sdio_power \<Rightarrow> sdio_power" where
  "tx_take s = s\<lparr>bustx_trgg := bustx_trgg s - 1, txth := (if up_st s then TxStart else TxWaiting)\<rparr>"

definition tx_wake :: "card_env \<Rightarrow> sdio_power \<Rightarrow> sdio_power" where
  "tx_wake e s =
     (if (0 < tx_pktcnt (tx s) \<or> cmd_txstate (tx s)) \<and> up_st s
      then (snd (aicwf_sdio_pwr_stctl e True s))\<lparr>txth := TxWoken\<rparr> else s\<lparr>txth := TxWaiting\<rparr>)"

definition tx_command :: "sdio_env \<Rightarrow> sdio_power \<Rightarrow> sdio_power" where
  "tx_command te s =
     (if \<not> cmd_txstate (tx s) then s\<lparr>txth := TxData\<rparr>
      else if \<not> active_st s then s\<lparr>txth := TxWaiting\<rparr>
      else s\<lparr>tx := fst (aicwf_sdio_tx_msg te (tx s)), txth := TxData\<rparr>)"

definition aicwf_sdio_bus_stop :: "card_env \<Rightarrow> sdio_power \<Rightarrow> sdio_power" where
  "aicwf_sdio_bus_stop e s =
     (let s = aicwf_sdio_pwrctl_timer 0 s;
          s = s\<lparr>tx := (tx s)\<lparr>bus_up := False\<rparr>\<rparr>;
          s = snd (aicwf_sdio_pwr_stctl e False s)
      in s\<lparr>tx := (tx s)\<lparr>txq := fst (aicwf_frame_queue_flush (txq (tx s)))\<rparr>\<rparr>)"

definition detach_all :: "bool \<Rightarrow> sdio_power \<Rightarrow> sdio_power" where "detach_all b s = s\<lparr>netifs := map (map_option (\<lambda>_. b)) (netifs s)\<rparr>"

text \<open>\<open>keep_power\<close> says what the host can do, \<open>flags_ret\<close> whether it agrees to keep the card powered.\<close>

definition aicwf_sdio_suspend :: "card_env \<Rightarrow> bool \<Rightarrow> int \<Rightarrow> sdio_power \<Rightarrow> sdio_power \<times> int" where
  "aicwf_sdio_suspend e keep_power flags_ret s =
     (let s = detach_all False s in
      if \<not> keep_power then (s, - EINVAL)
      else if flags_ret \<noteq> 0 then (s, flags_ret)
      else let s = (if active_st s then snd (aicwf_sdio_pwr_stctl e False s) else s) in (s\<lparr>bus_suspended := True\<rparr>, 0))"

definition aicwf_sdio_resume :: "card_env \<Rightarrow> sdio_power \<Rightarrow> sdio_power" where
  "aicwf_sdio_resume e s = (snd (aicwf_sdio_pwr_stctl e True (detach_all True s)))\<lparr>bus_suspended := False\<rparr>"

subsection \<open>Runs\<close>

text \<open>What the driver's own threads and timer do, and everything that can happen.\<close>

inductive own_step :: "card_env \<Rightarrow> sdio_env \<Rightarrow> sdio_power \<Rightarrow> sdio_power \<Rightarrow> bool" for e te where
  power: "pw_step e s t \<Longrightarrow> own_step e te s t"
| tx_takes: "txth s = TxWaiting \<Longrightarrow> 0 < bustx_trgg s \<Longrightarrow> own_step e te s (tx_take s)"
| tx_wakes: "txth s = TxStart \<Longrightarrow> own_step e te s (tx_wake e s)"
| tx_commands: "txth s = TxWoken \<Longrightarrow> own_step e te s (tx_command te s)"
| tx_sends: "txth s = TxData \<Longrightarrow> tx_data te (tx s) = Some x \<Longrightarrow> own_step e te s (s\<lparr>tx := x, txth := TxWaiting\<rparr>)"

inductive pwr_step :: "card_env \<Rightarrow> sdio_env \<Rightarrow> sdio_power \<Rightarrow> sdio_power \<Rightarrow> bool" for e te where
  own: "own_step e te s t \<Longrightarrow> pwr_step e te s t"
| packet: "tx_priv_live s \<Longrightarrow> pwr_step e te s (fst (queue_packet prio p s))"
| command: "tx_priv_live s \<Longrightarrow> pwr_step e te s (fst (queue_command msg len s))"
| rx_counts: "pwr_step e te s (s\<lparr>rx_blocks := n\<rparr>)"
| rx_wakes: "pwr_step e te s (snd (aicwf_sdio_pwr_stctl e True s))"
| modes: "pwr_step e te s (s\<lparr>scan_on := a, p2p_alive := b, p2p_connected := c\<rparr>)"
| suspends: "pwr_step e te s (fst (aicwf_sdio_suspend e k f s))"
| resumes: "pwr_step e te s (aicwf_sdio_resume e s)"
| stops: "tx_priv_live s \<Longrightarrow> pwr_step e te s (aicwf_sdio_bus_stop e s)"
| frees: "\<not> up_st s \<Longrightarrow> txth s = TxWaiting \<Longrightarrow> pwr_step e te s (s\<lparr>tx_priv_live := False\<rparr>)"

definition pwr_start :: "AICWF_IC \<Rightarrow> bool \<Rightarrow> bool option list \<Rightarrow> sdio_power" where
  "pwr_start c tsk ifs = \<lparr>tx = sdio_tx_init c, active_duration = SDIOWIFI_PWR_CTRL_INTERVAL, pw_timer = None, pwrctrl_trgg = 0,
     pwrctl_tsk = tsk, pwt = PwWaiting, bustx_trgg = 0, txth = TxWaiting, rx_blocks = 0, scan_on = False, p2p_alive = False,
     p2p_connected = False, bus_suspended = False, netifs = ifs, tx_priv_live = True, bus_log = []\<rparr>"

inductive_cases pw_stepE: "pw_step e s t"
inductive_cases pwr_stepE: "pwr_step e te s t"


inductive_cases own_stepE: "own_step e te s t"

subsection \<open>Effects\<close>

lemma count_replicate: "count_list (replicate k x) y = (if x = y then k else 0)" by (induction k) auto

text \<open>The status read at position \<open>m\<close> of the trace says that the card is awake.\<close>

definition awake_read :: "card_env \<Rightarrow> nat \<Rightarrow> bool" where
  "awake_read e m \<longleftrightarrow> \<not> op_ret e m < 0 \<and> op_val e m AND 0x10 \<noteq> 0"

text \<open>The last access is a read in which the card says that it is awake.\<close>

definition card_awake :: "card_env \<Rightarrow> u8 \<Rightarrow> card_op list \<Rightarrow> bool" where
  "card_awake e a log \<longleftrightarrow> log \<noteq> [] \<and> last log = ReadB a \<and> awake_read e (length log - 1)"

text \<open>Attempts to wake the card: each is a write of the wake-up register and a number of reads of the status.\<close>

definition attempts :: "card_op \<Rightarrow> card_op \<Rightarrow> nat list \<Rightarrow> card_op list" where
  "attempts w p ks = concat (map (\<lambda>k. w # replicate k p) ks)"

lemma attempts_simps [simp]: "attempts w p [] = []" "attempts w p (k # ks) = w # replicate k p @ attempts w p ks"
  by (simp_all add: attempts_def)

lemma wakeup_poll_accesses:
  assumes "wakeup_poll e a n ret log = (b, ret', log')"
  shows "\<exists>k \<le> n. log' = log @ replicate k (ReadB a) \<and> (if b then 0 < k \<and> awake_read e (length log + k - 1) else k = n) \<and>
     (\<forall>j. length log \<le> j \<and> j < length log + (if b then k - 1 else k) \<longrightarrow> \<not> awake_read e j)"
  using assms
proof (induction n arbitrary: ret log)
  case (Suc n)
  show ?case
  proof (cases "awake_read e (length log)")
    case True
    then show ?thesis using Suc.prems by (intro exI [of _ 1]) (auto simp: aicwf_sdio_readb_def awake_read_def)
  next
    case False
    then have "wakeup_poll e a n (op_ret e (length log)) (log @ [ReadB a]) = (b, ret', log')" using Suc.prems by (auto simp: aicwf_sdio_readb_def awake_read_def)
    from Suc.IH [OF this] obtain k where k: "k \<le> n" "log' = (log @ [ReadB a]) @ replicate k (ReadB a)"
      "if b then 0 < k \<and> awake_read e (length (log @ [ReadB a]) + k - 1) else k = n"
      "\<forall>j. length (log @ [ReadB a]) \<le> j \<and> j < length (log @ [ReadB a]) + (if b then k - 1 else k) \<longrightarrow> \<not> awake_read e j" by blast
    have "\<not> awake_read e j" if "length log \<le> j" "j < length log + (if b then Suc k - 1 else Suc k)" for j
    proof (cases "j = length log")
      case j: False
      then have "length (log @ [ReadB a]) \<le> j" "j < length (log @ [ReadB a]) + (if b then k - 1 else k)" using that k(3) by (auto split: if_splits)
      then show ?thesis using k(4) by blast
    qed (simp add: False)
    then show ?thesis using k(1-3) by (intro exI [of _ "Suc k"]) (auto split: if_splits)
  qed
qed auto

text \<open>What one run of the loop does: full attempts of ten reads after a write that succeeds and none after one that
  fails, up to the first read that says awake.\<close>

definition wakes_by :: "card_env \<Rightarrow> u8 \<Rightarrow> card_op \<Rightarrow> nat \<Rightarrow> card_op list \<Rightarrow> card_op list \<Rightarrow> bool" where
  "wakes_by e a w n log log' \<longleftrightarrow>
     (\<exists>ks. log' = log @ attempts w (ReadB a) ks \<and> length ks \<le> n \<and> (card_awake e a log' \<and> ks \<noteq> [] \<or> length ks = n) \<and>
        (\<forall>m. length log < m \<and> m < length log' \<longrightarrow> \<not> card_awake e a (take m log')) \<and>
        (\<forall>i < length ks. let ok = op_ret e (length (log @ attempts w (ReadB a) (take i ks))) = 0 in
           if card_awake e a log' \<and> Suc i = length ks then ok \<and> 0 < ks ! i \<and> ks ! i \<le> 10 else ks ! i = (if ok then 10 else 0)))"

lemma wakes_by_more:
  assumes "wakes_by e a (WriteB b v) n (log @ WriteB b v # replicate k (ReadB a)) log'" "k = (if op_ret e (length log) = 0 then 10 else 0)"
    "\<forall>j. length log < j \<and> j \<le> length log + k \<longrightarrow> \<not> awake_read e j"
  shows "wakes_by e a (WriteB b v) (Suc n) log log'"
proof -
  define w where "w = WriteB b v"
  define l1 where "l1 = log @ w # replicate k (ReadB a)"
  obtain ks where ks: "log' = l1 @ attempts w (ReadB a) ks" "length ks \<le> n" "card_awake e a log' \<and> ks \<noteq> [] \<or> length ks = n"
    "\<forall>m. length l1 < m \<and> m < length log' \<longrightarrow> \<not> card_awake e a (take m log')"
    "\<forall>i < length ks. let ok = op_ret e (length (l1 @ attempts w (ReadB a) (take i ks))) = 0 in
       if card_awake e a log' \<and> Suc i = length ks then ok \<and> 0 < ks ! i \<and> ks ! i \<le> 10 else ks ! i = (if ok then 10 else 0)"
    using assms(1) unfolding wakes_by_def w_def [symmetric] l1_def [symmetric] by blast
  have no: "\<not> card_awake e a (take m l1)" if m: "length log < m" "m \<le> length l1" for m
  proof -
    define j where "j = m - Suc (length log)"
    have j: "m = Suc (length log + j)" "j \<le> k" using m by (auto simp: l1_def j_def)
    have t: "take m l1 = log @ w # replicate j (ReadB a)" using j by (simp add: l1_def min_def)
    show ?thesis
    proof (cases j)
      case (Suc i)
      then have "\<not> awake_read e (length log + j)" using assms(3) j by auto
      then show ?thesis by (simp add: card_awake_def t)
    qed (simp add: card_awake_def t w_def)
  qed
  have 4: "\<not> card_awake e a (take m log')" if "length log < m" "m < length log'" for m
  proof (cases "m \<le> length l1")
    case True
    then show ?thesis using no [OF that(1)] by (simp add: ks(1))
  qed (use ks(4) that in auto)
  have last: "ks \<noteq> []" if "card_awake e a log'"
    using that no [of "length l1"] ks(1) by (cases ks) (auto simp: l1_def)
  have 5: "let ok = op_ret e (length (log @ attempts w (ReadB a) (take i (k # ks)))) = 0 in
       if card_awake e a log' \<and> Suc i = length (k # ks) then ok \<and> 0 < (k # ks) ! i \<and> (k # ks) ! i \<le> 10 else (k # ks) ! i = (if ok then 10 else 0)"
    if "i < length (k # ks)" for i
  proof (cases i)
    case 0
    then show ?thesis using assms(2) last by auto
  next
    case (Suc i')
    then have "i' < length ks" using that by simp
    moreover have "length (log @ attempts w (ReadB a) (take i (k # ks))) = length (l1 @ attempts w (ReadB a) (take i' ks))" by (simp add: Suc l1_def)
    ultimately show ?thesis using ks(5) by (simp only: Suc list.size nth_Cons_Suc add_Suc_right add_0_right nat.inject)
  qed
  show ?thesis
    unfolding wakes_by_def w_def [symmetric] using ks(1-3) 4 5 by (intro exI [of _ "k # ks"]) (auto simp: l1_def)
qed

lemma wakeup_loop_accesses:
  assumes "wakeup_loop e r v n ret log = (ret', log')"
  shows "wakes_by e (sleep_reg r) (WriteB (wakeup_reg r) v) n log log'"
  using assms
proof (induction n arbitrary: ret log)
  case (Suc n)
  let ?w = "WriteB (wakeup_reg r) v" and ?s = "ReadB (sleep_reg r)"
  show ?case
  proof (cases "op_ret e (length log) = 0")
    case False
    then have "wakeup_loop e r v n (-1) (log @ ?w # replicate 0 ?s) = (ret', log')" using Suc.prems by (simp add: card_simps)
    then show ?thesis by (rule wakes_by_more [OF Suc.IH]) (use False in auto)
  next
    case True
    obtain b q l where p: "wakeup_poll e (sleep_reg r) 10 0 (log @ [?w]) = (b, q, l)" by (metis prod.exhaust)
    obtain k where k: "k \<le> 10" "l = log @ ?w # replicate k ?s" "if b then 0 < k \<and> awake_read e (length (log @ [?w]) + k - 1) else k = 10"
      "\<forall>j. length (log @ [?w]) \<le> j \<and> j < length (log @ [?w]) + (if b then k - 1 else k) \<longrightarrow> \<not> awake_read e j"
      using wakeup_poll_accesses [OF p] by auto
    show ?thesis
    proof (cases b)
      case True2: True
      then have l: "log' = l" using Suc.prems p True by (simp add: card_simps)
      have a: "card_awake e (sleep_reg r) l" using k True2 by (auto simp: card_awake_def)
      have "\<not> card_awake e (sleep_reg r) (take m l)" if m: "length log < m" "m < length l" for m
      proof -
        define j where "j = m - Suc (length log)"
        have j: "m = Suc (length log + j)" "j < k" using m k(2) by (auto simp: j_def)
        have t: "take m l = log @ ?w # replicate j ?s" using j k(2) by (simp add: min_def)
        have "\<not> awake_read e (length log + j)" if "0 < j" using k(4) True2 j that by auto
        then show ?thesis by (cases j) (simp_all add: card_awake_def t)
      qed
      then show ?thesis unfolding wakes_by_def using k True True2 a l by (intro exI [of _ "[k]"]) (auto simp: Let_def)
    next
      case False
      have "\<not> awake_read e j" if "length log < j" "j \<le> length log + 10" for j using k(3,4) False that by auto
      moreover have "wakeup_loop e r v n q (log @ ?w # replicate 10 ?s) = (ret', log')" using Suc.prems p True False k(2,3) by (simp add: card_simps)
      ultimately show ?thesis using wakes_by_more [OF Suc.IH] True by auto
    qed
  qed
qed (auto simp: wakes_by_def)

lemma timer_fields [simp]:
  "tx (aicwf_sdio_pwrctl_timer d s) = tx s" "pwrctrl_trgg (aicwf_sdio_pwrctl_timer d s) = pwrctrl_trgg s" "pwrctl_tsk (aicwf_sdio_pwrctl_timer d s) = pwrctl_tsk s"
  "pwt (aicwf_sdio_pwrctl_timer d s) = pwt s" "bustx_trgg (aicwf_sdio_pwrctl_timer d s) = bustx_trgg s" "txth (aicwf_sdio_pwrctl_timer d s) = txth s"
  "rx_blocks (aicwf_sdio_pwrctl_timer d s) = rx_blocks s" "scan_on (aicwf_sdio_pwrctl_timer d s) = scan_on s" "p2p_alive (aicwf_sdio_pwrctl_timer d s) = p2p_alive s"
  "p2p_connected (aicwf_sdio_pwrctl_timer d s) = p2p_connected s" "tx_priv_live (aicwf_sdio_pwrctl_timer d s) = tx_priv_live s"
  "bus_log (aicwf_sdio_pwrctl_timer d s) = bus_log s" "netifs (aicwf_sdio_pwrctl_timer d s) = netifs s" "bus_suspended (aicwf_sdio_pwrctl_timer d s) = bus_suspended s"
  by (simp_all add: aicwf_sdio_pwrctl_timer_def)

lemma set_active_fields [simp]:
  "tx (set_active b s) = (tx s)\<lparr>sdio_active := b\<rparr>" "pwrctrl_trgg (set_active b s) = pwrctrl_trgg s" "pwrctl_tsk (set_active b s) = pwrctl_tsk s"
  "pwt (set_active b s) = pwt s" "bustx_trgg (set_active b s) = bustx_trgg s" "txth (set_active b s) = txth s"
  "rx_blocks (set_active b s) = rx_blocks s" "scan_on (set_active b s) = scan_on s" "p2p_alive (set_active b s) = p2p_alive s"
  "p2p_connected (set_active b s) = p2p_connected s" "tx_priv_live (set_active b s) = tx_priv_live s" "active_duration (set_active b s) = active_duration s"
  "pw_timer (set_active b s) = pw_timer s" "bus_log (set_active b s) = bus_log s" "netifs (set_active b s) = netifs s" "bus_suspended (set_active b s) = bus_suspended s"
  by (simp_all add: set_active_def)

text \<open>What a change of the power state leaves alone.\<close>

definition same_work :: "sdio_power \<Rightarrow> sdio_power \<Rightarrow> bool" where
  "same_work s t \<longleftrightarrow> pwrctrl_trgg t = pwrctrl_trgg s \<and> pwrctl_tsk t = pwrctl_tsk s \<and> pwt t = pwt s \<and> bustx_trgg t = bustx_trgg s \<and> txth t = txth s \<and>
     rx_blocks t = rx_blocks s \<and> scan_on t = scan_on s \<and> p2p_alive t = p2p_alive s \<and> p2p_connected t = p2p_connected s \<and> tx_priv_live t = tx_priv_live s \<and>
     active_duration t = active_duration s \<and> tx t = (tx s)\<lparr>sdio_active := active_st t\<rparr>"

definition modes_off :: "sdio_power \<Rightarrow> bool" where "modes_off s \<longleftrightarrow> \<not> scan_on s \<and> \<not> p2p_alive s \<and> \<not> p2p_connected s"

lemma timer_same: "d = active_duration s \<or> d = 0 \<Longrightarrow> same_work s (aicwf_sdio_pwrctl_timer d s)"
  by (auto simp: same_work_def aicwf_sdio_pwrctl_timer_def)

lemma wakeup_same: "same_work s (snd (aicwf_sdio_wakeup e s))"
  by (auto simp: same_work_def aicwf_sdio_wakeup_def aicwf_sdio_pwrctl_timer_def split: prod.splits)

lemma sleep_same: "same_work s (snd (aicwf_sdio_sleep_allow e s))"
  by (auto simp: same_work_def aicwf_sdio_sleep_allow_def pw_writeb_def aicwf_sdio_pwrctl_timer_def split: prod.splits)

lemma stctl_same: "same_work s (snd (aicwf_sdio_pwr_stctl e b s))"
  using wakeup_same [of s e] sleep_same [of s e] timer_same [of "active_duration s" s]
  by (auto simp: aicwf_sdio_pwr_stctl_def) (simp_all add: same_work_def)

lemma stctl_down: "\<not> up_st s \<Longrightarrow> aicwf_sdio_pwr_stctl e b s = (-1, s)" by (simp add: aicwf_sdio_pwr_stctl_def)

lemma stctl_wakes: "up_st s \<Longrightarrow> active_st (snd (aicwf_sdio_pwr_stctl e True s))"
  by (simp add: aicwf_sdio_pwr_stctl_def aicwf_sdio_wakeup_def split: prod.split)

lemma stctl_sleeps:
  assumes "up_st s"
  shows "active_st (snd (aicwf_sdio_pwr_stctl e False s)) \<longleftrightarrow> active_st s \<and> \<not> modes_off s"
    "active_st s \<Longrightarrow> modes_off s \<Longrightarrow> pw_timer (snd (aicwf_sdio_pwr_stctl e False s)) = None"
  using assms by (auto simp: aicwf_sdio_pwr_stctl_def aicwf_sdio_sleep_allow_def modes_off_def pw_writeb_def split: prod.splits)
    (simp add: aicwf_sdio_pwrctl_timer_def)

lemma stctl_timer:
  assumes "up_st s" "active_duration s \<noteq> 0" "active_st (snd (aicwf_sdio_pwr_stctl e b s))"
  shows "pw_timer (snd (aicwf_sdio_pwr_stctl e b s)) = Some (active_duration s)"
  using assms by (auto simp: aicwf_sdio_pwr_stctl_def aicwf_sdio_sleep_allow_def aicwf_sdio_wakeup_def aicwf_sdio_pwrctl_timer_def pw_writeb_def split: prod.splits if_splits)


subsection \<open>The invariant\<close>

lemma txdata_flags: "bus_up (fst (aicwf_sdio_bus_txdata prio p x)) = bus_up x" "sdio_active (fst (aicwf_sdio_bus_txdata prio p x)) = sdio_active x"
  by (auto simp: aicwf_sdio_bus_txdata_def split: prod.split bool.split)

lemma txmsg_flags: "bus_up (fst (aicwf_sdio_bus_txmsg m n x)) = bus_up x" "sdio_active (fst (aicwf_sdio_bus_txmsg m n x)) = sdio_active x"
  by (simp_all add: aicwf_sdio_bus_txmsg_def Let_def)

lemma tx_msg_flags: "bus_up (fst (aicwf_sdio_tx_msg e x)) = bus_up x" "sdio_active (fst (aicwf_sdio_tx_msg e x)) = sdio_active x"
  by (rule tx_msg_cases [of e x]; simp)+

lemma send_flags: "bus_up (aicwf_sdio_send e now x) = bus_up x" "sdio_active (aicwf_sdio_send e now x) = sdio_active x"
  by (auto simp: aicwf_sdio_send_def frame_simps Let_def aicwf_sdio_aggrbuf_reset_def split: prod.split option.split)

lemma tx_data_loop_flags: "tx_data_loop e x = Some y \<Longrightarrow> bus_up y = bus_up x \<and> sdio_active y = sdio_active x"
proof (rule tx_data_loop.raw_induct [where P = "\<lambda>e x y. bus_up y = bus_up x \<and> sdio_active y = sdio_active x"])
  fix f e x y
  assume IH: "\<And>e x y. f e x = Some y \<Longrightarrow> bus_up y = bus_up x \<and> sdio_active y = sdio_active x"
    and step: "(if aicwf_is_framequeue_empty (txq x) then Some x
        else if \<not> bus_up x then Some x
        else if fw_avail_bufcnt x \<le> DATA_FLOW_CTRL_THRESH then if cmd_txstate x then Some x else f e (poll_bufcnt e x)
        else if cmd_txstate x then Some (aicwf_sdio_send e True x) else f e (aicwf_sdio_send e False x)) = Some y"
  have p: "bus_up (poll_bufcnt e x) = bus_up x" "sdio_active (poll_bufcnt e x) = sdio_active x" by (simp_all add: poll_bufcnt_def split: prod.split)
  show "bus_up y = bus_up x \<and> sdio_active y = sdio_active x"
    using step IH [of e "poll_bufcnt e x" y] IH [of e "aicwf_sdio_send e False x" y] p by (auto simp: send_flags split: if_splits)
qed

lemma tx_data_flags: "tx_data e x = Some y \<Longrightarrow> bus_up y = bus_up x \<and> sdio_active y = sdio_active x"
  using tx_data_loop_flags [of e x y] tx_data_loop_flags [of e "poll_bufcnt e x" y]
  by (auto simp: tx_data_def poll_bufcnt_def split: if_splits prod.splits)

text \<open>While the bus is up, an awake card has its timer running, or the power thread has been triggered or is at work.\<close>

definition pwr_inv :: "sdio_power \<Rightarrow> bool" where
  "pwr_inv s \<longleftrightarrow> active_duration s \<noteq> 0 \<and> (up_st s \<longrightarrow> tx_priv_live s \<and>
     (pwrctl_tsk s \<longrightarrow> active_st s \<longrightarrow> pw_timer s \<noteq> None \<or> 0 < pwrctrl_trgg s \<or> pwt s \<noteq> PwWaiting))"

lemma same_up: "same_work s t \<Longrightarrow> up_st t = up_st s"
proof -
  assume "same_work s t"
  then have "tx t = (tx s)\<lparr>sdio_active := active_st t\<rparr>" by (simp add: same_work_def)
  from arg_cong [OF this, of bus_up] show ?thesis by simp
qed

lemma stctl_inv: "pwr_inv s \<Longrightarrow> pwr_inv ((snd (aicwf_sdio_pwr_stctl e b s))\<lparr>pwt := c\<rparr>)"
  using stctl_same [of s e b] stctl_timer [of s e b] same_up [OF stctl_same [of s e b]]
  by (auto simp: pwr_inv_def same_work_def)

lemma stctl_inv' [simp]: "pwr_inv s \<Longrightarrow> pwr_inv (snd (aicwf_sdio_pwr_stctl e b s))"
  using stctl_same [of s e b] stctl_timer [of s e b] same_up [OF stctl_same [of s e b]]
  by (auto simp: pwr_inv_def same_work_def)

lemma pw_step_inv: "pw_step e s t \<Longrightarrow> pwr_inv s \<Longrightarrow> pwr_inv t"
proof (induction rule: pw_step.induct)
  case (pw_sleep s)
  then show ?case by (simp add: stctl_inv)
qed (auto simp: pwr_inv_def aicwf_sdio_bus_pwrctl_def pw_decide_def aicwf_sdio_pwrctl_timer_def)

lemma own_step_inv: "own_step e te s t \<Longrightarrow> pwr_inv s \<Longrightarrow> pwr_inv t"
proof (induction rule: own_step.induct)
  case (power s t)
  then show ?case by (rule pw_step_inv)
next
  case (tx_wakes s)
  have "pwr_inv ((snd (aicwf_sdio_pwr_stctl e True s))\<lparr>txth := TxWoken\<rparr>)" using stctl_inv' [OF tx_wakes(2), of e True] by (simp add: pwr_inv_def)
  moreover have "pwr_inv (s\<lparr>txth := TxWaiting\<rparr>)" using tx_wakes(2) by (simp add: pwr_inv_def)
  ultimately show ?case by (simp add: tx_wake_def)
next
  case (tx_sends s x)
  then show ?case using tx_data_flags [OF tx_sends(2)] by (simp add: pwr_inv_def)
qed (simp_all add: pwr_inv_def tx_take_def tx_command_def tx_msg_flags)

lemma pwr_step_inv: "pwr_step e te s t \<Longrightarrow> pwr_inv s \<Longrightarrow> pwr_inv t"
proof (induction rule: pwr_step.induct)
  case (own s t)
  then show ?case by (rule own_step_inv)
next
  case (suspends s k f)
  have d: "pwr_inv (detach_all False s)" using suspends by (simp add: pwr_inv_def detach_all_def)
  have "pwr_inv ((snd (aicwf_sdio_pwr_stctl e False (detach_all False s)))\<lparr>bus_suspended := True\<rparr>)" using stctl_inv' [OF d, of e False] by (simp add: pwr_inv_def)
  then show ?case using d by (simp add: aicwf_sdio_suspend_def Let_def) (simp add: pwr_inv_def)
next
  case (resumes s)
  have "pwr_inv (detach_all True s)" using resumes by (simp add: pwr_inv_def detach_all_def)
  from stctl_inv' [OF this, of e True] show ?case by (simp add: aicwf_sdio_resume_def pwr_inv_def)
next
  case (stops s)
  then show ?case by (simp add: pwr_inv_def aicwf_sdio_bus_stop_def Let_def aicwf_sdio_pwr_stctl_def aicwf_sdio_pwrctl_timer_def)
next
  case (rx_wakes s)
  then show ?case by simp
qed (auto simp: pwr_inv_def queue_packet_def queue_command_def txdata_flags txmsg_flags split: prod.splits
  dest: arg_cong [where f = "\<lambda>r. bus_up (fst r)"] arg_cong [where f = "\<lambda>r. sdio_active (fst r)"])

lemma pwr_start_inv: "pwr_inv (pwr_start c b ifs)"
  by (simp add: pwr_inv_def pwr_start_def SDIOWIFI_PWR_CTRL_INTERVAL_def sdio_tx_init_def)

lemma pwr_reachable_inv: "(pwr_step e te)\<^sup>*\<^sup>* (pwr_start c b ifs) s \<Longrightarrow> pwr_inv s"
  by (induction rule: rtranclp_induct) (auto intro: pwr_start_inv pwr_step_inv)


subsection \<open>An unused card goes to sleep\<close>

definition card_quiet :: "sdio_power \<Rightarrow> bool" where "card_quiet s \<longleftrightarrow> pw_idle s \<and> modes_off s"

definition pw_measure :: "sdio_power \<Rightarrow> nat" where
  "pw_measure s = (if pw_timer s = None then 0 else 4) + 3 * pwrctrl_trgg s + (case pwt s of PwWaiting \<Rightarrow> 0 | PwChecking \<Rightarrow> 2 | PwSleeping \<Rightarrow> 1)"

text \<open>What the timer and the power thread keep of a quiet state.\<close>

definition pw_ready :: "sdio_power \<Rightarrow> bool" where "pw_ready s \<longleftrightarrow> pwr_inv s \<and> up_st s \<and> pwrctl_tsk s \<and> card_quiet s"

lemma same_card_quiet: "same_work s t \<Longrightarrow> card_quiet t = card_quiet s"
proof -
  assume w: "same_work s t"
  then have e: "tx t = (tx s)\<lparr>sdio_active := active_st t\<rparr>" by (simp add: same_work_def)
  from arg_cong [OF e, of tx_pktcnt] arg_cong [OF e, of cmd_txstate] w show ?thesis by (simp add: card_quiet_def pw_idle_def modes_off_def same_work_def)
qed

lemma pw_sleep_measure:
  fixes e :: card_env
  assumes "pw_ready s" "pwt s = PwSleeping"
  defines "t \<equiv> (snd (aicwf_sdio_pwr_stctl e False s))\<lparr>pwt := PwWaiting\<rparr>"
  shows "pw_ready t \<and> pw_measure t < pw_measure s"
proof -
  have up: "up_st s" and m: "modes_off s" and i: "pwr_inv s" using assms(1) by (simp_all add: pw_ready_def card_quiet_def)
  note w = stctl_same [of s e False]
  have "pwr_inv t" unfolding t_def using i by (rule stctl_inv)
  moreover have "up_st t" "pwrctl_tsk t" using same_up [OF w] w assms(1) by (simp_all add: t_def pw_ready_def same_work_def)
  moreover have "card_quiet t" using same_card_quiet [OF w] assms(1) by (simp add: t_def pw_ready_def card_quiet_def pw_idle_def modes_off_def)
  moreover have "pw_timer t = None \<or> pw_timer t = pw_timer s"
    using stctl_sleeps(2) [OF up _ m, of e] by (cases "active_st s") (simp_all add: t_def aicwf_sdio_pwr_stctl_def up)
  then have "pw_measure t < pw_measure s" using w assms(2) by (auto simp: pw_measure_def t_def same_work_def)
  ultimately show ?thesis by (simp add: pw_ready_def)
qed

lemma pw_step_measure: "pw_step e s t \<Longrightarrow> pw_ready s \<Longrightarrow> pw_ready t \<and> pw_measure t < pw_measure s"
proof (induction rule: pw_step.induct)
  case (timer_fires s d)
  define t where "t = aicwf_sdio_bus_pwrctl (s\<lparr>pw_timer := None\<rparr>)"
  have t: "t = s\<lparr>pw_timer := None, pwrctrl_trgg := Suc (pwrctrl_trgg s)\<rparr>" using timer_fires(2) by (simp add: t_def aicwf_sdio_bus_pwrctl_def pw_ready_def)
  show ?case unfolding t_def [symmetric] using timer_fires by (auto simp: t pw_ready_def pwr_inv_def card_quiet_def pw_idle_def modes_off_def pw_measure_def)
next
  case (pw_take s n)
  then show ?case by (auto simp: pw_ready_def pwr_inv_def card_quiet_def pw_idle_def modes_off_def pw_measure_def)
next
  case (pw_check s)
  then have "pw_decide s = s\<lparr>pwt := PwSleeping\<rparr>" by (simp add: pw_decide_def pw_ready_def card_quiet_def)
  then show ?case using pw_check by (auto simp: pw_ready_def pwr_inv_def card_quiet_def pw_idle_def modes_off_def pw_measure_def)
next
  case (pw_sleep s)
  then show ?case using pw_sleep_measure by blast
qed

lemma pw_run_measure: "(pw_step e ^^ n) s t \<Longrightarrow> pw_ready s \<Longrightarrow> pw_ready t \<and> n + pw_measure t \<le> pw_measure s"
proof (induction n arbitrary: t)
  case (Suc n)
  then obtain u where u: "(pw_step e ^^ n) s u" "pw_step e u t" by auto
  from Suc.IH [OF u(1) Suc.prems(2)] pw_step_measure [OF u(2)] show ?case by auto
qed simp

lemma pw_stuck_asleep:
  assumes "pw_ready s" "\<nexists>t. pw_step e s t"
  shows "\<not> active_st s \<and> pw_timer s = None \<and> pwrctrl_trgg s = 0 \<and> pwt s = PwWaiting"
proof -
  have "pw_timer s = None" using assms(2) timer_fires by (cases "pw_timer s") blast+
  moreover have p: "pwt s = PwWaiting" using assms pw_check [of s e] pw_sleep [of s e] by (cases "pwt s") (auto simp: pw_ready_def pwr_inv_def)
  moreover have "pwrctrl_trgg s = 0" using assms pw_take [OF _ p] by (cases "pwrctrl_trgg s") (auto simp: pw_ready_def)
  ultimately show ?thesis using assms(1) by (auto simp: pw_ready_def pwr_inv_def)
qed

text \<open>C18. A card that nobody uses is put to sleep: from every state that can arise with the bus up, a running power
  thread, nothing to send, receive or confirm, and no scan or P2P, the timer and the power thread can take only
  as many steps as \<open>pw_measure\<close> counts, and when they can take no more the card is asleep and no timer is left.
  The driver's only timer is enough: an awake card never waits for a trigger that does not come.\<close>

theorem quiet_card_sleeps:
  assumes "(pwr_step e te)\<^sup>*\<^sup>* (pwr_start c tsk ifs) s" "up_st s" "pwrctl_tsk s" "card_quiet s" "(pw_step e ^^ n) s t"
  shows "n \<le> pw_measure s \<and> ((\<nexists>u. pw_step e t u) \<longrightarrow> \<not> sdio_active (tx t) \<and> pw_timer t = None)"
proof -
  have "pw_ready s" using pwr_reachable_inv [OF assms(1)] assms(2-4) by (simp add: pw_ready_def)
  from pw_run_measure [OF assms(5) this] pw_stuck_asleep [of t e] show ?thesis by auto
qed

subsection \<open>Waking\<close>

text \<open>C37. Waking a sleeping card is a row of attempts, at most 20: a write of the wake-up register, then reads of the
  status, exactly ten when the write succeeded and none when it failed.  It ends at the first read in which the card says
  that it is awake: no earlier read said so, and the last attempt has the reads up to that one.  When no read says so, all
  20 attempts are made in full, and the result is the same: success, state awake, timer running.\<close>

theorem wakeup_bounded:
  assumes "up_st s" "\<not> active_st s" "active_duration s \<noteq> 0" "aicwf_sdio_pwr_stctl e True s = (r, t)"
  defines "w \<equiv> WriteB (wakeup_reg (card_regs s)) (wakeup_reg_val (chipid (tx s)))" and "a \<equiv> sleep_reg (card_regs s)"
  shows "r = 0 \<and> sdio_active (tx t) \<and> pw_timer t = Some (active_duration s) \<and>
     (\<exists>ks. bus_log t = bus_log s @ attempts w (ReadB a) ks \<and> ks \<noteq> [] \<and> length ks \<le> 20 \<and> (card_awake e a (bus_log t) \<or> length ks = 20) \<and>
        (\<forall>m. length (bus_log s) < m \<and> m < length (bus_log t) \<longrightarrow> \<not> card_awake e a (take m (bus_log t))) \<and>
        (\<forall>i < length ks. let ok = op_ret e (length (bus_log s @ attempts w (ReadB a) (take i ks))) = 0 in
           if card_awake e a (bus_log t) \<and> Suc i = length ks then ok \<and> 0 < ks ! i \<and> ks ! i \<le> 10 else ks ! i = (if ok then 10 else 0)))"
proof -
  obtain q l where k: "wakeup_loop e (card_regs s) (wakeup_reg_val (chipid (tx s))) 20 0 (bus_log s) = (q, l)" by fastforce
  have t: "r = 0" "t = snd (aicwf_sdio_pwr_stctl e True s)" "bus_log t = l"
    using assms(1,2,4) k by (auto simp: aicwf_sdio_pwr_stctl_def aicwf_sdio_wakeup_def)
  have 1: "sdio_active (tx t)" unfolding t(2) by (rule stctl_wakes [OF assms(1)])
  have 2: "pw_timer t = Some (active_duration s)" using stctl_timer [OF assms(1,3), of e True] 1 unfolding t(2) by blast
  have "wakes_by e a w 20 (bus_log s) (bus_log t)" using wakeup_loop_accesses [OF k] by (simp add: w_def a_def t(3))
  then obtain ks where ks: "bus_log t = bus_log s @ attempts w (ReadB a) ks" "length ks \<le> 20" "card_awake e a (bus_log t) \<and> ks \<noteq> [] \<or> length ks = 20"
    "\<forall>m. length (bus_log s) < m \<and> m < length (bus_log t) \<longrightarrow> \<not> card_awake e a (take m (bus_log t))"
    "\<forall>i < length ks. let ok = op_ret e (length (bus_log s @ attempts w (ReadB a) (take i ks))) = 0 in
       if card_awake e a (bus_log t) \<and> Suc i = length ks then ok \<and> 0 < ks ! i \<and> ks ! i \<le> 10 else ks ! i = (if ok then 10 else 0)"
    unfolding wakes_by_def by blast
  then have "ks \<noteq> []" "card_awake e a (bus_log t) \<or> length ks = 20" by auto
  then show ?thesis using ks(1,2,4,5) t(1) 1 2 by blast
qed


subsection \<open>When a card goes to sleep\<close>

definition slept :: "sdio_power \<Rightarrow> sdio_power \<Rightarrow> bool" where
  "slept s t \<longleftrightarrow> up_st s \<and> modes_off s \<and> bus_log t = bus_log s @ [WriteB (sleep_reg (card_regs s)) 0x10] \<and> pw_timer t = None"

lemma timer_none: "pw_timer (aicwf_sdio_pwrctl_timer 0 s) = None" by (simp add: aicwf_sdio_pwrctl_timer_def)

lemma stctl_slept: "active_st s \<Longrightarrow> \<not> active_st (snd (aicwf_sdio_pwr_stctl e b s)) \<Longrightarrow> \<not> b \<and> slept s (snd (aicwf_sdio_pwr_stctl e b s))"
  by (cases b; cases "up_st s"; cases "modes_off s")
    (auto simp: aicwf_sdio_pwr_stctl_def aicwf_sdio_sleep_allow_def slept_def modes_off_def pw_writeb_def card_simps timer_none)

text \<open>Only a call of \<open>aicwf_sdio_pwr_stctl\<close> that asks for it, from the power thread or from suspend, puts an awake card to
  sleep: one write of its sleep register, with the bus up and no scan or P2P going on; the timer is stopped.\<close>

theorem card_sleeps_only_idle:
  assumes "pwr_step e te s t" "active_st s" "\<not> active_st t"
  shows "slept s t"
  using assms
proof (induction rule: pwr_step.induct)
  case (own s t)
  then show ?case
  proof (induction rule: own_step.induct)
    case (power s t)
    then show ?case
    proof (induction rule: pw_step.induct)
      case (pw_sleep s)
      then show ?case using stctl_slept [of s e False] by (auto simp: slept_def)
    qed (auto simp: aicwf_sdio_bus_pwrctl_def pw_decide_def split: if_splits)
  next
    case (tx_wakes s)
    then show ?case using stctl_slept [of s e True] by (auto simp: tx_wake_def split: if_splits)
  next
    case (tx_sends s x)
    then show ?case using tx_data_flags [OF tx_sends(2)] by simp
  qed (auto simp: tx_take_def tx_command_def tx_msg_flags split: if_splits)
next
  case (rx_wakes s)
  then show ?case using stctl_slept [of s e True] by auto
next
  case (suspends s k f)
  define d where "d = detach_all False s"
  define u where "u = snd (aicwf_sdio_pwr_stctl e False d)"
  have d: "tx d = tx s" "slept d u = slept s u" by (simp_all add: d_def slept_def modes_off_def detach_all_def)
  have c: "fst (aicwf_sdio_suspend e k f s) \<in> {d, u\<lparr>bus_suspended := True\<rparr>, d\<lparr>bus_suspended := True\<rparr>}"
    by (simp add: aicwf_sdio_suspend_def Let_def d_def [symmetric] u_def)
  then have "fst (aicwf_sdio_suspend e k f s) = u\<lparr>bus_suspended := True\<rparr>" "\<not> active_st u" using suspends d(1) by auto
  moreover have "slept s u" using stctl_slept [of d e False] suspends(1) calculation(2) d by (simp add: u_def [symmetric])
  ultimately show ?case by (simp add: slept_def)
next
  case (resumes s)
  then show ?case using stctl_slept [of "detach_all True s" e True] by (auto simp: aicwf_sdio_resume_def detach_all_def)
next
  case (stops s)
  then show ?case by (simp add: aicwf_sdio_bus_stop_def Let_def aicwf_sdio_pwr_stctl_def)
next
  case (packet s prio p)
  then show ?case using txdata_flags(2) [of prio p "tx s"] by (simp add: queue_packet_def split: prod.splits)
next
  case (command s m l)
  then show ?case using txmsg_flags(2) [of m l "tx s"] by (simp add: queue_command_def split: prod.splits)
qed auto

text \<open>Stopping the bus marks it down before it asks for sleep, and the request is refused for that reason: the card is
  left as it is, and the branch of \<open>aicwf_sdio_sleep_allow\<close> for a bus that is down is never taken.\<close>

theorem bus_stop_leaves_card:
  "sdio_active (tx (aicwf_sdio_bus_stop e s)) = sdio_active (tx s) \<and> bus_log (aicwf_sdio_bus_stop e s) = bus_log s"
  by (simp add: aicwf_sdio_bus_stop_def Let_def aicwf_sdio_pwr_stctl_def)

subsection \<open>Work that arrives while the power thread decides\<close>

text \<open>C28. Work can be left behind.  When a packet or a command arrives after the power thread has looked at the counters
  and before it puts the card to sleep, the following run of the driver's own threads is possible: the transmit thread
  finds the card awake, the power thread puts it to sleep, the transmit thread sees that and gives up.  In the
  end the packet is still queued, or the command still waits to be sent, the card is asleep, no timer runs, no thread
  has a trigger, and none of the driver's threads can take a step.\<close>

theorem sleep_strands_work:
  assumes "(pwr_step e te)\<^sup>*\<^sup>* (pwr_start c tsk ifs) s" "up_st s" "active_st s" "modes_off s" "pwt s = PwSleeping" "pwrctrl_trgg s = 0"
    "txth s = TxWaiting" "bustx_trgg s = 1" "0 < tx_pktcnt (tx s) \<or> cmd_txstate (tx s)"
  shows "\<exists>t. (own_step e te)\<^sup>*\<^sup>* s t \<and> tx t = (tx s)\<lparr>sdio_active := False\<rparr> \<and> (\<nexists>u. own_step e te t u)"
proof -
  have ad: "active_duration s \<noteq> 0" using pwr_reachable_inv [OF assms(1)] by (simp add: pwr_inv_def)
  define s1 where "s1 = s\<lparr>bustx_trgg := 0, txth := TxStart\<rparr>"
  have "tx_take s = s1" by (simp add: tx_take_def s1_def assms(2,8))
  then have r1: "own_step e te s s1" using own_step.tx_takes [OF assms(7), of e te] assms(8) by simp
  define s2 where "s2 = s1\<lparr>pw_timer := Some (active_duration s), txth := TxWoken\<rparr>"
  have "tx_wake e s1 = s2" using assms ad by (simp add: tx_wake_def s1_def s2_def aicwf_sdio_pwr_stctl_def aicwf_sdio_pwrctl_timer_def)
  then have r2: "own_step e te s1 s2" using own_step.tx_wakes [of s1 e te] by (simp add: s1_def)
  define s3 where "s3 = (snd (aicwf_sdio_pwr_stctl e False s2))\<lparr>pwt := PwWaiting\<rparr>"
  have r3: "own_step e te s2 s3" unfolding s3_def by (rule own_step.power [OF pw_step.pw_sleep]) (simp add: s2_def s1_def assms(5))
  have s2: "up_st s2" "active_st s2" "modes_off s2" "tx s2 = tx s" "pwrctrl_trgg s2 = 0" "bustx_trgg s2 = 0" "txth s2 = TxWoken"
    using assms by (simp_all add: s2_def s1_def modes_off_def)
  have a: "\<not> active_st (snd (aicwf_sdio_pwr_stctl e False s2))" "pw_timer (snd (aicwf_sdio_pwr_stctl e False s2)) = None"
    using stctl_sleeps [OF s2(1), of e] s2(2,3) by simp_all
  have s3: "tx s3 = (tx s)\<lparr>sdio_active := False\<rparr>" "pw_timer s3 = None" "pwrctrl_trgg s3 = 0" "bustx_trgg s3 = 0" "txth s3 = TxWoken" "pwt s3 = PwWaiting"
    using stctl_same [of s2 e False] a s2 by (auto simp: s3_def same_work_def)
  have stuck: "\<nexists>u. own_step e te (s3\<lparr>txth := TxWaiting\<rparr>) u"
    using s3 by (auto elim!: own_step.cases pw_step.cases)
  have tx: "tx (s3\<lparr>txth := TxWaiting\<rparr>) = (tx s)\<lparr>sdio_active := False\<rparr>" using s3(1) by simp
  have "(own_step e te)\<^sup>*\<^sup>* s3 (s3\<lparr>txth := TxWaiting\<rparr>)"
  proof (cases "cmd_txstate (tx s)")
    case True
    then have "tx_command te s3 = s3\<lparr>txth := TxWaiting\<rparr>" using s3(1) by (simp add: tx_command_def)
    then show ?thesis using own_step.tx_commands [OF s3(5), of e te] by (simp add: r_into_rtranclp)
  next
    case False
    define s4 where "s4 = s3\<lparr>txth := TxData\<rparr>"
    have "tx_command te s3 = s4" using False s3(1) by (simp add: tx_command_def s4_def)
    then have r4: "own_step e te s3 s4" using own_step.tx_commands [OF s3(5), of e te] by simp
    have "tx_data te (tx s4) = Some (tx s4)" using s3(1) by (simp add: tx_data_def s4_def)
    from own_step.tx_sends [OF _ this, of e] have "own_step e te s4 (s4\<lparr>txth := TxWaiting\<rparr>)" by (simp add: s4_def)
    then have "own_step e te s4 (s3\<lparr>txth := TxWaiting\<rparr>)" by (simp add: s4_def)
    then show ?thesis using r4 by (meson converse_rtranclp_into_rtranclp r_into_rtranclp)
  qed
  with r1 r2 r3 have "(own_step e te)\<^sup>*\<^sup>* s (s3\<lparr>txth := TxWaiting\<rparr>)" by (meson converse_rtranclp_into_rtranclp)
  then show ?thesis using tx stuck by blast
qed


subsection \<open>Suspend, resume and release\<close>

text \<open>A suspend that is refused has detached the network devices and changes nothing else; the devices are attached again
  by the next resume only.  A suspend that is accepted returns 0 even when a scan or P2P keeps the card awake.\<close>

theorem suspend_result:
  assumes "aicwf_sdio_suspend e k f s = (t, r)"
  shows "netifs t = map (map_option (\<lambda>_. False)) (netifs s) \<and> (r = 0 \<longleftrightarrow> k \<and> f = 0) \<and> (r \<noteq> 0 \<longrightarrow> t = detach_all False s) \<and>
     (r = 0 \<longrightarrow> bus_suspended t \<and> (up_st s \<longrightarrow> active_st t = (active_st s \<and> \<not> modes_off s)))"
proof -
  define u where "u = snd (aicwf_sdio_pwr_stctl e False (detach_all False s))"
  have d: "tx (detach_all False s) = tx s" "modes_off (detach_all False s) = modes_off s" "netifs (detach_all False s) = map (map_option (\<lambda>_. False)) (netifs s)"
    by (simp_all add: detach_all_def modes_off_def)
  have n: "netifs u = netifs (detach_all False s)"
    by (auto simp: u_def aicwf_sdio_pwr_stctl_def aicwf_sdio_sleep_allow_def pw_writeb_def split: prod.split)
  have a: "active_st u = (active_st s \<and> \<not> modes_off s)" if "up_st s" using stctl_sleeps(1) [of "detach_all False s" e] that by (simp add: d u_def)
  have t: "(t, r) = (if \<not> k then (detach_all False s, - EINVAL) else if f \<noteq> 0 then (detach_all False s, f)
      else ((if active_st s then u else detach_all False s)\<lparr>bus_suspended := True\<rparr>, 0))"
    by (subst assms [symmetric]) (simp add: aicwf_sdio_suspend_def Let_def d u_def)
  show ?thesis using t n d a by (auto simp: EINVAL_def split: if_splits)
qed

theorem resume_attaches:
  "netifs (aicwf_sdio_resume e s) = map (map_option (\<lambda>_. True)) (netifs s) \<and> \<not> bus_suspended (aicwf_sdio_resume e s) \<and>
     (up_st s \<longrightarrow> active_st (aicwf_sdio_resume e s))"
proof -
  have "netifs (snd (aicwf_sdio_pwr_stctl e True (detach_all True s))) = netifs (detach_all True s)"
    by (auto simp: aicwf_sdio_pwr_stctl_def aicwf_sdio_wakeup_def split: prod.split)
  moreover have "up_st s \<longrightarrow> active_st (snd (aicwf_sdio_pwr_stctl e True (detach_all True s)))" using stctl_wakes [of "detach_all True s" e] by (simp add: detach_all_def)
  ultimately show ?thesis by (simp add: aicwf_sdio_resume_def detach_all_def)
qed

text \<open>The power thread is stopped only after the transmit structures are freed: a release that comes between its wake-up and
  its look at the counters lets it read freed memory.\<close>

theorem power_thread_reads_freed:
  assumes "up_st s" "tx_priv_live s" "txth s = TxWaiting" "pwt s = PwChecking"
  shows "\<exists>t. (pwr_step e te)\<^sup>*\<^sup>* s t \<and> pwt t = PwChecking \<and> \<not> tx_priv_live t"
proof -
  define u where "u = aicwf_sdio_bus_stop e s"
  have "pwr_step e te s u" unfolding u_def using assms(2) by (rule stops)
  moreover have u: "\<not> up_st u" "txth u = TxWaiting" "pwt u = PwChecking"
    using assms by (simp_all add: u_def aicwf_sdio_bus_stop_def Let_def aicwf_sdio_pwr_stctl_def)
  have "pwr_step e te u (u\<lparr>tx_priv_live := False\<rparr>)" using u(1,2) by (rule frees)
  ultimately show ?thesis using u(3) by (intro exI [of _ "u\<lparr>tx_priv_live := False\<rparr>"]) (auto intro: converse_rtranclp_into_rtranclp r_into_rtranclp)
qed

subsection \<open>Witnesses\<close>

abbreviation "demo_awake \<equiv> demo_card 0x10"
abbreviation "demo_power \<equiv> pwr_start PRODUCT_ID_AIC8801 True [Some True]"

definition demo_active :: sdio_power where
  "demo_active = demo_power\<lparr>tx := (sdio_tx_init PRODUCT_ID_AIC8801)\<lparr>sdio_active := True\<rparr>, pw_timer := Some 30, bus_log := [WriteB 9 1, ReadB 5]\<rparr>"

lemma demo_wakeup_loop: "wakeup_loop demo_awake r v 20 0 [] = (0, [WriteB (wakeup_reg r) v, ReadB (sleep_reg r)])"
proof -
  have "wakeup_poll demo_awake a (Suc n) q log = (True, 0, log @ [ReadB a])" for a n q log by (simp add: aicwf_sdio_readb_def demo_card_def)
  from this [where n = 9] have p: "wakeup_poll demo_awake a 10 q log = (True, 0, log @ [ReadB a])" for a q log by simp
  have "wakeup_loop demo_awake r v (Suc n) q [] = (0, [WriteB (wakeup_reg r) v, ReadB (sleep_reg r)])" for n q
    by (simp only: wakeup_loop.simps p) (simp add: aicwf_sdio_writeb_def card_do_def demo_card_def p)
  from this [of 19 0] show ?thesis by simp
qed

lemma demo_wakes: "aicwf_sdio_pwr_stctl demo_awake True demo_power = (0, demo_active)"
proof -
  have f: "up_st demo_power" "\<not> active_st demo_power" "chipid (tx demo_power) = PRODUCT_ID_AIC8801" "bus_log demo_power = []" "active_duration demo_power = 30"
    by (simp_all add: pwr_start_def sdio_tx_init_def SDIOWIFI_PWR_CTRL_INTERVAL_def)
  have r: "wakeup_reg (aicwf_sdio_reg_init PRODUCT_ID_AIC8801) = 9" "sleep_reg (aicwf_sdio_reg_init PRODUCT_ID_AIC8801) = 5" "wakeup_reg_val PRODUCT_ID_AIC8801 = 1"
    by (simp_all add: aicwf_sdio_reg_init_def wakeup_reg_val_def legacy_chip_def)
  have "snd (aicwf_sdio_wakeup demo_awake demo_power) = aicwf_sdio_pwrctl_timer 30 (set_active True (demo_power\<lparr>bus_log := [WriteB 9 1, ReadB 5]\<rparr>))"
    by (simp add: aicwf_sdio_wakeup_def f r demo_wakeup_loop)
  then show ?thesis by (simp add: aicwf_sdio_pwr_stctl_def f) (simp add: aicwf_sdio_pwrctl_timer_def set_active_def pwr_start_def sdio_tx_init_def demo_active_def SDIOWIFI_PWR_CTRL_INTERVAL_def)
qed

lemma demo_active_reachable: "(pwr_step demo_awake te)\<^sup>*\<^sup>* demo_power demo_active"
  using rx_wakes [of demo_awake te demo_power] demo_wakes by (simp add: r_into_rtranclp)

lemma demo_fields:
  "up_st demo_active" "active_st demo_active" "pwrctl_tsk demo_active" "card_quiet demo_active" "pw_timer demo_active = Some 30" "pwrctrl_trgg demo_active = 0"
  "pwt demo_active = PwWaiting" "tx_priv_live demo_active" "txth demo_active = TxWaiting" "bustx_trgg demo_active = 0"
  by (simp_all add: demo_active_def pwr_start_def sdio_tx_init_def card_quiet_def pw_idle_def modes_off_def)

text \<open>The timer fires, the thread takes the trigger and finds nothing to do.\<close>

definition demo_deciding :: sdio_power where "demo_deciding = demo_active\<lparr>pw_timer := None, pwt := PwSleeping\<rparr>"

lemma demo_decides: "(pw_step demo_awake ^^ 3) demo_active demo_deciding"
proof -
  define s1 where "s1 = demo_active\<lparr>pw_timer := None, pwrctrl_trgg := 1\<rparr>"
  define s2 where "s2 = demo_active\<lparr>pw_timer := None, pwt := PwChecking\<rparr>"
  have 1: "pw_step demo_awake demo_active s1"
    using timer_fires [OF demo_fields(5), of demo_awake] demo_fields by (simp add: aicwf_sdio_bus_pwrctl_def s1_def)
  have 2: "pw_step demo_awake s1 s2"
  proof -
    have "s1\<lparr>pwrctrl_trgg := 0, pwt := PwChecking\<rparr> = s2" by (simp add: s1_def s2_def demo_active_def pwr_start_def)
    then show ?thesis using pw_take [of s1 0 demo_awake] demo_fields by (simp add: s1_def)
  qed
  have "card_quiet s2" using demo_fields(4) by (simp add: s2_def card_quiet_def pw_idle_def modes_off_def)
  then have "pw_decide s2 = demo_deciding" by (simp add: pw_decide_def card_quiet_def) (simp add: s2_def demo_deciding_def)
  then have 3: "pw_step demo_awake s2 demo_deciding" using pw_check [of s2 demo_awake] demo_fields by (simp add: s2_def)
  show ?thesis using 1 2 3 by (auto simp: eval_nat_numeral OO_def)
qed

lemma quiet_card_sleeps_witness:
  "\<exists>t. (pw_step demo_awake ^^ 4) demo_active t \<and> pw_measure demo_active = 4 \<and> sdio_active (tx demo_active) \<and> \<not> sdio_active (tx t) \<and> pw_timer t = None"
proof -
  define t where "t = (snd (aicwf_sdio_pwr_stctl demo_awake False demo_deciding))\<lparr>pwt := PwWaiting\<rparr>"
  have "pw_step demo_awake demo_deciding t" unfolding t_def by (rule pw_sleep) (simp add: demo_deciding_def)
  then have r: "(pw_step demo_awake ^^ 4) demo_active t" using demo_decides by (auto simp: eval_nat_numeral OO_def)
  have d: "up_st demo_deciding" "active_st demo_deciding" "modes_off demo_deciding" "pwrctrl_trgg demo_deciding = 0"
    using demo_fields by (simp_all add: demo_deciding_def card_quiet_def modes_off_def)
  have t: "pw_timer t = None" "pwrctrl_trgg t = 0" "pwt t = PwWaiting"
    using stctl_sleeps(2) [OF d(1-3), of demo_awake] stctl_same [of demo_deciding demo_awake False] d(4) by (simp_all add: t_def same_work_def)
  have "\<nexists>u. pw_step demo_awake t u" using t by (auto elim!: pw_step.cases)
  then have "\<not> sdio_active (tx t)" using quiet_card_sleeps [OF demo_active_reachable demo_fields(1,3,4) r] by blast
  then show ?thesis using r t demo_fields by (auto simp: pw_measure_def)
qed

lemma wakeup_bounded_witness:
  "\<exists>t. aicwf_sdio_pwr_stctl demo_awake True demo_power = (0, t) \<and> bus_log t = [WriteB 9 1, ReadB 5] \<and> pw_timer t = Some 30"
proof -
  have s: "up_st demo_power" "\<not> active_st demo_power" "active_duration demo_power = 30" "bus_log demo_power = []"
    by (simp_all add: pwr_start_def sdio_tx_init_def SDIOWIFI_PWR_CTRL_INTERVAL_def)
  show ?thesis using wakeup_bounded [OF s(1,2) _ demo_wakes] demo_wakes s(3) by (simp add: demo_active_def)
qed

definition demo_late :: sdio_power where "demo_late = fst (queue_command (\<lambda>i. 0) 8 demo_deciding)"

lemma sleep_strands_work_witness:
  "\<exists>t. (own_step demo_awake demo_env)\<^sup>*\<^sup>* demo_late t \<and> cmd_txstate (tx t) \<and> \<not> sdio_active (tx t) \<and> (\<nexists>u. own_step demo_awake demo_env t u)"
proof -
  have "(pw_step demo_awake)\<^sup>*\<^sup>* demo_active demo_deciding" using demo_decides by (rule relpowp_imp_rtranclp)
  then have "(pwr_step demo_awake demo_env)\<^sup>*\<^sup>* demo_active demo_deciding"
    by (rule rtranclp_mono [THEN predicate2D, rotated]) (auto intro: own own_step.power)
  then have "(pwr_step demo_awake demo_env)\<^sup>*\<^sup>* demo_power demo_deciding" using demo_active_reachable by (rule rtranclp_trans [rotated])
  moreover have "pwr_step demo_awake demo_env demo_deciding demo_late"
    unfolding demo_late_def by (rule command) (simp add: demo_deciding_def demo_fields)
  ultimately have r: "(pwr_step demo_awake demo_env)\<^sup>*\<^sup>* demo_power demo_late" by (rule rtranclp.rtrancl_into_rtrancl)
  have c: "demo_late = demo_deciding\<lparr>tx := (tx demo_deciding)\<lparr>cmd_txstate := True, cmd_tx_succ := False, cmd_buf := (\<lambda>i. 0), cmd_len := 8\<rparr>, bustx_trgg := 1\<rparr>"
    using demo_fields by (simp add: demo_late_def queue_command_def aicwf_sdio_bus_txmsg_def demo_deciding_def Let_def)
  have f: "up_st demo_late" "active_st demo_late" "modes_off demo_late" "pwt demo_late = PwSleeping" "pwrctrl_trgg demo_late = 0" "txth demo_late = TxWaiting"
    "bustx_trgg demo_late = 1" "cmd_txstate (tx demo_late)" using demo_fields by (simp_all add: c demo_deciding_def card_quiet_def modes_off_def)
  from sleep_strands_work [OF r f(1-7)] f(8) obtain t where t: "(own_step demo_awake demo_env)\<^sup>*\<^sup>* demo_late t"
    "tx t = (tx demo_late)\<lparr>sdio_active := False\<rparr>" "\<nexists>u. own_step demo_awake demo_env t u" by blast
  then show ?thesis using f(8) by (intro exI [of _ t]) simp
qed

end
