(* ===== verification/Sdio_Probe.thy ===== *)
theory Sdio_Probe
  imports Sdio_Card "HOL-Library.Monad_Syntax"
begin

text \<open>
  The life of the driver: loading the module, probing the card, releasing and removing it.  The state
  records what is allocated, which threads run, and every access to the card; a value \<open>None\<close> is a fault
  (an error pointer or a freed structure is used).  What the kernel answers, allocations and thread
  creations included, comes from the environment.
\<close>

subsection \<open>State and environment\<close>

text \<open>A thread pointer: null, a running thread, or the error pointer of a failed creation.\<close>

datatype kthread = NoThread | Running | ErrPtr

text \<open>How the set-up of the cfg80211 layer ends: no memory for the platform structure, no wiphy, a later error, success.\<close>

datatype plat_outcome = PlatNoMem | PlatNoWiphy | PlatFails | PlatOk

text \<open>How the chip answers after power has been applied: there is no bus to look at, it is found, another chip is found,
  whose firmware this module shall load, or nothing comes in time.\<close>

datatype chip_up = ChipNoBus | ChipFound | ChipOther | ChipSilent

record probe_env =
  io :: card_env
  alloc_bus_if :: bool
  alloc_sdiodev :: bool
  alloc_rx_priv :: bool
  alloc_recv_frames :: bool
  alloc_tx_priv :: bool
  alloc_aggr_buf :: bool
  alloc_cmd_buf :: bool
  run_pwrctl :: bool
  run_bustx :: bool
  run_busrx :: bool
  plat_outcome :: plat_outcome
  register_ok :: bool
  chip_up :: chip_up
  bsp_sdio_ret :: int
  bsp_fw_ret :: int

text \<open>Power of the chip, kept by the support module: the map of its users (\<open>pre_power_map\<close>), whether the chip has power,
  whether the support module's own card driver is registered, and the flag that leaves the firmware to this module.\<close>

record bsp_power =
  pre_power_map :: u32
  chip_on :: bool
  bsp_sdio_driver :: bool
  load_fw_in_fdrv :: bool

record life =
  life_chip :: AICWF_IC
  mem_bus_if :: bool
  mem_sdiodev :: bool
  drvdata_set :: bool
  nonremovable :: bool
  bus_is_up :: bool
  mem_rx :: bool
  mem_tx :: bool
  mem_cmd_buf :: bool
  bustx_thread :: kthread
  busrx_thread :: kthread
  pwrctl_thread :: kthread
  mem_plat :: bool
  plat_enabled :: bool
  rwnx_hw_live :: bool
  cmd_mgr_inited :: bool
  register_done :: bool
  rwnx_driver_err :: int
  drv_registered :: bool
  drv_bound :: bool
  bsp :: bsp_power
  life_log :: "card_op list"

definition ENOMEM_sdio :: int where "ENOMEM_sdio = 12"
definition ENODEV_sdio :: int where "ENODEV_sdio = 19"

definition life0 :: life where
  "life0 = \<lparr>life_chip = PRODUCT_ID_AIC8801, mem_bus_if = False, mem_sdiodev = False, drvdata_set = False, nonremovable = False,
     bus_is_up = False, mem_rx = False, mem_tx = False, mem_cmd_buf = False, bustx_thread = NoThread, busrx_thread = NoThread,
     pwrctl_thread = NoThread, mem_plat = False, plat_enabled = False, rwnx_hw_live = False, cmd_mgr_inited = False,
     register_done = False, rwnx_driver_err = -1, drv_registered = False, drv_bound = False,
     bsp = \<lparr>pre_power_map = 0, chip_on = False, bsp_sdio_driver = False, load_fw_in_fdrv = False\<rparr>, life_log = []\<rparr>"

definition life_do :: "probe_env \<Rightarrow> card_op \<Rightarrow> life \<Rightarrow> int \<times> life" where
  "life_do e a s = (case card_do (io e) a (life_log s) of (r, log) \<Rightarrow> (r, s\<lparr>life_log := log\<rparr>))"

definition intr_reg :: "life \<Rightarrow> u8" where "intr_reg s = intr_config_reg (aicwf_sdio_reg_init (life_chip s))"

definition kthread_stop :: "kthread \<Rightarrow> kthread option" where "kthread_stop t = (if t = ErrPtr then None else Some NoThread)"

definition started :: "bool \<Rightarrow> kthread" where "started b = (if b then Running else ErrPtr)"

subsection \<open>The receive and transmit structures\<close>

definition aicwf_rx_init_mem :: "probe_env \<Rightarrow> life \<Rightarrow> bool \<times> life" where
  "aicwf_rx_init_mem e s =
     (if \<not> alloc_rx_priv e then (False, s)
      else let s = s\<lparr>mem_rx := True\<rparr> in if \<not> alloc_recv_frames e then (False, s\<lparr>mem_rx := False\<rparr>) else (True, s))"

definition aicwf_tx_init :: "probe_env \<Rightarrow> life \<Rightarrow> bool \<times> life" where
  "aicwf_tx_init e s =
     (if \<not> alloc_tx_priv e then (False, s)
      else let s = s\<lparr>mem_tx := True\<rparr> in if \<not> alloc_aggr_buf e then (False, s\<lparr>mem_tx := False\<rparr>) else (True, s))"

definition aicwf_rx_deinit :: "life \<Rightarrow> life option" where
  "aicwf_rx_deinit s = do {
     th \<leftarrow> (if busrx_thread s = NoThread then Some NoThread else kthread_stop (busrx_thread s));
     Some (s\<lparr>busrx_thread := th, mem_rx := False\<rparr>)}"

definition aicwf_tx_deinit :: "life \<Rightarrow> life" where "aicwf_tx_deinit s = s\<lparr>mem_tx := False\<rparr>"

subsection \<open>The cfg80211 layer\<close>

text \<open>A failing initialisation frees the wiphy, of which \<open>rwnx_hw\<close> is a part, and leaves the command manager set up.\<close>

definition aicwf_rwnx_sdio_platform_init :: "probe_env \<Rightarrow> life \<Rightarrow> life" where
  "aicwf_rwnx_sdio_platform_init e s =
     (case plat_outcome e of
        PlatNoMem \<Rightarrow> s
      | PlatNoWiphy \<Rightarrow> s\<lparr>mem_plat := True, plat_enabled := False\<rparr>
      | PlatFails \<Rightarrow> s\<lparr>mem_plat := True, plat_enabled := False, cmd_mgr_inited := True\<rparr>
      | PlatOk \<Rightarrow> s\<lparr>mem_plat := True, plat_enabled := False, cmd_mgr_inited := True, rwnx_hw_live := True\<rparr>)"

definition rwnx_platform_deinit :: "life \<Rightarrow> life option" where
  "rwnx_platform_deinit s = (if \<not> rwnx_hw_live s then None else Some (s\<lparr>rwnx_hw_live := False, plat_enabled := False\<rparr>))"

definition aicwf_hostif_ready :: "life \<Rightarrow> life option" where
  "aicwf_hostif_ready s = (if \<not> mem_plat s then None else Some (s\<lparr>rwnx_driver_err := 0, plat_enabled := True, register_done := True\<rparr>))"

definition aicwf_hostif_fail :: "life \<Rightarrow> life" where "aicwf_hostif_fail s = s\<lparr>rwnx_driver_err := 1, register_done := True\<rparr>"

subsection \<open>The bus\<close>

definition aicwf_bus_deinit :: "life \<Rightarrow> life option" where
  "aicwf_bus_deinit s = do {
     let s = s\<lparr>bus_is_up := False\<rparr>;
     s \<leftarrow> (if mem_plat s \<and> plat_enabled s then rwnx_platform_deinit s else Some s);
     let s = s\<lparr>mem_cmd_buf := False\<rparr>;
     th \<leftarrow> (if bustx_thread s = NoThread then Some NoThread else kthread_stop (bustx_thread s));
     Some (s\<lparr>bustx_thread := th\<rparr>)}"

definition aicwf_bus_init :: "probe_env \<Rightarrow> life \<Rightarrow> (int \<times> life) option" where
  "aicwf_bus_init e s =
     (if \<not> alloc_cmd_buf e then do { s \<leftarrow> aicwf_bus_deinit s; Some (- ENOMEM_sdio, s) }
      else let s = s\<lparr>mem_cmd_buf := True, bustx_thread := started (run_bustx e), busrx_thread := started (run_busrx e)\<rparr>
        in if bustx_thread s = ErrPtr then do { s \<leftarrow> aicwf_bus_deinit (s\<lparr>bustx_thread := NoThread\<rparr>); Some (0, s) }
           else if busrx_thread s = ErrPtr then do { s \<leftarrow> aicwf_bus_deinit (s\<lparr>busrx_thread := NoThread\<rparr>); Some (0, s) }
           else Some (0, s))"

definition aicwf_sdio_bus_start :: "probe_env \<Rightarrow> life \<Rightarrow> int \<times> life" where
  "aicwf_sdio_bus_start e s =
     (let s = snd (life_do e ClaimIrq s);
          s = (if life_chip s = PRODUCT_ID_AIC8800D80 then snd (life_do e (F0Write 0x07 0x04) s) else s);
          (ret, s) = life_do e (WriteB (intr_reg s) 0x07) s
      in (ret, s\<lparr>bus_is_up := True\<rparr>))"

definition aicwf_sdio_release :: "probe_env \<Rightarrow> life \<Rightarrow> life option" where
  "aicwf_sdio_release e s = do {
     let s = s\<lparr>bus_is_up := False\<rparr>;
     let s = snd (life_do e (WriteB (intr_reg s) 0) s);
     let s = snd (life_do e ReleaseIrq s);
     s \<leftarrow> aicwf_bus_deinit s;
     let s = (if mem_tx s then aicwf_tx_deinit s else s);
     s \<leftarrow> (if mem_rx s then aicwf_rx_deinit s else Some s);
     th \<leftarrow> (if pwrctl_thread s = NoThread then Some NoThread else kthread_stop (pwrctl_thread s));
     Some (s\<lparr>pwrctl_thread := th, cmd_mgr_inited := False\<rparr>)}"

definition bus_init_fail :: "probe_env \<Rightarrow> life \<Rightarrow> (bool \<times> life) option" where
  "bus_init_fail e s = do { s \<leftarrow> aicwf_sdio_release e s; Some (False, s) }"

definition aicwf_sdio_bus_init :: "probe_env \<Rightarrow> life \<Rightarrow> (bool \<times> life) option" where
  "aicwf_sdio_bus_init e s =
     (let s = s\<lparr>bus_is_up := False\<rparr>; (ok, s) = aicwf_rx_init_mem e s in
      if \<not> ok then bus_init_fail e s else
      let (ok, s) = aicwf_tx_init e s in
      if \<not> ok then bus_init_fail e s else
      let s = s\<lparr>pwrctl_thread := (if run_pwrctl e then Running else NoThread)\<rparr> in
      case aicwf_bus_init e s of
        None \<Rightarrow> None
      | Some (ret, s) \<Rightarrow>
          if ret < 0 then bus_init_fail e s
          else let (ret, s) = aicwf_sdio_bus_start e s in if ret \<noteq> 0 then bus_init_fail e s else Some (True, s))"

subsection \<open>Probe and remove\<close>

definition aicwf_sdio_func_deinit :: "probe_env \<Rightarrow> life \<Rightarrow> life" where "aicwf_sdio_func_deinit e s = snd (life_do e DisableFunc s)"

definition free_card :: "probe_env \<Rightarrow> life \<Rightarrow> life" where
  "free_card e s = (aicwf_sdio_func_deinit e s)\<lparr>drvdata_set := False, mem_sdiodev := False, mem_bus_if := False\<rparr>"

definition probe_fail :: "probe_env \<Rightarrow> int \<Rightarrow> life \<Rightarrow> int \<times> life" where "probe_fail e err s = (err, aicwf_hostif_fail (free_card e s))"

definition take_card :: "u16 \<Rightarrow> u16 \<Rightarrow> life \<Rightarrow> life" where
  "take_card vid did s = s\<lparr>mem_bus_if := True, mem_sdiodev := True, life_chip := fst (aicwf_sdio_chipmatch vid did), drvdata_set := True\<rparr>"

definition aicwf_sdio_probe :: "probe_env \<Rightarrow> u16 \<Rightarrow> u16 \<Rightarrow> nat \<Rightarrow> life \<Rightarrow> (int \<times> life) option" where
  "aicwf_sdio_probe e vid did num s =
     (if num \<noteq> 1 then Some (- ENODEV_sdio, s)
      else if \<not> alloc_bus_if e \<or> \<not> alloc_sdiodev e then Some (- ENOMEM_sdio, s)
      else let s = take_card vid did s;
               (err, log) = func_init (io e) (life_chip s) (life_log s);
               s = s\<lparr>life_log := log\<rparr>
        in if err < 0 then Some (probe_fail e err s)
           else case aicwf_sdio_bus_init e s of
               None \<Rightarrow> None
             | Some (False, s) \<Rightarrow> Some (probe_fail e (-1) s)
             | Some (True, s) \<Rightarrow> do {
                 s \<leftarrow> aicwf_hostif_ready (aicwf_rwnx_sdio_platform_init e (s\<lparr>nonremovable := True\<rparr>));
                 Some (0, s)})"

definition aicwf_sdio_remove :: "probe_env \<Rightarrow> life \<Rightarrow> life option" where
  "aicwf_sdio_remove e s =
     (let s = s\<lparr>nonremovable := False\<rparr> in
      if \<not> drvdata_set s then Some s
      else do { s \<leftarrow> aicwf_sdio_release e (s\<lparr>bus_is_up := False\<rparr>); Some (free_card e s) })"

text \<open>The driver core probes the card when the driver is registered, if there is one, and binds the driver when the probe
  returns 0; unregistering calls the remove function of a bound driver, and only warns about one that is not registered.
  A card that is plugged in later is not followed.\<close>

definition aicwf_sdio_register :: "probe_env \<Rightarrow> (u16 \<times> u16 \<times> nat) option \<Rightarrow> life \<Rightarrow> life option" where
  "aicwf_sdio_register e found s =
     (if \<not> register_ok e then Some s
      else let s = s\<lparr>drv_registered := True\<rparr> in
        case found of
          None \<Rightarrow> Some s
        | Some (vid, did, num) \<Rightarrow> do { (r, s) \<leftarrow> aicwf_sdio_probe e vid did num s; Some (s\<lparr>drv_bound := (r = 0)\<rparr>) })"

definition sdio_unregister :: "probe_env \<Rightarrow> life \<Rightarrow> life option" where
  "sdio_unregister e s =
     (if \<not> drv_registered s then Some s
      else do {
        s \<leftarrow> (if drv_bound s then aicwf_sdio_remove e s else Some s);
        Some (s\<lparr>drv_bound := False, drv_registered := False\<rparr>) })"

definition aicwf_sdio_exit :: "probe_env \<Rightarrow> life \<Rightarrow> life option" where
  "aicwf_sdio_exit e s = do {
     s \<leftarrow> (if mem_plat s \<and> plat_enabled s then rwnx_platform_deinit s else Some s);
     s \<leftarrow> sdio_unregister e s;
     Some (s\<lparr>mem_plat := False\<rparr>)}"

subsection \<open>Power of the chip\<close>

definition AIC_WIFI :: nat where "AIC_WIFI = 1"

definition aicbsp_platform_power_on :: "probe_env \<Rightarrow> bsp_power \<Rightarrow> int \<times> bsp_power" where
  "aicbsp_platform_power_on e p =
     (case chip_up e of
        ChipNoBus \<Rightarrow> (-1, p)
      | ChipFound \<Rightarrow> (0, p\<lparr>chip_on := True\<rparr>)
      | ChipOther \<Rightarrow> (-1, p\<lparr>chip_on := True, load_fw_in_fdrv := True\<rparr>)
      | ChipSilent \<Rightarrow> (-1, p\<lparr>chip_on := False\<rparr>))"

definition aicbsp_platform_power_off :: "bsp_power \<Rightarrow> bsp_power" where "aicbsp_platform_power_off p = p\<lparr>chip_on := False\<rparr>"

definition aicbsp_set_subsys :: "probe_env \<Rightarrow> nat \<Rightarrow> bool \<Rightarrow> bsp_power \<Rightarrow> int \<times> bsp_power" where
  "aicbsp_set_subsys e subsys state p =
     (let p = p\<lparr>load_fw_in_fdrv := False\<rparr>;
          cur = (if state then pre_power_map p OR push_bit subsys 1 else pre_power_map p AND NOT (push_bit subsys 1));
          pre_power_state = pre_power_map p \<noteq> 0; cur_power_state = cur \<noteq> 0
      in if cur_power_state \<noteq> pre_power_state
         then if cur_power_state
           then let (ret, p) = aicbsp_platform_power_on e p in
                if ret < 0 then (-1, p)
                else if bsp_sdio_ret e \<noteq> 0 then (-1, aicbsp_platform_power_off p)
                else let p = p\<lparr>bsp_sdio_driver := True\<rparr> in
                  if bsp_fw_ret e \<noteq> 0 then (-1, aicbsp_platform_power_off (p\<lparr>bsp_sdio_driver := False\<rparr>))
                  else (1, p\<lparr>pre_power_map := cur\<rparr>)
           else (0, (aicbsp_platform_power_off (p\<lparr>bsp_sdio_driver := False\<rparr>))\<lparr>pre_power_map := cur\<rparr>)
         else (of_bool cur_power_state, p\<lparr>pre_power_map := cur\<rparr>))"

definition wifi_power :: "probe_env \<Rightarrow> bool \<Rightarrow> life \<Rightarrow> int \<times> life" where
  "wifi_power e state s = (case aicbsp_set_subsys e AIC_WIFI state (bsp s) of (r, p) \<Rightarrow> (r, s\<lparr>bsp := p\<rparr>))"

subsection \<open>Loading and unloading the module\<close>

text \<open>\<open>found\<close> is the card in the slot, if any.\<close>

definition rwnx_mod_init :: "probe_env \<Rightarrow> (u16 \<times> u16 \<times> nat) option \<Rightarrow> life \<Rightarrow> (int \<times> life) option" where
  "rwnx_mod_init e found s =
     (let (r, s) = wifi_power e True s in
      if r < 0 \<and> \<not> load_fw_in_fdrv (bsp s) then Some (- ENODEV_sdio, s)
      else do {
        s \<leftarrow> aicwf_sdio_register e found (s\<lparr>register_done := False\<rparr>);
        if \<not> register_done s \<or> rwnx_driver_err s \<noteq> 0
        then do { s \<leftarrow> aicwf_sdio_exit e s; Some (- ENODEV_sdio, snd (wifi_power e False s)) }
        else Some (0, s) })"

definition rwnx_mod_exit :: "probe_env \<Rightarrow> life \<Rightarrow> life option" where
  "rwnx_mod_exit e s = do { s \<leftarrow> aicwf_sdio_exit e s; Some (snd (wifi_power e False s)) }"

text \<open>A module that has been loaded is unloaded again.\<close>

definition module_cycle :: "probe_env \<Rightarrow> (u16 \<times> u16 \<times> nat) option \<Rightarrow> life \<Rightarrow> (int \<times> life \<times> life) option" where
  "module_cycle e found s = do {
     (r, t) \<leftarrow> rwnx_mod_init e found s;
     if r = 0 then do { u \<leftarrow> rwnx_mod_exit e t; Some (r, t, u) } else Some (r, t, t) }"


subsection \<open>What the accesses leave behind\<close>

definition fn_switch :: "card_op \<Rightarrow> bool \<Rightarrow> bool" where
  "fn_switch a b = (case a of EnableFunc \<Rightarrow> True | DisableFunc \<Rightarrow> False | _ \<Rightarrow> b)"
definition irq_switch :: "card_op \<Rightarrow> bool \<Rightarrow> bool" where
  "irq_switch a b = (case a of ClaimIrq \<Rightarrow> True | ReleaseIrq \<Rightarrow> False | _ \<Rightarrow> b)"

definition fn_on :: "card_op list \<Rightarrow> bool" where "fn_on log = fold fn_switch log False"
definition irq_on :: "card_op list \<Rightarrow> bool" where "irq_on log = fold irq_switch log False"

lemma on_append [simp]: "fn_on (xs @ ys) = fold fn_switch ys (fn_on xs)" "irq_on (xs @ ys) = fold irq_switch ys (irq_on xs)"
  by (simp_all add: fn_on_def irq_on_def)

lemmas switch_simps = fn_switch_def irq_switch_def

lemma func_init_on:
  assumes "func_init e c log = (r, log')"
  shows "irq_on log' = irq_on log" "0 \<le> r \<Longrightarrow> fn_on log'"
  using assms by (auto simp: func_init_def aicwf_sdio_func_init_def aicwf_sdiov3_func_init_def set_clock_def check_awake_def card_simps Let_def switch_simps split: if_splits prod.splits)

lemma life_do_fields [simp]:
  "life_log (snd (life_do e a s)) = life_log s @ [a]" "life_chip (snd (life_do e a s)) = life_chip s" "mem_bus_if (snd (life_do e a s)) = mem_bus_if s"
  "mem_sdiodev (snd (life_do e a s)) = mem_sdiodev s" "drvdata_set (snd (life_do e a s)) = drvdata_set s" "nonremovable (snd (life_do e a s)) = nonremovable s"
  "bus_is_up (snd (life_do e a s)) = bus_is_up s" "mem_rx (snd (life_do e a s)) = mem_rx s" "mem_tx (snd (life_do e a s)) = mem_tx s"
  "mem_cmd_buf (snd (life_do e a s)) = mem_cmd_buf s" "bustx_thread (snd (life_do e a s)) = bustx_thread s" "busrx_thread (snd (life_do e a s)) = busrx_thread s"
  "pwrctl_thread (snd (life_do e a s)) = pwrctl_thread s" "mem_plat (snd (life_do e a s)) = mem_plat s" "plat_enabled (snd (life_do e a s)) = plat_enabled s"
  "rwnx_hw_live (snd (life_do e a s)) = rwnx_hw_live s" "cmd_mgr_inited (snd (life_do e a s)) = cmd_mgr_inited s" "rwnx_driver_err (snd (life_do e a s)) = rwnx_driver_err s"
  "register_done (snd (life_do e a s)) = register_done s" "drv_registered (snd (life_do e a s)) = drv_registered s" "drv_bound (snd (life_do e a s)) = drv_bound s"
  "bsp (snd (life_do e a s)) = bsp s"
  by (simp_all add: life_do_def card_do_def)

text \<open>Nothing of the transport is left: no memory, no thread, no interrupt.\<close>

definition transport_gone :: "life \<Rightarrow> bool" where
  "transport_gone s \<longleftrightarrow> \<not> bus_is_up s \<and> \<not> mem_rx s \<and> \<not> mem_tx s \<and> \<not> mem_cmd_buf s \<and> bustx_thread s = NoThread \<and> busrx_thread s = NoThread \<and>
     pwrctl_thread s = NoThread \<and> \<not> cmd_mgr_inited s \<and> \<not> irq_on (life_log s)"

definition card_gone :: "life \<Rightarrow> bool" where
  "card_gone s \<longleftrightarrow> transport_gone s \<and> \<not> mem_bus_if s \<and> \<not> mem_sdiodev s \<and> \<not> drvdata_set s \<and> \<not> nonremovable s \<and> \<not> mem_plat s \<and> \<not> plat_enabled s \<and>
     \<not> rwnx_hw_live s \<and> \<not> fn_on (life_log s)"

definition driver_gone :: "life \<Rightarrow> bool" where "driver_gone s \<longleftrightarrow> card_gone s \<and> \<not> drv_registered s \<and> \<not> drv_bound s"

text \<open>The module's bit of the power map is clear; the chip has power and the support module's driver is registered
  exactly when there is another user.\<close>

definition wifi_off :: "bsp_power \<Rightarrow> bool" where
  "wifi_off p \<longleftrightarrow> pre_power_map p AND push_bit AIC_WIFI 1 = 0 \<and> chip_on p = (pre_power_map p \<noteq> 0) \<and> bsp_sdio_driver p = (pre_power_map p \<noteq> 0)"

text \<open>A loaded driver: all of it but the bus threads and the buffer of commands; and one that has these too.\<close>

definition loaded :: "life \<Rightarrow> bool" where
  "loaded s \<longleftrightarrow> bus_is_up s \<and> mem_rx s \<and> mem_tx s \<and> cmd_mgr_inited s \<and> irq_on (life_log s) \<and> fn_on (life_log s) \<and> mem_bus_if s \<and> mem_sdiodev s \<and>
     drvdata_set s \<and> mem_plat s \<and> plat_enabled s \<and> rwnx_hw_live s \<and> register_done s \<and> rwnx_driver_err s = 0 \<and> drv_registered s \<and> drv_bound s"

definition operational :: "life \<Rightarrow> bool" where
  "operational s \<longleftrightarrow> loaded s \<and> mem_cmd_buf s \<and> bustx_thread s = Running \<and> busrx_thread s = Running"

text \<open>What the transport does not touch.\<close>

abbreviation outer :: "life \<Rightarrow> bool \<times> bool \<times> bool \<times> bool \<times> bool \<times> bool \<times> int \<times> bool \<times> bool \<times> bsp_power" where
  "outer s \<equiv> (mem_bus_if s, mem_sdiodev s, drvdata_set s, nonremovable s, mem_plat s, register_done s, rwnx_driver_err s, drv_registered s, drv_bound s, bsp s)"

text \<open>States that can be released: no error pointer is stored, and the platform is not enabled without its data.\<close>

definition releasable :: "life \<Rightarrow> bool" where
  "releasable s \<longleftrightarrow> bustx_thread s \<noteq> ErrPtr \<and> busrx_thread s \<noteq> ErrPtr \<and> pwrctl_thread s \<noteq> ErrPtr \<and> (\<not> mem_rx s \<longrightarrow> busrx_thread s = NoThread) \<and>
     (mem_plat s \<and> plat_enabled s \<longrightarrow> rwnx_hw_live s)"

lemma bus_deinit_effect:
  assumes "bustx_thread s \<noteq> ErrPtr" "mem_plat s \<and> plat_enabled s \<longrightarrow> rwnx_hw_live s"
  shows "aicwf_bus_deinit s = Some (s\<lparr>bus_is_up := False, rwnx_hw_live := rwnx_hw_live s \<and> \<not> (mem_plat s \<and> plat_enabled s),
    plat_enabled := plat_enabled s \<and> \<not> mem_plat s, mem_cmd_buf := False, bustx_thread := NoThread\<rparr>)"
  using assms by (cases s) (auto simp: aicwf_bus_deinit_def rwnx_platform_deinit_def kthread_stop_def Let_def)

lemma release_unfold:
  assumes "bustx_thread s \<noteq> ErrPtr" "mem_plat s \<and> plat_enabled s \<longrightarrow> rwnx_hw_live s"
  obtains w where "aicwf_sdio_release e s = do {
     let s = (if mem_tx w then aicwf_tx_deinit w else w);
     s \<leftarrow> (if mem_rx s then aicwf_rx_deinit s else Some s);
     th \<leftarrow> (if pwrctl_thread s = NoThread then Some NoThread else kthread_stop (pwrctl_thread s));
     Some (s\<lparr>pwrctl_thread := th, cmd_mgr_inited := False\<rparr>)}"
    "\<not> bus_is_up w" "rwnx_hw_live w = (rwnx_hw_live s \<and> \<not> (mem_plat s \<and> plat_enabled s))" "plat_enabled w = (plat_enabled s \<and> \<not> mem_plat s)" "\<not> mem_cmd_buf w"
    "bustx_thread w = NoThread" "busrx_thread w = busrx_thread s" "pwrctl_thread w = pwrctl_thread s" "mem_rx w = mem_rx s" "outer w = outer s"
    "\<not> irq_on (life_log w)" "fn_on (life_log w) = fn_on (life_log s)"
proof -
  define u where "u = snd (life_do e ReleaseIrq (snd (life_do e (WriteB (intr_reg s) 0) (s\<lparr>bus_is_up := False\<rparr>))))"
  define w where "w = u\<lparr>bus_is_up := False, rwnx_hw_live := rwnx_hw_live u \<and> \<not> (mem_plat u \<and> plat_enabled u),
    plat_enabled := plat_enabled u \<and> \<not> mem_plat u, mem_cmd_buf := False, bustx_thread := NoThread\<rparr>"
  have d: "aicwf_bus_deinit u = Some w" unfolding w_def
    by (rule bus_deinit_effect) (use assms in \<open>simp_all add: u_def\<close>)
  have "intr_reg (s\<lparr>bus_is_up := False\<rparr>) = intr_reg s" by (simp add: intr_reg_def)
  then have "aicwf_sdio_release e s = aicwf_bus_deinit u \<bind> (\<lambda>s. let s = (if mem_tx s then aicwf_tx_deinit s else s) in do {
     s \<leftarrow> (if mem_rx s then aicwf_rx_deinit s else Some s);
     th \<leftarrow> (if pwrctl_thread s = NoThread then Some NoThread else kthread_stop (pwrctl_thread s));
     Some (s\<lparr>pwrctl_thread := th, cmd_mgr_inited := False\<rparr>)})" by (simp add: aicwf_sdio_release_def u_def intr_reg_def)
  then show thesis unfolding d by (intro that [of w]) (simp_all add: w_def, simp_all add: u_def switch_simps)
qed

lemma release_effect:
  assumes "releasable s"
  obtains t where "aicwf_sdio_release e s = Some t" "transport_gone t" "fn_on (life_log t) = fn_on (life_log s)" "outer t = outer s"
    "plat_enabled t = (plat_enabled s \<and> \<not> mem_plat s)" "rwnx_hw_live t = (rwnx_hw_live s \<and> \<not> (mem_plat s \<and> plat_enabled s))"
proof -
  obtain w where w: "aicwf_sdio_release e s = do {
     let s = (if mem_tx w then aicwf_tx_deinit w else w);
     s \<leftarrow> (if mem_rx s then aicwf_rx_deinit s else Some s);
     th \<leftarrow> (if pwrctl_thread s = NoThread then Some NoThread else kthread_stop (pwrctl_thread s));
     Some (s\<lparr>pwrctl_thread := th, cmd_mgr_inited := False\<rparr>)}"
    "\<not> bus_is_up w" "rwnx_hw_live w = (rwnx_hw_live s \<and> \<not> (mem_plat s \<and> plat_enabled s))" "plat_enabled w = (plat_enabled s \<and> \<not> mem_plat s)" "\<not> mem_cmd_buf w"
    "bustx_thread w = NoThread" "busrx_thread w = busrx_thread s" "pwrctl_thread w = pwrctl_thread s" "mem_rx w = mem_rx s" "outer w = outer s"
    "\<not> irq_on (life_log w)" "fn_on (life_log w) = fn_on (life_log s)"
    by (rule release_unfold [of s e]) (use assms in \<open>auto simp: releasable_def\<close>)
  define v where "v = w\<lparr>mem_tx := False, busrx_thread := NoThread, mem_rx := False, pwrctl_thread := NoThread, cmd_mgr_inited := False\<rparr>"
  have r: "busrx_thread w \<noteq> ErrPtr" "pwrctl_thread w \<noteq> ErrPtr" "\<not> mem_rx w \<Longrightarrow> busrx_thread w = NoThread" using assms w by (auto simp: releasable_def)
  have "aicwf_sdio_release e s = Some v" unfolding w(1) v_def using r
    by (cases w) (auto simp: Let_def aicwf_rx_deinit_def aicwf_tx_deinit_def kthread_stop_def)
  then show thesis by (rule that) (use w(2-) in \<open>simp_all add: v_def transport_gone_def\<close>)
qed

text \<open>The error pointer of a receive thread that was never created is dereferenced.\<close>

lemma release_faults:
  assumes "bustx_thread s \<noteq> ErrPtr" "mem_plat s \<and> plat_enabled s \<longrightarrow> rwnx_hw_live s" "busrx_thread s = ErrPtr" "mem_rx s"
  shows "aicwf_sdio_release e s = None"
  by (rule release_unfold [OF assms(1,2), of e]) (use assms(3,4) in \<open>auto simp: Let_def aicwf_rx_deinit_def aicwf_tx_deinit_def kthread_stop_def\<close>)


subsection \<open>Setting up the bus\<close>

definition threads_start :: "probe_env \<Rightarrow> bool" where "threads_start e \<longleftrightarrow> run_bustx e \<and> run_busrx e"

definition with_rx :: "life \<Rightarrow> life" where "with_rx s = s\<lparr>bus_is_up := False, mem_rx := True\<rparr>"
definition with_tx :: "probe_env \<Rightarrow> life \<Rightarrow> life" where
  "with_tx e s = (with_rx s)\<lparr>mem_tx := True, pwrctl_thread := (if run_pwrctl e then Running else NoThread)\<rparr>"
definition with_bus :: "probe_env \<Rightarrow> life \<Rightarrow> life" where
  "with_bus e s = (with_tx e s)\<lparr>mem_cmd_buf := threads_start e, bustx_thread := (if threads_start e then Running else NoThread),
     busrx_thread := (if run_busrx e then Running else if run_bustx e then NoThread else ErrPtr)\<rparr>"
definition with_irq :: "probe_env \<Rightarrow> life \<Rightarrow> life" where "with_irq e s = snd (aicwf_sdio_bus_start e (with_bus e s))"

lemmas with_defs = with_rx_def with_tx_def with_bus_def

text \<open>Every allocation succeeds and the interrupt is enabled.\<close>

definition bus_comes_up :: "probe_env \<Rightarrow> life \<Rightarrow> bool" where
  "bus_comes_up e s \<longleftrightarrow> alloc_rx_priv e \<and> alloc_recv_frames e \<and> alloc_tx_priv e \<and> alloc_aggr_buf e \<and> alloc_cmd_buf e \<and> fst (aicwf_sdio_bus_start e s) = 0"

lemma bus_start_ret: "life_log s = life_log t \<Longrightarrow> life_chip s = life_chip t \<Longrightarrow> fst (aicwf_sdio_bus_start e s) = fst (aicwf_sdio_bus_start e t)"
  by (simp add: aicwf_sdio_bus_start_def life_do_def card_do_def intr_reg_def Let_def)

lemma bus_init_unfold:
  assumes "transport_gone s" "\<not> mem_plat s" "\<not> plat_enabled s"
  shows "aicwf_sdio_bus_init e s =
     (if \<not> (alloc_rx_priv e \<and> alloc_recv_frames e) then bus_init_fail e s
      else if \<not> (alloc_tx_priv e \<and> alloc_aggr_buf e) then bus_init_fail e (with_rx s)
      else if \<not> alloc_cmd_buf e then bus_init_fail e (with_tx e s)
      else if fst (aicwf_sdio_bus_start e s) \<noteq> 0 then bus_init_fail e (with_irq e s) else Some (True, with_irq e s))"
proof -
  define s2 where "s2 = with_tx e s"
  have s0: "s\<lparr>bus_is_up := False\<rparr> = s" using assms(1) by (cases s) (simp add: transport_gone_def)
  have r: "aicwf_rx_init_mem e s = (if alloc_rx_priv e \<and> alloc_recv_frames e then (True, with_rx s) else (False, s))"
    using assms(1) by (cases s) (auto simp: aicwf_rx_init_mem_def with_defs transport_gone_def)
  have x: "aicwf_tx_init e (with_rx s) = (if alloc_tx_priv e \<and> alloc_aggr_buf e then (True, (with_rx s)\<lparr>mem_tx := True\<rparr>) else (False, with_rx s))"
    using assms(1) by (cases s) (auto simp: aicwf_tx_init_def with_defs transport_gone_def)
  have b1: "aicwf_bus_deinit (s2\<lparr>mem_cmd_buf := True, busrx_thread := th, bustx_thread := NoThread\<rparr>) = Some (s2\<lparr>busrx_thread := th\<rparr>)" for th
    by (subst bus_deinit_effect) (use assms in \<open>cases s, simp_all add: s2_def with_defs transport_gone_def\<close>)
  have b2: "aicwf_bus_deinit (s2\<lparr>mem_cmd_buf := True, bustx_thread := Running, busrx_thread := NoThread\<rparr>) = Some (s2\<lparr>busrx_thread := NoThread\<rparr>)"
    by (subst bus_deinit_effect) (use assms in \<open>cases s, simp_all add: s2_def with_defs transport_gone_def\<close>)
  have b0: "aicwf_bus_deinit s2 = Some s2"
    by (subst bus_deinit_effect) (use assms in \<open>cases s, simp_all add: s2_def with_defs transport_gone_def\<close>)
  have i: "aicwf_bus_init e s2 = (if alloc_cmd_buf e then Some (0, with_bus e s) else Some (- ENOMEM_sdio, s2))"
  proof -
    consider "\<not> run_bustx e" | "run_bustx e" "\<not> run_busrx e" | "run_bustx e" "run_busrx e" by blast
    then show ?thesis
    proof cases
      case 1
      then have "with_bus e s = s2\<lparr>busrx_thread := (if run_busrx e then Running else ErrPtr)\<rparr>"
        using assms(1) by (cases s) (simp add: s2_def with_defs threads_start_def transport_gone_def)
      then show ?thesis using 1 b0 b1 by (simp add: aicwf_bus_init_def started_def)
    next
      case 2
      then have "with_bus e s = s2\<lparr>busrx_thread := NoThread\<rparr>"
        using assms(1) by (cases s) (simp add: s2_def with_defs threads_start_def transport_gone_def)
      then show ?thesis using 2 b0 b2 by (simp add: aicwf_bus_init_def started_def)
    next
      case 3
      then have "with_bus e s = s2\<lparr>mem_cmd_buf := True, bustx_thread := Running, busrx_thread := Running\<rparr>"
        by (simp add: s2_def with_bus_def threads_start_def)
      then show ?thesis using 3 b0 by (simp add: aicwf_bus_init_def started_def)
    qed
  qed
  have st: "fst (aicwf_sdio_bus_start e (with_bus e s)) = fst (aicwf_sdio_bus_start e s)" by (rule bus_start_ret) (simp_all add: with_defs)
  show ?thesis unfolding aicwf_sdio_bus_init_def Let_def s0 r
    using i by (auto simp: x s2_def [unfolded with_tx_def] with_irq_def st [symmetric] ENOMEM_sdio_def with_tx_def split: prod.split)
qed

lemma with_irq_fields:
  "bus_is_up (with_irq e s)" "mem_rx (with_irq e s)" "mem_tx (with_irq e s)" "mem_cmd_buf (with_irq e s) = threads_start e"
  "bustx_thread (with_irq e s) = (if threads_start e then Running else NoThread)"
  "busrx_thread (with_irq e s) = (if run_busrx e then Running else if run_bustx e then NoThread else ErrPtr)"
  "pwrctl_thread (with_irq e s) \<noteq> ErrPtr" "irq_on (life_log (with_irq e s))" "fn_on (life_log (with_irq e s)) = fn_on (life_log s)"
  "outer (with_irq e s) = outer s" "plat_enabled (with_irq e s) = plat_enabled s" "rwnx_hw_live (with_irq e s) = rwnx_hw_live s"
  by (simp_all add: with_irq_def aicwf_sdio_bus_start_def Let_def split_beta switch_simps) (simp_all add: with_defs)

lemmas with_irq_outer = with_irq_fields(10) [unfolded prod.inject]

lemma bus_init_succeeds:
  "transport_gone s \<Longrightarrow> \<not> mem_plat s \<Longrightarrow> \<not> plat_enabled s \<Longrightarrow> bus_comes_up e s \<Longrightarrow> aicwf_sdio_bus_init e s = Some (True, with_irq e s)"
  by (simp add: bus_init_unfold bus_comes_up_def)

lemma bus_init_fails:
  assumes "transport_gone s" "\<not> mem_plat s" "\<not> plat_enabled s" "\<not> bus_comes_up e s" "run_bustx e \<or> run_busrx e"
  obtains t where "aicwf_sdio_bus_init e s = Some (False, t)" "transport_gone t" "outer t = outer s" "plat_enabled t = plat_enabled s" "rwnx_hw_live t = rwnx_hw_live s"
proof -
  define good where "good = (\<lambda>u. releasable u \<and> outer u = outer s \<and> plat_enabled u = plat_enabled s \<and> rwnx_hw_live u = rwnx_hw_live s)"
  have g: "good s" "good (with_rx s)" "good (with_tx e s)" "good (with_irq e s)"
    using assms(1-3,5) by (auto simp: good_def releasable_def transport_gone_def with_irq_fields with_irq_outer with_rx_def with_tx_def)
  then obtain u where u: "good u" "aicwf_sdio_bus_init e s = bus_init_fail e u"
    using bus_init_unfold [OF assms(1-3), of e] assms(4) unfolding bus_comes_up_def by metis
  then obtain t where t: "aicwf_sdio_release e u = Some t" "transport_gone t" "outer t = outer u" "plat_enabled t = (plat_enabled u \<and> \<not> mem_plat u)"
    "rwnx_hw_live t = (rwnx_hw_live u \<and> \<not> (mem_plat u \<and> plat_enabled u))" using release_effect [of u e] unfolding good_def by metis
  show thesis by (rule that [of t]) (use t u assms(2,3) in \<open>auto simp: bus_init_fail_def good_def\<close>)
qed


subsection \<open>Probing\<close>

text \<open>The card is probed up to the set-up of the cfg80211 layer.\<close>

definition probe_comes_up :: "probe_env \<Rightarrow> u16 \<Rightarrow> u16 \<Rightarrow> nat \<Rightarrow> life \<Rightarrow> bool" where
  "probe_comes_up e vid did num s \<longleftrightarrow> num = 1 \<and> alloc_bus_if e \<and> alloc_sdiodev e \<and>
     (let s = take_card vid did s; (err, log) = func_init (io e) (life_chip s) (life_log s) in 0 \<le> err \<and> bus_comes_up e (s\<lparr>life_log := log\<rparr>))"

definition probe_end :: "probe_env \<Rightarrow> life \<Rightarrow> life" where
  "probe_end e s = s\<lparr>nonremovable := True, mem_plat := True, plat_enabled := True, cmd_mgr_inited := (plat_outcome e \<noteq> PlatNoWiphy \<or> cmd_mgr_inited s),
     rwnx_hw_live := (plat_outcome e = PlatOk \<or> rwnx_hw_live s), rwnx_driver_err := 0, register_done := True\<rparr>"

lemma platform_end:
  "aicwf_hostif_ready (aicwf_rwnx_sdio_platform_init e (t\<lparr>nonremovable := True\<rparr>)) = (if plat_outcome e = PlatNoMem \<and> \<not> mem_plat t then None
     else if plat_outcome e = PlatNoMem then Some (t\<lparr>nonremovable := True, rwnx_driver_err := 0, plat_enabled := True, register_done := True\<rparr>) else Some (probe_end e t))"
  by (cases t) (auto simp: aicwf_hostif_ready_def aicwf_rwnx_sdio_platform_init_def probe_end_def split: plat_outcome.split)

lemma probe_fail_gone:
  assumes "transport_gone u" "\<not> mem_plat u" "\<not> plat_enabled u" "\<not> nonremovable u" "\<not> rwnx_hw_live u"
  shows "card_gone (snd (probe_fail e q u))" "rwnx_driver_err (snd (probe_fail e q u)) = 1" "bsp (snd (probe_fail e q u)) = bsp u"
    "drv_registered (snd (probe_fail e q u)) = drv_registered u" "fst (probe_fail e q u) = q"
  using assms by (simp_all add: probe_fail_def aicwf_hostif_fail_def free_card_def aicwf_sdio_func_deinit_def card_gone_def transport_gone_def switch_simps)

lemma taken_gone:
  assumes "card_gone s" "func_init c (life_chip (take_card vid did s)) (life_log (take_card vid did s)) = (err, log)"
  shows "transport_gone ((take_card vid did s)\<lparr>life_log := log\<rparr>)" "0 \<le> err \<Longrightarrow> fn_on log"
  using assms(1) func_init_on [OF assms(2)] by (simp_all add: take_card_def card_gone_def transport_gone_def)

lemma probe_fails:
  assumes "card_gone s" "\<not> probe_comes_up e vid did num s" "run_bustx e \<or> run_busrx e"
  obtains r t where "aicwf_sdio_probe e vid did num s = Some (r, t)" "r \<noteq> 0" "card_gone t" "register_done t \<longrightarrow> register_done s \<or> rwnx_driver_err t = 1"
    "bsp t = bsp s" "drv_registered t = drv_registered s"
proof -
  define s1 where "s1 = take_card vid did s"
  obtain err log where f: "func_init (io e) (life_chip s1) (life_log s1) = (err, log)" by fastforce
  define s2 where "s2 = s1\<lparr>life_log := log\<rparr>"
  note gone = taken_gone [OF assms(1) f [unfolded s1_def], folded s1_def, folded s2_def]
  have g: "\<not> mem_plat s2" "\<not> plat_enabled s2" "\<not> nonremovable s2" "\<not> rwnx_hw_live s2" "bsp s2 = bsp s" "drv_registered s2 = drv_registered s"
    using assms(1) by (simp_all add: s2_def s1_def take_card_def card_gone_def)
  consider "num \<noteq> 1 \<or> \<not> alloc_bus_if e \<or> \<not> alloc_sdiodev e" | "num = 1" "alloc_bus_if e" "alloc_sdiodev e" by blast
  then show thesis
  proof cases
    case 1
    then have "aicwf_sdio_probe e vid did num s = Some (- ENODEV_sdio, s) \<or> aicwf_sdio_probe e vid did num s = Some (- ENOMEM_sdio, s)"
      by (simp add: aicwf_sdio_probe_def)
    then show thesis using that [of _ s] assms(1) by (auto simp: ENODEV_sdio_def ENOMEM_sdio_def)
  next
    case 2
    have p: "aicwf_sdio_probe e vid did num s = (if err < 0 then Some (probe_fail e err s2) else case aicwf_sdio_bus_init e s2 of None \<Rightarrow> None
         | Some (False, s) \<Rightarrow> Some (probe_fail e (-1) s)
         | Some (True, s) \<Rightarrow> do { s \<leftarrow> aicwf_hostif_ready (aicwf_rwnx_sdio_platform_init e (s\<lparr>nonremovable := True\<rparr>)); Some (0, s)})"
      using 2 f by (simp add: aicwf_sdio_probe_def Let_def s2_def s1_def)
    show thesis
    proof (cases "err < 0")
      case True
      note k = probe_fail_gone [OF gone(1) g(1-4), of e err]
      show thesis by (rule that [of err "snd (probe_fail e err s2)"]) (use True k g in \<open>simp_all add: p prod_eq_iff\<close>)
    next
      case False
      then have "\<not> bus_comes_up e s2" using assms(2) 2 f by (simp add: probe_comes_up_def s1_def s2_def)
      then obtain t where t: "aicwf_sdio_bus_init e s2 = Some (False, t)" "transport_gone t" "outer t = outer s2" "plat_enabled t = plat_enabled s2" "rwnx_hw_live t = rwnx_hw_live s2"
        using bus_init_fails [OF gone(1) g(1,2) _ assms(3)] by metis
      have k: "card_gone (snd (probe_fail e (-1) t))" "rwnx_driver_err (snd (probe_fail e (-1) t)) = 1" "bsp (snd (probe_fail e (-1) t)) = bsp t"
        "drv_registered (snd (probe_fail e (-1) t)) = drv_registered t" "fst (probe_fail e (-1) t) = -1"
        by (rule probe_fail_gone; use t g in simp)+
      show thesis by (rule that [of "-1" "snd (probe_fail e (-1) t)"]) (use False t k g in \<open>simp_all add: p prod_eq_iff\<close>)
    qed
  qed
qed

lemma probe_succeeds:
  assumes "card_gone s" "probe_comes_up e vid did num s"
  obtains t where "aicwf_sdio_probe e vid did num s = (if plat_outcome e = PlatNoMem then None else Some (0, probe_end e t))"
    "bus_is_up t" "mem_rx t" "mem_tx t" "mem_cmd_buf t = threads_start e" "bustx_thread t = (if threads_start e then Running else NoThread)"
    "busrx_thread t = (if run_busrx e then Running else if run_bustx e then NoThread else ErrPtr)" "pwrctl_thread t \<noteq> ErrPtr"
    "irq_on (life_log t)" "fn_on (life_log t)" "mem_bus_if t" "mem_sdiodev t" "drvdata_set t" "\<not> rwnx_hw_live t" "bsp t = bsp s" "drv_registered t = drv_registered s"
proof -
  define s1 where "s1 = take_card vid did s"
  obtain err log where f: "func_init (io e) (life_chip s1) (life_log s1) = (err, log)" by fastforce
  define s2 where "s2 = s1\<lparr>life_log := log\<rparr>"
  note gone = taken_gone [OF assms(1) f [unfolded s1_def], folded s1_def, folded s2_def]
  have g: "\<not> mem_plat s2" "\<not> plat_enabled s2" "\<not> rwnx_hw_live s2" "bsp s2 = bsp s" "drv_registered s2 = drv_registered s" "mem_bus_if s2" "mem_sdiodev s2" "drvdata_set s2"
    using assms(1) by (simp_all add: s2_def s1_def take_card_def card_gone_def)
  have c: "num = 1" "alloc_bus_if e" "alloc_sdiodev e" "\<not> err < 0" "bus_comes_up e s2"
    using assms(2) f by (simp_all add: probe_comes_up_def s1_def s2_def)
  have n: "\<not> mem_plat (with_irq e s2)" using with_irq_fields(10) [of e s2] g(1) by simp
  have "aicwf_sdio_probe e vid did num s = (if plat_outcome e = PlatNoMem then None else Some (0, probe_end e (with_irq e s2)))"
    using c f bus_init_succeeds [OF gone(1) g(1,2) c(5)] n by (simp add: aicwf_sdio_probe_def Let_def s2_def s1_def platform_end)
  moreover have "fn_on (life_log s2)" using gone(2) c(4) by (simp add: s2_def)
  ultimately show thesis using with_irq_fields [of e s2] g by (intro that [of "with_irq e s2"]) simp_all
qed

subsection \<open>Power\<close>

lemma wifi_bit:
  fixes m :: u32
  assumes "m AND push_bit AIC_WIFI 1 = 0"
  shows "m AND NOT (push_bit AIC_WIFI 1) = m" "(m OR push_bit AIC_WIFI 1) AND NOT (push_bit AIC_WIFI 1) = m" "m OR push_bit AIC_WIFI 1 \<noteq> 0"
proof -
  have b: "bit m n \<Longrightarrow> bit (push_bit AIC_WIFI (1 :: u32)) n \<Longrightarrow> False" for n
    using assms by (metis bit_and_iff bit_0_eq bot_apply bot_bool_def)
  show "m AND NOT (push_bit AIC_WIFI 1) = m" "(m OR push_bit AIC_WIFI 1) AND NOT (push_bit AIC_WIFI 1) = m"
    using b by (auto intro!: bit_word_eqI simp: bit_and_iff bit_or_iff bit_not_iff)
  show "m OR push_bit AIC_WIFI 1 \<noteq> 0"
  proof
    assume "m OR push_bit AIC_WIFI 1 = 0"
    then have "\<not> bit (m OR push_bit AIC_WIFI 1) AIC_WIFI" by simp
    then show False by (simp add: bit_or_iff bit_push_bit_iff AIC_WIFI_def)
  qed
qed

text \<open>When the module asks for power: it is granted, or refused with nothing changed, or refused because of another chip,
  which keeps its power.\<close>

definition left_on :: "probe_env \<Rightarrow> bsp_power \<Rightarrow> bool" where "left_on e p \<longleftrightarrow> pre_power_map p = 0 \<and> chip_up e = ChipOther"

definition wifi_power_ok :: "probe_env \<Rightarrow> bsp_power \<Rightarrow> bool" where
  "wifi_power_ok e p \<longleftrightarrow> pre_power_map p \<noteq> 0 \<or> chip_up e = ChipFound \<and> bsp_sdio_ret e = 0 \<and> bsp_fw_ret e = 0"

lemma power_on_effect:
  assumes "wifi_off p" "aicbsp_set_subsys e AIC_WIFI True p = (r, q)"
  shows "0 \<le> r \<longleftrightarrow> wifi_power_ok e p" "load_fw_in_fdrv q \<longleftrightarrow> left_on e p"
    "r < 0 \<Longrightarrow> q = p\<lparr>load_fw_in_fdrv := left_on e p, chip_on := chip_on p \<or> left_on e p\<rparr>"
    "snd (aicbsp_set_subsys e AIC_WIFI False q) = p\<lparr>load_fw_in_fdrv := False, chip_on := chip_on p \<or> left_on e p\<rparr>"
proof -
  note w = wifi_bit [OF assms(1) [unfolded wifi_off_def, THEN conjunct1]]
  have c: "chip_on p = (pre_power_map p \<noteq> 0)" "bsp_sdio_driver p = (pre_power_map p \<noteq> 0)" using assms(1) by (simp_all add: wifi_off_def)
  show "0 \<le> r \<longleftrightarrow> wifi_power_ok e p" "load_fw_in_fdrv q \<longleftrightarrow> left_on e p"
    "r < 0 \<Longrightarrow> q = p\<lparr>load_fw_in_fdrv := left_on e p, chip_on := chip_on p \<or> left_on e p\<rparr>"
    using assms(2) w c by (cases p; cases "chip_up e"; auto simp: aicbsp_set_subsys_def Let_def aicbsp_platform_power_on_def aicbsp_platform_power_off_def
        left_on_def wifi_power_ok_def split: if_splits)+
  show "snd (aicbsp_set_subsys e AIC_WIFI False q) = p\<lparr>load_fw_in_fdrv := False, chip_on := chip_on p \<or> left_on e p\<rparr>"
    using assms(2) w c by (cases p; cases "chip_up e"; auto simp: aicbsp_set_subsys_def Let_def aicbsp_platform_power_on_def aicbsp_platform_power_off_def
        left_on_def split: if_splits)
qed


subsection \<open>Loading and unloading\<close>

definition module_comes_up :: "probe_env \<Rightarrow> (u16 \<times> u16 \<times> nat) option \<Rightarrow> life \<Rightarrow> bool" where
  "module_comes_up e found s \<longleftrightarrow> (wifi_power_ok e (bsp s) \<or> left_on e (bsp s)) \<and> register_ok e \<and>
     (case found of None \<Rightarrow> False | Some (vid, did, num) \<Rightarrow> probe_comes_up e vid did num s)"

text \<open>What the probe does not report: a receive thread that cannot be created when the transmit thread cannot either, and
  every failure of the cfg80211 set-up.\<close>

definition unreported :: "probe_env \<Rightarrow> bool" where "unreported e \<longleftrightarrow> \<not> run_bustx e \<and> \<not> run_busrx e \<or> plat_outcome e \<noteq> PlatOk"

lemma comes_up_state: "life_log s = life_log t \<Longrightarrow> probe_comes_up e vid did num s = probe_comes_up e vid did num t"
proof -
  assume "life_log s = life_log t"
  moreover have "bus_comes_up e ((take_card vid did s)\<lparr>life_log := log\<rparr>) = bus_comes_up e ((take_card vid did t)\<lparr>life_log := log\<rparr>)" for log
  proof -
    have "fst (aicwf_sdio_bus_start e ((take_card vid did s)\<lparr>life_log := log\<rparr>)) = fst (aicwf_sdio_bus_start e ((take_card vid did t)\<lparr>life_log := log\<rparr>))"
      by (rule bus_start_ret) (simp_all add: take_card_def)
    then show ?thesis by (simp add: bus_comes_up_def)
  qed
  ultimately show ?thesis by (simp add: probe_comes_up_def Let_def) (simp add: take_card_def)
qed

lemma register_fails:
  assumes "driver_gone s" "\<not> register_done s" "\<not> (register_ok e \<and> (case found of None \<Rightarrow> False | Some (vid, did, num) \<Rightarrow> probe_comes_up e vid did num s))"
    "run_bustx e \<or> run_busrx e"
  obtains t where "aicwf_sdio_register e found s = Some t" "card_gone t" "\<not> drv_bound t" "\<not> register_done t \<or> rwnx_driver_err t \<noteq> 0" "bsp t = bsp s"
proof -
  have g: "card_gone s" "card_gone (s\<lparr>drv_registered := True\<rparr>)" "\<not> drv_bound s" using assms(1) by (simp_all add: driver_gone_def card_gone_def transport_gone_def)
  show thesis
  proof (cases "register_ok e \<and> found \<noteq> None")
    case False
    then have "aicwf_sdio_register e found s = Some (if register_ok e then s\<lparr>drv_registered := True\<rparr> else s)" by (cases found) (auto simp: aicwf_sdio_register_def Let_def)
    then show thesis by (rule that) (use g assms(2) in auto)
  next
    case True
    then obtain vid did num where k: "found = Some (vid, did, num)" by auto
    have "\<not> probe_comes_up e vid did num (s\<lparr>drv_registered := True\<rparr>)" using assms(3) True k comes_up_state [of s "s\<lparr>drv_registered := True\<rparr>"] by simp
    then obtain r t where t: "aicwf_sdio_probe e vid did num (s\<lparr>drv_registered := True\<rparr>) = Some (r, t)" "r \<noteq> 0" "card_gone t"
      "register_done t \<longrightarrow> register_done (s\<lparr>drv_registered := True\<rparr>) \<or> rwnx_driver_err t = 1" "bsp t = bsp (s\<lparr>drv_registered := True\<rparr>)"
      using probe_fails [OF g(2) _ assms(4)] by metis
    show thesis by (rule that [of "t\<lparr>drv_bound := False\<rparr>"])
      (use True t assms(2) k in \<open>auto simp: aicwf_sdio_register_def card_gone_def transport_gone_def\<close>)
  qed
qed

lemma register_succeeds:
  assumes "driver_gone s" "register_ok e" "probe_comes_up e vid did num s"
  obtains t where "aicwf_sdio_register e (Some (vid, did, num)) s = (if plat_outcome e = PlatNoMem then None else Some (probe_end e t))"
    "bus_is_up t" "mem_rx t" "mem_tx t" "mem_cmd_buf t = threads_start e" "bustx_thread t = (if threads_start e then Running else NoThread)"
    "busrx_thread t = (if run_busrx e then Running else if run_bustx e then NoThread else ErrPtr)" "pwrctl_thread t \<noteq> ErrPtr"
    "irq_on (life_log t)" "fn_on (life_log t)" "mem_bus_if t" "mem_sdiodev t" "drvdata_set t" "\<not> rwnx_hw_live t" "bsp t = bsp s" "drv_registered t" "drv_bound t"
proof -
  have g: "card_gone (s\<lparr>drv_registered := True\<rparr>)" using assms(1) by (simp add: driver_gone_def card_gone_def transport_gone_def)
  have c: "probe_comes_up e vid did num (s\<lparr>drv_registered := True\<rparr>)" using assms(3) comes_up_state [of s "s\<lparr>drv_registered := True\<rparr>"] by simp
  obtain u where u: "aicwf_sdio_probe e vid did num (s\<lparr>drv_registered := True\<rparr>) = (if plat_outcome e = PlatNoMem then None else Some (0, probe_end e u))"
    "bus_is_up u" "mem_rx u" "mem_tx u" "mem_cmd_buf u = threads_start e" "bustx_thread u = (if threads_start e then Running else NoThread)"
    "busrx_thread u = (if run_busrx e then Running else if run_bustx e then NoThread else ErrPtr)" "pwrctl_thread u \<noteq> ErrPtr"
    "irq_on (life_log u)" "fn_on (life_log u)" "mem_bus_if u" "mem_sdiodev u" "drvdata_set u" "\<not> rwnx_hw_live u"
    "bsp u = bsp (s\<lparr>drv_registered := True\<rparr>)" "drv_registered u = drv_registered (s\<lparr>drv_registered := True\<rparr>)" by (rule probe_succeeds [OF g c])
  have e: "(probe_end e u)\<lparr>drv_bound := True\<rparr> = probe_end e (u\<lparr>drv_bound := True\<rparr>)" by (simp add: probe_end_def)
  show thesis by (rule that [of "u\<lparr>drv_bound := True\<rparr>"]) (use u(2-) in \<open>simp_all add: aicwf_sdio_register_def assms(2) u(1) e\<close>)
qed

lemma exit_not_bound:
  assumes "card_gone s" "\<not> drv_bound s"
  obtains t where "aicwf_sdio_exit e s = Some t" "driver_gone t" "bsp t = bsp s"
  using assms by (intro that [of "s\<lparr>drv_registered := False\<rparr>"]) (cases s, auto simp: aicwf_sdio_exit_def sdio_unregister_def card_gone_def driver_gone_def transport_gone_def)

text \<open>Removing a loaded driver, with the platform given up on the way.\<close>

lemma exit_loaded:
  assumes "loaded s" "bustx_thread s \<noteq> ErrPtr" "pwrctl_thread s \<noteq> ErrPtr"
  shows "busrx_thread s \<noteq> ErrPtr \<Longrightarrow> \<exists>t. aicwf_sdio_exit e s = Some t \<and> driver_gone t \<and> bsp t = bsp s" "busrx_thread s = ErrPtr \<Longrightarrow> aicwf_sdio_exit e s = None"
proof -
  define s1 where "s1 = s\<lparr>rwnx_hw_live := False, plat_enabled := False, nonremovable := False, bus_is_up := False\<rparr>"
  have x: "aicwf_sdio_exit e s = do { s \<leftarrow> aicwf_sdio_release e s1; Some ((free_card e s)\<lparr>drv_bound := False, drv_registered := False, mem_plat := False\<rparr>) }"
    using assms(1) by (cases "aicwf_sdio_release e s1") (simp_all add: aicwf_sdio_exit_def sdio_unregister_def rwnx_platform_deinit_def aicwf_sdio_remove_def loaded_def s1_def)
  { assume "busrx_thread s = ErrPtr"
    then have "aicwf_sdio_release e s1 = None" using assms by (intro release_faults) (simp_all add: s1_def loaded_def)
    then show "aicwf_sdio_exit e s = None" by (simp add: x) }
  assume "busrx_thread s \<noteq> ErrPtr"
  then have r: "releasable s1" using assms by (simp add: releasable_def loaded_def s1_def)
  obtain t where t: "aicwf_sdio_release e s1 = Some t" "transport_gone t" "outer t = outer s1" "plat_enabled t = (plat_enabled s1 \<and> \<not> mem_plat s1)"
    "rwnx_hw_live t = (rwnx_hw_live s1 \<and> \<not> (mem_plat s1 \<and> plat_enabled s1))" using release_effect [OF r] by metis
  then show "\<exists>t. aicwf_sdio_exit e s = Some t \<and> driver_gone t \<and> bsp t = bsp s"
    by (simp add: x driver_gone_def card_gone_def transport_gone_def free_card_def aicwf_sdio_func_deinit_def switch_simps s1_def)
qed

text \<open>The module is loaded in a state in which its own parts are gone and the chip has power only for others.\<close>

definition module_gone :: "life \<Rightarrow> bool" where "module_gone s \<longleftrightarrow> driver_gone s \<and> wifi_off (bsp s)"

lemma cycle_fails:
  assumes "module_gone s" "\<not> module_comes_up e found s" "run_bustx e \<or> run_busrx e"
  shows "\<exists>t. module_cycle e found s = Some (- ENODEV_sdio, t, t) \<and> driver_gone t \<and>
    bsp t = (bsp s)\<lparr>load_fw_in_fdrv := False, chip_on := chip_on (bsp s) \<or> left_on e (bsp s)\<rparr>"
proof -
  obtain r q where w: "aicbsp_set_subsys e AIC_WIFI True (bsp s) = (r, q)" by fastforce
  have off: "wifi_off (bsp s)" and gone: "driver_gone s" using assms(1) by (simp_all add: module_gone_def)
  note p = power_on_effect [OF off w]
  have m: "wifi_power e True s = (r, s\<lparr>bsp := q\<rparr>)" by (simp add: wifi_power_def w)
  have g: "driver_gone (s\<lparr>bsp := q\<rparr>)" "driver_gone (s\<lparr>bsp := q, register_done := False\<rparr>)" using gone by (simp_all add: driver_gone_def card_gone_def transport_gone_def)
  show ?thesis
  proof (cases "r < 0 \<and> \<not> load_fw_in_fdrv q")
    case True
    then have "rwnx_mod_init e found s = Some (- ENODEV_sdio, s\<lparr>bsp := q\<rparr>)" by (simp add: rwnx_mod_init_def m)
    then show ?thesis using True p(2,3) g(1) by (simp add: module_cycle_def ENODEV_sdio_def)
  next
    case False
    then have "wifi_power_ok e (bsp s) \<or> left_on e (bsp s)" using p(1,2) by auto
    then have n: "\<not> (register_ok e \<and> (case found of None \<Rightarrow> False | Some (vid, did, num) \<Rightarrow> probe_comes_up e vid did num (s\<lparr>bsp := q, register_done := False\<rparr>)))"
      using assms(2) comes_up_state [of s "s\<lparr>bsp := q, register_done := False\<rparr>"] by (auto simp: module_comes_up_def split: option.splits)
    have d: "\<not> register_done (s\<lparr>bsp := q, register_done := False\<rparr>)" by simp
    obtain t where t: "aicwf_sdio_register e found (s\<lparr>bsp := q, register_done := False\<rparr>) = Some t" "card_gone t" "\<not> drv_bound t"
      "\<not> register_done t \<or> rwnx_driver_err t \<noteq> 0" "bsp t = bsp (s\<lparr>bsp := q, register_done := False\<rparr>)"
      by (rule register_fails [OF g(2) d n assms(3)])
    obtain u where u: "aicwf_sdio_exit e t = Some u" "driver_gone u" "bsp u = bsp t" by (rule exit_not_bound [OF t(2,3)])
    have "rwnx_mod_init e found s = Some (- ENODEV_sdio, snd (wifi_power e False u))" using False t(1,4) u(1) by (auto simp: rwnx_mod_init_def m)
    moreover have "driver_gone (snd (wifi_power e False u))" using u(2) by (simp add: wifi_power_def split_beta driver_gone_def card_gone_def transport_gone_def)
    moreover have "bsp (snd (wifi_power e False u)) = snd (aicbsp_set_subsys e AIC_WIFI False q)" using u(3) t(5) by (simp add: wifi_power_def split_beta)
    ultimately show ?thesis using p(4) by (simp add: module_cycle_def ENODEV_sdio_def)
  qed
qed

lemma cycle_succeeds:
  assumes "module_gone s" "module_comes_up e found s"
  shows "if unreported e then module_cycle e found s = None
    else \<exists>t u. module_cycle e found s = Some (0, t, u) \<and> loaded t \<and> (operational t \<longleftrightarrow> threads_start e) \<and> driver_gone u \<and>
      bsp u = (bsp s)\<lparr>load_fw_in_fdrv := False, chip_on := chip_on (bsp s) \<or> left_on e (bsp s)\<rparr>"
proof -
  obtain r q where w: "aicbsp_set_subsys e AIC_WIFI True (bsp s) = (r, q)" by fastforce
  have off: "wifi_off (bsp s)" and gone: "driver_gone s" using assms(1) by (simp_all add: module_gone_def)
  note p = power_on_effect [OF off w]
  have m: "wifi_power e True s = (r, s\<lparr>bsp := q\<rparr>)" by (simp add: wifi_power_def w)
  define s1 where "s1 = s\<lparr>bsp := q, register_done := False\<rparr>"
  have g: "driver_gone s1" using gone by (simp add: s1_def driver_gone_def card_gone_def transport_gone_def)
  obtain vid did num where k: "found = Some (vid, did, num)" "register_ok e" "probe_comes_up e vid did num s1"
    using assms(2) comes_up_state [of s s1] by (auto simp: module_comes_up_def s1_def split: option.splits)
  have pw: "\<not> (r < 0 \<and> \<not> load_fw_in_fdrv q)" using assms(2) p(1,2) by (auto simp: module_comes_up_def)
  obtain t where t: "aicwf_sdio_register e found s1 = (if plat_outcome e = PlatNoMem then None else Some (probe_end e t))"
    "bus_is_up t" "mem_rx t" "mem_tx t" "mem_cmd_buf t = threads_start e" "bustx_thread t = (if threads_start e then Running else NoThread)"
    "busrx_thread t = (if run_busrx e then Running else if run_bustx e then NoThread else ErrPtr)" "pwrctl_thread t \<noteq> ErrPtr"
    "irq_on (life_log t)" "fn_on (life_log t)" "mem_bus_if t" "mem_sdiodev t" "drvdata_set t" "\<not> rwnx_hw_live t" "bsp t = bsp s1" "drv_registered t" "drv_bound t"
    by (rule register_succeeds [OF g k(2,3), folded k(1)]) blast
  have i: "rwnx_mod_init e found s = (if plat_outcome e = PlatNoMem then None else Some (0, probe_end e t))"
    using pw t(1) by (auto simp: rwnx_mod_init_def m s1_def [symmetric] probe_end_def)
  show ?thesis
  proof (cases "plat_outcome e = PlatOk")
    case False
    have "rwnx_mod_exit e (probe_end e t) = None" if "plat_outcome e \<noteq> PlatNoMem"
      using that False t(14) by (simp add: rwnx_mod_exit_def aicwf_sdio_exit_def rwnx_platform_deinit_def probe_end_def)
    then show ?thesis using False i by (simp add: unreported_def module_cycle_def)
  next
    case True
    have l: "loaded (probe_end e t)" using t(2-) True by (simp add: loaded_def probe_end_def)
    have o: "operational (probe_end e t) \<longleftrightarrow> threads_start e" using l t(5-7) by (auto simp: operational_def probe_end_def threads_start_def)
    have th: "bustx_thread (probe_end e t) \<noteq> ErrPtr" "pwrctl_thread (probe_end e t) \<noteq> ErrPtr" "busrx_thread (probe_end e t) = ErrPtr \<longleftrightarrow> unreported e"
      using t(6-8) True by (simp_all add: probe_end_def unreported_def)
    note x = exit_loaded [OF l th(1,2), of e]
    show ?thesis
    proof (cases "unreported e")
      case True2: True
      then show ?thesis using x(2) th(3) i True by (simp add: module_cycle_def rwnx_mod_exit_def)
    next
      case False
      then obtain u where u: "aicwf_sdio_exit e (probe_end e t) = Some u" "driver_gone u" "bsp u = bsp (probe_end e t)" using x(1) th(3) by blast
      have b: "bsp (snd (wifi_power e False u)) = snd (aicbsp_set_subsys e AIC_WIFI False q)" using u(3) t(15) by (simp add: wifi_power_def split_beta probe_end_def s1_def)
      have "driver_gone (snd (wifi_power e False u))" using u(2) by (simp add: wifi_power_def split_beta driver_gone_def card_gone_def transport_gone_def)
      then show ?thesis using False i True u(1) l o b p(4) by (simp add: module_cycle_def rwnx_mod_exit_def)
    qed
  qed
qed



subsection \<open>Failures that are reported as success\<close>

text \<open>A bus thread that cannot be created is reported as success as well: the caller goes on to enable the bus, with
  the buffer of commands freed and no transmit thread.\<close>

theorem missing_tx_thread_reported_as_success:
  assumes "alloc_cmd_buf e" "\<not> run_bustx e" "aicwf_bus_init e s = Some (r, t)"
  shows "r = 0 \<and> bustx_thread t = NoThread \<and> \<not> mem_cmd_buf t"
  using assms by (auto simp: aicwf_bus_init_def started_def Let_def aicwf_bus_deinit_def rwnx_platform_deinit_def split: if_splits bind_splits)

text \<open>A card of another vendor is driven as the first chip: the mismatch is returned and overwritten.\<close>

theorem chipmatch_ids:
  "aicwf_sdio_chipmatch vid did = (c, 0) \<longleftrightarrow>
     (vid, did, c) \<in> {(0x5449, 0x0145, PRODUCT_ID_AIC8801), (0xc8a1, 0xc08d, PRODUCT_ID_AIC8800DC), (0xc8a1, 0x0082, PRODUCT_ID_AIC8800D80)}"
  by (auto simp: aicwf_sdio_chipmatch_def)

subsection \<open>Witnesses\<close>

definition demo_probe_env :: probe_env where
  "demo_probe_env = \<lparr>io = demo_card 0x10, alloc_bus_if = True, alloc_sdiodev = True, alloc_rx_priv = True, alloc_recv_frames = True, alloc_tx_priv = True,
     alloc_aggr_buf = True, alloc_cmd_buf = True, run_pwrctl = True, run_bustx = True, run_busrx = True, plat_outcome = PlatOk, register_ok = True,
     chip_up = ChipFound, bsp_sdio_ret = 0, bsp_fw_ret = 0\<rparr>"

lemma life0_gone: "module_gone life0"
  by (simp add: module_gone_def driver_gone_def card_gone_def transport_gone_def wifi_off_def life0_def irq_on_def fn_on_def)


end
