(* ===== verification/User_Config.thy ===== *)
theory User_Config
  imports Prelude
begin

text \<open>
  The user configuration (\<^verbatim>\<open>rwnx_platform.c\<close>): a text file of lines \<open>key=value\<close> and
  comments sets the transmit power tables of the chip.  \<open>rwnx_plat_userconfig_parsing2\<close> (AIC8800DC
  and DW) and \<open>rwnx_plat_userconfig_parsing3\<close> (AIC8800D80) read it octet by octet with a state
  machine and two buffers of fixed size.  A write past a buffer, and a number whose string has no
  end, are faults.
\<close>

subsection \<open>The configuration\<close>

record txpwr_lvl_conf_t =
  lvl_enable :: u8
  dsss :: u8
  ofdmlowrate_2g4 :: u8
  ofdm64qam_2g4 :: u8
  ofdm256qam_2g4 :: u8
  ofdm1024qam_2g4 :: u8
  ofdmlowrate_5g :: u8
  ofdm64qam_5g :: u8
  ofdm256qam_5g :: u8
  ofdm1024qam_5g :: u8

text \<open>Signed octets are kept as octets; \<open>sint\<close> reads them.\<close>

record txpwr_lvl_conf_v2_t =
  v2_enable :: u8
  v2_pwrlvl_11b_11ag_2g4 :: "u8 list"
  v2_pwrlvl_11n_11ac_2g4 :: "u8 list"
  v2_pwrlvl_11ax_2g4 :: "u8 list"

record txpwr_lvl_conf_v3_t =
  v3_enable :: u8
  v3_pwrlvl_11b_11ag_2g4 :: "u8 list"
  v3_pwrlvl_11n_11ac_2g4 :: "u8 list"
  v3_pwrlvl_11ax_2g4 :: "u8 list"
  v3_pwrlvl_11a_5g :: "u8 list"
  v3_pwrlvl_11n_11ac_5g :: "u8 list"
  v3_pwrlvl_11ax_5g :: "u8 list"

record txpwr_loss_conf_t =
  loss_enable :: u8
  loss_value :: u8

record txpwr_ofst_conf_t =
  ofst_enable :: u8
  chan_1_4 :: u8
  chan_5_9 :: u8
  chan_10_13 :: u8
  chan_36_64 :: u8
  chan_100_120 :: u8
  chan_122_140 :: u8
  chan_142_165 :: u8

record txpwr_ofst2x_conf_t =
  ofst2x_enable :: u8
  pwrofst2x_tbl_2g4 :: "u8 list list"
  pwrofst2x_tbl_5g :: "u8 list list"

record xtal_cap_conf_t =
  xtal_enable :: u8
  xtal_cap_val :: u8
  xtal_cap_fine :: u8

record userconfig_info_t =
  txpwr_lvl :: txpwr_lvl_conf_t
  txpwr_lvl_v2 :: txpwr_lvl_conf_v2_t
  txpwr_lvl_v3 :: txpwr_lvl_conf_v3_t
  txpwr_loss :: txpwr_loss_conf_t
  txpwr_ofst :: txpwr_ofst_conf_t
  txpwr_ofst2x :: txpwr_ofst2x_conf_t
  xtal_cap :: xtal_cap_conf_t

definition userconfig_info :: userconfig_info_t where
  "userconfig_info = \<lparr>
     txpwr_lvl = \<lparr>lvl_enable = 1, dsss = 9, ofdmlowrate_2g4 = 8, ofdm64qam_2g4 = 8, ofdm256qam_2g4 = 8, ofdm1024qam_2g4 = 8,
       ofdmlowrate_5g = 11, ofdm64qam_5g = 10, ofdm256qam_5g = 9, ofdm1024qam_5g = 9\<rparr>,
     txpwr_lvl_v2 = \<lparr>v2_enable = 1, v2_pwrlvl_11b_11ag_2g4 = [20, 20, 20, 20, 20, 20, 20, 20, 18, 18, 16, 16],
       v2_pwrlvl_11n_11ac_2g4 = [20, 20, 20, 20, 18, 18, 16, 16, 16, 16], v2_pwrlvl_11ax_2g4 = [20, 20, 20, 20, 18, 18, 16, 16, 16, 16, 15, 15]\<rparr>,
     txpwr_lvl_v3 = \<lparr>v3_enable = 1, v3_pwrlvl_11b_11ag_2g4 = [20, 20, 20, 20, 20, 20, 20, 20, 18, 18, 16, 16],
       v3_pwrlvl_11n_11ac_2g4 = [20, 20, 20, 20, 18, 18, 16, 16, 16, 16], v3_pwrlvl_11ax_2g4 = [20, 20, 20, 20, 18, 18, 16, 16, 16, 16, 15, 15],
       v3_pwrlvl_11a_5g = [0x80, 0x80, 0x80, 0x80, 20, 20, 20, 20, 18, 18, 16, 16], v3_pwrlvl_11n_11ac_5g = [20, 20, 20, 20, 18, 18, 16, 16, 16, 15],
       v3_pwrlvl_11ax_5g = [20, 20, 20, 20, 18, 18, 16, 16, 16, 15, 14, 14]\<rparr>,
     txpwr_loss = \<lparr>loss_enable = 1, loss_value = 0\<rparr>,
     txpwr_ofst = \<lparr>ofst_enable = 1, chan_1_4 = 0, chan_5_9 = 0, chan_10_13 = 0, chan_36_64 = 0, chan_100_120 = 0, chan_122_140 = 0, chan_142_165 = 0\<rparr>,
     txpwr_ofst2x = \<lparr>ofst2x_enable = 0, pwrofst2x_tbl_2g4 = [[0, 0, 0], [0, 0, 0], [0, 0, 0]],
       pwrofst2x_tbl_5g = [[0, 0, 0, 0, 0, 0], [0, 0, 0, 0, 0, 0], [0, 0, 0, 0, 0, 0]]\<rparr>,
     xtal_cap = \<lparr>xtal_enable = 0, xtal_cap_val = 24, xtal_cap_fine = 31\<rparr>\<rparr>"

subsection \<open>Setting a value\<close>

text \<open>What the assignment of one branch does with the (truncated) number.\<close>

type_synonym nvram_setter = "u8 \<Rightarrow> userconfig_info_t \<Rightarrow> userconfig_info_t"

definition set_v2_pwrlvl_11b_11ag_2g4 :: "nat \<Rightarrow> nvram_setter" where
  "set_v2_pwrlvl_11b_11ag_2g4 i v c = c\<lparr>txpwr_lvl_v2 := (txpwr_lvl_v2 c)\<lparr>v2_pwrlvl_11b_11ag_2g4 := (v2_pwrlvl_11b_11ag_2g4 (txpwr_lvl_v2 c))[i := v]\<rparr>\<rparr>"

definition set_v2_pwrlvl_11n_11ac_2g4 :: "nat \<Rightarrow> nvram_setter" where
  "set_v2_pwrlvl_11n_11ac_2g4 i v c = c\<lparr>txpwr_lvl_v2 := (txpwr_lvl_v2 c)\<lparr>v2_pwrlvl_11n_11ac_2g4 := (v2_pwrlvl_11n_11ac_2g4 (txpwr_lvl_v2 c))[i := v]\<rparr>\<rparr>"

definition set_v2_pwrlvl_11ax_2g4 :: "nat \<Rightarrow> nvram_setter" where
  "set_v2_pwrlvl_11ax_2g4 i v c = c\<lparr>txpwr_lvl_v2 := (txpwr_lvl_v2 c)\<lparr>v2_pwrlvl_11ax_2g4 := (v2_pwrlvl_11ax_2g4 (txpwr_lvl_v2 c))[i := v]\<rparr>\<rparr>"

definition set_v3_pwrlvl_11b_11ag_2g4 :: "nat \<Rightarrow> nvram_setter" where
  "set_v3_pwrlvl_11b_11ag_2g4 i v c = c\<lparr>txpwr_lvl_v3 := (txpwr_lvl_v3 c)\<lparr>v3_pwrlvl_11b_11ag_2g4 := (v3_pwrlvl_11b_11ag_2g4 (txpwr_lvl_v3 c))[i := v]\<rparr>\<rparr>"

definition set_v3_pwrlvl_11n_11ac_2g4 :: "nat \<Rightarrow> nvram_setter" where
  "set_v3_pwrlvl_11n_11ac_2g4 i v c = c\<lparr>txpwr_lvl_v3 := (txpwr_lvl_v3 c)\<lparr>v3_pwrlvl_11n_11ac_2g4 := (v3_pwrlvl_11n_11ac_2g4 (txpwr_lvl_v3 c))[i := v]\<rparr>\<rparr>"

definition set_v3_pwrlvl_11ax_2g4 :: "nat \<Rightarrow> nvram_setter" where
  "set_v3_pwrlvl_11ax_2g4 i v c = c\<lparr>txpwr_lvl_v3 := (txpwr_lvl_v3 c)\<lparr>v3_pwrlvl_11ax_2g4 := (v3_pwrlvl_11ax_2g4 (txpwr_lvl_v3 c))[i := v]\<rparr>\<rparr>"

definition set_v3_pwrlvl_11a_5g :: "nat \<Rightarrow> nvram_setter" where
  "set_v3_pwrlvl_11a_5g i v c = c\<lparr>txpwr_lvl_v3 := (txpwr_lvl_v3 c)\<lparr>v3_pwrlvl_11a_5g := (v3_pwrlvl_11a_5g (txpwr_lvl_v3 c))[i := v]\<rparr>\<rparr>"

definition set_v3_pwrlvl_11n_11ac_5g :: "nat \<Rightarrow> nvram_setter" where
  "set_v3_pwrlvl_11n_11ac_5g i v c = c\<lparr>txpwr_lvl_v3 := (txpwr_lvl_v3 c)\<lparr>v3_pwrlvl_11n_11ac_5g := (v3_pwrlvl_11n_11ac_5g (txpwr_lvl_v3 c))[i := v]\<rparr>\<rparr>"

definition set_v3_pwrlvl_11ax_5g :: "nat \<Rightarrow> nvram_setter" where
  "set_v3_pwrlvl_11ax_5g i v c = c\<lparr>txpwr_lvl_v3 := (txpwr_lvl_v3 c)\<lparr>v3_pwrlvl_11ax_5g := (v3_pwrlvl_11ax_5g (txpwr_lvl_v3 c))[i := v]\<rparr>\<rparr>"

definition set_pwrofst2x_tbl_2g4 :: "nat \<Rightarrow> nat \<Rightarrow> nvram_setter" where
  "set_pwrofst2x_tbl_2g4 i j v c = c\<lparr>txpwr_ofst2x := (txpwr_ofst2x c)\<lparr>pwrofst2x_tbl_2g4 := (pwrofst2x_tbl_2g4 (txpwr_ofst2x c))[i := (pwrofst2x_tbl_2g4 (txpwr_ofst2x c) ! i)[j := v]]\<rparr>\<rparr>"

definition set_pwrofst2x_tbl_5g :: "nat \<Rightarrow> nat \<Rightarrow> nvram_setter" where
  "set_pwrofst2x_tbl_5g i j v c = c\<lparr>txpwr_ofst2x := (txpwr_ofst2x c)\<lparr>pwrofst2x_tbl_5g := (pwrofst2x_tbl_5g (txpwr_ofst2x c))[i := (pwrofst2x_tbl_5g (txpwr_ofst2x c) ! i)[j := v]]\<rparr>\<rparr>"

text \<open>The chain of comparisons of \<open>rwnx_plat_nvram_set_value\<close>.\<close>

definition nvram_keys :: "(string \<times> nvram_setter) list" where
  "nvram_keys = [
     (''enable'', \<lambda>v c. c\<lparr>txpwr_lvl := (txpwr_lvl c)\<lparr>lvl_enable := v\<rparr>, txpwr_lvl_v2 := (txpwr_lvl_v2 c)\<lparr>v2_enable := v\<rparr>\<rparr>),
     (''dsss'', \<lambda>v c. c\<lparr>txpwr_lvl := (txpwr_lvl c)\<lparr>dsss := v\<rparr>\<rparr>),
     (''ofdmlowrate_2g4'', \<lambda>v c. c\<lparr>txpwr_lvl := (txpwr_lvl c)\<lparr>ofdmlowrate_2g4 := v\<rparr>\<rparr>),
     (''ofdm64qam_2g4'', \<lambda>v c. c\<lparr>txpwr_lvl := (txpwr_lvl c)\<lparr>ofdm64qam_2g4 := v\<rparr>\<rparr>),
     (''ofdm256qam_2g4'', \<lambda>v c. c\<lparr>txpwr_lvl := (txpwr_lvl c)\<lparr>ofdm256qam_2g4 := v\<rparr>\<rparr>),
     (''ofdm1024qam_2g4'', \<lambda>v c. c\<lparr>txpwr_lvl := (txpwr_lvl c)\<lparr>ofdm1024qam_2g4 := v\<rparr>\<rparr>),
     (''ofdmlowrate_5g'', \<lambda>v c. c\<lparr>txpwr_lvl := (txpwr_lvl c)\<lparr>ofdmlowrate_5g := v\<rparr>\<rparr>),
     (''ofdm64qam_5g'', \<lambda>v c. c\<lparr>txpwr_lvl := (txpwr_lvl c)\<lparr>ofdm64qam_5g := v\<rparr>\<rparr>),
     (''ofdm256qam_5g'', \<lambda>v c. c\<lparr>txpwr_lvl := (txpwr_lvl c)\<lparr>ofdm256qam_5g := v\<rparr>\<rparr>),
     (''ofdm1024qam_5g'', \<lambda>v c. c\<lparr>txpwr_lvl := (txpwr_lvl c)\<lparr>ofdm1024qam_5g := v\<rparr>\<rparr>),
     (''lvl_11b_11ag_1m_2g4'', set_v2_pwrlvl_11b_11ag_2g4 0),
     (''lvl_11b_11ag_2m_2g4'', set_v2_pwrlvl_11b_11ag_2g4 1),
     (''lvl_11b_11ag_5m5_2g4'', set_v2_pwrlvl_11b_11ag_2g4 2),
     (''lvl_11b_11ag_11m_2g4'', set_v2_pwrlvl_11b_11ag_2g4 3),
     (''lvl_11b_11ag_6m_2g4'', set_v2_pwrlvl_11b_11ag_2g4 4),
     (''lvl_11b_11ag_9m_2g4'', set_v2_pwrlvl_11b_11ag_2g4 5),
     (''lvl_11b_11ag_12m_2g4'', set_v2_pwrlvl_11b_11ag_2g4 6),
     (''lvl_11b_11ag_18m_2g4'', set_v2_pwrlvl_11b_11ag_2g4 7),
     (''lvl_11b_11ag_24m_2g4'', set_v2_pwrlvl_11b_11ag_2g4 8),
     (''lvl_11b_11ag_36m_2g4'', set_v2_pwrlvl_11b_11ag_2g4 9),
     (''lvl_11b_11ag_48m_2g4'', set_v2_pwrlvl_11b_11ag_2g4 10),
     (''lvl_11b_11ag_54m_2g4'', set_v2_pwrlvl_11b_11ag_2g4 11),
     (''lvl_11n_11ac_mcs0_2g4'', set_v2_pwrlvl_11n_11ac_2g4 0),
     (''lvl_11n_11ac_mcs1_2g4'', set_v2_pwrlvl_11n_11ac_2g4 1),
     (''lvl_11n_11ac_mcs2_2g4'', set_v2_pwrlvl_11n_11ac_2g4 2),
     (''lvl_11n_11ac_mcs3_2g4'', set_v2_pwrlvl_11n_11ac_2g4 3),
     (''lvl_11n_11ac_mcs4_2g4'', set_v2_pwrlvl_11n_11ac_2g4 4),
     (''lvl_11n_11ac_mcs5_2g4'', set_v2_pwrlvl_11n_11ac_2g4 5),
     (''lvl_11n_11ac_mcs6_2g4'', set_v2_pwrlvl_11n_11ac_2g4 6),
     (''lvl_11n_11ac_mcs7_2g4'', set_v2_pwrlvl_11n_11ac_2g4 7),
     (''lvl_11n_11ac_mcs8_2g4'', set_v2_pwrlvl_11n_11ac_2g4 8),
     (''lvl_11n_11ac_mcs9_2g4'', set_v2_pwrlvl_11n_11ac_2g4 9),
     (''lvl_11ax_mcs0_2g4'', set_v2_pwrlvl_11ax_2g4 0),
     (''lvl_11ax_mcs1_2g4'', set_v2_pwrlvl_11ax_2g4 1),
     (''lvl_11ax_mcs2_2g4'', set_v2_pwrlvl_11ax_2g4 2),
     (''lvl_11ax_mcs3_2g4'', set_v2_pwrlvl_11ax_2g4 3),
     (''lvl_11ax_mcs4_2g4'', set_v2_pwrlvl_11ax_2g4 4),
     (''lvl_11ax_mcs5_2g4'', set_v2_pwrlvl_11ax_2g4 5),
     (''lvl_11ax_mcs6_2g4'', set_v2_pwrlvl_11ax_2g4 6),
     (''lvl_11ax_mcs7_2g4'', set_v2_pwrlvl_11ax_2g4 7),
     (''lvl_11ax_mcs8_2g4'', set_v2_pwrlvl_11ax_2g4 8),
     (''lvl_11ax_mcs9_2g4'', set_v2_pwrlvl_11ax_2g4 9),
     (''lvl_11ax_mcs10_2g4'', set_v2_pwrlvl_11ax_2g4 10),
     (''lvl_11ax_mcs11_2g4'', set_v2_pwrlvl_11ax_2g4 11),
     (''ofst_enable'', \<lambda>v c. c\<lparr>txpwr_ofst := (txpwr_ofst c)\<lparr>ofst_enable := v\<rparr>\<rparr>),
     (''ofst_chan_1_4'', \<lambda>v c. c\<lparr>txpwr_ofst := (txpwr_ofst c)\<lparr>chan_1_4 := v\<rparr>\<rparr>),
     (''ofst_chan_5_9'', \<lambda>v c. c\<lparr>txpwr_ofst := (txpwr_ofst c)\<lparr>chan_5_9 := v\<rparr>\<rparr>),
     (''ofst_chan_10_13'', \<lambda>v c. c\<lparr>txpwr_ofst := (txpwr_ofst c)\<lparr>chan_10_13 := v\<rparr>\<rparr>),
     (''ofst_chan_36_64'', \<lambda>v c. c\<lparr>txpwr_ofst := (txpwr_ofst c)\<lparr>chan_36_64 := v\<rparr>\<rparr>),
     (''ofst_chan_100_120'', \<lambda>v c. c\<lparr>txpwr_ofst := (txpwr_ofst c)\<lparr>chan_100_120 := v\<rparr>\<rparr>),
     (''ofst_chan_122_140'', \<lambda>v c. c\<lparr>txpwr_ofst := (txpwr_ofst c)\<lparr>chan_122_140 := v\<rparr>\<rparr>),
     (''ofst_chan_142_165'', \<lambda>v c. c\<lparr>txpwr_ofst := (txpwr_ofst c)\<lparr>chan_142_165 := v\<rparr>\<rparr>),
     (''xtal_enable'', \<lambda>v c. c\<lparr>xtal_cap := (xtal_cap c)\<lparr>xtal_enable := v\<rparr>\<rparr>),
     (''xtal_cap'', \<lambda>v c. c\<lparr>xtal_cap := (xtal_cap c)\<lparr>xtal_cap_val := v\<rparr>\<rparr>),
     (''xtal_cap_fine'', \<lambda>v c. c\<lparr>xtal_cap := (xtal_cap c)\<lparr>xtal_cap_fine := v\<rparr>\<rparr>)]"

text \<open>That of \<open>rwnx_plat_nvram_set_value_v3\<close>, in three parts.\<close>

definition nvram_keys_v3_2g4 :: "(string \<times> nvram_setter) list" where
  "nvram_keys_v3_2g4 = [
     (''enable'', \<lambda>v c. c\<lparr>txpwr_lvl := (txpwr_lvl c)\<lparr>lvl_enable := v\<rparr>, txpwr_lvl_v3 := (txpwr_lvl_v3 c)\<lparr>v3_enable := v\<rparr>\<rparr>),
     (''dsss'', \<lambda>v c. c\<lparr>txpwr_lvl := (txpwr_lvl c)\<lparr>dsss := v\<rparr>\<rparr>),
     (''ofdmlowrate_2g4'', \<lambda>v c. c\<lparr>txpwr_lvl := (txpwr_lvl c)\<lparr>ofdmlowrate_2g4 := v\<rparr>\<rparr>),
     (''ofdm64qam_2g4'', \<lambda>v c. c\<lparr>txpwr_lvl := (txpwr_lvl c)\<lparr>ofdm64qam_2g4 := v\<rparr>\<rparr>),
     (''ofdm256qam_2g4'', \<lambda>v c. c\<lparr>txpwr_lvl := (txpwr_lvl c)\<lparr>ofdm256qam_2g4 := v\<rparr>\<rparr>),
     (''ofdm1024qam_2g4'', \<lambda>v c. c\<lparr>txpwr_lvl := (txpwr_lvl c)\<lparr>ofdm1024qam_2g4 := v\<rparr>\<rparr>),
     (''ofdmlowrate_5g'', \<lambda>v c. c\<lparr>txpwr_lvl := (txpwr_lvl c)\<lparr>ofdmlowrate_5g := v\<rparr>\<rparr>),
     (''ofdm64qam_5g'', \<lambda>v c. c\<lparr>txpwr_lvl := (txpwr_lvl c)\<lparr>ofdm64qam_5g := v\<rparr>\<rparr>),
     (''ofdm256qam_5g'', \<lambda>v c. c\<lparr>txpwr_lvl := (txpwr_lvl c)\<lparr>ofdm256qam_5g := v\<rparr>\<rparr>),
     (''ofdm1024qam_5g'', \<lambda>v c. c\<lparr>txpwr_lvl := (txpwr_lvl c)\<lparr>ofdm1024qam_5g := v\<rparr>\<rparr>),
     (''lvl_11b_11ag_1m_2g4'', set_v3_pwrlvl_11b_11ag_2g4 0),
     (''lvl_11b_11ag_2m_2g4'', set_v3_pwrlvl_11b_11ag_2g4 1),
     (''lvl_11b_11ag_5m5_2g4'', set_v3_pwrlvl_11b_11ag_2g4 2),
     (''lvl_11b_11ag_11m_2g4'', set_v3_pwrlvl_11b_11ag_2g4 3),
     (''lvl_11b_11ag_6m_2g4'', set_v3_pwrlvl_11b_11ag_2g4 4),
     (''lvl_11b_11ag_9m_2g4'', set_v3_pwrlvl_11b_11ag_2g4 5),
     (''lvl_11b_11ag_12m_2g4'', set_v3_pwrlvl_11b_11ag_2g4 6),
     (''lvl_11b_11ag_18m_2g4'', set_v3_pwrlvl_11b_11ag_2g4 7),
     (''lvl_11b_11ag_24m_2g4'', set_v3_pwrlvl_11b_11ag_2g4 8),
     (''lvl_11b_11ag_36m_2g4'', set_v3_pwrlvl_11b_11ag_2g4 9),
     (''lvl_11b_11ag_48m_2g4'', set_v3_pwrlvl_11b_11ag_2g4 10),
     (''lvl_11b_11ag_54m_2g4'', set_v3_pwrlvl_11b_11ag_2g4 11),
     (''lvl_11n_11ac_mcs0_2g4'', set_v3_pwrlvl_11n_11ac_2g4 0),
     (''lvl_11n_11ac_mcs1_2g4'', set_v3_pwrlvl_11n_11ac_2g4 1),
     (''lvl_11n_11ac_mcs2_2g4'', set_v3_pwrlvl_11n_11ac_2g4 2),
     (''lvl_11n_11ac_mcs3_2g4'', set_v3_pwrlvl_11n_11ac_2g4 3),
     (''lvl_11n_11ac_mcs4_2g4'', set_v3_pwrlvl_11n_11ac_2g4 4),
     (''lvl_11n_11ac_mcs5_2g4'', set_v3_pwrlvl_11n_11ac_2g4 5),
     (''lvl_11n_11ac_mcs6_2g4'', set_v3_pwrlvl_11n_11ac_2g4 6),
     (''lvl_11n_11ac_mcs7_2g4'', set_v3_pwrlvl_11n_11ac_2g4 7),
     (''lvl_11n_11ac_mcs8_2g4'', set_v3_pwrlvl_11n_11ac_2g4 8),
     (''lvl_11n_11ac_mcs9_2g4'', set_v3_pwrlvl_11n_11ac_2g4 9),
     (''lvl_11ax_mcs0_2g4'', set_v3_pwrlvl_11ax_2g4 0),
     (''lvl_11ax_mcs1_2g4'', set_v3_pwrlvl_11ax_2g4 1),
     (''lvl_11ax_mcs2_2g4'', set_v3_pwrlvl_11ax_2g4 2),
     (''lvl_11ax_mcs3_2g4'', set_v3_pwrlvl_11ax_2g4 3),
     (''lvl_11ax_mcs4_2g4'', set_v3_pwrlvl_11ax_2g4 4),
     (''lvl_11ax_mcs5_2g4'', set_v3_pwrlvl_11ax_2g4 5),
     (''lvl_11ax_mcs6_2g4'', set_v3_pwrlvl_11ax_2g4 6),
     (''lvl_11ax_mcs7_2g4'', set_v3_pwrlvl_11ax_2g4 7),
     (''lvl_11ax_mcs8_2g4'', set_v3_pwrlvl_11ax_2g4 8),
     (''lvl_11ax_mcs9_2g4'', set_v3_pwrlvl_11ax_2g4 9),
     (''lvl_11ax_mcs10_2g4'', set_v3_pwrlvl_11ax_2g4 10),
     (''lvl_11ax_mcs11_2g4'', set_v3_pwrlvl_11ax_2g4 11)]"

definition nvram_keys_v3_5g :: "(string \<times> nvram_setter) list" where
  "nvram_keys_v3_5g = [
     (''lvl_11a_1m_5g'', set_v3_pwrlvl_11a_5g 0),
     (''lvl_11a_2m_5g'', set_v3_pwrlvl_11a_5g 1),
     (''lvl_11a_5m5_5g'', set_v3_pwrlvl_11a_5g 2),
     (''lvl_11a_11m_5g'', set_v3_pwrlvl_11a_5g 3),
     (''lvl_11a_6m_5g'', set_v3_pwrlvl_11a_5g 4),
     (''lvl_11a_9m_5g'', set_v3_pwrlvl_11a_5g 5),
     (''lvl_11a_12m_5g'', set_v3_pwrlvl_11a_5g 6),
     (''lvl_11a_18m_5g'', set_v3_pwrlvl_11a_5g 7),
     (''lvl_11a_24m_5g'', set_v3_pwrlvl_11a_5g 8),
     (''lvl_11a_36m_5g'', set_v3_pwrlvl_11a_5g 9),
     (''lvl_11a_48m_5g'', set_v3_pwrlvl_11a_5g 10),
     (''lvl_11a_54m_5g'', set_v3_pwrlvl_11a_5g 11),
     (''lvl_11n_11ac_mcs0_5g'', set_v3_pwrlvl_11n_11ac_5g 0),
     (''lvl_11n_11ac_mcs1_5g'', set_v3_pwrlvl_11n_11ac_5g 1),
     (''lvl_11n_11ac_mcs2_5g'', set_v3_pwrlvl_11n_11ac_5g 2),
     (''lvl_11n_11ac_mcs3_5g'', set_v3_pwrlvl_11n_11ac_5g 3),
     (''lvl_11n_11ac_mcs4_5g'', set_v3_pwrlvl_11n_11ac_5g 4),
     (''lvl_11n_11ac_mcs5_5g'', set_v3_pwrlvl_11n_11ac_5g 5),
     (''lvl_11n_11ac_mcs6_5g'', set_v3_pwrlvl_11n_11ac_5g 6),
     (''lvl_11n_11ac_mcs7_5g'', set_v3_pwrlvl_11n_11ac_5g 7),
     (''lvl_11n_11ac_mcs8_5g'', set_v3_pwrlvl_11n_11ac_5g 8),
     (''lvl_11n_11ac_mcs9_5g'', set_v3_pwrlvl_11n_11ac_5g 9),
     (''lvl_11ax_mcs0_5g'', set_v3_pwrlvl_11ax_5g 0),
     (''lvl_11ax_mcs1_5g'', set_v3_pwrlvl_11ax_5g 1),
     (''lvl_11ax_mcs2_5g'', set_v3_pwrlvl_11ax_5g 2),
     (''lvl_11ax_mcs3_5g'', set_v3_pwrlvl_11ax_5g 3),
     (''lvl_11ax_mcs4_5g'', set_v3_pwrlvl_11ax_5g 4),
     (''lvl_11ax_mcs5_5g'', set_v3_pwrlvl_11ax_5g 5),
     (''lvl_11ax_mcs6_5g'', set_v3_pwrlvl_11ax_5g 6),
     (''lvl_11ax_mcs7_5g'', set_v3_pwrlvl_11ax_5g 7),
     (''lvl_11ax_mcs8_5g'', set_v3_pwrlvl_11ax_5g 8),
     (''lvl_11ax_mcs9_5g'', set_v3_pwrlvl_11ax_5g 9),
     (''lvl_11ax_mcs10_5g'', set_v3_pwrlvl_11ax_5g 10),
     (''lvl_11ax_mcs11_5g'', set_v3_pwrlvl_11ax_5g 11)]"

definition nvram_keys_v3_offset :: "(string \<times> nvram_setter) list" where
  "nvram_keys_v3_offset = [
     (''loss_enable'', \<lambda>v c. c\<lparr>txpwr_loss := (txpwr_loss c)\<lparr>loss_enable := v\<rparr>\<rparr>),
     (''loss_value'', \<lambda>v c. c\<lparr>txpwr_loss := (txpwr_loss c)\<lparr>loss_value := v\<rparr>\<rparr>),
     (''ofst_enable'', \<lambda>v c. c\<lparr>txpwr_ofst := (txpwr_ofst c)\<lparr>ofst_enable := v\<rparr>, txpwr_ofst2x := (txpwr_ofst2x c)\<lparr>ofst2x_enable := v\<rparr>\<rparr>),
     (''ofst_chan_1_4'', \<lambda>v c. c\<lparr>txpwr_ofst := (txpwr_ofst c)\<lparr>chan_1_4 := v\<rparr>\<rparr>),
     (''ofst_chan_5_9'', \<lambda>v c. c\<lparr>txpwr_ofst := (txpwr_ofst c)\<lparr>chan_5_9 := v\<rparr>\<rparr>),
     (''ofst_chan_10_13'', \<lambda>v c. c\<lparr>txpwr_ofst := (txpwr_ofst c)\<lparr>chan_10_13 := v\<rparr>\<rparr>),
     (''ofst_chan_36_64'', \<lambda>v c. c\<lparr>txpwr_ofst := (txpwr_ofst c)\<lparr>chan_36_64 := v\<rparr>\<rparr>),
     (''ofst_chan_100_120'', \<lambda>v c. c\<lparr>txpwr_ofst := (txpwr_ofst c)\<lparr>chan_100_120 := v\<rparr>\<rparr>),
     (''ofst_chan_122_140'', \<lambda>v c. c\<lparr>txpwr_ofst := (txpwr_ofst c)\<lparr>chan_122_140 := v\<rparr>\<rparr>),
     (''ofst_chan_142_165'', \<lambda>v c. c\<lparr>txpwr_ofst := (txpwr_ofst c)\<lparr>chan_142_165 := v\<rparr>\<rparr>),
     (''ofst_2g4_11b_chan_1_4'', set_pwrofst2x_tbl_2g4 0 0),
     (''ofst_2g4_11b_chan_5_9'', set_pwrofst2x_tbl_2g4 0 1),
     (''ofst_2g4_11b_chan_10_13'', set_pwrofst2x_tbl_2g4 0 2),
     (''ofst_2g4_ofdm_highrate_chan_1_4'', set_pwrofst2x_tbl_2g4 1 0),
     (''ofst_2g4_ofdm_highrate_chan_5_9'', set_pwrofst2x_tbl_2g4 1 1),
     (''ofst_2g4_ofdm_highrate_chan_10_13'', set_pwrofst2x_tbl_2g4 1 2),
     (''ofst_2g4_ofdm_lowrate_chan_1_4'', set_pwrofst2x_tbl_2g4 2 0),
     (''ofst_2g4_ofdm_lowrate_chan_5_9'', set_pwrofst2x_tbl_2g4 2 1),
     (''ofst_2g4_ofdm_lowrate_chan_10_13'', set_pwrofst2x_tbl_2g4 2 0),
     (''ofst_5g_ofdm_lowrate_chan_42'', set_pwrofst2x_tbl_5g 0 0),
     (''ofst_5g_ofdm_lowrate_chan_58'', set_pwrofst2x_tbl_5g 0 1),
     (''ofst_5g_ofdm_lowrate_chan_106'', set_pwrofst2x_tbl_5g 0 2),
     (''ofst_5g_ofdm_lowrate_chan_122'', set_pwrofst2x_tbl_5g 0 3),
     (''ofst_5g_ofdm_lowrate_chan_138'', set_pwrofst2x_tbl_5g 0 4),
     (''ofst_5g_ofdm_lowrate_chan_155'', set_pwrofst2x_tbl_5g 0 5),
     (''ofst_5g_ofdm_highrate_chan_42'', set_pwrofst2x_tbl_5g 1 0),
     (''ofst_5g_ofdm_highrate_chan_58'', set_pwrofst2x_tbl_5g 1 1),
     (''ofst_5g_ofdm_highrate_chan_106'', set_pwrofst2x_tbl_5g 1 2),
     (''ofst_5g_ofdm_highrate_chan_122'', set_pwrofst2x_tbl_5g 1 3),
     (''ofst_5g_ofdm_highrate_chan_138'', set_pwrofst2x_tbl_5g 1 4),
     (''ofst_5g_ofdm_highrate_chan_155'', set_pwrofst2x_tbl_5g 1 5),
     (''ofst_5g_ofdm_midrate_chan_42'', set_pwrofst2x_tbl_5g 2 0),
     (''ofst_5g_ofdm_midrate_chan_58'', set_pwrofst2x_tbl_5g 2 1),
     (''ofst_5g_ofdm_midrate_chan_106'', set_pwrofst2x_tbl_5g 2 2),
     (''ofst_5g_ofdm_midrate_chan_122'', set_pwrofst2x_tbl_5g 2 3),
     (''ofst_5g_ofdm_midrate_chan_138'', set_pwrofst2x_tbl_5g 2 4),
     (''ofst_5g_ofdm_midrate_chan_155'', set_pwrofst2x_tbl_5g 2 5),
     (''xtal_enable'', \<lambda>v c. c\<lparr>xtal_cap := (xtal_cap c)\<lparr>xtal_enable := v\<rparr>\<rparr>),
     (''xtal_cap'', \<lambda>v c. c\<lparr>xtal_cap := (xtal_cap c)\<lparr>xtal_cap_val := v\<rparr>\<rparr>),
     (''xtal_cap_fine'', \<lambda>v c. c\<lparr>xtal_cap := (xtal_cap c)\<lparr>xtal_cap_fine := v\<rparr>\<rparr>)]"

definition nvram_keys_v3 :: "(string \<times> nvram_setter) list" where
  "nvram_keys_v3 = nvram_keys_v3_2g4 @ nvram_keys_v3_5g @ nvram_keys_v3_offset"

subsection \<open>Numbers\<close>

definition is_dec_digit :: "char \<Rightarrow> bool" where "is_dec_digit c \<longleftrightarrow> 48 \<le> (of_char c :: nat) \<and> (of_char c :: nat) \<le> 57"

text \<open>The loop of \<open>rwnx_atoi\<close>; a character that is not a digit makes the result 0.  The \<open>int\<close> wraps.\<close>

fun atoi_loop :: "string \<Rightarrow> u32 \<Rightarrow> u32" where
  "atoi_loop [] r = r"
| "atoi_loop (c # cs) r = (if is_dec_digit c then atoi_loop cs (r * 10 + of_nat (of_char c - 48)) else 0)"

definition rwnx_atoi :: "string \<Rightarrow> u32" where
  "rwnx_atoi s = (case s of [] \<Rightarrow> 0 | c # cs \<Rightarrow> if c = CHR ''-'' then - atoi_loop cs 0 else atoi_loop (c # cs) 0)"

subsection \<open>The parser\<close>

datatype parse_state = INIT | CMD | PRINT | GET_VALUE

datatype parse_fault = Command_overflow | Value_overflow | Value_unterminated

record parser =
  pstate :: parse_state
  cmd_buf :: string
  val_buf :: string
  char_counter :: nat
  config :: userconfig_info_t

definition NUL :: char where "NUL = CHR 0x00"
definition c_string :: "string \<Rightarrow> string" where "c_string s = takeWhile (\<lambda>c. c \<noteq> NUL) s"
definition VALUE_SIZE :: nat where "VALUE_SIZE = 100"

definition fresh_parser :: "nat \<Rightarrow> userconfig_info_t \<Rightarrow> parser" where
  "fresh_parser n c = \<lparr>pstate = INIT, cmd_buf = replicate n NUL, val_buf = replicate VALUE_SIZE NUL, char_counter = 0, config = c\<rparr>"

text \<open>\<open>rwnx_plat_nvram_set_value\<close> and \<open>rwnx_plat_nvram_set_value_v3\<close>, given their comparisons.  The keys are
  shorter than the buffer, so \<open>strcmp\<close> stays inside it; \<open>strlen\<close> of a value that fills its buffer does not.\<close>

definition rwnx_plat_nvram_set_value :: "(string \<times> nvram_setter) list \<Rightarrow> string \<Rightarrow> string \<Rightarrow> userconfig_info_t \<Rightarrow> parse_fault + userconfig_info_t" where
  "rwnx_plat_nvram_set_value tbl command val c =
     (case map_of tbl (c_string command) of
        None \<Rightarrow> Inr c
      | Some f \<Rightarrow> if NUL \<in> set val then Inr (f (ucast (rwnx_atoi (c_string val))) c) else Inl Value_unterminated)"

definition is_eol :: "char \<Rightarrow> bool" where "is_eol c \<longleftrightarrow> c = CHR 0x0A \<or> c = CHR 0x0D"

definition end_line :: "nat \<Rightarrow> (string \<times> nvram_setter) list \<Rightarrow> parser \<Rightarrow> parse_fault + parser" where
  "end_line n tbl p =
     (if cmd_buf p ! 0 \<noteq> NUL \<and> val_buf p ! 0 \<noteq> NUL \<and> pstate p = GET_VALUE
      then map_sum id (fresh_parser n) (rwnx_plat_nvram_set_value tbl (cmd_buf p) (val_buf p) (config p))
      else Inr (fresh_parser n (config p)))"

definition put_command :: "char \<Rightarrow> parser \<Rightarrow> parse_fault + parser" where
  "put_command c p = (if char_counter p < length (cmd_buf p)
     then Inr (p\<lparr>cmd_buf := (cmd_buf p)[char_counter p := c], char_counter := Suc (char_counter p)\<rparr>) else Inl Command_overflow)"

definition put_value :: "char \<Rightarrow> parser \<Rightarrow> parse_fault + parser" where
  "put_value c p = (if char_counter p < length (val_buf p)
     then Inr (p\<lparr>val_buf := (val_buf p)[char_counter p := c], char_counter := Suc (char_counter p)\<rparr>) else Inl Value_overflow)"

definition parse_char :: "nat \<Rightarrow> (char \<Rightarrow> bool) \<Rightarrow> (string \<times> nvram_setter) list \<Rightarrow> char \<Rightarrow> parser \<Rightarrow> parse_fault + parser" where
  "parse_char n keep tbl c p =
     (if is_eol c then end_line n tbl p
      else if pstate p = INIT \<and> c = CHR ''#'' then Inr (p\<lparr>pstate := PRINT\<rparr>)
      else let p = (if pstate p = INIT then p\<lparr>pstate := CMD\<rparr> else p) in
        if pstate p = PRINT then put_value c (p\<lparr>cmd_buf := (cmd_buf p)[0 := CHR 0x01]\<rparr>)
        else if pstate p = CMD then
          if cmd_buf p ! 0 \<noteq> NUL \<and> c = CHR ''='' then Inr (p\<lparr>pstate := GET_VALUE, char_counter := 0\<rparr>) else put_command c p
        else if keep c then put_value c p else Inr p)"

fun parse_loop :: "nat \<Rightarrow> (char \<Rightarrow> bool) \<Rightarrow> (string \<times> nvram_setter) list \<Rightarrow> string \<Rightarrow> parser \<Rightarrow> parse_fault + parser" where
  "parse_loop n keep tbl [] p = Inr p"
| "parse_loop n keep tbl (c # cs) p = (case parse_char n keep tbl c p of Inl f \<Rightarrow> Inl f | Inr p \<Rightarrow> parse_loop n keep tbl cs p)"

definition userconfig_parse :: "nat \<Rightarrow> (char \<Rightarrow> bool) \<Rightarrow> (string \<times> nvram_setter) list \<Rightarrow> string \<Rightarrow> userconfig_info_t \<Rightarrow> parse_fault + userconfig_info_t" where
  "userconfig_parse n keep tbl buffer c = map_sum id config (parse_loop n keep tbl buffer (fresh_parser n c))"

definition rwnx_plat_userconfig_parsing2 :: "string \<Rightarrow> userconfig_info_t \<Rightarrow> parse_fault + userconfig_info_t" where
  "rwnx_plat_userconfig_parsing2 = userconfig_parse 30 (\<lambda>_. True) nvram_keys"

definition rwnx_plat_userconfig_parsing3 :: "string \<Rightarrow> userconfig_info_t \<Rightarrow> parse_fault + userconfig_info_t" where
  "rwnx_plat_userconfig_parsing3 = userconfig_parse 64 (\<lambda>c. c = CHR ''-'' \<or> is_dec_digit c) nvram_keys_v3"

end
