(* ===== verification/User_Parse.thy ===== *)
theory User_Parse
  imports User_Config
begin

text \<open>
  Correctness of the configuration parser: the state machine does what a reader of the file expects,
  line by line, as long as no line overruns a buffer; what is written is read back.
\<close>

subsection \<open>Lines\<close>

text \<open>The text between the line ends; the last element is what follows the last of them.\<close>

fun file_lines :: "string \<Rightarrow> string list" where
  "file_lines [] = [[]]"
| "file_lines (c # cs) = (if is_eol c then [] # file_lines cs else (case file_lines cs of [] \<Rightarrow> [[c]] | l # ls \<Rightarrow> (c # l) # ls))"

datatype config_line = Blank | Comment string | Assign string string | Junk string

definition classify :: "string \<Rightarrow> config_line" where
  "classify l = (case l of [] \<Rightarrow> Blank
     | c # cs \<Rightarrow> if c = CHR ''#'' then Comment cs
         else if c \<noteq> NUL \<and> CHR ''='' \<in> set cs
           then Assign (c # takeWhile (\<lambda>c. c \<noteq> CHR ''='') cs) (tl (dropWhile (\<lambda>c. c \<noteq> CHR ''='') cs))
         else Junk (c # cs))"

text \<open>The buffer a line overruns.\<close>

definition line_overflow :: "nat \<Rightarrow> (char \<Rightarrow> bool) \<Rightarrow> string \<Rightarrow> parse_fault option" where
  "line_overflow n keep l = (case classify l of
       Blank \<Rightarrow> None
     | Comment s \<Rightarrow> if VALUE_SIZE < length s then Some Value_overflow else None
     | Assign k v \<Rightarrow> if n < length k then Some Command_overflow else if VALUE_SIZE < length (filter keep v) then Some Value_overflow else None
     | Junk s \<Rightarrow> if n < length s then Some Command_overflow else None)"

definition line_effect :: "(char \<Rightarrow> bool) \<Rightarrow> (string \<times> nvram_setter) list \<Rightarrow> string \<Rightarrow> userconfig_info_t \<Rightarrow> parse_fault + userconfig_info_t" where
  "line_effect keep tbl l c = (case classify l of
       Assign k v \<Rightarrow> if c_string (filter keep v) = [] then Inr c
         else (case map_of tbl (c_string k) of None \<Rightarrow> Inr c
           | Some f \<Rightarrow> if length (filter keep v) < VALUE_SIZE \<or> NUL \<in> set (filter keep v)
               then Inr (f (ucast (rwnx_atoi (c_string (filter keep v)))) c) else Inl Value_unterminated)
     | _ \<Rightarrow> Inr c)"

text \<open>The reference: complete lines take effect in order, an incomplete last line does nothing.\<close>

fun config_lines :: "nat \<Rightarrow> (char \<Rightarrow> bool) \<Rightarrow> (string \<times> nvram_setter) list \<Rightarrow> string list \<Rightarrow> userconfig_info_t \<Rightarrow> parse_fault + userconfig_info_t" where
  "config_lines n keep tbl [] c = Inr c"
| "config_lines n keep tbl (l # ls) c =
     (case line_overflow n keep l of
        Some f \<Rightarrow> Inl f
      | None \<Rightarrow> if ls = [] then Inr c
          else (case line_effect keep tbl l c of Inl f \<Rightarrow> Inl f | Inr c \<Rightarrow> config_lines n keep tbl ls c))"

lemma file_lines_split:
  "file_lines b = (case dropWhile (\<lambda>c. \<not> is_eol c) b of [] \<Rightarrow> [b] | e # r \<Rightarrow> takeWhile (\<lambda>c. \<not> is_eol c) b # file_lines r)"
  by (induction b) (auto split: list.splits, (metis dropWhile_eq_Nil_conv list.distinct(1))+)

lemma file_lines_nonempty [simp]: "file_lines b \<noteq> []" by (induction b) (auto split: list.splits)

subsection \<open>Buffers\<close>

text \<open>A buffer of \<open>m\<close> octets with the characters stored so far.\<close>

definition buf_of :: "nat \<Rightarrow> string \<Rightarrow> string" where "buf_of m s = s @ replicate (m - length s) NUL"

lemma buf_of_length [simp]: "length s \<le> m \<Longrightarrow> length (buf_of m s) = m" by (simp add: buf_of_def)

lemma buf_of_Nil [simp]: "buf_of m [] = replicate m NUL" by (simp add: buf_of_def)

lemma buf_of_put: "length s < m \<Longrightarrow> (buf_of m s)[length s := c] = buf_of m (s @ [c])"
proof -
  assume "length s < m"
  then obtain k where "m - length s = Suc k" by (metis Suc_diff_Suc)
  then show ?thesis by (simp add: buf_of_def list_update_append flip: diff_Suc_eq_diff_pred)
qed

lemma buf_of_hd: "0 < m \<Longrightarrow> buf_of m s ! 0 = (case s of [] \<Rightarrow> NUL | c # _ \<Rightarrow> c)" by (cases s) (simp_all add: buf_of_def)

lemma buf_of_0: "0 < m \<Longrightarrow> s \<noteq> [] \<Longrightarrow> buf_of m s ! 0 = hd s" by (cases s) (simp_all add: buf_of_def)

lemma c_string_buf_of: "c_string (buf_of m s) = c_string s"
proof (cases "NUL \<in> set s")
  case True
  then show ?thesis unfolding c_string_def buf_of_def by (intro takeWhile_append1) auto
next
  case False
  then have "takeWhile (\<lambda>c. c \<noteq> NUL) s = s" by (intro takeWhile_eq_all_conv [THEN iffD2]) auto
  moreover have "takeWhile (\<lambda>c. c \<noteq> NUL) (s @ replicate k NUL) = s" for k using False by (subst takeWhile_append2) (auto simp: takeWhile_replicate)
  ultimately show ?thesis by (simp only: c_string_def buf_of_def)
qed

lemma NUL_in_buf_of: "length s \<le> m \<Longrightarrow> NUL \<in> set (buf_of m s) \<longleftrightarrow> length s < m \<or> NUL \<in> set s" by (auto simp: buf_of_def)

lemma c_string_empty: "c_string s = [] \<longleftrightarrow> s = [] \<or> hd s = NUL" by (cases s) (simp_all add: c_string_def)

subsection \<open>One line\<close>

definition cmd_state :: "nat \<Rightarrow> string \<Rightarrow> userconfig_info_t \<Rightarrow> parser" where
  "cmd_state n s c = \<lparr>pstate = CMD, cmd_buf = buf_of n s, val_buf = replicate VALUE_SIZE NUL, char_counter = length s, config = c\<rparr>"

definition val_state :: "nat \<Rightarrow> string \<Rightarrow> string \<Rightarrow> userconfig_info_t \<Rightarrow> parser" where
  "val_state n k s c = \<lparr>pstate = GET_VALUE, cmd_buf = buf_of n k, val_buf = buf_of VALUE_SIZE s, char_counter = length s, config = c\<rparr>"

lemma parse_loop_append:
  "parse_loop n keep tbl (xs @ ys) p = (case parse_loop n keep tbl xs p of Inl f \<Rightarrow> Inl f | Inr p \<Rightarrow> parse_loop n keep tbl ys p)"
  by (induction xs arbitrary: p) (auto split: sum.splits)

lemma loop_value:
  "list_all (\<lambda>c. \<not> is_eol c) xs \<Longrightarrow> length s \<le> VALUE_SIZE \<Longrightarrow>
     parse_loop n keep tbl xs (val_state n k s c) =
       (if VALUE_SIZE < length s + length (filter keep xs) then Inl Value_overflow else Inr (val_state n k (s @ filter keep xs) c))"
proof (induction xs arbitrary: s)
  case (Cons x xs)
  have "parse_char n keep tbl x (val_state n k s c) =
     (if \<not> keep x then Inr (val_state n k s c) else if length s < VALUE_SIZE then Inr (val_state n k (s @ [x]) c) else Inl Value_overflow)"
    using Cons.prems by (simp add: parse_char_def put_value_def val_state_def buf_of_put)
  then show ?case using Cons.IH [of s] Cons.IH [of "s @ [x]"] Cons.prems by (auto simp: Suc_le_eq)
qed simp

lemma loop_cmd:
  "list_all (\<lambda>c. \<not> is_eol c) xs \<Longrightarrow> s \<noteq> [] \<Longrightarrow> length s \<le> n \<Longrightarrow> hd s = NUL \<or> CHR ''='' \<notin> set xs \<Longrightarrow>
     parse_loop n keep tbl xs (cmd_state n s c) = (if n < length s + length xs then Inl Command_overflow else Inr (cmd_state n (s @ xs) c))"
proof (induction xs arbitrary: s)
  case (Cons x xs)
  then have "0 < n" by (cases s) auto
  have "parse_char n keep tbl x (cmd_state n s c) = (if length s < n then Inr (cmd_state n (s @ [x]) c) else Inl Command_overflow)"
    using Cons.prems \<open>0 < n\<close> by (auto simp: parse_char_def put_command_def cmd_state_def buf_of_put buf_of_0)
  then show ?case using Cons.IH [of "s @ [x]"] Cons.prems by auto
qed simp

lemma loop_print:
  "list_all (\<lambda>c. \<not> is_eol c) xs \<Longrightarrow> length s \<le> VALUE_SIZE \<Longrightarrow> pstate p = PRINT \<Longrightarrow> val_buf p = buf_of VALUE_SIZE s \<Longrightarrow> char_counter p = length s \<Longrightarrow>
     (if VALUE_SIZE < length s + length xs then parse_loop n keep tbl xs p = Inl Value_overflow
      else \<exists>q. parse_loop n keep tbl xs p = Inr q \<and> pstate q = PRINT \<and> config q = config p)"
proof (induction xs arbitrary: s p)
  case (Cons x xs)
  define q where "q = p\<lparr>cmd_buf := (cmd_buf p)[0 := CHR 0x01], val_buf := buf_of VALUE_SIZE (s @ [x]), char_counter := Suc (length s)\<rparr>"
  have "parse_char n keep tbl x p = (if length s < VALUE_SIZE then Inr q else Inl Value_overflow)"
    using Cons.prems by (auto simp: parse_char_def put_value_def buf_of_put q_def)
  moreover have "pstate q = PRINT" "val_buf q = buf_of VALUE_SIZE (s @ [x])" "char_counter q = length (s @ [x])" "config q = config p"
    using Cons.prems(3) by (simp_all add: q_def)
  ultimately show ?case using Cons.IH [of "s @ [x]" q] Cons.prems by auto
qed auto

text \<open>A line without its end, and then the end.\<close>

lemma parse_line:
  assumes "list_all (\<lambda>c. \<not> is_eol c) l" "0 < n"
  shows "(case line_overflow n keep l of
      Some f \<Rightarrow> parse_loop n keep tbl l (fresh_parser n c) = Inl f
    | None \<Rightarrow> \<exists>p. parse_loop n keep tbl l (fresh_parser n c) = Inr p \<and> config p = c \<and> end_line n tbl p = map_sum id (fresh_parser n) (line_effect keep tbl l c))"
proof (cases "classify l")
  case Blank
  then have "l = []" by (auto simp: classify_def split: list.splits if_splits)
  then show ?thesis using assms(2) by (simp add: line_overflow_def line_effect_def classify_def end_line_def fresh_parser_def)
next
  case (Comment s)
  then have l: "l = CHR ''#'' # s" by (auto simp: classify_def split: list.splits if_splits)
  define p where "p = (fresh_parser n c)\<lparr>pstate := PRINT\<rparr>"
  have run: "parse_loop n keep tbl l (fresh_parser n c) = parse_loop n keep tbl s p"
    by (simp add: l parse_char_def is_eol_def fresh_parser_def p_def)
  have p: "pstate p = PRINT" "val_buf p = buf_of VALUE_SIZE []" "char_counter p = length ''''" "config p = c" by (simp_all add: p_def fresh_parser_def)
  have "list_all (\<lambda>c. \<not> is_eol c) s" using assms(1) by (simp add: l)
  from loop_print [OF this _ p(1-3), of n keep tbl] have q: "if VALUE_SIZE < length s then parse_loop n keep tbl s p = Inl Value_overflow
    else \<exists>q. parse_loop n keep tbl s p = Inr q \<and> pstate q = PRINT \<and> config q = c" by (simp add: p(4) split: if_splits)
  have "end_line n tbl q = map_sum id (fresh_parser n) (line_effect keep tbl l c)" if "pstate q = PRINT" "config q = c" for q
    using that by (simp add: end_line_def line_effect_def Comment)
  then show ?thesis using q by (auto simp: run line_overflow_def Comment)
next
  case (Junk s)
  then obtain x xs where l: "l = x # xs" "s = l" "x \<noteq> CHR ''#''" "x = NUL \<or> CHR ''='' \<notin> set xs"
    by (auto simp: classify_def split: list.splits if_splits)
  have e: "\<not> is_eol x" "list_all (\<lambda>c. \<not> is_eol c) xs" using assms(1) l(1) by auto
  have "parse_char n keep tbl x (fresh_parser n c) = Inr (cmd_state n [x] c)"
    using e l(3) assms(2) buf_of_put [of "[]" n x] by (simp add: parse_char_def put_command_def fresh_parser_def cmd_state_def)
  then have "parse_loop n keep tbl l (fresh_parser n c) = (if n < length l then Inl Command_overflow else Inr (cmd_state n l c))"
    using loop_cmd [OF e(2), of "[x]" n keep tbl c] l assms(2) by auto
  then show ?thesis using Junk l(2) by (auto simp: line_overflow_def line_effect_def end_line_def cmd_state_def fresh_parser_def)
next
  case (Assign k v)
  then obtain x xs where l: "l = x # xs" "x \<noteq> CHR ''#''" "x \<noteq> NUL" "CHR ''='' \<in> set xs"
    "k = x # takeWhile (\<lambda>c. c \<noteq> CHR ''='') xs" "v = tl (dropWhile (\<lambda>c. c \<noteq> CHR ''='') xs)"
    by (auto simp: classify_def split: list.splits if_splits)
  define ks where "ks = takeWhile (\<lambda>c. c \<noteq> CHR ''='') xs"
  have xs: "xs = ks @ CHR ''='' # v"
  proof -
    have "dropWhile (\<lambda>c. c \<noteq> CHR ''='') xs \<noteq> []" using l(4) by (auto simp: dropWhile_eq_Nil_conv)
    then have "dropWhile (\<lambda>c. c \<noteq> CHR ''='') xs = CHR ''='' # v" using hd_dropWhile [of "\<lambda>c. c \<noteq> CHR ''=''" xs] l(6)
      by (cases "dropWhile (\<lambda>c. c \<noteq> CHR ''='') xs") auto
    then show ?thesis unfolding ks_def by (metis takeWhile_dropWhile_id)
  qed
  have kk: "k = x # ks" "CHR ''='' \<notin> set ks" using l(5) by (auto simp: ks_def dest: set_takeWhileD)
  have e: "\<not> is_eol x" "list_all (\<lambda>c. \<not> is_eol c) ks" "list_all (\<lambda>c. \<not> is_eol c) v" using assms(1) l(1) xs by auto
  have "parse_char n keep tbl x (fresh_parser n c) = Inr (cmd_state n [x] c)"
    using e l(2) assms(2) buf_of_put [of "[]" n x] by (simp add: parse_char_def put_command_def fresh_parser_def cmd_state_def)
  then have p1: "parse_loop n keep tbl (x # ks) (fresh_parser n c) = (if n < length k then Inl Command_overflow else Inr (cmd_state n k c))"
    using loop_cmd [OF e(2), of "[x]" n keep tbl c] kk assms(2) by auto
  have p2: "parse_char n keep tbl (CHR ''='') (cmd_state n k c) = Inr (val_state n k [] c)"
    using assms(2) l(3) by (simp add: parse_char_def is_eol_def cmd_state_def val_state_def buf_of_hd kk(1))
  have run: "parse_loop n keep tbl l (fresh_parser n c) = (if n < length k then Inl Command_overflow
      else if VALUE_SIZE < length (filter keep v) then Inl Value_overflow else Inr (val_state n k (filter keep v) c))"
    using parse_loop_append [of n keep tbl "x # ks" "CHR ''='' # v" "fresh_parser n c"] p1 p2 loop_value [OF e(3), of "[]" n keep tbl k c]
    by (simp add: l(1) xs)
  have fin: "end_line n tbl (val_state n k (filter keep v) c) = map_sum id (fresh_parser n) (line_effect keep tbl l c)"
    if "length k \<le> n" "length (filter keep v) \<le> VALUE_SIZE"
    using that assms(2) l(3) NUL_in_buf_of [OF that(2)]
    by (auto simp: end_line_def val_state_def buf_of_hd kk(1) line_effect_def Assign rwnx_plat_nvram_set_value_def c_string_buf_of c_string_empty VALUE_SIZE_def
        split: list.splits option.splits)
  show ?thesis using run fin by (auto simp: line_overflow_def Assign val_state_def)
qed

lemma loop_is_lines: "0 < n \<Longrightarrow> map_sum id config (parse_loop n keep tbl b (fresh_parser n c)) = config_lines n keep tbl (file_lines b) c"
proof (induction "length b" arbitrary: b c rule: less_induct)
  case less
  define l where "l = takeWhile (\<lambda>c. \<not> is_eol c) b"
  have el: "list_all (\<lambda>c. \<not> is_eol c) l" by (auto simp: l_def list_all_iff dest: set_takeWhileD)
  note line = parse_line [OF el less.prems, of keep tbl c]
  show ?case
  proof (cases "dropWhile (\<lambda>c. \<not> is_eol c) b")
    case Nil
    then have "l = b" unfolding l_def by (metis takeWhile_dropWhile_id append_Nil2)
    moreover have "file_lines b = [b]" using file_lines_split [of b] by (simp only: Nil list.case)
    ultimately show ?thesis using line by (auto split: option.splits)
  next
    case (Cons e r)
    have b: "b = l @ e # r" unfolding l_def using Cons by (metis takeWhile_dropWhile_id)
    have "is_eol e" using hd_dropWhile [of "\<lambda>c. \<not> is_eol c" b] Cons by simp
    then have ee: "parse_char n keep tbl e p = end_line n tbl p" for p by (simp add: parse_char_def)
    have fl: "file_lines b = l # file_lines r" using Cons by (simp add: file_lines_split [of b] l_def)
    have "length r < length b" by (simp add: b)
    note IH = less.hyps [OF this less.prems]
    show ?thesis
    proof (cases "line_overflow n keep l")
      case (Some f)
      then show ?thesis using line unfolding fl by (simp add: parse_loop_append b)
    next
      case None
      then obtain p where p: "parse_loop n keep tbl l (fresh_parser n c) = Inr p" "end_line n tbl p = map_sum id (fresh_parser n) (line_effect keep tbl l c)"
        using line by auto
      have run: "parse_loop n keep tbl b (fresh_parser n c) =
        (case line_effect keep tbl l c of Inl f \<Rightarrow> Inl f | Inr c \<Rightarrow> parse_loop n keep tbl r (fresh_parser n c))"
        by (simp add: b parse_loop_append p ee split: sum.split)
      show ?thesis unfolding run fl using IH None by (simp split: sum.split)
    qed
  qed
qed

subsection \<open>Numbers\<close>

definition digit_char :: "nat \<Rightarrow> char" where "digit_char d = char_of (48 + d)"

fun dec_nat :: "nat \<Rightarrow> string" where
  "dec_nat n = (if n < 10 then [digit_char n] else dec_nat (n div 10) @ [digit_char (n mod 10)])"

definition dec :: "int \<Rightarrow> string" where "dec z = (if z < 0 then CHR ''-'' # dec_nat (nat (- z)) else dec_nat (nat z))"

declare dec_nat.simps [simp del]

lemma digit_char: "d < 10 \<Longrightarrow> is_dec_digit (digit_char d)" "d < 10 \<Longrightarrow> (of_char (digit_char d) :: nat) = 48 + d"
  by (simp_all add: is_dec_digit_def digit_char_def)

lemma atoi_loop_snoc: "list_all is_dec_digit xs \<Longrightarrow> is_dec_digit x \<Longrightarrow> atoi_loop (xs @ [x]) r = atoi_loop xs r * 10 + of_nat (of_char x - 48)"
  by (induction xs arbitrary: r) auto

lemma dec_nat_digits: "list_all is_dec_digit (dec_nat n) \<and> dec_nat n \<noteq> [] \<and> atoi_loop (dec_nat n) 0 = of_nat n"
proof (induction n rule: dec_nat.induct)
  case (1 n)
  show ?case
  proof (cases "n < 10")
    case True
    then show ?thesis by (simp add: dec_nat.simps [of n] digit_char)
  next
    case False
    then have r: "dec_nat n = dec_nat (n div 10) @ [digit_char (n mod 10)]" by (simp add: dec_nat.simps [of n])
    have "n mod 10 < 10" by simp
    note d = digit_char [OF this]
    have "of_nat (n div 10) * 10 + of_nat (n mod 10) = (of_nat n :: u32)" by (metis div_mult_mod_eq of_nat_add of_nat_mult of_nat_numeral)
    then show ?thesis using 1 [OF False] by (simp add: r d atoi_loop_snoc)
  qed
qed

lemma dec_digits: "c \<in> set (dec z) \<Longrightarrow> c = CHR ''-'' \<or> is_dec_digit c" "dec z \<noteq> []"
  using dec_nat_digits by (auto simp: dec_def list_all_iff split: if_splits)

lemma minus_not_digit: "\<not> is_dec_digit CHR ''-''" by (simp add: is_dec_digit_def)

text \<open>What \<open>rwnx_atoi\<close> reads is the number modulo 2^32.\<close>

lemma rwnx_atoi_dec: "rwnx_atoi (dec z) = word_of_int z"
proof (cases "z < 0")
  case True
  then show ?thesis using dec_nat_digits [of "nat (- z)"] by (simp add: dec_def rwnx_atoi_def)
next
  case False
  then obtain c cs where d: "dec_nat (nat z) = c # cs" "is_dec_digit c" using dec_nat_digits [of "nat z"] by (cases "dec_nat (nat z)") auto
  then have "c \<noteq> CHR ''-''" using minus_not_digit by auto
  then show ?thesis using False d dec_nat_digits [of "nat z"] by (simp add: dec_def rwnx_atoi_def)
qed

subsection \<open>Keys\<close>

definition key_ok :: "nat \<Rightarrow> string \<Rightarrow> bool" where
  "key_ok n k \<longleftrightarrow> k \<noteq> [] \<and> hd k \<noteq> CHR ''#'' \<and> length k \<le> n \<and> list_all (\<lambda>c. c \<noteq> NUL \<and> c \<noteq> CHR ''='' \<and> \<not> is_eol c) k"

lemma nvram_keys_ok: "list_all (key_ok 30) (map fst nvram_keys)"
  by code_simp

lemma nvram_keys_v3_ok: "list_all (key_ok 64) (map fst nvram_keys_v3)"
  by code_simp

subsection \<open>Files\<close>

text \<open>A file as its author sees it.\<close>

datatype cfg_item = Remark string | Empty_line | Setting string int

fun item_text :: "cfg_item \<Rightarrow> string" where
  "item_text (Remark s) = CHR ''#'' # s"
| "item_text Empty_line = []"
| "item_text (Setting k z) = k @ CHR ''='' # dec z"

fun item_ok :: "(string \<times> nvram_setter) list \<Rightarrow> cfg_item \<Rightarrow> bool" where
  "item_ok tbl (Remark s) = (list_all (\<lambda>c. \<not> is_eol c) s \<and> length s \<le> VALUE_SIZE)"
| "item_ok tbl Empty_line = True"
| "item_ok tbl (Setting k z) = (k \<in> set (map fst tbl) \<and> length (dec z) < VALUE_SIZE)"

definition file_text :: "cfg_item list \<Rightarrow> string" where "file_text is = concat (map (\<lambda>i. item_text i @ [CHR 0x0A]) is)"

text \<open>The settings, one after the other: the last one of a key counts.\<close>

fun apply_item :: "(string \<times> nvram_setter) list \<Rightarrow> cfg_item \<Rightarrow> userconfig_info_t \<Rightarrow> userconfig_info_t" where
  "apply_item tbl (Setting k z) c = (case map_of tbl k of None \<Rightarrow> c | Some f \<Rightarrow> f (word_of_int z) c)"
| "apply_item tbl _ c = c"

lemma file_lines_line: "list_all (\<lambda>c. \<not> is_eol c) l \<Longrightarrow> file_lines (l @ CHR 0x0A # r) = l # file_lines r"
  by (induction l) (simp_all add: is_eol_def)

lemma digit_not_eol: "is_dec_digit c \<Longrightarrow> \<not> is_eol c \<and> c \<noteq> NUL" by (auto simp: is_dec_digit_def is_eol_def NUL_def)

lemma dec_line_chars: "list_all (\<lambda>c. \<not> is_eol c) (dec z)" "c_string (dec z) = dec z" "filter (\<lambda>c. c = CHR ''-'' \<or> is_dec_digit c) (dec z) = dec z"
proof -
  have d: "\<not> is_eol c \<and> c \<noteq> NUL" if "c \<in> set (dec z)" for c
    using dec_digits(1) [OF that] digit_not_eol by (auto simp: is_eol_def NUL_def)
  show "list_all (\<lambda>c. \<not> is_eol c) (dec z)" using d by (auto simp: list_all_iff)
  show "c_string (dec z) = dec z" using d by (auto simp: c_string_def takeWhile_eq_all_conv)
  show "filter (\<lambda>c. c = CHR ''-'' \<or> is_dec_digit c) (dec z) = dec z" using dec_digits(1) by (intro filter_True) auto
qed

lemma item_line:
  assumes "item_ok tbl i" "list_all (key_ok n) (map fst tbl)" "\<And>z. filter keep (dec z) = dec z"
  shows "list_all (\<lambda>c. \<not> is_eol c) (item_text i)" "line_overflow n keep (item_text i) = None" "line_effect keep tbl (item_text i) c = Inr (apply_item tbl i c)"
proof -
  have "list_all (\<lambda>c. \<not> is_eol c) (item_text i) \<and> line_overflow n keep (item_text i) = None \<and> line_effect keep tbl (item_text i) c = Inr (apply_item tbl i c)"
  proof (cases i)
    case (Setting k z)
    then have k: "key_ok n k" "length (dec z) < VALUE_SIZE" "k \<in> set (map fst tbl)" using assms(1,2) by (auto simp: list_all_iff)
    then obtain x ks where ks: "k = x # ks" by (cases k) (auto simp: key_ok_def)
    have kc: "list_all (\<lambda>c. c \<noteq> NUL \<and> c \<noteq> CHR ''='' \<and> \<not> is_eol c) k" "x \<noteq> CHR ''#''" "length k \<le> n" using k(1) by (simp_all add: key_ok_def ks)
    have "takeWhile (\<lambda>c. c \<noteq> CHR ''='') (ks @ CHR ''='' # r) = ks \<and> dropWhile (\<lambda>c. c \<noteq> CHR ''='') (ks @ CHR ''='' # r) = CHR ''='' # r" for r
      using kc(1) by (subst takeWhile_append2, auto simp: ks list_all_iff)
    then have cl: "classify (item_text i) = Assign k (dec z)" using kc by (simp add: Setting ks classify_def)
    have cs: "c_string k = k" using kc(1) unfolding c_string_def by (subst takeWhile_eq_all_conv) (auto simp: list_all_iff)
    obtain f where "map_of tbl k = Some f" using k(3) by (metis map_of_eq_None_iff not_Some_eq list.set_map)
    moreover have "ucast (word_of_int z :: u32) = (word_of_int z :: u8)" by (rule bit_word_eqI) (auto simp: bit_simps)
    ultimately show ?thesis using kc k(2) dec_line_chars [of z] dec_digits(2) [of z]
      by (auto simp: line_overflow_def line_effect_def cl assms(3) cs rwnx_atoi_dec) (auto simp: Setting is_eol_def list_all_iff)
  qed (use assms(1) in \<open>auto simp: line_overflow_def line_effect_def classify_def is_eol_def\<close>)
  then show "list_all (\<lambda>c. \<not> is_eol c) (item_text i)" "line_overflow n keep (item_text i) = None" "line_effect keep tbl (item_text i) c = Inr (apply_item tbl i c)"
    by auto
qed

lemma file_effect:
  assumes "list_all (key_ok n) (map fst tbl)" "\<And>z. filter keep (dec z) = dec z"
  shows "list_all (item_ok tbl) is \<Longrightarrow> config_lines n keep tbl (file_lines (file_text is)) c = Inr (fold (apply_item tbl) is c)"
proof (induction "is" arbitrary: c)
  case Nil
  then show ?case by (simp add: file_text_def line_overflow_def classify_def)
next
  case (Cons i "is")
  then have "item_ok tbl i" by simp
  note i = item_line [OF this assms]
  have "file_lines (file_text (i # is)) = item_text i # file_lines (file_text is)"
    using file_lines_line [OF i(1)] by (simp add: file_text_def)
  then show ?case using Cons by (simp add: i)
qed

subsection \<open>Properties\<close>

text \<open>The octet-by-octet parsers are readers of lines: for every file, the result (faults included) is that
  of splitting it at line feeds and carriage returns and applying the complete lines in order, where
  a line is a comment, an assignment at its first equals sign, or junk without effect.  What follows
  the last line end has no effect, but can overrun a buffer.\<close>

theorem userconfig_linewise:
  "rwnx_plat_userconfig_parsing2 b c = config_lines 30 (\<lambda>_. True) nvram_keys (file_lines b) c \<and>
   rwnx_plat_userconfig_parsing3 b c = config_lines 64 (\<lambda>c. c = CHR ''-'' \<or> is_dec_digit c) nvram_keys_v3 (file_lines b) c"
  by (simp add: rwnx_plat_userconfig_parsing2_def rwnx_plat_userconfig_parsing3_def userconfig_parse_def loop_is_lines)


definition demo_items :: "cfg_item list" where
  "demo_items = [Remark ''txpwr_lvl'', Setting ''enable'' 1, Empty_line, Setting ''lvl_11ax_mcs3_2g4'' 300, Setting ''lvl_11ax_mcs3_2g4'' (- 2)]"


lemma line_fits: "length l \<le> n \<Longrightarrow> n < VALUE_SIZE \<Longrightarrow> line_overflow n keep l = None \<and> (\<exists>c'. line_effect keep tbl l c = Inr c')"
proof -
  assume a: "length l \<le> n" "n < VALUE_SIZE"
  have "length k \<le> n \<and> length (filter keep v) < VALUE_SIZE" if d: "classify l = Assign k v" for k v
  proof -
    obtain x xs where l: "l = x # xs" "k = x # takeWhile (\<lambda>c. c \<noteq> CHR ''='') xs" "v = tl (dropWhile (\<lambda>c. c \<noteq> CHR ''='') xs)"
      using d by (auto simp: classify_def split: list.splits if_splits)
    have "length k \<le> length l" using length_takeWhile_le [of "\<lambda>c. c \<noteq> CHR ''=''" xs] by (simp add: l)
    moreover have "length (filter keep v) \<le> length l"
      using length_filter_le [of keep v] length_dropWhile_le [of "\<lambda>c. c \<noteq> CHR ''=''" xs] by (simp add: l)
    ultimately show ?thesis using a by simp
  qed
  moreover have "length s \<le> n" if "classify l = Comment s \<or> classify l = Junk s" for s
    using that a by (auto simp: classify_def split: list.splits if_splits)
  ultimately show ?thesis using a by (fastforce simp: line_overflow_def line_effect_def split: config_line.split option.split)
qed

lemma lines_fit: "n < VALUE_SIZE \<Longrightarrow> list_all (\<lambda>l. length l \<le> n) ls \<Longrightarrow> \<exists>c'. config_lines n keep tbl ls c = Inr c'"
proof (induction ls arbitrary: c)
  case (Cons l ls)
  then have "line_overflow n keep l = None \<and> (\<exists>c'. line_effect keep tbl l c = Inr c')" by (intro line_fits) simp_all
  then show ?case using Cons by auto
qed simp

definition key_char :: "char \<Rightarrow> bool" where "key_char c \<longleftrightarrow> c \<noteq> NUL \<and> c \<noteq> CHR ''='' \<and> c \<noteq> CHR ''#'' \<and> \<not> is_eol c"

lemma long_key: "list_all key_char k \<Longrightarrow> n < length k \<Longrightarrow> config_lines n keep tbl (file_lines (k @ r)) c = Inl Command_overflow"
proof -
  assume a: "list_all key_char k" "n < length k"
  obtain l ls where l: "file_lines r = l # ls" by (cases "file_lines r") auto
  have "list_all (\<lambda>c. \<not> is_eol c) k" using a(1) by (auto simp: key_char_def list_all_iff)
  then have f: "file_lines (k @ r) = (k @ l) # ls" by (induction k) (simp_all add: l)
  obtain x xs where k: "k = x # xs" using a(2) by (cases k) auto
  have x: "x \<noteq> CHR ''#''" "x \<noteq> NUL" "CHR ''='' \<notin> set xs" using a(1) by (auto simp: k key_char_def list_all_iff)
  have "takeWhile (\<lambda>c. c \<noteq> CHR ''='') (xs @ l) = xs @ takeWhile (\<lambda>c. c \<noteq> CHR ''='') l" using x(3) by (intro takeWhile_append2) auto
  then have "line_overflow n keep (k @ l) = Some Command_overflow" using a(2) x by (auto simp: line_overflow_def classify_def k)
  then show ?thesis by (simp add: f)
qed

text \<open>C40. The fixed buffers: a file without a line longer than the command buffer is parsed without a fault
  whatever it contains; a key longer than it is written past its end.\<close>

theorem userconfig_bounds:
  "(list_all (\<lambda>l. length l \<le> 30) (file_lines b) \<longrightarrow> (\<exists>c'. rwnx_plat_userconfig_parsing2 b c = Inr c')) \<and>
   (list_all (\<lambda>l. length l \<le> 64) (file_lines b) \<longrightarrow> (\<exists>c'. rwnx_plat_userconfig_parsing3 b c = Inr c')) \<and>
   (list_all key_char k \<and> 30 < length k \<longrightarrow> rwnx_plat_userconfig_parsing2 (k @ b) c = Inl Command_overflow) \<and>
   (list_all key_char k \<and> 64 < length k \<longrightarrow> rwnx_plat_userconfig_parsing3 (k @ b) c = Inl Command_overflow)"
  using lines_fit long_key
  by (simp add: rwnx_plat_userconfig_parsing2_def rwnx_plat_userconfig_parsing3_def userconfig_parse_def loop_is_lines VALUE_SIZE_def)

theorem userconfig_bounds_witness:
  "(\<exists>c'. rwnx_plat_userconfig_parsing2 ''enable=1'' userconfig_info = Inr c') \<and>
   (\<exists>c'. rwnx_plat_userconfig_parsing3 ''enable=1'' userconfig_info = Inr c') \<and>
   rwnx_plat_userconfig_parsing2 (replicate 31 CHR ''k'' @ ''enable=1'') userconfig_info = Inl Command_overflow \<and>
   rwnx_plat_userconfig_parsing3 (replicate 65 CHR ''k'' @ ''enable=1'') userconfig_info = Inl Command_overflow"
proof -
  have r: "list_all key_char (replicate n CHR ''k'') \<and> m < length (replicate n CHR ''k'')" if "m < n" for m n
    using that by (simp add: key_char_def is_eol_def NUL_def list_all_iff)
  have "list_all key_char (replicate 31 CHR ''k'') \<and> 30 < length (replicate 31 CHR ''k'')"
    "list_all key_char (replicate 65 CHR ''k'') \<and> 64 < length (replicate 65 CHR ''k'')" by (rule r, simp)+
  moreover have "list_all (\<lambda>l. length l \<le> 30) (file_lines ''enable=1'')" "list_all (\<lambda>l. length l \<le> 64) (file_lines ''enable=1'')" by (simp_all add: is_eol_def)
  ultimately show ?thesis using userconfig_bounds [of "''enable=1''" userconfig_info "replicate 31 CHR ''k''"] userconfig_bounds [of "''enable=1''" userconfig_info "replicate 65 CHR ''k''"]
    by blast
qed

subsection \<open>An entry without a key\<close>

definition lowrate_offset :: "nat \<Rightarrow> userconfig_info_t \<Rightarrow> u8" where "lowrate_offset j c = pwrofst2x_tbl_2g4 (txpwr_ofst2x c) ! 2 ! j"

lemma nested_update: "i \<noteq> j \<Longrightarrow> xss[m := (xss ! m)[i := v]] ! m ! j = xss ! m ! j" by (cases "m < length xss") (simp_all add: list_update_beyond)

lemma nvram_keys_v3_spare: "list_all (\<lambda>(k, f). \<forall>v c. lowrate_offset 2 (f v c) = lowrate_offset 2 c) nvram_keys_v3"
  by (simp add: nvram_keys_v3_def nvram_keys_v3_2g4_def nvram_keys_v3_5g_def nvram_keys_v3_offset_def lowrate_offset_def
      set_v3_pwrlvl_11b_11ag_2g4_def set_v3_pwrlvl_11n_11ac_2g4_def set_v3_pwrlvl_11ax_2g4_def set_v3_pwrlvl_11a_5g_def set_v3_pwrlvl_11n_11ac_5g_def
      set_v3_pwrlvl_11ax_5g_def set_pwrofst2x_tbl_2g4_def set_pwrofst2x_tbl_5g_def nested_update)

text \<open>The key for the 2.4 GHz low-rate offset of channels 10 to 13 sets the entry of channels 1 to 4: no file
  changes the entry of channels 10 to 13, and setting it overwrites the other one.\<close>

theorem lowrate_key_misplaced:
  assumes "rwnx_plat_userconfig_parsing3 b c = Inr c'"
  shows "lowrate_offset 2 c' = lowrate_offset 2 c \<and>
    (2 < length (pwrofst2x_tbl_2g4 (txpwr_ofst2x c)) \<and> 0 < length (pwrofst2x_tbl_2g4 (txpwr_ofst2x c) ! 2) \<and> length (dec z) < VALUE_SIZE \<longrightarrow>
      (\<exists>d. rwnx_plat_userconfig_parsing3 (file_text [Setting ''ofst_2g4_ofdm_lowrate_chan_10_13'' z]) c = Inr d \<and> lowrate_offset 0 d = word_of_int z))"
proof (intro conjI impI)
  have "lowrate_offset 2 c' = lowrate_offset 2 c" if "config_lines n keep nvram_keys_v3 ls c = Inr c'" for n keep ls c
    using that
  proof (induction ls arbitrary: c)
    case (Cons l ls)
    have "lowrate_offset 2 d = lowrate_offset 2 c" if e: "line_effect keep nvram_keys_v3 l c = Inr d" for d
    proof -
      have "lowrate_offset 2 (f v c) = lowrate_offset 2 c" if "map_of nvram_keys_v3 k = Some f" for k f v
        using nvram_keys_v3_spare map_of_SomeD [OF that] by (auto simp: list_all_iff)
      then show ?thesis using e by (auto simp: line_effect_def split: config_line.splits option.splits if_splits)
    qed
    then show ?case using Cons by (auto split: option.splits if_splits sum.splits)
  qed simp
  then show "lowrate_offset 2 c' = lowrate_offset 2 c" using assms
    by (simp add: rwnx_plat_userconfig_parsing3_def userconfig_parse_def loop_is_lines)
next
  define k where "k = ''ofst_2g4_ofdm_lowrate_chan_10_13''"
  assume a: "2 < length (pwrofst2x_tbl_2g4 (txpwr_ofst2x c)) \<and> 0 < length (pwrofst2x_tbl_2g4 (txpwr_ofst2x c) ! 2) \<and> length (dec z) < VALUE_SIZE"
  have m: "map_of nvram_keys_v3 k = Some (set_pwrofst2x_tbl_2g4 2 0)"
    by (simp add: k_def nvram_keys_v3_def nvram_keys_v3_2g4_def nvram_keys_v3_5g_def nvram_keys_v3_offset_def)
  then have "list_all (item_ok nvram_keys_v3) [Setting k z]" using a by (auto dest: map_of_SomeD intro: rev_image_eqI)
  then have "rwnx_plat_userconfig_parsing3 (file_text [Setting k z]) c = Inr (fold (apply_item nvram_keys_v3) [Setting k z] c)"
    using file_effect [OF nvram_keys_v3_ok] dec_line_chars(3) by (simp add: rwnx_plat_userconfig_parsing3_def userconfig_parse_def loop_is_lines)
  moreover have "lowrate_offset 0 (set_pwrofst2x_tbl_2g4 2 0 v c) = v" for v using a by (simp add: lowrate_offset_def set_pwrofst2x_tbl_2g4_def)
  ultimately show "\<exists>d. rwnx_plat_userconfig_parsing3 (file_text [Setting ''ofst_2g4_ofdm_lowrate_chan_10_13'' z]) c = Inr d \<and> lowrate_offset 0 d = word_of_int z"
    by (auto simp: m simp flip: k_def)
qed

theorem lowrate_key_misplaced_witness:
  "\<exists>d. rwnx_plat_userconfig_parsing3 (file_text [Setting ''ofst_2g4_ofdm_lowrate_chan_10_13'' 5]) userconfig_info = Inr d \<and>
     lowrate_offset 0 d = 5 \<and> lowrate_offset 2 d = 0"
proof -
  have ok: "2 < length (pwrofst2x_tbl_2g4 (txpwr_ofst2x userconfig_info)) \<and> 0 < length (pwrofst2x_tbl_2g4 (txpwr_ofst2x userconfig_info) ! 2) \<and> length (dec 5) < VALUE_SIZE"
    by (simp add: userconfig_info_def dec_def dec_nat.simps VALUE_SIZE_def)
  have n: "rwnx_plat_userconfig_parsing3 [] userconfig_info = Inr userconfig_info"
    by (simp add: rwnx_plat_userconfig_parsing3_def userconfig_parse_def fresh_parser_def)
  obtain d where d: "rwnx_plat_userconfig_parsing3 (file_text [Setting ''ofst_2g4_ofdm_lowrate_chan_10_13'' 5]) userconfig_info = Inr d" "lowrate_offset 0 d = word_of_int 5"
    using lowrate_key_misplaced [OF n, of 5] ok by blast
  have "lowrate_offset 2 d = lowrate_offset 2 userconfig_info" using lowrate_key_misplaced [OF d(1), of 0] by blast
  then show ?thesis using d by (intro exI [of _ d]) (simp add: lowrate_offset_def userconfig_info_def)
qed

end
