(* ===== verification/Bsp_Boot.thy ===== *)
theory Bsp_Boot
  imports Prelude
begin

text \<open>
  Bringing up the chip (\<^verbatim>\<open>aic8800_bsp/aic_bsp_driver.c\<close> and \<^verbatim>\<open>aic8800d80_compat.c\<close>): the Bluetooth
  patch table is read from a file and sent to the chip word by word, firmware images are sent block by
  block, configuration words are written, and the firmware is started.  Every step is a request to the
  chip; the result of the \<open>n\<close>-th request, the words the chip answers and the contents of the files are
  arguments (\<open>boot_env\<close>).  The part of \<open>aicwifi_init\<close> for the AIC8800DC and DW is not modelled.
\<close>

unbundle bit_operations_syntax

subsection \<open>Requests\<close>

datatype req =
    Mem_write u32 u32
  | Mem_block_write u32 "u8 list"
  | Mem_mask_write u32 u32 u32
  | Mem_read u32
  | Start_app u32 u32

datatype bsp_chip = AIC8801 | AIC8800DC | AIC8800DW | AIC8800D80
datatype fw_list = Fw_u02 | Fw_u03 | Fw_8800dc_u01 | Fw_8800dc_u02 | Fw_8800d80_u01 | Fw_8800d80_u02
datatype fw_name = Bt_adid | Bt_patch | Bt_table | Wl_fw

record boot_env =
  answer :: "nat \<Rightarrow> int"
  mem_word :: "nat \<Rightarrow> u32"
  fw_file :: "fw_list \<Rightarrow> u32 \<Rightarrow> fw_name \<Rightarrow> u8 list option"
  adap_test :: bool

record bsp =
  log :: "req list"
  chipid :: bsp_chip
  hwinfo :: u32
  hwinfo_r :: u32
  cpmode :: u32
  chip_rev :: u32
  aicbsp_firmware_list :: fw_list

text \<open>A read or write outside a buffer.\<close>

datatype boot_fault = Read_past_end | Heap_overflow | Stack_overflow

type_synonym boot_res = "boot_fault + (int \<times> bsp)"

text \<open>Return the error of a call, or \<open>-1\<close> for it.\<close>

definition pass :: "boot_res \<Rightarrow> (bsp \<Rightarrow> boot_res) \<Rightarrow> boot_res" where
  "pass x f = (case x of Inl e \<Rightarrow> Inl e | Inr (r, s) \<Rightarrow> if r \<noteq> 0 then Inr (r, s) else f s)"

definition check :: "boot_res \<Rightarrow> (bsp \<Rightarrow> boot_res) \<Rightarrow> boot_res" where
  "check x f = (case x of Inl e \<Rightarrow> Inl e | Inr (r, s) \<Rightarrow> if r \<noteq> 0 then Inr (-1, s) else f s)"

definition send :: "boot_env \<Rightarrow> req \<Rightarrow> bsp \<Rightarrow> boot_res" where
  "send env q s = Inr (answer env (length (log s)), s\<lparr>log := log s @ [q]\<rparr>)"

fun send_all :: "boot_env \<Rightarrow> req list \<Rightarrow> bsp \<Rightarrow> boot_res" where
  "send_all env [] s = Inr (0, s)"
| "send_all env (q # qs) s = pass (send env q s) (send_all env qs)"

text \<open>A word read from the chip, given to the rest when the read succeeds.\<close>

definition rwnx_send_dbg_mem_read_req :: "boot_env \<Rightarrow> u32 \<Rightarrow> bsp \<Rightarrow> (u32 \<Rightarrow> bsp \<Rightarrow> boot_res) \<Rightarrow> boot_res" where
  "rwnx_send_dbg_mem_read_req env a s f = pass (send env (Mem_read a) s) (f (mem_word env (length (log s))))"

subsection \<open>Firmware images\<close>

function upload_loop :: "boot_env \<Rightarrow> u32 \<Rightarrow> u8 list \<Rightarrow> nat \<Rightarrow> bsp \<Rightarrow> boot_res" where
  "upload_loop env addr file i s =
     (if i + 1024 < length file
      then pass (send env (Mem_block_write (addr + of_nat i) (take 1024 (drop i file))) s) (upload_loop env addr file (i + 1024))
      else if i < length file then send env (Mem_block_write (addr + of_nat i) (drop i file)) s
      else Inr (0, s))"
  by pat_completeness auto
termination by (relation "measure (\<lambda>(env, addr, file, i, s). length file - i)") auto

declare upload_loop.simps [simp del]

definition rwnx_plat_bin_fw_upload_android :: "boot_env \<Rightarrow> u32 \<Rightarrow> fw_name \<Rightarrow> bsp \<Rightarrow> boot_res" where
  "rwnx_plat_bin_fw_upload_android env addr name s =
     (case fw_file env (aicbsp_firmware_list s) (cpmode s) name of
        None \<Rightarrow> Inr (-1, s)
      | Some file \<Rightarrow> if file = [] then Inr (-1, s) else upload_loop env addr file 0 s)"

subsection \<open>The Bluetooth patch table\<close>

definition AICBT_PT_INF :: u32 where "AICBT_PT_INF = 0"
definition AICBT_PT_BTMODE :: u32 where "AICBT_PT_BTMODE = 3"
definition AICBT_PT_VER :: u32 where "AICBT_PT_VER = 6"

text \<open>\<open>AICBT_PT_TAG\<close> with its final zero.\<close>

definition AICBT_PT_TAG :: "u8 list" where
  "AICBT_PT_TAG = [0x41, 0x49, 0x43, 0x42, 0x54, 0x5F, 0x50, 0x54, 0x5F, 0x54, 0x41, 0x47, 0]"

record aicbt_patch_table =
  pt_name :: "u8 list"
  pt_type :: u32
  pt_data :: "u32 list"
  pt_len :: u32

definition le32 :: "u8 list \<Rightarrow> nat \<Rightarrow> u32" where
  "le32 bs i = ucast (bs ! i) OR push_bit 8 (ucast (bs ! (i + 1))) OR push_bit 16 (ucast (bs ! (i + 2))) OR push_bit 24 (ucast (bs ! (i + 3)))"

definition words_at :: "u8 list \<Rightarrow> nat \<Rightarrow> nat \<Rightarrow> u32 list" where "words_at bs p n = map (\<lambda>k. le32 bs (p + 4 * k)) [0..<n div 4]"

text \<open>The octets of the data of an entry; the multiplication wraps.\<close>

definition data_octets :: "u32 \<Rightarrow> nat" where "data_octets len = unat (len * 8)"

text \<open>The loop of \<open>aicbt_patch_table_alloc\<close> from octet \<open>p\<close>.\<close>

function patch_entries :: "u8 list \<Rightarrow> nat \<Rightarrow> boot_fault + aicbt_patch_table list" where
  "patch_entries bs p =
     (if length bs \<le> p then Inr []
      else if length bs < p + 24 then Inl Read_past_end
      else let name = take 16 (drop p bs); ty = le32 bs (p + 16); len = le32 bs (p + 20) in
        if 1000 \<le> ty then map_sum id ((#) \<lparr>pt_name = name, pt_type = ty, pt_data = [], pt_len = 0\<rparr>) (patch_entries bs (p + 24))
        else if length bs < p + 24 + data_octets len then Inl Read_past_end
        else map_sum id ((#) \<lparr>pt_name = name, pt_type = ty, pt_data = words_at bs (p + 24) (data_octets len), pt_len = len\<rparr>)
          (patch_entries bs (p + 24 + data_octets len)))"
  by pat_completeness auto
termination by (relation "measure (\<lambda>(bs, p). length bs - p)") auto

declare patch_entries.simps [simp del]

text \<open>The empty list is the pointer \<open>NULL\<close>.\<close>

definition aicbt_patch_table_alloc :: "u8 list option \<Rightarrow> boot_fault + aicbt_patch_table list" where
  "aicbt_patch_table_alloc f = (case f of
       None \<Rightarrow> Inr []
     | Some bs \<Rightarrow> if bs = [] then Inr []
         else if length bs < length AICBT_PT_TAG then Inl Read_past_end
         else if take (length AICBT_PT_TAG) bs \<noteq> AICBT_PT_TAG then Inr []
         else patch_entries bs 16)"

record aicbt_patch_info_t =
  info_len :: u32
  adid_addrinf :: u32
  addr_adid :: u32
  patch_addrinf :: u32
  addr_patch :: u32
  reset_addr :: u32
  reset_val :: u32
  adid_flag_addr :: u32
  adid_flag :: u32

definition no_patch_info :: aicbt_patch_info_t where
  "no_patch_info = \<lparr>info_len = 0, adid_addrinf = 0, addr_adid = 0, patch_addrinf = 0, addr_patch = 0, reset_addr = 0, reset_val = 0, adid_flag_addr = 0, adid_flag = 0\<rparr>"

text \<open>The copy of \<open>ws\<close> over the fields from \<open>adid_addrinf\<close> on.\<close>

definition fill_info :: "u32 list \<Rightarrow> aicbt_patch_info_t \<Rightarrow> aicbt_patch_info_t" where
  "fill_info ws i = (let w = (\<lambda>k x. if k < length ws then ws ! k else x) in
     i\<lparr>adid_addrinf := w 0 (adid_addrinf i), addr_adid := w 1 (addr_adid i), patch_addrinf := w 2 (patch_addrinf i), addr_patch := w 3 (addr_patch i),
       reset_addr := w 4 (reset_addr i), reset_val := w 5 (reset_val i), adid_flag_addr := w 6 (adid_flag_addr i), adid_flag := w 7 (adid_flag i)\<rparr>)"

definition aicbt_patch_info_unpack :: "aicbt_patch_info_t \<Rightarrow> aicbt_patch_table \<Rightarrow> boot_fault + aicbt_patch_info_t" where
  "aicbt_patch_info_unpack i e =
     (if pt_type e \<noteq> AICBT_PT_INF then Inr i
      else if pt_len e = 0 then Inr (i\<lparr>info_len := 0\<rparr>)
      else if 32 < data_octets (pt_len e) then Inl Stack_overflow
      else Inr (fill_info (take (data_octets (pt_len e) div 4) (pt_data e)) (i\<lparr>info_len := pt_len e\<rparr>)))"

definition FW_RAM_ADID_BASE_ADDR :: u32 where "FW_RAM_ADID_BASE_ADDR = 0x00161928"
definition FW_RAM_PATCH_BASE_ADDR :: u32 where "FW_RAM_PATCH_BASE_ADDR = 0x00100000"
definition RAM_8800DC_U01_ADID_ADDR :: u32 where "RAM_8800DC_U01_ADID_ADDR = 0x00101788"
definition RAM_8800DC_U02_ADID_ADDR :: u32 where "RAM_8800DC_U02_ADID_ADDR = 0x001017d8"
definition RAM_8800DC_FW_PATCH_ADDR :: u32 where "RAM_8800DC_FW_PATCH_ADDR = 0x00184000"
definition FW_RESET_START_ADDR :: u32 where "FW_RESET_START_ADDR = 0x40500128"
definition FW_RESET_START_VAL :: u32 where "FW_RESET_START_VAL = 0x40"
definition FW_ADID_FLAG_ADDR :: u32 where "FW_ADID_FLAG_ADDR = 0x40500150"
definition FW_ADID_FLAG_VAL :: u32 where "FW_ADID_FLAG_VAL = 0x01"
definition FW_RAM_ADID_BASE_ADDR_8800D80 :: u32 where "FW_RAM_ADID_BASE_ADDR_8800D80 = 0x002017E0"
definition FW_RAM_PATCH_BASE_ADDR_8800D80 :: u32 where "FW_RAM_PATCH_BASE_ADDR_8800D80 = 0x0020B2B0"
definition FW_RAM_ADID_BASE_ADDR_8800D80_U02 :: u32 where "FW_RAM_ADID_BASE_ADDR_8800D80_U02 = 0x00201940"
definition FW_RAM_PATCH_BASE_ADDR_8800D80_U02 :: u32 where "FW_RAM_PATCH_BASE_ADDR_8800D80_U02 = 0x0020b43c"
definition CHIP_REV_U01 :: u32 where "CHIP_REV_U01 = 1"
definition CHIP_REV_U02 :: u32 where "CHIP_REV_U02 = 3"
definition CHIP_REV_U03 :: u32 where "CHIP_REV_U03 = 7"

text \<open>The two images, at the addresses of the patch information.\<close>

definition upload_bt :: "boot_env \<Rightarrow> aicbt_patch_info_t \<Rightarrow> bsp \<Rightarrow> boot_res" where
  "upload_bt env i s =
     check (rwnx_plat_bin_fw_upload_android env (addr_adid i) Bt_adid s) (\<lambda>s.
     check (rwnx_plat_bin_fw_upload_android env (addr_patch i) Bt_patch s) (\<lambda>s. Inr (0, s)))"

definition aicbt_patch_trap_data_load :: "boot_env \<Rightarrow> aicbt_patch_table list \<Rightarrow> bsp \<Rightarrow> boot_res" where
  "aicbt_patch_trap_data_load env head s =
     (case head of
        [] \<Rightarrow> Inr (-1, s)
      | e # _ \<Rightarrow>
          if chipid s = AIC8801 then upload_bt env (no_patch_info\<lparr>addr_adid := FW_RAM_ADID_BASE_ADDR, addr_patch := FW_RAM_PATCH_BASE_ADDR\<rparr>) s
          else if chipid s = AIC8800DC then
            (case aicbt_patch_info_unpack (no_patch_info\<lparr>
                addr_adid := (if chip_rev s = CHIP_REV_U01 then RAM_8800DC_U01_ADID_ADDR else if chip_rev s = CHIP_REV_U02 then RAM_8800DC_U02_ADID_ADDR else 0),
                addr_patch := RAM_8800DC_FW_PATCH_ADDR\<rparr>) e of
               Inl f \<Rightarrow> Inl f
             | Inr i \<Rightarrow> if reset_addr i = 0
                 then check (send env (Mem_write FW_RESET_START_ADDR FW_RESET_START_VAL) s) (\<lambda>s.
                      check (send env (Mem_write FW_ADID_FLAG_ADDR FW_ADID_FLAG_VAL) s) (upload_bt env i))
                 else upload_bt env i s)
          else if chipid s = AIC8800D80 then
            (case aicbt_patch_info_unpack (
                if chip_rev s = CHIP_REV_U01 then no_patch_info\<lparr>addr_adid := FW_RAM_ADID_BASE_ADDR_8800D80, addr_patch := FW_RAM_PATCH_BASE_ADDR_8800D80\<rparr>
                else if chip_rev s = CHIP_REV_U02 \<or> chip_rev s = CHIP_REV_U03
                  then no_patch_info\<lparr>addr_adid := FW_RAM_ADID_BASE_ADDR_8800D80_U02, addr_patch := FW_RAM_PATCH_BASE_ADDR_8800D80_U02\<rparr>
                else no_patch_info) e of
               Inl f \<Rightarrow> Inl f
             | Inr i \<Rightarrow> if info_len i = 0 then Inr (-1, s) else upload_bt env i s)
          else upload_bt env no_patch_info s)"

text \<open>The words of \<open>aicbt_info\<close> and \<open>aicbt_info_8800dc\<close>: mode, port, baud rate, flow control, low power, transmit power.\<close>

definition bt_info :: "bsp_chip \<Rightarrow> u32 list" where
  "bt_info chip = (if chip = AIC8800DC then [1, 2, 1500000, 1, 0, 0x6f2f] else [0, 2, 1500000, 1, 0, if chip = AIC8800D80 then 0x6f2f else 0x6020])"

text \<open>The entry for the mode of the Bluetooth part gets the settings of the driver.\<close>

definition patch_btmode :: "bsp \<Rightarrow> u32 list \<Rightarrow> boot_fault + u32 list" where
  "patch_btmode s d =
     (if length d < 18 then Inl Heap_overflow
      else let b = bt_info (chipid s) in
        Inr (d[1 := if hwinfo s <s 0 then 1 else 0, 3 := hwinfo s, 5 := if chipid s = AIC8800DC then cpmode s else 0,
               7 := b ! 0, 9 := b ! 1, 11 := b ! 2, 13 := b ! 3, 15 := b ! 4, 17 := b ! 5]))"

fun send_pairs :: "boot_env \<Rightarrow> nat \<Rightarrow> u32 list \<Rightarrow> bsp \<Rightarrow> boot_res" where
  "send_pairs env 0 d s = Inr (0, s)"
| "send_pairs env (Suc n) (a # v # d) s = pass (send env (Mem_write a v) s) (send_pairs env n d)"
| "send_pairs env (Suc n) _ s = Inl Read_past_end"

definition skipped :: "bsp_chip \<Rightarrow> u32 \<Rightarrow> bool" where
  "skipped chip ty \<longleftrightarrow> ty = AICBT_PT_VER \<or> chip = AIC8800DC \<and> ty = AICBT_PT_INF"

fun load_entries :: "boot_env \<Rightarrow> aicbt_patch_table list \<Rightarrow> bsp \<Rightarrow> boot_res" where
  "load_entries env [] s = Inr (0, s)"
| "load_entries env (e # es) s =
     (case (if pt_type e = AICBT_PT_BTMODE then patch_btmode s (pt_data e) else Inr (pt_data e)) of
        Inl f \<Rightarrow> Inl f
      | Inr d \<Rightarrow> if skipped (chipid s) (pt_type e) then load_entries env es s
          else pass (send_pairs env (unat (pt_len e)) d s) (load_entries env es))"

definition aicbt_patch_table_load :: "boot_env \<Rightarrow> aicbt_patch_table list \<Rightarrow> bsp \<Rightarrow> boot_res" where
  "aicbt_patch_table_load env head s =
     (if head = [] then Inr (-1, s) else if chipid s = AIC8800DW then Inr (0, s) else load_entries env head s)"

definition aicbt_init :: "boot_env \<Rightarrow> bsp \<Rightarrow> boot_res" where
  "aicbt_init env s =
     (case aicbt_patch_table_alloc (fw_file env (aicbsp_firmware_list s) (cpmode s) Bt_table) of
        Inl f \<Rightarrow> Inl f
      | Inr [] \<Rightarrow> Inr (-1, s)
      | Inr head \<Rightarrow> check (aicbt_patch_trap_data_load env head s) (\<lambda>s. check (aicbt_patch_table_load env head s) (\<lambda>s. Inr (0, s))))"

subsection \<open>The wireless firmware\<close>

definition RAM_FMAC_FW_ADDR :: u32 where "RAM_FMAC_FW_ADDR = 0x00120000"
definition HOST_START_APP_AUTO :: u32 where "HOST_START_APP_AUTO = 1"

text \<open>Pairs of an offset and a value, written as address and value from \<open>a\<close> on.\<close>

fun pair_writes :: "u32 \<Rightarrow> u32 \<Rightarrow> (u32 \<times> u32) list \<Rightarrow> req list" where
  "pair_writes base a [] = []"
| "pair_writes base a ((off, v) # t) = Mem_write a (off + base) # Mem_write (a + 4) v # pair_writes base (a + 8) t"

definition adaptivity_patch_tbl :: "(u32 \<times> u32) list" where "adaptivity_patch_tbl = [(0x0004, 0x0000320A), (0x0094, 0), (0x00F8, 0x00010138)]"

text \<open>Empty, as \<open>CONFIG_LINK_DET_5G\<close> is set and \<open>CONFIG_MCU_MESSAGE\<close> is not.\<close>

definition patch_tbl :: "(u32 \<times> u32) list" where "patch_tbl = []"

text \<open>The last loop goes on after an error, and the function returns 0.\<close>

fun send_ignoring :: "boot_env \<Rightarrow> req list \<Rightarrow> bsp \<Rightarrow> bsp" where
  "send_ignoring env [] s = s"
| "send_ignoring env (q # qs) s = send_ignoring env qs (s\<lparr>log := log s @ [q]\<rparr>)"

definition aicwifi_patch_config :: "boot_env \<Rightarrow> bsp \<Rightarrow> boot_res" where
  "aicwifi_patch_config env s =
     rwnx_send_dbg_mem_read_req env (RAM_FMAC_FW_ADDR + 0x0180) s (\<lambda>config_base s.
       let start = 0x1e6000; test = cpmode s = 1; n = 2 * length patch_tbl; m = (if adap_test env then 2 * length adaptivity_patch_tbl else 0) in
       pass (send_all env (Mem_write (if test then 0x1e5304 else 0x1e5318) start # Mem_write (if test then 0x1e5308 else 0x1e531c) (of_nat (n + m)) #
           pair_writes config_base start patch_tbl) s)
         (\<lambda>s. Inr (0, if adap_test env then send_ignoring env (pair_writes config_base (start + 8 * of_nat (length patch_tbl)) adaptivity_patch_tbl) s else s)))"

definition aicwifi_sys_config :: "boot_env \<Rightarrow> bsp \<Rightarrow> boot_res" where
  "aicwifi_sys_config env = send_all env [Mem_mask_write 0x40506024 0x000000FF 0x000000DF, Mem_mask_write 0x40344058 0x00800000 0]"

definition aicwifi_start_from_bootrom :: "boot_env \<Rightarrow> bsp \<Rightarrow> boot_res" where
  "aicwifi_start_from_bootrom env s =
     check (send env (Start_app RAM_FMAC_FW_ADDR HOST_START_APP_AUTO) s) (\<lambda>t. Inr (0, t\<lparr>hwinfo_r := mem_word env (length (log s)) AND 0xFF\<rparr>))"

definition patch_tbl_8800d80 :: "(u32 \<times> u32) list" where "patch_tbl_8800d80 = [(0x00b4, 0xf3010000)]"
definition adaptivity_patch_tbl_8800d80 :: "(u32 \<times> u32) list" where
  "adaptivity_patch_tbl_8800d80 = [(0x000C, 0x0000320A), (0x009C, 0), (0x0168, 0x00010000)]"

definition aicwifi_patch_config_8800d80 :: "boot_env \<Rightarrow> bsp \<Rightarrow> boot_res" where
  "aicwifi_patch_config_8800d80 env s =
     rwnx_send_dbg_mem_read_req env (RAM_FMAC_FW_ADDR + 0x0198) s (\<lambda>config_base s.
     rwnx_send_dbg_mem_read_req env (RAM_FMAC_FW_ADDR + 0x0198 + 8) s (\<lambda>str_base s.
       let start = 0x0016F800; adap = (if adap_test env then adaptivity_patch_tbl_8800d80 else []); tbl = patch_tbl_8800d80 @ adap in
       send_all env ([Mem_write str_base 0x48435450, Mem_write (str_base + 8) 0x50544348, Mem_write (str_base + 4) start, Mem_write (str_base + 12) (of_nat (length tbl))] @
         pair_writes config_base start tbl @
         [Mem_write (str_base + 48) 0, Mem_write (str_base + 52) 0, Mem_write (str_base + 56) 0, Mem_write (str_base + 60) 0]) s))"

text \<open>\<open>aicwifi_init\<close> for the AIC8801 and the AIC8800D80 (whose \<open>aicwifi_sys_config_8800d80\<close> is empty without \<open>CONFIG_OOB\<close>).\<close>

definition aicwifi_init_8801 :: "boot_env \<Rightarrow> bsp \<Rightarrow> boot_res" where
  "aicwifi_init_8801 env s =
     check (rwnx_plat_bin_fw_upload_android env RAM_FMAC_FW_ADDR Wl_fw s) (\<lambda>s.
     check (aicwifi_patch_config env s) (\<lambda>s.
     check (aicwifi_sys_config env s) (\<lambda>s.
     check (aicwifi_start_from_bootrom env s) (\<lambda>s. Inr (0, s)))))"

definition aicwifi_init_8800d80 :: "boot_env \<Rightarrow> bsp \<Rightarrow> boot_res" where
  "aicwifi_init_8800d80 env s =
     check (rwnx_plat_bin_fw_upload_android env RAM_FMAC_FW_ADDR Wl_fw s) (\<lambda>s.
     check (aicwifi_patch_config_8800d80 env s) (\<lambda>s.
     check (aicwifi_start_from_bootrom env s) (\<lambda>s. Inr (0, s))))"

definition aicbsp_syscfg_tbl :: "(u32 \<times> u32) list" where
  "aicbsp_syscfg_tbl = [(0x40500014, 0x00000101), (0x40500018, 0x00000109), (0x40500004, 0x00000010),
     (0x40040000, 0x00001AC8), (0x40040084, 0x00011580), (0x40040080, 0x00000001), (0x40100058, 0x00000000),
     (0x50000000, 0x03220204), (0x50019150, 0x00000002), (0x50017008, 0x00000000)]"

definition aicbsp_system_config :: "boot_env \<Rightarrow> bsp \<Rightarrow> boot_res" where
  "aicbsp_system_config env = send_all env (map (\<lambda>(a, v). Mem_write a v) aicbsp_syscfg_tbl)"

text \<open>\<open>aicbsp_driver_fw_init\<close> for the two chips; test mode 4 leaves Bluetooth out.\<close>

definition bt_then_wifi :: "boot_env \<Rightarrow> (boot_env \<Rightarrow> bsp \<Rightarrow> boot_res) \<Rightarrow> bsp \<Rightarrow> boot_res" where
  "bt_then_wifi env wifi_init s = (if cpmode s \<noteq> 4 then check (aicbt_init env s) (wifi_init env) else wifi_init env s)"

definition aicbsp_driver_fw_init_8801 :: "boot_env \<Rightarrow> bsp \<Rightarrow> boot_res" where
  "aicbsp_driver_fw_init_8801 env s =
     (case send env (Mem_read 0x40500000) s of
        Inl f \<Rightarrow> Inl f
      | Inr (r, t) \<Rightarrow> if r \<noteq> 0 then Inr (-1, t)
          else let rev = drop_bit 16 (mem_word env (length (log s))) AND 0xFF; t = t\<lparr>chip_rev := rev\<rparr> in
            if rev \<noteq> CHIP_REV_U02 \<and> rev \<noteq> CHIP_REV_U03 then Inr (-1, t)
            else check (aicbsp_system_config env (if rev \<noteq> CHIP_REV_U02 then t\<lparr>aicbsp_firmware_list := Fw_u03\<rparr> else t)) (bt_then_wifi env aicwifi_init_8801))"

definition aicbsp_driver_fw_init_8800d80 :: "boot_env \<Rightarrow> bsp \<Rightarrow> boot_res" where
  "aicbsp_driver_fw_init_8800d80 env s =
     (case send env (Mem_read 0x40500000) s of
        Inl f \<Rightarrow> Inl f
      | Inr (r, t) \<Rightarrow> if r \<noteq> 0 then Inr (-1, t)
          else let rev = drop_bit 16 (mem_word env (length (log s))) AND 0xFF; t = t\<lparr>chip_rev := rev\<rparr> in
            bt_then_wifi env aicwifi_init_8800d80
              (if rev = CHIP_REV_U01 then t\<lparr>aicbsp_firmware_list := Fw_8800d80_u01\<rparr>
               else if rev = CHIP_REV_U02 \<or> rev = CHIP_REV_U03 then t\<lparr>aicbsp_firmware_list := Fw_8800d80_u02\<rparr> else t))"

end
