(* ===== verification/Bsp_Load.thy ===== *)
theory Bsp_Load
  imports Bsp_Boot
begin

text \<open>
  What the bring-up of the chip achieves: the requests of a step in closed form, the contents of the
  chip's memory after an upload, patch tables read back from their encoding, and the order in which
  the firmware is loaded, configured and started.
\<close>

unbundle bit_operations_syntax

subsection \<open>Sequences of requests\<close>

text \<open>The requests \<open>qs\<close> up to the first that is refused.\<close>

definition first_refused :: "boot_env \<Rightarrow> nat \<Rightarrow> nat \<Rightarrow> nat option" where
  "first_refused env n k = find (\<lambda>i. answer env (n + i) \<noteq> 0) [0..<k]"

definition sent :: "boot_env \<Rightarrow> req list \<Rightarrow> bsp \<Rightarrow> int \<times> bsp" where
  "sent env qs s = (case first_refused env (length (log s)) (length qs) of
       None \<Rightarrow> (0, s\<lparr>log := log s @ qs\<rparr>)
     | Some i \<Rightarrow> (answer env (length (log s) + i), s\<lparr>log := log s @ take (Suc i) qs\<rparr>))"

lemma pass_simps [simp]:
  "pass (Inl e) f = Inl e" "pass (Inr (r, s)) f = (if r \<noteq> 0 then Inr (r, s) else f s)"
  "check (Inl e) f = Inl e" "check (Inr (r, s)) f = (if r \<noteq> 0 then Inr (-1, s) else f s)"
  by (simp_all add: pass_def check_def)

lemma first_refused_Suc:
  "first_refused env n (Suc k) = (if answer env n \<noteq> 0 then Some 0 else map_option Suc (first_refused env (Suc n) k))"
proof -
  have "find P (map Suc xs) = map_option Suc (find (\<lambda>i. P (Suc i)) xs)" for P xs
    by (induction xs) auto
  moreover have "[0..<Suc k] = 0 # map Suc [0..<k]"
    by (simp add: upt_conv_Cons map_Suc_upt del: upt_Suc)
  ultimately show ?thesis
    by (simp add: first_refused_def del: upt_Suc)
qed

lemma send_all_sent: "send_all env qs s = Inr (sent env qs s)"
proof (induction qs arbitrary: s)
  case Nil
  then show ?case by (simp add: sent_def first_refused_def)
next
  case (Cons q qs)
  show ?case
    by (simp add: send_def Cons.IH sent_def first_refused_Suc split: option.split)
qed

lemma send_all_append: "send_all env (ps @ qs) s = pass (send_all env ps s) (send_all env qs)"
  by (induction ps arbitrary: s) (simp_all add: send_def)

lemma first_refused_Some:
  "first_refused env n k = Some i \<longleftrightarrow> i < k \<and> answer env (n + i) \<noteq> 0 \<and> (\<forall>j<i. answer env (n + j) = 0)"
  by (auto simp: first_refused_def find_Some_iff)

lemma first_refused_None: "first_refused env n k = None \<longleftrightarrow> (\<forall>i<k. answer env (n + i) = 0)"
  by (auto simp: first_refused_def find_None_iff)

subsection \<open>The memory of the chip\<close>

definition put_block :: "u32 \<Rightarrow> u8 list \<Rightarrow> (u32 \<Rightarrow> u8) \<Rightarrow> u32 \<Rightarrow> u8" where
  "put_block a bs m x = (if unat (x - a) < length bs then bs ! unat (x - a) else m x)"

definition chip_write :: "req \<Rightarrow> (u32 \<Rightarrow> u8) \<Rightarrow> u32 \<Rightarrow> u8" where
  "chip_write q m = (case q of Mem_block_write a bs \<Rightarrow> put_block a bs m | _ \<Rightarrow> m)"

text \<open>The blocks of an image.\<close>

definition block_count :: "u8 list \<Rightarrow> nat" where "block_count file = (length file + 1023) div 1024"

definition upload_reqs :: "u32 \<Rightarrow> u8 list \<Rightarrow> req list" where
  "upload_reqs addr file = map (\<lambda>k. Mem_block_write (addr + of_nat (1024 * k)) (take 1024 (drop (1024 * k) file))) [0..<block_count file]"

definition upload_from :: "u32 \<Rightarrow> u8 list \<Rightarrow> nat \<Rightarrow> req list" where
  "upload_from addr file k = map (\<lambda>k. Mem_block_write (addr + of_nat (1024 * k)) (take 1024 (drop (1024 * k) file))) [k..<block_count file]"

lemma send_all_single: "send_all env [q] s = send env q s"
  by (simp add: send_def)

lemma upload_loop_reqs: "upload_loop env addr file (1024 * k) s = send_all env (upload_from addr file k) s"
proof (induction "length file - 1024 * k" arbitrary: k s rule: less_induct)
  case less
  consider "1024 * k + 1024 < length file" | "1024 * k < length file" "length file \<le> 1024 * k + 1024" | "length file \<le> 1024 * k"
    by linarith
  then show ?case
  proof cases
    case 1
    then have b: "k < block_count file" by (simp add: block_count_def)
    have "upload_loop env addr file (1024 * Suc k) = send_all env (upload_from addr file (Suc k))"
      using 1 by (intro ext less) simp
    then show ?thesis
      using 1 by (subst upload_loop.simps) (simp add: upload_from_def upt_conv_Cons [OF b] add.commute)
  next
    case 2
    then have b: "block_count file = Suc k" by (simp add: block_count_def)
    show ?thesis
      using 2 by (subst upload_loop.simps) (simp add: upload_from_def b send_all_single del: send_all.simps)
  next
    case 3
    then have b: "block_count file \<le> k" by (simp add: block_count_def)
    show ?thesis
      using 3 b by (subst upload_loop.simps) (simp add: upload_from_def)
  qed
qed

lemma upload_is_send_all:
  assumes "fw_file env (aicbsp_firmware_list s) (cpmode s) name = Some file" "file \<noteq> []"
  shows "rwnx_plat_bin_fw_upload_android env addr name s = send_all env (upload_reqs addr file) s"
  using assms upload_loop_reqs [of env addr "file" 0 s]
  by (simp add: rwnx_plat_bin_fw_upload_android_def upload_reqs_def upload_from_def)

lemma put_block_append:
  assumes "length (xs @ ys) \<le> 2 ^ 32"
  shows "put_block (a + of_nat (length xs)) ys (put_block a xs m) = put_block a (xs @ ys) m"
proof
  fix x :: u32
  let ?d = "x - a" and ?n = "length xs"
  show "put_block (a + of_nat ?n) ys (put_block a xs m) x = put_block a (xs @ ys) m x"
  proof (cases "ys = []")
    case False
    then have n: "?n < 2 ^ 32" using assms by (cases ys) auto
    then have un: "unat (of_nat ?n :: u32) = ?n" by (simp add: unat_of_nat)
    have e: "x - (a + of_nat ?n) = ?d - of_nat ?n" by simp
    show ?thesis
    proof (cases "?n \<le> unat ?d")
      case True
      then have "unat (?d - of_nat ?n) = unat ?d - ?n" by (simp add: unat_sub_if' un)
      then show ?thesis using True unfolding put_block_def e by (simp add: nth_append) arith
    next
      case less: False
      then have "unat (?d - of_nat ?n) = unat ?d + 2 ^ 32 - ?n" by (simp add: unat_sub_if' un)
      moreover have "\<not> unat ?d + 2 ^ 32 - ?n < length ys" using assms by simp
      ultimately show ?thesis using less unfolding put_block_def e by (simp add: nth_append)
    qed
  qed (simp add: put_block_def)
qed

lemma fold_upload:
  assumes "length file \<le> 2 ^ 32" "k \<le> block_count file"
  shows "fold chip_write (map (\<lambda>k. Mem_block_write (addr + of_nat (1024 * k)) (take 1024 (drop (1024 * k) file))) [0..<k]) m = put_block addr (take (1024 * k) file) m"
  using assms
proof (induction k)
  case (Suc k)
  then have l: "1024 * k < length file" by (simp add: block_count_def)
  then have n: "length (take (1024 * k) file) = 1024 * k" by simp
  have "put_block (addr + of_nat (1024 * k)) (take 1024 (drop (1024 * k) file)) (put_block addr (take (1024 * k) file) m) = put_block addr (take (1024 * k) file @ take 1024 (drop (1024 * k) file)) m"
    using Suc.prems l put_block_append [of "take (1024 * k) file" "take 1024 (drop (1024 * k) file)" addr m] by (simp add: n min_def split: if_splits)
  moreover have "take (1024 * k) file @ take 1024 (drop (1024 * k) file) = take (1024 * Suc k) file"
    by (simp add: take_add [symmetric] add.commute)
  ultimately show ?case
    using Suc by (simp add: chip_write_def)
qed (simp add: put_block_def fun_eq_iff)

lemma upload_contents:
  assumes "length file \<le> 2 ^ 32"
  shows "fold chip_write (upload_reqs addr file) m = put_block addr file m"
  using fold_upload [OF assms, of "block_count file" addr m] by (simp add: upload_reqs_def block_count_def)

text \<open>C25. A firmware image is sent in blocks of at most 1 KB from its start to its end, up to the first block the
  chip refuses, whose error is the result; after all of them the chip's memory holds the image at the
  address, and nothing else has changed.  Without a file nothing is sent.\<close>

theorem firmware_in_memory:
  "(case fw_file env (aicbsp_firmware_list s) (cpmode s) name of
      None \<Rightarrow> rwnx_plat_bin_fw_upload_android env addr name s = Inr (-1, s)
    | Some file \<Rightarrow>
        rwnx_plat_bin_fw_upload_android env addr name s = (if file = [] then Inr (-1, s) else Inr (sent env (upload_reqs addr file) s)) \<and>
        list_all (\<lambda>q. case q of Mem_block_write a bs \<Rightarrow> bs \<noteq> [] \<and> length bs \<le> 1024 | _ \<Rightarrow> False) (upload_reqs addr file) \<and>
        (length file \<le> 2 ^ 32 \<longrightarrow> (\<forall>x. fold chip_write (upload_reqs addr file) m x =
           (if unat (x - addr) < length file then file ! unat (x - addr) else m x))))"
proof (cases "fw_file env (aicbsp_firmware_list s) (cpmode s) name")
  case (Some fl)
  have "list_all (\<lambda>q. case q of Mem_block_write a bs \<Rightarrow> bs \<noteq> [] \<and> length bs \<le> 1024 | _ \<Rightarrow> False) (upload_reqs addr fl)"
    by (auto simp: upload_reqs_def list_all_iff block_count_def)
  then show ?thesis
    using Some upload_is_send_all [OF Some, of addr] upload_contents [of fl addr m]
    by (simp add: send_all_sent rwnx_plat_bin_fw_upload_android_def put_block_def)
qed (simp add: rwnx_plat_bin_fw_upload_android_def)

text \<open>A driver with an image of 1 030 octets for address \<open>0xFFFFFC00\<close>, whose second block is refused with \<open>-5\<close>.\<close>

definition demo_boot :: boot_env where
  "demo_boot = \<lparr>answer = (\<lambda>n. if n = 1 then -5 else 0), mem_word = (\<lambda>_. 0),
     fw_file = (\<lambda>_ _ name. if name = Wl_fw then Some (replicate 1030 7) else None), adap_test = False\<rparr>"

definition demo_bsp :: bsp where
  "demo_bsp = \<lparr>log = [], chipid = AIC8800D80, hwinfo = - 1, hwinfo_r = - 1, cpmode = 0, chip_rev = 0, aicbsp_firmware_list = Fw_8800d80_u01\<rparr>"

theorem firmware_in_memory_witness:
  "rwnx_plat_bin_fw_upload_android demo_boot 0xFFFFFC00 Wl_fw demo_bsp =
     Inr (-5, demo_bsp\<lparr>log := [Mem_block_write 0xFFFFFC00 (replicate 1024 7), Mem_block_write 0 (replicate 6 7)]\<rparr>) \<and>
   fold chip_write (upload_reqs 0xFFFFFC00 (replicate 1030 7)) (\<lambda>_. 0) 5 = 7 \<and>
   fold chip_write (upload_reqs 0xFFFFFC00 (replicate 1030 7)) (\<lambda>_. 0) 6 = 0"
proof -
  let ?f = "replicate 1030 (7 :: u8)"
  have f: "fw_file demo_boot (aicbsp_firmware_list demo_bsp) (cpmode demo_bsp) Wl_fw = Some ?f"
    by (simp add: demo_boot_def)
  have t: "take 1024 ?f = replicate 1024 7" "drop 1024 ?f = replicate 6 7" "?f \<noteq> []" "length ?f \<le> 2 ^ 32"
    by (simp_all only: take_replicate drop_replicate length_replicate) simp_all
  have q: "upload_reqs 0xFFFFFC00 ?f = [Mem_block_write 0xFFFFFC00 (replicate 1024 7), Mem_block_write 0 (replicate 6 7)]"
    by (simp add: upload_reqs_def block_count_def upt_rec)
  have r: "sent demo_boot [Mem_block_write 0xFFFFFC00 (replicate 1024 7), Mem_block_write 0 (replicate 6 7)] demo_bsp =
      (-5, demo_bsp\<lparr>log := [Mem_block_write 0xFFFFFC00 (replicate 1024 7), Mem_block_write 0 (replicate 6 7)]\<rparr>)"
    by (simp add: sent_def demo_bsp_def demo_boot_def first_refused_Suc)
  have v: "fold chip_write (upload_reqs 0xFFFFFC00 ?f) (\<lambda>_. 0) x = (if unat (x - 0xFFFFFC00) < 1030 then 7 else 0)" for x
    using firmware_in_memory [where env = demo_boot and s = demo_bsp and name = Wl_fw and addr = "0xFFFFFC00" and m = "\<lambda>_. 0", unfolded f option.case] t(4)
    by (simp)
  show ?thesis
    using firmware_in_memory [where env = demo_boot and s = demo_bsp and name = Wl_fw and addr = "0xFFFFFC00" and m = "\<lambda>_. 0", unfolded f option.case] t(3)
    by (simp add: v q r)
qed

subsection \<open>The format of the patch table\<close>

definition le_bytes :: "u32 \<Rightarrow> u8 list" where
  "le_bytes w = [ucast w, ucast (drop_bit 8 w), ucast (drop_bit 16 w), ucast (drop_bit 24 w)]"

definition enc_entry :: "aicbt_patch_table \<Rightarrow> u8 list" where
  "enc_entry e = pt_name e @ le_bytes (pt_type e) @ le_bytes (pt_len e) @ concat (map le_bytes (pt_data e))"

text \<open>An entry as it stands in a file; entries of type 1000 and above have no data, whatever their length says.\<close>

definition entry_ok :: "aicbt_patch_table \<Rightarrow> bool" where
  "entry_ok e \<longleftrightarrow> length (pt_name e) = 16 \<and>
     (if 1000 \<le> pt_type e then pt_data e = [] else unat (pt_len e) < 2 ^ 29 \<and> length (pt_data e) = 2 * unat (pt_len e))"

definition read_entry :: "aicbt_patch_table \<Rightarrow> aicbt_patch_table" where
  "read_entry e = (if 1000 \<le> pt_type e then e\<lparr>pt_len := 0\<rparr> else e)"

lemma le32_bytes:
  assumes "drop p bs = le_bytes w @ r"
  shows "le32 bs p = w"
proof -
  have l: "p + 4 \<le> length bs" using arg_cong [OF assms, of length] by (simp add: le_bytes_def)
  have "bs ! (p + k) = (le_bytes w @ r) ! k" if "k < 4" for k
    using that l by (simp add: assms [symmetric])
  from this [of 0] this [of 1] this [of 2] this [of 3]
  have b: "bs ! p = ucast w" "bs ! (p + 1) = ucast (drop_bit 8 w)" "bs ! (p + 2) = ucast (drop_bit 16 w)" "bs ! (p + 3) = ucast (drop_bit 24 w)"
    by (simp_all add: le_bytes_def)
  show ?thesis
    unfolding le32_def b
  proof (rule bit_word_eqI)
    fix n assume n: "n < LENGTH(32)"
    consider "n < 8" | "8 \<le> n" "n < 16" | "16 \<le> n" "n < 24" | "24 \<le> n" by linarith
    then show "bit ((ucast (ucast w :: u8) :: u32) OR push_bit 8 (ucast (ucast (drop_bit 8 w) :: u8)) OR push_bit 16 (ucast (ucast (drop_bit 16 w) :: u8)) OR
        push_bit 24 (ucast (ucast (drop_bit 24 w) :: u8))) n = bit w n"
      using n by cases (simp_all add: bit_simps less_diff_conv2)
  qed
qed

lemma length_enc_words [simp]: "length (concat (map le_bytes ws)) = 4 * length ws"
  by (induction ws) (simp_all add: le_bytes_def)

lemma words_at_enc:
  assumes "drop p bs = concat (map le_bytes ws) @ r"
  shows "words_at bs p (4 * length ws) = ws"
proof (rule nth_equalityI)
  fix k assume "k < length (words_at bs p (4 * length ws))"
  then have k: "k < length ws" by (simp add: words_at_def)
  have "drop (p + 4 * k) bs = concat (map le_bytes (drop k ws)) @ r"
    using assms k
  proof (induction k arbitrary: p ws)
    case (Suc k)
    then obtain w vs where ws: "ws = w # vs" by (cases ws) auto
    have "drop (p + 4) bs = drop 4 (drop p bs)" by (simp add: add.commute)
    also have "\<dots> = concat (map le_bytes vs) @ r" unfolding Suc.prems(1) ws by (simp add: le_bytes_def)
    finally show ?case using Suc.IH [of "p + 4" vs] Suc.prems(2) ws by (simp add: add.assoc)
  qed simp
  moreover have "drop k ws = ws ! k # drop (Suc k) ws" using k by (simp add: Cons_nth_drop_Suc)
  ultimately have "le32 bs (p + 4 * k) = ws ! k" by (intro le32_bytes) auto
  then show "words_at bs p (4 * length ws) ! k = ws ! k" using k by (simp add: words_at_def)
qed (simp add: words_at_def)

lemma length_enc_entry: "length (pt_name e) = 16 \<Longrightarrow> length (enc_entry e) = 24 + 4 * length (pt_data e)"
  by (simp add: enc_entry_def le_bytes_def)

lemma octets_of_len: "unat len < 2 ^ 29 \<Longrightarrow> data_octets len = 8 * unat (len :: u32)"
  by (simp add: data_octets_def unat_word_ariths)

lemma enc_entry_nonempty: "entry_ok e \<Longrightarrow> 24 \<le> length (enc_entry e)"
  by (simp add: length_enc_entry entry_ok_def)

text \<open>The header of an entry at octet \<open>p\<close>.\<close>

lemma header_at:
  assumes "drop p bs = enc_entry e @ r" "length (pt_name e) = 16"
  shows "take 16 (drop p bs) = pt_name e" "le32 bs (p + 16) = pt_type e" "le32 bs (p + 20) = pt_len e"
    "drop (p + 24) bs = concat (map le_bytes (pt_data e)) @ r"
proof -
  have d: "drop (p + n) bs = drop n (enc_entry e @ r)" for n
    by (simp add: assms(1) [symmetric] add.commute)
  show "take 16 (drop p bs) = pt_name e" using assms by (simp add: enc_entry_def)
  show "drop (p + 24) bs = concat (map le_bytes (pt_data e)) @ r"
    using assms(2) unfolding d by (simp add: enc_entry_def le_bytes_def)
  have "drop (p + 16) bs = le_bytes (pt_type e) @ drop 20 (enc_entry e @ r)"
    using assms(2) unfolding d by (simp add: enc_entry_def le_bytes_def)
  then show "le32 bs (p + 16) = pt_type e" by (rule le32_bytes)
  have "drop (p + 20) bs = le_bytes (pt_len e) @ drop 24 (enc_entry e @ r)"
    using assms(2) unfolding d by (simp add: enc_entry_def le_bytes_def)
  then show "le32 bs (p + 20) = pt_len e" by (rule le32_bytes)
qed

lemma entry_at:
  assumes d: "drop p bs = enc_entry e @ r" and ok: "entry_ok e" and p: "p \<le> length bs"
  shows "patch_entries bs p = map_sum id ((#) (read_entry e)) (patch_entries bs (p + length (enc_entry e)))"
proof -
  have n: "length (pt_name e) = 16" using ok by (simp add: entry_ok_def)
  note h = header_at [OF d n]
  have l: "length bs = p + length (enc_entry e) + length r" using arg_cong [OF d, of length] p by simp
  have len: "length (enc_entry e) = 24 + 4 * length (pt_data e)" by (rule length_enc_entry [OF n])
  show ?thesis
  proof (cases "1000 \<le> pt_type e")
    case True
    then have "pt_data e = []" "read_entry e = \<lparr>pt_name = pt_name e, pt_type = pt_type e, pt_data = [], pt_len = 0\<rparr>"
      using ok by (simp_all add: entry_ok_def read_entry_def)
    then show ?thesis
      using True l len by (subst patch_entries.simps) (simp add: h)
  next
    case False
    then have o: "data_octets (pt_len e) = 4 * length (pt_data e)"
      using ok by (simp add: entry_ok_def octets_of_len)
    have e: "read_entry e = \<lparr>pt_name = pt_name e, pt_type = pt_type e, pt_data = pt_data e, pt_len = pt_len e\<rparr>"
      using False by (simp add: read_entry_def)
    show ?thesis
      using False l len words_at_enc [OF h(4)] by (subst patch_entries.simps) (simp add: h e o add.assoc)
  qed
qed

lemma entries_at:
  assumes "drop p bs = concat (map enc_entry es) @ r" "list_all entry_ok es" "p \<le> length bs"
  shows "patch_entries bs p = map_sum id ((@) (map read_entry es)) (patch_entries bs (p + length (concat (map enc_entry es))))"
  using assms
proof (induction es arbitrary: p)
  case Nil
  then show ?case by (cases "patch_entries bs p") auto
next
  case (Cons e es)
  have d: "drop p bs = enc_entry e @ concat (map enc_entry es) @ r" using Cons.prems(1) by simp
  have d': "drop (p + length (enc_entry e)) bs = concat (map enc_entry es) @ r"
    using arg_cong [OF d, of "drop (length (enc_entry e))"] by (simp add: add.commute)
  have l: "p + length (enc_entry e) \<le> length bs"
    using arg_cong [OF d, of length] Cons.prems(3) by simp
  show ?case
    using entry_at [OF d] Cons.IH [OF d' _ l] Cons.prems
    by (cases "patch_entries bs (p + length (enc_entry e) + length (concat (map enc_entry es)))") (auto simp: add.assoc)
qed

lemma cut_entry:
  assumes "drop p bs = take k (enc_entry e)" "entry_ok e" "0 < k" "k < length (enc_entry e)" "p \<le> length bs"
  shows "patch_entries bs p = Inl Read_past_end"
proof -
  have l: "length bs = p + k" using arg_cong [OF assms(1), of length] assms(3-5) by simp
  show ?thesis
  proof (cases "k < 24")
    case True
    then show ?thesis using l assms by (subst patch_entries.simps) simp
  next
    case False
    have n: "length (pt_name e) = 16" using assms by (simp add: entry_ok_def)
    have ty: "\<not> 1000 \<le> pt_type e" and o: "data_octets (pt_len e) = 4 * length (pt_data e)"
      using assms False length_enc_entry [OF n] by (auto simp: entry_ok_def octets_of_len split: if_splits)
    have d: "drop p bs = enc_entry (e\<lparr>pt_data := []\<rparr>) @ take (k - 24) (concat (map le_bytes (pt_data e)))"
      unfolding assms(1) using n False by (simp add: enc_entry_def le_bytes_def take_Cons' numeral_eq_Suc)
    note h = header_at [OF d]
    show ?thesis
      using False l assms n ty o length_enc_entry [OF n] by (subst patch_entries.simps) (simp add: h)
  qed
qed

text \<open>C26. Patch tables are read back from their encoding: a file made of the tag, three octets and well-formed entries
  gives exactly those entries, in order (those of type 1000 and above without their length); a file cut
  off inside an entry is read past its end; another tag, or no file, gives no table.\<close>

theorem patch_table_roundtrip:
  "(length pad = 3 \<and> list_all entry_ok es \<longrightarrow>
      aicbt_patch_table_alloc (Some (AICBT_PT_TAG @ pad @ concat (map enc_entry es))) = Inr (map read_entry es) \<and>
      (entry_ok e \<and> 0 < k \<and> k < length (enc_entry e) \<longrightarrow>
         aicbt_patch_table_alloc (Some (AICBT_PT_TAG @ pad @ concat (map enc_entry es) @ take k (enc_entry e))) = Inl Read_past_end)) \<and>
   (length tag = 13 \<and> tag \<noteq> AICBT_PT_TAG \<longrightarrow> aicbt_patch_table_alloc (Some (tag @ rest)) = Inr []) \<and>
   aicbt_patch_table_alloc None = Inr []"
proof (intro conjI impI)
  have t: "length AICBT_PT_TAG = 13" by (simp add: AICBT_PT_TAG_def)
  then have n: "AICBT_PT_TAG \<noteq> []" by auto
  have a: "aicbt_patch_table_alloc (Some (AICBT_PT_TAG @ bs)) = patch_entries (AICBT_PT_TAG @ bs) 16" for bs
    by (simp add: aicbt_patch_table_alloc_def n)
  have nil: "patch_entries bs p = Inr []" if "length bs \<le> p" for bs p
    using that by (subst patch_entries.simps) simp
  assume "length pad = 3 \<and> list_all entry_ok es"
  then have d: "drop 16 (AICBT_PT_TAG @ pad @ bs) = bs" "16 \<le> length (AICBT_PT_TAG @ pad @ bs)" and ok: "list_all entry_ok es" for bs
    by (simp_all add: t)
  show "aicbt_patch_table_alloc (Some (AICBT_PT_TAG @ pad @ concat (map enc_entry es))) = Inr (map read_entry es)"
    using entries_at [OF d(1) ok d(2), of "[]"] \<open>length pad = 3 \<and> _\<close> by (simp add: a nil t)
  assume e: "entry_ok e \<and> 0 < k \<and> k < length (enc_entry e)"
  let ?b = "concat (map enc_entry es)" and ?c = "take k (enc_entry e)"
  have "drop (16 + length ?b) (AICBT_PT_TAG @ pad @ ?b @ ?c) = drop (length ?b) (?b @ ?c)"
    using arg_cong [OF d(1) [of "?b @ ?c"], of "drop (length ?b)"] by (simp only: drop_drop add.commute [of "length ?b"])
  then have "patch_entries (AICBT_PT_TAG @ pad @ ?b @ ?c) (16 + length ?b) = Inl Read_past_end"
    using e \<open>length pad = 3 \<and> _\<close> t by (intro cut_entry [of _ _ k e]) simp_all
  then show "aicbt_patch_table_alloc (Some (AICBT_PT_TAG @ pad @ ?b @ ?c)) = Inl Read_past_end"
    using entries_at [OF d(1) ok d(2), of ?c] by (simp only: a) simp
next
  assume "length tag = 13 \<and> tag \<noteq> AICBT_PT_TAG"
  then show "aicbt_patch_table_alloc (Some (tag @ rest)) = Inr []"
    by (auto simp: aicbt_patch_table_alloc_def AICBT_PT_TAG_def)
qed (simp add: aicbt_patch_table_alloc_def)

definition demo_entry :: aicbt_patch_table where
  "demo_entry = \<lparr>pt_name = replicate 16 0x61, pt_type = 5, pt_data = [0x40500010, 0xCAFE0001], pt_len = 1\<rparr>"

definition demo_strange :: aicbt_patch_table where
  "demo_strange = \<lparr>pt_name = replicate 16 0x62, pt_type = 1001, pt_data = [], pt_len = 77\<rparr>"

theorem patch_table_roundtrip_witness:
  "aicbt_patch_table_alloc (Some (AICBT_PT_TAG @ [0, 0, 0] @ concat (map enc_entry [demo_entry, demo_strange]))) = Inr [demo_entry, demo_strange\<lparr>pt_len := 0\<rparr>] \<and>
   aicbt_patch_table_alloc (Some (AICBT_PT_TAG @ [0, 0, 0] @ concat (map enc_entry [demo_strange]) @ take 31 (enc_entry demo_entry))) = Inl Read_past_end \<and>
   aicbt_patch_table_alloc (Some (replicate 13 0 @ [1])) = Inr []"
proof -
  have o: "entry_ok demo_entry" "entry_ok demo_strange" by (simp_all add: entry_ok_def demo_entry_def demo_strange_def)
  have l: "length (enc_entry demo_entry) = 32" by (simp add: length_enc_entry demo_entry_def)
  have r: "map read_entry [demo_entry, demo_strange] = [demo_entry, demo_strange\<lparr>pt_len := 0\<rparr>]"
    by (simp add: read_entry_def demo_entry_def demo_strange_def)
  have t: "length (replicate 13 (0 :: u8)) = 13" "replicate 13 0 \<noteq> AICBT_PT_TAG"
    by simp (code_simp)
  have ok: "list_all entry_ok [demo_entry, demo_strange]" "list_all entry_ok [demo_strange]" "length [0, 0, 0 :: u8] = 3" "0 < (31 :: nat)" "31 < length (enc_entry demo_entry)"
    by (simp_all add: o l)
  note p = patch_table_roundtrip [where pad = "[0, 0, 0]" and e = demo_entry and k = 31 and tag = "replicate 13 0" and rest = "[1]"]
  show ?thesis
    using p [THEN conjunct1, THEN mp, OF conjI [OF ok(3, 1)], THEN conjunct1, unfolded r]
      p [THEN conjunct1, THEN mp, OF conjI [OF ok(3, 2)], THEN conjunct2, THEN mp, OF conjI [OF o(1) conjI [OF ok(4, 5)]]]
      p [THEN conjunct2, THEN conjunct1, THEN mp, OF conjI [OF t]]
    by (intro conjI)
qed

subsection \<open>Sending the table\<close>

fun pairs :: "u32 list \<Rightarrow> (u32 \<times> u32) list" where
  "pairs (a # v # d) = (a, v) # pairs d"
| "pairs _ = []"

definition bt_settings :: "bsp \<Rightarrow> u32 list" where
  "bt_settings s = [if hwinfo s <s 0 then 1 else 0, hwinfo s, if chipid s = AIC8800DC then cpmode s else 0] @ bt_info (chipid s)"

text \<open>The writes of an entry: its pairs, the first nine of the mode entry with the driver's settings as values.\<close>

definition entry_writes :: "bsp \<Rightarrow> aicbt_patch_table \<Rightarrow> req list" where
  "entry_writes s e =
     (let ps = pairs (pt_data e) in
      if skipped (chipid s) (pt_type e) then []
      else map (\<lambda>(a, v). Mem_write a v) (if pt_type e = AICBT_PT_BTMODE then zip (map fst ps) (bt_settings s @ drop 9 (map snd ps)) else ps))"

definition load_ok :: "aicbt_patch_table \<Rightarrow> bool" where
  "load_ok e \<longleftrightarrow> length (pt_data e) = 2 * unat (pt_len e) \<and> (pt_type e = AICBT_PT_BTMODE \<longrightarrow> 9 \<le> unat (pt_len e))"

lemma send_pairs_all: "length d = 2 * n \<Longrightarrow> send_pairs env n d s = send_all env (map (\<lambda>(a, v). Mem_write a v) (pairs d)) s"
proof (induction env n d s rule: send_pairs.induct)
  case (2 env n a v d s)
  then show ?case by (simp add: send_def)
qed auto

lemma pairs_patched:
  assumes "patch_btmode s d = Inr d'"
  shows "length d' = length d" "pairs d' = zip (map fst (pairs d)) (bt_settings s @ drop 9 (map snd (pairs d)))"
proof -
  have l: "18 \<le> length d" and d': "d' = d[1 := if hwinfo s <s 0 then 1 else 0, 3 := hwinfo s, 5 := if chipid s = AIC8800DC then cpmode s else 0,
      7 := bt_info (chipid s) ! 0, 9 := bt_info (chipid s) ! 1, 11 := bt_info (chipid s) ! 2, 13 := bt_info (chipid s) ! 3,
      15 := bt_info (chipid s) ! 4, 17 := bt_info (chipid s) ! 5]"
    using assms by (simp_all add: patch_btmode_def Let_def split: if_splits)
  then show "length d' = length d" by simp
  have "length (bt_info (chipid s)) = 6" by (simp add: bt_info_def)
  then obtain b0 b1 b2 b3 b4 b5 where b: "bt_info (chipid s) = [b0, b1, b2, b3, b4, b5]"
    by (auto simp: numeral_eq_Suc length_Suc_conv)
  obtain c e where e: "d = c @ e" "length c = 18"
    using l by (metis append_take_drop_id length_take min.absorb2)
  obtain x0 x1 x2 x3 x4 x5 x6 x7 x8 x9 x10 x11 x12 x13 x14 x15 x16 x17 where
    x: "c = [x0, x1, x2, x3, x4, x5, x6, x7, x8, x9, x10, x11, x12, x13, x14, x15, x16, x17]"
    using e(2) by (auto simp: numeral_eq_Suc length_Suc_conv)
  show "pairs d' = zip (map fst (pairs d)) (bt_settings s @ drop 9 (map snd (pairs d)))"
    unfolding d' b e(1) x by (simp add: bt_settings_def b zip_map_fst_snd)
qed

lemma entry_writes_log [simp]: "entry_writes (s\<lparr>log := l\<rparr>) e = entry_writes s e"
  by (simp add: entry_writes_def bt_settings_def Let_def)

lemma load_entry:
  assumes "load_ok e"
  shows "load_entries env (e # es) s = pass (send_all env (entry_writes s e) s) (load_entries env es)"
proof (cases "pt_type e = AICBT_PT_BTMODE")
  case True
  then obtain d where d: "patch_btmode s (pt_data e) = Inr d"
    using assms by (simp add: load_ok_def patch_btmode_def Let_def)
  have "length d = 2 * unat (pt_len e)" using pairs_patched(1) [OF d] assms by (simp add: load_ok_def)
  then show ?thesis
    using True pairs_patched(2) [OF d] by (simp add: d entry_writes_def Let_def send_pairs_all)
next
  case False
  then show ?thesis
    using assms by (simp add: load_ok_def entry_writes_def Let_def send_pairs_all)
qed

lemma load_entries_all:
  assumes "list_all load_ok es"
  shows "load_entries env (es @ fs) s = pass (send_all env (concat (map (entry_writes s) es)) s) (load_entries env fs)"
  using assms
proof (induction es arbitrary: s)
  case (Cons e es)
  have ok: "load_ok e" "list_all load_ok es" using Cons.prems by simp_all
  obtain r t where rt: "sent env (entry_writes s e) s = (r, t)" by fastforce
  have t: "map (entry_writes t) = map (entry_writes s)"
    using rt by (auto simp: sent_def split: option.splits)
  show ?case
    by (simp add: load_entry [OF ok(1)] send_all_append send_all_sent [of env "entry_writes s e"] rt Cons.IH [OF ok(2)] t del: load_entries.simps)
qed simp

text \<open>A patch table is sent as the address and value pairs of its entries, in order, up to the first write the
  chip refuses: the version entry is left out (on the AIC8800DC the information entry too), and the
  first nine values of the mode entry are the settings of the driver.  A mode entry of fewer than nine
  pairs is written past its end.\<close>

theorem patch_table_sent:
  assumes "list_all load_ok head" "chipid s \<noteq> AIC8800DW"
  shows "(head \<noteq> [] \<longrightarrow> aicbt_patch_table_load env head s = Inr (sent env (concat (map (entry_writes s) head)) s)) \<and>
    (pt_type e = AICBT_PT_BTMODE \<and> length (pt_data e) < 18 \<longrightarrow> aicbt_patch_table_load env (head @ e # rest) s =
      (if first_refused env (length (log s)) (length (concat (map (entry_writes s) head))) = None then Inl Heap_overflow
       else Inr (sent env (concat (map (entry_writes s) head)) s)))"
proof
  have z: "pass (Inr (sent env q s)) (load_entries env []) = Inr (sent env q s)" for q
    by (auto simp: sent_def split: option.splits)
  show "head \<noteq> [] \<longrightarrow> aicbt_patch_table_load env head s = Inr (sent env (concat (map (entry_writes s) head)) s)"
    using load_entries_all [OF assms(1), of env "[]" s] assms(2) by (auto simp: aicbt_patch_table_load_def send_all_sent z)
  show "pt_type e = AICBT_PT_BTMODE \<and> length (pt_data e) < 18 \<longrightarrow> aicbt_patch_table_load env (head @ e # rest) s =
      (if first_refused env (length (log s)) (length (concat (map (entry_writes s) head))) = None then Inl Heap_overflow
       else Inr (sent env (concat (map (entry_writes s) head)) s))"
    using load_entries_all [OF assms(1), of env "e # rest" s] assms(2)
    using first_refused_Some [of env "length (log s)" "length (concat (map (entry_writes s) head))", THEN iffD1]
    by (cases "first_refused env (length (log s)) (length (concat (map (entry_writes s) head)))")
      (simp_all add: aicbt_patch_table_load_def send_all_sent patch_btmode_def sent_def)
qed

definition demo_mode :: aicbt_patch_table where
  "demo_mode = \<lparr>pt_name = replicate 16 0x6D, pt_type = 3, pt_data = [0x40, 9, 0x44, 9, 0x48, 9, 0x4C, 9, 0x50, 9, 0x54, 9, 0x58, 9, 0x5C, 9, 0x60, 9, 0x64, 9], pt_len = 10\<rparr>"

theorem patch_table_sent_witness:
  "aicbt_patch_table_load (demo_boot\<lparr>answer := \<lambda>_. 0\<rparr>) [demo_mode, demo_entry] demo_bsp =
     Inr (0, demo_bsp\<lparr>log := [Mem_write 0x40 1, Mem_write 0x44 (- 1), Mem_write 0x48 0, Mem_write 0x4C 0, Mem_write 0x50 2, Mem_write 0x54 1500000,
       Mem_write 0x58 1, Mem_write 0x5C 0, Mem_write 0x60 0x6f2f, Mem_write 0x64 9, Mem_write 0x40500010 0xCAFE0001]\<rparr>) \<and>
   aicbt_patch_table_load (demo_boot\<lparr>answer := \<lambda>_. 0\<rparr>) [demo_entry, demo_entry\<lparr>pt_type := 3\<rparr>] demo_bsp = Inl Heap_overflow"
proof -
  have o: "list_all load_ok [demo_mode, demo_entry]" "list_all load_ok [demo_entry]" "chipid demo_bsp \<noteq> AIC8800DW" "[demo_mode, demo_entry] \<noteq> []"
    "pt_type (demo_entry\<lparr>pt_type := 3\<rparr>) = AICBT_PT_BTMODE \<and> length (pt_data (demo_entry\<lparr>pt_type := 3\<rparr>)) < 18"
    by (simp_all add: load_ok_def demo_mode_def demo_entry_def demo_bsp_def AICBT_PT_BTMODE_def)
  have f: "first_refused (demo_boot\<lparr>answer := \<lambda>_. 0\<rparr>) n k = None" for n k
    by (simp add: first_refused_None)
  have w: "entry_writes demo_bsp demo_entry = [Mem_write 0x40500010 0xCAFE0001]"
    "entry_writes demo_bsp demo_mode = [Mem_write 0x40 1, Mem_write 0x44 (- 1), Mem_write 0x48 0, Mem_write 0x4C 0, Mem_write 0x50 2, Mem_write 0x54 1500000,
       Mem_write 0x58 1, Mem_write 0x5C 0, Mem_write 0x60 0x6f2f, Mem_write 0x64 9]"
    by code_simp+
  show ?thesis
    using patch_table_sent [OF o(1, 3), where env = "demo_boot\<lparr>answer := \<lambda>_. 0\<rparr>", THEN conjunct1, THEN mp, OF o(4)]
      patch_table_sent [OF o(2, 3), where e = "demo_entry\<lparr>pt_type := 3\<rparr>" and env = "demo_boot\<lparr>answer := \<lambda>_. 0\<rparr>" and rest = "[]", THEN conjunct2, THEN mp, OF o(5)]
    by (simp add: sent_def f w) (simp add: demo_bsp_def)
qed

subsection \<open>The order of the bring-up\<close>

definition is_start :: "req \<Rightarrow> bool" where "is_start q = (case q of Start_app _ _ \<Rightarrow> True | _ \<Rightarrow> False)"

definition same_config :: "bsp \<Rightarrow> bsp \<Rightarrow> bool" where
  "same_config s t \<longleftrightarrow> aicbsp_firmware_list t = aicbsp_firmware_list s \<and> cpmode t = cpmode s"

text \<open>A step whose requests are answered one by one: only its last request may be refused, its result is 0 only when
  none was, and an application is started only by the last request of a step that may do so.  Other steps leave the
  choice of the firmware alone.\<close>

definition serial :: "boot_env \<Rightarrow> bool \<Rightarrow> bsp \<Rightarrow> boot_res \<Rightarrow> bool" where
  "serial env fin s x \<longleftrightarrow> (\<forall>r t. x = Inr (r, t) \<longrightarrow>
     (fin \<or> same_config s t) \<and> (\<exists>qs. log t = log s @ qs \<and> (\<forall>i<length qs. (r = 0 \<or> Suc i < length qs \<longrightarrow> answer env (length (log s) + i) = 0) \<and> (is_start (qs ! i) \<longrightarrow> fin \<and> Suc i = length qs))))"

named_theorems serial_intros

lemma serial_Inl [serial_intros, simp]: "serial env fin s (Inl f)"
  by (simp add: serial_def)

lemma serial_Inr [serial_intros]: "serial env fin s (Inr (r, s))"
  by (simp add: serial_def same_config_def)

lemma serial_send [serial_intros]: "\<not> is_start q \<or> fin \<Longrightarrow> serial env fin s (send env q s)"
  by (auto simp: serial_def send_def same_config_def)

lemma serial_log: "log s' = log s \<Longrightarrow> serial env True s' x \<Longrightarrow> serial env True s x"
  by (simp add: serial_def)

lemma serial_append:
  assumes x: "serial env False s (Inr (0, t))" and y: "serial env fin t y"
  shows "serial env fin s y"
  unfolding serial_def
proof (intro allI impI conjI)
  fix r u assume u: "y = Inr (r, u)"
  from x obtain ps where p: "log t = log s @ ps" "\<And>i. i < length ps \<Longrightarrow> answer env (length (log s) + i) = 0 \<and> \<not> is_start (ps ! i)"
    and c: "same_config s t"
    unfolding serial_def by auto
  from y u obtain qs where q: "log u = log t @ qs"
    "\<And>i. i < length qs \<Longrightarrow> (r = 0 \<or> Suc i < length qs \<longrightarrow> answer env (length (log t) + i) = 0) \<and> (is_start (qs ! i) \<longrightarrow> fin \<and> Suc i = length qs)"
    and d: "fin \<or> same_config t u"
    unfolding serial_def by blast
  show "fin \<or> same_config s u" using c d by (auto simp: same_config_def)
  have "(r = 0 \<or> Suc i < length (ps @ qs) \<longrightarrow> answer env (length (log s) + i) = 0) \<and> (is_start ((ps @ qs) ! i) \<longrightarrow> fin \<and> Suc i = length (ps @ qs))"
    if "i < length (ps @ qs)" for i
  proof (cases "i < length ps")
    case False
    then obtain k where "i = length ps + k" by (metis le_Suc_ex not_less)
    then show ?thesis using q(2) [of k] that p(1) by (simp add: add.assoc)
  qed (use p(2) [of i] in \<open>simp add: nth_append\<close>)
  then show "\<exists>qs. log u = log s @ qs \<and> (\<forall>i<length qs. (r = 0 \<or> Suc i < length qs \<longrightarrow> answer env (length (log s) + i) = 0) \<and> (is_start (qs ! i) \<longrightarrow> fin \<and> Suc i = length qs))"
    using p(1) q(1) by (intro exI [of _ "ps @ qs"]) simp
qed

lemma serial_fail: "serial env False s (Inr (r, t)) \<Longrightarrow> r \<noteq> 0 \<Longrightarrow> r' \<noteq> 0 \<Longrightarrow> serial env fin s (Inr (r', t))"
  unfolding serial_def by auto

lemma serial_pass [serial_intros]:
  assumes "serial env False s x" "\<And>t. serial env fin t (f t)"
  shows "serial env fin s (pass x f)" "serial env fin s (check x f)"
  using assms serial_append serial_fail [of env s _ _ _ fin]
  by (auto simp: pass_def check_def split: sum.split prod.split)

lemma serial_send_all [serial_intros]: "list_all (\<lambda>q. \<not> is_start q) qs \<Longrightarrow> serial env fin s (send_all env qs s)"
proof (induction qs arbitrary: s)
  case (Cons q qs)
  then show ?case by (auto intro!: serial_intros)
qed (simp add: serial_Inr)

lemma serial_upload [serial_intros]: "serial env fin s (rwnx_plat_bin_fw_upload_android env addr name s)"
proof (cases "fw_file env (aicbsp_firmware_list s) (cpmode s) name")
  case (Some fl)
  have "list_all (\<lambda>q. \<not> is_start q) (upload_reqs addr fl)"
    by (simp add: upload_reqs_def list_all_iff is_start_def)
  then show ?thesis
    using Some upload_is_send_all [OF Some]
    by (cases "fl = []") (simp_all add: rwnx_plat_bin_fw_upload_android_def serial_Inr serial_send_all)
qed (simp add: rwnx_plat_bin_fw_upload_android_def serial_Inr)

lemma serial_upload_bt [serial_intros]: "serial env fin s (upload_bt env i s)"
  unfolding upload_bt_def by (intro serial_intros refl)

lemma serial_trap_data [serial_intros]: "serial env fin s (aicbt_patch_trap_data_load env head s)"
proof -
  have "serial env fin s (check (send env (Mem_write a v) s) (\<lambda>s. check (send env (Mem_write b w) s) (upload_bt env i)))" for a v b w i
    by (intro serial_pass serial_send serial_upload_bt) (simp_all add: is_start_def)
  then show ?thesis
    unfolding aicbt_patch_trap_data_load_def by (simp add: serial_upload_bt serial_Inr split: list.split sum.split)
qed

lemma serial_pairs [serial_intros]: "serial env fin s (send_pairs env n d s)"
  by (induction env n d s rule: send_pairs.induct) (auto intro!: serial_intros simp: is_start_def)

lemma serial_entries [serial_intros]: "serial env fin s (load_entries env es s)"
  by (induction es arbitrary: s) (auto intro!: serial_intros split: sum.split)

lemma serial_table_load [serial_intros]: "serial env fin s (aicbt_patch_table_load env head s)"
  unfolding aicbt_patch_table_load_def by (simp add: serial_Inr serial_entries)

lemma serial_bt_init: "serial env fin s (aicbt_init env s)"
proof -
  have "serial env fin s (check (aicbt_patch_trap_data_load env head s) (\<lambda>s. check (aicbt_patch_table_load env head s) (\<lambda>s. Inr (0, s))))" for head
    by (intro serial_pass serial_trap_data serial_table_load serial_Inr)
  then show ?thesis
    unfolding aicbt_init_def by (simp add: serial_Inr split: sum.split list.split)
qed

lemma serial_mem_read [serial_intros]: "(\<And>v t. serial env fin t (f v t)) \<Longrightarrow> serial env fin s (rwnx_send_dbg_mem_read_req env a s f)"
  unfolding rwnx_send_dbg_mem_read_req_def by (intro serial_intros) (simp_all add: is_start_def)

lemma plain_requests [simp]: "\<not> is_start (Mem_write a v)" "\<not> is_start (Mem_read a)" "\<not> is_start (Mem_mask_write a m v)"
  by (simp_all add: is_start_def)

lemma pair_writes_no_start [simp]: "list_all (\<lambda>q. \<not> is_start q) (pair_writes base a t)"
  by (induction base a t rule: pair_writes.induct) simp_all

lemma serial_patch_8800d80 [serial_intros]: "serial env fin s (aicwifi_patch_config_8800d80 env s)"
  unfolding aicwifi_patch_config_8800d80_def Let_def by (intro serial_intros) simp

lemma serial_patch_config [serial_intros]: "\<not> adap_test env \<Longrightarrow> serial env fin s (aicwifi_patch_config env s)"
  unfolding aicwifi_patch_config_def Let_def by (intro serial_intros) (simp_all add: serial_Inr)

lemma serial_system_config [serial_intros]: "serial env fin s (aicbsp_system_config env s)" "serial env fin s (aicwifi_sys_config env s)"
  unfolding aicbsp_system_config_def aicwifi_sys_config_def
  by (rule serial_send_all; simp add: list_all_iff split: prod.split)+

lemma serial_start: "serial env True s (check (aicwifi_start_from_bootrom env s) (\<lambda>s. Inr (0, s)))"
  unfolding aicwifi_start_from_bootrom_def
  by (auto simp: serial_def check_def send_def)

lemma serial_wifi_8800d80: "serial env True s (aicwifi_init_8800d80 env s)"
  unfolding aicwifi_init_8800d80_def by (intro serial_pass serial_upload serial_patch_8800d80 serial_start)

lemma serial_wifi_8801: "\<not> adap_test env \<Longrightarrow> serial env True s (aicwifi_init_8801 env s)"
  unfolding aicwifi_init_8801_def by (intro serial_pass serial_upload serial_patch_config serial_system_config serial_start)

lemma serial_bt_then_wifi:
  assumes "\<And>t. serial env True t (f env t)"
  shows "serial env True s (bt_then_wifi env f s)"
  using assms unfolding bt_then_wifi_def by (simp add: serial_pass serial_bt_init)

lemma serial_read_first:
  assumes "\<And>t. log t = log s @ [Mem_read a] \<Longrightarrow> serial env True t (f t)"
  shows "serial env True s (case send env (Mem_read a) s of Inl f \<Rightarrow> Inl f | Inr (r, t) \<Rightarrow> if r \<noteq> 0 then Inr (-1, t) else f t)"
proof (cases "answer env (length (log s)) = 0")
  case True
  have "serial env False s (Inr (0, s\<lparr>log := log s @ [Mem_read a]\<rparr>))"
    using True by (auto simp: serial_def same_config_def is_start_def)
  then show ?thesis
    using True assms serial_append by (auto simp: send_def)
qed (auto simp: send_def serial_def is_start_def)

lemma serial_driver_8800d80: "serial env True s (aicbsp_driver_fw_init_8800d80 env s)"
  unfolding aicbsp_driver_fw_init_8800d80_def Let_def
  by (rule serial_read_first) (auto intro: serial_log [OF _ serial_bt_then_wifi [OF serial_wifi_8800d80]])

lemma serial_driver_8801:
  assumes "\<not> adap_test env"
  shows "serial env True s (aicbsp_driver_fw_init_8801 env s)"
  unfolding aicbsp_driver_fw_init_8801_def Let_def
proof (rule serial_read_first)
  fix t let ?rev = "drop_bit 16 (mem_word env (length (log s))) AND 0xFF"
  have "serial env True u (check (aicbsp_system_config env u) (bt_then_wifi env aicwifi_init_8801))" for u
    by (intro serial_pass serial_system_config serial_bt_then_wifi serial_wifi_8801 assms)
  then have step: "serial env True t (check (aicbsp_system_config env u) (bt_then_wifi env aicwifi_init_8801))" if "log u = log t" for u
    using that by (blast intro: serial_log)
  have "serial env True t (Inr (r, u))" if "log u = log t" for r u
    using serial_log [OF that serial_Inr] .
  with step show "serial env True t (if ?rev \<noteq> CHIP_REV_U02 \<and> ?rev \<noteq> CHIP_REV_U03 then Inr (-1, t\<lparr>chip_rev := ?rev\<rparr>)
      else check (aicbsp_system_config env (if ?rev \<noteq> CHIP_REV_U02 then t\<lparr>chip_rev := ?rev, aicbsp_firmware_list := Fw_u03\<rparr> else t\<lparr>chip_rev := ?rev\<rparr>))
        (bt_then_wifi env aicwifi_init_8801))"
    by simp
qed

subsection \<open>A successful bring-up\<close>

lemma send_all_success:
  assumes "send_all env qs s = Inr (0, t)"
  shows "t = s\<lparr>log := log s @ qs\<rparr>"
  using assms first_refused_Some [of env "length (log s)" "length qs", THEN iffD1]
  by (auto simp: send_all_sent sent_def split: option.splits)

lemma check_success: "check x f = Inr (0, t) \<Longrightarrow> \<exists>u. x = Inr (0, u) \<and> f u = Inr (0, t)"
  by (auto simp: check_def split: sum.splits prod.splits if_splits)

lemma pass_success: "pass x f = Inr (0, t) \<Longrightarrow> \<exists>u. x = Inr (0, u) \<and> f u = Inr (0, t)"
  by (auto simp: pass_def split: sum.splits prod.splits if_splits)

lemma plain_upload:
  assumes "rwnx_plat_bin_fw_upload_android env addr name s = Inr (0, t)"
  shows "\<exists>fl. fw_file env (aicbsp_firmware_list s) (cpmode s) name = Some fl \<and> t = s\<lparr>log := log s @ upload_reqs addr fl\<rparr>"
proof (cases "fw_file env (aicbsp_firmware_list s) (cpmode s) name")
  case (Some fl)
  then have "fl \<noteq> []" using assms by (auto simp: rwnx_plat_bin_fw_upload_android_def)
  then show ?thesis
    using assms send_all_success upload_is_send_all [OF Some] Some by auto
qed (use assms in \<open>simp add: rwnx_plat_bin_fw_upload_android_def\<close>)

text \<open>The requests that write neither images nor start anything.\<close>

definition config_req :: "req \<Rightarrow> bool" where
  "config_req q = (case q of Mem_write _ _ \<Rightarrow> True | Mem_read _ \<Rightarrow> True | Mem_mask_write _ _ _ \<Rightarrow> True | _ \<Rightarrow> False)"

lemma config_req_simps [simp]:
  "config_req (Mem_write a v)" "config_req (Mem_read a)" "config_req (Mem_mask_write a m v)" "\<not> config_req (Start_app a v)" "\<not> config_req (Mem_block_write a bs)"
  by (simp_all add: config_req_def)

lemma config_pairs [simp]: "list_all config_req (pair_writes base a t)"
  by (induction base a t rule: pair_writes.induct) simp_all

lemma send_ignoring_log [simp]: "send_ignoring env qs s = s\<lparr>log := log s @ qs\<rparr>"
  by (induction qs arbitrary: s) simp_all

lemma mem_read_success:
  assumes "rwnx_send_dbg_mem_read_req env a s f = Inr (0, t)"
  shows "f (mem_word env (length (log s))) (s\<lparr>log := log s @ [Mem_read a]\<rparr>) = Inr (0, t)"
  using assms by (auto simp: rwnx_send_dbg_mem_read_req_def send_def split: if_splits)

lemma patch_config_success:
  assumes "aicwifi_patch_config_8800d80 env s = Inr (0, t) \<or> aicwifi_patch_config env s = Inr (0, t) \<or> aicwifi_sys_config env s = Inr (0, t)"
  shows "\<exists>cfg. log t = log s @ cfg \<and> list_all config_req cfg"
  using assms
proof (elim disjE)
  assume "aicwifi_patch_config_8800d80 env s = Inr (0, t)"
  then show ?thesis
    unfolding aicwifi_patch_config_8800d80_def Let_def by (auto dest!: mem_read_success send_all_success simp del: send_all.simps)
next
  assume "aicwifi_patch_config env s = Inr (0, t)"
  then show ?thesis
    unfolding aicwifi_patch_config_def Let_def by (auto dest!: mem_read_success pass_success send_all_success simp del: send_all.simps split: if_splits)
next
  assume "aicwifi_sys_config env s = Inr (0, t)"
  then show ?thesis
    unfolding aicwifi_sys_config_def by (auto dest!: send_all_success simp del: send_all.simps)
qed

definition loaded_and_started :: "boot_env \<Rightarrow> bsp \<Rightarrow> bsp \<Rightarrow> bool" where
  "loaded_and_started env s t \<longleftrightarrow> (\<exists>fl cfg. fw_file env (aicbsp_firmware_list s) (cpmode s) Wl_fw = Some fl \<and> list_all config_req cfg \<and>
     log t = log s @ upload_reqs RAM_FMAC_FW_ADDR fl @ cfg @ [Start_app RAM_FMAC_FW_ADDR HOST_START_APP_AUTO])"

lemma start_success:
  "check (aicwifi_start_from_bootrom env s) (\<lambda>s. Inr (0, s)) = Inr (0, t) \<Longrightarrow> log t = log s @ [Start_app RAM_FMAC_FW_ADDR HOST_START_APP_AUTO]"
  by (auto simp: aicwifi_start_from_bootrom_def check_def send_def split: if_splits)

lemma wifi_8800d80_success:
  assumes "aicwifi_init_8800d80 env s = Inr (0, t)"
  shows "loaded_and_started env s t"
proof -
  obtain u v where u: "rwnx_plat_bin_fw_upload_android env RAM_FMAC_FW_ADDR Wl_fw s = Inr (0, u)" "aicwifi_patch_config_8800d80 env u = Inr (0, v)"
    "check (aicwifi_start_from_bootrom env v) (\<lambda>s. Inr (0, s)) = Inr (0, t)"
    using assms unfolding aicwifi_init_8800d80_def by (blast dest: check_success)
  show ?thesis
    using plain_upload [OF u(1)] patch_config_success [of env u v] u(2) start_success [OF u(3)] by (fastforce simp: loaded_and_started_def)
qed

lemma wifi_8801_success:
  assumes "aicwifi_init_8801 env s = Inr (0, t)"
  shows "loaded_and_started env s t"
proof -
  obtain u v w where u: "rwnx_plat_bin_fw_upload_android env RAM_FMAC_FW_ADDR Wl_fw s = Inr (0, u)" "aicwifi_patch_config env u = Inr (0, v)"
    "aicwifi_sys_config env v = Inr (0, w)" "check (aicwifi_start_from_bootrom env w) (\<lambda>s. Inr (0, s)) = Inr (0, t)"
    using assms unfolding aicwifi_init_8801_def by (blast dest: check_success)
  obtain c d where cd: "log v = log u @ c" "list_all config_req c" "log w = log v @ d" "list_all config_req d"
    using patch_config_success [of env u v] patch_config_success [of env v w] u(2, 3) by blast
  obtain fl where fl: "fw_file env (aicbsp_firmware_list s) (cpmode s) Wl_fw = Some fl" "log u = log s @ upload_reqs RAM_FMAC_FW_ADDR fl"
    using plain_upload [OF u(1)] by auto
  have "list_all config_req (c @ d)" "log t = log s @ upload_reqs RAM_FMAC_FW_ADDR fl @ (c @ d) @ [Start_app RAM_FMAC_FW_ADDR HOST_START_APP_AUTO]"
    using start_success [OF u(4)] cd fl by simp_all
  then show ?thesis
    using fl(1) unfolding loaded_and_started_def by blast
qed

lemma bt_then_wifi_success:
  assumes "bt_then_wifi env f s = Inr (0, t)" and wifi: "\<And>u. f env u = Inr (0, t) \<Longrightarrow> loaded_and_started env u t"
  shows "\<exists>u bt. log u = log s @ bt \<and> same_config s u \<and> loaded_and_started env u t"
proof (cases "cpmode s = 4")
  case True
  then show ?thesis using assms by (intro exI [of _ s] exI [of _ "[]"]) (simp add: bt_then_wifi_def same_config_def)
next
  case False
  then obtain u where u: "aicbt_init env s = Inr (0, u)" "f env u = Inr (0, t)"
    using assms(1) check_success unfolding bt_then_wifi_def by (metis (full_types))
  then have "\<exists>bt. log u = log s @ bt \<and> same_config s u"
    using serial_bt_init [of env False s] unfolding serial_def by blast
  then show ?thesis using wifi [OF u(2)] by blast
qed

text \<open>The revision of the chip, from the answer to the first request.\<close>

definition read_rev :: "boot_env \<Rightarrow> bsp \<Rightarrow> u32" where
  "read_rev env s = drop_bit 16 (mem_word env (length (log s))) AND 0xFF"

definition fw_8800d80 :: "u32 \<Rightarrow> fw_list \<Rightarrow> fw_list" where
  "fw_8800d80 r l = (if r = CHIP_REV_U01 then Fw_8800d80_u01 else if r = CHIP_REV_U02 \<or> r = CHIP_REV_U03 then Fw_8800d80_u02 else l)"

definition fw_8801 :: "u32 \<Rightarrow> fw_list \<Rightarrow> fw_list" where
  "fw_8801 r l = (if r = CHIP_REV_U03 then Fw_u03 else l)"

definition brought_up :: "boot_env \<Rightarrow> bsp \<Rightarrow> bsp \<Rightarrow> fw_list \<Rightarrow> bool" where
  "brought_up env s t l \<longleftrightarrow> (\<exists>bt fl cfg. fw_file env l (cpmode s) Wl_fw = Some fl \<and> list_all config_req cfg \<and>
     log t = log s @ Mem_read 0x40500000 # bt @ upload_reqs RAM_FMAC_FW_ADDR fl @ cfg @ [Start_app RAM_FMAC_FW_ADDR HOST_START_APP_AUTO])"

lemma brought_upI:
  assumes "loaded_and_started env u t" "log u = log s @ Mem_read 0x40500000 # bt" "aicbsp_firmware_list u = l" "cpmode u = cpmode s"
  shows "brought_up env s t l"
  using assms unfolding loaded_and_started_def brought_up_def by (metis append_Cons append_assoc)

lemma driver_8800d80_success:
  assumes "aicbsp_driver_fw_init_8800d80 env s = Inr (0, t)"
  shows "brought_up env s t (fw_8800d80 (read_rev env s) (aicbsp_firmware_list s))"
proof -
  let ?rev = "read_rev env s"
  define s' where "s' = s\<lparr>log := log s @ [Mem_read 0x40500000], chip_rev := ?rev, aicbsp_firmware_list := fw_8800d80 ?rev (aicbsp_firmware_list s)\<rparr>"
  have "bt_then_wifi env aicwifi_init_8800d80 s' = Inr (0, t)"
    using assms unfolding aicbsp_driver_fw_init_8800d80_def s'_def
    by (auto simp: send_def Let_def read_rev_def fw_8800d80_def split: if_splits)
  then obtain u bt where "log u = log s' @ bt" "same_config s' u" "loaded_and_started env u t"
    using bt_then_wifi_success [OF _ wifi_8800d80_success] by blast
  then show ?thesis by (intro brought_upI [of env u t s bt]) (simp_all add: s'_def same_config_def)
qed

lemma driver_8801_success:
  assumes "aicbsp_driver_fw_init_8801 env s = Inr (0, t)"
  shows "brought_up env s t (fw_8801 (read_rev env s) (aicbsp_firmware_list s))"
proof -
  let ?rev = "read_rev env s"
  define s' where "s' = s\<lparr>log := log s @ [Mem_read 0x40500000], chip_rev := ?rev, aicbsp_firmware_list := fw_8801 ?rev (aicbsp_firmware_list s)\<rparr>"
  have "check (aicbsp_system_config env s') (bt_then_wifi env aicwifi_init_8801) = Inr (0, t)"
    using assms unfolding aicbsp_driver_fw_init_8801_def s'_def
    by (auto simp: send_def Let_def read_rev_def fw_8801_def CHIP_REV_U02_def CHIP_REV_U03_def split: if_splits)
  then obtain v where v: "aicbsp_system_config env s' = Inr (0, v)" "bt_then_wifi env aicwifi_init_8801 v = Inr (0, t)"
    by (blast dest: check_success)
  obtain cfg where c: "v = s'\<lparr>log := log s' @ cfg\<rparr>"
    using send_all_success [OF v(1) [unfolded aicbsp_system_config_def]] by blast
  obtain u bt where "log u = log v @ bt" "same_config v u" "loaded_and_started env u t"
    using bt_then_wifi_success [OF v(2) wifi_8801_success] by blast
  then show ?thesis by (intro brought_upI [of env u t s "cfg @ bt"]) (simp_all add: s'_def c same_config_def)
qed

text \<open>C9. The wireless firmware is started last, and only when every request before it was answered: a bring-up that
  returns (whatever its result, and with adaptivity testing off on the AIC8801) has had every request but
  the last accepted, and no request follows a start; when the result is 0 the last was accepted too, and the
  requests end with the whole image for the revision of the chip, configuration, and the start.\<close>

theorem firmware_started_last:
  assumes "aicbsp_driver_fw_init_8800d80 env s = Inr (r, t) \<and> l = fw_8800d80 (read_rev env s) (aicbsp_firmware_list s) \<or>
    \<not> adap_test env \<and> aicbsp_driver_fw_init_8801 env s = Inr (r, t) \<and> l = fw_8801 (read_rev env s) (aicbsp_firmware_list s)"
  shows "(\<exists>qs. log t = log s @ qs \<and> (\<forall>i<length qs.
      (r = 0 \<or> Suc i < length qs \<longrightarrow> answer env (length (log s) + i) = 0) \<and> (is_start (qs ! i) \<longrightarrow> Suc i = length qs))) \<and>
    (r = 0 \<longrightarrow> brought_up env s t l)"
proof
  from assms show "r = 0 \<longrightarrow> brought_up env s t l"
    using driver_8800d80_success driver_8801_success by auto
  from assms have "serial env True s (Inr (r, t))"
    using serial_driver_8800d80 [of env s] serial_driver_8801 [of env s] by auto
  then show "\<exists>qs. log t = log s @ qs \<and> (\<forall>i<length qs.
      (r = 0 \<or> Suc i < length qs \<longrightarrow> answer env (length (log s) + i) = 0) \<and> (is_start (qs ! i) \<longrightarrow> Suc i = length qs))"
    unfolding serial_def by simp
qed

definition demo_info :: aicbt_patch_table where
  "demo_info = \<lparr>pt_name = replicate 16 0x69, pt_type = 0, pt_data = [5, 6], pt_len = 1\<rparr>"

definition demo_full :: boot_env where
  "demo_full = \<lparr>answer = (\<lambda>_. 0), mem_word = (\<lambda>_. 0x00010000),
     fw_file = (\<lambda>_ _ name. Some (case name of Bt_table \<Rightarrow> AICBT_PT_TAG @ [0, 0, 0] @ enc_entry demo_info | Bt_adid \<Rightarrow> [1] | Bt_patch \<Rightarrow> [2] | Wl_fw \<Rightarrow> [3, 4])), adap_test = True\<rparr>"


definition demo_brought_up :: bsp where
  "demo_brought_up = demo_bsp\<lparr>log := [Mem_read 0x40500000, Mem_block_write 6 [1], Mem_block_write 0x0020B2B0 [2], Mem_write 5 6,
     Mem_block_write 0x00120000 [3, 4], Mem_read 0x00120198, Mem_read 0x001201A0, Mem_write 0x10000 0x48435450, Mem_write 0x10008 0x50544348,
     Mem_write 0x10004 0x0016F800, Mem_write 0x1000C 4, Mem_write 0x0016F800 0x100B4, Mem_write 0x0016F804 0xF3010000, Mem_write 0x0016F808 0x1000C,
     Mem_write 0x0016F80C 0x320A, Mem_write 0x0016F810 0x1009C, Mem_write 0x0016F814 0, Mem_write 0x0016F818 0x10168, Mem_write 0x0016F81C 0x10000,
     Mem_write 0x10030 0, Mem_write 0x10034 0, Mem_write 0x10038 0, Mem_write 0x1003C 0, Start_app 0x00120000 1],
   hwinfo_r := 0, chip_rev := 1, aicbsp_firmware_list := Fw_8800d80_u01\<rparr>"

definition demo_before :: bsp where
  "demo_before = demo_bsp\<lparr>log := [Mem_read 0x40500000], chip_rev := 1, aicbsp_firmware_list := Fw_8800d80_u01\<rparr>"

definition demo_mid :: bsp where
  "demo_mid = demo_before\<lparr>log := [Mem_read 0x40500000, Mem_block_write 6 [1], Mem_block_write 0x0020B2B0 [2], Mem_write 5 6]\<rparr>"

lemma demo_wifi: "aicwifi_init_8800d80 demo_full demo_mid = Inr (0, demo_brought_up)"
  unfolding aicwifi_init_8800d80_def aicwifi_patch_config_8800d80_def
    rwnx_plat_bin_fw_upload_android_def aicwifi_start_from_bootrom_def rwnx_send_dbg_mem_read_req_def
    demo_mid_def demo_before_def demo_bsp_def demo_brought_up_def
    patch_tbl_8800d80_def adaptivity_patch_tbl_8800d80_def RAM_FMAC_FW_ADDR_def HOST_START_APP_AUTO_def
  by (simp add: demo_full_def send_def pass_def check_def upload_loop.simps [of _ _ "[_, _]"])

lemma demo_bt: "aicbt_init demo_full demo_before = Inr (0, demo_mid)"
  by code_simp

theorem firmware_started_last_witness:
  "aicbsp_driver_fw_init_8800d80 demo_full demo_bsp = Inr (0, demo_brought_up) \<and>
   brought_up demo_full demo_bsp demo_brought_up Fw_8800d80_u01"
proof -
  have v: "drop_bit 16 (0x10000 :: u32) AND 0xFF = 1" by simp
  have "bt_then_wifi demo_full aicwifi_init_8800d80 demo_before = Inr (0, demo_brought_up)"
    by (simp add: bt_then_wifi_def demo_bt demo_wifi) (simp add: demo_before_def demo_bsp_def)
  then have r: "aicbsp_driver_fw_init_8800d80 demo_full demo_bsp = Inr (0, demo_brought_up)"
    by (simp add: aicbsp_driver_fw_init_8800d80_def send_def demo_before_def Let_def) (simp add: demo_full_def demo_bsp_def CHIP_REV_U01_def)
  have "fw_8800d80 (read_rev demo_full demo_bsp) (aicbsp_firmware_list demo_bsp) = Fw_8800d80_u01"
    by (simp add: fw_8800d80_def read_rev_def demo_full_def CHIP_REV_U01_def)
  with r show ?thesis
    using firmware_started_last [of demo_full demo_bsp 0 demo_brought_up Fw_8800d80_u01] by simp
qed

text \<open>On the AIC8801 the errors of the adaptivity settings are lost: whatever the chip answers to these
  writes, the step reports success.\<close>

theorem adaptivity_errors_ignored:
  assumes "adap_test env" "\<forall>i<3. answer env (length (log s) + i) = 0"
  shows "aicwifi_patch_config env s = Inr (0, s\<lparr>log := log s @
      [Mem_read (RAM_FMAC_FW_ADDR + 0x0180), Mem_write (if cpmode s = 1 then 0x1e5304 else 0x1e5318) 0x1e6000, Mem_write (if cpmode s = 1 then 0x1e5308 else 0x1e531c) 6] @
      pair_writes (mem_word env (length (log s))) 0x1e6000 adaptivity_patch_tbl\<rparr>)"
  using assms(1) assms(2) [rule_format, of 0] assms(2) [rule_format, of 1] assms(2) [rule_format, of 2]
  by (simp add: aicwifi_patch_config_def rwnx_send_dbg_mem_read_req_def send_def patch_tbl_def adaptivity_patch_tbl_def)

theorem adaptivity_errors_ignored_witness:
  "snd (projr (aicwifi_patch_config (demo_full\<lparr>answer := \<lambda>i. if i < 3 then 0 else -5\<rparr>) demo_bsp)) =
     demo_bsp\<lparr>log := [Mem_read 0x00120180, Mem_write 0x1e5318 0x1e6000, Mem_write 0x1e531c 6, Mem_write 0x1e6000 0x10004, Mem_write 0x1e6004 0x320A,
       Mem_write 0x1e6008 0x10094, Mem_write 0x1e600c 0, Mem_write 0x1e6010 0x100F8, Mem_write 0x1e6014 0x10138]\<rparr> \<and>
   fst (projr (aicwifi_patch_config (demo_full\<lparr>answer := \<lambda>i. if i < 3 then 0 else -5\<rparr>) demo_bsp)) = 0"
proof -
  let ?e = "demo_full\<lparr>answer := \<lambda>i. if i < 3 then 0 else -5\<rparr>"
  have "adap_test ?e" "\<forall>i<3. answer ?e (length (log demo_bsp) + i) = 0"
    by (simp_all add: demo_full_def demo_bsp_def)
  from adaptivity_errors_ignored [OF this] show ?thesis
    by (simp add: demo_full_def demo_bsp_def RAM_FMAC_FW_ADDR_def adaptivity_patch_tbl_def)
qed

end
