(* ===== verification/Vif_Mgmt.thy ===== *)
theory Vif_Mgmt
  imports Radar_Chan
begin

text \<open>
  The interfaces of the driver (\<^verbatim>\<open>rwnx_main.c\<close>): adding, removing, opening, closing and changing them, the
  P2P device and its timer, scans and remain-on-channel as far as they bring the P2P device up.  An
  interface structure is its position in \<open>ifaces\<close>; it stays there when it is freed, and a use after that
  is the result \<open>None\<close>, as is an index outside a table.  What the firmware answers to a
  request is an argument that may depend on the whole state; requests and calls to cfg80211 are logged.
\<close>

unbundle bit_operations_syntax

subsection \<open>State\<close>

definition NX_VIRT_DEV_MAX_vif :: nat where "NX_VIRT_DEV_MAX_vif = 4"
definition NX_REMOTE_STA_MAX_vif :: nat where "NX_REMOTE_STA_MAX_vif = 32"
definition RWNX_INVALID_VIF_fw :: u8 where "RWNX_INVALID_VIF_fw = 0xFF"
definition P2P_ALIVE_TIME_COUNT :: nat where "P2P_ALIVE_TIME_COUNT = 200"

datatype rwnx_drv_connect_status =
    RWNX_DRV_STATUS_DISCONNECTED | RWNX_DRV_STATUS_DISCONNECTING | RWNX_DRV_STATUS_CONNECTING | RWNX_DRV_STATUS_CONNECTED

datatype nl80211_auth_type =
    NL80211_AUTHTYPE_OPEN_SYSTEM | NL80211_AUTHTYPE_SHARED_KEY | NL80211_AUTHTYPE_FT | NL80211_AUTHTYPE_NETWORK_EAP
  | NL80211_AUTHTYPE_SAE | NL80211_AUTHTYPE_AUTOMATIC

definition EPERM :: int where "EPERM = 1"
definition EIO :: int where "EIO = 5"
definition ENOMEM_vif :: int where "ENOMEM_vif = 12"
definition EBUSY_vif :: int where "EBUSY_vif = 16"

text \<open>
  Of \<open>struct rwnx_vif\<close> and its \<open>wdev\<close>; \<open>has_ndev\<close>: the pointer \<open>ndev\<close> is set, \<open>carrier\<close>: \<open>netif_carrier_ok\<close>.
  The fields of the union for stations and access points are kept apart, as the code uses those of
  the current type and initialises them when the type changes.  \<open>ch_index\<close> is in \<open>vif_ch_index\<close> of \<open>chan\<close> below.
\<close>

record drv_vif =
  iftype :: nl80211_iftype
  drv_vif_index :: nat
  vif_index :: u8
  up :: bool
  use_4addr :: bool
  is_p2p_vif :: bool
  has_ndev :: bool
  freed :: bool
  addr :: "u8 list"
  carrier :: bool
  drv_conn_state :: rwnx_drv_connect_status
  sta_ap :: "nat option"
  external_auth :: bool
  ap_stas :: "nat list"
  bcmc_index :: nat
  vlan_master :: "nat option"
  sta_4a :: "nat option"
  tdls_sta :: "nat option"
  group_cipher_type :: u32
  paired_cipher_type :: u32
  wep_enabled :: bool
  wep_auth_err :: bool
  last_auth_type :: nl80211_auth_type
  vif_keys :: "u8 list"
  key_has_add :: bool

record drv_sta =
  s_valid :: bool
  s_aid :: u16
  s_idx :: u8
  s_ch_idx :: u8
  s_vif_idx :: u8
  s_vlan_idx :: u8
  s_qos :: bool
  s_mac :: "u8 list"
  s_ps_active :: bool
  s_key :: u8

text \<open>A scan request of cfg80211, or one the driver has allocated for a scheduled scan, with its interface.\<close>

datatype scan_req = From_cfg (req_vif: nat) | Allocated (req_vif: nat)

datatype vif_out =
    Fw_start
  | Fw_mem_mask_write
  | Fw_coex bool bool
  | Fw_add_if nat
  | Fw_remove_if u8
  | Fw_config_monitor
  | Fw_scan_start u8
  | Fw_scan_ie
  | Fw_scan_cancel
  | Fw_roc u8
  | Fw_sm_connect u8 nl80211_auth_type bool
  | Fw_sm_disconnect u8
  | Fw_sta_add u8
  | Fw_sta_del u8
  | Fw_apm_start u8
  | Fw_apm_stop u8
  | Fw_reset
  | Fw_me_config
  | Fw_me_chan_config
  | Cfg_scan_done scan_req bool
  | Cfg_sched_scan_results
  | Kfree_request scan_req
  | Cfg_disconnected nat
  | Cfg_connect_result nat int
  | Cfg_roamed nat
  | Cfg_external_auth nat
  | Fw_external_auth_rsp u8 u16
  | Fw_key_add u8 u8 u8 u8 "u8 list"
  | Fw_key_del u8
  | Fw_control_port u8 bool
  | Cfg_new_sta nat "u8 list"
  | Cfg_del_sta nat "u8 list"
  | Txq_sta_init nat
  | Txq_sta_deinit nat
  | Txq_vif_init nat
  | Txq_vif_deinit nat
  | Txq_sta_switch_vif nat nat nat
  | Txq_unk_init nat
  | Txq_unk_deinit nat
  | Txq_tdls_init nat
  | Txq_tdls_deinit nat
  | Reord_deinit "u8 list"
  | Workqueue_create nat
  | Workqueue_destroy nat
  | Queues_start nat
  | Queues_stop nat

text \<open>\<open>chan\<close> holds the channel contexts and the radar detection, with an entry of \<open>vif_ch_index\<close> for each interface.\<close>

record vif_hw =
  ifaces :: "drv_vif list"
  vifs :: "nat list"
  vif_table :: "nat option list"
  avail_idx_map :: u8
  vif_started :: u8
  dev_started :: bool
  monitor_vif :: u8
  is_p2p_alive :: bool
  is_p2p_connected :: bool
  p2p_timer :: bool
  p2p_alive_timer_count :: nat
  p2p_dev_vif :: "nat option"
  scan_request :: "scan_req option"
  scanning :: bool
  is_sched_scan :: bool
  roc_elem :: "nat option"
  adding_sta :: bool
  key_flag :: bool
  sta_table :: "drv_sta list"
  perm_addr :: "u8 list"
  chan :: radar_hw
  vout :: "vif_out list"

record fw_reply =
  fw_error :: int
  fw_status :: u8
  fw_inst :: u8
  fw_ch :: u8

record vif_cfg =
  dc_chip :: bool
  cfg_8801 :: bool
  testmode :: u32
  bus_running :: bool
  fw_answer :: "vif_hw \<Rightarrow> fw_reply"

type_synonym vif_res = "(int \<times> vif_hw) option"

abbreviation vif_at :: "vif_hw \<Rightarrow> nat \<Rightarrow> drv_vif" where "vif_at hw v \<equiv> ifaces hw ! v"

definition upd_vif :: "nat \<Rightarrow> (drv_vif \<Rightarrow> drv_vif) \<Rightarrow> vif_hw \<Rightarrow> vif_hw" where
  "upd_vif v f hw = hw\<lparr>ifaces := (ifaces hw)[v := f (vif_at hw v)]\<rparr>"

definition vemit :: "vif_out list \<Rightarrow> vif_hw \<Rightarrow> vif_hw" where "vemit ms hw = hw\<lparr>vout := vout hw @ ms\<rparr>"

definition alive :: "nat \<Rightarrow> vif_hw \<Rightarrow> bool" where "alive v hw \<longleftrightarrow> v < length (ifaces hw) \<and> \<not> freed (vif_at hw v)"

text \<open>The request, when it is for the interface \<open>v\<close>, and its end.\<close>

definition scans :: "nat \<Rightarrow> vif_hw \<Rightarrow> bool" where
  "scans v hw \<longleftrightarrow> (case scan_request hw of None \<Rightarrow> False | Some r \<Rightarrow> req_vif r = v)"

definition abort_scan :: "vif_hw \<Rightarrow> vif_hw" where
  "abort_scan hw = (case scan_request hw of None \<Rightarrow> hw | Some r \<Rightarrow> vemit [Cfg_scan_done r True] hw)"

text \<open>The types that join a network, and those that run one.\<close>

definition sta_like :: "nl80211_iftype \<Rightarrow> bool" where "sta_like t \<longleftrightarrow> t = NL80211_IFTYPE_STATION \<or> t = NL80211_IFTYPE_P2P_CLIENT"
definition ap_like :: "nl80211_iftype \<Rightarrow> bool" where "ap_like t \<longleftrightarrow> t = NL80211_IFTYPE_AP \<or> t = NL80211_IFTYPE_P2P_GO"

text \<open>A request that is answered, and the error it returns.\<close>

definition request :: "vif_cfg \<Rightarrow> vif_out \<Rightarrow> vif_hw \<Rightarrow> (fw_reply \<Rightarrow> vif_hw \<Rightarrow> vif_res) \<Rightarrow> vif_res" where
  "request c m hw k = (let hw = vemit [m] hw in k (fw_answer c hw) hw)"

definition request_ok :: "vif_cfg \<Rightarrow> vif_out \<Rightarrow> vif_hw \<Rightarrow> (fw_reply \<Rightarrow> vif_hw \<Rightarrow> vif_res) \<Rightarrow> vif_res" where
  "request_ok c m hw k = request c m hw (\<lambda>r hw. if fw_error r \<noteq> 0 then Some (fw_error r, hw) else k r hw)"

text \<open>The interface exists at the firmware with the index \<open>i\<close>.\<close>

definition attach :: "nat \<Rightarrow> u8 \<Rightarrow> vif_hw \<Rightarrow> vif_hw option" where
  "attach v i hw =
     (if unat i < length (vif_table hw)
      then Some ((upd_vif v (\<lambda>x. x\<lparr>vif_index := i, up := True\<rparr>) hw)\<lparr>vif_started := vif_started hw + 1, vif_table := (vif_table hw)[unat i := Some v]\<rparr>)
      else None)"

text \<open>\<open>rwnx_send_add_if\<close> and what follows it; with \<open>eio\<close> every failure is \<open>-EIO\<close>.\<close>

definition add_if :: "vif_cfg \<Rightarrow> bool \<Rightarrow> nat \<Rightarrow> vif_hw \<Rightarrow> (vif_hw \<Rightarrow> vif_res) \<Rightarrow> vif_res" where
  "add_if c eio v hw k = request c (Fw_add_if v) hw (\<lambda>r hw.
     if fw_error r \<noteq> 0 then Some (if eio then - EIO else fw_error r, hw)
     else if fw_status r \<noteq> 0 then Some (- EIO, hw)
     else case attach v (fw_inst r) hw of None \<Rightarrow> None | Some hw \<Rightarrow> k hw)"

definition start_p2p_timer :: "vif_hw \<Rightarrow> vif_hw" where
  "start_p2p_timer hw = hw\<lparr>p2p_timer := True, p2p_alive_timer_count := 0\<rparr>"

subsection \<open>Adding and removing\<close>

text \<open>The first free index; the map has eight bits, though the loop counts to 36.\<close>

definition free_index :: "nl80211_iftype \<Rightarrow> u8 \<Rightarrow> nat option" where
  "free_index t m = find (\<lambda>i. bit m i)
     (if t = NL80211_IFTYPE_AP_VLAN then [NX_VIRT_DEV_MAX_vif..<NX_VIRT_DEV_MAX_vif + NX_REMOTE_STA_MAX_vif] else [0..<NX_VIRT_DEV_MAX_vif])"

definition vif_addr :: "vif_hw \<Rightarrow> nat \<Rightarrow> u8 list" where
  "vif_addr hw i = (perm_addr hw)[5 := perm_addr hw ! 5 XOR of_nat i]"

definition fresh_vif :: "nl80211_iftype \<Rightarrow> nat \<Rightarrow> u8 list \<Rightarrow> drv_vif" where
  "fresh_vif t i mac = \<lparr>iftype = t, drv_vif_index = i, vif_index = 0, up = False, use_4addr = False,
     is_p2p_vif = (t = NL80211_IFTYPE_P2P_CLIENT \<or> t = NL80211_IFTYPE_P2P_GO), has_ndev = True, freed = False, addr = mac, carrier = True,
     drv_conn_state = RWNX_DRV_STATUS_DISCONNECTED, sta_ap = None, external_auth = False, ap_stas = [], bcmc_index = 0, vlan_master = None, sta_4a = None,
     tdls_sta = None, group_cipher_type = 0, paired_cipher_type = 0, wep_enabled = False, wep_auth_err = False,
     last_auth_type = NL80211_AUTHTYPE_OPEN_SYSTEM, vif_keys = replicate 6 0, key_has_add = False\<rparr>"

definition link_vif :: "drv_vif \<Rightarrow> vif_hw \<Rightarrow> vif_hw" where
  "link_vif x hw = hw\<lparr>ifaces := ifaces hw @ [x], vifs := vifs hw @ [length (ifaces hw)],
     chan := (chan hw)\<lparr>vif_ch_index := vif_ch_index (chan hw) @ [RWNX_CH_NOT_SET]\<rparr>,
     avail_idx_map := avail_idx_map hw AND NOT (push_bit (drv_vif_index x) 1)\<rparr>"

text \<open>\<open>macaddr\<close> and \<open>use_4addr\<close> are those of the parameters, \<open>registered\<close> tells whether allocation and registration succeed.\<close>

definition rwnx_interface_add :: "nl80211_iftype \<Rightarrow> u8 list \<Rightarrow> bool \<Rightarrow> bool \<Rightarrow> vif_hw \<Rightarrow> nat option \<times> vif_hw" where
  "rwnx_interface_add t macaddr fouraddr registered hw =
     (case free_index t (avail_idx_map hw) of
        None \<Rightarrow> (None, hw)
      | Some i \<Rightarrow>
          let m = find (\<lambda>v. iftype (vif_at hw v) = NL80211_IFTYPE_AP \<and> addr (vif_at hw v) \<noteq> macaddr) (vifs hw) in
          if t = NL80211_IFTYPE_AP_VLAN \<and> m = None \<or> \<not> registered then (None, hw)
          else (Some (length (ifaces hw)),
            link_vif ((fresh_vif t i (if t = NL80211_IFTYPE_AP_VLAN then macaddr else vif_addr hw i))
              \<lparr>use_4addr := fouraddr, vlan_master := (if t = NL80211_IFTYPE_AP_VLAN then m else None)\<rparr>) hw))"

definition rwnx_virtual_interface_add :: "nl80211_iftype \<Rightarrow> bool \<Rightarrow> vif_hw \<Rightarrow> nat option \<times> vif_hw" where
  "rwnx_virtual_interface_add t allocated hw =
     (case free_index t (avail_idx_map hw) of
        None \<Rightarrow> (None, hw)
      | Some i \<Rightarrow>
          if \<not> allocated then (None, hw)
          else let v = length (ifaces hw);
                   hw = link_vif ((fresh_vif t i (vif_addr hw i))\<lparr>vif_index := of_nat i, is_p2p_vif := True, has_ndev := False\<rparr>) hw
            in (Some v, if is_p2p_alive hw then hw
                 else hw\<lparr>p2p_timer := False, is_p2p_connected := False, p2p_dev_vif := Some v, p2p_alive_timer_count := 0\<rparr>))"

definition rwnx_cfg80211_add_iface :: "nl80211_iftype \<Rightarrow> u8 list \<Rightarrow> bool \<Rightarrow> bool \<Rightarrow> vif_hw \<Rightarrow> nat option \<times> vif_hw" where
  "rwnx_cfg80211_add_iface t macaddr fouraddr registered hw =
     (if t \<noteq> NL80211_IFTYPE_P2P_DEVICE then rwnx_interface_add t macaddr fouraddr registered hw
      else rwnx_virtual_interface_add t registered hw)"

text \<open>
  The part of \<open>rwnx_cfg80211_del_iface\<close> after \<open>unregister_netdevice\<close> (which calls \<open>rwnx_close\<close> first when
  the interface is open) and \<open>cfg80211_unregister_wdev\<close>.
\<close>

definition rwnx_cfg80211_del_iface :: "nat \<Rightarrow> vif_hw \<Rightarrow> vif_hw" where
  "rwnx_cfg80211_del_iface v hw =
     (upd_vif v (\<lambda>x. x\<lparr>has_ndev := False, freed := True\<rparr>) hw)
       \<lparr>vifs := remove1 v (vifs hw), avail_idx_map := avail_idx_map hw OR push_bit (drv_vif_index (vif_at hw v)) 1\<rparr>"

subsection \<open>Opening and closing\<close>

text \<open>The start of the firmware by the first interface.\<close>

definition open_first :: "vif_cfg \<Rightarrow> nat \<Rightarrow> vif_hw \<Rightarrow> (vif_hw \<Rightarrow> vif_res) \<Rightarrow> vif_res" where
  "open_first c v hw k = request_ok c Fw_start hw (\<lambda>_ hw.
     let go = (\<lambda>hw.
       let hw = (if (cfg_8801 c \<or> testmode c = 0) \<and> sta_like (iftype (vif_at hw v)) then vemit [Fw_coex False True] hw else hw)
       in k (upd_vif v (\<lambda>x. x\<lparr>drv_conn_state := RWNX_DRV_STATUS_DISCONNECTED\<rparr>) (hw\<lparr>dev_started := True\<rparr>)))
     in if dc_chip c then request_ok c Fw_mem_mask_write hw (\<lambda>_. go) else go hw)"

text \<open>An interface for P2P brings the P2P device up.\<close>

definition open_p2p :: "vif_cfg \<Rightarrow> nat \<Rightarrow> vif_hw \<Rightarrow> (vif_hw \<Rightarrow> vif_res) \<Rightarrow> vif_res" where
  "open_p2p c v hw k =
     (if (iftype (vif_at hw v) = NL80211_IFTYPE_P2P_CLIENT \<or> iftype (vif_at hw v) = NL80211_IFTYPE_P2P_GO) \<and> \<not> is_p2p_alive hw
      then let go = (\<lambda>hw. k (start_p2p_timer (hw\<lparr>is_p2p_alive := True\<rparr>))) in
        case p2p_dev_vif hw of
          None \<Rightarrow> go hw
        | Some p \<Rightarrow> if \<not> alive p hw then None else if up (vif_at hw p) then go hw else add_if c True p hw go
      else k hw)"

definition open_vif :: "vif_cfg \<Rightarrow> nat \<Rightarrow> vif_hw \<Rightarrow> (vif_hw \<Rightarrow> vif_res) \<Rightarrow> vif_res" where
  "open_vif c v hw k =
     (if iftype (vif_at hw v) = NL80211_IFTYPE_AP_VLAN
      then case attach v (of_nat (drv_vif_index (vif_at hw v))) (vemit [Queues_stop v] hw) of None \<Rightarrow> None | Some hw \<Rightarrow> k hw
      else add_if c False v hw k)"

definition open_monitor :: "vif_cfg \<Rightarrow> nat \<Rightarrow> vif_hw \<Rightarrow> vif_res" where
  "open_monitor c v hw =
     (if iftype (vif_at hw v) = NL80211_IFTYPE_MONITOR
      then let hw = hw\<lparr>monitor_vif := vif_index (vif_at hw v)\<rparr> in
        if vif_ch_index (chan hw) ! v \<noteq> RWNX_CH_NOT_SET
        then request c Fw_config_monitor hw (\<lambda>r hw. Some (fw_error r, vemit [Queues_start v] hw))
        else Some (0, vemit [Queues_start v] hw)
      else Some (0, vemit [Queues_start v] hw))"

definition rwnx_open :: "vif_cfg \<Rightarrow> nat \<Rightarrow> vif_hw \<Rightarrow> vif_res" where
  "rwnx_open c v hw =
     (let rest = (\<lambda>hw. open_p2p c v hw (\<lambda>hw. open_vif c v hw (open_monitor c v))) in
      if vif_started hw = 0 then open_first c v hw rest
      else rest (if ap_like (iftype (vif_at hw v)) then vemit [Fw_coex True False] hw else hw))"

text \<open>Closing: the connection, the firmware's side, and the driver's tables.\<close>

definition close_carrier :: "nat \<Rightarrow> vif_hw \<Rightarrow> vif_hw" where
  "close_carrier v hw =
     (let x = vif_at hw v in
      if \<not> carrier x then hw
      else if sta_like (iftype x) then upd_vif v (\<lambda>x. x\<lparr>carrier := False\<rparr>) (vemit [Cfg_disconnected v, Queues_stop v] hw)
      else if iftype x = NL80211_IFTYPE_AP_VLAN then upd_vif v (\<lambda>x. x\<lparr>carrier := False\<rparr>) hw
      else hw)"

definition close_fw :: "vif_cfg \<Rightarrow> nat \<Rightarrow> vif_hw \<Rightarrow> vif_hw" where
  "close_fw c v hw =
     (let x = vif_at hw v in
      if bus_running c
      then let hw = (if sta_like (iftype x) \<and> drv_conn_state x = RWNX_DRV_STATUS_CONNECTING
                     then upd_vif v (\<lambda>x. x\<lparr>drv_conn_state := RWNX_DRV_STATUS_DISCONNECTED\<rparr>) (vemit [Fw_sm_disconnect (vif_index x)] hw) else hw)
        in vemit [Fw_remove_if (vif_index x)] hw
      else hw)"

definition detach :: "nat \<Rightarrow> vif_hw \<Rightarrow> vif_hw" where
  "detach v hw = hw\<lparr>vif_table := (vif_table hw)[unat (vif_index (vif_at hw v)) := None],
     chan := rwnx_chanctx_unlink v (chan hw),
     monitor_vif := (if iftype (vif_at hw v) = NL80211_IFTYPE_MONITOR then RWNX_INVALID_VIF_fw else monitor_vif hw),
     vif_started := vif_started hw - 1\<rparr>"

definition close_last :: "vif_cfg \<Rightarrow> nat \<Rightarrow> vif_hw \<Rightarrow> vif_hw" where
  "close_last c v hw =
     (if vif_started hw = 0
      then (if bus_running c
            then vemit ((if testmode c = 0 then [Fw_coex True False] else []) @ [Fw_reset] @ (if testmode c = 0 then [Fw_me_config, Fw_me_chan_config] else [])) hw
            else hw)\<lparr>dev_started := False\<rparr>
      else if ap_like (iftype (vif_at hw v)) then vemit [Fw_coex False True] hw else hw)"

definition close_body :: "vif_cfg \<Rightarrow> nat \<Rightarrow> vif_hw \<Rightarrow> vif_res" where
  "close_body c v hw =
     (let hw = (if roc_elem hw = Some v then hw\<lparr>roc_elem := None\<rparr> else hw);
          hw = close_carrier v (upd_vif v (\<lambda>x. x\<lparr>up := False\<rparr>) hw);
          hw = close_fw c v hw
      in if unat (vif_index (vif_at hw v)) < length (vif_table hw) then Some (0, close_last c v (detach v hw)) else None)"

definition rwnx_close :: "vif_cfg \<Rightarrow> nat \<Rightarrow> vif_hw \<Rightarrow> vif_res" where
  "rwnx_close c v hw =
     (let hw = hw\<lparr>scanning := False, chan := rwnx_radar_cancel_cac (chan hw)\<rparr> in
      if scans v hw
      then request_ok c Fw_scan_cancel ((abort_scan hw)\<lparr>scan_request := None\<rparr>) (\<lambda>_. close_body c v)
      else close_body c v hw)"

text \<open>
  Changing the type.  An interface that is up is removed at the firmware and added with the new type.
\<close>

definition retype :: "nl80211_iftype \<Rightarrow> bool option \<Rightarrow> drv_vif \<Rightarrow> drv_vif" where
  "retype t fouraddr x =
     (let x = (if sta_like t then x\<lparr>sta_ap := None, tdls_sta := None, external_auth := False\<rparr>
               else if ap_like t \<or> t = NL80211_IFTYPE_MESH_POINT then x\<lparr>ap_stas := []\<rparr> else x)
      in x\<lparr>iftype := t, use_4addr := (case fouraddr of None \<Rightarrow> use_4addr x | Some b \<Rightarrow> b)\<rparr>)"

definition readd :: "vif_cfg \<Rightarrow> nat \<Rightarrow> vif_hw \<Rightarrow> vif_res" where
  "readd c v hw =
     request_ok c (Fw_remove_if (vif_index (vif_at hw v))) hw (\<lambda>_ hw.
       if unat (vif_index (vif_at hw v)) < length (vif_table hw)
       then request c (Fw_add_if v) (hw\<lparr>vif_table := (vif_table hw)[unat (vif_index (vif_at hw v)) := None]\<rparr>) (\<lambda>r hw.
         if fw_error r \<noteq> 0 then Some (fw_error r, hw)
         else if fw_status r \<noteq> 0 then Some (- EIO, hw)
         else if unat (fw_inst r) < length (vif_table hw)
         then Some (0, (upd_vif v (\<lambda>x. x\<lparr>vif_index := fw_inst r\<rparr>) hw)\<lparr>vif_table := (vif_table hw)[unat (fw_inst r) := Some v]\<rparr>)
         else None)
       else None)"

definition rwnx_cfg80211_change_iface :: "vif_cfg \<Rightarrow> nat \<Rightarrow> nl80211_iftype \<Rightarrow> bool option \<Rightarrow> vif_hw \<Rightarrow> vif_res" where
  "rwnx_cfg80211_change_iface c v t fouraddr hw =
     (let hw = vemit ((if ap_like t then [Fw_coex True False] else []) @ (if ap_like (iftype (vif_at hw v)) then [Fw_coex False True] else [])) hw in
      if t = NL80211_IFTYPE_AP_VLAN then Some (- EPERM, hw)
      else let hw = upd_vif v (retype t fouraddr) hw in
        if \<not> up (vif_at hw v) then Some (0, hw)
        else if scans v hw
        then request_ok c Fw_scan_cancel (abort_scan hw) (\<lambda>_ hw. readd c v (hw\<lparr>scan_request := None\<rparr>))
        else readd c v hw)"

subsection \<open>The P2P device\<close>

text \<open>Taking the P2P device down, which does not stop the firmware.\<close>

definition p2p_down :: "nat \<Rightarrow> vif_hw \<Rightarrow> vif_hw option" where
  "p2p_down p hw =
     (if \<not> up (vif_at hw p) then Some hw
      else if unat (vif_index (vif_at hw p)) < length (vif_table hw)
      then Some ((upd_vif p (\<lambda>x. x\<lparr>up := False\<rparr>) (vemit [Fw_remove_if (vif_index (vif_at hw p))] hw))
        \<lparr>vif_table := (vif_table hw)[unat (vif_index (vif_at hw p)) := None], vif_started := vif_started hw - 1\<rparr>)
      else None)"

definition aicwf_p2p_alive_timeout :: "vif_hw \<Rightarrow> vif_hw option" where
  "aicwf_p2p_alive_timeout hw =
     (let hw = hw\<lparr>p2p_timer := False\<rparr>;
          p2p = list_ex (\<lambda>v. \<not> bit (avail_idx_map hw) (drv_vif_index (vif_at hw v)) \<and>
            (iftype (vif_at hw v) = NL80211_IFTYPE_P2P_CLIENT \<or> iftype (vif_at hw v) = NL80211_IFTYPE_P2P_GO)) (vifs hw);
          hw = (if p2p then hw\<lparr>is_p2p_alive := True, p2p_alive_timer_count := 0\<rparr> else hw\<lparr>p2p_alive_timer_count := Suc (p2p_alive_timer_count hw)\<rparr>)
      in if p2p_alive_timer_count hw < P2P_ALIVE_TIME_COUNT then Some (hw\<lparr>p2p_timer := True\<rparr>)
         else case p2p_dev_vif hw of
           None \<Rightarrow> None
         | Some p \<Rightarrow> if alive p hw then p2p_down p (hw\<lparr>p2p_alive_timer_count := 0, is_p2p_alive := False\<rparr>) else None)"

definition rwnx_cfgp2p_stop_p2p_device :: "nat \<Rightarrow> vif_hw \<Rightarrow> vif_hw option" where
  "rwnx_cfgp2p_stop_p2p_device v hw =
     (let hw = (if scans v hw then vemit [Fw_scan_cancel] ((abort_scan hw)\<lparr>scan_request := None\<rparr>) else hw) in
      if p2p_dev_vif hw = Some v then p2p_down v (hw\<lparr>is_p2p_alive := False, p2p_timer := False\<rparr>) else Some hw)"

text \<open>\<open>allocated\<close>: the element for the procedure is allocated; an answered request has a status.\<close>

definition rwnx_cfg80211_remain_on_channel :: "vif_cfg \<Rightarrow> bool \<Rightarrow> nat \<Rightarrow> vif_hw \<Rightarrow> vif_res" where
  "rwnx_cfg80211_remain_on_channel c allocated v hw =
     (let go = (\<lambda>hw. if \<not> allocated then Some (- ENOMEM_vif, hw)
                else request c (Fw_roc (vif_index (vif_at hw v))) (hw\<lparr>roc_elem := Some v\<rparr>) (\<lambda>r hw.
                  if fw_error r \<noteq> 0 then Some (fw_error r, hw\<lparr>roc_elem := None\<rparr>)
                  else if fw_status r \<noteq> 0 then Some (- EBUSY_vif, hw\<lparr>roc_elem := None\<rparr>)
                  else Some (0, hw)))
      in if roc_elem hw \<noteq> None then Some (- EBUSY_vif, hw)
         else if p2p_dev_vif hw = Some v \<and> \<not> up (vif_at hw v)
         then if \<not> is_p2p_alive hw
           then add_if c True v hw (\<lambda>hw. go (start_p2p_timer (hw\<lparr>is_p2p_alive := True\<rparr>)))
           else go (start_p2p_timer hw)
         else go hw)"

subsection \<open>Scanning\<close>

text \<open>
  \<open>rwnx_send_scanu_req\<close> as far as it changes the state: \<open>wildcards\<close> counts the SSIDs of the request that are
  the P2P wildcard, \<open>allocated\<close>: the message is allocated, \<open>ie\<close>: there are information elements, and
  whether the message for them is allocated.
\<close>

fun scan_p2p :: "vif_cfg \<Rightarrow> nat \<Rightarrow> nat \<Rightarrow> vif_hw \<Rightarrow> (vif_hw \<Rightarrow> vif_res) \<Rightarrow> vif_res" where
  "scan_p2p c v 0 hw k = k hw"
| "scan_p2p c v (Suc n) hw k =
     (let go = (\<lambda>hw. scan_p2p c v n (start_p2p_timer (hw\<lparr>is_p2p_alive := True\<rparr>)) k) in
      if p2p_dev_vif hw = Some v \<and> \<not> up (vif_at hw v)
      then request c (Fw_add_if v) hw (\<lambda>r hw.
        if fw_error r \<noteq> 0 then Some (- ENOMEM_vif, hw)
        else if fw_status r \<noteq> 0 then Some (- EIO, hw)
        else case attach v (fw_inst r) hw of None \<Rightarrow> None | Some hw \<Rightarrow> go hw)
      else go hw)"

definition rwnx_send_scanu_req :: "vif_cfg \<Rightarrow> nat \<Rightarrow> bool \<Rightarrow> bool option \<Rightarrow> nat \<Rightarrow> vif_hw \<Rightarrow> vif_res" where
  "rwnx_send_scanu_req c wildcards allocated ie v hw =
     (if \<not> allocated then Some (- ENOMEM_vif, hw)
      else scan_p2p c v wildcards (hw\<lparr>scanning := True\<rparr>) (\<lambda>hw.
        let go = (\<lambda>hw. request c (Fw_scan_start (vif_index (vif_at hw v))) hw (\<lambda>r hw. Some (fw_error r, hw))) in
        case ie of
          None \<Rightarrow> go hw
        | Some False \<Rightarrow> Some (- ENOMEM_vif, hw)
        | Some True \<Rightarrow> request c Fw_scan_ie hw (\<lambda>r hw. if fw_error r \<noteq> 0 then Some (- ENOMEM_vif, hw) else go hw)))"

definition rwnx_cfg80211_scan :: "vif_cfg \<Rightarrow> nat \<Rightarrow> bool \<Rightarrow> bool option \<Rightarrow> scan_req \<Rightarrow> vif_hw \<Rightarrow> vif_res" where
  "rwnx_cfg80211_scan c wildcards allocated ie r hw =
     (if testmode c \<noteq> 0 \<or> drv_conn_state (vif_at hw (req_vif r)) = RWNX_DRV_STATUS_CONNECTING \<or> scanning hw then Some (- EBUSY_vif, hw)
      else rwnx_send_scanu_req c wildcards allocated ie (req_vif r) (hw\<lparr>scan_request := Some r\<rparr>))"

text \<open>A scheduled scan is a scan whose request the driver allocates itself.\<close>

definition rwnx_cfg80211_sched_scan_start :: "vif_cfg \<Rightarrow> nat \<Rightarrow> bool \<Rightarrow> bool option \<Rightarrow> nat \<Rightarrow> vif_hw \<Rightarrow> vif_res" where
  "rwnx_cfg80211_sched_scan_start c wildcards allocated ie v hw =
     (if is_sched_scan hw \<or> scanning hw then Some (- EBUSY_vif, hw)
      else rwnx_cfg80211_scan c wildcards allocated ie (Allocated v) (hw\<lparr>is_sched_scan := True\<rparr>))"

definition rwnx_cfg80211_sched_scan_stop :: "vif_cfg \<Rightarrow> vif_hw \<Rightarrow> vif_res" where
  "rwnx_cfg80211_sched_scan_stop c hw =
     (if scan_request hw \<noteq> None then request c Fw_scan_cancel hw (\<lambda>r hw. Some (fw_error r, hw)) else Some (0, hw))"

text \<open>The confirmation that a scan has ended; a scheduled scan without a request follows a null pointer.\<close>

definition rwnx_rx_scanu_start_cfm :: "vif_hw \<Rightarrow> vif_hw option" where
  "rwnx_rx_scanu_start_cfm hw =
     (let hw = (case scan_request hw of None \<Rightarrow> hw | Some r \<Rightarrow> if is_sched_scan hw then hw else vemit [Cfg_scan_done r False] hw);
          fin = (\<lambda>hw. hw\<lparr>scan_request := None, scanning := False\<rparr>)
      in if is_sched_scan hw
         then case scan_request hw of
             None \<Rightarrow> None
           | Some r \<Rightarrow> Some (fin ((vemit [Cfg_sched_scan_results, Kfree_request r] hw)\<lparr>is_sched_scan := False\<rparr>))
         else Some (fin hw))"

text \<open>After \<open>rwnx_cfg80211_init\<close>, before the first interface.\<close>

definition vif_boot :: "u8 list \<Rightarrow> radar_hw \<Rightarrow> vif_hw" where
  "vif_boot perm ch = \<lparr>ifaces = [], vifs = [], vif_table = replicate (NX_VIRT_DEV_MAX_vif + NX_REMOTE_STA_MAX_vif) None, avail_idx_map = 0xFF,
     vif_started = 0, dev_started = False, monitor_vif = RWNX_INVALID_VIF_fw, is_p2p_alive = False, is_p2p_connected = False, p2p_timer = False,
     p2p_alive_timer_count = 0, p2p_dev_vif = None, scan_request = None, scanning = False, is_sched_scan = False, roc_elem = None, adding_sta = False, key_flag = False,
     sta_table = replicate (NX_REMOTE_STA_MAX_vif + NX_VIRT_DEV_MAX_vif) \<lparr>s_valid = False, s_aid = 0, s_idx = 0, s_ch_idx = 0, s_vif_idx = 0, s_vlan_idx = 0, s_qos = False, s_mac = replicate 6 0, s_ps_active = False, s_key = 0\<rparr>,
     perm_addr = perm, chan = ch, vout = []\<rparr>"

end
