(* ===== verification/Vif_Inv.thy ===== *)
theory Vif_Inv
  imports Vif_Mgmt
begin

text \<open>
  The consistency of the interfaces (\<^verbatim>\<open>rwnx_main.c\<close>): the indices, the table of the firmware's interfaces, the
  count of open interfaces and the start of the firmware; every operation of \<open>Vif_Mgmt\<close> keeps it.
\<close>

unbundle bit_operations_syntax

subsection \<open>What the firmware is told\<close>

text \<open>Whether the firmware runs after the requests \<open>ms\<close>, and whether interfaces were added only while it did.\<close>

definition fw_next :: "vif_out \<Rightarrow> bool \<Rightarrow> bool" where
  "fw_next m b = (case m of Fw_start \<Rightarrow> True | Fw_reset \<Rightarrow> False | _ \<Rightarrow> b)"

fun adds_ok :: "bool \<Rightarrow> vif_out list \<Rightarrow> bool" where
  "adds_ok b [] = True"
| "adds_ok b (m # ms) \<longleftrightarrow> (case m of Fw_add_if _ \<Rightarrow> b | _ \<Rightarrow> True) \<and> adds_ok (fw_next m b) ms"

abbreviation fw_after :: "bool \<Rightarrow> vif_out list \<Rightarrow> bool" where "fw_after b ms \<equiv> fold fw_next ms b"

lemma adds_ok_append [simp]: "adds_ok b (xs @ ys) \<longleftrightarrow> adds_ok b xs \<and> adds_ok (fw_after b xs) ys"
  by (induction xs arbitrary: b) auto

lemma fw_next_simps [simp]: "fw_next Fw_start b = True" "fw_next Fw_reset b = False" "fw_next (Fw_add_if v) b = b" "fw_next (Fw_coex x y) b = b"
  "fw_next (Fw_remove_if i) b = b" "fw_next Fw_me_config b = b" "fw_next Fw_me_chan_config b = b" "fw_next (Cfg_disconnected v) b = b"
  "fw_next (Queues_stop v) b = b" "fw_next (Queues_start v) b = b" "fw_next Fw_mem_mask_write b = b" "fw_next Fw_config_monitor b = b"
  "fw_next (Fw_sm_disconnect i) b = b" "fw_next (Cfg_scan_done q ab) b = b" "fw_next Cfg_sched_scan_results b = b" "fw_next (Kfree_request q) b = b" "fw_next Fw_scan_cancel b = b" "fw_next (Fw_roc i) b = b"
  "fw_next (Fw_scan_start i) b = b" "fw_next Fw_scan_ie b = b"
  by (simp_all add: fw_next_def)

subsection \<open>The invariant\<close>

definition ups :: "vif_hw \<Rightarrow> nat set" where "ups hw = {v \<in> set (vifs hw). up (vif_at hw v)}"

text \<open>
  The interfaces in the list are those not freed; the cleared bits of the map are their indices, which are
  distinct; those of \<open>AP_VLAN\<close> interfaces lie above the others.
\<close>

definition index_inv :: "vif_hw \<Rightarrow> bool" where
  "index_inv hw \<longleftrightarrow> distinct (vifs hw) \<and> (\<forall>v. v \<in> set (vifs hw) \<longleftrightarrow> alive v hw) \<and>
     (\<forall>v \<in> set (vifs hw). drv_vif_index (vif_at hw v) < 8 \<and> (iftype (vif_at hw v) = NL80211_IFTYPE_AP_VLAN \<longleftrightarrow> 4 \<le> drv_vif_index (vif_at hw v))) \<and>
     (\<forall>k<8. bit (avail_idx_map hw) k \<longleftrightarrow> (\<forall>v \<in> set (vifs hw). drv_vif_index (vif_at hw v) \<noteq> k)) \<and>
     (\<forall>v \<in> set (vifs hw). \<forall>w \<in> set (vifs hw). drv_vif_index (vif_at hw v) = drv_vif_index (vif_at hw w) \<longrightarrow> v = w)"

text \<open>The firmware numbers the interfaces, except that an \<open>AP_VLAN\<close> uses the driver's number.\<close>

definition idx_ok :: "drv_vif \<Rightarrow> u8 \<Rightarrow> bool" where
  "idx_ok x i \<longleftrightarrow> (if iftype x = NL80211_IFTYPE_AP_VLAN then unat i = drv_vif_index x else unat i < 4)"

lemma idx_ok_upd [simp]: "idx_ok (x\<lparr>up := b\<rparr>) i = idx_ok x i" "idx_ok (x\<lparr>vif_index := j\<rparr>) i = idx_ok x i"
  by (simp_all add: idx_ok_def)

text \<open>The table holds the interfaces that are up, at the firmware's index; \<open>vif_started\<close> counts them.\<close>

definition table_inv :: "vif_hw \<Rightarrow> bool" where
  "table_inv hw \<longleftrightarrow> length (vif_table hw) = 36 \<and>
     (\<forall>i<36. \<forall>v. vif_table hw ! i = Some v \<longleftrightarrow> v \<in> ups hw \<and> unat (vif_index (vif_at hw v)) = i) \<and>
     (\<forall>v \<in> ups hw. unat (vif_index (vif_at hw v)) < 36 \<and> idx_ok (vif_at hw v) (vif_index (vif_at hw v))) \<and>
     unat (vif_started hw) = card (ups hw)"

text \<open>\<open>U\<close> are the network devices that are up for the kernel.\<close>

definition kernel_inv :: "nat set \<Rightarrow> vif_hw \<Rightarrow> bool" where
  "kernel_inv U hw \<longleftrightarrow> U = {v \<in> ups hw. has_ndev (vif_at hw v)} \<and>
     (\<forall>p. p2p_dev_vif hw = Some p \<longrightarrow> p < length (ifaces hw) \<and> \<not> has_ndev (vif_at hw p) \<and> (alive p hw \<longrightarrow> iftype (vif_at hw p) \<noteq> NL80211_IFTYPE_AP_VLAN)) \<and>
     (\<forall>v \<in> set (vifs hw). iftype (vif_at hw v) \<noteq> NL80211_IFTYPE_AP_VLAN \<longrightarrow> addr (vif_at hw v) = vif_addr hw (drv_vif_index (vif_at hw v))) \<and>
     length (perm_addr hw) = 6 \<and> length (vif_ch_index (chan hw)) = length (ifaces hw)"

definition fw_inv :: "vif_hw \<Rightarrow> bool" where
  "fw_inv hw \<longleftrightarrow> (vif_started hw \<noteq> 0 \<longrightarrow> dev_started hw) \<and> (dev_started hw \<longrightarrow> fw_after False (vout hw)) \<and> adds_ok False (vout hw)"

definition vif_inv :: "nat set \<Rightarrow> vif_hw \<Rightarrow> bool" where
  "vif_inv U hw \<longleftrightarrow> index_inv hw \<and> table_inv hw \<and> kernel_inv U hw \<and> fw_inv hw"

text \<open>What the first three parts read.\<close>

definition core :: "drv_vif \<Rightarrow> nl80211_iftype \<times> nat \<times> u8 \<times> bool \<times> bool \<times> bool \<times> u8 list" where
  "core x = (iftype x, drv_vif_index x, vif_index x, up x, has_ndev x, freed x, addr x)"

definition same_core :: "vif_hw \<Rightarrow> vif_hw \<Rightarrow> bool" where
  "same_core hw hw' \<longleftrightarrow> map core (ifaces hw') = map core (ifaces hw) \<and> vifs hw' = vifs hw \<and> vif_table hw' = vif_table hw \<and>
     avail_idx_map hw' = avail_idx_map hw \<and> vif_started hw' = vif_started hw \<and> p2p_dev_vif hw' = p2p_dev_vif hw \<and> perm_addr hw' = perm_addr hw \<and>
     length (vif_ch_index (chan hw')) = length (vif_ch_index (chan hw))"

lemma same_coreD:
  assumes "same_core hw hw'"
  shows "length (ifaces hw') = length (ifaces hw)" "v < length (ifaces hw) \<Longrightarrow> core (vif_at hw' v) = core (vif_at hw v)"
proof -
  have m: "map core (ifaces hw') = map core (ifaces hw)" using assms by (simp add: same_core_def)
  show l: "length (ifaces hw') = length (ifaces hw)" using arg_cong [OF m, of length] by simp
  show "v < length (ifaces hw) \<Longrightarrow> core (vif_at hw' v) = core (vif_at hw v)"
    using arg_cong [OF m, of "\<lambda>xs. xs ! v"] l by simp
qed

lemma same_core_fields:
  assumes "same_core hw hw'" "v < length (ifaces hw)"
  shows "iftype (vif_at hw' v) = iftype (vif_at hw v)" "drv_vif_index (vif_at hw' v) = drv_vif_index (vif_at hw v)"
    "vif_index (vif_at hw' v) = vif_index (vif_at hw v)" "up (vif_at hw' v) = up (vif_at hw v)"
    "has_ndev (vif_at hw' v) = has_ndev (vif_at hw v)" "freed (vif_at hw' v) = freed (vif_at hw v)" "addr (vif_at hw' v) = addr (vif_at hw v)"
  using same_coreD(2) [OF assms] by (simp_all add: core_def)

lemma same_core_inv:
  assumes s: "same_core hw hw'" and i: "index_inv hw" "table_inv hw" "kernel_inv U hw"
  shows "index_inv hw'" "table_inv hw'" "kernel_inv U hw'"
proof -
  note f = same_core_fields [OF s] and l = same_coreD(1) [OF s]
  have e: "vifs hw' = vifs hw" "vif_table hw' = vif_table hw" "avail_idx_map hw' = avail_idx_map hw" "vif_started hw' = vif_started hw"
    "p2p_dev_vif hw' = p2p_dev_vif hw" "perm_addr hw' = perm_addr hw" "length (vif_ch_index (chan hw')) = length (vif_ch_index (chan hw))"
    using s by (simp_all add: same_core_def)
  have a: "alive v hw' = alive v hw" for v using f(6) l by (auto simp: alive_def)
  have b: "v < length (ifaces hw)" if "v \<in> set (vifs hw)" for v using i(1) that by (simp add: index_inv_def alive_def)
  have u: "ups hw' = ups hw" using b f(4) by (auto simp: ups_def e)
  have ub: "v < length (ifaces hw)" if "v \<in> ups hw" for v using that b by (simp add: ups_def)
  show "index_inv hw'"
    using i(1) b unfolding index_inv_def e a by (simp add: f)
  show "table_inv hw'"
    using i(2) ub unfolding table_inv_def e u idx_ok_def by (auto simp: f)
  show "kernel_inv U hw'"
    using i(3) b ub unfolding kernel_inv_def e u a l vif_addr_def by (auto simp: f)
qed

lemma same_core_refl [simp]: "same_core hw hw"
  by (simp add: same_core_def)

lemma same_core_trans: "same_core a b \<Longrightarrow> same_core b d \<Longrightarrow> same_core a d"
  by (simp add: same_core_def)

lemma same_core_upd: "(\<And>x. core (f x) = core x) \<Longrightarrow> same_core hw (upd_vif v f hw)"
  by (simp add: same_core_def upd_vif_def map_update list_update_id [of "map core (ifaces hw)" v, simplified nth_map])
    (metis list_update_id list_update_beyond map_update nth_map not_less length_map)

lemma up_in_range: "index_inv hw \<Longrightarrow> v \<in> set (vifs hw) \<Longrightarrow> v < length (ifaces hw)"
  by (simp add: index_inv_def alive_def)

lemma index_inv_cong:
  assumes "index_inv hw" "vifs hw' = vifs hw" "length (ifaces hw') = length (ifaces hw)" "avail_idx_map hw' = avail_idx_map hw"
    and f: "\<And>v. v < length (ifaces hw) \<Longrightarrow> iftype (vif_at hw' v) = iftype (vif_at hw v) \<and>
      drv_vif_index (vif_at hw' v) = drv_vif_index (vif_at hw v) \<and> freed (vif_at hw' v) = freed (vif_at hw v)"
  shows "index_inv hw'"
proof -
  have a: "alive v hw' = alive v hw" for v using f assms(3) by (auto simp: alive_def)
  have b: "v < length (ifaces hw)" if "v \<in> set (vifs hw)" for v using assms(1) that by (simp add: index_inv_def alive_def)
  show ?thesis
    using assms(1) b unfolding index_inv_def assms(2, 4) a by (simp add: f)
qed

lemma kernel_inv_cong:
  assumes "kernel_inv U hw" and fr: "length (ifaces hw') = length (ifaces hw)" "p2p_dev_vif hw' = p2p_dev_vif hw" "perm_addr hw' = perm_addr hw"
    "chan hw' = chan hw" and v: "vifs hw' = vifs hw" and i: "index_inv hw"
    and f: "\<And>v. v < length (ifaces hw) \<Longrightarrow> iftype (vif_at hw' v) = iftype (vif_at hw v) \<and> drv_vif_index (vif_at hw' v) = drv_vif_index (vif_at hw v) \<and>
      has_ndev (vif_at hw' v) = has_ndev (vif_at hw v) \<and> addr (vif_at hw' v) = addr (vif_at hw v)"
    and al: "\<And>v. alive v hw' = alive v hw" and u: "U' = {v \<in> ups hw'. has_ndev (vif_at hw v)}"
  shows "kernel_inv U' hw'"
proof -
  have r: "w < length (ifaces hw)" if "w \<in> set (vifs hw)" for w using i that by (simp add: index_inv_def alive_def)
  have "U' = {v \<in> ups hw'. has_ndev (vif_at hw' v)}" unfolding u using r f by (auto simp: ups_def v)
  then show ?thesis
    using assms(1) f r unfolding kernel_inv_def fr al v vif_addr_def by simp
qed

lemma finite_ups [simp]: "finite (ups hw)"
  by (simp add: ups_def)

lemma card_ups:
  assumes "index_inv hw"
  shows "card (ups hw) \<le> 8"
proof -
  have "inj_on (\<lambda>v. drv_vif_index (vif_at hw v)) (set (vifs hw))" "(\<lambda>v. drv_vif_index (vif_at hw v)) ` set (vifs hw) \<subseteq> {..<8}"
    using assms by (auto simp: index_inv_def inj_on_def)
  then have "card (set (vifs hw)) \<le> card {..<8 :: nat}" by (meson card_inj_on_le finite_lessThan)
  moreover have "card (ups hw) \<le> card (set (vifs hw))" by (rule card_mono) (auto simp: ups_def)
  ultimately show ?thesis by simp
qed

lemma attach_shape:
  assumes "attach v i hw = Some hw'"
  shows "unat i < length (vif_table hw)"
    "hw' = (upd_vif v (\<lambda>x. x\<lparr>vif_index := i, up := True\<rparr>) hw)\<lparr>vif_started := vif_started hw + 1, vif_table := (vif_table hw)[unat i := Some v]\<rparr>"
  using assms by (auto simp: attach_def split: if_splits)

lemma upd_at: "v < length (ifaces hw) \<Longrightarrow> w < length (ifaces hw) \<Longrightarrow> vif_at (upd_vif v f hw) w = (if w = v then f (vif_at hw v) else vif_at hw w)"
  by (simp add: upd_vif_def nth_list_update)

lemma upd_vif_simps [simp]:
  "vifs (upd_vif v f hw) = vifs hw" "vif_table (upd_vif v f hw) = vif_table hw" "avail_idx_map (upd_vif v f hw) = avail_idx_map hw"
  "vif_started (upd_vif v f hw) = vif_started hw" "p2p_dev_vif (upd_vif v f hw) = p2p_dev_vif hw" "perm_addr (upd_vif v f hw) = perm_addr hw"
  "chan (upd_vif v f hw) = chan hw" "length (ifaces (upd_vif v f hw)) = length (ifaces hw)" "dev_started (upd_vif v f hw) = dev_started hw"
  "vout (upd_vif v f hw) = vout hw" "is_p2p_alive (upd_vif v f hw) = is_p2p_alive hw" "scan_request (upd_vif v f hw) = scan_request hw"
  "roc_elem (upd_vif v f hw) = roc_elem hw"
  by (simp_all add: upd_vif_def)

lemma vemit_simps [simp]:
  "vifs (vemit ms hw) = vifs hw" "vif_table (vemit ms hw) = vif_table hw" "avail_idx_map (vemit ms hw) = avail_idx_map hw"
  "vif_started (vemit ms hw) = vif_started hw" "p2p_dev_vif (vemit ms hw) = p2p_dev_vif hw" "perm_addr (vemit ms hw) = perm_addr hw"
  "chan (vemit ms hw) = chan hw" "ifaces (vemit ms hw) = ifaces hw" "dev_started (vemit ms hw) = dev_started hw"
  "vout (vemit ms hw) = vout hw @ ms" "is_p2p_alive (vemit ms hw) = is_p2p_alive hw" "scan_request (vemit ms hw) = scan_request hw"
  "roc_elem (vemit ms hw) = roc_elem hw"
  by (simp_all add: vemit_def)

lemma attach_tables:
  assumes i: "index_inv hw" "table_inv hw" "kernel_inv U hw" and v: "v \<in> set (vifs hw)" "\<not> up (vif_at hw v)"
    and free: "vif_table hw ! unat i = None" "idx_ok (vif_at hw v) i"
    and a: "attach v i hw = Some hw'"
  shows "index_inv hw'" "table_inv hw'" "kernel_inv (if has_ndev (vif_at hw v) then insert v U else U) hw'" "vif_started hw' \<noteq> 0"
proof -
  note sh = attach_shape [OF a]
  have vl: "v < length (ifaces hw)" using i(1) v(1) by (rule up_in_range)
  have len: "length (vif_table hw) = 36" and started: "unat (vif_started hw) = card (ups hw)" using i(2) by (simp_all add: table_inv_def)
  have i36: "unat i < 36" using sh(1) len by simp
  have at: "vif_at hw' w = (if w = v then (vif_at hw v)\<lparr>vif_index := i, up := True\<rparr> else vif_at hw w)" if "w < length (ifaces hw)" for w
    using upd_at [OF vl that, of "\<lambda>x. x\<lparr>vif_index := i, up := True\<rparr>"] by (simp add: sh(2))
  have fr: "length (ifaces hw') = length (ifaces hw)" "vifs hw' = vifs hw" "avail_idx_map hw' = avail_idx_map hw" "p2p_dev_vif hw' = p2p_dev_vif hw"
    "perm_addr hw' = perm_addr hw" "chan hw' = chan hw" "vif_table hw' = (vif_table hw)[unat i := Some v]" "vif_started hw' = vif_started hw + 1"
    by (simp_all add: sh(2))
  have al: "alive w hw' = alive w hw" for w by (auto simp: alive_def fr at split: if_splits)
  have r: "w < length (ifaces hw)" if "w \<in> set (vifs hw)" for w using i(1) that by (rule up_in_range)
  have u: "ups hw' = insert v (ups hw)" using v(1) r by (auto simp: ups_def fr at)
  have nu: "v \<notin> ups hw" using v(2) by (simp add: ups_def)
  have ur: "w < length (ifaces hw)" if "w \<in> ups hw" for w using that r by (simp add: ups_def)
  show "index_inv hw'"
    using i(1) fr(2, 1, 3) by (rule index_inv_cong) (simp add: at)
  have c: "unat (vif_started hw + 1) = Suc (unat (vif_started hw))"
    using started card_ups [OF i(1)] by (simp add: unat_add_no_overflow)
  then show "vif_started hw' \<noteq> 0" by (auto simp: fr unat_eq_zero [symmetric])
  show "table_inv hw'"
    unfolding table_inv_def
  proof (intro conjI allI impI ballI)
    show "length (vif_table hw') = 36" by (simp add: fr len)
    show "unat (vif_started hw') = card (ups hw')" using nu c started by (simp add: fr u)
    show "vif_table hw' ! j = Some w \<longleftrightarrow> w \<in> ups hw' \<and> unat (vif_index (vif_at hw' w)) = j" if j: "j < 36" for j w
    proof -
      have old: "vif_table hw ! j = Some w \<longleftrightarrow> w \<in> ups hw \<and> unat (vif_index (vif_at hw w)) = j"
        using i(2) j by (simp add: table_inv_def)
      show ?thesis
      proof (cases "j = unat i")
        case True
        then have "w \<notin> ups hw \<or> unat (vif_index (vif_at hw w)) \<noteq> j" using old free(1) by auto
        then show ?thesis using True i36 len ur vl nu by (auto simp: fr u at split: if_splits)
      next
        case False
        then show ?thesis using old ur vl nu by (cases "w = v") (auto simp: fr u at)
      qed
    qed
    show "unat (vif_index (vif_at hw' w)) < 36" if "w \<in> ups hw'" for w
      using that i(2) i36 ur vl by (auto simp: u at table_inv_def)
    show "idx_ok (vif_at hw' w) (vif_index (vif_at hw' w))" if "w \<in> ups hw'" for w
      using that i(2) free(2) ur vl by (auto simp: u at table_inv_def)
  qed
  show "kernel_inv (if has_ndev (vif_at hw v) then insert v U else U) hw'"
    using i(3) fr(1, 4-6, 2) i(1) by (rule kernel_inv_cong) (use i(3) in \<open>auto simp: at u al kernel_inv_def\<close>)
qed

definition taken_down :: "nat \<Rightarrow> vif_hw \<Rightarrow> vif_hw" where
  "taken_down v hw = (upd_vif v (\<lambda>x. x\<lparr>up := False\<rparr>) hw)
     \<lparr>vif_table := (vif_table hw)[unat (vif_index (vif_at hw v)) := None], vif_started := vif_started hw - 1\<rparr>"

lemma taken_down_tables:
  assumes i: "index_inv hw" "table_inv hw" "kernel_inv U hw" and v: "v \<in> ups hw"
  shows "index_inv (taken_down v hw)" "table_inv (taken_down v hw)" "kernel_inv (U - {v}) (taken_down v hw)" "vif_started hw \<noteq> 0"
proof -
  let ?h = "taken_down v hw" and ?i = "unat (vif_index (vif_at hw v))"
  have vs: "v \<in> set (vifs hw)" using v by (simp add: ups_def)
  then have vl: "v < length (ifaces hw)" using i(1) by (intro up_in_range)
  have len: "length (vif_table hw) = 36" and started: "unat (vif_started hw) = card (ups hw)" using i(2) by (simp_all add: table_inv_def)
  have at: "vif_at ?h w = (if w = v then (vif_at hw v)\<lparr>up := False\<rparr> else vif_at hw w)" if "w < length (ifaces hw)" for w
    using upd_at [OF vl that, of "\<lambda>x. x\<lparr>up := False\<rparr>"] by (simp add: taken_down_def)
  have fr: "length (ifaces ?h) = length (ifaces hw)" "vifs ?h = vifs hw" "avail_idx_map ?h = avail_idx_map hw" "p2p_dev_vif ?h = p2p_dev_vif hw"
    "perm_addr ?h = perm_addr hw" "chan ?h = chan hw" "vif_table ?h = (vif_table hw)[?i := None]" "vif_started ?h = vif_started hw - 1"
    by (simp_all add: taken_down_def)
  have al: "alive w ?h = alive w hw" for w by (auto simp: alive_def fr at split: if_splits)
  have r: "w < length (ifaces hw)" if "w \<in> set (vifs hw)" for w using i(1) that by (rule up_in_range)
  have u: "ups ?h = ups hw - {v}" using r by (auto simp: ups_def fr at split: if_splits)
  have ur: "w < length (ifaces hw)" if "w \<in> ups hw" for w using that r by (simp add: ups_def)
  have pos: "0 < card (ups hw)" using v by (auto simp: card_gt_0_iff)
  then show nz: "vif_started hw \<noteq> 0" using started by auto
  show "index_inv ?h"
    using i(1) fr(2, 1, 3) by (rule index_inv_cong) (simp add: at)
  show "table_inv ?h"
    unfolding table_inv_def
  proof (intro conjI allI impI ballI)
    show "length (vif_table ?h) = 36" by (simp add: fr len)
    have "unat (vif_started hw - 1) = unat (vif_started hw) - 1" using nz by (simp add: unat_minus_one)
    then show "unat (vif_started ?h) = card (ups ?h)" using v started by (simp add: fr u)
    show "vif_table ?h ! j = Some w \<longleftrightarrow> w \<in> ups ?h \<and> unat (vif_index (vif_at ?h w)) = j" if j: "j < 36" for j w
    proof -
      have old: "vif_table hw ! j = Some x \<longleftrightarrow> x \<in> ups hw \<and> unat (vif_index (vif_at hw x)) = j" for x
        using i(2) j by (simp add: table_inv_def)
      show ?thesis
        using old [of w] old [of v] v ur len j by (auto simp: fr u at nth_list_update)
    qed
    show "unat (vif_index (vif_at ?h w)) < 36" if "w \<in> ups ?h" for w
      using that i(2) ur by (auto simp: u at table_inv_def)
    show "idx_ok (vif_at ?h w) (vif_index (vif_at ?h w))" if "w \<in> ups ?h" for w
      using that i(2) ur by (auto simp: u at table_inv_def)
  qed
  show "kernel_inv (U - {v}) ?h"
    using i(3) fr(1, 4-6, 2) i(1) by (rule kernel_inv_cong) (use i(3) in \<open>auto simp: at u al kernel_inv_def\<close>)
qed

subsection \<open>Adding and removing\<close>

lemma find_member: "find P xs = Some x \<Longrightarrow> x \<in> set xs \<and> P x"
  by (induction xs) (auto split: if_splits)

lemma find_bit:
  assumes "free_index t m = Some i"
  shows "bit m i" "i < 8" "t = NL80211_IFTYPE_AP_VLAN \<longleftrightarrow> 4 \<le> i"
proof -
  have m: "bit m i" "i \<in> set (if t = NL80211_IFTYPE_AP_VLAN then [4..<36] else [0..<4])"
    using find_member [OF assms [unfolded free_index_def]] by (auto simp: NX_VIRT_DEV_MAX_vif_def NX_REMOTE_STA_MAX_vif_def simp del: upt_Suc upt_conv_Cons_Cons)
  then show "bit m i" by simp
  then show "i < 8" using bit_imp_le_length [of m i] by simp
  show "t = NL80211_IFTYPE_AP_VLAN \<longleftrightarrow> 4 \<le> i" using m(2) by (auto split: if_splits)
qed

lemma link_vif_tables:
  assumes i: "index_inv hw" "table_inv hw" "kernel_inv U hw" and x: "bit (avail_idx_map hw) (drv_vif_index x)" "drv_vif_index x < 8"
    "iftype x = NL80211_IFTYPE_AP_VLAN \<longleftrightarrow> 4 \<le> drv_vif_index x" "\<not> up x" "\<not> freed x"
    "iftype x \<noteq> NL80211_IFTYPE_AP_VLAN \<longrightarrow> addr x = vif_addr hw (drv_vif_index x)"
  shows "index_inv (link_vif x hw)" "table_inv (link_vif x hw)" "kernel_inv U (link_vif x hw)"
proof -
  let ?h = "link_vif x hw" and ?n = "length (ifaces hw)"
  have at: "vif_at ?h ?n = x" "v < ?n \<Longrightarrow> vif_at ?h v = vif_at hw v" for v
    by (simp_all add: link_vif_def nth_append)
  have fr: "length (ifaces ?h) = Suc ?n" "vifs ?h = vifs hw @ [?n]" "p2p_dev_vif ?h = p2p_dev_vif hw" "perm_addr ?h = perm_addr hw"
    "vif_table ?h = vif_table hw" "vif_started ?h = vif_started hw" "length (vif_ch_index (chan ?h)) = Suc (length (vif_ch_index (chan hw)))"
    by (simp_all add: link_vif_def)
  have r: "v < ?n" if "v \<in> set (vifs hw)" for v using i(1) that by (rule up_in_range)
  then have new: "?n \<notin> set (vifs hw)" by auto
  have al: "alive v ?h \<longleftrightarrow> v = ?n \<or> alive v hw" for v using x(5) by (cases "v = ?n") (auto simp: alive_def fr at)
  have u: "ups ?h = ups hw" using r x(4) by (auto simp: ups_def fr at)
  have ur: "v < ?n" if "v \<in> ups hw" for v using that r by (simp add: ups_def)
  have b: "bit (avail_idx_map ?h) k \<longleftrightarrow> bit (avail_idx_map hw) k \<and> k \<noteq> drv_vif_index x" if "k < 8" for k
    using that by (auto simp: link_vif_def bit_simps)
  have fresh: "drv_vif_index (vif_at hw v) \<noteq> drv_vif_index x" if "v \<in> set (vifs hw)" for v
    using i(1) x(1, 2) that by (auto simp: index_inv_def)
  show "index_inv ?h"
    unfolding index_inv_def
  proof (intro conjI allI impI ballI)
    show "distinct (vifs ?h)" using i(1) new by (simp add: fr index_inv_def)
    show "v \<in> set (vifs ?h) \<longleftrightarrow> alive v ?h" for v using i(1) by (auto simp: fr al index_inv_def)
    show "drv_vif_index (vif_at ?h v) < 8" "iftype (vif_at ?h v) = NL80211_IFTYPE_AP_VLAN \<longleftrightarrow> 4 \<le> drv_vif_index (vif_at ?h v)" if "v \<in> set (vifs ?h)" for v
      using that i(1) x(2, 3) r by (auto simp: fr at index_inv_def dest: r)
    show "bit (avail_idx_map ?h) k \<longleftrightarrow> (\<forall>v \<in> set (vifs ?h). drv_vif_index (vif_at ?h v) \<noteq> k)" if "k < 8" for k
      using that i(1) r by (auto simp: b fr at index_inv_def)
    show "v = w" if "v \<in> set (vifs ?h)" "w \<in> set (vifs ?h)" "drv_vif_index (vif_at ?h v) = drv_vif_index (vif_at ?h w)" for v w
    proof (cases "v = ?n \<or> w = ?n")
      case True
      then show ?thesis using that fresh [of v] fresh [of w] r [of v] r [of w] by (auto simp: fr at)
    next
      case False
      then have "v \<in> set (vifs hw)" "w \<in> set (vifs hw)" using that by (auto simp: fr)
      then show ?thesis using that(3) r i(1) unfolding index_inv_def by (simp add: at)
    qed
  qed
  show "table_inv ?h"
    using i(2) ur unfolding table_inv_def u fr by (auto simp: at)
  show "kernel_inv U ?h"
    using i(3) r ur x(6) unfolding kernel_inv_def u fr vif_addr_def al by (auto simp: at)
qed

lemma p2p_dev_inv:
  assumes "index_inv hw" "table_inv hw" "kernel_inv U hw" "p < length (ifaces hw)" "\<not> has_ndev (vif_at hw p)" "iftype (vif_at hw p) \<noteq> NL80211_IFTYPE_AP_VLAN"
  shows "index_inv (hw\<lparr>p2p_dev_vif := Some p\<rparr>)" "table_inv (hw\<lparr>p2p_dev_vif := Some p\<rparr>)" "kernel_inv U (hw\<lparr>p2p_dev_vif := Some p\<rparr>)"
proof -
  have u: "ups (hw\<lparr>p2p_dev_vif := Some p\<rparr>) = ups hw" "alive v (hw\<lparr>p2p_dev_vif := Some p\<rparr>) = alive v hw" for v
    by (simp_all add: ups_def alive_def)
  show "index_inv (hw\<lparr>p2p_dev_vif := Some p\<rparr>)" using assms(1) by (rule index_inv_cong) simp_all
  show "table_inv (hw\<lparr>p2p_dev_vif := Some p\<rparr>)" using assms(2) by (simp add: table_inv_def u)
  show "kernel_inv U (hw\<lparr>p2p_dev_vif := Some p\<rparr>)" using assms(3-6) by (simp add: kernel_inv_def u vif_addr_def)
qed

lemma add_iface_inv:
  assumes "vif_inv U hw" "rwnx_cfg80211_add_iface t mac fa ok hw = (r, hw')"
  shows "vif_inv U hw'"
proof (cases "r = None")
  case True
  then have "hw' = hw"
    using assms(2) by (auto simp: rwnx_cfg80211_add_iface_def rwnx_interface_add_def rwnx_virtual_interface_add_def Let_def split: option.splits if_splits)
  then show ?thesis using assms(1) by simp
next
  case False
  then obtain i where free: "free_index t (avail_idx_map hw) = Some i"
    using assms(2) by (auto simp: rwnx_cfg80211_add_iface_def rwnx_interface_add_def rwnx_virtual_interface_add_def split: option.splits if_splits)
  note b = find_bit [OF free]
  have link: "vif_inv U (link_vif x hw)" if "drv_vif_index x = i" "iftype x = t" "\<not> up x" "\<not> freed x" "t \<noteq> NL80211_IFTYPE_AP_VLAN \<longrightarrow> addr x = vif_addr hw i" for x
  proof -
    have "fw_inv (link_vif x hw) = fw_inv hw" by (simp add: fw_inv_def link_vif_def)
    then show ?thesis
      using assms(1) link_vif_tables [of hw U x] that b by (simp add: vif_inv_def)
  qed
  show ?thesis
  proof (cases "t = NL80211_IFTYPE_P2P_DEVICE")
    case True
    define h where "h = link_vif ((fresh_vif t i (vif_addr hw i))\<lparr>vif_index := of_nat i, is_p2p_vif := True, has_ndev := False\<rparr>) hw"
    have h: "vif_inv U h" unfolding h_def by (rule link) (simp_all add: fresh_vif_def)
    define h' where "h' = h\<lparr>p2p_timer := False, is_p2p_connected := False, p2p_dev_vif := Some (length (ifaces hw)), p2p_alive_timer_count := 0\<rparr>"
    have at: "vif_at h (length (ifaces hw)) = (fresh_vif t i (vif_addr hw i))\<lparr>vif_index := of_nat i, is_p2p_vif := True, has_ndev := False\<rparr>"
      "length (ifaces h) = Suc (length (ifaces hw))"
      by (simp_all add: h_def link_vif_def)
    define g where "g = h\<lparr>p2p_timer := False, is_p2p_connected := False, p2p_alive_timer_count := 0\<rparr>"
    have s: "same_core h g" by (simp add: same_core_def g_def)
    have i: "index_inv h" "table_inv h" "kernel_inv U h" "fw_inv h" using h by (simp_all add: vif_inv_def)
    have "length (ifaces hw) < length (ifaces g)" "\<not> has_ndev (vif_at g (length (ifaces hw)))" "iftype (vif_at g (length (ifaces hw))) \<noteq> NL80211_IFTYPE_AP_VLAN"
      using at True by (simp_all add: g_def fresh_vif_def)
    note g = p2p_dev_inv [OF same_core_inv [OF s i(1-3)] this]
    have "h' = g\<lparr>p2p_dev_vif := Some (length (ifaces hw))\<rparr>" by (simp add: h'_def g_def)
    moreover have "fw_inv h'" using i(4) by (simp add: fw_inv_def h'_def)
    ultimately have "vif_inv U h'" using g by (simp add: vif_inv_def)
    then show ?thesis
      using assms(2) True False h free
      by (auto simp: rwnx_cfg80211_add_iface_def rwnx_virtual_interface_add_def Let_def h_def h'_def split: if_splits)
  next
    case ndev: False
    then obtain x where "hw' = link_vif x hw" "drv_vif_index x = i" "iftype x = t" "\<not> up x" "\<not> freed x" "t \<noteq> NL80211_IFTYPE_AP_VLAN \<longrightarrow> addr x = vif_addr hw i"
      using assms(2) False free
      by (auto simp: rwnx_cfg80211_add_iface_def rwnx_interface_add_def Let_def fresh_vif_def split: if_splits)
    then show ?thesis using link by simp
  qed
qed

lemma mem_but_one:
  assumes "b \<longleftrightarrow> (\<forall>w \<in> S. f w \<noteq> k)" "v \<in> S" "\<And>w. w \<in> S \<Longrightarrow> f w = f v \<Longrightarrow> w = v" "\<And>w. w \<in> S \<Longrightarrow> g w = f w"
  shows "(b \<or> k = f v) \<longleftrightarrow> (\<forall>w \<in> S - {v}. g w \<noteq> k)"
  using assms by auto

lemma del_iface_inv:
  assumes inv: "vif_inv U hw" and v: "v \<in> set (vifs hw)" "v \<notin> U" "has_ndev (vif_at hw v) \<or> \<not> up (vif_at hw v)"
  shows "vif_inv U (rwnx_cfg80211_del_iface v hw)"
proof -
  let ?h = "rwnx_cfg80211_del_iface v hw"
  have i: "index_inv hw" "table_inv hw" "kernel_inv U hw" "fw_inv hw" using inv by (simp_all add: vif_inv_def)
  have vl: "v < length (ifaces hw)" using i(1) v(1) by (rule up_in_range)
  have at: "vif_at ?h w = (if w = v then (vif_at hw v)\<lparr>has_ndev := False, freed := True\<rparr> else vif_at hw w)" if "w < length (ifaces hw)" for w
    using upd_at [OF vl that, of "\<lambda>x. x\<lparr>has_ndev := False, freed := True\<rparr>"] by (simp add: rwnx_cfg80211_del_iface_def)
  have d: "distinct (vifs hw)" using i(1) by (simp add: index_inv_def)
  have fr: "length (ifaces ?h) = length (ifaces hw)" "set (vifs ?h) = set (vifs hw) - {v}" "distinct (vifs ?h)" "p2p_dev_vif ?h = p2p_dev_vif hw"
    "perm_addr ?h = perm_addr hw" "chan ?h = chan hw" "vif_table ?h = vif_table hw" "vif_started ?h = vif_started hw"
    using d by (simp_all add: rwnx_cfg80211_del_iface_def set_remove1_eq)
  have down: "\<not> up (vif_at hw v)" using v i(3) by (auto simp: kernel_inv_def ups_def)
  have al: "alive w ?h \<longleftrightarrow> alive w hw \<and> w \<noteq> v" for w by (auto simp: alive_def fr at split: if_splits)
  have r: "w < length (ifaces hw)" if "w \<in> set (vifs hw)" for w using i(1) that by (rule up_in_range)
  have u: "ups ?h = ups hw" using r down by (auto simp: ups_def fr at split: if_splits)
  have ur: "w < length (ifaces hw)" "w \<noteq> v" if "w \<in> ups hw" for w using that r down by (auto simp: ups_def)
  have i8: "drv_vif_index (vif_at hw v) < 8" using i(1) v(1) by (simp add: index_inv_def)
  have b: "bit (avail_idx_map ?h) k \<longleftrightarrow> bit (avail_idx_map hw) k \<or> k = drv_vif_index (vif_at hw v)" if "k < 8" for k
    using that i8 by (auto simp: rwnx_cfg80211_del_iface_def bit_simps)
  have inj: "x = y" if "x \<in> set (vifs hw)" "y \<in> set (vifs hw)" "drv_vif_index (vif_at hw x) = drv_vif_index (vif_at hw y)" for x y
    using i(1) that unfolding index_inv_def by blast
  have "index_inv ?h"
    unfolding index_inv_def
  proof (intro conjI allI impI ballI)
    show "distinct (vifs ?h)" by (rule fr(3))
    show "w \<in> set (vifs ?h) \<longleftrightarrow> alive w ?h" for w using i(1) by (auto simp: fr al index_inv_def)
    show "drv_vif_index (vif_at ?h w) < 8" "iftype (vif_at ?h w) = NL80211_IFTYPE_AP_VLAN \<longleftrightarrow> 4 \<le> drv_vif_index (vif_at ?h w)" if "w \<in> set (vifs ?h)" for w
      using that i(1) r by (auto simp: fr at index_inv_def)
    show "bit (avail_idx_map ?h) k \<longleftrightarrow> (\<forall>w \<in> set (vifs ?h). drv_vif_index (vif_at ?h w) \<noteq> k)" if "k < 8" for k
    proof -
      have "bit (avail_idx_map hw) k \<longleftrightarrow> (\<forall>w \<in> set (vifs hw). drv_vif_index (vif_at hw w) \<noteq> k)"
        using i(1) that unfolding index_inv_def by blast
      from mem_but_one [OF this v(1)] show ?thesis
        unfolding b [OF that] fr(2) using inj v(1) at r by simp
    qed
    show "x = y" if "x \<in> set (vifs ?h)" "y \<in> set (vifs ?h)" "drv_vif_index (vif_at ?h x) = drv_vif_index (vif_at ?h y)" for x y
    proof -
      have m: "x \<in> set (vifs hw)" "x \<noteq> v" "y \<in> set (vifs hw)" "y \<noteq> v" using that(1, 2) by (simp_all add: fr)
      then have "drv_vif_index (vif_at hw x) = drv_vif_index (vif_at hw y)" using that(3) at [OF r, of x] at [OF r, of y] by (simp del: drv_vif.simps)
      then show ?thesis using inj m by blast
    qed
  qed
  moreover have "table_inv ?h"
    using i(2) ur unfolding table_inv_def u fr by (auto simp: at)
  moreover have "kernel_inv U ?h"
    using i(3) r ur unfolding kernel_inv_def u fr vif_addr_def al by (auto simp: at split: if_splits)
  moreover have "fw_inv ?h" using i(4) by (simp add: fw_inv_def rwnx_cfg80211_del_iface_def)
  ultimately show ?thesis by (simp add: vif_inv_def)
qed


subsection \<open>The results of a call\<close>

text \<open>\<open>P\<close> holds of what a call returns, where it returns.\<close>

definition res_all :: "(int \<Rightarrow> vif_hw \<Rightarrow> bool) \<Rightarrow> vif_res \<Rightarrow> bool" where
  "res_all P r \<longleftrightarrow> (case r of None \<Rightarrow> True | Some (e, hw) \<Rightarrow> P e hw)"

lemma res_all_simps [simp]: "res_all P None" "res_all P (Some (e, hw)) = P e hw"
  "res_all P (request c m hw k) = res_all P (k (fw_answer c (vemit [m] hw)) (vemit [m] hw))"
  by (simp_all add: res_all_def request_def Let_def)

lemma res_all_request_ok [simp]:
  "res_all P (request_ok c m hw k) \<longleftrightarrow> (let h = vemit [m] hw; r = fw_answer c h in if fw_error r \<noteq> 0 then P (fw_error r) h else res_all P (k r h))"
  by (simp add: request_ok_def Let_def)

lemma res_allD: "res_all P r \<Longrightarrow> r = Some (e, hw) \<Longrightarrow> P e hw"
  by simp

text \<open>Requests that neither start, reset nor add, and what keeps the invariant.\<close>

definition quiet :: "vif_out \<Rightarrow> bool" where "quiet m \<longleftrightarrow> m \<noteq> Fw_start \<and> m \<noteq> Fw_reset \<and> (\<forall>v. m \<noteq> Fw_add_if v)"

lemma quiet_simps [simp]: "quiet (Fw_coex x y)" "quiet (Fw_remove_if i)" "quiet Fw_me_config" "quiet Fw_me_chan_config" "quiet (Cfg_disconnected v)"
  "quiet (Queues_stop v)" "quiet (Queues_start v)" "quiet Fw_mem_mask_write" "quiet Fw_config_monitor" "quiet (Fw_sm_disconnect i)"
  "quiet (Cfg_scan_done q ab)" "quiet Cfg_sched_scan_results" "quiet (Kfree_request q)" "quiet Fw_scan_cancel" "quiet (Fw_roc i)" "quiet (Fw_scan_start i)" "quiet Fw_scan_ie"
  by (simp_all add: quiet_def)

lemma quiet_fold [simp]: "list_all quiet ms \<Longrightarrow> fw_after b ms = b" "list_all quiet ms \<Longrightarrow> adds_ok b ms"
  by (induction ms) (auto simp: quiet_def fw_next_def split: vif_out.splits)

lemma same_core_vif: "vif_inv U hw \<Longrightarrow> same_core hw h \<Longrightarrow> fw_inv h \<Longrightarrow> vif_inv U h"
  using same_core_inv unfolding vif_inv_def by blast

lemma same_core_vemit [simp]: "same_core hw (vemit ms hw)"
  by (simp add: same_core_def)

lemma vemit_inv: "vif_inv U hw \<Longrightarrow> list_all quiet ms \<Longrightarrow> vif_inv U (vemit ms hw)"
  by (rule same_core_vif) (auto simp: vif_inv_def fw_inv_def)

lemma vemit_add_inv: "vif_inv U hw \<Longrightarrow> dev_started hw \<Longrightarrow> vif_inv U (vemit [Fw_add_if v] hw)"
  by (rule same_core_vif) (auto simp: vif_inv_def fw_inv_def)

text \<open>What the firmware promises: a new interface gets an index that is not in use.\<close>

definition fw_fresh :: "vif_cfg \<Rightarrow> bool" where
  "fw_fresh c \<longleftrightarrow> (\<forall>hw v. fw_error (fw_answer c (vemit [Fw_add_if v] hw)) = 0 \<longrightarrow> fw_status (fw_answer c (vemit [Fw_add_if v] hw)) = 0 \<longrightarrow>
     unat (fw_inst (fw_answer c (vemit [Fw_add_if v] hw))) < 4 \<and> vif_table hw ! unat (fw_inst (fw_answer c (vemit [Fw_add_if v] hw))) = None)"

text \<open>Only the interface \<open>p\<close> has changed.\<close>

definition framed :: "nat \<Rightarrow> vif_hw \<Rightarrow> vif_hw \<Rightarrow> bool" where
  "framed p hw h \<longleftrightarrow> vifs h = vifs hw \<and> dev_started h = dev_started hw \<and> p2p_dev_vif h = p2p_dev_vif hw \<and> (\<forall>w<length (ifaces hw). w \<noteq> p \<longrightarrow> vif_at h w = vif_at hw w)"

lemma attach_inv:
  assumes inv: "vif_inv U hw" "dev_started hw" and v: "v \<in> set (vifs hw)" "\<not> up (vif_at hw v)"
    and free: "vif_table hw ! unat i = None" "idx_ok (vif_at hw v) i" and a: "attach v i hw = Some h"
  shows "vif_inv (if has_ndev (vif_at hw v) then insert v U else U) h \<and> framed v hw h"
proof -
  note t = attach_tables [OF _ _ _ v free a, of U]
  note sh = attach_shape [OF a]
  have "fw_inv h" using inv by (auto simp: vif_inv_def fw_inv_def sh(2))
  moreover have "v < length (ifaces hw)" using inv(1) v(1) by (auto simp: vif_inv_def intro: up_in_range)
  then have "framed v hw h" by (auto simp: framed_def sh(2) upd_at)
  ultimately show ?thesis using t inv by (simp add: vif_inv_def)
qed

lemma add_if_inv:
  assumes fw: "fw_fresh c" and inv: "vif_inv U hw" "dev_started hw" and v: "v \<in> set (vifs hw)" "\<not> up (vif_at hw v)" "iftype (vif_at hw v) \<noteq> NL80211_IFTYPE_AP_VLAN"
    and fail: "\<And>e h. e \<noteq> 0 \<Longrightarrow> vif_inv U h \<Longrightarrow> P e h"
    and k: "\<And>h. vif_inv (if has_ndev (vif_at hw v) then insert v U else U) h \<Longrightarrow> framed v hw h \<Longrightarrow> res_all P (k h)"
  shows "res_all P (add_if c eio v hw k)"
proof -
  define g where "g = vemit [Fw_add_if v] hw"
  define r where "r = fw_answer c g"
  have g: "vif_inv U g" "dev_started g" "vifs g = vifs hw" "ifaces g = ifaces hw" "p2p_dev_vif g = p2p_dev_vif hw" using vemit_add_inv [OF inv] inv(2) by (simp_all add: g_def)
  have "res_all P (case attach v (fw_inst r) g of None \<Rightarrow> None | Some h \<Rightarrow> k h)" if "fw_error r = 0" "fw_status r = 0"
  proof (cases "attach v (fw_inst r) g")
    case (Some h)
    have "unat (fw_inst r) < 4" "vif_table g ! unat (fw_inst r) = None"
      using fw that unfolding fw_fresh_def by (simp_all add: r_def g_def)
    then have "vif_inv (if has_ndev (vif_at hw v) then insert v U else U) h \<and> framed v g h"
      using attach_inv [OF g(1, 2) _ _ _ _ Some] v by (simp add: g idx_ok_def)
    then show ?thesis using k Some by (simp add: framed_def g inv(2))
  qed simp
  then show ?thesis
    using fail [OF _ g(1)] by (simp add: add_if_def EIO_def g_def [symmetric] r_def [symmetric])
qed

lemma vlan_slot:
  assumes "index_inv hw" "table_inv hw" "v \<in> set (vifs hw)" "\<not> up (vif_at hw v)" "iftype (vif_at hw v) = NL80211_IFTYPE_AP_VLAN"
  shows "vif_table hw ! drv_vif_index (vif_at hw v) = None"
proof (rule ccontr)
  assume "\<not> ?thesis"
  then obtain w where w: "vif_table hw ! drv_vif_index (vif_at hw v) = Some w" by auto
  have i: "4 \<le> drv_vif_index (vif_at hw v)" "drv_vif_index (vif_at hw v) < 8" using assms(1, 3, 5) by (simp_all add: index_inv_def)
  then have u: "w \<in> ups hw" "unat (vif_index (vif_at hw w)) = drv_vif_index (vif_at hw v)" "idx_ok (vif_at hw w) (vif_index (vif_at hw w))"
    using assms(2) w by (auto simp: table_inv_def)
  then have "drv_vif_index (vif_at hw w) = drv_vif_index (vif_at hw v)" using i by (auto simp: idx_ok_def split: if_splits)
  moreover have "w \<in> set (vifs hw)" "up (vif_at hw w)" using u(1) by (simp_all add: ups_def)
  ultimately have "w = v" using assms(1, 3) unfolding index_inv_def by blast
  then show False using assms(4) \<open>up (vif_at hw w)\<close> by simp
qed

lemma chan_lengths [simp]:
  "length (vif_ch_index (rwnx_chanctx_unlink v ch)) = length (vif_ch_index ch)"
  "length (vif_ch_index (rwnx_radar_cancel_cac ch)) = length (vif_ch_index ch)"
  by (auto simp: rwnx_chanctx_unlink_def rwnx_radar_cancel_cac_def Let_def rwnx_radar_detection_enable_def emit_def split: option.splits)

subsection \<open>Opening\<close>

lemma same_state_inv:
  assumes "vif_inv U hw" "same_core hw h" "dev_started h = dev_started hw" "vout h = vout hw"
  shows "vif_inv U h"
proof (rule same_core_vif [OF assms(1, 2)])
  show "fw_inv h" using assms by (auto simp: vif_inv_def fw_inv_def same_core_def)
qed

lemma p2p_alive_inv [simp]: "vif_inv U hw \<Longrightarrow> vif_inv U (start_p2p_timer (hw\<lparr>is_p2p_alive := b\<rparr>))" "vif_inv U hw \<Longrightarrow> vif_inv U (start_p2p_timer hw)"
  by (erule same_state_inv, simp_all add: same_core_def start_p2p_timer_def)+

lemma start_p2p_timer_simps [simp]:
  "vifs (start_p2p_timer hw) = vifs hw" "ifaces (start_p2p_timer hw) = ifaces hw" "dev_started (start_p2p_timer hw) = dev_started hw"
  "p2p_dev_vif (start_p2p_timer hw) = p2p_dev_vif hw" "vif_table (start_p2p_timer hw) = vif_table hw"
  by (simp_all add: start_p2p_timer_def)

text \<open>The state in which an interface can be opened.\<close>

definition ready_open :: "nat set \<Rightarrow> nat \<Rightarrow> drv_vif \<Rightarrow> vif_hw \<Rightarrow> bool" where
  "ready_open U v x hw \<longleftrightarrow> vif_inv U hw \<and> dev_started hw \<and> v \<in> set (vifs hw) \<and> core (vif_at hw v) = core x \<and> \<not> up x \<and> has_ndev x"

lemma ready_open_core:
  assumes "ready_open U v x hw"
  shows "up (vif_at hw v) = False" "has_ndev (vif_at hw v)" "iftype (vif_at hw v) = iftype x" "v < length (ifaces hw)" "v \<in> set (vifs hw)"
    "vif_inv U hw" "dev_started hw"
  using assms by (auto simp: ready_open_def core_def vif_inv_def intro: up_in_range)

lemma open_p2p_inv:
  assumes fw: "fw_fresh c" and o: "ready_open U v x hw"
    and fail: "\<And>e h. e \<noteq> 0 \<Longrightarrow> vif_inv U h \<Longrightarrow> P e h" and k: "\<And>h. ready_open U v x h \<Longrightarrow> res_all P (k h)"
  shows "res_all P (open_p2p c v hw k)"
proof -
  note oc = ready_open_core [OF o]
  have go: "res_all P (k (start_p2p_timer (h\<lparr>is_p2p_alive := True\<rparr>)))" if "ready_open U v x h" for h
    using that by (intro k) (simp add: ready_open_def)
  have "res_all P (add_if c True p hw (\<lambda>h. k (start_p2p_timer (h\<lparr>is_p2p_alive := True\<rparr>))))"
    if p: "p2p_dev_vif hw = Some p" "alive p hw" "\<not> up (vif_at hw p)" for p
  proof (rule add_if_inv [OF fw oc(6, 7)])
    have kp: "\<not> has_ndev (vif_at hw p)" "iftype (vif_at hw p) \<noteq> NL80211_IFTYPE_AP_VLAN"
      using oc(6) p by (auto simp: vif_inv_def kernel_inv_def)
    then show "iftype (vif_at hw p) \<noteq> NL80211_IFTYPE_AP_VLAN" by simp
    show "p \<in> set (vifs hw)" using oc(6) p(2) by (simp add: vif_inv_def index_inv_def)
    show "\<not> up (vif_at hw p)" by (rule p(3))
    show "\<And>e h. e \<noteq> 0 \<Longrightarrow> vif_inv U h \<Longrightarrow> P e h" by (rule fail)
    fix h assume h: "vif_inv (if has_ndev (vif_at hw p) then insert p U else U) h" "framed p hw h"
    have "v \<noteq> p" using oc(2) kp(1) by auto
    then have "ready_open U v x h" using h kp oc o by (simp add: ready_open_def framed_def)
    then show "res_all P (k (start_p2p_timer (h\<lparr>is_p2p_alive := True\<rparr>)))" by (rule go)
  qed
  then show ?thesis using go [OF o] k [OF o] by (auto simp: open_p2p_def Let_def split: option.split)
qed

lemma open_vif_inv:
  assumes fw: "fw_fresh c" and o: "ready_open U v x hw"
    and fail: "\<And>e h. e \<noteq> 0 \<Longrightarrow> vif_inv U h \<Longrightarrow> P e h"
    and k: "\<And>h. vif_inv (insert v U) h \<Longrightarrow> iftype (vif_at h v) = iftype x \<Longrightarrow> res_all P (k h)"
  shows "res_all P (open_vif c v hw k)"
proof (cases "iftype x = NL80211_IFTYPE_AP_VLAN")
  case True
  note oc = ready_open_core [OF o]
  define g where "g = vemit [Queues_stop v] hw"
  have g: "vif_inv U g" "dev_started g" "vifs g = vifs hw" "ifaces g = ifaces hw" using oc(6, 7) vemit_inv by (simp_all add: g_def)
  show ?thesis
  proof (cases "attach v (of_nat (drv_vif_index (vif_at hw v))) g")
    case (Some h)
    have "drv_vif_index (vif_at hw v) < 8" using oc(5, 6) by (simp add: vif_inv_def index_inv_def)
    then have u: "unat (word_of_nat (drv_vif_index (vif_at hw v)) :: u8) = drv_vif_index (vif_at hw v)" by (simp add: unat_of_nat)
    have "vif_table g ! drv_vif_index (vif_at hw v) = None"
      using vlan_slot [of g v] g oc True by (simp add: vif_inv_def)
    then have a: "vif_inv (insert v U) h" using attach_inv [OF g(1, 2) _ _ _ _ Some] oc True by (simp add: g u idx_ok_def)
    have "iftype (vif_at h v) = iftype x" using attach_shape [OF Some] oc by (simp add: upd_at g)
    then show ?thesis using k [OF a] True Some oc by (simp add: open_vif_def g_def)
  qed (use True oc in \<open>simp add: open_vif_def g_def\<close>)
next
  case False
  note oc = ready_open_core [OF o]
  have "res_all P (add_if c False v hw (\<lambda>h. if iftype (vif_at h v) = iftype x then k h else None))"
    by (rule add_if_inv [OF fw oc(6, 7, 5)]) (use oc False fail k in \<open>auto\<close>)
  moreover have "add_if c False v hw (\<lambda>h. if iftype (vif_at h v) = iftype x then k h else None) = add_if c False v hw k"
    using oc by (auto simp: add_if_def request_def attach_def Let_def upd_at split: option.split if_splits)
  ultimately show ?thesis using False oc(3) by (simp add: open_vif_def)
qed

lemma open_inv:
  assumes fw: "fw_fresh c" and inv: "vif_inv U hw" and v: "v \<in> set (vifs hw)" "v \<notin> U" "has_ndev (vif_at hw v)"
  shows "res_all (\<lambda>e h. if e = 0 then vif_inv (insert v U) h else iftype (vif_at hw v) = NL80211_IFTYPE_MONITOR \<or> vif_inv U h) (rwnx_open c v hw)"
    (is "res_all ?P _")
proof -
  define x where "x = vif_at hw v"
  have nu: "\<not> up x" using inv v by (auto simp: vif_inv_def kernel_inv_def ups_def x_def)
  have rest: "res_all ?P (open_p2p c v g (\<lambda>g. open_vif c v g (open_monitor c v)))" if "ready_open U v x g" for g
  proof (rule open_p2p_inv [OF fw that], simp, rule open_vif_inv [OF fw], assumption, simp)
    fix h assume h: "vif_inv (insert v U) h" "iftype (vif_at h v) = iftype x"
    have m: "vif_inv (insert v U) (h\<lparr>monitor_vif := m\<rparr>)" for m
      using h(1) by (rule same_state_inv) (simp_all add: same_core_def)
    then have "vif_inv (insert v U) (vemit [Queues_start v] (vemit ms (h\<lparr>monitor_vif := m\<rparr>)))" if "list_all quiet ms" for m ms
      using that by (intro vemit_inv) simp_all
    from this [of "[]"] this [of "[Fw_config_monitor]"]
    show "res_all ?P (open_monitor c v h)"
      using m h by (auto simp: open_monitor_def Let_def x_def vemit_inv vemit_def [of "[]"])
  qed
  have op: "ready_open U v x g" if "vif_inv U g" "dev_started g" "vifs g = vifs hw" "core (vif_at g v) = core x" for g
    using that nu v by (simp add: ready_open_def x_def)
  have vl: "v < length (ifaces hw)" using inv v by (auto simp: vif_inv_def intro: up_in_range)
  show ?thesis
  proof (cases "vif_started hw = 0")
    case False
    then have "dev_started hw" using inv by (simp add: vif_inv_def fw_inv_def)
    then show ?thesis using False rest op inv vemit_inv by (simp add: rwnx_open_def x_def)
  next
    case True
    have s: "vif_inv U (vemit ms (vemit [Fw_start] hw))" if "list_all quiet ms" for ms
      using inv that by (intro vemit_inv same_core_vif [OF inv]) (auto simp: vif_inv_def fw_inv_def)
    have go: "ready_open U v x (upd_vif v (\<lambda>x. x\<lparr>drv_conn_state := RWNX_DRV_STATUS_DISCONNECTED\<rparr>) ((vemit ms (vemit [Fw_start] hw))\<lparr>dev_started := True\<rparr>))"
      if q: "list_all quiet ms" for ms
    proof (rule op)
      let ?g = "vemit ms (vemit [Fw_start] hw)" and ?f = "\<lambda>x. x\<lparr>drv_conn_state := RWNX_DRV_STATUS_DISCONNECTED\<rparr>"
      have "same_core ?g (?g\<lparr>dev_started := True\<rparr>)" by (simp add: same_core_def)
      moreover have "same_core (?g\<lparr>dev_started := True\<rparr>) (upd_vif v ?f (?g\<lparr>dev_started := True\<rparr>))" by (rule same_core_upd) (simp add: core_def)
      ultimately show "vif_inv U (upd_vif v ?f (?g\<lparr>dev_started := True\<rparr>))"
        using s [OF q] q inv by (intro same_core_vif [OF s [OF q]]) (auto intro: same_core_trans simp: vif_inv_def fw_inv_def)
      show "core (vif_at (upd_vif v ?f (?g\<lparr>dev_started := True\<rparr>)) v) = core x" using vl by (simp add: upd_at core_def x_def)
    qed simp_all
    have ve: "vemit (a @ b) h = vemit b (vemit a h)" "vemit [] h = h" for a b h by (simp_all add: vemit_def)
    show ?thesis
      using True s [of "[]"] s [of "[Fw_mem_mask_write]"] rest [OF go [of "[]"]] rest [OF go [of "[Fw_mem_mask_write]"]]
        rest [OF go [of "[Fw_coex False True]"]] rest [OF go [of "[Fw_mem_mask_write, Fw_coex False True]"]]
      by (simp add: rwnx_open_def open_first_def Let_def ve ve(1) [of "[Fw_mem_mask_write]" "[Fw_coex False True]", simplified])
  qed
qed

subsection \<open>Closing\<close>

lemma taken_down_inv:
  assumes "vif_inv U hw" "v \<in> ups hw"
  shows "vif_inv (U - {v}) (taken_down v hw)"
proof -
  have "fw_inv (taken_down v hw)" using assms taken_down_tables(4) [of hw U v] by (auto simp: vif_inv_def fw_inv_def taken_down_def)
  then show ?thesis using assms taken_down_tables [of hw U v] by (simp add: vif_inv_def)
qed

text \<open>What closing does before the table is changed is invisible to the invariant; the rest is \<open>taken_down\<close>.\<close>

definition quiet_step :: "vif_hw \<Rightarrow> vif_hw \<Rightarrow> bool" where
  "quiet_step hw h \<longleftrightarrow> same_core hw h \<and> dev_started h = dev_started hw \<and> (\<exists>ms. vout h = vout hw @ ms \<and> list_all quiet ms)"

lemma quiet_stepI: "same_core hw h \<Longrightarrow> dev_started h = dev_started hw \<Longrightarrow> vout h = vout hw \<Longrightarrow> quiet_step hw h"
  by (auto simp: quiet_step_def intro: exI [of _ "[]"])

lemma quiet_step_refl [simp]: "quiet_step hw hw"
  by (rule quiet_stepI) simp_all

lemma quiet_step_trans: "quiet_step a b \<Longrightarrow> quiet_step b d \<Longrightarrow> quiet_step a d"
  by (force simp: quiet_step_def intro: same_core_trans)

lemma quiet_step_vemit: "list_all quiet ms \<Longrightarrow> quiet_step hw (vemit ms hw)"
  by (auto simp: quiet_step_def)

lemma quiet_step_upd: "(\<And>x. core (f x) = core x) \<Longrightarrow> quiet_step hw (upd_vif v f hw)"
  by (rule quiet_stepI) (simp_all add: same_core_upd)

lemma quiet_inv:
  assumes "vif_inv U hw" "quiet_step hw h"
  shows "vif_inv U h"
proof (rule same_core_vif [OF assms(1)])
  show "same_core hw h" using assms by (simp add: quiet_step_def)
  show "fw_inv h" using assms by (auto simp: vif_inv_def fw_inv_def same_core_def quiet_step_def)
qed

lemma close_carrier_quiet: "quiet_step hw (close_carrier v hw)"
proof -
  have u: "quiet_step h (upd_vif v (\<lambda>x. x\<lparr>carrier := False\<rparr>) h)" for h by (rule quiet_step_upd) (simp add: core_def)
  have "quiet_step hw (upd_vif v (\<lambda>x. x\<lparr>carrier := False\<rparr>) (vemit [Cfg_disconnected v, Queues_stop v] hw))"
    by (rule quiet_step_trans [OF quiet_step_vemit u]) simp
  then show ?thesis using u by (simp add: close_carrier_def Let_def)
qed

lemma close_fw_quiet: "quiet_step hw (close_fw c v hw)"
proof -
  have u: "quiet_step h (upd_vif v (\<lambda>x. x\<lparr>drv_conn_state := RWNX_DRV_STATUS_DISCONNECTED\<rparr>) h)" for h by (rule quiet_step_upd) (simp add: core_def)
  have e: "quiet m \<Longrightarrow> quiet_step h (vemit [m] h)" for m h by (rule quiet_step_vemit) simp
  have "quiet_step hw (vemit [Fw_remove_if j] (upd_vif v (\<lambda>x. x\<lparr>drv_conn_state := RWNX_DRV_STATUS_DISCONNECTED\<rparr>) (vemit [Fw_sm_disconnect i] hw)))" for i j
    by (rule quiet_step_trans [OF quiet_step_trans [OF e u] e]) simp_all
  then show ?thesis using e by (simp add: close_fw_def Let_def)
qed

lemma close_last_inv:
  assumes "vif_inv U hw"
  shows "vif_inv U (close_last c v hw)"
proof (rule same_core_vif [OF assms])
  show "same_core hw (close_last c v hw)" by (simp add: close_last_def same_core_def)
  show "fw_inv (close_last c v hw)" using assms by (auto simp: vif_inv_def fw_inv_def close_last_def)
qed

lemma close_up_commute:
  assumes "v < length (ifaces hw)"
  shows "close_fw c v (close_carrier v (upd_vif v (\<lambda>x. x\<lparr>up := b\<rparr>) hw)) = upd_vif v (\<lambda>x. x\<lparr>up := b\<rparr>) (close_fw c v (close_carrier v hw))"
proof -
  have com: "x\<lparr>up := b, carrier := d\<rparr> = x\<lparr>carrier := d, up := b\<rparr>" "x\<lparr>up := b, drv_conn_state := e\<rparr> = x\<lparr>drv_conn_state := e, up := b\<rparr>" for x :: drv_vif and d e
    by (cases x; simp)+
  have "close_carrier v (upd_vif v (\<lambda>x. x\<lparr>up := b\<rparr>) hw) = upd_vif v (\<lambda>x. x\<lparr>up := b\<rparr>) (close_carrier v hw)"
    using assms by (simp add: close_carrier_def Let_def upd_at) (simp add: upd_vif_def vemit_def com)
  moreover have "close_fw c v (upd_vif v (\<lambda>x. x\<lparr>up := b\<rparr>) h) = upd_vif v (\<lambda>x. x\<lparr>up := b\<rparr>) (close_fw c v h)" if "v < length (ifaces h)" for h
    using that by (simp add: close_fw_def Let_def upd_at) (simp add: upd_vif_def vemit_def com)
  moreover have "length (ifaces (close_carrier v hw)) = length (ifaces hw)" by (simp add: close_carrier_def Let_def)
  ultimately show ?thesis using assms by simp
qed

lemma close_body_inv:
  assumes inv: "vif_inv U hw" and v: "v \<in> ups hw"
  shows "res_all (\<lambda>e h. e = 0 \<and> vif_inv (U - {v}) h) (close_body c v hw)"
proof -
  define g0 where "g0 = (if roc_elem hw = Some v then hw\<lparr>roc_elem := None\<rparr> else hw)"
  define g where "g = close_fw c v (close_carrier v g0)"
  define h where "h = close_fw c v (close_carrier v (upd_vif v (\<lambda>x. x\<lparr>up := False\<rparr>) g0))"
  have vl: "v < length (ifaces hw)" using inv v by (auto simp: vif_inv_def ups_def intro: up_in_range)
  have s0: "quiet_step hw g0" "length (ifaces g0) = length (ifaces hw)" by (auto simp: g0_def same_core_def intro: quiet_stepI)
  have q: "quiet_step hw g"
    unfolding g_def by (rule quiet_step_trans [OF s0(1) quiet_step_trans [OF close_carrier_quiet close_fw_quiet]])
  then have ig: "vif_inv U g" by (rule quiet_inv [OF inv])
  have hg: "h = upd_vif v (\<lambda>x. x\<lparr>up := False\<rparr>) g"
    unfolding h_def g_def using vl s0(2) by (rule_tac close_up_commute) simp
  have vu: "v \<in> ups g"
    using v vl same_core_fields(4) [of hw g v] q by (simp add: ups_def quiet_step_def) (simp add: same_core_def)
  have lg: "v < length (ifaces g)" using vu ig by (auto simp: vif_inv_def ups_def intro: up_in_range)
  have vi: "vif_index (vif_at h v) = vif_index (vif_at g v)" using lg by (simp add: hg upd_at)
  have "vif_inv (U - {v}) (detach v h)"
  proof (rule same_state_inv [OF taken_down_inv [OF ig vu]])
    show "same_core (taken_down v g) (detach v h)" using vi by (simp add: same_core_def taken_down_def detach_def hg)
  qed (simp_all add: taken_down_def detach_def hg)
  then show ?thesis
    by (simp add: close_body_def Let_def g0_def [symmetric] h_def [symmetric] close_last_inv)
qed

lemma close_inv:
  assumes inv: "vif_inv U hw" and v: "v \<in> U"
  shows "res_all (\<lambda>e h. e = 0 \<longrightarrow> vif_inv (U - {v}) h) (rwnx_close c v hw)"
proof -
  define g where "g = hw\<lparr>scanning := False, chan := rwnx_radar_cancel_cac (chan hw)\<rparr>"
  have vu: "v \<in> ups hw" using inv v by (auto simp: vif_inv_def kernel_inv_def)
  have g: "vif_inv U (vemit ms (g\<lparr>scan_request := r\<rparr>))" "vif_inv U g" if "list_all quiet ms" for ms r
    using inv that by (auto intro!: vemit_inv same_state_inv [OF inv] simp: g_def same_core_def)
  have u: "ups (vemit ms (g\<lparr>scan_request := r\<rparr>)) = ups hw" "ups g = ups hw" for ms r by (simp_all add: ups_def g_def)
  have w: "res_all (\<lambda>e h. e = 0 \<longrightarrow> vif_inv (U - {v}) h) (close_body c v h)" if "vif_inv U h" "ups h = ups hw" for h
    using close_body_inv [OF that(1), of v c] vu that(2) by (cases "close_body c v h") auto
  have e: "vemit [b] (vemit [a] h) = vemit [a, b] h" for a b h by (simp add: vemit_def)
  show ?thesis
    using w [OF g(1) u(1), of "[Cfg_scan_done q True, Fw_scan_cancel]" None for q] w [OF g(2) u(2), of "[]"]
    by (auto simp: rwnx_close_def Let_def g_def [symmetric] scans_def abort_scan_def vemit_def split: option.splits)
qed

subsection \<open>Changing the type\<close>

lemma retype_inv:
  assumes inv: "vif_inv U hw" and v: "v \<in> set (vifs hw)" "iftype (vif_at hw v) \<noteq> NL80211_IFTYPE_AP_VLAN" and t: "t \<noteq> NL80211_IFTYPE_AP_VLAN"
  shows "vif_inv U (upd_vif v (retype t fa) hw)"
proof -
  let ?h = "upd_vif v (retype t fa) hw"
  have i: "index_inv hw" "table_inv hw" "kernel_inv U hw" "fw_inv hw" using inv by (simp_all add: vif_inv_def)
  have rt: "iftype (retype t fa x) = t" "drv_vif_index (retype t fa x) = drv_vif_index x" "vif_index (retype t fa x) = vif_index x"
    "up (retype t fa x) = up x" "has_ndev (retype t fa x) = has_ndev x" "freed (retype t fa x) = freed x" "addr (retype t fa x) = addr x" for x
    by (simp_all add: retype_def Let_def)
  have r: "w < length (ifaces hw)" if "w \<in> set (vifs hw)" for w using i(1) that by (rule up_in_range)
  have at: "iftype (vif_at ?h w) = (if w = v then t else iftype (vif_at hw w))" "drv_vif_index (vif_at ?h w) = drv_vif_index (vif_at hw w)"
    "vif_index (vif_at ?h w) = vif_index (vif_at hw w)" "up (vif_at ?h w) = up (vif_at hw w)" "has_ndev (vif_at ?h w) = has_ndev (vif_at hw w)"
    "freed (vif_at ?h w) = freed (vif_at hw w)" "addr (vif_at ?h w) = addr (vif_at hw w)" if "w < length (ifaces hw)" for w
    using upd_at [OF r [OF v(1)] that] by (simp_all add: rt)
  have al: "alive w ?h = alive w hw" for w by (auto simp: alive_def at)
  have u: "ups ?h = ups hw" using r by (auto simp: ups_def at)
  have ur: "w < length (ifaces hw)" if "w \<in> ups hw" for w using that r by (simp add: ups_def)
  have vl: "(iftype (vif_at ?h w) = NL80211_IFTYPE_AP_VLAN) = (iftype (vif_at hw w) = NL80211_IFTYPE_AP_VLAN)" if "w < length (ifaces hw)" for w
    using that v t by (simp add: at)
  have "index_inv ?h"
    using i(1) r unfolding index_inv_def upd_vif_simps al by (simp add: at(2) vl)
  moreover have "table_inv ?h"
    using i(2) ur unfolding table_inv_def upd_vif_simps u idx_ok_def by (auto simp: at(2, 3) vl)
  moreover have "kernel_inv U ?h"
    using i(3) r ur unfolding kernel_inv_def upd_vif_simps u al vif_addr_def by (auto simp: at(2, 5, 7) vl alive_def)
  moreover have "fw_inv ?h" using i(4) by (simp add: fw_inv_def)
  ultimately show ?thesis by (simp add: vif_inv_def)
qed

lemma readd_inv:
  assumes fw: "fw_fresh c" and inv: "vif_inv U hw" and v: "v \<in> ups hw" "iftype (vif_at hw v) \<noteq> NL80211_IFTYPE_AP_VLAN" "v \<in> U"
  shows "res_all (\<lambda>e h. e = 0 \<longrightarrow> vif_inv U h) (readd c v hw)"
proof -
  define i where "i = vif_index (vif_at hw v)"
  define g where "g = (vemit [Fw_remove_if i] hw)\<lparr>vif_table := (vif_table hw)[unat i := None]\<rparr>"
  define r where "r = fw_answer c (vemit [Fw_add_if v] g)"
  define T where "T = taken_down v (vemit [Fw_remove_if i] hw)"
  have vl: "v \<in> set (vifs hw)" "v < length (ifaces hw)" "up (vif_at hw v)" using inv v(1) by (auto simp: vif_inv_def ups_def intro: up_in_range)
  have hn: "has_ndev (vif_at hw v)" using inv v(3) by (simp add: vif_inv_def kernel_inv_def)
  have g0: "vif_inv U (vemit [Fw_remove_if i] hw)" "v \<in> ups (vemit [Fw_remove_if i] hw)" using vemit_inv [OF inv] v(1) by (simp_all add: ups_def)
  have T: "vif_inv (U - {v}) T" "vif_started hw \<noteq> 0"
    using taken_down_inv [OF g0] taken_down_tables(4) [OF _ _ _ v(1), of U] inv by (simp_all add: T_def vif_inv_def)
  have dev: "dev_started T" using T(2) inv by (simp add: vif_inv_def fw_inv_def T_def taken_down_def)
  have "vif_inv U ((upd_vif v (\<lambda>x. x\<lparr>vif_index := fw_inst r\<rparr>) (vemit [Fw_add_if v] g))\<lparr>vif_table := (vif_table g)[unat (fw_inst r) := Some v]\<rparr>)" (is "vif_inv U ?h")
    if ok: "fw_error r = 0" "fw_status r = 0" "unat (fw_inst r) < length (vif_table hw)"
  proof -
    have fr: "unat (fw_inst r) < 4" "vif_table g ! unat (fw_inst r) = None" using fw ok unfolding fw_fresh_def r_def by blast+
    have same: "(vif_at hw v)\<lparr>vif_index := fw_inst r, up := True\<rparr> = (vif_at hw v)\<lparr>vif_index := fw_inst r\<rparr>"
      using vl(3) by (cases "vif_at hw v") simp
    have a: "attach v (fw_inst r) (vemit [Fw_add_if v] T) = Some ?h"
      using ok(3) vl
      by (simp add: same attach_def T_def taken_down_def g_def i_def upd_vif_def vemit_def)
    have "vif_at (vemit [Fw_add_if v] T) v = (vif_at hw v)\<lparr>up := False\<rparr>" "vif_table (vemit [Fw_add_if v] T) = vif_table g" "vifs (vemit [Fw_add_if v] T) = vifs hw"
      using vl by (simp_all add: T_def taken_down_def upd_vif_def g_def i_def)
    then have "vif_inv (insert v (U - {v})) ?h"
      using attach_inv [OF vemit_add_inv [OF T(1) dev] _ _ _ _ _ a] dev vl fr hn v(2) by (simp add: idx_ok_def)
    then show ?thesis using v(3) by (simp add: insert_absorb)
  qed
  then show ?thesis
    by (simp add: readd_def Let_def EIO_def g_def r_def i_def)
qed

lemma change_inv:
  assumes fw: "fw_fresh c" and inv: "vif_inv U hw" and v: "v \<in> set (vifs hw)" "iftype (vif_at hw v) \<noteq> NL80211_IFTYPE_AP_VLAN" "has_ndev (vif_at hw v)"
  shows "res_all (\<lambda>e h. e = 0 \<or> v \<notin> U \<or> t = NL80211_IFTYPE_AP_VLAN \<longrightarrow> vif_inv U h) (rwnx_cfg80211_change_iface c v t fa hw)"
    (is "res_all ?P _")
proof -
  define g where "g = vemit ((if ap_like t then [Fw_coex True False] else []) @ (if ap_like (iftype (vif_at hw v)) then [Fw_coex False True] else [])) hw"
  define h where "h = upd_vif v (retype t fa) g"
  have g: "vif_inv U g" "vifs g = vifs hw" "ifaces g = ifaces hw" using vemit_inv [OF inv] by (simp_all add: g_def)
  show ?thesis
  proof (cases "t = NL80211_IFTYPE_AP_VLAN")
    case True
    then show ?thesis using g(1) by (simp add: rwnx_cfg80211_change_iface_def Let_def g_def)
  next
    case False
    have h: "vif_inv U h" using retype_inv [OF g(1)] v False by (simp add: g h_def)
    have vl: "v < length (ifaces hw)" using inv v(1) by (auto simp: vif_inv_def intro: up_in_range)
    have hv: "vif_at h v = retype t fa (vif_at hw v)" using vl by (simp add: h_def upd_at g)
    have it: "iftype (vif_at h v) = t" "up (vif_at h v) = up (vif_at hw v)" by (simp_all add: hv retype_def Let_def)
    have ra: "res_all ?P (readd c v (k\<lparr>scan_request := r\<rparr>))" if k: "vif_inv U k" "vifs k = vifs hw" "ifaces k = ifaces h" and u: "up (vif_at hw v)" for k r
    proof -
      have k': "vif_inv U (k\<lparr>scan_request := r\<rparr>)" using k(1) by (rule same_state_inv) (simp_all add: same_core_def)
      have "v \<in> ups (k\<lparr>scan_request := r\<rparr>)" using v(1) u k it by (simp add: ups_def)
      moreover have "v \<in> U" using inv v u by (simp add: vif_inv_def kernel_inv_def ups_def)
      ultimately have "res_all (\<lambda>e h. e = 0 \<longrightarrow> vif_inv U h) (readd c v (k\<lparr>scan_request := r\<rparr>))"
        using readd_inv [OF fw k'] k it False by simp
      then show ?thesis using \<open>v \<in> U\<close> False by simp
    qed
    have hs: "vifs h = vifs hw" by (simp add: h_def g)
    have e: "vif_inv U (vemit ms h)" if "list_all quiet ms" for ms using vemit_inv [OF h that] .
    have ve: "vemit [b] (vemit [a] h) = vemit [a, b] h" for a b by (simp add: vemit_def)
    have "h\<lparr>scan_request := scan_request h\<rparr> = h" by simp
    then show ?thesis
      using False h ra [OF h hs, of "scan_request h"] e [of "[Cfg_scan_done q True, Fw_scan_cancel]" for q]
        ra [of "vemit [Cfg_scan_done q True, Fw_scan_cancel] h" None for q] hs
      by (auto simp: rwnx_cfg80211_change_iface_def Let_def g_def [symmetric] h_def [symmetric] it ve scans_def abort_scan_def split: option.splits)
  qed
qed

subsection \<open>The P2P device and scans\<close>

lemma p2p_down_inv:
  assumes inv: "vif_inv U hw" and p: "p \<in> set (vifs hw)" "\<not> has_ndev (vif_at hw p)" and h: "p2p_down p hw = Some h"
  shows "vif_inv U h"
proof (cases "up (vif_at hw p)")
  case True
  define g where "g = vemit [Fw_remove_if (vif_index (vif_at hw p))] hw"
  have g: "vif_inv U g" "p \<in> ups g" using vemit_inv [OF inv] p True by (simp_all add: g_def ups_def)
  have "h = taken_down p g" using h True by (auto simp: p2p_down_def taken_down_def g_def split: if_splits)
  moreover have "p \<notin> U" using inv p by (simp add: vif_inv_def kernel_inv_def)
  ultimately show ?thesis using taken_down_inv [OF g] by simp
qed (use h inv in \<open>simp add: p2p_down_def\<close>)

lemma p2p_dev:
  assumes "vif_inv U hw" "p2p_dev_vif hw = Some p" "alive p hw"
  shows "p \<in> set (vifs hw)" "\<not> has_ndev (vif_at hw p)" "iftype (vif_at hw p) \<noteq> NL80211_IFTYPE_AP_VLAN"
  using assms by (simp_all add: vif_inv_def index_inv_def kernel_inv_def)

lemma timeout_inv:
  assumes inv: "vif_inv U hw" and h: "aicwf_p2p_alive_timeout hw = Some h"
  shows "vif_inv U h"
proof -
  have s: "vif_inv U g" "p2p_dev_vif g = p2p_dev_vif hw" "vifs g = vifs hw" "alive q g = alive q hw" "vif_at g q = vif_at hw q"
    if "g = hw\<lparr>p2p_timer := a, is_p2p_alive := b, p2p_alive_timer_count := n\<rparr>" for g a b n q
    using that inv by (auto intro!: same_state_inv [OF inv] simp: same_core_def alive_def)
  define n where "n = (if list_ex (\<lambda>v. \<not> bit (avail_idx_map hw) (drv_vif_index (vif_at hw v)) \<and>
            (iftype (vif_at hw v) = NL80211_IFTYPE_P2P_CLIENT \<or> iftype (vif_at hw v) = NL80211_IFTYPE_P2P_GO)) (vifs hw) then (True, 0) else (is_p2p_alive hw, Suc (p2p_alive_timer_count hw)))"
  show ?thesis
  proof (cases "snd n < P2P_ALIVE_TIME_COUNT")
    case True
    then have "h = hw\<lparr>p2p_timer := True, is_p2p_alive := fst n, p2p_alive_timer_count := snd n\<rparr>"
      using h by (auto simp: aicwf_p2p_alive_timeout_def Let_def n_def split: if_splits)
    then show ?thesis by (rule s(1))
  next
    case False
    define g where "g = hw\<lparr>p2p_timer := False, is_p2p_alive := False, p2p_alive_timer_count := 0\<rparr>"
    have g': "g = hw\<lparr>p2p_timer := False, p2p_alive_timer_count := 0, is_p2p_alive := False\<rparr>" by (cases hw) (simp add: g_def)
    obtain p where p: "p2p_dev_vif hw = Some p" "alive p hw" "p2p_down p g = Some h"
      using h False by (auto simp: aicwf_p2p_alive_timeout_def Let_def n_def g' alive_def split: if_splits option.splits)
    show ?thesis using p2p_down_inv [OF s(1) [OF g_def] _ _ p(3)] p2p_dev [OF inv p(1, 2)] s(3, 5) [OF g_def] by simp
  qed
qed

lemma stop_p2p_inv:
  assumes inv: "vif_inv U hw" and v: "v \<in> set (vifs hw)" and h: "rwnx_cfgp2p_stop_p2p_device v hw = Some h"
  shows "vif_inv U h"
proof -
  define g where "g = (if scans v hw then vemit [Fw_scan_cancel] ((abort_scan hw)\<lparr>scan_request := None\<rparr>) else hw)"
  have r: "vif_inv U ((abort_scan hw)\<lparr>scan_request := None\<rparr>)"
  proof (rule same_state_inv [of U "abort_scan hw"])
    show "vif_inv U (abort_scan hw)" using vemit_inv [OF inv] inv by (simp add: abort_scan_def split: option.split)
  qed (simp_all add: same_core_def)
  have g: "vif_inv U g" "p2p_dev_vif g = p2p_dev_vif hw" "vifs g = vifs hw" "ifaces g = ifaces hw"
    using inv vemit_inv [OF r] by (simp_all add: g_def abort_scan_def split: option.split)
  show ?thesis
  proof (cases "p2p_dev_vif hw = Some v")
    case True
    define k where "k = g\<lparr>is_p2p_alive := False, p2p_timer := False\<rparr>"
    have k: "vif_inv U k" "vifs k = vifs hw" "ifaces k = ifaces hw" using g by (auto intro!: same_state_inv [OF g(1)] simp: same_core_def k_def)
    have "p2p_down v k = Some h" using h True g(2) by (simp add: rwnx_cfgp2p_stop_p2p_device_def Let_def g_def [symmetric] k_def)
    moreover have "\<not> has_ndev (vif_at hw v)" using inv True by (simp add: vif_inv_def kernel_inv_def)
    ultimately show ?thesis using p2p_down_inv [OF k(1)] v k by simp
  next
    case False
    then show ?thesis using h g by (simp add: rwnx_cfgp2p_stop_p2p_device_def Let_def g_def [symmetric])
  qed
qed

lemma same_state_simps:
  assumes "vif_inv U hw"
  shows "vif_inv U (hw\<lparr>roc_elem := r\<rparr>)" "vif_inv U (hw\<lparr>scan_request := q\<rparr>)" "vif_inv U (hw\<lparr>scanning := b\<rparr>)"
    "vif_inv U (hw\<lparr>is_sched_scan := b\<rparr>)"
  by (rule same_state_inv [OF assms]; simp add: same_core_def)+

lemma roc_inv:
  assumes fw: "fw_fresh c" and inv: "vif_inv U hw" "dev_started hw" and v: "v \<in> set (vifs hw)"
  shows "res_all (\<lambda>e h. vif_inv U h) (rwnx_cfg80211_remain_on_channel c al v hw)"
proof -
  define go where "go = (\<lambda>hw. if \<not> al then Some (- ENOMEM_vif, hw)
                else request c (Fw_roc (vif_index (vif_at hw v))) (hw\<lparr>roc_elem := Some v\<rparr>) (\<lambda>r hw.
                  if fw_error r \<noteq> 0 then Some (fw_error r, hw\<lparr>roc_elem := None\<rparr>)
                  else if fw_status r \<noteq> 0 then Some (- EBUSY_vif, hw\<lparr>roc_elem := None\<rparr>)
                  else Some (0, hw)))"
  have go: "res_all (\<lambda>e h. vif_inv U h) (go h)" if "vif_inv U h" for h
    using that by (auto simp: go_def same_state_simps vemit_inv)
  have "res_all (\<lambda>e h. vif_inv U h) (add_if c True v hw (\<lambda>hw. go (start_p2p_timer (hw\<lparr>is_p2p_alive := True\<rparr>))))"
    if p: "p2p_dev_vif hw = Some v" "\<not> up (vif_at hw v)"
  proof (rule add_if_inv [OF fw inv v p(2)])
    have "alive v hw" using inv(1) v by (simp add: vif_inv_def index_inv_def)
    note d = p2p_dev [OF inv(1) p(1) this]
    then show "iftype (vif_at hw v) \<noteq> NL80211_IFTYPE_AP_VLAN" by simp
    show "vif_inv U h \<Longrightarrow> vif_inv U h" for h by assumption
    show "res_all (\<lambda>e h. vif_inv U h) (go (start_p2p_timer (h\<lparr>is_p2p_alive := True\<rparr>)))" if "vif_inv (if has_ndev (vif_at hw v) then insert v U else U) h" for h
      using that d by (intro go p2p_alive_inv) simp
  qed
  then show ?thesis
    using inv go by (simp add: rwnx_cfg80211_remain_on_channel_def Let_def go_def [symmetric])
qed

lemma scan_p2p_is_add_if:
  "res_all P (scan_p2p c v (Suc n) hw k) \<longleftrightarrow> (if p2p_dev_vif hw = Some v \<and> \<not> up (vif_at hw v)
     then fw_error (fw_answer c (vemit [Fw_add_if v] hw)) \<noteq> 0 \<and> P (- ENOMEM_vif) (vemit [Fw_add_if v] hw) \<or>
       fw_error (fw_answer c (vemit [Fw_add_if v] hw)) = 0 \<and> res_all P (add_if c True v hw (\<lambda>hw. scan_p2p c v n (start_p2p_timer (hw\<lparr>is_p2p_alive := True\<rparr>)) k))
     else res_all P (scan_p2p c v n (start_p2p_timer (hw\<lparr>is_p2p_alive := True\<rparr>)) k))"
  by (auto simp: add_if_def Let_def)

lemma scan_p2p_inv:
  assumes fw: "fw_fresh c" and k: "\<And>h. vif_inv U h \<Longrightarrow> res_all (\<lambda>e h. vif_inv U h) (k h)"
  shows "vif_inv U hw \<Longrightarrow> dev_started hw \<Longrightarrow> v \<in> set (vifs hw) \<Longrightarrow> res_all (\<lambda>e h. vif_inv U h) (scan_p2p c v n hw k)"
proof (induction n arbitrary: hw)
  case 0
  then show ?case using k by simp
next
  case (Suc n)
  have "res_all (\<lambda>e h. vif_inv U h) (add_if c True v hw (\<lambda>hw. scan_p2p c v n (start_p2p_timer (hw\<lparr>is_p2p_alive := True\<rparr>)) k))"
    if p: "p2p_dev_vif hw = Some v" "\<not> up (vif_at hw v)"
  proof (rule add_if_inv [OF fw Suc.prems p(2)])
    have "alive v hw" using Suc.prems by (simp add: vif_inv_def index_inv_def)
    note d = p2p_dev [OF Suc.prems(1) p(1) this]
    then show "iftype (vif_at hw v) \<noteq> NL80211_IFTYPE_AP_VLAN" by simp
    show "vif_inv U h \<Longrightarrow> vif_inv U h" for h by assumption
    show "res_all (\<lambda>e h. vif_inv U h) (scan_p2p c v n (start_p2p_timer (h\<lparr>is_p2p_alive := True\<rparr>)) k)"
      if "vif_inv (if has_ndev (vif_at hw v) then insert v U else U) h" "framed v hw h" for h
      using that d Suc.prems by (intro Suc.IH) (simp_all add: framed_def)
  qed
  then show ?case
    using Suc vemit_add_inv [OF Suc.prems(1, 2)] unfolding scan_p2p_is_add_if by simp
qed

lemma scan_inv:
  assumes fw: "fw_fresh c" and inv: "vif_inv U hw" "dev_started hw" and v: "req_vif r \<in> set (vifs hw)"
  shows "res_all (\<lambda>e h. vif_inv U h) (rwnx_cfg80211_scan c n al ie r hw)"
proof -
  have "res_all (\<lambda>e h. vif_inv U h) (scan_p2p c (req_vif r) n (hw\<lparr>scan_request := Some r, scanning := True\<rparr>) (\<lambda>hw.
        let go = (\<lambda>hw. request c (Fw_scan_start (vif_index (vif_at hw (req_vif r)))) hw (\<lambda>r hw. Some (fw_error r, hw))) in
        case ie of
          None \<Rightarrow> go hw
        | Some False \<Rightarrow> Some (- ENOMEM_vif, hw)
        | Some True \<Rightarrow> request c Fw_scan_ie hw (\<lambda>r hw. if fw_error r \<noteq> 0 then Some (- ENOMEM_vif, hw) else go hw)))"
    by (rule scan_p2p_inv [OF fw]) (use inv v in \<open>auto simp: same_state_simps vemit_inv Let_def split: option.split bool.split\<close>)
  then show ?thesis
    using inv by (simp add: rwnx_cfg80211_scan_def rwnx_send_scanu_req_def same_state_simps)
qed

lemma sched_scan_inv:
  assumes "fw_fresh c" "vif_inv U hw" "dev_started hw" "v \<in> set (vifs hw)"
  shows "res_all (\<lambda>e h. vif_inv U h) (rwnx_cfg80211_sched_scan_start c n al ie v hw)"
  using assms scan_inv [OF assms(1) same_state_simps(4) [OF assms(2)], where r = "Allocated v"]
  by (simp add: rwnx_cfg80211_sched_scan_start_def)

lemma sched_scan_stop_inv: "vif_inv U hw \<Longrightarrow> res_all (\<lambda>e h. vif_inv U h) (rwnx_cfg80211_sched_scan_stop c hw)"
  by (simp add: rwnx_cfg80211_sched_scan_stop_def vemit_inv)

lemma scan_cfm_inv: "vif_inv U hw \<Longrightarrow> rwnx_rx_scanu_start_cfm hw = Some h \<Longrightarrow> vif_inv U h"
  by (auto simp: rwnx_rx_scanu_start_cfm_def Let_def same_state_simps vemit_inv split: option.splits if_splits)

end
