(* ===== verification/Vif_Sta.thy ===== *)
theory Vif_Sta
  imports Vif_Mgmt
begin

text \<open>
  Stations and connections (\<^verbatim>\<open>rwnx_main.c\<close>, the SM indications of \<^verbatim>\<open>rwnx_msg_rx.c\<close>): the stations of an access
  point, its start and stop, connecting and disconnecting, external authentication and keys.  A station
  is its position in \<open>sta_table\<close>.  What these functions do to the transmit and reorder queues is an output;
  those queues are in their own theories.  Capabilities, rates and the channel description of a station and
  its TDLS and mesh state are left out.
\<close>

unbundle bit_operations_syntax

subsection \<open>Data\<close>

definition ENOENT_vif :: int where "ENOENT_vif = 2"
definition EINVAL_vif :: int where "EINVAL_vif = 22"
definition EPIPE_vif :: int where "EPIPE_vif = 32"
definition ENOBUFS_vif :: int where "ENOBUFS_vif = 105"
definition EALREADY_vif :: int where "EALREADY_vif = 114"
definition EINPROGRESS_vif :: int where "EINPROGRESS_vif = 115"

definition CO_OK :: u8 where "CO_OK = 0"
definition CO_BUSY :: u8 where "CO_BUSY = 8"
definition CO_OP_IN_PROGRESS :: u8 where "CO_OP_IN_PROGRESS = 9"

definition WLAN_STATUS_UNSPECIFIED_FAILURE :: u16 where "WLAN_STATUS_UNSPECIFIED_FAILURE = 1"
definition WLAN_STATUS_NOT_SUPPORTED_AUTH_ALG :: u16 where "WLAN_STATUS_NOT_SUPPORTED_AUTH_ALG = 13"

text \<open>Bits of \<open>sta_flags_set\<close> and \<open>sta_flags_mask\<close>.\<close>

definition NL80211_STA_FLAG_AUTHORIZED :: nat where "NL80211_STA_FLAG_AUTHORIZED = 1"
definition NL80211_STA_FLAG_WME :: nat where "NL80211_STA_FLAG_WME = 3"
definition NL80211_STA_FLAG_TDLS_PEER :: nat where "NL80211_STA_FLAG_TDLS_PEER = 6"

record station_parameters =
  sp_aid :: u16
  sp_flags_set :: u32
  sp_flags_mask :: u32
  sp_vlan :: "nat option"

record connect_params =
  cp_auth :: nl80211_auth_type
  cp_cipher_group :: u32
  cp_n_pairwise :: nat
  cp_cipher_pairwise :: u32
  cp_key :: "u8 list option"
  cp_key_idx :: nat
  cp_external_auth :: bool
  cp_ie_len :: nat

record sm_connect_ind =
  ci_status_code :: u16
  ci_bssid :: "u8 list"
  ci_roamed :: bool
  ci_vif_idx :: u8
  ci_ap_idx :: u8
  ci_ch_idx :: u8
  ci_qos :: bool
  ci_aid :: u16

record sm_disconnect_ind =
  di_vif_idx :: u8
  di_ft_over_ds :: bool
  di_reassoc :: bool

abbreviation drv_sta_at :: "vif_hw \<Rightarrow> nat \<Rightarrow> drv_sta" where "drv_sta_at hw s \<equiv> sta_table hw ! s"

definition upd_drv_sta :: "nat \<Rightarrow> (drv_sta \<Rightarrow> drv_sta) \<Rightarrow> vif_hw \<Rightarrow> vif_hw" where
  "upd_drv_sta s f hw = hw\<lparr>sta_table := (sta_table hw)[s := f (drv_sta_at hw s)]\<rparr>"

text \<open>The interface with the firmware's index \<open>i\<close>; a free place in the table is a null pointer.\<close>

definition vif_of :: "u8 \<Rightarrow> vif_hw \<Rightarrow> nat option" where
  "vif_of i hw = (if unat i < length (vif_table hw) then vif_table hw ! unat i else None)"

subsection \<open>Finding stations\<close>

definition rwnx_get_sta :: "u8 list \<Rightarrow> vif_hw \<Rightarrow> nat option" where
  "rwnx_get_sta mac hw = find (\<lambda>s. s_valid (drv_sta_at hw s) \<and> s_mac (drv_sta_at hw s) = mac) [0..<NX_REMOTE_STA_MAX_vif]"

text \<open>Deauthentication, disassociation and action frames are bufferable; \<open>fc\<close> is the frame control field.\<close>

definition bufferable_mmpdu :: "u16 \<Rightarrow> bool" where
  "bufferable_mmpdu fc \<longleftrightarrow> fc AND 0xFC \<in> {0xC0, 0xA0, 0xD0}"

definition rwnx_retrieve_sta :: "nat \<Rightarrow> u8 list \<Rightarrow> u16 \<Rightarrow> bool \<Rightarrow> vif_hw \<Rightarrow> nat option" where
  "rwnx_retrieve_sta v mac fc ap hw =
     (if \<not> ap then sta_ap (vif_at hw v)
      else if \<not> bufferable_mmpdu fc then None
      else if bit (mac ! 0) 0
      then (let s = bcmc_index (vif_at hw v) in if s_valid (drv_sta_at hw s) then Some s else None)
      else find (\<lambda>s. s_valid (drv_sta_at hw s) \<and> s_mac (drv_sta_at hw s) = mac) (ap_stas (vif_at hw v)))"

subsection \<open>Adding a station\<close>

text \<open>
  The confirmation of a station has its index in \<open>fw_inst\<close> and its power-save state in \<open>fw_ch\<close>.  \<open>fill_sta\<close>
  is what \<open>add_station\<close> and the TDLS branch of \<open>change_station\<close> write alike.
\<close>

definition fill_sta :: "nat \<Rightarrow> u8 list \<Rightarrow> station_parameters \<Rightarrow> u8 \<Rightarrow> vif_hw \<Rightarrow> drv_sta \<Rightarrow> drv_sta" where
  "fill_sta v mac sp i hw x = x\<lparr>s_aid := sp_aid sp, s_idx := i, s_ch_idx := vif_ch_index (chan hw) ! v, s_vif_idx := vif_index (vif_at hw v),
     s_vlan_idx := vif_index (vif_at hw v), s_qos := bit (sp_flags_set sp) NL80211_STA_FLAG_WME, s_mac := mac\<rparr>"

definition rwnx_cfg80211_add_station :: "vif_cfg \<Rightarrow> nat \<Rightarrow> u8 list \<Rightarrow> station_parameters \<Rightarrow> vif_hw \<Rightarrow> vif_res" where
  "rwnx_cfg80211_add_station c v mac sp hw =
     (if bit (sp_flags_set sp) NL80211_STA_FLAG_TDLS_PEER then Some (0, hw)
      else request_ok c (Fw_sta_add (vif_index (vif_at hw v))) (hw\<lparr>adding_sta := True\<rparr>) (\<lambda>r hw.
        let s = unat (fw_inst r) in
        if fw_status r \<noteq> CO_OK then Some (- EBUSY_vif, hw\<lparr>adding_sta := False\<rparr>)
        else if length (sta_table hw) \<le> s then None
        else
          let hw = vemit [Txq_sta_init s] (upd_drv_sta s (\<lambda>x. (fill_sta v mac sp (fw_inst r) hw x)\<lparr>s_key := 0\<rparr>) hw);
              hw = upd_vif v (\<lambda>x. x\<lparr>ap_stas := ap_stas x @ [s]\<rparr>) hw;
              hw = upd_drv_sta s (\<lambda>x. x\<lparr>s_valid := True, s_ps_active := s_ps_active x \<or> fw_ch r \<noteq> 0\<rparr>) hw;
              hw = (if ap_like (iftype (vif_at hw v)) then vemit [Cfg_new_sta v mac] hw else hw)
          in Some (0, hw\<lparr>adding_sta := False\<rparr>)))"

subsection \<open>Removing stations\<close>

text \<open>The 4-address VLAN interface of a station forgets it; a VLAN that is closed is a null pointer.\<close>

definition forget_4a :: "nat \<Rightarrow> vif_hw \<Rightarrow> vif_hw option" where
  "forget_4a s hw =
     (if s_vif_idx (drv_sta_at hw s) = s_vlan_idx (drv_sta_at hw s) then Some hw
      else case vif_of (s_vlan_idx (drv_sta_at hw s)) hw of
        None \<Rightarrow> None
      | Some w \<Rightarrow> Some (if up (vif_at hw w) \<and> iftype (vif_at hw w) = NL80211_IFTYPE_AP_VLAN \<and> use_4addr (vif_at hw w)
                   then upd_vif w (\<lambda>x. x\<lparr>sta_4a := None\<rparr>) hw else hw))"

definition unlink_sta :: "nat \<Rightarrow> nat \<Rightarrow> vif_hw \<Rightarrow> vif_hw" where
  "unlink_sta v s hw = upd_vif v (\<lambda>x. x\<lparr>ap_stas := remove1 s (ap_stas x)\<rparr>) (upd_drv_sta s (\<lambda>x. x\<lparr>s_ps_active := False, s_valid := False\<rparr>) hw)"

text \<open>The rest of a removal, \<open>tell\<close>: cfg80211 is told; on an interface that joins networks it is a \<open>BUG\<close>.\<close>

definition drop_sta :: "vif_cfg \<Rightarrow> bool \<Rightarrow> nat \<Rightarrow> nat \<Rightarrow> vif_hw \<Rightarrow> vif_res" where
  "drop_sta c tell v s hw =
     (case forget_4a s (unlink_sta v s hw) of
        None \<Rightarrow> None
      | Some hw \<Rightarrow>
          let ap = ap_like (iftype (vif_at hw v));
              mac = s_mac (drv_sta_at hw s) in
          if sta_like (iftype (vif_at hw v)) then None
          else request c (Fw_sta_del (s_idx (drv_sta_at hw s))) (vemit ((if tell \<and> ap then [Cfg_del_sta v mac] else []) @ (if ap then [Reord_deinit mac] else []) @ [Txq_sta_deinit s]) hw)
            (\<lambda>r hw. Some (if fw_error r = - EPIPE_vif then 0 else fw_error r, hw)))"

text \<open>All stations: the loop takes the first one until the list is empty or a removal fails.\<close>

fun drop_stas :: "vif_cfg \<Rightarrow> nat \<Rightarrow> nat list \<Rightarrow> vif_hw \<Rightarrow> vif_res" where
  "drop_stas c v [] hw = Some (0, hw)"
| "drop_stas c v (s # ss) hw =
     (case drop_sta c True v s hw of
        None \<Rightarrow> None
      | Some (e, hw) \<Rightarrow> if e \<noteq> 0 then Some (e, hw) else drop_stas c v ss hw)"

definition rwnx_cfg80211_del_station_compat :: "vif_cfg \<Rightarrow> nat \<Rightarrow> u8 list option \<Rightarrow> vif_hw \<Rightarrow> vif_res" where
  "rwnx_cfg80211_del_station_compat c v mac hw =
     (case mac of
        None \<Rightarrow> drop_stas c v (ap_stas (vif_at hw v)) hw
      | Some m \<Rightarrow> case find (\<lambda>s. s_mac (drv_sta_at hw s) = m) (ap_stas (vif_at hw v)) of
          None \<Rightarrow> Some (- ENOENT_vif, hw)
        | Some s \<Rightarrow> drop_sta c True v s hw)"

text \<open>The work that removes a lost station: the first interface with the index counts, up or not.\<close>

definition apm_staloss_work_process :: "vif_cfg \<Rightarrow> u8 \<Rightarrow> u8 list \<Rightarrow> vif_hw \<Rightarrow> vif_hw option" where
  "apm_staloss_work_process c apm_vif_idx mac hw =
     (case find (\<lambda>v. vif_index (vif_at hw v) = apm_vif_idx) (vifs hw) of
        None \<Rightarrow> Some hw
      | Some v \<Rightarrow>
          if \<not> ap_like (iftype (vif_at hw v)) then Some hw
          else case find (\<lambda>s. s_mac (drv_sta_at hw s) = mac) (ap_stas (vif_at hw v)) of
              None \<Rightarrow> Some hw
            | Some s \<Rightarrow> map_option snd (drop_sta c False v s hw))"

subsection \<open>Changing a station\<close>

text \<open>A TDLS peer that is not known is added; when the firmware refuses, the pointer stays null and the rest goes on with it.\<close>

definition move_to_vlan :: "nat \<Rightarrow> nat \<Rightarrow> vif_hw \<Rightarrow> vif_res" where
  "move_to_vlan w s hw =
     (let i = vif_index (vif_at hw w) in
      if s_vlan_idx (drv_sta_at hw s) = i then Some (0, hw)
      else case vif_of (s_vlan_idx (drv_sta_at hw s)) hw of
        None \<Rightarrow> None
      | Some old \<Rightarrow>
          let hw = upd_drv_sta s (\<lambda>x. x\<lparr>s_vlan_idx := i\<rparr>) (vemit [Txq_sta_switch_vif s old w] hw);
              vlan4 = (\<lambda>v. iftype (vif_at hw v) = NL80211_IFTYPE_AP_VLAN \<and> use_4addr (vif_at hw v));
              hw = (if vlan4 w then upd_vif w (\<lambda>x. x\<lparr>sta_4a := Some s\<rparr>) hw else hw)
          in Some (0, if vlan4 old then upd_vif old (\<lambda>x. x\<lparr>sta_4a := None\<rparr>) hw else hw))"

definition change_known :: "station_parameters \<Rightarrow> nat option \<Rightarrow> vif_hw \<Rightarrow> vif_res" where
  "change_known sp sta hw =
     (let auth = bit (sp_flags_mask sp) NL80211_STA_FLAG_AUTHORIZED in
      case sta of
        None \<Rightarrow> if auth \<or> sp_vlan sp \<noteq> None then None else Some (0, hw)
      | Some s \<Rightarrow>
          let hw = (if auth then vemit [Fw_control_port (s_idx (drv_sta_at hw s)) (bit (sp_flags_set sp) NL80211_STA_FLAG_AUTHORIZED)] hw else hw)
          in case sp_vlan sp of None \<Rightarrow> Some (0, hw) | Some w \<Rightarrow> move_to_vlan w s hw)"

definition rwnx_cfg80211_change_station :: "vif_cfg \<Rightarrow> nat \<Rightarrow> u8 list \<Rightarrow> station_parameters \<Rightarrow> vif_hw \<Rightarrow> vif_res" where
  "rwnx_cfg80211_change_station c v mac sp hw =
     (case rwnx_get_sta mac hw of
        Some s \<Rightarrow> change_known sp (Some s) hw
      | None \<Rightarrow>
          if \<not> bit (sp_flags_set sp) NL80211_STA_FLAG_TDLS_PEER then Some (- EINVAL_vif, hw)
          else request_ok c (Fw_sta_add (vif_index (vif_at hw v))) (hw\<lparr>adding_sta := True\<rparr>) (\<lambda>r hw.
            let s = unat (fw_inst r) in
            if fw_status r \<noteq> CO_OK then change_known sp None (hw\<lparr>adding_sta := False\<rparr>)
            else if length (sta_table hw) \<le> s then None
            else change_known sp (Some s)
              ((upd_drv_sta s (\<lambda>x. x\<lparr>s_valid := True\<rparr>) (upd_vif v (\<lambda>x. x\<lparr>tdls_sta := Some s\<rparr>)
                (vemit [Txq_sta_init s] (upd_drv_sta s (fill_sta v mac sp (fw_inst r) hw) hw))))\<lparr>adding_sta := False\<rparr>)))"

subsection \<open>Starting and stopping an access point\<close>

definition co_error :: "u8 \<Rightarrow> int" where
  "co_error st = (if st = CO_OK then 0 else if st = CO_BUSY then - EINPROGRESS_vif else if st = CO_OP_IN_PROGRESS then - EALREADY_vif else - EIO)"

text \<open>\<open>wq\<close>: the workqueue for probes is created; the station for broadcasts is \<open>fw_inst\<close>, the channel context \<open>fw_ch\<close>.\<close>

definition rwnx_cfg80211_start_ap :: "vif_cfg \<Rightarrow> nat \<Rightarrow> bool \<Rightarrow> cfg80211_chan_def \<Rightarrow> vif_hw \<Rightarrow> vif_res" where
  "rwnx_cfg80211_start_ap c v wq chandef hw =
     (if \<not> wq then Some (- ENOBUFS_vif, hw)
      else
        let hw = vemit [Workqueue_create v] hw;
            hw = (if iftype (vif_at hw v) = NL80211_IFTYPE_P2P_GO then hw\<lparr>is_p2p_connected := True\<rparr> else hw)
        in request_ok c (Fw_apm_start (vif_index (vif_at hw v))) hw (\<lambda>r hw.
          let s = unat (fw_inst r) in
          if fw_status r \<noteq> CO_OK then Some (co_error (fw_status r), hw)
          else if length (sta_table hw) \<le> s then None
          else
            let hw = upd_vif v (\<lambda>x. x\<lparr>bcmc_index := s\<rparr>) hw;
                hw = upd_drv_sta s (\<lambda>x. x\<lparr>s_valid := True, s_aid := 0, s_idx := fw_inst r, s_ch_idx := fw_ch r,
                       s_vif_idx := vif_index (vif_at hw v), s_qos := False, s_ps_active := False\<rparr>) hw;
                hw = vemit [Txq_vif_init v] (hw\<lparr>chan := rwnx_chanctx_link v (fw_ch r) (Some chandef) (chan hw)\<rparr>);
                hw = upd_vif v (\<lambda>x. x\<lparr>carrier := True\<rparr>) (vemit [Queues_start v] hw)
            in Some (0, if cur_chanctx (chan hw) = fw_ch r then hw\<lparr>chan := rwnx_radar_detection_enable_on_cur_channel (chan hw)\<rparr> else hw)))"

text \<open>Stations are removed until none is left; a removal that fails has taken its station off the list, so \<open>n\<close> is enough when it is the number of stations.\<close>

fun stop_loop :: "vif_cfg \<Rightarrow> nat \<Rightarrow> nat \<Rightarrow> vif_hw \<Rightarrow> vif_hw option" where
  "stop_loop c v n hw =
     (if ap_stas (vif_at hw v) = [] then Some hw
      else case n of 0 \<Rightarrow> None
        | Suc m \<Rightarrow> (case rwnx_cfg80211_del_station_compat c v None hw of None \<Rightarrow> None | Some (_, hw) \<Rightarrow> stop_loop c v m hw))"

declare stop_loop.simps [simp del]

definition rwnx_cfg80211_stop_ap :: "vif_cfg \<Rightarrow> nat \<Rightarrow> vif_hw \<Rightarrow> vif_res" where
  "rwnx_cfg80211_stop_ap c v hw =
     (let hw = upd_vif v (\<lambda>x. x\<lparr>carrier := False\<rparr>) (vemit [Queues_stop v] hw);
          hw = (if iftype (vif_at hw v) = NL80211_IFTYPE_P2P_GO then hw\<lparr>is_p2p_connected := False\<rparr> else hw);
          hw = vemit [Fw_apm_stop (vif_index (vif_at hw v))] (hw\<lparr>chan := rwnx_radar_cancel_cac (chan hw)\<rparr>);
          hw = hw\<lparr>chan := rwnx_chanctx_unlink v (chan hw)\<rparr>
      in case stop_loop c v (length (ap_stas (vif_at hw v))) hw of
           None \<Rightarrow> None
         | Some hw \<Rightarrow> Some (0, vemit [Txq_vif_deinit v, Workqueue_destroy v] hw))"

subsection \<open>Keys\<close>

definition WLAN_CIPHER_SUITE_WEP40 :: u32 where "WLAN_CIPHER_SUITE_WEP40 = 0x000FAC01"
definition WLAN_CIPHER_SUITE_TKIP :: u32 where "WLAN_CIPHER_SUITE_TKIP = 0x000FAC02"
definition WLAN_CIPHER_SUITE_CCMP :: u32 where "WLAN_CIPHER_SUITE_CCMP = 0x000FAC04"
definition WLAN_CIPHER_SUITE_WEP104 :: u32 where "WLAN_CIPHER_SUITE_WEP104 = 0x000FAC05"
definition WLAN_CIPHER_SUITE_AES_CMAC :: u32 where "WLAN_CIPHER_SUITE_AES_CMAC = 0x000FAC06"
definition WLAN_CIPHER_SUITE_SMS4 :: u32 where "WLAN_CIPHER_SUITE_SMS4 = 0x00147201"

definition mac_cipher :: "u32 \<Rightarrow> u8 option" where
  "mac_cipher suite =
     (if suite = WLAN_CIPHER_SUITE_WEP40 then Some 0
      else if suite = WLAN_CIPHER_SUITE_WEP104 then Some 3
      else if suite = WLAN_CIPHER_SUITE_TKIP then Some 1
      else if suite = WLAN_CIPHER_SUITE_CCMP then Some 2
      else if suite = WLAN_CIPHER_SUITE_AES_CMAC then Some 5
      else if suite = WLAN_CIPHER_SUITE_SMS4 then Some 4
      else None)"

text \<open>A WPI key is two keys of 16 octets, each of which is reversed in place by swaps.\<close>

definition WPI_KEY_LEN :: nat where "WPI_KEY_LEN = 32"
definition WPI_SUBKEY_LEN :: nat where "WPI_SUBKEY_LEN = 16"

definition swap_octets :: "nat \<Rightarrow> nat \<Rightarrow> u8 list \<Rightarrow> u8 list" where
  "swap_octets i j k = k[i := k ! j, j := k ! i]"

definition wpi_reverse :: "u8 list \<Rightarrow> u8 list" where
  "wpi_reverse key =
     fold (\<lambda>i. swap_octets (i + WPI_SUBKEY_LEN) (WPI_KEY_LEN - 1 - i)) [0..<WPI_SUBKEY_LEN div 2]
       (fold (\<lambda>i. swap_octets i (WPI_SUBKEY_LEN - 1 - i)) [0..<WPI_SUBKEY_LEN div 2] key)"

text \<open>Whose key it is: a station's, when there is an address, or the interface's with the index \<open>idx\<close>.\<close>

definition key_owner :: "u8 list option \<Rightarrow> vif_hw \<Rightarrow> nat option option" where
  "key_owner mac hw = (case mac of None \<Rightarrow> Some None | Some m \<Rightarrow> map_option Some (rwnx_get_sta m hw))"

definition set_key :: "nat \<Rightarrow> nat option \<Rightarrow> nat \<Rightarrow> u8 \<Rightarrow> vif_hw \<Rightarrow> vif_hw" where
  "set_key v sta idx k hw =
     (case sta of
        Some s \<Rightarrow> upd_drv_sta s (\<lambda>x. x\<lparr>s_key := k\<rparr>) hw
      | None \<Rightarrow> upd_vif v (\<lambda>x. x\<lparr>vif_keys := (vif_keys x)[idx := k]\<rparr>) hw)"

definition note_cipher :: "nat \<Rightarrow> nat option \<Rightarrow> u32 \<Rightarrow> bool \<Rightarrow> vif_hw \<Rightarrow> vif_hw" where
  "note_cipher v sta cipher added hw =
     upd_vif v (\<lambda>x.
       let x = (if sta = None then x\<lparr>key_has_add := added\<rparr> else x) in
       if \<not> sta_like (iftype x) then x
       else if sta = None then x\<lparr>group_cipher_type := cipher\<rparr> else x\<lparr>paired_cipher_type := cipher\<rparr>) hw"

definition rwnx_cfg80211_add_key :: "vif_cfg \<Rightarrow> nat \<Rightarrow> nat \<Rightarrow> u8 list option \<Rightarrow> u32 \<Rightarrow> u8 list \<Rightarrow> vif_hw \<Rightarrow> vif_res" where
  "rwnx_cfg80211_add_key c v idx mac suite key hw =
     (case key_owner mac hw of
        None \<Rightarrow> Some (- EINVAL_vif, hw)
      | Some sta \<Rightarrow>
          let hw = note_cipher v sta suite True hw in
          if sta = None \<and> length (vif_keys (vif_at hw v)) \<le> idx then None
          else case mac_cipher suite of
            None \<Rightarrow> Some (- EINVAL_vif, hw)
          | Some cipher \<Rightarrow>
              let s = (case sta of None \<Rightarrow> 0xFF | Some s \<Rightarrow> s_idx (drv_sta_at hw s));
                  key = (if suite = WLAN_CIPHER_SUITE_SMS4 then wpi_reverse key else key)
              in request_ok c (Fw_key_add (vif_index (vif_at hw v)) s (of_nat idx) cipher key) (hw\<lparr>key_flag := False\<rparr>) (\<lambda>r hw.
                   if fw_status r \<noteq> 0 then Some (- EIO, hw) else Some (0, set_key v sta idx (fw_inst r) hw)))"

definition rwnx_cfg80211_del_key :: "vif_cfg \<Rightarrow> nat \<Rightarrow> nat \<Rightarrow> u8 list option \<Rightarrow> vif_hw \<Rightarrow> vif_res" where
  "rwnx_cfg80211_del_key c v idx mac hw =
     (if \<not> key_flag hw \<and> iftype (vif_at hw v) = NL80211_IFTYPE_STATION then Some (0, hw)
      else case key_owner mac hw of
        None \<Rightarrow> Some (- EINVAL_vif, hw)
      | Some sta \<Rightarrow>
          let hw = note_cipher v sta 0xFF False hw in
          if sta = None \<and> length (vif_keys (vif_at hw v)) \<le> idx then None
          else request c (Fw_key_del (case sta of None \<Rightarrow> vif_keys (vif_at hw v) ! idx | Some s \<Rightarrow> s_key (drv_sta_at hw s))) hw
            (\<lambda>r hw. Some (fw_error r, set_key v sta idx 0 hw)))"

subsection \<open>Connecting\<close>

text \<open>
  With WEP the kind of authentication alternates: after a rejected attempt the other algorithm is tried.
\<close>

definition wep_suite :: "u32 \<Rightarrow> bool" where
  "wep_suite suite \<longleftrightarrow> suite = WLAN_CIPHER_SUITE_WEP40 \<or> suite = WLAN_CIPHER_SUITE_WEP104"

definition wep_auth_type :: "drv_vif \<Rightarrow> nl80211_auth_type \<Rightarrow> nl80211_auth_type" where
  "wep_auth_type x a =
     (let flip = (if last_auth_type x = NL80211_AUTHTYPE_SHARED_KEY then NL80211_AUTHTYPE_OPEN_SYSTEM else NL80211_AUTHTYPE_SHARED_KEY) in
      if a = NL80211_AUTHTYPE_AUTOMATIC
      then if wep_enabled x \<and> wep_auth_err x then flip
        else if wep_enabled x \<and> \<not> wep_auth_err x then last_auth_type x
        else NL80211_AUTHTYPE_SHARED_KEY
      else if wep_enabled x \<and> wep_auth_err x \<and> a = last_auth_type x
      then if a = NL80211_AUTHTYPE_SHARED_KEY then NL80211_AUTHTYPE_OPEN_SYSTEM
        else if a = NL80211_AUTHTYPE_OPEN_SYSTEM then NL80211_AUTHTYPE_SHARED_KEY else a
      else a)"

definition SM_CONNECT_IE_BUF :: nat where "SM_CONNECT_IE_BUF = 256"

text \<open>The request; \<open>allocated\<close>: there is memory for it.  The state of the last attempt is cleared before anything can fail.\<close>

definition rwnx_send_sm_connect_req :: "vif_cfg \<Rightarrow> nat \<Rightarrow> bool \<Rightarrow> nl80211_auth_type \<Rightarrow> connect_params \<Rightarrow> vif_hw \<Rightarrow> (fw_reply \<Rightarrow> vif_hw \<Rightarrow> vif_res) \<Rightarrow> vif_res" where
  "rwnx_send_sm_connect_req c v allocated auth sme hw k =
     (let hw = upd_vif v (\<lambda>x. x\<lparr>wep_enabled := False, wep_auth_err := False, last_auth_type := NL80211_AUTHTYPE_OPEN_SYSTEM\<rparr>) hw;
          wep = (cp_n_pairwise sme \<noteq> 0 \<and> wep_suite (cp_cipher_pairwise sme) \<and> wep_suite (cp_cipher_group sme)) in
      if \<not> allocated then Some (- ENOMEM_vif, hw)
      else if SM_CONNECT_IE_BUF < cp_ie_len sme \<or> auth = NL80211_AUTHTYPE_NETWORK_EAP then Some (- EINVAL_vif, hw)
      else
        let hw = upd_vif v (\<lambda>x. if wep then x\<lparr>wep_enabled := True, last_auth_type := auth\<rparr> else x) hw
        in request_ok c (Fw_sm_connect (vif_index (vif_at hw v)) auth (sta_ap (vif_at hw v) \<noteq> None)) hw k)"

definition set_conn :: "nat \<Rightarrow> rwnx_drv_connect_status \<Rightarrow> vif_hw \<Rightarrow> vif_hw" where
  "set_conn v st = upd_vif v (\<lambda>x. x\<lparr>drv_conn_state := st\<rparr>)"

text \<open>The part of \<open>rwnx_cfg80211_connect\<close> after a key for shared-key authentication is installed.\<close>

definition connect_rest :: "vif_cfg \<Rightarrow> nat \<Rightarrow> bool \<Rightarrow> nl80211_auth_type \<Rightarrow> connect_params \<Rightarrow> vif_hw \<Rightarrow> vif_res" where
  "connect_rest c v allocated auth sme hw =
     (let hw = (if iftype (vif_at hw v) = NL80211_IFTYPE_P2P_CLIENT then hw\<lparr>is_p2p_connected := True\<rparr> else hw);
          hw = (if sta_like (iftype (vif_at hw v)) then upd_vif v (\<lambda>x. x\<lparr>paired_cipher_type := 0xFF, group_cipher_type := 0xFF\<rparr>) hw else hw)
      in rwnx_send_sm_connect_req c v allocated auth sme hw (\<lambda>r hw. Some (co_error (fw_status r), hw)))"

definition rwnx_cfg80211_connect :: "vif_cfg \<Rightarrow> nat \<Rightarrow> bool \<Rightarrow> connect_params \<Rightarrow> vif_hw \<Rightarrow> vif_res" where
  "rwnx_cfg80211_connect c v allocated sme hw =
     (if drv_conn_state (vif_at hw v) = RWNX_DRV_STATUS_DISCONNECTING then Some (- EALREADY_vif, hw)
      else
        let auth = (if wep_suite (cp_cipher_group sme) \<or> wep_suite (cp_cipher_pairwise sme) then wep_auth_type (vif_at hw v) (cp_auth sme) else cp_auth sme);
            hw = set_conn v RWNX_DRV_STATUS_CONNECTING hw
        in case (if auth = NL80211_AUTHTYPE_SHARED_KEY then cp_key sme else None) of
             Some key \<Rightarrow> (case rwnx_cfg80211_add_key c v (cp_key_idx sme) None (cp_cipher_group sme) key hw of
                 None \<Rightarrow> None
               | Some (_, hw) \<Rightarrow> connect_rest c v allocated auth sme hw)
           | None \<Rightarrow>
               if auth = NL80211_AUTHTYPE_SAE \<and> \<not> cp_external_auth sme then Some (- EINVAL_vif, hw)
               else connect_rest c v allocated auth sme hw)"

text \<open>The wait of half a second while connecting is not part of the call: what happens in it is a step of its own.\<close>

definition rwnx_cfg80211_disconnect :: "vif_cfg \<Rightarrow> nat \<Rightarrow> u16 \<Rightarrow> vif_hw \<Rightarrow> vif_res" where
  "rwnx_cfg80211_disconnect c v reason hw =
     (if drv_conn_state (vif_at hw v) = RWNX_DRV_STATUS_CONNECTED
      then request c (Fw_sm_disconnect (vif_index (vif_at hw v))) ((set_conn v RWNX_DRV_STATUS_DISCONNECTING hw)\<lparr>key_flag := True\<rparr>) (\<lambda>r hw. Some (fw_error r, hw))
      else Some (0, set_conn v RWNX_DRV_STATUS_DISCONNECTED
        (vemit [Cfg_connect_result v (uint (if reason = 0 then WLAN_STATUS_UNSPECIFIED_FAILURE else reason))] hw)))"

subsection \<open>Indications\<close>

definition rwnx_external_auth_disable :: "nat \<Rightarrow> vif_hw \<Rightarrow> vif_hw" where
  "rwnx_external_auth_disable v hw =
     (if \<not> external_auth (vif_at hw v) then hw else vemit [Txq_unk_deinit v] (upd_vif v (\<lambda>x. x\<lparr>external_auth := False\<rparr>) hw))"

definition rwnx_external_auth_enable :: "nat \<Rightarrow> vif_hw \<Rightarrow> vif_hw" where
  "rwnx_external_auth_enable v hw = vemit [Txq_unk_init v] (upd_vif v (\<lambda>x. x\<lparr>external_auth := True\<rparr>) hw)"

definition rwnx_cfg80211_external_auth :: "vif_cfg \<Rightarrow> nat \<Rightarrow> u16 \<Rightarrow> vif_hw \<Rightarrow> vif_res" where
  "rwnx_cfg80211_external_auth c v status hw =
     (if \<not> external_auth (vif_at hw v) then Some (- EINVAL_vif, hw)
      else request c (Fw_external_auth_rsp (vif_index (vif_at hw v)) status) (rwnx_external_auth_disable v hw) (\<lambda>r hw. Some (fw_error r, hw)))"

text \<open>\<open>accepted\<close>: cfg80211 takes the request for authentication.\<close>

definition rwnx_rx_sm_external_auth_required_ind :: "u8 \<Rightarrow> bool \<Rightarrow> vif_hw \<Rightarrow> vif_hw option" where
  "rwnx_rx_sm_external_auth_required_ind i accepted hw =
     (case vif_of i hw of
        None \<Rightarrow> None
      | Some v \<Rightarrow>
          if NX_VIRT_DEV_MAX_vif < unat i \<or> \<not> up (vif_at hw v) \<or> iftype (vif_at hw v) \<noteq> NL80211_IFTYPE_STATION
          then Some (vemit [Fw_external_auth_rsp (vif_index (vif_at hw v)) WLAN_STATUS_UNSPECIFIED_FAILURE] hw)
          else let hw = vemit [Cfg_external_auth v] hw in
            if accepted then Some (rwnx_external_auth_enable v hw)
            else Some (vemit [Fw_external_auth_rsp (vif_index (vif_at hw v)) WLAN_STATUS_UNSPECIFIED_FAILURE] hw))"

text \<open>The monitor interface follows the channel of a connection.\<close>

definition follow_channel :: "u8 \<Rightarrow> vif_hw \<Rightarrow> vif_hw option" where
  "follow_channel ch hw =
     (if monitor_vif hw = RWNX_INVALID_VIF_fw then Some hw
      else case vif_of (monitor_vif hw) hw of
        None \<Rightarrow> None
      | Some m \<Rightarrow> Some (hw\<lparr>chan := rwnx_chanctx_link m ch None (rwnx_chanctx_unlink m (chan hw))\<rparr>))"

definition connected :: "nat \<Rightarrow> sm_connect_ind \<Rightarrow> cfg80211_chan_def \<Rightarrow> vif_hw \<Rightarrow> vif_hw option" where
  "connected v ind chandef hw =
     (let s = unat (ci_ap_idx ind) in
      if length (sta_table hw) \<le> s then None
      else
        let hw = upd_drv_sta s (\<lambda>x. x\<lparr>s_valid := True, s_idx := ci_ap_idx ind, s_ch_idx := ci_ch_idx ind, s_vif_idx := ci_vif_idx ind,
                   s_vlan_idx := ci_vif_idx ind, s_qos := ci_qos ind, s_ps_active := False, s_aid := ci_aid ind, s_mac := ci_bssid ind\<rparr>) hw;
            hw = upd_vif v (\<lambda>x. x\<lparr>sta_ap := Some s, wep_auth_err := wep_auth_err x \<and> \<not> wep_enabled x\<rparr>) hw;
            hw = vemit [Txq_sta_init s, Txq_tdls_init v] (hw\<lparr>chan := rwnx_chanctx_link v (ci_ch_idx ind) (Some chandef) (chan hw)\<rparr>)
        in map_option (set_conn v RWNX_DRV_STATUS_CONNECTED) (follow_channel (ci_ch_idx ind) hw))"

definition not_connected :: "nat \<Rightarrow> u16 \<Rightarrow> vif_hw \<Rightarrow> vif_hw" where
  "not_connected v status hw = set_conn v RWNX_DRV_STATUS_DISCONNECTED
     (if status = WLAN_STATUS_NOT_SUPPORTED_AUTH_ALG then upd_vif v (\<lambda>x. x\<lparr>wep_auth_err := wep_auth_err x \<or> wep_enabled x\<rparr>) hw else hw)"

definition rwnx_rx_sm_connect_ind :: "sm_connect_ind \<Rightarrow> cfg80211_chan_def \<Rightarrow> vif_hw \<Rightarrow> vif_hw option" where
  "rwnx_rx_sm_connect_ind ind chandef hw =
     (case vif_of (ci_vif_idx ind) hw of
        None \<Rightarrow> None
      | Some v \<Rightarrow>
          let st = ci_status_code ind;
              report = (if \<not> ci_roamed ind then Cfg_connect_result v (uint st) else if st \<noteq> 0 then Cfg_disconnected v else Cfg_roamed v)
          in map_option (\<lambda>hw. upd_vif v (\<lambda>x. x\<lparr>carrier := True\<rparr>) (vemit [report, Queues_start v] hw))
               (if st = 0 then connected v ind chandef hw else Some (not_connected v st hw)))"

text \<open>The end of a connection; without an access point the code follows a null pointer, on an access point it is a \<open>BUG\<close>.\<close>

definition rwnx_rx_sm_disconnect_ind :: "sm_disconnect_ind \<Rightarrow> vif_hw \<Rightarrow> vif_hw option" where
  "rwnx_rx_sm_disconnect_ind ind hw =
     (if length (vif_table hw) \<le> unat (di_vif_idx ind) then None
      else case vif_of (di_vif_idx ind) hw of
        None \<Rightarrow> Some hw
      | Some v \<Rightarrow>
          let x = vif_at hw v;
              hw = (if iftype x = NL80211_IFTYPE_P2P_CLIENT then hw\<lparr>is_p2p_connected := False\<rparr> else hw);
              hw = (if up x then upd_vif v (\<lambda>x. x\<lparr>carrier := False\<rparr>)
                     (vemit ((if di_ft_over_ds ind \<or> di_reassoc ind then [] else [Cfg_disconnected v]) @ [Queues_stop v]) hw) else hw)
          in if ap_like (iftype x) then None
             else case sta_ap x of
               None \<Rightarrow> None
             | Some s \<Rightarrow>
                 let hw = vemit ((if sta_like (iftype x) then [Reord_deinit (addr x)] else []) @ [Txq_sta_deinit s, Txq_tdls_deinit v]) hw;
                     hw = upd_vif v (\<lambda>x. x\<lparr>sta_ap := None\<rparr>) (upd_drv_sta s (\<lambda>x. x\<lparr>s_valid := False\<rparr>) hw);
                     hw = rwnx_external_auth_disable v hw
                 in Some (set_conn v RWNX_DRV_STATUS_DISCONNECTED (hw\<lparr>chan := rwnx_chanctx_unlink v (chan hw)\<rparr>)))"

end
