(* ===== verification/Vif_Quiet.thy ===== *)
theory Vif_Quiet
  imports Vif_Inv Vif_Sta
begin

text \<open>
  The operations on stations and connections leave the interfaces alone: what the invariant of \<open>Vif_Inv\<close>
  reads is the same after each of them (\<open>quiet_step\<close>), whatever the firmware answers.
\<close>

unbundle bit_operations_syntax

lemma chan_link_length [simp]:
  "length (vif_ch_index (rwnx_chanctx_link v i d ch)) = length (vif_ch_index ch)"
  "length (vif_ch_index (rwnx_radar_detection_enable_on_cur_channel ch)) = length (vif_ch_index ch)"
  by (auto simp: rwnx_chanctx_link_def rwnx_radar_detection_enable_on_cur_channel_def Let_def rwnx_radar_detection_enable_def emit_def split: option.splits)

text \<open>The single changes.\<close>

lemma quiet_upd_sta [simp]: "quiet_step hw (upd_drv_sta s f hw)"
  by (rule quiet_stepI) (simp_all add: upd_drv_sta_def same_core_def)

lemma quiet_chan: "length (vif_ch_index ch) = length (vif_ch_index (chan hw)) \<Longrightarrow> quiet_step hw (hw\<lparr>chan := ch\<rparr>)"
  by (rule quiet_stepI) (simp_all add: same_core_def)

lemma quiet_flags [simp]: "quiet_step hw (hw\<lparr>adding_sta := b\<rparr>)" "quiet_step hw (hw\<lparr>is_p2p_connected := b\<rparr>)" "quiet_step hw (hw\<lparr>key_flag := b\<rparr>)"
  by (rule quiet_stepI; simp add: same_core_def)+

lemma quiet_out [simp]:
  "quiet (Fw_sta_add i)" "quiet (Fw_sta_del i)" "quiet (Fw_apm_start i)" "quiet (Fw_apm_stop i)" "quiet (Fw_sm_connect i a r)"
  "quiet (Cfg_connect_result v n)" "quiet (Cfg_roamed v)" "quiet (Cfg_external_auth v)" "quiet (Fw_external_auth_rsp i st)"
  "quiet (Fw_key_add i j k ci key)" "quiet (Fw_key_del i)" "quiet (Fw_control_port i b)" "quiet (Cfg_new_sta v m)" "quiet (Cfg_del_sta v m)"
  "quiet (Txq_sta_init s)" "quiet (Txq_sta_deinit s)" "quiet (Txq_vif_init v)" "quiet (Txq_vif_deinit v)" "quiet (Txq_sta_switch_vif s v w)"
  "quiet (Txq_unk_init v)" "quiet (Txq_unk_deinit v)" "quiet (Txq_tdls_init v)" "quiet (Txq_tdls_deinit v)" "quiet (Reord_deinit m)"
  "quiet (Workqueue_create v)" "quiet (Workqueue_destroy v)"
  by (simp_all add: quiet_def)

lemma quiet_upd: "(\<And>x. core (f x) = core x) \<Longrightarrow> quiet_step hw h \<Longrightarrow> quiet_step hw (upd_vif v f h)"
  by (blast intro: quiet_step_trans quiet_step_upd)

lemma quiet_emit: "list_all quiet ms \<Longrightarrow> quiet_step hw h \<Longrightarrow> quiet_step hw (vemit ms h)"
  by (blast intro: quiet_step_trans quiet_step_vemit)

lemma quiet_sta: "quiet_step hw h \<Longrightarrow> quiet_step hw (upd_drv_sta s f h)"
  by (blast intro: quiet_step_trans quiet_upd_sta)

lemma quiet_chan_upd: "length (vif_ch_index ch) = length (vif_ch_index (chan h)) \<Longrightarrow> quiet_step hw h \<Longrightarrow> quiet_step hw (h\<lparr>chan := ch\<rparr>)"
  by (blast intro: quiet_step_trans quiet_chan)

lemma quiet_flag: "quiet_step hw h \<Longrightarrow> quiet_step hw (h\<lparr>adding_sta := b\<rparr>)" "quiet_step hw h \<Longrightarrow> quiet_step hw (h\<lparr>is_p2p_connected := b\<rparr>)"
  "quiet_step hw h \<Longrightarrow> quiet_step hw (h\<lparr>key_flag := b\<rparr>)"
  by (blast intro: quiet_step_trans quiet_flags)+

lemma quiet_if: "(b \<Longrightarrow> quiet_step hw g) \<Longrightarrow> (\<not> b \<Longrightarrow> quiet_step hw h) \<Longrightarrow> quiet_step hw (if b then g else h)"
  by simp

lemma quiet_set_conn: "quiet_step hw h \<Longrightarrow> quiet_step hw (set_conn v st h)"
  unfolding set_conn_def by (rule quiet_upd) (simp add: core_def)

lemmas quiet_rules = quiet_upd quiet_emit quiet_sta quiet_chan_upd quiet_flag quiet_if quiet_set_conn quiet_step_refl

text \<open>Results of calls.\<close>

definition quiet_res :: "vif_hw \<Rightarrow> vif_res \<Rightarrow> bool" where "quiet_res hw = res_all (\<lambda>e h. quiet_step hw h)"

definition quiet_opt :: "vif_hw \<Rightarrow> vif_hw option \<Rightarrow> bool" where "quiet_opt hw r \<longleftrightarrow> (case r of None \<Rightarrow> True | Some h \<Rightarrow> quiet_step hw h)"

lemma quiet_res_simps [simp]: "quiet_res hw None" "quiet_res hw (Some (e, h)) = quiet_step hw h" "quiet_opt hw None" "quiet_opt hw (Some h) = quiet_step hw h"
  by (simp_all add: quiet_res_def quiet_opt_def)

lemma quiet_request:
  assumes "quiet m" "quiet_step hw g" "\<And>r h. quiet_step hw h \<Longrightarrow> quiet_res hw (k r h)"
  shows "quiet_res hw (request c m g k)" "quiet_res hw (request_ok c m g k)"
proof -
  have "quiet_step hw (vemit [m] g)" using assms(1, 2) by (intro quiet_emit) simp_all
  then show "quiet_res hw (request c m g k)" "quiet_res hw (request_ok c m g k)"
    using assms(3) by (simp_all add: quiet_res_def Let_def)
qed

lemma quiet_res_trans: "quiet_step hw h \<Longrightarrow> quiet_res h r \<Longrightarrow> quiet_res hw r"
  by (cases r) (auto intro: quiet_step_trans)

lemma core_upds [simp]:
  "core (x\<lparr>ap_stas := a\<rparr>) = core x" "core (x\<lparr>sta_4a := b\<rparr>) = core x" "core (x\<lparr>tdls_sta := b\<rparr>) = core x" "core (x\<lparr>bcmc_index := n\<rparr>) = core x"
  "core (x\<lparr>carrier := d\<rparr>) = core x" "core (x\<lparr>vif_keys := k\<rparr>) = core x" "core (x\<lparr>key_has_add := d\<rparr>) = core x" "core (x\<lparr>group_cipher_type := y\<rparr>) = core x"
  "core (x\<lparr>paired_cipher_type := y\<rparr>) = core x" "core (x\<lparr>wep_enabled := d\<rparr>) = core x" "core (x\<lparr>wep_auth_err := d\<rparr>) = core x"
  "core (x\<lparr>last_auth_type := z\<rparr>) = core x" "core (x\<lparr>external_auth := d\<rparr>) = core x" "core (x\<lparr>sta_ap := b\<rparr>) = core x"
  by (simp_all add: core_def)

lemma add_station_quiet: "quiet_res hw (rwnx_cfg80211_add_station c v mac sp hw)"
  by (auto simp: rwnx_cfg80211_add_station_def Let_def intro!: quiet_request quiet_rules)

lemma forget_4a_quiet: "quiet_opt hw (forget_4a s hw)"
  by (auto simp: forget_4a_def intro!: quiet_rules split: option.split)

lemma drop_sta_quiet: "quiet_res hw (drop_sta c tell v s hw)"
proof (cases "forget_4a s (unlink_sta v s hw)")
  case (Some g)
  have "quiet_step (unlink_sta v s hw) g" using forget_4a_quiet [of "unlink_sta v s hw" s] Some by simp
  moreover have "quiet_step hw (unlink_sta v s hw)" unfolding unlink_sta_def by (auto intro!: quiet_rules)
  ultimately have "quiet_step hw g" by (rule quiet_step_trans [rotated])
  then show ?thesis using Some by (auto simp: drop_sta_def Let_def intro!: quiet_request quiet_rules)
qed (simp add: drop_sta_def)

lemma drop_stas_quiet: "quiet_res hw (drop_stas c v ss hw)"
proof (induction ss arbitrary: hw)
  case (Cons s ss)
  show ?case
  proof (cases "drop_sta c True v s hw")
    case (Some r)
    then have "quiet_step hw (snd r)" using drop_sta_quiet [of hw c True v s] by (cases r) simp
    then show ?thesis using Some Cons quiet_res_trans by (cases r) auto
  qed simp
qed simp

lemma del_station_quiet: "quiet_res hw (rwnx_cfg80211_del_station_compat c v mac hw)"
  by (auto simp: rwnx_cfg80211_del_station_compat_def drop_stas_quiet drop_sta_quiet split: option.split)

lemma staloss_quiet: "quiet_opt hw (apm_staloss_work_process c i mac hw)"
proof -
  have "quiet_opt hw (map_option snd (drop_sta c False v s hw))" for v s
    using drop_sta_quiet [of hw c False v s] by (cases "drop_sta c False v s hw") auto
  then show ?thesis by (auto simp: apm_staloss_work_process_def split: option.split)
qed

lemma move_to_vlan_quiet: "quiet_res hw (move_to_vlan w s hw)"
  by (auto simp: move_to_vlan_def Let_def intro!: quiet_rules split: option.split)

lemma change_known_quiet: "quiet_res hw (change_known sp sta hw)"
proof -
  have "quiet_res hw (move_to_vlan w s (vemit [Fw_control_port i b] hw))" for w s i b
    by (rule quiet_res_trans [OF quiet_step_vemit move_to_vlan_quiet]) simp
  then show ?thesis using move_to_vlan_quiet by (auto simp: change_known_def Let_def intro!: quiet_rules split: option.split)
qed

lemma change_station_quiet: "quiet_res hw (rwnx_cfg80211_change_station c v mac sp hw)"
  by (auto simp: rwnx_cfg80211_change_station_def Let_def change_known_quiet intro!: quiet_request quiet_rules quiet_res_trans [OF _ change_known_quiet] split: option.split)

lemma start_ap_quiet: "quiet_res hw (rwnx_cfg80211_start_ap c v wq chandef hw)"
  by (auto simp: rwnx_cfg80211_start_ap_def Let_def intro!: quiet_request quiet_rules)

lemma stop_loop_quiet: "quiet_opt hw (stop_loop c v n hw)"
proof (induction n arbitrary: hw)
  case 0
  then show ?case by (subst stop_loop.simps) simp
next
  case (Suc n)
  show ?case
  proof (cases "ap_stas (vif_at hw v) = [] \<or> rwnx_cfg80211_del_station_compat c v None hw = None")
    case False
    then obtain e h where d: "rwnx_cfg80211_del_station_compat c v None hw = Some (e, h)" "ap_stas (vif_at hw v) \<noteq> []" by auto
    then have "quiet_step hw h" using del_station_quiet [of hw c v None] by simp
    then show ?thesis using d Suc [of h] by (subst stop_loop.simps) (auto simp: quiet_opt_def intro: quiet_step_trans split: option.splits)
  qed (subst stop_loop.simps, auto)
qed

lemma stop_ap_quiet: "quiet_res hw (rwnx_cfg80211_stop_ap c v hw)"
proof -
  define g where "g = (let hw = upd_vif v (\<lambda>x. x\<lparr>carrier := False\<rparr>) (vemit [Queues_stop v] hw);
          hw = (if iftype (vif_at hw v) = NL80211_IFTYPE_P2P_GO then hw\<lparr>is_p2p_connected := False\<rparr> else hw);
          hw = vemit [Fw_apm_stop (vif_index (vif_at hw v))] (hw\<lparr>chan := rwnx_radar_cancel_cac (chan hw)\<rparr>)
      in hw\<lparr>chan := rwnx_chanctx_unlink v (chan hw)\<rparr>)"
  have g: "quiet_step hw g" by (auto simp: g_def Let_def intro!: quiet_rules)
  have e: "rwnx_cfg80211_stop_ap c v hw = (case stop_loop c v (length (ap_stas (vif_at g v))) g of None \<Rightarrow> None | Some h \<Rightarrow> Some (0, vemit [Txq_vif_deinit v, Workqueue_destroy v] h))"
    by (simp add: rwnx_cfg80211_stop_ap_def g_def Let_def)
  show ?thesis
    using stop_loop_quiet [of g c v "length (ap_stas (vif_at g v))"] g unfolding e
    by (auto intro!: quiet_emit intro: quiet_step_trans split: option.split)
qed

lemma add_key_quiet: "quiet_res hw (rwnx_cfg80211_add_key c v idx mac suite key hw)"
proof -
  have n: "quiet_step hw (note_cipher v sta ci b hw)" for sta ci b
    unfolding note_cipher_def by (rule quiet_upd) (auto simp: Let_def)
  have s: "quiet_step hw (set_key v sta idx k h)" if "quiet_step hw h" for sta k h
    using that by (auto simp: set_key_def intro!: quiet_rules split: option.split)
  show ?thesis
    by (auto simp: rwnx_cfg80211_add_key_def Let_def intro!: quiet_request quiet_rules n s split: option.split)
qed

lemma del_key_quiet: "quiet_res hw (rwnx_cfg80211_del_key c v idx mac hw)"
proof -
  have n: "quiet_step hw (note_cipher v sta ci b hw)" for sta ci b
    unfolding note_cipher_def by (rule quiet_upd) (auto simp: Let_def)
  have s: "quiet_step hw (set_key v sta idx k h)" if "quiet_step hw h" for sta k h
    using that by (auto simp: set_key_def intro!: quiet_rules split: option.split)
  show ?thesis
    by (auto simp: rwnx_cfg80211_del_key_def Let_def intro!: quiet_request quiet_rules n s split: option.split)
qed

lemma connect_rest_quiet: "quiet_res hw (connect_rest c v al auth sme hw)"
  by (auto simp: connect_rest_def rwnx_send_sm_connect_req_def Let_def intro!: quiet_request quiet_rules)

lemma connect_quiet: "quiet_res hw (rwnx_cfg80211_connect c v al sme hw)"
proof -
  let ?g = "set_conn v RWNX_DRV_STATUS_CONNECTING hw"
  have g: "quiet_step hw ?g" by (intro quiet_rules)
  have k: "quiet_res hw (case rwnx_cfg80211_add_key c v i None su key ?g of None \<Rightarrow> None | Some (_, h) \<Rightarrow> connect_rest c v al auth sme h)" for i su key auth
  proof (cases "rwnx_cfg80211_add_key c v i None su key ?g")
    case (Some r)
    then have "quiet_step hw (snd r)" using add_key_quiet [of ?g c v i None su key] g by (cases r) (auto intro: quiet_step_trans)
    then show ?thesis using Some connect_rest_quiet quiet_res_trans by (cases r) auto
  qed simp
  show ?thesis
    using k quiet_res_trans [OF g connect_rest_quiet] g by (simp add: rwnx_cfg80211_connect_def Let_def split: option.split)
qed

lemma disconnect_quiet: "quiet_res hw (rwnx_cfg80211_disconnect c v reason hw)"
  by (auto simp: rwnx_cfg80211_disconnect_def intro!: quiet_request quiet_rules)

lemma ext_disable_quiet: "quiet_step hw h \<Longrightarrow> quiet_step hw (rwnx_external_auth_disable v h)"
  by (auto simp: rwnx_external_auth_disable_def intro!: quiet_rules)

lemma external_auth_quiet: "quiet_res hw (rwnx_cfg80211_external_auth c v st hw)"
  by (auto simp: rwnx_cfg80211_external_auth_def intro!: quiet_request quiet_rules ext_disable_quiet)

lemma external_auth_ind_quiet: "quiet_opt hw (rwnx_rx_sm_external_auth_required_ind i ok hw)"
  by (auto simp: rwnx_rx_sm_external_auth_required_ind_def rwnx_external_auth_enable_def Let_def intro!: quiet_rules split: option.split)

lemma connected_quiet: "quiet_opt hw (connected v ind chandef hw)"
proof -
  have f: "quiet_opt g (follow_channel ch g)" for ch g by (auto simp: follow_channel_def intro!: quiet_rules split: option.split)
  have m: "quiet_opt hw (map_option (set_conn v RWNX_DRV_STATUS_CONNECTED) (follow_channel ch g))" if "quiet_step hw g" for ch g
    using f [of g ch] that by (cases "follow_channel ch g") (auto intro!: quiet_set_conn intro: quiet_step_trans)
  show ?thesis by (auto simp: connected_def Let_def intro!: m quiet_rules)
qed

lemma connect_ind_quiet: "quiet_opt hw (rwnx_rx_sm_connect_ind ind chandef hw)"
proof -
  have c: "quiet_opt hw (map_option (\<lambda>hw. upd_vif v (\<lambda>x. x\<lparr>carrier := True\<rparr>) (vemit [m, Queues_start v] hw)) r)" if "quiet_opt hw r" "quiet m" for m v r
    using that by (cases r) (auto intro!: quiet_rules)
  have "quiet_step hw (not_connected v st hw)" for v st by (auto simp: not_connected_def intro!: quiet_rules)
  then show ?thesis
    using connected_quiet by (auto simp: rwnx_rx_sm_connect_ind_def Let_def intro!: c quiet_rules split: option.split)
qed

lemma disconnect_ind_quiet: "quiet_opt hw (rwnx_rx_sm_disconnect_ind ind hw)"
  by (auto simp: rwnx_rx_sm_disconnect_ind_def Let_def intro!: quiet_rules ext_disable_quiet split: option.split)

subsection \<open>All of them\<close>

text \<open>A call of cfg80211 or an indication that concerns stations and connections.\<close>

inductive sta_call :: "vif_cfg \<Rightarrow> vif_hw \<Rightarrow> vif_hw \<Rightarrow> bool" for c where
  add_sta: "rwnx_cfg80211_add_station c v mac sp hw = Some (e, h) \<Longrightarrow> sta_call c hw h"
| del_sta: "rwnx_cfg80211_del_station_compat c v who hw = Some (e, h) \<Longrightarrow> sta_call c hw h"
| lost_sta: "apm_staloss_work_process c i mac hw = Some h \<Longrightarrow> sta_call c hw h"
| change_sta: "rwnx_cfg80211_change_station c v mac sp hw = Some (e, h) \<Longrightarrow> sta_call c hw h"
| start_ap: "rwnx_cfg80211_start_ap c v wq chandef hw = Some (e, h) \<Longrightarrow> sta_call c hw h"
| stop_ap: "rwnx_cfg80211_stop_ap c v hw = Some (e, h) \<Longrightarrow> sta_call c hw h"
| add_key: "rwnx_cfg80211_add_key c v idx who suite key hw = Some (e, h) \<Longrightarrow> sta_call c hw h"
| del_key: "rwnx_cfg80211_del_key c v idx who hw = Some (e, h) \<Longrightarrow> sta_call c hw h"
| connect: "rwnx_cfg80211_connect c v al sme hw = Some (e, h) \<Longrightarrow> sta_call c hw h"
| disconnect: "rwnx_cfg80211_disconnect c v reason hw = Some (e, h) \<Longrightarrow> sta_call c hw h"
| external_auth: "rwnx_cfg80211_external_auth c v st hw = Some (e, h) \<Longrightarrow> sta_call c hw h"
| external_auth_ind: "rwnx_rx_sm_external_auth_required_ind i ok hw = Some h \<Longrightarrow> sta_call c hw h"
| connect_ind: "rwnx_rx_sm_connect_ind ci chandef hw = Some h \<Longrightarrow> sta_call c hw h"
| disconnect_ind: "rwnx_rx_sm_disconnect_ind di hw = Some h \<Longrightarrow> sta_call c hw h"

lemma quiet_resD: "quiet_res hw r \<Longrightarrow> r = Some (e, h) \<Longrightarrow> quiet_step hw h" "quiet_opt hw q \<Longrightarrow> q = Some h \<Longrightarrow> quiet_step hw h"
  by simp_all

lemma sta_call_quiet: "sta_call c hw h \<Longrightarrow> quiet_step hw h"
  by (induction rule: sta_call.induct)
    (rule quiet_resD(1) [OF add_station_quiet] quiet_resD(1) [OF del_station_quiet] quiet_resD(2) [OF staloss_quiet]
      quiet_resD(1) [OF change_station_quiet] quiet_resD(1) [OF start_ap_quiet] quiet_resD(1) [OF stop_ap_quiet] quiet_resD(1) [OF add_key_quiet]
      quiet_resD(1) [OF del_key_quiet] quiet_resD(1) [OF connect_quiet] quiet_resD(1) [OF disconnect_quiet] quiet_resD(1) [OF external_auth_quiet]
      quiet_resD(2) [OF external_auth_ind_quiet] quiet_resD(2) [OF connect_ind_quiet] quiet_resD(2) [OF disconnect_ind_quiet], assumption)+

end
