(* ===== verification/Vif_Run.thy ===== *)
theory Vif_Run
  imports Vif_Quiet
begin

text \<open>
  The interfaces over every history of the calls of cfg80211, of the network stack and of the P2P timer.  The
  histories are those in which the kernel keeps its part (an interface is opened when it is down and closed
  when it is up, an \<open>AP_VLAN\<close> is not changed, a procedure on the channel is asked for on a running
  device) and no close or change fails half way; the failures that leave the state inconsistent are stated apart.
\<close>

unbundle bit_operations_syntax

subsection \<open>Histories\<close>

inductive vif_run :: "vif_cfg \<Rightarrow> nat set \<Rightarrow> vif_hw \<Rightarrow> bool" for c where
  booted: "length perm = 6 \<Longrightarrow> vif_ch_index ch = [] \<Longrightarrow> vif_run c {} (vif_boot perm ch)"
| added: "vif_run c U hw \<Longrightarrow> rwnx_cfg80211_add_iface t mac fa ok hw = (r, hw') \<Longrightarrow> vif_run c U hw'"
| deleted: "vif_run c U hw \<Longrightarrow> v \<in> set (vifs hw) \<Longrightarrow> v \<notin> U \<Longrightarrow> has_ndev (vif_at hw v) \<or> \<not> up (vif_at hw v) \<Longrightarrow> vif_run c U (rwnx_cfg80211_del_iface v hw)"
| opened: "vif_run c U hw \<Longrightarrow> v \<in> set (vifs hw) \<Longrightarrow> v \<notin> U \<Longrightarrow> has_ndev (vif_at hw v) \<Longrightarrow> rwnx_open c v hw = Some (0, hw') \<Longrightarrow> vif_run c (insert v U) hw'"
| open_failed: "vif_run c U hw \<Longrightarrow> v \<in> set (vifs hw) \<Longrightarrow> v \<notin> U \<Longrightarrow> has_ndev (vif_at hw v) \<Longrightarrow> iftype (vif_at hw v) \<noteq> NL80211_IFTYPE_MONITOR \<Longrightarrow>
    rwnx_open c v hw = Some (e, hw') \<Longrightarrow> e \<noteq> 0 \<Longrightarrow> vif_run c U hw'"
| closed: "vif_run c U hw \<Longrightarrow> v \<in> U \<Longrightarrow> rwnx_close c v hw = Some (0, hw') \<Longrightarrow> vif_run c (U - {v}) hw'"
| changed: "vif_run c U hw \<Longrightarrow> v \<in> set (vifs hw) \<Longrightarrow> iftype (vif_at hw v) \<noteq> NL80211_IFTYPE_AP_VLAN \<Longrightarrow> has_ndev (vif_at hw v) \<Longrightarrow>
    rwnx_cfg80211_change_iface c v t fa hw = Some (e, hw') \<Longrightarrow> e = 0 \<or> v \<notin> U \<or> t = NL80211_IFTYPE_AP_VLAN \<Longrightarrow> vif_run c U hw'"
| timer: "vif_run c U hw \<Longrightarrow> aicwf_p2p_alive_timeout hw = Some hw' \<Longrightarrow> vif_run c U hw'"
| stopped: "vif_run c U hw \<Longrightarrow> v \<in> set (vifs hw) \<Longrightarrow> rwnx_cfgp2p_stop_p2p_device v hw = Some hw' \<Longrightarrow> vif_run c U hw'"
| roc: "vif_run c U hw \<Longrightarrow> v \<in> set (vifs hw) \<Longrightarrow> dev_started hw \<Longrightarrow> rwnx_cfg80211_remain_on_channel c al v hw = Some (e, hw') \<Longrightarrow> vif_run c U hw'"
| scan: "vif_run c U hw \<Longrightarrow> v \<in> set (vifs hw) \<Longrightarrow> dev_started hw \<Longrightarrow> rwnx_cfg80211_scan c n al ie (From_cfg v) hw = Some (e, hw') \<Longrightarrow> vif_run c U hw'"
| sched_scan: "vif_run c U hw \<Longrightarrow> v \<in> set (vifs hw) \<Longrightarrow> dev_started hw \<Longrightarrow> rwnx_cfg80211_sched_scan_start c n al ie v hw = Some (e, hw') \<Longrightarrow> vif_run c U hw'"
| sched_scan_stop: "vif_run c U hw \<Longrightarrow> rwnx_cfg80211_sched_scan_stop c hw = Some (e, hw') \<Longrightarrow> vif_run c U hw'"
| scan_done: "vif_run c U hw \<Longrightarrow> rwnx_rx_scanu_start_cfm hw = Some hw' \<Longrightarrow> vif_run c U hw'"
| station: "vif_run c U hw \<Longrightarrow> sta_call c hw hw' \<Longrightarrow> vif_run c U hw'"
| channel: "vif_run c U hw \<Longrightarrow> length (vif_ch_index ch) = length (vif_ch_index (chan hw)) \<Longrightarrow> vif_run c U (hw\<lparr>chan := ch\<rparr>)"

lemma vif_boot_inv:
  assumes "length perm = 6" "vif_ch_index ch = []"
  shows "vif_inv {} (vif_boot perm ch)"
proof -
  have m: "(0xFF :: u8) = mask 8" by (simp add: mask_eq_exp_minus_1)
  have "ups (vif_boot perm ch) = {}" by (simp add: ups_def vif_boot_def)
  then show ?thesis
    using assms
    by (simp add: vif_inv_def index_inv_def table_inv_def kernel_inv_def fw_inv_def alive_def)
      (simp add: vif_boot_def NX_VIRT_DEV_MAX_vif_def NX_REMOTE_STA_MAX_vif_def m bit_mask_iff)
qed

lemma vif_run_inv:
  assumes fw: "fw_fresh c" and run: "vif_run c U hw"
  shows "vif_inv U hw"
  using run
proof (induction rule: vif_run.induct)
  case (booted perm ch) then show ?case by (rule vif_boot_inv)
next
  case (added U hw t mac fa ok r hw') then show ?case by (blast intro: add_iface_inv)
next
  case (deleted U hw v) then show ?case by (blast intro: del_iface_inv)
next
  case (opened U hw v hw') then show ?case using res_allD [OF open_inv [OF fw]] by fastforce
next
  case (open_failed U hw v e hw') then show ?case using res_allD [OF open_inv [OF fw]] by fastforce
next
  case (closed U hw v hw') then show ?case using res_allD [OF close_inv] by blast
next
  case (changed U hw v t fa e hw') then show ?case using res_allD [OF change_inv [OF fw]] by blast
next
  case (timer U hw hw') then show ?case by (blast intro: timeout_inv)
next
  case (stopped U hw v hw') then show ?case by (blast intro: stop_p2p_inv)
next
  case (roc U hw v al e hw') then show ?case using res_allD [OF roc_inv [OF fw]] by blast
next
  case (scan U hw v n al ie e hw') then show ?case using res_allD [OF scan_inv [OF fw, of U hw "From_cfg v"]] by simp
next
  case (sched_scan U hw v n al ie e hw') then show ?case using res_allD [OF sched_scan_inv [OF fw]] by blast
next
  case (sched_scan_stop U hw e hw') then show ?case using res_allD [OF sched_scan_stop_inv] by blast
next
  case (scan_done U hw hw') then show ?case by (blast intro: scan_cfm_inv)
next
  case (station U hw hw') then show ?case by (blast intro: quiet_inv sta_call_quiet)
next
  case (channel U hw ch) then show ?case by (intro same_state_inv [of U hw "hw\<lparr>chan := ch\<rparr>"]) (simp_all add: same_core_def)
qed

subsection \<open>A firmware, and a station that is up\<close>

definition w_fw :: "vif_hw \<Rightarrow> fw_reply" where
  "w_fw hw = (case find (\<lambda>i. vif_table hw ! i = None) [0..<4] of
     None \<Rightarrow> \<lparr>fw_error = 0, fw_status = 1, fw_inst = 0, fw_ch = 0\<rparr>
   | Some i \<Rightarrow> \<lparr>fw_error = 0, fw_status = 0, fw_inst = of_nat i, fw_ch = 0\<rparr>)"

definition w_cfg :: vif_cfg where
  "w_cfg = \<lparr>dc_chip = False, cfg_8801 = True, testmode = 0, bus_running = True, fw_answer = w_fw\<rparr>"

lemma w_fresh: "fw_fresh w_cfg"
proof -
  have "unat (fw_inst (w_fw (vemit ms hw))) < 4 \<and> vif_table hw ! unat (fw_inst (w_fw (vemit ms hw))) = None"
    if "fw_status (w_fw (vemit ms hw)) = 0" for ms hw
    using that find_member [of "\<lambda>i. vif_table hw ! i = None" "[0..<4]"]
    by (auto simp: w_fw_def unat_of_nat split: option.splits simp del: upt_rec_numeral)
  then show ?thesis by (simp add: fw_fresh_def w_cfg_def)
qed

definition w_perm :: "u8 list" where "w_perm = [0x88, 0x00, 0x33, 0x77, 0x10, 0x98]"

definition w_boot :: vif_hw where "w_boot = vif_boot w_perm (idle_hw\<lparr>vif_ch_index := []\<rparr>)"

definition w_added :: vif_hw where "w_added = snd (rwnx_cfg80211_add_iface NL80211_IFTYPE_STATION [] False True w_boot)"

definition w_opened :: vif_hw where "w_opened = snd (the (rwnx_open w_cfg 0 w_added))"

lemma w_run_added: "vif_run w_cfg {} w_added"
proof (rule vif_run.added)
  show "vif_run w_cfg {} w_boot" unfolding w_boot_def by (rule vif_run.booted) (simp_all add: w_perm_def)
  show "rwnx_cfg80211_add_iface NL80211_IFTYPE_STATION [] False True w_boot = (fst (rwnx_cfg80211_add_iface NL80211_IFTYPE_STATION [] False True w_boot), w_added)"
    by (simp add: w_added_def)
qed

lemma w_open: "rwnx_open w_cfg 0 w_added = Some (0, w_opened)" "vifs w_added = [0]" "has_ndev (vif_at w_added 0)"
  by code_simp+

lemma w_run: "vif_run w_cfg {0} w_opened"
  using vif_run.opened [OF w_run_added _ _ w_open(3) w_open(1)] by (simp add: w_open)

subsection \<open>The properties\<close>





text \<open>No two interfaces share a MAC address, \<open>AP_VLAN\<close> interfaces apart (they carry the address of their master or one chosen by user space).\<close>

theorem vif_addresses_distinct:
  assumes "fw_fresh c" "vif_run c U hw" "v \<in> set (vifs hw)" "w \<in> set (vifs hw)" "v \<noteq> w"
    "iftype (vif_at hw v) \<noteq> NL80211_IFTYPE_AP_VLAN" "iftype (vif_at hw w) \<noteq> NL80211_IFTYPE_AP_VLAN"
  shows "addr (vif_at hw v) \<noteq> addr (vif_at hw w)"
proof -
  have i: "index_inv hw" "kernel_inv U hw" using vif_run_inv [OF assms(1, 2)] by (simp_all add: vif_inv_def)
  let ?i = "drv_vif_index (vif_at hw v)" and ?j = "drv_vif_index (vif_at hw w)"
  have "?i \<noteq> ?j" using i(1) assms(3-5) unfolding index_inv_def by blast
  moreover have "?i < 8" "?j < 8" using i(1) assms(3, 4) by (simp_all add: index_inv_def)
  ultimately have "unat (of_nat ?i :: u8) \<noteq> unat (of_nat ?j :: u8)" by (simp add: unat_of_nat)
  then have "(of_nat ?i :: u8) \<noteq> of_nat ?j" by (rule contrapos_nn) simp
  moreover have "x = y" if "a XOR x = a XOR y" for a x y :: u8
    using arg_cong [OF that, of "\<lambda>z. a XOR z"] by (simp add: xor.assoc [symmetric])
  ultimately have "perm_addr hw ! 5 XOR of_nat ?i \<noteq> perm_addr hw ! 5 XOR (of_nat ?j :: u8)" by blast
  moreover have "length (perm_addr hw) = 6" "addr (vif_at hw v) = vif_addr hw ?i" "addr (vif_at hw w) = vif_addr hw ?j"
    using i(2) assms(3, 4, 6, 7) by (simp_all add: kernel_inv_def)
  ultimately have "addr (vif_at hw v) ! 5 \<noteq> addr (vif_at hw w) ! 5" by (simp add: vif_addr_def)
  then show ?thesis by auto
qed

definition w_p2p :: vif_hw where "w_p2p = snd (rwnx_cfg80211_add_iface NL80211_IFTYPE_STATION [] False True w_added)"

lemma vif_addresses_distinct_witness: "addr (vif_at w_p2p 0) \<noteq> addr (vif_at w_p2p 1)"
proof (rule vif_addresses_distinct [OF w_fresh])
  show "vif_run w_cfg {} w_p2p"
    using vif_run.added [OF w_run_added] unfolding w_p2p_def by (metis prod.collapse)
qed (code_simp+)

text \<open>An interface can be added exactly while the four driver indices of its kind are not all in use, once allocation and registration succeed: at most four interfaces that are not \<open>AP_VLAN\<close> exist at a time, P2P device included.\<close>

theorem add_iface_capacity:
  assumes "fw_fresh c" "vif_run c U hw" "t \<noteq> NL80211_IFTYPE_AP_VLAN"
  shows "fst (rwnx_cfg80211_add_iface t mac fa True hw) \<noteq> None \<longleftrightarrow> card {v \<in> set (vifs hw). iftype (vif_at hw v) \<noteq> NL80211_IFTYPE_AP_VLAN} < 4"
proof -
  have i: "index_inv hw" using vif_run_inv [OF assms(1, 2)] by (simp add: vif_inv_def)
  let ?S = "{v \<in> set (vifs hw). iftype (vif_at hw v) \<noteq> NL80211_IFTYPE_AP_VLAN}" and ?f = "\<lambda>v. drv_vif_index (vif_at hw v)"
  have inj: "inj_on ?f ?S" using i unfolding index_inv_def inj_on_def by blast
  have sub: "?f ` ?S \<subseteq> {..<4}" using i by (auto simp: index_inv_def)
  have "bit (avail_idx_map hw) k \<longleftrightarrow> k \<notin> ?f ` ?S" if "k < 4" for k
  proof -
    have "bit (avail_idx_map hw) k \<longleftrightarrow> (\<forall>v \<in> set (vifs hw). ?f v \<noteq> k)" using i that by (simp add: index_inv_def)
    moreover have "iftype (vif_at hw v) \<noteq> NL80211_IFTYPE_AP_VLAN" if "v \<in> set (vifs hw)" "?f v = k" for v
      using i that \<open>k < 4\<close> by (auto simp: index_inv_def)
    ultimately show ?thesis by blast
  qed
  then have "free_index t (avail_idx_map hw) = None \<longleftrightarrow> ?f ` ?S = {..<4}"
    using sub assms(3) by (auto simp: free_index_def find_None_iff NX_VIRT_DEV_MAX_vif_def simp del: upt_rec_numeral)
  also have "\<dots> \<longleftrightarrow> \<not> card ?S < 4"
    using card_seteq [OF finite_lessThan sub] card_mono [OF finite_lessThan sub] by (auto simp: card_image [OF inj, symmetric])
  finally have "free_index t (avail_idx_map hw) = None \<longleftrightarrow> \<not> card ?S < 4" .
  moreover have "fst (rwnx_cfg80211_add_iface t mac fa True hw) \<noteq> None \<longleftrightarrow> free_index t (avail_idx_map hw) \<noteq> None"
    using assms(3) by (auto simp: rwnx_cfg80211_add_iface_def rwnx_interface_add_def rwnx_virtual_interface_add_def Let_def split: option.split)
  ultimately show ?thesis by simp
qed

lemma add_iface_capacity_witness: "card {v \<in> set (vifs w_p2p). iftype (vif_at w_p2p v) \<noteq> NL80211_IFTYPE_AP_VLAN} < 4"
proof -
  have "vif_run w_cfg {} w_p2p"
    using vif_run.added [OF w_run_added] unfolding w_p2p_def by (metis prod.collapse)
  then have "fst (rwnx_cfg80211_add_iface NL80211_IFTYPE_AP [] False True w_p2p) \<noteq> None \<longleftrightarrow> card {v \<in> set (vifs w_p2p). iftype (vif_at w_p2p v) \<noteq> NL80211_IFTYPE_AP_VLAN} < 4"
    by (intro add_iface_capacity [OF w_fresh]) simp_all
  moreover have "fst (rwnx_cfg80211_add_iface NL80211_IFTYPE_AP [] False True w_p2p) = Some 2" by code_simp
  ultimately show ?thesis by simp
qed



text \<open>When the P2P device is used before any network interface is opened, remain-on-channel adds it at a firmware that was not started: the start is in \<open>rwnx_open\<close> alone.\<close>

theorem p2p_first_adds_to_stopped_fw:
  assumes "\<not> fw_after False (vout hw)" "p2p_dev_vif hw = Some v" "\<not> up (vif_at hw v)" "\<not> is_p2p_alive hw" "roc_elem hw = None"
  shows "res_all (\<lambda>e h. \<not> adds_ok False (vout h)) (rwnx_cfg80211_remain_on_channel c al v hw)"
proof -
  have k: "res_all P (add_if c True v hw k)" if "\<And>h. \<not> adds_ok False (vout h) \<Longrightarrow> res_all P (k h)" "\<And>e h. \<not> adds_ok False (vout h) \<Longrightarrow> P e h" for P k
    using that assms(1) by (auto simp: add_if_def dest: attach_shape(2) split: option.split)
  show ?thesis
    using assms by (auto simp: rwnx_cfg80211_remain_on_channel_def Let_def start_p2p_timer_def intro!: k)
qed

definition w_dev :: vif_hw where "w_dev = snd (rwnx_cfg80211_add_iface NL80211_IFTYPE_P2P_DEVICE [] False True w_boot)"

lemma p2p_first_adds_to_stopped_fw_witness: "\<not> adds_ok False (vout (snd (the (rwnx_cfg80211_remain_on_channel w_cfg True 0 w_dev))))"
proof -
  have "res_all (\<lambda>e h. \<not> adds_ok False (vout h)) (rwnx_cfg80211_remain_on_channel w_cfg True 0 w_dev)"
    by (rule p2p_first_adds_to_stopped_fw) (code_simp+)
  moreover obtain e h where "rwnx_cfg80211_remain_on_channel w_cfg True 0 w_dev = Some (e, h)"
  proof -
    have "rwnx_cfg80211_remain_on_channel w_cfg True 0 w_dev \<noteq> None" by code_simp
    then show thesis using that by auto
  qed
  ultimately show ?thesis by simp
qed

text \<open>A scan that got past the first checks leaves its request and the scanning flag behind also when it fails (cfg80211 then frees the request), and every later scan, on any interface, is refused until a confirmation or a close clears them.\<close>

theorem failed_scan_blocks_scans:
  assumes "rwnx_cfg80211_scan c n True ie r hw = Some (e, h)" "e \<noteq> - EBUSY_vif \<or> \<not> scanning hw \<and> drv_conn_state (vif_at hw (req_vif r)) \<noteq> RWNX_DRV_STATUS_CONNECTING \<and> testmode c = 0"
  shows "scan_request h = Some r \<and> scanning h \<and> rwnx_cfg80211_scan c n' al' ie' w h = Some (- EBUSY_vif, h)"
proof -
  have st: "res_all (\<lambda>e h. scan_request h = Some r \<and> scanning h) (scan_p2p c v m g k)"
    if "scan_request g = Some r" "scanning g" "\<And>h. scan_request h = Some r \<Longrightarrow> scanning h \<Longrightarrow> res_all (\<lambda>e h. scan_request h = Some r \<and> scanning h) (k h)" for m v g k
    using that
    by (induction m arbitrary: g) (auto simp: Let_def vemit_def start_p2p_timer_def upd_vif_def dest: attach_shape(2) split: option.split)
  have "res_all (\<lambda>e h. scan_request h = Some r \<and> scanning h) (rwnx_send_scanu_req c n True ie (req_vif r) (hw\<lparr>scan_request := Some r\<rparr>))"
    unfolding rwnx_send_scanu_req_def Let_def by (simp only: not_True_eq_False if_False, rule st) (auto simp: vemit_def split: option.split bool.split)
  then have "scan_request h = Some r \<and> scanning h" using assms by (auto simp: rwnx_cfg80211_scan_def split: if_splits)
  then show ?thesis by (simp add: rwnx_cfg80211_scan_def)
qed

definition w_deaf :: vif_cfg where "w_deaf = w_cfg\<lparr>fw_answer := \<lambda>_. \<lparr>fw_error = - ENOMEM_vif, fw_status = 0, fw_inst = 0, fw_ch = 0\<rparr>\<rparr>"

lemma failed_scan_blocks_scans_witness: "scanning (snd (the (rwnx_cfg80211_scan w_deaf 0 True (Some True) (From_cfg 0) w_opened)))"
proof -
  have "rwnx_cfg80211_scan w_deaf 0 True (Some True) (From_cfg 0) w_opened = Some (- ENOMEM_vif, snd (the (rwnx_cfg80211_scan w_deaf 0 True (Some True) (From_cfg 0) w_opened)))"
    by code_simp
  moreover have "- ENOMEM_vif \<noteq> - EBUSY_vif" by (simp add: ENOMEM_vif_def EBUSY_vif_def)
  ultimately show ?thesis using failed_scan_blocks_scans by blast
qed

text \<open>C36. A scheduled scan the driver refuses (the interface is connecting, test mode) or that fails leaves its mark behind: every later scheduled scan is refused, the next ordinary scan that ends frees the request that belongs to cfg80211 without telling it, and an end without a request, as after closing the interface, follows a null pointer.\<close>

theorem refused_sched_scan_sticks:
  assumes "rwnx_cfg80211_sched_scan_start c n al ie v hw = Some (e, h)" "e \<noteq> 0" "\<not> is_sched_scan hw" "\<not> scanning hw"
  shows "is_sched_scan h \<and> rwnx_cfg80211_sched_scan_start c n' al' ie' w h = Some (- EBUSY_vif, h) \<and>
    (case rwnx_rx_scanu_start_cfm (h\<lparr>scan_request := q\<rparr>) of
       None \<Rightarrow> q = None
     | Some g \<Rightarrow> (\<exists>r. q = Some r \<and> vout g = vout h @ [Cfg_sched_scan_results, Kfree_request r]))"
proof -
  have st: "res_all (\<lambda>e h. is_sched_scan h) (scan_p2p c v m g k)"
    if "is_sched_scan g" "\<And>h. is_sched_scan h \<Longrightarrow> res_all (\<lambda>e h. is_sched_scan h) (k h)" for m v g k
    using that
    by (induction m arbitrary: g) (auto simp: Let_def vemit_def start_p2p_timer_def upd_vif_def dest: attach_shape(2) split: option.split)
  have "res_all (\<lambda>e h. is_sched_scan h) (rwnx_send_scanu_req c n al ie v g)" if "is_sched_scan g" for g
  proof (cases al)
    case True
    then show ?thesis unfolding rwnx_send_scanu_req_def Let_def
      by (simp only: not_True_eq_False if_False, rule_tac st) (use that in \<open>auto simp: vemit_def split: option.split bool.split\<close>)
  qed (use that in \<open>simp add: rwnx_send_scanu_req_def\<close>)
  then have "res_all (\<lambda>e h. is_sched_scan h) (rwnx_cfg80211_sched_scan_start c n al ie v hw)"
    using assms(3, 4) by (simp add: rwnx_cfg80211_sched_scan_start_def rwnx_cfg80211_scan_def)
  then have "is_sched_scan h" using assms(1) by simp
  then show ?thesis
    by (cases q) (simp_all add: rwnx_cfg80211_sched_scan_start_def rwnx_rx_scanu_start_cfm_def Let_def vemit_def)
qed

lemma refused_sched_scan_sticks_witness: "is_sched_scan (snd (the (rwnx_cfg80211_sched_scan_start w_deaf 0 True None 0 w_opened)))"
proof -
  have s: "rwnx_cfg80211_sched_scan_start w_deaf 0 True None 0 w_opened = Some (- ENOMEM_vif, snd (the (rwnx_cfg80211_sched_scan_start w_deaf 0 True None 0 w_opened)))"
    "\<not> is_sched_scan w_opened" "\<not> scanning w_opened"
    by code_simp+
  have "- ENOMEM_vif \<noteq> 0" by (simp add: ENOMEM_vif_def)
  then show ?thesis using refused_sched_scan_sticks [OF s(1) _ s(2, 3)] by blast
qed

end
