(* ===== verification/Vif_Conn.thy ===== *)
theory Vif_Conn
  imports Vif_Run
begin

text \<open>
  What the operations on stations and connections achieve: stopping an access point removes every station
  whatever the firmware answers, WEP authentication alternates, WPI keys are reversed; and the error paths
  that leave a connection or a station behind.
\<close>

unbundle bit_operations_syntax

subsection \<open>Stopping an access point\<close>

lemma upd_field: "(\<And>x. P (f x) = P x) \<Longrightarrow> P (vif_at (upd_vif w f hw) v) = P (vif_at hw v)"
  by (cases "v = w"; cases "w < length (ifaces hw)") (auto simp: upd_vif_def not_less list_update_beyond)

lemma upd_drv_sta_simps [simp]:
  "ifaces (upd_drv_sta s f hw) = ifaces hw" "vif_table (upd_drv_sta s f hw) = vif_table hw" "vout (upd_drv_sta s f hw) = vout hw" "vifs (upd_drv_sta s f hw) = vifs hw"
  "sta_table (upd_drv_sta s f hw) = (sta_table hw)[s := f (drv_sta_at hw s)]" "sta_table (upd_vif v g hw) = sta_table hw" "sta_table (vemit ms hw) = sta_table hw"
  by (simp_all add: upd_drv_sta_def upd_vif_def vemit_def)

definition gone :: "drv_sta \<Rightarrow> drv_sta" where "gone x = x\<lparr>s_ps_active := False, s_valid := False\<rparr>"

lemma gone_simps [simp]: "s_mac (gone x) = s_mac x" "s_idx (gone x) = s_idx x" "s_valid (gone x) = False" "s_vif_idx (gone x) = s_vif_idx x" "s_vlan_idx (gone x) = s_vlan_idx x"
  by (simp_all add: gone_def)

text \<open>The VLAN of a station, if it has one, is open.\<close>

definition vlan_ok :: "vif_hw \<Rightarrow> nat \<Rightarrow> bool" where
  "vlan_ok hw s \<longleftrightarrow> s_vif_idx (drv_sta_at hw s) = s_vlan_idx (drv_sta_at hw s) \<or> vif_of (s_vlan_idx (drv_sta_at hw s)) hw \<noteq> None"

lemma vlan_ok_cong:
  "vif_table g = vif_table hw \<Longrightarrow> s_vif_idx (drv_sta_at g t) = s_vif_idx (drv_sta_at hw t) \<Longrightarrow> s_vlan_idx (drv_sta_at g t) = s_vlan_idx (drv_sta_at hw t) \<Longrightarrow> vlan_ok g t = vlan_ok hw t"
  by (simp add: vlan_ok_def vif_of_def)

definition drop_outs :: "nat \<Rightarrow> nat \<Rightarrow> drv_sta \<Rightarrow> vif_out list" where
  "drop_outs v s x = [Cfg_del_sta v (s_mac x), Reord_deinit (s_mac x), Txq_sta_deinit s, Fw_sta_del (s_idx x)]"

text \<open>\<open>h\<close> is \<open>hw\<close> after the stations \<open>ss\<close>, the first of the list, are dropped.\<close>

definition dropped :: "nat \<Rightarrow> nat list \<Rightarrow> vif_hw \<Rightarrow> vif_hw \<Rightarrow> bool" where
  "dropped v ss hw h \<longleftrightarrow> ap_stas (vif_at h v) = drop (length ss) (ap_stas (vif_at hw v)) \<and> iftype (vif_at h v) = iftype (vif_at hw v) \<and>
     length (ifaces h) = length (ifaces hw) \<and> vif_table h = vif_table hw \<and> length (sta_table h) = length (sta_table hw) \<and>
     (\<forall>s<length (sta_table hw). drv_sta_at h s = (if s \<in> set ss then gone (drv_sta_at hw s) else drv_sta_at hw s)) \<and>
     vout h = vout hw @ concat (map (\<lambda>s. drop_outs v s (drv_sta_at hw s)) ss)"

lemma dropped_nil [simp]: "dropped v [] hw hw"
  by (simp add: dropped_def)

lemma dropped_append:
  assumes "dropped v xs hw g" "dropped v ys g h" "\<forall>s \<in> set ys. s < length (sta_table hw)"
  shows "dropped v (xs @ ys) hw h"
proof -
  have e: "map (\<lambda>s. drop_outs v s (drv_sta_at g s)) ys = map (\<lambda>s. drop_outs v s (drv_sta_at hw s)) ys"
    using assms(1, 3) by (simp add: dropped_def drop_outs_def)
  have g: "gone (gone x) = gone x" for x by (cases x) (simp add: gone_def)
  show ?thesis using assms unfolding dropped_def e by (simp add: g add.commute)
qed

lemma drop_sta_ap:
  assumes ap: "ap_like (iftype (vif_at hw v))" "v < length (ifaces hw)" and s: "s < length (sta_table hw)" "vlan_ok hw s" and ss: "ap_stas (vif_at hw v) = s # ss"
  shows "\<exists>e h. drop_sta c True v s hw = Some (e, h) \<and> dropped v [s] hw h"
proof -
  define u where "u = unlink_sta v s hw"
  have u: "ap_stas (vif_at u v) = ss" "iftype (vif_at u v) = iftype (vif_at hw v)" "length (ifaces u) = length (ifaces hw)" "vif_table u = vif_table hw"
    "sta_table u = (sta_table hw)[s := gone (drv_sta_at hw s)]" "vout u = vout hw"
    using ap(2) ss by (simp_all add: u_def unlink_sta_def upd_at upd_field [where P = iftype] gone_def)
  have vu: "vif_of i u = vif_of i hw" for i by (simp add: vif_of_def u)
  have "forget_4a s u \<noteq> None" using s by (auto simp: forget_4a_def u vlan_ok_def vu split: option.split)
  then obtain g where g: "forget_4a s u = Some g" by auto
  have f: "ap_stas (vif_at g v) = ss" "iftype (vif_at g v) = iftype (vif_at hw v)" "length (ifaces g) = length (ifaces hw)" "vif_table g = vif_table hw"
    "sta_table g = sta_table u" "vout g = vout hw"
    using g u by (auto simp: forget_4a_def upd_field [where P = ap_stas] upd_field [where P = iftype] split: if_splits option.splits)
  have "\<not> sta_like (iftype (vif_at hw v))" using ap(1) by (auto simp: ap_like_def sta_like_def)
  then show ?thesis
    using ap(1) s(1) ss f g by (auto simp: drop_sta_def u_def [symmetric] request_def Let_def dropped_def drop_outs_def u nth_list_update)
qed

lemma drop_stas_ap:
  assumes "ap_like (iftype (vif_at hw v))" "v < length (ifaces hw)" "\<forall>s \<in> set ss. s < length (sta_table hw) \<and> vlan_ok hw s" "ap_stas (vif_at hw v) = ss"
  shows "\<exists>e h k. drop_stas c v ss hw = Some (e, h) \<and> k \<le> length ss \<and> (ss \<noteq> [] \<longrightarrow> 0 < k) \<and> dropped v (take k ss) hw h"
  using assms
proof (induction ss arbitrary: hw)
  case Nil
  then show ?case by simp
next
  case (Cons s ss)
  obtain e g where g: "drop_sta c True v s hw = Some (e, g)" "dropped v [s] hw g"
    using drop_sta_ap [of hw v s ss c] Cons.prems by auto
  show ?case
  proof (cases "e = 0")
    case False
    then show ?thesis using g by (auto intro!: exI [of _ 1])
  next
    case True
    have i: "ap_like (iftype (vif_at g v))" "v < length (ifaces g)" "ap_stas (vif_at g v) = ss" "length (sta_table g) = length (sta_table hw)"
      using g(2) Cons.prems by (simp_all add: dropped_def)
    have "vlan_ok g t" if "t \<in> set ss" for t
    proof -
      have "vlan_ok hw t" "t < length (sta_table hw)" using Cons.prems that by simp_all
      moreover have "s_vif_idx (drv_sta_at g t) = s_vif_idx (drv_sta_at hw t)" "s_vlan_idx (drv_sta_at g t) = s_vlan_idx (drv_sta_at hw t)" "vif_table g = vif_table hw"
        using g(2) \<open>t < length (sta_table hw)\<close> by (simp_all add: dropped_def)
      ultimately show ?thesis using vlan_ok_cong by blast
    qed
    then obtain e' h k where h: "drop_stas c v ss g = Some (e', h)" "k \<le> length ss" "dropped v (take k ss) g h"
      using Cons.IH [OF i(1, 2) _ i(3)] Cons.prems(3) i(4) by auto
    have "dropped v ([s] @ take k ss) hw h"
      by (rule dropped_append [OF g(2) h(3)]) (use Cons.prems(3) in \<open>auto dest: in_set_takeD\<close>)
    then show ?thesis using g(1) True h(1, 2) by (auto intro!: exI [of _ "Suc k"])
  qed
qed

lemma stop_loop_drops:
  assumes "ap_like (iftype (vif_at hw v))" "v < length (ifaces hw)" "\<forall>s \<in> set (ap_stas (vif_at hw v)). s < length (sta_table hw) \<and> vlan_ok hw s"
    "length (ap_stas (vif_at hw v)) \<le> n"
  shows "\<exists>h. stop_loop c v n hw = Some h \<and> dropped v (ap_stas (vif_at hw v)) hw h"
  using assms
proof (induction n arbitrary: hw)
  case 0
  then show ?case by (subst stop_loop.simps) simp
next
  case (Suc n)
  define ss where "ss = ap_stas (vif_at hw v)"
  show ?case
  proof (cases "ss = []")
    case True
    then show ?thesis by (subst stop_loop.simps) (simp add: ss_def)
  next
    case False
    obtain e g k where g: "drop_stas c v ss hw = Some (e, g)" "k \<le> length ss" "0 < k" "dropped v (take k ss) hw g"
      using drop_stas_ap [OF Suc.prems(1, 2) Suc.prems(3) refl, of c] False unfolding ss_def by blast
    have i: "ap_like (iftype (vif_at g v))" "v < length (ifaces g)" "ap_stas (vif_at g v) = drop k ss" "length (sta_table g) = length (sta_table hw)"
      using g(2, 4) Suc.prems by (simp_all add: dropped_def ss_def min_def)
    have "t < length (sta_table g) \<and> vlan_ok g t" if "t \<in> set (drop k ss)" for t
    proof -
      have t: "vlan_ok hw t" "t < length (sta_table hw)" using Suc.prems(3) that by (auto simp: ss_def dest: in_set_dropD)
      then have "s_vif_idx (drv_sta_at g t) = s_vif_idx (drv_sta_at hw t)" "s_vlan_idx (drv_sta_at g t) = s_vlan_idx (drv_sta_at hw t)" "vif_table g = vif_table hw"
        using g(4) by (simp_all add: dropped_def)
      then have "vlan_ok g t = vlan_ok hw t" by (intro vlan_ok_cong)
      then show ?thesis using t i(4) by simp
    qed
    then obtain h where h: "stop_loop c v n g = Some h" "dropped v (drop k ss) g h"
      using Suc.IH [OF i(1, 2), unfolded i(3)] Suc.prems(4) g(3) unfolding ss_def by fastforce
    have "dropped v (take k ss @ drop k ss) hw h"
      by (rule dropped_append [OF g(4) h(2)]) (use Suc.prems(3) in \<open>auto simp: ss_def dest: in_set_dropD\<close>)
    then show ?thesis
      using False g(1) h(1) by (subst stop_loop.simps) (simp add: ss_def [symmetric] rwnx_cfg80211_del_station_compat_def)
  qed
qed

definition told_gone :: "vif_out list \<Rightarrow> vif_out list" where
  "told_gone = filter (\<lambda>m. case m of Cfg_del_sta _ _ \<Rightarrow> True | _ \<Rightarrow> False)"

lemma told_gone_simps [simp]: "told_gone (xs @ ys) = told_gone xs @ told_gone ys"
  by (simp add: told_gone_def)

lemma told_gone_dropped:
  "told_gone (concat (map (\<lambda>s. drop_outs v s (f s)) ss)) = map (\<lambda>s. Cfg_del_sta v (s_mac (f s))) ss"
  by (induction ss) (simp_all add: told_gone_def drop_outs_def)


subsection \<open>Keys\<close>

text \<open>A WPI key reaches the firmware with each half reversed, and reversing twice gives the key back.\<close>

theorem wpi_reverse_halves:
  assumes "length key = 32"
  shows "wpi_reverse key = rev (take 16 key) @ rev (drop 16 key) \<and> wpi_reverse (wpi_reverse key) = key"
proof -
  have k: "key = map (\<lambda>i. key ! i) [0..<32]" using map_nth [of key] assms by simp
  have e: "wpi_reverse (map f [0..<32]) = rev (take 16 (map f [0..<32])) @ rev (drop 16 (map f [0..<32]))" for f
    by (simp add: wpi_reverse_def WPI_KEY_LEN_def WPI_SUBKEY_LEN_def swap_octets_def upt_conv_Cons)
  have r: "wpi_reverse key = rev (take 16 key) @ rev (drop 16 key)" if "length key = 32" for key
    using e [of "\<lambda>i. key ! i"] map_nth [of key] that by simp
  then show ?thesis using assms by (simp add: r)
qed

subsection \<open>Connecting\<close>

definition auth_of :: "vif_out \<Rightarrow> nl80211_auth_type option" where
  "auth_of m = (case m of Fw_sm_connect _ a _ \<Rightarrow> Some a | _ \<Rightarrow> None)"

definition auths :: "vif_out list \<Rightarrow> nl80211_auth_type list" where "auths = List.map_filter auth_of"

lemma auths_simps [simp]: "auths [] = []" "auths (m # ms) = (case auth_of m of None \<Rightarrow> auths ms | Some a \<Rightarrow> a # auths ms)" "auths (xs @ ys) = auths xs @ auths ys"
  by (simp_all add: auths_def List.map_filter_def split: option.split)

lemma auth_of_simps [simp]: "auth_of (Fw_sm_connect i a r) = Some a" "auth_of (Fw_key_add i j k ci key) = None" "auth_of (Cfg_connect_result v n) = None"
  "auth_of (Cfg_disconnected v) = None" "auth_of (Cfg_roamed v) = None" "auth_of (Queues_start v) = None"
  by (simp_all add: auth_of_def)

lemma note_cipher_leaves:
  "wep_enabled (vif_at (note_cipher v sta ci b hw) w) = wep_enabled (vif_at hw w)" "drv_conn_state (vif_at (note_cipher v sta ci b hw) w) = drv_conn_state (vif_at hw w)"
  "vout (note_cipher v sta ci b hw) = vout hw" "length (ifaces (note_cipher v sta ci b hw)) = length (ifaces hw)"
  by (simp_all add: note_cipher_def Let_def upd_field [where P = wep_enabled] upd_field [where P = drv_conn_state])

lemma add_key_leaves:
  "res_all (\<lambda>e h. wep_enabled (vif_at h v) = wep_enabled (vif_at hw v) \<and> drv_conn_state (vif_at h v) = drv_conn_state (vif_at hw v) \<and>
     length (ifaces h) = length (ifaces hw) \<and> auths (vout h) = auths (vout hw)) (rwnx_cfg80211_add_key c v idx None suite key hw)"
  by (auto simp: rwnx_cfg80211_add_key_def key_owner_def Let_def set_key_def note_cipher_leaves
    upd_field [where P = wep_enabled] upd_field [where P = drv_conn_state] split: option.split)

text \<open>After the request: the state of the connection, and of WEP when a request went out.\<close>

lemma connect_rest_after:
  assumes "v < length (ifaces hw)"
  shows "res_all (\<lambda>e h. drv_conn_state (vif_at h v) = drv_conn_state (vif_at hw v) \<and> length (ifaces h) = length (ifaces hw) \<and>
      (if cp_ie_len sme \<le> SM_CONNECT_IE_BUF \<and> auth \<noteq> NL80211_AUTHTYPE_NETWORK_EAP
       then auths (vout h) = auths (vout hw) @ [auth] \<and> \<not> wep_auth_err (vif_at h v) \<and>
         (cp_n_pairwise sme \<noteq> 0 \<and> wep_suite (cp_cipher_pairwise sme) \<and> wep_suite (cp_cipher_group sme) \<longrightarrow> wep_enabled (vif_at h v) \<and> last_auth_type (vif_at h v) = auth)
       else e \<noteq> 0)) (connect_rest c v True auth sme hw)"
proof -
  define g where "g = (let hw = (if iftype (vif_at hw v) = NL80211_IFTYPE_P2P_CLIENT then hw\<lparr>is_p2p_connected := True\<rparr> else hw)
      in if sta_like (iftype (vif_at hw v)) then upd_vif v (\<lambda>x. x\<lparr>paired_cipher_type := 0xFF, group_cipher_type := 0xFF\<rparr>) hw else hw)"
  have g: "drv_conn_state (vif_at g v) = drv_conn_state (vif_at hw v)" "length (ifaces g) = length (ifaces hw)" "vout g = vout hw"
    using assms by (simp_all add: g_def Let_def upd_at)
  have e: "connect_rest c v True auth sme hw = rwnx_send_sm_connect_req c v True auth sme g (\<lambda>r hw. Some (co_error (fw_status r), hw))"
    by (simp add: connect_rest_def g_def Let_def)
  have "- EINVAL_vif \<noteq> 0" by (simp add: EINVAL_vif_def)
  then show ?thesis
    unfolding e rwnx_send_sm_connect_req_def Let_def using assms g
    by (auto simp: upd_at Let_def)
qed

lemma connect_after:
  assumes v: "v < length (ifaces hw)" and st: "drv_conn_state (vif_at hw v) \<noteq> RWNX_DRV_STATUS_DISCONNECTING"
    and auth: "auth = (if wep_suite (cp_cipher_group sme) \<or> wep_suite (cp_cipher_pairwise sme) then wep_auth_type (vif_at hw v) (cp_auth sme) else cp_auth sme)"
  shows "res_all (\<lambda>e h. drv_conn_state (vif_at h v) = RWNX_DRV_STATUS_CONNECTING \<and> length (ifaces h) = length (ifaces hw) \<and>
      (if cp_ie_len sme \<le> SM_CONNECT_IE_BUF \<and> auth \<noteq> NL80211_AUTHTYPE_NETWORK_EAP \<and> (auth = NL80211_AUTHTYPE_SAE \<longrightarrow> cp_external_auth sme)
       then auths (vout h) = auths (vout hw) @ [auth] \<and> \<not> wep_auth_err (vif_at h v) \<and>
         (cp_n_pairwise sme \<noteq> 0 \<and> wep_suite (cp_cipher_pairwise sme) \<and> wep_suite (cp_cipher_group sme) \<longrightarrow> wep_enabled (vif_at h v) \<and> last_auth_type (vif_at h v) = auth)
       else e \<noteq> 0)) (rwnx_cfg80211_connect c v True sme hw)"
proof -
  define g where "g = set_conn v RWNX_DRV_STATUS_CONNECTING hw"
  have g: "drv_conn_state (vif_at g v) = RWNX_DRV_STATUS_CONNECTING" "length (ifaces g) = length (ifaces hw)" "vout g = vout hw"
    using v by (simp_all add: g_def set_conn_def upd_at)
  have nz: "- EINVAL_vif \<noteq> 0" by (simp add: EINVAL_vif_def)
  show ?thesis
  proof (cases "if auth = NL80211_AUTHTYPE_SHARED_KEY then cp_key sme else None")
    case None
    show ?thesis
      using connect_rest_after [of v g sme auth c] v st None g nz
      by (auto simp: rwnx_cfg80211_connect_def Let_def auth [symmetric] g_def [symmetric] res_all_def split: option.splits if_splits)
  next
    case (Some key)
    then have a: "auth = NL80211_AUTHTYPE_SHARED_KEY" by (simp split: if_splits)
    show ?thesis
    proof (cases "rwnx_cfg80211_add_key c v (cp_key_idx sme) None (cp_cipher_group sme) key g")
      case (Some r)
      then obtain e h where r: "rwnx_cfg80211_add_key c v (cp_key_idx sme) None (cp_cipher_group sme) key g = Some (e, h)" by (cases r) simp
      then have h: "drv_conn_state (vif_at h v) = RWNX_DRV_STATUS_CONNECTING" "length (ifaces h) = length (ifaces hw)" "auths (vout h) = auths (vout hw)"
        using add_key_leaves [of v g c "cp_key_idx sme" "cp_cipher_group sme" key] g by simp_all
      show ?thesis
        using connect_rest_after [of v h sme auth c] v st h r a \<open>(if auth = _ then _ else _) = Some key\<close>
        by (auto simp: rwnx_cfg80211_connect_def Let_def auth [symmetric] g_def [symmetric] res_all_def split: option.splits)
    qed (use st \<open>(if auth = _ then _ else _) = Some key\<close> in \<open>simp add: rwnx_cfg80211_connect_def Let_def auth [symmetric] g_def [symmetric]\<close>)
  qed
qed

text \<open>A connection attempt that fails in the driver or at the firmware leaves the interface in the connecting state, in which every scan on it is refused.\<close>

theorem failed_connect_stays_connecting:
  assumes "rwnx_cfg80211_connect c v True sme hw = Some (e, h)" "e \<noteq> 0" "v < length (ifaces hw)" "drv_conn_state (vif_at hw v) \<noteq> RWNX_DRV_STATUS_DISCONNECTING"
  shows "drv_conn_state (vif_at h v) = RWNX_DRV_STATUS_CONNECTING \<and> rwnx_cfg80211_scan c n al ie (From_cfg v) h = Some (- EBUSY_vif, h) \<and>
    rwnx_cfg80211_sched_scan_start c n al ie v h \<in> {Some (- EBUSY_vif, h), Some (- EBUSY_vif, h\<lparr>is_sched_scan := True\<rparr>)}"
proof -
  have "drv_conn_state (vif_at h v) = RWNX_DRV_STATUS_CONNECTING"
    using connect_after [OF assms(3, 4) refl, of sme c] assms(1) by simp
  then show ?thesis by (simp add: rwnx_cfg80211_scan_def rwnx_cfg80211_sched_scan_start_def)
qed

text \<open>WEP authentication alternates: when an automatic attempt is rejected for its algorithm, the next one is made with the other algorithm.\<close>

theorem wep_auth_alternates:
  assumes v: "v < length (ifaces hw)"
    and wep: "cp_auth sme = NL80211_AUTHTYPE_AUTOMATIC" "cp_n_pairwise sme \<noteq> 0" "wep_suite (cp_cipher_pairwise sme)" "wep_suite (cp_cipher_group sme)"
    and first: "rwnx_cfg80211_connect c v True sme hw = Some (0, h1)"
    and rejected: "vif_of (ci_vif_idx ind) h1 = Some v" "ci_status_code ind = WLAN_STATUS_NOT_SUPPORTED_AUTH_ALG" "rwnx_rx_sm_connect_ind ind chandef h1 = Some h2"
    and second: "rwnx_cfg80211_connect c v True sme h2 = Some (e, h3)"
  shows "\<exists>a. auths (vout h2) = auths (vout hw) @ [a] \<and>
    auths (vout h3) = auths (vout hw) @ [a, if a = NL80211_AUTHTYPE_SHARED_KEY then NL80211_AUTHTYPE_OPEN_SYSTEM else NL80211_AUTHTYPE_SHARED_KEY]"
proof -
  define a where "a = wep_auth_type (vif_at hw v) NL80211_AUTHTYPE_AUTOMATIC"
  have st: "drv_conn_state (vif_at hw v) \<noteq> RWNX_DRV_STATUS_DISCONNECTING"
    using first by (auto simp: rwnx_cfg80211_connect_def EALREADY_vif_def)
  have c1: "cp_ie_len sme \<le> SM_CONNECT_IE_BUF" "auths (vout h1) = auths (vout hw) @ [a]" "wep_enabled (vif_at h1 v)" "last_auth_type (vif_at h1 v) = a" "length (ifaces h1) = length (ifaces hw)"
    using connect_after [OF v st refl, of sme c] first wep by (auto simp: a_def split: if_splits)
  have n: "WLAN_STATUS_NOT_SUPPORTED_AUTH_ALG \<noteq> 0" by (simp add: WLAN_STATUS_NOT_SUPPORTED_AUTH_ALG_def)
  have v1: "v < length (ifaces h1)" using v c1(5) by simp
  have h2: "wep_enabled (vif_at h2 v)" "wep_auth_err (vif_at h2 v)" "last_auth_type (vif_at h2 v) = a" "drv_conn_state (vif_at h2 v) = RWNX_DRV_STATUS_DISCONNECTED"
    "auths (vout h2) = auths (vout hw) @ [a]" "length (ifaces h2) = length (ifaces hw)"
    using rejected v1 n c1 by (auto simp: rwnx_rx_sm_connect_ind_def Let_def not_connected_def set_conn_def upd_at)
  define b where "b = wep_auth_type (vif_at h2 v) NL80211_AUTHTYPE_AUTOMATIC"
  have b: "b = (if a = NL80211_AUTHTYPE_SHARED_KEY then NL80211_AUTHTYPE_OPEN_SYSTEM else NL80211_AUTHTYPE_SHARED_KEY)"
    using h2 by (simp add: b_def wep_auth_type_def)
  have "auths (vout h3) = auths (vout h2) @ [b]"
    using connect_after [of v h2 b sme c] second wep h2 v c1(1) b by (auto simp: b_def [symmetric] split: if_splits)
  then show ?thesis using h2(5) b by simp
qed

text \<open>An indication that the connection has failed puts the carrier on and the queues to work all the same.\<close>

theorem failed_connection_gets_carrier:
  assumes "rwnx_rx_sm_connect_ind ind chandef hw = Some h" "vif_of (ci_vif_idx ind) hw = Some v" "ci_status_code ind \<noteq> 0" "v < length (ifaces hw)"
  shows "drv_conn_state (vif_at h v) = RWNX_DRV_STATUS_DISCONNECTED \<and> carrier (vif_at h v) \<and> last (vout h) = Queues_start v"
  using assms by (auto simp: rwnx_rx_sm_connect_ind_def Let_def not_connected_def set_conn_def upd_at)

subsection \<open>Stations that are not found\<close>

text \<open>The work for a lost station takes the first interface with the index the firmware gave, open or not: an interface that was never opened, or was closed, and still carries that index keeps it from removing the station.\<close>

theorem lost_station_shadowed:
  assumes "vifs hw = xs @ w # ys" "\<forall>x \<in> set xs. vif_index (vif_at hw x) \<noteq> i" "vif_index (vif_at hw w) = i" "\<not> ap_like (iftype (vif_at hw w))"
  shows "apm_staloss_work_process c i mac hw = Some hw"
proof -
  have "find (\<lambda>v. vif_index (vif_at hw v) = i) (xs @ w # ys) = Some w"
    using assms(2, 3) by (induction xs) simp_all
  then show ?thesis using assms(1, 4) by (simp add: apm_staloss_work_process_def)
qed

text \<open>When the firmware refuses a TDLS peer, \<open>change_station\<close> goes on with a null pointer.\<close>

theorem refused_tdls_peer_faults:
  assumes "rwnx_get_sta mac hw = None" "bit (sp_flags_set sp) NL80211_STA_FLAG_TDLS_PEER" "bit (sp_flags_mask sp) NL80211_STA_FLAG_AUTHORIZED \<or> sp_vlan sp \<noteq> None"
    "r = fw_answer c (vemit [Fw_sta_add (vif_index (vif_at hw v))] (hw\<lparr>adding_sta := True\<rparr>))" "fw_error r = 0" "fw_status r \<noteq> CO_OK"
  shows "rwnx_cfg80211_change_station c v mac sp hw = None"
  using assms by (auto simp: rwnx_cfg80211_change_station_def request_ok_def request_def Let_def change_known_def)

subsection \<open>The cases of the theorems\<close>

text \<open>A firmware that numbers stations from 1, gives the broadcast station 32, and fails to remove stations.\<close>

definition w_ap_fw :: "vif_hw \<Rightarrow> fw_reply" where
  "w_ap_fw hw = (case last (vout hw) of
     Fw_sta_add _ \<Rightarrow> \<lparr>fw_error = 0, fw_status = 0, fw_inst = of_nat (length (filter (\<lambda>m. case m of Fw_sta_add _ \<Rightarrow> True | _ \<Rightarrow> False) (vout hw))), fw_ch = 0\<rparr>
   | Fw_sta_del _ \<Rightarrow> \<lparr>fw_error = - EIO, fw_status = 0, fw_inst = 0, fw_ch = 0\<rparr>
   | Fw_apm_start _ \<Rightarrow> \<lparr>fw_error = 0, fw_status = 0, fw_inst = 32, fw_ch = 0\<rparr>
   | _ \<Rightarrow> w_fw hw)"

definition w_ap_cfg :: vif_cfg where "w_ap_cfg = w_cfg\<lparr>fw_answer := w_ap_fw\<rparr>"

definition w_sta :: "u8 \<Rightarrow> vif_hw \<Rightarrow> vif_hw" where
  "w_sta b hw = snd (the (rwnx_cfg80211_add_station w_ap_cfg 1 [2, 0, 0, 0, 0, b] \<lparr>sp_aid = 1, sp_flags_set = 0, sp_flags_mask = 0, sp_vlan = None\<rparr> hw))"

text \<open>A station interface that is down, and an access point with two stations.\<close>

definition w_ap :: vif_hw where
  "w_ap = w_sta 8 (w_sta 7 (snd (the (rwnx_cfg80211_start_ap w_ap_cfg 1 True \<lparr>cd_radar_chan = Some False, center_freq1 = 2412\<rparr>
     (snd (the (rwnx_open w_ap_cfg 1 (snd (rwnx_cfg80211_add_iface NL80211_IFTYPE_AP [] False True w_added)))))))))"

lemma w_ap_stations: "ap_stas (vif_at w_ap 1) = [1, 2]" "s_valid (drv_sta_at w_ap 1)" "s_valid (drv_sta_at w_ap 32)"
  by code_simp+


lemma lost_station_shadowed_witness: "apm_staloss_work_process w_ap_cfg 0 [2, 0, 0, 0, 0, 7] w_ap = Some w_ap"
proof (rule lost_station_shadowed [of _ "[]" 0 "[1]"])
  show "vifs w_ap = [] @ 0 # [1]" "\<forall>x \<in> set []. vif_index (vif_at w_ap x) \<noteq> 0" "vif_index (vif_at w_ap 0) = 0" "\<not> ap_like (iftype (vif_at w_ap 0))"
    by code_simp+
qed

definition w_wep :: connect_params where
  "w_wep = \<lparr>cp_auth = NL80211_AUTHTYPE_AUTOMATIC, cp_cipher_group = WLAN_CIPHER_SUITE_WEP40, cp_n_pairwise = 1, cp_cipher_pairwise = WLAN_CIPHER_SUITE_WEP40,
     cp_key = Some [1, 2, 3, 4, 5], cp_key_idx = 0, cp_external_auth = False, cp_ie_len = 0\<rparr>"

definition w_asked :: vif_hw where "w_asked = snd (the (rwnx_cfg80211_connect w_cfg 0 True w_wep w_opened))"

definition w_ind :: sm_connect_ind where
  "w_ind = \<lparr>ci_status_code = 13, ci_bssid = replicate 6 0, ci_roamed = False, ci_vif_idx = 0, ci_ap_idx = 0, ci_ch_idx = 0, ci_qos = False, ci_aid = 0\<rparr>"

definition w_rejected :: vif_hw where "w_rejected = the (rwnx_rx_sm_connect_ind w_ind \<lparr>cd_radar_chan = Some False, center_freq1 = 2412\<rparr> w_asked)"

lemma wep_auth_alternates_witness: "auths (vout (snd (the (rwnx_cfg80211_connect w_cfg 0 True w_wep w_rejected)))) = [NL80211_AUTHTYPE_SHARED_KEY, NL80211_AUTHTYPE_OPEN_SYSTEM]"
proof -
  have a: "0 < length (ifaces w_opened)" "cp_auth w_wep = NL80211_AUTHTYPE_AUTOMATIC" "cp_n_pairwise w_wep \<noteq> 0" "wep_suite (cp_cipher_pairwise w_wep)"
    "wep_suite (cp_cipher_group w_wep)" "rwnx_cfg80211_connect w_cfg 0 True w_wep w_opened = Some (0, w_asked)" "vif_of (ci_vif_idx w_ind) w_asked = Some 0"
    "ci_status_code w_ind = WLAN_STATUS_NOT_SUPPORTED_AUTH_ALG"
    "rwnx_rx_sm_connect_ind w_ind \<lparr>cd_radar_chan = Some False, center_freq1 = 2412\<rparr> w_asked = Some w_rejected"
    "rwnx_cfg80211_connect w_cfg 0 True w_wep w_rejected = Some (0, snd (the (rwnx_cfg80211_connect w_cfg 0 True w_wep w_rejected)))"
    "auths (vout w_rejected) = [NL80211_AUTHTYPE_SHARED_KEY]" "auths (vout w_opened) = []"
    by code_simp+
  show ?thesis using wep_auth_alternates [OF a(1-10)] unfolding a(11, 12) by auto
qed

lemma failed_connect_stays_connecting_witness: "drv_conn_state (vif_at (snd (the (rwnx_cfg80211_connect w_deaf 0 True w_wep w_opened))) 0) = RWNX_DRV_STATUS_CONNECTING"
proof -
  have a: "rwnx_cfg80211_connect w_deaf 0 True w_wep w_opened = Some (- ENOMEM_vif, snd (the (rwnx_cfg80211_connect w_deaf 0 True w_wep w_opened)))"
    "0 < length (ifaces w_opened)" "drv_conn_state (vif_at w_opened 0) \<noteq> RWNX_DRV_STATUS_DISCONNECTING" "- ENOMEM_vif \<noteq> 0"
    by code_simp+
  show ?thesis using failed_connect_stays_connecting [OF a(1) a(4) a(2, 3)] by blast
qed

end
