(* ===== verification/Spec2Isabelle.thy ===== *)
theory Spec2Isabelle
  imports Md5 Radar_Chan Cmd_Mgr Tx_Run Rx_Run Rx_Frag Sdio_Bus Sdio_Power Sdio_Probe User_Parse Bsp_Load Vif_Conn
begin

text \<open>
  Verification of the AIC8800 wireless driver of the SDK (\<^verbatim>\<open>src/kernel/linux-5.4/drivers/net/wireless/aic8800\<close>):
  the code between the kernel's network stack and the firmware of the chip, on the SDIO bus, in the
  configuration of its Makefiles (full MAC, no MU-MIMO, no transmit A-MSDU, no bridge support, no
  preallocated buffers, SDIO power control).  Paths below are relative to \<^verbatim>\<open>aic8800_fdrv/\<close> unless they start
  with \<^verbatim>\<open>aic8800_bsp/\<close>.

  \<^bold>\<open>The program and its parts.\<close>  A packet of the stack is put on the software queue of its station and
  TID; the scheduler takes packets from the queues of a hardware queue while the firmware grants
  credits; the bus queue sorts them by priority; the bus thread waits for free firmware buffers, packs
  packets into aggregates and writes these to the card.  In the other direction the interrupt handler
  queues the blocks it reads, a thread takes them apart into data frames and messages; a data frame is
  decapsulated, put together from fragments or split into its parts, held back until its predecessors
  have come, and delivered.  Requests to the firmware go through a command manager that lets one
  command out at a time and waits for its confirmation.  Radar pulses reported by the firmware are
  collected and searched for the patterns of radars.  At start the chip is loaded: patch tables and
  images are read from files, sent word by word, and the firmware is started; a configuration file
  sets its power tables.  Above all this cfg80211 creates, opens and changes interfaces, scans, connects
  and runs access points; the driver keeps tables of interfaces and stations that mirror the firmware's.

  \<^bold>\<open>Theories.\<close>  A definition has the name of the function, structure or macro it translates; loops and
  parts of long functions have names of their own.
  \<^item> \<open>Prelude\<close>: integer types, error numbers, lemmas and hint collections that components share.
  \<^item> \<open>Md5\<close> (\<^verbatim>\<open>md5.c\<close>, the same file in \<^verbatim>\<open>aic8800_bsp/\<close>): the digest of images.  The transform equals the loop
    of RFC 1321, cutting a message into pieces does not change its digest, and no call hangs (the
    locale \<open>incremental_hash\<close> states the contract).
  \<^item> \<open>Radar_Pri\<close>, \<open>Radar_Ops\<close>, \<open>Radar_Dfs\<close>, \<open>Radar_Chan\<close> (\<^verbatim>\<open>rwnx_radar.c\<close>, \<^verbatim>\<open>rwnx_chanctx_*\<close> of \<^verbatim>\<open>rwnx_main.c\<close>):
    pools, pulse queues and sequences; the two detector kinds behind the operations table (locale
    \<open>detector_kind\<close>, interpreted on both); the matrix of detectors; pulse rings, worker, the channel
    availability check and channel contexts.  A report is backed by enough pulses of the reported
    interval, burst counters do not wrap, the matrix survives every pulse, every check ends exactly once.
  \<^item> \<open>Cmd_Mgr\<close> (\<^verbatim>\<open>rwnx_cmds.c\<close>, \<^verbatim>\<open>rwnx_send_msg\<close> of \<^verbatim>\<open>rwnx_msg_tx.c\<close>): the command manager and its array of commands.
    Over all interleavings (\<open>cmd_run\<close>) at most one command is in flight, none is pushed twice, and a
    deferred command has somebody who will push it.
  \<^item> \<open>Tx_Queue\<close>, \<open>Tx_Ps\<close>, \<open>Tx_Sched\<close>, \<open>Tx_Run\<close> (\<^verbatim>\<open>rwnx_txq.c\<close>, the push path and power save of \<^verbatim>\<open>rwnx_tx.c\<close>): software
    queues, their numbering, scheduling, flow control, retries, service periods.  Over the runs \<open>tx_run\<close>
    the lists of the hardware queues are exactly the scheduled queues, which have packets and credits;
    the loop over a hardware queue ends without a failed assertion and keeps the order of packets.
  \<^item> \<open>Rx_Window\<close>, \<open>Rx_Reorder\<close>, \<open>Rx_Run\<close> (\<^verbatim>\<open>rwnx_rx.c\<close>, the pool of frames of \<^verbatim>\<open>aicwf_txrxif.c\<close>): reordering.  The
    abstract window over unbounded sequence numbers is in \<open>Rx_Window\<close> and the code refines it; over the
    runs \<open>rx_run\<close> no buffer is lost, freed twice or delivered twice, and held frames have a timer.
    The pool satisfies the locale \<open>frame_pool\<close>.
  \<^item> \<open>Frame_Queue\<close> (\<^verbatim>\<open>aicwf_txrxif.c\<close>): the eight-priority queue, with the contract \<open>prio_queue\<close> that the SDIO
    theories rely on.
  \<^item> \<open>Sdio_Tx\<close>, \<open>Sdio_Frame\<close>, \<open>Sdio_Run\<close>, \<open>Sdio_Bus\<close> (\<^verbatim>\<open>aicwf_sdio.c\<close>): flow control, aggregation, command path and
    thread of the transmit side.  The header checksum is the remainder of a polynomial division, every
    aggregate decodes to its packets, every accepted packet is written once and in order, and the
    work function returns when the card answers and does not when the card stays silent.
  \<^item> \<open>Sdio_Rx\<close>, \<open>Sdio_Irq\<close> (\<^verbatim>\<open>aicwf_sdio.c\<close>, \<^verbatim>\<open>aicwf_txrxif.c\<close>): the interrupt handler and the receive thread side by side
    (\<open>rx_step\<close>, a step between two accesses to shared state).  What is handed up is what the
    accepted blocks hold, in order; a waiting thread with blocks queued is about to be woken, unless an
    allocation failed, after which it never is.
  \<^item> \<open>Sdio_Card\<close> (\<^verbatim>\<open>aicwf_sdio.c\<close>, \<^verbatim>\<open>aicwf_sdio.h\<close>): registers of the card, the set-up of its function, and the interrupt
    handler as it is written; it refines the handler of \<open>Sdio_Irq\<close>, returns exactly when the status can be
    read, and reads what the status announces, except on the newer chip when another interrupt comes with it.
  \<^item> \<open>Sdio_Power\<close> (\<^verbatim>\<open>aicwf_sdio.c\<close>): sleep and wake-up of the card, the power timer and thread beside the transmit thread,
    suspend, resume and stop (\<open>pwr_step\<close>).  An unused card goes to sleep, waking it is bounded, and work that
    arrives while the power thread decides can be left behind.
  \<^item> \<open>Sdio_Probe\<close> (\<^verbatim>\<open>aicwf_sdio.c\<close>, \<^verbatim>\<open>aicwf_txrxif.c\<close>, \<^verbatim>\<open>sdio_host.c\<close>, module entry of \<^verbatim>\<open>rwnx_main.c\<close>): loading, probing, releasing and
    unloading.  Loading either fails and leaves nothing or succeeds, and then unloading leaves nothing; the
    failures that are reported as success are theorems of their own.
  \<^item> \<open>Rx_Data\<close>, \<open>Rx_Decap\<close>, \<open>Rx_Frag\<close> (\<^verbatim>\<open>rwnx_rx.c\<close>): the data indication.  Well-formed 802.11 frames become the
    Ethernet frames they carry, aggregates are taken apart, fragments put together; the theorems on
    malformed frames say what the code does with them.
  \<^item> \<open>User_Config\<close>, \<open>User_Parse\<close> (\<^verbatim>\<open>rwnx_platform.c\<close>): the configuration file.  The state machines equal a
    reader of lines, settings written are read back, and the buffers hold for short lines.
  \<^item> \<open>Bsp_Boot\<close>, \<open>Bsp_Load\<close> (\<^verbatim>\<open>aic8800_bsp/aic_bsp_driver.c\<close>, \<^verbatim>\<open>aic8800_bsp/aic8800d80_compat.c\<close>): bring-up of the
    chip.  Images end up in its memory, patch tables are read back and sent pair by pair, and the
    firmware is started last, after everything before it succeeded.

  \<^item> \<open>Vif_Mgmt\<close>, \<open>Vif_Sta\<close> (\<^verbatim>\<open>rwnx_main.c\<close>, the scan and SM parts of \<^verbatim>\<open>rwnx_msg_tx.c\<close> and \<^verbatim>\<open>rwnx_msg_rx.c\<close>): interfaces, the P2P
    device and scans; stations, access points, connections and keys.  \<open>Vif_Inv\<close> is the consistency of
    the interface tables with one lemma for each operation, \<open>Vif_Quiet\<close> shows that the operations on
    stations do not touch what it reads, and \<open>Vif_Run\<close> puts all of them together in the histories
    \<open>vif_run\<close>: indices, tables, counts and MAC addresses stay consistent and the firmware is told of
    interfaces only while it runs.  \<open>Vif_Conn\<close>: stopping an access point removes every station, WEP
    authentication alternates.  The failures that break the consistency are theorems of their own.

  \<^bold>\<open>How state is modelled.\<close>  A structure is a record, an array a list with positions as pointers, a kernel
  list a list of positions (or of values where nothing else points to them), a machine integer a word of
  its width.  What the code cannot read of its environment is an argument: answers of the card
  (\<open>sdio_env\<close>, \<open>card_env\<close>), of the kernel while the driver is loaded (\<open>probe_env\<close>), of the chip and the file system (\<open>boot_env\<close>), of the firmware to requests (\<open>vif_cfg\<close>), allocations (\<open>rx_cfg\<close>, \<open>rx_env\<close>), and what it
  tells the outside is a list of outputs.  A failed assertion, a null pointer that would be followed
  and an access outside an array are values of their own (\<open>None\<close> or a fault), so theorems can say when they happen.

  \<^bold>\<open>Concurrency.\<close>  The step relations \<open>cmd_run\<close>, \<open>tx_run\<close>, \<open>rx_run\<close> and \<open>cac_run\<close> interleave whole calls, split where
  a call sleeps: these run under a spin lock of the code.  \<open>vif_run\<close> takes the calls of cfg80211 one at a time,
  as the lock of the kernel's network configuration makes them; its timer and indications come between
  two calls, although in the code they could come while a call waits for the firmware.  \<open>rx_step\<close> interleaves the interrupt handler
  and the receive thread inside their functions.  \<open>bus_run\<close> interleaves the transmit thread and its
  callers call by call; \<open>pwr_step\<close> divides the transmit and the power thread where they take and release the
  semaphores of the power state, so that the other one can come between their check and their action.  The premises of the steps are what the callers outside this code guarantee; they
  are stated with each relation.

  \<^bold>\<open>Termination and fuel.\<close>  Loops that end are total functions with a measure.  The loops that may not end
  (polling the card, reading its interrupt status, taking apart a block or an aggregate with hostile lengths, the receive thread) are
  partial functions whose result \<open>None\<close> means that they do not return; for each there is a theorem on when
  they do.  Fuel appears in the loop over a hardware queue, where the bound is computed from the packets that wait,
  and in the loop that removes the stations of an access point, where it is their number; both are
  proved to be enough.

  \<^bold>\<open>Not modelled.\<close>  Of \<^verbatim>\<open>rwnx_main.c\<close> the set-up of the wiphy, statistics, power and mesh settings, beacons, management frames
  and channel switches, which pass parameters on; the
  construction of firmware messages (\<^verbatim>\<open>rwnx_msg_tx.c\<close>) and most of their handlers (\<^verbatim>\<open>rwnx_msg_rx.c\<close>), which copy
  fields; the capabilities of \<^verbatim>\<open>rwnx_mod_params.c\<close>; debug, vendor and test interfaces; USB, PCI, IPC and mesh,
  TDLS, beamforming and bridge code that the build leaves out; the GPIO and out-of-band wake-up of the
  card, which is switched off; Bluetooth power management, whose work functions are compiled out; the board files and boot
  loaders of the SDK, which are register sequences, headers and calls into closed libraries; firmware
  images and regulatory tables, which are data.
\<close>

end
